(* ===== verification/Prelude.thy ===== *)
theory Prelude imports Main "HOL-Library.Word" "HOL-Library.Multiset" begin

text \<open>
  Shared vocabulary of the development: machine words, byte strings, the result type of
  fallible Go functions, big-endian byte codes and the contract of \<open>sort.Slice\<close>.
\<close>

unbundle bit_operations_syntax

text \<open>Comparisons of words, read as natural numbers.\<close>

named_theorems word_nat_alts
declare word_less_nat_alt [word_nat_alts] word_le_nat_alt [word_nat_alts]

section \<open>Types\<close>

type_synonym byte = "8 word"
type_synonym u16 = "16 word"
type_synonym u32 = "32 word"
type_synonym u64 = "64 word"

text \<open>
  A Go function that returns \<open>(T, error)\<close> and may panic: \<open>Ok\<close> a value, \<open>Err\<close> an error
  return, \<open>Panic\<close> a run-time panic (index out of range, explicit \<open>panic\<close>).
\<close>

datatype ('e, 'a) res = Ok 'a | Err 'e | Panic

fun rbind :: "('e, 'a) res \<Rightarrow> ('a \<Rightarrow> ('e, 'b) res) \<Rightarrow> ('e, 'b) res" where
  "rbind (Ok x) f = f x"
| "rbind (Err e) f = Err e"
| "rbind Panic f = Panic"

lemma rbind_eq_Ok [simp]: "rbind r f = Ok y \<longleftrightarrow> (\<exists>x. r = Ok x \<and> f x = Ok y)"
  by (cases r) auto

lemma rbind_eq_Panic: "rbind r f = Panic \<longleftrightarrow> r = Panic \<or> (\<exists>x. r = Ok x \<and> f x = Panic)"
  by (cases r) auto

lemma option_eq_iffI: "(\<And>y. x = Some y \<longleftrightarrow> z = Some y) \<Longrightarrow> x = z"
  by (metis option.exhaust)

lemma unat_of_nat64: "n < 2 ^ 64 \<Longrightarrow> unat (word_of_nat n :: u64) = n"
  by (simp add: unat_of_nat take_bit_eq_mod)

lemma unat_of_nat32: "n < 2 ^ 32 \<Longrightarrow> unat (word_of_nat n :: u32) = n"
  by (simp add: unat_of_nat take_bit_eq_mod)

lemma rbind_Err: "rbind r f = Err e \<Longrightarrow> (r = Err e \<Longrightarrow> P) \<Longrightarrow> (\<And>x. r = Ok x \<Longrightarrow> f x = Err e \<Longrightarrow> P) \<Longrightarrow> P"
  by (cases r) auto

text \<open>Recursive calls below \<open>rbind\<close> run only when its first argument is \<open>Ok\<close>.\<close>

lemma rbind_cong [fundef_cong]:
  "r = r' \<Longrightarrow> (\<And>x. r' = Ok x \<Longrightarrow> f x = g x) \<Longrightarrow> rbind r f = rbind r' g"
  by (cases r') auto

section \<open>Strings and bytes\<close>

text \<open>A Go string is a sequence of bytes; \<open>[]byte(s)\<close> and \<open>string(b)\<close> convert.\<close>

definition byte_of :: "char \<Rightarrow> byte" where
  "byte_of c = word_of_nat (of_char c)"

definition char_of_byte :: "byte \<Rightarrow> char" where
  "char_of_byte b = char_of (unat b)"

definition str_bytes :: "string \<Rightarrow> byte list" where
  "str_bytes s = map byte_of s"

definition bytes_str :: "byte list \<Rightarrow> string" where
  "bytes_str bs = map char_of_byte bs"

lemma unat_byte_lt [simp]: "unat (b :: byte) < 256"
  using unsigned_less [of b, where 'a = nat] by simp

lemma unat_u16_lt [simp]: "unat (w :: u16) < 65536"
  using unsigned_less [of w, where 'a = nat] by simp

lemma unat_u32_lt [simp]: "unat (w :: u32) < 4294967296"
  using unsigned_less [of w, where 'a = nat] by simp

lemma unat_u64_lt [simp]: "unat (w :: u64) < 18446744073709551616"
  using unsigned_less [of w, where 'a = nat] by simp

lemma unat_byte_of [simp]: "unat (byte_of c) = of_char c"
  by (simp add: byte_of_def unat_of_nat take_bit_nat_def take_bit_eq_mod)

lemma char_of_byte_of [simp]: "char_of_byte (byte_of c) = c"
  by (simp add: char_of_byte_def)

lemma byte_of_char_of_byte [simp]: "byte_of (char_of_byte b) = b"
  by (simp add: char_of_byte_def byte_of_def)

lemma bytes_str_str_bytes [simp]: "bytes_str (str_bytes s) = s"
  by (simp add: bytes_str_def str_bytes_def comp_def)

lemma str_bytes_bytes_str [simp]: "str_bytes (bytes_str bs) = bs"
  by (simp add: bytes_str_def str_bytes_def comp_def)

lemma length_str_bytes [simp]: "length (str_bytes s) = length s"
  by (simp add: str_bytes_def)

lemma length_bytes_str [simp]: "length (bytes_str s) = length s"
  by (simp add: bytes_str_def)

lemma str_bytes_append [simp]: "str_bytes (s @ t) = str_bytes s @ str_bytes t"
  by (simp add: str_bytes_def)

lemma str_bytes_Nil [simp]: "str_bytes [] = []"
  by (simp add: str_bytes_def)

lemma str_bytes_Cons [simp]: "str_bytes (c # s) = byte_of c # str_bytes s"
  by (simp add: str_bytes_def)

lemma str_bytes_inject [simp]: "str_bytes s = str_bytes t \<longleftrightarrow> s = t"
  by (metis bytes_str_str_bytes)

section \<open>Big-endian codes (\<open>encoding/binary\<close>, \<open>BigEndian\<close>)\<close>

fun be_nat :: "nat \<Rightarrow> nat \<Rightarrow> byte list" where
  "be_nat 0 k = []"
| "be_nat (Suc n) k = be_nat n (k div 256) @ [word_of_nat k]"

definition un_be :: "byte list \<Rightarrow> nat" where
  "un_be bs = foldl (\<lambda>a b. a * 256 + unat b) 0 bs"

definition be32 :: "u32 \<Rightarrow> byte list" where
  "be32 w = be_nat 4 (unat w)"

definition be64 :: "u64 \<Rightarrow> byte list" where
  "be64 w = be_nat 8 (unat w)"

definition un_be32 :: "byte list \<Rightarrow> u32" where
  "un_be32 bs = word_of_nat (un_be bs)"

definition un_be64 :: "byte list \<Rightarrow> u64" where
  "un_be64 bs = word_of_nat (un_be bs)"

lemma length_be_nat [simp]: "length (be_nat n k) = n"
  by (induction n arbitrary: k) auto

lemma un_be_snoc [simp]: "un_be (bs @ [b]) = un_be bs * 256 + unat b"
  by (simp add: un_be_def)

lemma un_be_Nil [simp]: "un_be [] = 0"
  by (simp add: un_be_def)

lemma un_be_be_nat: "un_be (be_nat n k) = k mod 256 ^ n"
proof (induction n arbitrary: k)
  case 0
  then show ?case by simp
next
  case (Suc n)
  have "unat (word_of_nat k :: byte) = k mod 256"
    by (simp add: unat_of_nat take_bit_eq_mod)
  then have "un_be (be_nat (Suc n) k) = (k div 256) mod 256 ^ n * 256 + k mod 256"
    using Suc.IH by simp
  also have "\<dots> = k mod (256 * 256 ^ n)"
    by (simp add: mod_mult2_eq)
  finally show ?case by simp
qed

lemma be_nat_un_be: "be_nat (length bs) (un_be bs) = bs"
proof (induction bs rule: rev_induct)
  case Nil
  then show ?case by simp
next
  case (snoc b bs)
  have "(un_be bs * 256 + unat b) div 256 = un_be bs"
    by simp
  moreover have "(word_of_nat (un_be bs * 256 + unat b) :: byte) = b"
    by (rule word_unat_eq_iff [THEN iffD2]) (simp add: unat_of_nat take_bit_eq_mod del: of_nat_add of_nat_mult)
  ultimately show ?case using snoc.IH by simp
qed

lemma un_be_lt: "un_be bs < 256 ^ length bs"
proof (induction bs rule: rev_induct)
  case (snoc b bs)
  have "un_be bs * 256 + unat b < (un_be bs + 1) * 256" by simp
  also have "\<dots> \<le> 256 ^ length bs * 256" using snoc by simp
  finally show ?case by (simp add: mult.commute)
qed simp

lemma length_be32 [simp]: "length (be32 w) = 4"
  by (simp add: be32_def)

lemma length_be64 [simp]: "length (be64 w) = 8"
  by (simp add: be64_def)

lemma un_be32_be32 [simp]: "un_be32 (be32 w) = w"
  by (simp add: un_be32_def be32_def un_be_be_nat)

lemma un_be64_be64 [simp]: "un_be64 (be64 w) = w"
  by (simp add: un_be64_def be64_def un_be_be_nat)

lemma be32_un_be32: "length bs = 4 \<Longrightarrow> be32 (un_be32 bs) = bs"
  using un_be_lt [of bs] be_nat_un_be [of bs]
  by (simp add: un_be32_def be32_def unat_of_nat take_bit_eq_mod)

lemma be64_un_be64: "length bs = 8 \<Longrightarrow> be64 (un_be64 bs) = bs"
  using un_be_lt [of bs] be_nat_un_be [of bs]
  by (simp add: un_be64_def be64_def unat_of_nat take_bit_eq_mod)

section \<open>Sorting (\<open>sort.Slice\<close>)\<close>

text \<open>
  \<open>sort.Slice(xs, less)\<close> rearranges \<open>xs\<close> into an order in which no later element is
  smaller than an earlier one; the order of elements that are not smaller either way is not
  documented. The model is an insertion sort; what rests on it uses the contract
  \<open>slice_sort\<close> only.
\<close>

text \<open>A symmetric relation between all elements of a list does not depend on their order.\<close>

lemma sorted_wrt_perm:
  assumes "symp P" "mset xs = mset ys" "sorted_wrt P xs"
  shows "sorted_wrt P ys"
  using assms(2,3)
proof (induction xs arbitrary: ys)
  case Nil
  then show ?case by simp
next
  case (Cons x xs)
  then have "x \<in> set ys" by (metis list.set_intros(1) set_mset_mset)
  then obtain as bs where ys: "ys = as @ x # bs" by (auto dest: split_list)
  with Cons.prems have m: "mset xs = mset (as @ bs)" by simp
  then have "sorted_wrt P (as @ bs)" using Cons by simp
  moreover have "\<forall>y \<in> set (as @ bs). P x y"
    using Cons.prems(2) m by (metis set_mset_mset sorted_wrt.simps(2))
  ultimately show ?case
    using assms(1) by (auto simp: ys sorted_wrt_append symp_def)
qed

fun insert_by :: "('a \<Rightarrow> 'a \<Rightarrow> bool) \<Rightarrow> 'a \<Rightarrow> 'a list \<Rightarrow> 'a list" where
  "insert_by lt x [] = [x]"
| "insert_by lt x (y # ys) = (if lt y x then y # insert_by lt x ys else x # y # ys)"

fun sort_slice :: "('a \<Rightarrow> 'a \<Rightarrow> bool) \<Rightarrow> 'a list \<Rightarrow> 'a list" where
  "sort_slice lt [] = []"
| "sort_slice lt (x # xs) = insert_by lt x (sort_slice lt xs)"

locale slice_sort =
  fixes lt :: "'a \<Rightarrow> 'a \<Rightarrow> bool"
    and srt :: "'a list \<Rightarrow> 'a list"
  assumes srt_perm: "mset (srt xs) = mset xs"
    and srt_sorted: "sorted_wrt (\<lambda>x y. \<not> lt y x) (srt xs)"
begin

lemma set_srt: "set (srt xs) = set xs"
  using srt_perm by (metis set_mset_mset)

lemma length_srt: "length (srt xs) = length xs"
  using srt_perm by (metis size_mset)

lemma srt_Nil_iff: "srt xs = [] \<longleftrightarrow> xs = []"
  using length_srt [of xs] by (cases xs) auto

end

lemma mset_insert_by: "mset (insert_by lt x xs) = add_mset x (mset xs)"
  by (induction xs) auto

lemma mset_sort_slice: "mset (sort_slice lt xs) = mset xs"
  by (induction xs) (auto simp: mset_insert_by)

lemma set_insert_by: "set (insert_by lt x xs) = insert x (set xs)"
  by (induction xs) auto

definition weak_order :: "('a \<Rightarrow> 'a \<Rightarrow> bool) \<Rightarrow> bool" where
  "weak_order lt \<longleftrightarrow> (\<forall>x y. lt x y \<longrightarrow> \<not> lt y x) \<and>
     (\<forall>x y z. \<not> lt y x \<longrightarrow> \<not> lt z y \<longrightarrow> \<not> lt z x)"

lemma sorted_insert_by:
  assumes w: "weak_order lt" and s: "sorted_wrt (\<lambda>x y. \<not> lt y x) xs"
  shows "sorted_wrt (\<lambda>x y. \<not> lt y x) (insert_by lt x xs)"
  using s
proof (induction xs)
  case Nil
  then show ?case by simp
next
  case (Cons y ys)
  show ?case
  proof (cases "lt y x")
    case True
    then have "\<not> lt x y" using w unfolding weak_order_def by blast
    with True Cons show ?thesis by (simp add: set_insert_by)
  next
    case False
    have "\<not> lt z x" if "z \<in> set ys" for z
    proof -
      from that Cons.prems have "\<not> lt z y" by simp
      with False w show ?thesis unfolding weak_order_def by blast
    qed
    with False Cons.prems show ?thesis by simp
  qed
qed

lemma sort_slice_contract:
  assumes "weak_order lt"
  shows "slice_sort lt (sort_slice lt)"
proof
  show "mset (sort_slice lt xs) = mset xs" for xs
    by (rule mset_sort_slice)
  show "sorted_wrt (\<lambda>x y. \<not> lt y x) (sort_slice lt xs)" for xs
    by (induction xs) (simp_all add: sorted_insert_by [OF assms])
qed

end
