(* ===== verification/Align.thy ===== *)
theory Align imports Prelude begin

text \<open>
  \<open>pkg/align/align.go\<close>: alignment of unsigned integers by bit masks. Sizes are Go's
  \<open>uint\<close> on a 64-bit target; the page size is \<open>os.Getpagesize()\<close>, 4096 here.
\<close>

definition pageSize :: u64 where
  "pageSize = 4096"

definition Up :: "u64 \<Rightarrow> u64 \<Rightarrow> u64" where
  "Up v alignSize = (let mask = alignSize - 1 in (v + mask) AND NOT mask)"

definition Down :: "u64 \<Rightarrow> u64 \<Rightarrow> u64" where
  "Down v alignSize = Up (v - (alignSize - 1)) alignSize"

definition UpPage :: "u64 \<Rightarrow> u64" where
  "UpPage v = Up v pageSize"

definition DownPage :: "u64 \<Rightarrow> u64" where
  "DownPage v = Down v pageSize"

section \<open>What alignment computes\<close>

lemma and_not_mask_push_drop: "(x :: u64) AND NOT (mask k) = push_bit k (drop_bit k x)"
  by (rule bit_word_eqI) (auto simp: bit_simps)

lemma unat_and_not_mask: "unat ((x :: u64) AND NOT (mask k)) = unat x div 2 ^ k * 2 ^ k"
proof -
  have "unat x div 2 ^ k * 2 ^ k \<le> unat x" by simp
  then have "unat x div 2 ^ k * 2 ^ k < 2 ^ 64"
    by (rule le_less_trans) simp
  moreover have "unat (x AND NOT (mask k)) = take_bit 64 (push_bit k (drop_bit k (unat x)))"
    by (simp only: and_not_mask_push_drop unsigned_push_bit_eq unsigned_drop_bit_eq)
       (simp add: take_bit_eq_mod)
  ultimately show ?thesis
    by (simp add: push_bit_eq_mult drop_bit_eq_div take_bit_eq_mod)
qed

lemma Up_pow2: "Up v (2 ^ k) = (v + mask k) AND NOT (mask k)"
  by (simp add: Up_def mask_eq_exp_minus_1 Let_def)

text \<open>Rounding up without overflow, read as natural numbers.\<close>

lemma unat_Up:
  assumes k: "k < 64" and ov: "unat v + (2 ^ k - 1) < 2 ^ 64"
  shows "unat (Up v (2 ^ k)) = (unat v + (2 ^ k - 1)) div 2 ^ k * 2 ^ k"
proof -
  have "unat (mask k :: u64) = mask k"
  proof -
    have "(mask k :: u64) = take_bit k (- 1)" by simp
    then have "unat (mask k :: u64) = take_bit k (unat (- 1 :: u64))"
      by (simp only: unsigned_take_bit_eq)
    also have "\<dots> = take_bit k (mask 64)"
      by (simp only: unsigned_minus_1_eq_mask) simp
    also have "\<dots> = mask k" using k by (simp only: take_bit_of_mask min_def) simp
    finally show ?thesis .
  qed
  then have "unat (mask k :: u64) = 2 ^ k - 1" by (simp only: mask_eq_exp_minus_1)
  with ov have "unat (v + mask k) = unat v + (2 ^ k - 1)"
    by (simp add: unat_word_ariths)
  then show ?thesis by (simp add: Up_pow2 unat_and_not_mask)
qed

lemma ceil_mult:
  fixes m c :: nat
  assumes "0 < m"
  shows "(m * c + (m - 1)) div m = c"
  using assms by (intro div_nat_eqI) auto

lemma div_mult_ceil:
  fixes n m :: nat
  assumes "0 < m"
  shows "n \<le> (n + (m - 1)) div m * m" and "(n + (m - 1)) div m * m < n + m"
    and "m dvd n \<Longrightarrow> (n + (m - 1)) div m * m = n"
proof -
  have e: "(n + (m - 1)) div m * m + (n + (m - 1)) mod m = n + (m - 1)" by simp
  have r: "(n + (m - 1)) mod m < m" using assms by simp
  from e r show "n \<le> (n + (m - 1)) div m * m" by linarith
  from e assms show "(n + (m - 1)) div m * m < n + m" by linarith
  show "m dvd n \<Longrightarrow> (n + (m - 1)) div m * m = n"
    using ceil_mult [OF assms] by (auto elim!: dvdE simp: mult.commute)
qed

lemma Up_ge:
  "k < 64 \<Longrightarrow> unat v + (2 ^ k - 1) < 2 ^ 64 \<Longrightarrow> unat v \<le> unat (Up v (2 ^ k))"
  using div_mult_ceil(1) [of "2 ^ k" "unat v"] by (simp add: unat_Up)

lemma Up_lt:
  "k < 64 \<Longrightarrow> unat v + (2 ^ k - 1) < 2 ^ 64 \<Longrightarrow> unat (Up v (2 ^ k)) < unat v + 2 ^ k"
  using div_mult_ceil(2) [of "2 ^ k" "unat v"] by (simp add: unat_Up)

lemma Up_dvd: "2 ^ k dvd unat (Up v (2 ^ k))"
  by (simp add: Up_pow2 unat_and_not_mask)

text \<open>The least multiple: anything aligned above \<open>v\<close> is above \<open>Up v\<close>.\<close>

lemma Up_least:
  assumes "k < 64" "unat v + (2 ^ k - 1) < 2 ^ 64" "2 ^ k dvd n" "unat v \<le> n"
  shows "unat (Up v (2 ^ k)) \<le> n"
proof -
  obtain c where n: "n = 2 ^ k * c" using assms(3) by (auto elim: dvdE)
  have "(unat v + (2 ^ k - 1)) div 2 ^ k \<le> (2 ^ k * c + (2 ^ k - 1)) div 2 ^ k"
    using assms(4) n by (intro div_le_mono) simp
  also have "\<dots> = c" by (rule ceil_mult) simp
  finally show ?thesis using assms(1,2) by (simp add: unat_Up n mult.commute)
qed

lemma pageSize_pow2: "pageSize = 2 ^ 12"
  by (simp add: pageSize_def)

lemma UpPage_ge: "unat v + 4095 < 2 ^ 64 \<Longrightarrow> unat v \<le> unat (UpPage v)"
  using Up_ge [of 12 v] by (simp add: UpPage_def pageSize_def)

lemma UpPage_lt: "unat v + 4095 < 2 ^ 64 \<Longrightarrow> unat (UpPage v) < unat v + 4096"
  using Up_lt [of 12 v] by (simp add: UpPage_def pageSize_def)

lemma UpPage_dvd: "4096 dvd unat (UpPage v)"
  using Up_dvd [of 12 v] by (simp add: UpPage_def pageSize_def)

lemma UpPage_least:
  "unat v + 4095 < 2 ^ 64 \<Longrightarrow> 4096 dvd n \<Longrightarrow> unat v \<le> n \<Longrightarrow> unat (UpPage v) \<le> n"
  using Up_least [of 12 v n] by (simp add: UpPage_def pageSize_def)

lemma UpPage_eq: "4096 dvd unat v \<Longrightarrow> unat v + 4095 < 2 ^ 64 \<Longrightarrow> UpPage v = v"
  using UpPage_least [of v "unat v"] UpPage_ge [of v] by (simp add: word_unat_eq_iff)

text \<open>\<open>Down\<close> is rounding down; the subtraction in it may wrap, and is undone by \<open>Up\<close>.\<close>

lemma Down_pow2: "Down v (2 ^ k) = v AND NOT (mask k)"
  by (simp add: Down_def Up_pow2 mask_eq_exp_minus_1)

lemma unat_Down: "unat (Down v (2 ^ k)) = unat v div 2 ^ k * 2 ^ k"
  by (simp add: Down_pow2 unat_and_not_mask)

end
