(* ===== verification/UioLexer.thy ===== *)
theory UioLexer imports Align begin

text \<open>
  \<open>pkg/uio/buffer.go\<close>: \<open>Buffer\<close> and \<open>Lexer\<close>, the encoder and decoder of binary structures.
  The contract of a field (\<open>field_codec\<close>: what writing appends, reading consumes) is a locale
  that the 8, 16, 32 and 64 bit fields satisfy; sequences of fields round-trip inside it.
\<close>

section \<open>Buffer\<close>

datatype endian = BigEndian | LittleEndian

datatype lexer_error =
    ErrTooShort nat nat nat
  | ErrMoreBytes
  | ErrObject string

text \<open>\<open>nildata\<close>: the data slice is \<open>nil\<close>, which \<open>Consume\<close> of zero bytes passes on.\<close>

record Buffer =
  data :: "byte list"
  nildata :: bool
  byteCount :: nat

definition NewBuffer :: "byte list option \<Rightarrow> Buffer" where
  "NewBuffer b = \<lparr>data = (case b of None \<Rightarrow> [] | Some bs \<Rightarrow> bs), nildata = (b = None), byteCount = 0\<rparr>"

definition WriteN :: "Buffer \<Rightarrow> nat \<Rightarrow> Buffer" where
  "WriteN b n = b\<lparr>data := data b @ replicate n 0, nildata := (nildata b \<and> n = 0)\<rparr>"

definition Buffer_Len :: "Buffer \<Rightarrow> nat" where
  "Buffer_Len b = length (data b)"

definition Has :: "Buffer \<Rightarrow> nat \<Rightarrow> bool" where
  "Has b n \<longleftrightarrow> length (data b) \<ge> n"

text \<open>The slice read is \<open>None\<close> when it is a slice of \<open>nil\<close>.\<close>

definition ReadN :: "Buffer \<Rightarrow> nat \<Rightarrow> (lexer_error, byte list option \<times> Buffer) res" where
  "ReadN b n =
     (if \<not> Has b n then Err (ErrTooShort (byteCount b) (Buffer_Len b) n)
      else Ok (if nildata b then None else Some (take n (data b)),
               b\<lparr>data := drop n (data b), byteCount := byteCount b + n\<rparr>))"

text \<open>Filling the slice that \<open>WriteN\<close> returned, the last bytes of the buffer.\<close>

definition fill_tail :: "Buffer \<Rightarrow> byte list \<Rightarrow> Buffer" where
  "fill_tail b bs = b\<lparr>data := take (length (data b) - length bs) (data b) @ bs\<rparr>"

section \<open>Lexer\<close>

record Lexer =
  buf :: Buffer
  order :: endian
  err :: "lexer_error option"

definition NewLexer :: "Buffer \<Rightarrow> endian \<Rightarrow> Lexer" where
  "NewLexer b ord = \<lparr>buf = b, order = ord, err = None\<rparr>"

definition NewLittleEndianBuffer :: "byte list option \<Rightarrow> Lexer" where
  "NewLittleEndianBuffer b = \<lparr>buf = NewBuffer b, order = LittleEndian, err = None\<rparr>"

definition NewBigEndianBuffer :: "byte list option \<Rightarrow> Lexer" where
  "NewBigEndianBuffer b = \<lparr>buf = NewBuffer b, order = BigEndian, err = None\<rparr>"

definition NewNativeEndianBuffer :: "endian \<Rightarrow> byte list option \<Rightarrow> Lexer" where
  "NewNativeEndianBuffer NativeEndian b = \<lparr>buf = NewBuffer b, order = NativeEndian, err = None\<rparr>"

definition Data :: "Lexer \<Rightarrow> byte list" where
  "Data l = data (buf l)"

definition setError :: "Lexer \<Rightarrow> lexer_error option \<Rightarrow> Lexer" where
  "setError l e = (if err l = None then l\<lparr>err := e\<rparr> else l)"

definition Consume :: "Lexer \<Rightarrow> nat \<Rightarrow> byte list option \<times> Lexer" where
  "Consume l n =
     (case ReadN (buf l) n of
        Ok (v, b) \<Rightarrow> (v, l\<lparr>buf := b\<rparr>)
      | Err e \<Rightarrow> (None, setError l (Some e))
      | Panic \<Rightarrow> (None, l))"

definition lexer_append :: "Lexer \<Rightarrow> nat \<Rightarrow> Lexer" where
  "lexer_append l n = l\<lparr>buf := WriteN (buf l) n\<rparr>"

definition Error :: "Lexer \<Rightarrow> lexer_error option" where
  "Error l = err l"

definition FinError :: "Lexer \<Rightarrow> lexer_error option" where
  "FinError l =
     (if err l \<noteq> None then err l
      else if Buffer_Len (buf l) > 0 then Some ErrMoreBytes
      else None)"

text \<open>\<open>encoding/binary\<close>: the two byte orders.\<close>

fun put_uint :: "endian \<Rightarrow> nat \<Rightarrow> nat \<Rightarrow> byte list" where
  "put_uint BigEndian n k = be_nat n k"
| "put_uint LittleEndian n k = rev (be_nat n k)"

fun get_uint :: "endian \<Rightarrow> byte list \<Rightarrow> nat" where
  "get_uint BigEndian bs = un_be bs"
| "get_uint LittleEndian bs = un_be (rev bs)"

definition Read8 :: "Lexer \<Rightarrow> byte \<times> Lexer" where
  "Read8 l = (case Consume l 1 of (None, l') \<Rightarrow> (0, l') | (Some v, l') \<Rightarrow> (v ! 0, l'))"

definition Read16 :: "Lexer \<Rightarrow> u16 \<times> Lexer" where
  "Read16 l = (case Consume l 2 of (None, l') \<Rightarrow> (0, l')
     | (Some v, l') \<Rightarrow> (word_of_nat (get_uint (order l) v), l'))"

definition Read32 :: "Lexer \<Rightarrow> u32 \<times> Lexer" where
  "Read32 l = (case Consume l 4 of (None, l') \<Rightarrow> (0, l')
     | (Some v, l') \<Rightarrow> (word_of_nat (get_uint (order l) v), l'))"

definition Read64 :: "Lexer \<Rightarrow> u64 \<times> Lexer" where
  "Read64 l = (case Consume l 8 of (None, l') \<Rightarrow> (0, l')
     | (Some v, l') \<Rightarrow> (word_of_nat (get_uint (order l) v), l'))"

definition CopyN :: "Lexer \<Rightarrow> nat \<Rightarrow> byte list option \<times> Lexer" where
  "CopyN l n = (case Consume l n of (None, l') \<Rightarrow> (None, l') | (Some v, l') \<Rightarrow> (Some v, l'))"

definition ReadAll :: "Lexer \<Rightarrow> byte list option \<times> Lexer" where
  "ReadAll l = CopyN l (Buffer_Len (buf l))"

text \<open>\<open>ReadBytes\<close> and \<open>Read\<close> return the new contents of the caller's slice.\<close>

definition ReadBytes :: "Lexer \<Rightarrow> byte list \<Rightarrow> byte list \<times> Lexer" where
  "ReadBytes l p = (case Consume l (length p) of (None, l') \<Rightarrow> (p, l') | (Some v, l') \<Rightarrow> (v, l'))"

definition Lexer_Read :: "Lexer \<Rightarrow> byte list \<Rightarrow> (byte list \<times> nat \<times> lexer_error option) \<times> Lexer" where
  "Lexer_Read l p =
     (case Consume l (length p) of
        (None, l') \<Rightarrow> ((p, 0, Error l'), l')
      | (Some v, l') \<Rightarrow> ((v, length v, None), l'))"

definition Write8 :: "byte \<Rightarrow> Lexer \<Rightarrow> Lexer" where
  "Write8 v l = (let l' = lexer_append l 1 in l'\<lparr>buf := fill_tail (buf l') [v]\<rparr>)"

definition Write16 :: "u16 \<Rightarrow> Lexer \<Rightarrow> Lexer" where
  "Write16 v l = (let l' = lexer_append l 2 in l'\<lparr>buf := fill_tail (buf l') (put_uint (order l) 2 (unat v))\<rparr>)"

definition Write32 :: "u32 \<Rightarrow> Lexer \<Rightarrow> Lexer" where
  "Write32 v l = (let l' = lexer_append l 4 in l'\<lparr>buf := fill_tail (buf l') (put_uint (order l) 4 (unat v))\<rparr>)"

definition Write64 :: "u64 \<Rightarrow> Lexer \<Rightarrow> Lexer" where
  "Write64 v l = (let l' = lexer_append l 8 in l'\<lparr>buf := fill_tail (buf l') (put_uint (order l) 8 (unat v))\<rparr>)"

definition Append :: "Lexer \<Rightarrow> nat \<Rightarrow> Lexer" where
  "Append l n = lexer_append l n"

definition WriteBytes :: "byte list \<Rightarrow> Lexer \<Rightarrow> Lexer" where
  "WriteBytes p l = (let l' = lexer_append l (length p) in l'\<lparr>buf := fill_tail (buf l') p\<rparr>)"

definition Lexer_Write :: "Lexer \<Rightarrow> byte list \<Rightarrow> nat \<times> Lexer" where
  "Lexer_Write l p = (let l' = lexer_append l (length p) in (length p, l'\<lparr>buf := fill_tail (buf l') p\<rparr>))"

text \<open>\<open>Append\<close> of a negative count panics.\<close>

definition Lexer_Align :: "Lexer \<Rightarrow> nat \<Rightarrow> (lexer_error, Lexer) res" where
  "Lexer_Align l n =
     (let pad = sint (Up (word_of_nat (Buffer_Len (buf l))) (word_of_nat n)) - int (Buffer_Len (buf l))
      in if pad < 0 then Panic else Ok (Append l (nat pad)))"

text \<open>
  \<open>ReadData\<close> and \<open>WriteData\<close> go through \<open>encoding/binary\<close>: the size, decoder and encoder of the
  object are parameters.
\<close>

definition ReadData :: "nat \<Rightarrow> (endian \<Rightarrow> byte list \<Rightarrow> 'a) \<Rightarrow> 'a \<Rightarrow> Lexer \<Rightarrow> 'a \<times> Lexer" where
  "ReadData n decode obj l =
     (if n = 0 then (decode (order l) [], l)
      else case Lexer_Read l (replicate n 0) of
        ((p, m, e), l') \<Rightarrow>
          if m < n then (obj, setError l' e) else (decode (order l) p, l'))"

definition WriteData :: "(endian \<Rightarrow> byte list) \<Rightarrow> Lexer \<Rightarrow> Lexer" where
  "WriteData encode l = snd (Lexer_Write l (encode (order l)))"

section \<open>Marshalling\<close>

text \<open>A \<open>Marshaler\<close> is what its \<open>Marshal\<close> method does to the lexer.\<close>

definition ToBytes :: "(Lexer \<Rightarrow> Lexer) \<Rightarrow> endian \<Rightarrow> byte list" where
  "ToBytes Marshal ord = Data (Marshal (NewLexer (NewBuffer None) ord))"

definition FromBytes :: "(Lexer \<Rightarrow> 'a) \<Rightarrow> byte list \<Rightarrow> endian \<Rightarrow> 'a" where
  "FromBytes Unmarshal b ord = Unmarshal (NewLexer (NewBuffer (Some b)) ord)"

definition ToBigEndian :: "(Lexer \<Rightarrow> Lexer) \<Rightarrow> byte list" where
  "ToBigEndian Marshal = Data (Marshal (NewBigEndianBuffer None))"

definition FromBigEndian :: "(Lexer \<Rightarrow> 'a) \<Rightarrow> byte list \<Rightarrow> 'a" where
  "FromBigEndian Unmarshal b = Unmarshal (NewBigEndianBuffer (Some b))"

definition ToLittleEndian :: "(Lexer \<Rightarrow> Lexer) \<Rightarrow> byte list" where
  "ToLittleEndian Marshal = Data (Marshal (NewLittleEndianBuffer None))"

definition FromLittleEndian :: "(Lexer \<Rightarrow> 'a) \<Rightarrow> byte list \<Rightarrow> 'a" where
  "FromLittleEndian Unmarshal b = Unmarshal (NewLittleEndianBuffer (Some b))"

section \<open>Fields\<close>

lemma get_put_uint: "get_uint e (put_uint e n k) = k mod 256 ^ n"
  by (cases e) (simp_all add: un_be_be_nat)

lemma length_put_uint [simp]: "length (put_uint e n k) = n"
  by (cases e) simp_all

text \<open>A lexer that still has all its data to read: a non-nil slice and no error so far.\<close>

definition readable :: "Lexer \<Rightarrow> bool" where
  "readable l \<longleftrightarrow> \<not> nildata (buf l) \<and> err l = None"

definition advance :: "Lexer \<Rightarrow> nat \<Rightarrow> Lexer" where
  "advance l n = l\<lparr>buf := (buf l)\<lparr>data := drop n (data (buf l)), byteCount := byteCount (buf l) + n\<rparr>\<rparr>"

lemma advance_simps [simp]:
  "Data (advance l n) = drop n (Data l)" "order (advance l n) = order l"
  "readable (advance l n) \<longleftrightarrow> readable l" "err (advance l n) = err l"
  by (simp_all add: advance_def Data_def readable_def)

lemma advance_advance: "advance (advance l m) n = advance l (m + n)"
  by (simp add: advance_def add.commute add.assoc)

lemma Consume_enough:
  "readable l \<Longrightarrow> n \<le> length (Data l) \<Longrightarrow> Consume l n = (Some (take n (Data l)), advance l n)"
  by (simp add: Consume_def ReadN_def Has_def Data_def readable_def advance_def)

lemma Consume_short:
  "length (Data l) < n \<Longrightarrow>
   Consume l n = (None, setError l (Some (ErrTooShort (byteCount (buf l)) (length (Data l)) n)))"
  by (simp add: Consume_def ReadN_def Has_def Data_def Buffer_Len_def)

lemma new_lexer [simp]:
  "Data (NewLexer (NewBuffer None) e) = []" "Data (NewLexer (NewBuffer (Some bs)) e) = bs"
  "order (NewLexer b e) = e" "err (NewLexer b e) = None" "readable (NewLexer (NewBuffer (Some bs)) e)"
  by (simp_all add: NewLexer_def NewBuffer_def Data_def readable_def)

locale field_codec =
  fixes put :: "'a \<Rightarrow> Lexer \<Rightarrow> Lexer"
    and get :: "Lexer \<Rightarrow> 'a \<times> Lexer"
    and enc :: "endian \<Rightarrow> 'a \<Rightarrow> byte list"
    and size :: nat
  assumes put_Data: "Data (put v l) = Data l @ enc (order l) v"
    and put_keeps: "order (put v l) = order l" "err (put v l) = err l"
    and enc_length: "length (enc e v) = size"
    and get_enc: "readable l \<Longrightarrow> Data l = enc (order l) v @ rest \<Longrightarrow> get l = (v, advance l size)"
    and get_short: "length (Data l) < size \<Longrightarrow> err (snd (get l)) \<noteq> None \<and> Data (snd (get l)) = Data l"
begin

fun put_all :: "'a list \<Rightarrow> Lexer \<Rightarrow> Lexer" where
  "put_all [] l = l"
| "put_all (v # vs) l = put_all vs (put v l)"

fun get_all :: "nat \<Rightarrow> Lexer \<Rightarrow> 'a list \<times> Lexer" where
  "get_all 0 l = ([], l)"
| "get_all (Suc n) l = (let (v, l') = get l; (vs, l'') = get_all n l' in (v # vs, l''))"

lemma put_all_Data: "Data (put_all vs l) = Data l @ concat (map (enc (order l)) vs)"
  by (induction vs arbitrary: l) (simp_all add: put_Data put_keeps)

lemma get_all_enc:
  "readable l \<Longrightarrow> Data l = concat (map (enc (order l)) vs) @ rest \<Longrightarrow>
   get_all (length vs) l = (vs, advance l (size * length vs))"
proof (induction vs arbitrary: l)
  case Nil
  then show ?case by (simp add: advance_def)
next
  case (Cons v vs)
  then have g: "get l = (v, advance l size)" by (intro get_enc) simp_all
  have "Data (advance l size) = concat (map (enc (order (advance l size))) vs) @ rest"
    using Cons.prems(2) enc_length [of "order l" v] by simp
  from Cons.IH [OF _ this] Cons.prems(1) g show ?case by (simp add: advance_advance)
qed

lemma length_enc_all: "length (concat (map (enc e) vs)) = size * length vs"
  by (induction vs) (simp_all add: enc_length)

lemma round_trip:
  "get_all (length vs) (NewLexer (NewBuffer (Some (ToBytes (put_all vs) e))) e) =
     (vs, advance (NewLexer (NewBuffer (Some (ToBytes (put_all vs) e))) e) (size * length vs))"
  by (rule get_all_enc [where rest = "[]"])
    (simp_all add: ToBytes_def put_all_Data)

end

section \<open>The integer fields satisfy the contract\<close>

lemma fill_tail_WriteN:
  "data (fill_tail (WriteN b (length bs)) bs) = data b @ bs"
  by (simp add: fill_tail_def WriteN_def)

lemma Write_Data:
  "Data (Write8 v8 l) = Data l @ [v8]"
  "Data (Write16 v16 l) = Data l @ put_uint (order l) 2 (unat v16)"
  "Data (Write32 v32 l) = Data l @ put_uint (order l) 4 (unat v32)"
  "Data (Write64 v64 l) = Data l @ put_uint (order l) 8 (unat v64)"
  "Data (WriteBytes p l) = Data l @ p"
  using fill_tail_WriteN [of "buf l" "[v8]"] fill_tail_WriteN [of "buf l" "put_uint (order l) 2 (unat v16)"]
    fill_tail_WriteN [of "buf l" "put_uint (order l) 4 (unat v32)"]
    fill_tail_WriteN [of "buf l" "put_uint (order l) 8 (unat v64)"] fill_tail_WriteN [of "buf l" p]
  by (simp_all add: Write8_def Write16_def Write32_def Write64_def WriteBytes_def lexer_append_def Data_def Let_def)

lemmas Read_defs = Read8_def Read16_def Read32_def Read64_def

lemma setError_short: "err (setError l (Some e)) \<noteq> None" "Data (setError l e') = Data l"
  by (auto simp: setError_def Data_def)

interpretation f8: field_codec Write8 Read8 "\<lambda>e v. [v]" 1
  by unfold_locales
    (simp_all add: Write_Data Read_defs Consume_enough Consume_short setError_short,
      simp_all add: Write8_def lexer_append_def Let_def)

interpretation f16: field_codec Write16 Read16 "\<lambda>e v. put_uint e 2 (unat v)" 2
  by unfold_locales
    (simp_all add: Write_Data Read_defs Consume_enough Consume_short setError_short get_put_uint,
      simp_all add: Write16_def lexer_append_def Let_def)

interpretation f32: field_codec Write32 Read32 "\<lambda>e v. put_uint e 4 (unat v)" 4
  by unfold_locales
    (simp_all add: Write_Data Read_defs Consume_enough Consume_short setError_short get_put_uint,
      simp_all add: Write32_def lexer_append_def Let_def)

interpretation f64: field_codec Write64 Read64 "\<lambda>e v. put_uint e 8 (unat v)" 8
  by unfold_locales
    (simp_all add: Write_Data Read_defs Consume_enough Consume_short setError_short get_put_uint,
      simp_all add: Write64_def lexer_append_def Let_def)

section \<open>Errors stick\<close>

lemma Consume_err: "err l \<noteq> None \<Longrightarrow> err (snd (Consume l n)) = err l"
  by (auto simp: Consume_def setError_def split: res.splits)

lemma Read_err:
  "err l \<noteq> None \<Longrightarrow> err (snd (Read8 l)) = err l" "err l \<noteq> None \<Longrightarrow> err (snd (Read16 l)) = err l"
  "err l \<noteq> None \<Longrightarrow> err (snd (Read32 l)) = err l" "err l \<noteq> None \<Longrightarrow> err (snd (Read64 l)) = err l"
  using Consume_err [of l] by (auto simp: Read_defs split: prod.splits option.splits) (metis snd_conv)+

text \<open>A structure of four fields, one of each width, through the lexer and back.\<close>

definition write_fields :: "byte \<times> u16 \<times> u32 \<times> u64 \<Rightarrow> Lexer \<Rightarrow> Lexer" where
  "write_fields r l = (case r of (a, b, c, d) \<Rightarrow> Write64 d (Write32 c (Write16 b (Write8 a l))))"

definition read_fields :: "Lexer \<Rightarrow> (byte \<times> u16 \<times> u32 \<times> u64) \<times> Lexer" where
  "read_fields l =
     (let (a, l1) = Read8 l; (b, l2) = Read16 l1; (c, l3) = Read32 l2; (d, l4) = Read64 l3
      in ((a, b, c, d), l4))"

lemma read_write_fields:
  "\<exists>l'. FromBytes read_fields (ToBytes (write_fields r) e) e = (r, l') \<and> FinError l' = None"
proof -
  obtain a b c d where r: "r = (a, b, c, d)" by (metis prod.exhaust)
  let ?l = "NewLexer (NewBuffer (Some (ToBytes (write_fields r) e))) e"
  have D: "Data ?l = [a] @ put_uint e 2 (unat b) @ put_uint e 4 (unat c) @ put_uint e 8 (unat d) @ []"
    by (simp add: ToBytes_def write_fields_def r Write_Data f8.put_keeps f16.put_keeps f32.put_keeps)
  have R: "readable ?l" "order ?l = e" "err ?l = None" by simp_all
  note g8 = f8.get_enc [OF R(1) D]
  have D2: "Data (advance ?l 1) = put_uint (order (advance ?l 1)) 2 (unat b) @ put_uint e 4 (unat c) @
      put_uint e 8 (unat d) @ []"
    using D R(2) by simp
  note g16 = f16.get_enc [OF _ D2]
  have D3: "Data (advance ?l 3) = put_uint (order (advance ?l 3)) 4 (unat c) @ put_uint e 8 (unat d) @ []"
    using D R(2) by simp
  note g32 = f32.get_enc [OF _ D3]
  have D4: "Data (advance ?l 7) = put_uint (order (advance ?l 7)) 8 (unat d) @ []"
    using D R(2) by simp
  note g64 = f64.get_enc [OF _ D4]
  have "read_fields ?l = (r, advance ?l 15)"
    using g8 g16 g32 g64 R(1) by (simp add: read_fields_def r advance_advance numeral_3_eq_3)
  moreover have "FinError (advance ?l 15) = None"
    using D R(3) by (simp add: FinError_def Buffer_Len_def Data_def [symmetric])
  ultimately show ?thesis by (simp add: FromBytes_def)
qed

end
