(* ===== verification/GoStd.thy ===== *)
theory GoStd imports Prelude begin

text \<open>
  The parts of the Go standard library that several components use: searching and splitting
  byte strings, conversion of a byte to a string, readers and writers with their contracts
  (\<open>source\<close>, \<open>sink\<close>), sequencing with state, and padding to four bytes.
\<close>

section \<open>Searching and splitting (\<open>bytes\<close>, \<open>strings\<close>)\<close>

text \<open>\<open>IndexByte\<close> and \<open>LastIndexByte\<close>; \<open>None\<close> stands for -1.\<close>

fun IndexByte :: "'a list \<Rightarrow> 'a \<Rightarrow> nat option" where
  "IndexByte [] c = None"
| "IndexByte (x # xs) c = (if x = c then Some 0 else map_option Suc (IndexByte xs c))"

fun LastIndexByte :: "'a list \<Rightarrow> 'a \<Rightarrow> nat option" where
  "LastIndexByte [] c = None"
| "LastIndexByte (x # xs) c =
     (case LastIndexByte xs c of Some i \<Rightarrow> Some (Suc i) | None \<Rightarrow> if x = c then Some 0 else None)"

text \<open>\<open>Split\<close> with a separator of one element.\<close>

fun split_on :: "'a \<Rightarrow> 'a list \<Rightarrow> 'a list list" where
  "split_on c [] = [[]]"
| "split_on c (x # xs) =
     (if x = c then [] # split_on c xs
      else case split_on c xs of [] \<Rightarrow> [[x]] | (y # ys) \<Rightarrow> (x # y) # ys)"

lemma IndexByte_None: "IndexByte xs c = None \<longleftrightarrow> c \<notin> set xs"
  by (induction xs) auto

lemma IndexByte_append: "c \<notin> set xs \<Longrightarrow> IndexByte (xs @ c # ys) c = Some (length xs)"
  by (induction xs) auto

lemma IndexByte_Some:
  "IndexByte xs c = Some i \<Longrightarrow> i < length xs \<and> xs ! i = c \<and> c \<notin> set (take i xs)"
  by (induction xs arbitrary: i) (auto split: if_splits)

lemma LastIndexByte_None: "LastIndexByte xs c = None \<longleftrightarrow> c \<notin> set xs"
  by (induction xs) (auto split: option.splits)

lemma LastIndexByte_Some:
  "LastIndexByte xs c = Some i \<Longrightarrow> i < length xs \<and> xs ! i = c \<and> c \<notin> set (drop (Suc i) xs)"
  by (induction xs arbitrary: i) (auto split: option.splits if_splits simp: LastIndexByte_None)

lemma split_on_not_Nil [simp]: "split_on c xs \<noteq> []"
  by (induction xs) (auto split: list.splits)

lemma split_on_no_sep: "c \<notin> set xs \<Longrightarrow> split_on c xs = [xs]"
  by (induction xs) auto

lemma split_on_append_sep: "split_on c (xs @ c # ys) = split_on c xs @ split_on c ys"
  by (induction xs) (auto split: list.splits)

lemma split_on_parts: "x \<in> set (split_on c xs) \<Longrightarrow> c \<notin> set x"
proof (induction xs arbitrary: x)
  case (Cons a xs)
  then show ?case by (cases "split_on c xs") (auto split: if_splits)
qed auto

section \<open>Bytes as strings\<close>

text \<open>\<open>string(b)\<close> for a byte \<open>b\<close> is the UTF-8 encoding of the code point \<open>b\<close>.\<close>

definition string_of_byte :: "byte \<Rightarrow> string" where
  "string_of_byte b =
     (if b < 128 then [char_of_byte b]
      else [char_of_byte (0xC0 OR drop_bit 6 b), char_of_byte (0x80 OR (b AND 0x3F))])"

section \<open>Readers and writers (\<open>io\<close>)\<close>

datatype io_error = EOF | UnexpectedEOF | IoError string

text \<open>
  A reader takes its state and the length of the buffer; it returns the bytes read, the error
  and its new state. \<open>stream_Read\<close> is a reader over bytes in memory.
\<close>

type_synonym 's reader = "'s \<Rightarrow> nat \<Rightarrow> byte list \<times> io_error option \<times> 's"

definition stream_Read :: "byte list reader" where
  "stream_Read rest n =
     (if n > 0 \<and> rest = [] then ([], Some EOF, []) else (take n rest, None, drop n rest))"

text \<open>\<open>io.ReadFull\<close> on bytes in memory.\<close>

definition ReadFull :: "byte list \<Rightarrow> nat \<Rightarrow> (io_error, byte list \<times> byte list) res" where
  "ReadFull rest n =
     (if n \<le> length rest then Ok (take n rest, drop n rest)
      else if rest = [] then Err EOF
      else Err UnexpectedEOF)"

text \<open>
  Sequencing of functions that change a state \<open>'s\<close> and may fail; the state at the failure is kept.
\<close>

definition sbind :: "('s \<Rightarrow> ('e, 'a) res \<times> 's) \<Rightarrow> ('a \<Rightarrow> 's \<Rightarrow> ('e, 'b) res \<times> 's) \<Rightarrow> 's \<Rightarrow> ('e, 'b) res \<times> 's" where
  "sbind f g s = (case f s of (Ok x, s') \<Rightarrow> g x s' | (Err e, s') \<Rightarrow> (Err e, s') | (Panic, s') \<Rightarrow> (Panic, s'))"

definition sreturn :: "'a \<Rightarrow> 's \<Rightarrow> ('e, 'a) res \<times> 's" where
  "sreturn x s = (Ok x, s)"

lemma sbind_Ok: "f s = (Ok x, s') \<Longrightarrow> sbind f g s = g x s'"
  by (simp add: sbind_def)

lemma sbind_eq_Ok:
  "sbind f g s = (Ok y, s'') \<longleftrightarrow> (\<exists>x s'. f s = (Ok x, s') \<and> g x s' = (Ok y, s''))"
  by (auto simp: sbind_def split: prod.splits res.splits)

text \<open>
  A loop over a list whose body may fail, or never end (\<open>None\<close>); an error with \<open>skip\<close> does not stop it. It is
  monotone in its body, so that functions may recurse through it.
\<close>

type_synonym ('e, 's) loop_result = "(('e, unit) res \<times> 's) option"

fun for_loop :: "('e \<Rightarrow> bool) \<Rightarrow> ('a \<Rightarrow> 's \<Rightarrow> ('e, 's) loop_result) \<Rightarrow> 'a list \<Rightarrow> 's \<Rightarrow> ('e, 's) loop_result" where
  "for_loop skip fn [] s = Some (Ok (), s)"
| "for_loop skip fn (x # xs) s =
     (case fn x s of
        None \<Rightarrow> None
      | Some (Ok u, s') \<Rightarrow> for_loop skip fn xs s'
      | Some (Err e, s') \<Rightarrow> if skip e then for_loop skip fn xs s' else Some (Err e, s')
      | Some (Panic, s') \<Rightarrow> Some (Panic, s'))"

lemma for_loop_mono [partial_function_mono]:
  fixes B :: "('b \<Rightarrow> 'c option) \<Rightarrow> 'a \<Rightarrow> 's \<Rightarrow> ('e, 's) loop_result"
  assumes "\<And>x s. mono_option (\<lambda>f. B f x s)"
  shows "mono_option (\<lambda>f. for_loop skip (B f) xs s)"
proof (induction xs arbitrary: s)
  case (Cons a xs)
  show ?case
  proof (rule monotoneI)
    fix x y :: "'b \<Rightarrow> 'c option" assume le: "fun_ord option_ord x y"
    have b: "B x a s = None \<or> B x a s = B y a s"
      using assms [of a s, unfolded monotone_def, rule_format, OF le] by (simp add: flat_ord_def)
    have c: "for_loop skip (B x) xs s' = None \<or> for_loop skip (B x) xs s' = for_loop skip (B y) xs s'" for s'
      using Cons.IH [of s', unfolded monotone_def, rule_format, OF le] by (simp add: flat_ord_def)
    show "option_ord (for_loop skip (B x) (a # xs) s) (for_loop skip (B y) (a # xs) s)"
    proof (cases "B x a s")
      case None
      then show ?thesis by (simp add: flat_ord_def)
    next
      case (Some r)
      then have e: "B y a s = Some r" using b by simp
      obtain x' s' where r: "r = (x', s')" by fastforce
      show ?thesis using c [of s'] by (cases x') (auto simp: flat_ord_def Some e r)
    qed
  qed
qed (simp add: monotone_def flat_ord_def)

lemma for_loop_ends: "(\<And>x s. x \<in> set xs \<Longrightarrow> \<exists>y. fn x s = Some y) \<Longrightarrow> \<exists>y. for_loop skip fn xs s = Some y"
proof (induction xs arbitrary: s)
  case (Cons x xs)
  obtain y t where "fn x s = Some (y, t)" using Cons.prems [of x s] by auto
  then show ?case using Cons by (cases y) auto
qed simp

lemma for_loop_keeps:
  assumes "for_loop skip fn xs s = Some (r, s')" "I s"
    and "\<And>x s r s'. fn x s = Some (r, s') \<Longrightarrow> I s \<Longrightarrow> I s'"
  shows "I s'"
  using assms(1,2)
proof (induction xs arbitrary: s)
  case (Cons x xs)
  obtain y t where f: "fn x s = Some (y, t)" using Cons.prems(1) by (auto split: option.splits)
  have "I t" using assms(3) [OF f Cons.prems(2)] .
  then show ?case using Cons.prems(1) Cons.IH f by (cases y) (auto split: if_splits)
qed simp

text \<open>A writer takes its state and the bytes; it returns the count, the error and its new state.\<close>

type_synonym 'w writer = "'w \<Rightarrow> byte list \<Rightarrow> nat \<times> io_error option \<times> 'w"

definition buffer_Write :: "byte list writer" where
  "buffer_Write out b = (length b, None, out @ b)"

text \<open>
  The contract of a writer whose output is \<open>out\<close>: a write without error appends all bytes.
\<close>

locale sink =
  fixes wr :: "'w writer" and out :: "'w \<Rightarrow> byte list"
  assumes wr_ok: "wr w b = (n, None, w') \<Longrightarrow> n = length b \<and> out w' = out w @ b"
begin

text \<open>Writing one chunk after another, up to the first error.\<close>

fun write_all :: "byte list list \<Rightarrow> 'w \<Rightarrow> io_error option \<times> 'w" where
  "write_all [] w = (None, w)"
| "write_all (b # bs) w =
     (case wr w b of (n, Some e, w') \<Rightarrow> (Some e, w') | (n, None, w') \<Rightarrow> write_all bs w')"

lemma write_all_ok: "write_all bs w = (None, w') \<Longrightarrow> out w' = out w @ concat bs"
proof (induction bs arbitrary: w)
  case (Cons b bs)
  obtain n e w1 where w1: "wr w b = (n, e, w1)" by (metis prod.exhaust)
  with Cons.prems have "e = None" "write_all bs w1 = (None, w')" by (auto split: option.splits)
  with Cons.IH wr_ok [of w b n w1] w1 show ?case by simp
qed simp

end

interpretation buffer: sink buffer_Write "\<lambda>w. w"
  by unfold_locales (auto simp: buffer_Write_def)

text \<open>
  The contract of a reader whose unread content is \<open>rest\<close>: it hands out a prefix, and it reports
  \<open>EOF\<close>, or nothing at all, only at the end.
\<close>

locale source =
  fixes rd :: "'s reader" and rest :: "'s \<Rightarrow> byte list"
  assumes rd_ok: "0 < n \<Longrightarrow> rd s n = (bs, e, s') \<Longrightarrow>
      rest s = bs @ rest s' \<and> length bs \<le> n \<and> (e = None \<longrightarrow> bs \<noteq> []) \<and>
      (e \<noteq> None \<longrightarrow> e = Some EOF \<and> rest s' = [])"
begin

lemma rd_prefix: "0 < n \<Longrightarrow> rd s n = (bs, e, s') \<Longrightarrow> rest s = bs @ rest s'"
  using rd_ok by blast

lemma rd_end: "0 < n \<Longrightarrow> rest s = [] \<Longrightarrow> rd s n = (bs, e, s') \<Longrightarrow> e = Some EOF \<and> bs = [] \<and> rest s' = []"
  using rd_ok [of n s bs e s'] by auto

end

interpretation stream: source stream_Read "\<lambda>r. r"
  by unfold_locales (auto simp: stream_Read_def split: if_splits)

text \<open>
  \<open>ReadAt\<close> and \<open>WriteAt\<close> of a file or of bytes in memory; writing behind the end fills the gap with
  zeros. \<open>ReadSection\<close> is \<open>io.ReadFull\<close> on a section of \<open>n\<close> bytes at an offset.
\<close>

type_synonym 's reader_at = "'s \<Rightarrow> nat \<Rightarrow> int \<Rightarrow> byte list \<times> io_error option \<times> 's"

definition file_ReadAt :: "byte list reader_at" where
  "file_ReadAt f n off =
     (if off < 0 then ([], Some (IoError ''negative offset''), f)
      else
        let bs = take n (drop (nat off) f) in
        (bs, if length bs < n \<or> (n = 0 \<and> length f \<le> nat off) then Some EOF else None, f))"

type_synonym 's writer_at = "'s \<Rightarrow> byte list \<Rightarrow> int \<Rightarrow> io_error option \<times> 's"

definition overwrite :: "byte list \<Rightarrow> nat \<Rightarrow> byte list \<Rightarrow> byte list" where
  "overwrite f off bs = take off f @ replicate (off - length f) 0 @ bs @ drop (off + length bs) f"

definition file_WriteAt :: "byte list writer_at" where
  "file_WriteAt f bs off =
     (if off < 0 then (Some (IoError ''negative offset''), f) else (None, overwrite f (nat off) bs))"

lemma length_overwrite: "off + length bs \<le> length f \<Longrightarrow> length (overwrite f off bs) = length f"
  by (simp add: overwrite_def)

lemma overwrite_same: "off + length bs \<le> length f \<Longrightarrow> take (length bs) (drop off (overwrite f off bs)) = bs"
  by (simp add: overwrite_def)

lemma overwrite_other:
  assumes "off + length bs \<le> length f" "i + n \<le> off \<or> off + length bs \<le> i"
  shows "take n (drop i (overwrite f off bs)) = take n (drop i f)"
proof (rule nth_equalityI)
  fix k
  assume "k < length (take n (drop i (overwrite f off bs)))"
  then have "k < n" "i + k < length f" using assms(1) by (auto simp: length_overwrite)
  then show "take n (drop i (overwrite f off bs)) ! k = take n (drop i f) ! k"
    using assms by (auto simp: overwrite_def nth_append)
qed (use assms(1) in \<open>simp add: length_overwrite\<close>)

section \<open>Padding to four bytes; words of an encoded structure\<close>

definition pad4 :: "nat \<Rightarrow> byte list" where
  "pad4 n = replicate ((4 - n mod 4) mod 4) 0"

lemma pad4_up: "n + length (pad4 n) = (n + 3) div 4 * 4"
proof -
  have "n mod 4 = 0 \<or> n mod 4 = 1 \<or> n mod 4 = 2 \<or> n mod 4 = 3" by presburger
  then show ?thesis unfolding pad4_def length_replicate by (elim disjE) (simp, presburger+)
qed

lemma pad4_dvd: "4 dvd n + length (pad4 n)"
  by (simp add: pad4_up)

lemma pad4_shift: "4 dvd N \<Longrightarrow> pad4 (N + k) = pad4 k"
  by (simp add: pad4_def mod_add_left_eq [symmetric] mod_0_imp_dvd dvd_imp_mod_0)

lemma pad4_shift': "4 dvd N \<Longrightarrow> pad4 (k + N) = pad4 k"
  by (simp add: add.commute [of k] pad4_shift)

definition word_at :: "byte list \<Rightarrow> nat \<Rightarrow> u32" where
  "word_at bs i = un_be32 (take 4 (drop (4 * i) bs))"

lemma word_at_Nil: "word_at (be32 a @ rest) 0 = a"
  by (simp add: word_at_def)

lemma word_at_Suc: "word_at (be32 a @ rest) (Suc i) = word_at rest i"
  by (simp add: word_at_def)

end
