(* ===== verification/Uio.thy ===== *)
theory Uio imports GoStd begin

text \<open>
  \<open>pkg/uio\<close>: readers and writers that wrap other readers and writers. The wrapped objects are
  parameters: a reader, a writer, an opener, a line sink. \<open>AlignReader\<close> reads from bytes in
  memory, as its users do through a buffer.
\<close>

section \<open>\<open>AlignReader\<close>, \<open>AlignWriter\<close>\<close>

record AlignReader =
  AR :: "byte list"
  AN :: nat

definition ar_Read :: "AlignReader reader" where
  "ar_Read r n = (case stream_Read (AR r) n of (bs, e, rest) \<Rightarrow>
     (bs, e, r\<lparr>AR := rest, AN := AN r + length bs\<rparr>))"

text \<open>\<open>io.ReadFull\<close> over an \<open>AlignReader\<close>: the bytes read, the error, the reader.\<close>

definition ar_ReadFull :: "AlignReader \<Rightarrow> nat \<Rightarrow> byte list \<times> io_error option \<times> AlignReader" where
  "ar_ReadFull r n =
     (let m = min n (length (AR r)) in
      (take m (AR r),
       if m = n then None else if m = 0 then Some EOF else Some UnexpectedEOF,
       r\<lparr>AR := drop m (AR r), AN := AN r + m\<rparr>))"

definition ReadByte :: "AlignReader \<Rightarrow> (io_error, byte \<times> AlignReader) res" where
  "ReadByte r = (case ar_ReadFull r 1 of
     (bs, None, r') \<Rightarrow> Ok (bs ! 0, r') | (bs, Some e, r') \<Rightarrow> Err e)"

definition ar_Align :: "AlignReader \<Rightarrow> nat \<Rightarrow> (io_error, byte list \<times> AlignReader) res" where
  "ar_Align r n =
     (if n = 0 then Panic
      else if AN r mod n = 0 then Ok ([], r)
      else case ar_ReadFull r (n - AN r mod n) of
        (pad, None, r') \<Rightarrow> Ok (pad, r') | (pad, Some e, r') \<Rightarrow> Err e)"

record 'w AlignWriter =
  WW :: 'w
  WN :: nat

definition aw_Write :: "'w writer \<Rightarrow> 'w AlignWriter writer" where
  "aw_Write wr w b = (case wr (WW w) b of (n, e, w') \<Rightarrow> (n, e, w\<lparr>WW := w', WN := WN w + n\<rparr>))"

definition aw_Align :: "'w writer \<Rightarrow> 'w AlignWriter \<Rightarrow> nat \<Rightarrow> byte \<Rightarrow> (io_error, unit) res \<times> 'w AlignWriter" where
  "aw_Align wr w n pad =
     (if n = 0 then (Panic, w)
      else if WN w mod n = 0 then (Ok (), w)
      else case aw_Write wr w (replicate (n - WN w mod n) pad) of
        (m, None, w') \<Rightarrow> (Ok (), w') | (m, Some e, w') \<Rightarrow> (Err e, w'))"

lemma add_pad_mod: "n \<noteq> 0 \<Longrightarrow> a mod n \<noteq> 0 \<Longrightarrow> (a + (n - a mod n)) mod n = (0 :: nat)"
proof -
  assume n: "n \<noteq> 0" "a mod n \<noteq> 0"
  have "a + (n - a mod n) = a div n * n + n" using div_mult_mod_eq [of a n] mod_less_divisor [of n a] n(1)
    by linarith
  then show ?thesis by simp
qed

lemma add_pad_mod': "n \<noteq> 0 \<Longrightarrow> a mod n \<noteq> 0 \<Longrightarrow> (a + n - a mod n) mod n = (0 :: nat)"
  using add_pad_mod [of n a] mod_less_divisor [of n a] by (metis Nat.add_diff_assoc less_imp_le not_gr_zero)

lemma ar_Align_aligned: "ar_Align r n = Ok (pad, r') \<Longrightarrow> AN r' mod n = 0"
  by (auto simp: ar_Align_def ar_ReadFull_def Let_def add_pad_mod' split: if_splits)

section \<open>\<open>CachingReader\<close>\<close>

record 's CachingReader =
  cbuf :: "byte list"
  cr_r :: 's
  pos :: nat
  eof :: bool

definition NewCachingReader :: "'s \<Rightarrow> 's CachingReader" where
  "NewCachingReader r = \<lparr>cbuf = [], cr_r = r, pos = 0, eof = False\<rparr>"

definition cr_read :: "'s reader \<Rightarrow> 's CachingReader reader" where
  "cr_read rd cr n =
     (case rd (cr_r cr) n of (bs, e, r') \<Rightarrow>
        let cr' = cr\<lparr>cbuf := cbuf cr @ bs, cr_r := r'\<rparr> in
        if e = Some EOF \<or> (bs = [] \<and> e = None) then (bs, Some EOF, cr'\<lparr>eof := True\<rparr>)
        else (bs, e, cr'))"

lemma cr_read_progress: "cr_read rd cr n = (bs, None, cr') \<Longrightarrow> bs \<noteq> []"
  by (auto simp: cr_read_def Let_def split: prod.splits if_splits)

text \<open>
  The loop of \<open>ReadAt\<close>. It ends because a read that reports no error delivers at least a byte.
  The result is the bytes still missing, a read error other than \<open>EOF\<close>, and the reader.
\<close>

function fill_loop :: "'s reader \<Rightarrow> nat \<Rightarrow> int \<Rightarrow> 's CachingReader \<Rightarrow> int \<times> io_error option \<times> 's CachingReader" where
  "fill_loop rd plen unread cr =
     (if unread \<le> 0 then (unread, None, cr)
      else
        let toRead = (let t = unread mod int plen in if t = 0 then int plen else t) in
        case cr_read rd cr (nat toRead) of (bs, e, cr') \<Rightarrow>
          let unread' = unread - int (length bs) in
          if e = Some EOF then (unread', None, cr')
          else if e \<noteq> None then (unread', e, cr')
          else fill_loop rd plen unread' cr')"
  by pat_completeness auto

termination
  by (relation "measure (\<lambda>(rd, plen, unread, cr). nat unread)")
    (auto dest!: sym [of _ "cr_read _ _ _"] cr_read_progress)

declare fill_loop.simps [simp del]

definition ReadAt :: "'s reader \<Rightarrow> 's CachingReader \<Rightarrow> nat \<Rightarrow> nat \<Rightarrow> byte list \<times> io_error option \<times> 's CachingReader" where
  "ReadAt rd cr plen off =
     (if plen = 0 then ([], None, cr)
      else
        let end' = int off + int plen;
            unread = end' - int (length (cbuf cr));
            (unread', e, cr') = fill_loop rd plen unread cr
        in if e \<noteq> None then ([], e, cr')
           else if off > length (cbuf cr') then ([], Some EOF, cr')
           else (take plen (drop off (cbuf cr')),
                 if eof cr' \<and> unread' > 0 then Some EOF else None, cr'))"

definition CachingReader_Read :: "'s reader \<Rightarrow> 's CachingReader reader" where
  "CachingReader_Read rd cr plen =
     (case ReadAt rd cr plen (pos cr) of (bs, e, cr') \<Rightarrow> (bs, e, cr'\<lparr>pos := pos cr' + length bs\<rparr>))"

section \<open>\<open>LazyOpener\<close>, \<open>LazyOpenerAt\<close>\<close>

text \<open>\<open>open\<close> returns the opened reader or an error; \<open>lr_opens\<close> counts its calls.\<close>

record 's LazyOpener =
  lr_r :: "'s option"
  lr_err :: "io_error option"
  lr_opens :: nat

definition NewLazyOpener :: "'s LazyOpener" where
  "NewLazyOpener = \<lparr>lr_r = None, lr_err = None, lr_opens = 0\<rparr>"

definition lazy_open :: "(unit \<Rightarrow> (io_error, 's) res) \<Rightarrow> 's LazyOpener \<Rightarrow> 's LazyOpener" where
  "lazy_open open lr =
     (if lr_r lr = None \<and> lr_err lr = None then
        (case open () of
           Ok r \<Rightarrow> lr\<lparr>lr_r := Some r, lr_opens := lr_opens lr + 1\<rparr>
         | Err e \<Rightarrow> lr\<lparr>lr_err := Some e, lr_opens := lr_opens lr + 1\<rparr>
         | Panic \<Rightarrow> lr)
      else lr)"

definition Lazy_Read ::
    "(unit \<Rightarrow> (io_error, 's) res) \<Rightarrow> 's reader \<Rightarrow> 's LazyOpener \<Rightarrow> nat
     \<Rightarrow> (io_error, byte list \<times> io_error option \<times> 's LazyOpener) res" where
  "Lazy_Read open rd lr n =
     (let lr' = lazy_open open lr in
      case lr_err lr' of
        Some e \<Rightarrow> Ok ([], Some e, lr')
      | None \<Rightarrow> (case lr_r lr' of
          None \<Rightarrow> Panic
        | Some r \<Rightarrow> (case rd r n of (bs, e, r') \<Rightarrow> Ok (bs, e, lr'\<lparr>lr_r := Some r'\<rparr>))))"

definition Lazy_Close :: "('s \<Rightarrow> io_error option) option \<Rightarrow> 's LazyOpener \<Rightarrow> io_error option" where
  "Lazy_Close closer lr = (case (lr_r lr, closer) of (Some r, Some close) \<Rightarrow> close r | _ \<Rightarrow> None)"

text \<open>\<open>LazyOpenerAt\<close> reads at an offset and leaves the opened reader as it is.\<close>

definition Lazy_ReadAt ::
    "(unit \<Rightarrow> (io_error, 's) res) \<Rightarrow> ('s \<Rightarrow> nat \<Rightarrow> nat \<Rightarrow> byte list \<times> io_error option) \<Rightarrow> 's LazyOpener \<Rightarrow> nat \<Rightarrow> nat
     \<Rightarrow> (io_error, byte list \<times> io_error option \<times> 's LazyOpener) res" where
  "Lazy_ReadAt open rdAt lr n off =
     (let loa' = lazy_open open lr in
      case lr_err loa' of
        Some e \<Rightarrow> Ok ([], Some e, loa')
      | None \<Rightarrow> (case lr_r loa' of
          None \<Rightarrow> Panic
        | Some r \<Rightarrow> (case rdAt r n off of (bs, e) \<Rightarrow> Ok (bs, e, loa'))))"

definition LazyOpenerAt_String :: "string \<Rightarrow> ('s \<Rightarrow> string) \<Rightarrow> 's LazyOpener \<Rightarrow> string" where
  "LazyOpenerAt_String s printv loa =
     (if length s > 0 then s
      else case lr_r loa of Some r \<Rightarrow> printv r | None \<Rightarrow> ''unopened mystery file'')"

section \<open>\<open>FullLineWriter\<close>\<close>

text \<open>\<open>flw_out\<close> is the sequence of lines handed to \<open>OneLine\<close> so far.\<close>

record fullLineWriter =
  flw_out :: "byte list list"
  flw_buffer :: "byte list"

definition newline :: byte where
  "newline = 10"

definition printBuf :: "fullLineWriter \<Rightarrow> fullLineWriter" where
  "printBuf fsw =
     fsw\<lparr>flw_out := flw_out fsw @ filter (\<lambda>buf. length buf \<noteq> 0) (split_on newline (flw_buffer fsw)),
         flw_buffer := []\<rparr>"

definition flw_Write :: "fullLineWriter \<Rightarrow> byte list \<Rightarrow> nat \<times> fullLineWriter" where
  "flw_Write fsw p =
     (case LastIndexByte p newline of
        None \<Rightarrow> (length p, fsw\<lparr>flw_buffer := flw_buffer fsw @ p\<rparr>)
      | Some i \<Rightarrow>
          let fsw' = printBuf (fsw\<lparr>flw_buffer := flw_buffer fsw @ take i p\<rparr>)
          in (length p, fsw'\<lparr>flw_buffer := drop i p\<rparr>))"

definition flw_Close :: "fullLineWriter \<Rightarrow> fullLineWriter" where
  "flw_Close fsw = printBuf fsw"

section \<open>\<open>ReaderAtEqual\<close>, \<open>MultiWriteCloser\<close>, \<open>Discard\<close>, \<open>ProgressReadCloser\<close>\<close>

definition ReaderAtEqual ::
    "('a \<Rightarrow> byte list \<times> io_error option) \<Rightarrow> 'a option \<Rightarrow> 'a option \<Rightarrow> bool" where
  "ReaderAtEqual ReadAll r1 r2 =
     (let (c, r1err) = (case r1 of None \<Rightarrow> ([], None) | Some r \<Rightarrow> ReadAll r);
          (d, r2err) = (case r2 of None \<Rightarrow> ([], None) | Some r \<Rightarrow> ReadAll r)
      in c = d \<and> r1err = r2err)"

text \<open>
  A writer that is also a closer is \<open>Some\<close> of what \<open>Close\<close> returns. The last error wins.
\<close>

fun multiCloser_Close :: "io_error option option list \<Rightarrow> io_error option \<Rightarrow> io_error option" where
  "multiCloser_Close [] allErr = allErr"
| "multiCloser_Close (w # ws) allErr =
     multiCloser_Close ws (case w of Some (Some e) \<Rightarrow> Some e | _ \<Rightarrow> allErr)"

definition devNull_Write :: "byte list \<Rightarrow> nat \<times> io_error option" where
  "devNull_Write p = (length p, None)"

text \<open>
  \<open>ReadFrom\<close> reads until an error, through buffers of 8192 bytes; a reader that never reports
  an error keeps it reading, and the result is \<open>None\<close>.
\<close>

partial_function (option) devNull_ReadFrom ::
    "'s reader \<Rightarrow> 's \<Rightarrow> nat \<Rightarrow> (nat \<times> io_error option \<times> 's) option" where
  "devNull_ReadFrom rd s n =
     (case rd s 8192 of (bs, e, s') \<Rightarrow>
        (case e of
           None \<Rightarrow> devNull_ReadFrom rd s' (n + length bs)
         | Some err \<Rightarrow> Some (n + length bs, if err = EOF then None else Some err, s')))"

record Progress =
  Interval :: nat
  Symbol :: "byte list"
  counter :: nat
  pwritten :: bool
  pout :: "byte list"

definition Progress_Read ::
    "'s reader \<Rightarrow> 's \<times> Progress \<Rightarrow> nat \<Rightarrow> (io_error, byte list \<times> io_error option \<times> 's \<times> Progress) res" where
  "Progress_Read rd s n =
     (case s of (r, rc) \<Rightarrow>
      case rd r n of (bs, e, r') \<Rightarrow>
        if Interval rc = 0 then Panic
        else
          let numSymbols = (counter rc mod Interval rc + length bs) div Interval rc;
              out1 = pout rc @ concat (replicate numSymbols (Symbol rc));
              written' = (pwritten rc \<or> numSymbols > 0);
              out2 = (if e = Some EOF \<and> written' then out1 @ [newline] else out1)
          in Ok (bs, e, r', rc\<lparr>counter := counter rc + length bs, pwritten := written', pout := out2\<rparr>))"

section \<open>\<open>ArchiveReader\<close>\<close>

text \<open>
  lz4 is third party: \<open>ValidFrameHeader\<close> and the decompressor are parameters. The source is in
  memory, so that \<open>io.MultiReader\<close> of the pre-read bytes and the rest is their concatenation.
\<close>

definition preReadSizeBytes :: nat where
  "preReadSizeBytes = 1024"

definition NewArchiveReader ::
    "(byte list \<Rightarrow> (io_error, bool) res) \<Rightarrow> (byte list \<Rightarrow> byte list) \<Rightarrow> byte list
     \<Rightarrow> byte list \<times> io_error option" where
  "NewArchiveReader ValidFrameHeader lz4 r =
     (let (pbuf, e, r') = ar_ReadFull \<lparr>AR = r, AN = 0\<rparr> preReadSizeBytes in
      if e = Some EOF then (pbuf @ AR r', Some (IoError ''pre-read nothing''))
      else if ValidFrameHeader pbuf = Ok True then (lz4 (pbuf @ AR r'), None)
      else (pbuf @ AR r', None))"

section \<open>\<open>AlignWriter\<close> is a writer\<close>

context sink
begin

lemma aw_ok:
  assumes "aw_Write wr w b = (n, None, w')"
  shows "n = length b \<and> out (WW w') = out (WW w) @ b \<and> WN w' = WN w + length b"
proof -
  obtain m e v where e: "wr (WW w) b = (m, e, v)" by (metis prod.exhaust)
  with assms have "e = None" "n = m" "w' = w\<lparr>WW := v, WN := WN w + m\<rparr>" by (auto simp: aw_Write_def)
  with wr_ok e show ?thesis by fastforce
qed

lemma aw_Align_ok:
  assumes "aw_Align wr w n pad = (Ok (), w')"
  shows "WN w' mod n = 0 \<and> out (WW w') = out (WW w) @ replicate (WN w' - WN w) pad \<and>
    WN w \<le> WN w' \<and> WN w' < WN w + n"
proof -
  have n: "n \<noteq> 0" using assms by (cases n) (simp_all add: aw_Align_def)
  show ?thesis
  proof (cases "WN w mod n = 0")
    case True
    with assms n show ?thesis by (simp add: aw_Align_def)
  next
    case False
    with assms n obtain m where w: "aw_Write wr w (replicate (n - WN w mod n) pad) = (m, None, w')"
      by (auto simp: aw_Align_def split: prod.splits option.splits)
    from aw_ok [OF w] have W: "WN w' = WN w + (n - WN w mod n)"
      and o: "out (WW w') = out (WW w) @ replicate (n - WN w mod n) pad" by simp_all
    have "WN w' mod n = 0" unfolding W by (rule add_pad_mod [OF n False])
    moreover have "WN w' - WN w = n - WN w mod n" using W by (metis add_diff_cancel_left')
    moreover have "n - WN w mod n < n" using False n by simp
    moreover have "WN w \<le> WN w'" unfolding W by (rule le_add1)
    moreover have "WN w' < WN w + n" unfolding W using \<open>n - WN w mod n < n\<close> by (rule add_strict_left_mono)
    ultimately show ?thesis using o by metis
  qed
qed

end

text \<open>So an \<open>AlignWriter\<close> on a buffer is a writer again, and so is one on top of that.\<close>

interpretation aw: sink "aw_Write buffer_Write" WW
  by unfold_locales (use buffer.aw_ok in blast)

interpretation aw2: sink "aw_Write (aw_Write buffer_Write)" "\<lambda>w. WW (WW w)"
  by unfold_locales (use aw.aw_ok in blast)

text \<open>An \<open>AlignReader\<close> is a reader of its underlying bytes.\<close>

interpretation ar: source ar_Read AR
  by unfold_locales (auto simp: ar_Read_def stream_Read_def split: if_splits)

section \<open>\<open>CachingReader\<close> gives random access\<close>

context source
begin

definition cr_ok :: "byte list \<Rightarrow> 's CachingReader \<Rightarrow> bool" where
  "cr_ok content cr \<longleftrightarrow> content = cbuf cr @ rest (cr_r cr) \<and> (eof cr \<longrightarrow> rest (cr_r cr) = [])"

lemma cr_ok_new: "cr_ok (rest s) (NewCachingReader s)"
  by (simp add: cr_ok_def NewCachingReader_def)

lemma cr_read_ok:
  assumes "0 < n" "cr_ok content cr" "cr_read rd cr n = (bs, e, cr')"
  shows "cr_ok content cr'" "cbuf cr' = cbuf cr @ bs" "e = None \<or> e = Some EOF"
    "e = Some EOF \<Longrightarrow> eof cr' \<and> rest (cr_r cr') = []" "pos cr' = pos cr"
proof -
  obtain bs' e' r' where r: "rd (cr_r cr) n = (bs', e', r')" by (metis prod.exhaust)
  note k = rd_ok [OF assms(1) r]
  have "cr_ok content cr' \<and> cbuf cr' = cbuf cr @ bs \<and> (e = None \<or> e = Some EOF) \<and>
    (e = Some EOF \<longrightarrow> eof cr' \<and> rest (cr_r cr') = []) \<and> pos cr' = pos cr"
    using assms(2,3) k by (auto simp: cr_read_def r cr_ok_def Let_def split: if_splits)
  then show "cr_ok content cr'" "cbuf cr' = cbuf cr @ bs" "e = None \<or> e = Some EOF"
    "e = Some EOF \<Longrightarrow> eof cr' \<and> rest (cr_r cr') = []" "pos cr' = pos cr" by blast+
qed

lemma fill_loop_ok:
  assumes "0 < plen" "cr_ok content cr" "fill_loop rd plen unread cr = (u, e, cr')"
  shows "e = None \<and> cr_ok content cr' \<and> pos cr' = pos cr \<and>
    int (length (cbuf cr')) + u = int (length (cbuf cr)) + unread \<and>
    (u \<le> 0 \<or> rest (cr_r cr') = [] \<and> eof cr')"
  using assms
proof (induction "nat unread" arbitrary: unread cr rule: less_induct)
  case less
  show ?case
  proof (cases "unread \<le> 0")
    case True
    with less.prems show ?thesis by (simp add: fill_loop.simps)
  next
    case False
    define t where "t = (if unread mod int plen = 0 then int plen else unread mod int plen)"
    have "0 \<le> unread mod int plen" using less.prems(1) by simp
    then have "unread mod int plen = 0 \<or> 0 < unread mod int plen" by linarith
    then have "0 < t" using less.prems(1) by (auto simp: t_def Let_def)
    then have t: "0 < nat t" by simp
    obtain bs e1 cr1 where r: "cr_read rd cr (nat t) = (bs, e1, cr1)" by (metis prod.exhaust)
    note k = cr_read_ok [OF t less.prems(2) r]
    have step: "fill_loop rd plen unread cr =
        (if e1 = Some EOF then (unread - int (length bs), None, cr1)
         else if e1 \<noteq> None then (unread - int (length bs), e1, cr1)
         else fill_loop rd plen (unread - int (length bs)) cr1)"
      using False r by (subst fill_loop.simps) (simp add: t_def Let_def)
    show ?thesis
    proof (cases "e1 = Some EOF")
      case True
      with less.prems(3) k show ?thesis by (auto simp: step)
    next
      case False': False
      with k(3) have e1: "e1 = None" by blast
      with r have "bs \<noteq> []" using cr_read_progress by blast
      then have lt: "nat (unread - int (length bs)) < nat unread" using False by simp
      have "fill_loop rd plen (unread - int (length bs)) cr1 = (u, e, cr')"
        using less.prems(3) e1 by (simp add: step)
      from less.hyps [OF lt less.prems(1) k(1) this] k(2,5) show ?thesis by auto
    qed
  qed
qed

lemma ReadAt_slice:
  assumes "cr_ok content cr"
  shows "\<exists>cr'. ReadAt rd cr plen off =
      (take plen (drop off content),
       if plen > 0 \<and> off + plen > length content then Some EOF else None, cr') \<and>
    cr_ok content cr' \<and> pos cr' = pos cr"
proof (cases "plen = 0")
  case True
  with assms show ?thesis by (simp add: ReadAt_def)
next
  case False
  obtain u e cr' where f: "fill_loop rd plen (int off + int plen - int (length (cbuf cr))) cr = (u, e, cr')"
    by (metis prod.exhaust)
  note k = fill_loop_ok [OF _ assms f]
  from False k have e: "e = None" and ok: "cr_ok content cr'" and p: "pos cr' = pos cr"
    and l: "int (length (cbuf cr')) + u = int off + int plen" and d: "u \<le> 0 \<or> rest (cr_r cr') = [] \<and> eof cr'"
    by auto
  have c: "content = cbuf cr' @ rest (cr_r cr')" using ok by (simp add: cr_ok_def)
  show ?thesis
  proof (cases "u \<le> 0")
    case True
    then have "off + plen \<le> length (cbuf cr')" using l by linarith
    then show ?thesis
      using False True f e ok p by (auto simp: ReadAt_def Let_def c)
  next
    case False': False
    with d have "rest (cr_r cr') = []" "eof cr'" by blast+
    moreover from this have "length content < off + plen" using c l False' by simp
    ultimately show ?thesis
      using False False' f e ok p c by (auto simp: ReadAt_def Let_def)
  qed
qed

text \<open>Reading on from position \<open>pos\<close> gives the content piece by piece.\<close>

lemma Read_next:
  assumes "cr_ok content cr"
  shows "\<exists>e cr'. CachingReader_Read rd cr n = (take n (drop (pos cr) content), e, cr') \<and>
    cr_ok content cr' \<and> pos cr' = pos cr + length (take n (drop (pos cr) content))"
proof -
  obtain cr' e where r: "ReadAt rd cr n (pos cr) = (take n (drop (pos cr) content), e, cr')"
    "cr_ok content cr'" "pos cr' = pos cr"
    using ReadAt_slice [OF assms, of n "pos cr"] by metis
  then show ?thesis by (simp add: CachingReader_Read_def cr_ok_def)
qed

end

section \<open>\<open>FullLineWriter\<close> does not depend on how the output is cut\<close>

definition lines_of :: "byte list \<Rightarrow> byte list list" where
  "lines_of bs = filter (\<lambda>l. l \<noteq> []) (split_on newline bs)"

lemma lines_of_append: "newline \<in> set ys \<Longrightarrow> hd ys = newline \<Longrightarrow> lines_of (xs @ ys) = lines_of xs @ lines_of ys"
  by (cases ys) (auto simp: lines_of_def split_on_append_sep)

lemma flw_Write_lines:
  assumes "flw_Write fsw p = (n, fsw')"
  shows "n = length p" "flw_out fsw' @ lines_of (flw_buffer fsw' @ rest) = flw_out fsw @ lines_of (flw_buffer fsw @ p @ rest)"
proof -
  show "n = length p" using assms by (auto simp: flw_Write_def Let_def split: option.splits)
  show "flw_out fsw' @ lines_of (flw_buffer fsw' @ rest) = flw_out fsw @ lines_of (flw_buffer fsw @ p @ rest)"
  proof (cases "LastIndexByte p newline")
    case None
    with assms show ?thesis by (auto simp: flw_Write_def)
  next
    case (Some i)
    from LastIndexByte_Some [OF Some] have i: "i < length p" "p ! i = newline" by simp_all
    then have hd: "hd (drop i p @ rest) = newline" "newline \<in> set (drop i p @ rest)"
      by (auto simp: hd_append hd_drop_conv_nth Cons_nth_drop_Suc [symmetric])
    have "lines_of (flw_buffer fsw @ p @ rest) = lines_of ((flw_buffer fsw @ take i p) @ drop i p @ rest)"
      by (metis append.assoc append_take_drop_id)
    also have "\<dots> = lines_of (flw_buffer fsw @ take i p) @ lines_of (drop i p @ rest)"
      by (rule lines_of_append [OF hd(2,1)])
    finally show ?thesis
      using assms Some by (auto simp: flw_Write_def printBuf_def Let_def lines_of_def)
  qed
qed

fun flw_writes :: "byte list list \<Rightarrow> fullLineWriter \<Rightarrow> fullLineWriter" where
  "flw_writes [] fsw = fsw"
| "flw_writes (p # ps) fsw = flw_writes ps (snd (flw_Write fsw p))"

lemma flw_writes_lines:
  "flw_out (flw_writes ps fsw) @ lines_of (flw_buffer (flw_writes ps fsw) @ rest) =
   flw_out fsw @ lines_of (flw_buffer fsw @ concat ps @ rest)"
proof (induction ps arbitrary: fsw)
  case (Cons p ps)
  have "flw_Write fsw p = (fst (flw_Write fsw p), snd (flw_Write fsw p))" by simp
  from flw_Write_lines(2) [OF this, of "concat ps @ rest"] Cons.IH [of "snd (flw_Write fsw p)"]
  show ?case by simp
qed simp

section \<open>Properties\<close>

text \<open>C4: a \<open>CachingReader\<close> answers every \<open>ReadAt\<close> with the slice of the content it wraps, however
  the wrapped reader cuts its answers, and reports \<open>EOF\<close> exactly when the slice is cut short.\<close>

theorem CachingReader_ReadAt:
  assumes "source rd rest" "source.cr_ok rest content cr"
  shows "\<exists>cr'. ReadAt rd cr plen off =
      (take plen (drop off content),
       if plen > 0 \<and> off + plen > length content then Some EOF else None, cr') \<and>
    source.cr_ok rest content cr'"
  using source.ReadAt_slice [OF assms] by blast

theorem CachingReader_ReadAt_witness:
  "\<exists>cr'. ReadAt ar_Read (NewCachingReader \<lparr>AR = [1, 2, 3, 4, 5], AN = 0\<rparr>) 3 3 = ([4, 5], Some EOF, cr')"
proof -
  have "source.cr_ok AR [1, 2, 3, 4, 5] (NewCachingReader \<lparr>AR = [1, 2, 3, 4, 5], AN = 0\<rparr>)"
    using ar.cr_ok_new [of "\<lparr>AR = [1, 2, 3, 4, 5], AN = 0\<rparr>"] by simp
  from CachingReader_ReadAt [OF ar.source_axioms this, of 3 3] show ?thesis by auto
qed

text \<open>the lines a \<open>FullLineWriter\<close> hands on are the non-empty lines of everything written,
  in order, no matter how the text was cut into writes.\<close>

theorem FullLineWriter_lines:
  "flw_out (flw_Close (flw_writes ps \<lparr>flw_out = [], flw_buffer = []\<rparr>)) = lines_of (concat ps)"
  using flw_writes_lines [of ps "\<lparr>flw_out = [], flw_buffer = []\<rparr>" "[]"]
  by (simp add: flw_Close_def printBuf_def lines_of_def)

fun lazy_reads :: "(unit \<Rightarrow> (io_error, 's) res) \<Rightarrow> 's reader \<Rightarrow> nat list \<Rightarrow> 's LazyOpener \<Rightarrow> (io_error, 's LazyOpener) res" where
  "lazy_reads open rd [] lr = Ok lr"
| "lazy_reads open rd (n # ns) lr =
     rbind (Lazy_Read open rd lr n) (\<lambda>(bs, e, lr'). lazy_reads open rd ns lr')"

lemma Lazy_Read_opens:
  assumes "Lazy_Read open rd lr n = Ok (bs, e, lr')"
    and "lr_opens lr = (if lr_r lr = None \<and> lr_err lr = None then 0 else 1)"
  shows "lr_opens lr' = 1" "lr_r lr' \<noteq> None \<or> lr_err lr' \<noteq> None"
  using assms by (auto simp: Lazy_Read_def lazy_open_def Let_def split: option.splits res.splits if_splits prod.splits)

lemma lazy_reads_opens:
  assumes "lazy_reads open rd ns lr = Ok lr'"
    and "lr_opens lr = (if lr_r lr = None \<and> lr_err lr = None then 0 else 1)"
  shows "lr_opens lr' \<le> 1"
  using assms
proof (induction ns arbitrary: lr)
  case (Cons n ns)
  then obtain bs e lr1 where r: "Lazy_Read open rd lr n = Ok (bs, e, lr1)" "lazy_reads open rd ns lr1 = Ok lr'"
    by auto
  from Lazy_Read_opens [OF r(1) Cons.prems(2)] have "lr_opens lr1 = (if lr_r lr1 = None \<and> lr_err lr1 = None then 0 else 1)"
    by auto
  from Cons.IH [OF r(2) this] show ?case .
qed auto

text \<open>a \<open>LazyOpener\<close> calls its open function at most once, whatever the open returns and
  however often it is read.\<close>

theorem LazyOpener_once:
  assumes "lazy_reads open rd ns NewLazyOpener = Ok lr"
  shows "lr_opens lr \<le> 1"
  by (rule lazy_reads_opens [OF assms]) (simp add: NewLazyOpener_def)

theorem LazyOpener_once_witness:
  "\<exists>lr. lazy_reads (\<lambda>_. Err (IoError ''gone'')) stream_Read [4, 4, 4] NewLazyOpener = Ok lr \<and> lr_opens lr \<le> 1"
proof -
  have "\<exists>lr. lazy_reads (\<lambda>_. Err (IoError ''gone'')) stream_Read [4, 4, 4] NewLazyOpener = Ok lr"
    by (simp add: Lazy_Read_def lazy_open_def NewLazyOpener_def)
  then obtain lr where r: "lazy_reads (\<lambda>_. Err (IoError ''gone'')) stream_Read [4, 4, 4] NewLazyOpener = Ok lr" ..
  from LazyOpener_once [OF r] r show ?thesis by blast
qed

end
