(* ===== verification/GoStrings.thy ===== *)
theory GoStrings imports GoStd begin

text \<open>
  The parts of \<open>strings\<close>, \<open>unicode\<close>, \<open>utf8\<close> and \<open>strconv\<close> that the parsers of command lines and words use.
  A string is its bytes; \<open>runes\<close> cuts it into encoded code points as \<open>range\<close> over a string does.
\<close>

section \<open>UTF-8\<close>

text \<open>\<open>utf8.DecodeRune\<close>: the code point and the number of bytes; an invalid byte is \<open>U+FFFD\<close>, width 1.\<close>

definition cont :: "nat \<Rightarrow> nat \<Rightarrow> char \<Rightarrow> bool" where
  "cont lo hi c \<longleftrightarrow> lo \<le> (of_char c :: nat) \<and> (of_char c :: nat) \<le> hi"

definition low6 :: "char \<Rightarrow> nat" where
  "low6 c = of_char c mod 64"

definition DecodeRune :: "string \<Rightarrow> nat \<times> nat" where
  "DecodeRune s =
     (case s of
        [] \<Rightarrow> (0xFFFD, 0)
      | a # r \<Rightarrow>
          let b = of_char a :: nat;
              lo = (if b = 0xE0 then 0xA0 else if b = 0xF0 then 0x90 else 0x80);
              hi = (if b = 0xED then 0x9F else if b = 0xF4 then 0x8F else 0xBF)
          in
          if b < 0x80 then (b, 1)
          else if 0xC2 \<le> b \<and> b \<le> 0xDF \<and> 1 \<le> length r \<and> cont lo hi (r ! 0) then
            ((b mod 32) * 64 + low6 (r ! 0), 2)
          else if 0xE0 \<le> b \<and> b \<le> 0xEF \<and> 2 \<le> length r \<and> cont lo hi (r ! 0) \<and> cont 0x80 0xBF (r ! 1) then
            ((b mod 16) * 4096 + low6 (r ! 0) * 64 + low6 (r ! 1), 3)
          else if 0xF0 \<le> b \<and> b \<le> 0xF4 \<and> 3 \<le> length r \<and> cont lo hi (r ! 0) \<and> cont 0x80 0xBF (r ! 1) \<and> cont 0x80 0xBF (r ! 2) then
            ((b mod 8) * 262144 + low6 (r ! 0) * 4096 + low6 (r ! 1) * 64 + low6 (r ! 2), 4)
          else (0xFFFD, 1))"

lemma DecodeRune_width: "s \<noteq> [] \<Longrightarrow> DecodeRune s = (r, n) \<Longrightarrow> 0 < n \<and> n \<le> length s"
  by (cases s) (auto simp: DecodeRune_def Let_def split: if_splits)

function runes :: "string \<Rightarrow> (nat \<times> string) list" where
  "runes s =
     (if s = [] then []
      else (fst (DecodeRune s), take (snd (DecodeRune s)) s) # runes (drop (snd (DecodeRune s)) s))"
  by auto
termination
  by (relation "measure length") (auto simp: DecodeRune_width [OF _ prod.collapse [symmetric]])

declare runes.simps [simp del]

lemma runes_Nil [simp]: "runes [] = []"
  by (subst runes.simps) simp

lemma runes_Cons: "s \<noteq> [] \<Longrightarrow>
    runes s = (fst (DecodeRune s), take (snd (DecodeRune s)) s) # runes (drop (snd (DecodeRune s)) s)"
  by (subst runes.simps) simp

lemma concat_runes: "concat (map snd (runes s)) = s"
  by (induction s rule: runes.induct) (subst runes.simps, simp)

definition ascii :: "string \<Rightarrow> bool" where
  "ascii s \<longleftrightarrow> (\<forall>c \<in> set s. (of_char c :: nat) < 128)"

lemma runes_ascii_Cons: "(of_char c :: nat) < 128 \<Longrightarrow> runes (c # s) = (of_char c, [c]) # runes s"
  by (simp add: runes_Cons DecodeRune_def)

lemma runes_ascii: "ascii s \<Longrightarrow> runes s = map (\<lambda>c. (of_char c, [c])) s"
  by (induction s) (simp_all add: ascii_def runes_ascii_Cons)

section \<open>Classes of code points\<close>

definition IsSpace :: "nat \<Rightarrow> bool" where
  "IsSpace r \<longleftrightarrow> (9 \<le> r \<and> r \<le> 13) \<or> r = 0x20 \<or> r = 0x85 \<or> r = 0xA0 \<or> r = 0x1680 \<or> (0x2000 \<le> r \<and> r \<le> 0x200a) \<or>
     r = 0x2028 \<or> r = 0x2029 \<or> r = 0x202f \<or> r = 0x205f \<or> r = 0x3000"

definition Quotation_Mark :: "nat \<Rightarrow> bool" where
  "Quotation_Mark r \<longleftrightarrow> r = 0x22 \<or> r = 0x27 \<or> r = 0xab \<or> r = 0xbb \<or> (0x2018 \<le> r \<and> r \<le> 0x201f) \<or> r = 0x2039 \<or>
     r = 0x203a \<or> r = 0x2e42 \<or> (0x300c \<le> r \<and> r \<le> 0x300f) \<or> (0x301d \<le> r \<and> r \<le> 0x301f) \<or>
     (0xfe41 \<le> r \<and> r \<le> 0xfe44) \<or> r = 0xff02 \<or> r = 0xff07 \<or> r = 0xff62 \<or> r = 0xff63"

section \<open>\<open>strings\<close>\<close>

text \<open>
  \<open>FieldsFunc\<close> with a function that keeps a state between its calls, and \<open>Fields\<close>: the runs of code
  points that do not separate. \<open>cur\<close> is the field under way, \<open>None\<close> between fields.
\<close>

fun fields_run :: "('s \<Rightarrow> nat \<Rightarrow> bool \<times> 's) \<Rightarrow> 's \<Rightarrow> string option \<Rightarrow> (nat \<times> string) list \<Rightarrow> string list" where
  "fields_run sep st cur [] = (case cur of None \<Rightarrow> [] | Some f \<Rightarrow> [f])"
| "fields_run sep st cur ((r, b) # rs) =
     (case sep st r of
        (True, st') \<Rightarrow> (case cur of None \<Rightarrow> fields_run sep st' None rs | Some f \<Rightarrow> f # fields_run sep st' None rs)
      | (False, st') \<Rightarrow> fields_run sep st' (Some (case cur of None \<Rightarrow> b | Some f \<Rightarrow> f @ b)) rs)"

definition Fields :: "string \<Rightarrow> string list" where
  "Fields s = fields_run (\<lambda>_ r. (IsSpace r, ())) () None (runes s)"

definition ReplaceChar :: "char \<Rightarrow> char \<Rightarrow> string \<Rightarrow> string" where
  "ReplaceChar a b s = map (\<lambda>c. if c = a then b else c) s"

text \<open>\<open>Trim\<close>, \<open>TrimLeft\<close> and \<open>TrimRight\<close> with a cutset of single bytes.\<close>

definition TrimLeft :: "string \<Rightarrow> string \<Rightarrow> string" where
  "TrimLeft cutset s = dropWhile (\<lambda>c. c \<in> set cutset) s"

definition TrimRight :: "string \<Rightarrow> string \<Rightarrow> string" where
  "TrimRight cutset s = rev (dropWhile (\<lambda>c. c \<in> set cutset) (rev s))"

definition TrimSet :: "string \<Rightarrow> string \<Rightarrow> string" where
  "TrimSet cutset s = TrimRight cutset (TrimLeft cutset s)"

fun JoinWith :: "string \<Rightarrow> string list \<Rightarrow> string" where
  "JoinWith sep [] = []"
| "JoinWith sep [s] = s"
| "JoinWith sep (s # ss) = s @ sep @ JoinWith sep ss"

definition has_prefix :: "string \<Rightarrow> string \<Rightarrow> bool" where
  "has_prefix s p \<longleftrightarrow> take (length p) s = p"

definition TrimPrefix :: "string \<Rightarrow> string \<Rightarrow> string" where
  "TrimPrefix s p = (if has_prefix s p then drop (length p) s else s)"

text \<open>\<open>SplitN(s, sep, 2)\<close>: cut at the first separator.\<close>

definition SplitN2 :: "char \<Rightarrow> string \<Rightarrow> string list" where
  "SplitN2 c s = (if c \<in> set s then [takeWhile (\<lambda>x. x \<noteq> c) s, tl (dropWhile (\<lambda>x. x \<noteq> c) s)] else [s])"

text \<open>\<open>TrimSpace\<close>: white space is taken off code point by code point.\<close>

definition trim_runes :: "(nat \<times> string) list \<Rightarrow> (nat \<times> string) list" where
  "trim_runes rs = dropWhile (\<lambda>(r, _). IsSpace r) rs"

definition TrimSpace :: "string \<Rightarrow> string" where
  "TrimSpace s = concat (map snd (rev (trim_runes (rev (trim_runes (runes s))))))"

lemma SplitN2_append: "c \<notin> set a \<Longrightarrow> SplitN2 c (a @ c # b) = [a, b]"
  by (induction a) (auto simp: SplitN2_def)

lemma SplitN2_none: "c \<notin> set a \<Longrightarrow> SplitN2 c a = [a]"
  by (simp add: SplitN2_def)

text \<open>A string of ASCII characters without white space at its ends is left alone.\<close>

lemma TrimSpace_id:
  assumes "ascii s" "s = [] \<or> (\<not> IsSpace (of_char (hd s)) \<and> \<not> IsSpace (of_char (last s)))"
  shows "TrimSpace s = s"
proof (cases s rule: rev_cases)
  case (snoc xs x)
  have "dropWhile P l = l" if "l = [] \<or> \<not> P (hd l)" for P and l :: "(nat \<times> string) list"
    using that by (cases l) auto
  moreover have "hd (runes s) = (of_char (hd s), [hd s])" "last (runes s) = (of_char (last s), [last s])"
    using snoc assms(1) by (cases xs; simp add: runes_ascii)+
  ultimately have "trim_runes (runes s) = runes s" "trim_runes (rev (runes s)) = rev (runes s)"
    using assms(2) snoc by (auto simp: trim_runes_def hd_rev)
  then show ?thesis by (simp add: TrimSpace_def concat_runes)
qed (simp add: TrimSpace_def trim_runes_def)

section \<open>Cutting a string into code points again\<close>

lemma cont_sub: "cont lo hi c \<Longrightarrow> 0x80 \<le> lo \<Longrightarrow> hi \<le> 0xBF \<Longrightarrow> cont 0x80 0xBF c"
  by (simp add: cont_def)

lemma DecodeRune_append:
  assumes "s \<noteq> []" "t = [] \<or> \<not> cont 0x80 0xBF (hd t)"
  shows "DecodeRune (s @ t) = DecodeRune s"
proof -
  obtain a r where s: "s = a # r" using assms(1) by (cases s) auto
  have no: "\<not> cont lo hi (hd t)" if "t \<noteq> []" "0x80 \<le> lo" "hi \<le> 0xBF" for lo hi
    using assms(2) that cont_sub by blast
  consider "r = []" | x where "r = [x]" | x y where "r = [x, y]" | x y z r' where "r = x # y # z # r'"
    by (metis list.exhaust)
  then show ?thesis
  proof cases
    case 1
    then show ?thesis using no by (cases t) (auto simp: s DecodeRune_def Let_def)
  next
    case 2
    then show ?thesis using no by (cases t) (auto simp: s DecodeRune_def Let_def)
  next
    case 3
    then show ?thesis using no by (cases t) (auto simp: s DecodeRune_def Let_def)
  qed (simp add: s DecodeRune_def Let_def)
qed

lemma runes_append:
  assumes "t = [] \<or> \<not> cont 0x80 0xBF (hd t)"
  shows "runes (s @ t) = runes s @ runes t"
proof (induction s rule: runes.induct)
  case (1 s)
  show ?case
  proof (cases "s = []")
    case False
    obtain r n where d: "DecodeRune s = (r, n)" by fastforce
    have n: "0 < n" "n \<le> length s" using DecodeRune_width [OF False d] by auto
    have "DecodeRune (s @ t) = (r, n)" using DecodeRune_append [OF False assms] d by simp
    then have "runes (s @ t) = (r, take n s) # runes (drop n s @ t)"
      using False n by (subst runes_Cons) simp_all
    moreover have "runes (drop n s @ t) = runes (drop n s) @ runes t" using 1 [OF False] d by simp
    moreover have "runes s = (r, take n s) # runes (drop n s)" using False d by (subst runes_Cons) simp_all
    ultimately show ?thesis by simp
  qed simp
qed

lemma DecodeRune_cont: "s \<noteq> [] \<Longrightarrow> cont 0x80 0xBF (hd s) \<Longrightarrow> DecodeRune s = (0xFFFD, 1)"
  by (cases s) (auto simp: DecodeRune_def cont_def Let_def)

text \<open>A list of code points that is what its bytes decode to.\<close>

definition rune_str :: "(nat \<times> string) list \<Rightarrow> string" where
  "rune_str rs = concat (map snd rs)"

definition valid_runes :: "(nat \<times> string) list \<Rightarrow> bool" where
  "valid_runes rs \<longleftrightarrow> runes (rune_str rs) = rs"

lemma rune_str_simps [simp]:
  "rune_str [] = []" "rune_str (x # xs) = snd x @ rune_str xs" "rune_str (xs @ ys) = rune_str xs @ rune_str ys"
  by (simp_all add: rune_str_def)

lemma rune_str_runes [simp]: "rune_str (runes s) = s"
  by (simp add: rune_str_def concat_runes)

lemma valid_runes_runes: "valid_runes (runes s)"
  by (simp add: valid_runes_def)

lemma valid_runes_Cons:
  assumes "valid_runes ((r, b) # rs)"
  shows "b \<noteq> []" "DecodeRune (b @ rune_str rs) = (r, length b)" "valid_runes rs"
proof -
  let ?s = "b @ rune_str rs"
  have e: "runes ?s = (r, b) # rs" using assms by (simp add: valid_runes_def)
  then have ne: "?s \<noteq> []" by (metis list.distinct(1) runes_Nil)
  obtain n where d: "DecodeRune ?s = (r, n)" "b = take n ?s" "runes (drop n ?s) = rs"
    using e runes_Cons [OF ne] by (cases "DecodeRune ?s") auto
  have n: "0 < n" "n \<le> length ?s" using DecodeRune_width [OF ne d(1)] by auto
  have l: "length b = n" using arg_cong [OF d(2), of length] n(2) by simp
  show "b \<noteq> []" using l n(1) by auto
  show "DecodeRune ?s = (r, length b)" using d(1) l by simp
  show "valid_runes rs" using d(3) l by (simp add: valid_runes_def)
qed

lemma valid_runes_suffix: "valid_runes (xs @ ys) \<Longrightarrow> valid_runes ys"
  by (induction xs) (auto dest: valid_runes_Cons(3))

lemma space_starts: "valid_runes ((r, b) # rs) \<Longrightarrow> IsSpace r \<Longrightarrow> b \<noteq> [] \<and> \<not> cont 0x80 0xBF (hd b)"
  using valid_runes_Cons [of r b rs] DecodeRune_cont [of "b @ rune_str rs"] by (auto simp: IsSpace_def)

lemma valid_runes_prefix:
  assumes "valid_runes (xs @ (r, b) # ys)" "IsSpace r"
  shows "valid_runes xs"
proof -
  let ?t = "rune_str ((r, b) # ys)"
  have v: "valid_runes ((r, b) # ys)" using assms(1) by (rule valid_runes_suffix)
  have "\<not> cont 0x80 0xBF (hd ?t)" using space_starts [OF v assms(2)] by simp
  then have "runes (rune_str xs @ ?t) = runes (rune_str xs) @ runes ?t" by (intro runes_append) simp
  then have "xs @ (r, b) # ys = runes (rune_str xs) @ (r, b) # ys"
    using assms(1) v by (simp add: valid_runes_def)
  then show ?thesis by (simp add: valid_runes_def)
qed

section \<open>Words and blanks\<close>

definition token :: "string \<Rightarrow> bool" where
  "token t \<longleftrightarrow> t \<noteq> [] \<and> ascii t \<and> (\<forall>c \<in> set t. \<not> IsSpace (of_char c))"

abbreviation blank_sep :: "unit \<Rightarrow> nat \<Rightarrow> bool \<times> unit" where
  "blank_sep \<equiv> \<lambda>_ r. (IsSpace r, ())"

lemma fields_token:
  "ascii t \<Longrightarrow> \<forall>c \<in> set t. \<not> IsSpace (of_char c) \<Longrightarrow>
     fields_run blank_sep () (Some f) (runes (t @ rest)) = fields_run blank_sep () (Some (f @ t)) (runes rest)"
proof (induction t arbitrary: f)
  case (Cons c t)
  then have "ascii t" by (simp add: ascii_def)
  moreover have "(of_char c :: nat) < 128" using Cons.prems(1) by (simp add: ascii_def)
  ultimately show ?case using Cons by (simp add: runes_ascii_Cons)
qed simp

lemma fields_first:
  assumes "token t"
  shows "fields_run blank_sep () None (runes (t @ rest)) = fields_run blank_sep () (Some t) (runes rest)"
proof -
  obtain c u where t: "t = c # u" using assms by (cases t) (auto simp: token_def)
  have "(of_char c :: nat) < 128" "ascii u" "\<not> IsSpace (of_char c)" "\<forall>x \<in> set u. \<not> IsSpace (of_char x)"
    using assms by (auto simp: token_def ascii_def t)
  then show ?thesis using fields_token [of u "[c]" rest] by (simp add: t runes_ascii_Cons)
qed

lemma Fields_join:
  "\<forall>t \<in> set ts. token t \<Longrightarrow> Fields (JoinWith '' '' ts) = ts"
proof (induction ts)
  case (Cons t ts)
  have t: "token t" using Cons.prems by simp
  show ?case
  proof (cases ts)
    case Nil
    then show ?thesis using fields_first [OF t, of "[]"] by (simp add: Fields_def)
  next
    case (Cons u us)
    have "fields_run blank_sep () (Some t) (runes (CHR '' '' # r)) = t # fields_run blank_sep () None (runes r)" for r
      by (simp add: runes_ascii_Cons IsSpace_def)
    then have "Fields (t @ CHR '' '' # JoinWith '' '' ts) = t # Fields (JoinWith '' '' ts)"
      using fields_first [OF t] by (simp add: Fields_def)
    then show ?thesis using Cons.IH Cons.prems Cons by simp
  qed
qed (simp add: Fields_def)

end
