(* ===== verification/Shlex.thy ===== *)
theory Shlex imports GoStrings begin

text \<open>
  \<open>pkg/shlex\<close>: the argument parser. Its loop is a state machine over the bytes; the state is the record
  of the loop's variables.
\<close>

definition isWhitespace :: "char \<Rightarrow> bool" where
  "isWhitespace b \<longleftrightarrow> (of_char b :: nat) \<in> {9, 10, 11, 12, 13, 32}"

datatype quote = Unquoted | Escape | SingleQuote | DoubleQuote | DoubleQuoteEscape | Comment

definition bsl :: char where "bsl = CHR 0x5C"
definition squote :: char where "squote = CHR 0x27"
definition dquote :: char where "dquote = CHR 0x22"
definition hash :: char where "hash = CHR 0x23"
definition dollar :: char where "dollar = CHR 0x24"
definition newline :: char where "newline = CHR 0x0A"
definition space :: char where "space = CHR 0x20"

record argv_state =
  av_ret :: "string list"
  av_token :: string
  av_context :: quote
  av_lastWhiteSpace :: bool

text \<open>The end of the loop body: the byte goes into the token, or ends it.\<close>

definition argv_put :: "bool \<Rightarrow> char \<Rightarrow> argv_state \<Rightarrow> argv_state" where
  "argv_put quotes c st =
     (let st1 = st\<lparr>av_lastWhiteSpace := isWhitespace c\<rparr> in
      if \<not> isWhitespace c \<or> quotes then st1\<lparr>av_token := av_token st1 @ [c]\<rparr>
      else if av_token st1 \<noteq> [] then st1\<lparr>av_ret := av_ret st1 @ [av_token st1], av_token := []\<rparr>
      else st1)"

definition argv_step :: "argv_state \<Rightarrow> char \<Rightarrow> argv_state" where
  "argv_step st c =
     (let quotes = (av_context st \<noteq> Unquoted) in
      case av_context st of
        Unquoted \<Rightarrow>
          if c = bsl then st\<lparr>av_context := Escape\<rparr>
          else if c = squote then st\<lparr>av_context := SingleQuote\<rparr>
          else if c = dquote then st\<lparr>av_context := DoubleQuote\<rparr>
          else if c = hash \<and> av_lastWhiteSpace st then st\<lparr>av_context := Comment\<rparr>
          else argv_put quotes c st
      | Escape \<Rightarrow> argv_put quotes c (st\<lparr>av_context := Unquoted\<rparr>)
      | SingleQuote \<Rightarrow>
          if c = squote then st\<lparr>av_context := Unquoted\<rparr> else argv_put quotes c st
      | DoubleQuote \<Rightarrow>
          if c = bsl then st\<lparr>av_context := DoubleQuoteEscape\<rparr>
          else if c = dquote then st\<lparr>av_context := Unquoted\<rparr>
          else argv_put quotes c st
      | DoubleQuoteEscape \<Rightarrow>
          argv_put quotes c
            ((if c \<in> {dollar, dquote, bsl, newline} then st else st\<lparr>av_token := av_token st @ [bsl]\<rparr>)
              \<lparr>av_context := DoubleQuote\<rparr>)
      | Comment \<Rightarrow> st)"

definition argv_start :: argv_state where
  "argv_start = \<lparr>av_ret = [], av_token = [], av_context = Unquoted, av_lastWhiteSpace = True\<rparr>"

definition Argv :: "string \<Rightarrow> string list" where
  "Argv s =
     (let st = foldl argv_step argv_start s in
      if av_token st \<noteq> [] then av_ret st @ [av_token st] else av_ret st)"

section \<open>Quoting\<close>

text \<open>Four ways to write a word: as it is, in single quotes, in double quotes, with a backslash before each byte.\<close>

datatype style = Plain | Single | Double | Slashes

definition dq_char :: "char \<Rightarrow> string" where
  "dq_char c = (if c \<in> {dollar, dquote, bsl} then [bsl, c] else [c])"

fun quoted :: "style \<times> string \<Rightarrow> string" where
  "quoted (Plain, w) = w"
| "quoted (Single, w) = [squote] @ w @ [squote]"
| "quoted (Double, w) = [dquote] @ concat (map dq_char w) @ [dquote]"
| "quoted (Slashes, w) = concat (map (\<lambda>c. [bsl, c]) w)"

fun quotable :: "style \<times> string \<Rightarrow> bool" where
  "quotable (s, w) \<longleftrightarrow> w \<noteq> [] \<and> (s = Single \<longrightarrow> squote \<notin> set w) \<and>
     (s = Plain \<longrightarrow> (\<forall>c \<in> set w. \<not> isWhitespace c \<and> c \<notin> {bsl, squote, dquote, hash}))"

lemma chars_distinct [simp]:
  "bsl \<noteq> squote" "bsl \<noteq> dquote" "bsl \<noteq> hash" "squote \<noteq> dquote" "squote \<noteq> bsl" "dquote \<noteq> bsl" "dquote \<noteq> squote"
  "space \<noteq> bsl" "space \<noteq> squote" "space \<noteq> dquote" "space \<noteq> hash" "isWhitespace space" "\<not> isWhitespace bsl"
  by (simp_all add: bsl_def squote_def dquote_def hash_def space_def isWhitespace_def)

text \<open>The state written out; runs over a quoted word add it to the token.\<close>

abbreviation av :: "string list \<Rightarrow> string \<Rightarrow> quote \<Rightarrow> bool \<Rightarrow> argv_state" where
  "av r t c l \<equiv> \<lparr>av_ret = r, av_token = t, av_context = c, av_lastWhiteSpace = l\<rparr>"

lemma run_single:
  "squote \<notin> set w \<Longrightarrow> \<exists>l'. foldl argv_step (av r t SingleQuote l) w = av r (t @ w) SingleQuote l'"
proof (induction w arbitrary: t l)
  case (Cons c w)
  have "argv_step (av r t SingleQuote l) c = av r (t @ [c]) SingleQuote (isWhitespace c)"
    using Cons.prems by (auto simp: argv_step_def argv_put_def Let_def)
  with Cons.IH [of "t @ [c]" "isWhitespace c"] Cons.prems show ?case by simp
qed simp

lemma run_double:
  "\<exists>l'. foldl argv_step (av r t DoubleQuote l) (concat (map dq_char w)) = av r (t @ w) DoubleQuote l'"
proof (induction w arbitrary: t l)
  case (Cons c w)
  have "foldl argv_step (av r t DoubleQuote l) (dq_char c) = av r (t @ [c]) DoubleQuote (isWhitespace c)"
    by (simp add: dq_char_def argv_step_def argv_put_def Let_def)
  with Cons.IH [of "t @ [c]" "isWhitespace c"] show ?case by simp
qed simp

lemma run_slashes:
  "\<exists>l'. foldl argv_step (av r t Unquoted l) (concat (map (\<lambda>c. [bsl, c]) w)) = av r (t @ w) Unquoted l'"
proof (induction w arbitrary: t l)
  case (Cons c w)
  have "foldl argv_step (av r t Unquoted l) [bsl, c] = av r (t @ [c]) Unquoted (isWhitespace c)"
    by (simp add: argv_step_def argv_put_def Let_def)
  with Cons.IH [of "t @ [c]" "isWhitespace c"] show ?case by simp
qed simp

lemma run_plain:
  "\<forall>c \<in> set w. \<not> isWhitespace c \<and> c \<notin> {bsl, squote, dquote, hash} \<Longrightarrow>
   \<exists>l'. foldl argv_step (av r t Unquoted l) w = av r (t @ w) Unquoted l'"
proof (induction w arbitrary: t l)
  case (Cons c w)
  have "argv_step (av r t Unquoted l) c = av r (t @ [c]) Unquoted False"
    using Cons.prems by (simp add: argv_step_def argv_put_def Let_def)
  with Cons.IH [of "t @ [c]" False] Cons.prems show ?case by simp
qed simp

lemma step_quotes:
  "argv_step (av r t Unquoted l) squote = av r t SingleQuote l" "argv_step (av r t SingleQuote l) squote = av r t Unquoted l"
  "argv_step (av r t Unquoted l) dquote = av r t DoubleQuote l" "argv_step (av r t DoubleQuote l) dquote = av r t Unquoted l"
  "argv_step (av r (x # t) Unquoted l) space = av (r @ [x # t]) [] Unquoted True"
  by (simp_all add: argv_step_def argv_put_def)

lemma run_quoted:
  assumes "quotable (s, w)"
  shows "\<exists>l'. foldl argv_step (av r t Unquoted l) (quoted (s, w)) = av r (t @ w) Unquoted l'"
proof (cases s)
  case Plain
  with assms run_plain [of w r t l] show ?thesis by simp
next
  case Single
  with assms run_single [of w r t l] show ?thesis by (auto simp: step_quotes)
next
  case Double
  with run_double [of r t l w] show ?thesis by (auto simp: step_quotes)
next
  case Slashes
  with run_slashes [of r t l w] show ?thesis by simp
qed

lemma run_words:
  assumes "\<forall>x \<in> set ws. quotable x"
  shows "\<exists>l'. foldl argv_step (av r [] Unquoted l) (JoinWith [space] (map quoted ws)) =
    av (r @ map snd (butlast ws)) (if ws = [] then [] else snd (last ws)) Unquoted l'"
  using assms
proof (induction ws arbitrary: r l)
  case (Cons x ws)
  obtain s w where x: "x = (s, w)" "w \<noteq> []" "quotable (s, w)" using Cons.prems(1) by (cases x) auto
  obtain l1 where l: "foldl argv_step (av r [] Unquoted l) (quoted (s, w)) = av r w Unquoted l1"
    using run_quoted [OF x(3), of r "[]" l] by auto
  show ?case
  proof (cases ws)
    case Nil
    with l x(1) show ?thesis by auto
  next
    case (Cons y ys)
    have "argv_step (av r w Unquoted l1) space = av (r @ [w]) [] Unquoted True"
      using x(2) by (cases w) (simp_all add: step_quotes)
    then have "foldl argv_step (av r [] Unquoted l) (JoinWith [space] (map quoted (x # ws))) =
        foldl argv_step (av (r @ [w]) [] Unquoted True) (JoinWith [space] (map quoted ws))"
      using l x(1) Cons by simp
    then show ?thesis using Cons.IH [of "r @ [w]" True] Cons.prems x(1) Cons by auto
  qed
qed simp

lemma Argv_words:
  assumes "\<forall>x \<in> set ws. quotable x"
  shows "Argv (JoinWith [space] (map quoted ws)) = map snd ws"
proof -
  obtain l where "foldl argv_step argv_start (JoinWith [space] (map quoted ws)) =
      av (map snd (butlast ws)) (if ws = [] then [] else snd (last ws)) Unquoted l"
    using run_words [OF assms, of "[]" True] by (auto simp: argv_start_def)
  moreover have "snd (last ws) \<noteq> []" if "ws \<noteq> []" using assms last_in_set [OF that] by (cases "last ws") auto
  moreover have "map snd (butlast ws) @ [snd (last ws)] = map snd ws" if "ws \<noteq> []"
    using that by (cases ws rule: rev_cases) simp_all
  ultimately show ?thesis by (auto simp: Argv_def)
qed

text \<open>C9: writing non-empty words in any of the four ways and joining them with spaces is undone by \<open>Argv\<close>.\<close>

theorem Argv_round_trip:
  assumes "\<forall>x \<in> set ws. quotable x"
  shows "Argv (JoinWith [space] (map quoted ws)) = map snd ws"
  using assms by (rule Argv_words)

theorem Argv_round_trip_witness:
  "Argv (JoinWith [space] (map quoted [(Single, ''a b''), (Double, [dquote, bsl]), (Slashes, ''c#'')])) = [''a b'', [dquote, bsl], ''c#'']"
  using Argv_round_trip [of "[(Single, ''a b''), (Double, [dquote, bsl]), (Slashes, ''c#'')]"]
  by (simp add: squote_def del: quoted.simps)

section \<open>Behaviours outside the contract\<close>

text \<open>A comment never ends, an empty quoted word is lost, and a quoted blank makes the next \<open>#\<close> a comment.\<close>

lemma Argv_comment_swallows: "Argv (hash # s) = []"
proof -
  have "foldl argv_step st s = st" if "av_context st = Comment" for st
    using that by (induction s) (simp_all add: argv_step_def)
  then show ?thesis by (simp add: Argv_def argv_start_def argv_step_def) (simp add: hash_def bsl_def squote_def dquote_def)
qed

lemma Argv_empty_word: "Argv (quoted (Single, [])) = []"
  by (simp add: Argv_def argv_start_def argv_step_def)

lemma Argv_quoted_blank_hash: "Argv ([squote, space, squote, hash] @ s) = [[space]]"
proof -
  have "foldl argv_step st s = st" if "av_context st = Comment" for st
    using that by (induction s) (simp_all add: argv_step_def)
  moreover have "hash \<noteq> bsl" "hash \<noteq> squote" "hash \<noteq> dquote" by (simp_all add: hash_def bsl_def squote_def dquote_def)
  ultimately show ?thesis by (simp add: Argv_def argv_start_def argv_step_def argv_put_def)
qed

end
