(* ===== verification/Cmdline.thy ===== *)
theory Cmdline imports Shlex begin

text \<open>
  \<open>pkg/cmdline\<close>: the kernel command line as a list of flags and as a map (\<open>cmdline.go\<close>), and the filters
  that change it (\<open>filters.go\<close>). What \<open>/proc/cmdline\<close> gives is a parameter.
\<close>

section \<open>Parsing\<close>

text \<open>
  \<open>quotedFieldsCheck\<close> keeps the quotation mark that is open in \<open>lastQuote\<close> (0 for none). \<open>FieldsFunc\<close>
  calls it once for each code point, from left to right.
\<close>

definition quotedFieldsCheck :: "nat \<Rightarrow> nat \<Rightarrow> bool \<times> nat" where
  "quotedFieldsCheck lastQuote c =
     (if c = lastQuote then (False, 0)
      else if lastQuote \<noteq> 0 then (False, lastQuote)
      else if Quotation_Mark c then (False, c)
      else (IsSpace c, lastQuote))"

record cmd_flag =
  cf_flag :: string
  cf_key :: string
  cf_canonicalKey :: string
  cf_value :: string
  cf_trimmedValue :: string

definition canonical :: "string \<Rightarrow> string" where
  "canonical key = ReplaceChar CHR ''-'' CHR ''_'' key"

definition parse_flag :: "string \<Rightarrow> cmd_flag" where
  "parse_flag flag =
     (let split = IndexByte flag CHR ''='';
          key = (case split of None \<Rightarrow> flag | Some i \<Rightarrow> take i flag);
          value = (case split of None \<Rightarrow> ''1'' | Some i \<Rightarrow> drop (i + 1) flag)
      in \<lparr>cf_flag = flag, cf_key = key, cf_canonicalKey = canonical key, cf_value = value,
          cf_trimmedValue = TrimSet [CHR 0x22, CHR 0x27] value\<rparr>)"

definition cmd_fields :: "string \<Rightarrow> string list" where
  "cmd_fields input = fields_run quotedFieldsCheck 0 None (runes input)"

text \<open>The calls of the handler, in order.\<close>

definition doParse :: "string \<Rightarrow> cmd_flag list" where
  "doParse input = map parse_flag (filter (\<lambda>flag. flag \<noteq> []) (cmd_fields input))"

definition add_flag :: "(string \<rightharpoonup> string) \<Rightarrow> cmd_flag \<Rightarrow> (string \<rightharpoonup> string)" where
  "add_flag m f = (m(cf_canonicalKey f \<mapsto> cf_trimmedValue f))(cf_key f \<mapsto> cf_trimmedValue f)"

definition parseToMap :: "string \<Rightarrow> (string \<rightharpoonup> string)" where
  "parseToMap input = foldl add_flag Map.empty (doParse input)"

record CmdLine =
  Raw :: string
  AsMap :: "string \<rightharpoonup> string"
  CErr :: "string option"

text \<open>\<open>parse\<close> gets what reading gave: the bytes and the error that ended it, if any.\<close>

definition parse_cmdline :: "string \<times> string option \<Rightarrow> CmdLine" where
  "parse_cmdline rd =
     (case rd of
        (raw, Some e) \<Rightarrow> \<lparr>Raw = [], AsMap = Map.empty, CErr = Some e\<rparr>
      | (raw, None) \<Rightarrow>
          let r = TrimRight [newline] raw in \<lparr>Raw = r, AsMap = parseToMap r, CErr = None\<rparr>)"

text \<open>\<open>opened\<close> is the result of opening \<open>/proc/cmdline\<close>, with the text of the error.\<close>

type_synonym opened = "(string, string \<times> string option) res"

definition cmdLineOpener :: "opened \<Rightarrow> CmdLine" where
  "cmdLineOpener opened =
     (case opened of
        Ok rd \<Rightarrow> parse_cmdline rd
      | Err e \<Rightarrow> \<lparr>Raw = [], AsMap = Map.empty, CErr = Some (''Can't open /proc/cmdline: '' @ e)\<rparr>
      | Panic \<Rightarrow> \<lparr>Raw = [], AsMap = Map.empty, CErr = None\<rparr>)"

text \<open>The package variable: \<open>None\<close> until \<open>once.Do\<close> has run.\<close>

definition once_do :: "opened \<Rightarrow> CmdLine option \<Rightarrow> CmdLine" where
  "once_do opened st = (case st of Some c \<Rightarrow> c | None \<Rightarrow> cmdLineOpener opened)"

definition NewCmdLine :: "opened \<Rightarrow> CmdLine option \<Rightarrow> CmdLine \<times> CmdLine option" where
  "NewCmdLine opened st = (once_do opened st, Some (once_do opened st))"

definition FullCmdLine :: "opened \<Rightarrow> CmdLine option \<Rightarrow> string \<times> CmdLine option" where
  "FullCmdLine opened st = (Raw (once_do opened st), Some (once_do opened st))"

definition Flag :: "CmdLine \<Rightarrow> string \<Rightarrow> string option" where
  "Flag c flag = AsMap c (canonical flag)"

definition ContainsFlag :: "CmdLine \<Rightarrow> string \<Rightarrow> bool" where
  "ContainsFlag c flag \<longleftrightarrow> Flag c flag \<noteq> None"

definition flag_value :: "CmdLine \<Rightarrow> string \<Rightarrow> string" where
  "flag_value c flag = (case Flag c flag of Some v \<Rightarrow> v | None \<Rightarrow> [])"

definition GetInitFlagMap :: "CmdLine \<Rightarrow> (string \<rightharpoonup> string)" where
  "GetInitFlagMap c = parseToMap (flag_value c ''uroot.initflags'')"

definition GetUinitArgs :: "CmdLine \<Rightarrow> string list" where
  "GetUinitArgs c = Argv (flag_value c ''uroot.uinitargs'')"

text \<open>\<open>FlagsForModule\<close> goes through the map in the order the runtime picks: \<open>entries\<close> lists it.\<close>

fun module_flags :: "string \<Rightarrow> string set \<Rightarrow> (string \<times> string) list \<Rightarrow> string" where
  "module_flags prefix added [] = []"
| "module_flags prefix added ((flag, val) # es) =
     (let canonicalFlag = canonical flag in
      if canonicalFlag \<notin> added \<and> has_prefix canonicalFlag prefix then
        TrimPrefix canonicalFlag prefix @ ''='' @ val @ '' '' @ module_flags prefix (insert canonicalFlag added) es
      else module_flags prefix added es)"

definition FlagsForModule :: "(string \<times> string) list \<Rightarrow> string \<Rightarrow> string" where
  "FlagsForModule entries name = module_flags (canonical name @ ''.'') {} entries"

section \<open>Filters\<close>

text \<open>The names to remove are made canonical in place: the second result is the slice afterwards.\<close>

definition removeFilter :: "string \<Rightarrow> string list \<Rightarrow> string \<times> string list" where
  "removeFilter input variables =
     (let vs = map canonical variables in
      (JoinWith '' '' (map cf_flag (filter (\<lambda>f. cf_canonicalKey f \<notin> set vs) (doParse input))), vs))"

record updater =
  appendCmd :: string
  removeVar :: "string list"
  reuseVar :: "string list"

definition NewUpdateFilter :: "string \<Rightarrow> string list \<Rightarrow> string list \<Rightarrow> updater" where
  "NewUpdateFilter a rm re = \<lparr>appendCmd = a, removeVar = rm, reuseVar = re\<rparr>"

definition add_reused :: "CmdLine \<Rightarrow> string \<Rightarrow> string \<Rightarrow> string" where
  "add_reused c acl f = (case Flag c f of Some v \<Rightarrow> acl @ '' '' @ f @ ''='' @ v | None \<Rightarrow> acl)"

definition Update :: "CmdLine \<Rightarrow> updater \<Rightarrow> string \<Rightarrow> string \<times> updater" where
  "Update c u cmdline =
     (let acl0 = (if appendCmd u \<noteq> [] then '' '' @ appendCmd u else []);
          acl = foldl (add_reused c) acl0 (reuseVar u)
      in case removeFilter cmdline (removeVar u) of (s, vs) \<Rightarrow> (s @ acl, u\<lparr>removeVar := vs\<rparr>))"

section \<open>Looking up a flag\<close>

lemma canonical_idem [simp]: "canonical (canonical k) = canonical k"
  by (simp add: canonical_def ReplaceChar_def)

lemma add_flag_canonical: "k = canonical k \<Longrightarrow> cf_canonicalKey f = canonical (cf_key f) \<Longrightarrow>
    add_flag m f k = (if cf_canonicalKey f = k then Some (cf_trimmedValue f) else m k)"
  by (auto simp: add_flag_def)

lemma parse_flag_canonical: "cf_canonicalKey (parse_flag s) = canonical (cf_key (parse_flag s))"
  by (simp add: parse_flag_def Let_def)

text \<open>looking a flag up in the map gives the value of its last occurrence on the command line, with dashes
  and underscores taken for the same.\<close>

theorem Flag_last:
  "parseToMap input (canonical flag) =
    (case filter (\<lambda>f. cf_canonicalKey f = canonical flag) (doParse input) of
       [] \<Rightarrow> None | fs \<Rightarrow> Some (cf_trimmedValue (last fs)))"
proof -
  have "foldl add_flag m fs (canonical flag) =
      (case filter (\<lambda>f. cf_canonicalKey f = canonical flag) fs of [] \<Rightarrow> m (canonical flag) | gs \<Rightarrow> Some (cf_trimmedValue (last gs)))"
    if "\<forall>f \<in> set fs. cf_canonicalKey f = canonical (cf_key f)" for m fs
    using that
    by (induction fs arbitrary: m) (auto simp: add_flag_canonical split: list.splits)
  then show ?thesis
    unfolding parseToMap_def by (simp add: doParse_def parse_flag_canonical)
qed

section \<open>Filtering\<close>

text \<open>
  The quotation mark that is open after a run of code points, \<open>None\<close> when one of them separates, and
  fields of the shape the parser gives: only the last one may leave a quotation mark open.
\<close>

fun qrun :: "nat \<Rightarrow> (nat \<times> string) list \<Rightarrow> nat option" where
  "qrun q [] = Some q"
| "qrun q ((r, b) # rs) = (case quotedFieldsCheck q r of (True, q') \<Rightarrow> None | (False, q') \<Rightarrow> qrun q' rs)"

definition good_fields :: "(nat \<times> string) list list \<Rightarrow> bool" where
  "good_fields Fs \<longleftrightarrow> (\<forall>F \<in> set Fs. F \<noteq> [] \<and> valid_runes F \<and> qrun 0 F \<noteq> None) \<and>
     sorted_wrt (\<lambda>F G. qrun 0 F = Some 0) Fs"

lemma qrun_append: "qrun q (xs @ ys) = Option.bind (qrun q xs) (\<lambda>q'. qrun q' ys)"
  by (induction xs arbitrary: q) (auto split: prod.splits bool.splits)

lemma check_sep: "quotedFieldsCheck q r = (True, q') \<Longrightarrow> q = 0 \<and> q' = 0 \<and> IsSpace r"
  by (auto simp: quotedFieldsCheck_def split: if_splits)

lemma fields_run_qrun:
  "qrun q F = Some q' \<Longrightarrow>
    fields_run quotedFieldsCheck q cur (F @ xs) =
    fields_run quotedFieldsCheck q' (if F = [] then cur else Some ((case cur of None \<Rightarrow> [] | Some f \<Rightarrow> f) @ rune_str F)) xs"
  by (induction F arbitrary: q cur) (auto split: prod.splits bool.splits option.splits if_splits)

text \<open>The fields the parser finds, as lists of code points; \<open>G\<close> is the field under way.\<close>

lemma fields_good:
  assumes "valid_runes (G @ rs)" "qrun 0 G = Some q"
  shows "\<exists>Fs. good_fields Fs \<and>
    fields_run quotedFieldsCheck q (if G = [] then None else Some (rune_str G)) rs = map rune_str Fs"
  using assms
proof (induction rs arbitrary: G q)
  case Nil
  then show ?case
    by (intro exI [of _ "if G = [] then [] else [G]"]) (simp add: good_fields_def)
next
  case (Cons x rs)
  obtain r b where x: "x = (r, b)" by fastforce
  obtain s q' where c: "quotedFieldsCheck q r = (s, q')" by fastforce
  show ?case
  proof (cases s)
    case True
    with c have q: "q = 0" "q' = 0" "IsSpace r" using check_sep by auto
    have vG: "valid_runes G" using Cons.prems(1) q(3) x valid_runes_prefix by blast
    have "valid_runes (x # rs)" using valid_runes_suffix [OF Cons.prems(1)] .
    then have "valid_runes ([] @ rs)" unfolding x using valid_runes_Cons(3) by simp
    from Cons.IH [OF this, of 0] obtain Fs where Fs: "good_fields Fs" "fields_run quotedFieldsCheck 0 None rs = map rune_str Fs"
      by auto
    have "good_fields (if G = [] then Fs else G # Fs)"
      using Fs(1) vG Cons.prems(2) q(1) by (auto simp: good_fields_def)
    moreover have "fields_run quotedFieldsCheck q (if G = [] then None else Some (rune_str G)) (x # rs) =
        map rune_str (if G = [] then Fs else G # Fs)"
      using Fs(2) c True q(2) x by simp
    ultimately show ?thesis by blast
  next
    case False
    have "qrun 0 (G @ [x]) = Some q'" using Cons.prems(2) c False x by (simp add: qrun_append)
    from Cons.IH [OF _ this] Cons.prems(1) obtain Fs where
      "good_fields Fs" "fields_run quotedFieldsCheck q' (Some (rune_str (G @ [x]))) rs = map rune_str Fs" by auto
    moreover have "fields_run quotedFieldsCheck q (if G = [] then None else Some (rune_str G)) (x # rs) =
        fields_run quotedFieldsCheck q' (Some (rune_str (G @ [x]))) rs"
      using c False x by simp
    ultimately show ?thesis by metis
  qed
qed

lemma space_rune: "runes (CHR '' '' # s) = (32, '' '') # runes s" "\<not> cont 0x80 0xBF CHR '' ''" "IsSpace 32"
  "quotedFieldsCheck 0 32 = (True, 0)"
  by (simp_all add: runes_ascii_Cons cont_def IsSpace_def quotedFieldsCheck_def Quotation_Mark_def)

text \<open>Fields of that shape, joined with blanks, are found again.\<close>

lemma fields_join:
  "good_fields Fs \<Longrightarrow> cmd_fields (JoinWith '' '' (map rune_str Fs)) = map rune_str Fs"
proof (induction Fs)
  case (Cons F Fs)
  have F: "F \<noteq> []" "runes (rune_str F) = F" using Cons.prems by (auto simp: good_fields_def valid_runes_def)
  show ?case
  proof (cases Fs)
    case Nil
    obtain q where "qrun 0 F = Some q" using Cons.prems by (auto simp: good_fields_def)
    from fields_run_qrun [OF this, of None "[]"] F Nil show ?thesis by (simp add: cmd_fields_def)
  next
    case (Cons G Gs)
    let ?rest = "JoinWith '' '' (map rune_str Fs)"
    have q: "qrun 0 F = Some 0" using \<open>good_fields (F # Fs)\<close> Cons unfolding good_fields_def by auto
    have "good_fields Fs" using \<open>good_fields (F # Fs)\<close> by (simp add: good_fields_def)
    note ih = \<open>good_fields Fs \<Longrightarrow> cmd_fields ?rest = map rune_str Fs\<close> [OF this]
    have "runes (rune_str F @ CHR '' '' # ?rest) = F @ (32, '' '') # runes ?rest"
      using F(2) by (simp add: runes_append space_rune)
    moreover have "JoinWith '' '' (map rune_str (F # Fs)) = rune_str F @ CHR '' '' # ?rest" using Cons by simp
    ultimately show ?thesis
      using fields_run_qrun [OF q, of None "(32, '' '') # runes ?rest"] F(1) ih
      by (simp add: cmd_fields_def space_rune(4))
  qed
qed (simp add: cmd_fields_def)

lemma good_fields_filter: "good_fields Fs \<Longrightarrow> good_fields (filter P Fs)"
  by (simp add: good_fields_def sorted_wrt_filter)

lemma rune_str_ne: "good_fields Fs \<Longrightarrow> filter (\<lambda>f. f \<noteq> []) (map rune_str Fs) = map rune_str Fs"
proof (rule filter_True)
  assume g: "good_fields Fs"
  have "rune_str F \<noteq> []" if "F \<in> set Fs" for F
  proof -
    have F: "F \<noteq> []" "valid_runes F" using g that unfolding good_fields_def by blast+
    then obtain x rs where x: "F = x # rs" by (cases F) auto
    obtain r b where "x = (r, b)" by (rule prod.exhaust)
    then show ?thesis using valid_runes_Cons(1) [of r b rs] F(2) x by simp
  qed
  then show "\<forall>f \<in> set (map rune_str Fs). f \<noteq> []" by auto
qed

text \<open>C10: parsing the filtered command line gives exactly the flags of the original one, in order, whose name is
  not among the variables, dashes and underscores taken for the same; quoted values stay whole.\<close>

theorem removeFilter_parse:
  "doParse (fst (removeFilter input variables)) =
    filter (\<lambda>f. cf_canonicalKey f \<notin> canonical ` set variables) (doParse input)"
proof -
  obtain Fs where Fs: "good_fields Fs" "cmd_fields input = map rune_str Fs"
    using fields_good [of "[]" "runes input" 0] valid_runes_runes by (auto simp: cmd_fields_def)
  let ?P = "\<lambda>f. cf_canonicalKey f \<notin> canonical ` set variables"
  let ?Gs = "filter (\<lambda>F. ?P (parse_flag (rune_str F))) Fs"
  have d: "doParse input = map (parse_flag \<circ> rune_str) Fs"
    using rune_str_ne [OF Fs(1)] Fs(2) by (simp add: doParse_def)
  have "map cf_flag (filter ?P (doParse input)) = map rune_str ?Gs"
    unfolding d by (simp add: filter_map comp_def) (simp add: parse_flag_def Let_def)
  then have "fst (removeFilter input variables) = JoinWith '' '' (map rune_str ?Gs)"
    by (simp add: removeFilter_def Let_def)
  then have "doParse (fst (removeFilter input variables)) = map (parse_flag \<circ> rune_str) ?Gs"
    using fields_join [OF good_fields_filter [OF Fs(1)]] rune_str_ne [OF good_fields_filter [OF Fs(1)]]
    by (simp add: doParse_def)
  also have "\<dots> = filter ?P (doParse input)" unfolding d by (simp add: filter_map comp_def)
  finally show ?thesis .
qed

text \<open>A flag given with a dash and again with an underscore leaves two entries with one canonical name; which
  value a module gets depends on the order in which the map is walked.\<close>

lemma FlagsForModule_order:
  "FlagsForModule [(''m.a-b'', ''1''), (''m.a_b'', ''2'')] ''m'' = ''a_b=1 ''"
  "FlagsForModule [(''m.a_b'', ''2''), (''m.a-b'', ''1'')] ''m'' = ''a_b=2 ''"
  by (simp_all add: FlagsForModule_def canonical_def ReplaceChar_def has_prefix_def TrimPrefix_def)

end
