(* ===== verification/BinStruct.thy ===== *)
theory BinStruct imports GoStd begin

text \<open>
  \<open>encoding/binary\<close> on flat structures, little endian: a structure is the list of the widths of its
  fields in bytes, its value a list of numbers. A byte array is one field.
\<close>

definition le_nat :: "nat \<Rightarrow> nat \<Rightarrow> byte list" where
  "le_nat n k = rev (be_nat n k)"

definition un_le :: "byte list \<Rightarrow> nat" where
  "un_le bs = un_be (rev bs)"

fun pack :: "nat list \<Rightarrow> nat list \<Rightarrow> byte list" where
  "pack (w # ws) (v # vs) = le_nat w v @ pack ws vs"
| "pack ws vs = []"

fun unpack :: "nat list \<Rightarrow> byte list \<Rightarrow> nat list" where
  "unpack [] bs = []"
| "unpack (w # ws) bs = un_le (take w bs) # unpack ws (drop w bs)"

text \<open>The values fit the widths.\<close>

fun fits :: "nat list \<Rightarrow> nat list \<Rightarrow> bool" where
  "fits [] [] = True"
| "fits (w # ws) (v # vs) = (v < 256 ^ w \<and> fits ws vs)"
| "fits _ _ = False"

lemma length_le_nat [simp]: "length (le_nat n k) = n"
  by (simp add: le_nat_def)

lemma un_le_le_nat: "k < 256 ^ n \<Longrightarrow> un_le (le_nat n k) = k"
  by (simp add: un_le_def le_nat_def un_be_be_nat)

lemma le_nat_un_le: "length bs = n \<Longrightarrow> le_nat n (un_le bs) = bs"
  using be_nat_un_be [of "rev bs"] by (simp add: le_nat_def un_le_def)

lemma un_le_lt: "length bs = n \<Longrightarrow> un_le bs < 256 ^ n"
  using un_be_lt [of "rev bs"] by (simp add: un_le_def)

lemma length_pack: "fits ws vs \<Longrightarrow> length (pack ws vs) = sum_list ws"
  by (induction ws vs rule: fits.induct) auto

lemma unpack_pack: "fits ws vs \<Longrightarrow> unpack ws (pack ws vs @ rest) = vs"
  by (induction ws vs rule: fits.induct) (auto simp: un_le_le_nat)

lemma unpack_pack': "fits ws vs \<Longrightarrow> unpack ws (pack ws vs) = vs"
  using unpack_pack [of ws vs "[]"] by simp

lemma length_unpack [simp]: "length (unpack ws bs) = length ws"
  by (induction ws arbitrary: bs) auto

lemma fits_unpack: "sum_list ws \<le> length bs \<Longrightarrow> fits ws (unpack ws bs)"
  by (induction ws arbitrary: bs) (auto intro!: un_le_lt)

lemma pack_unpack: "sum_list ws = length bs \<Longrightarrow> pack ws (unpack ws bs) = bs"
proof (induction ws arbitrary: bs)
  case (Cons w ws)
  then have "pack ws (unpack ws (drop w bs)) = drop w bs" "le_nat w (un_le (take w bs)) = take w bs"
    by (auto intro!: le_nat_un_le)
  then show ?case by simp
qed simp

lemma unpack_take: "sum_list ws \<le> n \<Longrightarrow> unpack ws (take n bs) = unpack ws bs"
proof (induction ws arbitrary: n bs)
  case (Cons w ws)
  from Cons.prems have "w \<le> n" "sum_list ws \<le> n - w" by auto
  with Cons.IH [of "n - w" "drop w bs"] show ?case by (simp add: drop_take min_def)
qed simp

lemma length_fits: "fits ws vs \<Longrightarrow> length vs = length ws"
  by (induction ws vs rule: fits.induct) auto

lemma unat_of_nat_small:
  "v < 256 \<Longrightarrow> unat (word_of_nat v :: byte) = v" "v < 65536 \<Longrightarrow> unat (word_of_nat v :: u16) = v"
  "v < 4294967296 \<Longrightarrow> unat (word_of_nat v :: u32) = v" "v < 18446744073709551616 \<Longrightarrow> unat (word_of_nat v :: u64) = v"
  by (simp_all add: unat_of_nat take_bit_eq_mod)

lemma pack_nth:
  "fits ws vs \<Longrightarrow> i < length ws \<Longrightarrow> take (ws ! i) (drop (sum_list (take i ws)) (pack ws vs)) = le_nat (ws ! i) (vs ! i)"
proof (induction ws vs arbitrary: i rule: fits.induct)
  case (2 w ws v vs)
  then show ?case by (cases i) (simp_all add: add.commute drop_append)
qed auto

lemma le_nat_Suc: "le_nat (Suc n) k = word_of_nat k # le_nat n (k div 256)" "le_nat 0 k = []"
  by (simp_all add: le_nat_def)

lemma le_nat_add: "le_nat (m + n) k = le_nat m (k mod 256 ^ m) @ le_nat n (k div 256 ^ m)"
proof (induction m arbitrary: k)
  case (Suc m)
  have "(word_of_nat (k mod (256 * 256 ^ m)) :: byte) = word_of_nat k"
    by (rule word_unat_eq_iff [THEN iffD2]) (simp add: unat_of_nat take_bit_eq_mod mod_mod_cancel)
  moreover have "k mod (256 * 256 ^ m) div 256 = (k div 256) mod 256 ^ m"
    by (simp add: mod_mult2_eq)
  ultimately show ?case using Suc [of "k div 256"] by (simp add: le_nat_Suc div_mult2_eq)
qed (simp add: le_nat_Suc)

end
