(* ===== verification/Gpt.thy ===== *)
theory Gpt imports BinStruct begin

text \<open>
  \<open>pkg/mount/gpt\<close>: GUID partition tables on a disk (\<open>gpt.go\<close>). The disk is a parameter, a \<open>ReaderAt\<close>
  and a \<open>WriterAt\<close> with a state. JSON printing is not modelled.
\<close>

section \<open>CRC-32 (\<open>hash/crc32\<close>, IEEE polynomial)\<close>

definition crc_bit :: "u32 \<Rightarrow> u32" where
  "crc_bit c = (if bit c 0 then drop_bit 1 c XOR 0xEDB88320 else drop_bit 1 c)"

definition crc_byte :: "u32 \<Rightarrow> byte \<Rightarrow> u32" where
  "crc_byte c b = (crc_bit ^^ 8) (c XOR ucast b)"

definition ChecksumIEEE :: "byte list \<Rightarrow> u32" where
  "ChecksumIEEE bs = NOT (foldl crc_byte (NOT 0) bs)"

section \<open>Tables\<close>

definition BlockSize :: nat where "BlockSize = 512"
definition HeaderOff :: int where "HeaderOff = 0x200"
definition HeaderSz :: u32 where "HeaderSz = 0x5c"
definition Signature :: u64 where "Signature = 0x5452415020494645"
definition GptRevision :: u32 where "GptRevision = 0x10000"
definition MaxNPart :: u32 where "MaxNPart = 0x80"

record GUID =
  gL :: u32
  gW1 :: u16
  gW2 :: u16
  gB :: "byte list"

record GHeader =
  gSignature :: u64
  gRevision :: u32
  gHeaderSize :: u32
  gCRC :: u32
  gReserved :: u32
  gCurrentLBA :: u64
  gBackupLBA :: u64
  gFirstLBA :: u64
  gLastLBA :: u64
  gDiskGUID :: GUID
  gPartStart :: u64
  gNPart :: u32
  gPartSize :: u32
  gPartCRC :: u32

record Part =
  PartGUID :: GUID
  UniqueGUID :: GUID
  pFirstLBA :: u64
  pLastLBA :: u64
  pAttribute :: u64
  pName :: "byte list"

record GPT =
  gHeader :: GHeader
  gParts :: "Part list"

record PartitionTable =
  MasterBootRecord :: "byte list option"
  Primary :: "GPT option"
  Backup :: "GPT option"

text \<open>The structures as flat lists of fields.\<close>

definition guid_vals :: "GUID \<Rightarrow> nat list" where
  "guid_vals g = [unat (gL g), unat (gW1 g), unat (gW2 g), un_le (gB g)]"

definition guid_of :: "nat list \<Rightarrow> GUID" where
  "guid_of v = \<lparr>gL = word_of_nat (v ! 0), gW1 = word_of_nat (v ! 1), gW2 = word_of_nat (v ! 2), gB = le_nat 8 (v ! 3)\<rparr>"

definition ghdr_widths :: "nat list" where
  "ghdr_widths = [8, 4, 4, 4, 4, 8, 8, 8, 8, 4, 2, 2, 8, 8, 4, 4, 4]"

definition ghdr_vals :: "GHeader \<Rightarrow> nat list" where
  "ghdr_vals h = [unat (gSignature h), unat (gRevision h), unat (gHeaderSize h), unat (gCRC h), unat (gReserved h),
     unat (gCurrentLBA h), unat (gBackupLBA h), unat (gFirstLBA h), unat (gLastLBA h)] @ guid_vals (gDiskGUID h) @
     [unat (gPartStart h), unat (gNPart h), unat (gPartSize h), unat (gPartCRC h)]"

definition ghdr_of :: "nat list \<Rightarrow> GHeader" where
  "ghdr_of v = \<lparr>gSignature = word_of_nat (v ! 0), gRevision = word_of_nat (v ! 1), gHeaderSize = word_of_nat (v ! 2),
     gCRC = word_of_nat (v ! 3), gReserved = word_of_nat (v ! 4), gCurrentLBA = word_of_nat (v ! 5),
     gBackupLBA = word_of_nat (v ! 6), gFirstLBA = word_of_nat (v ! 7), gLastLBA = word_of_nat (v ! 8),
     gDiskGUID = guid_of (take 4 (drop 9 v)), gPartStart = word_of_nat (v ! 13), gNPart = word_of_nat (v ! 14),
     gPartSize = word_of_nat (v ! 15), gPartCRC = word_of_nat (v ! 16)\<rparr>"

definition part_widths :: "nat list" where
  "part_widths = [4, 2, 2, 8, 4, 2, 2, 8, 8, 8, 8, 72]"

definition part_vals :: "Part \<Rightarrow> nat list" where
  "part_vals p = guid_vals (PartGUID p) @ guid_vals (UniqueGUID p) @
     [unat (pFirstLBA p), unat (pLastLBA p), unat (pAttribute p), un_le (pName p)]"

definition part_of :: "nat list \<Rightarrow> Part" where
  "part_of v = \<lparr>PartGUID = guid_of (take 4 v), UniqueGUID = guid_of (take 4 (drop 4 v)), pFirstLBA = word_of_nat (v ! 8),
     pLastLBA = word_of_nat (v ! 9), pAttribute = word_of_nat (v ! 10), pName = le_nat 72 (v ! 11)\<rparr>"

definition encode_ghdr :: "GHeader \<Rightarrow> byte list" where "encode_ghdr h = pack ghdr_widths (ghdr_vals h)"
definition encode_part :: "Part \<Rightarrow> byte list" where "encode_part p = pack part_widths (part_vals p)"

section \<open>Comparing\<close>

text \<open>An error is the list of what differs.\<close>

datatype gpt_error =
    GptRead io_error
  | BadSignature bool u64
  | BadRevision bool u32
  | BadHeaderSize bool u32
  | BadNPart bool u32
  | BadPartRead bool nat nat
  | BadPartCRC bool u32 u32
  | BadHeaderRead bool nat nat
  | BadHeaderCRC bool u32 u32
  | BadPart bool nat io_error
  | HeadersDiffer "string list"
  | SameCRC u32
  | NPartsDiffer nat nat
  | PartsDiffer "(nat \<times> string list) list"
  | GptWrite io_error

definition differ :: "'a \<Rightarrow> 'a \<Rightarrow> string \<Rightarrow> string list" where
  "differ x y nm = (if x \<noteq> y then [nm] else [])"

definition EqualHeader :: "GHeader \<Rightarrow> GHeader \<Rightarrow> string list" where
  "EqualHeader p b =
     differ (gSignature p) (gSignature b) ''Signature'' @ differ (gRevision p) (gRevision b) ''Revision'' @
     differ (gHeaderSize p) (gHeaderSize b) ''HeaderSize'' @ differ (gCurrentLBA p) (gBackupLBA b) ''CurrentLBA'' @
     differ (gBackupLBA p) (gCurrentLBA b) ''BackupLBA'' @ differ (gFirstLBA p) (gFirstLBA b) ''FirstLBA'' @
     differ (gLastLBA p) (gLastLBA b) ''LastLBA'' @ differ (gDiskGUID p) (gDiskGUID b) ''DiskGUID'' @
     differ (gNPart p) (gNPart b) ''NPart'' @ differ (gPartSize p) (gPartSize b) ''PartSize''"

definition EqualPart :: "Part \<Rightarrow> Part \<Rightarrow> string list" where
  "EqualPart p b =
     differ (PartGUID p) (PartGUID b) ''PartGUID'' @ differ (UniqueGUID p) (UniqueGUID b) ''UniqueGUID'' @
     differ (pFirstLBA p) (pFirstLBA b) ''FirstLBA'' @ differ (pLastLBA p) (pLastLBA b) ''LastLBA'' @
     differ (pName p) (pName b) ''Name''"

definition EqualParts :: "GPT \<Rightarrow> GPT \<Rightarrow> gpt_error option" where
  "EqualParts p b =
     (if length (gParts p) \<noteq> length (gParts b) then Some (NPartsDiffer (length (gParts p)) (length (gParts b)))
      else
        let ds = filter (\<lambda>d. snd d \<noteq> [])
                   (map (\<lambda>i. (i, EqualPart (gParts p ! i) (gParts b ! i))) [0..<length (gParts p)])
        in if ds = [] then None else Some (PartsDiffer ds))"

section \<open>Reading\<close>

text \<open>
  \<open>binary.Read\<close> of \<open>need\<close> bytes from a section of \<open>n\<close> bytes at \<open>off\<close>.
\<close>

definition read_section :: "'s reader_at \<Rightarrow> 's \<Rightarrow> int \<Rightarrow> nat \<Rightarrow> nat \<Rightarrow> (io_error, byte list) res" where
  "read_section rat s off n need =
     (if n = 0 then Err EOF
      else case rat s (min n need) off of (bs, e, _) \<Rightarrow>
        if length bs \<ge> need then Ok (take need bs)
        else case e of
          None \<Rightarrow> Err UnexpectedEOF
        | Some e' \<Rightarrow> Err (if e' = EOF \<and> bs \<noteq> [] then UnexpectedEOF else e'))"

text \<open>The entries of the table, from number \<open>i\<close> on, \<open>k\<close> of them.\<close>

fun read_parts :: "'s reader_at \<Rightarrow> 's \<Rightarrow> bool \<Rightarrow> GHeader \<Rightarrow> nat \<Rightarrow> nat \<Rightarrow> (gpt_error, Part list) res" where
  "read_parts rat s which h i 0 = Ok []"
| "read_parts rat s which h i (Suc k) =
     (case read_section rat s (sint (gPartStart h * word_of_nat BlockSize) + int i * int (unat (gPartSize h)))
             (unat (gPartSize h)) 128 of
        Ok bs \<Rightarrow> rbind (read_parts rat s which h (Suc i) k) (\<lambda>ps. Ok (part_of (unpack part_widths bs) # ps))
      | Err e \<Rightarrow> Err (BadPart which i e)
      | Panic \<Rightarrow> Panic)"

text \<open>
  \<open>Table\<close> may return a table together with an error. \<open>which\<close> says whether it is the primary one.
\<close>

definition Table :: "'s reader_at \<Rightarrow> 's \<Rightarrow> int \<Rightarrow> GPT option \<times> gpt_error option" where
  "Table rat s off =
     (let which = (off = int BlockSize) in
      case read_section rat s off 92 92 of
        Err e \<Rightarrow> (None, Some (GptRead e))
      | Panic \<Rightarrow> (None, None)
      | Ok hb \<Rightarrow>
          let h = ghdr_of (unpack ghdr_widths hb); g = \<lparr>gHeader = h, gParts = []\<rparr> in
          if gSignature h \<noteq> Signature then (None, Some (BadSignature which (gSignature h)))
          else if gRevision h \<noteq> GptRevision then (None, Some (BadRevision which (gRevision h)))
          else if gHeaderSize h \<noteq> HeaderSz then (None, Some (BadHeaderSize which (gHeaderSize h)))
          else if gNPart h > MaxNPart then (None, Some (BadNPart which (gNPart h)))
          else
            let len = unat (gNPart h) * unat (gPartSize h) in
            case rat s len (sint (gPartStart h * word_of_nat BlockSize)) of (pb, e, _) \<Rightarrow>
              if length pb \<noteq> len \<or> e \<noteq> None then (None, Some (BadPartRead which (length pb) len))
              else if ChecksumIEEE pb \<noteq> gPartCRC h then (Some g, Some (BadPartCRC which (ChecksumIEEE pb) (gPartCRC h)))
              else
                case rat s (unat (gHeaderSize h)) off of (hd0, e, _) \<Rightarrow>
                  if length hd0 \<noteq> unat (gHeaderSize h) \<or> e \<noteq> None then
                    (None, Some (BadHeaderRead which (length hd0) (unat (gHeaderSize h))))
                  else
                    let crc = ChecksumIEEE (overwrite hd0 16 [0, 0, 0, 0]) in
                    if crc \<noteq> gCRC h then (Some g, Some (BadHeaderCRC which crc (gCRC h)))
                    else
                      (case read_parts rat s which h 0 (unat (gNPart h)) of
                         Ok ps \<Rightarrow> (Some (g\<lparr>gParts := ps\<rparr>), None)
                       | Err e \<Rightarrow> (None, Some e)
                       | Panic \<Rightarrow> (None, None)))"

definition New :: "'s reader_at \<Rightarrow> 's \<Rightarrow> PartitionTable \<times> gpt_error option" where
  "New rat s =
     (let p0 = \<lparr>MasterBootRecord = None, Primary = None, Backup = None\<rparr> in
      case rat s BlockSize 0 of (mbr, e, _) \<Rightarrow>
        if length mbr \<noteq> BlockSize \<or> e \<noteq> None then (p0, map_option GptRead e)
        else
          let p1 = p0\<lparr>MasterBootRecord := Some mbr\<rparr> in
          case Table rat s HeaderOff of
            (_, Some e) \<Rightarrow> (p1, Some e)
          | (None, None) \<Rightarrow> (p1, None)
          | (Some g, None) \<Rightarrow>
              let p2 = p1\<lparr>Primary := Some g\<rparr> in
              case Table rat s (sint (gBackupLBA (gHeader g) * word_of_nat BlockSize)) of
                (_, Some e) \<Rightarrow> (p2, Some e)
              | (None, None) \<Rightarrow> (p2, None)
              | (Some b, None) \<Rightarrow>
                  if EqualHeader (gHeader g) (gHeader b) \<noteq> [] then
                    (p2, Some (HeadersDiffer (EqualHeader (gHeader g) (gHeader b))))
                  else if gCRC (gHeader g) = gCRC (gHeader b) then (p2, Some (SameCRC (gCRC (gHeader g))))
                  else (p2\<lparr>Backup := Some b\<rparr>, EqualParts g b))"

section \<open>Writing\<close>

text \<open>
  \<open>copy(h[i*s:], bs)\<close>: panics when the slice starts behind the end, and copies what fits.
\<close>

definition copy_at :: "byte list \<Rightarrow> nat \<Rightarrow> byte list \<Rightarrow> byte list option" where
  "copy_at h off bs = (if off > length h then None else Some (overwrite h off (take (length h - off) bs)))"

fun fill_parts :: "GPT \<Rightarrow> nat \<Rightarrow> nat \<Rightarrow> byte list \<Rightarrow> byte list option" where
  "fill_parts g i 0 h = Some h"
| "fill_parts g i (Suc k) h =
     (if i \<ge> length (gParts g) then None
      else case copy_at h (i * unat (gPartSize (gHeader g))) (encode_part (gParts g ! i)) of
        None \<Rightarrow> None
      | Some h' \<Rightarrow> fill_parts g (Suc i) k h')"

definition writeGPT :: "'d writer_at \<Rightarrow> 'd \<Rightarrow> GPT \<Rightarrow> (gpt_error, GPT) res \<times> 'd" where
  "writeGPT wat d g =
     (let hd0 = gHeader g in
      case fill_parts g 0 (unat (gNPart hd0)) (replicate (unat (gNPart hd0 * gPartSize hd0)) 0) of
        None \<Rightarrow> (Panic, d)
      | Some h \<Rightarrow>
          (case wat d h (sint (gPartStart hd0 * word_of_nat BlockSize)) of
             (Some e, d') \<Rightarrow> (Err (GptWrite e), d')
           | (None, d') \<Rightarrow>
               let hd1 = hd0\<lparr>gPartCRC := ChecksumIEEE h, gCRC := 0\<rparr>;
                   n = unat (gHeaderSize hd1);
                   h1 = take n (encode_ghdr hd1 @ replicate (n - 92) 0);
                   hd2 = hd1\<lparr>gCRC := ChecksumIEEE h1\<rparr>
               in
               case copy_at h1 16 (le_nat 4 (unat (gCRC hd2))) of
                 None \<Rightarrow> (Panic, d')
               | Some h2 \<Rightarrow>
                   (case wat d' h2 (sint (gCurrentLBA hd2 * word_of_nat BlockSize)) of
                      (Some e, d'') \<Rightarrow> (Err (GptWrite e), d'')
                    | (None, d'') \<Rightarrow> (Ok (g\<lparr>gHeader := hd2\<rparr>), d''))))"

text \<open>\<open>Write\<close> needs all three parts (a \<open>nil\<close> one panics); it returns the tables with their new checksums.\<close>

definition gpt_Write :: "'d writer_at \<Rightarrow> 'd \<Rightarrow> PartitionTable \<Rightarrow> (gpt_error, PartitionTable) res \<times> 'd" where
  "gpt_Write wat d p =
     (case MasterBootRecord p of
        None \<Rightarrow> (Panic, d)
      | Some mbr \<Rightarrow>
          (case wat d mbr 0 of
             (Some e, d') \<Rightarrow> (Err (GptWrite e), d')
           | (None, d') \<Rightarrow>
               (case Primary p of
                  None \<Rightarrow> (Panic, d')
                | Some g \<Rightarrow>
                    sbind (\<lambda>d. writeGPT wat d g) (\<lambda>g' d.
                      case Backup p of
                        None \<Rightarrow> (Panic, d)
                      | Some b \<Rightarrow>
                          sbind (\<lambda>d. writeGPT wat d b) (\<lambda>b'. sreturn (p\<lparr>Primary := Some g', Backup := Some b'\<rparr>)) d) d')))"

end
