(* ===== verification/GptRoundtrip.thy ===== *)
theory GptRoundtrip imports Gpt begin

text \<open>
  Tables on a disk: what it means that a disk holds a table (\<open>holds\<close>), writing establishes it, reading
  a table that is held gives it back, and writes elsewhere on the disk keep it.
\<close>

section \<open>Encodings\<close>

definition ok_guid :: "GUID \<Rightarrow> bool" where
  "ok_guid g \<longleftrightarrow> length (gB g) = 8"

definition ok_part :: "Part \<Rightarrow> bool" where
  "ok_part p \<longleftrightarrow> ok_guid (PartGUID p) \<and> ok_guid (UniqueGUID p) \<and> length (pName p) = 72"

lemma le_nat_zero: "le_nat 4 0 = [0, 0, 0, 0]"
proof -
  have "be_nat (Suc (Suc (Suc (Suc 0)))) 0 = [0, 0, 0, 0]" by simp
  moreover have "(4 :: nat) = Suc (Suc (Suc (Suc 0)))" by simp
  ultimately show ?thesis by (simp only: le_nat_def rev.simps append.simps)
qed

lemma guid_fits: "ok_guid g \<Longrightarrow> fits [4, 2, 2, 8] (guid_vals g)"
  using un_le_lt [of "gB g" 8] by (simp add: guid_vals_def ok_guid_def)

lemma guid_of_vals: "ok_guid g \<Longrightarrow> guid_of (guid_vals g) = g"
  by (simp add: guid_of_def guid_vals_def ok_guid_def le_nat_un_le)

lemma ghdr_fits: "ok_guid (gDiskGUID h) \<Longrightarrow> fits ghdr_widths (ghdr_vals h)"
  using un_le_lt [of "gB (gDiskGUID h)" 8] by (simp add: ghdr_widths_def ghdr_vals_def guid_vals_def ok_guid_def)

lemma ghdr_of_vals: "ok_guid (gDiskGUID h) \<Longrightarrow> ghdr_of (ghdr_vals h) = h"
  by (simp add: ghdr_of_def ghdr_vals_def guid_vals_def guid_of_def ok_guid_def le_nat_un_le)

lemma part_fits: "ok_part p \<Longrightarrow> fits part_widths (part_vals p)"
  using un_le_lt [of "gB (PartGUID p)" 8] un_le_lt [of "gB (UniqueGUID p)" 8] un_le_lt [of "pName p" 72]
  by (simp add: part_widths_def part_vals_def guid_vals_def ok_guid_def ok_part_def)

lemma part_of_vals: "ok_part p \<Longrightarrow> part_of (part_vals p) = p"
  by (simp add: part_of_def part_vals_def guid_vals_def guid_of_def ok_guid_def ok_part_def le_nat_un_le)

lemma length_encode_ghdr: "ok_guid (gDiskGUID h) \<Longrightarrow> length (encode_ghdr h) = 92"
  by (simp add: encode_ghdr_def length_pack [OF ghdr_fits]) (simp add: ghdr_widths_def)

lemma length_encode_part: "ok_part p \<Longrightarrow> length (encode_part p) = 128"
  by (simp add: encode_part_def length_pack [OF part_fits]) (simp add: part_widths_def)

lemma decode_ghdr: "ok_guid (gDiskGUID h) \<Longrightarrow> ghdr_of (unpack ghdr_widths (encode_ghdr h)) = h"
  by (simp add: encode_ghdr_def unpack_pack' [OF ghdr_fits] ghdr_of_vals)

lemma decode_part: "ok_part p \<Longrightarrow> part_of (unpack part_widths (encode_part p)) = p"
  by (simp add: encode_part_def unpack_pack' [OF part_fits] part_of_vals)

text \<open>The checksum sits in bytes 16 to 19 of the header.\<close>

lemma overwrite_crc:
  assumes "ok_guid (gDiskGUID h)"
  shows "overwrite (encode_ghdr h) 16 (le_nat 4 (unat c)) = encode_ghdr (h\<lparr>gCRC := c\<rparr>)"
proof -
  have "encode_ghdr h = (le_nat 8 (unat (gSignature h)) @ le_nat 4 (unat (gRevision h)) @ le_nat 4 (unat (gHeaderSize h))) @
      le_nat 4 (unat (gCRC h)) @ pack (drop 4 ghdr_widths) (drop 4 (ghdr_vals h))" for h
    by (simp add: encode_ghdr_def ghdr_widths_def ghdr_vals_def)
  note e = this
  have d: "drop 4 (ghdr_vals (h\<lparr>gCRC := c\<rparr>)) = drop 4 (ghdr_vals h)" by (simp add: ghdr_vals_def)
  show ?thesis unfolding e [of h] e [of "h\<lparr>gCRC := c\<rparr>"] d by (simp add: overwrite_def)
qed

section \<open>Tables held by a disk\<close>

definition parts_off :: "GPT \<Rightarrow> nat" where
  "parts_off g = unat (gPartStart (gHeader g)) * 512"

definition header_off :: "GPT \<Rightarrow> nat" where
  "header_off g = unat (gCurrentLBA (gHeader g)) * 512"

definition parts_len :: "GPT \<Rightarrow> nat" where
  "parts_len g = unat (gNPart (gHeader g)) * unat (gPartSize (gHeader g))"

text \<open>A table that can be written: the fixed fields, as many parts as it says, entries that have room.\<close>

definition ok_gpt :: "GPT \<Rightarrow> bool" where
  "ok_gpt g \<longleftrightarrow> gSignature (gHeader g) = Signature \<and> gRevision (gHeader g) = GptRevision \<and>
     gHeaderSize (gHeader g) = HeaderSz \<and> 0 < gNPart (gHeader g) \<and> gNPart (gHeader g) \<le> MaxNPart \<and>
     length (gParts g) = unat (gNPart (gHeader g)) \<and> 128 \<le> unat (gPartSize (gHeader g)) \<and> parts_len g < 2 ^ 32 \<and>
     ok_guid (gDiskGUID (gHeader g)) \<and> (\<forall>p \<in> set (gParts g). ok_part p)"

text \<open>The table fits a disk of the given size, its header apart from its entries.\<close>

definition fits_disk :: "nat \<Rightarrow> GPT \<Rightarrow> bool" where
  "fits_disk n g \<longleftrightarrow> n < 2 ^ 63 \<and> header_off g + 92 \<le> n \<and> parts_off g + parts_len g \<le> n \<and>
     (header_off g + 92 \<le> parts_off g \<or> parts_off g + parts_len g \<le> header_off g)"

definition holds :: "byte list \<Rightarrow> GPT \<Rightarrow> bool" where
  "holds d g \<longleftrightarrow>
     (let h = take (parts_len g) (drop (parts_off g) d) in
      take 92 (drop (header_off g) d) = encode_ghdr (gHeader g) \<and> length h = parts_len g \<and>
      (\<forall>i < length (gParts g). take 128 (drop (i * unat (gPartSize (gHeader g))) h) = encode_part (gParts g ! i)) \<and>
      gPartCRC (gHeader g) = ChecksumIEEE h \<and>
      gCRC (gHeader g) = ChecksumIEEE (encode_ghdr ((gHeader g)\<lparr>gCRC := 0\<rparr>)))"

text \<open>A write that touches neither the header nor the entries keeps the table.\<close>

definition apart :: "nat \<Rightarrow> nat \<Rightarrow> GPT \<Rightarrow> bool" where
  "apart off n g \<longleftrightarrow> (off + n \<le> header_off g \<or> header_off g + 92 \<le> off) \<and>
     (off + n \<le> parts_off g \<or> parts_off g + parts_len g \<le> off)"

lemma holds_overwrite:
  assumes "holds d g" "off + length bs \<le> length d" "apart off (length bs) g"
  shows "holds (overwrite d off bs) g"
proof -
  have "take (parts_len g) (drop (parts_off g) (overwrite d off bs)) = take (parts_len g) (drop (parts_off g) d)"
    using assms(2,3) by (intro overwrite_other) (auto simp: apart_def)
  moreover have "take 92 (drop (header_off g) (overwrite d off bs)) = take 92 (drop (header_off g) d)"
    using assms(2,3) by (intro overwrite_other) (auto simp: apart_def)
  ultimately show ?thesis using assms(1) by (simp add: holds_def)
qed

lemma sint_unat:
  assumes "unat (w :: u64) < 2 ^ 63"
  shows "sint w = int (unat w)"
proof -
  have u: "uint w = int (unat w)" by simp
  have "int (unat w) < int (2 ^ 63)" using assms by (simp only: of_nat_less_iff)
  then have b: "uint w < 2 ^ 63" by simp
  have "- (2 ^ 63) \<le> (0 :: int)" by simp
  also have "0 \<le> uint w" by (rule unsigned_greater_eq)
  finally have "signed_take_bit 63 (uint w) = uint w" using b by (rule signed_take_bit_int_eq_self)
  then have "sint w = uint w" by (simp add: sint_uint)
  then show ?thesis using u by (rule trans)
qed

lemma sint_lba:
  assumes "unat (w :: u64) * 512 < 2 ^ 63"
  shows "sint (w * word_of_nat BlockSize) = int (unat w * 512)"
proof -
  have "unat (w * word_of_nat BlockSize) = unat w * 512"
    using assms by (simp add: BlockSize_def unat_word_ariths)
  with sint_unat [of "w * word_of_nat BlockSize"] assms show ?thesis by simp
qed

section \<open>Reading\<close>

lemma file_ReadAt_in: "0 < n \<Longrightarrow> off + n \<le> length f \<Longrightarrow> file_ReadAt f n (int off) = (take n (drop off f), None, f)"
  by (simp add: file_ReadAt_def)

lemma read_section_in:
  assumes "0 < need" "need \<le> n" "off + need \<le> length f"
  shows "read_section file_ReadAt f (int off) n need = Ok (take need (drop off f))"
proof -
  have "length (take need (drop off f)) = need" using assms(3) by simp
  then show ?thesis
    using assms file_ReadAt_in [of need off f] by (simp add: read_section_def min_absorb2 del: length_take)
qed

lemma read_parts_ok:
  assumes ok: "ok_gpt g" "fits_disk (length d) g" "holds d g"
  shows "i + k = length (gParts g) \<Longrightarrow> read_parts file_ReadAt d which (gHeader g) i k = Ok (drop i (gParts g))"
proof (induction k arbitrary: i)
  case (Suc k)
  let ?s = "unat (gPartSize (gHeader g))" and ?n = "length (gParts g)"
  have i: "i < ?n" using Suc.prems by simp
  have s: "128 \<le> ?s" "parts_len g = ?n * ?s" using ok(1) by (auto simp: ok_gpt_def parts_len_def)
  have "(i + 1) * ?s \<le> ?n * ?s" using i by (intro mult_right_mono) auto
  then have b: "i * ?s + 128 \<le> parts_len g" using s by simp
  have p: "parts_off g + parts_len g \<le> length d" "length d < 2 ^ 63" using ok(2) by (auto simp: fits_disk_def)
  have off: "sint (gPartStart (gHeader g) * word_of_nat BlockSize) + int i * int ?s = int (parts_off g + i * ?s)"
    using p b sint_lba [of "gPartStart (gHeader g)"] by (simp add: parts_off_def)
  have "take 128 (drop (parts_off g + i * ?s) d) = take 128 (drop (i * ?s) (take (parts_len g) (drop (parts_off g) d)))"
    using b by (simp add: drop_take min_def add.commute)
  also have "\<dots> = encode_part (gParts g ! i)" using ok(3) i by (simp add: holds_def Let_def)
  finally have "read_section file_ReadAt d (int (parts_off g + i * ?s)) ?s 128 = Ok (encode_part (gParts g ! i))"
    using read_section_in [of 128 ?s "parts_off g + i * ?s" d] s b p by simp
  moreover have "part_of (unpack part_widths (encode_part (gParts g ! i))) = gParts g ! i"
    using ok(1) i by (intro decode_part) (simp add: ok_gpt_def)
  moreover have "drop i (gParts g) = gParts g ! i # drop (Suc i) (gParts g)" using i by (simp add: Cons_nth_drop_Suc)
  ultimately show ?case using Suc.IH [of "Suc i"] Suc.prems unfolding read_parts.simps off by simp
qed simp

lemma holds_Table:
  assumes ok: "ok_gpt g" "fits_disk (length d) g" "holds d g"
  shows "Table file_ReadAt d (int (header_off g)) = (Some g, None)"
proof -
  let ?h = "gHeader g" and ?pb = "take (parts_len g) (drop (parts_off g) d)"
  have g: "ok_guid (gDiskGUID ?h)" using ok(1) by (simp add: ok_gpt_def)
  have f: "header_off g + 92 \<le> length d" "parts_off g + parts_len g \<le> length d" "length d < 2 ^ 63"
    using ok(2) by (auto simp: fits_disk_def)
  have hd: "take 92 (drop (header_off g) d) = encode_ghdr ?h" and pb: "length ?pb = parts_len g"
      "gPartCRC ?h = ChecksumIEEE ?pb" "gCRC ?h = ChecksumIEEE (encode_ghdr (?h\<lparr>gCRC := 0\<rparr>))"
    using ok(3) by (simp_all add: holds_def Let_def)
  have r1: "read_section file_ReadAt d (int (header_off g)) 92 92 = Ok (encode_ghdr ?h)"
    using read_section_in [of 92 92 "header_off g" d] f(1) hd by simp
  have n: "unat (gNPart ?h) = length (gParts g)" "0 < gNPart ?h" "128 \<le> unat (gPartSize ?h)"
    using ok(1) by (auto simp: ok_gpt_def)
  have "0 < unat (gNPart ?h)" using n(2) by (simp add: word_less_nat_alt)
  moreover have "0 < unat (gPartSize ?h)" using n(3) by linarith
  ultimately have "0 < parts_len g" by (simp add: parts_len_def)
  then have r2: "file_ReadAt d (unat (gNPart ?h) * unat (gPartSize ?h)) (sint (gPartStart ?h * word_of_nat BlockSize)) = (?pb, None, d)"
    using f sint_lba [of "gPartStart ?h"] file_ReadAt_in [of "parts_len g" "parts_off g" d]
    by (simp add: parts_off_def parts_len_def)
  have r3: "file_ReadAt d 92 (int (header_off g)) = (encode_ghdr ?h, None, d)"
    using file_ReadAt_in [of 92 "header_off g" d] f(1) hd by simp
  have c: "overwrite (encode_ghdr ?h) 16 [0, 0, 0, 0] = encode_ghdr (?h\<lparr>gCRC := 0\<rparr>)"
    using overwrite_crc [OF g, of 0] by (simp add: le_nat_zero)
  have r4: "read_parts file_ReadAt d w ?h 0 (unat (gNPart ?h)) = Ok (gParts g)" for w
    using read_parts_ok [OF ok, of 0] n(1) by simp
  have sz: "gHeaderSize ?h = HeaderSz" "unat HeaderSz = 92" "gSignature ?h = Signature" "gRevision ?h = GptRevision"
      "\<not> gNPart ?h > MaxNPart"
    using ok(1) by (auto simp: ok_gpt_def HeaderSz_def)
  have "length ?pb = unat (gNPart ?h) * unat (gPartSize ?h)" using pb(1) by (simp add: parts_len_def)
  then show ?thesis
    unfolding Table_def Let_def r1 using r2 r3 c r4 pb(2,3) sz length_encode_ghdr [OF g]
    by (simp add: decode_ghdr [OF g] del: length_take)
qed

section \<open>Writing\<close>

lemma fill_parts_ok:
  assumes "\<forall>p \<in> set (gParts g). ok_part p" "128 \<le> s" "s = unat (gPartSize (gHeader g))"
    and "i + k = length (gParts g)" "length h = length (gParts g) * s"
    and "\<forall>j < i. take 128 (drop (j * s) h) = encode_part (gParts g ! j)"
  shows "\<exists>h'. fill_parts g i k h = Some h' \<and> length h' = length h \<and>
    (\<forall>j < length (gParts g). take 128 (drop (j * s) h') = encode_part (gParts g ! j))"
  using assms
proof (induction k arbitrary: i h)
  case (Suc k)
  let ?e = "encode_part (gParts g ! i)" and ?n = "length (gParts g)"
  have i: "i < ?n" using Suc.prems(4) by simp
  have e: "length ?e = 128" using Suc.prems(1) i by (intro length_encode_part) auto
  have "(i + 1) * s \<le> ?n * s" using i by (intro mult_right_mono) auto
  then have b: "i * s + 128 \<le> length h" using Suc.prems(2,5) by simp
  have c: "copy_at h (i * s) ?e = Some (overwrite h (i * s) ?e)" using b e by (simp add: copy_at_def)
  have l: "length (overwrite h (i * s) ?e) = length h" using b e by (simp add: length_overwrite)
  have "take 128 (drop (j * s) (overwrite h (i * s) ?e)) = encode_part (gParts g ! j)" if "j < Suc i" for j
  proof (cases "j = i")
    case True
    then show ?thesis using overwrite_same [of "i * s" ?e h] b e by simp
  next
    case False
    then have "j < i" using that by simp
    then have "(j + 1) * s \<le> i * s" by (intro mult_right_mono) auto
    then have "j * s + 128 \<le> i * s" using Suc.prems(2) by simp
    then have "take 128 (drop (j * s) (overwrite h (i * s) ?e)) = take 128 (drop (j * s) h)"
      using b e by (intro overwrite_other) auto
    then show ?thesis using Suc.prems(6) \<open>j < i\<close> by simp
  qed
  then show ?case using Suc.IH [of "Suc i" "overwrite h (i * s) ?e"] Suc.prems c l i by auto
qed auto

text \<open>The table as it is after writing: with its checksums.\<close>

definition with_crc :: "GPT \<Rightarrow> u32 \<Rightarrow> u32 \<Rightarrow> GPT" where
  "with_crc g pc hc = g\<lparr>gHeader := (gHeader g)\<lparr>gPartCRC := pc, gCRC := hc\<rparr>\<rparr>"

lemma with_crc_simps [simp]:
  "parts_off (with_crc g pc hc) = parts_off g" "header_off (with_crc g pc hc) = header_off g"
  "parts_len (with_crc g pc hc) = parts_len g" "gParts (with_crc g pc hc) = gParts g"
  "ok_gpt (with_crc g pc hc) = ok_gpt g" "fits_disk n (with_crc g pc hc) = fits_disk n g"
  "apart off n (with_crc g pc hc) = apart off n g"
  by (simp_all add: with_crc_def parts_off_def header_off_def parts_len_def ok_gpt_def fits_disk_def apart_def)

lemma writeGPT_holds:
  assumes ok: "ok_gpt g" "fits_disk (length d) g"
  shows "\<exists>pc hc bs hb. let g' = with_crc g pc hc; d' = overwrite (overwrite d (parts_off g) bs) (header_off g) hb in
    writeGPT file_WriteAt d g = (Ok g', d') \<and> length bs = parts_len g \<and> length hb = 92 \<and> length d' = length d \<and> holds d' g'"
proof -
  let ?h = "gHeader g" and ?s = "unat (gPartSize (gHeader g))"
  have g: "ok_guid (gDiskGUID ?h)" using ok(1) by (simp add: ok_gpt_def)
  have n: "unat (gNPart ?h) = length (gParts g)" "parts_len g < 2 ^ 32" "128 \<le> ?s" "\<forall>p \<in> set (gParts g). ok_part p"
    using ok(1) by (auto simp: ok_gpt_def)
  have len: "unat (gNPart ?h * gPartSize ?h) = parts_len g" using n(2) by (simp add: parts_len_def unat_word_ariths)
  obtain h where h: "fill_parts g 0 (unat (gNPart ?h)) (replicate (unat (gNPart ?h * gPartSize ?h)) 0) = Some h"
      "length h = parts_len g" "\<forall>j < length (gParts g). take 128 (drop (j * ?s) h) = encode_part (gParts g ! j)"
    using fill_parts_ok [of g ?s 0 "unat (gNPart ?h)" "replicate (unat (gNPart ?h * gPartSize ?h)) 0"] n len
    by (auto simp: parts_len_def)
  have f: "header_off g + 92 \<le> length d" "parts_off g + parts_len g \<le> length d" "length d < 2 ^ 63"
      "header_off g + 92 \<le> parts_off g \<or> parts_off g + parts_len g \<le> header_off g"
    using ok(2) by (auto simp: fits_disk_def)
  let ?d1 = "overwrite d (parts_off g) h"
  have w1: "file_WriteAt d h (sint (gPartStart ?h * word_of_nat BlockSize)) = (None, ?d1)"
    using f sint_lba [of "gPartStart ?h"] unfolding file_WriteAt_def parts_off_def by (simp del: of_nat_mult)
  let ?h1 = "?h\<lparr>gPartCRC := ChecksumIEEE h, gCRC := 0\<rparr>"
  let ?c = "ChecksumIEEE (encode_ghdr ?h1)"
  let ?h2 = "?h1\<lparr>gCRC := ?c\<rparr>"
  have g1: "ok_guid (gDiskGUID ?h1)" "ok_guid (gDiskGUID ?h2)" using g by simp_all
  have sz: "unat (gHeaderSize ?h1) = 92" using ok(1) by (simp add: ok_gpt_def HeaderSz_def)
  have t: "take (unat (gHeaderSize ?h1)) (encode_ghdr ?h1 @ replicate (unat (gHeaderSize ?h1) - 92) 0) = encode_ghdr ?h1"
    using length_encode_ghdr [OF g1(1)] unfolding sz by simp
  have c: "copy_at (encode_ghdr ?h1) 16 (le_nat 4 (unat ?c)) = Some (encode_ghdr ?h2)"
    using overwrite_crc [OF g1(1), of ?c] length_encode_ghdr [OF g1(1)] by (simp add: copy_at_def)
  let ?d2 = "overwrite ?d1 (header_off g) (encode_ghdr ?h2)"
  have w2: "file_WriteAt ?d1 (encode_ghdr ?h2) (sint (gCurrentLBA ?h * word_of_nat BlockSize)) = (None, ?d2)"
    using f sint_lba [of "gCurrentLBA ?h"] unfolding file_WriteAt_def header_off_def by (simp del: of_nat_mult)
  let ?g = "g\<lparr>gHeader := ?h2\<rparr>"
  have w: "writeGPT file_WriteAt d g = (Ok ?g, ?d2)"
    unfolding writeGPT_def Let_def h(1) option.case w1 prod.case t using c w2 by simp
  have lh: "length (encode_ghdr ?h2) = 92" by (rule length_encode_ghdr [OF g1(2)])
  have l1: "length ?d1 = length d" using f(2) h(2) by (simp add: length_overwrite)
  have l2: "length ?d2 = length d" using f(1) lh l1 by (simp add: length_overwrite)
  have offs: "parts_off ?g = parts_off g" "header_off ?g = header_off g" "parts_len ?g = parts_len g"
    by (simp_all add: parts_off_def header_off_def parts_len_def)
  have "take 92 (drop (header_off g) ?d2) = encode_ghdr ?h2"
    using overwrite_same [of "header_off g" "encode_ghdr ?h2" ?d1] f(1) lh l1 by simp
  moreover have "take (parts_len g) (drop (parts_off g) ?d2) = take (parts_len g) (drop (parts_off g) ?d1)"
    using f(1,4) lh l1 by (intro overwrite_other) auto
  moreover have "take (parts_len g) (drop (parts_off g) ?d1) = h"
    using overwrite_same [of "parts_off g" h d] f(2) h(2) by simp
  ultimately have "holds ?d2 ?g" using h(2,3) unfolding holds_def offs Let_def by simp
  moreover have "?g = with_crc g (ChecksumIEEE h) ?c" by (simp add: with_crc_def)
  ultimately show ?thesis using w l2 h(2) lh
    by (intro exI [of _ "ChecksumIEEE h"] exI [of _ ?c] exI [of _ h] exI [of _ "encode_ghdr ?h2"]) (simp add: Let_def)
qed

section \<open>The whole disk\<close>

text \<open>The three parts lie apart, the primary header in the block after the boot record.\<close>

definition ok_layout :: "nat \<Rightarrow> GPT \<Rightarrow> GPT \<Rightarrow> bool" where
  "ok_layout n g b \<longleftrightarrow> fits_disk n g \<and> fits_disk n b \<and> gCurrentLBA (gHeader g) = 1 \<and>
     512 \<le> parts_off g \<and> 512 \<le> header_off b \<and> 512 \<le> parts_off b \<and>
     apart (parts_off b) (parts_len b) g \<and> apart (header_off b) 92 g"

lemma write_both:
  assumes ok: "ok_gpt g" "ok_gpt b" "ok_layout (length d) g b" "length mbr = 512"
  shows "\<exists>pc hc pc' hc' d'. let g' = with_crc g pc hc; b' = with_crc b pc' hc' in
    gpt_Write file_WriteAt d \<lparr>MasterBootRecord = Some mbr, Primary = Some g, Backup = Some b\<rparr> =
      (Ok \<lparr>MasterBootRecord = Some mbr, Primary = Some g', Backup = Some b'\<rparr>, d') \<and>
    length d' = length d \<and> take 512 d' = mbr \<and> holds d' g' \<and> holds d' b'"
proof -
  have l: "fits_disk (length d) g" "fits_disk (length d) b" "header_off g = 512"
      "512 \<le> parts_off g" "512 \<le> header_off b" "512 \<le> parts_off b"
      "apart (parts_off b) (parts_len b) g" "apart (header_off b) 92 g"
    using ok(3) by (auto simp: ok_layout_def header_off_def)
  let ?d0 = "overwrite d 0 mbr"
  have n: "512 \<le> length d" using l(1,3) by (simp add: fits_disk_def)
  have d0: "length ?d0 = length d" "take 512 ?d0 = mbr"
    using n ok(4) length_overwrite [of 0 mbr d] overwrite_same [of 0 mbr d] by auto
  have keep: "take 512 (overwrite x off bs) = take 512 x" if "512 \<le> off" "off + length bs \<le> length x" for x off bs
    using overwrite_other [of off bs x 0 512] that by simp
  have wm: "file_WriteAt d mbr 0 = (None, ?d0)" by (simp add: file_WriteAt_def)
  obtain pc hc bs hb where 1: "writeGPT file_WriteAt ?d0 g = (Ok (with_crc g pc hc), overwrite (overwrite ?d0 (parts_off g) bs) (header_off g) hb)"
      "length bs = parts_len g" "length hb = 92" "length (overwrite (overwrite ?d0 (parts_off g) bs) (header_off g) hb) = length d"
      "holds (overwrite (overwrite ?d0 (parts_off g) bs) (header_off g) hb) (with_crc g pc hc)"
    using writeGPT_holds [OF ok(1), of ?d0] l(1) d0(1) by (auto simp: Let_def)
  let ?d1 = "overwrite (overwrite ?d0 (parts_off g) bs) (header_off g) hb"
  obtain pc' hc' bs' hb' where 2: "writeGPT file_WriteAt ?d1 b = (Ok (with_crc b pc' hc'), overwrite (overwrite ?d1 (parts_off b) bs') (header_off b) hb')"
      "length bs' = parts_len b" "length hb' = 92" "length (overwrite (overwrite ?d1 (parts_off b) bs') (header_off b) hb') = length d"
      "holds (overwrite (overwrite ?d1 (parts_off b) bs') (header_off b) hb') (with_crc b pc' hc')"
    using writeGPT_holds [OF ok(2), of ?d1] l(2) 1(4) by (auto simp: Let_def)
  let ?d2 = "overwrite (overwrite ?d1 (parts_off b) bs') (header_off b) hb'"
  have f: "parts_off g + parts_len g \<le> length d" "header_off g + 92 \<le> length d"
      "parts_off b + parts_len b \<le> length d" "header_off b + 92 \<le> length d"
    using l(1,2) by (auto simp: fits_disk_def)
  have m: "length (overwrite ?d0 (parts_off g) bs) = length d" "length (overwrite ?d1 (parts_off b) bs') = length d"
    using f 1(2,4) 2(2) d0(1) by (simp_all add: length_overwrite)
  have "take 512 ?d2 = mbr"
    using keep l(3-6) f 1(2-4) 2(2,3) d0 m by simp
  moreover have "holds (overwrite ?d1 (parts_off b) bs') (with_crc g pc hc)"
    by (rule holds_overwrite [OF 1(5)]) (use 1(4) 2(2) l(7) f in simp_all)
  then have "holds ?d2 (with_crc g pc hc)"
    by (rule holds_overwrite) (use 2(3) l(8) f m in simp_all)
  moreover have "gpt_Write file_WriteAt d \<lparr>MasterBootRecord = Some mbr, Primary = Some g, Backup = Some b\<rparr> =
      (Ok \<lparr>MasterBootRecord = Some mbr, Primary = Some (with_crc g pc hc), Backup = Some (with_crc b pc' hc')\<rparr>, ?d2)"
    unfolding gpt_Write_def using wm 1(1) 2(1) by (simp add: sbind_def sreturn_def)
  ultimately show ?thesis using 2(4,5)
    by (intro exI [of _ pc] exI [of _ hc] exI [of _ pc'] exI [of _ hc'] exI [of _ ?d2]) (simp add: Let_def)
qed

text \<open>C11: a boot record and two tables that agree and lie apart on the disk, written by \<open>Write\<close>, are read
  back by \<open>New\<close> with their checksums, and the partitions are compared; the only other outcome is the
  complaint that both header checksums are the same.\<close>

theorem GPT_write_read:
  assumes "ok_gpt g" "ok_gpt b" "ok_layout (length d) g b" "length mbr = 512"
    and "EqualHeader (gHeader g) (gHeader b) = []"
  shows "\<exists>pc hc pc' hc' d'. let g' = with_crc g pc hc; b' = with_crc b pc' hc';
      p' = \<lparr>MasterBootRecord = Some mbr, Primary = Some g', Backup = Some b'\<rparr> in
    gpt_Write file_WriteAt d \<lparr>MasterBootRecord = Some mbr, Primary = Some g, Backup = Some b\<rparr> = (Ok p', d') \<and>
    New file_ReadAt d' = (if hc = hc' then (p'\<lparr>Backup := None\<rparr>, Some (SameCRC hc)) else (p', EqualParts g b))"
proof -
  obtain pc hc pc' hc' d' where w: "gpt_Write file_WriteAt d \<lparr>MasterBootRecord = Some mbr, Primary = Some g, Backup = Some b\<rparr> =
      (Ok \<lparr>MasterBootRecord = Some mbr, Primary = Some (with_crc g pc hc), Backup = Some (with_crc b pc' hc')\<rparr>, d')"
      "length d' = length d" "take 512 d' = mbr" "holds d' (with_crc g pc hc)" "holds d' (with_crc b pc' hc')"
    using write_both [OF assms(1-4)] by (auto simp: Let_def)
  have l: "fits_disk (length d) g" "fits_disk (length d) b" "gCurrentLBA (gHeader g) = 1"
    using assms(3) by (auto simp: ok_layout_def)
  have g: "header_off g = 512" using l(3) by (simp add: header_off_def)
  have e: "gBackupLBA (gHeader g) = gCurrentLBA (gHeader b)"
    using assms(5) by (auto simp: EqualHeader_def differ_def split: if_splits)
  have eh: "EqualHeader (gHeader (with_crc g pc hc)) (gHeader (with_crc b pc' hc')) = []"
    using assms(5) by (simp add: EqualHeader_def with_crc_def)
  have t1: "Table file_ReadAt d' HeaderOff = (Some (with_crc g pc hc), None)"
    using holds_Table [OF _ _ w(4)] assms(1) l(1) w(2) g by (simp add: HeaderOff_def)
  have "unat (gCurrentLBA (gHeader b)) * 512 < 2 ^ 63" using l(2) by (simp add: fits_disk_def header_off_def)
  then have "sint (gBackupLBA (gHeader (with_crc g pc hc)) * word_of_nat BlockSize) = int (header_off b)"
    using sint_lba [of "gCurrentLBA (gHeader b)"] e by (simp add: with_crc_def header_off_def)
  then have t2: "Table file_ReadAt d' (sint (gBackupLBA (gHeader (with_crc g pc hc)) * word_of_nat BlockSize)) =
      (Some (with_crc b pc' hc'), None)"
    using holds_Table [OF _ _ w(5)] assms(2) l(2) w(2) by simp
  have "512 \<le> length d'" using l(1) g w(2) by (simp add: fits_disk_def)
  then have m: "file_ReadAt d' BlockSize 0 = (mbr, None, d')"
    using file_ReadAt_in [of 512 0 d'] w(3) by (simp add: BlockSize_def)
  have p: "EqualParts (with_crc g pc hc) (with_crc b pc' hc') = EqualParts g b" by (simp add: EqualParts_def)
  have "New file_ReadAt d' = (if hc = hc' then (\<lparr>MasterBootRecord = Some mbr, Primary = Some (with_crc g pc hc), Backup = None\<rparr>, Some (SameCRC hc))
      else (\<lparr>MasterBootRecord = Some mbr, Primary = Some (with_crc g pc hc), Backup = Some (with_crc b pc' hc')\<rparr>, EqualParts g b))"
    unfolding New_def Let_def m prod.case t1 option.case
    using t2 eh p assms(4) by (simp add: BlockSize_def) (simp add: with_crc_def)
  with w(1) show ?thesis
    by (intro exI [of _ pc] exI [of _ hc] exI [of _ pc'] exI [of _ hc'] exI [of _ d']) (simp add: Let_def)
qed

definition ex_guid :: GUID where
  "ex_guid = \<lparr>gL = 1, gW1 = 2, gW2 = 3, gB = replicate 8 7\<rparr>"

definition ex_gpt :: "u64 \<Rightarrow> u64 \<Rightarrow> u64 \<Rightarrow> GPT" where
  "ex_gpt cur bak start = \<lparr>gHeader = \<lparr>gSignature = Signature, gRevision = GptRevision, gHeaderSize = HeaderSz, gCRC = 0,
     gReserved = 0, gCurrentLBA = cur, gBackupLBA = bak, gFirstLBA = 3, gLastLBA = 7, gDiskGUID = ex_guid, gPartStart = start,
     gNPart = 1, gPartSize = 128, gPartCRC = 0\<rparr>,
     gParts = [\<lparr>PartGUID = ex_guid, UniqueGUID = ex_guid, pFirstLBA = 3, pLastLBA = 7, pAttribute = 0, pName = replicate 72 65\<rparr>]\<rparr>"

theorem GPT_write_read_witness:
  "\<exists>p' d' e. gpt_Write file_WriteAt (replicate 5120 0)
     \<lparr>MasterBootRecord = Some (replicate 512 1), Primary = Some (ex_gpt 1 9 2), Backup = Some (ex_gpt 9 1 8)\<rparr> = (Ok p', d') \<and>
     fst (New file_ReadAt d') \<in> {p', p'\<lparr>Backup := None\<rparr>}"
proof -
  have g: "ok_gpt (ex_gpt 1 9 2)" "ok_gpt (ex_gpt 9 1 8)"
    by (simp_all add: ok_gpt_def ex_gpt_def parts_len_def ok_part_def ok_guid_def ex_guid_def MaxNPart_def)
  have l: "ok_layout (length (replicate 5120 (0 :: byte))) (ex_gpt 1 9 2) (ex_gpt 9 1 8)"
    by (simp add: ok_layout_def fits_disk_def header_off_def parts_off_def parts_len_def apart_def ex_gpt_def)
  have e: "EqualHeader (gHeader (ex_gpt 1 9 2)) (gHeader (ex_gpt 9 1 8)) = []"
    by (simp add: EqualHeader_def differ_def ex_gpt_def)
  have m: "length (replicate 512 (1 :: byte)) = 512" by simp
  from GPT_write_read [OF g l m e] show ?thesis by (auto simp: Let_def split: if_splits)
qed

section \<open>Behaviours outside the contract\<close>

text \<open>The size of the table is a 32-bit product: when it wraps around, writing panics.\<close>

lemma writeGPT_wraps:
  assumes "gNPart (gHeader g) = 2" "gPartSize (gHeader g) = 0x80000000" "length (gParts g) = 2"
  shows "writeGPT wat d g = (Panic, d)"
proof -
  have w: "unat (gNPart (gHeader g) * gPartSize (gHeader g)) = 0" using assms(1,2) by simp
  have n: "unat (gNPart (gHeader g)) = Suc (Suc 0)" using assms(1) by simp
  have f: "fill_parts g 0 (Suc (Suc 0)) (replicate 0 0) = None"
    using assms by (simp add: copy_at_def overwrite_def)
  show ?thesis unfolding writeGPT_def Let_def w n f by simp
qed

end
