(* ===== verification/BzImage.thy ===== *)
theory BzImage imports BinStruct begin

text \<open>
  \<open>pkg/boot/bzimage\<close>, the structures: \<open>LinuxHeader\<close> and \<open>LinuxParams\<close> (\<open>header.go\<close>) and their encoding.
  A layout lists the fields in order with their widths in bytes and the offset that the tag of the field
  states. The parameters are kept as the list of their field values, by layout; fields named \<open>_\<close> are
  skipped by \<open>encoding/binary\<close>: read as zero and written as zero.
\<close>

section \<open>Layouts\<close>

type_synonym layout = "(string \<times> nat \<times> nat) list"

definition widths :: "layout \<Rightarrow> nat list" where
  "widths l = map (\<lambda>(n, w, o1). w) l"

fun field_at :: "layout \<Rightarrow> string \<Rightarrow> nat option" where
  "field_at [] nm = None"
| "field_at ((n, w, off) # l) nm = (if n = nm then Some 0 else map_option Suc (field_at l nm))"

section \<open>The header\<close>

record LinuxHeader =
  lhMBRCode :: "byte list"
  lhExtRamdiskImage :: u32
  lhExtRamdiskSize :: u32
  lhExtCmdlinePtr :: u32
  lhO :: "byte list"
  lhSetupSects :: byte
  lhRootFlags :: u16
  lhSyssize :: u32
  lhRAMSize :: u16
  lhVidmode :: u16
  lhRootDev :: u16
  lhBootsectormagic :: u16
  lhJump :: u16
  lhHeaderMagic :: "byte list"
  lhProtocolversion :: u16
  lhRealModeSwitch :: u32
  lhStartSys :: u16
  lhKveraddr :: u16
  lhTypeOfLoader :: byte
  lhLoadflags :: byte
  lhSetupmovesize :: u16
  lhCode32Start :: u32
  lhRamdiskImage :: u32
  lhRamdiskSize :: u32
  lhBootSectKludge :: "byte list"
  lhHeapendptr :: u16
  lhExtLoaderVer :: byte
  lhExtLoaderType :: byte
  lhCmdlineptr :: u32
  lhInitrdAddrMax :: u32
  lhKernelalignment :: u32
  lhRelocatableKernel :: byte
  lhMinAlignment :: byte
  lhXLoadFlags :: u16
  lhCmdLineSize :: u32
  lhHardwareSubArch :: u32
  lhHardwareSubArchData :: u64
  lhPayloadOffset :: u32
  lhPayloadSize :: u32
  lhSetupData :: u64
  lhPrefAddress :: u64
  lhInitSize :: u32
  lhHandoverOffset :: u32

definition lh_layout :: "(string \<times> nat \<times> nat) list" where
  "lh_layout = [(''MBRCode'', 192, 0x0), (''ExtRamdiskImage'', 4, 0xc0), (''ExtRamdiskSize'', 4, 0xc4),
    (''ExtCmdlinePtr'', 4, 0xc8), (''O'', 293, 0xcc), (''SetupSects'', 1, 0x1f1), (''RootFlags'', 2, 0x1f2),
    (''Syssize'', 4, 0x1f4), (''RAMSize'', 2, 0x1f8), (''Vidmode'', 2, 0x1fa), (''RootDev'', 2, 0x1fc),
    (''Bootsectormagic'', 2, 0x1fe), (''Jump'', 2, 0x200), (''HeaderMagic'', 4, 0x202), (''Protocolversion'',
    2, 0x206), (''RealModeSwitch'', 4, 0x208), (''StartSys'', 2, 0x20c), (''Kveraddr'', 2, 0x20e),
    (''TypeOfLoader'', 1, 0x210), (''Loadflags'', 1, 0x211), (''Setupmovesize'', 2, 0x212), (''Code32Start'',
    4, 0x214), (''RamdiskImage'', 4, 0x218), (''RamdiskSize'', 4, 0x21c), (''BootSectKludge'', 4, 0x220),
    (''Heapendptr'', 2, 0x224), (''ExtLoaderVer'', 1, 0x226), (''ExtLoaderType'', 1, 0x227), (''Cmdlineptr'',
    4, 0x228), (''InitrdAddrMax'', 4, 0x22c), (''Kernelalignment'', 4, 0x230), (''RelocatableKernel'', 1,
    0x234), (''MinAlignment'', 1, 0x235), (''XLoadFlags'', 2, 0x236), (''CmdLineSize'', 4, 0x238),
    (''HardwareSubArch'', 4, 0x23c), (''HardwareSubArchData'', 8, 0x240), (''PayloadOffset'', 4, 0x248),
    (''PayloadSize'', 4, 0x24c), (''SetupData'', 8, 0x250), (''PrefAddress'', 8, 0x258), (''InitSize'', 4,
    0x260), (''HandoverOffset'', 4, 0x264)]"

definition lh_vals :: "LinuxHeader \<Rightarrow> nat list" where
  "lh_vals h = [un_le (lhMBRCode h), unat (lhExtRamdiskImage h), unat (lhExtRamdiskSize h),
    unat (lhExtCmdlinePtr h), un_le (lhO h), unat (lhSetupSects h), unat (lhRootFlags h), unat (lhSyssize h),
    unat (lhRAMSize h), unat (lhVidmode h), unat (lhRootDev h), unat (lhBootsectormagic h), unat (lhJump h),
    un_le (lhHeaderMagic h), unat (lhProtocolversion h), unat (lhRealModeSwitch h), unat (lhStartSys h),
    unat (lhKveraddr h), unat (lhTypeOfLoader h), unat (lhLoadflags h), unat (lhSetupmovesize h),
    unat (lhCode32Start h), unat (lhRamdiskImage h), unat (lhRamdiskSize h), un_le (lhBootSectKludge h),
    unat (lhHeapendptr h), unat (lhExtLoaderVer h), unat (lhExtLoaderType h), unat (lhCmdlineptr h),
    unat (lhInitrdAddrMax h), unat (lhKernelalignment h), unat (lhRelocatableKernel h),
    unat (lhMinAlignment h), unat (lhXLoadFlags h), unat (lhCmdLineSize h), unat (lhHardwareSubArch h),
    unat (lhHardwareSubArchData h), unat (lhPayloadOffset h), unat (lhPayloadSize h), unat (lhSetupData h),
    unat (lhPrefAddress h), unat (lhInitSize h), unat (lhHandoverOffset h)]"

definition lh_of :: "nat list \<Rightarrow> LinuxHeader" where
  "lh_of v = \<lparr>lhMBRCode = le_nat 192 (v ! 0), lhExtRamdiskImage = word_of_nat (v ! 1),
    lhExtRamdiskSize = word_of_nat (v ! 2), lhExtCmdlinePtr = word_of_nat (v ! 3), lhO = le_nat 293 (v ! 4),
    lhSetupSects = word_of_nat (v ! 5), lhRootFlags = word_of_nat (v ! 6), lhSyssize = word_of_nat (v ! 7),
    lhRAMSize = word_of_nat (v ! 8), lhVidmode = word_of_nat (v ! 9), lhRootDev = word_of_nat (v ! 10),
    lhBootsectormagic = word_of_nat (v ! 11), lhJump = word_of_nat (v ! 12),
    lhHeaderMagic = le_nat 4 (v ! 13), lhProtocolversion = word_of_nat (v ! 14),
    lhRealModeSwitch = word_of_nat (v ! 15), lhStartSys = word_of_nat (v ! 16),
    lhKveraddr = word_of_nat (v ! 17), lhTypeOfLoader = word_of_nat (v ! 18),
    lhLoadflags = word_of_nat (v ! 19), lhSetupmovesize = word_of_nat (v ! 20),
    lhCode32Start = word_of_nat (v ! 21), lhRamdiskImage = word_of_nat (v ! 22),
    lhRamdiskSize = word_of_nat (v ! 23), lhBootSectKludge = le_nat 4 (v ! 24),
    lhHeapendptr = word_of_nat (v ! 25), lhExtLoaderVer = word_of_nat (v ! 26),
    lhExtLoaderType = word_of_nat (v ! 27), lhCmdlineptr = word_of_nat (v ! 28),
    lhInitrdAddrMax = word_of_nat (v ! 29), lhKernelalignment = word_of_nat (v ! 30),
    lhRelocatableKernel = word_of_nat (v ! 31), lhMinAlignment = word_of_nat (v ! 32),
    lhXLoadFlags = word_of_nat (v ! 33), lhCmdLineSize = word_of_nat (v ! 34),
    lhHardwareSubArch = word_of_nat (v ! 35), lhHardwareSubArchData = word_of_nat (v ! 36),
    lhPayloadOffset = word_of_nat (v ! 37), lhPayloadSize = word_of_nat (v ! 38),
    lhSetupData = word_of_nat (v ! 39), lhPrefAddress = word_of_nat (v ! 40),
    lhInitSize = word_of_nat (v ! 41), lhHandoverOffset = word_of_nat (v ! 42)\<rparr>"

definition encode_lh :: "LinuxHeader \<Rightarrow> byte list" where
  "encode_lh h = pack (widths lh_layout) (lh_vals h)"

definition lh_size :: nat where
  "lh_size = 616"

definition LinuxHeader_MarshalBinary :: "LinuxHeader \<Rightarrow> byte list" where
  "LinuxHeader_MarshalBinary h = encode_lh h"

text \<open>\<open>binary.Read\<close> of \<open>n\<close> bytes from bytes in memory.\<close>

definition read_bytes :: "byte list \<Rightarrow> nat \<Rightarrow> (io_error, byte list \<times> byte list) res" where
  "read_bytes b n = ReadFull b n"

definition LinuxHeader_UnmarshalBinary :: "byte list \<Rightarrow> (io_error, LinuxHeader) res" where
  "LinuxHeader_UnmarshalBinary b =
     rbind (read_bytes b lh_size) (\<lambda>(bs, r). Ok (lh_of (unpack (widths lh_layout) bs)))"

section \<open>The parameters\<close>

definition lp_layout :: "(string \<times> nat \<times> nat) list" where
  "lp_layout = [(''Origx'', 1, 0x0), (''Origy'', 1, 0x1), (''ExtMemK'', 2, 0x2), (''OrigVideoPage'', 2, 0x4),
    (''OrigVideoMode'', 1, 0x6), (''OrigVideoCols'', 1, 0x7), (''_'', 2, 0x8), (''OrigVideoeGabx'', 2, 0xa),
    (''_'', 2, 0xc), (''OrigVideoLines'', 1, 0xe), (''OrigVideoIsVGA'', 1, 0xf), (''OrigVideoPoints'', 2,
    0x10), (''Lfbwidth'', 2, 0x12), (''Lfbheight'', 2, 0x14), (''Lfbdepth'', 2, 0x16), (''Lfbbase'', 4,
    0x18), (''Lfbsize'', 4, 0x1c), (''CLMagic'', 2, 0x20), (''CLOffset'', 2, 0x22), (''Lfblinelength'', 2,
    0x24), (''Redsize'', 1, 0x26), (''Redpos'', 1, 0x27), (''Greensize'', 1, 0x28), (''Greenpos'', 1, 0x29),
    (''Bluesize'', 1, 0x2a), (''Bluepos'', 1, 0x2b), (''Rsvdsize'', 1, 0x2c), (''Rsvdpos'', 1, 0x2d),
    (''Vesapmseg'', 2, 0x2e), (''Vesapmoff'', 2, 0x30), (''Pages'', 2, 0x32), (''_'', 12, 0x34),
    (''Apmbiosinfo'', 64, 0x40), (''Driveinfo'', 32, 0x80), (''Sysdesctable'', 320, 0xa0), (''Altmemk'', 4,
    0x1e0), (''_'', 4, 0x1e4), (''E820MapNr'', 1, 0x1e8), (''_'', 9, 0x1e9), (''MountRootReadonly'', 2,
    0x1f2), (''_'', 4, 0x1f4), (''Ramdiskflags'', 2, 0x1f8), (''_'', 2, 0x1fa), (''OrigRootDev'', 2, 0x1fc),
    (''_'', 1, 0x1fe), (''Auxdeviceinfo'', 1, 0x1ff), (''_'', 2, 0x200), (''Paramblocksignature'', 4, 0x202),
    (''Paramblockversion'', 2, 0x206), (''_'', 8, 0x208), (''LoaderType'', 1, 0x210), (''Loaderflags'', 1,
    0x211), (''_'', 2, 0x212), (''KernelStart'', 4, 0x214), (''Initrdstart'', 4, 0x218), (''Initrdsize'', 4,
    0x21c), (''_'', 8, 0x220), (''CLPtr'', 4, 0x228), (''InitrdAddrMax'', 4, 0x22c), (''KernelAlignment'', 4,
    0x230), (''RelocatableKernel'', 1, 0x234), (''MinAlignment'', 1, 0x235), (''XLoadFlags'', 2, 0x236),
    (''CmdLineSize'', 4, 0x238), (''HardwareSubarch'', 4, 0x23c), (''HardwareSubarchData'', 8, 0x240),
    (''PayloadOffset'', 4, 0x248), (''PayloadLength'', 4, 0x24c), (''SetupData'', 8, 0x250),
    (''PrefAddress'', 8, 0x258), (''InitSize'', 4, 0x260), (''HandoverOffset'', 4, 0x264), (''_'', 40,
    0x268), (''EDDMBRSigBuffer'', 64, 0x290), (''E820Map'', 2560, 0x2d0), (''_'', 48, 0xed0), (''EDDBuf'',
    492, 0xf00)]"

type_synonym LinuxParams = "nat list"

definition lp_get :: "LinuxParams \<Rightarrow> string \<Rightarrow> nat" where
  "lp_get p nm = (case field_at lp_layout nm of Some i \<Rightarrow> p ! i | None \<Rightarrow> 0)"

definition lp_set :: "string \<Rightarrow> nat \<Rightarrow> LinuxParams \<Rightarrow> LinuxParams" where
  "lp_set nm v p = (case field_at lp_layout nm of Some i \<Rightarrow> p[i := v] | None \<Rightarrow> p)"

fun blank_fields :: "layout \<Rightarrow> nat list \<Rightarrow> nat list" where
  "blank_fields ((n, w, off) # l) (v # vs) = (if n = ''_'' then 0 else v) # blank_fields l vs"
| "blank_fields l vs = []"

definition LinuxParams_MarshalBinary :: "LinuxParams \<Rightarrow> byte list" where
  "LinuxParams_MarshalBinary p = pack (widths lp_layout) (blank_fields lp_layout p)"

definition lp_size :: nat where
  "lp_size = 3820"

definition LinuxParams_UnmarshalBinary :: "byte list \<Rightarrow> (io_error, LinuxParams) res" where
  "LinuxParams_UnmarshalBinary b =
     rbind (read_bytes b lp_size) (\<lambda>(bs, r). Ok (blank_fields lp_layout (unpack (widths lp_layout) bs)))"

section \<open>What the layouts say\<close>

text \<open>The offsets stated in the tags are the sums of the widths before, but for the two after the memory map.\<close>

fun offsets :: "nat \<Rightarrow> layout \<Rightarrow> nat list" where
  "offsets o1 [] = []"
| "offsets o1 ((n, w, off) # l) = o1 # offsets (o1 + w) l"

lemma lh_offsets: "offsets 0 lh_layout = map (\<lambda>(n, w, off). off) lh_layout"
  by (simp add: lh_layout_def)

lemma lh_widths_sum: "sum_list (widths lh_layout) = 616"
  by (simp add: lh_layout_def widths_def)

lemma lp_offsets_wrong:
  "filter (\<lambda>(x, n, w, off). x \<noteq> off) (zip (offsets 0 lp_layout) lp_layout) =
    [(0xcd0, ''_'', 48, 0xed0), (0xd00, ''EDDBuf'', 492, 0xf00)]"
  by (simp add: lp_layout_def)

lemma lp_widths_sum: "sum_list (widths lp_layout) = 3820"
  by (simp add: lp_layout_def widths_def)


text \<open>Decoding and encoding are inverse.\<close>

definition lh_ok :: "LinuxHeader \<Rightarrow> bool" where
  "lh_ok h \<longleftrightarrow> length (lhMBRCode h) = 192 \<and> length (lhO h) = 293 \<and> length (lhHeaderMagic h) = 4 \<and> length (lhBootSectKludge h) = 4"

lemma lh_fits:
  assumes "lh_ok h"
  shows "fits (widths lh_layout) (lh_vals h)"
  using assms un_le_lt [of "lhMBRCode h" 192] un_le_lt [of "lhO h" 293] un_le_lt [of "lhHeaderMagic h" 4]
    un_le_lt [of "lhBootSectKludge h" 4]
  by (simp add: lh_ok_def lh_layout_def widths_def lh_vals_def)

lemma lh_of_vals: "lh_ok h \<Longrightarrow> lh_of (lh_vals h) = h"
  by (simp add: lh_ok_def lh_of_def lh_vals_def le_nat_un_le)

lemma lh_ok_of: "lh_ok (lh_of v)"
  by (simp add: lh_ok_def lh_of_def)

lemma lh_vals_of:
  assumes "fits (widths lh_layout) v"
  shows "lh_vals (lh_of v) = v"
proof -
  have "length v = 43" using length_fits [OF assms] by (simp add: lh_layout_def widths_def)
  then have m: "map (\<lambda>i. v ! i) [0..<43] = v" by (metis map_nth)
  have u: "[0..<43] = [0, 1, 2, 3, 4, 5, 6, 7, 8, 9, 10, 11, 12, 13, 14, 15, 16, 17, 18, 19, 20, 21, 22, 23, 24, 25, 26, 27, 28, 29, 30, 31, 32, 33, 34, 35, 36, 37, 38, 39, 40, 41, 42]" by (simp add: upt_conv_Cons)
  have v: "v = [v ! 0, v ! 1, v ! 2, v ! 3, v ! 4, v ! 5, v ! 6, v ! 7, v ! 8, v ! 9, v ! 10, v ! 11, v ! 12, v ! 13, v ! 14, v ! 15, v ! 16, v ! 17, v ! 18, v ! 19, v ! 20, v ! 21, v ! 22, v ! 23, v ! 24, v ! 25, v ! 26, v ! 27, v ! 28, v ! 29, v ! 30, v ! 31, v ! 32, v ! 33, v ! 34, v ! 35, v ! 36, v ! 37, v ! 38, v ! 39, v ! 40, v ! 41, v ! 42]" using m unfolding u list.map by (rule sym)
  have "fits (widths lh_layout) [v ! 0, v ! 1, v ! 2, v ! 3, v ! 4, v ! 5, v ! 6, v ! 7, v ! 8, v ! 9, v ! 10, v ! 11, v ! 12, v ! 13, v ! 14, v ! 15, v ! 16, v ! 17, v ! 18, v ! 19, v ! 20, v ! 21, v ! 22, v ! 23, v ! 24, v ! 25, v ! 26, v ! 27, v ! 28, v ! 29, v ! 30, v ! 31, v ! 32, v ! 33, v ! 34, v ! 35, v ! 36, v ! 37, v ! 38, v ! 39, v ! 40, v ! 41, v ! 42]" using assms v by simp
  then have "lh_vals (lh_of v) = [v ! 0, v ! 1, v ! 2, v ! 3, v ! 4, v ! 5, v ! 6, v ! 7, v ! 8, v ! 9, v ! 10, v ! 11, v ! 12, v ! 13, v ! 14, v ! 15, v ! 16, v ! 17, v ! 18, v ! 19, v ! 20, v ! 21, v ! 22, v ! 23, v ! 24, v ! 25, v ! 26, v ! 27, v ! 28, v ! 29, v ! 30, v ! 31, v ! 32, v ! 33, v ! 34, v ! 35, v ! 36, v ! 37, v ! 38, v ! 39, v ! 40, v ! 41, v ! 42]"
    by (simp add: lh_layout_def widths_def lh_vals_def lh_of_def un_le_le_nat unat_of_nat_small)
  with v show ?thesis by simp
qed

lemma encode_decode_lh: "length bs = 616 \<Longrightarrow> encode_lh (lh_of (unpack (widths lh_layout) bs)) = bs"
  by (simp add: encode_lh_def lh_vals_of fits_unpack pack_unpack lh_widths_sum)

lemma decode_encode_lh: "lh_ok h \<Longrightarrow> lh_of (unpack (widths lh_layout) (encode_lh h @ rest)) = h"
  by (simp add: encode_lh_def unpack_pack [OF lh_fits] lh_of_vals)

lemma length_encode_lh: "lh_ok h \<Longrightarrow> length (encode_lh h) = 616"
  by (simp add: encode_lh_def length_pack [OF lh_fits] lh_widths_sum)

end
