(* ===== verification/Filepath.thy ===== *)
theory Filepath imports GoStrings begin

text \<open>
  The lexical part of Go's \<open>path/filepath\<close> (\<open>Clean\<close>, \<open>Join\<close>, \<open>Rel\<close>, \<open>IsAbs\<close>, \<open>Dir\<close>, \<open>Base\<close> on Unix), and
  \<open>pkg/upath/safejoin.go\<close>, which rests on it. A path is described by whether it is rooted and
  by its components.
\<close>

section \<open>Components\<close>

definition slash :: char where "slash = CHR ''/''"

definition dot :: string where "dot = ''.''"
definition dotdot :: string where "dotdot = ''..''"

fun join_with :: "'a list \<Rightarrow> 'a list list \<Rightarrow> 'a list" where
  "join_with sep [] = []"
| "join_with sep [x] = x"
| "join_with sep (x # y # ys) = x @ sep @ join_with sep (y # ys)"

definition IsAbs :: "string \<Rightarrow> bool" where
  "IsAbs p \<longleftrightarrow> (case p of [] \<Rightarrow> False | c # cs \<Rightarrow> c = slash)"

text \<open>One component of \<open>Clean\<close>; the components kept so far are in reverse.\<close>

definition clean_step :: "bool \<Rightarrow> string list \<Rightarrow> string \<Rightarrow> string list" where
  "clean_step rooted acc c =
     (if c = [] \<or> c = dot then acc
      else if c = dotdot then
        (case acc of
           [] \<Rightarrow> if rooted then [] else [dotdot]
         | x # xs \<Rightarrow> if x = dotdot then dotdot # acc else xs)
      else c # acc)"

definition clean_comps :: "bool \<Rightarrow> string list \<Rightarrow> string list" where
  "clean_comps rooted cs = rev (foldl (clean_step rooted) [] cs)"

definition path_of :: "bool \<Rightarrow> string list \<Rightarrow> string" where
  "path_of rooted cs =
     (if rooted then slash # join_with [slash] cs else if cs = [] then dot else join_with [slash] cs)"

definition Clean :: "string \<Rightarrow> string" where
  "Clean p = (if p = [] then dot else path_of (IsAbs p) (clean_comps (IsAbs p) (split_on slash p)))"

definition Join :: "string \<Rightarrow> string \<Rightarrow> string" where
  "Join a b = (if a = [] then (if b = [] then [] else Clean b) else Clean (a @ slash # b))"

text \<open>The components of a cleaned path.\<close>

definition comps :: "string \<Rightarrow> string list" where
  "comps p = filter (\<lambda>c. c \<noteq> [] \<and> c \<noteq> dot) (split_on slash p)"

fun strip_common :: "'a list \<Rightarrow> 'a list \<Rightarrow> 'a list \<times> 'a list" where
  "strip_common (x # xs) (y # ys) = (if x = y then strip_common xs ys else (x # xs, y # ys))"
| "strip_common xs ys = (xs, ys)"

definition Rel :: "string \<Rightarrow> string \<Rightarrow> string option" where
  "Rel basepath targpath =
     (let b = Clean basepath; t = Clean targpath in
      if t = b then Some dot
      else if IsAbs b \<noteq> IsAbs t then None
      else case strip_common (comps b) (comps t) of
        (b', t') \<Rightarrow> if b' \<noteq> [] \<and> hd b' = dotdot then None
          else Some (join_with [slash] (replicate (length b') dotdot @ t')))"

section \<open>Cleaned component lists\<close>

definition plain :: "string \<Rightarrow> bool" where
  "plain c \<longleftrightarrow> c \<noteq> [] \<and> c \<noteq> dot \<and> slash \<notin> set c"

definition normal :: "bool \<Rightarrow> string list \<Rightarrow> bool" where
  "normal rooted cs \<longleftrightarrow> (\<forall>c \<in> set cs. plain c) \<and>
     (\<exists>k ds. cs = replicate k dotdot @ ds \<and> dotdot \<notin> set ds \<and> (rooted \<longrightarrow> k = 0))"

lemma dotdot_plain [simp]: "plain dotdot" "dotdot \<noteq> dot" "dotdot \<noteq> []"
  by (simp_all add: plain_def dotdot_def dot_def slash_def)

lemma normal_Nil [simp]: "normal rooted []"
  by (auto simp: normal_def intro!: exI [of _ 0])

lemma normal_snoc:
  assumes "normal rooted cs" "plain c" "c \<noteq> dotdot"
  shows "normal rooted (cs @ [c])"
proof -
  from assms(1) obtain k ds where "cs = replicate k dotdot @ ds" "dotdot \<notin> set ds" "rooted \<longrightarrow> k = 0"
    by (auto simp: normal_def)
  then have "cs @ [c] = replicate k dotdot @ (ds @ [c])" "dotdot \<notin> set (ds @ [c])" "rooted \<longrightarrow> k = 0"
    using assms(3) by auto
  with assms show ?thesis unfolding normal_def by (metis Un_iff empty_iff empty_set insert_iff list.simps(15) set_append)
qed

lemma normal_butlast:
  assumes "normal rooted (cs @ [c])" "c \<noteq> dotdot"
  shows "normal rooted cs"
proof -
  from assms(1) obtain k ds where d: "cs @ [c] = replicate k dotdot @ ds" "dotdot \<notin> set ds" "rooted \<longrightarrow> k = 0"
    by (auto simp: normal_def)
  have "ds \<noteq> []"
  proof
    assume "ds = []"
    then have "c \<in> set (replicate k dotdot)" using d(1) by (metis append_Nil2 in_set_conv_decomp)
    then show False using assms(2) by simp
  qed
  then obtain ds' where ds: "ds = ds' @ [c]" using d(1) by (metis append_assoc append_butlast_last_id butlast_snoc last_appendR last_snoc)
  with d have "cs = replicate k dotdot @ ds'" by simp
  with d(2,3) ds assms(1) show ?thesis unfolding normal_def by auto
qed

lemma normal_dotdot:
  assumes "normal False cs" "cs = [] \<or> last cs = dotdot"
  shows "normal False (cs @ [dotdot])"
proof -
  from assms(1) obtain k ds where d: "cs = replicate k dotdot @ ds" "dotdot \<notin> set ds" by (auto simp: normal_def)
  have "ds = []"
  proof (rule ccontr)
    assume "ds \<noteq> []"
    then have "last cs \<in> set ds" "cs \<noteq> []" using d(1) by auto
    with assms(2) d(2) show False by auto
  qed
  then have "cs @ [dotdot] = replicate (Suc k) dotdot @ []" using d(1) by (simp add: replicate_append_same)
  with assms(1) show ?thesis unfolding normal_def by (metis dotdot_plain(1) empty_iff empty_set in_set_replicate append_Nil2)
qed

lemma rooted_no_dotdot: "normal True cs \<Longrightarrow> dotdot \<notin> set cs"
  by (auto simp: normal_def)

lemma clean_step_normal:
  assumes "normal rooted (rev acc)" "slash \<notin> set c"
  shows "normal rooted (rev (clean_step rooted acc c))"
proof (cases "c = [] \<or> c = dot")
  case True
  with assms show ?thesis by (simp add: clean_step_def)
next
  case False
  then have p: "plain c" using assms(2) by (simp add: plain_def)
  show ?thesis
  proof (cases "c = dotdot")
    case False': False
    with False p assms(1) show ?thesis by (simp add: clean_step_def normal_snoc)
  next
    case True
    show ?thesis
    proof (cases acc)
      case Nil
      with True False show ?thesis using normal_dotdot [of "[]"] by (simp add: clean_step_def)
    next
      case (Cons x xs)
      show ?thesis
      proof (cases "x = dotdot")
        case True': True
        then have "dotdot \<in> set (rev acc)" using Cons by simp
        then have r: "\<not> rooted" using rooted_no_dotdot [of "rev acc"] assms(1) by (cases rooted) auto
        with assms(1) Cons True True' show ?thesis
          using normal_dotdot [of "rev acc"] by (simp add: clean_step_def)
      next
        case False': False
        with assms(1) Cons True show ?thesis
          using normal_butlast [of rooted "rev xs" x] by (simp add: clean_step_def)
      qed
    qed
  qed
qed

lemma clean_comps_normal:
  assumes "\<And>c. c \<in> set cs \<Longrightarrow> slash \<notin> set c"
  shows "normal rooted (clean_comps rooted cs)"
proof -
  have "normal rooted (rev acc) \<Longrightarrow> normal rooted (rev (foldl (clean_step rooted) acc cs))" for acc
    using assms by (induction cs arbitrary: acc) (auto simp: clean_step_normal)
  from this [of "[]"] show ?thesis by (simp add: clean_comps_def)
qed

text \<open>Cleaning keeps a clean list, also when it follows another clean list.\<close>

lemma foldl_plain:
  "(\<And>c. c \<in> set cs \<Longrightarrow> plain c \<and> c \<noteq> dotdot) \<Longrightarrow> foldl (clean_step rooted) acc cs = rev cs @ acc"
  by (induction cs arbitrary: acc) (auto simp: clean_step_def plain_def)

lemma foldl_dotdots: "foldl (clean_step False) (replicate j dotdot) (replicate k dotdot) = replicate (j + k) dotdot"
proof (induction k arbitrary: j)
  case (Suc k)
  have "clean_step False (replicate j dotdot) dotdot = replicate (Suc j) dotdot"
    by (cases j) (simp_all add: clean_step_def)
  with Suc.IH [of "Suc j"] show ?case by simp
qed simp

lemma clean_comps_id: "normal rooted cs \<Longrightarrow> clean_comps rooted cs = cs"
proof -
  assume n: "normal rooted cs"
  then obtain k ds where d: "cs = replicate k dotdot @ ds" "dotdot \<notin> set ds" "rooted \<longrightarrow> k = 0"
    by (auto simp: normal_def)
  have p: "plain c \<and> c \<noteq> dotdot" if "c \<in> set ds" for c using n d that by (auto simp: normal_def)
  have "foldl (clean_step rooted) [] (replicate k dotdot) = replicate k dotdot"
    using d(3) foldl_dotdots [of 0 k] by (cases rooted) simp_all
  then show ?thesis using foldl_plain [OF p] by (simp add: clean_comps_def d(1))
qed

lemma split_join: "cs \<noteq> [] \<Longrightarrow> (\<And>c. c \<in> set cs \<Longrightarrow> s \<notin> set c) \<Longrightarrow> split_on s (join_with [s] cs) = cs"
proof (induction cs rule: induct_list012)
  case (3 x y zs)
  have "split_on s (x @ s # join_with [s] (y # zs)) = split_on s x @ split_on s (join_with [s] (y # zs))"
    by (rule split_on_append_sep)
  with 3 show ?case by (simp add: split_on_no_sep)
qed (auto simp: split_on_no_sep)

lemma clean_comps_skip: "clean_comps rooted ([] # cs) = clean_comps rooted cs"
  by (simp add: clean_comps_def clean_step_def)

lemma clean_comps_path:
  assumes "normal rooted cs"
  shows "clean_comps rooted (split_on slash (path_of rooted cs)) = cs"
    and "IsAbs (path_of rooted cs) \<longleftrightarrow> rooted" and "path_of rooted cs \<noteq> []"
proof -
  have p: "c \<noteq> []" "slash \<notin> set c" "c \<noteq> dot" if "c \<in> set cs" for c
    using assms that by (auto simp: normal_def plain_def)
  have j: "split_on slash (join_with [slash] cs) = (if cs = [] then [[]] else cs)"
    using split_join [of cs slash] p by simp
  have h: "cs \<noteq> [] \<Longrightarrow> \<exists>c r. join_with [slash] cs = c # r \<and> c \<noteq> slash"
    using p by (cases cs rule: list.exhaust; cases "tl cs"; cases "hd cs") fastforce+
  have d: "split_on slash dot = [dot]" by (simp add: dot_def slash_def)
  have e: "clean_comps rooted [[]] = []" "clean_comps rooted [dot] = []"
    by (simp_all add: clean_comps_def clean_step_def)
  show "clean_comps rooted (split_on slash (path_of rooted cs)) = cs"
    using j clean_comps_id [OF assms] e d by (auto simp: path_of_def clean_comps_skip)
  show "IsAbs (path_of rooted cs) \<longleftrightarrow> rooted"
    using h by (auto simp: path_of_def IsAbs_def dot_def slash_def split: list.splits)
  show "path_of rooted cs \<noteq> []" using h by (auto simp: path_of_def dot_def)
qed

definition cleaned :: "string \<Rightarrow> string list" where
  "cleaned p = clean_comps (IsAbs p) (split_on slash p)"

lemma cleaned_normal: "normal (IsAbs p) (cleaned p)"
  unfolding cleaned_def by (rule clean_comps_normal) (rule split_on_parts)

lemma Clean_path_of: "Clean p = path_of (IsAbs p) (cleaned p)"
proof (cases "p = []")
  case True
  then show ?thesis
    by (simp add: Clean_def path_of_def cleaned_def clean_comps_def clean_step_def IsAbs_def)
qed (simp add: Clean_def cleaned_def)

lemma IsAbs_Clean [simp]: "IsAbs (Clean p) \<longleftrightarrow> IsAbs p"
  unfolding Clean_path_of using clean_comps_path(2) [OF cleaned_normal] .

lemma cleaned_Clean [simp]: "cleaned (Clean p) = cleaned p"
  unfolding cleaned_def [of "Clean p"] IsAbs_Clean
  unfolding Clean_path_of by (rule clean_comps_path(1) [OF cleaned_normal])

lemma Clean_idem: "Clean (Clean p) = Clean p"
  unfolding Clean_path_of [of "Clean p"] by (simp add: Clean_path_of [of p, symmetric])

lemma comps_path_of:
  assumes "normal rooted cs"
  shows "comps (path_of rooted cs) = cs"
proof -
  have p: "c \<noteq> []" "slash \<notin> set c" "c \<noteq> dot" if "c \<in> set cs" for c
    using assms that by (auto simp: normal_def plain_def)
  have j: "split_on slash (join_with [slash] cs) = (if cs = [] then [[]] else cs)"
    using split_join [of cs slash] p by simp
  have d: "split_on slash dot = [dot]" by (simp add: dot_def slash_def)
  have f: "filter (\<lambda>c. c \<noteq> [] \<and> c \<noteq> dot) cs = cs" using p by (simp add: filter_id_conv)
  show ?thesis using j d f by (auto simp: comps_def path_of_def)
qed

lemma comps_Clean [simp]: "comps (Clean p) = cleaned p"
  unfolding Clean_path_of by (rule comps_path_of [OF cleaned_normal])

section \<open>\<open>Join\<close> and \<open>Rel\<close>\<close>

lemma cleaned_append:
  assumes "a \<noteq> []"
  shows "cleaned (a @ slash # b) = rev (foldl (clean_step (IsAbs a)) (rev (cleaned a)) (split_on slash b))"
proof -
  have "IsAbs (a @ slash # b) = IsAbs a" using assms by (cases a) (simp_all add: IsAbs_def)
  then show ?thesis by (simp add: cleaned_def clean_comps_def split_on_append_sep)
qed

text \<open>Joining with a path whose components never go up appends those components.\<close>

lemma Join_plain:
  assumes "a \<noteq> []" "\<And>c. c \<in> set (comps b) \<Longrightarrow> c \<noteq> dotdot"
  shows "Join a b = path_of (IsAbs a) (cleaned a @ comps b)"
proof -
  have skip: "foldl (clean_step r) acc cs = foldl (clean_step r) acc (filter (\<lambda>c. c \<noteq> [] \<and> c \<noteq> dot) cs)" for r acc cs
    by (induction cs arbitrary: acc) (auto simp: clean_step_def)
  have p: "plain c \<and> c \<noteq> dotdot" if "c \<in> set (comps b)" for c
    using that assms(2) split_on_parts [of c slash b] by (auto simp: comps_def plain_def)
  have "cleaned (a @ slash # b) = cleaned a @ comps b"
    using foldl_plain [OF p, of "comps b"] by (simp add: cleaned_append [OF assms(1)] skip [of _ _ "split_on slash b"] comps_def [symmetric])
  moreover have "IsAbs (a @ slash # b) = IsAbs a" using assms by (cases a) (simp_all add: IsAbs_def)
  ultimately show ?thesis using assms(1) Clean_path_of [of "a @ slash # b"] by (simp add: Join_def)
qed

lemma strip_common_Nil [simp]: "strip_common [] ys = ([], ys)"
  by (cases ys) simp_all

lemma cleaned_dot [simp]: "cleaned dot = []" "IsAbs dot = False"
  by (simp_all add: cleaned_def clean_comps_def clean_step_def dot_def slash_def IsAbs_def)

lemma Rel_dot:
  "Rel dot p = (if IsAbs p then None else Some (Clean p))"
proof -
  have c: "Clean dot = dot" using Clean_path_of [of dot] by (simp add: path_of_def)
  have "Clean p = join_with [slash] (cleaned p)" if "\<not> IsAbs p" "Clean p \<noteq> dot"
    using Clean_path_of [of p] that by (auto simp: path_of_def split: if_splits)
  then show ?thesis
    using c comps_Clean [of dot] IsAbs_Clean [of p] by (auto simp: Rel_def Let_def simp del: IsAbs_Clean)
qed

lemma Rel_root:
  assumes "IsAbs p"
  shows "Rel [slash] p = Some (path_of False (cleaned p))"
proof -
  have s: "cleaned [slash] = []" "IsAbs [slash]"
    by (simp_all add: cleaned_def clean_comps_def clean_step_def slash_def IsAbs_def)
  then have c: "Clean [slash] = [slash]" using Clean_path_of [of "[slash]"] by (simp add: path_of_def)
  have "Clean p = slash # join_with [slash] (cleaned p)"
    using Clean_path_of [of p] assms by (simp add: path_of_def)
  moreover have "Clean p \<noteq> Clean [slash] \<longleftrightarrow> cleaned p \<noteq> []"
  proof
    assume "Clean p \<noteq> Clean [slash]"
    then show "cleaned p \<noteq> []" using Clean_path_of [of p] assms c by (auto simp: path_of_def)
  next
    assume "cleaned p \<noteq> []"
    then show "Clean p \<noteq> Clean [slash]" using comps_Clean s(1) by metis
  qed
  ultimately show ?thesis
    using c s comps_Clean [of "[slash]"] assms comps_Clean [of p] IsAbs_Clean [of p]
    by (auto simp: Rel_def Let_def path_of_def simp del: IsAbs_Clean comps_Clean)
qed

section \<open>\<open>SafeFilepathJoin\<close>\<close>

datatype upath_error = ErrUnsafe string

definition HasPrefix :: "'a list \<Rightarrow> 'a list \<Rightarrow> bool" where
  "HasPrefix s p \<longleftrightarrow> take (length p) s = p"

definition SafeFilepathJoin :: "string \<Rightarrow> string \<Rightarrow> (upath_error, string) res" where
  "SafeFilepathJoin path1 path2 =
     (case Rel dot path2 of
        None \<Rightarrow> Err (ErrUnsafe path2)
      | Some relPath \<Rightarrow>
          if HasPrefix relPath dotdot then Err (ErrUnsafe path2)
          else Ok (Join (if path1 = [] then dot else path1) (Join [slash] relPath)))"

lemma cleaned_no_dotdot:
  assumes "\<not> IsAbs p" "\<not> HasPrefix (Clean p) dotdot"
  shows "dotdot \<notin> set (cleaned p)"
proof
  assume d: "dotdot \<in> set (cleaned p)"
  from cleaned_normal [of p] obtain k ds where c: "cleaned p = replicate k dotdot @ ds" "dotdot \<notin> set ds"
    by (auto simp: normal_def)
  with d have "k \<noteq> 0" by (cases k) auto
  then obtain k' where k: "cleaned p = dotdot # (replicate k' dotdot @ ds)" using c by (cases k) auto
  have "\<exists>r. join_with [slash] (dotdot # cs) = dotdot @ r" for cs by (cases cs) auto
  then obtain r where "Clean p = dotdot @ r" using Clean_path_of [of p] k assms(1) by (auto simp: path_of_def)
  then show False using assms(2) by (simp add: HasPrefix_def)
qed

lemma SafeFilepathJoin_Ok:
  assumes "SafeFilepathJoin path1 path2 = Ok r"
  defines "p1 \<equiv> if path1 = [] then dot else path1"
  shows "\<not> IsAbs path2" "dotdot \<notin> set (cleaned path2)" "r = path_of (IsAbs p1) (cleaned p1 @ cleaned path2)"
proof -
  from assms(1) show a: "\<not> IsAbs path2" by (auto simp: SafeFilepathJoin_def Rel_dot split: if_splits)
  then have h: "\<not> HasPrefix (Clean path2) dotdot" and r: "r = Join p1 (Join [slash] (Clean path2))"
    using assms by (auto simp: SafeFilepathJoin_def Rel_dot split: if_splits)
  from cleaned_no_dotdot [OF a h] show nd: "dotdot \<notin> set (cleaned path2)" .
  have "Join [slash] (Clean path2) = path_of True (cleaned path2)"
    using Join_plain [of "[slash]" "Clean path2"] nd
    by (auto simp: cleaned_def [of "[slash]"] clean_comps_def clean_step_def IsAbs_def)
  moreover have "normal True (cleaned path2)"
    using cleaned_normal [of path2] nd unfolding normal_def by (metis append_Nil replicate_0)
  ultimately have "comps (Join [slash] (Clean path2)) = cleaned path2" by (simp add: comps_path_of)
  moreover have "p1 \<noteq> []" by (simp add: p1_def dot_def)
  ultimately show "r = path_of (IsAbs p1) (cleaned p1 @ cleaned path2)"
    using Join_plain [of p1 "Join [slash] (Clean path2)"] nd r by metis
qed

lemma normal_append:
  assumes "normal rooted cs" "\<And>c. c \<in> set ds \<Longrightarrow> plain c \<and> c \<noteq> dotdot"
  shows "normal rooted (cs @ ds)"
  using assms(2)
proof (induction ds rule: rev_induct)
  case (snoc d ds)
  then have "normal rooted ((cs @ ds) @ [d])" by (intro normal_snoc) auto
  then show ?case by simp
qed (use assms(1) in simp)

lemma SafeFilepathJoin_root_all:
  assumes "SafeFilepathJoin path1 path2 = Ok r"
  shows "\<exists>cs. cleaned r = cleaned (if path1 = [] then dot else path1) @ cs \<and> dotdot \<notin> set cs \<and>
    IsAbs r = IsAbs path1 \<and> Clean r = r"
proof -
  let ?p = "if path1 = [] then dot else path1"
  note s = SafeFilepathJoin_Ok [OF assms]
  have "plain c \<and> c \<noteq> dotdot" if "c \<in> set (cleaned path2)" for c
    using cleaned_normal [of path2] s(2) that by (auto simp: normal_def)
  from normal_append [OF cleaned_normal [of ?p] this]
  have n: "normal (IsAbs ?p) (cleaned ?p @ cleaned path2)" by blast
  have a: "IsAbs r = IsAbs ?p" using clean_comps_path(2) [OF n] s(3) by simp
  have c: "cleaned r = cleaned ?p @ cleaned path2"
    using clean_comps_path(1) [OF n] s(3) a unfolding cleaned_def [of r] by simp
  have "Clean r = r" using Clean_path_of [of r] a c s(3) by simp
  moreover have "IsAbs ?p = IsAbs path1" by (cases path1) (simp_all add: IsAbs_def dot_def slash_def)
  ultimately show ?thesis using a c s(2) by metis
qed

lemma SafeFilepathJoin_root:
  assumes "SafeFilepathJoin path1 path2 = Ok r"
  shows "\<exists>cs. cleaned r = cleaned (if path1 = [] then dot else path1) @ cs \<and> dotdot \<notin> set cs"
  using SafeFilepathJoin_root_all [OF assms] by blast

text \<open>C7: a path that \<open>SafeFilepathJoin\<close> accepts stays inside its first argument: its components
  are those of \<open>path1\<close> followed by components that never go up.\<close>

theorem SafeFilepathJoin_contained:
  assumes "SafeFilepathJoin path1 path2 = Ok r"
  shows "\<exists>cs. cleaned r = cleaned (if path1 = [] then dot else path1) @ cs \<and> dotdot \<notin> set cs \<and>
    IsAbs r = IsAbs path1 \<and> Clean r = r"
  using SafeFilepathJoin_root_all [OF assms] .

theorem SafeFilepathJoin_contained_witness:
  "SafeFilepathJoin ''/a'' ''c/d/../b'' = Ok ''/a/c/b'' \<and> cleaned ''/a/c/b'' = [''a'', ''c'', ''b'']"
proof -
  have e: "SafeFilepathJoin ''/a'' ''c/d/../b'' = Ok ''/a/c/b''"
    by (simp add: SafeFilepathJoin_def Rel_dot)
      (simp add: IsAbs_def slash_def Clean_def clean_comps_def clean_step_def
        dot_def dotdot_def path_of_def HasPrefix_def Join_def)
  from SafeFilepathJoin_contained [OF e] e show ?thesis
    by (simp add: cleaned_def IsAbs_def slash_def clean_comps_def clean_step_def dot_def dotdot_def)
qed

text \<open>\<open>filepath.Dir\<close>.\<close>

definition Dir :: "string \<Rightarrow> string" where
  "Dir path = Clean (case LastIndexByte path slash of None \<Rightarrow> [] | Some i \<Rightarrow> take (i + 1) path)"

text \<open>A name that merely starts with two dots is taken for one that leaves the root.\<close>

lemma SafeFilepathJoin_dots: "\<not> (\<exists>r. SafeFilepathJoin ''a'' ''..b'' = Ok r)"
  by (simp add: SafeFilepathJoin_def Rel_dot)
    (simp add: IsAbs_def slash_def Clean_def clean_comps_def clean_step_def dot_def dotdot_def path_of_def HasPrefix_def)

lemma LastIndexByte_name: "slash \<notin> set nm \<Longrightarrow> LastIndexByte (d @ slash # nm) slash = Some (length d)"
proof -
  assume "slash \<notin> set nm"
  then have "LastIndexByte (slash # nm) slash = Some 0" using LastIndexByte_None [of nm slash] by simp
  then show ?thesis by (induction d) auto
qed

lemma Dir_name:
  assumes "d \<noteq> []" "Clean d = d" "slash \<notin> set nm"
  shows "Dir (d @ slash # nm) = d"
proof -
  have "split_on slash (d @ [slash]) = split_on slash d @ [[]]" using split_on_append_sep [of slash d "[]"] by simp
  then have "clean_comps r (split_on slash (d @ [slash])) = clean_comps r (split_on slash d)" for r
    by (simp add: clean_comps_def clean_step_def)
  moreover have "IsAbs (d @ [slash]) = IsAbs d" using assms(1) by (cases d) (simp_all add: IsAbs_def)
  ultimately have "Clean (d @ [slash]) = Clean d" using assms(1) by (simp add: Clean_def)
  then show ?thesis using assms by (simp add: Dir_def LastIndexByte_name)
qed

text \<open>The parent of a cleaned relative path.\<close>

lemma join_snoc: "cs \<noteq> [] \<Longrightarrow> join_with sep (cs @ [c]) = join_with sep cs @ sep @ c"
  by (induction cs rule: induct_list012) simp_all

lemma Clean_path_normal:
  assumes "normal rooted cs"
  shows "Clean (path_of rooted cs) = path_of rooted cs" "cleaned (path_of rooted cs) = cs"
proof -
  show "cleaned (path_of rooted cs) = cs" using clean_comps_path [OF assms] by (simp add: cleaned_def)
  then show "Clean (path_of rooted cs) = path_of rooted cs"
    using clean_comps_path(2) [OF assms] by (simp add: Clean_path_of [of "path_of rooted cs"])
qed

lemma normal_prefix: "normal False (cs @ ds) \<Longrightarrow> normal False cs"
proof (induction ds rule: rev_induct)
  case (snoc d ds)
  obtain k es where e: "cs @ ds @ [d] = replicate k dotdot @ es" "dotdot \<notin> set es" and p: "\<forall>c \<in> set (cs @ ds @ [d]). plain c"
    using snoc.prems unfolding normal_def by blast
  have "normal False (cs @ ds)"
  proof (cases "es = []")
    case True
    then have "cs @ ds @ [d] = replicate k dotdot" using e(1) by simp
    then have "cs @ ds = butlast (replicate k dotdot)" by (metis append_assoc butlast_snoc)
    also have "\<dots> = replicate (k - 1) dotdot @ []" by (cases k) (simp_all flip: replicate_append_same)
    finally have "cs @ ds = replicate (k - 1) dotdot @ []" .
    moreover have "\<forall>c \<in> set (cs @ ds). plain c" "dotdot \<notin> set ([] :: string list)" using p by simp_all
    ultimately show ?thesis unfolding normal_def by blast
  next
    case False
    then have "cs @ ds = replicate k dotdot @ butlast es" using e(1) by (metis append_assoc butlast_append butlast_snoc)
    moreover have "dotdot \<notin> set (butlast es)" using e(2) by (meson in_set_butlastD)
    moreover have "\<forall>c \<in> set (cs @ ds). plain c" using p by simp
    ultimately show ?thesis unfolding normal_def by blast
  qed
  then show ?case by (rule snoc.IH)
qed simp

lemma Dir_path_of:
  assumes "normal False (cs @ [c])"
  shows "Dir (path_of False (cs @ [c])) = path_of False cs"
proof (cases "cs = []")
  case True
  have "slash \<notin> set c" using assms by (simp add: normal_def plain_def)
  then show ?thesis using True by (simp add: Dir_def path_of_def LastIndexByte_None [THEN iffD2] Clean_def)
next
  case False
  have n: "normal False cs" using normal_prefix [OF assms] .
  have "slash \<notin> set c" using assms by (simp add: normal_def plain_def)
  moreover have "path_of False (cs @ [c]) = path_of False cs @ slash # c" using False by (simp add: path_of_def join_snoc)
  ultimately show ?thesis using Dir_name [of "path_of False cs" c] Clean_path_normal(1) [OF n] clean_comps_path(3) [OF n] by simp
qed

lemma Dir_dot: "Dir dot = dot"
  by (simp add: Dir_def dot_def slash_def Clean_def)

text \<open>\<open>path.Base\<close>.\<close>

definition Base :: "string \<Rightarrow> string" where
  "Base p =
     (if p = [] then dot
      else
        let q = TrimRight [slash] p;
            b = (case LastIndexByte q slash of None \<Rightarrow> q | Some i \<Rightarrow> drop (i + 1) q)
        in if b = [] then [slash] else b)"

lemma Base_name:
  assumes "slash \<notin> set nm" "nm \<noteq> []"
  shows "Base (d @ slash # nm) = nm"
proof -
  have "TrimRight [slash] (d @ slash # nm) = d @ slash # nm"
    using assms by (cases nm rule: rev_cases) (auto simp: TrimRight_def)
  then show ?thesis using assms by (simp add: Base_def LastIndexByte_name)
qed

end
