(* ===== verification/Cpio.thy ===== *)
theory Cpio imports Filepath Uio begin

text \<open>
  \<open>pkg/cpio\<close>: records and their modes (\<open>cpio.go\<close>, \<open>const.go\<close>), the newc format (\<open>newc.go\<close>), the helpers
  around readers and writers (\<open>utils.go\<close>) and the in-memory archive (\<open>archive.go\<close>). The contents of
  a record are what reading its \<open>ReaderAt\<close> from the start gives.
\<close>

section \<open>Records\<close>

text \<open>
  \<open>ra_err\<close> is the error that ends the reading when it is not \<open>EOF\<close>, \<open>ra_close\<close> the error of \<open>Close\<close>
  when the reader has that method and it fails.
\<close>

record ReaderAt =
  ra_data :: "byte list"
  ra_err :: "io_error option"
  ra_close :: "io_error option"

record Info =
  Ino :: u64
  Mode :: u64
  UID :: u64
  GID :: u64
  NLink :: u64
  MTime :: u64
  FileSize :: u64
  Dev :: u64
  Major :: u64
  Minor :: u64
  Rmajor :: u64
  Rminor :: u64
  IName :: string

record Record =
  Contents :: "ReaderAt option"
  RInfo :: Info
  RecPos :: int
  RecLen :: u64
  FilePos :: int

text \<open>The errors of the operating system; \<open>ENOENT\<close> is the one \<open>os.IsNotExist\<close> recognises.\<close>

datatype errno = ENOENT | Errno string

datatype cpio_error =
    CpioEOF
  | CpioIO io_error
  | ErrWrote string nat u64
  | ErrReadAt int nat nat
  | ErrMagic string string
  | ErrHex byte
  | ErrFormat string
  | ErrWriteRecords string cpio_error
  | ErrFileType u64
  | ErrIPC string
  | ErrOS errno

definition mem_reader :: "byte list \<Rightarrow> ReaderAt" where
  "mem_reader bs = \<lparr>ra_data = bs, ra_err = None, ra_close = None\<rparr>"

text \<open>Mode bits (\<open>const.go\<close>).\<close>

definition S_IFBLK :: u64 where "S_IFBLK = 0x6000"
definition S_IFCHR :: u64 where "S_IFCHR = 0x2000"
definition S_IFDIR :: u64 where "S_IFDIR = 0x4000"
definition S_IFIFO :: u64 where "S_IFIFO = 0x1000"
definition S_IFLNK :: u64 where "S_IFLNK = 0xa000"
definition S_IFMT :: u64 where "S_IFMT = 0xf000"
definition S_IFREG :: u64 where "S_IFREG = 0x8000"
definition S_IFSOCK :: u64 where "S_IFSOCK = 0xc000"
definition S_ISGID :: u64 where "S_ISGID = 0x400"
definition S_ISUID :: u64 where "S_ISUID = 0x800"
definition S_ISVTX :: u64 where "S_ISVTX = 0x200"

text \<open>The bits of \<open>os.FileMode\<close>.\<close>

definition ModeDir :: u32 where "ModeDir = push_bit 31 1"
definition ModeSymlink :: u32 where "ModeSymlink = push_bit 27 1"
definition ModeDevice :: u32 where "ModeDevice = push_bit 26 1"
definition ModeNamedPipe :: u32 where "ModeNamedPipe = push_bit 25 1"
definition ModeSocket :: u32 where "ModeSocket = push_bit 24 1"
definition ModeSetuid :: u32 where "ModeSetuid = push_bit 23 1"
definition ModeSetgid :: u32 where "ModeSetgid = push_bit 22 1"
definition ModeCharDevice :: u32 where "ModeCharDevice = push_bit 21 1"
definition ModeSticky :: u32 where "ModeSticky = push_bit 20 1"
definition ModePerm :: u32 where "ModePerm = 511"

definition modeFromLinux :: "u64 \<Rightarrow> u32" where
  "modeFromLinux mode =
     (let m0 = ucast (mode AND 511) :: u32; t = mode AND S_IFMT;
          m1 = m0 OR (if t = S_IFBLK then ModeDevice
                      else if t = S_IFCHR then ModeDevice OR ModeCharDevice
                      else if t = S_IFDIR then ModeDir
                      else if t = S_IFIFO then ModeNamedPipe
                      else if t = S_IFLNK then ModeSymlink
                      else if t = S_IFREG then 0
                      else if t = S_IFSOCK then ModeSocket
                      else 0);
          m2 = (if mode AND S_ISGID \<noteq> 0 then m1 OR ModeSetgid else m1);
          m3 = (if mode AND S_ISUID \<noteq> 0 then m2 OR ModeSetuid else m2)
      in if mode AND S_ISVTX \<noteq> 0 then m3 OR ModeSticky else m3)"

definition empty_info :: "string \<Rightarrow> Info" where
  "empty_info nm = \<lparr>Ino = 0, Mode = 0, UID = 0, GID = 0, NLink = 0, MTime = 0, FileSize = 0, Dev = 0,
     Major = 0, Minor = 0, Rmajor = 0, Rminor = 0, IName = nm\<rparr>"

definition new_record :: "ReaderAt option \<Rightarrow> Info \<Rightarrow> Record" where
  "new_record c i = \<lparr>Contents = c, RInfo = i, RecPos = 0, RecLen = 0, FilePos = 0\<rparr>"

definition StaticRecord :: "byte list \<Rightarrow> Info \<Rightarrow> Record" where
  "StaticRecord contents info =
     new_record (Some (mem_reader contents)) (info\<lparr>FileSize := word_of_nat (length contents)\<rparr>)"

definition Trailer :: string where
  "Trailer = ''TRAILER!!!''"

definition TrailerRecord :: Record where
  "TrailerRecord = StaticRecord [] (empty_info Trailer)"

definition StaticFile :: "string \<Rightarrow> string \<Rightarrow> u64 \<Rightarrow> Record" where
  "StaticFile name content perm = StaticRecord (str_bytes content) ((empty_info name)\<lparr>Mode := S_IFREG OR perm\<rparr>)"

definition Symlink :: "string \<Rightarrow> string \<Rightarrow> Record" where
  "Symlink name target = new_record (Some (mem_reader (str_bytes target)))
     ((empty_info name)\<lparr>FileSize := word_of_nat (length target), Mode := S_IFLNK OR 511\<rparr>)"

definition Directory :: "string \<Rightarrow> u64 \<Rightarrow> Record" where
  "Directory name mode = new_record None ((empty_info name)\<lparr>Mode := S_IFDIR OR (mode AND NOT S_IFMT)\<rparr>)"

definition CharDev :: "string \<Rightarrow> u64 \<Rightarrow> u64 \<Rightarrow> u64 \<Rightarrow> Record" where
  "CharDev name perm rmajor rminor = new_record None
     ((empty_info name)\<lparr>Mode := S_IFCHR OR perm, Rmajor := rmajor, Rminor := rminor\<rparr>)"

section \<open>The newc header\<close>

definition newcMagic :: string where "newcMagic = ''070701''"
definition magicLen :: nat where "magicLen = 6"

record header =
  hIno :: u32
  hMode :: u32
  hUID :: u32
  hGID :: u32
  hNLink :: u32
  hMTime :: u32
  hFileSize :: u32
  hMajor :: u32
  hMinor :: u32
  hRmajor :: u32
  hRminor :: u32
  NameLength :: u32
  CRC :: u32

definition headerFromInfo :: "Info \<Rightarrow> header" where
  "headerFromInfo i = \<lparr>hIno = ucast (Ino i), hMode = ucast (Mode i), hUID = ucast (UID i), hGID = ucast (GID i),
     hNLink = ucast (NLink i), hMTime = ucast (MTime i), hFileSize = ucast (FileSize i), hMajor = ucast (Major i),
     hMinor = ucast (Minor i), hRmajor = ucast (Rmajor i), hRminor = ucast (Rminor i),
     NameLength = word_of_nat (length (IName i)) + 1, CRC = 0\<rparr>"

definition header_Info :: "header \<Rightarrow> Info" where
  "header_Info h = \<lparr>Ino = ucast (hIno h), Mode = ucast (hMode h), UID = ucast (hUID h), GID = ucast (hGID h),
     NLink = ucast (hNLink h), MTime = ucast (hMTime h), FileSize = ucast (hFileSize h), Dev = 0,
     Major = ucast (hMajor h), Minor = ucast (hMinor h), Rmajor = ucast (hRmajor h), Rminor = ucast (hRminor h),
     IName = []\<rparr>"

definition round4 :: "int \<Rightarrow> int" where
  "round4 n = (n + 3) AND NOT 3"

text \<open>\<open>encoding/binary\<close> on the header, and \<open>encoding/hex\<close>.\<close>

definition encode_hdr :: "header \<Rightarrow> byte list" where
  "encode_hdr h = concat (map be32 [hIno h, hMode h, hUID h, hGID h, hNLink h, hMTime h, hFileSize h,
     hMajor h, hMinor h, hRmajor h, hRminor h, NameLength h, CRC h])"

definition decode_hdr :: "byte list \<Rightarrow> header" where
  "decode_hdr bs = \<lparr>hIno = word_at bs 0, hMode = word_at bs 1, hUID = word_at bs 2, hGID = word_at bs 3,
     hNLink = word_at bs 4, hMTime = word_at bs 5, hFileSize = word_at bs 6, hMajor = word_at bs 7,
     hMinor = word_at bs 8, hRmajor = word_at bs 9, hRminor = word_at bs 10, NameLength = word_at bs 11,
     CRC = word_at bs 12\<rparr>"

definition hdr_size :: nat where "hdr_size = 52"

text \<open>A hex digit as \<open>hex.Encode\<close> writes it, before and after \<open>bytes.ToUpper\<close>.\<close>

definition hex_digit :: "nat \<Rightarrow> byte" where
  "hex_digit n = (if n < 10 then word_of_nat (48 + n) else word_of_nat (87 + n))"

definition to_upper :: "byte \<Rightarrow> byte" where
  "to_upper b = (if 97 \<le> b \<and> b \<le> 122 then b - 32 else b)"

definition hex_encode :: "byte list \<Rightarrow> byte list" where
  "hex_encode bs = concat (map (\<lambda>b. [hex_digit (unat b div 16), hex_digit (unat b mod 16)]) bs)"

definition from_hex :: "byte \<Rightarrow> nat option" where
  "from_hex b =
     (if 48 \<le> b \<and> b \<le> 57 then Some (unat b - 48)
      else if 97 \<le> b \<and> b \<le> 102 then Some (unat b - 87)
      else if 65 \<le> b \<and> b \<le> 70 then Some (unat b - 55)
      else None)"

fun hex_decode :: "byte list \<Rightarrow> (cpio_error, byte list) res" where
  "hex_decode (a # b # bs) =
     (case from_hex a of None \<Rightarrow> Err (ErrHex a)
      | Some x \<Rightarrow> (case from_hex b of None \<Rightarrow> Err (ErrHex b)
          | Some y \<Rightarrow> rbind (hex_decode bs) (\<lambda>r. Ok (word_of_nat (16 * x + y) # r))))"
| "hex_decode [a] = Err (ErrHex a)"
| "hex_decode [] = Ok []"

section \<open>Writing\<close>

record 'w cwriter =
  cw_w :: 'w
  cw_pos :: int

definition cw_Write :: "'w writer \<Rightarrow> byte list \<Rightarrow> 'w cwriter \<Rightarrow> (cpio_error, nat) res \<times> 'w cwriter" where
  "cw_Write wr b w =
     (case wr (cw_w w) b of
        (n, Some e, w') \<Rightarrow> (Err (CpioIO e), w\<lparr>cw_w := w'\<rparr>)
      | (n, None, w') \<Rightarrow> (Ok n, w\<lparr>cw_w := w', cw_pos := cw_pos w + int n\<rparr>))"

definition cw_pad :: "'w writer \<Rightarrow> 'w cwriter \<Rightarrow> (cpio_error, unit) res \<times> 'w cwriter" where
  "cw_pad wr w =
     (let o4 = round4 (cw_pos w) in
      if o4 \<noteq> cw_pos w then sbind (cw_Write wr (replicate (nat (o4 - cw_pos w)) 0)) (\<lambda>_. sreturn ()) w
      else (Ok (), w))"

text \<open>
  \<open>io.Copy\<close> of the contents: they are read and written through a buffer of 32 KiB; an error of the
  writer or a short write ends the copy at once, an error of the reader after the last bytes.
\<close>

definition copy_size :: nat where "copy_size = 32768"

function chunks :: "'a list \<Rightarrow> 'a list list" where
  "chunks xs = (if xs = [] then [] else take copy_size xs # chunks (drop copy_size xs))"
  by auto
termination by (relation "measure length") (auto simp: copy_size_def)

declare chunks.simps [simp del]

fun copy_chunks :: "'w writer \<Rightarrow> byte list list \<Rightarrow> nat \<Rightarrow> 'w cwriter \<Rightarrow> (cpio_error, nat) res \<times> 'w cwriter" where
  "copy_chunks wr [] m = sreturn m"
| "copy_chunks wr (c # cs) m =
     sbind (cw_Write wr c) (\<lambda>n w.
       if n \<noteq> length c then (Err (CpioIO (IoError ''short write'')), w)
       else copy_chunks wr cs (m + n) w)"

definition copy_contents :: "'w writer \<Rightarrow> ReaderAt \<Rightarrow> 'w cwriter \<Rightarrow> (cpio_error, nat) res \<times> 'w cwriter" where
  "copy_contents wr r =
     sbind (copy_chunks wr (chunks (ra_data r)) 0) (\<lambda>m w.
       case ra_err r of Some e \<Rightarrow> (Err (CpioIO e), w) | None \<Rightarrow> (Ok m, w))"

definition cw_WriteRecord :: "'w writer \<Rightarrow> Record \<Rightarrow> 'w cwriter \<Rightarrow> (cpio_error, unit) res \<times> 'w cwriter" where
  "cw_WriteRecord wr f =
     sbind (cw_Write wr (str_bytes newcMagic)) (\<lambda>_.
     let hdr0 = headerFromInfo (RInfo f);
         hdr1 = (if Contents f = None then hdr0\<lparr>hFileSize := 0\<rparr> else hdr0);
         hdr = hdr1\<lparr>CRC := 0\<rparr>;
         hexBuf = map to_upper (hex_encode (encode_hdr hdr))
     in
     sbind (cw_Write wr hexBuf) (\<lambda>_.
     sbind (cw_Write wr (str_bytes (IName (RInfo f)) @ [0])) (\<lambda>_.
     sbind (cw_pad wr) (\<lambda>_.
     case Contents f of
       None \<Rightarrow> sreturn ()
     | Some r \<Rightarrow>
         sbind (copy_contents wr r) (\<lambda>m w.
           if int m \<noteq> sint (FileSize (RInfo f)) then (Err (ErrWrote (IName (RInfo f)) m (FileSize (RInfo f))), w)
           else case ra_close r of
             Some e \<Rightarrow> (Err (CpioIO e), w)
           | None \<Rightarrow> if m > 0 then cw_pad wr w else (Ok (), w))))))"

section \<open>Reading\<close>

text \<open>
  \<open>ReadAt\<close> of the \<open>discarder\<close> that reads a pipe forward only: its state is what is still to come and
  the position.
\<close>

record discarder =
  d_rest :: "byte list"
  d_pos :: int

definition discarder_ReadAt :: "discarder reader_at" where
  "discarder_ReadAt r n off =
     (if off - d_pos r < 0 then ([], Some (IoError ''negative seek on discarder not allowed''), r)
      else
        let skip = nat (off - d_pos r); i = min skip (length (d_rest r)) in
        if off \<noteq> d_pos r \<and> i \<noteq> skip then ([], None, r\<lparr>d_rest := drop i (d_rest r)\<rparr>)
        else
          let r1 = r\<lparr>d_rest := drop i (d_rest r), d_pos := d_pos r + int i\<rparr>;
              m = min n (length (d_rest r1)); bs = take m (d_rest r1);
              r2 = r1\<lparr>d_rest := drop m (d_rest r1)\<rparr>
          in if m = n then (bs, None, r2\<lparr>d_pos := d_pos r2 + int m\<rparr>)
             else (bs, Some (if m = 0 then EOF else UnexpectedEOF), r2))"

record 's creader =
  cr_src :: 's
  cr_pos :: int

definition creader_read :: "'s reader_at \<Rightarrow> nat \<Rightarrow> 's creader \<Rightarrow> (cpio_error, byte list) res \<times> 's creader" where
  "creader_read rat n r =
     (case rat (cr_src r) n (cr_pos r) of (bs, e, s') \<Rightarrow>
        let r' = r\<lparr>cr_src := s'\<rparr> in
        if e = Some EOF then (Err CpioEOF, r')
        else if e \<noteq> None \<or> length bs \<noteq> n then (Err (ErrReadAt (cr_pos r) (length bs) n), r')
        else (Ok bs, r'\<lparr>cr_pos := cr_pos r + int n\<rparr>))"

definition readAligned :: "'s reader_at \<Rightarrow> nat \<Rightarrow> 's creader \<Rightarrow> (cpio_error, byte list) res \<times> 's creader" where
  "readAligned rat n r = (case creader_read rat n r of (x, r') \<Rightarrow> (x, r'\<lparr>cr_pos := round4 (cr_pos r')\<rparr>))"

text \<open>
  The contents of a record are a section of the source: \<open>section s pos n\<close> is what reading \<open>n\<close> bytes
  at \<open>pos\<close> of the source in state \<open>s\<close> gives. A name length of 0 makes the slice of the name panic.
\<close>

definition ReadRecord ::
    "'s reader_at \<Rightarrow> ('s \<Rightarrow> int \<Rightarrow> nat \<Rightarrow> ReaderAt) \<Rightarrow> 's creader \<Rightarrow> (cpio_error, Record) res \<times> 's creader" where
  "ReadRecord rat section r =
     (let recPos = cr_pos r in
      sbind (creader_read rat (2 * hdr_size + magicLen)) (\<lambda>buf r1.
      let magic = bytes_str (take magicLen buf) in
      if magic \<noteq> newcMagic then (Err (ErrMagic magic newcMagic), r1)
      else case hex_decode (drop magicLen buf) of
        Err e \<Rightarrow> (Err e, r1)
      | Panic \<Rightarrow> (Panic, r1)
      | Ok dst \<Rightarrow>
          let hdr = decode_hdr dst in
          sbind (readAligned rat (unat (NameLength hdr))) (\<lambda>nameBuf r2.
            if NameLength hdr = 0 then (Panic, r2)
            else
              let info = (header_Info hdr)\<lparr>IName := bytes_str (take (unat (NameLength hdr - 1)) nameBuf)\<rparr>;
                  filePos = cr_pos r2;
                  content = section (cr_src r2) filePos (unat (hFileSize hdr));
                  r3 = r2\<lparr>cr_pos := round4 (cr_pos r2 + int (unat (hFileSize hdr)))\<rparr>
              in (Ok \<lparr>Contents = Some content, RInfo = info, RecPos = recPos,
                      RecLen = word_of_int (cr_pos r2 - recPos), FilePos = filePos\<rparr>, r3)) r1) r)"

definition file_section :: "byte list \<Rightarrow> int \<Rightarrow> nat \<Rightarrow> ReaderAt" where
  "file_section f p n = mem_reader (take n (drop (nat p) f))"

section \<open>Helpers (\<open>utils.go\<close>)\<close>

definition Normalize :: "string \<Rightarrow> string" where
  "Normalize path =
     (if IsAbs path then (case Rel [slash] path of Some rel \<Rightarrow> rel | None \<Rightarrow> [])
      else Clean path)"

definition set_name :: "string \<Rightarrow> Record \<Rightarrow> Record" where
  "set_name nm r = r\<lparr>RInfo := (RInfo r)\<lparr>IName := nm\<rparr>\<rparr>"

text \<open>A record writer is a state-changing function; \<open>DedupWriter\<close> adds the set of paths written.\<close>

type_synonym 'w record_writer = "Record \<Rightarrow> 'w \<Rightarrow> (cpio_error, unit) res \<times> 'w"

record 'w DedupWriter =
  dw_rw :: 'w
  alreadyWritten :: "string set"

definition NewDedupWriter :: "'w \<Rightarrow> 'w DedupWriter" where
  "NewDedupWriter rw = \<lparr>dw_rw = rw, alreadyWritten = {}\<rparr>"

definition Dedup_WriteRecord :: "'w record_writer \<Rightarrow> 'w DedupWriter record_writer" where
  "Dedup_WriteRecord wrec rec dw =
     (let name = Normalize (IName (RInfo rec)) in
      if name \<in> alreadyWritten dw then (Ok (), dw)
      else
        case wrec (set_name name rec) (dw_rw dw) of
          (r, w') \<Rightarrow> (r, dw\<lparr>alreadyWritten := insert name (alreadyWritten dw), dw_rw := w'\<rparr>))"

text \<open>\<open>Newc.Writer\<close> deduplicates.\<close>

definition newc_Writer :: "'w \<Rightarrow> 'w cwriter DedupWriter" where
  "newc_Writer w = NewDedupWriter \<lparr>cw_w = w, cw_pos = 0\<rparr>"

definition newc_WriteRecord :: "'w writer \<Rightarrow> 'w cwriter DedupWriter record_writer" where
  "newc_WriteRecord wr = Dedup_WriteRecord (cw_WriteRecord wr)"

fun WriteRecords :: "'w record_writer \<Rightarrow> Record list \<Rightarrow> 'w \<Rightarrow> (cpio_error, unit) res \<times> 'w" where
  "WriteRecords wrec [] w = (Ok (), w)"
| "WriteRecords wrec (f # fs) w =
     (case wrec f w of
        (Ok u, w') \<Rightarrow> WriteRecords wrec fs w'
      | (Err e, w') \<Rightarrow> (Err (ErrWriteRecords (IName (RInfo f)) e), w')
      | (Panic, w') \<Rightarrow> (Panic, w'))"

definition WriteTrailer :: "'w record_writer \<Rightarrow> 'w \<Rightarrow> (cpio_error, unit) res \<times> 'w" where
  "WriteTrailer wrec w = wrec TrailerRecord w"

text \<open>A record reader; \<open>EOFReader\<close> turns the trailer into the end.\<close>

type_synonym 'r record_reader = "'r \<Rightarrow> (cpio_error, Record) res \<times> 'r"

definition EOFReader :: "'r record_reader \<Rightarrow> 'r record_reader" where
  "EOFReader rd = sbind rd (\<lambda>rec r. if IName (RInfo rec) = Trailer then (Err CpioEOF, r) else (Ok rec, r))"

text \<open>
  \<open>ForEachRecord\<close> runs until the reader or the function reports an error. Whether the reader ends is
  not for the loop to say: the result is \<open>None\<close> when it does not.
\<close>

partial_function (option) ForEachRecord ::
    "'r record_reader \<Rightarrow> (Record \<Rightarrow> 's \<Rightarrow> (cpio_error, unit) res \<times> 's) \<Rightarrow> 'r \<Rightarrow> 's
     \<Rightarrow> ((cpio_error, unit) res \<times> 's) option" where
  "ForEachRecord rd fun r s =
     (case rd r of
        (Ok rec, r') \<Rightarrow>
          (case fun rec s of
             (Ok u, s') \<Rightarrow> ForEachRecord rd fun r' s'
           | (Err e, s') \<Rightarrow> Some (Err e, s')
           | (Panic, s') \<Rightarrow> Some (Panic, s'))
      | (Err e, r') \<Rightarrow> Some (if e = CpioEOF then (Ok (), s) else (Err e, s))
      | (Panic, r') \<Rightarrow> Some (Panic, s))"

definition Concat ::
    "'w record_writer \<Rightarrow> 'r record_reader \<Rightarrow> (Record \<Rightarrow> Record) option \<Rightarrow> 'w \<Rightarrow> 'r
     \<Rightarrow> ((cpio_error, unit) res \<times> 'w) option" where
  "Concat wrec rd transform w r =
     ForEachRecord rd (\<lambda>f. wrec (case transform of None \<Rightarrow> f | Some t \<Rightarrow> t f)) r w"

definition Passthrough ::
    "'r record_reader \<Rightarrow> 'w record_writer \<Rightarrow> 'r \<Rightarrow> 'w \<Rightarrow> ((cpio_error, unit) res \<times> 'w) option" where
  "Passthrough rd wrec r w =
     (case Concat wrec rd None w r of
        None \<Rightarrow> None
      | Some (Ok u, w') \<Rightarrow> Some (WriteTrailer wrec w')
      | Some (Err e, w') \<Rightarrow> Some (Err e, w')
      | Some (Panic, w') \<Rightarrow> Some (Panic, w'))"

definition ReadAllRecords :: "'r record_reader \<Rightarrow> 'r \<Rightarrow> ((cpio_error, unit) res \<times> Record list) option" where
  "ReadAllRecords rd r = ForEachRecord rd (\<lambda>rec files. (Ok (), files @ [rec])) r []"

definition MakeReproducible :: "Record \<Rightarrow> Record" where
  "MakeReproducible r = r\<lparr>RInfo := (RInfo r)\<lparr>Ino := 0, IName := Normalize (IName (RInfo r)), MTime := 0,
     UID := 0, GID := 0, Dev := 0, Major := 0, Minor := 0, NLink := 0\<rparr>\<rparr>"

definition MakeAllReproducible :: "Record list \<Rightarrow> Record list" where
  "MakeAllReproducible files = map MakeReproducible files"

definition Equal :: "Record \<Rightarrow> Record \<Rightarrow> bool" where
  "Equal r s =
     (if RInfo r \<noteq> RInfo s then False
      else ReaderAtEqual (\<lambda>c. (ra_data c, ra_err c)) (Contents r) (Contents s))"

fun AllEqual :: "Record list \<Rightarrow> Record list \<Rightarrow> bool" where
  "AllEqual [] [] = True"
| "AllEqual (r # rs) (s # ss) = (length rs = length ss \<and> Equal r s \<and> AllEqual rs ss)"
| "AllEqual _ _ = False"

section \<open>The in-memory archive (\<open>archive.go\<close>)\<close>

record Archive =
  Files :: "string \<rightharpoonup> Record"
  Order :: "string list"

definition InMemArchive :: Archive where
  "InMemArchive = \<lparr>Files = Map.empty, Order = []\<rparr>"

definition Archive_WriteRecord :: "Archive record_writer" where
  "Archive_WriteRecord r a =
     (let name = Normalize (IName (RInfo r)) in
      (Ok (), a\<lparr>Files := (Files a)(name \<mapsto> set_name name r), Order := Order a @ [name]\<rparr>))"

definition ArchiveFromRecords :: "Record list \<Rightarrow> Archive" where
  "ArchiveFromRecords rs = foldl (\<lambda>a r. snd (Archive_WriteRecord r a)) InMemArchive rs"

definition ArchiveFromReader :: "'r record_reader \<Rightarrow> 'r \<Rightarrow> ((cpio_error, Archive) res) option" where
  "ArchiveFromReader rd r =
     map_option (\<lambda>(x, a). rbind x (\<lambda>_. Ok a)) (Concat Archive_WriteRecord rd None InMemArchive r)"

definition Empty :: "Archive \<Rightarrow> bool" where
  "Empty a \<longleftrightarrow> Files a = Map.empty"

definition Archive_Get :: "Archive \<Rightarrow> string \<Rightarrow> Record option" where
  "Archive_Get a path = Files a (Normalize path)"

definition Archive_Contains :: "Archive \<Rightarrow> Record \<Rightarrow> bool" where
  "Archive_Contains a r =
     (let name = Normalize (IName (RInfo r)) in
      case Files a name of Some s \<Rightarrow> Equal (set_name name r) s | None \<Rightarrow> False)"

text \<open>A path without a file gives the zero record, as a Go map does.\<close>

definition archive_ReadRecord :: "(Archive \<times> nat) record_reader" where
  "archive_ReadRecord ar =
     (case ar of (a, p) \<Rightarrow>
        if p \<ge> length (Order a) then (Err CpioEOF, ar)
        else (Ok (case Files a (Order a ! p) of Some r \<Rightarrow> r | None \<Rightarrow> new_record None (empty_info [])), (a, p + 1)))"

definition Archive_Reader :: "(Archive \<times> nat) record_reader" where
  "Archive_Reader = EOFReader archive_ReadRecord"

end
