(* ===== verification/BzKernel.thy ===== *)
theory BzKernel imports BzImage Cpio begin

text \<open>
  \<open>pkg/boot/bzimage\<close>, the image: taking a kernel image apart and putting it together again
  (\<open>bzimage.go\<close>), its version strings (\<open>kver.go\<close>) and the search for an embedded initramfs. The
  decompressors, the compressor and the ELF parser are parameters. The capacity of the kernel code is
  taken to be its length.
\<close>

section \<open>Searching bytes\<close>

text \<open>\<open>bytes.Index\<close>, \<open>None\<close> for -1.\<close>

fun IndexBytes :: "byte list \<Rightarrow> byte list \<Rightarrow> nat option" where
  "IndexBytes [] s = (if s = [] then Some 0 else None)"
| "IndexBytes (b # bs) s =
     (if take (length s) (b # bs) = s then Some 0 else map_option Suc (IndexBytes bs s))"

lemma IndexBytes_le: "IndexBytes bs s = Some x \<Longrightarrow> x \<le> length bs"
  by (induction bs arbitrary: x) (auto split: if_splits)

lemma IndexBytes_Some: "IndexBytes bs s = Some x \<Longrightarrow> take (length s) (drop x bs) = s"
  by (induction bs arbitrary: x) (auto split: if_splits)

section \<open>Unmarshalling\<close>

datatype bz_error =
    BzRead io_error
  | NotBzImage "byte list"
  | NoDecompressor
  | BzUnpack string
  | BytesLeft nat
  | ErrKCodeMissing
  | BzCompress string
  | CompressedTooBig nat nat
  | ErrParse
  | ErrBootSig
  | ErrBadSig
  | ErrBadOff
  | BzELF string
  | NoRWEProg
  | NoCpioMagic
  | NoCpio
  | InitramfsTooBig nat nat
  | DifferLen nat nat
  | HeadersNotMatch
  | KernelLenDiffer nat nat
  | BootLenDiffer nat nat
  | BootCodeDiffers
  | KernelsDiffer
  | BadUint string
  | BadTime string
  | BzFile string
  | ErrCfgNotFound
  | BzGzip string

text \<open>The magics, in the order they are tried.\<close>

definition magics :: "byte list list" where
  "magics = [[31, 139, 8], [253, 55, 122, 88, 90, 0], [66, 90, 104], [93, 0, 0, 0], [137, 76, 90], [2, 33, 76, 24],
     [40, 181, 47, 253]]"

fun find_magic :: "nat \<Rightarrow> byte list list \<Rightarrow> byte list \<Rightarrow> (nat \<times> nat) option" where
  "find_magic k [] b = None"
| "find_magic k (m # ms) b = (case IndexBytes b m of Some x \<Rightarrow> Some (x, k) | None \<Rightarrow> find_magic (Suc k) ms b)"

text \<open>The offset of the magic and its number, which stands for the command.\<close>

definition findDecompressor :: "byte list \<Rightarrow> (bz_error, nat \<times> nat) res" where
  "findDecompressor b = (case find_magic 0 magics b of Some r \<Rightarrow> Ok r | None \<Rightarrow> Err NoDecompressor)"

definition HeaderMagic :: "byte list" where
  "HeaderMagic = [72, 100, 114, 83]"

record BzImage =
  bzHeader :: LinuxHeader
  BootCode :: "byte list"
  HeadCode :: "byte list"
  KernelCode :: "byte list option"
  TailCode :: "byte list"
  KernelBase :: u64
  KernelOffset :: nat
  compressed :: "byte list"
  NoDecompress :: bool

text \<open>
  \<open>Read\<close> of a \<open>bytes.Buffer\<close> into a new slice of \<open>n\<close> bytes: what is missing stays zero, without an
  error unless nothing is left.
\<close>

definition buf_read :: "nat \<Rightarrow> byte list \<Rightarrow> (bz_error, byte list \<times> byte list) res" where
  "buf_read n r =
     (if r = [] \<and> n \<noteq> 0 then Err (BzRead EOF)
      else Ok (take n r @ replicate (n - length r) 0, drop n r))"

text \<open>
  \<open>unpack\<close> looks at 32 bytes for a debug message even when nothing is printed. \<open>cmd k d\<close> is the
  output of command number \<open>k\<close>.
\<close>

definition unpack_kernel :: "(nat \<Rightarrow> byte list \<Rightarrow> (string, byte list) res) \<Rightarrow> byte list \<Rightarrow> nat \<Rightarrow> (bz_error, byte list) res" where
  "unpack_kernel cmd d k =
     (if length d < 32 then Panic
      else case cmd k d of Ok dat \<Rightarrow> Ok dat | Err e \<Rightarrow> Err (BzUnpack e) | Panic \<Rightarrow> Panic)"

definition UnmarshalBinary ::
    "(nat \<Rightarrow> byte list \<Rightarrow> (string, byte list) res) \<Rightarrow> bool \<Rightarrow> byte list \<Rightarrow> (bz_error, BzImage) res" where
  "UnmarshalBinary cmd noDecompress d =
     (case ReadFull d lh_size of
        Err e \<Rightarrow> Err (BzRead e)
      | Panic \<Rightarrow> Panic
      | Ok (hb, r0) \<Rightarrow>
          let h = lh_of (unpack (widths lh_layout) hb);
              koff = (unat (lhSetupSects h) + 1) * 512;
              off = length d - length r0
          in
          if lhHeaderMagic h \<noteq> HeaderMagic then Err (NotBzImage (lhHeaderMagic h))
          else if koff < off then Panic
          else
            rbind (buf_read (koff - off) r0) (\<lambda>(boot, r1).
            rbind (findDecompressor r1) (\<lambda>(x, c).
            rbind (buf_read x r1) (\<lambda>(head, r2).
            rbind (buf_read (unat (lhPayloadSize h)) r2) (\<lambda>(comp, r3).
            rbind (if noDecompress then Ok None else rbind (unpack_kernel cmd comp c) (\<lambda>k. Ok (Some k))) (\<lambda>kcode.
            rbind (buf_read (length r3) r3) (\<lambda>(tail, r4).
              if lhRamdiskImage h \<noteq> 0 \<and> r4 \<noteq> [] then Err (BytesLeft (length r4))
              else Ok \<lparr>bzHeader = h, BootCode = boot, HeadCode = head, KernelCode = kcode, TailCode = tail,
                 KernelBase = 0x100000, KernelOffset = koff, compressed = comp, NoDecompress = noDecompress\<rparr>)))))))"

section \<open>Marshalling\<close>

definition initRAMFStag :: "byte list" where
  "initRAMFStag = [248, 133, 33, 1]"

text \<open>\<open>compress\<close> looks at 32 bytes of its result for a debug message.\<close>

definition compress_kernel :: "(byte list \<Rightarrow> (string, byte list) res) \<Rightarrow> byte list \<Rightarrow> (bz_error, byte list) res" where
  "compress_kernel xz b =
     (case xz b of
        Ok dat \<Rightarrow> if length dat < 32 then Panic else Ok dat
      | Err e \<Rightarrow> Err (BzCompress e)
      | Panic \<Rightarrow> Panic)"

text \<open>The compressed kernel in the space of the old one: the tag comes last, zeros before it.\<close>

definition fit_compressed :: "byte list \<Rightarrow> nat \<Rightarrow> byte list" where
  "fit_compressed dat n =
     (if length dat < n then
        let l = length dat in take (l - 4) dat @ replicate (n - 4 - (l - 4)) 0 @ initRAMFStag
      else dat)"

definition MarshalBinary :: "(byte list \<Rightarrow> (string, byte list) res) \<Rightarrow> BzImage \<Rightarrow> (bz_error, byte list \<times> BzImage) res" where
  "MarshalBinary xz b =
     (case (if NoDecompress b then None else KernelCode b) of
        None \<Rightarrow> Err ErrKCodeMissing
      | Some k \<Rightarrow>
          rbind (compress_kernel xz k) (\<lambda>dat0.
            let dat1 = dat0 @ initRAMFStag; n = length (compressed b) in
            if length dat1 > n then Err (CompressedTooBig n (length dat1))
            else
              let dat = fit_compressed dat1 n in
              Ok (encode_lh (bzHeader b) @ BootCode b @ HeadCode b @ dat @ TailCode b, b\<lparr>compressed := dat\<rparr>)))"

definition bz_Equal :: "(nat \<Rightarrow> byte list \<Rightarrow> (string, byte list) res) \<Rightarrow> byte list \<Rightarrow> byte list \<Rightarrow> (bz_error, unit) res" where
  "bz_Equal cmd a b =
     (if length a \<noteq> length b then Err (DifferLen (length a) (length b))
      else
        rbind (UnmarshalBinary cmd False a) (\<lambda>ba.
        rbind (UnmarshalBinary cmd False b) (\<lambda>bb.
          let ka = (case KernelCode ba of Some k \<Rightarrow> k | None \<Rightarrow> []); kb = (case KernelCode bb of Some k \<Rightarrow> k | None \<Rightarrow> []) in
          if bzHeader ba \<noteq> bzHeader bb then Err HeadersNotMatch
          else if length ka \<noteq> length kb then Err (KernelLenDiffer (length ka) (length kb))
          else if length (BootCode ba) \<noteq> length (BootCode bb) then Err (BootLenDiffer (length ka) (length kb))
          else if BootCode ba \<noteq> BootCode bb then Err BootCodeDiffers
          else if ka \<noteq> kb then Err KernelsDiffer
          else Ok ())))"

section \<open>Version strings\<close>

definition kverMax :: nat where "kverMax = 1024"

text \<open>A buffer without a zero byte loses its last byte.\<close>

definition nullterm :: "byte list \<Rightarrow> string" where
  "nullterm bs = bytes_str (take (case IndexByte bs 0 of Some i \<Rightarrow> i | None \<Rightarrow> length bs - 1) bs)"

text \<open>The second read overwrites the start of the buffer and leaves the rest of it.\<close>

definition KVer :: "byte list \<Rightarrow> (bz_error, string) res" where
  "KVer k =
     (case stream_Read k 530 of
        (bs, Some e, _) \<Rightarrow> Err (BzRead e)
      | (bs, None, _) \<Rightarrow>
          let b = bs @ replicate (kverMax - length bs) 0 in
          if take 2 (drop 510 b) \<noteq> [0x55, 0xaa] then Err ErrBootSig
          else if take 4 (drop 514 b) \<noteq> HeaderMagic then Err ErrBadSig
          else if take 4 (drop 526 b) = [0, 0, 0, 0] then Err ErrBadOff
          else
            (case stream_Read (drop (un_le (take 2 (drop 526 b)) + 0x200) k) kverMax of
               (cs, Some e, _) \<Rightarrow> Err (BzRead e)
             | (cs, None, _) \<Rightarrow> Ok (nullterm (cs @ drop (length cs) b))))"

definition BzImage_KVer :: "BzImage \<Rightarrow> (bz_error, string) res" where
  "BzImage_KVer bz =
     (if lhKveraddr (bzHeader bz) = 0 then Err ErrParse
      else
        let start = ucast (lhKveraddr (bzHeader bz) + 0x200) :: u64;
            bclen = word_of_nat (length (BootCode bz)) :: u64;
            hdrlen = word_of_nat (KernelOffset bz) - bclen;
            bcoffs = start - hdrlen
        in if bcoffs \<ge> bclen then Err ErrParse
           else
             let end0 = bcoffs + word_of_nat kverMax;
                 end1 = (if end0 > bclen then bclen else end0)
             in if end1 < bcoffs then Panic
                else Ok (nullterm (take (unat end1 - unat bcoffs) (drop (unat bcoffs) (BootCode bz)))))"

section \<open>The embedded initramfs\<close>

text \<open>A program header of the kernel: its flags, its offset in the file and its contents.\<close>

record elf_prog =
  ep_flags :: u32
  ep_off :: u64
  ep_data :: "(string, byte list) res"

definition PF_RWX :: u32 where "PF_RWX = 7"

fun find_rwe :: "elf_prog list \<Rightarrow> (bz_error, elf_prog \<times> byte list) res" where
  "find_rwe [] = Err NoRWEProg"
| "find_rwe (p # ps) =
     (if ep_flags p AND PF_RWX = PF_RWX then
        (case ep_data p of Ok d \<Rightarrow> Ok (p, d) | Err e \<Rightarrow> Err (BzELF e) | Panic \<Rightarrow> Panic)
      else find_rwe ps)"

text \<open>
  Reading the records of an archive: whether one of the names was seen, and the end of the last record.
  Any error ends the scan.
\<close>

definition scan_cpio :: "byte list \<Rightarrow> ((cpio_error, unit) res \<times> bool \<times> int) option" where
  "scan_cpio d =
     ForEachRecord (EOFReader (ReadRecord file_ReadAt file_section))
       (\<lambda>rec st. (Ok (), (fst st \<or> IName (RInfo rec) \<in> {''init'', ''dev'', ''bin'', ''usr''},
          FilePos rec + int (unat (FileSize (RInfo rec))))))
       \<lparr>cr_src = d, cr_pos = 0\<rparr> (False, 0)"

definition round_up4 :: "int \<Rightarrow> int" where
  "round_up4 y = (y + 3) AND NOT 3"

text \<open>
  The search looks for the magic from the start of the data each time around; \<open>None\<close> is a search that
  never ends.
\<close>

partial_function (option) initramfs_loop ::
    "byte list \<Rightarrow> int \<Rightarrow> nat \<Rightarrow> ((bz_error, int \<times> int) res) option" where
  "initramfs_loop dat progOff cur =
     (if cur < length dat then
        (case IndexBytes dat (str_bytes newcMagic) of
           None \<Rightarrow> Some (Err NoCpioMagic)
         | Some x \<Rightarrow>
             (case scan_cpio (drop x dat) of
                None \<Rightarrow> None
              | Some (Panic, _) \<Rightarrow> Some Panic
              | Some (_, found, sz) \<Rightarrow>
                  let y = int x + sz in
                  if found then
                    (if y > int (length dat) \<or> y < int x then Some Panic
                     else Some (Ok (int x + progOff, round_up4 (round_up4 (y + progOff) + 120 + 4))))
                  else initramfs_loop dat progOff (x + 6)))
      else Some (Err NoCpio))"

text \<open>\<open>elf\<close> is the ELF parser.\<close>

definition InitRAMFS :: "(byte list \<Rightarrow> (string, elf_prog list) res) \<Rightarrow> BzImage \<Rightarrow> ((bz_error, int \<times> int) res) option" where
  "InitRAMFS elf b =
     (case (if NoDecompress b then None else KernelCode b) of
        None \<Rightarrow> Some (Err ErrKCodeMissing)
      | Some k \<Rightarrow>
          (case elf k of
             Err e \<Rightarrow> Some (Err (BzELF e))
           | Panic \<Rightarrow> Some Panic
           | Ok progs \<Rightarrow>
               (case find_rwe progs of
                  Err e \<Rightarrow> Some (Err e)
                | Panic \<Rightarrow> Some Panic
                | Ok (p, dat) \<Rightarrow>
                    if dat = [] then Some (Err NoCpio) else initramfs_loop dat (sint (ep_off p)) 0)))"

definition AddInitRAMFS ::
    "(byte list \<Rightarrow> (string, elf_prog list) res) \<Rightarrow> (string, byte list) res \<Rightarrow> BzImage \<Rightarrow> ((bz_error, BzImage) res) option" where
  "AddInitRAMFS elf file b =
     (case file of
        Err e \<Rightarrow> Some (Err (BzFile e))
      | Panic \<Rightarrow> Some Panic
      | Ok d \<Rightarrow>
          map_option (\<lambda>r. rbind r (\<lambda>(s, e).
            let l = e - s in
            if int (length d) > l then Err (InitramfsTooBig (length d) (nat l))
            else case KernelCode b of
              None \<Rightarrow> Panic
            | Some k \<Rightarrow>
                if s < 0 \<or> e > int (length k) then Panic
                else
                  let n = replicate (nat l - length d) 0 @ d in
                  Ok (b\<lparr>KernelCode := Some (overwrite k (nat s) n)\<rparr>))) (InitRAMFS elf b))"

section \<open>The embedded configuration\<close>

definition cfg_magic :: "byte list" where
  "cfg_magic = str_bytes ''IKCFG_ST'' @ [0x1f, 0x8b, 0x08]"

text \<open>One MiB from the gzip header on is handed to \<open>gunzip\<close>, which stops at the end of its stream.\<close>

definition ReadConfig :: "(byte list \<Rightarrow> (string, byte list) res) \<Rightarrow> BzImage \<Rightarrow> (bz_error, string) res" where
  "ReadConfig gunzip b =
     (let code = (case KernelCode b of None \<Rightarrow> [] | Some k \<Rightarrow> k) in
      case IndexBytes code cfg_magic of
        None \<Rightarrow> Err ErrCfgNotFound
      | Some i \<Rightarrow>
          if i + 8 + 1048576 > length code then Panic
          else case gunzip (take 1048576 (drop (i + 8) code)) of
              Ok cfg \<Rightarrow> Ok (bytes_str cfg) | Err e \<Rightarrow> Err (BzGzip e) | Panic \<Rightarrow> Panic)"

text \<open>A configuration less than a MiB before the end of the kernel makes the slice panic.\<close>

lemma config_near_end_panics:
  "IndexBytes k cfg_magic = Some i \<Longrightarrow> length k < i + 8 + 1048576 \<Longrightarrow> KernelCode b = Some k \<Longrightarrow> ReadConfig gunzip b = Panic"
  by (simp add: ReadConfig_def)

section \<open>Taking apart and putting together\<close>

lemma buf_read_Ok: "buf_read n r = Ok (x, r') \<Longrightarrow> length x = n \<and> r' = drop n r \<and> (n \<le> length r \<longrightarrow> x = take n r)"
  by (auto simp: buf_read_def split: if_splits)

lemma find_magic_le: "find_magic k ms b = Some (x, c) \<Longrightarrow> x \<le> length b"
  by (induction k ms b rule: find_magic.induct) (auto split: option.splits dest: IndexBytes_le)

lemma UnmarshalBinary_Ok:
  assumes "UnmarshalBinary cmd nd d = Ok b"
  shows "lh_ok (bzHeader b) \<and> lh_size \<le> length d \<and> encode_lh (bzHeader b) = take lh_size d \<and>
    KernelOffset b = (unat (lhSetupSects (bzHeader b)) + 1) * 512 \<and> lh_size \<le> KernelOffset b \<and>
    lhHeaderMagic (bzHeader b) = HeaderMagic \<and> NoDecompress b = nd \<and> (KernelCode b = None \<longleftrightarrow> nd) \<and>
    length (BootCode b) = KernelOffset b - lh_size \<and> length (compressed b) = unat (lhPayloadSize (bzHeader b)) \<and>
    length (HeadCode b) \<le> length (drop (KernelOffset b) d) \<and> HeadCode b = take (length (HeadCode b)) (drop (KernelOffset b) d) \<and>
    TailCode b = drop (KernelOffset b + length (HeadCode b) + length (compressed b)) d \<and>
    (KernelOffset b \<le> length d \<longrightarrow> BootCode b = take (length (BootCode b)) (drop lh_size d)) \<and>
    (KernelOffset b + length (HeadCode b) + length (compressed b) \<le> length d \<longrightarrow>
       compressed b = take (length (compressed b)) (drop (KernelOffset b + length (HeadCode b)) d))"
proof -
  obtain hb r0 where r: "ReadFull d lh_size = Ok (hb, r0)"
    using assms by (cases "ReadFull d lh_size") (auto simp: UnmarshalBinary_def)
  then have hb: "lh_size \<le> length d" "hb = take lh_size d" "r0 = drop lh_size d"
    by (auto simp: ReadFull_def split: if_splits)
  define h where "h = lh_of (unpack (widths lh_layout) hb)"
  define koff where "koff = (unat (lhSetupSects h) + 1) * 512"
  have off: "length d - length r0 = lh_size" using hb by simp
  from assms r obtain boot r1 x c head r2 comp r3 kcode tail r4 where s:
      "lhHeaderMagic h = HeaderMagic" "lh_size \<le> koff"
      "buf_read (koff - lh_size) r0 = Ok (boot, r1)" "findDecompressor r1 = Ok (x, c)" "buf_read x r1 = Ok (head, r2)"
      "buf_read (unat (lhPayloadSize h)) r2 = Ok (comp, r3)"
      "(if nd then Ok None else rbind (unpack_kernel cmd comp c) (\<lambda>k. Ok (Some k))) = Ok kcode"
      "buf_read (length r3) r3 = Ok (tail, r4)"
      "b = \<lparr>bzHeader = h, BootCode = boot, HeadCode = head, KernelCode = kcode, TailCode = tail,
         KernelBase = 0x100000, KernelOffset = koff, compressed = comp, NoDecompress = nd\<rparr>"
    unfolding UnmarshalBinary_def Let_def r res.case prod.case off h_def [symmetric] koff_def [symmetric]
    by (auto simp: rbind_eq_Ok split: if_splits)
  note b1 = buf_read_Ok [OF s(3)] and b2 = buf_read_Ok [OF s(5)] and b3 = buf_read_Ok [OF s(6)] and b4 = buf_read_Ok [OF s(8)]
  have e: "encode_lh h = hb" unfolding h_def by (rule encode_decode_lh) (use hb in \<open>simp add: lh_size_def\<close>)
  have x: "x \<le> length r1" using s(4) find_magic_le by (auto simp: findDecompressor_def split: option.splits)
  have r1: "r1 = drop koff d" using b1 hb(3) s(2) by simp
  have n: "kcode = None \<longleftrightarrow> nd" using s(7) by (auto simp: rbind_eq_Ok split: if_splits)
  have f: "bzHeader b = h" "BootCode b = boot" "HeadCode b = head" "KernelCode b = kcode" "TailCode b = tail"
      "KernelOffset b = koff" "compressed b = comp" "NoDecompress b = nd"
    unfolding s(9) by simp_all
  have hd: "length head = x" "head = take x (drop koff d)" "r2 = drop (koff + x) d"
    using b2 x unfolding r1 by (simp_all add: add.commute)
  have cp: "length comp = unat (lhPayloadSize h)" "r3 = drop (koff + x + length comp) d"
      "unat (lhPayloadSize h) \<le> length r2 \<Longrightarrow> comp = take (length comp) r2"
    using b3 unfolding hd(3) by (simp_all add: add_ac)
  have tl: "tail = r3" using b4 by simp
  have bt: "length boot = koff - lh_size" "koff \<le> length d \<Longrightarrow> boot = take (length boot) (drop lh_size d)"
    using b1 unfolding hb(3) by simp_all
  have "koff + length head + length comp \<le> length d \<longrightarrow> comp = take (length comp) (drop (koff + length head) d)"
    using cp(1,3) unfolding hd(3) hd(1) [symmetric] by simp
  moreover have "head = take (length head) (drop koff d)" "tail = drop (koff + length head + length comp) d"
    using hd(1,2) tl cp(2) by simp_all
  moreover have "encode_lh h = take lh_size d" using e hb(2) by simp
  moreover have "length head \<le> length (drop koff d)" using x r1 hd(1) by simp
  moreover have "lh_ok h" unfolding h_def by (rule lh_ok_of)
  moreover have "koff = (unat (lhSetupSects h) + 1) * 512" by (rule koff_def)
  moreover have "koff \<le> length d \<longrightarrow> boot = take (length boot) (drop lh_size d)" using bt(2) by blast
  ultimately show ?thesis
    unfolding f using cp(1) bt(1) n hb(1) s(1,2) by (intro conjI) (assumption | rule refl)+
qed

text \<open>The image has all the bytes its header promises.\<close>

definition complete :: "BzImage \<Rightarrow> byte list \<Rightarrow> bool" where
  "complete b d \<longleftrightarrow> KernelOffset b + length (HeadCode b) + length (compressed b) \<le> length d"

lemma take_drop_cut: "a \<le> b \<Longrightarrow> take (b - a) (drop a d) @ drop b d = drop a d"
  using append_take_drop_id [of "b - a" "drop a d"] by (simp add: drop_drop)

lemma Unmarshal_concat:
  assumes "UnmarshalBinary cmd nd d = Ok b" "complete b d"
  shows "encode_lh (bzHeader b) @ BootCode b @ HeadCode b = take (KernelOffset b + length (HeadCode b)) d"
    "TailCode b = drop (KernelOffset b + length (HeadCode b) + length (compressed b)) d"
proof -
  note u = UnmarshalBinary_Ok [OF assms(1)]
  have k: "KernelOffset b \<le> length d" using assms(2) by (simp add: complete_def)
  have k2: "lh_size \<le> KernelOffset b" using u by blast
  have "BootCode b = take (KernelOffset b - lh_size) (drop lh_size d)" using u k by metis
  then have "encode_lh (bzHeader b) @ BootCode b = take (KernelOffset b) d"
    using u take_add [of lh_size "KernelOffset b - lh_size" d] k2 by simp
  moreover have "HeadCode b = take (length (HeadCode b)) (drop (KernelOffset b) d)" using u by blast
  ultimately show "encode_lh (bzHeader b) @ BootCode b @ HeadCode b = take (KernelOffset b + length (HeadCode b)) d"
    by (metis append.assoc take_add)
  show "TailCode b = drop (KernelOffset b + length (HeadCode b) + length (compressed b)) d" using u by blast
qed

lemma length_fit_compressed:
  "4 \<le> length dat \<Longrightarrow> length dat \<le> n \<Longrightarrow> length (fit_compressed dat n) = n"
  by (auto simp: fit_compressed_def Let_def initRAMFStag_def)

text \<open>taking a complete image apart and marshalling it again changes nothing but the compressed kernel:
  the image keeps its length and every byte outside that region, and the region ends in the initramfs tag.\<close>

theorem Marshal_keeps_layout:
  assumes "UnmarshalBinary cmd nd d = Ok b" "complete b d" "MarshalBinary xz b = Ok (out, b')"
  shows "\<exists>dat. out = take (KernelOffset b + length (HeadCode b)) d @ dat @
      drop (KernelOffset b + length (HeadCode b) + length (compressed b)) d \<and>
    length dat = length (compressed b) \<and> length out = length d \<and> drop (length dat - 4) dat = initRAMFStag"
proof -
  obtain k dat0 where k: "xz k = Ok dat0" "length (dat0 @ initRAMFStag) \<le> length (compressed b)" "32 \<le> length dat0"
      "out = encode_lh (bzHeader b) @ BootCode b @ HeadCode b @ fit_compressed (dat0 @ initRAMFStag) (length (compressed b)) @ TailCode b"
    using assms(3)
    by (auto simp: MarshalBinary_def compress_kernel_def rbind_eq_Ok Let_def split: option.splits if_splits res.splits)
  let ?dat = "fit_compressed (dat0 @ initRAMFStag) (length (compressed b))"
  have l: "length ?dat = length (compressed b)" using k(2) by (intro length_fit_compressed) (simp_all add: initRAMFStag_def)
  have o1: "out = take (KernelOffset b + length (HeadCode b)) d @ ?dat @
      drop (KernelOffset b + length (HeadCode b) + length (compressed b)) d"
    using k(4) Unmarshal_concat [OF assms(1,2)] by (metis append.assoc)
  have "drop (length ?dat - 4) ?dat = initRAMFStag"
    using k(2) by (auto simp: fit_compressed_def Let_def initRAMFStag_def)
  moreover have "length out = length d" using o1 l assms(2) by (simp add: complete_def)
  ultimately show ?thesis using o1 l by blast
qed

definition ex_header :: LinuxHeader where
  "ex_header = (lh_of (replicate 43 0))\<lparr>lhSetupSects := 1, lhBootsectormagic := 0xaa55, lhKveraddr := 112, lhHeaderMagic := HeaderMagic, lhPayloadSize := 36\<rparr>"

definition ex_image :: "byte list" where
  "ex_image = encode_lh ex_header @ replicate 408 0 @ [253, 55, 122, 88, 90, 0] @ replicate 30 0"

lemma ex_header_ok: "lh_ok ex_header"
  using lh_ok_of [of "replicate 43 0"] by (simp add: ex_header_def lh_ok_def HeaderMagic_def)

lemma ex_image_read: "ReadFull ex_image lh_size = Ok (encode_lh ex_header, drop lh_size ex_image)"
  using length_encode_lh [OF ex_header_ok] by (simp add: ReadFull_def ex_image_def lh_size_def)

lemma IndexBytes_zeros: "a \<noteq> 0 \<Longrightarrow> IndexBytes (replicate n 0) (a # s) = None"
  by (induction n) auto

lemma ex_find: "findDecompressor ([253, 55, 122, 88, 90, 0] @ replicate 30 0) = Ok (0, 1)"
  by (simp add: findDecompressor_def magics_def IndexBytes_zeros)

abbreviation ex_kernel :: "byte list" where
  "ex_kernel \<equiv> [253, 55, 122, 88, 90, 0] @ replicate 30 0"

abbreviation ex_bz :: BzImage where
  "ex_bz \<equiv> \<lparr>bzHeader = ex_header, BootCode = replicate 408 0, HeadCode = [], KernelCode = Some [1], TailCode = [],
     KernelBase = 0x100000, KernelOffset = 1024, compressed = ex_kernel, NoDecompress = False\<rparr>"

lemma ex_fields:
  "lhHeaderMagic ex_header = HeaderMagic" "unat (lhSetupSects ex_header) = 1" "unat (lhPayloadSize ex_header) = 36"
  "lhRamdiskImage ex_header = 0" "lhKveraddr ex_header = 112" "lhBootsectormagic ex_header = 0xaa55"
  by (simp_all add: ex_header_def lh_of_def)

lemma ex_unmarshal: "UnmarshalBinary (\<lambda>_ _. Ok [1]) False ex_image = Ok ex_bz"
proof -
  have l: "length (encode_lh ex_header) = 616" using length_encode_lh [OF ex_header_ok] .
  have d: "lh_of (unpack (widths lh_layout) (encode_lh ex_header)) = ex_header"
    using decode_encode_lh [OF ex_header_ok, of "[]"] by simp
  let ?r = "drop lh_size ex_image"
  have r: "?r = replicate 408 0 @ ex_kernel" using l by (simp add: ex_image_def lh_size_def)
  have n: "length ex_image - length ?r = 616" using l by (simp add: ex_image_def lh_size_def)
  have r1: "buf_read 408 ?r = Ok (replicate 408 0, ex_kernel)" unfolding r by (simp add: buf_read_def)
  have r2: "buf_read 0 ex_kernel = Ok ([], ex_kernel)" "buf_read 36 ex_kernel = Ok (ex_kernel, [])" "buf_read 0 [] = Ok ([], [])"
    by (simp_all add: buf_read_def)
  show ?thesis
    unfolding UnmarshalBinary_def Let_def ex_image_read res.case prod.case d n using ex_fields r1 r2 ex_find
    by (simp add: unpack_kernel_def del: append.simps)
qed

theorem Marshal_keeps_layout_witness:
  "\<exists>b out b'. UnmarshalBinary (\<lambda>_ _. Ok [1]) False ex_image = Ok b \<and> MarshalBinary (\<lambda>_. Ok (replicate 32 9)) b = Ok (out, b') \<and>
     length out = length ex_image"
proof -
  have c: "complete ex_bz ex_image" using length_encode_lh [OF ex_header_ok] by (simp add: complete_def ex_image_def)
  have "\<exists>out b'. MarshalBinary (\<lambda>_. Ok (replicate 32 9)) ex_bz = Ok (out, b')"
    by (simp add: MarshalBinary_def compress_kernel_def initRAMFStag_def Let_def)
  then obtain out b' where m: "MarshalBinary (\<lambda>_. Ok (replicate 32 9)) ex_bz = Ok (out, b')" by blast
  from Marshal_keeps_layout [OF ex_unmarshal c m] ex_unmarshal m show ?thesis by blast
qed

section \<open>Behaviours outside the contracts\<close>

text \<open>
  The magics are tried in the order of the list, not by their place: a gzip magic inside the compressed
  data wins over the xz magic in front of it.
\<close>

lemma findDecompressor_order:
  "findDecompressor ([253, 55, 122, 88, 90, 0] @ replicate n 0 @ [31, 139, 8]) = Ok (6 + n, 0)"
proof -
  have "IndexBytes (replicate n 0 @ [31, 139, 8]) [31, 139, 8] = Some n"
    by (induction n) auto
  then show ?thesis by (simp add: findDecompressor_def magics_def)
qed

text \<open>An image whose header says no setup sectors, or whose payload has fewer than 32 bytes, panics.\<close>

lemma setup_sects_zero_panics:
  assumes "lh_ok h" "lhHeaderMagic h = HeaderMagic" "lhSetupSects h = 0"
  shows "UnmarshalBinary cmd nd (encode_lh h @ rest) = Panic"
proof -
  have "ReadFull (encode_lh h @ rest) lh_size = Ok (encode_lh h, rest)"
    using length_encode_lh [OF assms(1)] by (simp add: ReadFull_def lh_size_def)
  moreover have "lh_of (unpack (widths lh_layout) (encode_lh h)) = h" using decode_encode_lh [OF assms(1), of "[]"] by simp
  ultimately show ?thesis
    using assms length_encode_lh [OF assms(1)] by (simp add: UnmarshalBinary_def Let_def)
qed

lemma nullterm_drops_last: "0 \<notin> set (bs @ [b]) \<Longrightarrow> nullterm (bs @ [b]) = bytes_str bs"
  by (simp add: nullterm_def IndexByte_None [THEN iffD2])

text \<open>when the first archive in the kernel has none of the wanted names, the search for the initramfs
  never returns.\<close>

theorem initramfs_loop_diverges:
  assumes "IndexBytes dat (str_bytes newcMagic) = Some x" "x + 6 < length dat"
    and "scan_cpio (drop x dat) = Some (r, False, n)" "r \<noteq> Panic" and "cur < length dat"
  shows "initramfs_loop dat off cur = None"
proof -
  have "d = dat \<longrightarrow> c \<ge> length dat" if "initramfs_loop d o1 c = Some y" for d o1 c y
    using that
    by (rule initramfs_loop.raw_induct [of "\<lambda>d o1 c y. d = dat \<longrightarrow> c \<ge> length dat", rotated])
      (use assms in \<open>fastforce simp: Let_def split: if_splits res.splits\<close>)
  from this [of dat off cur] show ?thesis using assms(5) by (cases "initramfs_loop dat off cur") auto
qed

theorem initramfs_loop_diverges_witness:
  "initramfs_loop (str_bytes newcMagic @ [0]) 0 0 = None"
proof -
  let ?d = "str_bytes newcMagic @ [0]"
  have l: "length ?d = 7" by (simp add: newcMagic_def)
  have "creader_read file_ReadAt (2 * hdr_size + magicLen) \<lparr>cr_src = ?d, cr_pos = 0\<rparr> = (Err CpioEOF, \<lparr>cr_src = ?d, cr_pos = 0\<rparr>)"
    using l by (simp add: creader_read_def file_ReadAt_def hdr_size_def magicLen_def Let_def)
  then have s: "scan_cpio (drop 0 ?d) = Some (Ok (), False, 0)"
    unfolding scan_cpio_def by (subst ForEachRecord.simps) (simp add: EOFReader_def sbind_def ReadRecord_def Let_def)
  have "IndexBytes ?d (str_bytes newcMagic) = Some 0" by (simp add: newcMagic_def)
  from initramfs_loop_diverges [OF this _ s] l show ?thesis by simp
qed

section \<open>Both ways to the version string agree\<close>

lemma IndexByte_take: "IndexByte xs c = Some i \<Longrightarrow> i < n \<Longrightarrow> IndexByte (take n xs @ ys) c = Some i"
  by (induction xs arbitrary: i n) (auto split: if_splits simp: take_Cons' less_Suc_eq_0_disj)

lemma nullterm_prefix:
  "IndexByte xs 0 = Some i \<Longrightarrow> i < n \<Longrightarrow> nullterm (take n xs @ ys) = bytes_str (take i xs)"
  using IndexByte_Some [of xs 0 i] by (auto simp: nullterm_def IndexByte_take min_def)

lemma header_bytes:
  assumes "UnmarshalBinary cmd nd d = Ok b"
  shows "take 2 (drop 510 d) = le_nat 2 (unat (lhBootsectormagic (bzHeader b)))"
    "take 4 (drop 514 d) = HeaderMagic" "take 2 (drop 526 d) = le_nat 2 (unat (lhKveraddr (bzHeader b)))"
proof -
  let ?h = "bzHeader b"
  note u = UnmarshalBinary_Ok [OF assms]
  have e: "encode_lh ?h = take 616 d" using u unfolding lh_size_def by blast
  have ok: "lh_ok ?h" using u by blast
  have n: "take w (drop o1 d) = take w (drop o1 (encode_lh ?h))" if "o1 + w \<le> 616" for o1 w
  proof -
    have "min w (616 - o1) = w" using that by simp
    then show ?thesis unfolding e(1) by (simp only: drop_take take_take)
  qed
  note p = pack_nth [OF lh_fits [OF ok], folded encode_lh_def]
  have "take 2 (drop 510 (encode_lh ?h)) = le_nat 2 (unat (lhBootsectormagic ?h))"
    using p [of 11] by (simp add: lh_layout_def widths_def lh_vals_def)
  then show "take 2 (drop 510 d) = le_nat 2 (unat (lhBootsectormagic ?h))" using n [of 510 2] by simp
  have "take 4 (drop 514 (encode_lh ?h)) = le_nat 4 (un_le (lhHeaderMagic ?h))"
    using p [of 13] by (simp add: lh_layout_def widths_def lh_vals_def)
  moreover have "le_nat 4 (un_le (lhHeaderMagic ?h)) = HeaderMagic"
    using u ok unfolding lh_ok_def by (metis le_nat_un_le)
  ultimately show "take 4 (drop 514 d) = HeaderMagic" using n [of 514 4] by simp
  have "take 2 (drop 526 (encode_lh ?h)) = le_nat 2 (unat (lhKveraddr ?h))"
    using p [of 17] by (simp add: lh_layout_def widths_def lh_vals_def)
  then show "take 2 (drop 526 d) = le_nat 2 (unat (lhKveraddr ?h))" using n [of 526 2] by simp
qed

lemma le_nat_2: "le_nat 2 0xaa55 = [0x55, 0xaa]" "le_nat 2 k = [0, 0] \<Longrightarrow> k < 65536 \<Longrightarrow> k = 0"
proof -
  show "le_nat 2 0xaa55 = [0x55, 0xaa]" unfolding numeral_2_eq_2 le_nat_Suc by simp
  assume "le_nat 2 k = [0, 0]" "k < 65536"
  then show "k = 0" using un_le_le_nat [of k 2] by (simp add: un_le_def un_be_def)
qed

lemma KVer_file:
  assumes "UnmarshalBinary cmd nd d = Ok b" "lhBootsectormagic (bzHeader b) = 0xaa55" "lhKveraddr (bzHeader b) \<noteq> 0"
    and "IndexByte (drop (unat (lhKveraddr (bzHeader b)) + 512) d) 0 = Some i" "i < 1024"
  shows "KVer d = Ok (bytes_str (take i (drop (unat (lhKveraddr (bzHeader b)) + 512) d)))"
proof -
  let ?s = "unat (lhKveraddr (bzHeader b)) + 512"
  have n: "616 \<le> length d" using UnmarshalBinary_Ok [OF assms(1)] unfolding lh_size_def by blast
  have r: "stream_Read d 530 = (take 530 d, None, drop 530 d)" using n by (auto simp: stream_Read_def)
  let ?b = "take 530 d @ replicate (kverMax - length (take 530 d)) 0"
  have c: "take w (drop o1 ?b) = take w (drop o1 d)" if "o1 + w \<le> 530" for o1 w
    using that n by (simp add: drop_take min_def)
  note h = header_bytes [OF assms(1)]
  have m: "take 2 (drop 510 ?b) = [0x55, 0xaa]" "take 4 (drop 514 ?b) = HeaderMagic"
      "take 2 (drop 526 ?b) = le_nat 2 (unat (lhKveraddr (bzHeader b)))"
    using c [of 510 2] c [of 514 4] c [of 526 2] h assms(2) le_nat_2(1) by simp_all
  have z: "take 4 (drop 526 ?b) \<noteq> [0, 0, 0, 0]"
  proof
    assume "take 4 (drop 526 ?b) = [0, 0, 0, 0]"
    then have "take 2 (take 4 (drop 526 ?b)) = [0, 0]" by simp
    moreover have "take 2 (take 4 xs) = take 2 xs" for xs :: "byte list" by simp
    ultimately have "le_nat 2 (unat (lhKveraddr (bzHeader b))) = [0, 0]" using m(3) by metis
    then have "unat (lhKveraddr (bzHeader b)) = 0" by (rule le_nat_2(2)) simp
    then show False using assms(3) by (simp add: unat_eq_0)
  qed
  have k: "un_le (take 2 (drop 526 ?b)) + 0x200 = ?s" unfolding m(3) by (simp add: un_le_le_nat)
  have ne: "drop ?s d \<noteq> []" using assms(4) by (metis IndexByte.simps(1) option.distinct(1))
  have r2: "stream_Read (drop ?s d) kverMax = (take kverMax (drop ?s d), None, drop kverMax (drop ?s d))"
    using ne by (simp add: stream_Read_def)
  show ?thesis
    unfolding KVer_def r prod.case option.case Let_def k r2
    using m(1,2) z nullterm_prefix [OF assms(4), of kverMax] assms(5) by (simp add: kverMax_def)
qed

lemma unat_u16_u64: "unat (ucast (x :: u16) :: u64) = unat x"
  by transfer (simp add: min_def)

text \<open>for an image whose version string lies behind the header and ends inside the boot code, reading the
  string from the file and from the unmarshalled image give the same.\<close>

theorem KVer_agree:
  assumes "UnmarshalBinary cmd nd d = Ok b" "KernelOffset b \<le> length d" "lhBootsectormagic (bzHeader b) = 0xaa55"
    and "lhKveraddr (bzHeader b) \<noteq> 0" "lh_size \<le> unat (lhKveraddr (bzHeader b)) + 512" "unat (lhKveraddr (bzHeader b)) + 512 < 2 ^ 16"
    and "IndexByte (drop (unat (lhKveraddr (bzHeader b)) + 512) d) 0 = Some i" "i < kverMax"
      "unat (lhKveraddr (bzHeader b)) + 512 + i < KernelOffset b"
  shows "BzImage_KVer b = KVer d"
proof -
  let ?kv = "lhKveraddr (bzHeader b)" and ?K = "KernelOffset b"
  let ?s = "unat ?kv + 512" and ?L = "length (BootCode b)"
  note u = UnmarshalBinary_Ok [OF assms(1)]
  have L: "?L = ?K - 616" "616 \<le> ?K" using u unfolding lh_size_def by blast+
  obtain n where "?K = (n + 1) * 512" "n < 256" using u unat_byte_lt by blast
  then have K: "?K < 1048576" by simp
  have s: "616 \<le> ?s" "?s < ?K" using assms(5,9) by (simp_all add: lh_size_def)
  have us: "unat (ucast (?kv + 0x200) :: u64) = ?s"
    using assms(6) by (simp add: unat_u16_u64 unat_word_ariths)
  have w: "unat (word_of_nat n :: u64) = n" if "n < 2 ^ 64" for n
    using that by (simp add: unat_of_nat take_bit_eq_mod)
  define bl hl start where d1: "bl = (word_of_nat ?L :: u64)" "hl = (word_of_nat ?K - bl :: u64)" "start = (ucast (?kv + 0x200) :: u64)"
  have bl: "unat bl = ?L" using w [of ?L] L K d1 by simp
  have hl: "unat hl = 616"
  proof -
    have "bl \<le> word_of_nat ?K" using bl w [of ?K] K L by (simp add: word_le_nat_alt)
    then show ?thesis using bl w [of ?K] K L d1 by (simp add: unat_sub)
  qed
  have bc: "unat (start - hl) = ?s - 616" using s us hl d1(3) by (subst unat_sub) (simp_all add: word_le_nat_alt)
  have lt: "\<not> start - hl \<ge> bl" using bc bl L s by (simp add: word_le_nat_alt)
  let ?e0 = "start - hl + word_of_nat kverMax"
  have e0: "unat ?e0 = ?s - 616 + 1024" using bc s K by (simp add: unat_word_ariths kverMax_def)
  let ?e1 = "if ?e0 > bl then bl else ?e0"
  have e1: "unat ?e1 = min (?s - 616 + 1024) ?L" using e0 bl by (auto simp: word_less_nat_alt min_def)
  have ge: "\<not> ?e1 < start - hl" using e1 bc L s by (simp add: word_less_nat_alt)
  let ?n = "min 1024 (?K - ?s)"
  have "BootCode b = take ?L (drop 616 d)" using u assms(2) unfolding lh_size_def by blast
  then have bcode: "BootCode b = take (?K - 616) (drop 616 d)" unfolding L(1) .
  have "take (unat ?e1 - unat (start - hl)) (drop (unat (start - hl)) (BootCode b)) = take ?n (drop ?s d)"
  proof -
    have "unat ?e1 - unat (start - hl) = ?n" using e1 bc L s by simp
    moreover have "drop (?s - 616) (take (?K - 616) (drop 616 d)) = take (?K - ?s) (drop ?s d)"
      using s by (simp add: drop_take add.commute)
    ultimately show ?thesis unfolding bcode bc by simp
  qed
  moreover have "nullterm (take ?n (drop ?s d)) = bytes_str (take i (drop ?s d))"
    using nullterm_prefix [OF assms(7), of ?n "[]"] assms(8,9) by (simp add: kverMax_def)
  ultimately have "BzImage_KVer b = Ok (bytes_str (take i (drop ?s d)))"
    unfolding BzImage_KVer_def Let_def d1 [symmetric] using assms(4) lt ge by simp
  moreover have "KVer d = Ok (bytes_str (take i (drop ?s d)))"
    using KVer_file [OF assms(1,3,4,7)] assms(8) by (simp add: kverMax_def)
  ultimately show ?thesis by simp
qed

theorem KVer_agree_witness: "BzImage_KVer ex_bz = KVer ex_image"
proof (rule KVer_agree [OF ex_unmarshal, of 0])
  have "drop (unat (lhKveraddr ex_header) + 512) ex_image = drop 8 (replicate 408 0 @ ex_kernel)"
    using length_encode_lh [OF ex_header_ok] by (simp add: ex_fields ex_image_def)
  also have "\<dots> = 0 # replicate 399 0 @ ex_kernel"
    by (simp add: replicate_Suc [symmetric] flip: append_Cons)
  finally show "IndexByte (drop (unat (lhKveraddr (bzHeader ex_bz)) + 512) ex_image) 0 = Some 0" by simp
qed (use length_encode_lh [OF ex_header_ok] in \<open>simp_all add: ex_fields ex_image_def lh_size_def kverMax_def\<close>)

end
