(* ===== verification/Strconv.thy ===== *)
theory Strconv imports GoStrings begin

text \<open>
  \<open>strconv\<close>: parsing and printing integers as the parsers of this program use them.
\<close>

datatype num_error = ErrSyntax | ErrRange

definition lower_char :: "char \<Rightarrow> nat" where
  "lower_char c = (let n = of_char c :: nat in if 65 \<le> n \<and> n \<le> 90 then n + 32 else n)"

definition digit_val :: "char \<Rightarrow> nat option" where
  "digit_val c =
     (let n = of_char c :: nat; l = lower_char c in
      if 48 \<le> n \<and> n \<le> 57 then Some (n - 48)
      else if 97 \<le> l \<and> l \<le> 122 then Some (l - 87)
      else None)"

text \<open>The loop over the digits; with \<open>base0\<close> underscores are skipped here and checked afterwards.\<close>

fun parse_digits :: "bool \<Rightarrow> nat \<Rightarrow> nat \<Rightarrow> string \<Rightarrow> (num_error, nat) res" where
  "parse_digits base0 base n [] = Ok n"
| "parse_digits base0 base n (c # s) =
     (if c = CHR ''_'' \<and> base0 then parse_digits base0 base n s
      else case digit_val c of
        None \<Rightarrow> Err ErrSyntax
      | Some d \<Rightarrow>
          if d \<ge> base then Err ErrSyntax
          else if n * base + d \<ge> 2 ^ 64 then Err ErrRange
          else parse_digits base0 base (n * base + d) s)"

text \<open>\<open>i\<close> is the kind of the last character: a digit or prefix, an underscore, or another.\<close>

datatype us_state = UStart | UDigit | UUnderscore | UOther

fun underscore_loop :: "bool \<Rightarrow> us_state \<Rightarrow> string \<Rightarrow> bool" where
  "underscore_loop hex i [] \<longleftrightarrow> i \<noteq> UUnderscore"
| "underscore_loop hex i (c # s) \<longleftrightarrow>
     (let n = of_char c :: nat in
      if (48 \<le> n \<and> n \<le> 57) \<or> (hex \<and> 97 \<le> lower_char c \<and> lower_char c \<le> 102) then underscore_loop hex UDigit s
      else if c = CHR ''_'' then i = UDigit \<and> underscore_loop hex UUnderscore s
      else i \<noteq> UUnderscore \<and> underscore_loop hex UOther s)"

definition prefixed :: "string \<Rightarrow> bool" where
  "prefixed s \<longleftrightarrow> length s \<ge> 2 \<and> s ! 0 = CHR ''0'' \<and> lower_char (s ! 1) \<in> {98, 111, 120}"

definition underscoreOK :: "string \<Rightarrow> bool" where
  "underscoreOK s0 =
     (let s = (case s0 of c # r \<Rightarrow> if c = CHR ''-'' \<or> c = CHR ''+'' then r else s0 | [] \<Rightarrow> []) in
      if prefixed s then underscore_loop (lower_char (s ! 1) = 120) UDigit (drop 2 s)
      else underscore_loop False UStart s)"

text \<open>\<open>ParseUint(s, base, 64)\<close> for base 0 and for bases from 2 to 36.\<close>

definition ParseUint :: "string \<Rightarrow> nat \<Rightarrow> (num_error, nat) res" where
  "ParseUint s base =
     (if s = [] then Err ErrSyntax
      else if base \<noteq> 0 then parse_digits False base 0 s
      else
        let (b, r) =
          (if s ! 0 = CHR ''0'' then
             if length s \<ge> 3 \<and> lower_char (s ! 1) = 98 then (2, drop 2 s)
             else if length s \<ge> 3 \<and> lower_char (s ! 1) = 111 then (8, drop 2 s)
             else if length s \<ge> 3 \<and> lower_char (s ! 1) = 120 then (16, drop 2 s)
             else (8, drop 1 s)
           else (10, s))
        in rbind (parse_digits True b 0 r) (\<lambda>n.
             if CHR ''_'' \<in> set r \<and> \<not> underscoreOK s then Err ErrSyntax else Ok n))"

text \<open>\<open>ParseInt(s, base, 64)\<close>.\<close>

definition ParseInt :: "string \<Rightarrow> nat \<Rightarrow> (num_error, int) res" where
  "ParseInt s base =
     (case s of
        [] \<Rightarrow> Err ErrSyntax
      | c # r \<Rightarrow>
          let neg = (c = CHR ''-''); t = (if c = CHR ''-'' \<or> c = CHR ''+'' then r else s) in
          rbind (ParseUint t base) (\<lambda>un.
            if \<not> neg \<and> un \<ge> 2 ^ 63 then Err ErrRange
            else if neg \<and> un > 2 ^ 63 then Err ErrRange
            else Ok (if neg then - int un else int un)))"

definition digit_char :: "nat \<Rightarrow> char" where
  "digit_char d = char_of (48 + d)"

fun FormatNat :: "nat \<Rightarrow> string" where
  "FormatNat n = (if n < 10 then [digit_char n] else FormatNat (n div 10) @ [digit_char (n mod 10)])"

declare FormatNat.simps [simp del]

definition FormatInt :: "int \<Rightarrow> string" where
  "FormatInt i = (if i < 0 then CHR ''-'' # FormatNat (nat (- i)) else FormatNat (nat i))"

section \<open>Printing and parsing\<close>

lemma digit_val_char: "d < 10 \<Longrightarrow> digit_val (digit_char d) = Some d"
  by (simp add: digit_val_def digit_char_def Let_def take_bit_nat_def)

lemma of_char_digit: "d < 10 \<Longrightarrow> (of_char (digit_char d) :: nat) = 48 + d"
  by (simp add: digit_char_def take_bit_nat_def)

lemma digit_char_neq: "d < 10 \<Longrightarrow> (of_char c :: nat) < 48 \<or> 57 < (of_char c :: nat) \<Longrightarrow> digit_char d \<noteq> c"
  using of_char_digit [of d] by auto

lemma digit_char_neqs:
  assumes "d < 10"
  shows "digit_char d \<noteq> CHR ''_''" "digit_char d \<noteq> CHR ''-''" "digit_char d \<noteq> CHR ''+''"
  by (rule digit_char_neq [OF assms], simp)+

lemma digit_char_0: "d < 10 \<Longrightarrow> d \<noteq> 0 \<Longrightarrow> digit_char d \<noteq> CHR ''0''"
  using of_char_digit [of d] by auto

lemma parse_digits_append:
  "parse_digits b0 base n (s @ t) = rbind (parse_digits b0 base n s) (\<lambda>m. parse_digits b0 base m t)"
  by (induction b0 base n s rule: parse_digits.induct) (auto split: option.splits)

lemma parse_digits_digit:
  "d < 10 \<Longrightarrow> n * 10 + d < 2 ^ 64 \<Longrightarrow> parse_digits b0 10 n [digit_char d] = Ok (n * 10 + d)"
  by (simp add: digit_val_char digit_char_neqs)

lemma parse_FormatNat: "n < 2 ^ 64 \<Longrightarrow> parse_digits b0 10 0 (FormatNat n) = Ok n"
proof (induction n rule: FormatNat.induct)
  case (1 n)
  show ?case
  proof (cases "n < 10")
    case True
    then show ?thesis using parse_digits_digit [of n 0 b0] by (subst FormatNat.simps) simp
  next
    case False
    have d: "n div 10 * 10 + n mod 10 = n" by simp
    have "parse_digits b0 10 0 (FormatNat (n div 10)) = Ok (n div 10)" using 1 False by simp
    then have "parse_digits b0 10 0 (FormatNat (n div 10) @ [digit_char (n mod 10)]) = parse_digits b0 10 (n div 10) [digit_char (n mod 10)]"
      by (simp add: parse_digits_append del: parse_digits.simps)
    also have "\<dots> = Ok n" using parse_digits_digit [of "n mod 10" "n div 10" b0] 1(2) by (simp only: d)
    finally show ?thesis using False by (subst FormatNat.simps) simp
  qed
qed

lemma FormatNat_digits: "c \<in> set (FormatNat n) \<Longrightarrow> \<exists>d < 10. c = digit_char d"
  by (induction n rule: FormatNat.induct) (subst (asm) (2) FormatNat.simps, force split: if_splits)

lemma FormatNat_ne [simp]: "FormatNat n \<noteq> []"
  by (subst FormatNat.simps) simp

lemma FormatNat_hd: "0 < n \<Longrightarrow> hd (FormatNat n) \<noteq> CHR ''0''"
proof (induction n rule: FormatNat.induct)
  case (1 n)
  then show ?case by (subst FormatNat.simps) (auto simp: digit_char_0 hd_append)
qed

lemma FormatNat_plain: "CHR ''_'' \<notin> set (FormatNat n)" "hd (FormatNat n) \<noteq> CHR ''-''" "hd (FormatNat n) \<noteq> CHR ''+''"
  using FormatNat_digits [of _ n] digit_char_neqs hd_in_set [OF FormatNat_ne [of n]] by metis+

lemma ParseUint_FormatNat:
  assumes "n < 2 ^ 64"
  shows "ParseUint (FormatNat n) 0 = Ok n" "ParseUint (FormatNat n) 10 = Ok n"
proof -
  have h: "FormatNat n ! 0 = hd (FormatNat n)" by (simp add: hd_conv_nth)
  show "ParseUint (FormatNat n) 0 = Ok n"
  proof (cases "n = 0")
    case True
    have "FormatNat 0 = ''0''" by (subst FormatNat.simps) (simp add: digit_char_def char_of_def bit_0)
    with True show ?thesis by (simp add: ParseUint_def)
  next
    case False
    then show ?thesis using FormatNat_hd [of n] parse_FormatNat [OF assms, of True] FormatNat_plain(1) [of n]
      by (simp add: ParseUint_def h)
  qed
  show "ParseUint (FormatNat n) 10 = Ok n" using parse_FormatNat [OF assms, of False] by (simp add: ParseUint_def)
qed

lemma ParseInt_FormatInt:
  assumes "- (2 ^ 63) \<le> i" "i < 2 ^ 63"
  shows "ParseInt (FormatInt i) 0 = Ok i"
proof (cases "i < 0")
  case True
  then have "nat (- i) < 2 ^ 64" "nat (- i) \<le> 2 ^ 63" using assms by simp_all
  with True ParseUint_FormatNat(1) [of "nat (- i)"] show ?thesis by (simp add: FormatInt_def ParseInt_def Let_def)
next
  case False
  then have n: "nat i < 2 ^ 64" "nat i < 2 ^ 63" using assms by simp_all
  obtain c r where c: "FormatNat (nat i) = c # r" by (cases "FormatNat (nat i)") auto
  have "c \<noteq> CHR ''-''" "c \<noteq> CHR ''+''" using FormatNat_plain(2,3) [of "nat i"] c by auto
  with False n ParseUint_FormatNat(1) [OF n(1)] c show ?thesis by (simp add: FormatInt_def ParseInt_def Let_def)
qed

section \<open>Hexadecimal numbers\<close>

definition hex_char :: "nat \<Rightarrow> char" where
  "hex_char d = ''0123456789abcdef'' ! d"

fun FormatHex :: "nat \<Rightarrow> string" where
  "FormatHex n = (if n < 16 then [hex_char n] else FormatHex (n div 16) @ [hex_char (n mod 16)])"

declare FormatHex.simps [simp del]

lemma hex_char_cases: "d < 16 \<Longrightarrow> hex_char d \<in> set ''0123456789abcdef'' \<and> digit_val (hex_char d) = Some d"
proof -
  assume "d < 16"
  then have "d = 0 \<or> d = 1 \<or> d = 2 \<or> d = 3 \<or> d = 4 \<or> d = 5 \<or> d = 6 \<or> d = 7 \<or> d = 8 \<or> d = 9 \<or> d = 10 \<or> d = 11 \<or> d = 12 \<or> d = 13 \<or> d = 14 \<or> d = 15" by presburger
  then show ?thesis by (elim disjE; simp add: hex_char_def digit_val_def lower_char_def)
qed


lemma FormatHex_ne [simp]: "FormatHex n \<noteq> []"
  by (subst FormatHex.simps) simp

lemma parse_FormatHex: "n < 2 ^ 64 \<Longrightarrow> parse_digits b0 16 0 (FormatHex n) = Ok n"
proof (induction n rule: FormatHex.induct)
  case (1 n)
  have one: "parse_digits b0 16 m [hex_char d] = Ok (m * 16 + d)" if "d < 16" "m * 16 + d < 2 ^ 64" for m d
    using hex_char_cases [OF that(1)] that by auto
  show ?case
  proof (cases "n < 16")
    case True
    then show ?thesis using one [of n 0] by (subst FormatHex.simps) simp
  next
    case False
    have d: "n div 16 * 16 + n mod 16 = n" by simp
    have "parse_digits b0 16 0 (FormatHex (n div 16)) = Ok (n div 16)" using 1 False by simp
    then have "parse_digits b0 16 0 (FormatHex (n div 16) @ [hex_char (n mod 16)]) = parse_digits b0 16 (n div 16) [hex_char (n mod 16)]"
      by (simp add: parse_digits_append del: parse_digits.simps)
    also have "\<dots> = Ok n" using one [of "n mod 16" "n div 16"] 1(2) by (simp only: d)
    finally show ?thesis using False by (subst FormatHex.simps) simp
  qed
qed

lemma FormatHex_digits: "c \<in> set (FormatHex n) \<Longrightarrow> c \<in> set ''0123456789abcdef''"
proof (induction n rule: FormatHex.induct)
  case (1 n)
  then show ?case using hex_char_cases [of n] hex_char_cases [of "n mod 16"]
    by (subst (asm) (2) FormatHex.simps) (fastforce split: if_splits)
qed

section \<open>Numbers of fewer bits\<close>

text \<open>\<open>ParseUint(s, base, bits)\<close> for a base from 2 to 36: a number that is too large is noticed at its digit.\<close>

fun parse_digits_max :: "nat \<Rightarrow> nat \<Rightarrow> nat \<Rightarrow> string \<Rightarrow> (num_error, nat) res" where
  "parse_digits_max bits base n [] = Ok n"
| "parse_digits_max bits base n (c # s) =
     (case digit_val c of
        None \<Rightarrow> Err ErrSyntax
      | Some d \<Rightarrow>
          if d \<ge> base then Err ErrSyntax
          else if n * base + d \<ge> 2 ^ bits then Err ErrRange
          else parse_digits_max bits base (n * base + d) s)"

definition ParseUintN :: "string \<Rightarrow> nat \<Rightarrow> nat \<Rightarrow> (num_error, nat) res" where
  "ParseUintN s base bits = (if s = [] then Err ErrSyntax else parse_digits_max bits base 0 s)"

lemma parse_digits_max_append:
  "parse_digits_max bits base n (s @ t) = rbind (parse_digits_max bits base n s) (\<lambda>m. parse_digits_max bits base m t)"
  by (induction bits base n s rule: parse_digits_max.induct) (auto split: option.splits)

lemma parse_max_FormatHex: "n < 2 ^ bits \<Longrightarrow> parse_digits_max bits 16 0 (FormatHex n) = Ok n"
proof (induction n rule: FormatHex.induct)
  case (1 n)
  have one: "parse_digits_max bits 16 m [hex_char d] = Ok (m * 16 + d)" if "d < 16" "m * 16 + d < 2 ^ bits" for m d
    using hex_char_cases [OF that(1)] that by auto
  show ?case
  proof (cases "n < 16")
    case True
    then show ?thesis using one [of n 0] 1(2) by (subst FormatHex.simps) simp
  next
    case False
    have d: "n div 16 * 16 + n mod 16 = n" by simp
    have "n div 16 < 2 ^ bits" using 1(2) by (meson div_le_dividend le_less_trans)
    then have "parse_digits_max bits 16 0 (FormatHex (n div 16)) = Ok (n div 16)" using 1 False by simp
    then have "parse_digits_max bits 16 0 (FormatHex (n div 16) @ [hex_char (n mod 16)]) =
        parse_digits_max bits 16 (n div 16) [hex_char (n mod 16)]"
      by (simp add: parse_digits_max_append del: parse_digits_max.simps)
    also have "\<dots> = Ok n" using one [of "n mod 16" "n div 16"] 1(2) by (simp only: d)
    finally show ?thesis using False by (subst FormatHex.simps) simp
  qed
qed

text \<open>\<open>%04x\<close> and its kind: at least \<open>w\<close> digits.\<close>

definition FormatHexPad :: "nat \<Rightarrow> nat \<Rightarrow> string" where
  "FormatHexPad w n = replicate (w - length (FormatHex n)) (CHR ''0'') @ FormatHex n"

lemma length_FormatHex: "n < 16 ^ Suc k \<Longrightarrow> length (FormatHex n) \<le> Suc k"
proof (induction n arbitrary: k rule: FormatHex.induct)
  case (1 n)
  show ?case
  proof (cases "n < 16")
    case False
    with 1(2) obtain j where k: "k = Suc j" by (cases k) auto
    have "n div 16 < 16 ^ Suc j" using 1(2) by (simp add: k less_mult_imp_div_less mult.commute)
    from 1(1) [OF False this] False show ?thesis by (subst FormatHex.simps) (simp add: k)
  qed (subst FormatHex.simps, simp)
qed

lemma parse_zeros: "parse_digits_max bits 16 0 (replicate k (CHR ''0'') @ s) = parse_digits_max bits 16 0 s"
  by (induction k) (simp_all add: digit_val_def)

lemma ParseUintN_FormatHexPad: "n < 2 ^ bits \<Longrightarrow> ParseUintN (FormatHexPad w n) 16 bits = Ok n"
  by (simp add: ParseUintN_def FormatHexPad_def parse_zeros parse_max_FormatHex del: parse_digits_max.simps)

lemma length_FormatHexPad: "n < 16 ^ w \<Longrightarrow> 0 < w \<Longrightarrow> length (FormatHexPad w n) = w"
  using length_FormatHex [of n "w - 1"] by (simp add: FormatHexPad_def)

lemma FormatHexPad_digits: "c \<in> set (FormatHexPad w n) \<Longrightarrow> c \<in> set ''0123456789abcdef''"
  unfolding FormatHexPad_def set_append Un_iff using FormatHex_digits [of c n] by (elim disjE) (simp split: if_splits, blast)

end
