(* ===== verification/KInfo.thy ===== *)
theory KInfo imports BzKernel Strconv begin

text \<open>
  \<open>pkg/boot/bzimage/kver.go\<close>, \<open>ParseDesc\<close>: the parts of a kernel's version string. \<open>time.Parse\<close> is a
  parameter.
\<close>

record 't KInfo =
  Release :: string
  Version :: string
  Builder :: string
  BuildNum :: nat
  BuildTime :: 't
  Maj :: nat
  KMin :: nat
  Patch :: nat
  LocalVer :: string

definition KInfo_Equal :: "('t \<Rightarrow> 't \<Rightarrow> bool) \<Rightarrow> 't KInfo \<Rightarrow> 't KInfo \<Rightarrow> bool" where
  "KInfo_Equal same l r \<longleftrightarrow>
     Release l = Release r \<and> Builder l = Builder r \<and> Version l = Version r \<and> BuildNum l = BuildNum r \<and>
     same (BuildTime l) (BuildTime r) \<and> Maj l = Maj r \<and> KMin l = KMin r \<and> Patch l = Patch r \<and> LocalVer l = LocalVer r"

definition parse_num :: "string \<Rightarrow> (bz_error, nat) res" where
  "parse_num s = (case ParseUint s 10 of Ok n \<Rightarrow> Ok n | Err _ \<Rightarrow> Err (BadUint s) | Panic \<Rightarrow> Panic)"

definition ParseDesc :: "(string \<Rightarrow> (string, 't) res) \<Rightarrow> string \<Rightarrow> (bz_error, 't KInfo) res" where
  "ParseDesc parse_time desc =
     (case split_on CHR ''#'' desc of
        [front, back] \<Rightarrow>
          let elements = SplitN2 CHR '' '' front;
              release = elements ! 0;
              builder = (if length elements = 2 then TrimSet '' ()'' (elements ! 1) else []) in
          (case SplitN2 CHR '' '' back of
             [num, rest] \<Rightarrow>
               rbind (parse_num num) (\<lambda>buildNum.
               rbind (case parse_time (TrimSpace (TrimPrefix rest ''SMP'')) of
                        Ok t \<Rightarrow> Ok t | Err e \<Rightarrow> Err (BadTime e) | Panic \<Rightarrow> Panic) (\<lambda>time.
                 let dots = split_on CHR ''.'' release in
                 if length dots < 3 then Err ErrParse
                 else
                   rbind (parse_num (dots ! 0)) (\<lambda>maj.
                   rbind (parse_num (dots ! 1)) (\<lambda>min.
                   rbind (parse_num (SplitN2 CHR ''-'' (dots ! 2) ! 0)) (\<lambda>patch.
                     let l = SplitN2 CHR ''-'' (last dots) in
                     Ok \<lparr>Release = release, Version = CHR ''#'' # back, Builder = builder, BuildNum = buildNum,
                        BuildTime = time, Maj = maj, KMin = min, Patch = patch,
                        LocalVer = if length l > 1 then l ! 1 else []\<rparr>)))))
           | _ \<Rightarrow> Err ErrParse)
      | _ \<Rightarrow> Err ErrParse)"

section \<open>Descriptions the kernel prints\<close>

definition release_str :: "nat \<Rightarrow> nat \<Rightarrow> nat \<Rightarrow> string \<Rightarrow> string" where
  "release_str a b c l = FormatNat a @ ''.'' @ FormatNat b @ ''.'' @ FormatNat c @ (if l = [] then [] else ''-'' @ l)"

definition desc_str :: "string \<Rightarrow> string \<Rightarrow> nat \<Rightarrow> bool \<Rightarrow> string \<Rightarrow> string" where
  "desc_str release builder n smp time =
     release @ '' ('' @ builder @ '') #'' @ FormatNat n @ '' '' @ (if smp then ''SMP '' else []) @ time"

lemma digit_char_seps: "d < 10 \<Longrightarrow> digit_char d \<notin> set ''#. -()''"
  using digit_char_neq [of d] by auto

lemma FormatNat_seps: "c \<in> set ''#. -()'' \<Longrightarrow> c \<notin> set (FormatNat n)"
  using FormatNat_digits [of c n] digit_char_seps by metis

lemma release_dots:
  assumes "CHR ''.'' \<notin> set l"
  shows "split_on CHR ''.'' (release_str a b c l) = [FormatNat a, FormatNat b, FormatNat c @ (if l = [] then [] else ''-'' @ l)]"
  using assms FormatNat_seps [of "CHR ''.''"] split_on_append_sep [of "CHR ''.''"] by (simp add: release_str_def split_on_no_sep)

lemma TrimSet_brackets:
  assumes "\<And>c. c \<in> set b \<Longrightarrow> c \<notin> set '' ()''" "b \<noteq> []"
  shows "TrimSet '' ()'' (''('' @ b @ '') '') = b"
proof -
  obtain x xs y ys where b: "b = x # xs" "b = ys @ [y]" using assms(2) by (metis list.exhaust rev_exhaust)
  have n: "x \<notin> set '' ()''" "y \<notin> set '' ()''" using assms(1) b by (metis list.set_intros(1), metis in_set_conv_decomp)
  have "TrimLeft '' ()'' (''('' @ b @ '') '') = b @ '') ''" using n b(1) by (auto simp: TrimLeft_def)
  moreover have "TrimRight '' ()'' (b @ '') '') = b" unfolding b(2) using n by (auto simp: TrimRight_def)
  ultimately show ?thesis by (simp add: TrimSet_def)
qed

text \<open>a version string in the form the kernel prints gives back the release, its numbers and local version,
  the builder, the build number and the time.\<close>

theorem ParseDesc_format:
  assumes "a < 2 ^ 64" "b < 2 ^ 64" "c < 2 ^ 64" "n < 2 ^ 64"
    and "set l \<inter> set ''#. '' = {}" "set builder \<inter> set ''# ()'' = {}" "builder \<noteq> []"
    and "ascii t" "CHR ''#'' \<notin> set t" "t \<noteq> []" "\<not> IsSpace (of_char (hd t))" "\<not> IsSpace (of_char (last t))"
      "\<not> has_prefix t ''SMP''" "parse_time t = Ok time"
  shows "ParseDesc parse_time (desc_str (release_str a b c l) builder n smp t) =
    Ok \<lparr>Release = release_str a b c l, Version = ''#'' @ FormatNat n @ '' '' @ (if smp then ''SMP '' else []) @ t,
       Builder = builder, BuildNum = n, BuildTime = time, Maj = a, KMin = b, Patch = c, LocalVer = l\<rparr>"
proof -
  let ?r = "release_str a b c l" and ?v = "FormatNat n @ '' '' @ (if smp then ''SMP '' else []) @ t"
  let ?rest = "(if smp then ''SMP '' else []) @ t"
  have r: "CHR ''#'' \<notin> set ?r" "CHR '' '' \<notin> set ?r"
    using assms(5) FormatNat_seps by (auto simp: release_str_def)
  have "CHR ''#'' \<notin> set ?v" using assms(9) FormatNat_seps by auto
  then have s: "split_on CHR ''#'' (desc_str ?r builder n smp t) = [?r @ '' ('' @ builder @ '') '', ?v]"
    using r(1) assms(6) split_on_append_sep [of "CHR ''#''" "?r @ '' ('' @ builder @ '') ''" ?v]
    by (simp add: desc_str_def split_on_no_sep)
  have f: "SplitN2 CHR '' '' (?r @ '' ('' @ builder @ '') '') = [?r, ''('' @ builder @ '') '']"
    using SplitN2_append [OF r(2)] by simp
  have k: "SplitN2 CHR '' '' ?v = [FormatNat n, ?rest]"
    using SplitN2_append [OF FormatNat_seps] by simp
  have p: "TrimSet '' ()'' (''('' @ builder @ '') '') = builder"
    by (rule TrimSet_brackets) (use assms(6,7) in auto)
  have tt: "TrimSpace t = t" using TrimSpace_id [OF assms(8)] assms(11,12) by blast
  have sp: "TrimSpace (CHR '' '' # t) = t"
    using tt assms(8,11) by (simp add: TrimSpace_def trim_runes_def runes_ascii_Cons IsSpace_def)
  have u: "TrimSpace (TrimPrefix ?rest ''SMP'') = t"
    using tt sp assms(13) by (auto simp: TrimPrefix_def has_prefix_def)
  have num: "parse_num (FormatNat k) = Ok k" if "k < 2 ^ 64" for k
    using ParseUint_FormatNat(2) [OF that] by (simp add: parse_num_def)
  have c1: "SplitN2 CHR ''-'' (FormatNat c @ (if l = [] then [] else ''-'' @ l)) = (if l = [] then [FormatNat c] else [FormatNat c, l])"
    using FormatNat_seps [of "CHR ''-''" c] SplitN2_append [of "CHR ''-''" "FormatNat c" l] by (auto simp: SplitN2_none)
  have d: "split_on CHR ''.'' ?r = [FormatNat a, FormatNat b, FormatNat c @ (if l = [] then [] else ''-'' @ l)]"
    by (rule release_dots) (use assms(5) in auto)
  show ?thesis
    unfolding ParseDesc_def s list.case f k Let_def u using p c1 num assms(1-4,14) by (simp add: d)
qed

text \<open>
  The local version is looked for behind the last dot of the release: a dot in it loses what is before.
\<close>

lemma LocalVer_dot:
  "map_option (\<lambda>k. LocalVer k) (case ParseDesc (\<lambda>_. Ok ()) ''5.10.0-rc1.x #7 t'' of Ok k \<Rightarrow> Some k | _ \<Rightarrow> None) = Some []"
  by (simp add: ParseDesc_def Let_def SplitN2_def parse_num_def ParseUint_def digit_val_def)

theorem ParseDesc_format_witness:
  "ParseDesc (\<lambda>_. Ok ()) (desc_str (release_str 4 19 16 ''norm_boot'') ''user@host'' 300 True ''Fri'') =
    Ok \<lparr>Release = release_str 4 19 16 ''norm_boot'', Version = ''#'' @ FormatNat 300 @ '' SMP Fri'',
       Builder = ''user@host'', BuildNum = 300, BuildTime = (), Maj = 4, KMin = 19, Patch = 16, LocalVer = ''norm_boot''\<rparr>"
  using ParseDesc_format [of 4 19 16 300 "''norm_boot''" "''user@host''" "''Fri''" "\<lambda>_. Ok ()" "()" True]
  by (simp add: ascii_def IsSpace_def has_prefix_def)

end
