(* ===== verification/Forth.thy ===== *)
theory Forth imports Strconv begin

text \<open>
  \<open>pkg/forth/forth.go\<close>: the stack machine. A panic with an error of the package's own is recovered by \<open>Eval\<close>;
  a run-time panic is not. The map of operators is part of the state: the primitives of the package and the
  words that \<open>newword\<close> adds. Evaluation is a partial function, \<open>None\<close> when it never ends.
\<close>

section \<open>Cells, operators and state\<close>

datatype cell = CStr string | CInt int | CStrs "string list"

datatype forth_error =
    EmptyStack
  | OpAssigned string
  | NotAString cell
  | NotANumber num_error
  | NaN cell
  | StackTooSmall string nat int
  | LengthNotOne nat
  | NoHostname

datatype 'a outcome = Ret 'a | Raise forth_error | RuntimePanic

datatype prim =
    Plus | Sub | Times | Div | Mod | Swap | Ifelse | Hostname | Hostbase | Strcat | Roundup | Dup | Drop | Newword | Words

datatype op = Prim prim | Word "cell list"

text \<open>The top of the stack comes first.\<close>

record forth =
  fstack :: "cell list"
  opmap :: "string \<rightharpoonup> op"

type_synonym 'a act = "forth \<Rightarrow> 'a outcome \<times> forth"

definition init_ops :: "string \<rightharpoonup> op" where
  "init_ops = map_of
     [(''+'', Prim Plus), (''-'', Prim Sub), (''*'', Prim Times), (''/'', Prim Div), (''%'', Prim Mod), (''swap'', Prim Swap),
      (''ifelse'', Prim Ifelse), (''hostname'', Prim Hostname), (''hostbase'', Prim Hostbase), (''strcat'', Prim Strcat),
      (''roundup'', Prim Roundup), (''dup'', Prim Dup), (''drop'', Prim Drop), (''newword'', Prim Newword), (''words'', Prim Words)]"

definition New_forth :: "forth" where
  "New_forth = \<lparr>fstack = [], opmap = init_ops\<rparr>"

definition fbind :: "'a act \<Rightarrow> ('a \<Rightarrow> 'b act) \<Rightarrow> 'b act" where
  "fbind a k st = (case a st of (Ret x, st') \<Rightarrow> k x st' | (Raise e, st') \<Rightarrow> (Raise e, st') | (RuntimePanic, st') \<Rightarrow> (RuntimePanic, st'))"

definition fret :: "'a \<Rightarrow> 'a act" where "fret x st = (Ret x, st)"
definition fraise :: "forth_error \<Rightarrow> 'a act" where "fraise e st = (Raise e, st)"
definition frun :: "'a act" where "frun st = (RuntimePanic, st)"

definition Push :: "cell \<Rightarrow> unit act" where
  "Push c st = (Ret (), st\<lparr>fstack := c # fstack st\<rparr>)"

definition Pop :: "cell act" where
  "Pop st = (case fstack st of [] \<Rightarrow> (Raise EmptyStack, st) | c # cs \<Rightarrow> (Ret c, st\<lparr>fstack := cs\<rparr>))"

definition Length :: "forth \<Rightarrow> nat" where "Length st = length (fstack st)"
definition Empty_stack :: "forth \<Rightarrow> bool" where "Empty_stack st \<longleftrightarrow> Length st = 0"
definition Reset :: "forth \<Rightarrow> forth" where "Reset st = st\<lparr>fstack := []\<rparr>"
definition Stack :: "forth \<Rightarrow> cell list" where "Stack st = rev (fstack st)"

definition Getop :: "string \<Rightarrow> forth \<Rightarrow> op option" where "Getop n st = opmap st n"
definition Ops :: "forth \<Rightarrow> (string \<rightharpoonup> op)" where "Ops st = opmap st"

definition Putop :: "string \<Rightarrow> op \<Rightarrow> unit act" where
  "Putop n p st = (if opmap st n \<noteq> None then (Raise (OpAssigned n), st) else (Ret (), st\<lparr>opmap := (opmap st)(n \<mapsto> p)\<rparr>))"

section \<open>The primitives\<close>

text \<open>Arithmetic of \<open>int64\<close>: it wraps, and division truncates.\<close>

definition wrap64 :: "int \<Rightarrow> int" where
  "wrap64 z = sint (word_of_int z :: u64)"

definition go_quot :: "int \<Rightarrow> int \<Rightarrow> int" where
  "go_quot a b = sgn a * sgn b * (\<bar>a\<bar> div \<bar>b\<bar>)"

definition String_pop :: "string act" where
  "String_pop = fbind Pop (\<lambda>c. case c of CStr s \<Rightarrow> fret s | _ \<Rightarrow> fraise (NotAString c))"

definition toInt :: "int act" where
  "toInt = fbind Pop (\<lambda>c. case c of
       CStr s \<Rightarrow> (case ParseInt s 0 of Ok i \<Rightarrow> fret i | Err e \<Rightarrow> fraise (NotANumber e) | Panic \<Rightarrow> frun)
     | CInt i \<Rightarrow> fret i
     | CStrs _ \<Rightarrow> fraise (NaN c))"

definition push_int :: "int \<Rightarrow> unit act" where
  "push_int z = Push (CStr (FormatInt (wrap64 z)))"

definition plus_op :: "unit act" where
  "plus_op = fbind toInt (\<lambda>x. fbind toInt (\<lambda>y. push_int (x + y)))"

definition sub_op :: "unit act" where
  "sub_op = fbind toInt (\<lambda>x. fbind toInt (\<lambda>y. push_int (y - x)))"

definition times_op :: "unit act" where
  "times_op = fbind toInt (\<lambda>x. fbind toInt (\<lambda>y. push_int (x * y)))"

definition div_op :: "unit act" where
  "div_op = fbind toInt (\<lambda>x. fbind toInt (\<lambda>y. if x = 0 then frun else push_int (go_quot y x)))"

definition mod_op :: "unit act" where
  "mod_op = fbind toInt (\<lambda>x. fbind toInt (\<lambda>y. if x = 0 then frun else push_int (y - x * go_quot y x)))"

definition roundup_op :: "unit act" where
  "roundup_op = fbind toInt (\<lambda>rnd. fbind toInt (\<lambda>v.
     if rnd = 0 then frun else push_int (go_quot (wrap64 (v + rnd - 1)) rnd * rnd)))"

definition swap_op :: "unit act" where
  "swap_op = fbind Pop (\<lambda>x. fbind Pop (\<lambda>y. fbind (Push x) (\<lambda>_. Push y)))"

definition strcat_op :: "unit act" where
  "strcat_op = fbind String_pop (\<lambda>x. fbind String_pop (\<lambda>y. Push (CStr (y @ x))))"

definition dup_op :: "unit act" where
  "dup_op = fbind Pop (\<lambda>x. fbind (Push x) (\<lambda>_. Push x))"

definition drop_op :: "unit act" where
  "drop_op = fbind Pop (\<lambda>_. fret ())"

definition ifelse_op :: "unit act" where
  "ifelse_op = fbind toInt (\<lambda>x. fbind Pop (\<lambda>y. fbind Pop (\<lambda>z. if x \<noteq> 0 then Push y else Push z)))"

definition hostname_op :: "string option \<Rightarrow> unit act" where
  "hostname_op host = (case host of None \<Rightarrow> fraise NoHostname | Some h \<Rightarrow> Push (CStr h))"

definition hostbase_op :: "unit act" where
  "hostbase_op = fbind String_pop (\<lambda>host. Push (CStr (TrimLeft ''abcdefghijklmnopqrstuvwxyz -'' host)))"

text \<open>\<open>words\<close> pushes the names in the order of the iteration over the map.\<close>

definition words_op :: "((string \<rightharpoonup> op) \<Rightarrow> string list) \<Rightarrow> unit act" where
  "words_op names st = Push (CStrs (names (opmap st))) st"

fun pop_n :: "nat \<Rightarrow> cell list act" where
  "pop_n 0 = fret []"
| "pop_n (Suc n) = fbind Pop (\<lambda>c. fbind (pop_n n) (\<lambda>cs. fret (cs @ [c])))"

text \<open>A negative length makes the allocation of the word panic.\<close>

definition newword_op :: "unit act" where
  "newword_op = fbind String_pop (\<lambda>s. fbind toInt (\<lambda>n. \<lambda>st.
     if int (Length st) < n then (Raise (StackTooSmall s (Length st) n), st)
     else if n < 0 then (RuntimePanic, st)
     else fbind (pop_n (nat n)) (\<lambda>c. Putop s (Word c)) st))"

record forth_env =
  env_host :: "string option"
  env_names :: "(string \<rightharpoonup> op) \<Rightarrow> string list"

fun run_prim :: "forth_env \<Rightarrow> prim \<Rightarrow> unit act" where
  "run_prim env Plus = plus_op"
| "run_prim env Sub = sub_op"
| "run_prim env Times = times_op"
| "run_prim env Div = div_op"
| "run_prim env Mod = mod_op"
| "run_prim env Swap = swap_op"
| "run_prim env Ifelse = ifelse_op"
| "run_prim env Hostname = hostname_op (env_host env)"
| "run_prim env Hostbase = hostbase_op"
| "run_prim env Strcat = strcat_op"
| "run_prim env Roundup = roundup_op"
| "run_prim env Dup = dup_op"
| "run_prim env Drop = drop_op"
| "run_prim env Newword = newword_op"
| "run_prim env Words = words_op (env_names env)"

section \<open>Evaluation\<close>

definition strip_quote :: "string \<Rightarrow> string" where
  "strip_quote s = (case s of c # r \<Rightarrow> if c = CHR 0x27 then r else s | [] \<Rightarrow> [])"

text \<open>An empty string that is no operator makes \<open>s[0]\<close> panic.\<close>

partial_function (option) eval :: "forth_env \<Rightarrow> cell list \<Rightarrow> forth \<Rightarrow> (unit outcome \<times> forth) option" where
  "eval env cells st =
     (case cells of
        [] \<Rightarrow> Some (Ret (), st)
      | c # cs \<Rightarrow>
          Option.bind
            (case c of
               CStr s \<Rightarrow>
                 (case Getop s st of
                    Some (Prim p) \<Rightarrow> Some (run_prim env p st)
                  | Some (Word ws) \<Rightarrow> eval env ws st
                  | None \<Rightarrow> if s = [] then Some (RuntimePanic, st) else Some (Push (CStr (strip_quote s)) st))
             | _ \<Rightarrow> Some (Push c st))
            (\<lambda>(r, st'). case r of Ret _ \<Rightarrow> eval env cs st' | _ \<Rightarrow> Some (r, st')))"

text \<open>\<open>Eval\<close> turns panics of the package into errors.\<close>

definition Eval :: "forth_env \<Rightarrow> cell list \<Rightarrow> forth \<Rightarrow> ((forth_error, unit) res \<times> forth) option" where
  "Eval env cells st = map_option (\<lambda>(r, st'). (case r of Ret _ \<Rightarrow> Ok () | Raise e \<Rightarrow> Err e | RuntimePanic \<Rightarrow> Panic, st')) (eval env cells st)"

fun eval_fields :: "forth_env \<Rightarrow> string list \<Rightarrow> forth \<Rightarrow> ((forth_error, unit) res \<times> forth) option" where
  "eval_fields env [] st = Some (Ok (), st)"
| "eval_fields env (c # cs) st =
     Option.bind (Eval env [CStr c] st) (\<lambda>(r, st'). case r of Ok _ \<Rightarrow> eval_fields env cs st' | _ \<Rightarrow> Some (r, st'))"

definition EvalString :: "forth_env \<Rightarrow> string \<Rightarrow> forth \<Rightarrow> ((forth_error, unit) res \<times> forth) option" where
  "EvalString env s st = eval_fields env (Fields s) st"

definition EvalPop :: "forth_env \<Rightarrow> string \<Rightarrow> forth \<Rightarrow> ((forth_error, cell) res \<times> forth) option" where
  "EvalPop env s st =
     map_option (\<lambda>(r, st').
       case r of
         Err e \<Rightarrow> (Err e, st')
       | Panic \<Rightarrow> (Panic, st')
       | Ok _ \<Rightarrow>
           if Length st' \<noteq> 1 then (Err (LengthNotOne (Length st')), st')
           else (case Pop st' of (Ret c, st2) \<Rightarrow> (Ok c, st2) | (_, st2) \<Rightarrow> (Panic, st2)))
     (EvalString env s st)"

definition NewWord :: "string \<Rightarrow> cell \<Rightarrow> cell list \<Rightarrow> unit act" where
  "NewWord name c cs = Putop name (Word (c # cs))"


section \<open>Words that end\<close>

text \<open>
  A rank on the names shows that no word calls itself: a word only calls words of lower rank, and nothing it
  calls defines new words.
\<close>

definition no_newword :: "(string \<rightharpoonup> op) \<Rightarrow> cell list \<Rightarrow> bool" where
  "no_newword ops cells \<longleftrightarrow> (\<forall>s. CStr s \<in> set cells \<longrightarrow> ops s \<noteq> Some (Prim Newword))"

definition calls_below :: "(string \<Rightarrow> nat) \<Rightarrow> (string \<rightharpoonup> op) \<Rightarrow> nat \<Rightarrow> cell list \<Rightarrow> bool" where
  "calls_below rank ops k cells \<longleftrightarrow> (\<forall>s ws. CStr s \<in> set cells \<longrightarrow> ops s = Some (Word ws) \<longrightarrow> rank s < k)"

definition ranked :: "(string \<Rightarrow> nat) \<Rightarrow> (string \<rightharpoonup> op) \<Rightarrow> bool" where
  "ranked rank ops \<longleftrightarrow> (\<forall>w ws. ops w = Some (Word ws) \<longrightarrow> no_newword ops ws \<and> calls_below rank ops (rank w) ws)"

lemmas act_defs = fbind_def fret_def fraise_def frun_def Push_def Pop_def String_pop_def toInt_def push_int_def

lemma act_opmap:
  "fbind a k st = (r, st') \<Longrightarrow> (\<And>r1 st1. a st = (r1, st1) \<Longrightarrow> opmap st1 = opmap st) \<Longrightarrow>
     (\<And>x st1. a st = (Ret x, st1) \<Longrightarrow> k x st1 = (r, st') \<Longrightarrow> opmap st' = opmap st1) \<Longrightarrow> opmap st' = opmap st"
  by (auto simp: fbind_def split: prod.splits outcome.splits)

lemma pop_opmap: "Pop st = (r, st') \<Longrightarrow> opmap st' = opmap st"
  by (auto simp: Pop_def split: list.splits)

lemma push_opmap: "Push c st = (r, st') \<Longrightarrow> opmap st' = opmap st"
  by (auto simp: Push_def)

lemma toInt_opmap: "toInt st = (r, st') \<Longrightarrow> opmap st' = opmap st"
  by (auto simp: toInt_def fbind_def Pop_def fret_def fraise_def frun_def split: list.splits cell.splits res.splits)

lemma string_opmap: "String_pop st = (r, st') \<Longrightarrow> opmap st' = opmap st"
  by (auto simp: String_pop_def fbind_def Pop_def fret_def fraise_def split: list.splits cell.splits)

lemma run_prim_opmap: "run_prim env p st = (r, st') \<Longrightarrow> p \<noteq> Newword \<Longrightarrow> opmap st' = opmap st"
  by (cases p)
    (auto simp: plus_op_def sub_op_def times_op_def div_op_def mod_op_def swap_op_def ifelse_op_def hostname_op_def
      hostbase_op_def strcat_op_def roundup_op_def dup_op_def drop_op_def words_op_def push_int_def
      fbind_def [of toInt] fbind_def [of Pop] fbind_def [of "Push _"] fbind_def [of String_pop] fret_def frun_def fraise_def
      dest!: pop_opmap push_opmap toInt_opmap string_opmap split: prod.splits outcome.splits if_splits option.splits)

text \<open>evaluation ends, in a result, an error or a panic, whenever the words in use can be ranked so that each only
  calls words below it and none is defined on the way; the words are then unchanged.\<close>

theorem eval_ends:
  assumes "ranked rank (opmap st)" "no_newword (opmap st) cells"
  shows "\<exists>r st'. eval env cells st = Some (r, st') \<and> opmap st' = opmap st"
proof -
  have "\<exists>r st'. eval env cells st = Some (r, st') \<and> opmap st' = opmap st"
    if "ranked rank (opmap st)" "no_newword (opmap st) cells" "calls_below rank (opmap st) k cells" for k cells st
    using that
  proof (induction k arbitrary: cells st rule: less_induct)
    case (less k)
    note outer = less.IH
    show ?case using less.prems
    proof (induction cells arbitrary: st)
      case Nil
      then show ?case by (subst eval.simps) simp
    next
      case (Cons c cs)
      have "\<exists>r st1. (case c of CStr s \<Rightarrow>
                 (case Getop s st of
                    Some (Prim p) \<Rightarrow> Some (run_prim env p st)
                  | Some (Word ws) \<Rightarrow> eval env ws st
                  | None \<Rightarrow> if s = [] then Some (RuntimePanic, st) else Some (Push (CStr (strip_quote s)) st))
             | _ \<Rightarrow> Some (Push c st)) = Some (r, st1) \<and> opmap st1 = opmap st"
      proof (cases c)
        case (CStr s)
        show ?thesis
        proof (cases "opmap st s")
          case (Some p)
          show ?thesis
          proof (cases p)
            case (Prim q)
            obtain r st1 where q: "run_prim env q st = (r, st1)" by fastforce
            have "q \<noteq> Newword" using Cons.prems(2) CStr Some Prim by (auto simp: no_newword_def)
            then show ?thesis using q run_prim_opmap [OF q] CStr Some Prim by (simp add: Getop_def)
          next
            case (Word ws)
            have "rank s < k" using Cons.prems(3) CStr Some Word by (auto simp: calls_below_def)
            moreover have "no_newword (opmap st) ws" "calls_below rank (opmap st) (rank s) ws"
              using Cons.prems(1) Some Word by (auto simp: ranked_def)
            ultimately show ?thesis using outer [of "rank s" st ws] Cons.prems(1) CStr Some Word by (simp add: Getop_def)
          qed
        qed (simp add: CStr Getop_def Push_def)
      qed (simp_all add: Push_def)
      then obtain r st1 where s1: "\<And>g. eval env (c # cs) st = Option.bind (Some (r, st1)) g \<or> True" and
        s: "(case c of CStr s \<Rightarrow>
                 (case Getop s st of
                    Some (Prim p) \<Rightarrow> Some (run_prim env p st)
                  | Some (Word ws) \<Rightarrow> eval env ws st
                  | None \<Rightarrow> if s = [] then Some (RuntimePanic, st) else Some (Push (CStr (strip_quote s)) st))
             | _ \<Rightarrow> Some (Push c st)) = Some (r, st1)" "opmap st1 = opmap st" by blast
      have e: "eval env (c # cs) st = (case r of Ret _ \<Rightarrow> eval env cs st1 | _ \<Rightarrow> Some (r, st1))"
        using s(1) by (subst eval.simps) simp
      have "\<exists>r st'. eval env cs st1 = Some (r, st') \<and> opmap st' = opmap st1"
        by (rule Cons.IH) (use Cons.prems s(2) in \<open>auto simp: no_newword_def calls_below_def\<close>)
      then show ?case using e s(2) by (cases r) auto
    qed
  qed
  moreover have "\<exists>k. calls_below rank (opmap st) k cells"
  proof -
    let ?k = "Suc (Max (insert 0 (rank ` {s. CStr s \<in> set cells})))"
    have "finite {s. CStr s \<in> set cells}"
      by (rule finite_imageD [of CStr]) (auto intro: finite_subset [of _ "set cells"] simp: inj_on_def)
    then have "rank s < ?k" if "CStr s \<in> set cells" for s
      using that by (intro le_imp_less_Suc Max_ge) auto
    then show ?thesis unfolding calls_below_def by blast
  qed
  ultimately show ?thesis using assms by blast
qed

text \<open>A word that calls itself never ends.\<close>

lemma recursive_word_diverges:
  assumes "opmap st w = Some (Word (CStr w # ws))"
  shows "eval env (CStr w # cs) st = None"
proof -
  have "\<not> (\<exists>cs'. c = CStr w # cs' \<and> s = st)" if "eval env c s = Some y" for c s y
    using that
    by (rule eval.raw_induct [of "\<lambda>env c s y. \<not> (\<exists>cs'. c = CStr w # cs' \<and> s = st)", rotated])
      (use assms in \<open>fastforce simp: Getop_def bind_eq_Some_conv split: cell.splits option.splits\<close>)
  then show ?thesis by (metis option.exhaust)
qed

section \<open>Strings to evaluate\<close>

lemma eval_lit:
  "opmap st s = None \<Longrightarrow> s \<noteq> [] \<Longrightarrow> Eval env [CStr s] st = Some (Ok (), st\<lparr>fstack := CStr (strip_quote s) # fstack st\<rparr>)"
  unfolding Eval_def by (subst eval.simps, simp add: Getop_def Push_def) (subst eval.simps, simp)

lemma eval_prim:
  "opmap st s = Some (Prim p) \<Longrightarrow> Eval env [CStr s] st =
     Some (case run_prim env p st of (Ret _, st') \<Rightarrow> (Ok (), st') | (Raise e, st') \<Rightarrow> (Err e, st') | (RuntimePanic, st') \<Rightarrow> (Panic, st'))"
  unfolding Eval_def
  by (subst eval.simps, cases "run_prim env p st", cases "fst (run_prim env p st)"; simp add: Getop_def; subst eval.simps; simp)

lemma self_call_diverges: "EvalString env ''w 1 w newword w'' New_forth = None"
proof -
  have "Fields (JoinWith '' '' [''w'', ''1'', ''w'', ''newword'', ''w'']) = [''w'', ''1'', ''w'', ''newword'', ''w'']"
    by (rule Fields_join) (simp add: token_def ascii_def IsSpace_def)
  then have f: "Fields ''w 1 w newword w'' = [''w'', ''1'', ''w'', ''newword'', ''w'']" by simp
  have o1: "init_ops ''w'' = None" "init_ops ''1'' = None" "init_ops ''newword'' = Some (Prim Newword)"
    by (simp_all add: init_ops_def)
  have e1: "Eval env [CStr ''w''] \<lparr>fstack = fs, opmap = init_ops\<rparr> = Some (Ok (), \<lparr>fstack = CStr ''w'' # fs, opmap = init_ops\<rparr>)" for fs
    using eval_lit [of "\<lparr>fstack = fs, opmap = init_ops\<rparr>" "''w''"] o1 by (simp add: strip_quote_def)
  have e2: "Eval env [CStr ''1''] \<lparr>fstack = fs, opmap = init_ops\<rparr> = Some (Ok (), \<lparr>fstack = CStr ''1'' # fs, opmap = init_ops\<rparr>)" for fs
    using eval_lit [of "\<lparr>fstack = fs, opmap = init_ops\<rparr>" "''1''"] o1 by (simp add: strip_quote_def)
  have p: "ParseInt ''1'' 0 = Ok 1" by (simp add: ParseInt_def ParseUint_def digit_val_def)
  let ?ops = "init_ops(''w'' \<mapsto> Word [CStr ''w''])"
  have e3: "Eval env [CStr ''newword''] \<lparr>fstack = [CStr ''w'', CStr ''1'', CStr ''w''], opmap = init_ops\<rparr> =
      Some (Ok (), \<lparr>fstack = [], opmap = ?ops\<rparr>)"
    by (subst eval_prim [of _ _ Newword]) (simp_all add: o1 newword_op_def act_defs p Length_def Putop_def)
  have "eval env [CStr ''w''] \<lparr>fstack = [], opmap = ?ops\<rparr> = None"
    by (rule recursive_word_diverges [of _ _ "[]"]) simp
  then show ?thesis by (simp add: EvalString_def f New_forth_def e1 e2 e3 Eval_def [of _ _ "\<lparr>fstack = [], opmap = ?ops\<rparr>"])
qed

section \<open>Arithmetic in postfix form\<close>

datatype arith = Num int | Add arith arith | Subt arith arith | Mult arith arith | Divi arith arith | Modu arith arith

fun postfix :: "arith \<Rightarrow> string list" where
  "postfix (Num i) = [FormatInt i]"
| "postfix (Add a b) = postfix a @ postfix b @ [''+'']"
| "postfix (Subt a b) = postfix a @ postfix b @ [''-'']"
| "postfix (Mult a b) = postfix a @ postfix b @ [''*'']"
| "postfix (Divi a b) = postfix a @ postfix b @ [''/'']"
| "postfix (Modu a b) = postfix a @ postfix b @ [''%'']"

fun in_range :: "arith \<Rightarrow> bool" where
  "in_range (Num i) \<longleftrightarrow> - (2 ^ 63) \<le> i \<and> i < 2 ^ 63"
| "in_range (Add a b) \<longleftrightarrow> in_range a \<and> in_range b"
| "in_range (Subt a b) \<longleftrightarrow> in_range a \<and> in_range b"
| "in_range (Mult a b) \<longleftrightarrow> in_range a \<and> in_range b"
| "in_range (Divi a b) \<longleftrightarrow> in_range a \<and> in_range b"
| "in_range (Modu a b) \<longleftrightarrow> in_range a \<and> in_range b"

text \<open>The value as \<open>int64\<close>, \<open>None\<close> for a division by zero.\<close>

definition arith2 :: "(int \<Rightarrow> int \<Rightarrow> int option) \<Rightarrow> int option \<Rightarrow> int option \<Rightarrow> int option" where
  "arith2 f x y = Option.bind x (\<lambda>a. Option.bind y (\<lambda>b. map_option wrap64 (f a b)))"

fun aval :: "arith \<Rightarrow> int option" where
  "aval (Num i) = Some i"
| "aval (Add a b) = arith2 (\<lambda>x y. Some (x + y)) (aval a) (aval b)"
| "aval (Subt a b) = arith2 (\<lambda>x y. Some (x - y)) (aval a) (aval b)"
| "aval (Mult a b) = arith2 (\<lambda>x y. Some (x * y)) (aval a) (aval b)"
| "aval (Divi a b) = arith2 (\<lambda>x y. if y = 0 then None else Some (go_quot x y)) (aval a) (aval b)"
| "aval (Modu a b) = arith2 (\<lambda>x y. if y = 0 then None else Some (x - y * go_quot x y)) (aval a) (aval b)"

lemma wrap64_range: "- (2 ^ 63) \<le> wrap64 z \<and> wrap64 z < 2 ^ 63"
  using sint_range_size [of "word_of_int z :: u64"] by (simp add: wrap64_def word_size)

lemma aval_range: "in_range e \<Longrightarrow> aval e = Some v \<Longrightarrow> - (2 ^ 63) \<le> v \<and> v < 2 ^ 63"
  using wrap64_range by (cases e) (auto simp: arith2_def bind_eq_Some_conv simp del: One_nat_def)

lemma FormatInt_token: "token (FormatInt i)"
proof -
  have d: "(of_char c :: nat) < 128 \<and> \<not> IsSpace (of_char c)" if "c \<in> set (FormatNat n)" for c n
    using FormatNat_digits [OF that] by (auto simp: of_char_digit IsSpace_def)
  then show ?thesis by (auto simp: FormatInt_def token_def ascii_def IsSpace_def)
qed

lemma FormatInt_start: "\<exists>c r d. FormatInt i = c # r \<and> d < 10 \<and> (c = digit_char d \<or> (c = CHR ''-'' \<and> (\<exists>r'. r = digit_char d # r')))"
proof -
  have "\<exists>d r. FormatNat n = digit_char d # r \<and> d < 10" for n
    using FormatNat_digits [of "hd (FormatNat n)" n] FormatNat_ne [of n] by (cases "FormatNat n") auto
  then show ?thesis by (fastforce simp: FormatInt_def)
qed

lemma FormatInt_no_op: "init_ops (FormatInt i) = None" "strip_quote (FormatInt i) = FormatInt i"
proof -
  obtain c r d where f: "FormatInt i = c # r" "d < 10" "c = digit_char d \<or> (c = CHR ''-'' \<and> (\<exists>r'. r = digit_char d # r'))"
    using FormatInt_start [of i] by blast
  have n: "digit_char d \<noteq> x" if "(of_char x :: nat) < 48 \<or> 57 < (of_char x :: nat)" for x
    by (rule digit_char_neq [OF f(2) that])
  show "strip_quote (FormatInt i) = FormatInt i" using f(3) n [of "CHR 0x27"] by (auto simp: f(1) strip_quote_def)
  have m: "init_ops (x # s) = None" if "x \<notin> set ''+-*/%sihrdnw''" for x s
    using that by (simp add: init_ops_def)
  have "digit_char d \<notin> set ''+-*/%sihrdnw''"
  proof
    assume "digit_char d \<in> set ''+-*/%sihrdnw''"
    then obtain x where "x \<in> set ''+-*/%sihrdnw''" "digit_char d = x" by blast
    moreover have "(of_char x :: nat) < 48 \<or> 57 < (of_char x :: nat)" if "x \<in> set ''+-*/%sihrdnw''" for x
      using that by auto
    ultimately show False using n by blast
  qed
  from m [OF this] have "c = digit_char d \<Longrightarrow> init_ops (c # r) = None" by (simp only:)
  moreover have "init_ops (CHR ''-'' # y # s) = None" for y s by (simp add: init_ops_def)
  ultimately show "init_ops (FormatInt i) = None" using f by auto
qed

text \<open>What evaluating the tokens of an expression does to the stack; a division by zero panics.\<close>

definition pushed :: "forth \<Rightarrow> int \<Rightarrow> forth" where
  "pushed st v = st\<lparr>fstack := CStr (FormatInt v) # fstack st\<rparr>"

lemma toInt_pushed: "- (2 ^ 63) \<le> v \<Longrightarrow> v < 2 ^ 63 \<Longrightarrow> toInt (pushed st v) = (Ret v, st)"
  using ParseInt_FormatInt [of v] by (simp add: toInt_def fbind_def Pop_def fret_def pushed_def)

lemma eval_fields_append:
  "eval_fields env (xs @ ys) st =
     Option.bind (eval_fields env xs st) (\<lambda>(r, st'). case r of Ok _ \<Rightarrow> eval_fields env ys st' | _ \<Rightarrow> Some (r, st'))"
  by (induction xs arbitrary: st) (auto simp: Option.bind_assoc intro!: arg_cong2 [where f = Option.bind] split: res.splits)

lemma arith_op:
  assumes "opmap st = init_ops" "- (2 ^ 63) \<le> x \<and> x < 2 ^ 63" "- (2 ^ 63) \<le> y \<and> y < 2 ^ 63"
    and "(s, f) \<in> {(''+'', \<lambda>x y. Some (x + y)), (''-'', \<lambda>x y. Some (x - y)), (''*'', \<lambda>x y. Some (x * y)),
      (''/'', \<lambda>x y. if y = 0 then None else Some (go_quot x y)), (''%'', \<lambda>x y. if y = 0 then None else Some (x - y * go_quot x y))}"
  shows "eval_fields env [s] (pushed (pushed st x) y) = (case f x y of Some z \<Rightarrow> Some (Ok (), pushed st (wrap64 z)) | None \<Rightarrow> Some (Panic, st))"
proof -
  let ?st = "pushed (pushed st x) y"
  have o1: "opmap ?st = init_ops" using assms(1) by (simp add: pushed_def)
  have i: "init_ops ''+'' = Some (Prim Plus)" "init_ops ''-'' = Some (Prim Sub)" "init_ops ''*'' = Some (Prim Times)"
    "init_ops ''/'' = Some (Prim Div)" "init_ops ''%'' = Some (Prim Mod)" by (simp_all add: init_ops_def)
  note t = toInt_pushed [of y "pushed st x"] toInt_pushed [of x st]
  have p: "push_int z st = (Ret (), pushed st (wrap64 z))" for z by (simp add: push_int_def Push_def pushed_def)
  from assms(4) show ?thesis
    by (elim insertE emptyE)
      (use assms(2,3) in \<open>simp_all add: eval_prim [where st = ?st, unfolded o1, OF i(1)] eval_prim [where st = ?st, unfolded o1, OF i(2)]
         eval_prim [where st = ?st, unfolded o1, OF i(3)] eval_prim [where st = ?st, unfolded o1, OF i(4)]
         eval_prim [where st = ?st, unfolded o1, OF i(5)] plus_op_def sub_op_def times_op_def div_op_def mod_op_def fbind_def t p frun_def
         mult.commute add.commute\<close>)
qed

definition computes :: "forth_env \<Rightarrow> string list \<Rightarrow> int option \<Rightarrow> forth \<Rightarrow> bool" where
  "computes env ts ov st \<longleftrightarrow> (case ov of
      Some v \<Rightarrow> eval_fields env ts st = Some (Ok (), pushed st v)
    | None \<Rightarrow> \<exists>st'. eval_fields env ts st = Some (Panic, st'))"

abbreviation arith_ops :: "(string \<times> (int \<Rightarrow> int \<Rightarrow> int option)) set" where
  "arith_ops \<equiv> {(''+'', \<lambda>x y. Some (x + y)), (''-'', \<lambda>x y. Some (x - y)), (''*'', \<lambda>x y. Some (x * y)),
      (''/'', \<lambda>x y. if y = 0 then None else Some (go_quot x y)), (''%'', \<lambda>x y. if y = 0 then None else Some (x - y * go_quot x y))}"

lemma computes_op:
  assumes "opmap st = init_ops" "computes env ta va st" "\<And>x. va = Some x \<Longrightarrow> computes env tb vb (pushed st x)"
    and "\<And>x. va = Some x \<Longrightarrow> - (2 ^ 63) \<le> x \<and> x < 2 ^ 63" "\<And>y. vb = Some y \<Longrightarrow> - (2 ^ 63) \<le> y \<and> y < 2 ^ 63"
    and "(s, f) \<in> arith_ops"
  shows "computes env (ta @ tb @ [s]) (arith2 f va vb) st"
proof (cases va)
  case None
  then show ?thesis using assms(2) by (auto simp: computes_def arith2_def eval_fields_append)
next
  case (Some x)
  show ?thesis
  proof (cases vb)
    case None
    then show ?thesis using assms(2,3) Some by (auto simp: computes_def arith2_def eval_fields_append)
  next
    case (Some y)
    have e: "eval_fields env (ta @ tb @ [s]) st = eval_fields env [s] (pushed (pushed st x) y)"
      using assms(2,3) \<open>va = Some x\<close> Some by (simp add: computes_def eval_fields_append del: eval_fields.simps(2))
    show ?thesis
      using arith_op [OF assms(1) assms(4) [OF \<open>va = Some x\<close>] assms(5) [OF Some] assms(6), of env] \<open>va = Some x\<close> Some
      by (cases "f x y") (simp_all add: computes_def arith2_def e del: eval_fields.simps(2))
  qed
qed

lemma computes_bin:
  assumes "\<And>st. opmap st = init_ops \<Longrightarrow> computes env (postfix a) (aval a) st"
    and "\<And>st. opmap st = init_ops \<Longrightarrow> computes env (postfix b) (aval b) st"
    and "in_range a" "in_range b" "opmap st = init_ops" "(s, f) \<in> arith_ops"
  shows "computes env (postfix a @ postfix b @ [s]) (arith2 f (aval a) (aval b)) st"
  by (rule computes_op [OF assms(5) assms(1) [OF assms(5)] _ _ _ assms(6)])
    (use assms(2,5) aval_range [OF assms(3)] aval_range [OF assms(4)] in \<open>auto simp: pushed_def\<close>)

lemma postfix_computes: "in_range e \<Longrightarrow> opmap st = init_ops \<Longrightarrow> computes env (postfix e) (aval e) st"
proof (induction e arbitrary: st)
  case (Num i)
  have "FormatInt i \<noteq> []" using FormatInt_token [of i] by (simp add: token_def)
  then show ?case using eval_lit [of st "FormatInt i" env] Num(2) FormatInt_no_op [of i] by (simp add: computes_def pushed_def)
next
  case (Add a b)
  show ?case unfolding postfix.simps aval.simps by (rule computes_bin) (use Add in auto)
next
  case (Subt a b)
  show ?case unfolding postfix.simps aval.simps by (rule computes_bin) (use Subt in auto)
next
  case (Mult a b)
  show ?case unfolding postfix.simps aval.simps by (rule computes_bin) (use Mult in auto)
next
  case (Divi a b)
  show ?case unfolding postfix.simps aval.simps by (rule computes_bin) (use Divi in auto)
next
  case (Modu a b)
  show ?case unfolding postfix.simps aval.simps by (rule computes_bin) (use Modu in auto)
qed

lemma op_tokens: "token ''+''" "token ''-''" "token ''*''" "token ''/''" "token ''%''"
  by (simp_all add: token_def ascii_def IsSpace_def)

lemma postfix_tokens: "t \<in> set (postfix e) \<Longrightarrow> token t"
  by (induction e) (use FormatInt_token op_tokens in auto)

text \<open>C17: an expression over \<open>int64\<close> written in postfix form evaluates to its value, with wrap-around and truncated
  division, and leaves the stack empty; when it divides by zero the run-time panic reaches the caller.\<close>

theorem EvalPop_arith:
  assumes "in_range e"
  shows "case aval e of
      Some v \<Rightarrow> EvalPop env (JoinWith '' '' (postfix e)) New_forth = Some (Ok (CStr (FormatInt v)), New_forth)
    | None \<Rightarrow> \<exists>st. EvalPop env (JoinWith '' '' (postfix e)) New_forth = Some (Panic, st)"
proof -
  have f: "Fields (JoinWith '' '' (postfix e)) = postfix e" using Fields_join postfix_tokens by blast
  have "computes env (postfix e) (aval e) New_forth" by (rule postfix_computes [OF assms]) (simp add: New_forth_def)
  then show ?thesis
    by (cases "aval e") (fastforce simp: computes_def EvalPop_def EvalString_def f Length_def pushed_def New_forth_def Pop_def)+
qed

definition no_env :: forth_env where
  "no_env = \<lparr>env_host = None, env_names = (\<lambda>_. [])\<rparr>"

theorem EvalPop_arith_witness:
  "EvalPop no_env (JoinWith '' '' (postfix (Subt (Num 7) (Mult (Num 2) (Num 3))))) New_forth = Some (Ok (CStr (FormatInt 1)), New_forth)"
proof -
  have "aval (Subt (Num 7) (Mult (Num 2) (Num 3))) = Some 1" by (simp add: arith2_def wrap64_def)
  with EvalPop_arith [of "Subt (Num 7) (Mult (Num 2) (Num 3))" no_env] show ?thesis by simp
qed

theorem eval_ends_witness: "\<exists>r st'. eval no_env [CStr ''5'', CStr ''double''] (New_forth\<lparr>opmap := init_ops(''double'' \<mapsto> Word [CStr ''dup'', CStr ''+''])\<rparr>) = Some (r, st')"
proof -
  let ?o = "init_ops(''double'' \<mapsto> Word [CStr ''dup'', CStr ''+''])"
  have n: "init_ops w \<noteq> Some (Word ws)" for w ws by (auto simp: init_ops_def split: if_splits)
  have "ranked (\<lambda>_. 0) ?o" using n by (auto simp: ranked_def no_newword_def calls_below_def init_ops_def split: if_splits)
  moreover have "no_newword ?o [CStr ''5'', CStr ''double'']" by (simp add: no_newword_def init_ops_def)
  ultimately show ?thesis using eval_ends [of "\<lambda>_. 0" "New_forth\<lparr>opmap := ?o\<rparr>" "[CStr ''5'', CStr ''double'']" no_env] by auto
qed

end
