(* ===== verification/Ranges.thy ===== *)
theory Ranges imports Align begin

text \<open>
  \<open>pkg/boot/kexec/memory_linux.go\<close>, first part: \<open>Range\<close> (a contiguous interval of
  addresses) and \<open>Ranges\<close>. Addresses and sizes are 64-bit and wrap as in Go; a range is
  \<open>valid_range\<close> when its exclusive end does not wrap. Ranges are read as sets of points,
  and each operation is characterised by what it does to the points.
\<close>

section \<open>Ranges\<close>

record Range =
  Start :: u64
  Size :: u64

datatype kexec_error =
    ErrNotEnoughSpace u64
  | ErrPhysOverlap "Range \<times> Range" "Range \<times> Range"
  | ErrMergeDisjoint
  | ErrPhysNotFound Range
  | ErrPhysDiffers Range
  | ErrLengthMoreThanSize
  | ErrOffsetLargerThanSize
  | ErrReadShort
  | ErrExternal string

definition RangeFromInterval :: "u64 \<Rightarrow> u64 \<Rightarrow> Range" where
  "RangeFromInterval s e = \<lparr>Start = s, Size = e - s\<rparr>"

definition End :: "Range \<Rightarrow> u64" where
  "End r = Start r + Size r"

definition Adjacent :: "Range \<Rightarrow> Range \<Rightarrow> bool" where
  "Adjacent r r2 \<longleftrightarrow> End r2 = Start r \<or> End r = Start r2"

definition Contains :: "Range \<Rightarrow> u64 \<Rightarrow> bool" where
  "Contains r p \<longleftrightarrow> Start r \<le> p \<and> p < End r"

definition min_u :: "u64 \<Rightarrow> u64 \<Rightarrow> u64" where
  "min_u a b = (if a < b then a else b)"

definition minuint :: "u64 \<Rightarrow> u64 \<Rightarrow> u64" where
  "minuint a b = (if a < b then a else b)"

definition max_u :: "u64 \<Rightarrow> u64 \<Rightarrow> u64" where
  "max_u a b = (if a > b then a else b)"

definition Overlaps :: "Range \<Rightarrow> Range \<Rightarrow> bool" where
  "Overlaps r r2 \<longleftrightarrow> Start r < End r2 \<and> Start r2 < End r"

definition IsSupersetOf :: "Range \<Rightarrow> Range \<Rightarrow> bool" where
  "IsSupersetOf r r2 \<longleftrightarrow> Start r \<le> Start r2 \<and> End r \<ge> End r2"

definition Disjunct :: "Range \<Rightarrow> Range \<Rightarrow> bool" where
  "Disjunct r r2 \<longleftrightarrow> \<not> Overlaps r r2"

definition Intersect :: "Range \<Rightarrow> Range \<Rightarrow> Range option" where
  "Intersect r r2 =
     (if \<not> Overlaps r r2 then None
      else Some (RangeFromInterval (max_u (Start r) (Start r2)) (min_u (End r) (End r2))))"

definition Minus :: "Range \<Rightarrow> Range \<Rightarrow> Range list" where
  "Minus r r2 =
     (let result1 = (if Contains r (Start r2) \<and> Start r \<noteq> Start r2
                     then [\<lparr>Start = Start r, Size = Start r2 - Start r\<rparr>] else []);
          result2 = (if Contains r (End r2) \<and> End r \<noteq> End r2
                     then result1 @ [\<lparr>Start = End r2, Size = End r - End r2\<rparr>] else result1)
      in if result2 = [] \<and> Disjunct r r2 then [r] else result2)"

section \<open>Lists of ranges\<close>

type_synonym Ranges = "Range list"

fun Ranges_Minus :: "Ranges \<Rightarrow> Range \<Rightarrow> Ranges" where
  "Ranges_Minus [] r = []"
| "Ranges_Minus (oldRange # rs) r = Minus oldRange r @ Ranges_Minus rs r"

definition MaxAddr :: u64 where
  "MaxAddr = NOT 0"

fun FindSpaceIn :: "Ranges \<Rightarrow> u64 \<Rightarrow> Range \<Rightarrow> (kexec_error, Range) res" where
  "FindSpaceIn [] sz limit = Err (ErrNotEnoughSpace sz)"
| "FindSpaceIn (r # rs) sz limit =
     (case Intersect r limit of
        Some overlap \<Rightarrow>
          if Size overlap \<ge> sz then Ok \<lparr>Start = Start overlap, Size = sz\<rparr>
          else FindSpaceIn rs sz limit
      | None \<Rightarrow> FindSpaceIn rs sz limit)"

definition FindSpaceAbove :: "Ranges \<Rightarrow> u64 \<Rightarrow> u64 \<Rightarrow> (kexec_error, Range) res" where
  "FindSpaceAbove rs sz minAddr = FindSpaceIn rs sz (RangeFromInterval minAddr MaxAddr)"

definition FindSpace :: "Ranges \<Rightarrow> u64 \<Rightarrow> (kexec_error, Range) res" where
  "FindSpace rs sz = FindSpaceAbove rs sz 0"

definition range_less :: "Range \<Rightarrow> Range \<Rightarrow> bool" where
  "range_less a b = (if Start a = Start b then Size a > Size b else Start a < Start b)"

definition Ranges_Sort :: "Ranges \<Rightarrow> Ranges" where
  "Ranges_Sort rs = sort_slice range_less rs"

section \<open>Ranges as sets of points\<close>

definition valid_range :: "Range \<Rightarrow> bool" where
  "valid_range r \<longleftrightarrow> unat (Start r) + unat (Size r) < 2 ^ 64"

definition pts :: "Range \<Rightarrow> u64 set" where
  "pts r = {p. Contains r p}"

definition Pts :: "Ranges \<Rightarrow> u64 set" where
  "Pts rs = (\<Union>r \<in> set rs. pts r)"

text \<open>No two ranges of a list share a point.\<close>

definition disjoint_ranges :: "Ranges \<Rightarrow> bool" where
  "disjoint_ranges rs \<longleftrightarrow> sorted_wrt (\<lambda>a b. pts a \<inter> pts b = {}) rs"

lemma unat_End: "valid_range r \<Longrightarrow> unat (End r) = unat (Start r) + unat (Size r)"
  by (simp add: valid_range_def End_def unat_word_ariths)

lemma Start_le_End: "valid_range r \<Longrightarrow> Start r \<le> End r"
  by (simp add: word_le_nat_alt unat_End)

lemma valid_range_End: "Start r \<le> End r \<Longrightarrow> valid_range r"
proof -
  assume le: "Start r \<le> End r"
  have "Size r = End r - Start r" by (simp add: End_def)
  then have "unat (Size r) = unat (End r) - unat (Start r)" using le by (simp add: unat_sub)
  then have "unat (Start r) + unat (Size r) = unat (End r)" using le by (simp add: word_le_nat_alt)
  then show ?thesis by (simp add: valid_range_def)
qed

lemma mem_pts [simp]: "p \<in> pts r \<longleftrightarrow> Start r \<le> p \<and> p < End r"
  by (simp add: pts_def Contains_def)

lemma pts_empty_iff: "valid_range r \<Longrightarrow> pts r = {} \<longleftrightarrow> Size r = 0"
proof
  assume v: "valid_range r" and e: "pts r = {}"
  then have "Start r \<notin> pts r" by simp
  then have "\<not> unat (Start r) < unat (End r)" by (simp add: word_nat_alts)
  then show "Size r = 0" using v by (simp add: unat_End unat_eq_0)
next
  assume "valid_range r" "Size r = 0"
  then show "pts r = {}" by (auto simp: End_def)
qed

lemma End_RangeFromInterval [simp]: "End (RangeFromInterval s e) = e"
  by (simp add: RangeFromInterval_def End_def)

lemma Start_RangeFromInterval [simp]: "Start (RangeFromInterval s e) = s"
  by (simp add: RangeFromInterval_def)

lemma valid_RangeFromInterval: "s \<le> e \<Longrightarrow> valid_range (RangeFromInterval s e)"
  using unsigned_less [of e, where 'a = nat]
  by (simp add: valid_range_def RangeFromInterval_def unat_sub word_le_nat_alt)

lemma pts_RangeFromInterval: "pts (RangeFromInterval s e) = {p. s \<le> p \<and> p < e}"
  by auto

lemma Overlaps_iff:
  assumes "valid_range r" "valid_range r2" "pts r \<noteq> {}" "pts r2 \<noteq> {}"
  shows "Overlaps r r2 \<longleftrightarrow> pts r \<inter> pts r2 \<noteq> {}"
proof
  assume o: "Overlaps r r2"
  have "max (Start r) (Start r2) \<in> pts r \<inter> pts r2"
    using o assms(3,4) by (auto simp: Overlaps_def max_def)
  then show "pts r \<inter> pts r2 \<noteq> {}" by blast
next
  assume "pts r \<inter> pts r2 \<noteq> {}"
  then show "Overlaps r r2" by (auto simp: Overlaps_def)
qed

lemma not_Overlaps_disjoint: "\<not> Overlaps r r2 \<Longrightarrow> pts r \<inter> pts r2 = {}"
  by (auto simp: Overlaps_def)

lemma Intersect_Some:
  assumes "valid_range r" "valid_range r2" "Intersect r r2 = Some i"
  shows "pts i = pts r \<inter> pts r2" and "valid_range i"
    and "Start i = max (Start r) (Start r2)" and "End i = min (End r) (End r2)"
proof -
  have o: "Start r < End r2" "Start r2 < End r"
    and i: "i = RangeFromInterval (max_u (Start r) (Start r2)) (min_u (End r) (End r2))"
    using assms(3) by (auto simp: Intersect_def Overlaps_def split: if_splits)
  have m: "max_u (Start r) (Start r2) = max (Start r) (Start r2)"
    "min_u (End r) (End r2) = min (End r) (End r2)"
    by (auto simp: max_u_def min_u_def max_def min_def)
  show "pts i = pts r \<inter> pts r2" by (auto simp: i m)
  show "Start i = max (Start r) (Start r2)" "End i = min (End r) (End r2)"
    by (simp_all add: i m)
  have "max (Start r) (Start r2) \<le> min (End r) (End r2)"
    using o assms(1,2) [THEN Start_le_End] by auto
  then show "valid_range i" by (simp add: i m valid_RangeFromInterval)
qed

lemma Intersect_None: "Intersect r r2 = None \<Longrightarrow> pts r \<inter> pts r2 = {}"
  by (auto simp: Intersect_def not_Overlaps_disjoint split: if_splits)

section \<open>Removing a range\<close>

lemma Minus_ranges:
  "q \<in> set (Minus r r2) \<Longrightarrow>
     q = r \<and> Disjunct r r2
   \<or> q = RangeFromInterval (Start r) (Start r2) \<and> Contains r (Start r2)
   \<or> q = RangeFromInterval (End r2) (End r) \<and> Contains r (End r2)"
  by (auto simp: Minus_def Let_def RangeFromInterval_def split: if_splits)

lemma valid_Minus: "valid_range r \<Longrightarrow> q \<in> set (Minus r r2) \<Longrightarrow> valid_range q"
  by (drule Minus_ranges) (auto simp: Contains_def intro: valid_RangeFromInterval)

lemma Pts_Minus:
  assumes "valid_range r" "valid_range r2"
  shows "Pts (Minus r r2) = pts r - pts r2"
proof -
  note le = assms [THEN Start_le_End]
  let ?lo = "RangeFromInterval (Start r) (Start r2)" and ?hi = "RangeFromInterval (End r2) (End r)"
  have lo: "(\<lparr>Start = Start r, Size = Start r2 - Start r\<rparr>) = ?lo"
    and hi: "(\<lparr>Start = End r2, Size = End r - End r2\<rparr>) = ?hi"
    by (simp_all add: RangeFromInterval_def)
  show ?thesis
    using le unfolding Minus_def Let_def lo hi Pts_def
    by (auto simp: Contains_def Disjunct_def Overlaps_def split: if_splits)
qed

lemma disjoint_Minus:
  assumes "valid_range r" "valid_range r2"
  shows "disjoint_ranges (Minus r r2)"
proof -
  note le = assms [THEN Start_le_End]
  have "pts \<lparr>Start = Start r, Size = Start r2 - Start r\<rparr> \<inter>
        pts \<lparr>Start = End r2, Size = End r - End r2\<rparr> = {}"
    using le by (auto simp: End_def)
  then show ?thesis
    by (auto simp: Minus_def Let_def disjoint_ranges_def)
qed

lemma disjoint_ranges_append:
  "disjoint_ranges (xs @ ys) \<longleftrightarrow> disjoint_ranges xs \<and> disjoint_ranges ys \<and> Pts xs \<inter> Pts ys = {}"
  by (auto simp: disjoint_ranges_def sorted_wrt_append Pts_def)

lemma disjoint_ranges_Cons [simp]:
  "disjoint_ranges (x # ys) \<longleftrightarrow> pts x \<inter> Pts ys = {} \<and> disjoint_ranges ys"
  by (auto simp: disjoint_ranges_def Pts_def)

lemma disjoint_ranges_Nil [simp]: "disjoint_ranges []"
  by (simp add: disjoint_ranges_def)

lemma Pts_Nil [simp]: "Pts [] = {}"
  by (simp add: Pts_def)

lemma Pts_Cons [simp]: "Pts (x # xs) = pts x \<union> Pts xs"
  by (simp add: Pts_def)

lemma Pts_append [simp]: "Pts (xs @ ys) = Pts xs \<union> Pts ys"
  by (simp add: Pts_def)

lemma disjoint_ranges_perm: "mset xs = mset ys \<Longrightarrow> disjoint_ranges xs \<Longrightarrow> disjoint_ranges ys"
  unfolding disjoint_ranges_def by (rule sorted_wrt_perm) (auto simp: symp_def)

definition valid_ranges :: "Ranges \<Rightarrow> bool" where
  "valid_ranges rs \<longleftrightarrow> (\<forall>r \<in> set rs. valid_range r)"

lemma valid_ranges_simps [simp]:
  "valid_ranges []"
  "valid_ranges (r # rs) \<longleftrightarrow> valid_range r \<and> valid_ranges rs"
  "valid_ranges (rs @ rs') \<longleftrightarrow> valid_ranges rs \<and> valid_ranges rs'"
  by (auto simp: valid_ranges_def)

lemma valid_ranges_Minus: "valid_range r \<Longrightarrow> valid_ranges (Minus r r2)"
  by (auto simp: valid_ranges_def intro: valid_Minus)

lemma Ranges_Minus_correct:
  assumes "valid_ranges rs" "valid_range r"
  shows "Pts (Ranges_Minus rs r) = Pts rs - pts r" and "valid_ranges (Ranges_Minus rs r)"
    and "disjoint_ranges rs \<Longrightarrow> disjoint_ranges (Ranges_Minus rs r)"
proof -
  have p: "Pts (Ranges_Minus rs r) = Pts rs - pts r" if "valid_ranges rs" for rs
    using that assms(2) by (induction rs) (auto simp: Pts_Minus simp del: mem_pts)
  show "Pts (Ranges_Minus rs r) = Pts rs - pts r" using assms(1) by (rule p)
  show "valid_ranges (Ranges_Minus rs r)"
    using assms by (induction rs) (auto simp: valid_ranges_Minus)
  show "disjoint_ranges rs \<Longrightarrow> disjoint_ranges (Ranges_Minus rs r)"
    using assms
    by (induction rs)
      (auto simp: disjoint_ranges_append disjoint_Minus Pts_Minus p simp del: mem_pts)
qed

section \<open>Finding space\<close>

lemma valid_sub:
  "valid_range r \<Longrightarrow> sz \<le> Size r \<Longrightarrow> valid_range \<lparr>Start = Start r, Size = sz\<rparr>"
  by (auto simp: valid_range_def word_le_nat_alt)

lemma pts_sub: "valid_range r \<Longrightarrow> sz \<le> Size r \<Longrightarrow> pts \<lparr>Start = Start r, Size = sz\<rparr> \<subseteq> pts r"
  using valid_sub [of r sz] unat_End [of r] unat_End [of "\<lparr>Start = Start r, Size = sz\<rparr>"]
  by (auto simp: word_nat_alts)

lemma FindSpaceIn_Ok:
  assumes "FindSpaceIn rs sz limit = Ok s" "valid_ranges rs" "valid_range limit"
  shows "valid_range s \<and> Size s = sz \<and> Start limit \<le> Start s \<and> End s \<le> End limit \<and>
    (\<exists>r \<in> set rs. pts s \<subseteq> pts r \<inter> pts limit \<and> Start s = max (Start r) (Start limit) \<and> End s \<le> End r)"
  using assms
proof (induction rs)
  case Nil
  then show ?case by simp
next
  case (Cons r rs)
  show ?case
  proof (cases "\<exists>i. Intersect r limit = Some i \<and> sz \<le> Size i")
    case True
    then obtain i where i: "Intersect r limit = Some i" "sz \<le> Size i" by blast
    with Cons.prems have s: "s = \<lparr>Start = Start i, Size = sz\<rparr>" by simp
    from Cons.prems have v: "valid_range r" by simp
    note its = Intersect_Some [OF v Cons.prems(3) i(1)]
    have vs: "valid_range s" and ps: "pts s \<subseteq> pts i"
      using its(2) i(2) by (simp_all add: s valid_sub pts_sub del: mem_pts)
    have "End s \<le> End i"
      using unat_End [OF vs] unat_End [OF its(2)] i(2) by (simp add: s word_le_nat_alt)
    then show ?thesis using its vs ps by (auto simp: s simp del: mem_pts)
  next
    case False
    with Cons.prems have "FindSpaceIn rs sz limit = Ok s"
      by (auto split: option.splits if_splits)
    with Cons show ?thesis by auto
  qed
qed

lemma FindSpaceIn_cases:
  "FindSpaceIn rs sz limit = Err (ErrNotEnoughSpace sz) \<or> (\<exists>s. FindSpaceIn rs sz limit = Ok s)"
  by (induction rs) (auto split: option.splits)

lemma FindSpaceIn_Err_iff:
  "(\<exists>e. FindSpaceIn rs sz limit = Err e) \<longleftrightarrow>
     (\<forall>r \<in> set rs. \<forall>i. Intersect r limit = Some i \<longrightarrow> Size i < sz)"
  by (induction rs) (auto split: option.splits)

section \<open>Sorting ranges\<close>

lemma weak_order_range_less: "weak_order range_less"
  by (auto simp: weak_order_def range_less_def split: if_splits)

interpretation rs_sort: slice_sort range_less Ranges_Sort
proof -
  have e: "Ranges_Sort = sort_slice range_less" by (rule ext) (simp add: Ranges_Sort_def)
  show "slice_sort range_less Ranges_Sort"
    unfolding e by (rule sort_slice_contract [OF weak_order_range_less])
qed

end
