(* ===== verification/MemoryMap.thy ===== *)
theory MemoryMap imports Ranges begin

text \<open>
  \<open>pkg/boot/kexec/memory_linux.go\<close>, the physical memory map: \<open>RangeType\<close>, \<open>TypedRange\<close>,
  \<open>MemoryMap\<close> with \<open>FilterByType\<close>, \<open>Insert\<close> and the payload form. A map that is
  \<open>map_ok\<close> (valid, pairwise disjoint ranges) is read as a partial function from
  addresses to types, \<open>type_at\<close>.
\<close>

section \<open>Types\<close>

type_synonym RangeType = string

definition RangeRAM :: RangeType where "RangeRAM = ''System RAM''"
definition RangeDefault :: RangeType where "RangeDefault = ''Default''"
definition RangeACPI :: RangeType where "RangeACPI = ''ACPI Tables''"
definition RangeNVS :: RangeType where "RangeNVS = ''ACPI Non-volatile Storage''"
definition RangeReserved :: RangeType where "RangeReserved = ''Reserved''"

lemmas RangeType_defs = RangeRAM_def RangeDefault_def RangeACPI_def RangeNVS_def RangeReserved_def

definition sysfsToRangeType :: "string \<rightharpoonup> RangeType" where
  "sysfsToRangeType = map_of
     [(''System RAM'', RangeRAM), (''Default'', RangeDefault), (''ACPI Tables'', RangeACPI),
      (''ACPI Non-volatile Storage'', RangeNVS), (''Reserved'', RangeReserved),
      (''reserved'', RangeReserved)]"

record TypedRange =
  TRange :: Range
  TType :: RangeType

type_synonym MemoryMap = "TypedRange list"

section \<open>Operations\<close>

fun FilterByType :: "MemoryMap \<Rightarrow> RangeType \<Rightarrow> Ranges" where
  "FilterByType [] typ = []"
| "FilterByType (tr # m) typ =
     (if TType tr = typ then TRange tr # FilterByType m typ else FilterByType m typ)"

definition typed_less :: "TypedRange \<Rightarrow> TypedRange \<Rightarrow> bool" where
  "typed_less a b \<longleftrightarrow> Start (TRange a) < Start (TRange b)"

definition MemoryMap_sort :: "MemoryMap \<Rightarrow> MemoryMap" where
  "MemoryMap_sort m = sort_slice typed_less m"

text \<open>The two nested loops of \<open>Insert\<close>: each old range is replaced by what is left of it.\<close>

fun split_all :: "MemoryMap \<Rightarrow> Range \<Rightarrow> MemoryMap" where
  "split_all [] r = []"
| "split_all (q # m) r =
     map (\<lambda>r2. \<lparr>TRange = r2, TType = TType q\<rparr>) (Minus (TRange q) r) @ split_all m r"

definition MemoryMap_Insert :: "MemoryMap \<Rightarrow> TypedRange \<Rightarrow> MemoryMap" where
  "MemoryMap_Insert m r = MemoryMap_sort (split_all m (TRange r) @ [r])"

type_synonym PayloadMemType = u32

definition PayloadTypeRAM :: PayloadMemType where "PayloadTypeRAM = 1"
definition PayloadTypeDefault :: PayloadMemType where "PayloadTypeDefault = 2"
definition PayloadTypeACPI :: PayloadMemType where "PayloadTypeACPI = 3"
definition PayloadTypeNVS :: PayloadMemType where "PayloadTypeNVS = 4"
definition PayloadTypeReserved :: PayloadMemType where "PayloadTypeReserved = 5"

lemmas PayloadType_defs = PayloadTypeRAM_def PayloadTypeDefault_def PayloadTypeACPI_def
  PayloadTypeNVS_def PayloadTypeReserved_def

record payloadMemoryMapEntry =
  pStart :: u64
  pEnd :: u64
  pType :: PayloadMemType

definition rangeTypeToPayloadMemType :: "RangeType \<rightharpoonup> PayloadMemType" where
  "rangeTypeToPayloadMemType = map_of
     [(RangeRAM, PayloadTypeRAM), (RangeDefault, PayloadTypeDefault),
      (RangeACPI, PayloadTypeACPI), (RangeNVS, PayloadTypeNVS),
      (RangeReserved, PayloadTypeReserved)]"

definition convertToPayloadMemType :: "RangeType \<Rightarrow> PayloadMemType" where
  "convertToPayloadMemType rt =
     (case rangeTypeToPayloadMemType rt of None \<Rightarrow> PayloadTypeReserved | Some mt \<Rightarrow> mt)"

fun AsPayloadParam :: "MemoryMap \<Rightarrow> payloadMemoryMapEntry list" where
  "AsPayloadParam [] = []"
| "AsPayloadParam (entry # m) =
     \<lparr>pStart = Start (TRange entry),
      pEnd = Start (TRange entry) + Size (TRange entry) - 1,
      pType = convertToPayloadMemType (TType entry)\<rparr> # AsPayloadParam m"

section \<open>A memory map as a function on addresses\<close>

definition phys_ranges :: "MemoryMap \<Rightarrow> Ranges" where
  "phys_ranges m = map TRange m"

definition map_ok :: "MemoryMap \<Rightarrow> bool" where
  "map_ok m \<longleftrightarrow> valid_ranges (phys_ranges m) \<and> disjoint_ranges (phys_ranges m)"

fun type_at :: "MemoryMap \<Rightarrow> u64 \<Rightarrow> RangeType option" where
  "type_at [] p = None"
| "type_at (t # m) p = (if Contains (TRange t) p then Some (TType t) else type_at m p)"

definition map_sorted :: "MemoryMap \<Rightarrow> bool" where
  "map_sorted m \<longleftrightarrow> sorted_wrt (\<lambda>a b. Start (TRange a) \<le> Start (TRange b)) m"

lemma phys_ranges_simps [simp]:
  "phys_ranges [] = []" "phys_ranges (t # m) = TRange t # phys_ranges m" "phys_ranges (m @ m') = phys_ranges m @ phys_ranges m'"
  by (simp_all add: phys_ranges_def)

lemma mset_phys: "mset m = mset m' \<Longrightarrow> mset (phys_ranges m) = mset (phys_ranges m')"
  by (simp add: phys_ranges_def)

lemma type_at_None: "type_at m p = None \<longleftrightarrow> p \<notin> Pts (phys_ranges m)"
  by (induction m) (auto simp: Contains_def)

lemma type_at_Some_set: "type_at m p = Some ty \<Longrightarrow> \<exists>t \<in> set m. p \<in> pts (TRange t) \<and> TType t = ty"
  by (induction m) (auto simp: Contains_def split: if_splits)

lemma type_at_iff:
  "map_ok m \<Longrightarrow> type_at m p = Some ty \<longleftrightarrow> (\<exists>t \<in> set m. p \<in> pts (TRange t) \<and> TType t = ty)"
proof (induction m)
  case Nil
  then show ?case by simp
next
  case (Cons t m)
  have sub: "p \<in> Pts (phys_ranges m)" if "s \<in> set m" "p \<in> pts (TRange s)" for s
    using that by (auto simp: Pts_def phys_ranges_def simp del: mem_pts)
  from Cons have IH: "type_at m p = Some ty \<longleftrightarrow> (\<exists>t \<in> set m. p \<in> pts (TRange t) \<and> TType t = ty)"
    and d: "pts (TRange t) \<inter> Pts (phys_ranges m) = {}"
    by (auto simp: map_ok_def)
  have c: "Contains (TRange t) p \<longleftrightarrow> p \<in> pts (TRange t)" by (simp add: Contains_def)
  show ?case
  proof (cases "p \<in> pts (TRange t)")
    case True
    then have "\<not> (\<exists>s \<in> set m. p \<in> pts (TRange s))" using d sub by blast
    with True show ?thesis by (auto simp: c simp del: mem_pts)
  next
    case False
    with IH show ?thesis by (auto simp: c simp del: mem_pts)
  qed
qed

lemma map_ok_perm:
  assumes "mset m = mset m'" "map_ok m"
  shows "map_ok m'"
proof -
  have e: "mset (phys_ranges m) = mset (phys_ranges m')" using assms(1) by (rule mset_phys)
  have "disjoint_ranges (phys_ranges m')"
    using disjoint_ranges_perm [OF e] assms(2) by (simp add: map_ok_def)
  moreover have "valid_ranges (phys_ranges m')"
    using assms(2) mset_eq_setD [OF e] by (simp add: map_ok_def valid_ranges_def)
  ultimately show ?thesis by (simp add: map_ok_def)
qed

lemma type_at_perm:
  assumes "mset m = mset m'" "map_ok m"
  shows "type_at m p = type_at m' p"
proof -
  have "map_ok m'" using assms by (rule map_ok_perm)
  moreover have "set m = set m'" using assms(1) by (rule mset_eq_setD)
  ultimately have "type_at m p = Some ty \<longleftrightarrow> type_at m' p = Some ty" for ty
    using assms(2) by (simp add: type_at_iff)
  then show ?thesis by (rule option_eq_iffI)
qed

lemma Pts_FilterByType:
  "map_ok m \<Longrightarrow> p \<in> Pts (FilterByType m typ) \<longleftrightarrow> type_at m p = Some typ"
proof -
  have "set (FilterByType m typ) = TRange ` {t \<in> set m. TType t = typ}"
    by (induction m) auto
  then show "map_ok m \<Longrightarrow> ?thesis"
    by (auto simp: type_at_iff Pts_def)
qed

lemma FilterByType_ok:
  assumes "map_ok m"
  shows "valid_ranges (FilterByType m typ)" and "disjoint_ranges (FilterByType m typ)"
proof -
  have sub: "Pts (FilterByType m typ) \<subseteq> Pts (phys_ranges m)" for m
    by (induction m) auto
  show "valid_ranges (FilterByType m typ)"
    using assms by (induction m) (auto simp: map_ok_def)
  show "disjoint_ranges (FilterByType m typ)"
    using assms
  proof (induction m)
    case (Cons t m)
    then have "pts (TRange t) \<inter> Pts (phys_ranges m) = {}" by (simp add: map_ok_def)
    then have "pts (TRange t) \<inter> Pts (FilterByType m typ) = {}" using sub [of m] by blast
    with Cons show ?case by (simp add: map_ok_def)
  qed simp
qed

section \<open>Insertion\<close>

lemma weak_order_typed_less: "weak_order typed_less"
  by (auto simp: weak_order_def typed_less_def)

interpretation mm_sort: slice_sort typed_less MemoryMap_sort
proof -
  have e: "MemoryMap_sort = sort_slice typed_less" by (rule ext) (simp add: MemoryMap_sort_def)
  show "slice_sort typed_less MemoryMap_sort"
    unfolding e by (rule sort_slice_contract [OF weak_order_typed_less])
qed

lemma map_sorted_sort: "map_sorted (MemoryMap_sort m)"
  using mm_sort.srt_sorted [of m] unfolding map_sorted_def typed_less_def
  by (simp add: not_less)

lemma phys_split_all: "phys_ranges (split_all m r) = Ranges_Minus (phys_ranges m) r"
  by (induction m) (auto simp: phys_ranges_def comp_def)

lemma type_at_append: "type_at (m @ m') p = (case type_at m p of None \<Rightarrow> type_at m' p | Some t \<Rightarrow> Some t)"
  by (induction m) auto

lemma type_at_const:
  "type_at (map (\<lambda>r2. \<lparr>TRange = r2, TType = ty\<rparr>) rs) p = (if p \<in> Pts rs then Some ty else None)"
  by (induction rs) (auto simp: Contains_def)

lemma type_at_split_all:
  assumes "valid_ranges (phys_ranges m)" "valid_range r"
  shows "type_at (split_all m r) p = (if p \<in> pts r then None else type_at m p)"
  using assms
proof (induction m)
  case (Cons q m)
  have c: "Contains (TRange q) p \<longleftrightarrow> p \<in> pts (TRange q)" by (simp add: Contains_def)
  from Cons show ?case
    by (simp add: type_at_append type_at_const Pts_Minus c del: mem_pts split: option.split)
qed simp

lemma map_ok_split:
  assumes "map_ok m" "valid_range (TRange r)"
  shows "map_ok (split_all m (TRange r) @ [r])"
  using assms Ranges_Minus_correct [of "phys_ranges m" "TRange r"]
  by (auto simp: map_ok_def phys_split_all disjoint_ranges_append simp del: mem_pts)

lemma map_ok_Insert:
  assumes "map_ok m" "valid_range (TRange r)"
  shows "map_ok (MemoryMap_Insert m r)"
  unfolding MemoryMap_Insert_def
  by (rule map_ok_perm [OF mm_sort.srt_perm [symmetric] map_ok_split [OF assms]])

lemma type_at_Insert:
  assumes "map_ok m" "valid_range (TRange r)"
  shows "type_at (MemoryMap_Insert m r) p =
    (if p \<in> pts (TRange r) then Some (TType r) else type_at m p)"
proof -
  have "type_at (MemoryMap_Insert m r) p = type_at (split_all m (TRange r) @ [r]) p"
    unfolding MemoryMap_Insert_def
    by (rule type_at_perm [OF mm_sort.srt_perm [symmetric] map_ok_split [OF assms], symmetric])
  also have "\<dots> = (if p \<in> pts (TRange r) then Some (TType r) else type_at m p)"
    using assms by (auto simp: type_at_append type_at_split_all map_ok_def Contains_def split: option.split)
  finally show ?thesis .
qed

end
