(* ===== verification/UserMem.thy ===== *)
theory UserMem imports Ranges begin

text \<open>
  The process memory that \<open>kexec\<close> segments point into. A Go \<open>[]byte\<close> is a slice header
  (pointer, length, capacity) over this memory; it is nil when its pointer is 0, which is how
  \<open>Range.toSlice\<close> builds one from raw addresses. \<open>append\<close> writes in place when the capacity
  allows it and otherwise moves the content to a new block. Where the Go allocator places a
  block is a parameter \<open>alloc\<close>; \<open>alloc_ok\<close> is what the language promises of it: a new block
  is large enough, does not wrap, and shares no address with a block handed out before.
\<close>

section \<open>Memory and slices\<close>

record heap =
  hmem :: "u64 \<Rightarrow> byte"
  hblocks :: Ranges

record gslice =
  sl_ptr :: u64
  sl_len :: u64
  sl_cap :: u64

type_synonym allocator = "heap \<Rightarrow> nat \<Rightarrow> (u64 \<times> u64) option"

definition gbytes :: "heap \<Rightarrow> gslice \<Rightarrow> byte list" where
  "gbytes h s = map (\<lambda>i. hmem h (sl_ptr s + word_of_nat i)) [0..<unat (sl_len s)]"

fun write_bytes :: "(u64 \<Rightarrow> byte) \<Rightarrow> u64 \<Rightarrow> byte list \<Rightarrow> (u64 \<Rightarrow> byte)" where
  "write_bytes m p [] = m"
| "write_bytes m p (b # bs) = write_bytes (m(p := b)) (p + 1) bs"

text \<open>\<open>append(s, bs...)\<close>: an allocation that fails is a run-time panic.\<close>

definition go_append :: "allocator \<Rightarrow> heap \<Rightarrow> gslice \<Rightarrow> byte list \<Rightarrow> (kexec_error, heap \<times> gslice) res" where
  "go_append alloc h s bs =
     (let n = unat (sl_len s) + length bs in
      if bs = [] then Ok (h, s)
      else if n \<le> unat (sl_cap s) then
        Ok (h\<lparr>hmem := write_bytes (hmem h) (sl_ptr s + sl_len s) bs\<rparr>, s\<lparr>sl_len := word_of_nat n\<rparr>)
      else
        (case alloc h n of
           None \<Rightarrow> Panic
         | Some (p, c) \<Rightarrow>
             Ok (\<lparr>hmem = write_bytes (hmem h) p (gbytes h s @ bs),
                  hblocks = \<lparr>Start = p, Size = c\<rparr> # hblocks h\<rparr>,
                 \<lparr>sl_ptr = p, sl_len = word_of_nat n, sl_cap = c\<rparr>)))"

text \<open>\<open>make([]byte, int(n))\<close>: a length that is negative as an \<open>int\<close> panics.\<close>

definition go_zeros :: "u64 \<Rightarrow> (kexec_error, byte list) res" where
  "go_zeros n = (if unat n < 2 ^ 63 then Ok (replicate (unat n) 0) else Panic)"

text \<open>\<open>s[i:j]\<close> is bounded by the capacity of \<open>s\<close>.\<close>

definition go_reslice :: "gslice \<Rightarrow> nat \<Rightarrow> nat \<Rightarrow> (kexec_error, gslice) res" where
  "go_reslice s i j =
     (if i \<le> j \<and> j \<le> unat (sl_cap s)
      then Ok \<lparr>sl_ptr = sl_ptr s + word_of_nat i, sl_len = word_of_nat (j - i),
               sl_cap = sl_cap s - word_of_nat i\<rparr>
      else Panic)"

definition toSlice :: "Range \<Rightarrow> gslice" where
  "toSlice r = \<lparr>sl_ptr = Start r, sl_len = Size r, sl_cap = Size r\<rparr>"

definition alloc_ok :: "allocator \<Rightarrow> bool" where
  "alloc_ok alloc \<longleftrightarrow> (\<forall>h n p c. alloc h n = Some (p, c) \<longrightarrow>
     p \<noteq> 0 \<and> n \<le> unat c \<and> valid_range \<lparr>Start = p, Size = c\<rparr> \<and>
     pts \<lparr>Start = p, Size = c\<rparr> \<inter> Pts (hblocks h) = {})"

text \<open>An allocator that satisfies \<open>alloc_ok\<close>: it places blocks one after another.\<close>

definition bump_alloc :: allocator where
  "bump_alloc h n =
     (let p = fold (\<lambda>r a. max a (End r)) (hblocks h) 65536
      in if unat p + n < 2 ^ 64 then Some (p, word_of_nat n) else None)"

lemma fold_max_ge: "a \<le> fold (\<lambda>r a. max a (End r)) rs (a :: u64)"
  "r \<in> set rs \<Longrightarrow> End r \<le> fold (\<lambda>r a. max a (End r)) rs (a :: u64)"
proof (induction rs arbitrary: a)
  case (Cons q rs)
  {
    case 1
    show ?case using Cons.IH(1) [of "max a (End q)"] by simp
  next
    case 2
    then show ?case
      using Cons.IH(1) [of "max a (End q)"] Cons.IH(2) [of "max a (End q)"] by auto
  }
qed auto

lemma bump_alloc_ok: "alloc_ok bump_alloc"
  unfolding alloc_ok_def
proof (intro allI impI)
  fix h n p c
  assume "bump_alloc h n = Some (p, c)"
  then have p: "p = fold (\<lambda>r a. max a (End r)) (hblocks h) 65536"
    and l: "unat p + n < 2 ^ 64" and c: "c = word_of_nat n"
    by (auto simp: bump_alloc_def Let_def split: if_splits)
  have uc: "unat c = n" using l by (simp add: c unat_of_nat take_bit_eq_mod)
  have "65536 \<le> p" unfolding p by (rule fold_max_ge(1))
  then have "p \<noteq> 0" by auto
  moreover have "\<not> (q \<in> pts \<lparr>Start = p, Size = c\<rparr> \<and> q \<in> Pts (hblocks h))" for q
    using fold_max_ge(2) [of _ "hblocks h" 65536] unfolding Pts_def p [symmetric]
    by fastforce
  ultimately show "p \<noteq> 0 \<and> n \<le> unat c \<and> valid_range \<lparr>Start = p, Size = c\<rparr> \<and>
     pts \<lparr>Start = p, Size = c\<rparr> \<inter> Pts (hblocks h) = {}"
    using uc l by (auto simp: valid_range_def simp del: mem_pts)
qed

section \<open>What writes and appends do\<close>

lemma write_bytes_out:
  "(\<forall>i < length bs. q \<noteq> p + word_of_nat i) \<Longrightarrow> write_bytes m p bs q = m q"
proof (induction bs arbitrary: m p)
  case (Cons b bs)
  have "q \<noteq> p + 1 + word_of_nat i" if "i < length bs" for i
    using Cons.prems [rule_format, of "Suc i"] that by (simp add: add.assoc)
  then have "write_bytes (m(p := b)) (p + 1) bs q = (m(p := b)) q"
    by (intro Cons.IH) simp
  moreover have "q \<noteq> p" using Cons.prems [rule_format, of 0] by simp
  ultimately show ?case by simp
qed simp

lemma word_add_of_nat_inject:
  "i < 2 ^ 64 \<Longrightarrow> j < 2 ^ 64 \<Longrightarrow> (p :: u64) + word_of_nat i = p + word_of_nat j \<longleftrightarrow> i = j"
  by (simp add: word_of_nat_eq_iff take_bit_eq_mod)

lemma write_bytes_in:
  "length bs < 2 ^ 64 \<Longrightarrow> i < length bs \<Longrightarrow> write_bytes m p bs (p + word_of_nat i) = bs ! i"
proof (induction bs arbitrary: m p i)
  case (Cons b bs)
  show ?case
  proof (cases i)
    case 0
    have "p \<noteq> p + 1 + word_of_nat j" if "j < length bs" for j
      using word_add_of_nat_inject [of 0 "Suc j" p] that Cons.prems(1) by (simp add: add.assoc)
    then show ?thesis by (simp add: 0 write_bytes_out)
  next
    case (Suc j)
    then have "write_bytes (m(p := b)) (p + 1) bs (p + 1 + word_of_nat j) = bs ! j"
      using Cons.prems by (intro Cons.IH) simp_all
    then show ?thesis by (simp add: Suc add.assoc del: fun_upd_apply)
  qed
qed simp

lemma length_gbytes [simp]: "length (gbytes h s) = unat (sl_len s)"
  by (simp add: gbytes_def)

lemma gbytes_cong:
  "(\<And>i. i < unat (sl_len s) \<Longrightarrow> hmem h' (sl_ptr s + word_of_nat i) = hmem h (sl_ptr s + word_of_nat i))
   \<Longrightarrow> gbytes h' s = gbytes h s"
  by (simp add: gbytes_def)

lemma block_pts:
  assumes "valid_range \<lparr>Start = p, Size = c\<rparr>" "i < unat c"
  shows "p + word_of_nat i \<in> pts \<lparr>Start = p, Size = c\<rparr>"
proof -
  have "unat (p + word_of_nat i) = unat p + i"
    using assms by (simp add: valid_range_def unat_word_ariths unat_of_nat take_bit_eq_mod)
  then show ?thesis using assms unat_End [OF assms(1)] by (simp add: word_nat_alts)
qed

lemma range_pts: "valid_range r \<Longrightarrow> i < unat (Size r) \<Longrightarrow> Start r + word_of_nat i \<in> pts r"
  using block_pts [of "Start r" "Size r" i] by (cases r) (simp del: mem_pts)

text \<open>
  A slice that a sequence of appends has made out of \<open>s0\<close>: it holds \<open>c\<close>, nothing that was
  allocated in \<open>h0\<close> has changed, and the slice is \<open>s0\<close> itself or a block of its own.
\<close>

definition live :: "heap \<Rightarrow> u64 set" where
  "live h = Pts (hblocks h)"

definition agrees :: "heap \<Rightarrow> heap \<Rightarrow> bool" where
  "agrees h0 h \<longleftrightarrow> live h0 \<subseteq> live h \<and> (\<forall>q \<in> live h0. hmem h q = hmem h0 q)"

definition own_block :: "heap \<Rightarrow> heap \<Rightarrow> gslice \<Rightarrow> bool" where
  "own_block h0 h s \<longleftrightarrow>
     (let blk = \<lparr>Start = sl_ptr s, Size = sl_cap s\<rparr>
      in sl_ptr s \<noteq> 0 \<and> valid_range blk \<and> sl_len s \<le> sl_cap s \<and>
         pts blk \<inter> live h0 = {} \<and> pts blk \<subseteq> live h)"

definition grown :: "heap \<Rightarrow> gslice \<Rightarrow> heap \<Rightarrow> gslice \<Rightarrow> byte list \<Rightarrow> bool" where
  "grown h0 s0 h s c \<longleftrightarrow> agrees h0 h \<and> gbytes h s = c \<and> (s = s0 \<or> own_block h0 h s)"

lemma agrees_refl [simp]: "agrees h h"
  by (simp add: agrees_def)

lemma agrees_trans: "agrees h0 h1 \<Longrightarrow> agrees h1 h2 \<Longrightarrow> agrees h0 h2"
  by (auto simp: agrees_def)

lemma agrees_gbytes:
  assumes "agrees h0 h" "\<And>i. i < unat (sl_len s) \<Longrightarrow> sl_ptr s + word_of_nat i \<in> live h0"
  shows "gbytes h s = gbytes h0 s"
  using assms by (intro gbytes_cong) (simp add: agrees_def)

lemma gbytes_written:
  assumes "bs \<noteq> []" "unat (sl_len s) + length bs < 2 ^ 64"
  shows "gbytes (h\<lparr>hmem := write_bytes (hmem h) (sl_ptr s + sl_len s) bs\<rparr>)
           (s\<lparr>sl_len := word_of_nat (unat (sl_len s) + length bs)\<rparr>) = gbytes h s @ bs"
    (is "gbytes ?h ?s = _")
proof (rule nth_equalityI)
  have l: "unat (sl_len ?s) = unat (sl_len s) + length bs"
    using unat_of_nat64 [OF assms(2)] by (simp del: of_nat_add)
  then show "length (gbytes ?h ?s) = length (gbytes h s @ bs)" by simp
  fix i assume "i < length (gbytes ?h ?s)"
  then have i: "i < unat (sl_len s) + length bs" using l by simp
  have nth: "gbytes ?h ?s ! i = write_bytes (hmem h) (sl_ptr s + sl_len s) bs (sl_ptr s + word_of_nat i)"
    using i l by (simp add: gbytes_def)
  show "gbytes ?h ?s ! i = (gbytes h s @ bs) ! i"
  proof (cases "i < unat (sl_len s)")
    case True
    have "sl_ptr s + word_of_nat i \<noteq> sl_ptr s + sl_len s + word_of_nat j" if "j < length bs" for j
      using word_add_of_nat_inject [of i "unat (sl_len s) + j" "sl_ptr s"] True that assms(2)
      by (simp add: add.assoc)
    with True nth show ?thesis
      by (simp add: write_bytes_out nth_append) (simp add: gbytes_def)
  next
    case False
    then obtain j where j: "i = unat (sl_len s) + j" "j < length bs"
      using i by (metis add_diff_inverse_nat nat_add_left_cancel_less)
    with nth assms(2) show ?thesis
      using write_bytes_in [of bs j "hmem h" "sl_ptr s + sl_len s"]
      by (simp add: nth_append add.assoc)
  qed
qed

lemma gbytes_fresh:
  assumes "length bs < 2 ^ 64" "hmem h = write_bytes m p bs"
  shows "gbytes h \<lparr>sl_ptr = p, sl_len = word_of_nat (length bs), sl_cap = c\<rparr> = bs"
  using assms
  by (intro nth_equalityI)
    (simp_all add: gbytes_def unat_of_nat take_bit_eq_mod write_bytes_in)

lemma write_block_out:
  assumes "valid_range \<lparr>Start = p, Size = c\<rparr>" "k + length bs \<le> unat c"
    "q \<notin> pts \<lparr>Start = p, Size = c\<rparr>"
  shows "write_bytes m (p + word_of_nat k) bs q = m q"
proof (rule write_bytes_out, intro allI impI notI)
  fix i assume "i < length bs" "q = p + word_of_nat k + word_of_nat i"
  then have "q = p + word_of_nat (k + i)" by (simp add: add.assoc)
  then have "q \<in> pts \<lparr>Start = p, Size = c\<rparr>"
    using block_pts [OF assms(1), of "k + i"] assms(2) \<open>i < length bs\<close> by simp
  with assms(3) show False ..
qed

lemma append_in_place:
  assumes "agrees h0 h" "own_block h0 h s" "bs \<noteq> []"
    and fit: "unat (sl_len s) + length bs \<le> unat (sl_cap s)"
    and h': "h' = h\<lparr>hmem := write_bytes (hmem h) (sl_ptr s + sl_len s) bs\<rparr>"
    and s': "s' = s\<lparr>sl_len := word_of_nat (unat (sl_len s) + length bs)\<rparr>"
  shows "grown h0 s0 h' s' (gbytes h s @ bs)"
proof -
  have o: "sl_ptr s \<noteq> 0" "valid_range \<lparr>Start = sl_ptr s, Size = sl_cap s\<rparr>"
    "pts \<lparr>Start = sl_ptr s, Size = sl_cap s\<rparr> \<inter> live h0 = {}"
    "pts \<lparr>Start = sl_ptr s, Size = sl_cap s\<rparr> \<subseteq> live h"
    using assms(2) by (simp_all add: own_block_def Let_def)
  have lt: "unat (sl_len s) + length bs < 2 ^ 64"
    using fit by (rule le_less_trans) simp
  have out: "hmem h' q = hmem h q" if "q \<in> live h0" for q
    using write_block_out [OF o(2), of "unat (sl_len s)" bs q "hmem h"] fit that o(3)
    by (auto simp: h' simp del: mem_pts)
  have lv: "live h' = live h" by (simp add: live_def h')
  have a: "agrees h0 h'" using assms(1) out by (simp add: agrees_def lv)
  have c: "gbytes h' s' = gbytes h s @ bs"
    unfolding h' s' by (rule gbytes_written [OF assms(3) lt])
  have "unat (sl_len s') = unat (sl_len s) + length bs"
    using unat_of_nat64 [OF lt] by (simp add: s' del: of_nat_add)
  then have "own_block h0 h' s'"
    using o fit by (simp add: own_block_def Let_def lv s' word_le_nat_alt)
  with a c show ?thesis by (simp add: grown_def)
qed

lemma append_move:
  assumes "alloc_ok alloc" "agrees h0 h" "alloc h n = Some (p, c)"
    and n: "n = unat (sl_len s) + length bs"
    and h': "h' = \<lparr>hmem = write_bytes (hmem h) p (gbytes h s @ bs),
                  hblocks = \<lparr>Start = p, Size = c\<rparr> # hblocks h\<rparr>"
    and s': "s' = \<lparr>sl_ptr = p, sl_len = word_of_nat n, sl_cap = c\<rparr>"
  shows "grown h0 s0 h' s' (gbytes h s @ bs)"
proof -
  from assms(1,3) have b: "p \<noteq> 0" "n \<le> unat c" "valid_range \<lparr>Start = p, Size = c\<rparr>"
    "pts \<lparr>Start = p, Size = c\<rparr> \<inter> live h = {}"
    unfolding alloc_ok_def live_def by blast+
  have lt: "n < 2 ^ 64" using b(2) by (rule le_less_trans) simp
  have sub: "live h0 \<subseteq> live h" using assms(2) by (simp add: agrees_def)
  have out: "hmem h' q = hmem h q" if "q \<in> live h" for q
    using write_block_out [OF b(3), of 0 "gbytes h s @ bs" q "hmem h"] b(2,4) that n
    by (auto simp: h' simp del: mem_pts)
  have lv: "live h' = pts \<lparr>Start = p, Size = c\<rparr> \<union> live h" by (simp add: live_def h')
  have a: "agrees h0 h'" using assms(2) out sub by (auto simp: agrees_def lv simp del: mem_pts)
  have c: "gbytes h' s' = gbytes h s @ bs"
    using gbytes_fresh [of "gbytes h s @ bs" h' "hmem h" p c] lt by (simp add: h' s' n)
  have "unat (sl_len s') = n" using lt by (simp add: s' unat_of_nat take_bit_eq_mod)
  then have "own_block h0 h' s'"
    using b sub by (auto simp: own_block_def Let_def lv s' word_le_nat_alt simp del: mem_pts)
  with a c show ?thesis by (simp add: grown_def)
qed

text \<open>Every append keeps \<open>grown\<close>, provided the slice it started from had no spare capacity.\<close>

lemma go_append_grown:
  assumes "alloc_ok alloc" "grown h0 s0 h s c" "sl_cap s0 = sl_len s0"
    and r: "go_append alloc h s bs = Ok (h', s')"
  shows "grown h0 s0 h' s' (c @ bs)"
proof -
  from assms(2) have a: "agrees h0 h" and c: "c = gbytes h s" and o: "s = s0 \<or> own_block h0 h s"
    by (simp_all add: grown_def)
  show ?thesis
  proof (cases "bs = []")
    case True
    with r assms(2) show ?thesis by (simp add: go_append_def Let_def)
  next
    case False
    show ?thesis
    proof (cases "unat (sl_len s) + length bs \<le> unat (sl_cap s)")
      case True
      have "s \<noteq> s0" using True False assms(3) by auto
      with o have ob: "own_block h0 h s" by simp
      have h': "h' = h\<lparr>hmem := write_bytes (hmem h) (sl_ptr s + sl_len s) bs\<rparr>"
        and s': "s' = s\<lparr>sl_len := word_of_nat (unat (sl_len s) + length bs)\<rparr>"
        using r True False by (simp_all add: go_append_def Let_def)
      show ?thesis unfolding c by (rule append_in_place [OF a ob False True h' s'])
    next
      case big: False
      then obtain p k where al: "alloc h (unat (sl_len s) + length bs) = Some (p, k)"
        using r False by (auto simp: go_append_def Let_def split: option.splits)
      have h': "h' = \<lparr>hmem = write_bytes (hmem h) p (gbytes h s @ bs),
                  hblocks = \<lparr>Start = p, Size = k\<rparr> # hblocks h\<rparr>"
        and s': "s' = \<lparr>sl_ptr = p, sl_len = word_of_nat (unat (sl_len s) + length bs), sl_cap = k\<rparr>"
        using r al big False by (simp_all add: go_append_def Let_def)
      show ?thesis unfolding c by (rule append_move [OF assms(1) a al refl h' s'])
    qed
  qed
qed

end
