(* ===== verification/Segments.thy ===== *)
theory Segments imports MemoryMap UserMem begin

text \<open>
  \<open>pkg/boot/kexec/memory_linux.go\<close>, kexec segments: \<open>Segment\<close>, \<open>NewSegment\<close>,
  \<open>AlignPhysStart\<close>, \<open>mergeDisjoint\<close>, \<open>AlignAndMerge\<close> and the queries on \<open>Segments\<close>.
  A segment list is read as the physical memory it loads (\<open>image\<close>): \<open>kexec_load\<close> copies
  the buffer and fills the rest of the physical range with zeros.
\<close>

section \<open>Segments\<close>

record Segment =
  Buf :: Range
  Phys :: Range

type_synonym Segments = "Segment list"

definition pageMask :: u64 where
  "pageMask = pageSize - 1"

definition NewSegment :: "gslice \<Rightarrow> Range \<Rightarrow> (kexec_error, Segment) res" where
  "NewSegment buf phys =
     (if sl_ptr buf = 0 then Ok \<lparr>Buf = \<lparr>Start = 0, Size = 0\<rparr>, Phys = phys\<rparr>
      else if sl_len buf = 0 then Panic
      else Ok \<lparr>Buf = \<lparr>Start = sl_ptr buf, Size = sl_len buf\<rparr>, Phys = phys\<rparr>)"

definition AlignPhysStart :: "Segment \<Rightarrow> (kexec_error, Segment) res" where
  "AlignPhysStart s =
     (let orig = Start (Phys s);
          start = orig AND NOT pageMask;
          diff = orig - start;
          phys = \<lparr>Start = start, Size = Size (Phys s) + diff\<rparr>
      in if Start (Buf s) < diff \<and> diff > 0 then Panic
         else Ok \<lparr>Buf = \<lparr>Start = Start (Buf s) - diff,
                         Size = (if Size (Buf s) > 0 then Size (Buf s) + diff else Size (Buf s))\<rparr>,
                  Phys = phys\<rparr>)"

definition realBufPad :: "allocator \<Rightarrow> heap \<Rightarrow> Segment \<Rightarrow> (kexec_error, heap \<times> gslice) res" where
  "realBufPad alloc h s =
     (if Size (Buf s) = Size (Phys s) then Ok (h, toSlice (Buf s))
      else if Size (Buf s) < Size (Phys s) then
        rbind (go_zeros (Size (Phys s) - Size (Buf s)))
          (\<lambda>z. go_append alloc h (toSlice (Buf s)) z)
      else rbind (go_reslice (toSlice (Buf s)) 0 (unat (Size (Phys s)))) (\<lambda>b. Ok (h, b)))"

definition realBufTruncate :: "Segment \<Rightarrow> (kexec_error, gslice) res" where
  "realBufTruncate s =
     (if Size (Buf s) = Size (Phys s) then Ok (toSlice (Buf s))
      else if Size (Buf s) < Size (Phys s) then Ok (toSlice (Buf s))
      else go_reslice (toSlice (Buf s)) 0 (unat (Size (Phys s))))"

text \<open>The result is the heap, the boolean the method returns, and the updated receiver.\<close>

definition mergeDisjoint ::
    "allocator \<Rightarrow> heap \<Rightarrow> Segment \<Rightarrow> Segment \<Rightarrow> (kexec_error, heap \<times> bool \<times> Segment) res" where
  "mergeDisjoint alloc h s s2 =
     (if Overlaps (Phys s) (Phys s2) then Ok (h, False, s)
      else if Start (Phys s) > Start (Phys s2) then Ok (h, False, s)
      else
        rbind (realBufPad alloc h s) (\<lambda>(h1, a).
        rbind (realBufTruncate s2) (\<lambda>b.
        let diffSize = Start (Phys s2) - End (Phys s) in
        rbind (go_zeros diffSize) (\<lambda>z.
        rbind (go_append alloc h1 a z) (\<lambda>(h2, buf).
        rbind (go_append alloc h2 buf (gbytes h2 b)) (\<lambda>(h3, buf').
        let phys = (Phys s)\<lparr>Size := Size (Phys s) + (diffSize + Size (Phys s2))\<rparr> in
        rbind (NewSegment buf' phys) (\<lambda>s'. Ok (h3, True, s'))))))))"

section \<open>AlignAndMerge\<close>

definition seg_less :: "Segment \<Rightarrow> Segment \<Rightarrow> bool" where
  "seg_less a b = range_less (Phys a) (Phys b)"

text \<open>The first loop: neighbours in the sorted order must not overlap.\<close>

fun check_overlaps :: "Segments \<Rightarrow> (kexec_error, unit) res" where
  "check_overlaps (s # t # segs) =
     (if Overlaps (Phys s) (Phys t) then Err (ErrPhysOverlap (Buf s, Phys s) (Buf t, Phys t))
      else check_overlaps (t # segs))"
| "check_overlaps segs = Ok ()"

text \<open>
  The second loop. \<open>newSegs\<close> without its last element is \<open>acc\<close>, its last element is \<open>l\<close>.
\<close>

fun merge_loop ::
    "allocator \<Rightarrow> heap \<Rightarrow> Segments \<Rightarrow> Segment \<Rightarrow> Segments \<Rightarrow> (kexec_error, heap \<times> Segments) res" where
  "merge_loop alloc h acc l [] = Ok (h, acc @ [l])"
| "merge_loop alloc h acc l (s # segs) =
     rbind (AlignPhysStart s) (\<lambda>cand.
       if Overlaps (Phys cand) (Phys l) then
         rbind (mergeDisjoint alloc h l s) (\<lambda>(h', ok, l').
           if \<not> ok then Err ErrMergeDisjoint else merge_loop alloc h' acc l' segs)
       else merge_loop alloc h (acc @ [l]) cand segs)"

text \<open>The third loop: curtail the buffer, then round the physical size up.\<close>

definition alignSize :: "Segment \<Rightarrow> Segment" where
  "alignSize s =
     (let buf = (if Size (Buf s) > Size (Phys s) then (Buf s)\<lparr>Size := Size (Phys s)\<rparr> else Buf s)
      in \<lparr>Buf = buf, Phys = (Phys s)\<lparr>Size := UpPage (Size (Phys s))\<rparr>\<rparr>)"

definition AlignAndMerge :: "allocator \<Rightarrow> heap \<Rightarrow> Segments \<Rightarrow> (kexec_error, heap \<times> Segments) res" where
  "AlignAndMerge alloc h segs =
     (case sort_slice seg_less segs of
        [] \<Rightarrow> Ok (h, [])
      | s # rest \<Rightarrow>
          rbind (check_overlaps (s # rest)) (\<lambda>_.
          rbind (AlignPhysStart s) (\<lambda>first.
          rbind (merge_loop alloc h [] first rest) (\<lambda>(h', newSegs).
            Ok (h', map alignSize newSegs)))))"

section \<open>Queries and insertion\<close>

definition PhysContains :: "Segments \<Rightarrow> u64 \<Rightarrow> bool" where
  "PhysContains segs p = list_ex (\<lambda>s. Contains (Phys s) p) segs"

definition Segments_Phys :: "Segments \<Rightarrow> Ranges" where
  "Segments_Phys segs = map Phys segs"

text \<open>\<open>GetPhys\<close> returns \<open>None\<close> for a nil slice.\<close>

fun GetPhys :: "Segments \<Rightarrow> Range \<Rightarrow> (kexec_error, gslice option) res" where
  "GetPhys [] r = Ok None"
| "GetPhys (seg # segs) r =
     (if IsSupersetOf (Phys seg) r then
        (let offset = Start r - Start (Phys seg) in
         rbind (go_reslice (toSlice (Buf seg)) (unat offset) (unat offset + unat (Size r)))
           (\<lambda>b. Ok (if sl_ptr b = 0 then None else Some b)))
      else GetPhys segs r)"

fun Segments_IsSupersetOf :: "heap \<Rightarrow> Segments \<Rightarrow> Segments \<Rightarrow> (kexec_error, unit) res" where
  "Segments_IsSupersetOf h segs [] = Ok ()"
| "Segments_IsSupersetOf h segs (seg # rest) =
     (let size = minuint (Size (Phys seg)) (Size (Buf seg)) in
      if size = 0 then Segments_IsSupersetOf h segs rest
      else
        (let r = \<lparr>Start = Start (Phys seg), Size = size\<rparr> in
         rbind (GetPhys segs r) (\<lambda>buf.
           case buf of
             None \<Rightarrow> Err (ErrPhysNotFound r)
           | Some b \<Rightarrow>
               rbind (go_reslice (toSlice (Buf seg)) 0 (unat size)) (\<lambda>want.
                 if gbytes h b \<noteq> gbytes h want then Err (ErrPhysDiffers r)
                 else Segments_IsSupersetOf h segs rest))))"

definition seg_start_less :: "Segment \<Rightarrow> Segment \<Rightarrow> bool" where
  "seg_start_less a b \<longleftrightarrow> Start (Phys a) < Start (Phys b)"

definition Segments_sort :: "Segments \<Rightarrow> Segments" where
  "Segments_sort segs = sort_slice seg_start_less segs"

definition Segments_Insert :: "Segments \<Rightarrow> Segment \<Rightarrow> Segments" where
  "Segments_Insert segs s = Segments_sort (segs @ [s])"

section \<open>The physical memory a segment list loads\<close>

text \<open>What \<open>kexec_load\<close> puts at physical address \<open>p\<close>, when some segment covers it.\<close>

definition seg_byte :: "heap \<Rightarrow> Segment \<Rightarrow> u64 \<Rightarrow> byte" where
  "seg_byte h s p =
     (let off = p - Start (Phys s)
      in if off < Size (Buf s) then hmem h (Start (Buf s) + off) else 0)"

fun image :: "heap \<Rightarrow> Segments \<Rightarrow> u64 \<Rightarrow> byte option" where
  "image h [] p = None"
| "image h (s # segs) p = (if Contains (Phys s) p then Some (seg_byte h s p) else image h segs p)"

end
