(* ===== verification/AlignMerge.thy ===== *)
theory AlignMerge imports Segments begin

text \<open>
  Correctness of \<open>AlignAndMerge\<close>: the segments it returns start and end on page
  boundaries, are sorted and disjoint, and load every byte of the input segments unchanged,
  however the allocator places the merged buffers.
\<close>

section \<open>Aligning the start of a segment\<close>

lemma pageMask_mask: "pageMask = mask 12"
  by (simp add: pageMask_def pageSize_def mask_eq_exp_minus_1)

lemma unat_page_down: "unat (x AND NOT pageMask) = unat x div 4096 * 4096"
  using unat_and_not_mask [of x 12] by (simp add: pageMask_mask)

definition seg_ok :: "Segment \<Rightarrow> bool" where
  "seg_ok s \<longleftrightarrow> valid_range (Phys s) \<and> Size (Phys s) \<noteq> 0 \<and> unat (End (Phys s)) + 4095 < 2 ^ 64 \<and>
     valid_range (Buf s) \<and> Size (Buf s) \<le> Size (Phys s) \<and>
     (Size (Buf s) \<noteq> 0 \<longrightarrow> 4096 \<le> unat (Start (Buf s)))"

lemma AlignPhysStart_geometry:
  assumes "AlignPhysStart s = Ok c" "valid_range (Phys s)"
  shows "4096 dvd unat (Start (Phys c))" and "End (Phys c) = End (Phys s)"
    and "unat (Start (Phys c)) \<le> unat (Start (Phys s))"
    and "unat (Start (Phys s)) < unat (Start (Phys c)) + 4096"
    and "valid_range (Phys c)"
    and "Start (Phys c) = Start (Phys s) AND NOT pageMask"
    and "unat (Size (Phys c)) = unat (Size (Phys s)) + (unat (Start (Phys s)) - unat (Start (Phys c)))"
proof -
  let ?S = "Start (Phys s)"
  have c: "Start (Phys c) = ?S AND NOT pageMask" "Size (Phys c) = Size (Phys s) + (?S - Start (Phys c))"
    using assms(1) by (auto simp: AlignPhysStart_def Let_def split: if_splits)
  show "Start (Phys c) = Start (Phys s) AND NOT pageMask" by (rule c(1))
  have u: "unat (Start (Phys c)) = unat ?S div 4096 * 4096"
    by (simp add: c(1) unat_page_down)
  then show "4096 dvd unat (Start (Phys c))" by simp
  show le: "unat (Start (Phys c)) \<le> unat ?S" using u by simp
  show "unat ?S < unat (Start (Phys c)) + 4096"
    using u div_mult_mod_eq [of "unat ?S" 4096] mod_less_divisor [of 4096 "unat ?S"] by linarith
  show e: "End (Phys c) = End (Phys s)" by (simp add: End_def c(2))
  have "unat (?S - Start (Phys c)) = unat ?S - unat (Start (Phys c))"
    using le by (simp add: unat_sub word_le_nat_alt)
  moreover have "unat (Size (Phys s)) + (unat ?S - unat (Start (Phys c))) < 2 ^ 64"
    using assms(2) le by (simp add: valid_range_def)
  ultimately show sz: "unat (Size (Phys c)) = unat (Size (Phys s)) + (unat ?S - unat (Start (Phys c)))"
    by (simp add: c(2) unat_word_ariths)
  show "valid_range (Phys c)"
    using assms(2) le sz by (simp add: valid_range_def)
qed

lemma unat_offset: "Start r \<le> p \<Longrightarrow> unat (p - Start r) = unat p - unat (Start r)"
  by (simp add: unat_sub)

lemma AlignPhysStart_byte:
  assumes "AlignPhysStart s = Ok c" "valid_range (Phys s)" "Size (Buf s) \<le> Size (Phys s)"
    and "p \<in> pts (Phys s)"
  shows "p - Start (Phys c) < Size (Buf c) \<longleftrightarrow> p - Start (Phys s) < Size (Buf s)"
    and "Start (Buf c) + (p - Start (Phys c)) = Start (Buf s) + (p - Start (Phys s))"
    and "Size (Buf c) \<le> Size (Phys c)"
proof -
  note g = AlignPhysStart_geometry [OF assms(1,2)]
  define d where "d = Start (Phys s) - Start (Phys c)"
  have b: "Start (Buf c) = Start (Buf s) - d"
    "Size (Buf c) = (if Size (Buf s) > 0 then Size (Buf s) + d else Size (Buf s))"
    using assms(1) by (auto simp: AlignPhysStart_def Let_def d_def split: if_splits)
  have off: "p - Start (Phys c) = (p - Start (Phys s)) + d" by (simp add: d_def)
  show "Start (Buf c) + (p - Start (Phys c)) = Start (Buf s) + (p - Start (Phys s))"
    by (simp add: b off)
  have ud: "unat d = unat (Start (Phys s)) - unat (Start (Phys c))"
    using g(3) by (simp add: d_def unat_sub word_le_nat_alt)
  have bd: "unat (Size (Buf s)) + unat d < 2 ^ 64"
    using assms(2,3) ud g(3) by (simp add: valid_range_def word_le_nat_alt)
  then have ub: "unat (Size (Buf s) + d) = unat (Size (Buf s)) + unat d"
    by (simp add: unat_word_ariths)
  have up: "unat (p - Start (Phys c)) = unat (p - Start (Phys s)) + unat d"
    using assms(4) g(3) ud unat_offset [of "Phys s" p] unat_offset [of "Phys c" p]
    by (simp add: word_nat_alts)
  show "p - Start (Phys c) < Size (Buf c) \<longleftrightarrow> p - Start (Phys s) < Size (Buf s)"
    using ub up by (auto simp: b word_less_nat_alt)
  show "Size (Buf c) \<le> Size (Phys c)"
    using assms(3) g(7) ub ud by (auto simp: b word_nat_alts)
qed

lemma AlignPhysStart_seg_byte:
  assumes "AlignPhysStart s = Ok c" "seg_ok s" "p \<in> pts (Phys s)"
  shows "seg_byte h c p = seg_byte h s p"
proof -
  from assms(2) have v: "valid_range (Phys s)" "Size (Buf s) \<le> Size (Phys s)"
    by (simp_all add: seg_ok_def)
  show ?thesis
    unfolding seg_byte_def Let_def AlignPhysStart_byte(1,2) [OF assms(1) v assms(3)] ..
qed

section \<open>Overlap checks on sorted segments\<close>

text \<open>Each segment ends before every later one starts.\<close>

definition chain :: "Segments \<Rightarrow> bool" where
  "chain segs \<longleftrightarrow> sorted_wrt (\<lambda>a b. unat (End (Phys a)) \<le> unat (Start (Phys b))) segs"

lemma chain_simps [simp]:
  "chain []" "chain (s # segs) \<longleftrightarrow> (\<forall>t \<in> set segs. unat (End (Phys s)) \<le> unat (Start (Phys t))) \<and> chain segs"
  "chain (xs @ ys) \<longleftrightarrow> chain xs \<and> chain ys \<and> (\<forall>x \<in> set xs. \<forall>y \<in> set ys. unat (End (Phys x)) \<le> unat (Start (Phys y)))"
  by (auto simp: chain_def sorted_wrt_append)

lemma weak_order_seg_less: "weak_order seg_less"
  by (auto simp: weak_order_def seg_less_def range_less_def split: if_splits)

interpretation seg_sort: slice_sort seg_less "sort_slice seg_less"
  by (rule sort_slice_contract [OF weak_order_seg_less])

lemma Overlaps_unat:
  assumes "valid_range r" "valid_range r2"
  shows "Overlaps r r2 \<longleftrightarrow> unat (Start r) < unat (End r2) \<and> unat (Start r2) < unat (End r)"
  by (simp add: Overlaps_def word_less_nat_alt)

lemma check_overlaps_chain:
  assumes "sorted_wrt (\<lambda>x y. \<not> seg_less y x) segs" "\<forall>s \<in> set segs. valid_range (Phys s) \<and> Size (Phys s) \<noteq> 0"
    and "check_overlaps segs = Ok ()"
  shows "chain segs"
  using assms
proof (induction segs rule: check_overlaps.induct)
  case (1 s t segs)
  then have ch: "chain (t # segs)" and no: "\<not> Overlaps (Phys s) (Phys t)"
    by (auto split: if_splits)
  have v: "valid_range (Phys s)" "valid_range (Phys t)" and nz: "0 < unat (Size (Phys t))"
    using 1(3) by (auto simp: unat_gt_0)
  have le: "unat (Start (Phys s)) \<le> unat (Start (Phys t))"
    using 1(2) by (auto simp: seg_less_def range_less_def word_less_nat_alt split: if_splits)
  have st: "unat (End (Phys s)) \<le> unat (Start (Phys t))"
    using no le nz unat_End [OF v(2)] by (simp add: Overlaps_unat v)
  moreover have "unat (Start (Phys t)) \<le> unat (End (Phys t))"
    using v(2) by (simp add: unat_End)
  moreover from ch have "\<forall>u \<in> set segs. unat (End (Phys t)) \<le> unat (Start (Phys u))" by simp
  ultimately have "\<forall>u \<in> set segs. unat (End (Phys s)) \<le> unat (Start (Phys u))" by fastforce
  with ch st show ?case by simp
qed auto

lemma check_overlaps_cases:
  "check_overlaps segs = Ok () \<or>
   (\<exists>s t us vs. segs = us @ s # t # vs \<and> Overlaps (Phys s) (Phys t) \<and>
      check_overlaps segs = Err (ErrPhysOverlap (Buf s, Phys s) (Buf t, Phys t)))"
proof (induction segs rule: check_overlaps.induct)
  case (1 s t segs)
  show ?case
  proof (cases "Overlaps (Phys s) (Phys t)")
    case True
    then show ?thesis by fastforce
  next
    case False
    with 1 show ?thesis by (simp, metis append_Cons)
  qed
qed auto

lemma chain_disjoint:
  assumes "chain segs" "\<forall>s \<in> set segs. valid_range (Phys s)"
  shows "disjoint_ranges (Segments_Phys segs)"
  using assms
proof (induction segs)
  case Nil
  then show ?case by (simp add: Segments_Phys_def)
next
  case (Cons s segs)
  have "pts (Phys s) \<inter> pts (Phys t) = {}" if "t \<in> set segs" for t
    using Cons.prems that by (fastforce simp: word_nat_alts)
  with Cons show ?case by (auto simp: Segments_Phys_def Pts_def simp del: mem_pts)
qed

section \<open>Merging\<close>

text \<open>
  The bytes of a segment at the points \<open>D\<close> are those of \<open>want\<close> and, where they come from the
  buffer, they come from an allocated block.
\<close>

definition seg_good :: "heap \<Rightarrow> u64 set \<Rightarrow> (u64 \<Rightarrow> byte) \<Rightarrow> Segment \<Rightarrow> bool" where
  "seg_good h D want s \<longleftrightarrow> (\<forall>p \<in> D \<inter> pts (Phys s).
     seg_byte h s p = want p \<and>
     (p - Start (Phys s) < Size (Buf s) \<longrightarrow> Start (Buf s) + (p - Start (Phys s)) \<in> live h))"

lemma seg_good_mono: "agrees h h' \<Longrightarrow> seg_good h D want s \<Longrightarrow> seg_good h' D want s"
  unfolding seg_good_def
proof
  fix p assume a: "agrees h h'" and p: "p \<in> D \<inter> pts (Phys s)"
    and g: "\<forall>p \<in> D \<inter> pts (Phys s). seg_byte h s p = want p \<and>
      (p - Start (Phys s) < Size (Buf s) \<longrightarrow> Start (Buf s) + (p - Start (Phys s)) \<in> live h)"
  from g p have e: "seg_byte h s p = want p"
    and l: "p - Start (Phys s) < Size (Buf s) \<Longrightarrow> Start (Buf s) + (p - Start (Phys s)) \<in> live h"
    by blast+
  from a have m: "q \<in> live h \<Longrightarrow> hmem h' q = hmem h q" "q \<in> live h \<Longrightarrow> q \<in> live h'" for q
    unfolding agrees_def by blast+
  show "seg_byte h' s p = want p \<and>
    (p - Start (Phys s) < Size (Buf s) \<longrightarrow> Start (Buf s) + (p - Start (Phys s)) \<in> live h')"
  proof (cases "p - Start (Phys s) < Size (Buf s)")
    case True
    with l m e show ?thesis by (simp add: seg_byte_def Let_def)
  next
    case False
    with e show ?thesis by (simp add: seg_byte_def Let_def)
  qed
qed

lemma gbytes_toSlice_nth:
  "i < unat (Size r) \<Longrightarrow> gbytes h (toSlice r) ! i = hmem h (Start r + word_of_nat i)"
  by (simp add: gbytes_def toSlice_def)

lemma sl_len_toSlice [simp]: "sl_len (toSlice r) = Size r"
  by (simp add: toSlice_def)

lemma grown_toSlice: "grown h (toSlice r) h (toSlice r) (gbytes h (toSlice r))"
  by (simp add: grown_def)

lemma cap_toSlice: "sl_cap (toSlice r) = sl_len (toSlice r)"
  by (simp add: toSlice_def)

lemma realBufPad_grown:
  assumes "alloc_ok alloc" "Size (Buf s) \<le> Size (Phys s)" "realBufPad alloc h s = Ok (h', a)"
  shows "grown h (toSlice (Buf s)) h' a
    (gbytes h (toSlice (Buf s)) @ replicate (unat (Size (Phys s)) - unat (Size (Buf s))) 0)"
proof (cases "Size (Buf s) = Size (Phys s)")
  case True
  with assms(3) show ?thesis using grown_toSlice [of h "Buf s"] by (simp add: realBufPad_def)
next
  case False
  with assms(2) have lt: "Size (Buf s) < Size (Phys s)" by simp
  have u: "unat (Size (Phys s) - Size (Buf s)) = unat (Size (Phys s)) - unat (Size (Buf s))"
    using assms(2) by (simp add: unat_sub)
  from assms(3) False lt
  have "go_append alloc h (toSlice (Buf s))
      (replicate (unat (Size (Phys s)) - unat (Size (Buf s))) 0) = Ok (h', a)"
    by (auto simp: realBufPad_def go_zeros_def u split: if_splits)
  from go_append_grown [OF assms(1) grown_toSlice cap_toSlice this] show ?thesis .
qed

lemma realBufTruncate_fits:
  "Size (Buf s) \<le> Size (Phys s) \<Longrightarrow> realBufTruncate s = Ok (toSlice (Buf s))"
  by (auto simp: realBufTruncate_def)

text \<open>What \<open>mergeDisjoint\<close> does when its two segments are in order.\<close>

lemma mergeDisjoint_Ok:
  assumes al: "alloc_ok alloc" and l: "valid_range (Phys l)" "Size (Buf l) \<le> Size (Phys l)"
    and s: "valid_range (Phys s)" "Size (Buf s) \<le> Size (Phys s)"
    and ord: "unat (End (Phys l)) \<le> unat (Start (Phys s))"
    and lv: "pts (Buf s) \<subseteq> live h" "valid_range (Buf s)"
    and r: "mergeDisjoint alloc h l s = Ok (h', ok, l')"
  shows "ok" and "Start (Phys l') = Start (Phys l)" and "End (Phys l') = End (Phys s)"
    and "agrees h h'"
    and "\<exists>buf. grown h (toSlice (Buf l)) h' buf
      (gbytes h (toSlice (Buf l)) @ replicate (unat (Size (Phys l)) - unat (Size (Buf l))) 0
       @ replicate (unat (Start (Phys s)) - unat (End (Phys l))) 0 @ gbytes h (toSlice (Buf s)))
     \<and> NewSegment buf (Phys l') = Ok l'"
proof -
  have no: "\<not> Overlaps (Phys l) (Phys s)" "\<not> Start (Phys s) < Start (Phys l)"
    using ord unat_End [OF l(1)] by (simp_all add: Overlaps_unat l s word_less_nat_alt)
  have ud: "unat (Start (Phys s) - End (Phys l)) = unat (Start (Phys s)) - unat (End (Phys l))"
    using ord by (simp add: unat_sub word_le_nat_alt)
  from r no realBufTruncate_fits [OF s(2)] obtain h1 a h2 buf h3 buf' where
    pad: "realBufPad alloc h l = Ok (h1, a)"
    and z: "go_append alloc h1 a (replicate (unat (Start (Phys s)) - unat (End (Phys l))) 0) = Ok (h2, buf)"
    and b: "go_append alloc h2 buf (gbytes h2 (toSlice (Buf s))) = Ok (h3, buf')"
    and n: "NewSegment buf' ((Phys l)\<lparr>Size := Size (Phys l) + (Start (Phys s) - End (Phys l) + Size (Phys s))\<rparr>) = Ok l'"
    and fin: "h' = h3" "ok"
    by (auto simp: mergeDisjoint_def Let_def go_zeros_def ud split: if_splits)
  note g1 = realBufPad_grown [OF al l(2) pad]
  note g2 = go_append_grown [OF al g1 cap_toSlice z]
  have "agrees h h2" using g2 by (simp add: grown_def)
  then have e: "gbytes h2 (toSlice (Buf s)) = gbytes h (toSlice (Buf s))"
  proof (rule agrees_gbytes)
    fix i assume "i < unat (sl_len (toSlice (Buf s)))"
    then have "Start (Buf s) + word_of_nat i \<in> pts (Buf s)"
      using range_pts [OF lv(2)] by (simp add: toSlice_def)
    then show "sl_ptr (toSlice (Buf s)) + word_of_nat i \<in> live h"
      using lv(1) by (auto simp: toSlice_def simp del: mem_pts)
  qed
  note g3 = go_append_grown [OF al g2 cap_toSlice b]
  have ph: "Phys l' = (Phys l)\<lparr>Size := Size (Phys l) + (Start (Phys s) - End (Phys l) + Size (Phys s))\<rparr>"
    using n by (auto simp: NewSegment_def split: if_splits)
  show "ok" by (rule fin(2))
  show "Start (Phys l') = Start (Phys l)" by (simp add: ph)
  show "End (Phys l') = End (Phys s)" by (simp add: ph End_def)
  show "agrees h h'" using g3 fin(1) by (simp add: grown_def)
  show "\<exists>buf. grown h (toSlice (Buf l)) h' buf
      (gbytes h (toSlice (Buf l)) @ replicate (unat (Size (Phys l)) - unat (Size (Buf l))) 0
       @ replicate (unat (Start (Phys s)) - unat (End (Phys l))) 0 @ gbytes h (toSlice (Buf s)))
     \<and> NewSegment buf (Phys l') = Ok l'"
    using g3 n fin(1) by (auto simp: e ph intro!: exI [of _ buf'])
qed

lemma NewSegment_byte:
  assumes "NewSegment buf ph = Ok l'" "sl_ptr buf = 0 \<longrightarrow> sl_len buf = 0"
  shows "Phys l' = ph" and "Size (Buf l') = sl_len buf"
    and "Size (Buf l') \<noteq> 0 \<Longrightarrow> Start (Buf l') = sl_ptr buf \<and> sl_ptr buf \<noteq> 0"
    and "seg_byte h l' p = (let off = unat (p - Start ph)
           in if off < length (gbytes h buf) then gbytes h buf ! off else 0)"
proof -
  show ph: "Phys l' = ph" and sz: "Size (Buf l') = sl_len buf"
    and st: "Size (Buf l') \<noteq> 0 \<Longrightarrow> Start (Buf l') = sl_ptr buf \<and> sl_ptr buf \<noteq> 0"
    using assms by (auto simp: NewSegment_def split: if_splits)
  show "seg_byte h l' p = (let off = unat (p - Start ph)
           in if off < length (gbytes h buf) then gbytes h buf ! off else 0)"
  proof (cases "unat (p - Start ph) < unat (sl_len buf)")
    case True
    then have "Size (Buf l') \<noteq> 0" using sz by auto
    with st True show ?thesis
      by (simp add: seg_byte_def Let_def ph sz word_less_nat_alt gbytes_def)
  next
    case False
    then show ?thesis by (simp add: seg_byte_def Let_def ph sz word_less_nat_alt)
  qed
qed

lemma merged_byte_left:
  assumes "Size (Buf l) \<le> Size (Phys l)" "p \<in> pts (Phys l)" "valid_range (Phys l)"
    and c: "c = gbytes h (toSlice (Buf l)) @ replicate (unat (Size (Phys l)) - unat (Size (Buf l))) 0 @ rest"
  shows "unat (p - Start (Phys l)) < length c"
    and "c ! unat (p - Start (Phys l)) = seg_byte h l p"
proof -
  let ?o = "unat (p - Start (Phys l))"
  have lb: "length (gbytes h (toSlice (Buf l))) = unat (Size (Buf l))" by simp
  have o: "?o < unat (Size (Phys l))"
    using assms(2) unat_offset [of "Phys l" p] unat_End [OF assms(3)]
    by (simp add: word_nat_alts) arith
  then show "?o < length c" using assms(1) by (simp add: c lb word_le_nat_alt)
  show "c ! ?o = seg_byte h l p"
  proof (cases "?o < unat (Size (Buf l))")
    case True
    then show ?thesis
      by (simp add: c nth_append lb gbytes_toSlice_nth seg_byte_def Let_def word_less_nat_alt)
  next
    case False
    then have "?o - unat (Size (Buf l)) < unat (Size (Phys l)) - unat (Size (Buf l))"
      using o by arith
    with False show ?thesis
      by (simp add: c nth_append lb seg_byte_def Let_def word_less_nat_alt)
  qed
qed

lemma merged_byte_right:
  assumes "p \<in> pts (Phys s)" "valid_range (Phys l)" "Size (Buf l) \<le> Size (Phys l)"
    and ord: "unat (End (Phys l)) \<le> unat (Start (Phys s))"
    and c: "c = gbytes h (toSlice (Buf l)) @ replicate (unat (Size (Phys l)) - unat (Size (Buf l))) 0 @
       replicate (unat (Start (Phys s)) - unat (End (Phys l))) 0 @ gbytes h (toSlice (Buf s))"
  shows "(let off = unat (p - Start (Phys l)) in if off < length c then c ! off else 0) = seg_byte h s p"
proof -
  let ?o = "unat (p - Start (Phys l))" and ?q = "unat (p - Start (Phys s))"
  define pre where "pre = gbytes h (toSlice (Buf l)) @ replicate (unat (Size (Phys l)) - unat (Size (Buf l))) 0 @
       replicate (unat (Start (Phys s)) - unat (End (Phys l))) 0"
  have lp: "length pre = unat (Start (Phys s)) - unat (Start (Phys l))"
    using assms(3) ord unat_End [OF assms(2)] by (simp add: pre_def toSlice_def word_le_nat_alt)
  have "unat (Start (Phys l)) \<le> unat (Start (Phys s))"
    using ord unat_End [OF assms(2)] by simp
  then have o: "?o = length pre + ?q"
    unfolding lp using assms(1) unat_offset [of "Phys l" p] unat_offset [of "Phys s" p]
    by (simp add: word_nat_alts)
  have c': "c = pre @ gbytes h (toSlice (Buf s))" by (simp add: c pre_def)
  have lb: "length (gbytes h (toSlice (Buf s))) = unat (Size (Buf s))" by (simp add: toSlice_def)
  have "(let off = ?o in if off < length c then c ! off else 0) =
    (if ?q < unat (Size (Buf s)) then gbytes h (toSlice (Buf s)) ! ?q else 0)"
    unfolding Let_def c' o by (simp only: nth_append_length_plus length_append lb add_less_cancel_left)
  also have "\<dots> = seg_byte h s p"
    by (simp add: seg_byte_def Let_def gbytes_toSlice_nth word_less_nat_alt)
  finally show ?thesis .
qed

lemma merge_good:
  assumes al: "alloc_ok alloc" and l: "valid_range (Phys l)" "Size (Buf l) \<le> Size (Phys l)"
      "Size (Buf l) \<noteq> 0 \<Longrightarrow> Start (Buf l) \<noteq> 0"
    and s: "seg_ok s" and ord: "unat (End (Phys l)) \<le> unat (Start (Phys s))"
    and lv: "pts (Buf s) \<subseteq> live h"
    and good: "seg_good h D want l" and want: "\<And>p. p \<in> pts (Phys s) \<Longrightarrow> seg_byte h s p = want p"
    and below: "\<And>p. p \<in> D \<Longrightarrow> p < Start (Phys s) \<Longrightarrow> Start (Phys l) \<le> p \<Longrightarrow> p \<in> pts (Phys l)"
    and r: "mergeDisjoint alloc h l s = Ok (h', ok, l')"
  shows "seg_good h' (D \<union> pts (Phys s)) want l'" and "Size (Buf l') \<le> Size (Phys l')"
    and "Size (Buf l') \<noteq> 0 \<Longrightarrow> Start (Buf l') \<noteq> 0"
proof -
  from s have sv: "valid_range (Phys s)" "Size (Buf s) \<le> Size (Phys s)" "valid_range (Buf s)"
    by (simp_all add: seg_ok_def)
  note m = mergeDisjoint_Ok [OF al l(1,2) sv(1,2) ord lv sv(3) r]
  define c where "c = gbytes h (toSlice (Buf l)) @ replicate (unat (Size (Phys l)) - unat (Size (Buf l))) 0 @
       replicate (unat (Start (Phys s)) - unat (End (Phys l))) 0 @ gbytes h (toSlice (Buf s))"
  from m(5) obtain buf where g: "grown h (toSlice (Buf l)) h' buf c" and n: "NewSegment buf (Phys l') = Ok l'"
    unfolding c_def by blast
  from g have cb: "gbytes h' buf = c" and cases: "buf = toSlice (Buf l) \<or> own_block h h' buf"
    by (simp_all add: grown_def)
  have nil: "sl_ptr buf = 0 \<longrightarrow> sl_len buf = 0"
  proof
    assume "sl_ptr buf = 0"
    with cases have "buf = toSlice (Buf l)" by (auto simp: own_block_def Let_def)
    with \<open>sl_ptr buf = 0\<close> l(3) show "sl_len buf = 0"
      by (cases "Size (Buf l) = 0") (auto simp: toSlice_def)
  qed
  note b = NewSegment_byte [OF n nil]
  have lc: "unat (Size (Buf l')) = length c" using b(2) cb by (metis length_gbytes)
  have starts: "Start (Phys l') = Start (Phys l)" by (rule m(2))
  have le: "unat (End (Phys l)) = unat (Start (Phys l)) + unat (Size (Phys l))"
    "unat (End (Phys s)) = unat (Start (Phys s)) + unat (Size (Phys s))"
    using l(1) sv(1) by (simp_all add: unat_End)
  have "unat (Size (Phys l')) = unat (End (Phys s)) - unat (Start (Phys l))"
  proof -
    have "Size (Phys l') = End (Phys s) - Start (Phys l)"
      using m(3) starts by (metis End_def add_diff_cancel_left')
    then show ?thesis using le ord by (simp add: unat_sub word_le_nat_alt)
  qed
  moreover have "length c = unat (Start (Phys s)) - unat (Start (Phys l)) + unat (Size (Buf s))"
    using l(2) le ord by (simp add: c_def word_le_nat_alt)
  ultimately show "Size (Buf l') \<le> Size (Phys l')"
    using lc le ord sv(2) by (simp add: word_le_nat_alt)
  show "Size (Buf l') \<noteq> 0 \<Longrightarrow> Start (Buf l') \<noteq> 0" by (simp add: b(3))
  have byte: "seg_byte h' l' p = want p" if p: "p \<in> (D \<union> pts (Phys s)) \<inter> pts (Phys l')" for p
  proof (cases "p \<in> pts (Phys s)")
    case True
    have "seg_byte h' l' p = seg_byte h s p"
      using b(4) [of h' p] merged_byte_right [OF True l(1,2) ord c_def] by (simp only: cb starts)
    then show ?thesis using want [OF True] by simp
  next
    case False
    with p have pD: "p \<in> D" and "p < End (Phys s)" and pl: "Start (Phys l) \<le> p"
      using m(3) starts by auto
    with False have "p < Start (Phys s)" by auto
    from below [OF pD this pl] have pp: "p \<in> pts (Phys l)" .
    have "seg_byte h' l' p = seg_byte h l p"
      using b(4) [of h' p] merged_byte_left [OF l(2) pp l(1) c_def] by (simp only: cb starts Let_def if_True)
    then show ?thesis using good pD pp by (simp add: seg_good_def)
  qed
  have lve: "Start (Buf l') + (p - Start (Phys l')) \<in> live h'"
    if p: "p \<in> (D \<union> pts (Phys s)) \<inter> pts (Phys l')" and off: "p - Start (Phys l') < Size (Buf l')" for p
    using cases
  proof
    assume "own_block h h' buf"
    then have ob: "valid_range \<lparr>Start = sl_ptr buf, Size = sl_cap buf\<rparr>" "sl_len buf \<le> sl_cap buf"
      "pts \<lparr>Start = sl_ptr buf, Size = sl_cap buf\<rparr> \<subseteq> live h'"
      by (simp_all add: own_block_def Let_def)
    have "unat (p - Start (Phys l')) < unat (sl_cap buf)"
      using off b(2) ob(2) by (simp add: word_nat_alts)
    from block_pts [OF ob(1) this] ob(3)
    have "sl_ptr buf + (p - Start (Phys l')) \<in> live h'" by (auto simp del: mem_pts)
    moreover have "Size (Buf l') \<noteq> 0" using off by auto
    ultimately show ?thesis using b(3) by simp
  next
    assume same: "buf = toSlice (Buf l)"
    then have sz: "Size (Buf l') = Size (Buf l)" using b(2) by simp
    have "p - Start (Phys l) < Size (Phys l)" using off sz l(2) starts by simp
    then have "p \<in> pts (Phys l)"
      using p starts unat_offset [of "Phys l" p] le by (auto simp: word_nat_alts)
    moreover have "p \<in> D" using p calculation ord by (auto simp: word_nat_alts)
    moreover have "Start (Buf l') = Start (Buf l)"
    proof -
      have "Size (Buf l') \<noteq> 0" using off by auto
      then show ?thesis using b(3) same by (simp add: toSlice_def)
    qed
    ultimately have "Start (Buf l') + (p - Start (Phys l')) \<in> live h"
      using good off sz starts by (simp add: seg_good_def)
    then show ?thesis using m(4) by (auto simp: agrees_def)
  qed
  show "seg_good h' (D \<union> pts (Phys s)) want l'"
    unfolding seg_good_def using byte lve by blast
qed

section \<open>The loop\<close>

text \<open>
  The state of the second loop. \<open>D\<close> are the points of the segments consumed so far: they are
  covered by \<open>newSegs\<close> (\<open>acc @ [l]\<close>), whose segments start on page boundaries, one after
  another, and hold the wanted bytes.
\<close>

definition out_ok :: "heap \<Rightarrow> u64 set \<Rightarrow> (u64 \<Rightarrow> byte) \<Rightarrow> Segment \<Rightarrow> bool" where
  "out_ok h D want s \<longleftrightarrow> valid_range (Phys s) \<and> Size (Phys s) \<noteq> 0 \<and> unat (End (Phys s)) + 4095 < 2 ^ 64 \<and>
     4096 dvd unat (Start (Phys s)) \<and> Size (Buf s) \<le> Size (Phys s) \<and>
     (Size (Buf s) \<noteq> 0 \<longrightarrow> Start (Buf s) \<noteq> 0) \<and> seg_good h D want s"

definition loop_inv ::
    "heap \<Rightarrow> heap \<Rightarrow> (u64 \<Rightarrow> byte) \<Rightarrow> u64 set \<Rightarrow> Segments \<Rightarrow> Segment \<Rightarrow> Segments \<Rightarrow> bool" where
  "loop_inv h0 h want D acc l rest \<longleftrightarrow>
     agrees h0 h \<and> (\<forall>s \<in> set (acc @ [l]). out_ok h D want s) \<and> chain (acc @ [l]) \<and>
     D \<subseteq> Pts (Segments_Phys (acc @ [l])) \<and>
     (\<forall>p \<in> D. p < End (Phys l)) \<and>
     chain (l # rest) \<and>
     (\<forall>s \<in> set rest. seg_ok s \<and> pts (Buf s) \<subseteq> live h0 \<and> (\<forall>p \<in> pts (Phys s). seg_byte h0 s p = want p))"

lemma seg_byte_agrees:
  assumes "agrees h0 h" "pts (Buf s) \<subseteq> live h0" "valid_range (Buf s)"
  shows "seg_byte h s p = seg_byte h0 s p"
proof (cases "p - Start (Phys s) < Size (Buf s)")
  case True
  then have "Start (Buf s) + (p - Start (Phys s)) \<in> live h0"
    using range_pts [OF assms(3), of "unat (p - Start (Phys s))"] assms(2)
    by (auto simp: word_less_nat_alt simp del: mem_pts)
  with True assms(1) show ?thesis by (simp add: seg_byte_def Let_def agrees_def)
qed (simp add: seg_byte_def Let_def)

lemma AlignPhysStart_out_ok:
  assumes "AlignPhysStart s = Ok c" "seg_ok s" "agrees h0 h" "pts (Buf s) \<subseteq> live h0"
    and "\<And>p. p \<in> pts (Phys s) \<Longrightarrow> seg_byte h0 s p = want p"
    and "D \<inter> pts (Phys c) \<subseteq> pts (Phys s)"
  shows "out_ok h D want c"
proof -
  from assms(2) have v: "valid_range (Phys s)" "Size (Buf s) \<le> Size (Phys s)" "valid_range (Buf s)"
    "Size (Phys s) \<noteq> 0" "unat (End (Phys s)) + 4095 < 2 ^ 64" "Size (Buf s) \<noteq> 0 \<longrightarrow> 4096 \<le> unat (Start (Buf s))"
    by (simp_all add: seg_ok_def)
  note g = AlignPhysStart_geometry [OF assms(1) v(1)]
  have ne: "Start (Phys s) \<in> pts (Phys s)"
    using v(1,4) by (simp add: unat_End word_less_nat_alt unat_gt_0)
  have buf: "Start (Buf c) \<noteq> 0" if "Size (Buf c) \<noteq> 0"
  proof -
    have d: "unat (Start (Phys s) - Start (Phys c)) < 4096"
      using g(3,4) by (simp add: unat_sub word_le_nat_alt)
    have b: "Start (Buf c) = Start (Buf s) - (Start (Phys s) - Start (Phys c))" "Size (Buf s) \<noteq> 0"
      using assms(1) that by (auto simp: AlignPhysStart_def Let_def split: if_splits)
    then have "4096 \<le> unat (Start (Buf s))" using v(6) by simp
    with d b show ?thesis by auto
  qed
  have "seg_good h D want c"
    unfolding seg_good_def
  proof
    fix p assume "p \<in> D \<inter> pts (Phys c)"
    with assms(6) have p: "p \<in> pts (Phys s)" by blast
    have "seg_byte h c p = want p"
      using AlignPhysStart_seg_byte [OF assms(1,2) p] seg_byte_agrees [OF assms(3,4) v(3)] assms(5) [OF p]
      by simp
    moreover have "Start (Buf c) + (p - Start (Phys c)) \<in> live h" if "p - Start (Phys c) < Size (Buf c)"
    proof -
      note e = AlignPhysStart_byte [OF assms(1) v(1,2) p]
      have "unat (p - Start (Phys s)) < unat (Size (Buf s))"
        using that e(1) by (simp add: word_less_nat_alt)
      from range_pts [OF v(3) this] have "Start (Buf s) + (p - Start (Phys s)) \<in> live h0"
        using assms(4) by (auto simp del: mem_pts)
      then show ?thesis unfolding e(2) using assms(3) by (auto simp: agrees_def)
    qed
    ultimately show "seg_byte h c p = want p \<and>
      (p - Start (Phys c) < Size (Buf c) \<longrightarrow> Start (Buf c) + (p - Start (Phys c)) \<in> live h)" by simp
  qed
  moreover have "Size (Phys c) \<noteq> 0" using g(7) v(4) by (auto simp: unat_eq_0)
  moreover have "Size (Buf c) \<le> Size (Phys c)" by (rule AlignPhysStart_byte(3) [OF assms(1) v(1,2) ne])
  ultimately show ?thesis
    using g v(5) buf by (simp add: out_ok_def)
qed

lemma out_ok_mono: "agrees h h' \<Longrightarrow> out_ok h D want s \<Longrightarrow> out_ok h' D want s"
  by (auto simp: out_ok_def intro: seg_good_mono)

lemma out_ok_extend:
  assumes "out_ok h D want s" "\<And>p. p \<in> E \<Longrightarrow> p \<notin> pts (Phys s)"
  shows "out_ok h (D \<union> E) want s"
  using assms by (auto simp: out_ok_def seg_good_def simp del: mem_pts)

lemma seg_ok_bounds:
  assumes "seg_ok s"
  shows "unat (End (Phys s)) = unat (Start (Phys s)) + unat (Size (Phys s))" "0 < unat (Size (Phys s))"
  using assms by (simp_all add: seg_ok_def unat_End unat_gt_0)

lemma out_ok_bounds:
  assumes "out_ok h D want s"
  shows "unat (End (Phys s)) = unat (Start (Phys s)) + unat (Size (Phys s))" "0 < unat (Size (Phys s))"
    "valid_range (Phys s)"
  using assms by (simp_all add: out_ok_def unat_End unat_gt_0)

lemma loop_step_append:
  assumes inv: "loop_inv h0 h want D acc l (s # rest)" and c: "AlignPhysStart s = Ok cand"
    and no: "\<not> Overlaps (Phys cand) (Phys l)"
  shows "loop_inv h0 h want (D \<union> pts (Phys s)) (acc @ [l]) cand rest"
proof -
  from inv have ag: "agrees h0 h" and outs: "\<And>t. t \<in> set (acc @ [l]) \<Longrightarrow> out_ok h D want t"
    and ch: "chain (acc @ [l])" and cov: "D \<subseteq> Pts (Segments_Phys (acc @ [l]))"
    and below: "\<And>p. p \<in> D \<Longrightarrow> p < End (Phys l)" and ch2: "chain (l # s # rest)"
    and s: "seg_ok s" "pts (Buf s) \<subseteq> live h0" "\<And>p. p \<in> pts (Phys s) \<Longrightarrow> seg_byte h0 s p = want p"
    and rest: "\<forall>s \<in> set rest. seg_ok s \<and> pts (Buf s) \<subseteq> live h0 \<and> (\<forall>p \<in> pts (Phys s). seg_byte h0 s p = want p)"
    unfolding loop_inv_def by auto
  have sv: "valid_range (Phys s)" using s(1) by (simp add: seg_ok_def)
  note g = AlignPhysStart_geometry [OF c sv]
  note lb = out_ok_bounds [OF outs [of l]] and sb = seg_ok_bounds [OF s(1)]
  have ls: "unat (End (Phys l)) \<le> unat (Start (Phys s))" using ch2 by simp
  have lc: "unat (End (Phys l)) \<le> unat (Start (Phys cand))"
    using no ls lb sb g(2) by (simp add: Overlaps_unat g(5))
  have before: "unat (End (Phys t)) \<le> unat (Start (Phys cand))" if "t \<in> set (acc @ [l])" for t
  proof (cases "t = l")
    case False
    with that ch have "unat (End (Phys t)) \<le> unat (Start (Phys l))" by auto
    with lc lb show ?thesis by simp
  qed (use lc in simp)
  have "out_ok h (D \<union> pts (Phys s)) want t" if t: "t \<in> set (acc @ [l])" for t
  proof (rule out_ok_extend [OF outs [OF t]])
    fix p assume "p \<in> pts (Phys s)"
    then show "p \<notin> pts (Phys t)" using before [OF t] g(3) by (simp add: word_nat_alts)
  qed
  moreover have "out_ok h (D \<union> pts (Phys s)) want cand"
  proof (rule AlignPhysStart_out_ok [OF c s(1) ag s(2,3)])
    have "p \<notin> pts (Phys cand)" if "p \<in> D" for p
      using below [OF that] lc by (simp add: word_nat_alts)
    then show "(D \<union> pts (Phys s)) \<inter> pts (Phys cand) \<subseteq> pts (Phys s)" by blast
  qed
  moreover have "pts (Phys s) \<subseteq> pts (Phys cand)" using g(2,3) by (auto simp: word_le_nat_alt)
  then have "D \<union> pts (Phys s) \<subseteq> Pts (Segments_Phys ((acc @ [l]) @ [cand]))"
    using cov by (auto simp: Segments_Phys_def simp del: mem_pts)
  moreover have "p < End (Phys cand)" if "p \<in> D \<union> pts (Phys s)" for p
    using that below [of p] lc g(2) sb g(3) by (auto simp: word_nat_alts)
  moreover have "chain ((acc @ [l]) @ [cand])" using ch before by auto
  moreover have "chain (cand # rest)" using ch2 g(2) by auto
  ultimately show ?thesis using ag rest unfolding loop_inv_def by auto
qed

lemma loop_step_merge:
  assumes al: "alloc_ok alloc" and inv: "loop_inv h0 h want D acc l (s # rest)"
    and r: "mergeDisjoint alloc h l s = Ok (h', ok, l')"
  shows "ok" and "loop_inv h0 h' want (D \<union> pts (Phys s)) acc l' rest"
proof -
  from inv have ag: "agrees h0 h" and outs: "\<And>t. t \<in> set (acc @ [l]) \<Longrightarrow> out_ok h D want t"
    and ch: "chain (acc @ [l])" and cov: "D \<subseteq> Pts (Segments_Phys (acc @ [l]))"
    and below: "\<And>p. p \<in> D \<Longrightarrow> p < End (Phys l)" and ch2: "chain (l # s # rest)"
    and s: "seg_ok s" "pts (Buf s) \<subseteq> live h0" "\<And>p. p \<in> pts (Phys s) \<Longrightarrow> seg_byte h0 s p = want p"
    and rest: "\<forall>s \<in> set rest. seg_ok s \<and> pts (Buf s) \<subseteq> live h0 \<and> (\<forall>p \<in> pts (Phys s). seg_byte h0 s p = want p)"
    unfolding loop_inv_def by auto
  have sv: "valid_range (Phys s)" "Size (Buf s) \<le> Size (Phys s)" "valid_range (Buf s)"
    "unat (End (Phys s)) + 4095 < 2 ^ 64"
    using s(1) by (simp_all add: seg_ok_def)
  have lo: "out_ok h D want l" by (rule outs) simp
  then have l: "valid_range (Phys l)" "Size (Buf l) \<le> Size (Phys l)"
    "Size (Buf l) \<noteq> 0 \<Longrightarrow> Start (Buf l) \<noteq> 0" "seg_good h D want l" "4096 dvd unat (Start (Phys l))"
    by (simp_all add: out_ok_def)
  note lb = out_ok_bounds [OF lo] and sb = seg_ok_bounds [OF s(1)]
  have ls: "unat (End (Phys l)) \<le> unat (Start (Phys s))" using ch2 by simp
  have lvh: "pts (Buf s) \<subseteq> live h" using s(2) ag by (auto simp: agrees_def simp del: mem_pts)
  note m = mergeDisjoint_Ok [OF al l(1,2) sv(1,2) ls lvh sv(3) r]
  have wh: "seg_byte h s p = want p" if "p \<in> pts (Phys s)" for p
    using s(3) [OF that] seg_byte_agrees [OF ag s(2) sv(3)] by simp
  have bl: "p \<in> pts (Phys l)" if "p \<in> D" "p < Start (Phys s)" "Start (Phys l) \<le> p" for p
    using below [OF that(1)] that(3) by simp
  note mg = merge_good [OF al l(1,2,3) s(1) ls lvh l(4) wh bl r]
  show ok by (rule m(1))
  have ends: "Start (Phys l') \<le> End (Phys l')"
    using m(2,3) lb sb ls by (simp add: word_le_nat_alt)
  have v': "valid_range (Phys l')" by (rule valid_range_End [OF ends])
  have sz: "Size (Phys l') \<noteq> 0"
    using unat_End [OF v'] m(2,3) lb sb ls by auto
  have "out_ok h' (D \<union> pts (Phys s)) want l'"
    using v' sz mg l(5) m(2,3) sv(4) by (simp add: out_ok_def)
  moreover have "out_ok h' (D \<union> pts (Phys s)) want t" if t: "t \<in> set acc" for t
  proof (rule out_ok_extend [OF out_ok_mono [OF m(4) outs]])
    show "t \<in> set (acc @ [l])" using t by simp
    have "unat (End (Phys t)) \<le> unat (Start (Phys l))" using ch t by auto
    then show "p \<notin> pts (Phys t)" if "p \<in> pts (Phys s)" for p
      using that ls lb by (simp add: word_nat_alts)
  qed
  moreover have "pts (Phys l) \<union> pts (Phys s) \<subseteq> pts (Phys l')"
    using m(2,3) lb sb ls by (auto simp: word_nat_alts)
  then have "D \<union> pts (Phys s) \<subseteq> Pts (Segments_Phys (acc @ [l']))"
    using cov by (auto simp: Segments_Phys_def simp del: mem_pts)
  moreover have "p < End (Phys l')" if "p \<in> D \<union> pts (Phys s)" for p
    using that below [of p] ls m(3) sb by (auto simp: word_nat_alts)
  moreover have "chain (acc @ [l'])" using ch m(2) by auto
  moreover have "chain (l' # rest)" using ch2 m(3) by auto
  ultimately show "loop_inv h0 h' want (D \<union> pts (Phys s)) acc l' rest"
    using agrees_trans [OF ag m(4)] rest unfolding loop_inv_def by auto
qed

lemma merge_loop_inv:
  assumes "alloc_ok alloc" "loop_inv h0 h want D acc l rest" "merge_loop alloc h acc l rest = Ok (h', out)"
  shows "\<exists>acc' l'. out = acc' @ [l'] \<and> loop_inv h0 h' want (D \<union> Pts (Segments_Phys rest)) acc' l' []"
  using assms(2,3)
proof (induction rest arbitrary: h D acc l)
  case Nil
  then show ?case by (auto simp: Segments_Phys_def)
next
  case (Cons s rest)
  from Cons.prems(2) obtain cand where c: "AlignPhysStart s = Ok cand"
    by (auto split: if_splits)
  have e: "D \<union> Pts (Segments_Phys (s # rest)) = D \<union> pts (Phys s) \<union> Pts (Segments_Phys rest)"
    by (simp add: Segments_Phys_def Un_assoc del: mem_pts)
  show ?case
  proof (cases "Overlaps (Phys cand) (Phys l)")
    case True
    with Cons.prems(2) c obtain h1 ok l1 where m: "mergeDisjoint alloc h l s = Ok (h1, ok, l1)"
      by auto
    note st = loop_step_merge [OF assms(1) Cons.prems(1) m]
    from Cons.prems(2) c True m st(1) have "merge_loop alloc h1 acc l1 rest = Ok (h', out)" by simp
    from Cons.IH [OF st(2) this] show ?thesis unfolding e .
  next
    case False
    with Cons.prems(2) c have "merge_loop alloc h (acc @ [l]) cand rest = Ok (h', out)" by simp
    from Cons.IH [OF loop_step_append [OF Cons.prems(1) c False] this] show ?thesis unfolding e .
  qed
qed

section \<open>Rounding the sizes\<close>

lemma alignSize_simps [simp]:
  "Start (Phys (alignSize s)) = Start (Phys s)"
  "Size (Phys (alignSize s)) = UpPage (Size (Phys s))"
  by (simp_all add: alignSize_def Let_def)

lemma alignSize_geometry:
  assumes "out_ok h D want s"
  shows "valid_range (Phys (alignSize s))" and "4096 dvd unat (Start (Phys (alignSize s)))"
    and "4096 dvd unat (Size (Phys (alignSize s)))" and "pts (Phys s) \<subseteq> pts (Phys (alignSize s))"
    and "\<And>n. 4096 dvd n \<Longrightarrow> unat (End (Phys s)) \<le> n \<Longrightarrow> unat (End (Phys (alignSize s))) \<le> n"
    and "\<And>p. p \<in> pts (Phys s) \<Longrightarrow> seg_byte h (alignSize s) p = seg_byte h s p"
proof -
  let ?z = "Size (Phys s)" and ?a = "Start (Phys s)"
  note b = out_ok_bounds [OF assms]
  from assms have e: "unat ?a + unat ?z + 4095 < 2 ^ 64" and dv: "4096 dvd unat ?a"
    and bf: "Size (Buf s) \<le> ?z"
    by (simp_all add: out_ok_def b)
  have ov: "unat ?z + 4095 < 2 ^ 64" using e by simp
  note u = UpPage_ge [OF ov] UpPage_lt [OF ov]
  show v: "valid_range (Phys (alignSize s))" using u e by (simp add: valid_range_def)
  show "4096 dvd unat (Start (Phys (alignSize s)))" using dv by simp
  show "4096 dvd unat (Size (Phys (alignSize s)))" by (simp add: UpPage_dvd)
  have ends: "unat (End (Phys (alignSize s))) = unat ?a + unat (UpPage ?z)"
    using unat_End [OF v] by simp
  then show "pts (Phys s) \<subseteq> pts (Phys (alignSize s))"
    using u b by (auto simp: word_nat_alts)
  show "unat (End (Phys (alignSize s))) \<le> n" if n: "4096 dvd n" "unat (End (Phys s)) \<le> n" for n
  proof -
    have "4096 dvd n - unat ?a" using n dv by simp
    moreover have "unat ?z \<le> n - unat ?a" using n b by simp
    ultimately have "unat (UpPage ?z) \<le> n - unat ?a" by (rule UpPage_least [OF ov])
    then show ?thesis using ends n b by simp
  qed
  show "seg_byte h (alignSize s) p = seg_byte h s p" if "p \<in> pts (Phys s)" for p
    using bf by (auto simp: alignSize_def seg_byte_def Let_def)
qed

lemma chain_alignSize:
  assumes "chain segs" "\<forall>s \<in> set segs. out_ok h D want s"
  shows "chain (map alignSize segs)"
  using assms
proof (induction segs)
  case (Cons s segs)
  have "unat (End (Phys (alignSize s))) \<le> unat (Start (Phys t))" if t: "t \<in> set segs" for t
  proof (rule alignSize_geometry(5))
    show "out_ok h D want s" using Cons.prems by simp
    show "4096 dvd unat (Start (Phys t))" using Cons.prems t by (simp add: out_ok_def)
    show "unat (End (Phys s)) \<le> unat (Start (Phys t))" using Cons.prems t by simp
  qed
  with Cons show ?case by simp
qed simp

section \<open>The whole function\<close>

lemma image_iff:
  "disjoint_ranges (Segments_Phys segs) \<Longrightarrow>
   image h segs p = Some b \<longleftrightarrow> (\<exists>s \<in> set segs. p \<in> pts (Phys s) \<and> seg_byte h s p = b)"
proof (induction segs)
  case (Cons s segs)
  have sub: "p \<in> Pts (Segments_Phys segs)" if "t \<in> set segs" "p \<in> pts (Phys t)" for t
    using that by (auto simp: Pts_def Segments_Phys_def simp del: mem_pts)
  have c: "Contains (Phys s) p \<longleftrightarrow> p \<in> pts (Phys s)" by (simp add: Contains_def)
  from Cons have IH: "image h segs p = Some b \<longleftrightarrow> (\<exists>s \<in> set segs. p \<in> pts (Phys s) \<and> seg_byte h s p = b)"
    and d: "pts (Phys s) \<inter> Pts (Segments_Phys segs) = {}"
    by (auto simp: Segments_Phys_def)
  show ?case
  proof (cases "p \<in> pts (Phys s)")
    case True
    then have "\<not> (\<exists>t \<in> set segs. p \<in> pts (Phys t))" using d sub by blast
    with True show ?thesis by (auto simp: c simp del: mem_pts)
  next
    case False
    with IH show ?thesis by (auto simp: c simp del: mem_pts)
  qed
qed simp

lemma sorted_segs:
  fixes segs :: Segments
  defines "ss \<equiv> sort_slice seg_less segs"
  shows "set ss = set segs" "mset (Segments_Phys ss) = mset (Segments_Phys segs)"
    "sorted_wrt (\<lambda>x y. \<not> seg_less y x) ss"
  using seg_sort.set_srt [of segs] seg_sort.srt_perm [of segs] seg_sort.srt_sorted [of segs]
  by (simp_all add: ss_def Segments_Phys_def)

lemma AlignAndMerge_Ok_chain:
  assumes "AlignAndMerge alloc h segs = Ok (h', out)" "\<forall>s \<in> set segs. seg_ok s"
  shows "chain (sort_slice seg_less segs)" and "disjoint_ranges (Segments_Phys segs)"
proof -
  let ?ss = "sort_slice seg_less segs"
  have ok: "\<forall>s \<in> set ?ss. valid_range (Phys s) \<and> Size (Phys s) \<noteq> 0"
    using assms(2) sorted_segs(1) [of segs] by (simp add: seg_ok_def)
  have "check_overlaps ?ss = Ok ()"
    using assms(1) by (cases ?ss) (auto simp: AlignAndMerge_def)
  then show c: "chain ?ss" by (rule check_overlaps_chain [OF sorted_segs(3) ok])
  show "disjoint_ranges (Segments_Phys segs)"
    using disjoint_ranges_perm [OF sorted_segs(2)] chain_disjoint [OF c] ok by simp
qed

lemma initial_inv:
  assumes ok: "\<forall>t \<in> set (s # rest). seg_ok t \<and> pts (Buf t) \<subseteq> live h" and ch: "chain (s # rest)"
    and f: "AlignPhysStart s = Ok first"
    and want: "\<And>t p. t \<in> set (s # rest) \<Longrightarrow> p \<in> pts (Phys t) \<Longrightarrow> seg_byte h t p = want p"
  shows "loop_inv h h want (pts (Phys s)) [] first rest"
proof -
  have sok: "seg_ok s" "pts (Buf s) \<subseteq> live h" using ok by simp_all
  have w: "\<And>p. p \<in> pts (Phys s) \<Longrightarrow> seg_byte h s p = want p" by (rule want) simp_all
  have g: "End (Phys first) = End (Phys s)" "unat (Start (Phys first)) \<le> unat (Start (Phys s))"
    using AlignPhysStart_geometry [OF f] sok(1) by (simp_all add: seg_ok_def)
  have c: "chain (first # rest)" using g(1) ch by simp
  have fo: "out_ok h (pts (Phys s)) want first"
    by (rule AlignPhysStart_out_ok [OF f sok(1) agrees_refl sok(2) w]) auto
  have rest: "\<forall>t \<in> set rest. seg_ok t \<and> pts (Buf t) \<subseteq> live h \<and> (\<forall>p \<in> pts (Phys t). seg_byte h t p = want p)"
    using ok want by (metis list.set_intros(2))
  have "pts (Phys s) \<subseteq> pts (Phys first)" using g by (auto simp: word_le_nat_alt)
  moreover have "\<forall>p \<in> pts (Phys s). p < End (Phys first)" using g by auto
  ultimately show ?thesis
    using fo c rest by (simp add: loop_inv_def Segments_Phys_def del: mem_pts)
qed

lemma AlignAndMerge_result:
  assumes al: "alloc_ok alloc" and ok: "\<forall>s \<in> set segs. seg_ok s \<and> pts (Buf s) \<subseteq> live h"
    and r: "AlignAndMerge alloc h segs = Ok (h', out)"
    and want: "\<And>s p. s \<in> set segs \<Longrightarrow> p \<in> pts (Phys s) \<Longrightarrow> seg_byte h s p = want p"
  shows "\<exists>news. out = map alignSize news \<and> chain news \<and> (\<forall>s \<in> set news. out_ok h' (Pts (Segments_Phys segs)) want s) \<and>
    Pts (Segments_Phys segs) \<subseteq> Pts (Segments_Phys news)"
proof (cases "sort_slice seg_less segs")
  case Nil
  then have "segs = []" using seg_sort.srt_Nil_iff by simp
  then show ?thesis using r by (simp add: AlignAndMerge_def Segments_Phys_def)
next
  case (Cons s rest)
  have ss: "set (s # rest) = set segs" using sorted_segs(1) [of segs] Cons by simp
  have pe: "Pts (Segments_Phys segs) = pts (Phys s) \<union> Pts (Segments_Phys rest)"
    using arg_cong [OF ss, where f = "\<lambda>S. \<Union>t \<in> S. pts (Phys t)"]
    by (simp add: Pts_def Segments_Phys_def del: mem_pts)
  from r Cons obtain first news where f: "AlignPhysStart s = Ok first"
    and ml: "merge_loop alloc h [] first rest = Ok (h', news)" and out: "out = map alignSize news"
    by (auto simp: AlignAndMerge_def)
  have oks: "\<forall>t \<in> set (s # rest). seg_ok t \<and> pts (Buf t) \<subseteq> live h" using ok ss by simp
  have ch: "chain (s # rest)" using AlignAndMerge_Ok_chain(1) [OF r] ok Cons by auto
  have inv: "loop_inv h h want (pts (Phys s)) [] first rest"
    by (rule initial_inv [OF oks ch f]) (use want ss in blast)
  from merge_loop_inv [OF al inv ml] obtain acc l where
    n: "news = acc @ [l]" "loop_inv h h' want (pts (Phys s) \<union> Pts (Segments_Phys rest)) acc l []" by blast
  then show ?thesis unfolding pe out by (auto simp: loop_inv_def intro!: exI [of _ news])
qed

lemma AlignAndMerge_pages_chain:
  assumes "alloc_ok alloc" "\<forall>s \<in> set segs. seg_ok s \<and> pts (Buf s) \<subseteq> live h"
    and "AlignAndMerge alloc h segs = Ok (h', out)"
  shows "chain out \<and> (\<forall>s \<in> set out. valid_range (Phys s) \<and> 4096 dvd unat (Start (Phys s)) \<and>
      4096 dvd unat (Size (Phys s))) \<and> Pts (Segments_Phys segs) \<subseteq> Pts (Segments_Phys out) \<and>
    (\<forall>s \<in> set segs. \<forall>p \<in> pts (Phys s). image h' out p = Some (seg_byte h s p))"
proof -
  have dj: "disjoint_ranges (Segments_Phys segs)"
    using AlignAndMerge_Ok_chain(2) [OF assms(3)] assms(2) by blast
  define want where "want p = (case image h segs p of None \<Rightarrow> 0 | Some b \<Rightarrow> b)" for p
  have want: "seg_byte h s p = want p" if "s \<in> set segs" "p \<in> pts (Phys s)" for s p
    using image_iff [OF dj, of h p "seg_byte h s p"] that by (auto simp: want_def)
  from AlignAndMerge_result [OF assms want] obtain news where
    out: "out = map alignSize news" and ch: "chain news"
    and ok: "\<forall>s \<in> set news. out_ok h' (Pts (Segments_Phys segs)) want s"
    and cov: "Pts (Segments_Phys segs) \<subseteq> Pts (Segments_Phys news)" by blast
  have sub: "pts (Phys s) \<subseteq> pts (Phys (alignSize s))" if "s \<in> set news" for s
    using ok that alignSize_geometry(4) by blast
  have cov': "Pts (Segments_Phys news) \<subseteq> Pts (Segments_Phys out)"
    using sub by (auto simp: Pts_def Segments_Phys_def out simp del: mem_pts)
  have cho: "chain out" unfolding out by (rule chain_alignSize [OF ch ok])
  have vo: "\<forall>s \<in> set out. valid_range (Phys s) \<and> 4096 dvd unat (Start (Phys s)) \<and> 4096 dvd unat (Size (Phys s))"
    using alignSize_geometry(1,2,3) ok by (fastforce simp: out)
  have djo: "disjoint_ranges (Segments_Phys out)" by (rule chain_disjoint [OF cho]) (use vo in blast)
  have "image h' out p = Some (seg_byte h s p)" if s: "s \<in> set segs" "p \<in> pts (Phys s)" for s p
  proof -
    have pD: "p \<in> Pts (Segments_Phys segs)"
      using s by (auto simp: Pts_def Segments_Phys_def simp del: mem_pts)
    then obtain t where t: "t \<in> set news" "p \<in> pts (Phys t)"
      using cov by (auto simp: Pts_def Segments_Phys_def simp del: mem_pts)
    have "seg_byte h' t p = want p" using ok t pD by (auto simp: out_ok_def seg_good_def simp del: mem_pts)
    then have "seg_byte h' (alignSize t) p = seg_byte h s p"
      using alignSize_geometry(6) ok t want [OF s] by metis
    then show ?thesis
      using image_iff [OF djo, of h' p] t sub [OF t(1)] by (auto simp: out simp del: mem_pts)
  qed
  with cho vo cov cov' show ?thesis by blast
qed

text \<open>Of the error returns, only the overlap check can be taken, and only on overlapping input.\<close>

lemma AlignPhysStart_not_Err: "AlignPhysStart t \<noteq> Err e"
  by (simp add: AlignPhysStart_def Let_def)

lemma go_append_not_Err: "go_append alloc h s bs \<noteq> Err e"
  by (auto simp: go_append_def Let_def split: option.splits)

lemma mergeDisjoint_not_Err: "mergeDisjoint alloc h l t \<noteq> Err e"
  by (auto simp: mergeDisjoint_def realBufPad_def realBufTruncate_def go_zeros_def go_reslice_def
      NewSegment_def Let_def go_append_not_Err elim!: rbind_Err split: if_splits prod.splits)

lemma merge_loop_not_Err:
  assumes "alloc_ok alloc" "loop_inv h0 h want D acc l rest"
  shows "merge_loop alloc h acc l rest \<noteq> Err e"
  using assms(2)
proof (induction rest arbitrary: h D acc l)
  case (Cons t rest)
  show ?case
  proof
    assume r: "merge_loop alloc h acc l (t # rest) = Err e"
    then obtain c where c: "AlignPhysStart t = Ok c"
      by (auto simp: AlignPhysStart_not_Err elim!: rbind_Err)
    show False
    proof (cases "Overlaps (Phys c) (Phys l)")
      case True
      with r c obtain h1 ok l1 where m: "mergeDisjoint alloc h l t = Ok (h1, ok, l1)"
        by (auto simp: mergeDisjoint_not_Err elim!: rbind_Err)
      note st = loop_step_merge [OF assms(1) Cons.prems m]
      from Cons.IH [OF st(2)] r c True m st(1) show False by simp
    next
      case False
      from Cons.IH [OF loop_step_append [OF Cons.prems c False]] r c False show False by simp
    qed
  qed
qed simp

lemma check_overlaps_disjoint:
  assumes "disjoint_ranges (Segments_Phys segs)" "\<forall>s \<in> set segs. seg_ok s"
  shows "check_overlaps segs = Ok ()"
proof (rule ccontr)
  assume "check_overlaps segs \<noteq> Ok ()"
  then obtain a b us vs where e: "segs = us @ a # b # vs" and o: "Overlaps (Phys a) (Phys b)"
    using check_overlaps_cases [of segs] by blast
  have "seg_ok a" "seg_ok b" using assms(2) e by auto
  then have "pts (Phys a) \<inter> pts (Phys b) \<noteq> {}"
    using Overlaps_iff [of "Phys a" "Phys b"] o by (simp add: seg_ok_def pts_empty_iff del: mem_pts)
  moreover have "pts (Phys a) \<inter> pts (Phys b) = {}"
    using assms(1) by (auto simp add: e Segments_Phys_def disjoint_ranges_append simp del: mem_pts)
  ultimately show False by blast
qed

lemma AlignAndMerge_not_Err:
  assumes "alloc_ok alloc" "\<forall>s \<in> set segs. seg_ok s \<and> pts (Buf s) \<subseteq> live h"
    and dj: "disjoint_ranges (Segments_Phys segs)"
  shows "AlignAndMerge alloc h segs \<noteq> Err e"
proof
  let ?ss = "sort_slice seg_less segs"
  assume r: "AlignAndMerge alloc h segs = Err e"
  obtain s rest where ss: "?ss = s # rest" using r by (cases ?ss) (auto simp: AlignAndMerge_def)
  have mem: "set (s # rest) = set segs" using sorted_segs(1) [of segs] ss by simp
  have djs: "disjoint_ranges (Segments_Phys (s # rest))"
    using disjoint_ranges_perm [OF sorted_segs(2) [symmetric] dj] ss by simp
  have oks: "\<forall>t \<in> set (s # rest). seg_ok t \<and> pts (Buf t) \<subseteq> live h" using assms(2) mem by simp
  have chk: "check_overlaps (s # rest) = Ok ()" using djs oks by (intro check_overlaps_disjoint) auto
  have ch: "chain (s # rest)"
    by (rule check_overlaps_chain [OF _ _ chk]) (use sorted_segs(3) [of segs] ss oks seg_ok_def in auto)
  obtain first where f: "AlignPhysStart s = Ok first" and ml: "merge_loop alloc h [] first rest = Err e"
    using r ss chk by (auto simp: AlignAndMerge_def AlignPhysStart_not_Err elim!: rbind_Err)
  have "\<And>t p. t \<in> set (s # rest) \<Longrightarrow> p \<in> pts (Phys t) \<Longrightarrow>
      seg_byte h t p = (case image h (s # rest) p of None \<Rightarrow> 0 | Some b \<Rightarrow> b)"
    using image_iff [OF djs] by (metis option.simps(5))
  from merge_loop_not_Err [OF assms(1) initial_inv [OF oks ch f this]] ml show False by blast
qed

lemma AlignAndMerge_overlap:
  assumes "\<forall>s \<in> set segs. seg_ok s" "\<not> disjoint_ranges (Segments_Phys segs)"
  shows "\<exists>a b. AlignAndMerge alloc h segs = Err (ErrPhysOverlap a b)"
proof -
  let ?ss = "sort_slice seg_less segs"
  have ok: "\<forall>s \<in> set ?ss. valid_range (Phys s) \<and> Size (Phys s) \<noteq> 0"
    using assms(1) sorted_segs(1) [of segs] by (simp add: seg_ok_def)
  have "check_overlaps ?ss \<noteq> Ok ()"
  proof
    assume "check_overlaps ?ss = Ok ()"
    from check_overlaps_chain [OF sorted_segs(3) ok this] have "chain ?ss" .
    then show False
      using disjoint_ranges_perm [OF sorted_segs(2)] chain_disjoint ok assms(2) by blast
  qed
  with check_overlaps_cases [of ?ss] obtain a b where c: "check_overlaps ?ss = Err (ErrPhysOverlap a b)" by blast
  then obtain s rest where "?ss = s # rest" by (cases ?ss) auto
  with c show ?thesis by (simp add: AlignAndMerge_def)
qed

end
