(* ===== verification/KexecMemory.thy ===== *)
theory KexecMemory imports AlignMerge begin

text \<open>
  \<open>pkg/boot/kexec/memory_linux.go\<close>, \<open>Memory\<close>: the physical memory map together with the
  kexec segments placed so far, and the operations that find, reserve and fill space.
  The steps of a boot loader are a step relation \<open>mem_step\<close>; its invariant \<open>mem_inv\<close> says
  that the segments never overlap.
\<close>

section \<open>State and operations\<close>

record Memory =
  MPhys :: MemoryMap
  MSegments :: Segments

fun remove_segments :: "Ranges \<Rightarrow> Segments \<Rightarrow> Ranges" where
  "remove_segments ram [] = ram"
| "remove_segments ram (s # segs) = remove_segments (Ranges_Minus ram (Phys s)) segs"

fun alignedRanges :: "Ranges \<Rightarrow> Ranges" where
  "alignedRanges [] = []"
| "alignedRanges (r # rs) =
     (let alignedStart = UpPage (Start r) in
      if alignedStart < End r
      then \<lparr>Start = alignedStart, Size = Size r - (alignedStart - Start r)\<rparr> # alignedRanges rs
      else alignedRanges rs)"

definition AvailableRAM :: "Memory \<Rightarrow> Ranges" where
  "AvailableRAM m = alignedRanges (remove_segments (FilterByType (MPhys m) RangeRAM) (MSegments m))"

definition M1 :: u64 where
  "M1 = push_bit 20 1"

definition Memory_FindSpace :: "Memory \<Rightarrow> u64 \<Rightarrow> u64 \<Rightarrow> (kexec_error, Range) res" where
  "Memory_FindSpace m sz alignSizeBytes =
     (let al = (if alignSizeBytes = 0 then pageSize else alignSizeBytes)
      in FindSpaceAbove (AvailableRAM m) (Up sz al) M1)"

definition ReservePhys :: "Memory \<Rightarrow> u64 \<Rightarrow> Range \<Rightarrow> (kexec_error, Range \<times> Memory) res" where
  "ReservePhys m sz limit =
     rbind (FindSpaceIn (AvailableRAM m) (UpPage sz) limit) (\<lambda>r.
       Ok (r, m\<lparr>MPhys := MemoryMap_Insert (MPhys m) \<lparr>TRange = r, TType = RangeReserved\<rparr>\<rparr>))"

definition AddPhysSegment :: "Memory \<Rightarrow> gslice \<Rightarrow> Range \<Rightarrow> (kexec_error, Range \<times> Memory) res" where
  "AddPhysSegment m d limit =
     rbind (ReservePhys m (sl_len d) limit) (\<lambda>(r, m').
     rbind (NewSegment d r) (\<lambda>s.
       Ok (r, m'\<lparr>MSegments := Segments_Insert (MSegments m') s\<rparr>)))"

definition AddKexecSegment :: "Memory \<Rightarrow> gslice \<Rightarrow> (kexec_error, Range \<times> Memory) res" where
  "AddKexecSegment m d =
     rbind (Memory_FindSpace m (sl_len d) pageSize) (\<lambda>r.
     rbind (NewSegment d r) (\<lambda>s.
       Ok (r, m\<lparr>MSegments := Segments_Insert (MSegments m) s\<rparr>)))"

definition AddKexecSegmentExplicit ::
    "Memory \<Rightarrow> gslice \<Rightarrow> u64 \<Rightarrow> u64 \<Rightarrow> u64 \<Rightarrow> (kexec_error, Range \<times> Memory) res" where
  "AddKexecSegmentExplicit m d sz offset alignSizeBytes =
     (if sz < sl_len d then Err ErrLengthMoreThanSize
      else if offset > sz then Err ErrOffsetLargerThanSize
      else
        rbind (Memory_FindSpace m sz alignSizeBytes) (\<lambda>r0.
        let r = r0\<lparr>Start := Start r0 + offset\<rparr> in
        rbind (NewSegment d r) (\<lambda>s.
          Ok (r, m\<lparr>MSegments := Segments_Insert (MSegments m) s\<rparr>))))"

text \<open>
  \<open>LoadElfSegments\<close>. The ELF parser is \<open>debug/elf\<close>: \<open>progs\<close> are the program headers it
  returns, \<open>readAt off n\<close> what \<open>r.ReadAt\<close> returns for a buffer of \<open>n\<close> bytes, the bytes read and
  the error. The buffer the bytes are read into is a new block.
\<close>

record Prog =
  pr_load :: bool
  pr_off :: u64
  pr_filesz :: u64
  pr_memsz :: u64
  pr_paddr :: u64

definition nil_slice :: gslice where
  "nil_slice = \<lparr>sl_ptr = 0, sl_len = 0, sl_cap = 0\<rparr>"

fun LoadElfSegments ::
    "allocator \<Rightarrow> (u64 \<Rightarrow> nat \<Rightarrow> byte list \<times> string option) \<Rightarrow> heap \<Rightarrow> Memory \<Rightarrow> Prog list
     \<Rightarrow> (kexec_error, heap \<times> Memory) res" where
  "LoadElfSegments alloc readAt h m [] = Ok (h, m)"
| "LoadElfSegments alloc readAt h m (p # progs) =
     (if \<not> pr_load p then LoadElfSegments alloc readAt h m progs
      else
        rbind (if pr_filesz p \<noteq> 0 then
                 (case readAt (pr_off p) (unat (pr_filesz p)) of
                    (bs, Some e) \<Rightarrow> Err (ErrExternal e)
                  | (bs, None) \<Rightarrow>
                      if length bs < unat (pr_filesz p) then Err ErrReadShort
                      else go_append alloc h nil_slice (take (unat (pr_filesz p)) bs))
               else Ok (h, nil_slice)) (\<lambda>(h', d).
        rbind (NewSegment d \<lparr>Start = pr_paddr p, Size = pr_memsz p\<rparr>) (\<lambda>s.
          LoadElfSegments alloc readAt h' (m\<lparr>MSegments := Segments_Insert (MSegments m) s\<rparr>) progs)))"

section \<open>Available memory\<close>

text \<open>No range reaches into the last page, so that page rounding cannot wrap.\<close>

definition bounded :: "Ranges \<Rightarrow> bool" where
  "bounded rs \<longleftrightarrow> (\<forall>r \<in> set rs. unat (End r) + 4095 < 2 ^ 64)"

definition mem_inv :: "Memory \<Rightarrow> bool" where
  "mem_inv m \<longleftrightarrow> map_ok (MPhys m) \<and> bounded (phys_ranges (MPhys m)) \<and>
     valid_ranges (Segments_Phys (MSegments m)) \<and> disjoint_ranges (Segments_Phys (MSegments m))"

lemma bounded_simps [simp]:
  "bounded []" "bounded (r # rs) \<longleftrightarrow> unat (End r) + 4095 < 2 ^ 64 \<and> bounded rs"
  "bounded (rs @ rs') \<longleftrightarrow> bounded rs \<and> bounded rs'"
  by (auto simp: bounded_def)

lemma Minus_End_le:
  assumes "valid_range r" "valid_range r2" "q \<in> set (Minus r r2)"
  shows "End q \<le> End r"
  using Minus_ranges [OF assms(3)] by (auto simp: Contains_def)

lemma bounded_Minus:
  assumes "valid_range r" "valid_range r2" "unat (End r) + 4095 < 2 ^ 64"
  shows "bounded (Minus r r2)"
  unfolding bounded_def
proof
  fix q assume "q \<in> set (Minus r r2)"
  with Minus_End_le [OF assms(1,2)] have "unat (End q) \<le> unat (End r)" by (simp add: word_le_nat_alt)
  with assms(3) show "unat (End q) + 4095 < 2 ^ 64" by simp
qed

lemma bounded_Ranges_Minus:
  "valid_ranges rs \<Longrightarrow> valid_range r \<Longrightarrow> bounded rs \<Longrightarrow> bounded (Ranges_Minus rs r)"
  by (induction rs) (auto simp: bounded_Minus)

lemma remove_segments_correct:
  assumes "valid_ranges ram" "disjoint_ranges ram" "bounded ram" "valid_ranges (Segments_Phys segs)"
  shows "Pts (remove_segments ram segs) = Pts ram - Pts (Segments_Phys segs) \<and>
    valid_ranges (remove_segments ram segs) \<and> disjoint_ranges (remove_segments ram segs) \<and>
    bounded (remove_segments ram segs)"
  using assms
proof (induction segs arbitrary: ram)
  case (Cons s segs)
  from Cons.prems have v: "valid_range (Phys s)" "valid_ranges (Segments_Phys segs)"
    by (simp_all add: Segments_Phys_def)
  note r = Ranges_Minus_correct [OF Cons.prems(1) v(1)]
  have "bounded (Ranges_Minus ram (Phys s))"
    using Cons.prems v by (simp add: bounded_Ranges_Minus)
  from Cons.IH [OF r(2) r(3) [OF Cons.prems(2)] this v(2)] show ?case
    by (auto simp: r(1) Segments_Phys_def simp del: mem_pts)
qed (auto simp: Segments_Phys_def)

lemma bounded_Filter: "bounded (phys_ranges m) \<Longrightarrow> bounded (FilterByType m typ)"
  by (induction m) auto

lemma aligned_range:
  assumes "valid_range r" "unat (End r) + 4095 < 2 ^ 64" "UpPage (Start r) < End r"
  shows "\<lparr>Start = UpPage (Start r), Size = Size r - (UpPage (Start r) - Start r)\<rparr> =
    RangeFromInterval (UpPage (Start r)) (End r)"
  by (simp add: RangeFromInterval_def End_def)

lemma alignedRanges_correct:
  assumes "valid_ranges rs" "bounded rs" "disjoint_ranges rs"
  shows "Pts (alignedRanges rs) \<subseteq> Pts rs \<and> valid_ranges (alignedRanges rs) \<and>
    disjoint_ranges (alignedRanges rs) \<and> bounded (alignedRanges rs) \<and>
    (\<forall>r \<in> set (alignedRanges rs). 4096 dvd unat (Start r))"
  using assms
proof (induction rs)
  case (Cons r rs)
  then have v: "valid_range r" "unat (End r) + 4095 < 2 ^ 64" and d: "pts r \<inter> Pts rs = {}"
    and IH: "Pts (alignedRanges rs) \<subseteq> Pts rs \<and> valid_ranges (alignedRanges rs) \<and>
      disjoint_ranges (alignedRanges rs) \<and> bounded (alignedRanges rs) \<and>
      (\<forall>r \<in> set (alignedRanges rs). 4096 dvd unat (Start r))"
    by auto
  show ?case
  proof (cases "UpPage (Start r) < End r")
    case True
    let ?a = "RangeFromInterval (UpPage (Start r)) (End r)"
    have "unat (Start r) + 4095 < 2 ^ 64" using v unat_End [OF v(1)] by simp
    then have "Start r \<le> UpPage (Start r)" by (simp add: word_le_nat_alt UpPage_ge)
    then have sub: "pts ?a \<subseteq> pts r" by auto
    have va: "valid_range ?a" using True by (simp add: valid_RangeFromInterval)
    have e: "alignedRanges (r # rs) = ?a # alignedRanges rs"
      using True by (simp add: aligned_range [OF v True])
    have dj: "pts ?a \<inter> Pts (alignedRanges rs) = {}" using sub d IH by blast
    show ?thesis
      unfolding e using IH va v(2) sub dj by (auto simp: UpPage_dvd simp del: mem_pts)
  next
    case False
    with IH show ?thesis by auto
  qed
qed auto

lemma AvailableRAM_correct:
  assumes "mem_inv m"
  shows "\<And>p. p \<in> Pts (AvailableRAM m) \<Longrightarrow> type_at (MPhys m) p = Some RangeRAM"
    and "Pts (AvailableRAM m) \<inter> Pts (Segments_Phys (MSegments m)) = {}"
    and "valid_ranges (AvailableRAM m)" and "disjoint_ranges (AvailableRAM m)"
    and "bounded (AvailableRAM m)" and "\<And>r. r \<in> set (AvailableRAM m) \<Longrightarrow> 4096 dvd unat (Start r)"
proof -
  let ?ram = "FilterByType (MPhys m) RangeRAM"
  from assms have ok: "map_ok (MPhys m)" "bounded (phys_ranges (MPhys m))"
    "valid_ranges (Segments_Phys (MSegments m))" by (simp_all add: mem_inv_def)
  note f = FilterByType_ok [OF ok(1)] and b = bounded_Filter [OF ok(2)]
  note rm = remove_segments_correct [OF f b ok(3), of RangeRAM]
  then have al: "Pts (AvailableRAM m) \<subseteq> Pts ?ram - Pts (Segments_Phys (MSegments m))"
    "valid_ranges (AvailableRAM m)" "disjoint_ranges (AvailableRAM m)" "bounded (AvailableRAM m)"
    "\<forall>r \<in> set (AvailableRAM m). 4096 dvd unat (Start r)"
    using alignedRanges_correct [of "remove_segments ?ram (MSegments m)"]
    by (auto simp: AvailableRAM_def simp del: mem_pts)
  then show "valid_ranges (AvailableRAM m)" "disjoint_ranges (AvailableRAM m)"
    "bounded (AvailableRAM m)" "\<And>r. r \<in> set (AvailableRAM m) \<Longrightarrow> 4096 dvd unat (Start r)"
    by auto
  show "type_at (MPhys m) p = Some RangeRAM" if "p \<in> Pts (AvailableRAM m)" for p
    using al(1) that Pts_FilterByType [OF ok(1)] by blast
  show "Pts (AvailableRAM m) \<inter> Pts (Segments_Phys (MSegments m)) = {}" using al(1) by blast
qed

section \<open>Finding space keeps the segments apart\<close>

definition free_range :: "Memory \<Rightarrow> Range \<Rightarrow> bool" where
  "free_range m r \<longleftrightarrow> valid_range r \<and> unat (End r) + 4095 < 2 ^ 64 \<and>
     (\<forall>p \<in> pts r. type_at (MPhys m) p = Some RangeRAM) \<and>
     pts r \<inter> Pts (Segments_Phys (MSegments m)) = {}"

lemma FindSpaceIn_free:
  assumes "mem_inv m" "valid_range limit" "FindSpaceIn (AvailableRAM m) sz limit = Ok r"
  shows "free_range m r" and "Size r = sz" and "Start limit \<le> Start r" and "End r \<le> End limit"
    and "4096 dvd unat (Start limit) \<Longrightarrow> 4096 dvd unat (Start r)"
proof -
  note a = AvailableRAM_correct [OF assms(1)]
  from FindSpaceIn_Ok [OF assms(3) a(3) assms(2)] obtain q where
    r: "valid_range r" "Size r = sz" "Start limit \<le> Start r" "End r \<le> End limit"
    and q: "q \<in> set (AvailableRAM m)" "pts r \<subseteq> pts q" "Start r = max (Start q) (Start limit)" "End r \<le> End q"
    by blast
  have sub: "pts r \<subseteq> Pts (AvailableRAM m)" using q(1,2) by (auto simp: Pts_def simp del: mem_pts)
  have "unat (End r) + 4095 < 2 ^ 64"
    using a(5) q(1,4) by (fastforce simp: bounded_def word_le_nat_alt)
  then show "free_range m r"
    using r(1) sub a(1,2) by (auto simp: free_range_def simp del: mem_pts)
  show "Size r = sz" "Start limit \<le> Start r" "End r \<le> End limit" by fact+
  show "4096 dvd unat (Start limit) \<Longrightarrow> 4096 dvd unat (Start r)"
    using a(6) [OF q(1)] q(3) by (auto simp: max_def)
qed

lemma M1_value: "M1 = 1048576"
  by (simp add: M1_def)

lemma valid_limit: "valid_range (RangeFromInterval M1 MaxAddr)"
  by (rule valid_RangeFromInterval) (simp add: M1_value MaxAddr_def)

lemma Memory_FindSpace_free:
  assumes "mem_inv m" "Memory_FindSpace m sz al = Ok r"
  shows "free_range m r" and "Size r = Up sz (if al = 0 then pageSize else al)"
    and "M1 \<le> Start r" and "4096 dvd unat (Start r)"
proof -
  from assms(2) have f: "FindSpaceIn (AvailableRAM m) (Up sz (if al = 0 then pageSize else al))
      (RangeFromInterval M1 MaxAddr) = Ok r"
    by (simp add: Memory_FindSpace_def FindSpaceAbove_def Let_def split: if_splits)
  note ff = FindSpaceIn_free [OF assms(1) valid_limit f]
  show "free_range m r" "Size r = Up sz (if al = 0 then pageSize else al)" by (fact ff)+
  show "M1 \<le> Start r" using ff(3) by simp
  show "4096 dvd unat (Start r)" by (rule ff(5)) (simp add: M1_value)
qed

lemma mset_Insert: "mset (Segments_Insert segs s) = add_mset s (mset segs)"
  by (simp add: Segments_Insert_def Segments_sort_def mset_sort_slice)

lemma mset_Phys_Insert:
  "mset (Segments_Phys (Segments_Insert segs s)) = mset (Phys s # Segments_Phys segs)"
  by (simp add: Segments_Phys_def mset_Insert)

lemma set_Phys_Insert:
  "set (Segments_Phys (Segments_Insert segs s)) = insert (Phys s) (set (Segments_Phys segs))"
  using mset_eq_setD [OF mset_Phys_Insert [of segs s]] by simp

lemma mem_inv_Insert:
  assumes "mem_inv m" "free_range m (Phys s)"
  shows "mem_inv (m\<lparr>MSegments := Segments_Insert (MSegments m) s\<rparr>)"
proof -
  have "disjoint_ranges (Phys s # Segments_Phys (MSegments m))"
    using assms by (simp add: mem_inv_def free_range_def del: mem_pts)
  from disjoint_ranges_perm [OF mset_Phys_Insert [symmetric] this]
  have "disjoint_ranges (Segments_Phys (Segments_Insert (MSegments m) s))" .
  moreover have "valid_ranges (Segments_Phys (Segments_Insert (MSegments m) s))"
    using assms by (simp add: valid_ranges_def set_Phys_Insert mem_inv_def free_range_def)
  ultimately show ?thesis using assms(1) by (simp add: mem_inv_def)
qed

lemma bounded_Insert:
  assumes "map_ok m" "bounded (phys_ranges m)" "valid_range (TRange r)" "unat (End (TRange r)) + 4095 < 2 ^ 64"
  shows "bounded (phys_ranges (MemoryMap_Insert m r))"
proof -
  have "bounded (phys_ranges (split_all m (TRange r) @ [r]))"
    using assms by (simp add: phys_split_all bounded_Ranges_Minus map_ok_def)
  moreover have "set (phys_ranges (MemoryMap_Insert m r)) = set (phys_ranges (split_all m (TRange r) @ [r]))"
    unfolding MemoryMap_Insert_def by (rule mset_eq_setD [OF mset_phys [OF mm_sort.srt_perm]])
  ultimately show ?thesis by (simp add: bounded_def)
qed

lemma NewSegment_Phys: "NewSegment d r = Ok s \<Longrightarrow> Phys s = r"
  by (auto simp: NewSegment_def split: if_splits)

lemma ReservePhys_correct:
  assumes "mem_inv m" "valid_range limit" "ReservePhys m sz limit = Ok (r, m')"
  shows "free_range m r" "Size r = UpPage sz" "Start limit \<le> Start r" "End r \<le> End limit" "mem_inv m'"
    "MSegments m' = MSegments m"
    "type_at (MPhys m') p = (if p \<in> pts r then Some RangeReserved else type_at (MPhys m) p)"
proof -
  from assms(3) have f: "FindSpaceIn (AvailableRAM m) (UpPage sz) limit = Ok r"
    and m': "m' = m\<lparr>MPhys := MemoryMap_Insert (MPhys m) \<lparr>TRange = r, TType = RangeReserved\<rparr>\<rparr>"
    by (auto simp: ReservePhys_def)
  note ff = FindSpaceIn_free [OF assms(1,2) f]
  show "free_range m r" "Size r = UpPage sz" "Start limit \<le> Start r" "End r \<le> End limit" by fact+
  have ok: "map_ok (MPhys m)" "bounded (phys_ranges (MPhys m))" using assms(1) by (simp_all add: mem_inv_def)
  have v: "valid_range r" "unat (End r) + 4095 < 2 ^ 64" using ff(1) by (simp_all add: free_range_def)
  show "mem_inv m'"
    using assms(1) map_ok_Insert [OF ok(1)] bounded_Insert [OF ok] v by (simp add: mem_inv_def m')
  show "MSegments m' = MSegments m" by (simp add: m')
  show "type_at (MPhys m') p = (if p \<in> pts r then Some RangeReserved else type_at (MPhys m) p)"
    using type_at_Insert [OF ok(1)] v by (simp add: m' del: mem_pts)
qed

lemma AddPhysSegment_correct:
  assumes "mem_inv m" "valid_range limit" "AddPhysSegment m d limit = Ok (r, m')"
  shows "free_range m r" "Size r = UpPage (sl_len d)" "mem_inv m'"
    "set (Segments_Phys (MSegments m')) = insert r (set (Segments_Phys (MSegments m)))"
    "type_at (MPhys m') p = (if p \<in> pts r then Some RangeReserved else type_at (MPhys m) p)"
proof -
  from assms(3) obtain m1 s where rp: "ReservePhys m (sl_len d) limit = Ok (r, m1)"
    and n: "NewSegment d r = Ok s" and m': "m' = m1\<lparr>MSegments := Segments_Insert (MSegments m1) s\<rparr>"
    by (auto simp: AddPhysSegment_def)
  note rr = ReservePhys_correct [OF assms(1,2) rp]
  show "free_range m r" "Size r = UpPage (sl_len d)" by (fact rr)+
  have "disjoint_ranges (Phys s # Segments_Phys (MSegments m1))"
    using rr(1,5,6) NewSegment_Phys [OF n] by (simp add: mem_inv_def free_range_def del: mem_pts)
  from disjoint_ranges_perm [OF mset_Phys_Insert [symmetric] this]
  have "disjoint_ranges (Segments_Phys (MSegments m'))" by (simp add: m')
  then show "mem_inv m'"
    using rr(1,5) NewSegment_Phys [OF n]
    by (simp add: mem_inv_def m' valid_ranges_def set_Phys_Insert free_range_def)
  show "set (Segments_Phys (MSegments m')) = insert r (set (Segments_Phys (MSegments m)))"
    by (simp add: m' set_Phys_Insert NewSegment_Phys [OF n] rr(6))
  show "type_at (MPhys m') p = (if p \<in> pts r then Some RangeReserved else type_at (MPhys m) p)"
    using rr(7) by (simp add: m' del: mem_pts)
qed

lemma AddKexecSegment_correct:
  assumes "mem_inv m" "AddKexecSegment m d = Ok (r, m')"
  shows "free_range m r" "Size r = UpPage (sl_len d)" "M1 \<le> Start r" "4096 dvd unat (Start r)" "mem_inv m'"
    "set (Segments_Phys (MSegments m')) = insert r (set (Segments_Phys (MSegments m)))"
    "MPhys m' = MPhys m"
proof -
  from assms(2) obtain s where f: "Memory_FindSpace m (sl_len d) pageSize = Ok r"
    and n: "NewSegment d r = Ok s" and m': "m' = m\<lparr>MSegments := Segments_Insert (MSegments m) s\<rparr>"
    by (auto simp: AddKexecSegment_def)
  note ff = Memory_FindSpace_free [OF assms(1) f]
  show "free_range m r" "M1 \<le> Start r" "4096 dvd unat (Start r)" by (fact ff)+
  show "Size r = UpPage (sl_len d)" using ff(2) by (simp add: UpPage_def pageSize_def)
  show "mem_inv m'"
    unfolding m' by (rule mem_inv_Insert [OF assms(1)]) (simp add: NewSegment_Phys [OF n] ff(1))
  show "set (Segments_Phys (MSegments m')) = insert r (set (Segments_Phys (MSegments m)))"
    by (simp add: m' set_Phys_Insert NewSegment_Phys [OF n])
  show "MPhys m' = MPhys m" by (simp add: m')
qed

text \<open>The range that is found for an explicit placement is free; the offset moves it without another look.\<close>

lemma AddKexecSegmentExplicit_found:
  assumes "mem_inv m" "AddKexecSegmentExplicit m d sz 0 al = Ok (r, m')"
  shows "free_range m r"
proof -
  from assms(2) obtain r0 where "Memory_FindSpace m sz al = Ok r0" "r = r0"
    by (auto simp: AddKexecSegmentExplicit_def Let_def split: if_splits)
  with Memory_FindSpace_free(1) [OF assms(1)] show ?thesis by simp
qed

lemma AddKexecSegmentExplicit_Insert:
  assumes "AddKexecSegmentExplicit m d sz off al = Ok (r, m')"
  obtains s where "Phys s = r" "m' = m\<lparr>MSegments := Segments_Insert (MSegments m) s\<rparr>"
  using assms NewSegment_Phys by (auto simp: AddKexecSegmentExplicit_def Let_def split: if_splits)

section \<open>Sequences of placements\<close>

text \<open>
  A loader changes a \<open>Memory\<close> by reserving space and adding segments; the steps of a loader run one after another. Where the code
  takes an address that it does not look up in the memory map, the step asks for what the code leaves to its caller: the
  range that an offset moved, and the ranges an ELF file is linked at, are free, and a limit does not wrap around.
\<close>

definition elf_ranges :: "Prog list \<Rightarrow> Ranges" where
  "elf_ranges progs = map (\<lambda>p. \<lparr>Start = pr_paddr p, Size = pr_memsz p\<rparr>) (filter pr_load progs)"

definition elf_free :: "Memory \<Rightarrow> Prog list \<Rightarrow> bool" where
  "elf_free m progs \<longleftrightarrow> (\<forall>r \<in> set (elf_ranges progs). free_range m r) \<and> disjoint_ranges (elf_ranges progs)"

inductive mem_step :: "Memory \<Rightarrow> Memory \<Rightarrow> bool" where
  reserve: "valid_range limit \<Longrightarrow> ReservePhys m sz limit = Ok (r, m') \<Longrightarrow> mem_step m m'"
| add_phys: "valid_range limit \<Longrightarrow> AddPhysSegment m d limit = Ok (r, m') \<Longrightarrow> mem_step m m'"
| add_kexec: "AddKexecSegment m d = Ok (r, m') \<Longrightarrow> mem_step m m'"
| add_explicit: "(offset \<noteq> 0 \<longrightarrow> free_range m r) \<Longrightarrow> AddKexecSegmentExplicit m d sz offset al = Ok (r, m') \<Longrightarrow> mem_step m m'"
| load_elf: "elf_free m progs \<Longrightarrow> LoadElfSegments alloc readAt h m progs = Ok (h', m') \<Longrightarrow> mem_step m m'"

inductive_cases mem_stepE: "mem_step m m'"

inductive mem_steps :: "Memory \<Rightarrow> Memory \<Rightarrow> bool" where
  none: "mem_steps m m"
| more: "mem_steps m m' \<Longrightarrow> mem_step m' m'' \<Longrightarrow> mem_steps m m''"

inductive_simps mem_steps_refl: "mem_steps m m"

text \<open>
  What a sequence of placements guarantees: new segments cover only points that were free
  RAM, the old ones are all kept, and a point that was not RAM keeps its type.
\<close>

definition placed :: "Memory \<Rightarrow> Memory \<Rightarrow> bool" where
  "placed m m' \<longleftrightarrow>
     set (Segments_Phys (MSegments m)) \<subseteq> set (Segments_Phys (MSegments m')) \<and>
     (\<forall>p \<in> Pts (Segments_Phys (MSegments m')) - Pts (Segments_Phys (MSegments m)).
        type_at (MPhys m) p = Some RangeRAM) \<and>
     (\<forall>p. type_at (MPhys m') p = type_at (MPhys m) p \<or>
        type_at (MPhys m) p = Some RangeRAM \<and> type_at (MPhys m') p = Some RangeReserved)"

lemma RAM_not_Reserved: "RangeReserved \<noteq> RangeRAM"
  by (simp add: RangeRAM_def RangeReserved_def)

lemma Pts_insert: "set rs' = insert r (set rs) \<Longrightarrow> Pts rs' = pts r \<union> Pts rs"
  by (simp add: Pts_def)

lemma placed_segment:
  assumes "free_range m r" "set (Segments_Phys (MSegments m')) = insert r (set (Segments_Phys (MSegments m)))"
    and "\<And>p. type_at (MPhys m') p = (if p \<in> pts r then Some RangeReserved else type_at (MPhys m) p) \<or>
      type_at (MPhys m') p = type_at (MPhys m) p"
  shows "placed m m'"
  unfolding placed_def
proof (intro conjI ballI allI)
  note P = Pts_insert [OF assms(2)]
  show "set (Segments_Phys (MSegments m)) \<subseteq> set (Segments_Phys (MSegments m'))" using assms(2) by blast
  have f: "\<And>p. p \<in> pts r \<Longrightarrow> type_at (MPhys m) p = Some RangeRAM"
    using assms(1) by (simp add: free_range_def del: mem_pts)
  then show "type_at (MPhys m) p = Some RangeRAM"
    if "p \<in> Pts (Segments_Phys (MSegments m')) - Pts (Segments_Phys (MSegments m))" for p
    using that unfolding P by blast
  show "type_at (MPhys m') p = type_at (MPhys m) p \<or>
      type_at (MPhys m) p = Some RangeRAM \<and> type_at (MPhys m') p = Some RangeReserved" for p
    using assms(3) [of p] f [of p] by metis
qed

lemma placed_trans:
  assumes "placed m m'" "placed m' m''"
  shows "placed m m''"
  unfolding placed_def
proof (intro conjI ballI allI)
  show "set (Segments_Phys (MSegments m)) \<subseteq> set (Segments_Phys (MSegments m''))"
    using assms by (auto simp: placed_def)
next
  fix p
  assume p: "p \<in> Pts (Segments_Phys (MSegments m'')) - Pts (Segments_Phys (MSegments m))"
  have t: "type_at (MPhys m') p = Some RangeRAM \<Longrightarrow> type_at (MPhys m) p = Some RangeRAM"
    using assms(1) RAM_not_Reserved unfolding placed_def by (metis option.inject)
  show "type_at (MPhys m) p = Some RangeRAM"
    using p t assms by (cases "p \<in> Pts (Segments_Phys (MSegments m'))") (simp_all add: placed_def del: mem_pts)
next
  fix p
  show "type_at (MPhys m'') p = type_at (MPhys m) p \<or>
      type_at (MPhys m) p = Some RangeRAM \<and> type_at (MPhys m'') p = Some RangeReserved"
    using assms by (metis placed_def)
qed

lemma placed_refl: "placed m m"
  by (auto simp: placed_def)

lemma placed_insert:
  assumes "mem_inv m" "free_range m (Phys s)"
  shows "mem_inv (m\<lparr>MSegments := Segments_Insert (MSegments m) s\<rparr>) \<and> placed m (m\<lparr>MSegments := Segments_Insert (MSegments m) s\<rparr>)"
  using mem_inv_Insert [OF assms] placed_segment [OF assms(2)] by (simp add: set_Phys_Insert)

lemma elf_free_Cons:
  assumes "elf_free m (p # progs)" "pr_load p" "Phys s = \<lparr>Start = pr_paddr p, Size = pr_memsz p\<rparr>"
  shows "free_range m (Phys s)" "elf_free (m\<lparr>MSegments := Segments_Insert (MSegments m) s\<rparr>) progs"
proof -
  have e: "elf_ranges (p # progs) = Phys s # elf_ranges progs" using assms(2,3) by (simp add: elf_ranges_def)
  then show "free_range m (Phys s)" using assms(1) by (simp add: elf_free_def)
  have P: "Pts (Segments_Phys (Segments_Insert (MSegments m) s)) = pts (Phys s) \<union> Pts (Segments_Phys (MSegments m))"
    by (rule Pts_insert [OF set_Phys_Insert])
  have d: "pts (Phys s) \<inter> Pts (elf_ranges progs) = {}" "disjoint_ranges (elf_ranges progs)"
    using assms(1) e by (simp_all add: elf_free_def del: mem_pts)
  have "free_range (m\<lparr>MSegments := Segments_Insert (MSegments m) s\<rparr>) r" if r: "r \<in> set (elf_ranges progs)" for r
  proof -
    have "free_range m r" using assms(1) e r by (simp add: elf_free_def)
    moreover have "pts r \<subseteq> Pts (elf_ranges progs)" using r by (auto simp: Pts_def simp del: mem_pts)
    ultimately show ?thesis using d(1) by (auto simp: free_range_def P simp del: mem_pts)
  qed
  with d(2) show "elf_free (m\<lparr>MSegments := Segments_Insert (MSegments m) s\<rparr>) progs" by (simp add: elf_free_def)
qed

lemma LoadElfSegments_placed:
  "LoadElfSegments alloc readAt h m progs = Ok (h', m') \<Longrightarrow> elf_free m progs \<Longrightarrow> mem_inv m \<Longrightarrow> mem_inv m' \<and> placed m m'"
proof (induction progs arbitrary: h m)
  case (Cons p progs)
  show ?case
  proof (cases "pr_load p")
    case False
    with Cons.prems have "elf_free m progs" by (simp add: elf_free_def elf_ranges_def)
    with Cons False show ?thesis by simp
  next
    case True
    then obtain h1 d s where n: "NewSegment d \<lparr>Start = pr_paddr p, Size = pr_memsz p\<rparr> = Ok s"
      and l: "LoadElfSegments alloc readAt h1 (m\<lparr>MSegments := Segments_Insert (MSegments m) s\<rparr>) progs = Ok (h', m')"
      using Cons.prems(1) by (auto simp: rbind_eq_Ok)
    note e = elf_free_Cons [OF Cons.prems(2) True NewSegment_Phys [OF n]]
    note i = placed_insert [OF Cons.prems(3) e(1)]
    from Cons.IH [OF l e(2)] i show ?thesis using placed_trans by blast
  qed
qed (simp add: placed_refl)

lemma mem_step_placed:
  assumes "mem_step m m'" "mem_inv m"
  shows "mem_inv m'" and "placed m m'"
proof -
  from assms(1) have "mem_inv m' \<and> placed m m'"
  proof cases
    case (reserve limit sz r)
    note c = ReservePhys_correct [OF assms(2) reserve]
    from c(1) have "\<forall>p \<in> pts r. type_at (MPhys m) p = Some RangeRAM" by (simp add: free_range_def del: mem_pts)
    with c(5,6,7) show ?thesis by (simp add: placed_def del: mem_pts)
  next
    case (add_phys limit d r)
    note c = AddPhysSegment_correct [OF assms(2) add_phys]
    from c(3) placed_segment [OF c(1,4)] c(5) show ?thesis by blast
  next
    case (add_kexec d r)
    note c = AddKexecSegment_correct [OF assms(2) add_kexec]
    from c(5) placed_segment [OF c(1,6)] c(7) show ?thesis by simp
  next
    case (add_explicit offset r d sz al)
    have f: "free_range m r"
      using add_explicit AddKexecSegmentExplicit_found [OF assms(2), of d sz al r m'] by (cases "offset = 0") auto
    from AddKexecSegmentExplicit_Insert [OF add_explicit(2)] obtain s
      where "Phys s = r" "m' = m\<lparr>MSegments := Segments_Insert (MSegments m) s\<rparr>" .
    with placed_insert [OF assms(2), of s] f show ?thesis by simp
  next
    case (load_elf progs alloc readAt h h')
    with LoadElfSegments_placed [OF _ load_elf(1)] assms(2) show ?thesis by blast
  qed
  then show "mem_inv m'" "placed m m'" by blast+
qed

lemma mem_steps_placed:
  assumes "mem_steps m m'" "mem_inv m"
  shows "mem_inv m' \<and> placed m m'"
  using assms
proof induction
  case (none m)
  then show ?case by (simp add: placed_refl)
next
  case (more m m' m'')
  then show ?case using mem_step_placed [of m' m''] placed_trans by blast
qed

end
