(* ===== verification/KexecLoad.thy ===== *)
theory KexecLoad imports KexecMemory begin

text \<open>
  \<open>pkg/boot/kexec/kexec_load_linux.go\<close>: \<open>Load\<close> aligns and merges the segments, checks the
  entry point and makes the system call. The kernel is a parameter: \<open>kexec_load k h entry n
  segs flags\<close> is its new state and the errno (0 on success) of the call. The second half of
  the theory states the properties of the whole package \<open>kexec\<close>.
\<close>

section \<open>Load\<close>

record ErrKexec =
  Entry :: u64
  ESegments :: Segments
  Flags :: u64
  Errno :: nat

datatype load_error =
    LoadAlign kexec_error
  | LoadEntry u64
  | LoadKexec ErrKexec

type_synonym 'k kexec_syscall = "'k \<Rightarrow> heap \<Rightarrow> u64 \<Rightarrow> nat \<Rightarrow> Segments \<Rightarrow> u64 \<Rightarrow> 'k \<times> nat"

text \<open>\<open>&segments[0]\<close> panics on an empty slice.\<close>

definition rawLoad ::
    "'k kexec_syscall \<Rightarrow> 'k \<Rightarrow> heap \<Rightarrow> u64 \<Rightarrow> Segments \<Rightarrow> u64 \<Rightarrow> 'k \<times> (load_error, unit) res" where
  "rawLoad kexec_load k h entry segments flags =
     (if segments = [] then (k, Panic)
      else case kexec_load k h entry (length segments) segments flags of
        (k', errno) \<Rightarrow>
          if errno \<noteq> 0
          then (k', Err (LoadKexec \<lparr>Entry = entry, ESegments = segments, Flags = flags, Errno = errno\<rparr>))
          else (k', Ok ()))"

definition Load ::
    "'k kexec_syscall \<Rightarrow> allocator \<Rightarrow> 'k \<Rightarrow> heap \<Rightarrow> u64 \<Rightarrow> Segments \<Rightarrow> u64 \<Rightarrow> 'k \<times> (load_error, unit) res" where
  "Load kexec_load alloc k h entry segs flags =
     (case AlignAndMerge alloc h segs of
        Err e \<Rightarrow> (k, Err (LoadAlign e))
      | Panic \<Rightarrow> (k, Panic)
      | Ok (h', segments) \<Rightarrow>
          if \<not> PhysContains segments entry then (k, Err (LoadEntry entry))
          else rawLoad kexec_load k h' entry segments flags)"

section \<open>Properties of package \<open>kexec\<close>\<close>

text \<open>What \<open>kexec_load(2)\<close> asks of its segments: page-aligned and disjoint.\<close>

definition page_segments :: "Segments \<Rightarrow> bool" where
  "page_segments segs \<longleftrightarrow> disjoint_ranges (Segments_Phys segs) \<and>
     (\<forall>s \<in> set segs. valid_range (Phys s) \<and> 4096 dvd unat (Start (Phys s)) \<and> 4096 dvd unat (Size (Phys s)))"

definition segs_ok :: "heap \<Rightarrow> Segments \<Rightarrow> bool" where
  "segs_ok h segs \<longleftrightarrow> (\<forall>s \<in> set segs. seg_ok s \<and> pts (Buf s) \<subseteq> live h)"

lemma segs_okD:
  assumes "segs_ok h segs"
  shows "\<forall>s \<in> set segs. seg_ok s \<and> pts (Buf s) \<subseteq> live h" and "\<forall>s \<in> set segs. seg_ok s"
  using assms by (simp_all add: segs_ok_def)

lemma AlignAndMerge_page_segments:
  assumes "alloc_ok alloc" "segs_ok h segs" "AlignAndMerge alloc h segs = Ok (h', out)"
  shows "page_segments out"
proof -
  note c = AlignAndMerge_pages_chain [OF assms(1) segs_okD(1) [OF assms(2)] assms(3)]
  then have "disjoint_ranges (Segments_Phys out)" using chain_disjoint by blast
  with c show ?thesis by (simp add: page_segments_def)
qed

lemma AlignAndMerge_image_eq:
  assumes "alloc_ok alloc" "segs_ok h segs" "AlignAndMerge alloc h segs = Ok (h', out)"
    and p: "p \<in> Pts (Segments_Phys segs)"
  shows "image h' out p = image h segs p"
proof -
  have d: "disjoint_ranges (Segments_Phys segs)"
    by (rule AlignAndMerge_Ok_chain(2) [OF assms(3) segs_okD(2) [OF assms(2)]])
  obtain s where s: "s \<in> set segs" "p \<in> pts (Phys s)"
    using p by (auto simp: Pts_def Segments_Phys_def simp del: mem_pts)
  have "image h' out p = Some (seg_byte h s p)"
    using AlignAndMerge_pages_chain [OF assms(1) segs_okD(1) [OF assms(2)] assms(3)] s by blast
  moreover have "image h segs p = Some (seg_byte h s p)" using image_iff [OF d] s by blast
  ultimately show ?thesis by simp
qed

lemma AlignAndMerge_covers:
  assumes "alloc_ok alloc" "segs_ok h segs" "AlignAndMerge alloc h segs = Ok (h', out)"
  shows "Pts (Segments_Phys segs) \<subseteq> Pts (Segments_Phys out)"
  using AlignAndMerge_pages_chain [OF assms(1) segs_okD(1) [OF assms(2)] assms(3)] by blast

lemma PhysContains_Pts: "PhysContains segs p \<longleftrightarrow> p \<in> Pts (Segments_Phys segs)"
  by (auto simp: PhysContains_def list_ex_iff Pts_def Segments_Phys_def Contains_def)

section \<open>Concrete inputs\<close>

text \<open>One allocated block; two small segments in one page; a machine with 64 KiB of RAM at 1 MiB.\<close>

definition ex_heap :: heap where
  "ex_heap = \<lparr>hmem = (\<lambda>a. ucast a), hblocks = [\<lparr>Start = 0x10000, Size = 16\<rparr>]\<rparr>"

definition ex_segs :: Segments where
  "ex_segs = [\<lparr>Buf = \<lparr>Start = 0x10008, Size = 4\<rparr>, Phys = \<lparr>Start = 0x100008, Size = 4\<rparr>\<rparr>,
              \<lparr>Buf = \<lparr>Start = 0x10000, Size = 4\<rparr>, Phys = \<lparr>Start = 0x100000, Size = 4\<rparr>\<rparr>]"

definition ex_memory :: Memory where
  "ex_memory = \<lparr>MPhys = [\<lparr>TRange = \<lparr>Start = 0x100000, Size = 0x10000\<rparr>, TType = RangeRAM\<rparr>], MSegments = []\<rparr>"

definition ex_data :: gslice where
  "ex_data = \<lparr>sl_ptr = 0x10000, sl_len = 16, sl_cap = 16\<rparr>"

lemmas kexec_defs = AlignAndMerge_def seg_less_def range_less_def Overlaps_def End_def AlignPhysStart_def
  pageMask_def pageSize_def Let_def mergeDisjoint_def realBufPad_def realBufTruncate_def
  NewSegment_def toSlice_def go_append_def go_zeros_def gbytes_def bump_alloc_def

lemma ex_segs_ok: "segs_ok ex_heap ex_segs"
  by (auto simp: segs_ok_def seg_ok_def ex_segs_def ex_heap_def valid_range_def End_def live_def
      word_nat_alts)

lemma ex_merge: "\<exists>h' s. AlignAndMerge bump_alloc ex_heap ex_segs = Ok (h', [s]) \<and>
    Phys s = \<lparr>Start = 0x100000, Size = 0x1000\<rparr> \<and> Size (Buf s) = 12"
  by (simp add: ex_heap_def ex_segs_def kexec_defs alignSize_def UpPage_def Up_def)

lemma ex_memory_inv: "mem_inv ex_memory"
  by (simp add: mem_inv_def ex_memory_def map_ok_def phys_ranges_def Segments_Phys_def valid_range_def End_def)

lemma ex_add: "AddKexecSegment ex_memory ex_data =
    Ok (\<lparr>Start = 0x100000, Size = 0x1000\<rparr>, ex_memory\<lparr>MSegments :=
      [\<lparr>Buf = \<lparr>Start = 0x10000, Size = 16\<rparr>, Phys = \<lparr>Start = 0x100000, Size = 0x1000\<rparr>\<rparr>]\<rparr>)"
  by (simp add: AddKexecSegment_def ex_memory_def ex_data_def Memory_FindSpace_def AvailableRAM_def
      RangeRAM_def M1_value FindSpaceAbove_def Intersect_def RangeFromInterval_def
      MaxAddr_def max_u_def min_u_def Segments_Insert_def Segments_sort_def kexec_defs UpPage_def Up_def)

section \<open>Properties\<close>

lemma Load_cases:
  assumes "alloc_ok alloc" "segs_ok h segs"
  shows "(\<exists>e. Load kexec_load alloc k h entry segs flags = (k, e) \<and> e \<noteq> Ok ()) \<or>
    (\<exists>h' out k' n. page_segments out \<and> PhysContains out entry \<and>
      (\<forall>p. p \<in> Pts (Segments_Phys segs) \<longrightarrow> image h' out p = image h segs p) \<and>
      kexec_load k h' entry (length out) out flags = (k', n) \<and>
      Load kexec_load alloc k h entry segs flags = (k', if n = 0 then Ok () else
        Err (LoadKexec \<lparr>Entry = entry, ESegments = out, Flags = flags, Errno = n\<rparr>)))"
proof (cases "AlignAndMerge alloc h segs")
  case (Ok x)
  obtain h' out where x: "x = (h', out)" by (cases x)
  have r: "AlignAndMerge alloc h segs = Ok (h', out)" using Ok x by simp
  show ?thesis
  proof (cases "PhysContains out entry")
    case True
    obtain k' n where k: "kexec_load k h' entry (length out) out flags = (k', n)" by fastforce
    have ne: "out \<noteq> []" using True by (auto simp: PhysContains_def)
    have "Load kexec_load alloc k h entry segs flags = (k', if n = 0 then Ok () else
        Err (LoadKexec \<lparr>Entry = entry, ESegments = out, Flags = flags, Errno = n\<rparr>))"
      using r True k ne by (simp add: Load_def rawLoad_def)
    with True k AlignAndMerge_page_segments [OF assms r] AlignAndMerge_image_eq [OF assms r]
    show ?thesis by blast
  qed (simp add: Load_def r)
qed (simp_all add: Load_def)

text \<open>C1: \<open>Load\<close> never lets the kernel see anything but page-aligned, disjoint segments that
  contain the entry point and load exactly the bytes of the segments it was given; otherwise it
  reports an error (or panics) and the kernel is not called.\<close>

theorem Load_kernel_call:
  assumes "alloc_ok alloc" "segs_ok h segs"
    and "Load kexec_load alloc k h entry segs flags = (k', r)"
  shows "(k' = k \<and> r \<noteq> Ok ()) \<or>
    (\<exists>h' out n. page_segments out \<and> PhysContains out entry \<and>
      (\<forall>p. p \<in> Pts (Segments_Phys segs) \<longrightarrow> image h' out p = image h segs p) \<and>
      kexec_load k h' entry (length out) out flags = (k', n) \<and>
      r = (if n = 0 then Ok () else
        Err (LoadKexec \<lparr>Entry = entry, ESegments = out, Flags = flags, Errno = n\<rparr>)))"
  using Load_cases [OF assms(1,2), of kexec_load k entry flags] assms(3) by auto

theorem Load_kernel_call_witness:
  "\<exists>k' r. Load (\<lambda>k h e n s f. (s, 0)) bump_alloc [] ex_heap 0x100004 ex_segs 0 = (k', r) \<and>
    page_segments k' \<and> PhysContains k' 0x100004 \<and> r = Ok ()"
proof -
  obtain h' s where m: "AlignAndMerge bump_alloc ex_heap ex_segs = Ok (h', [s])"
    "Phys s = \<lparr>Start = 0x100000, Size = 0x1000\<rparr>" using ex_merge by blast
  have l: "Load (\<lambda>k h e n s f. (s, 0)) bump_alloc [] ex_heap 0x100004 ex_segs 0 = ([s], Ok ())"
    by (simp add: Load_def m PhysContains_def Contains_def End_def rawLoad_def)
  from Load_kernel_call [OF bump_alloc_ok ex_segs_ok l] l show ?thesis by auto
qed

text \<open>C2: \<open>AlignAndMerge\<close> keeps the memory image: at every physical address of the input
  segments the merged segments load the same byte, from the buffers as the merge left them.\<close>

theorem AlignAndMerge_image:
  assumes "alloc_ok alloc" "segs_ok h segs" "AlignAndMerge alloc h segs = Ok (h', out)"
    and "p \<in> Pts (Segments_Phys segs)"
  shows "image h' out p = image h segs p"
  by (rule AlignAndMerge_image_eq [OF assms])

theorem AlignAndMerge_image_witness:
  "\<exists>h' out. AlignAndMerge bump_alloc ex_heap ex_segs = Ok (h', out) \<and>
     image h' out 0x100009 = image ex_heap ex_segs 0x100009"
proof -
  obtain h' s where m: "AlignAndMerge bump_alloc ex_heap ex_segs = Ok (h', [s])" using ex_merge by blast
  have "0x100009 \<in> Pts (Segments_Phys ex_segs)" by (simp add: ex_segs_def Segments_Phys_def End_def)
  from AlignAndMerge_image [OF bump_alloc_ok ex_segs_ok m this] m show ?thesis by blast
qed

text \<open>the segments \<open>AlignAndMerge\<close> returns are page-aligned in start and size, pairwise
  disjoint, and cover all physical memory the input covered.\<close>

theorem AlignAndMerge_pages:
  assumes "alloc_ok alloc" "segs_ok h segs" "AlignAndMerge alloc h segs = Ok (h', out)"
  shows "page_segments out \<and> Pts (Segments_Phys segs) \<subseteq> Pts (Segments_Phys out)"
  using AlignAndMerge_page_segments [OF assms] AlignAndMerge_covers [OF assms] by blast

theorem AlignAndMerge_pages_witness:
  "\<exists>h' out. AlignAndMerge bump_alloc ex_heap ex_segs = Ok (h', out) \<and> page_segments out \<and> length out = 1"
proof -
  obtain h' s where m: "AlignAndMerge bump_alloc ex_heap ex_segs = Ok (h', [s])" using ex_merge by blast
  from AlignAndMerge_pages [OF bump_alloc_ok ex_segs_ok m] m show ?thesis by auto
qed

text \<open>\<open>AlignAndMerge\<close> reports an error exactly when two segments overlap, and then the
  error is the overlap; the error \<open>could not merge disjoint segments\<close> cannot happen.\<close>

theorem AlignAndMerge_error_iff:
  assumes "alloc_ok alloc" "segs_ok h segs"
  shows "((\<exists>e. AlignAndMerge alloc h segs = Err e) \<longleftrightarrow> \<not> disjoint_ranges (Segments_Phys segs)) \<and>
    AlignAndMerge alloc h segs \<noteq> Err ErrMergeDisjoint"
proof
  show i: "(\<exists>e. AlignAndMerge alloc h segs = Err e) \<longleftrightarrow> \<not> disjoint_ranges (Segments_Phys segs)"
    using AlignAndMerge_not_Err [OF assms(1) segs_okD(1) [OF assms(2)]]
      AlignAndMerge_overlap [OF segs_okD(2) [OF assms(2)]] by blast
  show "AlignAndMerge alloc h segs \<noteq> Err ErrMergeDisjoint"
    using i AlignAndMerge_overlap [OF segs_okD(2) [OF assms(2)], of alloc h] by fastforce
qed

theorem AlignAndMerge_error_iff_witness:
  "\<not> (\<exists>e. AlignAndMerge bump_alloc ex_heap ex_segs = Err e)"
proof -
  have "disjoint_ranges (Segments_Phys ex_segs)"
    by (auto simp: ex_segs_def Segments_Phys_def End_def word_nat_alts)
  then show ?thesis by (simp add: AlignAndMerge_error_iff [OF bump_alloc_ok ex_segs_ok])
qed

text \<open>C3: the five operations that change a \<open>Memory\<close> (\<open>ReservePhys\<close>, \<open>AddPhysSegment\<close>, \<open>AddKexecSegment\<close>,
  \<open>AddKexecSegmentExplicit\<close>, \<open>LoadElfSegments\<close>), run in any order and number, keep the kexec segments disjoint, lose none,
  put new ones into free RAM only, and change the memory map only by RAM becoming reserved. Three things that the code
  does not check are conditions of the steps: a limit does not wrap around, the range that a nonzero offset moved
  is free, and the ranges an ELF file is linked at are free and disjoint. Without them it fails:
  \<open>AddKexecSegmentExplicit_overruns\<close> and \<open>setup_outside_RAM\<close> are placements outside the RAM, the second with the limit that
  the amd64 loader passes for its boot parameters.\<close>

theorem placements_safe:
  assumes "mem_inv m" "mem_steps m m'"
  shows "mem_inv m' \<and> placed m m'"
  using mem_steps_placed [OF assms(2,1)] .

theorem placements_safe_witness:
  "\<exists>m' s. mem_steps ex_memory m' \<and> MSegments m' = [s] \<and> mem_inv m' \<and> placed ex_memory m'"
proof -
  note st = mem_steps.more [OF mem_steps.none mem_step.add_kexec [OF ex_add]]
  from placements_safe [OF ex_memory_inv st] st show ?thesis by fastforce
qed

text \<open>the range \<open>AddKexecSegment\<close> returns is page-aligned, above 1 MiB, large enough for
  the data, all RAM, and apart from every segment already placed.\<close>

theorem AddKexecSegment_fresh:
  assumes "mem_inv m" "AddKexecSegment m d = Ok (r, m')"
  shows "4096 dvd unat (Start r) \<and> M1 \<le> Start r \<and> Size r = UpPage (sl_len d) \<and> free_range m r \<and>
    set (Segments_Phys (MSegments m')) = insert r (set (Segments_Phys (MSegments m))) \<and> MPhys m' = MPhys m"
  using AddKexecSegment_correct [OF assms] by blast

theorem AddKexecSegment_fresh_witness:
  "\<exists>r m'. AddKexecSegment ex_memory ex_data = Ok (r, m') \<and> free_range ex_memory r"
  using AddKexecSegment_fresh [OF ex_memory_inv ex_add] ex_add by blast

text \<open>\<open>ReservePhys\<close> takes a free range of whole pages inside the limit and marks exactly
  its points as reserved.\<close>

theorem ReservePhys_reserves:
  assumes "mem_inv m" "valid_range limit" "ReservePhys m sz limit = Ok (r, m')"
  shows "free_range m r \<and> Size r = UpPage sz \<and> Start limit \<le> Start r \<and> End r \<le> End limit \<and>
    MSegments m' = MSegments m \<and>
    (\<forall>p. type_at (MPhys m') p = (if p \<in> pts r then Some RangeReserved else type_at (MPhys m) p))"
  using ReservePhys_correct [OF assms] by blast

theorem ReservePhys_reserves_witness:
  "\<exists>r m'. ReservePhys ex_memory 100 \<lparr>Start = 0x101000, Size = 0x8000\<rparr> = Ok (r, m') \<and>
     r = \<lparr>Start = 0x101000, Size = 0x1000\<rparr> \<and> type_at (MPhys m') 0x101004 = Some RangeReserved"
proof -
  obtain r m' where e: "ReservePhys ex_memory 100 \<lparr>Start = 0x101000, Size = 0x8000\<rparr> = Ok (r, m')"
    and r: "r = \<lparr>Start = 0x101000, Size = 0x1000\<rparr>"
    by (simp add: ReservePhys_def ex_memory_def AvailableRAM_def RangeRAM_def Intersect_def
        RangeFromInterval_def max_u_def min_u_def UpPage_def Up_def kexec_defs)
  have v: "valid_range \<lparr>Start = 0x101000, Size = 0x8000\<rparr>" by (simp add: valid_range_def)
  show ?thesis using ReservePhys_reserves [OF ex_memory_inv v e] e r by (auto simp: End_def)
qed

text \<open>\<open>MemoryMap.Insert\<close> is a map update: the points of the new range get its type, all
  others keep theirs, and the map stays a sorted list of disjoint ranges.\<close>

theorem Insert_map_update:
  assumes "map_ok m" "valid_range (TRange r)"
  shows "type_at (MemoryMap_Insert m r) p = (if p \<in> pts (TRange r) then Some (TType r) else type_at m p) \<and>
    map_ok (MemoryMap_Insert m r) \<and> map_sorted (MemoryMap_Insert m r)"
  using type_at_Insert [OF assms] map_ok_Insert [OF assms] by (simp add: MemoryMap_Insert_def map_sorted_sort)

theorem Insert_map_update_witness:
  "type_at (MemoryMap_Insert (MPhys ex_memory)
     \<lparr>TRange = \<lparr>Start = 0x102000, Size = 0x1000\<rparr>, TType = RangeACPI\<rparr>) 0x102004 = Some RangeACPI"
proof -
  have "map_ok (MPhys ex_memory)" using ex_memory_inv by (simp add: mem_inv_def)
  from Insert_map_update [OF this, where p = "0x102004" and r = "\<lparr>TRange = \<lparr>Start = 0x102000, Size = 0x1000\<rparr>, TType = RangeACPI\<rparr>"]
  show ?thesis by (simp add: valid_range_def End_def)
qed

text \<open>\<open>Range.Minus\<close> removes exactly the points of the second range, in disjoint pieces.\<close>

theorem Minus_points:
  assumes "valid_range r" "valid_range r2"
  shows "Pts (Minus r r2) = pts r - pts r2 \<and> disjoint_ranges (Minus r r2) \<and> valid_ranges (Minus r r2)"
  using Pts_Minus [OF assms] disjoint_Minus [OF assms] valid_ranges_Minus [OF assms(1)] by blast

theorem Minus_points_witness:
  "Minus \<lparr>Start = 10, Size = 10\<rparr> \<lparr>Start = 12, Size = 3\<rparr> =
     [\<lparr>Start = 10, Size = 2\<rparr>, \<lparr>Start = 15, Size = 5\<rparr>] \<and>
   Pts [\<lparr>Start = 10, Size = 2\<rparr>, \<lparr>Start = 15, Size = 5\<rparr>] =
     pts \<lparr>Start = 10, Size = 10\<rparr> - pts \<lparr>Start = 12, Size = 3\<rparr>"
proof -
  have e: "Minus \<lparr>Start = 10, Size = 10\<rparr> \<lparr>Start = 12, Size = 3\<rparr> =
     [\<lparr>Start = 10, Size = 2\<rparr>, \<lparr>Start = 15, Size = 5\<rparr>]"
    by (simp add: Minus_def Contains_def End_def)
  have v: "valid_range \<lparr>Start = 10, Size = 10\<rparr>" "valid_range \<lparr>Start = 12, Size = 3\<rparr>"
    by (simp_all add: valid_range_def)
  show ?thesis using Minus_points [OF v] unfolding e by blast
qed

text \<open>\<open>FindSpaceIn\<close> returns a range of the requested size inside the limit and inside one
  of the ranges, and it fails only when no range has that much room inside the limit.\<close>

theorem FindSpaceIn_first_fit:
  assumes "valid_ranges rs" "valid_range limit"
  shows "(\<exists>s. FindSpaceIn rs sz limit = Ok s \<and> Size s = sz \<and> Start limit \<le> Start s \<and> End s \<le> End limit \<and>
        (\<exists>r. r \<in> set rs \<and> pts s \<subseteq> pts r)) \<or>
    (FindSpaceIn rs sz limit = Err (ErrNotEnoughSpace sz) \<and>
        \<not> (\<exists>r i. r \<in> set rs \<and> Intersect r limit = Some i \<and> sz \<le> Size i))"
proof (cases "\<exists>s. FindSpaceIn rs sz limit = Ok s")
  case True
  then obtain s where s: "FindSpaceIn rs sz limit = Ok s" by blast
  from FindSpaceIn_Ok [OF s assms] s show ?thesis by blast
next
  case False
  then have e: "FindSpaceIn rs sz limit = Err (ErrNotEnoughSpace sz)" using FindSpaceIn_cases by blast
  then have "\<forall>r \<in> set rs. \<forall>i. Intersect r limit = Some i \<longrightarrow> Size i < sz"
    using FindSpaceIn_Err_iff [of rs sz limit] by blast
  with e show ?thesis by (auto simp: not_le)
qed

theorem FindSpaceIn_first_fit_witness:
  "\<exists>s. FindSpaceIn [\<lparr>Start = 0, Size = 8\<rparr>, \<lparr>Start = 32, Size = 64\<rparr>] 10 \<lparr>Start = 4, Size = 60\<rparr> = Ok s \<and>
     s = \<lparr>Start = 32, Size = 10\<rparr>"
proof -
  have v: "valid_ranges [\<lparr>Start = 0, Size = 8\<rparr>, \<lparr>Start = 32, Size = 64\<rparr>]" "valid_range \<lparr>Start = 4, Size = 60\<rparr>"
    by (simp_all add: valid_range_def)
  have "FindSpaceIn [\<lparr>Start = 0, Size = 8\<rparr>, \<lparr>Start = 32, Size = 64\<rparr>] 10 \<lparr>Start = 4, Size = 60\<rparr> =
      Ok \<lparr>Start = 32, Size = 10\<rparr>"
    by (simp add: Intersect_def Overlaps_def End_def RangeFromInterval_def max_u_def min_u_def)
  with FindSpaceIn_first_fit [OF v, of 10] show ?thesis by blast
qed

section \<open>Behaviours outside the contracts\<close>

text \<open>
  An empty segment between two overlapping ones hides the overlap from \<open>AlignAndMerge\<close>, which
  compares neighbours only: the result overlaps and no error is reported.
\<close>

theorem AlignAndMerge_empty_hides_overlap:
  fixes buf :: Range
  defines "buf \<equiv> \<lparr>Start = 0x10000, Size = 16\<rparr>"
  defines "segs \<equiv> [\<lparr>Buf = buf, Phys = \<lparr>Start = 0x100000, Size = 0x2000\<rparr>\<rparr>,
                   \<lparr>Buf = buf, Phys = \<lparr>Start = 0x100000, Size = 0\<rparr>\<rparr>,
                   \<lparr>Buf = buf, Phys = \<lparr>Start = 0x101000, Size = 0x1000\<rparr>\<rparr>]"
  shows "\<exists>h' out. AlignAndMerge bump_alloc ex_heap segs = Ok (h', out) \<and>
    \<not> disjoint_ranges (Segments_Phys out)"
proof -
  have e: "\<exists>h' a b c. AlignAndMerge bump_alloc ex_heap segs = Ok (h', [a, b, c]) \<and>
      Phys a = \<lparr>Start = 0x100000, Size = 0x2000\<rparr> \<and> Phys c = \<lparr>Start = 0x101000, Size = 0x1000\<rparr>"
    by (simp add: segs_def buf_def ex_heap_def kexec_defs alignSize_def UpPage_def Up_def)
  then obtain h' a b c where m: "AlignAndMerge bump_alloc ex_heap segs = Ok (h', [a, b, c])"
    and p: "Phys a = \<lparr>Start = 0x100000, Size = 0x2000\<rparr>" "Phys c = \<lparr>Start = 0x101000, Size = 0x1000\<rparr>"
    by blast
  have "0x101000 \<in> pts (Phys a) \<inter> pts (Phys c)" by (simp add: p End_def)
  then have "\<not> disjoint_ranges (Segments_Phys [a, b, c])" by (auto simp: Segments_Phys_def simp del: mem_pts)
  with m show ?thesis by blast
qed

text \<open>
  A segment without data (an ELF segment with \<open>Filesz\<close> 0) whose physical start is not
  page-aligned makes \<open>AlignPhysStart\<close> panic.
\<close>

theorem AlignPhysStart_nil_panics:
  assumes "Start phys AND NOT pageMask \<noteq> Start phys"
  shows "AlignPhysStart \<lparr>Buf = \<lparr>Start = 0, Size = 0\<rparr>, Phys = phys\<rparr> = Panic"
  using assms by (auto simp: AlignPhysStart_def Let_def word_gt_0)

text \<open>
  \<open>AddKexecSegmentExplicit\<close> moves the start of the range it found by the offset and keeps the
  size: the segment runs past the free space, here past the end of RAM.
\<close>

theorem AddKexecSegmentExplicit_overruns:
  fixes m :: Memory
  defines "m \<equiv> \<lparr>MPhys = [\<lparr>TRange = \<lparr>Start = 0x100000, Size = 0x2000\<rparr>, TType = RangeRAM\<rparr>], MSegments = []\<rparr>"
  shows "\<exists>r m'. AddKexecSegmentExplicit m ex_data 0x2000 0x1000 0 = Ok (r, m') \<and>
    r = \<lparr>Start = 0x101000, Size = 0x2000\<rparr> \<and> type_at (MPhys m) 0x102000 = None \<and> 0x102000 \<in> pts r"
  by (simp add: AddKexecSegmentExplicit_def m_def ex_data_def Memory_FindSpace_def AvailableRAM_def
      RangeRAM_def M1_value FindSpaceAbove_def Intersect_def RangeFromInterval_def Contains_def
      MaxAddr_def max_u_def min_u_def Segments_Insert_def Segments_sort_def kexec_defs UpPage_def Up_def)

end
