(* ===== verification/DtNode.thy ===== *)
theory DtNode imports GoStd begin

text \<open>
  \<open>pkg/dt/node.go\<close> and \<open>pkg/dt/walk.go\<close>: device tree nodes and properties, searching and
  changing them, and the typed views of a property value. A search is described by the
  preorder list of the nodes (\<open>preorder\<close>).
\<close>

section \<open>Nodes\<close>

record Property =
  PName :: string
  PValue :: "byte list"

datatype Node = Node (Name: string) (Properties: "Property list") (Children: "Node list")

datatype dt_error =
    ErrIO io_error
  | ErrMagic u32
  | ErrVersion u32 u32
  | ErrTooLarge u32
  | ErrReserveOverlapsHeader u32
  | ErrReserveUnaligned u32
  | ErrStructOverlapsReserve u32 u32
  | ErrStructUnaligned u32
  | ErrMultipleRoots
  | ErrUnbalanced
  | ErrNameOffset u32 nat
  | ErrNameNoNull u32
  | ErrPropOutside string
  | ErrExtraData u32 u32
  | ErrNoRoot
  | ErrToken u32
  | ErrNotType string string
  | ErrRegion
  | ErrNodeName string
  | ErrPropertyName string
  | ErrNoMatch
  | ErrLoadFDT

text \<open>\<open>Walk\<close> calls \<open>f\<close> on a node and its descendants; \<open>f\<close> changes the state \<open>s\<close> of its closure.\<close>

fun Walk :: "(Node \<Rightarrow> 's \<Rightarrow> ('e, 's) res) \<Rightarrow> Node \<Rightarrow> 's \<Rightarrow> ('e, 's) res"
  and Walk_children :: "(Node \<Rightarrow> 's \<Rightarrow> ('e, 's) res) \<Rightarrow> Node list \<Rightarrow> 's \<Rightarrow> ('e, 's) res" where
  "Walk f (Node nm ps cs) s = rbind (f (Node nm ps cs) s) (\<lambda>s'. Walk_children f cs s')"
| "Walk_children f [] s = Ok s"
| "Walk_children f (c # cs) s = rbind (Walk f c s) (\<lambda>s'. Walk_children f cs s')"

fun Find :: "(Node \<Rightarrow> bool) \<Rightarrow> Node \<Rightarrow> Node option"
  and Find_children :: "(Node \<Rightarrow> bool) \<Rightarrow> Node list \<Rightarrow> Node option" where
  "Find f (Node nm ps cs) = (if f (Node nm ps cs) then Some (Node nm ps cs) else Find_children f cs)"
| "Find_children f [] = None"
| "Find_children f (c # cs) = (case Find f c of Some n \<Rightarrow> Some n | None \<Rightarrow> Find_children f cs)"

fun FindAll :: "(Node \<Rightarrow> bool) \<Rightarrow> Node \<Rightarrow> Node list option"
  and FindAll_children :: "(Node \<Rightarrow> bool) \<Rightarrow> Node list \<Rightarrow> Node list \<Rightarrow> Node list" where
  "FindAll f (Node nm ps cs) =
     (let nodes = FindAll_children f cs (if f (Node nm ps cs) then [Node nm ps cs] else [])
      in if length nodes = 0 then None else Some nodes)"
| "FindAll_children f [] nodes = nodes"
| "FindAll_children f (c # cs) nodes =
     FindAll_children f cs (case FindAll f c of Some matching \<Rightarrow> nodes @ matching | None \<Rightarrow> nodes)"

definition NodeByName :: "string \<Rightarrow> Node \<Rightarrow> Node option" where
  "NodeByName name n = Find (\<lambda>n. Name n = name) n"

fun look_property :: "string \<Rightarrow> Property list \<Rightarrow> nat option" where
  "look_property name [] = None"
| "look_property name (p # ps) = (if PName p = name then Some 0 else map_option Suc (look_property name ps))"

definition LookProperty :: "string \<Rightarrow> Node \<Rightarrow> Property option" where
  "LookProperty name n =
     (case look_property name (Properties n) of None \<Rightarrow> None | Some idx \<Rightarrow> Some (Properties n ! idx))"

text \<open>The property removed is replaced by the last one.\<close>

definition RemoveProperty :: "string \<Rightarrow> Node \<Rightarrow> Node \<times> bool" where
  "RemoveProperty name n =
     (case look_property name (Properties n) of
        None \<Rightarrow> (n, False)
      | Some idx \<Rightarrow>
          let ps = Properties n; lastIdx = length ps - 1;
              ps' = (if idx \<noteq> lastIdx then ps[idx := ps ! lastIdx] else ps)
          in (Node (Name n) (take lastIdx ps') (Children n), True))"

definition UpdateProperty :: "string \<Rightarrow> byte list \<Rightarrow> Node \<Rightarrow> Node \<times> bool" where
  "UpdateProperty name value n =
     (case look_property name (Properties n) of
        Some idx \<Rightarrow>
          (Node (Name n) ((Properties n)[idx := (Properties n ! idx)\<lparr>PValue := value\<rparr>]) (Children n), True)
      | None \<Rightarrow>
          (Node (Name n) (Properties n @ [\<lparr>PName = name, PValue = value\<rparr>]) (Children n), False))"

section \<open>Typed views of a property\<close>

datatype PropertyType =
    EmptyType | U32Type | U64Type | StringType | PropEncodedArrayType | PHandleType | StringListType

datatype dt_value =
    VEmpty | VU32 u32 | VU64 u64 | VString string | VArray "byte list" | VPHandle u32 | VStringList "string list"

definition StandardPropertyTypes :: "string \<rightharpoonup> PropertyType" where
  "StandardPropertyTypes = map_of
     [(''compatible'', StringListType), (''model'', StringType), (''phandle'', PHandleType),
      (''status'', StringType), (''#address-cells'', U32Type), (''#size-cells'', U32Type),
      (''reg'', PropEncodedArrayType), (''virtual-reg'', U32Type), (''ranges'', PropEncodedArrayType),
      (''dma-ranges'', PropEncodedArrayType), (''name'', StringType), (''device_tree'', StringType)]"

text \<open>\<open>unicode.IsPrint\<close> on ASCII: the characters from space to tilde.\<close>

definition isPrintableASCII :: "byte list \<Rightarrow> bool" where
  "isPrintableASCII s = list_all (\<lambda>v. \<not> (v > 127 \<or> \<not> (32 \<le> v \<and> v \<le> 126))) s"

definition AsEmpty :: "Property \<Rightarrow> (dt_error, unit) res" where
  "AsEmpty p = (if length (PValue p) \<noteq> 0 then Err (ErrNotType (PName p) ''empty'') else Ok ())"

definition AsU32 :: "Property \<Rightarrow> (dt_error, u32) res" where
  "AsU32 p = (if length (PValue p) \<noteq> 4 then Err (ErrNotType (PName p) ''u32'') else Ok (un_be32 (PValue p)))"

definition AsU64 :: "Property \<Rightarrow> (dt_error, u64) res" where
  "AsU64 p = (if length (PValue p) \<noteq> 8 then Err (ErrNotType (PName p) ''u64'') else Ok (un_be64 (PValue p)))"

record Region =
  RStart :: u64
  RSize :: u64

definition AsRegion :: "Property \<Rightarrow> (dt_error, Region) res" where
  "AsRegion p =
     (if length (PValue p) \<noteq> 16 then Err ErrRegion
      else Ok \<lparr>RStart = un_be64 (take 8 (PValue p)), RSize = un_be64 (drop 8 (PValue p))\<rparr>)"

definition AsString :: "Property \<Rightarrow> (dt_error, string) res" where
  "AsString p =
     (if length (PValue p) = 0 \<or> PValue p ! (length (PValue p) - 1) \<noteq> 0 then Err (ErrNotType (PName p) ''string'')
      else
        let str = take (length (PValue p) - 1) (PValue p) in
        if \<not> isPrintableASCII str then Err (ErrNotType (PName p) ''string'')
        else Ok (bytes_str str))"

definition AsPropEncodedArray :: "Property \<Rightarrow> (dt_error, byte list) res" where
  "AsPropEncodedArray p = Ok (PValue p)"

definition AsPHandle :: "Property \<Rightarrow> (dt_error, u32) res" where
  "AsPHandle p = AsU32 p"

text \<open>
  The loop of \<open>AsStringList\<close> runs while the whole value (not the rest of it) is non-empty;
  \<open>value[:nextNull]\<close> panics when there is no null byte left.
\<close>

lemma IndexByte_lt: "IndexByte value c = Some i \<Longrightarrow> i < length value"
  by (drule IndexByte_Some) simp

function as_strings :: "Property \<Rightarrow> byte list \<Rightarrow> string list \<Rightarrow> (dt_error, string list) res" where
  "as_strings p value strs =
     (if \<not> length (PValue p) > 0 then Ok strs
      else case IndexByte value 0 of
        None \<Rightarrow> Panic
      | Some nextNull \<Rightarrow>
          if \<not> isPrintableASCII (take nextNull value) then Err (ErrNotType (PName p) ''stringlist'')
          else as_strings p (drop (Suc nextNull) value) (strs @ [bytes_str (take nextNull value)]))"
  by pat_completeness auto
termination
  by (relation "measure (\<lambda>(p, value, strs). length value)") (auto dest: IndexByte_lt)

declare as_strings.simps [simp del]

definition AsStringList :: "Property \<Rightarrow> (dt_error, string list) res" where
  "AsStringList p =
     (if length (PValue p) = 0 \<or> PValue p ! (length (PValue p) - 1) \<noteq> 0 then Err (ErrNotType (PName p) ''stringlist'')
      else as_strings p (PValue p) [])"

fun AsType :: "Property \<Rightarrow> PropertyType \<Rightarrow> (dt_error, dt_value) res" where
  "AsType p EmptyType = rbind (AsEmpty p) (\<lambda>_. Ok VEmpty)"
| "AsType p U32Type = rbind (AsU32 p) (\<lambda>v. Ok (VU32 v))"
| "AsType p U64Type = rbind (AsU64 p) (\<lambda>v. Ok (VU64 v))"
| "AsType p StringType = rbind (AsString p) (\<lambda>v. Ok (VString v))"
| "AsType p PropEncodedArrayType = rbind (AsPropEncodedArray p) (\<lambda>v. Ok (VArray v))"
| "AsType p PHandleType = rbind (AsPHandle p) (\<lambda>v. Ok (VPHandle v))"
| "AsType p StringListType = rbind (AsStringList p) (\<lambda>v. Ok (VStringList v))"

text \<open>\<open>try r t k\<close>: the type \<open>t\<close> when \<open>r\<close> is no error, otherwise go on with \<open>k\<close>.\<close>

fun try_type :: "(dt_error, 'a) res \<Rightarrow> PropertyType \<Rightarrow> (dt_error, PropertyType) res \<Rightarrow> (dt_error, PropertyType) res" where
  "try_type (Ok v) t k = Ok t"
| "try_type (Err e) t k = k"
| "try_type Panic t k = Panic"

definition PredictType :: "Property \<Rightarrow> (dt_error, PropertyType) res" where
  "PredictType p =
     (let heuristic =
        try_type (AsEmpty p) EmptyType
       (try_type (AsString p) StringType
       (try_type (AsStringList p) StringListType
       (try_type (AsU32 p) U32Type
       (try_type (AsU64 p) U64Type
         (Ok PropEncodedArrayType)))))
      in case StandardPropertyTypes (PName p) of
           Some value \<Rightarrow> try_type (AsType p value) value heuristic
         | None \<Rightarrow> heuristic)"

section \<open>\<open>NodeWalk\<close>, \<open>PropertyWalk\<close>\<close>

text \<open>A walk is at a node or has failed; likewise a walk to a property.\<close>

type_synonym NodeWalk = "(dt_error, Node) res"
type_synonym PropertyWalk = "(dt_error, Property) res"

fun find_child :: "string \<Rightarrow> Node list \<Rightarrow> NodeWalk" where
  "find_child name [] = Err (ErrNodeName name)"
| "find_child name (n # ns) = (if Name n = name then Ok n else find_child name ns)"

fun find_prop :: "string \<Rightarrow> Property list \<Rightarrow> PropertyWalk" where
  "find_prop name [] = Err (ErrPropertyName name)"
| "find_prop name (p # ps) = (if PName p = name then Ok p else find_prop name ps)"

definition NodeWalk_AsString :: "NodeWalk \<Rightarrow> (dt_error, string) res" where
  "NodeWalk_AsString nq = rbind nq (\<lambda>n. Ok (Name n))"

definition ListChildNodes :: "NodeWalk \<Rightarrow> (dt_error, string list) res" where
  "ListChildNodes nq = rbind nq (\<lambda>n. Ok (map Name (Children n)))"

definition NodeWalk_Walk :: "NodeWalk \<Rightarrow> string \<Rightarrow> NodeWalk" where
  "NodeWalk_Walk nq name = rbind nq (\<lambda>n. find_child name (Children n))"

definition NodeWalk_Find :: "NodeWalk \<Rightarrow> (Node \<Rightarrow> bool) \<Rightarrow> (dt_error, Node) res" where
  "NodeWalk_Find nq f =
     rbind nq (\<lambda>n. case Find f n of Some m \<Rightarrow> Ok m | None \<Rightarrow> Err ErrNoMatch)"

definition NodeWalk_FindAll :: "NodeWalk \<Rightarrow> (Node \<Rightarrow> bool) \<Rightarrow> (dt_error, Node list) res" where
  "NodeWalk_FindAll nq f =
     rbind nq (\<lambda>n. case FindAll f n of Some ms \<Rightarrow> Ok ms | None \<Rightarrow> Err ErrNoMatch)"

definition NodeWalk_Property :: "NodeWalk \<Rightarrow> string \<Rightarrow> PropertyWalk" where
  "NodeWalk_Property nq name = rbind nq (\<lambda>n. find_prop name (Properties n))"

definition PropertyWalk_AsU64 :: "PropertyWalk \<Rightarrow> (dt_error, u64) res" where
  "PropertyWalk_AsU64 pq = rbind pq AsU64"

definition PropertyWalk_AsString :: "PropertyWalk \<Rightarrow> (dt_error, string) res" where
  "PropertyWalk_AsString pq = rbind pq AsString"

definition PropertyWalk_AsBytes :: "PropertyWalk \<Rightarrow> (dt_error, byte list) res" where
  "PropertyWalk_AsBytes pq = rbind pq (\<lambda>p. Ok (PValue p))"

section \<open>Searching is searching the preorder list\<close>

fun preorder :: "Node \<Rightarrow> Node list" where
  "preorder (Node nm ps cs) = Node nm ps cs # concat (map preorder cs)"

fun walk_list :: "(Node \<Rightarrow> 's \<Rightarrow> ('e, 's) res) \<Rightarrow> Node list \<Rightarrow> 's \<Rightarrow> ('e, 's) res" where
  "walk_list f [] s = Ok s"
| "walk_list f (n # ns) s = rbind (f n s) (\<lambda>s'. walk_list f ns s')"

lemma rbind_assoc: "rbind (rbind r f) g = rbind r (\<lambda>x. rbind (f x) g)"
  by (cases r) auto

lemma rbind_Ok_right [simp]: "rbind r Ok = r"
  by (cases r) auto

lemma walk_list_append: "walk_list f (xs @ ys) s = rbind (walk_list f xs s) (walk_list f ys)"
  by (induction xs arbitrary: s) (auto simp: rbind_assoc intro!: arg_cong2 [where f = rbind])

lemma Walk_eq:
  "Walk f n s = walk_list f (preorder n) s"
  "Walk_children f cs s = walk_list f (concat (map preorder cs)) s"
  by (induction f n s and f cs s rule: Walk_Walk_children.induct)
    (auto simp: walk_list_append intro!: rbind_cong)

lemma find_append: "find f (xs @ ys) = (case find f xs of Some x \<Rightarrow> Some x | None \<Rightarrow> find f ys)"
  by (induction xs) auto

lemma Find_eq:
  "Find f n = find f (preorder n)"
  "Find_children f cs = find f (concat (map preorder cs))"
  by (induction f n and f cs rule: Find_Find_children.induct) (auto simp: find_append split: option.splits)

definition non_empty :: "'a list \<Rightarrow> 'a list option" where
  "non_empty xs = (if xs = [] then None else Some xs)"

lemma FindAll_eq:
  "FindAll f n = non_empty (filter f (preorder n))"
  "FindAll_children f cs nodes = nodes @ filter f (concat (map preorder cs))"
  by (induction f n and f cs nodes rule: FindAll_FindAll_children.induct)
    (auto simp: non_empty_def Let_def split: option.splits)

lemma look_property_Some:
  "look_property name ps = Some i \<Longrightarrow>
     i < length ps \<and> PName (ps ! i) = name \<and> (\<forall>j < i. PName (ps ! j) \<noteq> name)"
proof (induction ps arbitrary: i)
  case (Cons p ps)
  then show ?case by (cases i) (auto split: if_splits simp: less_Suc_eq_0_disj)
qed simp

lemma look_property_None: "look_property name ps = None \<longleftrightarrow> name \<notin> PName ` set ps"
  by (induction ps) auto

lemma look_property_append:
  "look_property name (ps @ [p]) =
     (case look_property name ps of Some i \<Rightarrow> Some i
      | None \<Rightarrow> if PName p = name then Some (length ps) else None)"
  by (induction ps) (auto split: option.splits)

lemma look_property_names: "map PName ps = map PName qs \<Longrightarrow> look_property name ps = look_property name qs"
proof (induction ps arbitrary: qs)
  case (Cons p ps)
  then show ?case by (cases qs) auto
qed simp

lemma mset_remove_nth:
  assumes "i < length xs" "xs \<noteq> []"
  shows "mset (take (length xs - 1) (if i \<noteq> length xs - 1 then xs[i := xs ! (length xs - 1)] else xs)) =
    mset xs - {# xs ! i #}"
proof -
  obtain ys z where xs: "xs = ys @ [z]" using assms(2) by (metis rev_exhaust)
  show ?thesis
  proof (cases "i = length ys")
    case False
    then have i: "i < length ys" using assms(1) xs by simp
    then have "mset (ys[i := z]) = add_mset z (mset ys - {# ys ! i #})" by (simp add: mset_update)
    with i show ?thesis
      by (simp add: xs nth_append list_update_append insert_DiffM2)
  qed (simp add: xs)
qed

section \<open>Properties\<close>

text \<open>\<open>Walk\<close> visits every node exactly once, in preorder, and stops at the first error;
  \<open>Find\<close> returns the first match of that order and \<open>FindAll\<close> all of them.\<close>

theorem tree_search:
  "Walk f n s = walk_list f (preorder n) s \<and> Find g n = find g (preorder n) \<and>
   FindAll g n = non_empty (filter g (preorder n))"
  by (simp add: Walk_eq Find_eq FindAll_eq)

lemma UpdateProperty_view:
  assumes "UpdateProperty name v n = (n', found)"
  shows "map_option PValue (LookProperty other n') =
      (if other = name then Some v else map_option PValue (LookProperty other n)) \<and>
    (found \<longleftrightarrow> LookProperty name n \<noteq> None) \<and> Name n' = Name n \<and> Children n' = Children n"
proof (cases "look_property name (Properties n)")
  case None
  with assms show ?thesis
    using look_property_Some [of other "Properties n"]
    by (auto simp: UpdateProperty_def LookProperty_def look_property_append nth_append split: option.splits if_splits)
next
  case (Some i)
  note i = look_property_Some [OF Some]
  have n': "n' = Node (Name n) ((Properties n)[i := (Properties n ! i)\<lparr>PValue := v\<rparr>]) (Children n)" and f: "found"
    using assms Some by (auto simp: UpdateProperty_def)
  have "map PName ((Properties n)[i := (Properties n ! i)\<lparr>PValue := v\<rparr>]) = map PName (Properties n)"
    using i by (simp add: map_update list_update_same_conv)
  then have l: "look_property other (Properties n') = look_property other (Properties n)"
    unfolding n' by (intro look_property_names) simp
  show ?thesis
  proof (cases "other = name")
    case True
    with l Some i n' f show ?thesis by (simp add: LookProperty_def)
  next
    case False
    have "j \<noteq> i" if "look_property other (Properties n) = Some j" for j
      using look_property_Some [OF that] i False by auto
    with l Some i n' f False show ?thesis
      by (auto simp: LookProperty_def split: option.splits)
  qed
qed

text \<open>after \<open>UpdateProperty\<close> looking the name up gives the new value, other names give what
  they gave before, and the boolean tells whether the name was there.\<close>

theorem UpdateProperty_Look:
  assumes "UpdateProperty name v n = (n', found)"
  shows "map_option PValue (LookProperty other n') =
      (if other = name then Some v else map_option PValue (LookProperty other n)) \<and>
    (found \<longleftrightarrow> LookProperty name n \<noteq> None) \<and> Name n' = Name n \<and> Children n' = Children n"
  by (rule UpdateProperty_view [OF assms])

theorem UpdateProperty_Look_witness:
  "\<exists>n' found. UpdateProperty ''reg'' [1] (Node ''cpu'' [\<lparr>PName = ''reg'', PValue = [0]\<rparr>] []) = (n', found) \<and>
     map_option PValue (LookProperty ''reg'' n') = Some [1]"
proof -
  obtain n' found where u: "UpdateProperty ''reg'' [1] (Node ''cpu'' [\<lparr>PName = ''reg'', PValue = [0]\<rparr>] []) = (n', found)"
    by (metis prod.exhaust)
  from UpdateProperty_Look [OF u, of "''reg''"] u show ?thesis by simp
qed

text \<open>\<open>RemoveProperty\<close> takes out exactly the first property of that name and keeps all others.\<close>

theorem RemoveProperty_one:
  assumes "RemoveProperty name n = (n', found)"
  shows "(found \<and> (\<exists>p. LookProperty name n = Some p \<and> PName p = name \<and>
        mset (Properties n') = mset (Properties n) - {# p #})) \<or>
    (\<not> found \<and> n' = n \<and> name \<notin> PName ` set (Properties n))"
proof (cases "look_property name (Properties n)")
  case None
  with assms show ?thesis by (auto simp: RemoveProperty_def look_property_None [symmetric])
next
  case (Some i)
  note i = look_property_Some [OF Some]
  then have ne: "Properties n \<noteq> []" by auto
  from assms Some have "found" and n': "Properties n' = take (length (Properties n) - 1)
      (if i \<noteq> length (Properties n) - 1 then (Properties n)[i := Properties n ! (length (Properties n) - 1)] else Properties n)"
    by (auto simp: RemoveProperty_def Let_def)
  with mset_remove_nth [of i "Properties n"] i ne Some show ?thesis by (simp add: LookProperty_def)
qed

theorem RemoveProperty_one_witness:
  "\<exists>n' found. RemoveProperty ''a'' (Node ''x'' [\<lparr>PName = ''a'', PValue = [0]\<rparr>, \<lparr>PName = ''b'', PValue = []\<rparr>] []) =
     (n', found) \<and> Properties n' = [\<lparr>PName = ''b'', PValue = []\<rparr>] \<and> found"
proof -
  have r: "RemoveProperty ''a'' (Node ''x'' [\<lparr>PName = ''a'', PValue = [0]\<rparr>, \<lparr>PName = ''b'', PValue = []\<rparr>] []) =
     (Node ''x'' [\<lparr>PName = ''b'', PValue = []\<rparr>] [], True)"
    by (simp add: RemoveProperty_def)
  from RemoveProperty_one [OF r] r show ?thesis by auto
qed

section \<open>\<open>AsStringList\<close> never succeeds\<close>

lemma as_strings_not_Ok:
  "PValue p \<noteq> [] \<Longrightarrow> as_strings p v strs \<noteq> Ok l"
proof (induction p v strs rule: as_strings.induct)
  case (1 p v strs)
  then show ?case by (subst as_strings.simps) (auto split: option.splits)
qed

lemma AsStringList_not_Ok: "AsStringList p \<noteq> Ok l"
  using as_strings_not_Ok by (auto simp: AsStringList_def)

lemma as_strings_printable:
  "PValue p \<noteq> [] \<Longrightarrow> (\<And>s. s \<in> set ss \<Longrightarrow> 0 \<notin> set s \<and> isPrintableASCII s) \<Longrightarrow>
   as_strings p (concat (map (\<lambda>s. s @ [0]) ss)) strs = Panic"
proof (induction ss arbitrary: strs)
  case Nil
  then show ?case by (simp add: as_strings.simps)
next
  case (Cons s ss)
  then have "0 \<notin> set s" "isPrintableASCII s" by auto
  with Cons show ?case
    by (subst as_strings.simps) (simp add: IndexByte_append)
qed

text \<open>\<open>AsStringList\<close> fails on every property: it panics on each well-formed string list, and
  never returns one.\<close>

theorem AsStringList_broken:
  assumes "ss \<noteq> []" "\<And>s. s \<in> set ss \<Longrightarrow> 0 \<notin> set s \<and> isPrintableASCII s"
  shows "AsStringList \<lparr>PName = nm, PValue = concat (map (\<lambda>s. s @ [0]) ss)\<rparr> = Panic \<and>
    AsStringList p \<noteq> Ok l"
proof
  let ?v = "concat (map (\<lambda>s. s @ [0]) ss)"
  obtain ss' s where ss: "ss = ss' @ [s]" using assms(1) by (metis rev_exhaust)
  then have "?v \<noteq> []" "?v ! (length ?v - 1) = 0" by (simp_all add: nth_append)
  with as_strings_printable [of "\<lparr>PName = nm, PValue = ?v\<rparr>" ss "[]"] assms(2)
  show "AsStringList \<lparr>PName = nm, PValue = ?v\<rparr> = Panic" by (simp add: AsStringList_def)
  show "AsStringList p \<noteq> Ok l" by (rule AsStringList_not_Ok)
qed

theorem AsStringList_broken_witness:
  "AsStringList \<lparr>PName = ''compatible'', PValue = [97, 0, 98, 0]\<rparr> = Panic"
proof -
  have "0 \<notin> set s \<and> isPrintableASCII s" if "s \<in> set [[97], [98]]" for s :: "byte list"
    using that by (auto simp: isPrintableASCII_def)
  from AsStringList_broken [OF _ this, of "[[97], [98]]"] show ?thesis by simp
qed

end
