(* ===== verification/Fdt.thy ===== *)
theory Fdt imports DtNode Uio Align begin

text \<open>
  \<open>pkg/dt/fdt_linux.go\<close>: reading and writing flattened device trees. A file is the list of its
  bytes. The tree that \<open>readStructBlock\<close> builds through pointers is a tree with a depth: the
  node at position \<open>k\<close> of the pointer stack is the last child of the node below it, so that
  changing it is changing the node at depth \<open>k\<close> along the last children.
\<close>

section \<open>Layout\<close>

definition Magic :: u32 where "Magic = 0xd00dfeed"

definition MaxTotalSize :: u32 where "MaxTotalSize = 1024 * 1024 * 1024"

definition tokenBeginNode :: u32 where "tokenBeginNode = 1"
definition tokenEndNode :: u32 where "tokenEndNode = 2"
definition tokenProp :: u32 where "tokenProp = 3"
definition tokenNop :: u32 where "tokenNop = 4"
definition tokenEnd :: u32 where "tokenEnd = 9"

record Header =
  HMagic :: u32
  TotalSize :: u32
  OffDtStruct :: u32
  OffDtStrings :: u32
  OffMemRsvmap :: u32
  Version :: u32
  LastCompVersion :: u32
  BootCpuidPhys :: u32
  SizeDtStrings :: u32
  SizeDtStruct :: u32

record ReserveEntry =
  Address :: u64
  RESize :: u64

record FDT =
  FHeader :: Header
  ReserveEntries :: "ReserveEntry list"
  RootNode :: "Node option"

text \<open>\<open>unsafe.Sizeof\<close> of the two structures.\<close>

definition header_size :: nat where "header_size = 40"
definition entry_size :: nat where "entry_size = 16"

definition encode_header :: "Header \<Rightarrow> byte list" where
  "encode_header h = be32 (HMagic h) @ be32 (TotalSize h) @ be32 (OffDtStruct h) @ be32 (OffDtStrings h) @
     be32 (OffMemRsvmap h) @ be32 (Version h) @ be32 (LastCompVersion h) @ be32 (BootCpuidPhys h) @
     be32 (SizeDtStrings h) @ be32 (SizeDtStruct h)"

definition decode_header :: "byte list \<Rightarrow> Header" where
  "decode_header bs = \<lparr>HMagic = word_at bs 0, TotalSize = word_at bs 1, OffDtStruct = word_at bs 2,
     OffDtStrings = word_at bs 3, OffMemRsvmap = word_at bs 4, Version = word_at bs 5,
     LastCompVersion = word_at bs 6, BootCpuidPhys = word_at bs 7, SizeDtStrings = word_at bs 8,
     SizeDtStruct = word_at bs 9\<rparr>"

definition encode_entry :: "ReserveEntry \<Rightarrow> byte list" where
  "encode_entry e = be64 (Address e) @ be64 (RESize e)"

definition decode_entry :: "byte list \<Rightarrow> ReserveEntry" where
  "decode_entry bs = \<lparr>Address = un_be64 (take 8 bs), RESize = un_be64 (drop 8 bs)\<rparr>"

section \<open>Reading\<close>

fun lift_io :: "(io_error, 'a) res \<Rightarrow> (dt_error, 'a) res" where
  "lift_io (Ok x) = Ok x"
| "lift_io (Err e) = Err (ErrIO e)"
| "lift_io Panic = Panic"

lemma lift_io_Ok [simp]: "lift_io r = Ok x \<longleftrightarrow> r = Ok x"
  by (cases r) auto

definition readHeader :: "byte list \<Rightarrow> (dt_error, Header) res" where
  "readHeader f =
     rbind (lift_io (ReadFull f header_size)) (\<lambda>(bs, rest).
     let h = decode_header bs in
     if HMagic h \<noteq> Magic then Err (ErrMagic (HMagic h))
     else if \<not> (Version h = 16 \<or> Version h = 17 \<or> (LastCompVersion h \<le> 17 \<and> Version h > 17))
     then Err (ErrVersion (Version h) (LastCompVersion h))
     else if TotalSize h > MaxTotalSize then Err (ErrTooLarge (TotalSize h))
     else Ok h)"

lemma ReadFull_length: "ReadFull rest n = Ok (bs, rest') \<Longrightarrow> rest = bs @ rest' \<and> length bs = n"
  by (auto simp: ReadFull_def split: if_splits)

function read_entries :: "byte list \<Rightarrow> ReserveEntry list \<Rightarrow> (dt_error, ReserveEntry list) res" where
  "read_entries f entries =
     rbind (lift_io (ReadFull f entry_size)) (\<lambda>(bs, rest).
       let entry = decode_entry bs in
       if Address entry = 0 \<and> RESize entry = 0 then Ok entries
       else read_entries rest (entries @ [entry]))"
  by pat_completeness auto
termination
  by (relation "measure (\<lambda>(f, entries). length f)") (auto dest!: ReadFull_length simp: entry_size_def)

declare read_entries.simps [simp del]

definition readMemoryReservationBlock :: "Header \<Rightarrow> byte list \<Rightarrow> (dt_error, ReserveEntry list) res" where
  "readMemoryReservationBlock h f =
     (if OffMemRsvmap h < word_of_nat header_size then Err (ErrReserveOverlapsHeader (OffMemRsvmap h))
      else if OffMemRsvmap h mod 8 \<noteq> 0 then Err (ErrReserveUnaligned (OffMemRsvmap h))
      else read_entries (drop (unat (OffMemRsvmap h)) f) [])"

definition checkLayout :: "Header \<Rightarrow> ReserveEntry list \<Rightarrow> (dt_error, unit) res" where
  "checkLayout h entries =
     (let memRscEnd = OffMemRsvmap h + word_of_nat (length entries + 1) * word_of_nat entry_size in
      if OffDtStruct h < memRscEnd then Err (ErrStructOverlapsReserve (OffDtStruct h) memRscEnd)
      else Ok ())"

text \<open>One \<open>Read\<close> of the file, whose count is ignored: what it does not fill stays zero.\<close>

definition readStringsBlock :: "Header \<Rightarrow> byte list \<Rightarrow> (dt_error, byte list) res" where
  "readStringsBlock h f =
     (let n = unat (SizeDtStrings h) in
      case stream_Read (drop (unat (OffDtStrings h)) f) n of
        (bs, Some e, rest) \<Rightarrow> Err (ErrIO e)
      | (bs, None, rest) \<Rightarrow> Ok (bs @ replicate (n - length bs) 0))"

text \<open>Changing the node at a depth.\<close>

fun at_depth :: "nat \<Rightarrow> (Node \<Rightarrow> Node) \<Rightarrow> Node \<Rightarrow> Node" where
  "at_depth 0 f n = f n"
| "at_depth (Suc d) f (Node nm ps cs) =
     Node nm ps (if cs = [] then [] else butlast cs @ [at_depth d f (last cs)])"

fun add_child :: "Node \<Rightarrow> Node \<Rightarrow> Node" where
  "add_child c (Node nm ps cs) = Node nm ps (cs @ [c])"

fun add_prop :: "Property \<Rightarrow> Node \<Rightarrow> Node" where
  "add_prop p (Node nm ps cs) = Node nm (ps @ [p]) cs"

record StructState =
  sr_r :: AlignReader
  sr_root :: "Node option"
  sr_depth :: nat

definition ar_full :: "AlignReader \<Rightarrow> nat \<Rightarrow> (dt_error, byte list \<times> AlignReader) res" where
  "ar_full r n = (case ar_ReadFull r n of (bs, None, r') \<Rightarrow> Ok (bs, r') | (bs, Some e, r') \<Rightarrow> Err (ErrIO e))"

lemma ReadByte_shrinks: "ReadByte r = Ok (b, r') \<Longrightarrow> length (AR r') < length (AR r)"
  by (auto simp: ReadByte_def ar_ReadFull_def Let_def split: if_splits)

function read_name :: "AlignReader \<Rightarrow> string \<Rightarrow> (dt_error, string \<times> AlignReader) res" where
  "read_name r nm =
     rbind (lift_io (ReadByte r)) (\<lambda>(b, r').
       if b = 0 then Ok (nm, r') else read_name r' (nm @ string_of_byte b))"
  by pat_completeness auto
termination
  by (relation "measure (\<lambda>(r, nm). length (AR r))") (auto dest: ReadByte_shrinks)

declare read_name.simps [simp del]

text \<open>The body of the loop of \<open>readStructBlock\<close> for the tokens other than \<open>tokenEnd\<close>.\<close>

definition begin_node :: "StructState \<Rightarrow> (dt_error, StructState) res" where
  "begin_node st =
     rbind (case sr_depth st of
              0 \<Rightarrow> if sr_root st \<noteq> None then Err ErrMultipleRoots else Ok ()
            | Suc d \<Rightarrow> Ok ()) (\<lambda>_.
     rbind (read_name (sr_r st) []) (\<lambda>(nm, r).
       let child = Node nm [] [] in
       Ok \<lparr>sr_r = r,
           sr_root = (case sr_depth st of
                        0 \<Rightarrow> Some child
                      | Suc d \<Rightarrow> map_option (at_depth d (add_child child)) (sr_root st)),
           sr_depth = sr_depth st + 1\<rparr>))"

definition end_node :: "StructState \<Rightarrow> (dt_error, StructState) res" where
  "end_node st = (if sr_depth st = 0 then Err ErrUnbalanced else Ok (st\<lparr>sr_depth := sr_depth st - 1\<rparr>))"

definition prop_token :: "byte list \<Rightarrow> StructState \<Rightarrow> (dt_error, StructState) res" where
  "prop_token strs st =
     rbind (ar_full (sr_r st) 8) (\<lambda>(bs, r).
     let len = un_be32 (take 4 bs); nameoff = un_be32 (drop 4 bs) in
     if nameoff \<ge> word_of_nat (length strs) then Err (ErrNameOffset nameoff (length strs))
     else case IndexByte (drop (unat nameoff) strs) 0 of
       None \<Rightarrow> Err (ErrNameNoNull nameoff)
     | Some null \<Rightarrow>
         let name = bytes_str (take null (drop (unat nameoff) strs)) in
         rbind (ar_full r (unat len)) (\<lambda>(val, r').
           case sr_depth st of
             0 \<Rightarrow> Err (ErrPropOutside name)
           | Suc d \<Rightarrow> Ok (st\<lparr>sr_r := r',
               sr_root := map_option (at_depth d (add_prop \<lparr>PName = name, PValue = val\<rparr>)) (sr_root st)\<rparr>)))"

definition struct_token :: "byte list \<Rightarrow> u32 \<Rightarrow> StructState \<Rightarrow> (dt_error, StructState) res" where
  "struct_token strs t st =
     (if t = tokenBeginNode then begin_node st
      else if t = tokenEndNode then end_node st
      else if t = tokenProp then prop_token strs st
      else if t = tokenNop then Ok st
      else Err (ErrToken t))"

text \<open>One iteration of the loop; \<open>True\<close> when \<open>tokenEnd\<close> ended it.\<close>

definition struct_step :: "Header \<Rightarrow> byte list \<Rightarrow> StructState \<Rightarrow> (dt_error, StructState \<times> bool) res" where
  "struct_step h strs st =
     rbind (ar_full (sr_r st) 4) (\<lambda>(bs, r).
     let t = un_be32 bs; st' = st\<lparr>sr_r := r\<rparr> in
     if t = tokenEnd then
       (if word_of_nat (AN r) < SizeDtStruct h then Err (ErrExtraData (word_of_nat (AN r)) (SizeDtStruct h))
        else if sr_root st = None then Err ErrNoRoot
        else Ok (st', True))
     else
       rbind (struct_token strs t st') (\<lambda>st''.
       rbind (lift_io (ar_Align (sr_r st'') 4)) (\<lambda>(pad, r'). Ok (st''\<lparr>sr_r := r'\<rparr>, False))))"

lemma ar_full_Ok:
  "ar_full r n = Ok (bs, r') \<Longrightarrow> AR r = bs @ AR r' \<and> length bs = n \<and> AN r' = AN r + n"
  by (auto simp: ar_full_def ar_ReadFull_def Let_def split: if_splits)

lemma read_name_shrinks: "read_name r nm = Ok (nm', r') \<Longrightarrow> length (AR r') \<le> length (AR r)"
proof (induction r nm rule: read_name.induct)
  case (1 r nm)
  from 1(2) obtain b r1 where b: "ReadByte r = Ok (b, r1)"
    and c: "(if b = 0 then Ok (nm, r1) else read_name r1 (nm @ string_of_byte b)) = Ok (nm', r')"
    by (subst (asm) read_name.simps) auto
  from ReadByte_shrinks [OF b] 1(1) b c show ?case by (fastforce split: if_splits)
qed

lemma length_drop_le: "length (drop n xs) \<le> length xs"
  by simp

lemma prop_token_shrinks:
  assumes "prop_token strs st = Ok st'"
  shows "length (AR (sr_r st')) \<le> length (AR (sr_r st))"
proof (cases "sr_depth st")
  case 0
  with assms show ?thesis by (auto simp: prop_token_def Let_def split: if_splits option.splits)
next
  case (Suc d)
  with assms show ?thesis
    by (auto simp: prop_token_def Let_def split: if_splits option.splits dest!: ar_full_Ok)
qed

lemma struct_token_shrinks:
  "struct_token strs t st = Ok st' \<Longrightarrow> length (AR (sr_r st')) \<le> length (AR (sr_r st))"
  by (auto simp: struct_token_def begin_node_def end_node_def Let_def
      split: if_splits option.splits nat.splits dest!: prop_token_shrinks read_name_shrinks)

lemma ar_Align_shrinks: "ar_Align r n = Ok (pad, r') \<Longrightarrow> length (AR r') \<le> length (AR r)"
  by (auto simp: ar_Align_def ar_ReadFull_def Let_def simp del: length_drop split: if_splits intro: length_drop_le)

lemma struct_step_shrinks:
  "struct_step h strs st = Ok (st', False) \<Longrightarrow> length (AR (sr_r st')) < length (AR (sr_r st))"
  by (fastforce simp: struct_step_def Let_def split: if_splits
      dest!: ar_full_Ok struct_token_shrinks ar_Align_shrinks)

function struct_loop :: "Header \<Rightarrow> byte list \<Rightarrow> StructState \<Rightarrow> (dt_error, Node option) res" where
  "struct_loop h strs st =
     rbind (struct_step h strs st) (\<lambda>(st', fin).
       if fin then Ok (sr_root st') else struct_loop h strs st')"
  by pat_completeness auto
termination
  by (relation "measure (\<lambda>(h, strs, st). length (AR (sr_r st)))") (auto dest: struct_step_shrinks)

declare struct_loop.simps [simp del]

definition readStructBlock :: "Header \<Rightarrow> byte list \<Rightarrow> byte list \<Rightarrow> (dt_error, Node option) res" where
  "readStructBlock h f strs =
     (if OffDtStruct h mod 4 \<noteq> 0 then Err (ErrStructUnaligned (OffDtStruct h))
      else struct_loop h strs
        \<lparr>sr_r = \<lparr>AR = take (unat (SizeDtStruct h)) (drop (unat (OffDtStruct h)) f), AN = 0\<rparr>,
         sr_root = None, sr_depth = 0\<rparr>)"

definition ReadFDT :: "byte list \<Rightarrow> (dt_error, FDT) res" where
  "ReadFDT f =
     rbind (readHeader f) (\<lambda>h.
     rbind (readMemoryReservationBlock h f) (\<lambda>entries.
     rbind (checkLayout h entries) (\<lambda>_.
     rbind (readStringsBlock h f) (\<lambda>strs.
     rbind (readStructBlock h f strs) (\<lambda>root.
       Ok \<lparr>FHeader = h, ReserveEntries = entries, RootNode = root\<rparr>)))))"

text \<open>\<open>open\<close> is what \<open>os.Open\<close> gives: the contents of a file, when it can be opened.\<close>

definition LoadFDT :: "(string \<Rightarrow> byte list option) \<Rightarrow> string \<Rightarrow> (dt_error, FDT) res" where
  "LoadFDT open dtbPath =
     (let attempt = (\<lambda>path otherwise. case open path of
            None \<Rightarrow> otherwise
          | Some f \<Rightarrow> (case ReadFDT f of Ok fdt \<Rightarrow> Ok fdt | Err e \<Rightarrow> otherwise | Panic \<Rightarrow> Panic))
      in attempt dtbPath (attempt ''/sys/firmware/fdt'' (Err ErrLoadFDT)))"

section \<open>Writing\<close>

type_synonym 'w action = "'w AlignWriter \<Rightarrow> (io_error, unit) res \<times> 'w AlignWriter"

definition aseq :: "'w action \<Rightarrow> 'w action \<Rightarrow> 'w action" where
  "aseq a b w = (case a w of (Ok u, w') \<Rightarrow> b w' | (Err e, w') \<Rightarrow> (Err e, w') | (Panic, w') \<Rightarrow> (Panic, w'))"

definition put_bytes :: "'w writer \<Rightarrow> byte list \<Rightarrow> 'w action" where
  "put_bytes wr bs w = (case aw_Write wr w bs of (n, None, w') \<Rightarrow> (Ok (), w') | (n, Some e, w') \<Rightarrow> (Err e, w'))"

definition put_align :: "'w writer \<Rightarrow> nat \<Rightarrow> 'w action" where
  "put_align wr n w = aw_Align wr w n 0"

text \<open>The strings block with the offset of each property name, collected by \<open>Walk\<close>.\<close>

type_synonym strtab = "byte list \<times> (string \<rightharpoonup> u32)"

fun add_names :: "Property list \<Rightarrow> strtab \<Rightarrow> strtab" where
  "add_names [] s = s"
| "add_names (p # ps) (strs, strOff) =
     (if strOff (PName p) = None
      then add_names ps (strs @ str_bytes (PName p) @ [0], strOff(PName p \<mapsto> word_of_nat (length strs)))
      else add_names ps (strs, strOff))"

definition collect_names :: "Node \<Rightarrow> (io_error, strtab) res" where
  "collect_names root = Walk (\<lambda>n s. Ok (add_names (Properties n) s)) root ([], Map.empty)"

definition up4 :: "nat \<Rightarrow> u32" where
  "up4 n = ucast (Up (word_of_nat n) 4)"

fun props_size :: "Property list \<Rightarrow> u32 \<Rightarrow> u32" where
  "props_size [] s = s"
| "props_size (p # ps) s = props_size ps (s + (12 + up4 (length (PValue p))))"

definition struct_size :: "Node \<Rightarrow> (io_error, u32) res" where
  "struct_size root =
     Walk (\<lambda>n s. Ok (props_size (Properties n) (s + (8 + up4 (length (Name n) + 1))))) root 4"

definition layout :: "Header \<Rightarrow> nat \<Rightarrow> byte list \<Rightarrow> u32 \<Rightarrow> Header" where
  "layout h entries strs structSize =
     (let offMem = ucast (Up (word_of_nat header_size) 16) :: u32;
          offStruct = offMem + ucast (Up ((word_of_nat entries + 1) * word_of_nat entry_size) 4);
          offStrings = offStruct + structSize
      in h\<lparr>SizeDtStrings := word_of_nat (length strs), SizeDtStruct := structSize,
           OffMemRsvmap := offMem, OffDtStruct := offStruct, OffDtStrings := offStrings,
           TotalSize := offStrings + word_of_nat (length strs)\<rparr>)"

fun write_props :: "'w writer \<Rightarrow> (string \<rightharpoonup> u32) \<Rightarrow> Property list \<Rightarrow> 'w action" where
  "write_props wr strOff [] = (\<lambda>w. (Ok (), w))"
| "write_props wr strOff (p # ps) =
     aseq (put_bytes wr (be32 tokenProp @ be32 (word_of_nat (length (PValue p))) @
                         be32 (case strOff (PName p) of Some off \<Rightarrow> off | None \<Rightarrow> 0)))
    (aseq (put_bytes wr (PValue p))
    (aseq (put_align wr 4)
          (write_props wr strOff ps)))"

fun writeNode :: "'w writer \<Rightarrow> (string \<rightharpoonup> u32) \<Rightarrow> Node \<Rightarrow> 'w action"
  and write_children :: "'w writer \<Rightarrow> (string \<rightharpoonup> u32) \<Rightarrow> Node list \<Rightarrow> 'w action" where
  "writeNode wr strOff (Node nm ps cs) =
     aseq (put_bytes wr (be32 tokenBeginNode))
    (aseq (put_bytes wr (str_bytes nm @ [0]))
    (aseq (put_align wr 4)
    (aseq (write_props wr strOff ps)
    (aseq (write_children wr strOff cs)
          (put_bytes wr (be32 tokenEndNode))))))"
| "write_children wr strOff [] = (\<lambda>w. (Ok (), w))"
| "write_children wr strOff (c # cs) = aseq (writeNode wr strOff c) (write_children wr strOff cs)"

text \<open>
  The result is the error, the size \<open>w.N\<close>, the \<open>FDT\<close> with the header \<open>Write\<close> has filled in, and
  the writer. A nil root makes the first \<open>Walk\<close> panic.
\<close>

definition Write :: "'w writer \<Rightarrow> FDT \<Rightarrow> 'w \<Rightarrow> (io_error, unit) res \<times> nat \<times> FDT \<times> 'w" where
  "Write wr fdt f =
     (case RootNode fdt of
        None \<Rightarrow> (Panic, 0, fdt, f)
      | Some root \<Rightarrow>
          (case (collect_names root, struct_size root) of
             (Ok (strs, strOff), Ok structSize) \<Rightarrow>
               let h = layout (FHeader fdt) (length (ReserveEntries fdt)) strs structSize;
                   body =
                     aseq (put_bytes wr (encode_header h))
                    (aseq (put_align wr 16)
                    (aseq (put_bytes wr (concat (map encode_entry (ReserveEntries fdt))))
                    (aseq (put_bytes wr (encode_entry \<lparr>Address = 0, RESize = 0\<rparr>))
                    (aseq (put_align wr 4)
                    (aseq (writeNode wr strOff root)
                    (aseq (put_bytes wr (be32 tokenEnd))
                          (put_bytes wr strs)))))))
               in (case body \<lparr>WW = f, WN = 0\<rparr> of (r, w) \<Rightarrow> (r, WN w, fdt\<lparr>FHeader := h\<rparr>, WW w))
           | _ \<Rightarrow> (Panic, 0, fdt, f)))"

definition FDT_NodeByName :: "FDT \<Rightarrow> string \<Rightarrow> (dt_error, Node option) res" where
  "FDT_NodeByName fdt name =
     (case RootNode fdt of None \<Rightarrow> Panic | Some root \<Rightarrow> Ok (Find (\<lambda>n. Name n = name) root))"

definition Root :: "FDT \<Rightarrow> NodeWalk" where
  "Root fdt = (case RootNode fdt of None \<Rightarrow> Panic | Some root \<Rightarrow> Ok root)"

end
