(* ===== verification/FirmwareMap.thy ===== *)
theory FirmwareMap imports KexecMemory Fdt Filepath Strconv "HOL-Library.AList" begin

text \<open>
  \<open>pkg/boot/kexec/memory_linux.go\<close>, where a memory map comes from: the files below
  \<open>/sys/firmware/memmap\<close> (\<open>internalParseMemoryMap\<close>) and the device tree (\<open>ParseMemoryMapFromFDT\<close>).
\<close>

section \<open>The map in sysfs\<close>

datatype fw_error =
    FwWalk string
  | FwUnexpected string
  | FwReading string string
  | FwNumber num_error
  | FwTree dt_error

text \<open>What \<open>filepath.Walk\<close> calls the walker with, one after another.\<close>

datatype visit =
    VisitErr string
  | VisitDir string
  | VisitFile string "(string, string) res"

record memRange =
  mr_start :: u64
  mr_end :: u64
  mr_typ :: RangeType

definition zero_range :: memRange where
  "zero_range = \<lparr>mr_start = 0, mr_end = 0, mr_typ = []\<rparr>"

type_synonym ranges_map = "(string \<times> memRange) list"

definition get_range :: "ranges_map \<Rightarrow> string \<Rightarrow> memRange" where
  "get_range rs dir = (case map_of rs dir of Some r \<Rightarrow> r | None \<Rightarrow> zero_range)"

definition walker :: "ranges_map \<Rightarrow> visit \<Rightarrow> (fw_error, ranges_map) res" where
  "walker ranges v =
     (case v of
        VisitErr e \<Rightarrow> Err (FwWalk e)
      | VisitDir _ \<Rightarrow> Ok ranges
      | VisitFile name content \<Rightarrow>
          let base = Base name; dir = Dir name in
          if base \<noteq> ''start'' \<and> base \<noteq> ''end'' \<and> base \<noteq> ''type'' then Err (FwUnexpected name)
          else
            (case content of
               Err e \<Rightarrow> Err (FwReading name e)
             | Panic \<Rightarrow> Panic
             | Ok b \<Rightarrow>
                 let dat = TrimSpace b; r = get_range ranges dir in
                 if base = ''type'' then
                   Ok (AList.update dir
                     (r\<lparr>mr_typ := (case sysfsToRangeType dat of Some t \<Rightarrow> t | None \<Rightarrow> RangeReserved)\<rparr>) ranges)
                 else
                   (case ParseUint dat 0 of
                      Err e \<Rightarrow> Err (FwNumber e)
                    | Panic \<Rightarrow> Panic
                    | Ok n \<Rightarrow>
                        Ok (AList.update dir
                          (if base = ''start'' then r\<lparr>mr_start := word_of_nat n\<rparr> else r\<lparr>mr_end := word_of_nat n\<rparr>) ranges))))"

fun walk_files :: "ranges_map \<Rightarrow> visit list \<Rightarrow> (fw_error, ranges_map) res" where
  "walk_files ranges [] = Ok ranges"
| "walk_files ranges (v # vs) = rbind (walker ranges v) (\<lambda>ranges'. walk_files ranges' vs)"

definition to_typed :: "memRange \<Rightarrow> TypedRange" where
  "to_typed r = \<lparr>TRange = RangeFromInterval (mr_start r) (mr_end r + 1), TType = mr_typ r\<rparr>"

text \<open>\<open>iteration\<close> is the order in which the entries of the map are visited.\<close>

definition internalParseMemoryMap :: "(ranges_map \<Rightarrow> ranges_map) \<Rightarrow> visit list \<Rightarrow> (fw_error, MemoryMap) res" where
  "internalParseMemoryMap iteration visits =
     rbind (walk_files [] visits) (\<lambda>ranges.
       Ok (sort_slice typed_less (map (\<lambda>(_, r). to_typed r) (iteration ranges))))"

definition Memory_ParseMemoryMap ::
    "(ranges_map \<Rightarrow> ranges_map) \<Rightarrow> visit list \<Rightarrow> Memory \<Rightarrow> (fw_error, Memory) res" where
  "Memory_ParseMemoryMap iteration visits m =
     rbind (internalParseMemoryMap iteration visits) (\<lambda>p. Ok (m\<lparr>MPhys := p\<rparr>))"

section \<open>The map in a device tree\<close>

definition reg_range :: "Property \<Rightarrow> (dt_error, Range) res" where
  "reg_range p = rbind (AsRegion p) (\<lambda>r. Ok \<lparr>Start = RStart r, Size = RSize r\<rparr>)"

definition addMemory :: "Node \<Rightarrow> MemoryMap \<Rightarrow> (dt_error, MemoryMap) res" where
  "addMemory n phys =
     (case LookProperty ''device_type'' n of
        None \<Rightarrow> Ok phys
      | Some p \<Rightarrow>
          (case AsString p of
             Ok t \<Rightarrow>
               if t \<noteq> ''memory'' then Ok phys
               else
                 (case LookProperty ''reg'' n of
                    None \<Rightarrow> Ok phys
                  | Some q \<Rightarrow> rbind (reg_range q) (\<lambda>r. Ok (phys @ [\<lparr>TRange = r, TType = RangeRAM\<rparr>])))
           | _ \<Rightarrow> Ok phys))"

definition reserveMemory :: "Node \<Rightarrow> MemoryMap \<Rightarrow> (dt_error, MemoryMap) res" where
  "reserveMemory n phys =
     (case LookProperty ''reg'' n of
        None \<Rightarrow> Ok phys
      | Some p \<Rightarrow> rbind (reg_range p) (\<lambda>r. Ok (MemoryMap_Insert phys \<lparr>TRange = r, TType = RangeReserved\<rparr>)))"

definition ParseMemoryMapFromFDT :: "FDT \<Rightarrow> Memory \<Rightarrow> (dt_error, Memory) res" where
  "ParseMemoryMapFromFDT fdt m =
     (case RootNode fdt of
        None \<Rightarrow> Panic
      | Some root \<Rightarrow>
          rbind (Walk addMemory root []) (\<lambda>phys.
          rbind (case NodeByName ''reserved-memory'' root of
                   Some resv \<Rightarrow> Walk reserveMemory resv phys | None \<Rightarrow> Ok phys) (\<lambda>phys'.
            Ok (m\<lparr>MPhys := foldl (\<lambda>ph e. MemoryMap_Insert ph \<lparr>TRange = \<lparr>Start = Address e, Size = RESize e\<rparr>,
                  TType = RangeReserved\<rparr>) phys' (ReserveEntries fdt)\<rparr>))))"


section \<open>What the device tree says about an address\<close>

definition is_memory :: "Node \<Rightarrow> bool" where
  "is_memory n \<longleftrightarrow> (case LookProperty ''device_type'' n of None \<Rightarrow> False | Some p \<Rightarrow> AsString p = Ok ''memory'')"

definition node_reg :: "Node \<Rightarrow> Range option" where
  "node_reg n = (case LookProperty ''reg'' n of None \<Rightarrow> None
     | Some p \<Rightarrow> (case reg_range p of Ok r \<Rightarrow> Some r | _ \<Rightarrow> None))"

definition memory_regs :: "Node \<Rightarrow> Ranges" where
  "memory_regs root = List.map_filter (\<lambda>n. if is_memory n then node_reg n else None) (preorder root)"

definition reserved_regs :: "FDT \<Rightarrow> Node \<Rightarrow> Ranges" where
  "reserved_regs fdt root =
     (case NodeByName ''reserved-memory'' root of None \<Rightarrow> [] | Some n \<Rightarrow> List.map_filter node_reg (preorder n)) @
     map (\<lambda>e. \<lparr>Start = Address e, Size = RESize e\<rparr>) (ReserveEntries fdt)"

definition typed :: "RangeType \<Rightarrow> Ranges \<Rightarrow> MemoryMap" where
  "typed t rs = map (\<lambda>r. \<lparr>TRange = r, TType = t\<rparr>) rs"

lemma typed_simps [simp]:
  "typed t [] = []" "typed t (r # rs) = \<lparr>TRange = r, TType = t\<rparr> # typed t rs" "typed t (rs @ rs') = typed t rs @ typed t rs'"
  "phys_ranges (typed t rs) = rs"
  by (simp_all add: typed_def phys_ranges_def comp_def)

lemma type_at_typed: "type_at (typed t rs) p = (if p \<in> Pts rs then Some t else None)"
  by (simp add: typed_def type_at_const)

lemma addMemory_Ok:
  assumes "addMemory n phys = Ok phys'"
  shows "phys' = phys @ typed RangeRAM (case (if is_memory n then node_reg n else None) of None \<Rightarrow> [] | Some r \<Rightarrow> [r])"
  using assms by (auto simp: addMemory_def is_memory_def node_reg_def split: option.splits res.splits if_splits)

lemma walk_addMemory:
  "walk_list addMemory ns phys = Ok phys' \<Longrightarrow>
     phys' = phys @ typed RangeRAM (List.map_filter (\<lambda>n. if is_memory n then node_reg n else None) ns)"
proof (induction ns arbitrary: phys)
  case (Cons n ns)
  then obtain q where q: "addMemory n phys = Ok q" "walk_list addMemory ns q = Ok phys'" by auto
  show ?case
    using Cons.IH [OF q(2)] addMemory_Ok [OF q(1)] by (auto simp: List.map_filter_simps split: option.splits)
qed (simp add: List.map_filter_simps)

text \<open>Reserving one range after the other.\<close>

definition reserve_all :: "MemoryMap \<Rightarrow> Ranges \<Rightarrow> MemoryMap" where
  "reserve_all phys rs = foldl (\<lambda>ph r. MemoryMap_Insert ph \<lparr>TRange = r, TType = RangeReserved\<rparr>) phys rs"

lemma walk_reserveMemory:
  "walk_list reserveMemory ns phys = Ok phys' \<Longrightarrow> phys' = reserve_all phys (List.map_filter node_reg ns)"
proof (induction ns arbitrary: phys)
  case (Cons n ns)
  then obtain q where q: "reserveMemory n phys = Ok q" "walk_list reserveMemory ns q = Ok phys'" by auto
  have "q = (case node_reg n of None \<Rightarrow> phys | Some r \<Rightarrow> MemoryMap_Insert phys \<lparr>TRange = r, TType = RangeReserved\<rparr>)"
    using q(1) by (auto simp: reserveMemory_def node_reg_def split: option.splits res.splits)
  with Cons.IH [OF q(2)] show ?case by (auto simp: List.map_filter_simps reserve_all_def split: option.splits)
qed (simp add: List.map_filter_simps reserve_all_def)

lemma reserve_all_types:
  "map_ok phys \<Longrightarrow> valid_ranges rs \<Longrightarrow>
     map_ok (reserve_all phys rs) \<and>
     type_at (reserve_all phys rs) p = (if p \<in> Pts rs then Some RangeReserved else type_at phys p)"
proof (induction rs arbitrary: phys)
  case (Cons r rs)
  let ?i = "MemoryMap_Insert phys \<lparr>TRange = r, TType = RangeReserved\<rparr>"
  have v: "valid_range r" "valid_ranges rs" using Cons.prems(2) by auto
  have "map_ok ?i" "type_at ?i p = (if p \<in> pts r then Some RangeReserved else type_at phys p)"
    using map_ok_Insert [of phys "\<lparr>TRange = r, TType = RangeReserved\<rparr>"]
      type_at_Insert [of phys "\<lparr>TRange = r, TType = RangeReserved\<rparr>"] Cons.prems(1) v(1) by auto
  then show ?case using Cons.IH [of ?i] v(2) by (simp add: reserve_all_def Pts_def del: mem_pts)
qed (simp add: reserve_all_def Pts_def)

lemma ParseMemoryMapFromFDT_Ok:
  assumes "ParseMemoryMapFromFDT fdt m = Ok m'" "RootNode fdt = Some root"
  shows "MPhys m' = reserve_all (typed RangeRAM (memory_regs root)) (reserved_regs fdt root)" "MSegments m' = MSegments m"
proof -
  from assms obtain phys phys' where s: "Walk addMemory root [] = Ok phys"
      "(case NodeByName ''reserved-memory'' root of Some resv \<Rightarrow> Walk reserveMemory resv phys | None \<Rightarrow> Ok phys) = Ok phys'"
      "m' = m\<lparr>MPhys := foldl (\<lambda>ph e. MemoryMap_Insert ph \<lparr>TRange = \<lparr>Start = Address e, Size = RESize e\<rparr>,
         TType = RangeReserved\<rparr>) phys' (ReserveEntries fdt)\<rparr>"
    by (auto simp: ParseMemoryMapFromFDT_def)
  have "phys = typed RangeRAM (memory_regs root)"
    using walk_addMemory [of "preorder root" "[]"] s(1) by (simp add: Walk_eq(1) memory_regs_def)
  moreover have "phys' = reserve_all phys (case NodeByName ''reserved-memory'' root of None \<Rightarrow> [] | Some n \<Rightarrow> List.map_filter node_reg (preorder n))"
    using s(2) walk_reserveMemory by (auto simp: Walk_eq(1) reserve_all_def split: option.splits)
  ultimately show "MPhys m' = reserve_all (typed RangeRAM (memory_regs root)) (reserved_regs fdt root)" "MSegments m' = MSegments m"
    using s(3) by (auto simp: reserved_regs_def reserve_all_def foldl_map)
qed

text \<open>C12: the memory map read from a device tree says Reserved where a reservation of the tree or of its
  header reaches, System RAM elsewhere in the memory nodes, and nothing elsewhere.\<close>

theorem ParseMemoryMapFromFDT_types:
  assumes "ParseMemoryMapFromFDT fdt m = Ok m'" "RootNode fdt = Some root"
    and "valid_ranges (memory_regs root)" "disjoint_ranges (memory_regs root)" "valid_ranges (reserved_regs fdt root)"
  shows "map_ok (MPhys m') \<and> type_at (MPhys m') p =
    (if p \<in> Pts (reserved_regs fdt root) then Some RangeReserved
     else if p \<in> Pts (memory_regs root) then Some RangeRAM else None)"
proof -
  have "map_ok (typed RangeRAM (memory_regs root))" using assms(3,4) by (simp add: map_ok_def)
  from reserve_all_types [OF this assms(5)] show ?thesis
    by (simp add: ParseMemoryMapFromFDT_Ok [OF assms(1,2)] type_at_typed)
qed


lemma AsString_str:
  assumes "isPrintableASCII (str_bytes s)"
  shows "AsString \<lparr>PName = nm, PValue = str_bytes s @ [0]\<rparr> = Ok s"
  using assms by (simp add: AsString_def Let_def nth_append)

lemma memory_type: "AsString \<lparr>PName = nm, PValue = str_bytes ''memory'' @ [0]\<rparr> = Ok ''memory''"
  by (rule AsString_str) (simp add: isPrintableASCII_def byte_of_def)

definition fw_dt :: Node where
  "fw_dt = Node [] []
     [Node ''memory'' [\<lparr>PName = ''device_type'', PValue = str_bytes ''memory'' @ [0]\<rparr>,
        \<lparr>PName = ''reg'', PValue = be64 0x1000 @ be64 0x9000\<rparr>] [],
      Node ''reserved-memory'' [] [Node ''fb'' [\<lparr>PName = ''reg'', PValue = be64 0x2000 @ be64 0x1000\<rparr>] []]]"

definition fw_fdt :: FDT where
  "fw_fdt = \<lparr>FHeader = \<lparr>HMagic = Magic, TotalSize = 0, OffDtStruct = 0, OffDtStrings = 0, OffMemRsvmap = 0, Version = 17,
     LastCompVersion = 16, BootCpuidPhys = 0, SizeDtStrings = 0, SizeDtStruct = 0\<rparr>, ReserveEntries = [\<lparr>Address = 0x8000, RESize = 0x100\<rparr>], RootNode = Some fw_dt\<rparr>"

lemma fw_fdt_root: "RootNode fw_fdt = Some fw_dt"
  by (simp add: fw_fdt_def)

lemma fw_dt_regs:
  "memory_regs fw_dt = [\<lparr>Start = 0x1000, Size = 0x9000\<rparr>]"
  "reserved_regs fw_fdt fw_dt = [\<lparr>Start = 0x2000, Size = 0x1000\<rparr>, \<lparr>Start = 0x8000, Size = 0x100\<rparr>]"
  by (simp_all add: memory_regs_def reserved_regs_def fw_dt_def fw_fdt_def is_memory_def node_reg_def reg_range_def
      LookProperty_def memory_type AsRegion_def NodeByName_def Find_eq List.map_filter_simps del: str_bytes_Cons)

theorem ParseMemoryMapFromFDT_types_witness:
  "\<exists>m'. ParseMemoryMapFromFDT fw_fdt \<lparr>MPhys = [], MSegments = []\<rparr> = Ok m' \<and>
     type_at (MPhys m') 0x2800 = Some RangeReserved \<and> type_at (MPhys m') 0x1800 = Some RangeRAM \<and>
     type_at (MPhys m') 0xa000 = None"
proof -
  obtain m' where m: "ParseMemoryMapFromFDT fw_fdt \<lparr>MPhys = [], MSegments = []\<rparr> = Ok m'"
    by (simp add: ParseMemoryMapFromFDT_def fw_dt_def fw_fdt_def Walk_eq NodeByName_def Find_eq addMemory_def
      reserveMemory_def reg_range_def LookProperty_def memory_type AsRegion_def del: str_bytes_Cons)
  note t = ParseMemoryMapFromFDT_types [where root = fw_dt, OF m]
  show ?thesis using m t [where p = "0x2800"] t [where p = "0x1800"] t [where p = "0xa000"]
    by (simp add: fw_dt_regs fw_fdt_root Pts_def End_def valid_range_def)
qed

section \<open>Reading back what the kernel shows in sysfs\<close>

definition hex_line :: "u64 \<Rightarrow> string" where
  "hex_line n = ''0x'' @ FormatHex (unat n)"

lemma ParseUint_hex: "ParseUint (hex_line n) 0 = Ok (unat n)"
proof -
  have "CHR ''_'' \<notin> set (FormatHex (unat n))" using FormatHex_digits by fastforce
  moreover have "length (FormatHex (unat n)) \<ge> 1" using FormatHex_ne [of "unat n"] by (cases "FormatHex (unat n)") auto
  moreover have "parse_digits True 16 0 (FormatHex (unat n)) = Ok (unat n)" by (rule parse_FormatHex) simp
  ultimately show ?thesis by (simp add: ParseUint_def hex_line_def lower_char_def)
qed

lemma TrimSpace_newline:
  assumes "ascii s" "s \<noteq> []" "\<not> IsSpace (of_char (hd s))" "\<not> IsSpace (of_char (last s))"
  shows "TrimSpace (s @ [CHR 0x0A]) = s"
proof -
  have a: "ascii (s @ [CHR 0x0A])" using assms(1) by (simp add: ascii_def)
  let ?m = "map (\<lambda>c. (of_char c :: nat, [c])) s"
  have m: "?m \<noteq> []" "hd ?m = (of_char (hd s), [hd s])" "last ?m = (of_char (last s), [last s])"
    using assms(2) by (simp_all add: hd_map last_map)
  have d: "dropWhile P l = l" if "l \<noteq> []" "\<not> P (hd l)" for P and l :: "(nat \<times> string) list"
    using that by (cases l) auto
  have "trim_runes (?m @ [(10, [CHR 0x0A])]) = ?m @ [(10, [CHR 0x0A])]"
    unfolding trim_runes_def using m assms(3) by (intro d) simp_all
  moreover have "trim_runes ((10, [CHR 0x0A]) # rev ?m) = rev ?m"
    using d [of "rev ?m" "\<lambda>(r, _). IsSpace r"] m assms(4) by (simp add: trim_runes_def IsSpace_def hd_rev)
  ultimately show ?thesis using runes_ascii [OF a] by (simp add: TrimSpace_def concat_map_singleton comp_def)
qed

lemma hex_line_trim: "TrimSpace (hex_line n @ [CHR 0x0A]) = hex_line n"
proof (rule TrimSpace_newline)
  have d: "(of_char c :: nat) < 128 \<and> \<not> IsSpace (of_char c)" if "c \<in> set (FormatHex (unat n))" for c
    using FormatHex_digits [OF that] by (auto simp: IsSpace_def)
  show "ascii (hex_line n)" using d by (auto simp: ascii_def hex_line_def)
  have "last (hex_line n) \<in> set (FormatHex (unat n))" by (simp add: hex_line_def)
  then show "\<not> IsSpace (of_char (last (hex_line n)))" using d by blast
qed (simp_all add: hex_line_def IsSpace_def)


definition entry_visits :: "string \<times> u64 \<times> u64 \<times> string \<Rightarrow> visit list" where
  "entry_visits en =
     (case en of (d, s, e, t) \<Rightarrow>
        [VisitDir d, VisitFile (d @ ''/end'') (Ok (hex_line e @ [CHR 0x0A])),
         VisitFile (d @ ''/start'') (Ok (hex_line s @ [CHR 0x0A])), VisitFile (d @ ''/type'') (Ok (t @ [CHR 0x0A]))])"

definition entry_range :: "string \<times> u64 \<times> u64 \<times> string \<Rightarrow> memRange" where
  "entry_range en =
     (case en of (d, s, e, t) \<Rightarrow>
        \<lparr>mr_start = s, mr_end = e, mr_typ = (case sysfsToRangeType t of Some k \<Rightarrow> k | None \<Rightarrow> RangeReserved)\<rparr>)"

definition entry_ok :: "string \<times> u64 \<times> u64 \<times> string \<Rightarrow> bool" where
  "entry_ok en = (case en of (d, s, e, t) \<Rightarrow> d \<noteq> [] \<and> Clean d = d \<and> TrimSpace (t @ [CHR 0x0A]) = t)"

lemma update_new: "k \<notin> fst ` set rs \<Longrightarrow> AList.update k v rs = rs @ [(k, v)]"
  by (induction rs) auto

lemma update_last: "k \<notin> fst ` set rs \<Longrightarrow> AList.update k v (rs @ [(k, w)]) = rs @ [(k, v)]"
  by (induction rs) auto

lemma get_range_simps:
  "k \<notin> fst ` set rs \<Longrightarrow> get_range rs k = zero_range"
  "k \<notin> fst ` set rs \<Longrightarrow> get_range (rs @ [(k, w)]) k = w"
  by (auto simp: get_range_def map_add_def split: option.splits dest!: map_of_SomeD intro: rev_image_eqI)

lemma walk_entry:
  assumes "entry_ok en" "fst en \<notin> fst ` set rs"
  shows "walk_files rs (entry_visits en @ vs) = walk_files (rs @ [(fst en, entry_range en)]) vs"
proof -
  obtain d s e t where en: "en = (d, s, e, t)" by (cases en) auto
  note a = assms [unfolded en entry_ok_def prod.case fst_conv]
  have n: "Dir (d @ ''/end'') = d" "Dir (d @ ''/start'') = d" "Dir (d @ ''/type'') = d"
      "Base (d @ ''/end'') = ''end''" "Base (d @ ''/start'') = ''start''" "Base (d @ ''/type'') = ''type''"
    using a(1) Dir_name [of d "''end''"] Dir_name [of d "''start''"] Dir_name [of d "''type''"]
      Base_name [of "''end''" d] Base_name [of "''start''" d] Base_name [of "''type''" d]
    by (simp_all add: slash_def)
  have w1: "walker rs (VisitFile (d @ ''/end'') (Ok (hex_line e @ [CHR 0x0A]))) = Ok (rs @ [(d, zero_range\<lparr>mr_end := e\<rparr>)])"
    unfolding walker_def visit.case res.case Let_def n hex_line_trim ParseUint_hex
    using a(2) by (simp add: get_range_simps update_new)
  have w2: "walker (rs @ [(d, zero_range\<lparr>mr_end := e\<rparr>)]) (VisitFile (d @ ''/start'') (Ok (hex_line s @ [CHR 0x0A]))) =
      Ok (rs @ [(d, \<lparr>mr_start = s, mr_end = e, mr_typ = []\<rparr>)])"
    unfolding walker_def visit.case res.case Let_def n hex_line_trim ParseUint_hex
    using a(2) by (simp add: get_range_simps update_last zero_range_def)
  have w3: "walker (rs @ [(d, \<lparr>mr_start = s, mr_end = e, mr_typ = []\<rparr>)]) (VisitFile (d @ ''/type'') (Ok (t @ [CHR 0x0A]))) =
      Ok (rs @ [(d, entry_range en)])"
    unfolding walker_def visit.case res.case Let_def n
    using a by (simp add: get_range_simps update_last entry_range_def en)
  have w0: "walker rs (VisitDir d) = Ok rs" by (simp add: walker_def)
  have v: "entry_visits en = [VisitDir d, VisitFile (d @ ''/end'') (Ok (hex_line e @ [CHR 0x0A])),
      VisitFile (d @ ''/start'') (Ok (hex_line s @ [CHR 0x0A])), VisitFile (d @ ''/type'') (Ok (t @ [CHR 0x0A]))]"
    by (simp add: entry_visits_def en)
  show ?thesis unfolding v append.simps walk_files.simps w0 rbind.simps w1 w2 w3 by (simp add: en)
qed

lemma walk_entries:
  assumes "\<forall>en \<in> set es. entry_ok en" "distinct (map fst es)" "fst ` set rs \<inter> fst ` set es = {}"
  shows "walk_files rs (concat (map entry_visits es)) = Ok (rs @ map (\<lambda>en. (fst en, entry_range en)) es)"
  using assms
proof (induction es arbitrary: rs)
  case (Cons en es)
  have e: "entry_ok en" "fst en \<notin> fst ` set rs" using Cons.prems by auto
  have "walk_files (rs @ [(fst en, entry_range en)]) (concat (map entry_visits es)) =
      Ok ((rs @ [(fst en, entry_range en)]) @ map (\<lambda>en. (fst en, entry_range en)) es)"
    by (rule Cons.IH) (use Cons.prems in auto)
  then show ?case using walk_entry [OF e] by simp
qed simp

text \<open>
  What the map should say of an entry, without the tables of the code: its first address, its last address counted in, and
  the type under the name the kernel gives it, where all other names are taken for reserved.
\<close>

definition shown_type :: "string \<Rightarrow> string" where
  "shown_type t =
     (if t \<in> {''System RAM'', ''Default'', ''ACPI Tables'', ''ACPI Non-volatile Storage''} then t else ''Reserved'')"

definition shown_range :: "string \<times> u64 \<times> u64 \<times> string \<Rightarrow> TypedRange" where
  "shown_range en = (case en of (d, s, e, t) \<Rightarrow> \<lparr>TRange = \<lparr>Start = s, Size = e - s + 1\<rparr>, TType = shown_type t\<rparr>)"

lemma to_typed_shown: "to_typed (entry_range en) = shown_range en"
proof -
  obtain d s e t where "en = (d, s, e, t)" by (cases en)
  then show ?thesis
    by (simp add: to_typed_def entry_range_def shown_range_def RangeFromInterval_def shown_type_def sysfsToRangeType_def
        RangeRAM_def RangeDefault_def RangeACPI_def RangeNVS_def RangeReserved_def)
qed

lemma shown_range_pts:
  assumes "s \<le> e" "e < - 1"
  shows "pts (TRange (shown_range (d, s, e, t))) = {s..e}"
proof -
  have "p < e + 1 \<longleftrightarrow> p \<le> e" for p
  proof -
    have "unat e < unat (- 1 :: u64)" using assms(2) by (simp only: word_less_nat_alt)
    then have "unat (e + 1) = unat e + 1" by (simp add: unat_word_ariths unsigned_minus_1_eq_mask mask_eq_exp_minus_1)
    then show ?thesis by (simp add: word_less_nat_alt word_le_nat_alt less_Suc_eq_le)
  qed
  moreover have "s + (e - s + 1) = e + 1" by (simp add: algebra_simps)
  ultimately have "p \<in> pts (TRange (shown_range (d, s, e, t))) \<longleftrightarrow> p \<in> {s..e}" for p
    by (simp only: mem_pts shown_range_def End_def prod.case Range.simps TypedRange.simps atLeastAtMost_iff)
  then show ?thesis by blast
qed

text \<open>C13: for the files the kernel shows, one directory per range with its inclusive bounds in hexadecimal, the
  memory map has exactly these ranges with the types the kernel names, unknown names reserved, sorted by their start, whatever the
  order of map iteration; and each range covers exactly the addresses from the first to the last one shown.\<close>

theorem ParseMemoryMap_sysfs:
  assumes "\<forall>en \<in> set es. entry_ok en" "distinct (map fst es)" "\<forall>rs. mset (iteration rs) = mset rs"
  shows "\<exists>m. internalParseMemoryMap iteration (VisitDir root # concat (map entry_visits es)) = Ok m \<and>
    mset m = mset (map shown_range es) \<and> map_sorted m \<and>
    (\<forall>(d, s, e, t) \<in> set es. s \<le> e \<longrightarrow> e < - 1 \<longrightarrow> (\<exists>tr \<in> set m. pts (TRange tr) = {s..e} \<and> TType tr = shown_type t))"
proof -
  let ?rs = "map (\<lambda>en. (fst en, entry_range en)) es" and ?f = "\<lambda>(_, r). to_typed r"
  let ?m = "sort_slice typed_less (map ?f (iteration ?rs))"
  have w: "walk_files [] (VisitDir root # concat (map entry_visits es)) = Ok ?rs"
    using walk_entries [OF assms(1,2), of "[]"] by (simp add: walker_def)
  have "mset (iteration ?rs) = mset ?rs" using assms(3) by blast
  then have "mset (map ?f (iteration ?rs)) = mset (map ?f ?rs)" unfolding mset_map by (rule arg_cong)
  then have m: "mset ?m = mset (map shown_range es)"
    unfolding mset_sort_slice by (simp add: comp_def image_mset.compositionality to_typed_shown)
  have "\<exists>tr \<in> set ?m. pts (TRange tr) = {s..e} \<and> TType tr = shown_type t" if "(d, s, e, t) \<in> set es" "s \<le> e" "e < - 1" for d s e t
  proof (intro bexI conjI)
    show "pts (TRange (shown_range (d, s, e, t))) = {s..e}" by (rule shown_range_pts [OF that(2,3)])
    show "TType (shown_range (d, s, e, t)) = shown_type t" by (simp add: shown_range_def)
    show "shown_range (d, s, e, t) \<in> set ?m" using mset_eq_setD [OF m] that(1) by simp
  qed
  moreover have "map_sorted ?m" using map_sorted_sort [unfolded MemoryMap_sort_def] .
  ultimately show ?thesis using m unfolding internalParseMemoryMap_def w rbind.simps by blast
qed

theorem ParseMemoryMap_sysfs_witness:
  "\<exists>m. internalParseMemoryMap rev (VisitDir ''/m'' # concat (map entry_visits
      [(''/m/0'', 0x1000, 0x1fff, ''System RAM''), (''/m/1'', 0x2000, 0x2fff, ''Unknown'')])) = Ok m \<and>
    mset m = mset [\<lparr>TRange = \<lparr>Start = 0x1000, Size = 0x1000\<rparr>, TType = RangeRAM\<rparr>,
      \<lparr>TRange = \<lparr>Start = 0x2000, Size = 0x1000\<rparr>, TType = RangeReserved\<rparr>]"
proof -
  let ?es = "[(''/m/0'', 0x1000 :: u64, 0x1fff :: u64, ''System RAM''), (''/m/1'', 0x2000, 0x2fff, ''Unknown'')]"
  have t: "TrimSpace (''System RAM'' @ [CHR 0x0A]) = ''System RAM''" "TrimSpace (''Unknown'' @ [CHR 0x0A]) = ''Unknown''"
    by (rule TrimSpace_newline; simp add: ascii_def IsSpace_def)+
  have c: "Clean ''/m/0'' = ''/m/0''" "Clean ''/m/1'' = ''/m/1''"
    by (simp_all add: Clean_def IsAbs_def slash_def clean_comps_def clean_step_def dot_def dotdot_def path_of_def)
  have "\<forall>en \<in> set ?es. entry_ok en" using t c by (simp add: entry_ok_def)
  from ParseMemoryMap_sysfs [OF this, of rev "''/m''"] obtain m where
    m: "internalParseMemoryMap rev (VisitDir ''/m'' # concat (map entry_visits ?es)) = Ok m"
      "mset m = mset (map shown_range ?es)" by auto
  have "map shown_range ?es = [\<lparr>TRange = \<lparr>Start = 0x1000, Size = 0x1000\<rparr>, TType = RangeRAM\<rparr>,
      \<lparr>TRange = \<lparr>Start = 0x2000, Size = 0x1000\<rparr>, TType = RangeReserved\<rparr>]"
    by (simp add: shown_range_def shown_type_def RangeRAM_def RangeReserved_def)
  with m show ?thesis by metis
qed

end
