(* ===== verification/FdtRoundtrip.thy ===== *)
theory FdtRoundtrip imports Fdt begin

text \<open>
  What \<open>FDT.Write\<close> writes, and that \<open>ReadFDT\<close> reads it back. The first part computes the bytes
  (\<open>node_bytes\<close>), the second part the header, the third runs the reader over them.
\<close>

section \<open>The bytes of the structure block\<close>

definition off_of :: "(string \<rightharpoonup> u32) \<Rightarrow> string \<Rightarrow> u32" where
  "off_of strOff nm = (case strOff nm of Some off \<Rightarrow> off | None \<Rightarrow> 0)"

definition prop_bytes :: "(string \<rightharpoonup> u32) \<Rightarrow> Property \<Rightarrow> byte list" where
  "prop_bytes strOff p = (be32 tokenProp @ be32 (word_of_nat (length (PValue p))) @ be32 (off_of strOff (PName p))) @
     PValue p @ pad4 (length (PValue p))"

fun node_bytes :: "(string \<rightharpoonup> u32) \<Rightarrow> Node \<Rightarrow> byte list" where
  "node_bytes strOff (Node nm ps cs) =
     be32 tokenBeginNode @ (str_bytes nm @ [0]) @ pad4 (length nm + 1) @
     concat (map (prop_bytes strOff) ps) @ concat (map (node_bytes strOff) cs) @ be32 tokenEndNode"

lemma prop_bytes_dvd: "4 dvd length (prop_bytes strOff p)"
  using pad4_dvd [of "length (PValue p)"] by (simp add: prop_bytes_def)

lemma dvd_concat: "(\<And>x. x \<in> set xs \<Longrightarrow> 4 dvd length (f x)) \<Longrightarrow> 4 dvd length (concat (map f xs))"
  by (induction xs) auto

lemma node_bytes_dvd: "4 dvd length (node_bytes strOff n)"
proof (induction n rule: node_bytes.induct)
  case (1 strOff nm ps cs)
  have "4 dvd (length nm + 1 + length (pad4 (length nm + 1))) + 8"
    using pad4_dvd [of "length nm + 1"] by (rule dvd_add) simp
  moreover have "4 dvd length (concat (map (prop_bytes strOff) ps))" by (rule dvd_concat) (rule prop_bytes_dvd)
  moreover have "4 dvd length (concat (map (node_bytes strOff) cs))" by (rule dvd_concat) (rule 1)
  ultimately have "4 dvd ((length nm + 1 + length (pad4 (length nm + 1))) + 8) +
      length (concat (map (prop_bytes strOff) ps)) + length (concat (map (node_bytes strOff) cs))" by simp
  then show ?case by (simp add: algebra_simps del: length_concat)
qed

section \<open>Writing to a buffer\<close>

definition emit :: "byte list \<Rightarrow> byte list action" where
  "emit bs w = (Ok (), w\<lparr>WW := WW w @ bs, WN := WN w + length bs\<rparr>)"

lemma put_bytes_emit: "put_bytes buffer_Write bs = emit bs"
  by (rule ext) (simp add: put_bytes_def emit_def aw_Write_def buffer_Write_def)

lemma aseq_emit: "aseq (emit bs) k w = k (w\<lparr>WW := WW w @ bs, WN := WN w + length bs\<rparr>)"
  by (simp add: aseq_def emit_def)

lemma aseq_emit': "a w = emit bs w \<Longrightarrow> aseq a k w = k (w\<lparr>WW := WW w @ bs, WN := WN w + length bs\<rparr>)"
  by (simp add: aseq_def emit_def)

lemma put_align_emit:
  "0 < n \<Longrightarrow> put_align buffer_Write n w = emit (replicate ((n - WN w mod n) mod n) 0) w"
  by (simp add: put_align_def aw_Align_def emit_def aw_Write_def buffer_Write_def)

lemma put_align4: "put_align buffer_Write 4 w = emit (pad4 (WN w)) w"
  by (simp add: put_align_emit pad4_def)

lemma aseq_align4: "aseq (put_align buffer_Write 4) k w = aseq (emit (pad4 (WN w))) k w"
  by (simp add: aseq_def put_align4)

lemma write_props_emit:
  "4 dvd WN w \<Longrightarrow> write_props buffer_Write strOff ps w = emit (concat (map (prop_bytes strOff) ps)) w"
proof (induction ps arbitrary: w)
  case Nil
  then show ?case by (simp add: emit_def)
next
  case (Cons p ps)
  let ?w = "w\<lparr>WW := WW w @ prop_bytes strOff p, WN := WN w + length (prop_bytes strOff p)\<rparr>"
  have "4 dvd WN ?w" using Cons.prems prop_bytes_dvd by simp
  from Cons.IH [OF this] have IH: "write_props buffer_Write strOff ps ?w = emit (concat (map (prop_bytes strOff) ps)) ?w" .
  have p: "pad4 (WN w + 12 + length (PValue p)) = pad4 (length (PValue p))"
    using Cons.prems by (simp add: add.assoc pad4_shift)
  have "write_props buffer_Write strOff (p # ps) w = write_props buffer_Write strOff ps ?w"
    using p by (simp add: put_bytes_emit aseq_emit aseq_align4 prop_bytes_def off_of_def add_ac)
  also have "\<dots> = emit (concat (map (prop_bytes strOff) (p # ps))) w"
    unfolding IH by (simp add: emit_def add_ac)
  finally show ?case .
qed

lemma write_children_emit:
  assumes "\<And>c w. c \<in> set cs \<Longrightarrow> 4 dvd WN w \<Longrightarrow> writeNode buffer_Write strOff c w = emit (node_bytes strOff c) w"
    and "4 dvd WN w"
  shows "write_children buffer_Write strOff cs w = emit (concat (map (node_bytes strOff) cs)) w"
  using assms
proof (induction cs arbitrary: w)
  case Nil
  then show ?case by (simp add: emit_def)
next
  case (Cons c cs)
  let ?w = "w\<lparr>WW := WW w @ node_bytes strOff c, WN := WN w + length (node_bytes strOff c)\<rparr>"
  have "4 dvd WN ?w" using Cons.prems(2) node_bytes_dvd by simp
  from Cons.IH [OF Cons.prems(1) this]
  have IH: "write_children buffer_Write strOff cs ?w = emit (concat (map (node_bytes strOff) cs)) ?w" by simp
  have "writeNode buffer_Write strOff c w = emit (node_bytes strOff c) w" using Cons.prems by simp
  then have "write_children buffer_Write strOff (c # cs) w = write_children buffer_Write strOff cs ?w"
    by (simp add: aseq_def emit_def)
  then show ?case unfolding IH by (simp add: emit_def add_ac)
qed

lemma write_node_emit: "4 dvd WN w \<Longrightarrow> writeNode buffer_Write strOff n w = emit (node_bytes strOff n) w"
proof (induction n arbitrary: w rule: node_bytes.induct)
  case (1 strOff nm ps cs)
  let ?nb = "str_bytes nm @ [0]"
  let ?b1 = "be32 tokenBeginNode @ ?nb @ pad4 (length nm + 1)"
  let ?w1 = "w\<lparr>WW := WW w @ ?b1, WN := WN w + length ?b1\<rparr>"
  let ?ps = "concat (map (prop_bytes strOff) ps)" and ?cs = "concat (map (node_bytes strOff) cs)"
  let ?w2 = "?w1\<lparr>WW := WW ?w1 @ ?ps, WN := WN ?w1 + length ?ps\<rparr>"
  have p: "pad4 (WN w + 4 + (length nm + 1)) = pad4 (length nm + 1)"
    using 1(2) by (intro pad4_shift) simp
  have "4 dvd 4 + (length nm + 1 + length (pad4 (length nm + 1)))"
    by (rule dvd_add [OF _ pad4_dvd]) simp
  then have "4 dvd length ?b1" by (simp add: add_ac)
  then have a1: "4 dvd WN ?w1" using 1(2) by simp
  then have a2: "4 dvd WN ?w2" using dvd_concat [of ps "prop_bytes strOff"] prop_bytes_dvd by simp
  have c: "write_children buffer_Write strOff cs ?w2 = emit ?cs ?w2"
    by (rule write_children_emit [OF 1(1) a2])
  have "writeNode buffer_Write strOff (Node nm ps cs) w =
      aseq (write_props buffer_Write strOff ps) (aseq (write_children buffer_Write strOff cs) (emit (be32 tokenEndNode))) ?w1"
    using p by (simp add: put_bytes_emit aseq_emit aseq_align4 add_ac)
  also have "\<dots> = aseq (write_children buffer_Write strOff cs) (emit (be32 tokenEndNode)) ?w2"
    by (rule aseq_emit' [where w = ?w1 and bs = ?ps]) (rule write_props_emit [OF a1])
  also have "\<dots> = emit (be32 tokenEndNode) (?w2\<lparr>WW := WW ?w2 @ ?cs, WN := WN ?w2 + length ?cs\<rparr>)"
    by (rule aseq_emit' [where w = ?w2 and bs = ?cs]) (rule c)
  also have "\<dots> = emit (node_bytes strOff (Node nm ps cs)) w"
    by (simp add: emit_def add_ac)
  finally show ?case .
qed

section \<open>The strings block\<close>

definition tab_ok :: "strtab \<Rightarrow> bool" where
  "tab_ok s \<longleftrightarrow> (\<forall>nm off. snd s nm = Some off \<longrightarrow>
     (\<exists>k. off = word_of_nat k \<and> k < length (fst s) \<and> take (length nm + 1) (drop k (fst s)) = str_bytes nm @ [0]))"

definition tab_le :: "strtab \<Rightarrow> strtab \<Rightarrow> bool" where
  "tab_le s s' \<longleftrightarrow> (\<forall>nm off. snd s nm = Some off \<longrightarrow> snd s' nm = Some off)"

lemma tab_ok_append:
  assumes "tab_ok (strs, strOff)"
  shows "tab_ok (strs @ str_bytes nm @ [0], strOff(nm \<mapsto> word_of_nat (length strs)))"
  unfolding tab_ok_def fst_conv snd_conv
proof (intro allI impI)
  fix nm' off
  assume o: "(strOff(nm \<mapsto> word_of_nat (length strs))) nm' = Some off"
  show "\<exists>k. off = word_of_nat k \<and> k < length (strs @ str_bytes nm @ [0]) \<and>
      take (length nm' + 1) (drop k (strs @ str_bytes nm @ [0])) = str_bytes nm' @ [0]"
  proof (cases "nm' = nm")
    case True
    with o show ?thesis by (intro exI [of _ "length strs"]) simp
  next
    case False
    with o assms obtain k where k: "off = word_of_nat k" "k < length strs"
      "take (length nm' + 1) (drop k strs) = str_bytes nm' @ [0]"
      by (fastforce simp: tab_ok_def)
    have "length (take (length nm' + 1) (drop k strs)) = length nm' + 1" unfolding k(3) by simp
    then have "length nm' + 1 \<le> length strs - k" by simp
    with k show ?thesis by (intro exI [of _ k]) simp
  qed
qed

lemma add_names_ok:
  "tab_ok s \<Longrightarrow> tab_ok (add_names ps s) \<and> tab_le s (add_names ps s) \<and>
     (\<forall>p \<in> set ps. snd (add_names ps s) (PName p) \<noteq> None)"
proof (induction ps s rule: add_names.induct)
  case (2 p ps strs strOff)
  show ?case
  proof (cases "strOff (PName p) = None")
    case True
    from 2(1) [OF True tab_ok_append [OF 2(3)]]
    have IH: "tab_ok (add_names (p # ps) (strs, strOff))"
      "tab_le (strs @ str_bytes (PName p) @ [0], strOff(PName p \<mapsto> word_of_nat (length strs))) (add_names (p # ps) (strs, strOff))"
      "\<forall>p' \<in> set ps. snd (add_names (p # ps) (strs, strOff)) (PName p') \<noteq> None"
      using True by simp_all
    have "tab_le (strs, strOff) (add_names (p # ps) (strs, strOff))"
      using IH(2) True unfolding tab_le_def snd_conv by (metis fun_upd_other option.distinct(1))
    moreover have "snd (add_names (p # ps) (strs, strOff)) (PName p) \<noteq> None"
      using IH(2) by (auto simp: tab_le_def)
    ultimately show ?thesis using IH by auto
  next
    case False
    with 2(2) [OF False 2(3)] show ?thesis by (auto simp: tab_le_def)
  qed
qed (simp add: tab_le_def)

definition all_props :: "Node \<Rightarrow> Property list" where
  "all_props n = concat (map Properties (preorder n))"

lemma add_names_append: "add_names (ps @ qs) s = add_names qs (add_names ps s)"
  by (induction ps s rule: add_names.induct) auto

lemma collect_names_eq: "collect_names root = Ok (add_names (all_props root) ([], Map.empty))"
proof -
  have "walk_list (\<lambda>n s. Ok (add_names (Properties n) s)) ns s = (Ok (add_names (concat (map Properties ns)) s) :: (io_error, strtab) res)"
    for ns s by (induction ns arbitrary: s) (simp_all add: add_names_append)
  then show ?thesis by (simp add: collect_names_def Walk_eq all_props_def)
qed

section \<open>The size of the structure block\<close>

lemma of_nat_unat_u64: "word_of_nat (unat (w :: u64)) = w"
  by simp

lemma ucast_of_nat_u32: "ucast (word_of_nat k :: u64) = (word_of_nat k :: u32)"
  by (rule bit_word_eqI) (simp add: bit_simps)

lemma up4_eq: "n + 3 < 2 ^ 64 \<Longrightarrow> up4 n = word_of_nat (n + length (pad4 n))"
proof -
  assume n: "n + 3 < 2 ^ 64"
  have u: "unat (word_of_nat n :: u64) = n" using n by (intro unat_of_nat64) simp
  have "unat (Up (word_of_nat n) (2 ^ 2)) = (n + 3) div 4 * 4"
    using unat_Up [of 2 "word_of_nat n"] n unfolding u by simp
  then have "Up (word_of_nat n) 4 = word_of_nat (n + length (pad4 n))"
    unfolding pad4_up using of_nat_unat_u64 [of "Up (word_of_nat n) 4"] by simp
  then show ?thesis unfolding up4_def by (simp only: ucast_of_nat_u32)
qed

lemma props_size_eq:
  "(\<And>p. p \<in> set ps \<Longrightarrow> length (PValue p) + 3 < 2 ^ 64) \<Longrightarrow>
   props_size ps s = s + word_of_nat (length (concat (map (prop_bytes strOff) ps)))"
proof (induction ps arbitrary: s)
  case (Cons p ps)
  have "length (prop_bytes strOff p) = 12 + (length (PValue p) + length (pad4 (length (PValue p))))"
    by (simp add: prop_bytes_def)
  with Cons show ?case by (simp add: up4_eq add_ac del: length_concat)
qed simp

fun sizes_ok :: "Node \<Rightarrow> bool" where
  "sizes_ok (Node nm ps cs) \<longleftrightarrow> length nm + 4 < 2 ^ 64 \<and>
     (\<forall>p \<in> set ps. length (PValue p) + 3 < 2 ^ 64) \<and> (\<forall>c \<in> set cs. sizes_ok c)"

lemma struct_size_walk:
  "sizes_ok n \<Longrightarrow>
   Walk (\<lambda>n s. Ok (props_size (Properties n) (s + (8 + up4 (length (Name n) + 1))))) n s =
     (Ok (s + word_of_nat (length (node_bytes strOff n))) :: (io_error, u32) res)"
proof (induction n arbitrary: s rule: node_bytes.induct)
  case (1 strOff nm ps cs)
  let ?f = "\<lambda>n s. Ok (props_size (Properties n) (s + (8 + up4 (length (Name n) + 1)))) :: (io_error, u32) res"
  have cs: "Walk_children ?f cs' s = Ok (s + word_of_nat (length (concat (map (node_bytes strOff) cs'))))"
    if "set cs' \<subseteq> set cs" for cs' s
    using that 1 by (induction cs' arbitrary: s) (auto simp: add_ac simp del: length_concat)
  have "props_size ps s' = s' + word_of_nat (length (concat (map (prop_bytes strOff) ps)))" for s'
    using 1(2) by (intro props_size_eq) simp
  moreover have "up4 (length nm + 1) = word_of_nat (length nm + 1 + length (pad4 (length nm + 1)))"
    using 1(2) by (intro up4_eq) simp
  ultimately show ?case using cs [OF order_refl] by (simp add: add_ac del: length_concat)
qed

section \<open>Running the reader\<close>

lemma ar_full_append:
  "length a = n \<Longrightarrow> ar_full \<lparr>AR = a @ rest, AN = N\<rparr> n = Ok (a, \<lparr>AR = rest, AN = N + n\<rparr>)"
  by (simp add: ar_full_def ar_ReadFull_def)

definition name_ok :: "string \<Rightarrow> bool" where
  "name_ok nm \<longleftrightarrow> (\<forall>c \<in> set nm. byte_of c \<noteq> 0 \<and> byte_of c < 128)"

lemma read_name_ok:
  "name_ok nm \<Longrightarrow>
   read_name \<lparr>AR = str_bytes nm @ 0 # rest, AN = N\<rparr> acc = Ok (acc @ nm, \<lparr>AR = rest, AN = N + length nm + 1\<rparr>)"
proof (induction nm arbitrary: N acc)
  case Nil
  show ?case by (subst read_name.simps) (simp add: ReadByte_def ar_ReadFull_def)
next
  case (Cons c nm)
  then have c: "byte_of c \<noteq> 0" "byte_of c < 128" and nm: "name_ok nm" by (simp_all add: name_ok_def)
  have s: "string_of_byte (byte_of c) = [c]" using c(2) by (simp add: string_of_byte_def)
  show ?case
    using Cons.IH [OF nm, of "Suc N" "acc @ [c]"] c(1) s
    by (subst read_name.simps) (simp add: ReadByte_def ar_ReadFull_def)
qed

lemma ar_Align_pad:
  assumes "4 dvd N"
  shows "ar_Align \<lparr>AR = pad4 k @ rest, AN = N + k\<rparr> 4 =
    Ok (pad4 k, \<lparr>AR = rest, AN = N + k + length (pad4 k)\<rparr>)"
proof -
  have m: "(N + k) mod 4 = k mod 4" using assms by presburger
  show ?thesis
  proof (cases "k mod 4 = 0")
    case True
    then show ?thesis using m by (simp add: ar_Align_def pad4_def)
  next
    case False
    then have "length (pad4 k) = 4 - k mod 4" by (simp add: pad4_def)
    then show ?thesis using m False by (simp add: ar_Align_def ar_ReadFull_def)
  qed
qed

lemma ar_Align_none: "4 dvd N \<Longrightarrow> ar_Align \<lparr>AR = rest, AN = N\<rparr> 4 = Ok ([], \<lparr>AR = rest, AN = N\<rparr>)"
  by (simp add: ar_Align_def dvd_imp_mod_0)

text \<open>The tree with \<open>m\<close> added as the newest node at depth \<open>d\<close>, and how updates act on it.\<close>

fun attach :: "nat \<Rightarrow> Node \<Rightarrow> Node option \<Rightarrow> Node option" where
  "attach 0 m R = Some m"
| "attach (Suc d) m R = map_option (at_depth d (add_child m)) R"

fun deep :: "nat \<Rightarrow> Node \<Rightarrow> bool" where
  "deep 0 n \<longleftrightarrow> True"
| "deep (Suc d) (Node nm ps cs) \<longleftrightarrow> cs \<noteq> [] \<and> deep d (last cs)"

fun place_ok :: "nat \<Rightarrow> Node option \<Rightarrow> bool" where
  "place_ok 0 R \<longleftrightarrow> R = None"
| "place_ok (Suc d) R \<longleftrightarrow> (\<exists>n. R = Some n \<and> deep d n)"

lemma at_depth_comp: "deep d n \<Longrightarrow> at_depth d f (at_depth d g n) = at_depth d (\<lambda>x. f (g x)) n"
  by (induction d n rule: deep.induct) auto

lemma at_depth_Suc_add_child:
  "deep d n \<Longrightarrow> at_depth (Suc d) f (at_depth d (add_child m) n) = at_depth d (add_child (f m)) n"
proof (induction d n rule: deep.induct)
  case (1 n)
  then show ?case by (cases n) simp
qed auto

lemma deep_at_depth: "deep d n \<Longrightarrow> deep (Suc d) (at_depth d (add_child m) n)"
proof (induction d n rule: deep.induct)
  case (1 n)
  then show ?case by (cases n) simp
qed auto

lemma update_attach:
  "place_ok d R \<Longrightarrow> map_option (at_depth d f) (attach d m R) = attach d (f m) R"
  by (cases d) (auto simp: at_depth_Suc_add_child)

lemma attach_attach: "place_ok d R \<Longrightarrow> attach (Suc d) c (attach d m R) = attach d (add_child c m) R"
  by (simp add: update_attach)

lemma place_ok_attach: "place_ok d R \<Longrightarrow> place_ok (Suc d) (attach d m R)"
  by (cases d) (auto simp: deep_at_depth)

section \<open>Reading the structure block back\<close>

definition at :: "byte list \<Rightarrow> nat \<Rightarrow> Node option \<Rightarrow> nat \<Rightarrow> StructState" where
  "at bs N R d = \<lparr>sr_r = \<lparr>AR = bs, AN = N\<rparr>, sr_root = R, sr_depth = d\<rparr>"

lemma loop_step:
  assumes "struct_token strs t (at bs (N + 4) R d) = Ok (at (pad4 k @ rest) (N + 4 + k) R' d')"
    and "4 dvd N" "t \<noteq> tokenEnd"
  shows "struct_loop h strs (at (be32 t @ bs) N R d) =
    struct_loop h strs (at rest (N + 4 + k + length (pad4 k)) R' d')"
proof -
  have "4 dvd N + 4" using assms(2) by simp
  note al = ar_Align_pad [OF this, of k rest]
  have "struct_step h strs (at (be32 t @ bs) N R d) = Ok (at rest (N + 4 + k + length (pad4 k)) R' d', False)"
    using assms al by (simp add: struct_step_def at_def ar_full_append Let_def)
  then show ?thesis by (subst struct_loop.simps) simp
qed

lemmas token_defs = tokenBeginNode_def tokenEndNode_def tokenProp_def tokenNop_def tokenEnd_def

lemma token_ne: "tokenBeginNode \<noteq> tokenEnd" "tokenEndNode \<noteq> tokenEnd" "tokenProp \<noteq> tokenEnd"
  by (simp_all add: token_defs)

lemma loop_begin:
  assumes "4 dvd N" "name_ok nm" "place_ok d R"
  shows "struct_loop h strs (at (be32 tokenBeginNode @ (str_bytes nm @ [0]) @ pad4 (length nm + 1) @ rest) N R d) =
    struct_loop h strs (at rest (N + 4 + (length nm + 1) + length (pad4 (length nm + 1))) (attach d (Node nm [] []) R) (Suc d))"
proof -
  have "struct_token strs tokenBeginNode (at ((str_bytes nm @ [0]) @ pad4 (length nm + 1) @ rest) (N + 4) R d) =
      Ok (at (pad4 (length nm + 1) @ rest) (N + 4 + (length nm + 1)) (attach d (Node nm [] []) R) (Suc d))"
    using assms(3) read_name_ok [OF assms(2), of "pad4 (length nm + 1) @ rest" "N + 4" "[]"]
    by (cases d) (auto simp: struct_token_def begin_node_def at_def)
  from loop_step [OF this assms(1) token_ne(1)] show ?thesis by simp
qed

lemma loop_end:
  assumes "4 dvd N"
  shows "struct_loop h strs (at (be32 tokenEndNode @ rest) N R (Suc d)) = struct_loop h strs (at rest (N + 4) R d)"
proof -
  have "struct_token strs tokenEndNode (at rest (N + 4) R (Suc d)) = Ok (at (pad4 0 @ rest) (N + 4 + 0) R d)"
    by (simp add: struct_token_def end_node_def at_def token_defs pad4_def)
  from loop_step [OF this assms token_ne(2)] show ?thesis by (simp add: pad4_def)
qed

definition off_ok :: "byte list \<Rightarrow> (string \<rightharpoonup> u32) \<Rightarrow> string \<Rightarrow> bool" where
  "off_ok strs strOff nm \<longleftrightarrow> 0 \<notin> set (str_bytes nm) \<and>
     (\<exists>k. strOff nm = Some (word_of_nat k) \<and> k < length strs \<and> take (length nm + 1) (drop k strs) = str_bytes nm @ [0])"

lemma loop_prop:
  assumes N: "4 dvd N" and R: "place_ok d R" and len: "length strs < 2 ^ 32" "length (PValue p) < 2 ^ 32"
    and off: "off_ok strs strOff (PName p)"
  shows "struct_loop h strs (at (prop_bytes strOff p @ rest) N (attach d m R) (Suc d)) =
    struct_loop h strs (at rest (N + length (prop_bytes strOff p)) (attach d (add_prop p m) R) (Suc d))"
proof -
  let ?len = "word_of_nat (length (PValue p)) :: u32"
  obtain k where k: "strOff (PName p) = Some (word_of_nat k)" "k < length strs"
    "take (length (PName p) + 1) (drop k strs) = str_bytes (PName p) @ [0]" and nz: "0 \<notin> set (str_bytes (PName p))"
    using off by (auto simp: off_ok_def)
  have uk: "unat (word_of_nat k :: u32) = k" "unat (word_of_nat (length strs) :: u32) = length strs"
    "unat ?len = length (PValue p)"
    using k(2) len by (auto intro: unat_of_nat32)
  have lt: "\<not> (word_of_nat (length strs) :: u32) \<le> word_of_nat k"
    using k(2) uk by (simp only: word_le_nat_alt)
  have d: "drop k strs = str_bytes (PName p) @ 0 # drop (length (PName p) + 1) (drop k strs)"
    using k(3) append_take_drop_id [of "length (PName p) + 1" "drop k strs"] by (metis append.assoc append_Cons append_Nil)
  have ix: "IndexByte (drop k strs) 0 = Some (length (PName p))"
    using IndexByte_append [OF nz] d by (metis length_str_bytes)
  have nm: "bytes_str (take (length (PName p)) (drop k strs)) = PName p"
    using arg_cong [OF k(3), of "take (length (PName p))"] by (simp add: min_def)
  have pe: "\<lparr>PName = PName p, PValue = PValue p\<rparr> = p" by (cases p) simp
  let ?hd = "be32 ?len @ be32 (word_of_nat k)"
  have "prop_token strs (at (?hd @ PValue p @ pad4 (length (PValue p)) @ rest) (N + 4) (attach d m R) (Suc d)) =
      Ok (at (pad4 (length (PValue p)) @ rest) (N + 4 + 8 + length (PValue p)) (attach d (add_prop p m) R) (Suc d))"
    using ar_full_append [of ?hd 8 "PValue p @ pad4 (length (PValue p)) @ rest" "N + 4"]
      ar_full_append [of "PValue p" "length (PValue p)" "pad4 (length (PValue p)) @ rest" "N + 4 + 8"]
      lt ix nm uk update_attach [OF R, of "add_prop p" m]
    by (simp add: prop_token_def at_def Let_def pe)
  then have "struct_token strs tokenProp (at (?hd @ PValue p @ pad4 (length (PValue p)) @ rest) (N + 4) (attach d m R) (Suc d)) =
      Ok (at (pad4 (8 + length (PValue p)) @ rest) (N + 4 + (8 + length (PValue p))) (attach d (add_prop p m) R) (Suc d))"
    by (simp add: struct_token_def token_defs pad4_shift pad4_shift' add_ac)
  from loop_step [OF this N token_ne(3), of h] k(1) show ?thesis
    by (simp add: prop_bytes_def off_of_def pad4_shift pad4_shift' add_ac)
qed

text \<open>What the reader needs of a node: readable names, offsets of the property names, sizes.\<close>

fun node_ok :: "byte list \<Rightarrow> (string \<rightharpoonup> u32) \<Rightarrow> Node \<Rightarrow> bool" where
  "node_ok strs strOff (Node nm ps cs) \<longleftrightarrow> name_ok nm \<and>
     (\<forall>p \<in> set ps. off_ok strs strOff (PName p) \<and> length (PValue p) < 2 ^ 32) \<and>
     (\<forall>c \<in> set cs. node_ok strs strOff c)"

lemma loop_props:
  assumes "4 dvd N" "place_ok d R" "length strs < 2 ^ 32"
    and "\<And>p. p \<in> set ps \<Longrightarrow> off_ok strs strOff (PName p) \<and> length (PValue p) < 2 ^ 32"
  shows "struct_loop h strs (at (concat (map (prop_bytes strOff) ps) @ rest) N (attach d (Node nm qs []) R) (Suc d)) =
    struct_loop h strs (at rest (N + length (concat (map (prop_bytes strOff) ps))) (attach d (Node nm (qs @ ps) []) R) (Suc d))"
  using assms
proof (induction ps arbitrary: N qs)
  case (Cons p ps)
  let ?rest = "concat (map (prop_bytes strOff) ps) @ rest"
  have "struct_loop h strs (at (concat (map (prop_bytes strOff) (p # ps)) @ rest) N (attach d (Node nm qs []) R) (Suc d)) =
      struct_loop h strs (at ?rest (N + length (prop_bytes strOff p)) (attach d (Node nm (qs @ [p]) []) R) (Suc d))"
    using loop_prop [OF Cons.prems(1,2,3), of p strOff h ?rest "Node nm qs []"] Cons.prems(4) by simp
  also have "\<dots> = struct_loop h strs (at rest (N + length (prop_bytes strOff p) + length (concat (map (prop_bytes strOff) ps)))
      (attach d (Node nm ((qs @ [p]) @ ps) []) R) (Suc d))"
    by (rule Cons.IH) (use Cons.prems prop_bytes_dvd in auto)
  finally show ?case by (simp add: add_ac)
qed simp

lemma loop_children:
  assumes "\<And>c N d R rest. c \<in> set cs \<Longrightarrow> 4 dvd N \<Longrightarrow> place_ok d R \<Longrightarrow>
      struct_loop h strs (at (node_bytes strOff c @ rest) N R d) =
      struct_loop h strs (at rest (N + length (node_bytes strOff c)) (attach d c R) d)"
    and "4 dvd N" "place_ok d R"
  shows "struct_loop h strs (at (concat (map (node_bytes strOff) cs) @ rest) N (attach d (Node nm ps ds) R) (Suc d)) =
    struct_loop h strs (at rest (N + length (concat (map (node_bytes strOff) cs))) (attach d (Node nm ps (ds @ cs)) R) (Suc d))"
  using assms
proof (induction cs arbitrary: N ds)
  case (Cons c cs)
  let ?rest = "concat (map (node_bytes strOff) cs) @ rest"
  have "struct_loop h strs (at (concat (map (node_bytes strOff) (c # cs)) @ rest) N (attach d (Node nm ps ds) R) (Suc d)) =
      struct_loop h strs (at ?rest (N + length (node_bytes strOff c)) (attach d (Node nm ps (ds @ [c])) R) (Suc d))"
    using Cons.prems(1) [OF _ Cons.prems(2) place_ok_attach [OF Cons.prems(3)], of c ?rest "Node nm ps ds"]
      attach_attach [OF Cons.prems(3), of c "Node nm ps ds"] by simp
  also have "\<dots> = struct_loop h strs (at rest (N + length (node_bytes strOff c) + length (concat (map (node_bytes strOff) cs)))
      (attach d (Node nm ps ((ds @ [c]) @ cs)) R) (Suc d))"
    by (rule Cons.IH) (use Cons.prems node_bytes_dvd in auto)
  finally show ?case by (simp add: add_ac)
qed simp

lemma loop_node:
  assumes "node_ok strs strOff n" "4 dvd N" "place_ok d R" "length strs < 2 ^ 32"
  shows "struct_loop h strs (at (node_bytes strOff n @ rest) N R d) =
    struct_loop h strs (at rest (N + length (node_bytes strOff n)) (attach d n R) d)"
  using assms
proof (induction n arbitrary: N d R rest rule: node_bytes.induct)
  case (1 strOff nm ps cs)
  let ?ps = "concat (map (prop_bytes strOff) ps)" and ?cs = "concat (map (node_bytes strOff) cs)"
  let ?L = "4 + (length nm + 1) + length (pad4 (length nm + 1))"
  have a1: "4 dvd N + ?L"
    using 1(3) dvd_add [OF _ pad4_dvd [of "length nm + 1"], of 4] by (simp add: add.assoc)
  have a2: "4 dvd N + ?L + length ?ps" using a1 dvd_concat [of ps "prop_bytes strOff"] prop_bytes_dvd by (meson dvd_add)
  have a3: "4 dvd N + ?L + length ?ps + length ?cs"
    using a2 dvd_concat [of cs "node_bytes strOff"] node_bytes_dvd by (meson dvd_add)
  from 1(2) have ok: "name_ok nm" "\<And>p. p \<in> set ps \<Longrightarrow> off_ok strs strOff (PName p) \<and> length (PValue p) < 2 ^ 32"
    "\<And>c. c \<in> set cs \<Longrightarrow> node_ok strs strOff c" by simp_all
  let ?e = "be32 tokenEndNode @ rest"
  have "struct_loop h strs (at (node_bytes strOff (Node nm ps cs) @ rest) N R d) =
      struct_loop h strs (at (?ps @ ?cs @ ?e) (N + ?L) (attach d (Node nm [] []) R) (Suc d))"
    using loop_begin [OF 1(3) ok(1) 1(4), of h strs "?ps @ ?cs @ ?e"] by (simp add: add_ac)
  also have "\<dots> = struct_loop h strs (at (?cs @ ?e) (N + ?L + length ?ps) (attach d (Node nm ps []) R) (Suc d))"
    using loop_props [OF a1 1(4,5) ok(2), of ps h "?cs @ ?e" nm "[]"] by simp
  also have "\<dots> = struct_loop h strs (at ?e (N + ?L + length ?ps + length ?cs) (attach d (Node nm ps cs) R) (Suc d))"
    using loop_children [of cs h strs strOff, OF 1(1) a2 1(4), of ?e nm ps "[]"] ok(3) 1(5) by simp
  also have "\<dots> = struct_loop h strs (at rest (N + ?L + length ?ps + length ?cs + 4) (attach d (Node nm ps cs) R) d)"
    by (rule loop_end [OF a3])
  also have "N + ?L + length ?ps + length ?cs + 4 = N + length (node_bytes strOff (Node nm ps cs))"
    by (simp add: add_ac)
  finally show ?case .
qed

lemma loop_finish:
  assumes "unat (SizeDtStruct h) = N + 4" "N + 4 < 2 ^ 32"
  shows "struct_loop h strs (at (be32 tokenEnd) N (Some n) d) = Ok (Some n)"
proof -
  have "word_of_nat (N + 4) = SizeDtStruct h" 
    unfolding assms(1) [symmetric] by simp
  then show ?thesis
    using ar_full_append [of "be32 tokenEnd" 4 "[]" N]
    by (subst struct_loop.simps) (simp add: struct_step_def at_def Let_def)
qed

section \<open>From the size of the output to the sizes of its parts\<close>

lemma length_mem_concat: "x \<in> set xs \<Longrightarrow> length (f x) \<le> length (concat (map f xs))"
  by (induction xs) auto

lemma node_bytes_parts:
  "m \<in> set (preorder n) \<Longrightarrow> length (Name m) \<le> length (node_bytes strOff n) \<and>
     (\<forall>p \<in> set (Properties m). length (PValue p) \<le> length (node_bytes strOff n))"
proof (induction n rule: node_bytes.induct)
  case (1 strOff nm ps cs)
  let ?n = "Node nm ps cs"
  from 1(2) consider "m = ?n" | c where "c \<in> set cs" "m \<in> set (preorder c)" by auto
  then show ?case
  proof cases
    case 1
    have "length (PValue p) \<le> length (node_bytes strOff ?n)" if "p \<in> set ps" for p
    proof -
      have "length (PValue p) \<le> length (prop_bytes strOff p)" by (simp add: prop_bytes_def)
      also have "\<dots> \<le> length (concat (map (prop_bytes strOff) ps))" by (rule length_mem_concat [OF that])
      finally show ?thesis by (simp del: length_concat)
    qed
    then show ?thesis unfolding 1 by simp
  next
    case 2
    have "length (node_bytes strOff c) \<le> length (node_bytes strOff ?n)"
      using length_mem_concat [OF 2(1), of "node_bytes strOff"] by (simp del: length_concat)
    with "1.IH" [OF 2] show ?thesis by force
  qed
qed

lemma sizes_ok_preorder:
  "(\<And>m. m \<in> set (preorder n) \<Longrightarrow> length (Name m) + 4 < 2 ^ 64 \<and> (\<forall>p \<in> set (Properties m). length (PValue p) + 3 < 2 ^ 64))
   \<Longrightarrow> sizes_ok n"
proof (induction n rule: preorder.induct)
  case (1 nm ps cs)
  have "sizes_ok c" if "c \<in> set cs" for c
    by (rule 1(1) [OF that], rule 1(2)) (use that in auto)
  then show ?case using 1(2) [of "Node nm ps cs"] by simp
qed

lemma node_ok_preorder:
  "(\<And>m. m \<in> set (preorder n) \<Longrightarrow> name_ok (Name m) \<and>
      (\<forall>p \<in> set (Properties m). off_ok strs strOff (PName p) \<and> length (PValue p) < 2 ^ 32))
   \<Longrightarrow> node_ok strs strOff n"
proof (induction n rule: preorder.induct)
  case (1 nm ps cs)
  have "node_ok strs strOff c" if "c \<in> set cs" for c
    by (rule 1(1) [OF that], rule 1(2)) (use that in auto)
  then show ?case using 1(2) [of "Node nm ps cs"] by simp
qed

section \<open>The whole file\<close>

lemma decode_encode_header [simp]: "decode_header (encode_header h) = h"
  using word_at_Nil [of _ "[]"]
  by (cases h) (simp add: decode_header_def encode_header_def word_at_Nil word_at_Suc eval_nat_numeral)

lemma length_encode_header [simp]: "length (encode_header h) = 40"
  by (simp add: encode_header_def)

lemma length_encode_entry [simp]: "length (encode_entry e) = 16"
  by (simp add: encode_entry_def)

lemma decode_encode_entry [simp]: "decode_entry (encode_entry e) = e"
  by (cases e) (simp add: decode_entry_def encode_entry_def)

lemma ReadFull_append: "length a = n \<Longrightarrow> ReadFull (a @ rest) n = Ok (a, rest)"
  by (simp add: ReadFull_def)

lemma read_entries_ok:
  "(\<And>e. e \<in> set es \<Longrightarrow> \<not> (Address e = 0 \<and> RESize e = 0)) \<Longrightarrow>
   read_entries (concat (map encode_entry es) @ encode_entry \<lparr>Address = 0, RESize = 0\<rparr> @ rest) acc = Ok (acc @ es)"
proof (induction es arbitrary: acc)
  case Nil
  then show ?case by (subst read_entries.simps) (simp add: ReadFull_append entry_size_def)
next
  case (Cons e es)
  then have "\<not> (Address e = 0 \<and> RESize e = 0)" by simp
  with Cons show ?case
    by (subst read_entries.simps) (simp add: ReadFull_append entry_size_def Let_def)
qed

definition rsv_bytes :: "ReserveEntry list \<Rightarrow> byte list" where
  "rsv_bytes es = concat (map encode_entry es) @ encode_entry \<lparr>Address = 0, RESize = 0\<rparr>"

lemma length_rsv_bytes [simp]: "length (rsv_bytes es) = 16 * (length es + 1)"
  by (induction es) (simp_all add: rsv_bytes_def)

definition fdt_bytes :: "Header \<Rightarrow> ReserveEntry list \<Rightarrow> byte list \<Rightarrow> byte list \<Rightarrow> byte list" where
  "fdt_bytes h es struct strs = encode_header h @ replicate 8 0 @ rsv_bytes es @ struct @ strs"

lemma Write_buffer:
  assumes "RootNode fdt = Some root" "collect_names root = Ok (strs, strOff)" "struct_size root = Ok structSize"
  defines "h \<equiv> layout (FHeader fdt) (length (ReserveEntries fdt)) strs structSize"
  defines "bs \<equiv> fdt_bytes h (ReserveEntries fdt) (node_bytes strOff root @ be32 tokenEnd) strs"
  shows "Write buffer_Write fdt [] = (Ok (), length bs, fdt\<lparr>FHeader := h\<rparr>, bs)"
proof -
  let ?es = "ReserveEntries fdt"
  let ?a = "encode_header h @ replicate 8 0 @ rsv_bytes ?es"
  let ?w = "\<lparr>WW = ?a, WN = length ?a\<rparr>"
  have a: "4 dvd WN ?w" by simp
  have p: "pad4 (WN ?w) = []" by (simp add: pad4_def)
  have "aseq (put_bytes buffer_Write (encode_header h))
      (aseq (put_align buffer_Write 16)
      (aseq (put_bytes buffer_Write (concat (map encode_entry ?es)))
      (aseq (put_bytes buffer_Write (encode_entry \<lparr>Address = 0, RESize = 0\<rparr>)) k))) \<lparr>WW = [], WN = 0\<rparr> = k ?w" for k
    using length_rsv_bytes [of ?es]
    by (simp add: put_bytes_emit aseq_emit aseq_emit' [where a = "put_align buffer_Write 16", OF put_align_emit]
        rsv_bytes_def del: length_rsv_bytes)
  moreover have "aseq (put_align buffer_Write 4) (aseq (writeNode buffer_Write strOff root) k) ?w =
      k \<lparr>WW = ?a @ node_bytes strOff root, WN = length (?a @ node_bytes strOff root)\<rparr>" for k
    using p by (simp add: aseq_align4 aseq_emit aseq_emit' [where a = "writeNode buffer_Write strOff root", OF write_node_emit] add.assoc)
  ultimately show ?thesis
    by (simp add: Write_def assms(1-3) h_def [symmetric] Let_def put_bytes_emit aseq_emit bs_def fdt_bytes_def)
      (simp add: emit_def)
qed

definition names_ok :: "Node \<Rightarrow> bool" where
  "names_ok root \<longleftrightarrow> (\<forall>m \<in> set (preorder root). name_ok (Name m) \<and>
     (\<forall>p \<in> set (Properties m). 0 \<notin> set (str_bytes (PName p))))"

definition header_ok :: "Header \<Rightarrow> bool" where
  "header_ok h \<longleftrightarrow> HMagic h = Magic \<and>
     (Version h = 16 \<or> Version h = 17 \<or> (LastCompVersion h \<le> 17 \<and> Version h > 17))"

definition entries_ok :: "ReserveEntry list \<Rightarrow> bool" where
  "entries_ok es \<longleftrightarrow> (\<forall>e \<in> set es. \<not> (Address e = 0 \<and> RESize e = 0))"

text \<open>The offsets of the header are those of the blocks, when the file is below 1 GiB.\<close>

lemma layout_values:
  fixes h0 :: Header
  assumes S: "structSize = word_of_nat S" and len: "48 + 16 * (k + 1) + S + length strs \<le> 2 ^ 30"
  defines "h \<equiv> layout h0 k strs structSize"
  shows "unat (OffMemRsvmap h) = 48" "unat (OffDtStruct h) = 48 + 16 * (k + 1)"
    "unat (OffDtStrings h) = 48 + 16 * (k + 1) + S" "unat (SizeDtStrings h) = length strs"
    "unat (SizeDtStruct h) = S" "unat (TotalSize h) = 48 + 16 * (k + 1) + S + length strs"
    "header_ok h \<longleftrightarrow> header_ok h0"
proof -
  let ?n = "(k + 1) * 16"
  have "?n + 3 < 2 ^ 64" using len by simp
  note up = up4_eq [OF this]
  have "(word_of_nat k + 1) * word_of_nat 16 = (word_of_nat ?n :: u64)" by (simp add: algebra_simps)
  moreover have "pad4 ?n = []" by (simp add: pad4_def)
  ultimately have e: "ucast (Up ((word_of_nat k + 1) * word_of_nat entry_size) 4) = (word_of_nat ?n :: u32)"
    using up by (simp add: up4_def entry_size_def add_ac)
  have m: "ucast (Up (word_of_nat header_size) 16) = (word_of_nat 48 :: u32)"
    by (simp add: header_size_def Up_def)
  have v: "OffMemRsvmap h = word_of_nat 48" "OffDtStruct h = word_of_nat (48 + ?n)"
    "OffDtStrings h = word_of_nat (48 + ?n + S)" "SizeDtStrings h = word_of_nat (length strs)"
    "SizeDtStruct h = word_of_nat S" "TotalSize h = word_of_nat (48 + ?n + S + length strs)"
    unfolding h_def layout_def Let_def m e S by simp_all
  show "unat (OffMemRsvmap h) = 48" "unat (OffDtStruct h) = 48 + 16 * (k + 1)"
    "unat (OffDtStrings h) = 48 + 16 * (k + 1) + S" "unat (SizeDtStrings h) = length strs"
    "unat (SizeDtStruct h) = S" "unat (TotalSize h) = 48 + 16 * (k + 1) + S + length strs"
    unfolding v using len by (subst unat_of_nat32; simp)+
  show "header_ok h \<longleftrightarrow> header_ok h0" by (simp add: h_def layout_def header_ok_def Let_def)
qed

lemma struct_read_back:
  assumes "node_ok strs strOff root" "length strs < 2 ^ 32"
    and S: "unat (SizeDtStruct h) = length (node_bytes strOff root) + 4" "length (node_bytes strOff root) + 4 < 2 ^ 32"
    and O: "unat (OffDtStruct h) = length pre" "4 dvd length pre"
  shows "readStructBlock h (pre @ (node_bytes strOff root @ be32 tokenEnd) @ post) strs = Ok (Some root)"
proof -
  have "OffDtStruct h mod 4 = 0"
    using O by (simp add: word_unat_eq_iff unat_mod dvd_imp_mod_0)
  moreover have "struct_loop h strs (at (node_bytes strOff root @ be32 tokenEnd) 0 None 0) = Ok (Some root)"
    using loop_node [OF assms(1) _ _ assms(2), of 0 0 None h "be32 tokenEnd"] loop_finish [OF S] by simp
  ultimately show ?thesis using O(1) S(1) by (simp add: readStructBlock_def at_def)
qed

lemma walk_list_Ok: "walk_list (\<lambda>n s. Ok (g n s)) ns s = Ok (fold g ns s)"
  by (induction ns arbitrary: s) auto

text \<open>
  The heart of the round trip, for the file that \<open>Write\<close> produces when its size is below the
  limit \<open>ReadFDT\<close> sets.
\<close>

lemma read_written:
  assumes fdt: "RootNode fdt = Some root" "names_ok root" "header_ok (FHeader fdt)" "entries_ok (ReserveEntries fdt)"
    and w: "Write buffer_Write fdt [] = (r, n, fdt', bs)" and len: "length bs \<le> 2 ^ 30"
  shows "r = Ok () \<and> n = length bs \<and> ReadFDT bs = Ok fdt' \<and> fdt' = fdt\<lparr>FHeader := FHeader fdt'\<rparr> \<and>
    unat (TotalSize (FHeader fdt')) = length bs"
proof -
  define es where "es = ReserveEntries fdt"
  obtain strs strOff where names: "add_names (all_props root) ([], Map.empty) = (strs, strOff)" by fastforce
  have col: "collect_names root = Ok (strs, strOff)" by (simp add: collect_names_eq names)
  obtain structSize where sz: "struct_size root = Ok structSize" by (simp add: struct_size_def Walk_eq walk_list_Ok)
  define h where "h = layout (FHeader fdt) (length es) strs structSize"
  define nb where "nb = node_bytes strOff root"
  from Write_buffer [OF fdt(1) col sz] w have r: "r = Ok ()" "n = length bs" "fdt' = fdt\<lparr>FHeader := h\<rparr>"
    and bs: "bs = fdt_bytes h es (nb @ be32 tokenEnd) strs"
    by (simp_all add: h_def es_def nb_def)
  have l: "length bs = 48 + 16 * (length es + 1) + (length nb + 4) + length strs"
    by (simp add: bs fdt_bytes_def)
  have nbl: "length nb \<le> 2 ^ 30" using l len by simp
  note parts = node_bytes_parts [of _ root strOff, folded nb_def]
  have "sizes_ok root"
  proof (rule sizes_ok_preorder)
    fix m assume "m \<in> set (preorder root)"
    from parts [OF this] nbl show "length (Name m) + 4 < 2 ^ 64 \<and> (\<forall>p \<in> set (Properties m). length (PValue p) + 3 < 2 ^ 64)"
      by fastforce
  qed
  from struct_size_walk [OF this, of 4 strOff] sz have S: "structSize = word_of_nat (length nb + 4)"
    by (simp add: struct_size_def nb_def add.commute)
  have "48 + 16 * (length es + 1) + (length nb + 4) + length strs \<le> 2 ^ 30" using l len by simp
  note lv = layout_values [OF S this, of "FHeader fdt", folded h_def]
  have tab: "tab_ok (strs, strOff)" "\<And>p. p \<in> set (all_props root) \<Longrightarrow> strOff (PName p) \<noteq> None"
    using add_names_ok [of "([], Map.empty)" "all_props root"] by (simp_all add: names tab_ok_def)
  have nok: "node_ok strs strOff root"
  proof (rule node_ok_preorder, intro conjI ballI)
    fix m assume m: "m \<in> set (preorder root)"
    then show "name_ok (Name m)" using fdt(2) by (simp add: names_ok_def)
    fix p assume p: "p \<in> set (Properties m)"
    then have "p \<in> set (all_props root)" using m by (auto simp: all_props_def)
    then obtain off where "strOff (PName p) = Some off" using tab(2) by blast
    with tab(1) fdt(2) m p show "off_ok strs strOff (PName p)"
      by (fastforce simp: off_ok_def tab_ok_def names_ok_def)
    show "length (PValue p) < 2 ^ 32" using parts [OF m] p nbl by fastforce
  qed
  let ?post = "rsv_bytes es @ (nb @ be32 tokenEnd) @ strs"
  have b1: "bs = encode_header h @ replicate 8 0 @ ?post" by (simp add: bs fdt_bytes_def)
  have hd: "readHeader bs = Ok h"
  proof -
    have "\<not> TotalSize h > MaxTotalSize" using lv(6) l len by (simp add: word_less_nat_alt MaxTotalSize_def)
    then show ?thesis
      using lv(7) fdt(3) ReadFull_append [of "encode_header h" 40]
      by (simp add: b1 readHeader_def header_size_def header_ok_def Let_def)
  qed
  have "OffMemRsvmap h = 48" using lv(1) by (simp add: word_unat_eq_iff)
  then have rsv: "readMemoryReservationBlock h bs = Ok es"
    using read_entries_ok [of es "(nb @ be32 tokenEnd) @ strs" "[]"] fdt(4)
    by (simp add: readMemoryReservationBlock_def b1 header_size_def rsv_bytes_def entries_ok_def es_def)
  have "unat (OffMemRsvmap h + word_of_nat (length es + 1) * word_of_nat entry_size) = 48 + 16 * (length es + 1)"
  proof -
    have e: "OffMemRsvmap h + word_of_nat (length es + 1) * word_of_nat entry_size = word_of_nat (48 + 16 * (length es + 1))"
      using \<open>OffMemRsvmap h = 48\<close> by (simp add: entry_size_def algebra_simps)
    show ?thesis unfolding e using l len by (intro unat_of_nat32) simp
  qed
  with lv(2) have chk: "checkLayout h es = Ok ()" by (simp add: checkLayout_def word_less_nat_alt Let_def)
  have "drop (unat (OffDtStrings h)) bs = strs" using lv(3) by (simp add: b1)
  then have str: "readStringsBlock h bs = Ok strs"
    using lv(4) by (simp add: readStringsBlock_def stream_Read_def Let_def)
  have "readStructBlock h ((encode_header h @ replicate 8 0 @ rsv_bytes es) @ (nb @ be32 tokenEnd) @ strs) strs = Ok (Some root)"
    unfolding nb_def
    by (rule struct_read_back [OF nok]) (use lv(2,5) l len in \<open>simp_all add: nb_def\<close>)
  with hd rsv chk str have "ReadFDT bs = Ok \<lparr>FHeader = h, ReserveEntries = es, RootNode = Some root\<rparr>"
    by (simp add: ReadFDT_def b1)
  then show ?thesis using r fdt(1) lv(6) l by (cases fdt) (simp add: es_def)
qed

section \<open>Properties\<close>

text \<open>C5: a device tree that \<open>Write\<close> marshals is read back by \<open>ReadFDT\<close> as the same tree with the
  same reservations, provided names are ASCII without null bytes and the file stays below the
  1 GiB limit; the size returned and the header's total size are the number of bytes written.\<close>

theorem FDT_round_trip:
  assumes "RootNode fdt = Some root" "names_ok root" "header_ok (FHeader fdt)" "entries_ok (ReserveEntries fdt)"
    and "Write buffer_Write fdt [] = (r, n, fdt', bs)" "length bs \<le> 2 ^ 30"
  shows "r = Ok () \<and> n = length bs \<and> ReadFDT bs = Ok fdt' \<and> fdt' = fdt\<lparr>FHeader := FHeader fdt'\<rparr> \<and>
    unat (TotalSize (FHeader fdt')) = length bs"
  by (rule read_written [OF assms])

definition ex_fdt :: FDT where
  "ex_fdt = \<lparr>FHeader = \<lparr>HMagic = Magic, TotalSize = 0, OffDtStruct = 0, OffDtStrings = 0, OffMemRsvmap = 0,
      Version = 17, LastCompVersion = 16, BootCpuidPhys = 0, SizeDtStrings = 0, SizeDtStruct = 0\<rparr>,
    ReserveEntries = [\<lparr>Address = 0x1000, RESize = 0x100\<rparr>],
    RootNode = Some (Node [] [\<lparr>PName = ''model'', PValue = [113, 0]\<rparr>]
      [Node ''cpus'' [] [Node ''cpu@0'' [\<lparr>PName = ''reg'', PValue = [0, 0, 0, 1]\<rparr>] []],
       Node ''memory@1'' [\<lparr>PName = ''reg'', PValue = [1]\<rparr>] []])\<rparr>"

theorem FDT_round_trip_witness:
  "\<exists>n fdt' bs. Write buffer_Write ex_fdt [] = (Ok (), n, fdt', bs) \<and> ReadFDT bs = Ok fdt' \<and>
     RootNode fdt' = RootNode ex_fdt"
proof -
  let ?root = "the (RootNode ex_fdt)"
  have root: "RootNode ex_fdt = Some ?root" by (simp add: ex_fdt_def)
  have nm: "names_ok ?root"
    by (simp add: names_ok_def ex_fdt_def name_ok_def byte_of_def)
  have hd: "header_ok (FHeader ex_fdt)" by (simp add: header_ok_def ex_fdt_def)
  have es: "entries_ok (ReserveEntries ex_fdt)" by (simp add: entries_ok_def ex_fdt_def)
  obtain strs strOff where names: "add_names (all_props ?root) ([], Map.empty) = (strs, strOff)" by fastforce
  have col: "collect_names ?root = Ok (strs, strOff)" by (simp add: collect_names_eq names)
  obtain structSize where sz: "struct_size ?root = Ok structSize" by (simp add: struct_size_def Walk_eq walk_list_Ok)
  note W = Write_buffer [OF root col sz]
  have "length strs = 10" using names by (auto simp: ex_fdt_def all_props_def)
  then have "length (fdt_bytes h (ReserveEntries ex_fdt) (node_bytes strOff ?root @ be32 tokenEnd) strs) \<le> 2 ^ 30" for h
    by (simp add: fdt_bytes_def ex_fdt_def prop_bytes_def pad4_def)
  from FDT_round_trip [OF root nm hd es W this] W show ?thesis by (metis (no_types, lifting) FDT.select_convs(3) FDT.surjective FDT.update_convs(1))
qed

end
