(* ===== verification/LinuxLoad.thy ===== *)
theory LinuxLoad imports KexecLoad FirmwareMap FdtRoundtrip BzKernel begin

text \<open>
  The loaders that put a Linux kernel into kexec segments: the arm64 image header
  (\<open>pkg/boot/image/image.go\<close>), the purgatory (\<open>pkg/boot/purgatory/purg_load.go\<close>) and \<open>KexecLoad\<close> for arm64 and
  amd64 (\<open>pkg/boot/linux/load_linux_arm64.go\<close>, \<open>load_linux_amd64.go\<close>). Files are what reading or mapping them
  gives; the ELF parser, the decompressors and the kernel are parameters.
\<close>

section \<open>The arm64 image header\<close>

datatype image_error = ErrImageRead io_error | ErrBadMagic | ErrBadEndianess

record Arm64Header =
  Code0 :: u32
  Code1 :: u32
  TextOffset :: u64
  ImageSize :: u64
  AFlags :: u64
  Res2 :: u64
  Res3 :: u64
  Res4 :: u64
  AMagic :: u32
  Res5 :: u32

record Image =
  IHeader :: Arm64Header
  IData :: "byte list"

definition arm64_magic :: u32 where "arm64_magic = 0x644d5241"

definition kernelImageSize :: u64 where "kernelImageSize = 16777216"

definition arm64_widths :: "nat list" where
  "arm64_widths = [4, 4, 8, 8, 8, 8, 8, 8, 4, 4]"

definition arm64_of :: "nat list \<Rightarrow> Arm64Header" where
  "arm64_of v = \<lparr>Code0 = word_of_nat (v ! 0), Code1 = word_of_nat (v ! 1), TextOffset = word_of_nat (v ! 2),
     ImageSize = word_of_nat (v ! 3), AFlags = word_of_nat (v ! 4), Res2 = word_of_nat (v ! 5), Res3 = word_of_nat (v ! 6),
     Res4 = word_of_nat (v ! 7), AMagic = word_of_nat (v ! 8), Res5 = word_of_nat (v ! 9)\<rparr>"

definition ParseFromBytes :: "byte list \<Rightarrow> (image_error, Image) res" where
  "ParseFromBytes d =
     (case ReadFull d (sum_list arm64_widths) of
        Err e \<Rightarrow> Err (ErrImageRead e)
      | Panic \<Rightarrow> Panic
      | Ok (bs, _) \<Rightarrow>
          let h = arm64_of (unpack arm64_widths bs) in
          if AMagic h \<noteq> arm64_magic then Err ErrBadMagic
          else
            let h' = (if ImageSize h = 0 then h\<lparr>TextOffset := 0x80000, ImageSize := kernelImageSize\<rparr> else h) in
            if AFlags h' AND 1 \<noteq> 0 then Err ErrBadEndianess
            else Ok \<lparr>IHeader = h', IData = d\<rparr>)"

section \<open>Data in memory\<close>

datatype loader_error =
    LdFile string
  | LdFDT dt_error
  | LdNoChosen
  | LdImage image_error
  | LdKexec kexec_error
  | LdWrite io_error
  | LdLoad load_error
  | LdBz bz_error
  | LdParams io_error
  | LdMemMap fw_error
  | LdElf string
  | LdSmallKernel nat
  | LdProtocol u16
  | LdNotRelocatable
  | LdProgs nat
  | LdNoPurgatory string

fun lift_err :: "('e \<Rightarrow> 'f) \<Rightarrow> ('e, 'a) res \<Rightarrow> ('f, 'a) res" where
  "lift_err f (Ok x) = Ok x"
| "lift_err f (Err e) = Err (f e)"
| "lift_err f Panic = Panic"

lemma lift_err_Ok [simp]: "lift_err f r = Ok x \<longleftrightarrow> r = Ok x"
  by (cases r) auto

text \<open>A new block filled with bytes: \<open>make\<close>, a file read into memory or mapped.\<close>

definition go_bytes :: "allocator \<Rightarrow> heap \<Rightarrow> byte list \<Rightarrow> ('e, heap \<times> gslice) res" where
  "go_bytes alloc h bs =
     (case alloc h (length bs) of
        None \<Rightarrow> Panic
      | Some (p, c) \<Rightarrow>
          Ok (\<lparr>hmem = write_bytes (hmem h) p bs, hblocks = \<lparr>Start = p, Size = c\<rparr> # hblocks h\<rparr>,
              \<lparr>sl_ptr = p, sl_len = word_of_nat (length bs), sl_cap = c\<rparr>))"

text \<open>A file: what \<open>Stat\<close> says of its size, what mapping that many bytes gives, what reading it gives.\<close>

record os_file =
  of_stat :: "(string, nat) res"
  of_map :: "nat \<Rightarrow> (string, byte list) res"
  of_read :: "(string, byte list) res"

definition mmap :: "os_file \<Rightarrow> (string, byte list) res" where
  "mmap f = rbind (of_stat f) (\<lambda>s. if s = 0 then Err ''cannot mmap zero-len file'' else of_map f s)"

definition file_bytes :: "bool \<Rightarrow> os_file \<Rightarrow> (loader_error, byte list) res" where
  "file_bytes mapped f = lift_err LdFile (if mapped then mmap f else of_read f)"

section \<open>Purgatory\<close>

record Purgatory =
  PuName :: string
  PuCode :: "byte list"

text \<open>What \<open>elf.NewFile\<close> gives: the entry point and the program headers, each with its \<open>ReadAt(b, 0)\<close>.\<close>

record elf_seg =
  es_memsz :: u64
  es_filesz :: u64
  es_vaddr :: u64
  es_read :: "nat \<Rightarrow> byte list \<times> string option"

record elf_file =
  ef_entry :: u64
  ef_segs :: "elf_seg list"

text \<open>\<open>Select\<close> returns the new \<open>curPurgatory\<close>.\<close>

definition Select :: "(string \<rightharpoonup> Purgatory) \<Rightarrow> string \<Rightarrow> (loader_error, Purgatory) res" where
  "Select Purgatories name = (case Purgatories name of Some p \<Rightarrow> Ok p | None \<Rightarrow> Err (LdNoPurgatory name))"

definition put_le64 :: "nat \<Rightarrow> u64 \<Rightarrow> byte list \<Rightarrow> (loader_error, byte list) res" where
  "put_le64 off v b = (if off + 8 \<le> length b then Ok (take off b @ le_nat 8 (unat v) @ drop (off + 8) b) else Panic)"

text \<open>The bytes of the purgatory with the entry point and the parameters filled in.\<close>

definition purgatory_bytes :: "elf_seg \<Rightarrow> u64 \<Rightarrow> u64 \<Rightarrow> (loader_error, byte list) res" where
  "purgatory_bytes p entry rsi =
     (let memsz = unat (UpPage (es_memsz p)); n = unat (es_filesz p) in
      if memsz < n then Panic
      else case es_read p n of
          (_, Some e) \<Rightarrow> Err (LdElf e)
        | (bs, None) \<Rightarrow>
            rbind (put_le64 8 entry (take n bs @ replicate (memsz - length (take n bs)) 0)) (put_le64 16 rsi))"

definition purgatory_Load ::
    "allocator \<Rightarrow> (byte list \<Rightarrow> (string, elf_file) res) \<Rightarrow> Purgatory \<Rightarrow> heap \<Rightarrow> Memory \<Rightarrow> u64 \<Rightarrow> u64 \<Rightarrow>
     (loader_error, u64 \<times> heap \<times> Memory) res" where
  "purgatory_Load alloc parse_elf cur h m entry rsi =
     rbind (lift_err LdElf (parse_elf (PuCode cur))) (\<lambda>f.
     (case ef_segs f of
        [p] \<Rightarrow>
          rbind (purgatory_bytes p entry rsi) (\<lambda>b.
          let n = word_of_nat (length b) in
          rbind (go_bytes alloc h b) (\<lambda>(h', d).
          rbind (lift_err LdKexec (ReservePhys m n (RangeFromInterval (es_vaddr p) (es_vaddr p + n)))) (\<lambda>(r, m').
          rbind (lift_err LdKexec (NewSegment d r)) (\<lambda>s.
            Ok (ef_entry f, h', m'\<lparr>MSegments := Segments_Insert (MSegments m') s\<rparr>)))))
      | ps \<Rightarrow> Err (LdProgs (length ps))))"


section \<open>arm64\<close>

record KexecOptions =
  DTB :: string
  MmapKernel :: bool
  MmapRamfs :: bool

definition kernelAlignSize :: u64 where "kernelAlignSize = push_bit 21 1"

text \<open>
  The node \<open>chosen\<close> is shared with the tree: a change of it is a change of the first node of that name.
\<close>

fun update_first :: "(Node \<Rightarrow> bool) \<Rightarrow> (Node \<Rightarrow> Node) \<Rightarrow> Node \<Rightarrow> Node option"
  and update_children :: "(Node \<Rightarrow> bool) \<Rightarrow> (Node \<Rightarrow> Node) \<Rightarrow> Node list \<Rightarrow> Node list option" where
  "update_first f g (Node nm ps cs) =
     (if f (Node nm ps cs) then Some (g (Node nm ps cs))
      else map_option (\<lambda>cs'. Node nm ps cs') (update_children f g cs))"
| "update_children f g [] = None"
| "update_children f g (c # cs) =
     (case update_first f g c of
        Some c' \<Rightarrow> Some (c' # cs)
      | None \<Rightarrow> map_option (\<lambda>cs'. c # cs') (update_children f g cs))"

definition is_chosen :: "Node \<Rightarrow> bool" where "is_chosen n \<longleftrightarrow> Name n = ''chosen''"

definition chosen_update :: "(Node \<Rightarrow> Node) \<Rightarrow> FDT \<Rightarrow> FDT" where
  "chosen_update g fdt = fdt\<lparr>RootNode := (case RootNode fdt of None \<Rightarrow> None
     | Some root \<Rightarrow> (case update_first is_chosen g root of None \<Rightarrow> Some root | Some r \<Rightarrow> Some r))\<rparr>"

definition stale_properties :: "string list" where
  "stale_properties = [''linux,elfcorehdr'', ''linux,usable-memory-range'', ''kaslr-seed'', ''rng-seed'',
     ''linux,initrd-start'', ''linux,initrd-end'']"

definition sanitizeFDT :: "FDT \<Rightarrow> (loader_error, FDT) res" where
  "sanitizeFDT fdt =
     rbind (lift_err LdFDT (FDT_NodeByName fdt ''chosen'')) (\<lambda>chosen.
       case chosen of
         None \<Rightarrow> Err LdNoChosen
       | Some _ \<Rightarrow> Ok (chosen_update (\<lambda>n. fold (\<lambda>p c. fst (RemoveProperty p c)) stale_properties n) fdt))"

definition trampoline :: "u64 \<Rightarrow> u64 \<Rightarrow> u32 list" where
  "trampoline kernelEntry dtbBase =
     [0x580000c4, 0x580000e0, 0xaa1f03e1, 0xaa1f03e2, 0xaa1f03e3, 0xd61f0080,
      ucast (kernelEntry AND 0xffffffff), ucast (drop_bit 32 kernelEntry),
      ucast (dtbBase AND 0xffffffff), ucast (drop_bit 32 dtbBase)]"

definition trampoline_bytes :: "u64 \<Rightarrow> u64 \<Rightarrow> byte list" where
  "trampoline_bytes k d = concat (map (\<lambda>w. le_nat 4 (unat w)) (trampoline k d))"

text \<open>What is written into \<open>chosen\<close> for the next kernel.\<close>

definition boot_properties :: "Range \<Rightarrow> string \<Rightarrow> Node \<Rightarrow> Node" where
  "boot_properties ramfsRange cmdline n =
     (let n1 = fst (UpdateProperty ''linux,initrd-start'' (be64 (Start ramfsRange)) n);
          n2 = fst (UpdateProperty ''linux,initrd-end'' (be64 (Start ramfsRange + Size ramfsRange)) n1)
      in if length cmdline > 0 then fst (UpdateProperty ''bootargs'' (str_bytes cmdline @ [0]) n2)
         else fst (RemoveProperty ''bootargs'' n2))"

text \<open>A segment with data of the program in it: the block it is in and its place.\<close>

definition add_bytes :: "allocator \<Rightarrow> byte list \<Rightarrow> heap \<times> Memory \<Rightarrow> (loader_error, Range \<times> heap \<times> Memory) res" where
  "add_bytes alloc bs hm =
     (case hm of (h, m) \<Rightarrow>
        rbind (go_bytes alloc h bs) (\<lambda>(h', d).
        rbind (lift_err LdKexec (AddKexecSegment m d)) (\<lambda>(r, m'). Ok (r, h', m'))))"

text \<open>
  \<open>KexecLoad\<close> in three parts: reading the device tree and its memory map, placing kernel, initramfs, device
  tree and trampoline, and the call of \<open>kexec.Load\<close>.
\<close>

definition arm64_start :: "(string \<Rightarrow> byte list option) \<Rightarrow> string \<Rightarrow> (loader_error, FDT \<times> Memory) res" where
  "arm64_start open dtb =
     rbind (lift_err LdFDT (LoadFDT open dtb)) (\<lambda>fdt0.
     rbind (sanitizeFDT fdt0) (\<lambda>fdt.
     rbind (lift_err LdFDT (ParseMemoryMapFromFDT fdt \<lparr>MPhys = [], MSegments = []\<rparr>)) (\<lambda>m. Ok (fdt, m))))"

definition arm64_kernel ::
    "allocator \<Rightarrow> heap \<Rightarrow> Memory \<Rightarrow> byte list \<Rightarrow> (loader_error, Range \<times> heap \<times> Memory) res" where
  "arm64_kernel alloc h m kernelBuf =
     rbind (go_bytes alloc h kernelBuf) (\<lambda>(h', d).
     rbind (lift_err LdImage (ParseFromBytes kernelBuf)) (\<lambda>img.
     let ih = IHeader img in
     rbind (lift_err LdKexec (AddKexecSegmentExplicit m d (ImageSize ih + TextOffset ih) (TextOffset ih) kernelAlignSize))
       (\<lambda>(r, m'). Ok (r, h', m'))))"

definition arm64_ramfs ::
    "allocator \<Rightarrow> KexecOptions \<Rightarrow> os_file option \<Rightarrow> heap \<times> Memory \<Rightarrow> (loader_error, Range \<times> heap \<times> Memory) res" where
  "arm64_ramfs alloc opts ramfs hm =
     (case ramfs of
        None \<Rightarrow> (case hm of (h, m) \<Rightarrow>
          rbind (lift_err LdKexec (AddKexecSegment m nil_slice)) (\<lambda>(r, m'). Ok (r, h, m')))
      | Some f \<Rightarrow> rbind (file_bytes (MmapRamfs opts) f) (\<lambda>bs. add_bytes alloc bs hm))"

definition arm64_dtb ::
    "allocator \<Rightarrow> Range \<Rightarrow> string \<Rightarrow> FDT \<Rightarrow> heap \<times> Memory \<Rightarrow> (loader_error, Range \<times> heap \<times> Memory) res" where
  "arm64_dtb alloc ramfsRange cmdline fdt hm =
     (case Write buffer_Write (chosen_update (boot_properties ramfsRange cmdline) fdt) [] of
        (Err e, _) \<Rightarrow> Err (LdWrite e)
      | (Panic, _) \<Rightarrow> Panic
      | (Ok _, _, _, dtbBuf) \<Rightarrow> add_bytes alloc dtbBuf hm)"

definition arm64_place ::
    "allocator \<Rightarrow> KexecOptions \<Rightarrow> heap \<Rightarrow> FDT \<Rightarrow> Memory \<Rightarrow> os_file \<Rightarrow> os_file option \<Rightarrow> string \<Rightarrow>
     (loader_error, u64 \<times> heap \<times> Memory) res" where
  "arm64_place alloc opts h fdt m kfile ramfs cmdline =
     rbind (file_bytes (MmapKernel opts) kfile) (\<lambda>kernelBuf.
     rbind (arm64_kernel alloc h m kernelBuf) (\<lambda>(kernelRange, hm1).
     rbind (arm64_ramfs alloc opts ramfs hm1) (\<lambda>(ramfsRange, hm2).
     rbind (arm64_dtb alloc ramfsRange cmdline fdt hm2) (\<lambda>(dtbRange, hm3).
     rbind (add_bytes alloc (trampoline_bytes (Start kernelRange) (Start dtbRange)) hm3) (\<lambda>(trampolineRange, h4, m4).
       Ok (Start trampolineRange, h4, m4))))))"

definition KexecLoad_arm64 ::
    "'k kexec_syscall \<Rightarrow> allocator \<Rightarrow> (string \<Rightarrow> byte list option) \<Rightarrow> 'k \<Rightarrow> heap \<Rightarrow> os_file \<Rightarrow> os_file option \<Rightarrow> string \<Rightarrow>
     KexecOptions \<Rightarrow> 'k \<times> (loader_error, unit) res" where
  "KexecLoad_arm64 kexec_load alloc open k h kfile ramfs cmdline opts =
     (case rbind (arm64_start open (DTB opts)) (\<lambda>(fdt, m). arm64_place alloc opts h fdt m kfile ramfs cmdline) of
        Err e \<Rightarrow> (k, Err e)
      | Panic \<Rightarrow> (k, Panic)
      | Ok (entry, h', m) \<Rightarrow>
          (case Load kexec_load alloc k h' entry (MSegments m) 0 of (k', r) \<Rightarrow> (k', lift_err LdLoad r)))"


section \<open>amd64\<close>

text \<open>\<open>ReadAt\<close> of a \<open>bytes.Reader\<close>.\<close>

definition bytes_ReadAt :: "byte list \<Rightarrow> u64 \<Rightarrow> nat \<Rightarrow> byte list \<times> string option" where
  "bytes_ReadAt code off n =
     (let bs = take n (drop (unat off) code) in (bs, if length bs < n then Some ''EOF'' else None))"

definition amd64_kernel ::
    "(nat \<Rightarrow> byte list \<Rightarrow> (string, byte list) res) \<Rightarrow> (byte list \<Rightarrow> (string, u64 \<times> Prog list) res) \<Rightarrow> os_file \<Rightarrow>
     (loader_error, LinuxHeader \<times> byte list \<times> u64 \<times> Prog list) res" where
  "amd64_kernel cmd parse_elf kfile =
     rbind (lift_err LdFile (of_read kfile)) (\<lambda>kb.
     rbind (lift_err LdBz (UnmarshalBinary cmd False kb)) (\<lambda>bz.
     (case KernelCode bz of
        None \<Rightarrow> Err (LdSmallKernel 0)
      | Some code \<Rightarrow>
          if length code < 1024 then Err (LdSmallKernel (length code))
          else rbind (lift_err LdElf (parse_elf code)) (\<lambda>(kernelEntry, progs). Ok (bzHeader bz, code, kernelEntry, progs)))))"

definition amd64_ramfs ::
    "allocator \<Rightarrow> os_file option \<Rightarrow> LinuxParams \<Rightarrow> heap \<times> Memory \<Rightarrow> (loader_error, LinuxParams \<times> heap \<times> Memory) res" where
  "amd64_ramfs alloc ramfs lp hm =
     (case ramfs of
        None \<Rightarrow> Ok (lp, hm)
      | Some f \<Rightarrow>
          rbind (lift_err LdFile (of_read f)) (\<lambda>bs.
          rbind (add_bytes alloc bs hm) (\<lambda>(r, hm').
            Ok (lp_set ''Initrdsize'' (unat (ucast (Size r) :: u32)) (lp_set ''Initrdstart'' (unat (ucast (Start r) :: u32)) lp), hm'))))"

definition amd64_cmdline ::
    "allocator \<Rightarrow> string \<Rightarrow> LinuxParams \<Rightarrow> heap \<times> Memory \<Rightarrow> (loader_error, LinuxParams \<times> heap \<times> Memory) res" where
  "amd64_cmdline alloc cmdline lp hm =
     (if length cmdline > 0 then
        rbind (add_bytes alloc (str_bytes cmdline @ [0]) hm) (\<lambda>(r, hm').
          Ok (lp_set ''CmdLineSize'' (unat (ucast (Size r) :: u32)) (lp_set ''CLPtr'' (unat (ucast (Start r) :: u32)) lp), hm'))
      else Ok (lp, hm))"

definition amd64_place ::
    "allocator \<Rightarrow> (byte list \<Rightarrow> (string, elf_file) res) \<Rightarrow> Purgatory \<Rightarrow> heap \<Rightarrow> Memory \<Rightarrow> LinuxParams \<Rightarrow>
     byte list \<Rightarrow> u64 \<Rightarrow> Prog list \<Rightarrow> os_file option \<Rightarrow> string \<Rightarrow> (loader_error, u64 \<times> heap \<times> Memory) res" where
  "amd64_place alloc parse_purg cur h m lp code kernelEntry progs ramfs cmdline =
     rbind (lift_err LdKexec (LoadElfSegments alloc (bytes_ReadAt code) h m progs)) (\<lambda>hm0.
     rbind (amd64_ramfs alloc ramfs lp hm0) (\<lambda>(lp1, hm1).
     rbind (amd64_cmdline alloc cmdline lp1 hm1) (\<lambda>(lp2, h2, m2).
     let linuxParam = LinuxParams_MarshalBinary lp2 in
     rbind (go_bytes alloc h2 linuxParam) (\<lambda>(h3, d).
     rbind (lift_err LdKexec (AddPhysSegment m2 d (RangeFromInterval 0x90000 (word_of_nat (length linuxParam))))) (\<lambda>(setupRange, m3).
       purgatory_Load alloc parse_purg cur h3 m3 kernelEntry (Start setupRange))))))"

definition KexecLoad_amd64 ::
    "'k kexec_syscall \<Rightarrow> allocator \<Rightarrow> (nat \<Rightarrow> byte list \<Rightarrow> (string, byte list) res) \<Rightarrow>
     (byte list \<Rightarrow> (string, u64 \<times> Prog list) res) \<Rightarrow> (byte list \<Rightarrow> (string, elf_file) res) \<Rightarrow> Purgatory \<Rightarrow>
     (string, byte list) res \<Rightarrow> (ranges_map \<Rightarrow> ranges_map) \<Rightarrow> visit list \<Rightarrow> 'k \<Rightarrow> heap \<Rightarrow> os_file \<Rightarrow> os_file option \<Rightarrow> string \<Rightarrow>
     'k \<times> (loader_error, unit) res" where
  "KexecLoad_amd64 kexec_load alloc cmd parse_elf parse_purg cur boot_params iteration memmap k h kfile ramfs cmdline =
     (case
        rbind (lift_err LdFile boot_params) (\<lambda>bp.
        rbind (lift_err LdParams (LinuxParams_UnmarshalBinary bp)) (\<lambda>lp.
        rbind (amd64_kernel cmd parse_elf kfile) (\<lambda>(hd, code, kernelEntry, progs).
        rbind (lift_err LdMemMap (Memory_ParseMemoryMap iteration memmap \<lparr>MPhys = [], MSegments = []\<rparr>)) (\<lambda>m.
          if lhProtocolversion hd < 0x205 then Err (LdProtocol (lhProtocolversion hd))
          else if lhRelocatableKernel hd = 0 then Err LdNotRelocatable
          else amd64_place alloc parse_purg cur h m lp code kernelEntry progs ramfs cmdline))))
      of
        Err e \<Rightarrow> (k, Err e)
      | Panic \<Rightarrow> (k, Panic)
      | Ok (entry, h', m) \<Rightarrow>
          (case Load kexec_load alloc k h' entry (MSegments m) 0 of (k', r) \<Rightarrow> (k', lift_err LdLoad r)))"

end
