(* ===== verification/LinuxProof.thy ===== *)
theory LinuxProof imports LinuxLoad begin

text \<open>
  What the arm64 loader hands to the kernel: every buffer it places stays in memory where the segments say.
\<close>

section \<open>Placed bytes\<close>

text \<open>The first page of a process is never mapped, so no block lies in it.\<close>

definition alloc_high :: "allocator \<Rightarrow> bool" where
  "alloc_high alloc \<longleftrightarrow> (\<forall>h n p c. alloc h n = Some (p, c) \<longrightarrow> 4096 \<le> unat p)"

definition load_inv :: "heap \<Rightarrow> Memory \<Rightarrow> bool" where
  "load_inv h m \<longleftrightarrow> mem_inv m \<and> segs_ok h (MSegments m)"

text \<open>Some segment loads the bytes \<open>bs\<close> at the start of the range \<open>r\<close>.\<close>

definition holds :: "heap \<Rightarrow> Memory \<Rightarrow> Range \<Rightarrow> byte list \<Rightarrow> bool" where
  "holds h m r bs \<longleftrightarrow> (\<exists>s \<in> set (MSegments m). Phys s = r \<and> unat (Size (Buf s)) = length bs \<and>
     gbytes h (toSlice (Buf s)) = bs \<and> length bs \<le> unat (Size r))"

lemma go_bytes_Ok:
  assumes "alloc_ok alloc" "alloc_high alloc" "go_bytes alloc h bs = Ok (h', d)"
  shows "agrees h h'" "gbytes h' d = bs" "4096 \<le> unat (sl_ptr d)" "unat (sl_len d) = length bs"
    "pts \<lparr>Start = sl_ptr d, Size = sl_len d\<rparr> \<subseteq> live h'" "valid_range \<lparr>Start = sl_ptr d, Size = sl_len d\<rparr>"
    "length bs + 4096 \<le> 2 ^ 64"
proof -
  obtain p c where a: "alloc h (length bs) = Some (p, c)"
    and h': "h' = \<lparr>hmem = write_bytes (hmem h) p bs, hblocks = \<lparr>Start = p, Size = c\<rparr> # hblocks h\<rparr>"
    and d: "d = \<lparr>sl_ptr = p, sl_len = word_of_nat (length bs), sl_cap = c\<rparr>"
    using assms(3) by (auto simp: go_bytes_def split: option.splits)
  have ok: "length bs \<le> unat c" "valid_range \<lparr>Start = p, Size = c\<rparr>" "pts \<lparr>Start = p, Size = c\<rparr> \<inter> live h = {}" "4096 \<le> unat p"
    using assms(1,2) a unfolding alloc_ok_def alloc_high_def live_def by blast+
  have v: "unat p + unat c < 2 ^ 64" using ok(2) by (simp add: valid_range_def)
  have l: "length bs < 2 ^ 64" using ok(1) v by simp
  show "length bs + 4096 \<le> 2 ^ 64" using ok(1,4) v by simp
  show n: "unat (sl_len d) = length bs" using l by (simp add: d unat_of_nat64)
  show "4096 \<le> unat (sl_ptr d)" using ok(4) by (simp add: d)
  show "valid_range \<lparr>Start = sl_ptr d, Size = sl_len d\<rparr>" using n ok(1) v by (simp add: d valid_range_def)
  show "gbytes h' d = bs" unfolding d by (rule gbytes_fresh [OF l]) (simp add: h')
  have "hmem h' q = hmem h q" if "q \<in> live h" for q
  proof -
    have "q \<notin> pts \<lparr>Start = p, Size = c\<rparr>" using ok(3) that by blast
    from write_block_out [OF ok(2) _ this, of 0 bs] ok(1) show ?thesis by (simp add: h')
  qed
  moreover have "live h' = pts \<lparr>Start = p, Size = c\<rparr> \<union> live h" by (simp add: live_def h' Pts_def)
  ultimately show "agrees h h'" unfolding agrees_def by blast
  have "pts \<lparr>Start = sl_ptr d, Size = sl_len d\<rparr> \<subseteq> pts \<lparr>Start = p, Size = c\<rparr>"
  proof
    fix q assume "q \<in> pts \<lparr>Start = sl_ptr d, Size = sl_len d\<rparr>"
    moreover have "unat (End \<lparr>Start = p, Size = c\<rparr>) = unat p + unat c" using ok(2) by (simp add: unat_End)
    moreover have "unat (End \<lparr>Start = sl_ptr d, Size = sl_len d\<rparr>) = unat p + length bs"
      using n ok(1) v by (subst unat_End) (simp_all add: valid_range_def d)
    ultimately show "q \<in> pts \<lparr>Start = p, Size = c\<rparr>" using ok(1) by (simp add: word_less_nat_alt word_le_nat_alt d)
  qed
  then show "pts \<lparr>Start = sl_ptr d, Size = sl_len d\<rparr> \<subseteq> live h'"
    using \<open>live h' = _\<close> by blast
qed

lemma segs_ok_agrees: "agrees h h' \<Longrightarrow> segs_ok h segs \<Longrightarrow> segs_ok h' segs"
  by (auto simp: segs_ok_def agrees_def simp del: mem_pts)

lemma holds_mono:
  assumes "holds h m r bs" "agrees h h'" "segs_ok h (MSegments m)" "set (MSegments m) \<subseteq> set (MSegments m')"
  shows "holds h' m' r bs"
proof -
  obtain s where s: "s \<in> set (MSegments m)" "Phys s = r" "unat (Size (Buf s)) = length bs"
      "gbytes h (toSlice (Buf s)) = bs" "length bs \<le> unat (Size r)"
    using assms(1) by (auto simp: holds_def)
  have ok: "valid_range (Buf s)" "pts (Buf s) \<subseteq> live h" using assms(3) s(1) by (auto simp: segs_ok_def seg_ok_def simp del: mem_pts)
  have "gbytes h' (toSlice (Buf s)) = gbytes h (toSlice (Buf s))"
    by (rule agrees_gbytes [OF assms(2)]) (use range_pts [OF ok(1)] ok(2) in \<open>auto simp: toSlice_def simp del: mem_pts\<close>)
  with s assms(4) show ?thesis unfolding holds_def by auto
qed

lemma holds_image:
  assumes "mem_inv m" "segs_ok h (MSegments m)" "holds h m r bs" "i < length bs"
  shows "image h (MSegments m) (Start r + word_of_nat i) = Some (bs ! i)" "Start r + word_of_nat i \<in> Pts (Segments_Phys (MSegments m))"
proof -
  obtain s where s: "s \<in> set (MSegments m)" "Phys s = r" "unat (Size (Buf s)) = length bs"
      "gbytes h (toSlice (Buf s)) = bs" "length bs \<le> unat (Size r)"
    using assms(3) by (auto simp: holds_def)
  have v: "valid_range r" using assms(2) s(1,2) by (auto simp: segs_ok_def seg_ok_def)
  have p: "Start r + word_of_nat i \<in> pts (Phys s)" using range_pts [OF v] s(2,5) assms(4) by simp
  have "\<forall>w :: u64. unat w < 2 ^ 64" by simp
  then have "i < 2 ^ 64" using s(3) assms(4) by (metis order_less_trans)
  then have i: "unat (word_of_nat i :: u64) = i" by (rule unat_of_nat64)
  have "seg_byte h s (Start r + word_of_nat i) = bs ! i"
  proof -
    have "word_of_nat i < Size (Buf s)" using i s(3) assms(4) by (simp add: word_less_nat_alt)
    moreover have "gbytes h (toSlice (Buf s)) ! i = hmem h (Start (Buf s) + word_of_nat i)"
      using s(3) assms(4) by (simp add: gbytes_def toSlice_def)
    ultimately show ?thesis using s(2,4) by (simp add: seg_byte_def Let_def)
  qed
  then show "image h (MSegments m) (Start r + word_of_nat i) = Some (bs ! i)"
    using image_iff s(1) p assms(1) unfolding mem_inv_def by blast
  show "Start r + word_of_nat i \<in> Pts (Segments_Phys (MSegments m))"
    using p s(1) by (auto simp: Pts_def Segments_Phys_def simp del: mem_pts)
qed

lemma set_Insert: "set (MSegments (m\<lparr>MSegments := Segments_Insert (MSegments m) s\<rparr>)) = insert s (set (MSegments m))"
  by (metis Memory.select_convs(2) Memory.surjective Memory.update_convs(2) mset_Insert set_mset_add_mset_insert set_mset_mset)

text \<open>A new segment with a new block in a free range keeps what was placed before.\<close>

lemma insert_segment:
  assumes "alloc_ok alloc" "alloc_high alloc" "go_bytes alloc h bs = Ok (h', d)" "load_inv h m"
    and "NewSegment d r = Ok s" "free_range m r" "length bs \<le> unat (Size r)"
    and m': "m' = m\<lparr>MSegments := Segments_Insert (MSegments m) s\<rparr>"
  shows "load_inv h' m'" "holds h' m' r bs" "agrees h h'" "set (MSegments m) \<subseteq> set (MSegments m')" "MPhys m' = MPhys m"
proof -
  note g = go_bytes_Ok [OF assms(1-3)]
  show "agrees h h'" by (rule g(1))
  show sub: "set (MSegments m) \<subseteq> set (MSegments m')" unfolding m' set_Insert by blast
  show "MPhys m' = MPhys m" by (simp add: m')
  have s: "s = \<lparr>Buf = \<lparr>Start = sl_ptr d, Size = sl_len d\<rparr>, Phys = r\<rparr>" "sl_len d \<noteq> 0"
    using assms(5) g(3) by (auto simp: NewSegment_def split: if_splits)
  have "seg_ok s"
    using assms(6,7) g(3,4,6) s by (auto simp: seg_ok_def free_range_def word_le_nat_alt unat_eq_0)
  then have "segs_ok h' (MSegments m')"
    using segs_ok_agrees [OF g(1)] assms(4) g(5) s(1) unfolding load_inv_def segs_ok_def m' set_Insert by auto
  moreover have "mem_inv m'"
    unfolding m' by (rule mem_inv_Insert) (use assms(4,6) s(1) in \<open>simp_all add: load_inv_def\<close>)
  ultimately show "load_inv h' m'" by (simp add: load_inv_def)
  have "gbytes h' (toSlice (Buf s)) = bs" using g(2) by (simp add: s(1) toSlice_def gbytes_def)
  moreover have "s \<in> set (MSegments m')" unfolding m' set_Insert by simp
  ultimately show "holds h' m' r bs"
    unfolding holds_def using s(1) g(4) assms(7) by (intro bexI [of _ s]) simp_all
qed

lemma add_bytes_placed:
  assumes "alloc_ok alloc" "alloc_high alloc" "load_inv h m" "add_bytes alloc bs (h, m) = Ok (r, h', m')"
  shows "load_inv h' m' \<and> holds h' m' r bs \<and> agrees h h' \<and> set (MSegments m) \<subseteq> set (MSegments m')"
proof -
  obtain d where g: "(go_bytes alloc h bs :: (loader_error, heap \<times> gslice) res) = Ok (h', d)" and a: "AddKexecSegment m d = Ok (r, m')"
    using assms(4) by (auto simp: add_bytes_def)
  obtain s where n: "NewSegment d r = Ok s" and m': "m' = m\<lparr>MSegments := Segments_Insert (MSegments m) s\<rparr>"
    using a by (auto simp: AddKexecSegment_def)
  have "mem_inv m" using assms(3) by (simp add: load_inv_def)
  note c = AddKexecSegment_correct [OF this a]
  note gb = go_bytes_Ok [OF assms(1,2) g]
  have "unat (sl_len d) + 4095 < 2 ^ 64" using gb(4,7) by simp
  from UpPage_ge [OF this] have "length bs \<le> unat (Size r)" using c(2) gb(4) by simp
  from insert_segment [OF assms(1,2) g assms(3) n c(1) this m'] show ?thesis by blast
qed

lemma holds_kept:
  assumes "holds h m r0 b0" "load_inv h m" "agrees h h'" "set (MSegments m) \<subseteq> set (MSegments m')"
  shows "holds h' m' r0 b0"
  using holds_mono [OF assms(1,3) _ assms(4)] assms(2) by (simp add: load_inv_def)

text \<open>
  What the code leaves open for a kernel image: its sizes do not wrap around, and if it has a text offset, the range that
  is found is still free when it is moved by it (\<open>AddKexecSegmentExplicit\<close> does not look again).
\<close>

definition kernel_fits :: "Memory \<Rightarrow> byte list \<Rightarrow> bool" where
  "kernel_fits m kb \<longleftrightarrow> (\<forall>img off sz. ParseFromBytes kb = Ok img \<longrightarrow> off = TextOffset (IHeader img) \<longrightarrow> sz = ImageSize (IHeader img) \<longrightarrow>
     unat sz + unat off < 2 ^ 63 \<and>
     (off \<noteq> 0 \<longrightarrow> (\<forall>r. Memory_FindSpace m (sz + off) kernelAlignSize = Ok r \<longrightarrow> free_range m (r\<lparr>Start := Start r + off\<rparr>))))"

lemma arm64_kernel_placed:
  assumes "alloc_ok alloc" "alloc_high alloc" "load_inv h m" "arm64_kernel alloc h m kb = Ok (r, h', m')" "kernel_fits m kb"
  shows "load_inv h' m' \<and> holds h' m' r kb"
proof -
  obtain d img where g: "(go_bytes alloc h kb :: (loader_error, heap \<times> gslice) res) = Ok (h', d)" and i: "ParseFromBytes kb = Ok img"
    and a: "AddKexecSegmentExplicit m d (ImageSize (IHeader img) + TextOffset (IHeader img)) (TextOffset (IHeader img)) kernelAlignSize = Ok (r, m')"
    using assms(4) by (auto simp: arm64_kernel_def Let_def)
  let ?off = "TextOffset (IHeader img)" and ?sz = "ImageSize (IHeader img) + TextOffset (IHeader img)"
  have t: "unat (ImageSize (IHeader img)) + unat ?off < 2 ^ 63"
    and moved: "\<And>r. ?off \<noteq> 0 \<Longrightarrow> Memory_FindSpace m ?sz kernelAlignSize = Ok r \<Longrightarrow> free_range m (r\<lparr>Start := Start r + ?off\<rparr>)"
    using assms(5) i unfolding kernel_fits_def by blast+
  from a obtain r0 s where f: "Memory_FindSpace m ?sz kernelAlignSize = Ok r0" and r: "r = r0\<lparr>Start := Start r0 + ?off\<rparr>"
    and n: "NewSegment d r = Ok s" and m': "m' = m\<lparr>MSegments := Segments_Insert (MSegments m) s\<rparr>" and le: "\<not> ?sz < sl_len d"
    by (auto simp: AddKexecSegmentExplicit_def Let_def split: if_splits)
  have "mem_inv m" using assms(3) by (simp add: load_inv_def)
  note ff = Memory_FindSpace_free [OF this f]
  have free: "free_range m r" using moved [OF _ f] ff(1) r by (cases "?off = 0") simp_all
  note gb = go_bytes_Ok [OF assms(1,2) g]
  have "kernelAlignSize \<noteq> 0" by (simp add: kernelAlignSize_def)
  then have sz: "Size r = Up ?sz kernelAlignSize" using ff(2) r by simp
  have u: "unat ?sz = unat (ImageSize (IHeader img)) + unat ?off" using t by (simp add: unat_word_ariths)
  have "unat ?sz \<le> unat (Up ?sz (2 ^ 21))" by (rule Up_ge) (use t u in simp_all)
  moreover have "kernelAlignSize = 2 ^ 21" by (simp add: kernelAlignSize_def)
  ultimately have "length kb \<le> unat (Size r)" using sz le gb(4) by (simp add: word_less_nat_alt)
  from insert_segment [OF assms(1,2) g assms(3) n free this m'] show ?thesis by blast
qed

section \<open>The tree handed on\<close>

definition flat :: "Node \<Rightarrow> string \<times> Property list" where
  "flat n = (Name n, Properties n)"

text \<open>The node changed is the one a search for \<open>chosen\<close> finds, before and afterwards; all other nodes keep
  their names and properties.\<close>

definition keeps_shape :: "(Node \<Rightarrow> Node) \<Rightarrow> bool" where
  "keeps_shape g \<longleftrightarrow> (\<forall>n. Name (g n) = Name n \<and> Children (g n) = Children n)"

inductive node_replaced :: "Node \<Rightarrow> Node \<Rightarrow> Node \<Rightarrow> Node \<Rightarrow> bool" for x y where
  here: "node_replaced x y x y"
| below: "node_replaced x y c c' \<Longrightarrow> node_replaced x y (Node nm ps (cs @ c # ds)) (Node nm ps (cs @ c' # ds))"

text \<open>Both trees have the same nodes, names and properties in preorder but for the one node.\<close>

lemma node_replaced_flat:
  assumes "node_replaced x y n n'" "Children y = Children x"
  shows "\<exists>A B. map flat (preorder n) = A @ flat x # B \<and> map flat (preorder n') = A @ flat y # B"
  using assms
proof induction
  case here
  then show ?case
    by (cases x; cases y) (auto intro: exI [of _ "[]"])
next
  case (below c c' nm ps cs ds)
  then obtain A B where "map flat (preorder c) = A @ flat x # B" "map flat (preorder c') = A @ flat y # B" by blast
  then have "map flat (preorder (Node nm ps (cs @ c # ds))) =
      ((nm, ps) # map flat (concat (map preorder cs)) @ A) @ flat x # B @ map flat (concat (map preorder ds))"
    "map flat (preorder (Node nm ps (cs @ c' # ds))) =
      ((nm, ps) # map flat (concat (map preorder cs)) @ A) @ flat y # B @ map flat (concat (map preorder ds))"
    by (simp_all add: flat_def)
  then show ?case by blast
qed

lemma update_first_find:
  "keeps_shape g \<Longrightarrow> update_first is_chosen g n = Some n' \<Longrightarrow> \<exists>x. find is_chosen (preorder n) = Some x \<and>
      find is_chosen (preorder n') = Some (g x) \<and> node_replaced x (g x) n n'"
  "keeps_shape g \<Longrightarrow> update_first is_chosen g n = None \<Longrightarrow> find is_chosen (preorder n) = None"
  "keeps_shape g \<Longrightarrow> update_children is_chosen g cs = Some cs' \<Longrightarrow> \<exists>x c c' ds es. find is_chosen (concat (map preorder cs)) = Some x \<and>
      find is_chosen (concat (map preorder cs')) = Some (g x) \<and> node_replaced x (g x) c c' \<and> cs = ds @ c # es \<and> cs' = ds @ c' # es"
  "keeps_shape g \<Longrightarrow> update_children is_chosen g cs = None \<Longrightarrow> find is_chosen (concat (map preorder cs)) = None"
proof (induction is_chosen g n and is_chosen g cs arbitrary: n' and cs' rule: update_first_update_children.induct)
  case (1 g nm ps cs)
  note IH = 1
  {
    case 1
    show ?case
    proof (cases "is_chosen (Node nm ps cs)")
      case True
      obtain nm2 ps2 cs2 where g: "g (Node nm ps cs) = Node nm2 ps2 cs2" by (cases "g (Node nm ps cs)") auto
      then have e: "nm2 = nm" "cs2 = cs"
        using 1(1) unfolding keeps_shape_def by (metis Node.sel(1), metis Node.sel(3))
      have n': "n' = Node nm ps2 cs" using 1(2) True g e by simp
      moreover have "is_chosen (Node nm ps2 cs)" using True by (simp add: is_chosen_def)
      ultimately show ?thesis using True g e
        by (intro exI [of _ "Node nm ps cs"]) (simp add: node_replaced.here)
    next
      case False
      then obtain cs' where c: "update_children is_chosen g cs = Some cs'" "n' = Node nm ps cs'" using 1 by auto
      from IH(1) [OF False 1(1) c(1)] obtain x d d' ds es where x: "find is_chosen (concat (map preorder cs)) = Some x"
        "find is_chosen (concat (map preorder cs')) = Some (g x)" "node_replaced x (g x) d d'" "cs = ds @ d # es" "cs' = ds @ d' # es"
        by blast
      have "\<not> is_chosen (Node nm ps cs')" using False by (simp add: is_chosen_def)
      then show ?thesis using x(1,2) False c(2) node_replaced.below [OF x(3), of nm ps ds es] x(4,5)
        by (intro exI [of _ x]) simp
    qed
  next
    case 2
    then show ?case using IH(2) by (auto split: if_splits)
  }
next
  case (2 g)
  {
    case 1
    then show ?case by simp
  next
    case 2
    then show ?case by simp
  }
next
  case (3 g c cs)
  note IH = 3
  {
    case 1
    show ?case
    proof (cases "update_first is_chosen g c")
      case None
      then obtain cs2 where c: "update_children is_chosen g cs = Some cs2" "cs' = c # cs2" using 1 by auto
      from IH(3) [OF None 1(1) c(1)] obtain x d d' ds es where x: "find is_chosen (concat (map preorder cs)) = Some x"
        "find is_chosen (concat (map preorder cs2)) = Some (g x)" "node_replaced x (g x) d d'" "cs = ds @ d # es" "cs2 = ds @ d' # es"
        by blast
      have "c # cs = (c # ds) @ d # es" "c # cs2 = (c # ds) @ d' # es" using x(4,5) by simp_all
      moreover have "find is_chosen (concat (map preorder (c # cs))) = Some x" "find is_chosen (concat (map preorder (c # cs2))) = Some (g x)"
        using x(1,2) IH(2) [OF 1(1) None] by (simp_all add: find_append)
      ultimately show ?thesis using x(3) c(2) by blast
    next
      case (Some c')
      from IH(1) [OF 1(1) Some] obtain x where x: "find is_chosen (preorder c) = Some x"
        "find is_chosen (preorder c') = Some (g x)" "node_replaced x (g x) c c'" by blast
      have "cs' = c' # cs" using Some 1(2) by simp
      moreover have "c # cs = [] @ c # cs" "c' # cs = [] @ c' # cs" by simp_all
      moreover have "find is_chosen (concat (map preorder (c # cs))) = Some x" "find is_chosen (concat (map preorder (c' # cs))) = Some (g x)"
        using x(1,2) by (simp_all add: find_append)
      ultimately show ?thesis using x(3) by blast
    qed
  next
    case 2
    then show ?case using IH(2,4) by (auto simp: find_append split: option.splits)
  }
qed

lemma names_ok_flat:
  "names_ok root \<longleftrightarrow> (\<forall>(nm, ps) \<in> set (map flat (preorder root)). name_ok nm \<and> (\<forall>p \<in> set ps. 0 \<notin> set (str_bytes (PName p))))"
  by (auto simp: names_ok_def flat_def)

lemma Update_shape:
  "Name (fst (UpdateProperty nm v n)) = Name n" "Children (fst (UpdateProperty nm v n)) = Children n"
  "PName ` set (Properties (fst (UpdateProperty nm v n))) \<subseteq> insert nm (PName ` set (Properties n))"
proof -
  show "Name (fst (UpdateProperty nm v n)) = Name n" "Children (fst (UpdateProperty nm v n)) = Children n"
    by (auto simp: UpdateProperty_def split: option.splits)
  show "PName ` set (Properties (fst (UpdateProperty nm v n))) \<subseteq> insert nm (PName ` set (Properties n))"
  proof (cases "look_property nm (Properties n)")
    case (Some i)
    have "map PName ((Properties n)[i := (Properties n ! i)\<lparr>PValue := v\<rparr>]) = map PName (Properties n)"
      using look_property_Some [OF Some] by (simp add: map_update list_update_same_conv)
    then have "PName ` set ((Properties n)[i := (Properties n ! i)\<lparr>PValue := v\<rparr>]) = PName ` set (Properties n)"
      by (metis set_map)
    then show ?thesis using Some by (auto simp: UpdateProperty_def)
  qed (auto simp: UpdateProperty_def)
qed

lemma Remove_shape:
  "Name (fst (RemoveProperty nm n)) = Name n" "Children (fst (RemoveProperty nm n)) = Children n"
  "PName ` set (Properties (fst (RemoveProperty nm n))) \<subseteq> PName ` set (Properties n)"
proof -
  show "Name (fst (RemoveProperty nm n)) = Name n" "Children (fst (RemoveProperty nm n)) = Children n"
    by (auto simp: RemoveProperty_def Let_def split: option.splits)
  have "set (Properties (fst (RemoveProperty nm n))) \<subseteq> set (Properties n)"
  proof (cases "look_property nm (Properties n)")
    case (Some i)
    let ?ps = "Properties n" and ?l = "length (Properties n) - 1"
    have l: "?ps ! ?l \<in> set ?ps" using look_property_Some [OF Some] by (intro nth_mem) auto
    have "set (take k (?ps[i := ?ps ! ?l])) \<subseteq> set ?ps" for k
      using l set_take_subset [of k "?ps[i := ?ps ! ?l]"] set_update_subset_insert [of ?ps i "?ps ! ?l"] by blast
    then show ?thesis using Some by (auto simp: RemoveProperty_def Let_def dest: in_set_takeD split: if_splits)
  qed (simp add: RemoveProperty_def)
  then show "PName ` set (Properties (fst (RemoveProperty nm n))) \<subseteq> PName ` set (Properties n)" by blast
qed

lemma boot_shape:
  "keeps_shape (boot_properties r cmdline)"
  "PName ` set (Properties (boot_properties r cmdline n)) \<subseteq>
     {''linux,initrd-start'', ''linux,initrd-end'', ''bootargs''} \<union> PName ` set (Properties n)"
proof -
  show "keeps_shape (boot_properties r cmdline)"
    by (simp add: keeps_shape_def boot_properties_def Let_def Update_shape(1,2) Remove_shape(1,2))
  show "PName ` set (Properties (boot_properties r cmdline n)) \<subseteq>
     {''linux,initrd-start'', ''linux,initrd-end'', ''bootargs''} \<union> PName ` set (Properties n)"
    using Update_shape(3) Remove_shape(3) unfolding boot_properties_def Let_def
    by (smt (verit) Un_insert_left insert_subset subset_trans subset_insertI2 sup_bot_left insert_mono insert_commute)
qed

text \<open>In a node whose properties have distinct names, removing one leaves the others as they are.\<close>

lemma look_property_distinct:
  "distinct (map PName ps) \<Longrightarrow> (case look_property nm ps of None \<Rightarrow> None | Some i \<Rightarrow> Some (ps ! i)) = Some p \<longleftrightarrow> p \<in> set ps \<and> PName p = nm"
  using look_property_Some [of nm ps] look_property_None [of nm ps]
  by (auto split: option.splits) (metis distinct_conv_nth in_set_conv_nth length_map nth_map)

lemma Look_distinct:
  assumes "distinct (map PName (Properties n))"
  shows "LookProperty nm n = Some p \<longleftrightarrow> p \<in> set (Properties n) \<and> PName p = nm"
  using look_property_distinct [OF assms, of nm p] by (auto simp: LookProperty_def split: option.splits)

lemma Remove_view:
  assumes d: "distinct (map PName (Properties n))"
  shows "LookProperty other (fst (RemoveProperty nm n)) = (if other = nm then None else LookProperty other n)"
proof -
  obtain n' found where r: "RemoveProperty nm n = (n', found)" by (cases "RemoveProperty nm n")
  show ?thesis
  proof (cases found)
    case True
    then obtain p where p: "LookProperty nm n = Some p" "PName p = nm" "mset (Properties n') = mset (Properties n) - {# p #}"
      using RemoveProperty_one [OF r] by blast
    have m: "p \<in> set (Properties n)" using Look_distinct [OF d, of nm p] p(1) by simp
    then have e: "mset (Properties n) = add_mset p (mset (Properties n'))" using p(3) by simp
    then have "mset (map PName (Properties n)) = mset (map PName (p # Properties n'))" by simp
    with d have "distinct (map PName (p # Properties n'))" using mset_eq_imp_distinct_iff by blast
    then have d': "distinct (map PName (Properties n'))" "nm \<notin> PName ` set (Properties n')" using p(2) by auto
    have s: "set (Properties n) = insert p (set (Properties n'))" using e by (metis set_mset_add_mset_insert set_mset_mset)
    have ne: "\<forall>q \<in> set (Properties n'). PName q \<noteq> nm" using d'(2) by (metis imageI)
    have "LookProperty other n' = Some q \<longleftrightarrow> (if other = nm then None else LookProperty other n) = Some q" for q
      using Look_distinct [OF d, of other q] Look_distinct [OF d'(1), of other q] ne p(2) s by auto
    then show ?thesis unfolding r fst_conv by (metis not_None_eq)
  next
    case False
    then have "n' = n" "nm \<notin> PName ` set (Properties n)" using RemoveProperty_one [OF r] by blast+
    moreover from this have "LookProperty nm n = None"
      using Look_distinct [OF d] by (metis imageI option.exhaust)
    ultimately show ?thesis by (simp add: r)
  qed
qed

lemma Update_distinct:
  assumes "distinct (map PName (Properties n))"
  shows "distinct (map PName (Properties (fst (UpdateProperty nm v n))))"
proof (cases "look_property nm (Properties n)")
  case None
  then show ?thesis using assms look_property_None [of nm "Properties n"] by (auto simp: UpdateProperty_def)
next
  case (Some i)
  have "map PName ((Properties n)[i := (Properties n ! i)\<lparr>PValue := v\<rparr>]) = map PName (Properties n)"
    using look_property_Some [OF Some] by (simp add: map_update list_update_same_conv)
  then show ?thesis using assms Some by (simp add: UpdateProperty_def)
qed

text \<open>Every property of \<open>chosen\<close> after the update.\<close>

lemma boot_values:
  assumes "cmdline = [] \<Longrightarrow> distinct (map PName (Properties n))"
  shows "map_option PValue (LookProperty nm (boot_properties r cmdline n)) =
    (if nm = ''bootargs'' then (if cmdline = [] then None else Some (str_bytes cmdline @ [0]))
     else if nm = ''linux,initrd-end'' then Some (be64 (Start r + Size r))
     else if nm = ''linux,initrd-start'' then Some (be64 (Start r))
     else map_option PValue (LookProperty nm n))"
proof -
  note u = UpdateProperty_view [OF surjective_pairing, THEN conjunct1]
  show ?thesis
  proof (cases "cmdline = []")
    case True
    let ?n2 = "fst (UpdateProperty ''linux,initrd-end'' (be64 (Start r + Size r)) (fst (UpdateProperty ''linux,initrd-start'' (be64 (Start r)) n)))"
    have d: "distinct (map PName (Properties ?n2))" using assms [OF True] by (intro Update_distinct)
    show ?thesis using True by (simp add: boot_properties_def Let_def Remove_view [OF d] u)
  next
    case False
    then show ?thesis by (simp add: boot_properties_def Let_def u)
  qed
qed

section \<open>What the kernel gets\<close>

definition loads :: "heap \<Rightarrow> Segments \<Rightarrow> u64 \<Rightarrow> byte list \<Rightarrow> bool" where
  "loads h segs a bs \<longleftrightarrow> (\<forall>i < length bs. image h segs (a + word_of_nat i) = Some (bs ! i))"

lemma holds_loads:
  assumes "load_inv h m" "holds h m r bs"
    and "\<forall>p. p \<in> Pts (Segments_Phys (MSegments m)) \<longrightarrow> image h' out p = image h (MSegments m) p"
  shows "loads h' out (Start r) bs"
  using holds_image [OF _ _ assms(2)] assms(1,3) by (auto simp: loads_def load_inv_def)

lemma arm64_place_holds:
  assumes "alloc_ok alloc" "alloc_high alloc" "load_inv h m"
    and "file_bytes (MmapKernel opts) kfile = Ok kb" "file_bytes (MmapRamfs opts) f = Ok rb"
    and "kernel_fits m kb"
    and "arm64_place alloc opts h fdt m kfile (Some f) cmdline = Ok (entry, h', m')"
  shows "\<exists>kr rr dr tr n fdt' dtb. load_inv h' m' \<and> holds h' m' kr kb \<and> holds h' m' rr rb \<and> holds h' m' dr dtb \<and>
    holds h' m' tr (trampoline_bytes (Start kr) (Start dr)) \<and> entry = Start tr \<and>
    Write buffer_Write (chosen_update (boot_properties rr cmdline) fdt) [] = (Ok (), n, fdt', dtb)"
proof -
  obtain kr h1 m1 rr h2 m2 dr h3 m3 tr where s: "arm64_kernel alloc h m kb = Ok (kr, h1, m1)"
      "add_bytes alloc rb (h1, m1) = Ok (rr, h2, m2)" "arm64_dtb alloc rr cmdline fdt (h2, m2) = Ok (dr, h3, m3)"
      "add_bytes alloc (trampoline_bytes (Start kr) (Start dr)) (h3, m3) = Ok (tr, h', m')" "entry = Start tr"
    using assms(4,5,7) by (auto simp: arm64_place_def arm64_ramfs_def)
  obtain n fdt' dtb where w: "Write buffer_Write (chosen_update (boot_properties rr cmdline) fdt) [] = (Ok (), n, fdt', dtb)"
      "add_bytes alloc dtb (h2, m2) = Ok (dr, h3, m3)"
    using s(3) by (auto simp: arm64_dtb_def split: prod.splits res.splits)
  note p1 = arm64_kernel_placed [OF assms(1-3) s(1) assms(6)]
  note p2 = add_bytes_placed [OF assms(1,2) _ s(2)]
  note p3 = add_bytes_placed [OF assms(1,2) _ w(2)]
  note p4 = add_bytes_placed [OF assms(1,2) _ s(4)]
  have i: "load_inv h1 m1" "load_inv h2 m2" "load_inv h3 m3" "load_inv h' m'" using p1 p2 p3 p4 by blast+
  have a: "agrees h1 h'" "agrees h2 h'" "agrees h3 h'" using p2 p3 p4 i agrees_trans by blast+
  have m: "set (MSegments m1) \<subseteq> set (MSegments m')" "set (MSegments m2) \<subseteq> set (MSegments m')" "set (MSegments m3) \<subseteq> set (MSegments m')"
    using p2 p3 p4 i by blast+
  have "holds h' m' kr kb" using holds_kept [OF _ i(1) a(1) m(1)] p1 by blast
  moreover have "holds h' m' rr rb" using holds_kept [OF _ i(2) a(2) m(2)] p2 i(1) by blast
  moreover have "holds h' m' dr dtb" using holds_kept [OF _ i(3) a(3) m(3)] p3 i(2) by blast
  moreover have "holds h' m' tr (trampoline_bytes (Start kr) (Start dr))" using p4 i(3) by blast
  ultimately show ?thesis using i(4) s(5) w(1) by blast
qed

text \<open>The trampoline is its six instructions and the two addresses they load.\<close>

lemma trampoline_layout:
  "trampoline_bytes k d =
     concat (map (le_nat 4) [0x580000c4, 0x580000e0, 0xaa1f03e1, 0xaa1f03e2, 0xaa1f03e3, 0xd61f0080]) @
     le_nat 8 (unat k) @ le_nat 8 (unat d)"
proof -
  have lo: "unat (ucast ((w :: u64) AND 0xffffffff) :: u32) = unat w mod 256 ^ 4" for w
  proof -
    have "w AND 0xffffffff = take_bit 32 w" by (simp add: take_bit_eq_mask mask_eq_exp_minus_1)
    then have "unat (w AND 0xffffffff) = unat w mod 2 ^ 32" by (simp only: unsigned_take_bit_eq) (simp add: take_bit_eq_mod)
    then show ?thesis by (simp add: unsigned_ucast_eq take_bit_eq_mod)
  qed
  have hi: "unat (ucast (drop_bit 32 (w :: u64)) :: u32) = unat w div 256 ^ 4" for w
  proof -
    have "unat w div 2 ^ 32 < 2 ^ 32" using unat_u64_lt [of w] by (simp add: less_mult_imp_div_less)
    moreover have "unat (drop_bit 32 w) = unat w div 2 ^ 32"
      by (simp only: unsigned_drop_bit_eq) (simp add: drop_bit_eq_div take_bit_eq_mod)
    ultimately show ?thesis by (simp add: unsigned_ucast_eq take_bit_eq_mod)
  qed
  have "le_nat 8 n = le_nat 4 (n mod 256 ^ 4) @ le_nat 4 (n div 256 ^ 4)" for n
    using le_nat_add [of 4 4 n] by simp
  then show ?thesis by (simp add: trampoline_bytes_def trampoline_def lo hi)
qed

text \<open>The memory and the reservations of a device tree: ranges that do not wrap around or reach the last page, the memory
  nodes apart from each other.\<close>

definition regs_ok :: "FDT \<Rightarrow> bool" where
  "regs_ok fdt \<longleftrightarrow> (\<forall>root. RootNode fdt = Some root \<longrightarrow>
     valid_ranges (memory_regs root) \<and> disjoint_ranges (memory_regs root) \<and> bounded (memory_regs root) \<and>
     valid_ranges (reserved_regs fdt root) \<and> bounded (reserved_regs fdt root))"

lemma reserve_all_bounded:
  "map_ok phys \<Longrightarrow> bounded (phys_ranges phys) \<Longrightarrow> valid_ranges rs \<Longrightarrow> bounded rs \<Longrightarrow> bounded (phys_ranges (reserve_all phys rs))"
proof (induction rs arbitrary: phys)
  case (Cons r rs)
  let ?i = "MemoryMap_Insert phys \<lparr>TRange = r, TType = RangeReserved\<rparr>"
  have v: "valid_range r" "unat (End r) + 4095 < 2 ^ 64" "valid_ranges rs" "bounded rs" using Cons.prems(3,4) by auto
  have "map_ok ?i" "bounded (phys_ranges ?i)"
    using map_ok_Insert [OF Cons.prems(1), of "\<lparr>TRange = r, TType = RangeReserved\<rparr>"]
      bounded_Insert [OF Cons.prems(1,2), of "\<lparr>TRange = r, TType = RangeReserved\<rparr>"] v(1,2) by simp_all
  then show ?case using Cons.IH [of ?i] v(3,4) by (simp add: reserve_all_def)
qed (simp add: reserve_all_def)

lemma arm64_start_inv:
  assumes "arm64_start open dtb = Ok (fdt, m)" "regs_ok fdt"
  shows "load_inv h m"
proof -
  have p: "ParseMemoryMapFromFDT fdt \<lparr>MPhys = [], MSegments = []\<rparr> = Ok m" using assms(1) by (auto simp: arm64_start_def)
  then obtain root where r: "RootNode fdt = Some root" by (auto simp: ParseMemoryMapFromFDT_def split: option.splits)
  note k = assms(2) [unfolded regs_ok_def, rule_format, OF r]
  note m = ParseMemoryMapFromFDT_Ok [OF p r]
  have t: "phys_ranges (typed RangeRAM rs) = rs" for rs by (induction rs) (simp_all add: typed_def phys_ranges_def)
  have ok: "map_ok (typed RangeRAM (memory_regs root))" using k by (simp add: map_ok_def t)
  have "map_ok (MPhys m)" using ParseMemoryMapFromFDT_types [OF p r] k by blast
  moreover have "bounded (phys_ranges (MPhys m))" unfolding m(1) by (rule reserve_all_bounded [OF ok]) (use k t in simp_all)
  ultimately show ?thesis using m(2) by (simp add: load_inv_def mem_inv_def segs_ok_def Segments_Phys_def)
qed

text \<open>C14: when the arm64 loader succeeds with an initramfs, the kernel was given page-aligned disjoint segments that hold
  the kernel image, the initramfs, a device tree and, at the entry point, the trampoline with the addresses of the
  kernel and of the device tree; the device tree is the one of the firmware with the addresses of the initramfs and
  the command line written into \<open>chosen\<close>. The conditions: the memory nodes and the reservations of the tree are proper ranges
  (\<open>regs_ok\<close>), and a text offset of the image moves the range found for it into free RAM (\<open>kernel_fits\<close>), which the code does
  not check (\<open>AddKexecSegmentExplicit_overruns\<close>). Without an initramfs the code places an empty segment, which
  \<open>Load_kernel_call\<close> does not cover (\<open>AlignAndMerge_empty_hides_overlap\<close>).\<close>

theorem arm64_handoff:
  assumes "alloc_ok alloc" "alloc_high alloc" "arm64_start open (DTB opts) = Ok (fdt, m)" "regs_ok fdt"
    and "file_bytes (MmapKernel opts) kfile = Ok kb" "file_bytes (MmapRamfs opts) f = Ok rb" "kernel_fits m kb"
    and "KexecLoad_arm64 kexec_load alloc open k h kfile (Some f) cmdline opts = (k', Ok ())"
  shows "\<exists>h' out (kr :: Range) rr (dr :: Range) entry n fdt' dtb. page_segments out \<and> PhysContains out entry \<and>
    kexec_load k h' entry (length out) out 0 = (k', 0) \<and>
    loads h' out (Start kr) kb \<and> loads h' out (Start rr) rb \<and> loads h' out (Start dr) dtb \<and>
    loads h' out entry (concat (map (le_nat 4) [0x580000c4, 0x580000e0, 0xaa1f03e1, 0xaa1f03e2, 0xaa1f03e3, 0xd61f0080]) @
      le_nat 8 (unat (Start kr)) @ le_nat 8 (unat (Start dr))) \<and>
    Write buffer_Write (chosen_update (boot_properties rr cmdline) fdt) [] = (Ok (), n, fdt', dtb)"
proof -
  have inv: "load_inv h m" by (rule arm64_start_inv [OF assms(3,4)])
  obtain entry h1 m1 where p: "arm64_place alloc opts h fdt m kfile (Some f) cmdline = Ok (entry, h1, m1)"
    and l: "Load kexec_load alloc k h1 entry (MSegments m1) 0 = (k', Ok ())"
    using assms(3,8) by (auto simp: KexecLoad_arm64_def split: res.splits prod.splits)
  from arm64_place_holds [OF assms(1,2) inv assms(5-7) p] obtain kr rr dr tr n fdt' dtb where
    q: "load_inv h1 m1" "holds h1 m1 kr kb" "holds h1 m1 rr rb" "holds h1 m1 dr dtb"
      "holds h1 m1 tr (trampoline_bytes (Start kr) (Start dr))" "entry = Start tr"
      "Write buffer_Write (chosen_update (boot_properties rr cmdline) fdt) [] = (Ok (), n, fdt', dtb)" by blast
  have "segs_ok h1 (MSegments m1)" using q(1) by (simp add: load_inv_def)
  from Load_cases [OF assms(1) this, of kexec_load k entry 0] l obtain h' out where
    o1: "page_segments out" "PhysContains out entry" "kexec_load k h' entry (length out) out 0 = (k', 0)"
      "\<forall>p. p \<in> Pts (Segments_Phys (MSegments m1)) \<longrightarrow> image h' out p = image h1 (MSegments m1) p"
    by (auto split: if_splits)
  show ?thesis
    using o1 q(7) holds_loads [OF q(1,2) o1(4)] holds_loads [OF q(1,3) o1(4)] holds_loads [OF q(1,4) o1(4)]
      holds_loads [OF q(1,5) o1(4)] unfolding q(6) trampoline_layout
    by blast
qed

text \<open>C15: the device tree the arm64 loader writes is read back by \<open>ReadFDT\<close>. It is the tree before with only the node
  \<open>chosen\<close> replaced in its place, children kept; in that node the bounds of the initramfs and the command line with a null
  byte are set, no command line is left when it is empty, and every other property has the value it had. (Only when the
  command line is empty, the names of the properties of \<open>chosen\<close> have to be distinct, as in every valid tree.) The tree has
  names without null bytes, a header as in \<open>FDT_round_trip\<close> and at most 1 GiB.\<close>

theorem arm64_dtb_boot:
  assumes "Write buffer_Write (chosen_update (boot_properties r cmdline) fdt) [] = (Ok (), n, fdt', dtb)"
    and "RootNode fdt = Some root" "find is_chosen (preorder root) = Some x"
    and "cmdline = [] \<Longrightarrow> distinct (map PName (Properties x))"
    and "names_ok root" "header_ok (FHeader fdt)" "entries_ok (ReserveEntries fdt)" "length dtb \<le> 2 ^ 30"
  shows "\<exists>root' y. ReadFDT dtb = Ok fdt' \<and> RootNode fdt' = Some root' \<and> ReserveEntries fdt' = ReserveEntries fdt \<and>
    find is_chosen (preorder root') = Some y \<and> node_replaced x y root root' \<and> Name y = Name x \<and> Children y = Children x \<and>
    (\<forall>nm. map_option PValue (LookProperty nm y) =
      (if nm = ''bootargs'' then (if cmdline = [] then None else Some (str_bytes cmdline @ [0]))
       else if nm = ''linux,initrd-end'' then Some (be64 (Start r + Size r))
       else if nm = ''linux,initrd-start'' then Some (be64 (Start r))
       else map_option PValue (LookProperty nm x)))"
proof -
  let ?g = "boot_properties r cmdline"
  obtain root' where r: "update_first is_chosen ?g root = Some root'"
    using update_first_find(2) [OF boot_shape(1), of r cmdline root] assms(3) by fastforce
  from update_first_find(1) [OF boot_shape(1) r] assms(3) have
    u: "find is_chosen (preorder root') = Some (?g x)" "node_replaced x (?g x) root root'" by auto
  have kept: "Name (?g x) = Name x" "Children (?g x) = Children x" using boot_shape(1) by (simp_all add: keeps_shape_def)
  obtain A B where fl: "map flat (preorder root) = A @ flat x # B" "map flat (preorder root') = A @ flat (?g x) # B"
    using node_replaced_flat [OF u(2) kept(2)] by blast
  let ?f = "chosen_update ?g fdt"
  have f: "RootNode ?f = Some root'" "FHeader ?f = FHeader fdt" "ReserveEntries ?f = ReserveEntries fdt"
    using r assms(2) by (simp_all add: chosen_update_def)
  have "\<forall>p \<in> set (Properties x). 0 \<notin> set (str_bytes (PName p))"
    using assms(5) unfolding names_ok_flat fl(1) by (simp add: flat_def)
  then have "\<forall>nm \<in> PName ` set (Properties (?g x)). 0 \<notin> set (str_bytes nm)"
    using boot_shape(2) [of r cmdline x] by (auto simp: byte_of_def)
  then have nm: "names_ok root'"
    using assms(5) kept(1) unfolding names_ok_flat fl by (auto simp: flat_def)
  have w: "ReadFDT dtb = Ok fdt' \<and> fdt' = ?f\<lparr>FHeader := FHeader fdt'\<rparr>"
    using read_written [OF f(1) nm _ _ assms(1,8)] assms(6,7) f(2,3) by simp
  then have "RootNode fdt' = Some root'" "ReserveEntries fdt' = ReserveEntries fdt"
    using f by (metis FDT.select_convs(3) FDT.surjective FDT.update_convs(1), metis FDT.select_convs(2) FDT.surjective FDT.update_convs(1))
  moreover have "map_option PValue (LookProperty nm (?g x)) =
      (if nm = ''bootargs'' then (if cmdline = [] then None else Some (str_bytes cmdline @ [0]))
       else if nm = ''linux,initrd-end'' then Some (be64 (Start r + Size r))
       else if nm = ''linux,initrd-start'' then Some (be64 (Start r))
       else map_option PValue (LookProperty nm x))" for nm
    by (rule boot_values) (rule assms(4))
  ultimately show ?thesis using w u kept
    by (intro exI [of _ root'] exI [of _ "?g x"] conjI) (assumption | blast)+
qed

section \<open>A concrete run\<close>

lemma bump_alloc_high: "alloc_high bump_alloc"
proof -
  have "4096 \<le> unat (fold (\<lambda>r a. max a (End r)) (hblocks h) 65536)" for h :: heap
    using fold_max_ge(1) [of 65536 "hblocks h"] by (simp add: word_le_nat_alt)
  then show ?thesis by (simp add: alloc_high_def bump_alloc_def Let_def)
qed

definition arm_tree :: Node where
  "arm_tree = Node [] []
     [Node ''chosen'' [] [],
      Node ''memory'' [\<lparr>PName = ''device_type'', PValue = str_bytes ''memory'' @ [0]\<rparr>,
        \<lparr>PName = ''reg'', PValue = be64 0x40000000 @ be64 0x10000000\<rparr>] []]"

definition arm_fdt :: FDT where
  "arm_fdt = \<lparr>FHeader = \<lparr>HMagic = Magic, TotalSize = 0, OffDtStruct = 0, OffDtStrings = 0, OffMemRsvmap = 0,
      Version = 17, LastCompVersion = 16, BootCpuidPhys = 0, SizeDtStrings = 0, SizeDtStruct = 0\<rparr>,
    ReserveEntries = [], RootNode = Some arm_tree\<rparr>"

definition arm_dtb :: "byte list" where
  "arm_dtb = (case Write buffer_Write arm_fdt [] of (_, _, _, bs) \<Rightarrow> bs)"

definition arm_kernel :: "byte list" where
  "arm_kernel = pack arm64_widths [0, 0, 0, 0x1000, 0, 0, 0, 0, 0x644d5241, 0]"

definition arm_file :: "byte list \<Rightarrow> os_file" where
  "arm_file bs = \<lparr>of_stat = Ok (length bs), of_map = (\<lambda>n. Ok (take n bs)), of_read = Ok bs\<rparr>"

abbreviation arm_memory :: "Segments \<Rightarrow> Memory" where
  "arm_memory segs \<equiv> \<lparr>MPhys = [\<lparr>TRange = \<lparr>Start = 0x40000000, Size = 0x10000000\<rparr>, TType = RangeRAM\<rparr>], MSegments = segs\<rparr>"

text \<open>The length of a written tree, for a tree that the simplifier can walk.\<close>

lemma written_length:
  assumes "RootNode fdt = Some root" "add_names (all_props root) ([], Map.empty) = (strs, strOff)"
  shows "\<exists>h. Write buffer_Write fdt [] = (Ok (), length (fdt_bytes h (ReserveEntries fdt) (node_bytes strOff root @ be32 tokenEnd) strs),
      fdt\<lparr>FHeader := h\<rparr>, fdt_bytes h (ReserveEntries fdt) (node_bytes strOff root @ be32 tokenEnd) strs)"
proof -
  have col: "collect_names root = Ok (strs, strOff)" by (simp add: collect_names_eq assms(2))
  obtain structSize where sz: "struct_size root = Ok structSize" by (simp add: struct_size_def Walk_eq walk_list_Ok)
  from Write_buffer [OF assms(1) col sz] show ?thesis by metis
qed

lemma arm_dtb_read: "\<exists>hd. ReadFDT arm_dtb = Ok \<lparr>FHeader = hd, ReserveEntries = [], RootNode = Some arm_tree\<rparr>"
proof -
  have root: "RootNode arm_fdt = Some arm_tree" by (simp add: arm_fdt_def)
  have nm: "names_ok arm_tree" by (simp add: names_ok_def arm_tree_def name_ok_def byte_of_def)
  have hd: "header_ok (FHeader arm_fdt)" by (simp add: header_ok_def arm_fdt_def)
  have es: "entries_ok (ReserveEntries arm_fdt)" by (simp add: entries_ok_def arm_fdt_def)
  obtain strs strOff where names: "add_names (all_props arm_tree) ([], Map.empty) = (strs, strOff)" by fastforce
  from written_length [OF root names] obtain h where w: "Write buffer_Write arm_fdt [] =
      (Ok (), length (fdt_bytes h [] (node_bytes strOff arm_tree @ be32 tokenEnd) strs), arm_fdt\<lparr>FHeader := h\<rparr>,
       fdt_bytes h [] (node_bytes strOff arm_tree @ be32 tokenEnd) strs)"
    by (auto simp: arm_fdt_def)
  have d: "arm_dtb = fdt_bytes h [] (node_bytes strOff arm_tree @ be32 tokenEnd) strs" by (simp add: arm_dtb_def w)
  have "length strs = 16" using names by (auto simp: arm_tree_def all_props_def)
  then have "length arm_dtb \<le> 2 ^ 30" unfolding d by (simp add: fdt_bytes_def arm_tree_def prop_bytes_def pad4_def)
  from read_written [OF root nm hd es w this [unfolded d]] have "ReadFDT arm_dtb = Ok (arm_fdt\<lparr>FHeader := h\<rparr>)"
    unfolding d by blast
  then show ?thesis by (simp add: arm_fdt_def)
qed

lemma arm_started: "\<exists>hd. arm64_start (\<lambda>_. Some arm_dtb) [] =
    Ok (\<lparr>FHeader = hd, ReserveEntries = [], RootNode = Some arm_tree\<rparr>, arm_memory [])"
proof -
  obtain hd where r: "ReadFDT arm_dtb = Ok \<lparr>FHeader = hd, ReserveEntries = [], RootNode = Some arm_tree\<rparr>"
    using arm_dtb_read by blast
  let ?f = "\<lparr>FHeader = hd, ReserveEntries = [], RootNode = Some arm_tree\<rparr>"
  have l: "LoadFDT (\<lambda>_. Some arm_dtb) [] = Ok ?f" by (simp add: LoadFDT_def r Let_def)
  have s: "sanitizeFDT ?f = Ok ?f"
    by (simp add: sanitizeFDT_def FDT_NodeByName_def Find_eq chosen_update_def is_chosen_def arm_tree_def stale_properties_def
        RemoveProperty_def)
  have "ParseMemoryMapFromFDT ?f \<lparr>MPhys = [], MSegments = []\<rparr> = Ok (arm_memory [])"
    by (simp add: ParseMemoryMapFromFDT_def arm_tree_def Walk_eq NodeByName_def Find_eq addMemory_def
      reserveMemory_def reg_range_def LookProperty_def memory_type AsRegion_def del: str_bytes_Cons)
  then show ?thesis by (simp add: arm64_start_def l s)
qed

lemma arm_kernel_parse: "\<exists>img. ParseFromBytes arm_kernel = Ok img \<and> TextOffset (IHeader img) = 0 \<and> ImageSize (IHeader img) = 0x1000"
  "length arm_kernel = 64"
proof -
  have f: "fits arm64_widths [0, 0, 0, 0x1000, 0, 0, 0, 0, 0x644d5241, 0]" by (simp add: arm64_widths_def)
  show l: "length arm_kernel = 64" using length_pack [OF f] by (simp add: arm_kernel_def arm64_widths_def)
  have "ReadFull arm_kernel (sum_list arm64_widths) = Ok (arm_kernel, [])" using l by (simp add: ReadFull_def arm64_widths_def)
  moreover have "unpack arm64_widths arm_kernel = [0, 0, 0, 0x1000, 0, 0, 0, 0, 0x644d5241, 0]"
    unfolding arm_kernel_def by (rule unpack_pack' [OF f])
  ultimately show "\<exists>img. ParseFromBytes arm_kernel = Ok img \<and> TextOffset (IHeader img) = 0 \<and> ImageSize (IHeader img) = 0x1000"
    by (simp add: ParseFromBytes_def arm64_of_def arm64_magic_def)
qed

definition arm_segments :: Segments where
  "arm_segments = [\<lparr>Buf = \<lparr>Start = 0x10000, Size = 64\<rparr>, Phys = \<lparr>Start = 0x40000000, Size = 0x200000\<rparr>\<rparr>,
     \<lparr>Buf = \<lparr>Start = 0x10040, Size = 3\<rparr>, Phys = \<lparr>Start = 0x40200000, Size = 0x1000\<rparr>\<rparr>,
     \<lparr>Buf = \<lparr>Start = 0x10043, Size = 277\<rparr>, Phys = \<lparr>Start = 0x40201000, Size = 0x1000\<rparr>\<rparr>,
     \<lparr>Buf = \<lparr>Start = 0x10158, Size = 40\<rparr>, Phys = \<lparr>Start = 0x40202000, Size = 0x1000\<rparr>\<rparr>]"

lemmas place_defs = Memory_FindSpace_def AvailableRAM_def RangeRAM_def M1_value FindSpaceAbove_def Intersect_def
  RangeFromInterval_def MaxAddr_def max_u_def min_u_def Segments_Insert_def Segments_sort_def seg_start_less_def
  Minus_def Contains_def Disjunct_def

lemma arm_place1:
  "AddKexecSegmentExplicit (arm_memory []) \<lparr>sl_ptr = 0x10000, sl_len = 64, sl_cap = 64\<rparr> 0x1000 0 kernelAlignSize =
     Ok (\<lparr>Start = 0x40000000, Size = 0x200000\<rparr>, arm_memory (take (Suc 0) arm_segments))"
  by (simp add: AddKexecSegmentExplicit_def place_defs kexec_defs UpPage_def Up_def kernelAlignSize_def arm_segments_def)

lemma arm_place2:
  "AddKexecSegment (arm_memory (take (Suc 0) arm_segments)) \<lparr>sl_ptr = 0x10040, sl_len = 3, sl_cap = 3\<rparr> =
     Ok (\<lparr>Start = 0x40200000, Size = 0x1000\<rparr>, arm_memory (take 2 arm_segments))"
  by (simp add: AddKexecSegment_def place_defs kexec_defs UpPage_def Up_def arm_segments_def)

definition arm_tree2 :: Node where
  "arm_tree2 = Node [] []
     [boot_properties \<lparr>Start = 0x40200000, Size = 0x1000\<rparr> ''a'' (Node ''chosen'' [] []),
      Node ''memory'' [\<lparr>PName = ''device_type'', PValue = str_bytes ''memory'' @ [0]\<rparr>,
        \<lparr>PName = ''reg'', PValue = be64 0x40000000 @ be64 0x10000000\<rparr>] []]"

lemma arm_chosen: "boot_properties \<lparr>Start = 0x40200000, Size = 0x1000\<rparr> ''a'' (Node ''chosen'' [] []) =
    Node ''chosen'' [\<lparr>PName = ''linux,initrd-start'', PValue = be64 0x40200000\<rparr>, \<lparr>PName = ''linux,initrd-end'', PValue = be64 0x40201000\<rparr>,
      \<lparr>PName = ''bootargs'', PValue = str_bytes ''a'' @ [0]\<rparr>] []"
  by (simp add: boot_properties_def UpdateProperty_def)

lemma arm_update: "chosen_update (boot_properties \<lparr>Start = 0x40200000, Size = 0x1000\<rparr> ''a'')
    \<lparr>FHeader = fh, ReserveEntries = [], RootNode = Some arm_tree\<rparr> = \<lparr>FHeader = fh, ReserveEntries = [], RootNode = Some arm_tree2\<rparr>"
  by (simp add: chosen_update_def arm_tree_def arm_tree2_def is_chosen_def)

lemma arm_written: "\<exists>n fdt' dtb. Write buffer_Write \<lparr>FHeader = fh, ReserveEntries = [], RootNode = Some arm_tree2\<rparr> [] = (Ok (), n, fdt', dtb) \<and>
    length dtb = 277"
proof -
  let ?f = "\<lparr>FHeader = fh, ReserveEntries = [], RootNode = Some arm_tree2\<rparr>"
  obtain strs strOff where names: "add_names (all_props arm_tree2) ([], Map.empty) = (strs, strOff)" by fastforce
  have r: "RootNode ?f = Some arm_tree2" by simp
  from written_length [OF r names] obtain h where w: "Write buffer_Write ?f [] =
      (Ok (), length (fdt_bytes h [] (node_bytes strOff arm_tree2 @ be32 tokenEnd) strs), ?f\<lparr>FHeader := h\<rparr>,
       fdt_bytes h [] (node_bytes strOff arm_tree2 @ be32 tokenEnd) strs)"
    by auto
  have "length strs = 16 + 19 + 17 + 9" using names unfolding arm_tree2_def arm_chosen by (auto simp: all_props_def)
  then have "length (fdt_bytes h [] (node_bytes strOff arm_tree2 @ be32 tokenEnd) strs) = 277"
    unfolding arm_tree2_def arm_chosen by (simp add: fdt_bytes_def prop_bytes_def pad4_def)
  with w show ?thesis by blast
qed

lemma arm_place3:
  "AddKexecSegment (arm_memory (take 2 arm_segments)) \<lparr>sl_ptr = 0x10043, sl_len = 277, sl_cap = 277\<rparr> =
     Ok (\<lparr>Start = 0x40201000, Size = 0x1000\<rparr>, arm_memory (take 3 arm_segments))"
  by (simp add: AddKexecSegment_def place_defs kexec_defs UpPage_def Up_def arm_segments_def)

lemma arm_place4:
  "AddKexecSegment (arm_memory (take 3 arm_segments)) \<lparr>sl_ptr = 0x10158, sl_len = 40, sl_cap = 40\<rparr> =
     Ok (\<lparr>Start = 0x40202000, Size = 0x1000\<rparr>, arm_memory arm_segments)"
  by (simp add: AddKexecSegment_def place_defs kexec_defs UpPage_def Up_def arm_segments_def)

lemma arm_load: "Load (\<lambda>k h e n s f. (e, 0)) bump_alloc k h 0x40202000 arm_segments 0 = (0x40202000, Ok ())"
  by (simp add: Load_def kexec_defs arm_segments_def alignSize_def UpPage_def Up_def PhysContains_def Contains_def rawLoad_def)

lemma bump_go_bytes:
  assumes "hblocks h = b # bs" "\<forall>r \<in> set bs. End r \<le> End b" "0x10000 \<le> End b" "unat (End b) + length xs < 2 ^ 64"
  shows "\<exists>h'. go_bytes bump_alloc h xs = Ok (h', \<lparr>sl_ptr = End b, sl_len = word_of_nat (length xs), sl_cap = word_of_nat (length xs)\<rparr>) \<and>
    hblocks h' = \<lparr>Start = End b, Size = word_of_nat (length xs)\<rparr> # hblocks h"
proof -
  have "fold (\<lambda>r a. max a (End r)) bs (End b) = End b" using assms(2)
    by (induction bs) (auto simp: max_def)
  then have "fold (\<lambda>r a. max a (End r)) (hblocks h) 65536 = End b" using assms(1,3) by (simp add: max_def)
  then show ?thesis using assms(4) by (simp add: go_bytes_def bump_alloc_def)
qed

lemma arm_placed:
  "\<exists>h'. arm64_place bump_alloc \<lparr>DTB = [], MmapKernel = True, MmapRamfs = False\<rparr> \<lparr>hmem = \<lambda>_. 0, hblocks = []\<rparr>
     \<lparr>FHeader = fh, ReserveEntries = [], RootNode = Some arm_tree\<rparr> (arm_memory []) (arm_file arm_kernel) (Some (arm_file [1, 2, 3])) ''a'' =
     Ok (0x40202000, h', arm_memory arm_segments)"
proof -
  let ?h0 = "\<lparr>hmem = \<lambda>_. 0, hblocks = []\<rparr> :: heap"
  obtain h1 where h1: "\<And>t. t = (go_bytes bump_alloc ?h0 arm_kernel :: (loader_error, heap \<times> gslice) res) \<Longrightarrow>
      t = Ok (h1, \<lparr>sl_ptr = 0x10000, sl_len = 64, sl_cap = 64\<rparr>)" "hblocks h1 = [\<lparr>Start = 0x10000, Size = 64\<rparr>]"
    by (simp add: go_bytes_def bump_alloc_def arm_kernel_parse(2))
  obtain h2 where h2: "(go_bytes bump_alloc h1 [1, 2, 3] :: (loader_error, heap \<times> gslice) res) = Ok (h2, \<lparr>sl_ptr = 0x10040, sl_len = 3, sl_cap = 3\<rparr>)"
      "hblocks h2 = [\<lparr>Start = 0x10040, Size = 3\<rparr>, \<lparr>Start = 0x10000, Size = 64\<rparr>]"
    using bump_go_bytes [of h1 "\<lparr>Start = 0x10000, Size = 64\<rparr>" "[]" "[1, 2, 3]"] h1(2) by (auto simp: End_def)
  obtain n fdt' dtb where w: "Write buffer_Write \<lparr>FHeader = fh, ReserveEntries = [], RootNode = Some arm_tree2\<rparr> [] = (Ok (), n, fdt', dtb)"
      "length dtb = 277" using arm_written by blast
  obtain h3 where h3: "(go_bytes bump_alloc h2 dtb :: (loader_error, heap \<times> gslice) res) = Ok (h3, \<lparr>sl_ptr = 0x10043, sl_len = 277, sl_cap = 277\<rparr>)"
      "hblocks h3 = [\<lparr>Start = 0x10043, Size = 277\<rparr>, \<lparr>Start = 0x10040, Size = 3\<rparr>, \<lparr>Start = 0x10000, Size = 64\<rparr>]"
    using bump_go_bytes [of h2 "\<lparr>Start = 0x10040, Size = 3\<rparr>" "[\<lparr>Start = 0x10000, Size = 64\<rparr>]" dtb] h2(2) w(2) by (auto simp: End_def)
  let ?t = "trampoline_bytes 0x40000000 0x40201000"
  have t: "length ?t = 40" by (simp add: trampoline_bytes_def trampoline_def)
  obtain h4 where h4: "(go_bytes bump_alloc h3 ?t :: (loader_error, heap \<times> gslice) res) = Ok (h4, \<lparr>sl_ptr = 0x10158, sl_len = 40, sl_cap = 40\<rparr>)"
    using bump_go_bytes [of h3 "\<lparr>Start = 0x10043, Size = 277\<rparr>" "[\<lparr>Start = 0x10040, Size = 3\<rparr>, \<lparr>Start = 0x10000, Size = 64\<rparr>]" ?t] h3(2) t
    by (auto simp: End_def)
  obtain img where img: "ParseFromBytes arm_kernel = Ok img" "TextOffset (IHeader img) = 0" "ImageSize (IHeader img) = 0x1000"
    using arm_kernel_parse(1) by blast
  have k: "arm64_kernel bump_alloc ?h0 (arm_memory []) arm_kernel = Ok (\<lparr>Start = 0x40000000, Size = 0x200000\<rparr>, h1, arm_memory (take (Suc 0) arm_segments))"
    by (simp add: arm64_kernel_def h1(1) [OF refl] img arm_place1)
  have f: "file_bytes True (arm_file arm_kernel) = Ok arm_kernel" "file_bytes False (arm_file bs) = Ok bs" for bs
    by (simp_all add: file_bytes_def mmap_def arm_file_def arm_kernel_parse(2))
  have r: "arm64_ramfs bump_alloc \<lparr>DTB = [], MmapKernel = True, MmapRamfs = False\<rparr> (Some (arm_file [1, 2, 3])) (h1, arm_memory (take (Suc 0) arm_segments)) =
      Ok (\<lparr>Start = 0x40200000, Size = 0x1000\<rparr>, h2, arm_memory (take 2 arm_segments))"
    using arm_place2 by (simp add: arm64_ramfs_def f add_bytes_def h2(1))
  have d: "arm64_dtb bump_alloc \<lparr>Start = 0x40200000, Size = 0x1000\<rparr> ''a'' \<lparr>FHeader = fh, ReserveEntries = [], RootNode = Some arm_tree\<rparr>
      (h2, arm_memory (take 2 arm_segments)) = Ok (\<lparr>Start = 0x40201000, Size = 0x1000\<rparr>, h3, arm_memory (take 3 arm_segments))"
    by (simp add: arm64_dtb_def arm_update w(1) add_bytes_def h3(1) arm_place3)
  show ?thesis
    by (rule exI [of _ h4]) (simp add: arm64_place_def f k r d add_bytes_def h4 arm_place4)
qed

theorem arm64_handoff_witness:
  "\<exists>h' out (kr :: Range) (dr :: Range).
     KexecLoad_arm64 (\<lambda>k h e n s f. (e, 0)) bump_alloc (\<lambda>_. Some arm_dtb) 0 \<lparr>hmem = \<lambda>_. 0, hblocks = []\<rparr> (arm_file arm_kernel)
       (Some (arm_file [1, 2, 3])) ''a'' \<lparr>DTB = [], MmapKernel = True, MmapRamfs = False\<rparr> = (0x40202000, Ok ()) \<and>
     page_segments out \<and> loads h' out (Start kr) arm_kernel \<and> loads h' out 0x40202000 (trampoline_bytes (Start kr) (Start dr))"
proof -
  let ?o = "\<lparr>DTB = [], MmapKernel = True, MmapRamfs = False\<rparr>"
  obtain fh where s: "arm64_start (\<lambda>_. Some arm_dtb) (DTB ?o) =
      Ok (\<lparr>FHeader = fh, ReserveEntries = [], RootNode = Some arm_tree\<rparr>, arm_memory [])" using arm_started by auto
  obtain h' where p: "arm64_place bump_alloc ?o \<lparr>hmem = \<lambda>_. 0, hblocks = []\<rparr>
     \<lparr>FHeader = fh, ReserveEntries = [], RootNode = Some arm_tree\<rparr> (arm_memory []) (arm_file arm_kernel) (Some (arm_file [1, 2, 3])) ''a'' =
     Ok (0x40202000, h', arm_memory arm_segments)" using arm_placed by blast
  have r: "KexecLoad_arm64 (\<lambda>k h e n s f. (e, 0)) bump_alloc (\<lambda>_. Some arm_dtb) 0 \<lparr>hmem = \<lambda>_. 0, hblocks = []\<rparr> (arm_file arm_kernel)
       (Some (arm_file [1, 2, 3])) ''a'' ?o = (0x40202000, Ok ())"
    unfolding KexecLoad_arm64_def s by (simp add: p arm_load)
  have i: "regs_ok \<lparr>FHeader = fh, ReserveEntries = [], RootNode = Some arm_tree\<rparr>"
    by (simp add: regs_ok_def memory_regs_def reserved_regs_def arm_tree_def is_memory_def node_reg_def reg_range_def
        LookProperty_def memory_type AsRegion_def NodeByName_def Find_eq List.map_filter_simps valid_range_def End_def del: str_bytes_Cons)
  have f: "file_bytes (MmapKernel ?o) (arm_file arm_kernel) = Ok arm_kernel" "file_bytes (MmapRamfs ?o) (arm_file [1, 2, 3]) = Ok [1, 2, 3]"
    by (simp_all add: file_bytes_def mmap_def arm_file_def arm_kernel_parse(2))
  have t: "kernel_fits (arm_memory []) arm_kernel"
    using arm_kernel_parse(1) by (auto simp: kernel_fits_def)
  from arm64_handoff [OF bump_alloc_ok bump_alloc_high s i f t r] r show ?thesis unfolding trampoline_layout by auto
qed

theorem arm64_dtb_boot_witness:
  "\<exists>n fdt' dtb. Write buffer_Write (chosen_update (boot_properties \<lparr>Start = 0x40200000, Size = 0x1000\<rparr> ''a'') arm_fdt) [] = (Ok (), n, fdt', dtb) \<and>
     ReadFDT dtb = Ok fdt'"
proof -
  have r: "RootNode arm_fdt = Some arm_tree" "find is_chosen (preorder arm_tree) = Some (Node ''chosen'' [] [])"
    by (simp_all add: arm_fdt_def arm_tree_def is_chosen_def)
  have ok: "names_ok arm_tree" "header_ok (FHeader arm_fdt)" "entries_ok (ReserveEntries arm_fdt)"
    by (simp_all add: names_ok_def arm_tree_def name_ok_def byte_of_def header_ok_def entries_ok_def arm_fdt_def)
  have u: "chosen_update (boot_properties \<lparr>Start = 0x40200000, Size = 0x1000\<rparr> ''a'') arm_fdt =
      \<lparr>FHeader = FHeader arm_fdt, ReserveEntries = [], RootNode = Some arm_tree2\<rparr>"
    using arm_update [of "FHeader arm_fdt"] by (simp add: arm_fdt_def)
  obtain n fdt' dtb where w: "Write buffer_Write (chosen_update (boot_properties \<lparr>Start = 0x40200000, Size = 0x1000\<rparr> ''a'') arm_fdt) [] =
      (Ok (), n, fdt', dtb)" "length dtb = 277" unfolding u using arm_written by blast
  have "length dtb \<le> 2 ^ 30" using w(2) by simp
  from arm64_dtb_boot [OF w(1) r _ ok this] w(1) show ?thesis by blast
qed

section \<open>The purgatory\<close>

lemma put_le64_nth:
  assumes "put_le64 off v b = Ok b'"
  shows "length b' = length b" "off + 8 \<le> length b"
    "i < length b \<Longrightarrow> b' ! i = (if off \<le> i \<and> i < off + 8 then le_nat 8 (unat v) ! (i - off) else b ! i)"
proof -
  have b': "b' = take off b @ le_nat 8 (unat v) @ drop (off + 8) b" and l: "off + 8 \<le> length b"
    using assms by (auto simp: put_le64_def split: if_splits)
  show "length b' = length b" "off + 8 \<le> length b" using b' l by simp_all
  assume "i < length b"
  then show "b' ! i = (if off \<le> i \<and> i < off + 8 then le_nat 8 (unat v) ! (i - off) else b ! i)"
    using l by (auto simp: b' nth_append)
qed

text \<open>The bytes of the purgatory: the two arguments in their places, the bytes of its file, zeros behind them.\<close>

definition purgatory_image :: "byte list \<Rightarrow> u64 \<Rightarrow> u64 \<Rightarrow> byte list \<Rightarrow> bool" where
  "purgatory_image code entry rsi bs \<longleftrightarrow> 24 \<le> length bs \<and> (\<forall>i < length bs. bs ! i =
     (if 8 \<le> i \<and> i < 16 then le_nat 8 (unat entry) ! (i - 8)
      else if 16 \<le> i \<and> i < 24 then le_nat 8 (unat rsi) ! (i - 16)
      else if i < length code then code ! i else 0))"

lemma purgatory_bytes_Ok:
  assumes "purgatory_bytes p entry rsi = Ok bs"
  shows "length bs = unat (UpPage (es_memsz p))"
    "\<exists>xs. es_read p (unat (es_filesz p)) = (xs, None) \<and> purgatory_image (take (unat (es_filesz p)) xs) entry rsi bs"
proof -
  let ?n = "unat (es_filesz p)" and ?m = "unat (UpPage (es_memsz p))"
  obtain xs b1 where x: "\<not> ?m < ?n" "put_le64 8 entry (take ?n xs @ replicate (?m - length (take ?n xs)) 0) = Ok b1"
      "put_le64 16 rsi b1 = Ok bs" "es_read p ?n = (xs, None)"
    using assms by (auto simp: purgatory_bytes_def Let_def split: if_splits prod.splits option.splits)
  define b0 where "b0 = take ?n xs @ replicate (?m - length (take ?n xs)) 0"
  have b: "length b0 = ?m" "put_le64 8 entry b0 = Ok b1" "put_le64 16 rsi b1 = Ok bs"
    using x by (auto simp: b0_def)
  note p1 = put_le64_nth [OF b(2)] and p2 = put_le64_nth [OF b(3)]
  show l: "length bs = unat (UpPage (es_memsz p))" using p1(1) p2(1) b(1) by simp
  have "(ys @ replicate k 0) ! i = (if i < length ys then ys ! i else 0)" if "i < length (ys @ replicate k 0)"
    for ys :: "byte list" and k i
    using that by (simp add: nth_append)
  then have "b0 ! i = (if i < length (take ?n xs) then take ?n xs ! i else 0)" if "i < length b0" for i
    using that unfolding b0_def by blast
  then have "purgatory_image (take ?n xs) entry rsi bs"
    unfolding purgatory_image_def using p1 p2 by simp
  with x(4) show "\<exists>xs. es_read p ?n = (xs, None) \<and> purgatory_image (take ?n xs) entry rsi bs" by blast
qed

text \<open>A new block in a range that was looked for within limits and reserved.\<close>

lemma reserve_placed:
  assumes "alloc_ok alloc" "alloc_high alloc" "load_inv h m" "valid_range limit"
    and g: "go_bytes alloc h bs = Ok (h', d)" and rs: "ReservePhys m (word_of_nat (length bs)) limit = Ok (r, m1)"
    and n: "NewSegment d r = Ok s" and m': "m' = m1\<lparr>MSegments := Segments_Insert (MSegments m1) s\<rparr>"
  shows "load_inv h' m'" "holds h' m' r bs" "agrees h h'" "set (MSegments m) \<subseteq> set (MSegments m')"
    "free_range m r" "Size r = UpPage (word_of_nat (length bs))" "Start limit \<le> Start r" "End r \<le> End limit"
    "type_at (MPhys m') p = (if p \<in> pts r then Some RangeReserved else type_at (MPhys m) p)"
proof -
  note gb = go_bytes_Ok [OF assms(1,2) g]
  have inv: "mem_inv m" "segs_ok h (MSegments m)" using assms(3) by (simp_all add: load_inv_def)
  have l: "sl_len d = word_of_nat (length bs)" using gb(4,7) by (simp add: word_unat_eq_iff unat_of_nat64)
  have a: "AddPhysSegment m d limit = Ok (r, m')" using rs n m' l by (simp add: AddPhysSegment_def)
  note rp = ReservePhys_correct [OF inv(1) assms(4) rs] and ap = AddPhysSegment_correct [OF inv(1) assms(4) a]
  show "agrees h h'" "free_range m r" "Size r = UpPage (word_of_nat (length bs))" "Start limit \<le> Start r" "End r \<le> End limit"
    by (fact gb rp)+
  show "type_at (MPhys m') p = (if p \<in> pts r then Some RangeReserved else type_at (MPhys m) p)"
    using ap(5) .
  have set: "set (MSegments m') = insert s (set (MSegments m))" using m' rp(6) set_Insert [of m1 s] by simp
  then show "set (MSegments m) \<subseteq> set (MSegments m')" by blast
  have s: "s = \<lparr>Buf = \<lparr>Start = sl_ptr d, Size = sl_len d\<rparr>, Phys = r\<rparr>" "sl_len d \<noteq> 0"
    using n gb(3) by (auto simp: NewSegment_def split: if_splits)
  have "unat (sl_len d) + 4095 < 2 ^ 64" using gb(4,7) by simp
  from UpPage_ge [OF this] have le: "length bs \<le> unat (Size r)" using rp(2) l gb(4) by simp
  have "seg_ok s" using rp(1) gb(3,4,6) s le by (auto simp: seg_ok_def free_range_def word_le_nat_alt unat_eq_0)
  then have "segs_ok h' (MSegments m')"
    using segs_ok_agrees [OF gb(1) inv(2)] gb(5) s(1) unfolding segs_ok_def set by auto
  then show "load_inv h' m'" using ap(3) by (simp add: load_inv_def)
  have "gbytes h' (toSlice (Buf s)) = bs" using gb(2) by (simp add: s(1) toSlice_def gbytes_def)
  then show "holds h' m' r bs" unfolding holds_def using set s(1) gb(4) le by (intro bexI [of _ s]) simp_all
qed

lemma add_bytes_free:
  assumes "mem_inv m" "add_bytes alloc bs (h, m) = Ok (r, h', m')"
  shows "free_range m r \<and> M1 \<le> Start r \<and> 4096 dvd unat (Start r) \<and> MPhys m' = MPhys m"
proof -
  obtain d where a: "AddKexecSegment m d = Ok (r, m')" using assms(2) by (auto simp: add_bytes_def)
  show ?thesis using AddKexecSegment_correct [OF assms(1) a] by blast
qed

text \<open>C16: a purgatory (one loadable segment that does not wrap around) is placed at the address it was linked for and nowhere
  else, when the loader succeeds: the segment holds the bytes of its file, zeros behind them up to whole pages, and in bytes
  8 to 23 the entry point of the kernel and the address of the parameters; it takes RAM no other segment uses.\<close>

theorem purgatory_placed:
  assumes "alloc_ok alloc" "alloc_high alloc" "load_inv h m"
    and "parse_elf (PuCode cur) = Ok f" "ef_segs f = [p]" "unat (es_vaddr p) + unat (UpPage (es_memsz p)) < 2 ^ 64"
    and "purgatory_Load alloc parse_elf cur h m entry rsi = Ok (e, h', m')"
  shows "e = ef_entry f \<and> load_inv h' m' \<and>
    (\<exists>bs xs. holds h' m' \<lparr>Start = es_vaddr p, Size = UpPage (es_memsz p)\<rparr> bs \<and>
      es_read p (unat (es_filesz p)) = (xs, None) \<and> length bs = unat (UpPage (es_memsz p)) \<and>
      purgatory_image (take (unat (es_filesz p)) xs) entry rsi bs) \<and>
    free_range m \<lparr>Start = es_vaddr p, Size = UpPage (es_memsz p)\<rparr>"
proof -
  let ?S = "UpPage (es_memsz p)"
  obtain bs d r m1 s where s: "purgatory_bytes p entry rsi = Ok bs"
      "(go_bytes alloc h bs :: (loader_error, heap \<times> gslice) res) = Ok (h', d)"
      "ReservePhys m (word_of_nat (length bs)) (RangeFromInterval (es_vaddr p) (es_vaddr p + word_of_nat (length bs))) = Ok (r, m1)"
      "NewSegment d r = Ok s" "e = ef_entry f" "m' = m1\<lparr>MSegments := Segments_Insert (MSegments m1) s\<rparr>"
    using assms(4,5,7) by (auto simp: purgatory_Load_def Let_def)
  note b = purgatory_bytes_Ok [OF s(1)] and g = go_bytes_Ok [OF assms(1,2) s(2)]
  have n: "word_of_nat (length bs) = ?S" using b(1) by (simp add: word_unat_eq_iff)
  have up: "UpPage ?S = ?S" by (rule UpPage_eq [OF UpPage_dvd]) (use g(7) b(1) in simp)
  let ?l = "RangeFromInterval (es_vaddr p) (es_vaddr p + ?S)"
  have l: "?l = \<lparr>Start = es_vaddr p, Size = ?S\<rparr>" by (simp add: RangeFromInterval_def)
  have v: "valid_range ?l" using assms(6) by (simp add: l valid_range_def)
  have rs: "ReservePhys m (word_of_nat (length bs)) ?l = Ok (r, m1)" using s(3) n by simp
  note rp = reserve_placed [OF assms(1-3) v s(2) rs s(4) s(6)]
  have "Start r = es_vaddr p"
  proof -
    have vr: "valid_range r" using rp(5) by (simp add: free_range_def)
    have "unat (Start r) + unat ?S \<le> unat (es_vaddr p) + unat ?S"
      using rp(8) unat_End [OF vr] unat_End [OF v] rp(6) up n by (simp add: l word_le_nat_alt)
    then show ?thesis using rp(7) by (simp add: l word_le_nat_alt word_unat_eq_iff)
  qed
  then have r: "r = \<lparr>Start = es_vaddr p, Size = ?S\<rparr>" using rp(6) up n by (cases r) simp
  show ?thesis using rp(1,2,5) b s(5) unfolding r by blast
qed

definition ex_purgatory_file :: "byte list" where
  "ex_purgatory_file = [0x90, 0x91] @ replicate 28 0x92"

definition ex_purgatory :: elf_seg where
  "ex_purgatory = \<lparr>es_memsz = 100, es_filesz = 30, es_vaddr = 0x40003000, es_read = \<lambda>n. (take n ex_purgatory_file, None)\<rparr>"

theorem purgatory_placed_witness:
  "\<exists>h' m' bs. purgatory_Load bump_alloc (\<lambda>_. Ok \<lparr>ef_entry = 0x40003000, ef_segs = [ex_purgatory]\<rparr>)
     \<lparr>PuName = [], PuCode = []\<rparr> \<lparr>hmem = \<lambda>_. 0, hblocks = []\<rparr> (arm_memory []) 5 6 = Ok (0x40003000, h', m') \<and> load_inv h' m' \<and>
     holds h' m' \<lparr>Start = 0x40003000, Size = 0x1000\<rparr> bs \<and> bs ! 1 = 0x91 \<and> bs ! 8 = 5 \<and> bs ! 16 = 6 \<and> bs ! 29 = 0x92 \<and> bs ! 30 = 0"
proof -
  let ?p = "ex_purgatory"
  let ?h = "\<lparr>hmem = \<lambda>_. 0, hblocks = []\<rparr> :: heap" and ?cur = "\<lparr>PuName = [], PuCode = []\<rparr> :: Purgatory"
  let ?e = "\<lambda>_ :: byte list. (Ok \<lparr>ef_entry = 0x40003000, ef_segs = [?p]\<rparr> :: (string, elf_file) res)"
  have u: "UpPage 100 = 4096" by (simp add: UpPage_def Up_def pageSize_def)
  obtain bs where b: "purgatory_bytes ?p 5 6 = Ok bs"
    by (simp add: purgatory_bytes_def u put_le64_def ex_purgatory_def ex_purgatory_file_def)
  have l: "length bs = 4096" using purgatory_bytes_Ok(1) [OF b] u by (simp add: ex_purgatory_def)
  have i: "load_inv ?h (arm_memory [])"
    by (simp add: load_inv_def segs_ok_def mem_inv_def map_ok_def phys_ranges_def Segments_Phys_def valid_range_def End_def)
  have "\<exists>m1. ReservePhys (arm_memory []) 4096 (RangeFromInterval 0x40003000 0x40004000) = Ok (\<lparr>Start = 0x40003000, Size = 0x1000\<rparr>, m1)"
    by (simp add: ReservePhys_def place_defs UpPage_def Up_def kexec_defs)
  then have "\<exists>h' m'. purgatory_Load bump_alloc ?e ?cur ?h (arm_memory []) 5 6 = Ok (0x40003000, h', m')"
    using b by (auto simp: purgatory_Load_def l go_bytes_def bump_alloc_def NewSegment_def) (auto simp: ex_purgatory_def)
  then obtain h' m' where r: "purgatory_Load bump_alloc ?e ?cur ?h (arm_memory []) 5 6 = Ok (0x40003000, h', m')" by blast
  have w: "unat (es_vaddr ?p) + unat (UpPage (es_memsz ?p)) < 2 ^ 64" by (simp add: u ex_purgatory_def)
  from purgatory_placed [where p = ?p and f = "\<lparr>ef_entry = 0x40003000, ef_segs = [?p]\<rparr>", OF bump_alloc_ok bump_alloc_high i _ _ w r]
  obtain bs xs where o: "load_inv h' m'" "holds h' m' \<lparr>Start = es_vaddr ?p, Size = UpPage (es_memsz ?p)\<rparr> bs"
    "es_read ?p (unat (es_filesz ?p)) = (xs, None)" "length bs = unat (UpPage (es_memsz ?p))"
    "purgatory_image (take (unat (es_filesz ?p)) xs) 5 6 bs" by auto
  have "xs = ex_purgatory_file" using o(3) by (auto simp: ex_purgatory_def ex_purgatory_file_def)
  then have "length bs = 4096" "take 30 xs = ex_purgatory_file" using o(4) u by (simp_all add: ex_purgatory_def ex_purgatory_file_def)
  moreover have first: "le_nat (Suc n) k ! 0 = word_of_nat k" for n k by (simp add: le_nat_def)
  then have "le_nat 8 5 ! 0 = 5" "le_nat 8 6 ! 0 = 6" using first [of 7 5] first [of 7 6] by simp_all
  ultimately have "bs ! 1 = 0x91" "bs ! 8 = 5" "bs ! 16 = 6" "bs ! 29 = 0x92" "bs ! 30 = 0"
    using o(5) by (simp_all add: purgatory_image_def ex_purgatory_def ex_purgatory_file_def)
  with r o(1,2) show ?thesis using u by (auto simp: ex_purgatory_def)
qed

section \<open>The place of the boot parameters\<close>

text \<open>
  The amd64 loader passes the length of the parameters for the end of the range to search. The range then
  ends below its start: without RAM below the length the parameters are never placed, and with it they may
  be placed beyond the end of the RAM.
\<close>

lemma setup_needs_low_RAM:
  assumes "\<forall>r \<in> set (AvailableRAM m). 3820 \<le> Start r"
  shows "AddPhysSegment m d (RangeFromInterval 0x90000 3820) = Err (ErrNotEnoughSpace (UpPage (sl_len d)))"
proof -
  have "FindSpaceIn rs sz (RangeFromInterval 0x90000 3820) = Err (ErrNotEnoughSpace sz)"
    if "\<forall>r \<in> set rs. 3820 \<le> Start r" for rs sz
    using that by (induction rs) (auto simp: Intersect_def Overlaps_def End_def RangeFromInterval_def not_less)
  then show ?thesis using assms by (simp add: AddPhysSegment_def ReservePhys_def)
qed

lemma setup_outside_RAM:
  "\<exists>m'. AddPhysSegment \<lparr>MPhys = [\<lparr>TRange = \<lparr>Start = 0, Size = 0x90800\<rparr>, TType = RangeRAM\<rparr>], MSegments = []\<rparr>
     \<lparr>sl_ptr = 0x10000, sl_len = 3820, sl_cap = 3820\<rparr> (RangeFromInterval 0x90000 3820) = Ok (\<lparr>Start = 0x90000, Size = 0x1000\<rparr>, m')"
  by (simp add: AddPhysSegment_def ReservePhys_def place_defs UpPage_def Up_def kexec_defs)

end
