(* ===== verification/Ibft.thy ===== *)
theory Ibft imports UioLexer BinStruct begin

text \<open>
  \<open>pkg/boot/ibft/ibft.go\<close>: the iSCSI Boot Firmware Table as the bytes a boot loader leaves in memory. A
  \<open>net.IP\<close> is a byte slice that may be \<open>nil\<close>. The table proper and the heap of strings behind it are two
  lexers; structures in the table point into the heap.
\<close>

section \<open>Data\<close>

type_synonym IP = "byte list option"

record IPNet =
  NetIP :: IP
  NetMask :: "byte list"

record TCPAddr =
  TcpIP :: IP
  TcpPort :: int

record acpiHeader =
  AcSignature :: "byte list"
  AcLength :: u32
  AcRevision :: byte
  AcChecksum :: byte
  AcOEMID :: "byte list"
  AcOEMTableID :: "byte list"
  AcOEMRevision :: u64
  AcCreatorID :: u64
  AcCreatorRevision :: u64

record ibftStructHeader =
  ShID :: byte
  ShVersion :: byte
  ShLength :: u16
  ShIndex :: byte
  ShFlags :: byte

record Initiator =
  InName :: string
  InValid :: bool
  InBoot :: bool
  SNSServer :: IP
  SLPServer :: IP
  PrimaryRadiusServer :: IP
  SecondaryRadiusServer :: IP

record BDF =
  Bus :: byte
  Device :: byte
  Function :: byte

record NIC =
  NicValid :: bool
  NicBoot :: bool
  NicGlobal :: bool
  NicIPNet :: "IPNet option"
  NicOrigin :: byte
  Gateway :: IP
  PrimaryDNS :: IP
  SecondaryDNS :: IP
  DHCPServer :: IP
  VLAN :: u16
  MACAddress :: "byte list"
  PCIBDF :: BDF
  HostName :: string

record Target =
  TgValid :: bool
  TgBoot :: bool
  CHAP :: bool
  RCHAP :: bool
  TgTarget :: "TCPAddr option"
  BootLUN :: u64
  CHAPType :: byte
  NICAssociation :: byte
  TargetName :: string
  CHAPName :: string
  CHAPSecret :: string
  ReverseCHAPName :: string
  ReverseCHAPSecret :: string

record IBFT =
  SingleLoginMode :: bool
  IbInitiator :: Initiator
  NIC0 :: NIC
  Target0 :: Target

record ibftControl =
  CtSingleLogin :: bool
  CtInitiator :: u16
  CtNIC0 :: u16
  CtTarget0 :: u16
  CtNIC1 :: u16
  CtTarget1 :: u16

record heapTable =
  heapOffset :: u64
  HTable :: Lexer
  HHeap :: Lexer

definition ibft_signature :: "byte list" where "ibft_signature = str_bytes ''iBFT''"
definition oemID :: "byte list" where "oemID = str_bytes ''Google''"
definition oemTableID :: "byte list" where "oemTableID = str_bytes ''GoogIBFT''"

definition ibftControlID :: byte where "ibftControlID = 1"
definition ibftInitiatorID :: byte where "ibftInitiatorID = 2"
definition ibftNICID :: byte where "ibftNICID = 3"
definition ibftTargetID :: byte where "ibftTargetID = 4"

definition ibftControlLen :: u16 where "ibftControlLen = 18"
definition ibftInitiatorLen :: u16 where "ibftInitiatorLen = 74"
definition ibftNICLen :: u16 where "ibftNICLen = 102"
definition ibftTargetLen :: u16 where "ibftTargetLen = 54"

definition initiatorOffset :: u16 where "initiatorOffset = 0x48"
definition nic0Offset :: u16 where "nic0Offset = 0x98"
definition target0Offset :: u16 where "target0Offset = 0x100"
definition ibft_heapOffset :: u64 where "ibft_heapOffset = 0x138"

section \<open>Marshalling\<close>

text \<open>\<open>net.IP.To16\<close> and \<open>net.IPMask.Size\<close>.\<close>

definition To16 :: "byte list \<Rightarrow> byte list" where
  "To16 ip = (if length ip = 4 then replicate 10 0 @ [0xff, 0xff] @ ip else if length ip = 16 then ip else [])"

fun simpleMaskLength :: "byte list \<Rightarrow> nat option" where
  "simpleMaskLength [] = Some 0"
| "simpleMaskLength (v # vs) =
     (if v = 0xff then map_option (\<lambda>n. 8 + n) (simpleMaskLength vs)
      else let n = length (takeWhile (bit v) [7, 6, 5, 4, 3, 2, 1, 0]) in
        if push_bit n v \<noteq> 0 \<or> (\<exists>w \<in> set vs. w \<noteq> 0) then None else Some n)"

definition mask_ones :: "byte list \<Rightarrow> nat" where
  "mask_ones m = (case simpleMaskLength m of None \<Rightarrow> 0 | Some n \<Rightarrow> n)"

fun flags_from :: "nat \<Rightarrow> bool list \<Rightarrow> byte \<Rightarrow> byte" where
  "flags_from n [] i = i"
| "flags_from n (f # fs) i = flags_from (Suc n) fs (if f then i OR push_bit n 1 else i AND NOT (push_bit n 1))"

definition flags :: "bool list \<Rightarrow> byte" where "flags s = flags_from 0 s 0"

definition writeIP6 :: "IP \<Rightarrow> Lexer \<Rightarrow> Lexer" where
  "writeIP6 ip l = (case ip of None \<Rightarrow> WriteBytes (replicate 16 0) l | Some b \<Rightarrow> WriteBytes (To16 b) l)"

definition encode_acpi :: "acpiHeader \<Rightarrow> endian \<Rightarrow> byte list" where
  "encode_acpi a e = AcSignature a @ put_uint e 4 (unat (AcLength a)) @ [AcRevision a, AcChecksum a] @ AcOEMID a @
     AcOEMTableID a @ put_uint e 8 (unat (AcOEMRevision a)) @ put_uint e 8 (unat (AcCreatorID a)) @
     put_uint e 8 (unat (AcCreatorRevision a))"

definition encode_sh :: "ibftStructHeader \<Rightarrow> endian \<Rightarrow> byte list" where
  "encode_sh s e = [ShID s, ShVersion s] @ put_uint e 2 (unat (ShLength s)) @ [ShIndex s, ShFlags s]"

definition on_table :: "(Lexer \<Rightarrow> Lexer) \<Rightarrow> heapTable \<Rightarrow> heapTable" where
  "on_table f h = h\<lparr>HTable := f (HTable h)\<rparr>"

definition writeHeap :: "byte list \<Rightarrow> heapTable \<Rightarrow> heapTable" where
  "writeHeap item h =
     (if length item = 0 then on_table (Write16 0) (on_table (Write16 0) h)
      else
        let offset = heapOffset h + word_of_nat (Buffer_Len (buf (HHeap h)));
            h1 = on_table (Write16 (word_of_nat (length item))) h;
            h2 = on_table (Write16 (ucast offset)) h1
        in h2\<lparr>HHeap := Write8 0 (WriteBytes item (HHeap h2))\<rparr>)"

definition Initiator_marshal :: "Initiator \<Rightarrow> heapTable \<Rightarrow> heapTable" where
  "Initiator_marshal i h =
     (let header = \<lparr>ShID = ibftInitiatorID, ShVersion = 1, ShLength = ibftInitiatorLen, ShIndex = 0,
            ShFlags = flags [InValid i, InBoot i]\<rparr>;
          h = on_table (WriteData (encode_sh header)) h;
          h = on_table (writeIP6 (SNSServer i)) h;
          h = on_table (writeIP6 (SLPServer i)) h;
          h = on_table (writeIP6 (PrimaryRadiusServer i)) h;
          h = on_table (writeIP6 (SecondaryRadiusServer i)) h
      in writeHeap (str_bytes (InName i)) h)"

definition BDF_marshal :: "BDF \<Rightarrow> heapTable \<Rightarrow> heapTable" where
  "BDF_marshal b h =
     on_table (Write16 (push_bit 8 (ucast (Bus b)) OR push_bit 3 (ucast (Device b)) OR ucast (Function b))) h"

definition NIC_marshal :: "NIC \<Rightarrow> heapTable \<Rightarrow> heapTable" where
  "NIC_marshal n h =
     (let header = \<lparr>ShID = ibftNICID, ShVersion = 1, ShLength = ibftNICLen, ShIndex = 0,
            ShFlags = flags [NicValid n, NicBoot n, NicGlobal n]\<rparr>;
          h = on_table (WriteData (encode_sh header)) h;
          h = (case NicIPNet n of
                 None \<Rightarrow> on_table (Write8 0) (on_table (writeIP6 (Some (replicate 16 0))) h)
               | Some net \<Rightarrow> on_table (Write8 (word_of_nat (mask_ones (NetMask net)))) (on_table (writeIP6 (NetIP net)) h));
          h = on_table (Write8 (NicOrigin n)) h;
          h = on_table (writeIP6 (Gateway n)) h;
          h = on_table (writeIP6 (PrimaryDNS n)) h;
          h = on_table (writeIP6 (SecondaryDNS n)) h;
          h = on_table (writeIP6 (DHCPServer n)) h;
          h = on_table (Write16 (VLAN n)) h;
          mac = take 6 (MACAddress n);
          h = on_table (WriteBytes (mac @ replicate (6 - length mac) 0)) h;
          h = BDF_marshal (PCIBDF n) h
      in writeHeap (str_bytes (HostName n)) h)"

definition Target_marshal :: "Target \<Rightarrow> heapTable \<Rightarrow> heapTable" where
  "Target_marshal t h =
     (let header = \<lparr>ShID = ibftTargetID, ShVersion = 1, ShLength = ibftTargetLen, ShIndex = 0,
            ShFlags = flags [TgValid t, TgBoot t, CHAP t, RCHAP t]\<rparr>;
          h = on_table (WriteData (encode_sh header)) h;
          h = (case TgTarget t of
                 None \<Rightarrow> on_table (Write16 0) (on_table (writeIP6 (Some (replicate 16 0))) h)
               | Some a \<Rightarrow> on_table (Write16 (word_of_int (TcpPort a))) (on_table (writeIP6 (TcpIP a)) h));
          h = on_table (Write64 (BootLUN t)) h;
          h = on_table (Write8 (CHAPType t)) h;
          h = on_table (Write8 (NICAssociation t)) h;
          h = writeHeap (str_bytes (TargetName t)) h;
          h = writeHeap (str_bytes (CHAPName t)) h;
          h = writeHeap (str_bytes (CHAPSecret t)) h;
          h = writeHeap (str_bytes (ReverseCHAPName t)) h
      in writeHeap (str_bytes (ReverseCHAPSecret t)) h)"

definition ibftControl_marshal :: "ibftControl \<Rightarrow> heapTable \<Rightarrow> heapTable" where
  "ibftControl_marshal c h =
     (let header = \<lparr>ShID = ibftControlID, ShVersion = 1, ShLength = ibftControlLen, ShIndex = 0,
            ShFlags = flags [CtSingleLogin c]\<rparr>;
          h = on_table (WriteData (encode_sh header)) h;
          h = on_table (Write16 0) h;
          h = on_table (Write16 (CtInitiator c)) h;
          h = on_table (Write16 (CtNIC0 c)) h;
          h = on_table (Write16 (CtTarget0 c)) h;
          h = on_table (Write16 (CtNIC1 c)) h
      in on_table (Write16 (CtTarget1 c)) h)"

definition gencsum :: "byte list \<Rightarrow> byte" where
  "gencsum b = NOT (foldl (+) 0 b) + 1"

text \<open>Indexing behind the end panics.\<close>

definition fixACPIHeader :: "byte list \<Rightarrow> (lexer_error, byte list) res" where
  "fixACPIHeader b =
     (if length b < 10 then Panic
      else let b1 = take 4 b @ le_nat 2 (length b) @ drop 6 b in Ok (b1[9 := gencsum b1]))"

definition ibft_align :: "heapTable \<Rightarrow> (lexer_error, heapTable) res" where
  "ibft_align h = rbind (Lexer_Align (HTable h) 8) (\<lambda>t. Ok (h\<lparr>HTable := t\<rparr>))"

definition IBFT_Marshal :: "IBFT \<Rightarrow> (lexer_error, byte list) res" where
  "IBFT_Marshal i =
     (let h = \<lparr>heapOffset = ibft_heapOffset, HTable = NewLittleEndianBuffer None, HHeap = NewLittleEndianBuffer None\<rparr>;
          header = \<lparr>AcSignature = ibft_signature, AcLength = 0, AcRevision = 1, AcChecksum = 0, AcOEMID = oemID,
            AcOEMTableID = oemTableID, AcOEMRevision = 0, AcCreatorID = 0, AcCreatorRevision = 0\<rparr>;
          control = \<lparr>CtSingleLogin = SingleLoginMode i, CtInitiator = initiatorOffset, CtNIC0 = nic0Offset,
            CtTarget0 = target0Offset, CtNIC1 = 0, CtTarget1 = 0\<rparr>
      in
      rbind (ibft_align (on_table (WriteData (encode_acpi header)) h)) (\<lambda>h.
      rbind (ibft_align (ibftControl_marshal control h)) (\<lambda>h.
      rbind (ibft_align (Initiator_marshal (IbInitiator i) h)) (\<lambda>h.
      rbind (ibft_align (NIC_marshal (NIC0 i) h)) (\<lambda>h.
      rbind (ibft_align (Target_marshal (Target0 i) h)) (\<lambda>h.
        fixACPIHeader (Data (WriteBytes (Data (HHeap h)) (HTable h)))))))))"


section \<open>What the marshallers write\<close>

abbreviation tab :: "heapTable \<Rightarrow> byte list" where "tab h \<equiv> Data (HTable h)"
abbreviation hp :: "heapTable \<Rightarrow> byte list" where "hp h \<equiv> Data (HHeap h)"

definition le_ok :: "heapTable \<Rightarrow> bool" where
  "le_ok h \<longleftrightarrow> order (HTable h) = LittleEndian \<and> order (HHeap h) = LittleEndian"

lemma put_uint_le: "put_uint LittleEndian n k = le_nat n k"
  by (simp add: le_nat_def)

lemma le_nat_mod: "le_nat n (k mod 256 ^ n) = le_nat n k"
  by (metis le_nat_un_le length_le_nat un_le_def le_nat_def rev_rev_ident un_be_be_nat)

lemma WriteData_order: "order (WriteData enc l) = order l"
  by (simp add: WriteData_def Lexer_Write_def lexer_append_def Let_def)

lemma WriteData_Data: "Data (WriteData enc l) = Data l @ enc (order l)"
  using Write_Data(5) [of "enc (order l)" l] by (simp add: WriteData_def Lexer_Write_def WriteBytes_def Let_def)

lemma WriteBytes_order: "order (WriteBytes p l) = order l"
  by (simp add: WriteBytes_def lexer_append_def Let_def)

definition ip_bytes :: "IP \<Rightarrow> byte list" where
  "ip_bytes ip = (case ip of None \<Rightarrow> replicate 16 0 | Some b \<Rightarrow> To16 b)"

lemma writeIP6_eq: "writeIP6 ip = WriteBytes (ip_bytes ip)"
  by (auto simp: writeIP6_def ip_bytes_def fun_eq_iff split: option.splits)

lemma on_table_simps [simp]:
  "HHeap (on_table f h) = HHeap h" "heapOffset (on_table f h) = heapOffset h" "HTable (on_table f h) = f (HTable h)"
  by (simp_all add: on_table_def)

lemmas order_keeps = f8.put_keeps(1) f16.put_keeps(1) f64.put_keeps(1) WriteBytes_order WriteData_order

lemma le_ok_on_table [simp]:
  "le_ok (on_table (Write8 v8) h) = le_ok h" "le_ok (on_table (Write16 v16) h) = le_ok h"
  "le_ok (on_table (Write64 v64) h) = le_ok h" "le_ok (on_table (WriteBytes p) h) = le_ok h"
  "le_ok (on_table (WriteData enc) h) = le_ok h"
  by (simp_all add: le_ok_def order_keeps)

text \<open>The pointer to a string and the string in the heap.\<close>

definition slot :: "nat \<Rightarrow> byte list \<Rightarrow> byte list" where
  "slot p s = (if s = [] then le_nat 2 0 @ le_nat 2 0 else le_nat 2 (length s) @ le_nat 2 p)"

definition item :: "byte list \<Rightarrow> byte list" where
  "item s = (if s = [] then [] else s @ [0])"

lemma length_slot [simp]: "length (slot p s) = 4"
  by (simp add: slot_def)

definition heap_at :: "heapTable \<Rightarrow> nat" where
  "heap_at h = unat (heapOffset h) + length (hp h)"

lemma heap_at_table [simp]: "heap_at (on_table f h) = heap_at h"
  by (simp add: heap_at_def)

lemma writeHeap_writes:
  assumes "le_ok h"
  shows "tab (writeHeap s h) = tab h @ slot (heap_at h) s" "hp (writeHeap s h) = hp h @ item s"
    "heap_at (writeHeap s h) = heap_at h + length (item s)" "le_ok (writeHeap s h)"
    "heapOffset (writeHeap s h) = heapOffset h"
proof -
  have n: "rev (be_nat 2 (unat (word_of_nat k :: u16))) = le_nat 2 k" for k
    using le_nat_mod [of 2 k] by (simp add: unat_of_nat take_bit_eq_mod le_nat_def)
  let ?o = "heapOffset h + word_of_nat (length (hp h)) :: u64"
  have "unat (ucast ?o :: u16) mod 256 ^ 2 = heap_at h mod 256 ^ 2"
    by (simp add: heap_at_def unat_word_ariths unat_of_nat unsigned_ucast_eq take_bit_eq_mod mod_mod_cancel mod_simps)
  then have o: "rev (be_nat 2 (unat (ucast ?o :: u16))) = le_nat 2 (heap_at h)" by (metis le_nat_mod le_nat_def)
  note defs = writeHeap_def slot_def item_def Let_def Buffer_Len_def Data_def [symmetric] Write_Data le_ok_def order_keeps
  show "tab (writeHeap s h) = tab h @ slot (heap_at h) s" using assms o n by (simp add: defs le_nat_def)
  show "hp (writeHeap s h) = hp h @ item s" using assms by (simp add: defs)
  then show "heap_at (writeHeap s h) = heap_at h + length (item s)"
    by (simp add: heap_at_def) (simp add: writeHeap_def Let_def)
  show "le_ok (writeHeap s h)" using assms by (simp add: defs)
  show "heapOffset (writeHeap s h) = heapOffset h" by (simp add: writeHeap_def Let_def)
qed

text \<open>The structures as bytes; \<open>p\<close> is the place of the next string.\<close>

definition sh_bytes :: "byte \<Rightarrow> nat \<Rightarrow> byte \<Rightarrow> byte list" where
  "sh_bytes ty n f = [ty, 1] @ le_nat 2 n @ [0, f]"

definition ini_bytes :: "Initiator \<Rightarrow> nat \<Rightarrow> byte list" where
  "ini_bytes i p = sh_bytes 2 74 (flags [InValid i, InBoot i]) @ ip_bytes (SNSServer i) @ ip_bytes (SLPServer i) @
     ip_bytes (PrimaryRadiusServer i) @ ip_bytes (SecondaryRadiusServer i) @ slot p (str_bytes (InName i))"

definition net_bytes :: "IPNet option \<Rightarrow> byte list" where
  "net_bytes n = (case n of None \<Rightarrow> replicate 16 0 @ [0] | Some net \<Rightarrow> ip_bytes (NetIP net) @ [word_of_nat (mask_ones (NetMask net))])"

definition mac_bytes :: "byte list \<Rightarrow> byte list" where
  "mac_bytes m = take 6 m @ replicate (6 - length (take 6 m)) 0"

definition bdf_bytes :: "BDF \<Rightarrow> byte list" where
  "bdf_bytes b = le_nat 2 (unat (push_bit 8 (ucast (Bus b)) OR push_bit 3 (ucast (Device b)) OR ucast (Function b) :: u16))"

definition nic_bytes :: "NIC \<Rightarrow> nat \<Rightarrow> byte list" where
  "nic_bytes n p = sh_bytes 3 102 (flags [NicValid n, NicBoot n, NicGlobal n]) @ net_bytes (NicIPNet n) @ [NicOrigin n] @
     ip_bytes (Gateway n) @ ip_bytes (PrimaryDNS n) @ ip_bytes (SecondaryDNS n) @ ip_bytes (DHCPServer n) @
     le_nat 2 (unat (VLAN n)) @ mac_bytes (MACAddress n) @ bdf_bytes (PCIBDF n) @ slot p (str_bytes (HostName n))"

definition addr_bytes :: "TCPAddr option \<Rightarrow> byte list" where
  "addr_bytes a = (case a of None \<Rightarrow> replicate 16 0 @ le_nat 2 0
     | Some t \<Rightarrow> ip_bytes (TcpIP t) @ le_nat 2 (unat (word_of_int (TcpPort t) :: u16)))"

fun slots :: "nat \<Rightarrow> byte list list \<Rightarrow> byte list" where
  "slots p [] = []"
| "slots p (s # ss) = slot p s @ slots (p + length (item s)) ss"

definition tgt_strings :: "Target \<Rightarrow> byte list list" where
  "tgt_strings t = map str_bytes [TargetName t, CHAPName t, CHAPSecret t, ReverseCHAPName t, ReverseCHAPSecret t]"

definition tgt_bytes :: "Target \<Rightarrow> nat \<Rightarrow> byte list" where
  "tgt_bytes t p = sh_bytes 4 54 (flags [TgValid t, TgBoot t, CHAP t, RCHAP t]) @ addr_bytes (TgTarget t) @
     le_nat 8 (unat (BootLUN t)) @ [CHAPType t, NICAssociation t] @ slots p (tgt_strings t)"

lemmas id_defs = ibftControlID_def ibftInitiatorID_def ibftNICID_def ibftTargetID_def
  ibftControlLen_def ibftInitiatorLen_def ibftNICLen_def ibftTargetLen_def

definition ctl_bytes :: "ibftControl \<Rightarrow> byte list" where
  "ctl_bytes c = sh_bytes 1 18 (flags [CtSingleLogin c]) @
     concat (map (\<lambda>w. le_nat 2 (unat w)) [0, CtInitiator c, CtNIC0 c, CtTarget0 c, CtNIC1 c, CtTarget1 c])"

text \<open>A marshaller appends \<open>t\<close> to the table and \<open>s\<close> to the heap.\<close>

definition emits :: "heapTable \<Rightarrow> heapTable \<Rightarrow> byte list \<Rightarrow> byte list \<Rightarrow> bool" where
  "emits h h' t s \<longleftrightarrow> le_ok h' \<and> tab h' = tab h @ t \<and> hp h' = hp h @ s \<and> heapOffset h' = heapOffset h"

lemmas emit_simps = emits_def writeIP6_eq writeHeap_writes Write_Data WriteData_Data order_keeps put_uint_le id_defs encode_sh_def sh_bytes_def

lemma Control_emits: "le_ok h \<Longrightarrow> emits h (ibftControl_marshal c h) (ctl_bytes c) []"
  unfolding ibftControl_marshal_def Let_def ctl_bytes_def
  by (simp add: emit_simps) (simp add: le_ok_def le_nat_def)

lemma Initiator_emits: "le_ok h \<Longrightarrow> emits h (Initiator_marshal i h) (ini_bytes i (heap_at h)) (item (str_bytes (InName i)))"
  unfolding Initiator_marshal_def Let_def ini_bytes_def
  by (simp add: emit_simps) (simp add: le_ok_def le_nat_def)

lemma NIC_emits: "le_ok h \<Longrightarrow> emits h (NIC_marshal n h) (nic_bytes n (heap_at h)) (item (str_bytes (HostName n)))"
  unfolding NIC_marshal_def Let_def nic_bytes_def BDF_marshal_def
  by (cases "NicIPNet n")
    (simp_all add: emit_simps, simp_all add: le_ok_def le_nat_def net_bytes_def ip_bytes_def [of "Some (replicate 16 0)"] To16_def mac_bytes_def bdf_bytes_def)

lemma Target_emits:
  "le_ok h \<Longrightarrow> emits h (Target_marshal t h) (tgt_bytes t (heap_at h)) (concat (map item (tgt_strings t)))"
  unfolding Target_marshal_def Let_def tgt_bytes_def tgt_strings_def
  by (cases "TgTarget t")
    (simp_all add: emit_simps, simp_all add: le_ok_def le_nat_def addr_bytes_def ip_bytes_def [of "Some (replicate 16 0)"] To16_def add.assoc)

section \<open>The table\<close>

lemma align_emits:
  assumes "le_ok h" "length (tab h) = n" "sint (Up (word_of_nat n) 8) - int n = int k"
  shows "\<exists>h'. ibft_align h = Ok h' \<and> emits h h' (replicate k 0) []"
  using assms
  by (auto simp: ibft_align_def Lexer_Align_def Buffer_Len_def Data_def Let_def emits_def le_ok_def Append_def
      lexer_append_def WriteN_def)

definition ip_ok :: "IP \<Rightarrow> bool" where
  "ip_ok ip \<longleftrightarrow> (case ip of None \<Rightarrow> True | Some b \<Rightarrow> length b \<in> {4, 16})"

definition ibft_ips :: "IBFT \<Rightarrow> IP list" where
  "ibft_ips i = (let n = IbInitiator i; c = NIC0 i; t = Target0 i in
     [SNSServer n, SLPServer n, PrimaryRadiusServer n, SecondaryRadiusServer n,
      (case NicIPNet c of None \<Rightarrow> None | Some net \<Rightarrow> NetIP net), Gateway c, PrimaryDNS c, SecondaryDNS c, DHCPServer c,
      (case TgTarget t of None \<Rightarrow> None | Some a \<Rightarrow> TcpIP a)])"

definition ibft_strings :: "IBFT \<Rightarrow> byte list list" where
  "ibft_strings i = [str_bytes (InName (IbInitiator i)), str_bytes (HostName (NIC0 i))] @ tgt_strings (Target0 i)"

definition ibft_heap :: "IBFT \<Rightarrow> byte list" where
  "ibft_heap i = concat (map item (ibft_strings i))"

text \<open>Addresses of four or sixteen bytes, and a table that 16-bit pointers reach.\<close>

definition ibft_ok :: "IBFT \<Rightarrow> bool" where
  "ibft_ok i \<longleftrightarrow> (\<forall>ip \<in> set (ibft_ips i). ip_ok ip) \<and> 0x138 + length (ibft_heap i) < 65536"

lemma length_ip_bytes: "ip_ok ip \<Longrightarrow> length (ip_bytes ip) = 16"
  by (auto simp: ip_ok_def ip_bytes_def To16_def split: option.splits)

lemma length_sh [simp]: "length (sh_bytes ty n f) = 6"
  by (simp add: sh_bytes_def)

lemma length_slots [simp]: "length (slots p ss) = 4 * length ss"
  by (induction ss arbitrary: p) simp_all

lemma part_lengths:
  assumes "ibft_ok i"
  shows "length (ini_bytes (IbInitiator i) p) = 74" "length (nic_bytes (NIC0 i) p) = 102" "length (tgt_bytes (Target0 i) p) = 54"
  using assms
  by (auto simp: ibft_ok_def ibft_ips_def Let_def ini_bytes_def nic_bytes_def tgt_bytes_def length_ip_bytes net_bytes_def
      addr_bytes_def mac_bytes_def bdf_bytes_def tgt_strings_def split: option.splits)

definition head_tail :: "byte list" where
  "head_tail = oemID @ oemTableID @ replicate 24 0"

definition the_control :: "IBFT \<Rightarrow> ibftControl" where
  "the_control i = \<lparr>CtSingleLogin = SingleLoginMode i, CtInitiator = initiatorOffset, CtNIC0 = nic0Offset,
     CtTarget0 = target0Offset, CtNIC1 = 0, CtTarget1 = 0\<rparr>"

definition ibft_body :: "IBFT \<Rightarrow> byte list" where
  "ibft_body i =
     (let p1 = 0x138; p2 = p1 + length (item (str_bytes (InName (IbInitiator i))));
          p3 = p2 + length (item (str_bytes (HostName (NIC0 i)))) in
      head_tail @ (ctl_bytes (the_control i) @ replicate 6 0) @ (ini_bytes (IbInitiator i) p1 @ replicate 6 0) @
      (nic_bytes (NIC0 i) p2 @ replicate 2 0) @ (tgt_bytes (Target0 i) p3 @ replicate 2 0) @ ibft_heap i)"

lemma emits_tab: "emits h h' t s \<Longrightarrow> tab h' = tab h @ t" "emits h h' t s \<Longrightarrow> hp h' = hp h @ s"
  "emits h h' t s \<Longrightarrow> le_ok h'" "emits h h' t s \<Longrightarrow> heap_at h' = heap_at h + length s"
  by (simp_all add: emits_def heap_at_def)

lemma IBFT_Marshal_bytes:
  assumes "ibft_ok i"
  shows "IBFT_Marshal i = fixACPIHeader (ibft_signature @ replicate 4 0 @ [1, 0] @ ibft_body i)"
proof -
  let ?h0 = "\<lparr>heapOffset = ibft_heapOffset, HTable = NewLittleEndianBuffer None, HHeap = NewLittleEndianBuffer None\<rparr>"
  let ?hd = "\<lparr>AcSignature = ibft_signature, AcLength = 0, AcRevision = 1, AcChecksum = 0, AcOEMID = oemID,
            AcOEMTableID = oemTableID, AcOEMRevision = 0, AcCreatorID = 0, AcCreatorRevision = 0\<rparr>"
  let ?h1 = "on_table (WriteData (encode_acpi ?hd)) ?h0"
  let ?H = "ibft_signature @ replicate 4 0 @ [1, 0] @ head_tail"
  have "le_nat n 0 = replicate n 0" for n by (induction n) (simp_all add: le_nat_Suc)
  then have z: "rev (be_nat n 0) = replicate n 0" for n by (simp add: le_nat_def)
  have e1: "emits ?h0 ?h1 ?H []" "tab ?h0 = []" "hp ?h0 = []" "heap_at ?h0 = 0x138"
  proof -
    have n: "Data (NewLittleEndianBuffer None) = []" "order (NewLittleEndianBuffer None) = LittleEndian"
      by (simp_all add: NewLittleEndianBuffer_def NewBuffer_def Data_def)
    have "encode_acpi ?hd LittleEndian = ?H"
      by (simp add: encode_acpi_def z head_tail_def replicate_add [symmetric])
    then show "emits ?h0 ?h1 ?H []" by (simp add: emits_def WriteData_Data WriteData_order le_ok_def n)
    show "tab ?h0 = []" "hp ?h0 = []" "heap_at ?h0 = 0x138" by (simp_all add: n heap_at_def ibft_heapOffset_def)
  qed
  have l: "length ?H = 48" by (simp add: head_tail_def ibft_signature_def oemID_def oemTableID_def)
  have t1: "tab ?h1 = ?H" "hp ?h1 = []" "le_ok ?h1" "heap_at ?h1 = 0x138"
    using emits_tab [OF e1(1)] e1 by simp_all
  obtain h2 where h2: "ibft_align ?h1 = Ok h2" "emits ?h1 h2 (replicate 0 0) []"
    using align_emits [OF t1(3), of 48 0] t1(1) l by (auto simp: Up_def)
  note t2 = emits_tab [OF h2(2)]
  note c = emits_tab [OF Control_emits [OF t2(3), of "the_control i"]]
  obtain h3 where h3: "ibft_align (ibftControl_marshal (the_control i) h2) = Ok h3"
      "emits (ibftControl_marshal (the_control i) h2) h3 (replicate 6 0) []"
    using align_emits [OF c(3), of 66 6] c(1) t2(1) t1(1) l by (auto simp: Up_def ctl_bytes_def)
  note t3 = emits_tab [OF h3(2)]
  note n = emits_tab [OF Initiator_emits [OF t3(3), of "IbInitiator i"]]
  obtain h4 where h4: "ibft_align (Initiator_marshal (IbInitiator i) h3) = Ok h4"
      "emits (Initiator_marshal (IbInitiator i) h3) h4 (replicate 6 0) []"
    using align_emits [OF n(3), of 146 6] n(1) t3(1) c(1) t2(1) t1(1) l by (auto simp: Up_def part_lengths [OF assms] ctl_bytes_def)
  note t4 = emits_tab [OF h4(2)]
  note q = emits_tab [OF NIC_emits [OF t4(3), of "NIC0 i"]]
  obtain h5 where h5: "ibft_align (NIC_marshal (NIC0 i) h4) = Ok h5" "emits (NIC_marshal (NIC0 i) h4) h5 (replicate 2 0) []"
    using align_emits [OF q(3), of 254 2] q(1) t4(1) n(1) t3(1) c(1) t2(1) t1(1) l
    by (auto simp: Up_def part_lengths [OF assms] ctl_bytes_def)
  note t5 = emits_tab [OF h5(2)]
  note g = emits_tab [OF Target_emits [OF t5(3), of "Target0 i"]]
  obtain h6 where h6: "ibft_align (Target_marshal (Target0 i) h5) = Ok h6" "emits (Target_marshal (Target0 i) h5) h6 (replicate 2 0) []"
    using align_emits [OF g(3), of 310 2] g(1) t5(1) q(1) t4(1) n(1) t3(1) c(1) t2(1) t1(1) l
    by (auto simp: Up_def part_lengths [OF assms] ctl_bytes_def)
  note t6 = emits_tab [OF h6(2)]
  have "IBFT_Marshal i = fixACPIHeader (tab h6 @ hp h6)"
    using h2(1) h3(1) h4(1) h5(1) h6(1) by (simp add: IBFT_Marshal_def Let_def the_control_def Write_Data)
  also have "tab h6 @ hp h6 = ibft_signature @ replicate 4 0 @ [1, 0] @ ibft_body i"
    using t1 t2 c t3 n t4 q t5 g t6
    by (simp add: ibft_body_def Let_def ibft_heap_def ibft_strings_def)
  finally show ?thesis .
qed

text \<open>Reading the table: 16-bit numbers, and the string a slot points to.\<close>

definition u16_at :: "byte list \<Rightarrow> nat \<Rightarrow> nat" where
  "u16_at b p = un_le (take 2 (drop p b))"

definition string_found :: "byte list \<Rightarrow> nat \<Rightarrow> byte list \<Rightarrow> bool" where
  "string_found b p s \<longleftrightarrow> u16_at b p = length s \<and>
     (s \<noteq> [] \<longrightarrow> take (length s + 1) (drop (u16_at b (p + 2)) b) = s @ [0])"

lemma slot_found:
  assumes "b = U @ slot q s @ V" "length U = p" "b = T @ item s @ W" "length T = q" "length b < 65536"
  shows "string_found b p s"
proof (cases "s = []")
  case True
  have "u16_at b p = un_le (le_nat 2 0)" using assms(1,2) True by (simp add: u16_at_def slot_def)
  then show ?thesis using True by (simp add: string_found_def un_le_le_nat)
next
  case False
  have l: "length s < 256 ^ 2" "q < 256 ^ 2" using assms(3-5) False by (auto simp: item_def)
  have u: "u16_at b p = length s" using assms(1,2) False l by (simp add: u16_at_def slot_def un_le_le_nat)
  have "u16_at b (p + 2) = q" using assms(1,2) False l by (simp add: u16_at_def slot_def un_le_le_nat)
  then show ?thesis using u assms(3,4) False by (simp add: string_found_def item_def)
qed

lemma slots_split:
  "k < length ss \<Longrightarrow> \<exists>W. slots p ss = slots p (take k ss) @ slot (p + length (concat (map item (take k ss)))) (ss ! k) @ W"
proof (induction k arbitrary: p ss)
  case 0
  then show ?case by (cases ss) auto
next
  case (Suc k)
  then obtain s ss' where s: "ss = s # ss'" by (cases ss) auto
  with Suc.IH [of ss' "p + length (item s)"] Suc.prems show ?case by (auto simp: add.assoc)
qed

lemma concat_split: "k < length ss \<Longrightarrow> \<exists>W. concat (map item ss) = concat (map item (take k ss)) @ item (ss ! k) @ W"
  by (metis Cons_nth_drop_Suc append_take_drop_id concat.simps(2) concat_append list.simps(9) map_append)

lemma foldl_sum: "foldl (+) (a :: byte) xs = a + sum_list xs"
  by (induction xs arbitrary: a) (simp_all add: add.assoc)

lemma fixACPIHeader_eq:
  "fixACPIHeader (ibft_signature @ replicate 4 0 @ [1, 0] @ r) =
     Ok (ibft_signature @ le_nat 2 (10 + length r) @ [0, 0, 1, gencsum (ibft_signature @ le_nat 2 (10 + length r) @ [0, 0, 1, 0] @ r)] @ r)"
proof -
  have s: "length ibft_signature = 4" by (simp add: ibft_signature_def)
  have z: "replicate 4 0 = [0, 0, 0, 0 :: byte]" by (simp add: numeral_eq_Suc)
  show ?thesis by (simp add: fixACPIHeader_def s z list_update_append Let_def)
qed

lemma checksum_zero:
  "foldl (+) 0 (a @ gencsum (a @ [0] @ r) # r) = 0"
  by (simp add: foldl_sum gencsum_def minus_eq_not_plus_1 [symmetric])

text \<open>
  The table as the iBFT specification lays it out: the header of a structure with its type, version, length, index and flags,
  an address in sixteen bytes (an IPv4 address mapped into IPv6), a string as a slot of length and place.
\<close>

definition flags_at :: "byte list \<Rightarrow> nat \<Rightarrow> bool list \<Rightarrow> bool" where
  "flags_at b p fs \<longleftrightarrow> (\<forall>k < 8. bit (b ! p) k \<longleftrightarrow> k < length fs \<and> fs ! k)"

definition struct_at :: "byte list \<Rightarrow> nat \<Rightarrow> byte \<Rightarrow> nat \<Rightarrow> bool list \<Rightarrow> bool" where
  "struct_at b p ty n fs \<longleftrightarrow> b ! p = ty \<and> b ! (p + 1) = 1 \<and> u16_at b (p + 2) = n \<and> b ! (p + 4) = 0 \<and> flags_at b (p + 5) fs"

definition ip16 :: "IP \<Rightarrow> byte list" where
  "ip16 ip = (case ip of None \<Rightarrow> replicate 16 0
     | Some a \<Rightarrow> if length a = 4 then [0, 0, 0, 0, 0, 0, 0, 0, 0, 0, 255, 255] @ a else a)"

definition ip_at :: "byte list \<Rightarrow> nat \<Rightarrow> IP \<Rightarrow> bool" where
  "ip_at b p ip \<longleftrightarrow> take 16 (drop p b) = ip16 ip"

definition initiator_at :: "byte list \<Rightarrow> nat \<Rightarrow> Initiator \<Rightarrow> bool" where
  "initiator_at b p x \<longleftrightarrow> struct_at b p 2 74 [InValid x, InBoot x] \<and> ip_at b (p + 6) (SNSServer x) \<and> ip_at b (p + 22) (SLPServer x) \<and>
     ip_at b (p + 38) (PrimaryRadiusServer x) \<and> ip_at b (p + 54) (SecondaryRadiusServer x) \<and>
     string_found b (p + 70) (str_bytes (InName x))"

definition nic_at :: "byte list \<Rightarrow> nat \<Rightarrow> NIC \<Rightarrow> bool" where
  "nic_at b p x \<longleftrightarrow> struct_at b p 3 102 [NicValid x, NicBoot x, NicGlobal x] \<and>
     (case NicIPNet x of None \<Rightarrow> ip_at b (p + 6) None \<and> b ! (p + 22) = 0
      | Some net \<Rightarrow> ip_at b (p + 6) (NetIP net) \<and> b ! (p + 22) = word_of_nat (mask_ones (NetMask net))) \<and>
     b ! (p + 23) = NicOrigin x \<and> ip_at b (p + 24) (Gateway x) \<and> ip_at b (p + 40) (PrimaryDNS x) \<and>
     ip_at b (p + 56) (SecondaryDNS x) \<and> ip_at b (p + 72) (DHCPServer x) \<and> u16_at b (p + 88) = unat (VLAN x) \<and>
     take 6 (drop (p + 90) b) = take 6 (MACAddress x @ replicate 6 0) \<and>
     (unat (Device (PCIBDF x)) < 32 \<longrightarrow> unat (Function (PCIBDF x)) < 8 \<longrightarrow>
        u16_at b (p + 96) = 256 * unat (Bus (PCIBDF x)) + 8 * unat (Device (PCIBDF x)) + unat (Function (PCIBDF x))) \<and>
     string_found b (p + 98) (str_bytes (HostName x))"

definition target_at :: "byte list \<Rightarrow> nat \<Rightarrow> Target \<Rightarrow> bool" where
  "target_at b p x \<longleftrightarrow> struct_at b p 4 54 [TgValid x, TgBoot x, CHAP x, RCHAP x] \<and>
     (case TgTarget x of None \<Rightarrow> ip_at b (p + 6) None \<and> u16_at b (p + 22) = 0
      | Some a \<Rightarrow> ip_at b (p + 6) (TcpIP a) \<and> int (u16_at b (p + 22)) = TcpPort a mod 65536) \<and>
     un_le (take 8 (drop (p + 24) b)) = unat (BootLUN x) \<and> b ! (p + 32) = CHAPType x \<and> b ! (p + 33) = NICAssociation x \<and>
     string_found b (p + 34) (str_bytes (TargetName x)) \<and> string_found b (p + 38) (str_bytes (CHAPName x)) \<and>
     string_found b (p + 42) (str_bytes (CHAPSecret x)) \<and> string_found b (p + 46) (str_bytes (ReverseCHAPName x)) \<and>
     string_found b (p + 50) (str_bytes (ReverseCHAPSecret x))"

lemma flags_from_bit:
  "k < 8 \<Longrightarrow> bit (flags_from n fs i) k \<longleftrightarrow> (if n \<le> k \<and> k < n + length fs then fs ! (k - n) else bit i k)"
proof (induction fs arbitrary: n i)
  case (Cons f fs)
  have "bit (push_bit n 1 :: byte) k \<longleftrightarrow> k = n" using Cons.prems by (auto simp: bit_simps)
  then have b: "bit (if f then i OR push_bit n 1 else i AND NOT (push_bit n 1)) k \<longleftrightarrow> (if k = n then f else bit i k)"
    using Cons.prems by (auto simp: bit_simps)
  show ?case unfolding flags_from.simps Cons.IH [OF Cons.prems] b by (auto simp: nth_Cons' Suc_diff_Suc)
qed auto

lemma ip_bytes_16: "ip_ok ip \<Longrightarrow> ip_bytes ip = ip16 ip"
  by (auto simp: ip_ok_def ip_bytes_def ip16_def To16_def numeral_eq_Suc split: option.splits)

text \<open>A piece of the table, seen from its own start.\<close>

lemma piece:
  assumes "b = U @ X @ V" "length U = p"
  shows "j + n \<le> length X \<Longrightarrow> take n (drop (p + j) b) = take n (drop j X)" "j < length X \<Longrightarrow> b ! (p + j) = X ! j"
    "j + 2 \<le> length X \<Longrightarrow> u16_at b (p + j) = un_le (take 2 (drop j X))"
  using assms by (simp_all add: u16_at_def nth_append)

lemma struct_piece:
  assumes "b = U @ (sh_bytes ty n (flags fs) @ X) @ V" "length U = p" "n < 65536"
  shows "struct_at b p ty n fs"
proof -
  have b: "b = U @ sh_bytes ty n (flags fs) @ (X @ V)" using assms(1) by simp
  note pc = piece [OF b assms(2)]
  have "bit (b ! (p + 5)) k \<longleftrightarrow> k < length fs \<and> fs ! k" if "k < 8" for k
    using that pc(2) [of 5] flags_from_bit [of k 0 fs 0] by (auto simp: sh_bytes_def flags_def nth_append)
  moreover have "un_le (take 2 (drop 2 (sh_bytes ty n (flags fs)))) = n" using assms(3) by (simp add: sh_bytes_def un_le_le_nat)
  ultimately show ?thesis
    unfolding struct_at_def flags_at_def using pc(2) [of 0] pc(2) [of 1] pc(2) [of 4] pc(3) [of 2]
    by (simp add: sh_bytes_def nth_append)
qed

lemma initiator_piece:
  assumes "b = U @ ini_bytes x q @ V" "length U = p" "string_found b (p + 70) (str_bytes (InName x))"
    and "\<forall>ip \<in> {SNSServer x, SLPServer x, PrimaryRadiusServer x, SecondaryRadiusServer x}. ip_ok ip"
  shows "initiator_at b p x"
proof -
  note pc = piece(1) [OF assms(1,2), where n = 16]
  have l: "length (ip_bytes ip) = 16" "ip_bytes ip = ip16 ip"
    if "ip \<in> {SNSServer x, SLPServer x, PrimaryRadiusServer x, SecondaryRadiusServer x}" for ip
    using assms(4) that length_ip_bytes ip_bytes_16 by blast+
  have "struct_at b p 2 74 [InValid x, InBoot x]"
    using struct_piece [of b U 2 74 "[InValid x, InBoot x]"] assms(1,2) by (simp add: ini_bytes_def)
  then show ?thesis
    unfolding initiator_at_def ip_at_def using assms(3) pc [of 6] pc [of 22] pc [of 38] pc [of 54] l
    by (simp add: ini_bytes_def)
qed

lemma bdf_number:
  assumes "unat (Device x) < 32" "unat (Function x) < 8"
  shows "un_le (bdf_bytes x) = 256 * unat (Bus x) + 8 * unat (Device x) + unat (Function x)"
proof -
  let ?b = "ucast (Bus x) :: u16" and ?d = "ucast (Device x) :: u16" and ?f = "ucast (Function x) :: u16"
  have u: "unat (ucast (w :: byte) :: u16) = unat w" for w
  proof -
    have "unat w < 2 ^ LENGTH(8)" by (rule unsigned_less)
    then have "unat w < 65536" by (rule less_le_trans) simp
    then show ?thesis by (simp add: unsigned_ucast_eq take_bit_eq_mod)
  qed
  have f: "take_bit 3 ?f = ?f" unfolding word_unat_eq_iff unsigned_take_bit_eq using assms(2) u [of "Function x"] by (simp add: take_bit_eq_mod)
  have d: "take_bit 5 ?d = ?d" unfolding word_unat_eq_iff unsigned_take_bit_eq using assms(1) u [of "Device x"] by (simp add: take_bit_eq_mod)
  have fb: "\<not> bit ?f n" if "3 \<le> n" for n using arg_cong [OF f, of "\<lambda>w. bit w n"] that by (simp add: bit_take_bit_iff)
  have db: "\<not> bit ?d n" if "5 \<le> n" for n using arg_cong [OF d, of "\<lambda>w. bit w n"] that by (simp add: bit_take_bit_iff)
  have "push_bit 8 ?b OR push_bit 3 ?d OR ?f = push_bit 8 ?b + (push_bit 3 ?d + ?f)"
  proof -
    have "push_bit 3 ?d OR ?f = push_bit 3 ?d + ?f"
      by (rule disjunctive_add_eq_or [symmetric]) (rule bit_eqI, use fb in \<open>auto simp: bit_simps not_le\<close>)
    moreover have "push_bit 8 ?b OR (push_bit 3 ?d OR ?f) = push_bit 8 ?b + (push_bit 3 ?d OR ?f)"
      by (rule disjunctive_add_eq_or [symmetric]) (rule bit_eqI, use fb db in \<open>auto simp: bit_simps not_le\<close>)
    ultimately show ?thesis by (simp add: or.assoc)
  qed
  moreover have "unat (push_bit 8 ?b + (push_bit 3 ?d + ?f)) = 256 * unat (Bus x) + 8 * unat (Device x) + unat (Function x)"
  proof -
    have "unat (Bus x) < 256" using unsigned_less [of "Bus x"] by simp
    with assms have "unat (Bus x) * 256 + (unat (Device x) * 8 + unat (Function x)) < 65536" by linarith
    then show ?thesis
      by (simp add: push_bit_eq_mult unat_word_ariths u mod_simps)
  qed
  ultimately have "bdf_bytes x = le_nat 2 (256 * unat (Bus x) + 8 * unat (Device x) + unat (Function x))"
    by (simp add: bdf_bytes_def or.assoc)
  moreover have "unat (Bus x) < 256" using unsigned_less [of "Bus x"] by simp
  with assms have "256 * unat (Bus x) + 8 * unat (Device x) + unat (Function x) < 65536" by linarith
  then have "256 * unat (Bus x) + 8 * unat (Device x) + unat (Function x) < 256 ^ 2" by simp
  ultimately show ?thesis by (simp only: un_le_le_nat)
qed

lemma nic_piece:
  assumes "b = U @ nic_bytes x q @ V" "length U = p" "string_found b (p + 98) (str_bytes (HostName x))"
    and "\<forall>ip \<in> {case NicIPNet x of None \<Rightarrow> None | Some net \<Rightarrow> NetIP net, Gateway x, PrimaryDNS x, SecondaryDNS x, DHCPServer x}. ip_ok ip"
  shows "nic_at b p x"
proof -
  note pc = piece [OF assms(1,2)]
  have l0: "length (ip_bytes ip) = 16" "ip_bytes ip = ip16 ip"
    if "ip \<in> {Gateway x, PrimaryDNS x, SecondaryDNS x, DHCPServer x}" for ip
    using assms(4) that length_ip_bytes ip_bytes_16 by blast+
  then have "length (ip16 ip) = 16" if "ip \<in> {Gateway x, PrimaryDNS x, SecondaryDNS x, DHCPServer x}" for ip
    using that by metis
  note l = this l0
  define N where "N = net_bytes (NicIPNet x)"
  have N: "length N = 17" "take 16 N = ip16 (case NicIPNet x of None \<Rightarrow> None | Some net \<Rightarrow> NetIP net)"
      "N ! 16 = (case NicIPNet x of None \<Rightarrow> 0 | Some net \<Rightarrow> word_of_nat (mask_ones (NetMask net)))"
    using assms(4) length_ip_bytes ip_bytes_16
    by (auto simp: N_def net_bytes_def ip16_def [of None] nth_append split: option.splits)
  have nb: "nic_bytes x q = sh_bytes 3 102 (flags [NicValid x, NicBoot x, NicGlobal x]) @ N @ [NicOrigin x] @
     ip_bytes (Gateway x) @ ip_bytes (PrimaryDNS x) @ ip_bytes (SecondaryDNS x) @ ip_bytes (DHCPServer x) @
     le_nat 2 (unat (VLAN x)) @ mac_bytes (MACAddress x) @ bdf_bytes (PCIBDF x) @ slot q (str_bytes (HostName x))"
    by (simp add: nic_bytes_def N_def)
  have ml: "length (mac_bytes (MACAddress x)) = 6" "length (bdf_bytes (PCIBDF x)) = 2" by (simp_all add: mac_bytes_def bdf_bytes_def)
  have len: "length (nic_bytes x q) = 102" by (simp add: nb N l ml)
  have s: "struct_at b p 3 102 [NicValid x, NicBoot x, NicGlobal x]"
    using struct_piece [of b U 3 102 "[NicValid x, NicBoot x, NicGlobal x]"] assms(1,2) by (simp add: nic_bytes_def)
  have n: "take 16 (drop (p + 6) b) = take 16 N" "b ! (p + 22) = N ! 16" "b ! (p + 23) = NicOrigin x"
    using pc(1) [of 6 16] pc(2) [of 22] pc(2) [of 23] len N(1) by (simp_all add: nb nth_append)
  have i: "take 16 (drop (p + 24) b) = ip16 (Gateway x)" "take 16 (drop (p + 40) b) = ip16 (PrimaryDNS x)"
      "take 16 (drop (p + 56) b) = ip16 (SecondaryDNS x)" "take 16 (drop (p + 72) b) = ip16 (DHCPServer x)"
    using pc(1) [of 24 16] pc(1) [of 40 16] pc(1) [of 56 16] pc(1) [of 72 16] len N(1) l by (simp_all add: nb)
  have "unat (VLAN x) < 65536" using unsigned_less [of "VLAN x"] by simp
  then have v: "u16_at b (p + 88) = unat (VLAN x)" using pc(3) [of 88] len N(1) l by (simp add: nb un_le_le_nat)
  have m: "take 6 (drop (p + 90) b) = take 6 (MACAddress x @ replicate 6 0)"
    using pc(1) [of 90 6] len N(1) l ml(1) by (simp add: nb) (simp add: mac_bytes_def min_def)
  have "u16_at b (p + 96) = un_le (bdf_bytes (PCIBDF x))"
    using pc(3) [of 96] len N(1) l ml by (simp add: nb)
  then show ?thesis
    unfolding nic_at_def ip_at_def using s n i v m N(2,3) assms(3) bdf_number [of "PCIBDF x"] by (auto split: option.splits)
qed

lemma target_piece:
  assumes "b = U @ tgt_bytes x q @ V" "length U = p" "\<forall>k < 5. string_found b (p + 34 + 4 * k) (tgt_strings x ! k)"
    and "ip_ok (case TgTarget x of None \<Rightarrow> None | Some a \<Rightarrow> TcpIP a)"
  shows "target_at b p x"
proof -
  note pc = piece [OF assms(1,2)]
  define A where "A = addr_bytes (TgTarget x)"
  have A: "length A = 18" "take 16 A = ip16 (case TgTarget x of None \<Rightarrow> None | Some a \<Rightarrow> TcpIP a)"
      "un_le (drop 16 A) = (case TgTarget x of None \<Rightarrow> 0 | Some a \<Rightarrow> nat (TcpPort a mod 65536))"
    using assms(4) length_ip_bytes ip_bytes_16
    by (auto simp: A_def addr_bytes_def ip16_def [of None] un_le_le_nat unsigned_of_int take_bit_eq_mod split: option.splits)
  have tb: "tgt_bytes x q = sh_bytes 4 54 (flags [TgValid x, TgBoot x, CHAP x, RCHAP x]) @ A @
     le_nat 8 (unat (BootLUN x)) @ [CHAPType x, NICAssociation x] @ slots q (tgt_strings x)"
    by (simp add: tgt_bytes_def A_def)
  have len: "length (tgt_bytes x q) = 54" by (simp add: tb A tgt_strings_def)
  have s: "struct_at b p 4 54 [TgValid x, TgBoot x, CHAP x, RCHAP x]"
    using struct_piece [of b U 4 54 "[TgValid x, TgBoot x, CHAP x, RCHAP x]"] assms(1,2) by (simp add: tgt_bytes_def)
  have n: "take 16 (drop (p + 6) b) = take 16 A" "u16_at b (p + 22) = un_le (drop 16 A)" "b ! (p + 32) = CHAPType x" "b ! (p + 33) = NICAssociation x"
    using pc(1) [of 6 16] pc(3) [of 22] pc(2) [of 32] pc(2) [of 33] len A(1) by (simp_all add: tb nth_append)
  have "take 8 (drop (p + 24) b) = le_nat 8 (unat (BootLUN x))" using pc(1) [of 24 8] len A(1) by (simp add: tb)
  then have u: "un_le (take 8 (drop (p + 24) b)) = unat (BootLUN x)" using unat_u64_lt [of "BootLUN x"] by (simp add: un_le_le_nat)
  have st: "string_found b (p + 34) (str_bytes (TargetName x))" "string_found b (p + 38) (str_bytes (CHAPName x))"
      "string_found b (p + 42) (str_bytes (CHAPSecret x))" "string_found b (p + 46) (str_bytes (ReverseCHAPName x))"
      "string_found b (p + 50) (str_bytes (ReverseCHAPSecret x))"
    using assms(3) [rule_format, of 0] assms(3) [rule_format, of 1] assms(3) [rule_format, of 2] assms(3) [rule_format, of 3]
      assms(3) [rule_format, of 4] by (simp_all add: tgt_strings_def ac_simps)
  show ?thesis
    unfolding target_at_def ip_at_def using s n u st A(2,3) by (auto split: option.splits)
qed

text \<open>C26: a table for addresses of four or sixteen bytes and strings that 16-bit pointers reach (\<open>ibft_ok\<close>) has a zero checksum and its own
  length in the header, its control structure points to the three structures, each aligned; and every field of
  every structure is where the specification has it: type, version, length, index and flags, all ten addresses in sixteen bytes,
  prefix length, origin, VLAN, MAC address, bus number, port, LUN, CHAP type and index of the interface; every string is
  found where its slot says, with a null byte behind it.\<close>

theorem ibft_table:
  assumes "ibft_ok i"
  shows "\<exists>b. IBFT_Marshal i = Ok b \<and> take 4 b = str_bytes ''iBFT'' \<and> u16_at b 4 = length b \<and> foldl (+) 0 b = 0 \<and>
    b ! 8 = 1 \<and> take 14 (drop 10 b) = str_bytes ''GoogleGoogIBFT'' \<and>
    struct_at b 0x30 1 18 [SingleLoginMode i] \<and> u16_at b 0x36 = 0 \<and> u16_at b 0x3e = 0 \<and> u16_at b 0x40 = 0 \<and>
    8 dvd u16_at b 0x38 \<and> 8 dvd u16_at b 0x3a \<and> 8 dvd u16_at b 0x3c \<and>
    initiator_at b (u16_at b 0x38) (IbInitiator i) \<and> nic_at b (u16_at b 0x3a) (NIC0 i) \<and> target_at b (u16_at b 0x3c) (Target0 i)"
proof -
  let ?I = "IbInitiator i" and ?N = "NIC0 i" and ?T = "Target0 i"
  define h1 h2 where "h1 = item (str_bytes (InName ?I))" and "h2 = item (str_bytes (HostName ?N))"
  define ini nic tgt where "ini = ini_bytes ?I 0x138" and "nic = nic_bytes ?N (0x138 + length h1)"
    and "tgt = tgt_bytes ?T (0x138 + length h1 + length h2)"
  define ctl where "ctl = ctl_bytes (the_control i)"
  define r where "r = ibft_body i"
  have r: "r = head_tail @ ctl @ replicate 6 0 @ ini @ replicate 6 0 @ nic @ replicate 2 0 @ tgt @ replicate 2 0 @ ibft_heap i"
    by (simp add: r_def ibft_body_def Let_def ctl_def ini_def nic_def tgt_def h1_def h2_def add.assoc)
  have l: "length ini = 74" "length nic = 102" "length tgt = 54" "length ctl = 18" "length head_tail = 38" "length ibft_signature = 4"
    using part_lengths [OF assms] by (simp_all add: ini_def nic_def tgt_def ctl_def ctl_bytes_def head_tail_def oemID_def
      oemTableID_def ibft_signature_def)
  define cs where "cs = gencsum (ibft_signature @ le_nat 2 (10 + length r) @ [0, 0, 1, 0] @ r)"
  define b where "b = (ibft_signature @ le_nat 2 (10 + length r) @ [0, 0, 1, cs]) @ r"
  have b: "IBFT_Marshal i = Ok b"
    using IBFT_Marshal_bytes [OF assms] fixACPIHeader_eq [of r] by (simp add: b_def cs_def r_def)
  define P where "P = ibft_signature @ le_nat 2 (10 + length r) @ [0, 0, 1, cs] @ head_tail"
  have P: "length P = 48" by (simp add: P_def l)
  have bP: "b = P @ ctl @ replicate 6 0 @ ini @ replicate 6 0 @ nic @ replicate 2 0 @ tgt @ replicate 2 0 @ ibft_heap i"
    by (simp add: b_def P_def r)
  have lb: "length b = 0x138 + length (ibft_heap i)" "length b < 65536"
    using assms by (simp_all add: bP P l ibft_ok_def)
  have "foldl (+) 0 b = 0"
    using checksum_zero [of "ibft_signature @ le_nat 2 (10 + length r) @ [0, 0, 1]" r] by (simp add: b_def cs_def)
  moreover have "take 4 b = str_bytes ''iBFT''" by (simp add: b_def l) (simp add: ibft_signature_def)
  moreover have "u16_at b 4 = length b"
    using lb(2) by (simp add: b_def l u16_at_def un_le_le_nat)
  moreover have k: "u16_at b 0x38 = 0x48" "u16_at b 0x3a = 0x98" "u16_at b 0x3c = 0x100"
      "u16_at b 0x36 = 0" "u16_at b 0x3e = 0" "u16_at b 0x40 = 0"
    by (simp_all add: bP P ctl_def ctl_bytes_def sh_bytes_def the_control_def u16_at_def un_le_le_nat
        initiatorOffset_def nic0Offset_def target0Offset_def)
  moreover have "struct_at b 0x30 1 18 [SingleLoginMode i]"
    by (rule struct_piece [of b P]) (simp_all add: bP P ctl_def ctl_bytes_def the_control_def)
  moreover have "b ! 8 = 1" by (simp add: b_def l nth_append)
  moreover have "take 14 (drop 10 b) = str_bytes ''GoogleGoogIBFT''"
    by (simp add: bP P_def l head_tail_def) (simp add: oemID_def oemTableID_def numeral_eq_Suc)
  moreover have s1: "string_found b (0x48 + 70) (str_bytes (InName ?I))"
  proof -
    obtain U where U: "ini = U @ slot 0x138 (str_bytes (InName ?I))" by (simp add: ini_def ini_bytes_def flip: append_assoc)
    then have u: "length U = 70" using l(1) by simp
    let ?T = "P @ ctl @ replicate 6 0 @ ini @ replicate 6 0 @ nic @ replicate 2 0 @ tgt @ replicate 2 0"
    show ?thesis
      by (rule slot_found [where U = "P @ ctl @ replicate 6 0 @ U" and q = "0x138" and T = ?T
            and V = "replicate 6 0 @ nic @ replicate 2 0 @ tgt @ replicate 2 0 @ ibft_heap i", OF _ _ _ _ lb(2)])
        (simp_all add: bP U P l u ibft_heap_def ibft_strings_def)
  qed
  moreover have s2: "string_found b (0x98 + 98) (str_bytes (HostName ?N))"
  proof -
    obtain U where U: "nic = U @ slot (0x138 + length h1) (str_bytes (HostName ?N))" by (simp add: nic_def nic_bytes_def flip: append_assoc)
    then have u: "length U = 98" using l(2) by simp
    let ?T = "P @ ctl @ replicate 6 0 @ ini @ replicate 6 0 @ nic @ replicate 2 0 @ tgt @ replicate 2 0 @ h1"
    show ?thesis
      by (rule slot_found [where U = "P @ ctl @ replicate 6 0 @ ini @ replicate 6 0 @ U" and q = "0x138 + length h1" and T = ?T
            and V = "replicate 2 0 @ tgt @ replicate 2 0 @ ibft_heap i", OF _ _ _ _ lb(2)])
        (simp_all add: bP U P l u ibft_heap_def ibft_strings_def h1_def)
  qed
  moreover have s3: "string_found b (0x100 + 34 + 4 * k) (tgt_strings ?T ! k)" if "k < 5" for k
  proof -
    let ?ss = "tgt_strings ?T" and ?q = "0x138 + length h1 + length h2"
    have n: "k < length ?ss" using that by (simp add: tgt_strings_def)
    obtain U where U: "tgt = U @ slots ?q ?ss" by (simp add: tgt_def tgt_bytes_def flip: append_assoc)
    then have u: "length U = 34" using l(3) by (simp add: tgt_strings_def)
    let ?h3 = "concat (map item (take k ?ss))"
    obtain V where V: "slots ?q ?ss = slots ?q (take k ?ss) @ slot (?q + length ?h3) (?ss ! k) @ V"
      using slots_split [OF n] by blast
    obtain W where W: "concat (map item ?ss) = ?h3 @ item (?ss ! k) @ W" using concat_split [OF n] by blast
    let ?T = "P @ ctl @ replicate 6 0 @ ini @ replicate 6 0 @ nic @ replicate 2 0 @ tgt @ replicate 2 0 @ h1 @ h2 @ ?h3"
    have bT: "b = ?T @ item (?ss ! k) @ W" using W by (simp add: bP ibft_heap_def ibft_strings_def h1_def h2_def)
    have bU: "b = (P @ ctl @ replicate 6 0 @ ini @ replicate 6 0 @ nic @ replicate 2 0 @ U @ slots ?q (take k ?ss)) @
        slot (?q + length ?h3) (?ss ! k) @ (V @ replicate 2 0 @ ibft_heap i)"
      unfolding bP U V by simp
    show ?thesis by (rule slot_found [OF bU _ bT _ lb(2)]) (use n in \<open>simp_all add: P l u min_def\<close>)
  qed
  moreover have ips: "ip_ok ip" if "ip \<in> set (ibft_ips i)" for ip using that assms by (simp add: ibft_ok_def)
  have "initiator_at b 0x48 ?I"
    by (rule initiator_piece [of b "P @ ctl @ replicate 6 0" _ "0x138", OF _ _ s1])
      (use ips in \<open>simp_all add: bP ini_def P l ibft_ips_def Let_def\<close>)
  moreover have "nic_at b 0x98 ?N"
    by (rule nic_piece [of b "P @ ctl @ replicate 6 0 @ ini @ replicate 6 0" _ "0x138 + length h1", OF _ _ s2])
      (use ips in \<open>simp_all add: bP nic_def P l ibft_ips_def Let_def\<close>)
  moreover have "target_at b 0x100 ?T"
    by (rule target_piece [of b "P @ ctl @ replicate 6 0 @ ini @ replicate 6 0 @ nic @ replicate 2 0" _ "0x138 + length h1 + length h2"])
      (use ips s3 in \<open>simp_all add: bP tgt_def P l ibft_ips_def Let_def\<close>)
  ultimately show ?thesis using b by (intro exI [of _ b]) (simp add: k)
qed

definition ex_ibft :: IBFT where
  "ex_ibft = \<lparr>SingleLoginMode = False,
     IbInitiator = \<lparr>InName = ''iqn'', InValid = True, InBoot = True, SNSServer = None, SLPServer = None,
       PrimaryRadiusServer = None, SecondaryRadiusServer = None\<rparr>,
     NIC0 = \<lparr>NicValid = True, NicBoot = True, NicGlobal = True, NicIPNet = Some \<lparr>NetIP = Some [10, 0, 0, 2], NetMask = [255, 255, 0, 0]\<rparr>,
       NicOrigin = 3, Gateway = Some [10, 0, 0, 1], PrimaryDNS = None, SecondaryDNS = None, DHCPServer = None, VLAN = 0,
       MACAddress = [1, 2, 3, 4, 5, 6], PCIBDF = \<lparr>Bus = 1, Device = 2, Function = 3\<rparr>, HostName = []\<rparr>,
     Target0 = \<lparr>TgValid = True, TgBoot = True, CHAP = False, RCHAP = False, TgTarget = Some \<lparr>TcpIP = Some [10, 0, 0, 3], TcpPort = 3260\<rparr>,
       BootLUN = 0, CHAPType = 0, NICAssociation = 0, TargetName = ''disk'', CHAPName = [], CHAPSecret = [],
       ReverseCHAPName = [], ReverseCHAPSecret = []\<rparr>\<rparr>"

theorem ibft_table_witness:
  "\<exists>b. IBFT_Marshal ex_ibft = Ok b \<and> string_found b (u16_at b 0x38 + 70) (str_bytes ''iqn'') \<and>
     take 16 (drop (u16_at b 0x3a + 6) b) = [0, 0, 0, 0, 0, 0, 0, 0, 0, 0, 255, 255, 10, 0, 0, 2] \<and> b ! (u16_at b 0x3a + 22) = 16 \<and>
     take 16 (drop (u16_at b 0x3c + 6) b) = [0, 0, 0, 0, 0, 0, 0, 0, 0, 0, 255, 255, 10, 0, 0, 3] \<and> u16_at b (u16_at b 0x3c + 22) = 3260 \<and>
     string_found b (u16_at b 0x3c + 34) (str_bytes ''disk'')"
proof -
  have "ibft_ok ex_ibft"
    by (simp add: ibft_ok_def ibft_ips_def ip_ok_def ex_ibft_def ibft_heap_def ibft_strings_def tgt_strings_def item_def)
  from ibft_table [OF this] obtain b where b: "IBFT_Marshal ex_ibft = Ok b" "initiator_at b (u16_at b 0x38) (IbInitiator ex_ibft)"
    "nic_at b (u16_at b 0x3a) (NIC0 ex_ibft)" "target_at b (u16_at b 0x3c) (Target0 ex_ibft)" by blast
  have "mask_ones [255, 255, 0, 0] = 16" by (simp add: mask_ones_def bit_simps)
  with b show ?thesis
    by (intro exI [of _ b]) (simp add: initiator_at_def nic_at_def target_at_def ip_at_def ip16_def ex_ibft_def)
qed

text \<open>An address that is neither four nor sixteen bytes long is left out: everything behind it moves.\<close>

lemma bad_address_shifts:
  "ip_bytes (Some [1, 2, 3]) = []" "length (ini_bytes (i\<lparr>SNSServer := Some [1, 2, 3]\<rparr>) p) + 16 = length (ini_bytes (i\<lparr>SNSServer := None\<rparr>) p)"
  by (simp_all add: ip_bytes_def To16_def ini_bytes_def)

end
