(* ===== verification/Multiboot.thy ===== *)
theory Multiboot imports LinuxProof Ibft begin

text \<open>
  \<open>pkg/boot/multiboot\<close>: headers of multiboot and ESXBootInfo kernels, the information structures for the loaded
  kernel, the modules and the loader. Binary structures are little endian (\<open>ubinary.NativeEndian\<close>). Files are what
  reading them gives; gzip, the ELF parser, the memory of the program's own trampoline code and the kernel are
  parameters.
\<close>

section \<open>Files\<close>

text \<open>The bytes of a file up to the first error.\<close>

record reader_file =
  rf_bytes :: "byte list"
  rf_err :: "io_error option"

definition ReadAtLeast :: "reader_file \<Rightarrow> nat \<Rightarrow> nat \<Rightarrow> (io_error, byte list) res" where
  "ReadAtLeast r n least =
     (let bs = take n (rf_bytes r) in
      if least \<le> length bs then Ok bs
      else Err (case rf_err r of Some e \<Rightarrow> e | None \<Rightarrow> if bs = [] then EOF else UnexpectedEOF))"

definition copy_all :: "reader_file \<Rightarrow> (io_error, byte list) res" where
  "copy_all r = (case rf_err r of None \<Rightarrow> Ok (rf_bytes r) | Some e \<Rightarrow> Err e)"

definition rf_ReadAt :: "reader_file \<Rightarrow> u64 \<Rightarrow> nat \<Rightarrow> byte list \<times> string option" where
  "rf_ReadAt r = bytes_ReadAt (rf_bytes r)"

definition TryGzipFilter :: "(reader_file \<Rightarrow> byte list option) \<Rightarrow> reader_file \<Rightarrow> reader_file" where
  "TryGzipFilter readGzip r = (case readGzip r of Some b \<Rightarrow> \<lparr>rf_bytes = b, rf_err = None\<rparr> | None \<Rightarrow> r)"

section \<open>Headers\<close>

datatype mb_error =
    MbRead io_error
  | ErrHeaderNotFound
  | ErrFlagsNotSupported
  | MbElf string
  | MbMemMap fw_error
  | MbKexec kexec_error
  | MbPlace loader_error
  | MbIbft lexer_error
  | MbLoad load_error
  | MbExe string
  | MbModule string io_error
  | MbOpen string string

definition headerMagic :: u32 where "headerMagic = 0x1BADB002"
definition flagHeaderPageAlign :: u32 where "flagHeaderPageAlign = 1"
definition flagHeaderMemoryInfo :: u32 where "flagHeaderMemoryInfo = 2"
definition flagHeaderMultibootVideoMode :: u32 where "flagHeaderMultibootVideoMode = 4"
definition flagHeaderUnsupported :: u32 where "flagHeaderUnsupported = 0xFFF8"

record mandatory =
  HdMagic :: u32
  HdFlags :: u32
  HdChecksum :: u32

record optional =
  HeaderAddr :: u32
  LoadAddr :: u32
  LoadEndAddr :: u32
  BSSEndAddr :: u32
  EntryAddr :: u32
  ModeType :: u32
  HdWidth :: u32
  HdHeight :: u32
  HdDepth :: u32

record mb_header =
  HdMandatory :: mandatory
  HdOptional :: optional

definition mandatorySize :: nat where "mandatorySize = 12"
definition optionalSize :: nat where "optionalSize = 36"

definition header_of :: "nat list \<Rightarrow> mb_header" where
  "header_of v = (let w = \<lambda>i. word_of_nat (v ! i) in
     \<lparr>HdMandatory = \<lparr>HdMagic = w 0, HdFlags = w 1, HdChecksum = w 2\<rparr>,
      HdOptional = \<lparr>HeaderAddr = w 3, LoadAddr = w 4, LoadEndAddr = w 5, BSSEndAddr = w 6, EntryAddr = w 7,
        ModeType = w 8, HdWidth = w 9, HdHeight = w 10, HdDepth = w 11\<rparr>\<rparr>)"

definition header_valid :: "mandatory \<Rightarrow> u32 \<Rightarrow> bool" where
  "header_valid h magic \<longleftrightarrow> HdMagic h = magic \<and> HdMagic h + HdFlags h + HdChecksum h = 0"

function header_loop :: "byte list \<Rightarrow> (mb_error, mb_header) res" where
  "header_loop b =
     (if length b < mandatorySize + optionalSize then Err ErrHeaderNotFound
      else
        let hdr = header_of (unpack (replicate 12 4) b) in
        if header_valid (HdMandatory hdr) headerMagic then
          if HdFlags (HdMandatory hdr) AND flagHeaderUnsupported \<noteq> 0 then Err ErrFlagsNotSupported else Ok hdr
        else header_loop (drop 4 b))"
  by pat_completeness auto
termination by (relation "measure length") (auto simp: mandatorySize_def)

definition parseHeader :: "reader_file \<Rightarrow> (mb_error, mb_header) res" where
  "parseHeader r =
     rbind (lift_err MbRead (ReadAtLeast r 8192 mandatorySize)) (\<lambda>b. header_loop (b @ replicate optionalSize 0))"

definition esxBootInfoMagic :: u32 where "esxBootInfoMagic = 0x1BADB005"

record esxBootInfoHeader =
  ExMandatory :: mandatory
  MinWidth :: u32
  MinHeight :: u32
  MinDepth :: u32
  ExModeType :: u32
  ExWidth :: u32
  ExHeight :: u32
  ExDepth :: u32
  RuntimeServicesVAddr :: u64
  RuntimeServicesSize :: u64
  LoadESXVersion :: u32

definition esx_widths :: "nat list" where
  "esx_widths = replicate 12 4 @ [8, 8, 4]"

definition esx_header_of :: "nat list \<Rightarrow> esxBootInfoHeader" where
  "esx_header_of v = (let w = \<lambda>i. word_of_nat (v ! i) in
     \<lparr>ExMandatory = \<lparr>HdMagic = w 0, HdFlags = w 1, HdChecksum = w 2\<rparr>, MinWidth = w 5, MinHeight = w 6, MinDepth = w 7,
      ExModeType = w 8, ExWidth = w 9, ExHeight = w 10, ExDepth = w 11, RuntimeServicesVAddr = word_of_nat (v ! 12),
      RuntimeServicesSize = word_of_nat (v ! 13), LoadESXVersion = w 14\<rparr>)"

function esx_loop :: "byte list \<Rightarrow> (mb_error, esxBootInfoHeader) res" where
  "esx_loop b =
     (if length b < sum_list esx_widths then Err ErrHeaderNotFound
      else
        let hdr = esx_header_of (unpack esx_widths b) in
        if header_valid (ExMandatory hdr) esxBootInfoMagic then Ok hdr else esx_loop (drop 8 b))"
  by pat_completeness auto
termination by (relation "measure length") (auto simp: esx_widths_def)

definition parseMutiHeader :: "reader_file \<Rightarrow> (mb_error, esxBootInfoHeader) res" where
  "parseMutiHeader r = rbind (lift_err MbRead (ReadAtLeast r 8192 (sum_list esx_widths))) esx_loop"

datatype imageType = MBImage mb_header | ESXImage esxBootInfoHeader

fun bootMagic :: "imageType \<Rightarrow> u64" where
  "bootMagic (MBImage _) = 0x2BADB002"
| "bootMagic (ESXImage _) = 0x1BADB005"

text \<open>The header \<open>load\<close> works with; \<open>Probe\<close> only asks whether there is one.\<close>

definition find_header :: "reader_file \<Rightarrow> (mb_error, imageType) res" where
  "find_header r =
     (case parseHeader r of
        Ok h \<Rightarrow> Ok (MBImage h)
      | Err ErrHeaderNotFound \<Rightarrow> rbind (parseMutiHeader r) (\<lambda>h. Ok (ESXImage h))
      | Err e \<Rightarrow> Err e
      | Panic \<Rightarrow> Panic)"

definition Probe :: "(reader_file \<Rightarrow> byte list option) \<Rightarrow> reader_file \<Rightarrow> (mb_error, unit) res" where
  "Probe readGzip kfile =
     (let r = TryGzipFilter readGzip kfile in
      case parseHeader r of
        Ok _ \<Rightarrow> Ok ()
      | Err ErrHeaderNotFound \<Rightarrow> rbind (parseMutiHeader r) (\<lambda>_. Ok ())
      | Err e \<Rightarrow> Err e
      | Panic \<Rightarrow> Panic)"

section \<open>Modules\<close>

record Module =
  MModule :: reader_file
  MCmdline :: string

definition Module_Name :: "Module \<Rightarrow> string" where
  "Module_Name m = (case Fields (MCmdline m) of [] \<Rightarrow> [] | f # _ \<Rightarrow> f)"

record module =
  mStart :: u32
  mEnd :: u32
  mCmdline :: u32
  mReserved :: u32

definition zero_module :: module where
  "zero_module = \<lparr>mStart = 0, mEnd = 0, mCmdline = 0, mReserved = 0\<rparr>"

definition setCmdline :: "module \<Rightarrow> byte list \<Rightarrow> string \<Rightarrow> module \<times> byte list" where
  "setCmdline m b cmdLine = (m\<lparr>mCmdline := word_of_nat (length b)\<rparr>, b @ str_bytes cmdLine @ [0])"

definition pageAlignBuf :: "byte list \<Rightarrow> ('e, byte list) res" where
  "pageAlignBuf b =
     (let sz = sint (UpPage (word_of_nat (length b))) in
      if sz < int (length b) then Panic else Ok (b @ replicate (nat sz - length b) 0))"

definition loadModule :: "module \<Rightarrow> byte list \<Rightarrow> reader_file \<Rightarrow> (io_error, module \<times> byte list) res" where
  "loadModule m b r =
     rbind (pageAlignBuf b) (\<lambda>b1.
     let m1 = m\<lparr>mStart := word_of_nat (length b1)\<rparr> in
     rbind (copy_all r) (\<lambda>bs.
       let b2 = b1 @ bs in Ok (m1\<lparr>mEnd := word_of_nat (length b2)\<rparr>, b2)))"

fun set_cmdlines :: "Module list \<Rightarrow> byte list \<Rightarrow> module list \<times> byte list" where
  "set_cmdlines [] b = ([], b)"
| "set_cmdlines (r # rs) b =
     (let (m, b1) = setCmdline zero_module b (MCmdline r); (ms, b2) = set_cmdlines rs b1 in (m # ms, b2))"

fun load_each :: "(Module \<times> module) list \<Rightarrow> byte list \<Rightarrow> (mb_error, module list \<times> byte list) res" where
  "load_each [] b = Ok ([], b)"
| "load_each ((r, m) # rs) b =
     rbind (lift_err (MbModule (Module_Name r)) (loadModule m b (MModule r))) (\<lambda>(m1, b1).
     rbind (load_each rs b1) (\<lambda>(ms, b2). Ok (m1 # ms, b2)))"

definition loadModules :: "Module list \<Rightarrow> (mb_error, module list \<times> byte list) res" where
  "loadModules rmods = (let (ms, b) = set_cmdlines rmods [] in load_each (zip rmods ms) b)"

definition fix_modules :: "u32 \<Rightarrow> module list \<Rightarrow> module list" where
  "fix_modules base = map (\<lambda>m. m\<lparr>mStart := mStart m + base, mEnd := mEnd m + base, mCmdline := mCmdline m + base\<rparr>)"

definition encode_module :: "module \<Rightarrow> byte list" where
  "encode_module m = pack [4, 4, 4, 4] (map unat [mStart m, mEnd m, mCmdline m, mReserved m])"

definition modules_marshal :: "module list \<Rightarrow> byte list" where
  "modules_marshal ms = concat (map encode_module ms)"

text \<open>A command without a word makes \<open>[0]\<close> panic.\<close>

fun OpenModules :: "(string \<Rightarrow> (string, reader_file) res) \<Rightarrow> string list \<Rightarrow> (mb_error, Module list) res" where
  "OpenModules open [] = Ok []"
| "OpenModules open (cmd # cmds) =
     (case Fields cmd of
        [] \<Rightarrow> Panic
      | name # _ \<Rightarrow>
          rbind (lift_err (MbOpen name) (open name)) (\<lambda>f.
          rbind (OpenModules open cmds) (\<lambda>ms. Ok (\<lparr>MModule = f, MCmdline = cmd\<rparr> # ms))))"

fun LazyOpenModules :: "(string \<Rightarrow> reader_file) \<Rightarrow> string list \<Rightarrow> (mb_error, Module list) res" where
  "LazyOpenModules lazy [] = Ok []"
| "LazyOpenModules lazy (cmd # cmds) =
     (case Fields cmd of
        [] \<Rightarrow> Panic
      | name # _ \<Rightarrow> rbind (LazyOpenModules lazy cmds) (\<lambda>ms. Ok (\<lparr>MModule = lazy name, MCmdline = cmd\<rparr> # ms)))"

text \<open>What closing gives for the modules that can be closed; the last error is kept.\<close>

definition Modules_Close :: "io_error option option list \<Rightarrow> io_error option" where
  "Modules_Close closers = fold (\<lambda>c e. case c of Some (Some e') \<Rightarrow> Some e' | _ \<Rightarrow> e) closers None"

section \<open>The information for the kernel\<close>

record MbMap =
  MmSize :: u32
  BaseAddr :: u64
  MmLength :: u64
  MmType :: u32

definition rangeTypes :: "RangeType \<rightharpoonup> u32" where
  "rangeTypes = map_of [(RangeRAM, 1), (RangeDefault, 2), (RangeACPI, 3), (RangeNVS, 4), (RangeReserved, 2)]"

definition sizeofMemoryMap :: nat where "sizeofMemoryMap = 24"

definition memoryMap :: "MemoryMap \<Rightarrow> MbMap list" where
  "memoryMap phys = map (\<lambda>r.
     \<lparr>MmSize = word_of_nat sizeofMemoryMap - 4, BaseAddr = Start (TRange r), MmLength = Size (TRange r),
      MmType = (case rangeTypes (TType r) of Some t \<Rightarrow> t | None \<Rightarrow> the (rangeTypes RangeDefault))\<rparr>) phys"

definition encode_map :: "MbMap \<Rightarrow> byte list" where
  "encode_map m = pack [4, 8, 8, 4] [unat (MmSize m), unat (BaseAddr m), unat (MmLength m), unat (MmType m)]"

definition maps_marshal :: "MbMap list \<Rightarrow> byte list" where
  "maps_marshal m = concat (map encode_map m)"

definition boundary_step :: "TypedRange \<Rightarrow> u32 \<times> u32 \<Rightarrow> u32 \<times> u32" where
  "boundary_step r lu =
     (case lu of (lower, upper) \<Rightarrow>
        if TType r \<noteq> RangeRAM then (lower, upper)
        else
          let e = ucast (Start (TRange r)) + ucast (Size (TRange r)) :: u32 in
          (if Start (TRange r) \<le> 640 * 1024 \<and> e > lower then e else lower,
           if Start (TRange r) \<le> 1048576 \<and> e > upper + 1048576 then e - 1048576 else upper))"

definition memoryBoundaries :: "MemoryMap \<Rightarrow> u32 \<times> u32" where
  "memoryBoundaries phys = fold boundary_step phys (0, 0)"

definition flagInfoMemory :: u32 where "flagInfoMemory = 1"
definition flagInfoCmdline :: u32 where "flagInfoCmdline = 4"
definition flagInfoMods :: u32 where "flagInfoMods = 8"
definition flagInfoMemMap :: u32 where "flagInfoMemMap = 0x40"
definition flagInfoBootLoaderName :: u32 where "flagInfoBootLoaderName = 0x200"

text \<open>\<open>InfRest\<close>: the numbers of the fields behind \<open>BootLoaderName\<close>, always zero.\<close>

record info =
  InfFlags :: u32
  MemLower :: u32
  MemUpper :: u32
  BootDevice :: u32
  InfCmdline :: u32
  ModsCount :: u32
  ModsAddr :: u32
  Syms :: "u32 list"
  MmapLength :: u32
  MmapAddr :: u32
  DriversLength :: u32
  DrivesrAddr :: u32
  ConfigTable :: u32
  BootLoaderName :: u32
  InfRest :: "nat list"

definition rest_widths :: "nat list" where
  "rest_widths = [4, 4, 4, 2, 2, 2, 2, 2, 2, 4, 4, 1, 1, 6]"

definition info_widths :: "nat list" where
  "info_widths = replicate 17 4 @ rest_widths"

definition zero_info :: info where
  "zero_info = \<lparr>InfFlags = 0, MemLower = 0, MemUpper = 0, BootDevice = 0, InfCmdline = 0, ModsCount = 0, ModsAddr = 0,
     Syms = [0, 0, 0, 0], MmapLength = 0, MmapAddr = 0, DriversLength = 0, DrivesrAddr = 0, ConfigTable = 0,
     BootLoaderName = 0, InfRest = replicate 14 0\<rparr>"

definition info_vals :: "info \<Rightarrow> nat list" where
  "info_vals i = map unat ([InfFlags i, MemLower i, MemUpper i, BootDevice i, InfCmdline i, ModsCount i, ModsAddr i] @ Syms i @
     [MmapLength i, MmapAddr i, DriversLength i, DrivesrAddr i, ConfigTable i, BootLoaderName i]) @ InfRest i"

definition sizeofInfo :: u32 where "sizeofInfo = word_of_nat (sum_list info_widths)"

record infoWrapper =
  IwInfo :: info
  IwCmdline :: string
  IwBootLoaderName :: string

definition info_marshal :: "infoWrapper \<Rightarrow> u64 \<Rightarrow> infoWrapper \<times> byte list" where
  "info_marshal iw base =
     (let offset = sizeofInfo + ucast base;
          offset2 = offset + word_of_nat (length (IwCmdline iw)) + 1;
          inf = (IwInfo iw)\<lparr>InfCmdline := offset, BootLoaderName := offset2,
            InfFlags := InfFlags (IwInfo iw) OR (flagInfoCmdline OR flagInfoBootLoaderName)\<rparr>;
          b = pack info_widths (info_vals inf) @ str_bytes (IwCmdline iw) @ [0] @ str_bytes (IwBootLoaderName iw) @ [0]
      in (iw\<lparr>IwInfo := inf\<rparr>, b @ pad4 (length b)))"

definition info_size :: "infoWrapper \<Rightarrow> u64" where
  "info_size iw = word_of_nat (length (snd (info_marshal iw 0)))"

section \<open>ESXBootInfo\<close>

datatype elem =
    MemRange u64 u64 u32
  | EsxModule u64 u64 "(u64 \<times> u32) list"
  | EsxEfi u32 u64 u64 u32 u32 u32

fun elem_typ :: "elem \<Rightarrow> u32" where
  "elem_typ (MemRange _ _ _) = 1"
| "elem_typ (EsxModule _ _ _) = 2"
| "elem_typ (EsxEfi _ _ _ _ _ _) = 4"

definition esx_buffer :: Lexer where "esx_buffer = NewNativeEndianBuffer LittleEndian None"

fun elem_marshal :: "elem \<Rightarrow> byte list" where
  "elem_marshal (MemRange startAddr len memType) = Data (Write32 memType (Write64 len (Write64 startAddr esx_buffer)))"
| "elem_marshal (EsxModule cmdline moduleSize ranges) =
     Data (fold (\<lambda>(p, n) l. Write32 0 (Write32 n (Write64 p l))) ranges
       (Write32 (word_of_nat (length ranges)) (Write64 moduleSize (Write64 cmdline esx_buffer))))"
| "elem_marshal (EsxEfi fl systab memmap numDescs descSize version) =
     Data (Write32 version (Write32 descSize (Write32 numDescs (Write64 memmap (Write64 systab (Write32 fl esx_buffer))))))"

record esxBootInfoInfo =
  EiCmdline :: u64
  EiElems :: "elem list"

definition esx_put :: "elem \<Rightarrow> Lexer \<Rightarrow> Lexer" where
  "esx_put el l = (let b = elem_marshal el in
     WriteData (\<lambda>_. b) (Write64 (word_of_nat (length b) + 8 + 4) (Write32 (elem_typ el) l)))"

definition esx_marshal :: "esxBootInfoInfo \<Rightarrow> byte list" where
  "esx_marshal m = Data (fold esx_put (EiElems m) (Write64 (word_of_nat (length (EiElems m))) (Write64 (EiCmdline m) esx_buffer)))"

definition maps_elems :: "MbMap list \<Rightarrow> elem list" where
  "maps_elems ms = map (\<lambda>m. MemRange (BaseAddr m) (MmLength m) (MmType m)) ms"

definition modules_elems :: "module list \<Rightarrow> elem list" where
  "modules_elems ms = map (\<lambda>m.
     let n = mEnd m - mStart m in
     EsxModule (ucast (mCmdline m)) (ucast n)
       [(ucast (mStart m div 4096), ucast (UpPage (ucast n)) div 4096)]) ms"

section \<open>The trampoline\<close>

text \<open>
  The code of the trampoline is part of the running program: the addresses of its labels and what memory holds
  there.
\<close>

record tramp_code =
  tc_start :: u64
  tc_end :: u64
  tc_info :: u64
  tc_magic :: u64
  tc_entry :: u64
  tc_text :: "u64 \<Rightarrow> nat \<Rightarrow> byte list"

definition tramp_extract :: "tramp_code \<Rightarrow> (io_error, u64 \<times> byte list) res" where
  "tramp_extract tc =
     (if tc_end tc \<le> tc_start tc then Err UnexpectedEOF
      else Ok (tc_start tc, tc_text tc (tc_start tc) (unat (tc_end tc - tc_start tc))))"

definition tramp_replace :: "u64 \<Rightarrow> byte list \<Rightarrow> u64 \<Rightarrow> u32 \<Rightarrow> (io_error, byte list) res" where
  "tramp_replace start d fPC val =
     (let offset = fPC - start in
      if sint (offset + 4) > int (length d) then Err UnexpectedEOF
      else if sint offset < 0 \<or> sint offset > int (length d) then Panic
      else Ok (take (nat (sint offset)) d @ le_nat 4 (unat val) @ drop (nat (sint offset) + 4) d))"

definition tramp_patch :: "tramp_code \<Rightarrow> u64 \<Rightarrow> byte list \<Rightarrow> u64 \<Rightarrow> u64 \<Rightarrow> u64 \<Rightarrow> (io_error, byte list) res" where
  "tramp_patch tc start d magicVal infoAddr entryPoint =
     rbind (tramp_replace start d (tc_info tc) (ucast infoAddr)) (\<lambda>d1.
     rbind (tramp_replace start d1 (tc_entry tc) (ucast entryPoint)) (\<lambda>d2.
     tramp_replace start d2 (tc_magic tc) (ucast magicVal)))"

definition tramp_Setup :: "tramp_code \<Rightarrow> u64 \<Rightarrow> u64 \<Rightarrow> u64 \<Rightarrow> (io_error, byte list) res" where
  "tramp_Setup tc magic infoAddr entryPoint =
     rbind (tramp_extract tc) (\<lambda>(start, d). tramp_patch tc start d magic infoAddr entryPoint)"

section \<open>Loading\<close>

record multiboot =
  mb_mem :: Memory
  mb_kernel :: reader_file
  mb_modules :: "Module list"
  mb_cmdLine :: string
  mb_bootloader :: string
  mb_trampoline :: string
  mb_entryPoint :: u64
  mb_info :: info
  mb_loadedModules :: "module list"

definition mb_bootloader_name :: string where "mb_bootloader_name = ''u-root kexec''"

definition newMB :: "(string, string) res \<Rightarrow> reader_file \<Rightarrow> string \<Rightarrow> Module list \<Rightarrow> (mb_error, multiboot) res" where
  "newMB exe kfile cmdLine modules =
     rbind (lift_err MbExe exe) (\<lambda>t.
       Ok \<lparr>mb_mem = \<lparr>MPhys = [], MSegments = []\<rparr>, mb_kernel = kfile, mb_modules = modules, mb_cmdLine = cmdLine,
         mb_bootloader = mb_bootloader_name, mb_trampoline = t, mb_entryPoint = 0, mb_info = zero_info, mb_loadedModules = []\<rparr>)"

text \<open>\<open>AddKexecSegment\<close> of new bytes.\<close>

definition mb_add :: "allocator \<Rightarrow> byte list \<Rightarrow> heap \<times> multiboot \<Rightarrow> (mb_error, Range \<times> heap \<times> multiboot) res" where
  "mb_add alloc bs hm =
     rbind (lift_err MbPlace (add_bytes alloc bs (fst hm, mb_mem (snd hm)))) (\<lambda>(r, h', m').
       Ok (r, h', (snd hm)\<lparr>mb_mem := m'\<rparr>))"

text \<open>New bytes in a range found before: \<open>Segments.Insert(NewSegment(d, r))\<close>.\<close>

definition mb_insert :: "allocator \<Rightarrow> byte list \<Rightarrow> Range \<Rightarrow> heap \<times> multiboot \<Rightarrow> (mb_error, heap \<times> multiboot) res" where
  "mb_insert alloc bs r hm =
     (case hm of (h, m) \<Rightarrow>
        rbind (lift_err MbPlace (go_bytes alloc h bs)) (\<lambda>(h', d).
        rbind (lift_err MbKexec (NewSegment d r)) (\<lambda>s.
          Ok (h', m\<lparr>mb_mem := (mb_mem m)\<lparr>MSegments := Segments_Insert (MSegments (mb_mem m)) s\<rparr>\<rparr>))))"

definition mb_loadModules :: "allocator \<Rightarrow> heap \<times> multiboot \<Rightarrow> (mb_error, module list \<times> heap \<times> multiboot) res" where
  "mb_loadModules alloc hm =
     rbind (loadModules (mb_modules (snd hm))) (\<lambda>(loaded, dat).
     rbind (mb_add alloc dat hm) (\<lambda>(cmdlineRange, h', m').
       let l = fix_modules (ucast (Start cmdlineRange)) loaded in
       Ok (l, h', m'\<lparr>mb_loadedModules := l\<rparr>)))"

definition addMultibootModules :: "allocator \<Rightarrow> heap \<times> multiboot \<Rightarrow> (mb_error, u64 \<times> heap \<times> multiboot) res" where
  "addMultibootModules alloc hm =
     rbind (mb_loadModules alloc hm) (\<lambda>(loaded, hm').
     rbind (mb_add alloc (modules_marshal loaded) hm') (\<lambda>(r, hm''). Ok (Start r, hm'')))"

definition addMmap :: "allocator \<Rightarrow> heap \<times> multiboot \<Rightarrow> (mb_error, (u64 \<times> u64) \<times> heap \<times> multiboot) res" where
  "addMmap alloc hm =
     (let mmap = memoryMap (MPhys (mb_mem (snd hm))) in
      rbind (mb_add alloc (maps_marshal mmap) hm) (\<lambda>(r, hm').
        Ok ((Start r, word_of_nat (length mmap) * word_of_nat sizeofMemoryMap), hm')))"

definition newMultibootInfo :: "allocator \<Rightarrow> mb_header \<Rightarrow> heap \<times> multiboot \<Rightarrow> (mb_error, infoWrapper \<times> heap \<times> multiboot) res" where
  "newMultibootInfo alloc hdr hm =
     rbind (addMmap alloc hm) (\<lambda>((mmapAddr, mmapSize), h1, m1).
     let inf = (if HdFlags (HdMandatory hdr) AND flagHeaderMemoryInfo \<noteq> 0 then
                  (case memoryBoundaries (MPhys (mb_mem m1)) of (lower, upper) \<Rightarrow>
                     zero_info\<lparr>InfFlags := flagInfoMemMap OR flagInfoMemory, MemLower := min (drop_bit 10 lower) 0xFFFFFFFF,
                       MemUpper := min (drop_bit 10 upper) 0xFFFFFFFF, MmapLength := ucast mmapSize, MmapAddr := ucast mmapAddr\<rparr>)
                else zero_info)
     in
     rbind (if length (mb_modules m1) > 0 then
              rbind (addMultibootModules alloc (h1, m1)) (\<lambda>(modAddr, hm2).
                Ok (inf\<lparr>InfFlags := InfFlags inf OR flagInfoMods, ModsAddr := ucast modAddr,
                      ModsCount := word_of_nat (length (mb_modules m1))\<rparr>, hm2))
            else Ok (inf, h1, m1)) (\<lambda>(inf2, h2, m2).
       Ok (\<lparr>IwInfo = inf2, IwCmdline = mb_cmdLine m2, IwBootLoaderName = mb_bootloader m2\<rparr>, h2, m2)))"

definition mb_find :: "u64 \<Rightarrow> multiboot \<Rightarrow> (mb_error, Range) res" where
  "mb_find n m = lift_err MbKexec (Memory_FindSpace (mb_mem m) n pageSize)"

definition addInfo_mb :: "allocator \<Rightarrow> mb_header \<Rightarrow> heap \<times> multiboot \<Rightarrow> (mb_error, u64 \<times> heap \<times> multiboot) res" where
  "addInfo_mb alloc hdr hm =
     rbind (newMultibootInfo alloc hdr hm) (\<lambda>(iw, h1, m1).
     rbind (mb_find (info_size iw) m1) (\<lambda>r.
     let (iw', d) = info_marshal iw (Start r) in
     rbind (mb_insert alloc d r (h1, m1\<lparr>mb_info := IwInfo iw'\<rparr>)) (\<lambda>hm2. Ok (Start r, hm2))))"

definition addInfo_esx :: "allocator \<Rightarrow> heap \<times> multiboot \<Rightarrow> (mb_error, u64 \<times> heap \<times> multiboot) res" where
  "addInfo_esx alloc hm =
     (let elems1 = maps_elems (memoryMap (MPhys (mb_mem (snd hm)))) in
      rbind (mb_loadModules alloc hm) (\<lambda>(mods, h1, m1).
      let mi = \<lparr>EiCmdline = 0, EiElems = elems1 @ modules_elems mods\<rparr>;
          n = length (esx_marshal mi);
          cmdlineLen = length (mb_cmdLine m1) + 1
      in
      rbind (mb_find (word_of_nat (n + cmdlineLen)) m1) (\<lambda>r.
      let b = esx_marshal (mi\<lparr>EiCmdline := Start r + word_of_nat n\<rparr>) @ str_bytes (mb_cmdLine m1) @ [0] in
      rbind (mb_insert alloc b r (h1, m1)) (\<lambda>hm2. Ok (Start r, hm2)))))"

fun addInfo :: "allocator \<Rightarrow> imageType \<Rightarrow> heap \<times> multiboot \<Rightarrow> (mb_error, u64 \<times> heap \<times> multiboot) res" where
  "addInfo alloc (MBImage hdr) hm = addInfo_mb alloc hdr hm"
| "addInfo alloc (ESXImage _) hm = addInfo_esx alloc hm"

definition addTrampoline ::
    "allocator \<Rightarrow> tramp_code \<Rightarrow> u64 \<Rightarrow> u64 \<Rightarrow> u64 \<Rightarrow> heap \<times> multiboot \<Rightarrow> (mb_error, u64 \<times> heap \<times> multiboot) res" where
  "addTrampoline alloc tc magic infoAddr kernelEntry hm =
     rbind (lift_err MbRead (tramp_Setup tc magic infoAddr kernelEntry)) (\<lambda>d.
     rbind (mb_add alloc d hm) (\<lambda>(r, hm'). Ok (Start r, hm')))"

definition ibft_range :: Range where "ibft_range = \<lparr>Start = 0x80000, Size = 0x80000\<rparr>"

definition addIbft :: "allocator \<Rightarrow> IBFT option \<Rightarrow> heap \<times> multiboot \<Rightarrow> (mb_error, heap \<times> multiboot) res" where
  "addIbft alloc ibft hm =
     (case ibft of
        None \<Rightarrow> Ok hm
      | Some i \<Rightarrow>
          rbind (lift_err MbIbft (IBFT_Marshal i)) (\<lambda>ibuf.
          rbind (lift_err MbKexec (ReservePhys (mb_mem (snd hm)) (word_of_nat (length ibuf)) ibft_range)) (\<lambda>(r, m').
            mb_insert alloc ibuf r (fst hm, (snd hm)\<lparr>mb_mem := m'\<rparr>))))"

text \<open>
  \<open>load\<close>: the kernel itself and the memory map first (\<open>mb_start\<close>), then what is built for the kernel
  (\<open>mb_build\<close>). \<open>visits\<close> is what walking sysfs shows.
\<close>

record mb_env =
  env_alloc :: allocator
  env_elf :: "reader_file \<Rightarrow> (string, u64 \<times> Prog list) res"
  env_iteration :: "ranges_map \<Rightarrow> ranges_map"
  env_visits :: "visit list"
  env_tramp :: tramp_code

definition mb_start :: "mb_env \<Rightarrow> heap \<times> multiboot \<Rightarrow> (mb_error, (imageType \<times> u64) \<times> heap \<times> multiboot) res" where
  "mb_start env hm =
     (case hm of (h, m) \<Rightarrow>
        rbind (find_header (mb_kernel m)) (\<lambda>hdr.
        rbind (lift_err MbElf (env_elf env (mb_kernel m))) (\<lambda>(kernelEntry, progs).
        rbind (lift_err MbKexec (LoadElfSegments (env_alloc env) (rf_ReadAt (mb_kernel m)) h (mb_mem m) progs)) (\<lambda>(h1, mem1).
        rbind (lift_err MbMemMap (Memory_ParseMemoryMap (env_iteration env) (env_visits env) mem1)) (\<lambda>mem2.
          Ok ((hdr, kernelEntry), h1, m\<lparr>mb_mem := mem2\<rparr>))))))"

definition mb_build ::
    "mb_env \<Rightarrow> IBFT option \<Rightarrow> imageType \<times> u64 \<Rightarrow> heap \<times> multiboot \<Rightarrow> (mb_error, heap \<times> multiboot) res" where
  "mb_build env ibft hk hm =
     (case hk of (hdr, kernelEntry) \<Rightarrow>
        rbind (addIbft (env_alloc env) ibft hm) (\<lambda>hm1.
        rbind (addInfo (env_alloc env) hdr hm1) (\<lambda>(infoAddr, hm2).
        rbind (addTrampoline (env_alloc env) (env_tramp env) (bootMagic hdr) infoAddr kernelEntry hm2) (\<lambda>(entry, h3, m3).
          Ok (h3, m3\<lparr>mb_entryPoint := entry\<rparr>)))))"

definition multiboot_load :: "mb_env \<Rightarrow> IBFT option \<Rightarrow> heap \<times> multiboot \<Rightarrow> (mb_error, heap \<times> multiboot) res" where
  "multiboot_load env ibft hm = rbind (mb_start env hm) (\<lambda>(hk, hm1). mb_build env ibft hk hm1)"

definition multiboot_Load ::
    "'k kexec_syscall \<Rightarrow> mb_env \<Rightarrow> (reader_file \<Rightarrow> byte list option) \<Rightarrow> (string, string) res \<Rightarrow> 'k \<Rightarrow> heap \<Rightarrow>
     reader_file \<Rightarrow> string \<Rightarrow> Module list \<Rightarrow> IBFT option \<Rightarrow> 'k \<times> (mb_error, unit) res" where
  "multiboot_Load kexec_load env readGzip exe k h kfile cmdline modules ibft =
     (let kfile' = TryGzipFilter readGzip kfile;
          modules' = map (\<lambda>m. m\<lparr>MModule := TryGzipFilter readGzip (MModule m)\<rparr>) modules
      in
      case rbind (newMB exe kfile' cmdline modules') (\<lambda>m. multiboot_load env ibft (h, m)) of
        Err e \<Rightarrow> (k, Err e)
      | Panic \<Rightarrow> (k, Panic)
      | Ok (h', m) \<Rightarrow>
          (case Load kexec_load (env_alloc env) k h' (mb_entryPoint m) (MSegments (mb_mem m)) 0 of
             (k', r) \<Rightarrow> (k', lift_err MbLoad r)))"

end
