(* ===== verification/MultibootProof.thy ===== *)
theory MultibootProof imports Multiboot begin

text \<open>
  What the multiboot loader finds and what it hands over: the header found is the first valid one, the modules lie
  in memory as their descriptions say, and every address in the information for the kernel is the address of the
  bytes it stands for.
\<close>

section \<open>The header\<close>

text \<open>The \<open>k\<close>-th 32-bit word of a file, and a valid header at the word \<open>i\<close>.\<close>

definition le_word :: "byte list \<Rightarrow> nat \<Rightarrow> u32" where
  "le_word b k = word_of_nat (un_le (take 4 (drop (4 * k) b)))"

definition valid_at :: "byte list \<Rightarrow> nat \<Rightarrow> bool" where
  "valid_at b i \<longleftrightarrow> 4 * i + 12 \<le> length b \<and> le_word b i = headerMagic \<and>
     le_word b i + le_word b (i + 1) + le_word b (i + 2) = 0"

lemma unpack_words: "k < n \<Longrightarrow> unpack (replicate n 4) b ! k = un_le (take 4 (drop (4 * k) b))"
proof (induction n arbitrary: k b)
  case (Suc n)
  then show ?case by (cases k) (simp_all add: add.commute)
qed simp

lemma header_valid_iff:
  assumes "12 \<le> length b"
  shows "header_valid (HdMandatory (header_of (unpack (replicate 12 4) (b @ z)))) headerMagic \<longleftrightarrow> valid_at b 0"
  using assms by (simp add: header_valid_def header_of_def Let_def unpack_words valid_at_def le_word_def)

lemma valid_at_drop: "4 \<le> length b \<Longrightarrow> valid_at b (Suc i) \<longleftrightarrow> valid_at (drop 4 b) i"
  by (auto simp: valid_at_def le_word_def algebra_simps)

declare header_loop.simps [simp del]

lemma header_loop_first:
  "header_loop (b @ replicate 36 0) =
     (if \<exists>i. valid_at b i then
        let h = header_of (unpack (replicate 12 4) (drop (4 * (LEAST i. valid_at b i)) b @ replicate 36 0)) in
        if HdFlags (HdMandatory h) AND flagHeaderUnsupported \<noteq> 0 then Err ErrFlagsNotSupported else Ok h
      else Err ErrHeaderNotFound)"
proof (induction "length b" arbitrary: b rule: less_induct)
  case less
  show ?case
  proof (cases "length b < 12")
    case True
    then have "(\<exists>i. valid_at b i) \<longleftrightarrow> False" by (auto simp: valid_at_def)
    with True show ?thesis unfolding \<open>_ \<longleftrightarrow> False\<close> if_False by (subst header_loop.simps) (simp add: mandatorySize_def optionalSize_def)
  next
    case False
    then have v: "header_valid (HdMandatory (header_of (unpack (replicate 12 4) (b @ replicate 36 0)))) headerMagic \<longleftrightarrow> valid_at b 0"
      by (intro header_valid_iff) auto
    show ?thesis
    proof (cases "valid_at b 0")
      case True
      then have "(LEAST i. valid_at b i) = 0" by (rule Least_eq_0)
      with True v False show ?thesis
        by (subst header_loop.simps) (auto simp: mandatorySize_def optionalSize_def Let_def)
    next
      case 2: False
      have s: "valid_at b (Suc i) \<longleftrightarrow> valid_at (drop 4 b) i" for i using False by (intro valid_at_drop) simp
      have ex: "(\<exists>i. valid_at b i) \<longleftrightarrow> (\<exists>i. valid_at (drop 4 b) i)" using 2 s by (metis not0_implies_Suc)
      have least: "(LEAST i. valid_at b i) = Suc (LEAST i. valid_at (drop 4 b) i)" if "\<exists>i. valid_at b i"
        using that 2 s Least_Suc [of "valid_at b"] by auto
      have "header_loop (b @ replicate 36 0) = header_loop (drop 4 b @ replicate 36 0)"
        using v 2 False by (subst header_loop.simps) (simp add: mandatorySize_def optionalSize_def Let_def)
      also have "\<dots> = (if \<exists>i. valid_at (drop 4 b) i then
        let h = header_of (unpack (replicate 12 4) (drop (4 * (LEAST i. valid_at (drop 4 b) i)) (drop 4 b) @ replicate 36 0)) in
        if HdFlags (HdMandatory h) AND flagHeaderUnsupported \<noteq> 0 then Err ErrFlagsNotSupported else Ok h
      else Err ErrHeaderNotFound)"
        by (rule less.hyps) (use False in auto)
      finally show ?thesis using ex least by (auto simp: Let_def algebra_simps)
    qed
  qed
qed

text \<open>C25: the multiboot header found is the first one in the first 8192 bytes that begins at a multiple of four,
  has the magic and a checksum that makes the three words zero, even when only its mandatory part fits; flags that
  are not supported are an error, and without such a header the search fails.\<close>

theorem parseHeader_first:
  fixes b :: "byte list"
  assumes "b = take 8192 (rf_bytes r)" "12 \<le> length b"
  shows "parseHeader r =
     (if \<exists>i. valid_at b i then
        let h = header_of (unpack (replicate 12 4) (drop (4 * (LEAST i. valid_at b i)) b @ replicate 36 0)) in
        if HdFlags (HdMandatory h) AND flagHeaderUnsupported \<noteq> 0 then Err ErrFlagsNotSupported else Ok h
      else Err ErrHeaderNotFound)"
proof -
  have "parseHeader r = header_loop (b @ replicate 36 0)"
    using assms by (simp add: parseHeader_def ReadAtLeast_def Let_def mandatorySize_def optionalSize_def)
  also have "\<dots> = (if \<exists>i. valid_at b i then
        let h = header_of (unpack (replicate 12 4) (drop (4 * (LEAST i. valid_at b i)) b @ replicate 36 0)) in
        if HdFlags (HdMandatory h) AND flagHeaderUnsupported \<noteq> 0 then Err ErrFlagsNotSupported else Ok h
      else Err ErrHeaderNotFound)" by (rule header_loop_first)
  finally show ?thesis .
qed

definition ex_mb_file :: reader_file where
  "ex_mb_file = \<lparr>rf_bytes = replicate 8 0 @ concat (map (\<lambda>w. le_nat 4 (unat w)) [0x1BADB002 :: u32, 3, - 0x1BADB005]), rf_err = None\<rparr>"

lemma ex_mb_header:
  "length (rf_bytes ex_mb_file) = 20" "take 8192 (rf_bytes ex_mb_file) = rf_bytes ex_mb_file"
  "valid_at (rf_bytes ex_mb_file) 2" "(LEAST i. valid_at (rf_bytes ex_mb_file) i) = 2"
  "HdFlags (HdMandatory (header_of (unpack (replicate 12 4) (drop 8 (rf_bytes ex_mb_file) @ replicate 36 0)))) = 3"
proof -
  let ?b = "rf_bytes ex_mb_file"
  have b: "?b = replicate 8 0 @ le_nat 4 0x1BADB002 @ le_nat 4 3 @ le_nat 4 0xE4524FFB" by (simp add: ex_mb_file_def)
  show l: "length ?b = 20" by (simp add: b)
  have w: "le_word ?b 0 = 0" "le_word ?b 1 = 0" "le_word ?b 2 = 0x1BADB002" "le_word ?b 3 = 3" "le_word ?b 4 = 0xE4524FFB"
    by (simp_all add: b le_word_def un_le_le_nat) (simp_all add: un_le_def un_be_def numeral_eq_Suc)
  show v: "valid_at ?b 2" using w by (simp add: valid_at_def l headerMagic_def)
  have n: "\<not> valid_at ?b 0" "\<not> valid_at ?b 1" using w by (simp_all add: valid_at_def l headerMagic_def)
  show "(LEAST i. valid_at ?b i) = 2"
  proof (rule Least_equality [where P = "valid_at ?b"])
    show "valid_at ?b 2" by (rule v)
    show "2 \<le> i" if "valid_at ?b i" for i
      using that n by (cases "i = 0 \<or> i = 1") auto
  qed
  show "take 8192 ?b = ?b" using l by simp
  show "HdFlags (HdMandatory (header_of (unpack (replicate 12 4) (drop 8 ?b @ replicate 36 0)))) = 3"
    by (simp add: header_of_def Let_def unpack_words b un_le_le_nat)
qed

theorem parseHeader_first_witness:
  "\<exists>h. parseHeader ex_mb_file = Ok h \<and> HdFlags (HdMandatory h) = 3"
  using parseHeader_first [of "take 8192 (rf_bytes ex_mb_file)" ex_mb_file, OF refl, unfolded ex_mb_header]
    ex_mb_header(3,5) by (auto simp: Let_def flagHeaderUnsupported_def)

lemma ex_mb_found: "\<exists>hdr. find_header ex_mb_file = Ok (MBImage hdr)"
proof -
  have "parseHeader ex_mb_file = header_loop (rf_bytes ex_mb_file @ replicate 36 0)"
    by (simp add: parseHeader_def ReadAtLeast_def Let_def ex_mb_header mandatorySize_def optionalSize_def)
  then show ?thesis
    using ex_mb_header(3,5) by (auto simp: header_loop_first ex_mb_header(4) Let_def flagHeaderUnsupported_def find_header_def)
qed

section \<open>Modules\<close>

definition cmd_at :: "byte list \<Rightarrow> module \<Rightarrow> string \<Rightarrow> bool" where
  "cmd_at b m s \<longleftrightarrow> unat (mCmdline m) + length s + 1 \<le> length b \<and>
     take (length s + 1) (drop (unat (mCmdline m)) b) = str_bytes s @ [0]"

definition mod_at :: "byte list \<Rightarrow> module \<Rightarrow> byte list \<Rightarrow> bool" where
  "mod_at b m bs \<longleftrightarrow> unat (mStart m) + length bs \<le> length b \<and> take (length bs) (drop (unat (mStart m)) b) = bs \<and>
     unat (mEnd m) = unat (mStart m) + length bs \<and> 4096 dvd unat (mStart m)"

lemma cmd_at_append: "cmd_at b m s \<Longrightarrow> cmd_at (b @ x) m s"
  by (auto simp: cmd_at_def)

lemma mod_at_append: "mod_at b m bs \<Longrightarrow> mod_at (b @ x) m bs"
  by (auto simp: mod_at_def)

lemma set_cmdlines_at:
  "set_cmdlines rs b = (ms, b') \<Longrightarrow> length b' < 2 ^ 32 \<Longrightarrow>
     (\<exists>x. b' = b @ x) \<and> list_all2 (\<lambda>r m. cmd_at b' m (MCmdline r)) rs ms"
proof (induction rs arbitrary: b ms)
  case (Cons r rs)
  obtain m b1 where m: "setCmdline zero_module b (MCmdline r) = (m, b1)" by fastforce
  obtain ms1 where ms: "set_cmdlines rs b1 = (ms1, b')" "ms = m # ms1"
    using Cons.prems(1) m by (auto split: prod.splits)
  from Cons.IH [OF ms(1) Cons.prems(2)] obtain x where x: "b' = b1 @ x"
    and a: "list_all2 (\<lambda>r m. cmd_at b' m (MCmdline r)) rs ms1" by blast
  have b1: "b1 = b @ str_bytes (MCmdline r) @ [0]" "mCmdline m = word_of_nat (length b)"
    using m by (auto simp: setCmdline_def)
  have "unat (mCmdline m) = length b"
    using Cons.prems(2) x b1 unat_of_nat32 [of "length b"] by simp
  then have "cmd_at b1 m (MCmdline r)" by (simp add: cmd_at_def b1)
  then have "cmd_at b' m (MCmdline r)" unfolding x by (rule cmd_at_append)
  then show ?case using a x b1 by (auto simp: ms(2))
qed simp

lemma length_set_cmdlines: "set_cmdlines rs b = (ms, b') \<Longrightarrow> length ms = length rs"
  by (induction rs arbitrary: b ms) (auto split: prod.splits)

lemma pageAlignBuf_Ok:
  assumes "(pageAlignBuf b :: (io_error, byte list) res) = Ok b1" "length b1 < 2 ^ 32"
  shows "\<exists>x. b1 = b @ x \<and> 4096 dvd length b1"
proof -
  let ?s = "sint (UpPage (word_of_nat (length b)))"
  have s: "\<not> ?s < int (length b)" "b1 = b @ replicate (nat ?s - length b) 0"
    using assms(1) by (auto simp: pageAlignBuf_def Let_def split: if_splits)
  then have l: "int (length b1) = ?s" by simp
  have "uint (UpPage (word_of_nat (length b))) = take_bit 64 (int (length b1))" unfolding l by (simp add: uint_sint)
  also have "\<dots> = int (length b1)" using assms(2) by (simp add: take_bit_eq_mod)
  finally have "length b1 = unat (UpPage (word_of_nat (length b)))" by (metis nat_int unat_eq_nat_uint)
  then show ?thesis using s(2) UpPage_dvd by metis
qed

lemma load_each_at:
  "load_each (zip rs ms) b = Ok (ms', b') \<Longrightarrow> length rs = length ms \<Longrightarrow> length b' < 2 ^ 32 \<Longrightarrow>
     (\<exists>x. b' = b @ x) \<and> list_all2 (\<lambda>m m'. mCmdline m' = mCmdline m) ms ms' \<and>
     list_all2 (\<lambda>r m'. rf_err (MModule r) = None \<and> mod_at b' m' (rf_bytes (MModule r))) rs ms'"
proof (induction rs arbitrary: ms b ms')
  case (Cons r rs)
  then obtain m ms1 where ms: "ms = m # ms1" by (cases ms) auto
  obtain m1 b1 ms2 where l: "loadModule m b (MModule r) = Ok (m1, b1)" "load_each (zip rs ms1) b1 = Ok (ms2, b')" "ms' = m1 # ms2"
    using Cons.prems(1) by (auto simp: ms)
  from Cons.IH [OF l(2)] Cons.prems(2,3) obtain x where x: "b' = b1 @ x"
    and a: "list_all2 (\<lambda>m m'. mCmdline m' = mCmdline m) ms1 ms2"
      "list_all2 (\<lambda>r m'. rf_err (MModule r) = None \<and> mod_at b' m' (rf_bytes (MModule r))) rs ms2"
    by (auto simp: ms)
  obtain b0 where p: "(pageAlignBuf b :: (io_error, byte list) res) = Ok b0" and e: "rf_err (MModule r) = None"
    and b1: "b1 = b0 @ rf_bytes (MModule r)"
    and m1: "m1 = m\<lparr>mStart := word_of_nat (length b0), mEnd := word_of_nat (length b1)\<rparr>"
    using l(1) by (auto simp: loadModule_def copy_all_def Let_def split: option.splits)
  have n: "length b0 < 2 ^ 32" "length b1 < 2 ^ 32" using Cons.prems(3) x b1 by simp_all
  from pageAlignBuf_Ok [OF p n(1)] obtain y where y: "b0 = b @ y" "4096 dvd length b0" by blast
  have "mod_at b1 m1 (rf_bytes (MModule r))"
    using n y(2) by (simp add: mod_at_def m1 unat_of_nat32) (simp add: b1)
  then have "mod_at b' m1 (rf_bytes (MModule r))" unfolding x by (rule mod_at_append)
  moreover have "mCmdline m1 = mCmdline m" by (simp add: m1)
  ultimately show ?case using a x y(1) b1 e by (auto simp: ms l(3))
qed simp

lemma loadModules_layout:
  assumes "loadModules rmods = Ok (ms, d)" "length d < 2 ^ 32"
  shows "list_all2 (\<lambda>r m. rf_err (MModule r) = None \<and> cmd_at d m (MCmdline r) \<and> mod_at d m (rf_bytes (MModule r))) rmods ms"
proof -
  obtain ms0 b where s: "set_cmdlines rmods [] = (ms0, b)" by fastforce
  then have l: "load_each (zip rmods ms0) b = Ok (ms, d)" using assms(1) by (simp add: loadModules_def)
  have n: "length rmods = length ms0" using length_set_cmdlines [OF s] by simp
  from load_each_at [OF l n assms(2)] obtain x where x: "d = b @ x" and a: "list_all2 (\<lambda>m m'. mCmdline m' = mCmdline m) ms0 ms"
      "list_all2 (\<lambda>r m'. rf_err (MModule r) = None \<and> mod_at d m' (rf_bytes (MModule r))) rmods ms" by blast
  from set_cmdlines_at [OF s] assms(2) x have c: "list_all2 (\<lambda>r m. cmd_at b m (MCmdline r)) rmods ms0" by simp
  have "cmd_at d m' s" if "cmd_at b m s" "mCmdline m' = mCmdline m" for m m' s
    using cmd_at_append [OF that(1), of x] that(2) by (simp add: cmd_at_def x)
  with a c show ?thesis by (auto simp: list_all2_conv_all_nth)
qed

section \<open>Placing the parts\<close>

definition mb_inv :: "heap \<times> multiboot \<Rightarrow> bool" where
  "mb_inv hm \<longleftrightarrow> load_inv (fst hm) (mb_mem (snd hm))"

text \<open>A step that only adds blocks and segments.\<close>

definition grows :: "heap \<times> multiboot \<Rightarrow> heap \<times> multiboot \<Rightarrow> bool" where
  "grows hm hm' \<longleftrightarrow> agrees (fst hm) (fst hm') \<and>
     set (MSegments (mb_mem (snd hm))) \<subseteq> set (MSegments (mb_mem (snd hm'))) \<and>
     MPhys (mb_mem (snd hm')) = MPhys (mb_mem (snd hm)) \<and> mb_modules (snd hm') = mb_modules (snd hm) \<and>
     mb_cmdLine (snd hm') = mb_cmdLine (snd hm) \<and> mb_bootloader (snd hm') = mb_bootloader (snd hm)"

text \<open>The bytes \<open>bs\<close> lie at the address \<open>a\<close>, as part of some segment.\<close>

definition stored :: "heap \<times> multiboot \<Rightarrow> u64 \<Rightarrow> byte list \<Rightarrow> bool" where
  "stored hm a bs \<longleftrightarrow> bs = [] \<or> (\<exists>r d k. holds (fst hm) (mb_mem (snd hm)) r d \<and> a = Start r + word_of_nat k \<and>
     k + length bs \<le> length d \<and> take (length bs) (drop k d) = bs)"

text \<open>All RAM lies below 4 GiB, where 32-bit addresses reach.\<close>

definition low_RAM :: "Memory \<Rightarrow> bool" where
  "low_RAM m \<longleftrightarrow> (\<forall>p. type_at (MPhys m) p = Some RangeRAM \<longrightarrow> unat p < 2 ^ 32)"

lemma grows_refl: "grows hm hm"
  by (simp add: grows_def agrees_def)

lemma grows_trans: "grows a b \<Longrightarrow> grows b c \<Longrightarrow> grows a c"
  unfolding grows_def using agrees_trans by fastforce

lemma stored_grows: "stored hm a bs \<Longrightarrow> mb_inv hm \<Longrightarrow> grows hm hm' \<Longrightarrow> stored hm' a bs"
  unfolding stored_def grows_def mb_inv_def using holds_kept by metis

lemma low_grows: "low_RAM (mb_mem (snd hm)) \<Longrightarrow> grows hm hm' \<Longrightarrow> low_RAM (mb_mem (snd hm'))"
  by (simp add: low_RAM_def grows_def)

lemma stored_loads:
  assumes "stored hm a bs" "mb_inv hm"
    and "\<forall>p. p \<in> Pts (Segments_Phys (MSegments (mb_mem (snd hm)))) \<longrightarrow> image h' out p = image (fst hm) (MSegments (mb_mem (snd hm))) p"
  shows "loads h' out a bs"
proof (cases "bs = []")
  case False
  then obtain r d k where d: "holds (fst hm) (mb_mem (snd hm)) r d" "a = Start r + word_of_nat k" "k + length bs \<le> length d"
      "take (length bs) (drop k d) = bs" using assms(1) by (auto simp: stored_def)
  have l: "loads h' out (Start r) d" using holds_loads [OF _ d(1) assms(3)] assms(2) by (simp add: mb_inv_def)
  have "bs ! i = d ! (k + i)" if "i < length bs" for i
    using that d(3) by (subst d(4) [symmetric]) simp
  then show ?thesis using l d(2,3) by (auto simp: loads_def add.assoc simp flip: of_nat_add)
qed (simp add: loads_def)

lemma stored_whole: "holds (fst hm) (mb_mem (snd hm)) r bs \<Longrightarrow> stored hm (Start r) bs"
  unfolding stored_def by (intro disjI2 exI [of _ r] exI [of _ bs] exI [of _ 0]) simp

lemma unat_ucast_down: "unat (w :: u64) < 2 ^ 32 \<Longrightarrow> unat (ucast w :: u32) = unat w"
  by (simp add: unsigned_ucast_eq take_bit_eq_mod)

lemma unat_ucast_up: "unat (ucast (w :: u32) :: u64) = unat w"
proof -
  have "unat w < 2 ^ 64" using unat_u32_lt [of w] by (rule order_less_trans) simp
  then show ?thesis unfolding unsigned_ucast_eq by (simp add: take_bit_nat_eq_self)
qed

lemma stored_part:
  assumes "holds (fst hm) (mb_mem (snd hm)) r d" "free_range m r" "low_RAM m"
    and "k + length bs \<le> length d" "take (length bs) (drop k d) = bs"
  shows "stored hm (ucast (ucast (Start r) + word_of_nat k :: u32)) bs"
proof (cases "bs = []")
  case False
  have v: "valid_range r" using assms(2) by (simp add: free_range_def)
  have "length d \<le> unat (Size r)" using assms(1) unfolding holds_def by blast
  moreover have "0 < length bs" using False by simp
  ultimately have k: "k < unat (Size r)" using assms(4) by linarith
  have "Start r + word_of_nat k \<in> pts r" using range_pts [OF v k] .
  then have "unat (Start r + word_of_nat k) < 2 ^ 32" using assms(2,3) unfolding free_range_def low_RAM_def by blast
  moreover have k64: "unat (word_of_nat k :: u64) = k" using k v by (intro unat_of_nat64) (simp add: valid_range_def)
  then have s: "unat (Start r + word_of_nat k) = unat (Start r) + k"
    using k v unat_add_lem [THEN iffD1, of "Start r" "word_of_nat k"] by (simp add: valid_range_def)
  ultimately have n: "unat (Start r) + k < 2 ^ 32" by simp
  have d: "unat (ucast (Start r) :: u32) = unat (Start r)" using n by (intro unat_ucast_down) simp
  have k32: "unat (word_of_nat k :: u32) = k" using n by (intro unat_of_nat32) simp
  have "unat (ucast (Start r) + word_of_nat k :: u32) = unat (Start r) + k"
    using unat_add_lem [THEN iffD1, of "ucast (Start r) :: u32" "word_of_nat k"] n d k32 by simp
  then have "ucast (ucast (Start r) + word_of_nat k :: u32) = Start r + word_of_nat k"
    unfolding word_unat_eq_iff unat_ucast_up s by simp
  then show ?thesis using assms(1,4,5) unfolding stored_def by metis
qed (simp add: stored_def)

lemma stored_whole32:
  assumes "holds (fst hm) (mb_mem (snd hm)) r bs" "free_range m r" "low_RAM m"
  shows "stored hm (ucast (ucast (Start r) :: u32)) bs"
  using stored_part [OF assms, of 0 bs] by simp

lemma mb_add_step:
  assumes "alloc_ok alloc" "alloc_high alloc" "mb_inv hm" "mb_add alloc bs hm = Ok (r, hm')"
  shows "mb_inv hm' \<and> grows hm hm' \<and> holds (fst hm') (mb_mem (snd hm')) r bs \<and> free_range (mb_mem (snd hm)) r \<and>
    M1 \<le> Start r"
proof -
  obtain h m where hm: "hm = (h, m)" by fastforce
  obtain h' m' where a: "add_bytes alloc bs (h, mb_mem m) = Ok (r, h', m')" and hm': "hm' = (h', m\<lparr>mb_mem := m'\<rparr>)"
    using assms(4) by (auto simp: mb_add_def hm)
  have i: "load_inv h (mb_mem m)" "mem_inv (mb_mem m)" using assms(3) by (simp_all add: mb_inv_def hm load_inv_def)
  show ?thesis
    using add_bytes_placed [OF assms(1,2) i(1) a] add_bytes_free [OF i(2) a] by (simp add: mb_inv_def grows_def hm hm')
qed

lemma mb_insert_step:
  assumes "alloc_ok alloc" "alloc_high alloc" "mb_inv hm" "mb_insert alloc bs r hm = Ok hm'"
    and "free_range (mb_mem (snd hm)) r" "length bs \<le> unat (Size r)"
  shows "mb_inv hm' \<and> grows hm hm' \<and> holds (fst hm') (mb_mem (snd hm')) r bs"
proof -
  obtain h m where hm: "hm = (h, m)" by fastforce
  obtain h' d s where g: "(go_bytes alloc h bs :: (loader_error, heap \<times> gslice) res) = Ok (h', d)" and n: "NewSegment d r = Ok s"
    and hm': "hm' = (h', m\<lparr>mb_mem := (mb_mem m)\<lparr>MSegments := Segments_Insert (MSegments (mb_mem m)) s\<rparr>\<rparr>)"
    using assms(4) by (auto simp: mb_insert_def hm)
  have "load_inv h (mb_mem m)" "free_range (mb_mem m) r" using assms(3,5) by (simp_all add: mb_inv_def hm)
  from insert_segment [OF assms(1,2) g this(1) n this(2) assms(6) refl] show ?thesis
    by (simp add: mb_inv_def grows_def hm hm')
qed

section \<open>The information for the kernel\<close>

text \<open>A module in memory as its descriptor says, where \<open>S a bs\<close> says that the bytes \<open>bs\<close> are at the address \<open>a\<close>.\<close>

definition module_stored :: "(u64 \<Rightarrow> byte list \<Rightarrow> bool) \<Rightarrow> Module \<Rightarrow> module \<Rightarrow> bool" where
  "module_stored S r m \<longleftrightarrow> rf_err (MModule r) = None \<and>
     S (ucast (mStart m)) (rf_bytes (MModule r)) \<and> S (ucast (mCmdline m)) (str_bytes (MCmdline r) @ [0]) \<and>
     mEnd m - mStart m = word_of_nat (length (rf_bytes (MModule r)))"

lemma modules_stored_mono:
  "list_all2 (module_stored S) rs ms \<Longrightarrow> (\<And>a bs. S a bs \<Longrightarrow> S' a bs) \<Longrightarrow> list_all2 (module_stored S') rs ms"
  by (erule list_all2_mono) (auto simp: module_stored_def)

lemma modules_loaded:
  assumes "holds (fst hm) (mb_mem (snd hm)) r d" "free_range m r" "low_RAM m" "loadModules rmods = Ok (ms, d)" "length d < 2 ^ 32"
  shows "list_all2 (module_stored (stored hm)) rmods (fix_modules (ucast (Start r)) ms)"
proof -
  have "module_stored (stored hm) q (p\<lparr>mStart := mStart p + ucast (Start r), mEnd := mEnd p + ucast (Start r), mCmdline := mCmdline p + ucast (Start r)\<rparr>)"
    if "rf_err (MModule q) = None" "cmd_at d p (MCmdline q)" "mod_at d p (rf_bytes (MModule q))" for p q
  proof -
    note st = stored_part [OF assms(1-3)]
    have "stored hm (ucast (ucast (Start r) + word_of_nat (unat (mStart p)) :: u32)) (rf_bytes (MModule q))"
      using that(3) by (intro st) (auto simp: mod_at_def)
    moreover have "stored hm (ucast (ucast (Start r) + word_of_nat (unat (mCmdline p)) :: u32)) (str_bytes (MCmdline q) @ [0])"
      using that(2) by (intro st) (auto simp: cmd_at_def)
    moreover have "mEnd p - mStart p = word_of_nat (length (rf_bytes (MModule q)))"
    proof -
      have "unat (mEnd p) = unat (mStart p) + length (rf_bytes (MModule q))" using that(3) by (simp add: mod_at_def)
      then have "word_of_nat (unat (mEnd p)) = (word_of_nat (unat (mStart p)) + word_of_nat (length (rf_bytes (MModule q))) :: u32)"
        by simp
      then show ?thesis by simp
    qed
    ultimately show ?thesis using that(1) by (simp add: module_stored_def add.commute)
  qed
  with loadModules_layout [OF assms(4,5)] show ?thesis
    by (auto simp: fix_modules_def list_all2_conv_all_nth)
qed

lemma low_RAM_bound:
  assumes "free_range m r" "low_RAM m" "0 < unat (Size r)"
  shows "unat (Start r) + unat (Size r) \<le> 2 ^ 32"
proof -
  have v: "valid_range r" using assms(1) by (simp add: free_range_def)
  let ?k = "unat (Size r) - 1"
  have "Start r + word_of_nat ?k \<in> pts r" by (rule range_pts [OF v]) (use assms(3) in simp)
  then have b: "unat (Start r + word_of_nat ?k) < 2 ^ 32" using assms(1,2) unfolding free_range_def low_RAM_def by blast
  have "unat (word_of_nat ?k :: u64) = ?k" using v by (intro unat_of_nat64) (simp add: valid_range_def)
  then have "unat (Start r + word_of_nat ?k) = unat (Start r) + ?k"
    using v unat_add_lem [THEN iffD1, of "Start r" "word_of_nat ?k"] by (simp add: valid_range_def)
  with b assms(3) show ?thesis by linarith
qed

lemma mb_loadModules_step:
  assumes al: "alloc_ok alloc" "alloc_high alloc" and i: "mb_inv hm" "low_RAM (mb_mem (snd hm))"
    and l: "mb_loadModules alloc hm = Ok (ms, hm')"
  shows "mb_inv hm' \<and> grows hm hm' \<and> list_all2 (module_stored (stored hm')) (mb_modules (snd hm)) ms"
proof -
  obtain ms0 d r h1 m1 where a: "loadModules (mb_modules (snd hm)) = Ok (ms0, d)" "mb_add alloc d hm = Ok (r, h1, m1)"
    "ms = fix_modules (ucast (Start r)) ms0" "hm' = (h1, m1\<lparr>mb_loadedModules := ms\<rparr>)"
    using l by (auto simp: mb_loadModules_def Let_def)
  note s = mb_add_step [OF al i(1) a(2)]
  have d: "length d < 2 ^ 32"
  proof (cases "d = []")
    case False
    have "length d \<le> unat (Size r)" using s unfolding holds_def by blast
    moreover from this have "unat (Start r) + unat (Size r) \<le> 2 ^ 32"
      using False low_RAM_bound [OF _ i(2)] s by fastforce
    moreover have "0 < unat (Start r)" using s by (auto simp: M1_value word_le_nat_alt)
    ultimately show ?thesis by linarith
  qed simp
  have "holds (fst hm') (mb_mem (snd hm')) r d" using s by (simp add: a(4))
  from modules_loaded [OF this _ i(2) a(1) d] s show ?thesis
    by (auto simp: a(3,4) mb_inv_def grows_def)
qed


lemma fits_append: "fits ws vs \<Longrightarrow> fits ws' vs' \<Longrightarrow> fits (ws @ ws') (vs @ vs')"
  by (induction ws vs rule: fits.induct) auto

lemma fits_words: "fits (replicate (length xs) 4) (map unat (xs :: u32 list))"
  by (induction xs) simp_all

lemma fits_zeros: "fits ws (replicate (length ws) 0)"
  by (induction ws) simp_all

definition info_ok :: "info \<Rightarrow> bool" where
  "info_ok i \<longleftrightarrow> length (Syms i) = 4 \<and> fits rest_widths (InfRest i)"

lemma fits_info:
  assumes "info_ok i"
  shows "fits info_widths (info_vals i)"
proof -
  have i: "length (Syms i) = 4" "fits rest_widths (InfRest i)" using assms by (simp_all add: info_ok_def)
  let ?xs = "[InfFlags i, MemLower i, MemUpper i, BootDevice i, InfCmdline i, ModsCount i, ModsAddr i] @ Syms i @
     [MmapLength i, MmapAddr i, DriversLength i, DrivesrAddr i, ConfigTable i, BootLoaderName i]"
  show ?thesis
    unfolding info_widths_def info_vals_def using fits_append [OF fits_words [of ?xs] i(2)] i(1) by simp
qed

lemma length_info: "info_ok i \<Longrightarrow> length (pack info_widths (info_vals i)) = 108"
  using length_pack [OF fits_info] by (simp add: info_widths_def rest_widths_def sum_list_replicate)

lemma info_marshal_bytes:
  assumes "info_ok (IwInfo iw)" "info_marshal iw base = (iw', b)"
  shows "info_ok (IwInfo iw')" "InfCmdline (IwInfo iw') = ucast base + word_of_nat 108"
    "BootLoaderName (IwInfo iw') = ucast base + word_of_nat (109 + length (IwCmdline iw))"
    "\<exists>x. b = pack info_widths (info_vals (IwInfo iw')) @ (str_bytes (IwCmdline iw) @ [0]) @ (str_bytes (IwBootLoaderName iw) @ [0]) @ x"
    "word_of_nat (length b) = info_size iw"
    "IwInfo iw' = (IwInfo iw)\<lparr>InfCmdline := InfCmdline (IwInfo iw'), BootLoaderName := BootLoaderName (IwInfo iw'),
       InfFlags := InfFlags (IwInfo iw) OR (flagInfoCmdline OR flagInfoBootLoaderName)\<rparr>"
proof -
  have s: "sizeofInfo = 108" by (simp add: sizeofInfo_def info_widths_def rest_widths_def sum_list_replicate)
  show i: "info_ok (IwInfo iw')" using assms by (auto simp: info_marshal_def Let_def info_ok_def)
  show "InfCmdline (IwInfo iw') = ucast base + word_of_nat 108"
    using assms(2) by (auto simp: info_marshal_def Let_def s)
  show "BootLoaderName (IwInfo iw') = ucast base + word_of_nat (109 + length (IwCmdline iw))"
    using assms(2) by (auto simp: info_marshal_def Let_def s)
  show "\<exists>x. b = pack info_widths (info_vals (IwInfo iw')) @ (str_bytes (IwCmdline iw) @ [0]) @ (str_bytes (IwBootLoaderName iw) @ [0]) @ x"
    using assms(2) by (auto simp: info_marshal_def Let_def)
  obtain iw0 b0 where z: "info_marshal iw 0 = (iw0, b0)" by fastforce
  have "info_ok (IwInfo iw0)" using assms(1) z by (auto simp: info_marshal_def Let_def info_ok_def)
  then have "length b = length b0"
    using assms(2) z length_info [OF i] length_info [of "IwInfo iw0"] by (auto simp: info_marshal_def Let_def)
  then show "word_of_nat (length b) = info_size iw" by (simp add: info_size_def z)
  show "IwInfo iw' = (IwInfo iw)\<lparr>InfCmdline := InfCmdline (IwInfo iw'), BootLoaderName := BootLoaderName (IwInfo iw'),
       InfFlags := InfFlags (IwInfo iw) OR (flagInfoCmdline OR flagInfoBootLoaderName)\<rparr>"
    using assms(2) by (auto simp: info_marshal_def Let_def)
qed

lemma mb_find_insert_step:
  assumes "alloc_ok alloc" "alloc_high alloc" "mb_inv hm" "mb_find (word_of_nat (length bs)) (snd hm) = Ok r"
    and "mb_insert alloc bs r hm = Ok hm'"
  shows "mb_inv hm' \<and> grows hm hm' \<and> holds (fst hm') (mb_mem (snd hm')) r bs \<and> free_range (mb_mem (snd hm)) r"
proof -
  obtain h' d where g: "(go_bytes alloc (fst hm) bs :: (loader_error, heap \<times> gslice) res) = Ok (h', d)"
    using assms(5) by (auto simp: mb_insert_def split: prod.splits)
  note b = go_bytes_Ok(7) [OF assms(1,2) g]
  have f: "Memory_FindSpace (mb_mem (snd hm)) (word_of_nat (length bs)) pageSize = Ok r" using assms(4) by (simp add: mb_find_def)
  have i: "mem_inv (mb_mem (snd hm))" using assms(3) by (simp add: mb_inv_def load_inv_def)
  note ff = Memory_FindSpace_free [OF i f]
  have n: "unat (word_of_nat (length bs) :: u64) = length bs" using b by (intro unat_of_nat64) simp
  have "Size r = UpPage (word_of_nat (length bs))" using ff(2) by (simp add: UpPage_def pageSize_def)
  then have "length bs \<le> unat (Size r)" using UpPage_ge [of "word_of_nat (length bs)"] b n by simp
  from mb_insert_step [OF assms(1-3,5) ff(1) this] ff(1) show ?thesis by blast
qed

text \<open>What the information says of the memory map and of the modules.\<close>

definition described :: "(u64 \<Rightarrow> byte list \<Rightarrow> bool) \<Rightarrow> mb_header \<Rightarrow> MemoryMap \<Rightarrow> Module list \<Rightarrow> info \<Rightarrow> bool" where
  "described S hdr phys mods nf \<longleftrightarrow>
     (HdFlags (HdMandatory hdr) AND flagHeaderMemoryInfo \<noteq> 0 \<longrightarrow> InfFlags nf AND flagInfoMemMap \<noteq> 0 \<and>
        S (ucast (MmapAddr nf)) (maps_marshal (memoryMap phys)) \<and>
        MmapLength nf = word_of_nat (length (maps_marshal (memoryMap phys)))) \<and>
     (mods \<noteq> [] \<longrightarrow> InfFlags nf AND flagInfoMods \<noteq> 0 \<and> ModsCount nf = word_of_nat (length mods) \<and>
        (\<exists>ms. S (ucast (ModsAddr nf)) (modules_marshal ms) \<and> list_all2 (module_stored S) mods ms))"

lemma described_mono:
  assumes "described S hdr phys mods nf" "\<And>a bs. S a bs \<Longrightarrow> S' a bs"
  shows "described S' hdr phys mods nf"
  using assms modules_stored_mono [of S mods _ S'] unfolding described_def by blast

lemma described_grows: "described (stored hm) hdr phys mods nf \<Longrightarrow> mb_inv hm \<Longrightarrow> grows hm hm' \<Longrightarrow> described (stored hm') hdr phys mods nf"
  by (erule described_mono) (rule stored_grows)

lemma or_and_nonzero: "x AND (m :: u32) \<noteq> 0 \<Longrightarrow> (x OR y) AND m \<noteq> 0"
proof
  assume a: "x AND m \<noteq> 0" "(x OR y) AND m = 0"
  have "x AND m = (x AND m) AND ((x OR y) AND m)" by (rule bit_word_eqI) (auto simp: bit_simps)
  then show False using a by simp
qed

lemma described_cong:
  assumes "described S hdr phys mods nf"
    and "nf' = nf\<lparr>InfCmdline := c, BootLoaderName := b, InfFlags := InfFlags nf OR f\<rparr>"
  shows "described S hdr phys mods nf'"
  using assms or_and_nonzero by (auto simp: described_def)

lemma length_encode_map: "length (encode_map m) = 24"
proof -
  have "fits [4, 8, 8, 4] [unat (MmSize m), unat (BaseAddr m), unat (MmLength m), unat (MmType m)]" by simp
  from length_pack [OF this] show ?thesis by (simp add: encode_map_def)
qed

lemma length_maps: "length (maps_marshal ms) = length ms * 24"
  unfolding maps_marshal_def by (induction ms) (simp_all add: length_encode_map)

lemma ucast_of_nat32: "(ucast (word_of_nat n :: u64) :: u32) = word_of_nat n"
  by (simp add: unsigned_of_nat word_of_nat_eq_iff)

lemma newMultibootInfo_step:
  assumes al: "alloc_ok alloc" "alloc_high alloc" and i: "mb_inv hm" "low_RAM (mb_mem (snd hm))"
    and l: "newMultibootInfo alloc hdr hm = Ok (iw, hm')"
  shows "mb_inv hm' \<and> grows hm hm' \<and> info_ok (IwInfo iw) \<and> IwCmdline iw = mb_cmdLine (snd hm) \<and> IwBootLoaderName iw = mb_bootloader (snd hm) \<and>
    described (stored hm') hdr (MPhys (mb_mem (snd hm))) (mb_modules (snd hm)) (IwInfo iw)"
proof -
  let ?maps = "memoryMap (MPhys (mb_mem (snd hm)))"
  obtain r hm1 where a: "mb_add alloc (maps_marshal ?maps) hm = Ok (r, hm1)"
    and a': "addMmap alloc hm = Ok ((Start r, word_of_nat (length ?maps) * word_of_nat sizeofMemoryMap), hm1)"
  proof -
    obtain mA mS h1 m1 where "addMmap alloc hm = Ok ((mA, mS), h1, m1)" using l by (auto simp: newMultibootInfo_def)
    then show ?thesis using that by (auto simp: addMmap_def Let_def)
  qed
  note s1 = mb_add_step [OF al i(1) a]
  have low1: "low_RAM (mb_mem (snd hm1))" using low_grows [OF i(2)] s1 by blast
  have st: "stored hm1 (ucast (ucast (Start r) :: u32)) (maps_marshal ?maps)"
    using stored_whole32 [OF _ _ i(2)] s1 by blast
  have len: "(ucast (word_of_nat (length ?maps) * word_of_nat sizeofMemoryMap :: u64) :: u32) = word_of_nat (length (maps_marshal ?maps))"
    using ucast_of_nat32 [of "length ?maps * sizeofMemoryMap"] by (simp add: length_maps sizeofMemoryMap_def)
  define nf where "nf = (if HdFlags (HdMandatory hdr) AND flagHeaderMemoryInfo \<noteq> 0 then
                  (case memoryBoundaries (MPhys (mb_mem (snd hm1))) of (lower, upper) \<Rightarrow>
                     zero_info\<lparr>InfFlags := flagInfoMemMap OR flagInfoMemory, MemLower := min (drop_bit 10 lower) 0xFFFFFFFF,
                       MemUpper := min (drop_bit 10 upper) 0xFFFFFFFF,
                       MmapLength := ucast (word_of_nat (length ?maps) * word_of_nat sizeofMemoryMap :: u64), MmapAddr := ucast (Start r)\<rparr>)
                else zero_info)"
  have nf: "info_ok nf" "described (stored hm1) hdr (MPhys (mb_mem (snd hm))) [] nf"
  proof -
    have z: "info_ok zero_info"
    proof -
      have "length rest_widths = 14" by (simp add: rest_widths_def)
      with fits_zeros [of rest_widths] show ?thesis by (simp add: info_ok_def zero_info_def)
    qed
    show "info_ok nf" using z by (simp add: nf_def info_ok_def split: prod.splits)
    have f: "(flagInfoMemMap OR flagInfoMemory) AND flagInfoMemMap \<noteq> 0" by (simp add: flagInfoMemMap_def flagInfoMemory_def)
    show "described (stored hm1) hdr (MPhys (mb_mem (snd hm))) [] nf"
    proof (cases "HdFlags (HdMandatory hdr) AND flagHeaderMemoryInfo = 0")
      case False
      then show ?thesis using st len f by (simp add: nf_def described_def split: prod.splits)
    qed (simp add: described_def)
  qed
  have dsc: "described (stored hm2) hdr (MPhys (mb_mem (snd hm))) mods (nf\<lparr>InfFlags := InfFlags nf OR flagInfoMods, ModsAddr := a, ModsCount := c\<rparr>)"
    if "c = word_of_nat (length mods)" "stored hm2 (ucast a) (modules_marshal ms)" "list_all2 (module_stored (stored hm2)) mods ms"
      "grows hm1 hm2" for mods hm2 a c ms
    using described_grows [OF nf(2) _ that(4)] s1 that(1-3) or_and_nonzero [of "InfFlags nf" flagInfoMemMap flagInfoMods]
    by (auto simp: described_def flagInfoMods_def bit.conj_disj_distrib2)
  have eq: "rbind (if 0 < length (mb_modules (snd hm1)) then
        rbind (addMultibootModules alloc hm1) (\<lambda>p. Ok (nf\<lparr>InfFlags := InfFlags nf OR flagInfoMods, ModsAddr := ucast (fst p),
          ModsCount := word_of_nat (length (mb_modules (snd hm1)))\<rparr>, snd p))
      else Ok (nf, hm1))
      (\<lambda>p. Ok (\<lparr>IwInfo = fst p, IwCmdline = mb_cmdLine (snd (snd p)), IwBootLoaderName = mb_bootloader (snd (snd p))\<rparr>, snd p)) = Ok (iw, hm')"
    using l a' unfolding newMultibootInfo_def nf_def by (cases hm1) (simp only: rbind.simps split_def Let_def fst_conv snd_conv prod.collapse)
  show ?thesis
  proof (cases "mb_modules (snd hm1) = []")
    case True
    then have "iw = \<lparr>IwInfo = nf, IwCmdline = mb_cmdLine (snd hm1), IwBootLoaderName = mb_bootloader (snd hm1)\<rparr>" "hm' = hm1"
      using eq by auto
    with nf s1 True show ?thesis by (auto simp: grows_def)
  next
    case False
    then obtain ad hm2 where m: "addMultibootModules alloc hm1 = Ok (ad, hm2)" "hm' = hm2"
      "iw = \<lparr>IwInfo = nf\<lparr>InfFlags := InfFlags nf OR flagInfoMods, ModsAddr := ucast ad,
           ModsCount := word_of_nat (length (mb_modules (snd hm1)))\<rparr>, IwCmdline = mb_cmdLine (snd hm2), IwBootLoaderName = mb_bootloader (snd hm2)\<rparr>"
      using eq by auto
    obtain ms h1 r2 where q: "mb_loadModules alloc hm1 = Ok (ms, h1)" "mb_add alloc (modules_marshal ms) h1 = Ok (r2, hm2)" "ad = Start r2"
      using m(1) by (auto simp: addMultibootModules_def)
    have i1: "mb_inv hm1" using s1 by blast
    note s2 = mb_loadModules_step [OF al i1 low1 q(1)]
    have low2: "low_RAM (mb_mem (snd h1))" using low_grows [OF low1] s2 by blast
    have i2: "mb_inv h1" using s2 by blast
    note s3 = mb_add_step [OF al i2 q(2)]
    have st2: "stored hm2 (ucast (ucast ad :: u32)) (modules_marshal ms)"
      unfolding q(3) using stored_whole32 [OF _ _ low2] s3 by blast
    have md: "list_all2 (module_stored (stored hm2)) (mb_modules (snd hm1)) ms" using modules_stored_mono [of "stored h1" _ _ "stored hm2"] stored_grows s2 s3 by blast
    have g: "grows hm1 hm2" using grows_trans s2 s3 by blast
    have "mb_modules (snd hm1) = mb_modules (snd hm)" using s1 by (simp add: grows_def)
    with dsc [OF refl st2 md g] have "described (stored hm2) hdr (MPhys (mb_mem (snd hm))) (mb_modules (snd hm)) (IwInfo iw)"
      by (simp add: m(3))
    moreover have "mb_inv hm2" "grows hm hm2" using s3 grows_trans s1 g by blast+
    moreover have "info_ok (IwInfo iw)" using nf(1) by (simp add: m(3) info_ok_def)
    ultimately show ?thesis by (simp add: m(2,3) grows_def)
  qed
qed

lemma addInfo_mb_step:
  assumes al: "alloc_ok alloc" "alloc_high alloc" and i: "mb_inv hm" "low_RAM (mb_mem (snd hm))"
    and l: "addInfo_mb alloc hdr hm = Ok (a, hm')"
  shows "mb_inv hm' \<and> grows hm hm' \<and> unat a < 2 ^ 32 \<and> (\<exists>nf. info_ok nf \<and> stored hm' a (pack info_widths (info_vals nf)) \<and>
    InfFlags nf AND flagInfoCmdline \<noteq> 0 \<and> stored hm' (ucast (InfCmdline nf)) (str_bytes (mb_cmdLine (snd hm)) @ [0]) \<and>
    InfFlags nf AND flagInfoBootLoaderName \<noteq> 0 \<and> stored hm' (ucast (BootLoaderName nf)) (str_bytes (mb_bootloader (snd hm)) @ [0]) \<and>
    described (stored hm') hdr (MPhys (mb_mem (snd hm))) (mb_modules (snd hm)) nf)"
proof -
  obtain iw h1 m1 r where n: "newMultibootInfo alloc hdr hm = Ok (iw, h1, m1)" and f: "mb_find (info_size iw) m1 = Ok r"
    and q: "(case info_marshal iw (Start r) of (iw', d) \<Rightarrow>
      rbind (mb_insert alloc d r (h1, m1\<lparr>mb_info := IwInfo iw'\<rparr>)) (\<lambda>hm2. Ok (Start r, hm2))) = Ok (a, hm')"
    using l unfolding addInfo_mb_def Let_def by fastforce
  obtain iw' d where d: "info_marshal iw (Start r) = (iw', d)" by fastforce
  with q have ins: "mb_insert alloc d r (h1, m1\<lparr>mb_info := IwInfo iw'\<rparr>) = Ok hm'" and a: "a = Start r" by auto
  note s1 = newMultibootInfo_step [OF al i n]
  let ?hm1 = "(h1, m1\<lparr>mb_info := IwInfo iw'\<rparr>)"
  have i1: "mb_inv ?hm1" and g1: "grows hm ?hm1" using s1 by (simp_all add: mb_inv_def grows_def)
  have ok: "info_ok (IwInfo iw)" using s1 by blast
  note b = info_marshal_bytes [OF ok d]
  have f': "mb_find (word_of_nat (length d)) (snd ?hm1) = Ok r" using f by (simp add: b(5) mb_find_def)
  note s2 = mb_find_insert_step [OF al i1 f' ins]
  have low1: "low_RAM (mb_mem (snd ?hm1))" using low_grows [OF i(2) g1] .
  let ?nf = "IwInfo iw'"
  obtain x where x: "d = pack info_widths (info_vals ?nf) @ (str_bytes (IwCmdline iw) @ [0]) @ (str_bytes (IwBootLoaderName iw) @ [0]) @ x" using b(4) by blast
  have l108: "length (pack info_widths (info_vals ?nf)) = 108" by (rule length_info [OF b(1)])
  have "stored hm' (Start r) (pack info_widths (info_vals ?nf))"
    unfolding stored_def using s2 x
    by (intro disjI2 exI [of _ r] exI [of _ d] exI [of _ 0]) simp
  moreover have "stored hm' (ucast (InfCmdline ?nf)) (str_bytes (IwCmdline iw) @ [0])"
    unfolding b(2) by (rule stored_part [of _ r d]) (use s2 low1 l108 in \<open>simp_all add: x\<close>)
  moreover have "stored hm' (ucast (BootLoaderName ?nf)) (str_bytes (IwBootLoaderName iw) @ [0])"
    unfolding b(3) by (rule stored_part [of _ r d]) (use s2 low1 l108 in \<open>simp_all add: x\<close>)
  moreover have "unat (Start r) < 2 ^ 32"
  proof -
    have "length d \<le> unat (Size r)" using s2 unfolding holds_def by blast
    then have "0 < unat (Size r)" using l108 by (simp add: x)
    from low_RAM_bound [OF _ low1 this] s2 this show ?thesis by fastforce
  qed
  moreover have "described (stored hm') hdr (MPhys (mb_mem (snd hm))) (mb_modules (snd hm)) ?nf"
  proof -
    have m: "grows (h1, m1) hm'" using s2 by (simp add: grows_def)
    have "described (stored (h1, m1)) hdr (MPhys (mb_mem (snd hm))) (mb_modules (snd hm)) ?nf"
      by (rule described_cong [OF _ b(6)]) (use s1 in blast)
    from described_grows [OF this _ m] s1 show ?thesis by blast
  qed
  moreover have "InfFlags ?nf AND flagInfoCmdline \<noteq> 0"
  proof -
    have "flagInfoCmdline AND flagInfoCmdline \<noteq> 0" by (simp add: flagInfoCmdline_def)
    from or_and_nonzero [OF this, of "InfFlags (IwInfo iw) OR flagInfoBootLoaderName"]
    have "(InfFlags (IwInfo iw) OR (flagInfoCmdline OR flagInfoBootLoaderName)) AND flagInfoCmdline \<noteq> 0"
      by (simp add: or.left_commute)
    moreover have "InfFlags ?nf = InfFlags (IwInfo iw) OR (flagInfoCmdline OR flagInfoBootLoaderName)"
      using arg_cong [OF b(6), of InfFlags] by simp
    ultimately show ?thesis by simp
  qed
  moreover have "InfFlags ?nf AND flagInfoBootLoaderName \<noteq> 0"
  proof -
    have "flagInfoBootLoaderName AND flagInfoBootLoaderName \<noteq> 0" by (simp add: flagInfoBootLoaderName_def)
    from or_and_nonzero [OF this, of "InfFlags (IwInfo iw) OR flagInfoCmdline"]
    have "(InfFlags (IwInfo iw) OR (flagInfoCmdline OR flagInfoBootLoaderName)) AND flagInfoBootLoaderName \<noteq> 0"
      by (simp add: or.assoc or.commute or.left_commute)
    moreover have "InfFlags ?nf = InfFlags (IwInfo iw) OR (flagInfoCmdline OR flagInfoBootLoaderName)"
      using arg_cong [OF b(6), of InfFlags] by simp
    ultimately show ?thesis by simp
  qed
  moreover have "IwCmdline iw = mb_cmdLine (snd hm)" "IwBootLoaderName iw = mb_bootloader (snd hm)" "mb_inv hm'" "grows hm hm'" "info_ok ?nf" using s1 s2 grows_trans [OF g1] b(1) by blast+
  ultimately show ?thesis unfolding a by metis
qed

lemma addIbft_step:
  assumes al: "alloc_ok alloc" "alloc_high alloc" and i: "mb_inv hm" "low_RAM (mb_mem (snd hm))"
    and l: "addIbft alloc ibft hm = Ok hm'"
  shows "mb_inv hm' \<and> low_RAM (mb_mem (snd hm')) \<and> mb_modules (snd hm') = mb_modules (snd hm) \<and> mb_cmdLine (snd hm') = mb_cmdLine (snd hm) \<and>
    mb_bootloader (snd hm') = mb_bootloader (snd hm) \<and> (ibft = None \<longrightarrow> hm' = hm) \<and>
    (\<forall>t. ibft = Some t \<longrightarrow> (\<exists>r b. IBFT_Marshal t = Ok b \<and> stored hm' (Start r) b \<and> length b \<le> unat (Size r) \<and>
      0x80000 \<le> Start r \<and> End r \<le> 0x100000 \<and> (\<forall>p \<in> pts r. type_at (MPhys (mb_mem (snd hm'))) p = Some RangeReserved)))"
proof (cases ibft)
  case (Some t)
  obtain h m where hm: "hm = (h, m)" by fastforce
  obtain b r m1 h' d s where b: "IBFT_Marshal t = Ok b" "ReservePhys (mb_mem m) (word_of_nat (length b)) ibft_range = Ok (r, m1)"
    "(go_bytes alloc h b :: (loader_error, heap \<times> gslice) res) = Ok (h', d)" "NewSegment d r = Ok s"
    "hm' = (h', m\<lparr>mb_mem := m1\<lparr>MSegments := Segments_Insert (MSegments m1) s\<rparr>\<rparr>)"
    using l Some by (auto simp: addIbft_def mb_insert_def hm)
  have v: "valid_range ibft_range" by (simp add: ibft_range_def valid_range_def)
  have li: "load_inv h (mb_mem m)" using i(1) by (simp add: mb_inv_def hm)
  note rp = reserve_placed [OF al li v b(3) b(2) b(4) refl]
  have "low_RAM (mb_mem (snd hm'))"
    using i(2) rp(9) RAM_not_Reserved by (simp add: low_RAM_def b(5) hm del: mem_pts)
  moreover have "stored hm' (Start r) b" by (rule stored_whole) (use rp(2) b(5) in simp)
  moreover have "length b \<le> unat (Size r)" using rp(2) unfolding holds_def by blast
  moreover have "0x80000 \<le> Start r" "End r \<le> 0x100000" using rp(7,8) by (simp_all add: ibft_range_def End_def)
  ultimately show ?thesis using rp(1,9) b(1) Some by (auto simp: b(5) mb_inv_def hm simp del: mem_pts)
qed (use l i in \<open>simp add: addIbft_def\<close>)

section \<open>Where the memory information is wrong\<close>

text \<open>RAM from 1 MiB up to the end of the first 4 GiB and a page: 32 bits lose the carry.\<close>

lemma boundaries_wrap:
  "memoryBoundaries [\<lparr>TRange = \<lparr>Start = 0x100000, Size = 0xFFF01000\<rparr>, TType = RangeRAM\<rparr>] = (0, 0)"
  by (simp add: memoryBoundaries_def boundary_step_def Let_def)

lemma lower_not_capped:
  assumes "unat n < 2 ^ 32" "0 < n"
  shows "fst (memoryBoundaries [\<lparr>TRange = \<lparr>Start = 0, Size = n\<rparr>, TType = RangeRAM\<rparr>]) = ucast n"
proof -
  have "unat (ucast n :: u32) = unat n" using assms(1) by (rule unat_ucast_down)
  with assms(2) have "0 < (ucast n :: u32)" by (metis unat_gt_0 word_gt_0)
  then show ?thesis by (simp add: memoryBoundaries_def boundary_step_def Let_def)
qed

lemma OpenModules_empty: "Fields cmd = [] \<Longrightarrow> OpenModules open (cmd # cmds) = Panic \<and> LazyOpenModules lazy (cmd # cmds) = Panic"
  by simp

end
