(* ===== verification/MultibootHandoff.thy ===== *)
theory MultibootHandoff imports MultibootProof begin

text \<open>
  The memory a multiboot kernel starts with, from the files and tables of the loader to the system call, and a
  concrete run: a kernel with one module on a machine with 1 MiB of RAM at \<open>0x100000\<close>.
\<close>

section \<open>What the kernel reads\<close>

text \<open>
  The structures of the multiboot specification, written down as the kernel reads them: numbers of four bytes at
  fixed offsets, flags as bits, a memory map of entries of 24 bytes, a table of modules with entries of 16 bytes.
  \<open>S a bs\<close> says that the bytes \<open>bs\<close> are in memory at the address \<open>a\<close>.
\<close>

definition num_at :: "byte list \<Rightarrow> nat \<Rightarrow> nat" where
  "num_at b k = un_le (take 4 (drop k b))"

definition type_number :: "RangeType \<Rightarrow> nat" where
  "type_number t = (if t = ''System RAM'' then 1 else if t = ''ACPI Tables'' then 3
     else if t = ''ACPI Non-volatile Storage'' then 4 else 2)"

definition map_entry :: "TypedRange \<Rightarrow> byte list" where
  "map_entry r = le_nat 4 20 @ le_nat 8 (unat (Start (TRange r))) @ le_nat 8 (unat (Size (TRange r))) @ le_nat 4 (type_number (TType r))"

definition module_at :: "(u64 \<Rightarrow> byte list \<Rightarrow> bool) \<Rightarrow> Module \<Rightarrow> byte list \<Rightarrow> bool" where
  "module_at S q e \<longleftrightarrow> length e = 16 \<and> rf_err (MModule q) = None \<and>
     S (word_of_nat (num_at e 0)) (rf_bytes (MModule q)) \<and>
     num_at e 4 = (num_at e 0 + length (rf_bytes (MModule q))) mod 2 ^ 32 \<and>
     S (word_of_nat (num_at e 8)) (str_bytes (MCmdline q) @ [0])"

definition kernel_info :: "(u64 \<Rightarrow> byte list \<Rightarrow> bool) \<Rightarrow> mb_header \<Rightarrow> MemoryMap \<Rightarrow> Module list \<Rightarrow> string \<Rightarrow> string \<Rightarrow> byte list \<Rightarrow> bool" where
  "kernel_info S hdr phys mods cmdline loader ib \<longleftrightarrow> length ib = 108 \<and>
     bit (num_at ib 0) 2 \<and> S (word_of_nat (num_at ib 16)) (str_bytes cmdline @ [0]) \<and>
     bit (num_at ib 0) 9 \<and> S (word_of_nat (num_at ib 64)) (str_bytes loader @ [0]) \<and>
     (bit (HdFlags (HdMandatory hdr)) 1 \<longrightarrow> bit (num_at ib 0) 6 \<and>
        num_at ib 44 = 24 * length phys mod 2 ^ 32 \<and> S (word_of_nat (num_at ib 48)) (concat (map map_entry phys))) \<and>
     (mods \<noteq> [] \<longrightarrow> bit (num_at ib 0) 3 \<and> num_at ib 20 = length mods mod 2 ^ 32 \<and>
        (\<exists>es. S (word_of_nat (num_at ib 24)) (concat es) \<and> list_all2 (module_at S) mods es))"

lemma num_at_le: "k + 4 \<le> length b \<Longrightarrow> take 4 (drop k b) = le_nat 4 v \<Longrightarrow> v < 2 ^ 32 \<Longrightarrow> num_at b k = v"
  by (simp add: num_at_def un_le_le_nat)

lemma maps_layout: "maps_marshal (memoryMap phys) = concat (map map_entry phys)"
proof -
  have "unat (case rangeTypes t of Some n \<Rightarrow> n | None \<Rightarrow> the (rangeTypes RangeDefault)) = type_number t" for t
    by (simp add: rangeTypes_def type_number_def RangeRAM_def RangeDefault_def RangeACPI_def RangeNVS_def RangeReserved_def)
  then show ?thesis
    by (induction phys) (simp_all add: maps_marshal_def memoryMap_def encode_map_def map_entry_def sizeofMemoryMap_def)
qed

lemma info_word:
  assumes "info_ok nf" "k < 17"
  shows "num_at (pack info_widths (info_vals nf)) (4 * k) = info_vals nf ! k"
proof -
  let ?b = "pack info_widths (info_vals nf)"
  note f = fits_info [OF assms(1)]
  have w: "take k info_widths = replicate k 4" "info_widths ! k = 4" "k < length info_widths"
    using assms(2) by (simp_all add: info_widths_def nth_append rest_widths_def min_def)
  have "take 4 (drop (4 * k) ?b) = le_nat 4 (info_vals nf ! k)"
    using pack_nth [OF f w(3)] w(1,2) by (simp add: sum_list_replicate mult.commute)
  moreover have "info_vals nf ! k < 2 ^ 32"
  proof -
    have "k < length (map unat ([InfFlags nf, MemLower nf, MemUpper nf, BootDevice nf, InfCmdline nf, ModsCount nf, ModsAddr nf] @
        Syms nf @ [MmapLength nf, MmapAddr nf, DriversLength nf, DrivesrAddr nf, ConfigTable nf, BootLoaderName nf]))"
      using assms by (simp add: info_ok_def)
    then have "\<exists>w :: u32. info_vals nf ! k = unat w" unfolding info_vals_def nth_append by (auto simp del: map_append list.map)
    then show ?thesis using unat_u32_lt by auto
  qed
  ultimately show ?thesis by (intro num_at_le) (use assms(2) length_info [OF assms(1)] in simp_all)
qed

lemma info_words:
  assumes "info_ok nf"
  shows "num_at (pack info_widths (info_vals nf)) 0 = unat (InfFlags nf)"
    "num_at (pack info_widths (info_vals nf)) 16 = unat (InfCmdline nf)"
    "num_at (pack info_widths (info_vals nf)) 20 = unat (ModsCount nf)"
    "num_at (pack info_widths (info_vals nf)) 24 = unat (ModsAddr nf)"
    "num_at (pack info_widths (info_vals nf)) 44 = unat (MmapLength nf)"
    "num_at (pack info_widths (info_vals nf)) 48 = unat (MmapAddr nf)"
    "num_at (pack info_widths (info_vals nf)) 64 = unat (BootLoaderName nf)"
proof -
  have s: "length (Syms nf) = 4" using assms by (simp add: info_ok_def)
  note w = info_word [OF assms]
  have v: "info_vals nf ! 0 = unat (InfFlags nf)" "info_vals nf ! 4 = unat (InfCmdline nf)" "info_vals nf ! 5 = unat (ModsCount nf)"
    "info_vals nf ! 6 = unat (ModsAddr nf)" "info_vals nf ! 11 = unat (MmapLength nf)" "info_vals nf ! 12 = unat (MmapAddr nf)"
    "info_vals nf ! 16 = unat (BootLoaderName nf)"
    using s by (simp_all add: info_vals_def nth_append nth_Cons')
  show "num_at (pack info_widths (info_vals nf)) 0 = unat (InfFlags nf)" using w [of 0] v by simp
  show "num_at (pack info_widths (info_vals nf)) 16 = unat (InfCmdline nf)" using w [of 4] v by simp
  show "num_at (pack info_widths (info_vals nf)) 20 = unat (ModsCount nf)" using w [of 5] v by simp
  show "num_at (pack info_widths (info_vals nf)) 24 = unat (ModsAddr nf)" using w [of 6] v by simp
  show "num_at (pack info_widths (info_vals nf)) 44 = unat (MmapLength nf)" using w [of 11] v by simp
  show "num_at (pack info_widths (info_vals nf)) 48 = unat (MmapAddr nf)" using w [of 12] v by simp
  show "num_at (pack info_widths (info_vals nf)) 64 = unat (BootLoaderName nf)" using w [of 16] v by simp
qed

lemma flag_bit: "(w :: u32) AND 2 ^ n \<noteq> 0 \<longleftrightarrow> bit (unat w) n"
  by (simp add: and_exp_eq_0_iff_not_bit bit_unsigned_iff)

lemma flag_bits:
  "(w :: u32) AND flagInfoCmdline \<noteq> 0 \<longleftrightarrow> bit (unat w) 2" "w AND flagInfoBootLoaderName \<noteq> 0 \<longleftrightarrow> bit (unat w) 9"
  "w AND flagInfoMemMap \<noteq> 0 \<longleftrightarrow> bit (unat w) 6" "w AND flagInfoMods \<noteq> 0 \<longleftrightarrow> bit (unat w) 3"
  using flag_bit [of w 2] flag_bit [of w 9] flag_bit [of w 6] flag_bit [of w 3]
  by (simp_all add: flagInfoCmdline_def flagInfoBootLoaderName_def flagInfoMemMap_def flagInfoMods_def)

lemma ucast_unat: "(word_of_nat (unat (w :: u32)) :: u64) = ucast w"
  by (simp add: word_unat_eq_iff unat_ucast_up unat_of_nat take_bit_eq_mod)

lemma module_at_entry:
  assumes "module_stored S q m"
  shows "module_at S q (encode_module m)"
proof -
  have f: "fits [4, 4, 4, 4] (map unat [mStart m, mEnd m, mCmdline m, mReserved m])" using fits_words [of "[mStart m, mEnd m, mCmdline m, mReserved m]"]
    by simp
  have l: "length (encode_module m) = 16" using length_pack [OF f] by (simp add: encode_module_def)
  have w: "num_at (encode_module m) 0 = unat (mStart m)" "num_at (encode_module m) 4 = unat (mEnd m)"
    "num_at (encode_module m) 8 = unat (mCmdline m)"
    using num_at_le [of 0 "encode_module m" "unat (mStart m)"] num_at_le [of 4 "encode_module m" "unat (mEnd m)"]
      num_at_le [of 8 "encode_module m" "unat (mCmdline m)"] l pack_nth [OF f, of 0] pack_nth [OF f, of 1] pack_nth [OF f, of "Suc (Suc 0)"]
      unat_u32_lt [of "mStart m"] unat_u32_lt [of "mEnd m"] unat_u32_lt [of "mCmdline m"]
    by (simp_all add: encode_module_def)
  have "mEnd m = mStart m + word_of_nat (length (rf_bytes (MModule q)))"
    using assms by (simp add: module_stored_def algebra_simps)
  then have "unat (mEnd m) = (unat (mStart m) + length (rf_bytes (MModule q))) mod 2 ^ 32"
    by (simp add: unat_word_ariths unat_of_nat take_bit_eq_mod mod_add_right_eq)
  then show ?thesis using assms l w by (simp add: module_at_def module_stored_def ucast_unat)
qed

lemma kernel_info_described:
  assumes "described S hdr phys mods nf" "info_ok nf" "InfFlags nf AND flagInfoCmdline \<noteq> 0" "S (ucast (InfCmdline nf)) (str_bytes cmdline @ [0])"
    "InfFlags nf AND flagInfoBootLoaderName \<noteq> 0" "S (ucast (BootLoaderName nf)) (str_bytes loader @ [0])"
  shows "kernel_info S hdr phys mods cmdline loader (pack info_widths (info_vals nf))"
proof -
  have h: "HdFlags (HdMandatory hdr) AND flagHeaderMemoryInfo \<noteq> 0 \<longleftrightarrow> bit (HdFlags (HdMandatory hdr)) 1"
    using and_exp_eq_0_iff_not_bit [of "HdFlags (HdMandatory hdr)" 1] by (simp add: flagHeaderMemoryInfo_def)
  have len: "length (concat (map map_entry phys)) = 24 * length phys" for phys
    by (induction phys) (simp_all add: map_entry_def)
  have n: "unat (word_of_nat k :: u32) = k mod 2 ^ 32" for k by (simp add: unat_of_nat take_bit_eq_mod)
  have "\<exists>es. S (word_of_nat (unat (ModsAddr nf))) (concat es) \<and> list_all2 (module_at S) mods es" if mods: "mods \<noteq> []"
  proof -
    obtain ms where ms: "S (ucast (ModsAddr nf)) (modules_marshal ms)" "list_all2 (module_stored S) mods ms"
      using assms(1) mods unfolding described_def by blast
    have "list_all2 (module_at S) mods (map encode_module ms)"
      using ms(2) module_at_entry by (auto simp: list_all2_conv_all_nth)
    then show ?thesis using ms(1) by (auto simp: modules_marshal_def ucast_unat)
  qed
  then show ?thesis
    using assms h unfolding kernel_info_def info_words [OF assms(2)] ucast_unat flag_bits maps_layout described_def
    by (simp add: length_info len n del: of_nat_mult)
qed

section \<open>The trampoline\<close>

text \<open>
  The code of the trampoline: less than 4 GiB, with room for its three numbers, apart from each other.
\<close>

definition tramp_size :: "tramp_code \<Rightarrow> nat" where
  "tramp_size tc = unat (tc_end tc - tc_start tc)"

definition apart :: "nat \<Rightarrow> nat \<Rightarrow> bool" where
  "apart i j \<longleftrightarrow> i + 4 \<le> j \<or> j + 4 \<le> i"

definition tramp_ok :: "tramp_code \<Rightarrow> bool" where
  "tramp_ok tc \<longleftrightarrow> tramp_size tc < 2 ^ 32 \<and> length (tc_text tc (tc_start tc) (tramp_size tc)) = tramp_size tc \<and>
     (let i = unat (tc_info tc - tc_start tc); m = unat (tc_magic tc - tc_start tc); e = unat (tc_entry tc - tc_start tc)
      in apart i m \<and> apart i e \<and> apart m e)"

text \<open>What has to lie at the entry point: the code with the address of the information, the magic number and the
  entry point of the kernel in their places.\<close>

definition tramp_image :: "tramp_code \<Rightarrow> nat \<Rightarrow> nat \<Rightarrow> nat \<Rightarrow> byte list \<Rightarrow> bool" where
  "tramp_image tc infoAddr magic kernelEntry d \<longleftrightarrow> length d = tramp_size tc \<and>
     (let i = unat (tc_info tc - tc_start tc); m = unat (tc_magic tc - tc_start tc); e = unat (tc_entry tc - tc_start tc)
      in num_at d i = infoAddr mod 2 ^ 32 \<and> num_at d m = magic mod 2 ^ 32 \<and> num_at d e = kernelEntry mod 2 ^ 32 \<and>
        (\<forall>k < length d. \<not> (i \<le> k \<and> k < i + 4) \<longrightarrow> \<not> (m \<le> k \<and> k < m + 4) \<longrightarrow> \<not> (e \<le> k \<and> k < e + 4) \<longrightarrow>
          d ! k = tc_text tc (tc_start tc) (tramp_size tc) ! k))"

lemma sint_unat63: "unat (w :: u64) < 2 ^ 63 \<Longrightarrow> sint w = int (unat w)"
proof -
  assume n: "unat w < 2 ^ 63"
  have "int (unat w) < int (2 ^ 63)" using n by (simp only: of_nat_less_iff)
  then have b: "uint w < 2 ^ 63" by simp
  have "- (2 ^ 63) \<le> (0 :: int)" by simp
  also have "0 \<le> uint w" by (rule unsigned_greater_eq)
  finally have "- (2 ^ 63) \<le> uint w" .
  from signed_take_bit_int_eq_self [OF this b] have "sint w = uint w" by (simp add: sint_uint)
  then show ?thesis by (simp only: uint_nat)
qed

lemma sint_nonneg: "0 \<le> sint (w :: u64) \<Longrightarrow> unat w = nat (sint w)"
proof -
  assume n: "0 \<le> sint w"
  have "sint w < 2 ^ 63" using sint_lt [of w] by simp
  with n have "take_bit 64 (sint w) = sint w" by (intro take_bit_int_eq_self) simp_all
  moreover have "uint w = take_bit 64 (sint w)" using uint_sint [of w] by simp
  ultimately have "int (unat w) = sint w" by (simp only: uint_nat)
  then show ?thesis by (metis nat_int)
qed

lemma tramp_replace_Ok:
  assumes "tramp_replace start d p val = Ok d'" "length d < 2 ^ 32"
  shows "unat (p - start) + 4 \<le> length d" "length d' = length d" "num_at d' (unat (p - start)) = unat val"
    "apart j (unat (p - start)) \<Longrightarrow> num_at d' j = num_at d j"
    "k < length d \<Longrightarrow> \<not> (unat (p - start) \<le> k \<and> k < unat (p - start) + 4) \<Longrightarrow> d' ! k = d ! k"
proof -
  let ?w = "p - start"
  have c: "sint (?w + 4) \<le> int (length d)" "0 \<le> sint ?w" "sint ?w \<le> int (length d)"
    and d0: "d' = take (nat (sint ?w)) d @ le_nat 4 (unat val) @ drop (nat (sint ?w) + 4) d"
    using assms(1) by (auto simp: tramp_replace_def Let_def split: if_splits)
  note u = sint_nonneg [OF c(2)]
  have d': "d' = take (unat ?w) d @ le_nat 4 (unat val) @ drop (unat ?w + 4) d" using d0 by (simp add: u)
  have small: "unat ?w < 2 ^ 33" using u c(3) assms(2) by simp
  have w4: "unat (?w + 4) = unat ?w + 4" using small unat_add_lem [of ?w 4] by simp
  have "sint (?w + 4) = int (unat (?w + 4))" by (rule sint_unat63) (use small w4 in simp)
  with c(1) have "int (unat ?w + 4) \<le> int (length d)" by (simp only: w4)
  then show le: "unat ?w + 4 \<le> length d" by (simp only: of_nat_le_iff)
  then show "length d' = length d" by (simp add: d')
  have "take 4 (drop (unat ?w) d') = le_nat 4 (unat val)" using le by (simp add: d')
  then show "num_at d' (unat ?w) = unat val"
    using num_at_le [of "unat ?w" d' "unat val"] le unat_u32_lt [of val] by (simp add: d')
  show "k < length d \<Longrightarrow> \<not> (unat ?w \<le> k \<and> k < unat ?w + 4) \<Longrightarrow> d' ! k = d ! k"
    using le by (auto simp: d' nth_append)
  assume "apart j (unat ?w)"
  then have "take 4 (drop j d') = take 4 (drop j d)" using le by (auto simp: d' apart_def drop_take)
  then show "num_at d' j = num_at d j" by (simp add: num_at_def)
qed

lemma tramp_Setup_image:
  assumes "tramp_Setup tc magic infoAddr kernelEntry = Ok d" "tramp_ok tc"
  shows "tramp_image tc (unat infoAddr) (unat magic) (unat kernelEntry) d"
proof -
  let ?t = "tc_text tc (tc_start tc) (tramp_size tc)"
  obtain d1 d2 where r: "tramp_replace (tc_start tc) ?t (tc_info tc) (ucast infoAddr) = Ok d1"
      "tramp_replace (tc_start tc) d1 (tc_entry tc) (ucast kernelEntry) = Ok d2"
      "tramp_replace (tc_start tc) d2 (tc_magic tc) (ucast magic) = Ok d"
    using assms(1) by (auto simp: tramp_Setup_def tramp_extract_def tramp_patch_def tramp_size_def split: if_splits)
  have l: "length ?t < 2 ^ 32" "length ?t = tramp_size tc" using assms(2) by (simp_all add: tramp_ok_def Let_def)
  note s1 = tramp_replace_Ok [OF r(1) l(1)]
  note s2 = tramp_replace_Ok [OF r(2), unfolded s1(2), OF l(1)]
  note s3 = tramp_replace_Ok [OF r(3), unfolded s2(2) s1(2), OF l(1)]
  have u: "unat (ucast w :: u32) = unat w mod 2 ^ 32" for w :: u64 by (simp add: unsigned_ucast_eq take_bit_eq_mod)
  have ap: "apart i j = apart j i" for i j by (auto simp: apart_def)
  show ?thesis
    unfolding tramp_image_def Let_def
    using assms(2) s1 s2 s3 l(2) ap by (simp add: tramp_ok_def Let_def u)
qed

section \<open>The handoff\<close>

lemma multiboot_Load_Ok:
  assumes "multiboot_Load kexec_load env readGzip exe k h kfile cmdline modules ibft = (k', Ok ())"
    and "newMB exe (TryGzipFilter readGzip kfile) cmdline (map (\<lambda>m. m\<lparr>MModule := TryGzipFilter readGzip (MModule m)\<rparr>) modules) = Ok m0"
    and "mb_start env (h, m0) = Ok (hk, hm1)"
  shows "\<exists>h2 m2. mb_build env ibft hk hm1 = Ok (h2, m2) \<and>
    Load kexec_load (env_alloc env) k h2 (mb_entryPoint m2) (MSegments (mb_mem m2)) 0 = (k', Ok ())"
  using assms by (auto simp: multiboot_Load_def multiboot_load_def split: res.splits prod.splits)

text \<open>C24: when a kernel with a multiboot header was loaded, the system call got page-aligned disjoint segments with the
  trampoline at the entry point, its code with the boot magic, the entry point of the kernel and the address of the
  information filled in; there lies the information, with the addresses of the command line, of the name of the loader, of the
  memory map and of the table of modules at the offsets of the specification; each module lies with its command line
  where its entry says, and the iBFT lies in low memory that the map reserves. The conditions: all RAM is below 4 GiB
  (\<open>low_RAM\<close>: the code cuts addresses to 32 bits without a check), the ranges of the memory map do not overlap and the segments
  of the ELF file are disjoint, none empty (\<open>load_inv\<close> of what \<open>mb_start\<close> gives: the code takes both as they are), and the
  labels of the trampoline are apart. ESXBootInfo kernels and the two sizes of lower and upper memory are not covered.\<close>

theorem multiboot_handoff:
  assumes "alloc_ok (env_alloc env)" "alloc_high (env_alloc env)" "tramp_ok (env_tramp env)"
    and "newMB exe (TryGzipFilter readGzip kfile) cmdline (map (\<lambda>m. m\<lparr>MModule := TryGzipFilter readGzip (MModule m)\<rparr>) modules) = Ok m0"
    and "mb_start env (h, m0) = Ok ((MBImage hdr, kernelEntry), h1, m1)" "load_inv h1 (mb_mem m1)" "low_RAM (mb_mem m1)"
    and "multiboot_Load kexec_load env readGzip exe k h kfile cmdline modules ibft = (k', Ok ())"
  shows "\<exists>h' out entry infoAddr d ib phys. page_segments out \<and> PhysContains out entry \<and>
    kexec_load k h' entry (length out) out 0 = (k', 0) \<and>
    loads h' out entry d \<and> tramp_image (env_tramp env) (unat infoAddr) 0x2BADB002 (unat kernelEntry) d \<and>
    unat infoAddr < 2 ^ 32 \<and> loads h' out infoAddr ib \<and>
    kernel_info (loads h' out) hdr phys (map (\<lambda>m. m\<lparr>MModule := TryGzipFilter readGzip (MModule m)\<rparr>) modules)
      cmdline ''u-root kexec'' ib \<and>
    (ibft = None \<longrightarrow> phys = MPhys (mb_mem m1)) \<and>
    (\<forall>t. ibft = Some t \<longrightarrow> (\<exists>r b. IBFT_Marshal t = Ok b \<and> loads h' out (Start r) b \<and> length b \<le> unat (Size r) \<and>
      0x80000 \<le> Start r \<and> End r \<le> 0x100000 \<and> (\<forall>p \<in> pts r. type_at phys p = Some RangeReserved)))"
proof -
  let ?alloc = "env_alloc env" and ?mods = "map (\<lambda>m. m\<lparr>MModule := TryGzipFilter readGzip (MModule m)\<rparr>) modules"
  obtain h2 m2 where b: "mb_build env ibft (MBImage hdr, kernelEntry) (h1, m1) = Ok (h2, m2)"
    and ld: "Load kexec_load ?alloc k h2 (mb_entryPoint m2) (MSegments (mb_mem m2)) 0 = (k', Ok ())"
    using multiboot_Load_Ok [OF assms(8,4,5)] by blast
  have m1: "mb_modules m1 = ?mods" "mb_cmdLine m1 = cmdline" "mb_bootloader m1 = ''u-root kexec''"
    using assms(4,5) by (auto simp: newMB_def mb_start_def mb_bootloader_name_def)
  obtain hma a hmb d r h3 m3 where s: "addIbft ?alloc ibft (h1, m1) = Ok hma" "addInfo_mb ?alloc hdr hma = Ok (a, hmb)"
      "tramp_Setup (env_tramp env) 0x2BADB002 a kernelEntry = Ok d" "mb_add ?alloc d hmb = Ok (r, h3, m3)"
      "h2 = h3" "m2 = m3\<lparr>mb_entryPoint := Start r\<rparr>"
    using b by (auto simp: mb_build_def addTrampoline_def)
  have i1: "mb_inv (h1, m1)" "low_RAM (mb_mem (snd (h1, m1)))" using assms(6,7) by (simp_all add: mb_inv_def)
  note s1 = addIbft_step [OF assms(1,2) i1 s(1)]
  have ia: "mb_inv hma" "low_RAM (mb_mem (snd hma))" using s1 by blast+
  note s2 = addInfo_mb_step [OF assms(1,2) ia s(2)]
  have ib: "mb_inv hmb" using s2 by blast
  note s3 = mb_add_step [OF assms(1,2) ib s(4)]
  let ?hm = "(h2, m2)"
  have i2: "mb_inv ?hm" and g: "grows hmb ?hm" and tr: "stored ?hm (Start r) d"
    using s3 stored_whole [of "(h3, m3)" r d] by (simp_all add: mb_inv_def grows_def stored_def s(5,6))
  have ga: "grows hma ?hm" using s2 g grows_trans by blast
  have "segs_ok h2 (MSegments (mb_mem m2))" using i2 by (simp add: mb_inv_def load_inv_def)
  from Load_cases [OF assms(1) this, of kexec_load k "mb_entryPoint m2" 0] ld obtain h' out where
    o1: "page_segments out" "PhysContains out (mb_entryPoint m2)" "kexec_load k h' (mb_entryPoint m2) (length out) out 0 = (k', 0)"
      "\<forall>p. p \<in> Pts (Segments_Phys (MSegments (mb_mem (snd ?hm)))) \<longrightarrow> image h' out p = image (fst ?hm) (MSegments (mb_mem (snd ?hm))) p"
    by (auto split: if_splits)
  have L: "loads h' out x bs" if "stored ?hm x bs" for x bs using stored_loads [OF that i2 o1(4)] .
  have Lb: "loads h' out x bs" if "stored hmb x bs" for x bs using L stored_grows [OF that ib g] by blast
  obtain nf where nf: "info_ok nf" "stored hmb a (pack info_widths (info_vals nf))" "InfFlags nf AND flagInfoCmdline \<noteq> 0"
    "stored hmb (ucast (InfCmdline nf)) (str_bytes (mb_cmdLine (snd hma)) @ [0])"
    "InfFlags nf AND flagInfoBootLoaderName \<noteq> 0" "stored hmb (ucast (BootLoaderName nf)) (str_bytes (mb_bootloader (snd hma)) @ [0])"
    "described (stored hmb) hdr (MPhys (mb_mem (snd hma))) (mb_modules (snd hma)) nf" using s2 by blast
  have kept: "mb_modules (snd hma) = ?mods" "mb_cmdLine (snd hma) = cmdline" "mb_bootloader (snd hma) = ''u-root kexec''"
    using s1 m1 by simp_all
  have "kernel_info (loads h' out) hdr (MPhys (mb_mem (snd hma))) ?mods cmdline ''u-root kexec'' (pack info_widths (info_vals nf))"
    by (rule kernel_info_described [OF described_mono [OF nf(7) [unfolded kept] Lb] nf(1,3) _ nf(5)])
      (use Lb [OF nf(4)] Lb [OF nf(6)] kept in simp_all)
  moreover have "\<exists>r b. IBFT_Marshal t = Ok b \<and> loads h' out (Start r) b \<and> length b \<le> unat (Size r) \<and>
      0x80000 \<le> Start r \<and> End r \<le> 0x100000 \<and> (\<forall>p \<in> pts r. type_at (MPhys (mb_mem (snd hma))) p = Some RangeReserved)" if "ibft = Some t" for t
    using s1 that L stored_grows [OF _ ia(1) ga] by blast
  moreover have "mb_entryPoint m2 = Start r" by (simp add: s(6))
  moreover have "tramp_image (env_tramp env) (unat a) 0x2BADB002 (unat kernelEntry) d"
    using tramp_Setup_image [OF s(3) assms(3)] by simp
  ultimately show ?thesis
    using o1(1-3) L [OF tr] Lb [OF nf(2)] s1 s2
    by (intro exI [of _ h'] exI [of _ out] exI [of _ "Start r"] exI [of _ a] exI [of _ d] exI [of _ "pack info_widths (info_vals nf)"]
        exI [of _ "MPhys (mb_mem (snd hma))"]) simp
qed

section \<open>A concrete run\<close>

definition mb_memory :: "Segment list \<Rightarrow> Memory" where
  "mb_memory segs = \<lparr>MPhys = [\<lparr>TRange = \<lparr>Start = 0x100000, Size = 0x100000\<rparr>, TType = RangeRAM\<rparr>], MSegments = segs\<rparr>"

definition mb_segments :: "Segment list" where
  "mb_segments =
     [\<lparr>Buf = \<lparr>Start = 0x10000, Size = 24\<rparr>, Phys = \<lparr>Start = 0x100000, Size = 0x1000\<rparr>\<rparr>,
      \<lparr>Buf = \<lparr>Start = 0x10018, Size = 4099\<rparr>, Phys = \<lparr>Start = 0x101000, Size = 0x2000\<rparr>\<rparr>,
      \<lparr>Buf = \<lparr>Start = 0x1101b, Size = 16\<rparr>, Phys = \<lparr>Start = 0x103000, Size = 0x1000\<rparr>\<rparr>,
      \<lparr>Buf = \<lparr>Start = 0x1102b, Size = 124\<rparr>, Phys = \<lparr>Start = 0x104000, Size = 0x1000\<rparr>\<rparr>,
      \<lparr>Buf = \<lparr>Start = 0x110a7, Size = 12\<rparr>, Phys = \<lparr>Start = 0x105000, Size = 0x1000\<rparr>\<rparr>]"

lemma mb_place:
  "AddKexecSegment (mb_memory []) \<lparr>sl_ptr = 0x10000, sl_len = 24, sl_cap = 24\<rparr> =
     Ok (\<lparr>Start = 0x100000, Size = 0x1000\<rparr>, mb_memory (take 1 mb_segments))"
  "AddKexecSegment (mb_memory (take 1 mb_segments)) \<lparr>sl_ptr = 0x10018, sl_len = 4099, sl_cap = 4099\<rparr> =
     Ok (\<lparr>Start = 0x101000, Size = 0x2000\<rparr>, mb_memory (take 2 mb_segments))"
  "AddKexecSegment (mb_memory (take 2 mb_segments)) \<lparr>sl_ptr = 0x1101b, sl_len = 16, sl_cap = 16\<rparr> =
     Ok (\<lparr>Start = 0x103000, Size = 0x1000\<rparr>, mb_memory (take 3 mb_segments))"
  "Memory_FindSpace (mb_memory (take 3 mb_segments)) 124 pageSize = Ok \<lparr>Start = 0x104000, Size = 0x1000\<rparr>"
  "NewSegment \<lparr>sl_ptr = 0x1102b, sl_len = 124, sl_cap = 124\<rparr> \<lparr>Start = 0x104000, Size = 0x1000\<rparr> = Ok (mb_segments ! 3)"
  "Segments_Insert (take 3 mb_segments) (mb_segments ! 3) = take 4 mb_segments"
  "AddKexecSegment (mb_memory (take 4 mb_segments)) \<lparr>sl_ptr = 0x110a7, sl_len = 12, sl_cap = 12\<rparr> =
     Ok (\<lparr>Start = 0x105000, Size = 0x1000\<rparr>, mb_memory mb_segments)"
  by (simp_all add: AddKexecSegment_def mb_memory_def place_defs kexec_defs UpPage_def Up_def mb_segments_def)

lemma mb_run: "Load (\<lambda>k h e n s f. (e, 0)) bump_alloc k h 0x105000 mb_segments 0 = (0x105000, Ok ())"
  by (simp add: Load_def kexec_defs mb_segments_def alignSize_def UpPage_def Up_def PhysContains_def Contains_def rawLoad_def)

lemma mb_low_RAM: "low_RAM (mb_memory segs)"
  by (auto simp: low_RAM_def mb_memory_def Contains_def End_def word_less_nat_alt split: if_splits)

definition mb_module :: Module where
  "mb_module = \<lparr>MModule = \<lparr>rf_bytes = [1, 2, 3], rf_err = None\<rparr>, MCmdline = ''m''\<rparr>"

lemma mb_module_data: "\<exists>d. loadModules [mb_module] = Ok ([\<lparr>mStart = 4096, mEnd = 4099, mCmdline = 0, mReserved = 0\<rparr>], d) \<and> length d = 4099"
  by (simp add: loadModules_def setCmdline_def loadModule_def pageAlignBuf_def UpPage_def Up_def pageSize_def copy_all_def Let_def
      zero_module_def mb_module_def)

text \<open>The next address the allocator gives.\<close>

definition bump_next :: "heap \<Rightarrow> u64" where
  "bump_next h = fold (\<lambda>r a. max a (End r)) (hblocks h) 65536"

lemma fold_max_start: "fold (\<lambda>r a. max a (End r)) rs (max a x) = max (fold (\<lambda>r a. max a (End r)) rs a) x"
proof (induction rs arbitrary: a)
  case (Cons r rs)
  have "max (max a x) (End r) = max (max a (End r)) x" by (simp only: max.assoc max.commute [of x])
  then show ?case using Cons by simp
qed simp

lemma bump_go:
  assumes "unat (bump_next h) + length xs < 2 ^ 64"
  shows "\<exists>h'. (go_bytes bump_alloc h xs :: (loader_error, heap \<times> gslice) res) =
      Ok (h', \<lparr>sl_ptr = bump_next h, sl_len = word_of_nat (length xs), sl_cap = word_of_nat (length xs)\<rparr>) \<and>
    bump_next h' = bump_next h + word_of_nat (length xs)"
proof -
  let ?n = "bump_next h" and ?w = "word_of_nat (length xs) :: u64"
  have w: "unat ?w = length xs" using assms by (intro unat_of_nat64) simp
  have "unat ?n + unat ?w < 2 ^ LENGTH(64)" using assms unfolding w by simp
  then have "?n \<le> ?n + ?w" by (simp only: unat_add_lem word_le_nat_alt)
  then have "max ?n (?n + ?w) = ?n + ?w" by (rule max_absorb2)
  moreover have "fold (\<lambda>r a. max a (End r)) (\<lparr>Start = ?n, Size = ?w\<rparr> # hblocks h) 65536 = max ?n (?n + ?w)"
    unfolding fold.simps o_apply fold_max_start by (simp only: End_def Range.simps bump_next_def)
  ultimately show ?thesis using assms unfolding bump_next_def by (simp add: go_bytes_def bump_alloc_def)
qed

lemma bump_mb_add:
  assumes "AddKexecSegment (mb_mem m) \<lparr>sl_ptr = bump_next h, sl_len = word_of_nat (length xs), sl_cap = word_of_nat (length xs)\<rparr> =
      Ok (r, mem')" "unat (bump_next h) + length xs < 2 ^ 64"
  shows "\<exists>h'. mb_add bump_alloc xs (h, m) = Ok (r, h', m\<lparr>mb_mem := mem'\<rparr>) \<and>
    bump_next h' = bump_next h + word_of_nat (length xs)"
  using bump_go [OF assms(2)] assms(1) by (auto simp: mb_add_def add_bytes_def)

definition mb_tramp :: tramp_code where
  "mb_tramp = \<lparr>tc_start = 0x1000, tc_end = 0x100c, tc_info = 0x1000, tc_magic = 0x1004, tc_entry = 0x1008, tc_text = \<lambda>a n. replicate n 0\<rparr>"

lemma mb_tramp_Setup: "\<exists>d. tramp_Setup mb_tramp x y z = Ok d \<and> length d = 12"
  by (simp add: tramp_Setup_def tramp_extract_def tramp_patch_def tramp_replace_def mb_tramp_def Let_def)

lemma info_marshal_length:
  assumes "info_ok (IwInfo iw)"
  shows "length (snd (info_marshal iw x)) = (length (IwCmdline iw) + length (IwBootLoaderName iw) + 113) div 4 * 4"
proof -
  have "info_ok ((IwInfo iw)\<lparr>InfCmdline := u, BootLoaderName := v, InfFlags := w\<rparr>)" for u v w
    using assms by (simp add: info_ok_def)
  from length_info [OF this] show ?thesis
    using pad4_up [of "length (IwCmdline iw) + length (IwBootLoaderName iw) + 110"]
    by (simp add: info_marshal_def Let_def algebra_simps)
qed

lemma mb_modules_placed:
  assumes n: "bump_next h = 0x10018" and m: "mb_mem m = mb_memory (take 1 mb_segments)" "mb_modules m = [mb_module]"
  shows "\<exists>h' l. addMultibootModules bump_alloc (h, m) =
      Ok (0x103000, h', m\<lparr>mb_loadedModules := l, mb_mem := mb_memory (take 3 mb_segments)\<rparr>) \<and> bump_next h' = 0x1102b"
proof -
  obtain d where d: "loadModules [mb_module] = Ok ([\<lparr>mStart = 4096, mEnd = 4099, mCmdline = 0, mReserved = 0\<rparr>], d)" "length d = 4099"
    using mb_module_data by blast
  obtain h1 where h1: "mb_add bump_alloc d (h, m) = Ok (\<lparr>Start = 0x101000, Size = 0x2000\<rparr>, h1, m\<lparr>mb_mem := mb_memory (take 2 mb_segments)\<rparr>)"
      "bump_next h1 = 0x1101b"
    using bump_mb_add [of m h d] mb_place(2) by (auto simp: d(2) n m(1))
  let ?l = "[\<lparr>mStart = 0x102000, mEnd = 0x102003, mCmdline = 0x101000, mReserved = 0\<rparr>]"
  let ?m = "m\<lparr>mb_mem := mb_memory (take 2 mb_segments), mb_loadedModules := ?l\<rparr>"
  have l: "mb_loadModules bump_alloc (h, m) = Ok (?l, h1, ?m)"
    by (simp add: mb_loadModules_def m(2) d(1) h1(1) fix_modules_def Let_def)
  have x: "length (modules_marshal ?l) = 16" by (simp add: modules_marshal_def encode_module_def)
  obtain h2 where "mb_add bump_alloc (modules_marshal ?l) (h1, ?m) =
      Ok (\<lparr>Start = 0x103000, Size = 0x1000\<rparr>, h2, ?m\<lparr>mb_mem := mb_memory (take 3 mb_segments)\<rparr>)" "bump_next h2 = 0x1102b"
    using bump_mb_add [of ?m h1 "modules_marshal ?l"] mb_place(3) unfolding x h1(2) by auto
  then show ?thesis by (intro exI [of _ h2] exI [of _ ?l]) (simp add: addMultibootModules_def l)
qed

lemma mb_info_placed:
  assumes n: "bump_next h = 0x10000" and m: "mb_mem m = mb_memory []" "mb_modules m = [mb_module]" "mb_cmdLine m = ''c''"
    "mb_bootloader m = mb_bootloader_name"
  shows "\<exists>h' m'. addInfo_mb bump_alloc hdr (h, m) = Ok (0x104000, h', m') \<and> bump_next h' = 0x110a7 \<and> mb_mem m' = mb_memory (take 4 mb_segments)"
proof -
  let ?ms = "maps_marshal (memoryMap (MPhys (mb_memory [])))"
  have x: "length ?ms = 24" unfolding length_maps by (simp add: memoryMap_def mb_memory_def)
  let ?m1 = "m\<lparr>mb_mem := mb_memory (take 1 mb_segments)\<rparr>"
  obtain h1 where h1: "mb_add bump_alloc ?ms (h, m) = Ok (\<lparr>Start = 0x100000, Size = 0x1000\<rparr>, h1, ?m1)" "bump_next h1 = 0x10018"
    using bump_mb_add [of m h ?ms] mb_place(1) unfolding x n m(1) by auto
  obtain h2 l where h2: "addMultibootModules bump_alloc (h1, ?m1) =
      Ok (0x103000, h2, m\<lparr>mb_loadedModules := l, mb_mem := mb_memory (take 3 mb_segments)\<rparr>)" "bump_next h2 = 0x1102b"
    using mb_modules_placed [OF h1(2), of ?m1] m(2) by auto
  let ?m2 = "m\<lparr>mb_loadedModules := l, mb_mem := mb_memory (take 3 mb_segments)\<rparr>"
  obtain lo up where lu: "memoryBoundaries (MPhys (mb_memory (take (Suc 0) mb_segments))) = (lo, up)" by fastforce
  have "length rest_widths = 14" by (simp add: rest_widths_def)
  then have f: "fits rest_widths (replicate 14 0)" using fits_zeros [of rest_widths] by simp
  have "\<exists>inf. newMultibootInfo bump_alloc hdr (h, m) =
      Ok (\<lparr>IwInfo = inf, IwCmdline = mb_cmdLine m, IwBootLoaderName = mb_bootloader m\<rparr>, h2, ?m2) \<and> info_ok inf"
    by (simp add: newMultibootInfo_def addMmap_def m(1,2) h1(1) [unfolded One_nat_def] h2(1) [unfolded One_nat_def] Let_def lu
        info_ok_def zero_info_def f)
  then obtain inf where i: "newMultibootInfo bump_alloc hdr (h, m) =
      Ok (\<lparr>IwInfo = inf, IwCmdline = mb_cmdLine m, IwBootLoaderName = mb_bootloader m\<rparr>, h2, ?m2)" "info_ok inf" by blast
  let ?iw = "\<lparr>IwInfo = inf, IwCmdline = mb_cmdLine m, IwBootLoaderName = mb_bootloader m\<rparr>"
  have s: "length (snd (info_marshal ?iw x)) = 124" for x
    using info_marshal_length [of ?iw x] i(2) by (simp add: m(3,4) mb_bootloader_name_def)
  obtain iw b where b: "info_marshal ?iw 0x104000 = (iw, b)" "length b = 124" using s by (metis prod.collapse)
  obtain h3 where h3: "(go_bytes bump_alloc h2 b :: (loader_error, heap \<times> gslice) res) = Ok (h3, \<lparr>sl_ptr = 0x1102b, sl_len = 124, sl_cap = 124\<rparr>)"
      "bump_next h3 = 0x110a7" using bump_go [of h2 b] by (auto simp: b(2) h2(2))
  have "mb_find (info_size ?iw) ?m2 = Ok \<lparr>Start = 0x104000, Size = 0x1000\<rparr>"
    using mb_place(4) by (simp add: mb_find_def info_size_def s)
  moreover have "mb_insert bump_alloc b \<lparr>Start = 0x104000, Size = 0x1000\<rparr> (h2, ?m2\<lparr>mb_info := IwInfo iw\<rparr>) =
      Ok (h3, ?m2\<lparr>mb_info := IwInfo iw, mb_mem := mb_memory (take 4 mb_segments)\<rparr>)"
    using mb_place(6) by (simp add: mb_insert_def h3(1) mb_place(5)) (simp add: mb_memory_def)
  ultimately show ?thesis using b(1) h3(2) i(1) by (simp add: addInfo_mb_def)
qed



definition mb_ex_env :: mb_env where
  "mb_ex_env = \<lparr>env_alloc = bump_alloc, env_elf = \<lambda>_. Ok (0x100000, []), env_iteration = \<lambda>x. x,
     env_visits = VisitDir ''/m'' # entry_visits (''/m/0'', 0x100000, 0x1fffff, ''System RAM''), env_tramp = mb_tramp\<rparr>"

lemma mb_ex_map: "Memory_ParseMemoryMap (env_iteration mb_ex_env) (env_visits mb_ex_env) m = Ok (m\<lparr>MPhys := MPhys (mb_memory [])\<rparr>)"
proof -
  let ?e = "(''/m/0'', 0x100000 :: u64, 0x1fffff :: u64, ''System RAM'')"
  have t: "TrimSpace (''System RAM'' @ [CHR 0x0A]) = ''System RAM''"
    by (rule TrimSpace_newline; simp add: ascii_def IsSpace_def)
  have c: "Clean ''/m/0'' = ''/m/0''"
    by (simp add: Clean_def IsAbs_def slash_def clean_comps_def clean_step_def dot_def dotdot_def path_of_def)
  have "entry_ok ?e" using t c by (simp add: entry_ok_def)
  then have "walk_files [] (entry_visits ?e) = Ok [(''/m/0'', entry_range ?e)]"
    using walk_entry [of ?e "[]" "[]"] by simp
  then have w: "walk_files [] (VisitDir ''/m'' # entry_visits ?e) = Ok [(''/m/0'', entry_range ?e)]"
    by (simp add: walker_def)
  show ?thesis
    unfolding Memory_ParseMemoryMap_def mb_ex_env_def mb_env.simps internalParseMemoryMap_def w rbind.simps
    by (simp add: mb_memory_def to_typed_def entry_range_def RangeFromInterval_def sysfsToRangeType_def)
qed

definition mb_ex_mb :: multiboot where
  "mb_ex_mb = \<lparr>mb_mem = \<lparr>MPhys = [], MSegments = []\<rparr>, mb_kernel = ex_mb_file, mb_modules = [mb_module], mb_cmdLine = ''c'',
     mb_bootloader = mb_bootloader_name, mb_trampoline = ''exe'', mb_entryPoint = 0, mb_info = zero_info, mb_loadedModules = []\<rparr>"

lemma mb_ex_build:
  "\<exists>h' m'. mb_build mb_ex_env None (MBImage hdr, kernelEntry) (\<lparr>hmem = \<lambda>_. 0, hblocks = []\<rparr>, mb_ex_mb\<lparr>mb_mem := mb_memory []\<rparr>) = Ok (h', m') \<and>
     mb_mem m' = mb_memory mb_segments \<and> mb_entryPoint m' = 0x105000"
proof -
  let ?h = "\<lparr>hmem = \<lambda>_. 0, hblocks = []\<rparr> :: heap" and ?m = "mb_ex_mb\<lparr>mb_mem := mb_memory []\<rparr>"
  obtain h1 m1 where i: "addInfo_mb bump_alloc hdr (?h, ?m) = Ok (0x104000, h1, m1)" "bump_next h1 = 0x110a7"
      "mb_mem m1 = mb_memory (take 4 mb_segments)"
    using mb_info_placed [of ?h ?m hdr] by (auto simp: bump_next_def mb_ex_mb_def)
  obtain d where d: "tramp_Setup mb_tramp (bootMagic (MBImage hdr)) 0x104000 kernelEntry = Ok d" "length d = 12"
    using mb_tramp_Setup by blast
  obtain h2 where "mb_add bump_alloc d (h1, m1) = Ok (\<lparr>Start = 0x105000, Size = 0x1000\<rparr>, h2, m1\<lparr>mb_mem := mb_memory mb_segments\<rparr>)"
    using bump_mb_add [of m1 h1 d] mb_place(7) by (auto simp: d(2) i(2,3))
  then show ?thesis using d(1) i(1) by (simp add: mb_build_def addIbft_def addTrampoline_def mb_ex_env_def)
qed


theorem multiboot_handoff_witness:
  "\<exists>h' out hdr ib d infoAddr. multiboot_Load (\<lambda>k h e n s f. (e, 0)) mb_ex_env (\<lambda>_. None) (Ok ''exe'') 0 \<lparr>hmem = \<lambda>_. 0, hblocks = []\<rparr>
       ex_mb_file ''c'' [mb_module] None = (0x105000, Ok ()) \<and>
     page_segments out \<and> loads h' out 0x105000 d \<and> num_at d 0 = unat infoAddr \<and> num_at d 4 = 0x2BADB002 \<and> num_at d 8 = 0x100000 \<and>
     loads h' out infoAddr ib \<and> loads h' out (word_of_nat (num_at ib 16)) [99, 0] \<and>
     kernel_info (loads h' out) hdr (MPhys (mb_memory [])) [mb_module] ''c'' ''u-root kexec'' ib"
proof -
  let ?h = "\<lparr>hmem = \<lambda>_. 0, hblocks = []\<rparr> :: heap" and ?m = "mb_ex_mb\<lparr>mb_mem := mb_memory []\<rparr>"
  let ?call = "multiboot_Load (\<lambda>k h e n s f. (e, 0)) mb_ex_env (\<lambda>_. None) (Ok ''exe'') 0 ?h ex_mb_file ''c'' [mb_module] None"
  obtain hdr where f: "find_header ex_mb_file = Ok (MBImage hdr)" using ex_mb_found by blast
  have n: "newMB (Ok ''exe'') ex_mb_file ''c'' [mb_module] = Ok mb_ex_mb" by (simp add: newMB_def mb_ex_mb_def)
  have s: "mb_start mb_ex_env (?h, mb_ex_mb) = Ok ((MBImage hdr, 0x100000), ?h, ?m)"
    using mb_ex_map [of "mb_mem mb_ex_mb"] by (simp add: mb_start_def f mb_ex_env_def mb_ex_mb_def mb_memory_def)
  obtain h' m' where b: "mb_build mb_ex_env None (MBImage hdr, 0x100000) (?h, ?m) = Ok (h', m')"
    "mb_mem m' = mb_memory mb_segments" "mb_entryPoint m' = 0x105000" using mb_ex_build by blast
  have g: "map (\<lambda>m. m\<lparr>MModule := TryGzipFilter (\<lambda>_. None) (MModule m)\<rparr>) [mb_module] = [mb_module]" "TryGzipFilter (\<lambda>_. None) ex_mb_file = ex_mb_file"
    by (simp_all add: TryGzipFilter_def)
  have r: "?call = (0x105000, Ok ())"
    unfolding multiboot_Load_def g Let_def n rbind.simps multiboot_load_def s prod.case b
    by (simp add: mb_run b(2,3) mb_ex_env_def mb_memory_def)
  have i: "load_inv ?h (mb_mem ?m)"
    by (simp add: load_inv_def segs_ok_def mem_inv_def map_ok_def phys_ranges_def Segments_Phys_def valid_range_def End_def mb_memory_def)
  have a: "alloc_ok (env_alloc mb_ex_env)" "alloc_high (env_alloc mb_ex_env)"
    using bump_alloc_ok bump_alloc_high by (simp_all add: mb_ex_env_def)
  have l: "low_RAM (mb_mem ?m)" using mb_low_RAM by simp
  have tc: "tramp_ok (env_tramp mb_ex_env)"
    by (simp add: tramp_ok_def tramp_size_def apart_def mb_ex_env_def mb_tramp_def)
  note t = multiboot_handoff [OF a tc _ s i l r, unfolded g, OF n]
  from t obtain h' out entry infoAddr d ib phys where o: "page_segments out" "(entry :: u64, 0 :: nat) = (0x105000, 0)" "loads h' out entry d"
    "tramp_image (env_tramp mb_ex_env) (unat infoAddr) 0x2BADB002 (unat (0x100000 :: u64)) d" "unat infoAddr < 2 ^ 32"
    "loads h' out infoAddr ib" "kernel_info (loads h' out) hdr phys [mb_module] ''c'' ''u-root kexec'' ib"
    "phys = MPhys (mb_mem ?m)" by auto
  have c: "str_bytes ''c'' @ [0] = [99, 0]" by (simp add: byte_of_def)
  have "num_at d 0 = unat infoAddr" "num_at d 4 = 0x2BADB002" "num_at d 8 = 0x100000"
    using o(4,5) by (simp_all add: tramp_image_def mb_ex_env_def mb_tramp_def Let_def)
  moreover have "entry = 0x105000" "phys = MPhys (mb_memory [])" using o(2,8) by simp_all
  moreover have "loads h' out (word_of_nat (num_at ib 16)) [99, 0]" using o(7) unfolding kernel_info_def c by blast
  ultimately show ?thesis using r o(1,3,6,7) by blast
qed

end
