(* ===== verification/CpioRoundtrip.thy ===== *)
theory CpioRoundtrip imports Cpio begin

text \<open>
  What the newc writer writes and that the newc reader reads it back, and the other properties
  of package \<open>cpio\<close>.
\<close>

section \<open>Header and hex\<close>

lemma hex_digit_ok: "n < 16 \<Longrightarrow> from_hex (to_upper (hex_digit n)) = Some n"
proof -
  assume "n < 16"
  then have "n \<in> set [0..<16]" by simp
  then show ?thesis
    by (simp add: upt_conv_Cons) (elim disjE; simp add: hex_digit_def to_upper_def from_hex_def)
qed

lemma hex_decode_encode: "hex_decode (map to_upper (hex_encode bs)) = Ok bs"
proof (induction bs)
  case Nil
  then show ?case by (simp add: hex_encode_def)
next
  case (Cons b bs)
  have "from_hex (to_upper (hex_digit (unat b div 16))) = Some (unat b div 16)"
    by (rule hex_digit_ok) (simp add: less_mult_imp_div_less)
  moreover have "from_hex (to_upper (hex_digit (unat b mod 16))) = Some (unat b mod 16)"
    by (rule hex_digit_ok) simp
  moreover have "(word_of_nat (16 * (unat b div 16) + unat b mod 16) :: byte) = b"
    by (simp only: mult_div_mod_eq) simp
  ultimately show ?case using Cons by (simp add: hex_encode_def del: of_nat_add of_nat_mult)
qed

lemma length_hex_encode [simp]: "length (hex_encode bs) = 2 * length bs"
  by (induction bs) (simp_all add: hex_encode_def)

lemma length_encode_hdr [simp]: "length (encode_hdr h) = 52"
  by (simp add: encode_hdr_def)

lemma decode_encode_hdr [simp]: "decode_hdr (encode_hdr h) = h"
  using word_at_Nil [of _ "[]"]
  by (cases h) (simp add: decode_hdr_def encode_hdr_def word_at_Nil word_at_Suc eval_nat_numeral)

definition info_ok :: "Info \<Rightarrow> bool" where
  "info_ok i \<longleftrightarrow> (\<forall>w \<in> {Ino i, Mode i, UID i, GID i, NLink i, MTime i, FileSize i, Major i, Minor i, Rmajor i, Rminor i}.
     unat w < 2 ^ 32) \<and> length (IName i) + 1 < 2 ^ 32"

lemma ucast_small: "unat (w :: u64) < 2 ^ 32 \<Longrightarrow> ucast (ucast w :: u32) = w"
  by (rule word_unat_eq_iff [THEN iffD2]) (simp add: unsigned_ucast_eq unsigned_take_bit_eq take_bit_nat_eq_self)

lemma header_Info_headerFromInfo:
  "info_ok i \<Longrightarrow> header_Info (headerFromInfo i) = i\<lparr>Dev := 0, IName := []\<rparr>"
  by (cases i) (simp add: info_ok_def header_Info_def headerFromInfo_def ucast_small)

section \<open>The bytes of a record\<close>

lemma and_not_mask_int: "(x :: int) AND NOT (mask k) = push_bit k (drop_bit k x)"
  by (rule bit_eqI) (auto simp: bit_simps)

lemma round4_div: "round4 n = (n + 3) div 4 * 4"
proof -
  have "(3 :: int) = mask 2" by (simp add: mask_eq_exp_minus_1)
  then have "round4 n = push_bit 2 (drop_bit 2 (n + 3))"
    unfolding round4_def using and_not_mask_int [of "n + 3" 2] by metis
  then show ?thesis by (simp add: push_bit_eq_mult drop_bit_eq_div)
qed

lemma round4_pad: "round4 (int n) = int (n + length (pad4 n))"
  unfolding pad4_up round4_div by (simp add: zdiv_int)

definition hdr_of :: "Record \<Rightarrow> header" where
  "hdr_of f = (let h = headerFromInfo (RInfo f) in if Contents f = None then h\<lparr>hFileSize := 0\<rparr> else h)"

definition contents :: "Record \<Rightarrow> byte list" where
  "contents f = (case Contents f of None \<Rightarrow> [] | Some r \<Rightarrow> ra_data r)"

definition head_bytes :: "Record \<Rightarrow> byte list" where
  "head_bytes f = str_bytes newcMagic @ map to_upper (hex_encode (encode_hdr (hdr_of f))) @
     str_bytes (IName (RInfo f)) @ [0]"

definition rec_bytes :: "Record \<Rightarrow> byte list" where
  "rec_bytes f = head_bytes f @ pad4 (length (head_bytes f)) @ contents f @ pad4 (length (contents f))"

definition rec_ok :: "Record \<Rightarrow> bool" where
  "rec_ok f \<longleftrightarrow> info_ok (RInfo f) \<and>
     (case Contents f of None \<Rightarrow> True
      | Some r \<Rightarrow> ra_err r = None \<and> ra_close r = None \<and> unat (FileSize (RInfo f)) = length (ra_data r))"

lemma length_head_bytes [simp]: "length (head_bytes f) = 110 + (length (IName (RInfo f)) + 1)"
  by (simp add: head_bytes_def newcMagic_def)

lemma rec_bytes_dvd: "4 dvd length (rec_bytes f)"
proof -
  have "4 dvd (length (head_bytes f) + length (pad4 (length (head_bytes f)))) +
      (length (contents f) + length (pad4 (length (contents f))))"
    by (rule dvd_add [OF pad4_dvd pad4_dvd])
  then show ?thesis by (simp only: rec_bytes_def length_append add.assoc)
qed

lemma cw_Write_buffer:
  "cw_Write buffer_Write b w = (Ok (length b), w\<lparr>cw_w := cw_w w @ b, cw_pos := cw_pos w + int (length b)\<rparr>)"
  by (simp add: cw_Write_def buffer_Write_def)

lemma concat_chunks: "concat (chunks xs) = xs"
  by (induction xs rule: chunks.induct) (subst chunks.simps, simp)

lemma copy_chunks_buffer:
  "copy_chunks buffer_Write cs m w =
     (Ok (m + length (concat cs)), w\<lparr>cw_w := cw_w w @ concat cs, cw_pos := cw_pos w + int (length (concat cs))\<rparr>)"
  by (induction cs arbitrary: m w) (simp_all add: sbind_def sreturn_def cw_Write_buffer add.assoc)

lemma cw_pad_buffer:
  assumes "cw_pos w = int n"
  shows "cw_pad buffer_Write w = (Ok (), w\<lparr>cw_w := cw_w w @ pad4 n, cw_pos := int (n + length (pad4 n))\<rparr>)"
proof -
  have "nat (round4 (int n) - int n) = length (pad4 n)" by (simp add: round4_pad)
  then have "replicate (nat (round4 (int n) - int n)) 0 = pad4 n" by (simp add: pad4_def)
  then show ?thesis
    using assms by (cases w) (auto simp: cw_pad_def Let_def sbind_def cw_Write_buffer sreturn_def round4_pad)
qed

lemma sint_small: "unat (w :: u64) < 2 ^ 32 \<Longrightarrow> sint w = int (unat w)"
proof -
  assume w: "unat w < 2 ^ 32"
  have u: "uint w = int (unat w)" by simp
  have "int (unat w) < int (2 ^ 32)" using w by (simp only: of_nat_less_iff)
  then have b: "uint w < 4294967296" by simp
  have "sint w = signed_take_bit 63 (uint w)" by (simp add: sint_uint)
  also have "\<dots> = uint w"
  proof (rule signed_take_bit_int_eq_self)
    have "- (2 ^ 63) \<le> (0 :: int)" by simp
    also have "0 \<le> uint w" by (rule unsigned_greater_eq)
    finally show "- (2 ^ 63) \<le> uint w" .
    note b
    also have "(4294967296 :: int) < 2 ^ 63" by simp
    finally show "uint w < 2 ^ 63" .
  qed
  finally have "sint w = uint w" .
  then show ?thesis using u by (rule trans)
qed

lemma cw_WriteRecord_buffer:
  assumes "rec_ok f" and pos: "cw_pos w = int n" "4 dvd n"
  shows "cw_WriteRecord buffer_Write f w =
    (Ok (), w\<lparr>cw_w := cw_w w @ rec_bytes f, cw_pos := cw_pos w + int (length (rec_bytes f))\<rparr>)"
proof -
  let ?h = "head_bytes f" and ?c = "contents f"
  let ?hdr = "(if Contents f = None then (headerFromInfo (RInfo f))\<lparr>hFileSize := 0\<rparr> else headerFromInfo (RInfo f))\<lparr>CRC := 0\<rparr>"
  have h: "?hdr = hdr_of f" by (simp add: hdr_of_def headerFromInfo_def Let_def)
  have hn: "cw_pos w + int (length ?h) = int (n + length ?h)" using pos(1) by simp
  have p: "pad4 (n + length ?h) = pad4 (length ?h)" using pos(2) by (rule pad4_shift)
  define w1 where "w1 = w\<lparr>cw_w := cw_w w @ ?h @ pad4 (length ?h),
      cw_pos := int (n + length ?h + length (pad4 (length ?h)))\<rparr>"
  have head: "cw_WriteRecord buffer_Write f w =
      (case Contents f of None \<Rightarrow> sreturn ()
       | Some r \<Rightarrow> sbind (copy_contents buffer_Write r) (\<lambda>m w.
           if int m \<noteq> sint (FileSize (RInfo f)) then (Err (ErrWrote (IName (RInfo f)) m (FileSize (RInfo f))), w)
           else case ra_close r of Some e \<Rightarrow> (Err (CpioIO e), w)
           | None \<Rightarrow> if m > 0 then cw_pad buffer_Write w else (Ok (), w))) w1"
    using cw_pad_buffer [of "w\<lparr>cw_w := cw_w w @ ?h, cw_pos := int (n + length ?h)\<rparr>" "n + length ?h"] pos(1) p
    unfolding cw_WriteRecord_def Let_def h
    by (simp add: sbind_def cw_Write_buffer head_bytes_def w1_def add_ac newcMagic_def cong: option.case_cong)
  show ?thesis
  proof (cases "Contents f")
    case None
    then have "rec_bytes f = ?h @ pad4 (length ?h)" by (simp add: rec_bytes_def contents_def pad4_def)
    with None pos(1) show ?thesis unfolding head w1_def by (simp add: sreturn_def add_ac)
  next
    case (Some r)
    let ?d = "ra_data r"
    have c: "?c = ?d" using Some by (simp add: contents_def)
    have r: "ra_err r = None" "ra_close r = None" "unat (FileSize (RInfo f)) = length ?d" "length ?d < 2 ^ 32"
      using assms(1) Some by (auto simp: rec_ok_def info_ok_def)
    have s: "sint (FileSize (RInfo f)) = int (length ?d)" using sint_small [of "FileSize (RInfo f)"] r(3,4) by simp
    let ?w2 = "w1\<lparr>cw_w := cw_w w1 @ ?d, cw_pos := cw_pos w1 + int (length ?d)\<rparr>"
    have cp: "copy_contents buffer_Write r w1 = (Ok (length ?d), ?w2)"
      using r(1) by (simp add: copy_contents_def sbind_def copy_chunks_buffer concat_chunks)
    have d1: "4 dvd n + (length ?h + length (pad4 (length ?h)))" by (rule dvd_add [OF pos(2) pad4_dvd])
    have pd: "pad4 (n + (length ?h + length (pad4 (length ?h))) + length ?d) = pad4 (length ?d)"
      by (rule pad4_shift [OF d1])
    have "cw_pos ?w2 = int (n + (length ?h + length (pad4 (length ?h))) + length ?d)" by (simp add: w1_def)
    note pw = cw_pad_buffer [OF this, unfolded pd]
    show ?thesis
    proof (cases "?d = []")
      case True
      then have "rec_bytes f = ?h @ pad4 (length ?h)" by (simp add: rec_bytes_def c pad4_def)
      with Some True cp s r(2) pos(1) show ?thesis unfolding head by (simp add: sbind_def w1_def add_ac)
    next
      case False
      with Some cp s r(2) pos(1) pw show ?thesis
        unfolding head by (simp add: sbind_def w1_def rec_bytes_def c add_ac)
    qed
  qed
qed

section \<open>Reading a record back\<close>

definition stored :: "Record \<Rightarrow> Info \<times> byte list" where
  "stored f = ((RInfo f)\<lparr>Dev := 0, FileSize := (if Contents f = None then 0 else FileSize (RInfo f))\<rparr>, contents f)"

definition view :: "Record \<Rightarrow> Info \<times> byte list" where
  "view f = (RInfo f, contents f)"

lemma file_ReadAt_mid:
  "length b = n \<Longrightarrow> 0 < n \<Longrightarrow> file_ReadAt (pre @ b @ post) n (int (length pre)) = (b, None, pre @ b @ post)"
  by (simp add: file_ReadAt_def)

lemma file_section_mid: "file_section (pre @ b @ post) (int (length pre)) (length b) = mem_reader b"
  by (simp add: file_section_def)

lemma creader_read_mid:
  assumes "length b = n" "0 < n"
  shows "creader_read file_ReadAt n \<lparr>cr_src = pre @ b @ post, cr_pos = int (length pre)\<rparr> =
    (Ok b, \<lparr>cr_src = pre @ b @ post, cr_pos = int (length pre + n)\<rparr>)"
  using file_ReadAt_mid [OF assms, of pre post] assms(1) by (simp add: creader_read_def)

lemma NameLength_hdr_of:
  "info_ok (RInfo f) \<Longrightarrow> unat (NameLength (hdr_of f)) = length (IName (RInfo f)) + 1 \<and>
     NameLength (hdr_of f) \<noteq> 0 \<and> unat (NameLength (hdr_of f) - 1) = length (IName (RInfo f))"
proof -
  assume "info_ok (RInfo f)"
  then have l: "length (IName (RInfo f)) + 1 < 2 ^ 32" by (simp add: info_ok_def)
  have e: "NameLength (hdr_of f) = word_of_nat (length (IName (RInfo f)) + 1)"
    by (simp add: hdr_of_def headerFromInfo_def Let_def add.commute)
  have u: "unat (NameLength (hdr_of f)) = length (IName (RInfo f)) + 1" unfolding e by (rule unat_of_nat32 [OF l])
  have "unat (NameLength (hdr_of f) - 1) = length (IName (RInfo f))"
    using e l by (simp add: unat_of_nat32)
  with u show ?thesis by (auto simp: unat_eq_0 [symmetric])
qed

lemma ReadRecord_mid:
  assumes ok: "rec_ok f" and pre: "4 dvd length pre"
  shows "\<exists>rec. ReadRecord file_ReadAt file_section \<lparr>cr_src = pre @ rec_bytes f @ post, cr_pos = int (length pre)\<rparr> =
      (Ok rec, \<lparr>cr_src = pre @ rec_bytes f @ post, cr_pos = int (length (pre @ rec_bytes f))\<rparr>) \<and> view rec = stored f"
proof -
  let ?nm = "str_bytes (IName (RInfo f)) @ [0]" and ?c = "contents f"
  let ?hex = "str_bytes newcMagic @ map to_upper (hex_encode (encode_hdr (hdr_of f)))"
  let ?p1 = "pad4 (length (head_bytes f))" and ?p2 = "pad4 (length ?c)"
  let ?file = "pre @ rec_bytes f @ post"
  have i: "info_ok (RInfo f)" using ok by (simp add: rec_ok_def)
  note nl = NameLength_hdr_of [OF i]
  have f1: "?file = pre @ ?hex @ (?nm @ ?p1 @ ?c @ ?p2 @ post)" by (simp add: rec_bytes_def head_bytes_def)
  have f2: "?file = (pre @ ?hex) @ ?nm @ (?p1 @ ?c @ ?p2 @ post)" by (simp add: rec_bytes_def head_bytes_def)
  have f3: "?file = (pre @ head_bytes f @ ?p1) @ ?c @ ?p2 @ post" by (simp add: rec_bytes_def)
  have hl: "length ?hex = 2 * hdr_size + magicLen" by (simp add: hdr_size_def magicLen_def newcMagic_def)
  have r1: "creader_read file_ReadAt (2 * hdr_size + magicLen) \<lparr>cr_src = ?file, cr_pos = int (length pre)\<rparr> =
      (Ok ?hex, \<lparr>cr_src = ?file, cr_pos = int (length (pre @ ?hex))\<rparr>)"
    unfolding f1 using creader_read_mid [OF hl] hl by (simp add: hdr_size_def magicLen_def)
  have r2: "creader_read file_ReadAt (unat (NameLength (hdr_of f))) \<lparr>cr_src = ?file, cr_pos = int (length (pre @ ?hex))\<rparr> =
      (Ok ?nm, \<lparr>cr_src = ?file, cr_pos = int (length pre + length (head_bytes f))\<rparr>)"
    unfolding f2 using creader_read_mid [of ?nm "unat (NameLength (hdr_of f))" "pre @ ?hex"] nl
    by (simp add: newcMagic_def)
  have pad: "round4 (int (length pre + length (head_bytes f))) = int (length (pre @ head_bytes f @ ?p1))"
    by (simp only: round4_pad length_append pad4_shift [OF pre] add.assoc)
  define filePos where "filePos = int (length (pre @ head_bytes f @ ?p1))"
  have ra: "readAligned file_ReadAt (unat (NameLength (hdr_of f))) \<lparr>cr_src = ?file, cr_pos = int (length (pre @ ?hex))\<rparr> =
      (Ok ?nm, \<lparr>cr_src = ?file, cr_pos = filePos\<rparr>)"
    by (simp only: readAligned_def r2 prod.case) (simp add: pad filePos_def del: length_head_bytes of_nat_add)
  have sz: "unat (hFileSize (hdr_of f)) = length ?c"
    using ok by (auto simp: hdr_of_def headerFromInfo_def Let_def rec_ok_def contents_def info_ok_def
        unsigned_ucast_eq take_bit_nat_eq_self unsigned_take_bit_eq split: option.splits)
  have sec: "file_section ?file filePos (unat (hFileSize (hdr_of f))) = mem_reader ?c"
    unfolding f3 filePos_def sz by (rule file_section_mid)
  have d2: "4 dvd length pre + (length (head_bytes f) + length ?p1)"
    by (rule dvd_add [OF pre pad4_dvd])
  have end': "round4 (filePos + int (unat (hFileSize (hdr_of f)))) = int (length (pre @ rec_bytes f))"
  proof -
    have e: "filePos + int (unat (hFileSize (hdr_of f))) =
        int (length pre + (length (head_bytes f) + length ?p1) + length ?c)" by (simp add: filePos_def sz)
    show ?thesis unfolding e round4_pad using d2 by (simp add: pad4_shift rec_bytes_def del: length_head_bytes)
  qed
  have info: "(header_Info (hdr_of f))\<lparr>IName := IName (RInfo f)\<rparr> = fst (stored f)"
  proof -
    have "header_Info (h\<lparr>hFileSize := 0\<rparr>) = (header_Info h)\<lparr>FileSize := 0\<rparr>" for h
      by (simp add: header_Info_def)
    then show ?thesis
      using header_Info_headerFromInfo [OF i] by (cases "Contents f") (simp_all add: hdr_of_def stored_def Let_def)
  qed
  have ml: "length newcMagic = magicLen" by (simp add: newcMagic_def magicLen_def)
  have hx: "hex_decode (drop magicLen ?hex) = Ok (encode_hdr (hdr_of f))" "bytes_str (take magicLen ?hex) = newcMagic"
    using ml by (simp_all add: hex_decode_encode)
  let ?rec = "\<lparr>Contents = Some (mem_reader ?c), RInfo = fst (stored f), RecPos = int (length pre),
      RecLen = word_of_int (filePos - int (length pre)), FilePos = filePos\<rparr>"
  have "ReadRecord file_ReadAt file_section \<lparr>cr_src = ?file, cr_pos = int (length pre)\<rparr> =
      (Ok ?rec, \<lparr>cr_src = ?file, cr_pos = int (length (pre @ rec_bytes f))\<rparr>)"
    using r1 ra hx sec end' info nl
    by (simp add: ReadRecord_def sbind_def Let_def del: length_head_bytes append_assoc length_append of_nat_add)
  then show ?thesis by (intro exI [of _ ?rec]) (simp add: view_def stored_def contents_def mem_reader_def)
qed

section \<open>Whole archives\<close>

definition norm :: "Record \<Rightarrow> Record" where
  "norm r = set_name (Normalize (IName (RInfo r))) r"

definition rname :: "Record \<Rightarrow> string" where
  "rname r = Normalize (IName (RInfo r))"

definition wstate :: "byte list \<Rightarrow> string set \<Rightarrow> byte list cwriter DedupWriter" where
  "wstate out S = \<lparr>dw_rw = \<lparr>cw_w = out, cw_pos = int (length out)\<rparr>, alreadyWritten = S\<rparr>"

lemma newc_WriteRecord_buffer:
  assumes "rec_ok (norm r)" "4 dvd length out" "rname r \<notin> S"
  shows "newc_WriteRecord buffer_Write r (wstate out S) =
    (Ok (), wstate (out @ rec_bytes (norm r)) (insert (rname r) S))"
  using cw_WriteRecord_buffer [OF assms(1), of "\<lparr>cw_w = out, cw_pos = int (length out)\<rparr>" "length out"] assms(2,3)
  by (simp add: newc_WriteRecord_def Dedup_WriteRecord_def wstate_def norm_def rname_def Let_def)

lemma WriteRecords_buffer:
  assumes "\<And>r. r \<in> set rs \<Longrightarrow> rec_ok (norm r)" "4 dvd length out"
    and "distinct (map rname rs)" "rname ` set rs \<inter> S = {}"
  shows "WriteRecords (newc_WriteRecord buffer_Write) rs (wstate out S) =
    (Ok (), wstate (out @ concat (map (\<lambda>r. rec_bytes (norm r)) rs)) (rname ` set rs \<union> S))"
  using assms
proof (induction rs arbitrary: out S)
  case (Cons r rs)
  have "4 dvd length (out @ rec_bytes (norm r))" using Cons.prems(2) rec_bytes_dvd by simp
  moreover have "rname ` set rs \<inter> insert (rname r) S = {}" using Cons.prems(3,4) by auto
  ultimately have "WriteRecords (newc_WriteRecord buffer_Write) rs (wstate (out @ rec_bytes (norm r)) (insert (rname r) S)) =
      (Ok (), wstate ((out @ rec_bytes (norm r)) @ concat (map (\<lambda>r. rec_bytes (norm r)) rs)) (rname ` set rs \<union> insert (rname r) S))"
    using Cons.prems by (intro Cons.IH) auto
  moreover have "newc_WriteRecord buffer_Write r (wstate out S) =
      (Ok (), wstate (out @ rec_bytes (norm r)) (insert (rname r) S))"
    using Cons.prems by (intro newc_WriteRecord_buffer) auto
  ultimately show ?case by simp
qed simp

abbreviation newc_reader :: "byte list creader record_reader" where
  "newc_reader \<equiv> EOFReader (ReadRecord file_ReadAt file_section)"

lemma ForEach_newc:
  assumes "\<And>r. r \<in> set rs \<Longrightarrow> rec_ok r \<and> IName (RInfo r) \<noteq> Trailer" "4 dvd length pre"
    and t: "rec_ok t" "IName (RInfo t) = Trailer"
  shows "\<exists>recs. ForEachRecord newc_reader (\<lambda>rec files. (Ok (), files @ [rec]))
      \<lparr>cr_src = pre @ concat (map rec_bytes rs) @ rec_bytes t @ post, cr_pos = int (length pre)\<rparr> acc =
      Some (Ok (), acc @ recs) \<and> map view recs = map stored rs"
  using assms(1,2)
proof (induction rs arbitrary: pre acc)
  case Nil
  from ReadRecord_mid [OF t(1) Nil(2), of post] obtain rec where
    r: "ReadRecord file_ReadAt file_section \<lparr>cr_src = pre @ rec_bytes t @ post, cr_pos = int (length pre)\<rparr> =
      (Ok rec, \<lparr>cr_src = pre @ rec_bytes t @ post, cr_pos = int (length (pre @ rec_bytes t))\<rparr>)" and v: "view rec = stored t"
    by blast
  have "IName (RInfo rec) = Trailer" using v t(2) by (simp add: view_def stored_def)
  with r show ?case by (subst ForEachRecord.simps) (simp add: EOFReader_def sbind_def)
next
  case (Cons r rs)
  let ?post = "concat (map rec_bytes rs) @ rec_bytes t @ post"
  have ok: "rec_ok r" "IName (RInfo r) \<noteq> Trailer" using Cons.prems(1) by auto
  from ReadRecord_mid [OF ok(1) Cons.prems(2), of ?post] obtain rec where
    r: "ReadRecord file_ReadAt file_section \<lparr>cr_src = pre @ rec_bytes r @ ?post, cr_pos = int (length pre)\<rparr> =
      (Ok rec, \<lparr>cr_src = pre @ rec_bytes r @ ?post, cr_pos = int (length (pre @ rec_bytes r))\<rparr>)" and v: "view rec = stored r"
    by blast
  have n: "IName (RInfo rec) \<noteq> Trailer" using v ok(2) by (auto simp: view_def stored_def)
  have "4 dvd length (pre @ rec_bytes r)" using Cons.prems(2) rec_bytes_dvd by simp
  from Cons.IH [OF _ this, of "acc @ [rec]"] Cons.prems(1) obtain recs where
    recs: "ForEachRecord newc_reader (\<lambda>rec files. (Ok (), files @ [rec]))
      \<lparr>cr_src = (pre @ rec_bytes r) @ ?post, cr_pos = int (length (pre @ rec_bytes r))\<rparr> (acc @ [rec]) =
      Some (Ok (), (acc @ [rec]) @ recs)" "map view recs = map stored rs"
    by auto
  have "ForEachRecord newc_reader (\<lambda>rec files. (Ok (), files @ [rec]))
      \<lparr>cr_src = pre @ concat (map rec_bytes (r # rs)) @ rec_bytes t @ post, cr_pos = int (length pre)\<rparr> acc =
      Some (Ok (), acc @ (rec # recs))"
    using r n recs(1) by (subst ForEachRecord.simps) (simp add: EOFReader_def sbind_def)
  then show ?case using v recs(2) by (intro exI [of _ "rec # recs"]) simp
qed

lemma Normalize_eq: "Normalize p = path_of False (cleaned p)"
  by (simp add: Normalize_def Rel_root Clean_path_of)

lemma normal_False: "normal r cs \<Longrightarrow> normal False cs"
  by (auto simp: normal_def)

lemma cleaned_Normalize: "cleaned (Normalize p) = cleaned p" "\<not> IsAbs (Normalize p)"
proof -
  note n = normal_False [OF cleaned_normal, of p]
  show a: "\<not> IsAbs (Normalize p)" using clean_comps_path(2) [OF n] by (simp add: Normalize_eq)
  show "cleaned (Normalize p) = cleaned p"
    using clean_comps_path(1) [OF n] a unfolding Normalize_eq cleaned_def [of "path_of False (cleaned p)"] by simp
qed

lemma Normalize_idem: "Normalize (Normalize p) = Normalize p"
  by (simp add: Normalize_eq [of "Normalize p"] cleaned_Normalize) (simp add: Normalize_eq)

lemma trailer_ok: "rec_ok (norm TrailerRecord)" "IName (RInfo (norm TrailerRecord)) = Trailer" "rname TrailerRecord = Trailer"
proof -
  show t: "rname TrailerRecord = Trailer"
    by (simp add: rname_def TrailerRecord_def StaticRecord_def new_record_def empty_info_def Normalize_def
        Trailer_def IsAbs_def slash_def Clean_def path_of_def clean_comps_def clean_step_def dot_def dotdot_def)
  then show "IName (RInfo (norm TrailerRecord)) = Trailer" by (simp add: norm_def set_name_def rname_def)
  show "rec_ok (norm TrailerRecord)"
    using t by (simp add: rec_ok_def info_ok_def norm_def set_name_def rname_def TrailerRecord_def StaticRecord_def
        new_record_def empty_info_def mem_reader_def Trailer_def)
qed

section \<open>A whole archive\<close>

lemma archive_written:
  assumes "\<And>r. r \<in> set rs \<Longrightarrow> rec_ok (norm r) \<and> rname r \<noteq> Trailer" "distinct (map rname rs)"
  shows "\<exists>w w' recs. WriteRecords (newc_WriteRecord buffer_Write) rs (newc_Writer []) = (Ok (), w) \<and>
    WriteTrailer (newc_WriteRecord buffer_Write) w = (Ok (), w') \<and>
    ReadAllRecords newc_reader \<lparr>cr_src = cw_w (dw_rw w'), cr_pos = 0\<rparr> = Some (Ok (), recs) \<and>
    map view recs = map (\<lambda>r. stored (norm r)) rs"
proof -
  let ?bs = "concat (map rec_bytes (map norm rs))"
  have s: "newc_Writer [] = wstate [] {}" by (simp add: newc_Writer_def NewDedupWriter_def wstate_def)
  have w: "WriteRecords (newc_WriteRecord buffer_Write) rs (newc_Writer []) = (Ok (), wstate ?bs (rname ` set rs))"
    using WriteRecords_buffer [of rs "[]" "{}"] assms by (simp add: s comp_def)
  have "4 dvd length ?bs" by (induction rs) (simp_all add: rec_bytes_dvd)
  moreover have "rname TrailerRecord \<notin> rname ` set rs" using assms(1) trailer_ok(3) by (metis imageE)
  ultimately have w': "WriteTrailer (newc_WriteRecord buffer_Write) (wstate ?bs (rname ` set rs)) =
      (Ok (), wstate (?bs @ rec_bytes (norm TrailerRecord)) (insert Trailer (rname ` set rs)))"
    using newc_WriteRecord_buffer [OF trailer_ok(1)] trailer_ok(3) by (simp add: WriteTrailer_def)
  have "rec_ok r \<and> IName (RInfo r) \<noteq> Trailer" if "r \<in> set (map norm rs)" for r
    using assms(1) that by (auto simp: norm_def set_name_def rname_def)
  from ForEach_newc [OF this _ trailer_ok(1,2), of "map norm rs" "[]" "[]" "[]"] obtain recs where
    "ReadAllRecords newc_reader \<lparr>cr_src = ?bs @ rec_bytes (norm TrailerRecord), cr_pos = 0\<rparr> = Some (Ok (), recs)"
    "map view recs = map stored (map norm rs)" by (auto simp: ReadAllRecords_def)
  with w w' show ?thesis by (auto simp: wstate_def)
qed

section \<open>Properties\<close>

text \<open>C6: an archive written record by record and closed with the trailer is read back completely:
  every record with its metadata (\<open>Dev\<close> is not stored), its normalised name and its contents, in
  order, and the reader stops at the trailer.\<close>

theorem cpio_round_trip:
  assumes "\<And>r. r \<in> set rs \<Longrightarrow> rec_ok (norm r) \<and> rname r \<noteq> Trailer" "distinct (map rname rs)"
  shows "\<exists>w w' recs. WriteRecords (newc_WriteRecord buffer_Write) rs (newc_Writer []) = (Ok (), w) \<and>
    WriteTrailer (newc_WriteRecord buffer_Write) w = (Ok (), w') \<and>
    ReadAllRecords newc_reader \<lparr>cr_src = cw_w (dw_rw w'), cr_pos = 0\<rparr> = Some (Ok (), recs) \<and>
    map view recs = map (\<lambda>r. stored (norm r)) rs"
  by (rule archive_written) (use assms in blast)+

theorem cpio_round_trip_witness:
  "\<exists>w w' recs. WriteRecords (newc_WriteRecord buffer_Write) [StaticFile ''/etc/x'' ''hi'' 420, Directory ''bin'' 493]
       (newc_Writer []) = (Ok (), w) \<and>
     WriteTrailer (newc_WriteRecord buffer_Write) w = (Ok (), w') \<and>
     ReadAllRecords newc_reader \<lparr>cr_src = cw_w (dw_rw w'), cr_pos = 0\<rparr> = Some (Ok (), recs) \<and> length recs = 2"
proof -
  let ?rs = "[StaticFile ''/etc/x'' ''hi'' 420, Directory ''bin'' 493]"
  note d = StaticFile_def Directory_def StaticRecord_def new_record_def empty_info_def rname_def norm_def set_name_def
    mem_reader_def Normalize_eq path_of_def cleaned_def clean_comps_def clean_step_def dot_def dotdot_def slash_def IsAbs_def
  have n: "rname (StaticFile ''/etc/x'' ''hi'' 420) = ''etc/x''" "rname (Directory ''bin'' 493) = ''bin''"
    by (simp_all add: d)
  have "rec_ok (norm r) \<and> rname r \<noteq> Trailer" if "r \<in> set ?rs" for r
  proof -
    have "rec_ok (norm (StaticFile ''/etc/x'' ''hi'' 420))" "rec_ok (norm (Directory ''bin'' 493))"
      using n by (simp_all add: rec_ok_def info_ok_def norm_def rname_def set_name_def)
        (simp_all add: d S_IFREG_def S_IFDIR_def S_IFMT_def)
    with n that show ?thesis by (auto simp: Trailer_def)
  qed
  moreover have "distinct (map rname ?rs)" using n by simp
  ultimately obtain w w' recs where r: "WriteRecords (newc_WriteRecord buffer_Write) ?rs (newc_Writer []) = (Ok (), w)"
    "WriteTrailer (newc_WriteRecord buffer_Write) w = (Ok (), w')"
    "ReadAllRecords newc_reader \<lparr>cr_src = cw_w (dw_rw w'), cr_pos = 0\<rparr> = Some (Ok (), recs)"
    "map view recs = map (\<lambda>r. stored (norm r)) ?rs"
    using cpio_round_trip [of ?rs] by blast
  have "length recs = length ?rs" using arg_cong [OF r(4), of length] by (simp only: length_map)
  then have "length recs = 2" by simp
  with r(1-3) show ?thesis by blast
qed

text \<open>A record writer that keeps the records it is given.\<close>

definition log_writer :: "Record list record_writer" where
  "log_writer r w = (Ok (), w @ [r])"

lemma Dedup_log:
  assumes "WriteRecords (Dedup_WriteRecord log_writer) rs \<lparr>dw_rw = out, alreadyWritten = S\<rparr> = (x, w)"
    and "distinct (map (\<lambda>r. IName (RInfo r)) out)" "(\<lambda>r. IName (RInfo r)) ` set out = S"
  shows "x = Ok () \<and> distinct (map (\<lambda>r. IName (RInfo r)) (dw_rw w)) \<and>
    (\<lambda>r. IName (RInfo r)) ` set (dw_rw w) = S \<union> rname ` set rs"
  using assms
proof (induction rs arbitrary: out S)
  case (Cons r rs)
  show ?case
  proof (cases "rname r \<in> S")
    case True
    then have "Dedup_WriteRecord log_writer r \<lparr>dw_rw = out, alreadyWritten = S\<rparr> = (Ok (), \<lparr>dw_rw = out, alreadyWritten = S\<rparr>)"
      by (simp add: Dedup_WriteRecord_def rname_def Let_def)
    with Cons.prems(1) have "WriteRecords (Dedup_WriteRecord log_writer) rs \<lparr>dw_rw = out, alreadyWritten = S\<rparr> = (x, w)"
      by simp
    from Cons.IH [OF this Cons.prems(2,3)] True show ?thesis by auto
  next
    case False
    let ?out = "out @ [norm r]"
    have n: "IName (RInfo (norm r)) = rname r" by (simp add: norm_def set_name_def rname_def)
    have "Dedup_WriteRecord log_writer r \<lparr>dw_rw = out, alreadyWritten = S\<rparr> =
        (Ok (), \<lparr>dw_rw = ?out, alreadyWritten = insert (rname r) S\<rparr>)"
      using False by (simp add: Dedup_WriteRecord_def rname_def Let_def log_writer_def norm_def)
    with Cons.prems(1) have
      "WriteRecords (Dedup_WriteRecord log_writer) rs \<lparr>dw_rw = ?out, alreadyWritten = insert (rname r) S\<rparr> = (x, w)"
      by simp
    moreover have "distinct (map (\<lambda>r. IName (RInfo r)) ?out)" using Cons.prems(2,3) False n by auto
    moreover have "(\<lambda>r. IName (RInfo r)) ` set ?out = insert (rname r) S" using Cons.prems(3) n by simp
    ultimately show ?thesis using Cons.IH [of ?out "insert (rname r) S"] by auto
  qed
qed auto

text \<open>a \<open>DedupWriter\<close> passes on exactly one record for each normalised path, whatever records it
  is given.\<close>

theorem DedupWriter_distinct:
  assumes "WriteRecords (Dedup_WriteRecord log_writer) rs (NewDedupWriter []) = (x, w)"
  shows "x = Ok () \<and> distinct (map (\<lambda>r. IName (RInfo r)) (dw_rw w)) \<and>
    (\<lambda>r. IName (RInfo r)) ` set (dw_rw w) = rname ` set rs"
  using Dedup_log [of rs "[]" "{}" x w] assms by (simp add: NewDedupWriter_def)

theorem DedupWriter_distinct_witness:
  "\<exists>x w. WriteRecords (Dedup_WriteRecord log_writer) [TrailerRecord, TrailerRecord] (NewDedupWriter []) = (x, w) \<and>
     length (dw_rw w) = 1"
proof -
  obtain x w where w: "WriteRecords (Dedup_WriteRecord log_writer) [TrailerRecord, TrailerRecord] (NewDedupWriter []) = (x, w)"
    by (rule prod.exhaust)
  from DedupWriter_distinct [OF w]
  have "distinct (map (\<lambda>r. IName (RInfo r)) (dw_rw w))" "(\<lambda>r. IName (RInfo r)) ` set (dw_rw w) = {Trailer}"
    by (simp_all add: trailer_ok(3))
  then have "set (map (\<lambda>r. IName (RInfo r)) (dw_rw w)) = {Trailer}" "distinct (map (\<lambda>r. IName (RInfo r)) (dw_rw w))" by simp_all
  then have "length (map (\<lambda>r. IName (RInfo r)) (dw_rw w)) = 1" using distinct_card by fastforce
  then have "length (dw_rw w) = 1" by (simp only: length_map)
  with w show ?thesis by blast
qed

text \<open>\<open>Normalize\<close> is idempotent, never gives an absolute path, and names the same components as
  the cleaned path.\<close>

theorem Normalize_relative:
  "Normalize (Normalize p) = Normalize p \<and> \<not> IsAbs (Normalize p) \<and> comps (Normalize p) = comps (Clean p)"
  using Normalize_idem cleaned_Normalize comps_path_of [OF normal_False [OF cleaned_normal, of p]]
  by (simp add: Normalize_eq)

text \<open>What \<open>MakeReproducible\<close> leaves of a record.\<close>

definition repro_view :: "Record \<Rightarrow> string \<times> u64 \<times> u64 \<times> u64 \<times> u64 \<times> ReaderAt option" where
  "repro_view r = (rname r, Mode (RInfo r), FileSize (RInfo r), Rmajor (RInfo r), Rminor (RInfo r), Contents r)"

lemma MakeReproducible_eq:
  assumes "repro_view r = repro_view s"
  shows "RInfo (MakeReproducible r) = RInfo (MakeReproducible s)" "Contents (MakeReproducible r) = Contents (MakeReproducible s)"
  using assms by (simp_all add: repro_view_def MakeReproducible_def rname_def)

lemma cw_WriteRecord_cong:
  "RInfo r = RInfo s \<Longrightarrow> Contents r = Contents s \<Longrightarrow> cw_WriteRecord wr r w = cw_WriteRecord wr s w"
  unfolding cw_WriteRecord_def by (simp only:)

text \<open>records that agree on path, mode, size, device numbers and contents produce bit-for-bit the
  same archive after \<open>MakeReproducible\<close>, whatever their times, owners and inodes, on any writer.\<close>

theorem MakeReproducible_identical:
  assumes "map repro_view rs = map repro_view ss"
  shows "snd (WriteRecords (newc_WriteRecord wr) (MakeAllReproducible rs) w) =
    snd (WriteRecords (newc_WriteRecord wr) (MakeAllReproducible ss) w)"
  using assms
proof (induction rs arbitrary: ss w)
  case (Cons r rs)
  then obtain s ss' where ss: "ss = s # ss'" "repro_view r = repro_view s" "map repro_view rs = map repro_view ss'"
    by (cases ss) auto
  note e = MakeReproducible_eq [OF ss(2)]
  have "newc_WriteRecord wr (MakeReproducible r) w = newc_WriteRecord wr (MakeReproducible s) w"
    using e cw_WriteRecord_cong [of "set_name nm (MakeReproducible r)" "set_name nm (MakeReproducible s)" wr for nm]
    by (simp add: newc_WriteRecord_def Dedup_WriteRecord_def Let_def set_name_def)
  with Cons.IH [OF ss(3)] e show ?case
    by (auto simp: MakeAllReproducible_def ss(1) split: prod.splits res.splits)
qed (simp add: MakeAllReproducible_def)

theorem MakeReproducible_identical_witness:
  "snd (WriteRecords (newc_WriteRecord buffer_Write) (MakeAllReproducible [StaticRecord [1] ((empty_info ''a'')\<lparr>MTime := 5\<rparr>)]) (newc_Writer [])) =
   snd (WriteRecords (newc_WriteRecord buffer_Write) (MakeAllReproducible [StaticRecord [1] ((empty_info ''./a'')\<lparr>MTime := 9\<rparr>)]) (newc_Writer []))"
  by (rule MakeReproducible_identical)
    (simp add: repro_view_def StaticRecord_def new_record_def empty_info_def rname_def Normalize_eq path_of_def
      cleaned_def clean_comps_def clean_step_def dot_def dotdot_def slash_def IsAbs_def)

text \<open>reading a pipe through a \<open>discarder\<close> at increasing offsets gives the same bytes as reading a
  file at those offsets.\<close>

theorem discarder_forward:
  assumes "p \<le> off" "off + n \<le> length f" "0 < n"
  shows "discarder_ReadAt \<lparr>d_rest = drop p f, d_pos = int p\<rparr> n (int off) =
      (take n (drop off f), None, \<lparr>d_rest = drop (off + n) f, d_pos = int (off + n)\<rparr>) \<and>
    file_ReadAt f n (int off) = (take n (drop off f), None, f)"
  using assms by (auto simp: discarder_ReadAt_def file_ReadAt_def Let_def min_def nat_diff_distrib' add.commute)

theorem discarder_forward_witness:
  "discarder_ReadAt \<lparr>d_rest = [3, 4, 5, 6], d_pos = 2\<rparr> 2 3 = ([4, 5], None, \<lparr>d_rest = [6], d_pos = 5\<rparr>)"
  using discarder_forward [of 2 3 2 "[1, 2, 3, 4, 5, 6]"] by simp

section \<open>Behaviours outside the contracts\<close>

text \<open>An archive cut off inside a header is read as if it ended there.\<close>

theorem truncated_header_is_end:
  assumes "length f < 110"
  shows "ReadAllRecords newc_reader \<lparr>cr_src = f, cr_pos = 0\<rparr> = Some (Ok (), [])"
proof -
  have "creader_read file_ReadAt (2 * hdr_size + magicLen) \<lparr>cr_src = f, cr_pos = 0\<rparr> = (Err CpioEOF, \<lparr>cr_src = f, cr_pos = 0\<rparr>)"
    using assms by (simp add: creader_read_def file_ReadAt_def hdr_size_def magicLen_def)
  then show ?thesis
    unfolding ReadAllRecords_def by (subst ForEachRecord.simps) (simp add: EOFReader_def sbind_def ReadRecord_def)
qed

text \<open>A header whose name length is 0 makes the reader panic.\<close>

theorem zero_name_length_panics:
  assumes "NameLength h = 0"
  shows "fst (ReadRecord file_ReadAt file_section
    \<lparr>cr_src = str_bytes newcMagic @ map to_upper (hex_encode (encode_hdr h)) @ x # rest, cr_pos = 0\<rparr>) = Panic"
proof -
  let ?hex = "str_bytes newcMagic @ map to_upper (hex_encode (encode_hdr h))"
  let ?f = "str_bytes newcMagic @ map to_upper (hex_encode (encode_hdr h)) @ x # rest"
  have ml: "length newcMagic = magicLen" by (simp add: newcMagic_def magicLen_def)
  have "length ?hex = 2 * hdr_size + magicLen" using ml by (simp add: hdr_size_def)
  from creader_read_mid [OF this, of "[]" "x # rest"] have r1: "creader_read file_ReadAt (2 * hdr_size + magicLen) \<lparr>cr_src = ?f, cr_pos = 0\<rparr> =
      (Ok ?hex, \<lparr>cr_src = ?f, cr_pos = int (2 * hdr_size + magicLen)\<rparr>)" by (simp add: magicLen_def)
  have "length ?f > 2 * hdr_size + magicLen" using ml by (simp add: hdr_size_def)
  then have "creader_read file_ReadAt 0 \<lparr>cr_src = ?f, cr_pos = int (2 * hdr_size + magicLen)\<rparr> =
      (Ok [], \<lparr>cr_src = ?f, cr_pos = int (2 * hdr_size + magicLen)\<rparr>)"
    by (simp add: creader_read_def file_ReadAt_def)
  with r1 assms ml show ?thesis
    by (simp add: ReadRecord_def sbind_def Let_def hex_decode_encode readAligned_def del: of_nat_add)
qed

text \<open>Two records of the same path: the archive lists the path twice and gives the last record both times.\<close>

theorem Archive_duplicates:
  assumes "rname r = rname s"
  shows "Order (ArchiveFromRecords [r, s]) = [rname r, rname r] \<and>
    Archive_Get (ArchiveFromRecords [r, s]) (rname r) = Some (norm s)"
  using assms Normalize_idem
  by (simp add: ArchiveFromRecords_def Archive_WriteRecord_def InMemArchive_def Archive_Get_def rname_def norm_def Let_def)

end
