(* ===== verification/CpioFs.thy ===== *)
theory CpioFs imports CpioRoundtrip begin

text \<open>
  \<open>pkg/cpio/fs_unix.go\<close> and \<open>sysinfo_linux.go\<close>: records from files and files from records. The
  operating system is a parameter: a function that answers each call, given the calls made before it.
  The state is the list of the calls made.
\<close>

section \<open>Calls of the operating system\<close>

datatype os_call =
    OsStat string
  | OsMkdirAll string u32
  | OsSymlink string string
  | OsCreate string
  | OsWrite string "byte list"
  | OsClose string
  | OsMknod string u32 int
  | OsChmod string u32
  | OsChown string int int

type_synonym os = "os_call list \<Rightarrow> os_call \<Rightarrow> errno option"
type_synonym 'a os_prog = "os_call list \<Rightarrow> (cpio_error, 'a) res \<times> os_call list"

definition sys :: "os \<Rightarrow> os_call \<Rightarrow> unit os_prog" where
  "sys w c t = (case w t c of None \<Rightarrow> Ok () | Some e \<Rightarrow> Err (ErrOS e), t @ [c])"

section \<open>Modes\<close>

definition modePermissions :: u32 where "modePermissions = 511"

definition modeMap :: "u64 \<rightharpoonup> u32" where
  "modeMap = [S_IFSOCK \<mapsto> ModeSocket, S_IFLNK \<mapsto> ModeSymlink, S_IFREG \<mapsto> 0, S_IFBLK \<mapsto> ModeDevice,
     S_IFDIR \<mapsto> ModeDir, S_IFCHR \<mapsto> ModeCharDevice, S_IFIFO \<mapsto> ModeNamedPipe]"

definition perm :: "Record \<Rightarrow> u32" where
  "perm r = ucast (Mode (RInfo r)) AND modePermissions"

definition toFileMode :: "Record \<Rightarrow> u32" where
  "toFileMode r =
     (let m0 = perm r; mode = Mode (RInfo r);
          m1 = (if mode AND S_ISUID \<noteq> 0 then m0 OR ModeSetuid else m0);
          m2 = (if mode AND S_ISGID \<noteq> 0 then m1 OR ModeSetgid else m1)
      in if mode AND S_ISVTX \<noteq> 0 then m2 OR ModeSticky else m2)"

definition rec_dev :: "Record \<Rightarrow> int" where
  "rec_dev r = sint (push_bit 8 (Rmajor (RInfo r)) OR Rminor (RInfo r))"

definition linuxModeToFileType :: "u64 \<Rightarrow> (cpio_error, u32) res" where
  "linuxModeToFileType m =
     (case modeMap (m AND S_IFMT) of Some t \<Rightarrow> Ok t | None \<Rightarrow> Err (ErrFileType (m AND S_IFMT)))"

section \<open>Creating files\<close>

definition setModes :: "os \<Rightarrow> Record \<Rightarrow> unit os_prog" where
  "setModes w r =
     (let nm = IName (RInfo r) in
      sbind (sys w (OsChmod nm (toFileMode r AND ModePerm))) (\<lambda>_.
      sbind (sys w (OsChown nm (sint (UID (RInfo r))) (sint (GID (RInfo r))))) (\<lambda>_.
      sys w (OsChmod nm (toFileMode r)))))"

text \<open>An error counts only when \<open>forcePriv\<close> is set.\<close>

definition if_forced :: "bool \<Rightarrow> unit os_prog \<Rightarrow> unit os_prog" where
  "if_forced forcePriv p t =
     (case p t of (Err e, t') \<Rightarrow> (if forcePriv then Err e else Ok (), t') | x \<Rightarrow> x)"

text \<open>\<open>io.Copy\<close> into the file; without a \<open>ReaderAt\<close> the first read panics.\<close>

fun write_chunks :: "os \<Rightarrow> string \<Rightarrow> byte list list \<Rightarrow> unit os_prog" where
  "write_chunks w nm [] = sreturn ()"
| "write_chunks w nm (c # cs) = sbind (sys w (OsWrite nm c)) (\<lambda>_. write_chunks w nm cs)"

definition copy_to_file :: "os \<Rightarrow> Record \<Rightarrow> unit os_prog" where
  "copy_to_file w f =
     (case Contents f of
        None \<Rightarrow> (\<lambda>t. (Panic, t))
      | Some r \<Rightarrow> sbind (write_chunks w (IName (RInfo f)) (chunks (ra_data r))) (\<lambda>_ t.
          (case ra_err r of Some e \<Rightarrow> Err (CpioIO e) | None \<Rightarrow> Ok (), t)))"

text \<open>\<open>defer nf.Close()\<close>: the file is closed however the rest ends, and the error of \<open>Close\<close> is ignored.\<close>

definition defer_close :: "os \<Rightarrow> string \<Rightarrow> unit os_prog \<Rightarrow> unit os_prog" where
  "defer_close w nm p t = (case p t of (x, t') \<Rightarrow> (x, snd (sys w (OsClose nm) t')))"

definition make_dir :: "os \<Rightarrow> string \<Rightarrow> unit os_prog" where
  "make_dir w dir t =
     (if fst (sys w (OsStat dir) t) = Err (ErrOS ENOENT) \<and> dir \<noteq> []
      then sys w (OsMkdirAll dir 493) (snd (sys w (OsStat dir) t))
      else (Ok (), snd (sys w (OsStat dir) t)))"

definition make_file :: "os \<Rightarrow> Record \<Rightarrow> u32 \<Rightarrow> bool \<Rightarrow> unit os_prog" where
  "make_file w f m forcePriv =
     (let nm = IName (RInfo f); finish = if_forced forcePriv (setModes w f) in
      if m = ModeSocket \<or> m = ModeNamedPipe then (\<lambda>t. (Err (ErrIPC nm), t))
      else if m = ModeSymlink then
        (case Contents f of
           None \<Rightarrow> (\<lambda>t. (Panic, t))
         | Some r \<Rightarrow> (case ra_err r of
               Some e \<Rightarrow> (\<lambda>t. (Err (CpioIO e), t))
             | None \<Rightarrow> sys w (OsSymlink (bytes_str (ra_data r)) nm)))
      else if m = 0 then
        sbind (sys w (OsCreate nm)) (\<lambda>_. defer_close w nm (sbind (copy_to_file w f) (\<lambda>_. finish)))
      else if m = ModeDir then
        sbind (sys w (OsMkdirAll nm (toFileMode f))) (\<lambda>_. finish)
      else if m = ModeDevice then
        sbind (if_forced forcePriv (sys w (OsMknod nm (perm f OR 0x6000) (rec_dev f)))) (\<lambda>_. finish)
      else if m = ModeCharDevice then
        sbind (if_forced forcePriv (sys w (OsMknod nm (perm f OR 0x2000) (rec_dev f)))) (\<lambda>_. finish)
      else (\<lambda>t. (Err (ErrFileType (ucast m)), t)))"

definition CreateFileInRoot :: "os \<Rightarrow> Record \<Rightarrow> string \<Rightarrow> bool \<Rightarrow> unit os_prog" where
  "CreateFileInRoot w f rootDir forcePriv =
     (case linuxModeToFileType (Mode (RInfo f)) of
        Err e \<Rightarrow> (\<lambda>t. (Err e, t))
      | Panic \<Rightarrow> (\<lambda>t. (Panic, t))
      | Ok m \<Rightarrow>
          (case SafeFilepathJoin rootDir (IName (RInfo f)) of
             Ok nm \<Rightarrow> sbind (make_dir w (Dir nm)) (\<lambda>_. make_file w (set_name nm f) m forcePriv)
           | _ \<Rightarrow> sreturn ()))"

definition CreateFile :: "os \<Rightarrow> Record \<Rightarrow> unit os_prog" where
  "CreateFile w f = CreateFileInRoot w f dot True"

section \<open>Records from files\<close>

record Stat_t =
  st_dev :: u64
  st_ino :: u64
  st_nlink :: u64
  st_mode :: u32
  st_uid :: u32
  st_gid :: u32
  st_rdev :: u64
  st_size :: u64
  st_mtim_sec :: u64

definition sysInfo :: "string \<Rightarrow> Stat_t \<Rightarrow> Info" where
  "sysInfo n s = \<lparr>Ino = st_ino s, Mode = ucast (st_mode s), UID = ucast (st_uid s), GID = ucast (st_gid s),
     NLink = st_nlink s, MTime = st_mtim_sec s, FileSize = st_size s, Dev = st_dev s,
     Major = drop_bit 8 (st_dev s), Minor = st_dev s AND 0xff,
     Rmajor = drop_bit 8 (st_rdev s), Rminor = st_rdev s AND 0xff, IName = n\<rparr>"

record Recorder =
  inodeMap :: "u64 \<times> u64 \<rightharpoonup> Info"
  inumber :: u64

definition NewRecorder :: Recorder where
  "NewRecorder = \<lparr>inodeMap = Map.empty, inumber = 2\<rparr>"

text \<open>The second result says whether the file is a hard link to one seen before.\<close>

definition inode :: "Recorder \<Rightarrow> Info \<Rightarrow> (Info \<times> bool) \<times> Recorder" where
  "inode r i =
     (let d = (Dev i, Ino i); i0 = i\<lparr>Dev := 0\<rparr> in
      case inodeMap r d of
        Some s \<Rightarrow> ((i0\<lparr>Ino := Ino s\<rparr>, IName s \<noteq> IName i), r)
      | None \<Rightarrow>
          let i1 = i0\<lparr>Ino := inumber r\<rparr> in
          ((i1, False), \<lparr>inodeMap = (inodeMap r)(d \<mapsto> i1), inumber = inumber r + 1\<rparr>))"

definition ModeType :: u32 where
  "ModeType = ModeDir OR ModeSymlink OR ModeNamedPipe OR ModeSocket OR ModeDevice OR ModeCharDevice OR push_bit 19 1"

text \<open>\<open>Lstat\<close> gives the system data and the \<open>FileMode\<close>; \<open>lazy path\<close> is the content of the file.\<close>

definition GetRecord ::
    "(string \<Rightarrow> (errno, Stat_t \<times> u32) res) \<Rightarrow> (string \<Rightarrow> (errno, string) res) \<Rightarrow> (string \<Rightarrow> ReaderAt)
     \<Rightarrow> Recorder \<Rightarrow> string \<Rightarrow> (cpio_error, Record) res \<times> Recorder" where
  "GetRecord lstat readlink lazy r path =
     (case lstat path of
        Err e \<Rightarrow> (Err (ErrOS e), r)
      | Panic \<Rightarrow> (Panic, r)
      | Ok (s, fm) \<Rightarrow>
          (case inode r (sysInfo path s) of ((info, done), r') \<Rightarrow>
             if fm AND ModeType = 0 then
               (Ok (new_record (if done then None else Some (lazy path)) info), r')
             else if fm AND ModeType = ModeSymlink then
               (case readlink path of
                  Ok linkname \<Rightarrow> (Ok (StaticRecord (str_bytes linkname) info), r')
                | Err e \<Rightarrow> (Err (ErrOS e), r')
                | Panic \<Rightarrow> (Panic, r'))
             else (Ok (StaticRecord [] info), r')))"

text \<open>\<open>mkdev\<close> is \<open>unix.Mkdev\<close>, \<open>err_text\<close> the text of an error.\<close>

record FileInfo =
  li_Name :: string
  li_Mode :: u32
  li_Rdev :: u64
  li_UID :: u32
  li_GID :: u32
  li_Size :: int
  li_MTime :: int
  li_SymlinkTarget :: string

definition LSInfoFromRecord ::
    "(u32 \<Rightarrow> u32 \<Rightarrow> u64) \<Rightarrow> (io_error \<Rightarrow> string) \<Rightarrow> Record \<Rightarrow> (cpio_error, FileInfo) res" where
  "LSInfoFromRecord mkdev err_text r =
     (let mode = modeFromLinux (Mode (RInfo r)); i = RInfo r in
      rbind
        (if mode AND ModeType = ModeSymlink then
           (case Contents r of
              None \<Rightarrow> Panic
            | Some c \<Rightarrow> Ok (case ra_err c of Some e \<Rightarrow> err_text e | None \<Rightarrow> bytes_str (ra_data c)))
         else Ok [])
        (\<lambda>target. Ok \<lparr>li_Name = IName i, li_Mode = mode, li_Rdev = mkdev (ucast (Rmajor i)) (ucast (Rminor i)),
           li_UID = ucast (UID i), li_GID = ucast (GID i), li_Size = sint (FileSize i), li_MTime = sint (MTime i),
           li_SymlinkTarget = target\<rparr>))"

section \<open>Laws of the calls made\<close>

text \<open>\<open>traces Q p\<close>: the calls that \<open>p\<close> adds after the calls \<open>t\<close> satisfy \<open>Q t\<close>.\<close>

definition traces :: "(os_call list \<Rightarrow> os_call list \<Rightarrow> bool) \<Rightarrow> 'a os_prog \<Rightarrow> bool" where
  "traces Q p \<longleftrightarrow> (\<forall>t. \<exists>cs. snd (p t) = t @ cs \<and> Q t cs)"

lemma snd_if_forced: "snd (if_forced force p t) = snd (p t)"
  unfolding if_forced_def by (cases "p t"; cases "fst (p t)") simp_all

locale trace_law =
  fixes Q :: "os_call list \<Rightarrow> os_call list \<Rightarrow> bool"
  assumes law_Nil: "Q t []"
    and law_append: "Q t cs \<Longrightarrow> Q (t @ cs) ds \<Longrightarrow> Q t (cs @ ds)"
begin

lemma same: "(\<And>t. snd (p t) = t) \<Longrightarrow> traces Q p"
  by (simp add: traces_def law_Nil)

lemma return [intro]: "traces Q (sreturn x)"
  by (rule same) (simp add: sreturn_def)

lemma call: "(\<And>t. Q t [c]) \<Longrightarrow> traces Q (sys w c)"
  by (simp add: traces_def sys_def)

lemma closing: "traces Q p \<Longrightarrow> (\<And>t. Q t [OsClose nm]) \<Longrightarrow> traces Q (defer_close w nm p)"
  unfolding traces_def
proof
  fix t
  assume p: "\<forall>t. \<exists>cs. snd (p t) = t @ cs \<and> Q t cs" and c: "\<And>t. Q t [OsClose nm]"
  then obtain cs where cs: "snd (p t) = t @ cs" "Q t cs" by blast
  have "snd (defer_close w nm p t) = t @ cs @ [OsClose nm]"
    using cs(1) by (cases "p t") (simp add: defer_close_def sys_def)
  with law_append [OF cs(2) c] show "\<exists>cs. snd (defer_close w nm p t) = t @ cs \<and> Q t cs" by blast
qed

lemma bind: "traces Q f \<Longrightarrow> (\<And>x. traces Q (g x)) \<Longrightarrow> traces Q (sbind f g)"
  unfolding traces_def
proof
  fix t
  assume f: "\<forall>t. \<exists>cs. snd (f t) = t @ cs \<and> Q t cs" and g: "\<And>x. \<forall>t. \<exists>cs. snd (g x t) = t @ cs \<and> Q t cs"
  then obtain cs where cs: "snd (f t) = t @ cs" "Q t cs" by blast
  show "\<exists>cs. snd (sbind f g t) = t @ cs \<and> Q t cs"
  proof (cases "fst (f t)")
    case (Ok x)
    with cs(1) have e: "sbind f g t = g x (t @ cs)" by (cases "f t") (simp add: sbind_def)
    obtain ds where "snd (g x (t @ cs)) = (t @ cs) @ ds" "Q (t @ cs) ds" using g by blast
    with e law_append [OF cs(2)] show ?thesis by auto
  qed (use cs in \<open>cases "f t"; simp add: sbind_def\<close>)+
qed

lemma forced: "traces Q p \<Longrightarrow> traces Q (if_forced force p)"
  unfolding traces_def by (simp add: snd_if_forced)

lemma chunks_written: "(\<And>t c. Q t [OsWrite nm c]) \<Longrightarrow> traces Q (write_chunks w nm cs)"
  by (induction cs) (auto intro!: bind call)

lemma copy: "(\<And>t c. Q t [OsWrite (IName (RInfo f)) c]) \<Longrightarrow> traces Q (copy_to_file w f)"
  unfolding copy_to_file_def by (cases "Contents f") (auto intro!: bind chunks_written intro: same)

lemma dirs: "(\<And>t. Q t [OsStat d]) \<Longrightarrow> (\<And>t m. Q t [OsMkdirAll d m]) \<Longrightarrow> traces Q (make_dir w d)"
proof -
  assume s: "\<And>t. Q t [OsStat d]" and m: "\<And>t m. Q t [OsMkdirAll d m]"
  have "Q t [OsStat d, OsMkdirAll d 493]" for t using law_append [OF s m, of t] by simp
  with s show ?thesis by (auto simp: traces_def make_dir_def sys_def)
qed

lemma filed:
  assumes c: "\<And>t x. Q t [OsSymlink x nm]" "\<And>t. Q t [OsCreate nm]" "\<And>t b. Q t [OsWrite nm b]" "\<And>t. Q t [OsClose nm]"
      "\<And>t m. Q t [OsMkdirAll nm m]" "\<And>t m d. Q t [OsMknod nm m d]"
    and nm: "IName (RInfo f) = nm" and modes: "traces Q (setModes w f)"
  shows "traces Q (make_file w f m force)"
proof -
  note fin = forced [OF modes, of force]
  have "traces Q (sbind (sys w (OsCreate nm)) (\<lambda>_. defer_close w nm (sbind (copy_to_file w f) (\<lambda>_. if_forced force (setModes w f)))))"
    using c fin nm by (intro bind call closing copy) auto
  moreover have "traces Q (sbind (sys w (OsMkdirAll nm x)) (\<lambda>_. if_forced force (setModes w f)))" for x
    using c fin by (intro bind call)
  moreover have "traces Q (sbind (if_forced force (sys w (OsMknod nm x d))) (\<lambda>_. if_forced force (setModes w f)))" for x d
    using c by (intro bind call forced modes)
  moreover have "traces Q (\<lambda>t. (x, t))" for x :: "(cpio_error, unit) res" by (rule same) simp
  moreover have "traces Q (sys w (OsSymlink x nm))" for x using c by (intro call)
  ultimately show ?thesis
    unfolding make_file_def Let_def nm by (simp split: option.splits)
qed

lemma create:
  assumes "SafeFilepathJoin root (IName (RInfo f)) = Ok nm \<Longrightarrow> traces Q (make_dir w (Dir nm))"
    and "\<And>m. SafeFilepathJoin root (IName (RInfo f)) = Ok nm \<Longrightarrow> traces Q (make_file w (set_name nm f) m force)"
    and "\<And>nm'. SafeFilepathJoin root (IName (RInfo f)) = Ok nm' \<Longrightarrow> nm' = nm"
  shows "traces Q (CreateFileInRoot w f root force)"
proof -
  have "traces Q (\<lambda>t. (x, t))" for x :: "(cpio_error, unit) res" by (rule same) simp
  note stop = this
  have "traces Q (sbind (make_dir w (Dir nm')) (\<lambda>_. make_file w (set_name nm' f) m force))"
    if "SafeFilepathJoin root (IName (RInfo f)) = Ok nm'" for nm' m
    using assms(3) [OF that] that assms(1,2) by (intro bind) blast+
  with stop show ?thesis
    unfolding CreateFileInRoot_def by (auto split: res.split intro: return)
qed

end

text \<open>All calls concern one file and its directory.\<close>

fun call_path :: "os_call \<Rightarrow> string" where
  "call_path (OsStat p) = p"
| "call_path (OsMkdirAll p m) = p"
| "call_path (OsSymlink x p) = p"
| "call_path (OsCreate p) = p"
| "call_path (OsWrite p b) = p"
| "call_path (OsClose p) = p"
| "call_path (OsMknod p m d) = p"
| "call_path (OsChmod p m) = p"
| "call_path (OsChown p u g) = p"

definition only_about :: "string \<Rightarrow> os_call list \<Rightarrow> os_call list \<Rightarrow> bool" where
  "only_about nm t cs \<longleftrightarrow> (\<forall>c \<in> set cs. call_path c = nm \<or> c = OsStat (Dir nm) \<or> c = OsMkdirAll (Dir nm) 493)"

interpretation about: trace_law "only_about nm" for nm
  by unfold_locales (auto simp: only_about_def)

text \<open>Set-id and sticky bits are set only right after the owner was set.\<close>

definition suid_ok :: "os \<Rightarrow> os_call list \<Rightarrow> os_call list \<Rightarrow> bool" where
  "suid_ok w t cs \<longleftrightarrow> (\<forall>i m nm. i < length cs \<longrightarrow> cs ! i = OsChmod nm m \<longrightarrow> m AND NOT ModePerm \<noteq> 0 \<longrightarrow>
     (\<exists>u g. 0 < i \<and> cs ! (i - 1) = OsChown nm u g \<and> w (t @ take (i - 1) cs) (cs ! (i - 1)) = None))"

lemma suid_ok_append:
  assumes "suid_ok w t cs" "suid_ok w (t @ cs) ds"
  shows "suid_ok w t (cs @ ds)"
  unfolding suid_ok_def
proof (intro allI impI)
  fix i m nm
  assume i: "i < length (cs @ ds)" and c: "(cs @ ds) ! i = OsChmod nm m" and m: "m AND NOT ModePerm \<noteq> 0"
  show "\<exists>u g. 0 < i \<and> (cs @ ds) ! (i - 1) = OsChown nm u g \<and> w (t @ take (i - 1) (cs @ ds)) ((cs @ ds) ! (i - 1)) = None"
  proof (cases "i < length cs")
    case True
    with c have "cs ! i = OsChmod nm m" by (simp add: nth_append)
    with assms(1) True m obtain u g where "0 < i" "cs ! (i - 1) = OsChown nm u g" "w (t @ take (i - 1) cs) (cs ! (i - 1)) = None"
      unfolding suid_ok_def by blast
    with True show ?thesis by (auto simp: nth_append)
  next
    case False
    let ?j = "i - length cs"
    have "?j < length ds" "ds ! ?j = OsChmod nm m" using i c False by (auto simp: nth_append)
    with assms(2) m obtain u g where j: "0 < ?j" "ds ! (?j - 1) = OsChown nm u g"
        "w ((t @ cs) @ take (?j - 1) ds) (ds ! (?j - 1)) = None"
      unfolding suid_ok_def by blast
    have k: "i - 1 = length cs + (?j - 1)" using j(1) by simp
    have e: "(cs @ ds) ! (i - 1) = ds ! (?j - 1)" unfolding k by (simp add: nth_append)
    have t: "take (i - 1) (cs @ ds) = cs @ take (?j - 1) ds" unfolding k by simp
    have "0 < i" using j(1) by simp
    with j(2,3) show ?thesis unfolding e t by (intro exI [of _ u] exI [of _ g]) simp
  qed
qed

interpretation suid: trace_law "suid_ok w" for w
  by unfold_locales (simp add: suid_ok_def, rule suid_ok_append)

lemma suid_single: "(\<And>nm m. c \<noteq> OsChmod nm m) \<Longrightarrow> suid_ok w t [c]"
  by (simp add: suid_ok_def)

lemma setModes_calls:
  defines "p r \<equiv> OsChmod (IName (RInfo r)) (toFileMode r AND ModePerm)"
    and "o1 r \<equiv> OsChown (IName (RInfo r)) (sint (UID (RInfo r))) (sint (GID (RInfo r)))"
    and "m r \<equiv> OsChmod (IName (RInfo r)) (toFileMode r)"
  shows "snd (setModes w r t) = t @ (if w t (p r) \<noteq> None then [p r]
      else if w (t @ [p r]) (o1 r) \<noteq> None then [p r, o1 r] else [p r, o1 r, m r])"
  by (auto simp: setModes_def sbind_def sys_def Let_def p_def o1_def m_def split: option.splits)

lemma setModes_suid: "traces (suid_ok w) (setModes w r)"
  unfolding traces_def
proof
  fix t
  have "(toFileMode r AND ModePerm) AND NOT ModePerm = 0" by (simp add: and.assoc)
  then show "\<exists>cs. snd (setModes w r t) = t @ cs \<and> suid_ok w t cs"
    unfolding setModes_calls by (auto simp: suid_ok_def nth_Cons split: nat.splits)
qed

lemma setModes_about: "IName (RInfo r) = nm \<Longrightarrow> traces (only_about nm) (setModes w r)"
  unfolding traces_def by (simp add: setModes_calls only_about_def)

text \<open>C8: extracting a record never touches anything but the file that \<open>SafeFilepathJoin\<close> gives (which
  lies in the root) and the directory it is in; a name it rejects changes nothing and is not an error.\<close>

theorem CreateFileInRoot_inside:
  assumes "CreateFileInRoot w f root force t = (r, t')"
  shows "\<exists>cs. t' = t @ cs \<and>
    (case SafeFilepathJoin root (IName (RInfo f)) of
       Ok nm \<Rightarrow> only_about nm t cs \<and> (\<exists>ds. cleaned nm = cleaned (if root = [] then dot else root) @ ds \<and> dotdot \<notin> set ds)
     | _ \<Rightarrow> cs = [] \<and> r \<noteq> Panic)"
proof (cases "SafeFilepathJoin root (IName (RInfo f))")
  case (Ok nm)
  have "traces (only_about nm) (CreateFileInRoot w f root force)"
  proof (rule about.create [where nm = nm])
    show "traces (only_about nm) (make_dir w (Dir nm))"
      unfolding traces_def by (auto simp: make_dir_def sys_def only_about_def)
    show "traces (only_about nm) (make_file w (set_name nm f) m force)" for m
      by (rule about.filed [where nm = nm, OF _ _ _ _ _ _ _ setModes_about]) (simp_all add: only_about_def set_name_def)
  qed (use Ok in simp)
  then obtain cs where "t' = t @ cs" "only_about nm t cs"
    using assms unfolding traces_def by (metis snd_conv)
  with Ok SafeFilepathJoin_root [OF Ok] show ?thesis by auto
next
  case (Err e)
  with assms show ?thesis
    by (auto simp: CreateFileInRoot_def sreturn_def linuxModeToFileType_def split: res.splits option.splits)
next
  case Panic
  with assms show ?thesis
    by (auto simp: CreateFileInRoot_def sreturn_def linuxModeToFileType_def split: res.splits option.splits)
qed

text \<open>extracting a record sets set-user-id, set-group-id and sticky bits only right after the owner of the
  file was set with success, whatever the system answers.\<close>

theorem CreateFileInRoot_suid:
  "\<exists>cs. snd (CreateFileInRoot w f root force t) = t @ cs \<and> suid_ok w t cs"
proof -
  have "traces (suid_ok w) (CreateFileInRoot w f root force)"
  proof (cases "SafeFilepathJoin root (IName (RInfo f))")
    case (Ok nm)
    show ?thesis
    proof (rule suid.create [where nm = nm])
      show "traces (suid_ok w) (make_dir w (Dir nm))" by (rule suid.dirs) (simp_all add: suid_single)
      show "traces (suid_ok w) (make_file w (set_name nm f) m force)" for m
        by (rule suid.filed [where nm = nm]) (simp_all add: suid_single setModes_suid set_name_def)
    qed (use Ok in simp)
  qed (auto intro!: suid.create [where nm = "[]"])
  then show ?thesis unfolding traces_def by blast
qed

theorem CreateFileInRoot_inside_witness:
  "\<exists>r t'. CreateFileInRoot (\<lambda>_ _. None) (Directory ''b'' 493) ''a'' True [] = (r, t') \<and>
     (\<exists>nm. SafeFilepathJoin ''a'' ''b'' = Ok nm \<and> only_about nm [] t')"
proof -
  obtain r t' where e: "CreateFileInRoot (\<lambda>_ _. None) (Directory ''b'' 493) ''a'' True [] = (r, t')"
    by (rule prod.exhaust)
  have n: "IName (RInfo (Directory ''b'' 493)) = ''b''" by (simp add: Directory_def new_record_def empty_info_def)
  have "SafeFilepathJoin ''a'' ''b'' = Ok ''a/b''"
    by (simp add: SafeFilepathJoin_def Rel_dot)
      (simp add: IsAbs_def slash_def Clean_def clean_comps_def clean_step_def
        dot_def dotdot_def path_of_def HasPrefix_def Join_def)
  with CreateFileInRoot_inside [OF e] e n show ?thesis by auto
qed

section \<open>Inode numbers\<close>

text \<open>The infos and hard-link marks a recorder gives for a sequence of files.\<close>

fun inodes :: "Recorder \<Rightarrow> Info list \<Rightarrow> (Info \<times> bool) list \<times> Recorder" where
  "inodes r [] = ([], r)"
| "inodes r (i # is) = (case inode r i of (x, r') \<Rightarrow> case inodes r' is of (xs, r'') \<Rightarrow> (x # xs, r''))"

definition ikey :: "Info \<Rightarrow> u64 \<times> u64" where
  "ikey i = (Dev i, Ino i)"

text \<open>The numbers a recorder holds are below the next one and distinct.\<close>

definition rec_inv :: "Recorder \<Rightarrow> nat \<Rightarrow> bool" where
  "rec_inv r n \<longleftrightarrow> unat (inumber r) + n < 2 ^ 64 \<and>
     (\<forall>d s. inodeMap r d = Some s \<longrightarrow> unat (Ino s) < unat (inumber r)) \<and>
     (\<forall>d e s s'. inodeMap r d = Some s \<longrightarrow> inodeMap r e = Some s' \<longrightarrow> Ino s = Ino s' \<longrightarrow> d = e)"

lemma inode_step:
  assumes "rec_inv r (Suc n)" "inode r i = ((i', hard), r')"
  shows "rec_inv r' n" "inodeMap r \<subseteq>\<^sub>m inodeMap r'" "\<exists>s. inodeMap r' (ikey i) = Some s \<and> Ino i' = Ino s"
    "dom (inodeMap r') = insert (ikey i) (dom (inodeMap r))"
    "hard \<longleftrightarrow> (\<exists>s. inodeMap r (ikey i) = Some s \<and> IName s \<noteq> IName i)"
    "inodeMap r (ikey i) = None \<Longrightarrow> map_option IName (inodeMap r' (ikey i)) = Some (IName i)"
    "d \<noteq> ikey i \<Longrightarrow> inodeMap r' d = inodeMap r d"
    "i' = i\<lparr>Dev := 0, Ino := Ino i'\<rparr>"
proof -
  note e = assms(2) [unfolded inode_def Let_def, folded ikey_def]
  have u: "unat (inumber r + 1) = unat (inumber r) + 1"
    using assms(1) by (simp add: rec_inv_def unat_word_ariths)
  show "rec_inv r' n"
  proof (cases "inodeMap r (ikey i)")
    case None
    with e have r': "r' = \<lparr>inodeMap = (inodeMap r)(ikey i \<mapsto> i\<lparr>Dev := 0, Ino := inumber r\<rparr>), inumber = inumber r + 1\<rparr>" by auto
    have lt: "unat (Ino s) < unat (inumber r)" if "inodeMap r d = Some s" for d s
      using assms(1) that unfolding rec_inv_def by blast
    have inj: "d = e" if "inodeMap r d = Some s" "inodeMap r e = Some s'" "Ino s = Ino s'" for d e s s'
      using assms(1) that unfolding rec_inv_def by blast
    have le: "unat (inumber r) + Suc n < 2 ^ 64" using assms(1) unfolding rec_inv_def by blast
    have "unat (Ino s) < unat (inumber r) + 1" if "inodeMap r' d = Some s" for d s
      using that lt [of d s] unfolding r' by (auto split: if_splits)
    moreover have "d = e" if "inodeMap r' d = Some s" "inodeMap r' e = Some s'" "Ino s = Ino s'" for d e s s'
      using that lt [of d s] lt [of e s'] inj [of d s e s'] unfolding r' by (auto split: if_splits)
    moreover have "unat (inumber r') = unat (inumber r) + 1" using u unfolding r' by simp
    ultimately show ?thesis using le unfolding rec_inv_def by auto
  next
    case (Some s)
    with e assms(1) show ?thesis by (auto simp: rec_inv_def)
  qed
qed (use assms in \<open>auto simp: inode_def Let_def ikey_def map_le_def split: option.splits\<close>)

lemma inodes_run:
  assumes "rec_inv r (length is)" "inodes r is = (out, r')"
  shows "rec_inv r' 0 \<and> inodeMap r \<subseteq>\<^sub>m inodeMap r' \<and> length out = length is \<and>
    (\<forall>i < length is. \<exists>s. inodeMap r' (ikey (is ! i)) = Some s \<and> Ino (fst (out ! i)) = Ino s \<and>
       fst (out ! i) = (is ! i)\<lparr>Dev := 0, Ino := Ino s\<rparr>)"
  using assms
proof (induction "is" arbitrary: r out)
  case (Cons i "is")
  obtain i' hard r1 xs where s: "inode r i = ((i', hard), r1)" "inodes r1 is = (xs, r')" "out = (i', hard) # xs"
    using Cons.prems(2) by (auto split: prod.splits)
  have inv: "rec_inv r (Suc (length is))" using Cons.prems(1) by simp
  note st = inode_step [OF inv s(1)]
  note ih = Cons.IH [OF st(1) s(2)]
  obtain v where v: "inodeMap r1 (ikey i) = Some v" "Ino i' = Ino v" using st(3) by blast
  have "inodeMap r1 \<subseteq>\<^sub>m inodeMap r'" using ih by blast
  with v(1) have v': "inodeMap r' (ikey i) = Some v" unfolding map_le_def by (metis domI)
  have "inodeMap r \<subseteq>\<^sub>m inodeMap r'" using st(2) ih map_le_trans by blast
  moreover have "\<exists>s. inodeMap r' (ikey ((i # is) ! k)) = Some s \<and> Ino (fst (out ! k)) = Ino s \<and>
      fst (out ! k) = ((i # is) ! k)\<lparr>Dev := 0, Ino := Ino s\<rparr>" if "k < length (i # is)" for k
  proof (cases k)
    case 0
    with v' v(2) st(8) show ?thesis unfolding s(3) by auto
  next
    case (Suc j)
    with that ih show ?thesis unfolding s(3) by auto
  qed
  ultimately show ?case using ih unfolding s(3) by auto
qed auto

text \<open>over the files of one archive, a recorder clears the device and gives two files the same inode
  number exactly when they have the same device and inode.\<close>

theorem Recorder_inodes:
  assumes "length is < 2 ^ 63" "inodes NewRecorder is = (out, r')"
    and "i < length is" "j < length is"
  shows "Dev (fst (out ! i)) = 0 \<and> IName (fst (out ! i)) = IName (is ! i) \<and>
    (Ino (fst (out ! i)) = Ino (fst (out ! j)) \<longleftrightarrow> Dev (is ! i) = Dev (is ! j) \<and> Ino (is ! i) = Ino (is ! j))"
proof -
  have "rec_inv NewRecorder (length is)" using assms(1) by (simp add: rec_inv_def NewRecorder_def)
  note run = inodes_run [OF this assms(2)]
  obtain s where s: "inodeMap r' (ikey (is ! i)) = Some s" "fst (out ! i) = (is ! i)\<lparr>Dev := 0, Ino := Ino s\<rparr>"
    using run assms(3) by blast
  obtain s' where s': "inodeMap r' (ikey (is ! j)) = Some s'" "fst (out ! j) = (is ! j)\<lparr>Dev := 0, Ino := Ino s'\<rparr>"
    using run assms(4) by blast
  have "Ino s = Ino s' \<longleftrightarrow> ikey (is ! i) = ikey (is ! j)"
  proof
    assume "Ino s = Ino s'"
    then show "ikey (is ! i) = ikey (is ! j)" using run s(1) s'(1) unfolding rec_inv_def by blast
  qed (use s(1) s'(1) in simp)
  with s(2) s'(2) show ?thesis by (simp add: ikey_def)
qed

theorem Recorder_inodes_witness:
  "\<exists>out r'. inodes NewRecorder [empty_info ''a'', (empty_info ''b'')\<lparr>Ino := 7\<rparr>, empty_info ''c''] = (out, r') \<and>
     Ino (fst (out ! 0)) = Ino (fst (out ! 2)) \<and> Ino (fst (out ! 0)) \<noteq> Ino (fst (out ! 1))"
proof -
  let ?is = "[empty_info ''a'', (empty_info ''b'')\<lparr>Ino := 7\<rparr>, empty_info ''c'']"
  obtain out r' where e: "inodes NewRecorder ?is = (out, r')" by (rule prod.exhaust)
  have "Ino (fst (out ! 0)) = Ino (fst (out ! 2))" "Ino (fst (out ! 0)) \<noteq> Ino (fst (out ! 1))"
    using Recorder_inodes [OF _ e, of 0 2] Recorder_inodes [OF _ e, of 0 1] by (simp_all add: empty_info_def)
  with e show ?thesis by blast
qed

text \<open>The device number taken apart by \<open>sysInfo\<close> is put together again by \<open>dev\<close>, but the parts are not the
  major and minor numbers when the minor number has more than eight bits.\<close>

lemma rec_dev_sysInfo: "rec_dev (new_record c (sysInfo n s)) = sint (st_rdev s)"
proof -
  have "w AND 0xff = take_bit 8 w" for w :: u64 by (simp add: take_bit_eq_mask mask_eq_exp_minus_1)
  moreover have "push_bit 8 (drop_bit 8 w) OR take_bit 8 w = w" for w :: u64
    by (rule bit_eqI) (auto simp: bit_simps)
  ultimately show ?thesis by (simp add: rec_dev_def new_record_def sysInfo_def)
qed

end
