(* ===== verification/Initramfs.thy ===== *)
theory Initramfs imports CpioFs "HOL-Library.AList" "HOL-Library.List_Lexorder" "HOL-Library.Char_ord" begin

text \<open>
  \<open>pkg/uroot/initramfs\<close>: the set of files and records an initramfs is made of (\<open>files.go\<close>), the archive written
  from it (\<open>archive.go\<close>) and the two formats (\<open>cpio.go\<close>, \<open>dir.go\<close>). The maps of \<open>Files\<close> are association lists;
  the order in which Go visits their keys is a parameter. The host's file system is a parameter, too.
\<close>

section \<open>Files\<close>

datatype initramfs_error =
    IfOS errno
  | IfRel string
  | IfLstat string errno
  | IfExists string
  | IfAbsolute string
  | IfCpio cpio_error
  | IfFormat string
  | IfPathRequired

text \<open>\<open>os.IsNotExist\<close> does not look into the errors made by \<open>fmt.Errorf\<close>.\<close>

definition IsNotExist :: "initramfs_error \<Rightarrow> bool" where
  "IsNotExist e \<longleftrightarrow> e = IfOS ENOENT"

record host =
  h_EvalSymlinks :: "string \<Rightarrow> (errno, string) res"
  h_Lstat :: "string \<Rightarrow> (errno, Stat_t \<times> u32) res"
  h_Readdirnames :: "string \<Rightarrow> (errno, string list) res"
  h_Readlink :: "string \<Rightarrow> (errno, string) res"
  h_Lazy :: "string \<Rightarrow> ReaderAt"

record Files =
  FFiles :: "(string \<times> string) list"
  FRecords :: "(string \<times> Record) list"

definition NewFiles :: Files where
  "NewFiles = \<lparr>FFiles = [], FRecords = []\<rparr>"

definition sortedKeys :: "Files \<Rightarrow> string list" where
  "sortedKeys af = sort (map fst (FFiles af) @ map fst (FRecords af))"

definition adjust_dest :: "string \<Rightarrow> (initramfs_error, string) res" where
  "adjust_dest dest =
     (let d = Clean dest in
      if IsAbs d then (case Rel [slash] d of Some r \<Rightarrow> Ok r | None \<Rightarrow> Err (IfRel d)) else Ok d)"

type_synonym 's add_result = "(initramfs_error, 's) loop_result"

definition children :: "host \<Rightarrow> string \<Rightarrow> (string \<Rightarrow> 's \<Rightarrow> 's add_result) \<Rightarrow> 's \<Rightarrow> 's add_result" where
  "children h dir fn s =
     (case h_Readdirnames h dir of
        Err e \<Rightarrow> Some (Err (IfOS e), s)
      | Panic \<Rightarrow> Some (Panic, s)
      | Ok names \<Rightarrow> for_loop IsNotExist fn names s)"

lemma children_mono [partial_function_mono]:
  fixes B :: "('b \<Rightarrow> 'c option) \<Rightarrow> string \<Rightarrow> 's \<Rightarrow> 's add_result"
  assumes "\<And>nm s. mono_option (\<lambda>f. B f nm s)"
  shows "mono_option (\<lambda>f. children h dir (B f) s)"
  unfolding children_def
proof (cases "h_Readdirnames h dir")
  case (Ok names)
  show "mono_option (\<lambda>f. case h_Readdirnames h dir of Ok names \<Rightarrow> for_loop IsNotExist (B f) names s | Err e \<Rightarrow> Some (Err (IfOS e), s) | Panic \<Rightarrow> Some (Panic, s))"
    unfolding Ok res.case by (rule for_loop_mono) (rule assms)
qed (simp_all add: monotone_def flat_ord_def)

text \<open>A run that never ends (through a loop of symbolic links) is \<open>None\<close>.\<close>

partial_function (option) addFile :: "host \<Rightarrow> bool \<Rightarrow> string \<Rightarrow> string \<Rightarrow> Files \<Rightarrow> Files add_result" where
  "addFile h follow src0 dest0 af =
     (case adjust_dest dest0 of
        Err e \<Rightarrow> Some (Err e, af)
      | Panic \<Rightarrow> Some (Panic, af)
      | Ok dest \<Rightarrow>
          (case if follow then h_EvalSymlinks h (Clean src0) else Ok (Clean src0) of
             Err e \<Rightarrow> Some (Err (IfOS e), af)
           | Panic \<Rightarrow> Some (Panic, af)
           | Ok src \<Rightarrow>
               (case h_Lstat h src of
                  Err e \<Rightarrow> Some (Err (IfLstat src e), af)
                | Panic \<Rightarrow> Some (Panic, af)
                | Ok (st, fm) \<Rightarrow>
                    if fm AND ModeDir \<noteq> 0 then
                      Option.bind (children h src (\<lambda>name. addFile h follow (Join src name) (Join dest name)) af) (\<lambda>r.
                        case r of
                          (Ok u, af') \<Rightarrow> Some (Ok (), af'\<lparr>FFiles := AList.update dest src (FFiles af')\<rparr>)
                        | (Err e, af') \<Rightarrow> Some (Err e, af')
                        | (Panic, af') \<Rightarrow> Some (Panic, af'))
                    else if map_of (FRecords af) dest \<noteq> None then Some (Err (IfExists dest), af)
                    else
                      (case map_of (FFiles af) dest of
                         Some srcFile \<Rightarrow> if src = srcFile then Some (Ok (), af) else Some (Err (IfExists dest), af)
                       | None \<Rightarrow> Some (Ok (), af\<lparr>FFiles := AList.update dest src (FFiles af)\<rparr>)))))"

definition AddFile :: "host \<Rightarrow> string \<Rightarrow> string \<Rightarrow> Files \<Rightarrow> Files add_result" where
  "AddFile h src dest af = addFile h True src dest af"

definition AddFileNoFollow :: "host \<Rightarrow> string \<Rightarrow> string \<Rightarrow> Files \<Rightarrow> Files add_result" where
  "AddFileNoFollow h src dest af = addFile h False src dest af"

definition AddRecord :: "Record \<Rightarrow> Files \<Rightarrow> (initramfs_error, unit) res \<times> Files" where
  "AddRecord r0 af =
     (let n = Clean (IName (RInfo r0)); r = set_name n r0 in
      if IsAbs n then (Err (IfAbsolute n), af)
      else if map_of (FFiles af) n \<noteq> None then (Err (IfExists n), af)
      else
        (case map_of (FRecords af) n of
           Some rr \<Rightarrow> if RInfo rr = RInfo r then (Ok (), af) else (Err (IfExists n), af)
         | None \<Rightarrow> (Ok (), af\<lparr>FRecords := AList.update n r (FRecords af)\<rparr>)))"

definition Contains_file :: "Files \<Rightarrow> string \<Rightarrow> bool" where
  "Contains_file af dest \<longleftrightarrow> map_of (FFiles af) dest \<noteq> None \<or> map_of (FRecords af) dest \<noteq> None"

definition Rename_file :: "string \<Rightarrow> string \<Rightarrow> Files \<Rightarrow> Files" where
  "Rename_file name newname af =
     (let af1 = (case map_of (FFiles af) name of
                   Some src \<Rightarrow> af\<lparr>FFiles := AList.update newname src (AList.delete name (FFiles af))\<rparr>
                 | None \<Rightarrow> af)
      in case map_of (FRecords af1) name of
           Some r \<Rightarrow> af1\<lparr>FRecords := AList.update newname (set_name newname r) (AList.delete name (FRecords af1))\<rparr>
         | None \<Rightarrow> af1)"

text \<open>For an absolute name the parents never end: the parent of \<open>/\<close> is \<open>/\<close>.\<close>

partial_function (option) addParent :: "string \<Rightarrow> Files \<Rightarrow> Files option" where
  "addParent name af =
     (let parent = Dir name in
      if parent = dot then Some af
      else addParent parent (if Contains_file af parent then af else snd (AddRecord (Directory parent 493) af)))"

fun addParents :: "string list \<Rightarrow> Files \<Rightarrow> Files option" where
  "addParents [] af = Some af"
| "addParents (n # ns) af = Option.bind (addParent n af) (addParents ns)"

text \<open>
  \<open>visit\<close> is the order in which the first loop visits the names of the files, and \<open>visit2\<close> what the second
  visits: it adds records to the map it runs over, and Go may or may not visit those.
\<close>

definition fillInParents :: "(string list \<Rightarrow> string list) \<Rightarrow> (string list \<Rightarrow> string list) \<Rightarrow> Files \<Rightarrow> Files option" where
  "fillInParents visit visit2 af =
     Option.bind (addParents (visit (map fst (FFiles af))) af) (\<lambda>af1. addParents (visit2 (map fst (FRecords af1))) af1)"

section \<open>Writing\<close>

definition writeFile :: "host \<Rightarrow> 'w record_writer \<Rightarrow> string \<Rightarrow> string \<Rightarrow> Recorder \<times> 'w \<Rightarrow> (cpio_error, unit) res \<times> Recorder \<times> 'w" where
  "writeFile h wr src dest rw =
     (case rw of (cr, w) \<Rightarrow>
        (case GetRecord (h_Lstat h) (h_Readlink h) (h_Lazy h) cr src of
           (Ok r, cr') \<Rightarrow> (case wr (MakeReproducible (set_name dest r)) w of (x, w') \<Rightarrow> (x, cr', w'))
         | (Err e, cr') \<Rightarrow> (Err e, cr', w)
         | (Panic, cr') \<Rightarrow> (Panic, cr', w)))"

definition write_path :: "host \<Rightarrow> 'w record_writer \<Rightarrow> Files \<Rightarrow> string \<Rightarrow> Recorder \<times> 'w \<Rightarrow> (cpio_error, unit) res \<times> Recorder \<times> 'w" where
  "write_path h wr af path =
     sbind (\<lambda>(cr, w). case map_of (FRecords af) path of
              Some r \<Rightarrow> (case wr r w of (x, w') \<Rightarrow> (x, cr, w'))
            | None \<Rightarrow> (Ok (), cr, w))
       (\<lambda>_ rw. case map_of (FFiles af) path of
              Some src \<Rightarrow> writeFile h wr src path rw
            | None \<Rightarrow> (Ok (), rw))"

fun write_paths :: "host \<Rightarrow> 'w record_writer \<Rightarrow> Files \<Rightarrow> string list \<Rightarrow> Recorder \<times> 'w \<Rightarrow> (cpio_error, unit) res \<times> Recorder \<times> 'w" where
  "write_paths h wr af [] rw = (Ok (), rw)"
| "write_paths h wr af (p # ps) rw = sbind (write_path h wr af p) (\<lambda>_. write_paths h wr af ps) rw"

definition WriteTo ::
    "host \<Rightarrow> (string list \<Rightarrow> string list) \<Rightarrow> (string list \<Rightarrow> string list) \<Rightarrow> 'w record_writer \<Rightarrow> Files \<Rightarrow> 'w
     \<Rightarrow> ((cpio_error, unit) res \<times> 'w) option" where
  "WriteTo h visit visit2 wr af w =
     Option.bind (fillInParents visit visit2 af) (\<lambda>af'.
       case write_paths h wr af' (sortedKeys af') (NewRecorder, w) of (x, cr, w') \<Rightarrow> Some (x, w'))"

section \<open>Archives\<close>

record 'r Opts =
  OFiles :: Files
  OBaseArchive :: "'r option"
  OUseExistingInit :: bool

definition init_name :: string where "init_name = ''init''"
definition inito_name :: string where "inito_name = ''inito''"

definition base_transform :: "bool \<Rightarrow> Record \<Rightarrow> Record" where
  "base_transform rename r =
     MakeReproducible (if rename \<and> IName (RInfo r) = init_name then set_name inito_name r else r)"

text \<open>The base archive is added record by record; an error of \<open>AddRecord\<close> is ignored.\<close>

definition add_base :: "'r record_reader \<Rightarrow> 'r Opts \<Rightarrow> ((cpio_error, unit) res \<times> Files) option" where
  "add_base rd opts =
     (let af = OFiles opts in
      case OBaseArchive opts of
        None \<Rightarrow> Some (Ok (), af)
      | Some r \<Rightarrow>
          (let rename = (\<not> OUseExistingInit opts \<and> Contains_file af init_name);
               af1 = (if OUseExistingInit opts \<and> Contains_file af init_name then Rename_file init_name inito_name af else af)
           in ForEachRecord rd (\<lambda>f s. (Ok (), snd (AddRecord (base_transform rename f) s))) r af1))"

definition Write_initramfs ::
    "host \<Rightarrow> (string list \<Rightarrow> string list) \<Rightarrow> (string list \<Rightarrow> string list) \<Rightarrow> 'r record_reader \<Rightarrow> 'w record_writer \<Rightarrow>
     ('w \<Rightarrow> (cpio_error, unit) res \<times> 'w) \<Rightarrow> 'r Opts \<Rightarrow> 'w \<Rightarrow> ((cpio_error, unit) res \<times> 'w) option" where
  "Write_initramfs h visit visit2 rd wr finish opts w =
     (case add_base rd opts of
        None \<Rightarrow> None
      | Some (Err e, _) \<Rightarrow> Some (Err e, w)
      | Some (Panic, _) \<Rightarrow> Some (Panic, w)
      | Some (Ok u, af) \<Rightarrow>
          (case WriteTo h visit visit2 wr af w of
             Some (Ok u, w') \<Rightarrow> Some (finish w')
           | x \<Rightarrow> x))"

section \<open>Formats\<close>

datatype Archiver = CPIO | DirArchive

definition GetArchiver :: "string \<Rightarrow> (initramfs_error, Archiver) res" where
  "GetArchiver name =
     (case map_of [(''cpio'', CPIO), (''dir'', DirArchive)] name of Some a \<Rightarrow> Ok a | None \<Rightarrow> Err (IfFormat name))"

definition cpio_OpenWriter :: "(string \<Rightarrow> errno option) \<Rightarrow> string \<Rightarrow> (initramfs_error, byte list cwriter DedupWriter) res" where
  "cpio_OpenWriter create path =
     (if path = [] then Err IfPathRequired
      else case create path of Some e \<Rightarrow> Err (IfOS e) | None \<Rightarrow> Ok (newc_Writer []))"

text \<open>The error of closing the file is not looked at.\<close>

definition cpio_Finish :: "'w record_writer \<Rightarrow> 'w \<Rightarrow> (cpio_error, unit) res \<times> 'w" where
  "cpio_Finish wr w = WriteTrailer wr w"

definition IsExist :: "errno \<Rightarrow> bool" where
  "IsExist e \<longleftrightarrow> e = Errno ''EEXIST'' \<or> e = Errno ''ENOTEMPTY''"

definition dir_OpenWriter :: "os \<Rightarrow> (errno, string) res \<Rightarrow> string \<Rightarrow> string os_prog" where
  "dir_OpenWriter w temp path t =
     (if path = [] then
        (case temp of Ok p \<Rightarrow> (Ok p, t) | Err e \<Rightarrow> (Err (ErrOS e), t) | Panic \<Rightarrow> (Panic, t))
      else
        (case sys w (OsStat path) t of
           (Err (ErrOS e), t') \<Rightarrow>
             if IsExist e then (Err (ErrFormat path), t')
             else sbind (sys w (OsMkdirAll path 493)) (\<lambda>_. sreturn path) t'
         | (_, t') \<Rightarrow> sbind (sys w (OsMkdirAll path 493)) (\<lambda>_. sreturn path) t'))"

definition dir_WriteRecord :: "os \<Rightarrow> string \<Rightarrow> Record \<Rightarrow> unit os_prog" where
  "dir_WriteRecord w dir r = CreateFileInRoot w r dir False"

definition dir_Finish :: "unit os_prog" where
  "dir_Finish = sreturn ()"

end
