(* ===== verification/InitramfsProof.thy ===== *)
theory InitramfsProof imports Initramfs begin

text \<open>
  What an initramfs is made of: the names stay relative and clean, every parent directory is in the archive before
  what lies in it, and the archive written can be read back.
\<close>

section \<open>Names\<close>

definition rel_clean :: "string \<Rightarrow> bool" where
  "rel_clean n \<longleftrightarrow> Clean n = n \<and> \<not> IsAbs n"

lemma rel_clean_iff: "rel_clean n \<longleftrightarrow> Normalize n = n"
  by (metis Clean_path_of Normalize_eq cleaned_Normalize(2) rel_clean_def)

lemma rel_clean_Normalize [simp]: "rel_clean (Normalize n)"
  by (simp add: rel_clean_iff Normalize_idem)

lemma adjust_dest_eq: "adjust_dest dest = Ok (Normalize dest)"
proof -
  have "cleaned (Clean dest) = cleaned dest" by simp
  then show ?thesis unfolding adjust_dest_def Let_def by (simp add: Rel_root Normalize_eq) (simp add: Clean_path_of)
qed

lemma rel_clean_path: "rel_clean n \<Longrightarrow> n = path_of False (cleaned n) \<and> normal False (cleaned n)"
  using Clean_path_of [of n] cleaned_normal [of n] by (auto simp: rel_clean_def)

lemma path_rel_clean:
  assumes "normal False cs"
  shows "rel_clean (path_of False cs)" "cleaned (path_of False cs) = cs"
  using Clean_path_normal [OF assms] clean_comps_path(2) [OF assms] by (simp_all add: rel_clean_def)

text \<open>The name of the \<open>k\<close>-th directory above a name.\<close>

definition ancestor :: "nat \<Rightarrow> string \<Rightarrow> string" where
  "ancestor k n = path_of False (take k (cleaned n))"

lemma ancestor_rel_clean:
  assumes "rel_clean n"
  shows "rel_clean (ancestor k n)" "cleaned (ancestor k n) = take k (cleaned n)"
proof -
  have "normal False (take k (cleaned n) @ drop k (cleaned n))" using rel_clean_path [OF assms] by simp
  from path_rel_clean [OF normal_prefix [OF this]]
  show "rel_clean (ancestor k n)" "cleaned (ancestor k n) = take k (cleaned n)" by (simp_all add: ancestor_def)
qed

lemma Dir_ancestor:
  assumes "rel_clean n"
  shows "Dir n = ancestor (length (cleaned n) - 1) n"
proof (cases "cleaned n" rule: rev_cases)
  case Nil
  then have "n = dot" using rel_clean_path [OF assms] by (simp add: path_of_def)
  then show ?thesis by (simp add: Dir_dot ancestor_def path_of_def)
next
  case (snoc cs c)
  then show ?thesis using rel_clean_path [OF assms] Dir_path_of [of cs c] by (simp add: ancestor_def)
qed

lemma dot_iff: "rel_clean n \<Longrightarrow> n = dot \<longleftrightarrow> cleaned n = []"
  using rel_clean_path [of n] by (auto simp: path_of_def)

section \<open>The well-formedness of the maps\<close>

definition keys :: "Files \<Rightarrow> string set" where
  "keys af = fst ` set (FFiles af) \<union> fst ` set (FRecords af)"

definition files_ok :: "Files \<Rightarrow> bool" where
  "files_ok af \<longleftrightarrow> distinct (map fst (FFiles af)) \<and> distinct (map fst (FRecords af)) \<and>
     (\<forall>n \<in> keys af. rel_clean n) \<and> (\<forall>(n, r) \<in> set (FRecords af). IName (RInfo r) = n)"

lemma Contains_keys: "Contains_file af n \<longleftrightarrow> n \<in> keys af"
  by (auto simp: Contains_file_def keys_def map_of_eq_None_iff)

lemma files_ok_New: "files_ok NewFiles"
  by (simp add: files_ok_def NewFiles_def keys_def)

lemma update_keys: "fst ` set (AList.update k v xs) = insert k (fst ` set xs)"
  using dom_update [of k v xs] by simp

lemma files_ok_update:
  assumes "files_ok af" "rel_clean n"
  shows "files_ok (af\<lparr>FFiles := AList.update n s (FFiles af)\<rparr>)"
  using assms distinct_update [of "FFiles af" n s] unfolding files_ok_def keys_def
  by (auto simp: update_keys)

lemma update_in: "x \<in> set (AList.update k v xs) \<Longrightarrow> x = (k, v) \<or> x \<in> set xs"
  by (induction xs) (auto split: if_splits)

lemma files_ok_record:
  assumes "files_ok af" "rel_clean n" "IName (RInfo r) = n"
  shows "files_ok (af\<lparr>FRecords := AList.update n r (FRecords af)\<rparr>)"
  using assms distinct_update [of "FRecords af" n r] unfolding files_ok_def keys_def
  by (auto simp: update_keys dest!: update_in)

lemma children_keeps:
  assumes "children h dir fn s = Some (x, s')" "I s"
    and "\<And>nm s x s'. fn nm s = Some (x, s') \<Longrightarrow> I s \<Longrightarrow> I s'"
  shows "I s'"
  using assms by (auto simp: children_def split: res.splits elim: for_loop_keeps)

lemma addFile_keeps:
  assumes "addFile h follow src dest af = Some (x, af')" "I af"
    and "\<And>af n s. I af \<Longrightarrow> rel_clean n \<Longrightarrow> I (af\<lparr>FFiles := AList.update n s (FFiles af)\<rparr>)"
  shows "I af'"
proof -
  have "I af \<longrightarrow> I (snd (x, af'))"
  proof (rule addFile.raw_induct [OF _ assms(1), where P = "\<lambda>h follow src dest af y. I af \<longrightarrow> I (snd y)"], goal_cases)
    case (1 rec h follow src dest af y)
    let ?fn = "\<lambda>s name. rec h follow (Join s name) (Join (Normalize dest) name)"
    have c: "I t" if "children h s (?fn s) af = Some (x, t)" "I af" for s x t
      using that
    proof (rule children_keeps)
      fix nm sa x s'
      assume f: "?fn s nm sa = Some (x, s')" and i: "I sa"
      show "I s'" using 1(1) [OF f] i by simp
    qed
    show ?case
    proof
      assume i: "I af"
      show "I (snd y)"
        using 1(2) i c assms(3)
        by (auto simp: adjust_dest_eq split: res.splits prod.splits if_splits option.splits bind_splits)
    qed
  qed
  with assms(1,2) show ?thesis by fastforce
qed


lemma AddRecord_keeps:
  assumes "files_ok af"
  shows "files_ok (snd (AddRecord r af))"
proof -
  have "IsAbs (Clean n) \<or> rel_clean (Clean n)" for n by (simp add: rel_clean_def Clean_idem)
  then show ?thesis
    using assms by (auto simp: AddRecord_def Let_def set_name_def split: option.splits intro!: files_ok_record)
qed

lemma delete_in: "x \<in> set (AList.delete k xs) \<Longrightarrow> x \<in> set xs"
  by (auto simp: AList.delete_eq)

lemma files_ok_subset:
  assumes "files_ok af" "set (FFiles af') \<subseteq> set (FFiles af)" "set (FRecords af') \<subseteq> set (FRecords af)"
    "distinct (map fst (FFiles af'))" "distinct (map fst (FRecords af'))"
  shows "files_ok af'"
proof -
  have "keys af' \<subseteq> keys af" using assms(2,3) unfolding keys_def by blast
  then show ?thesis using assms unfolding files_ok_def by blast
qed

lemma Rename_keeps:
  assumes "files_ok af" "rel_clean newname"
  shows "files_ok (Rename_file name newname af)"
proof -
  have f: "files_ok (a\<lparr>FFiles := AList.update newname s (AList.delete name (FFiles a))\<rparr>)" if "files_ok a" for a s
  proof -
    have "files_ok (a\<lparr>FFiles := AList.delete name (FFiles a)\<rparr>)"
      using that by (intro files_ok_subset [OF that]) (auto simp: files_ok_def distinct_delete dest: delete_in)
    from files_ok_update [OF this assms(2), of s] show ?thesis by simp
  qed
  have r: "files_ok (a\<lparr>FRecords := AList.update newname (set_name newname q) (AList.delete name (FRecords a))\<rparr>)" if "files_ok a" for a q
  proof -
    have "files_ok (a\<lparr>FRecords := AList.delete name (FRecords a)\<rparr>)"
      using that by (intro files_ok_subset [OF that]) (auto simp: files_ok_def distinct_delete dest: delete_in)
    from files_ok_record [OF this assms(2), of "set_name newname q"] show ?thesis by (simp add: set_name_def)
  qed
  define af1 where "af1 = (case map_of (FFiles af) name of
      Some src \<Rightarrow> af\<lparr>FFiles := AList.update newname src (AList.delete name (FFiles af))\<rparr> | None \<Rightarrow> af)"
  have "files_ok af1" unfolding af1_def using assms(1) f by (cases "map_of (FFiles af) name") simp_all
  then have "files_ok (case map_of (FRecords af1) name of
      Some q \<Rightarrow> af1\<lparr>FRecords := AList.update newname (set_name newname q) (AList.delete name (FRecords af1))\<rparr> | None \<Rightarrow> af1)"
    using r by (cases "map_of (FRecords af1) name") simp_all
  then show ?thesis unfolding Rename_file_def Let_def af1_def .
qed

section \<open>Parents\<close>

lemma Contains_add_parent:
  assumes "rel_clean p" "\<not> Contains_file af p"
  shows "snd (AddRecord (Directory p 493) af) = af\<lparr>FRecords := FRecords af @ [(p, Directory p 493)]\<rparr>"
proof -
  have n: "p \<notin> fst ` set (FFiles af)" "p \<notin> fst ` set (FRecords af)" using assms(2) by (simp_all add: Contains_keys keys_def)
  have "p \<notin> fst ` set xs \<Longrightarrow> AList.update p r xs = xs @ [(p, r)]" for r :: Record and xs
    by (induction xs) auto
  then have u: "AList.update p r (FRecords af) = FRecords af @ [(p, r)]" for r using n(2) by blast
  have "Clean (IName (RInfo (Directory p 493))) = p" "set_name p (Directory p 493) = Directory p 493"
    using assms(1) by (simp_all add: rel_clean_def Directory_def new_record_def empty_info_def set_name_def)
  then show ?thesis using n assms(1) u by (simp add: AddRecord_def Let_def rel_clean_def map_of_eq_None_iff [THEN iffD2])
qed

text \<open>What \<open>addParent\<close> adds: only directories above the name, and all of them.\<close>

definition adds :: "string \<Rightarrow> Files \<Rightarrow> Files \<Rightarrow> bool" where
  "adds n af af' \<longleftrightarrow> files_ok af' \<and> FFiles af' = FFiles af \<and>
     (\<exists>ps. FRecords af' = FRecords af @ map (\<lambda>p. (p, Directory p 493)) ps \<and>
       (\<forall>p \<in> set ps. p \<notin> keys af \<and> (\<exists>k. 0 < k \<and> k < length (cleaned n) \<and> p = ancestor k n))) \<and>
     (\<forall>k. 0 < k \<longrightarrow> k < length (cleaned n) \<longrightarrow> Contains_file af' (ancestor k n))"

lemma addParent_ends:
  assumes "files_ok af" "rel_clean n"
  shows "\<exists>af'. addParent n af = Some af' \<and> adds n af af'"
  using assms
proof (induction "length (cleaned n)" arbitrary: n af rule: less_induct)
  case less
  let ?l = "length (cleaned n)" and ?p = "Dir n"
  have p: "?p = ancestor (?l - 1) n" "rel_clean ?p" "cleaned ?p = take (?l - 1) (cleaned n)"
    using Dir_ancestor [OF less.prems(2)] ancestor_rel_clean [OF less.prems(2)] by simp_all
  show ?case
  proof (cases "?p = dot")
    case True
    then have "take (?l - 1) (cleaned n) = []" using p dot_iff by metis
    then have "?l \<le> 1" by (cases "cleaned n") auto
    with True less.prems(1) show ?thesis by (subst addParent.simps) (auto simp: adds_def)
  next
    case False
    then have l: "1 < ?l" using p dot_iff [OF p(2)] by (cases "cleaned n") auto
    define af1 where "af1 = (if Contains_file af ?p then af else snd (AddRecord (Directory ?p 493) af))"
    have ok: "files_ok af1" using less.prems(1) AddRecord_keeps by (simp add: af1_def)
    have af1: "FFiles af1 = FFiles af" "\<exists>ps. FRecords af1 = FRecords af @ map (\<lambda>p. (p, Directory p 493)) ps \<and> set ps \<subseteq> {?p} - keys af"
      using Contains_add_parent [OF p(2)] by (auto simp: af1_def Contains_keys intro: exI [of _ "[]"] exI [of _ "[Dir n]"])
    have c: "Contains_file af1 ?p"
      using Contains_add_parent [OF p(2)] by (auto simp: af1_def Contains_keys keys_def)
    have "length (cleaned ?p) < ?l" using l p(3) by simp
    from less.hyps [OF this ok p(2)] obtain af' where r: "addParent ?p af1 = Some af'" "adds ?p af1 af'" by blast
    have a: "ancestor k ?p = ancestor k n" if "k \<le> ?l - 1" for k using that p(3) by (simp add: ancestor_def min_def)
    have sub: "keys af1 \<subseteq> keys af'" using r(2) by (auto simp: adds_def keys_def)
    have "adds n af af'"
    proof -
      obtain ps1 ps2 where ps: "FRecords af1 = FRecords af @ map (\<lambda>p. (p, Directory p 493)) ps1" "set ps1 \<subseteq> {?p} - keys af"
        "FRecords af' = FRecords af1 @ map (\<lambda>p. (p, Directory p 493)) ps2"
        "\<forall>p \<in> set ps2. p \<notin> keys af1 \<and> (\<exists>k. 0 < k \<and> k < length (cleaned ?p) \<and> p = ancestor k ?p)"
        using af1(2) r(2) unfolding adds_def by blast
      have sub1: "keys af \<subseteq> keys af1" using af1 by (auto simp: keys_def)
      have q: "q \<notin> keys af \<and> (\<exists>k. 0 < k \<and> k < ?l \<and> q = ancestor k n)" if "q \<in> set (ps1 @ ps2)" for q
      proof (cases "q \<in> set ps1")
        case True
        then show ?thesis using ps(2) p(1) l by (intro conjI exI [of _ "?l - 1"]) auto
      next
        case False
        then obtain k where "0 < k" "k < length (cleaned ?p)" "q = ancestor k ?p" "q \<notin> keys af1" using ps(4) \<open>q \<in> set (ps1 @ ps2)\<close> by auto
        then show ?thesis using a [of k] p(3) l sub1 by (intro conjI exI [of _ k]) auto
      qed
      have rs: "FRecords af' = FRecords af @ map (\<lambda>p. (p, Directory p 493)) (ps1 @ ps2)" using ps by simp
      have k: "Contains_file af' (ancestor k n)" if "0 < k" "k < ?l" for k
      proof (cases "k = ?l - 1")
        case True
        then show ?thesis using c sub p(1) by (auto simp: Contains_keys)
      next
        case False
        then have k: "k \<le> ?l - 1" "k < length (cleaned ?p)" using that p(3) by auto
        then have "Contains_file af' (ancestor k ?p)" using r(2) that(1) unfolding adds_def by blast
        then show ?thesis using a [OF k(1)] by simp
      qed
      have "files_ok af'" "FFiles af' = FFiles af" using r(2) af1(1) by (simp_all add: adds_def)
      then show ?thesis
        unfolding adds_def using q rs k by (intro conjI exI [of _ "ps1 @ ps2"]) blast+
    qed
    moreover have "addParent n af = Some af'" using False r(1) by (subst addParent.simps) (simp add: af1_def)
    ultimately show ?thesis by blast
  qed
qed

definition has_parents :: "Files \<Rightarrow> string \<Rightarrow> bool" where
  "has_parents af n \<longleftrightarrow> (\<forall>k. 0 < k \<longrightarrow> k < length (cleaned n) \<longrightarrow> Contains_file af (ancestor k n))"

definition above :: "string \<Rightarrow> string set \<Rightarrow> bool" where
  "above p ns \<longleftrightarrow> (\<exists>n \<in> ns. \<exists>k. 0 < k \<and> k < length (cleaned n) \<and> p = ancestor k n)"

text \<open>The directories in \<open>ps\<close> were added behind the records.\<close>

definition adds_dirs :: "string list \<Rightarrow> Files \<Rightarrow> Files \<Rightarrow> bool" where
  "adds_dirs ps af af' \<longleftrightarrow> files_ok af' \<and> FFiles af' = FFiles af \<and>
     FRecords af' = FRecords af @ map (\<lambda>p. (p, Directory p 493)) ps \<and> set ps \<inter> keys af = {}"

lemma adds_dirs_keys: "adds_dirs ps af af' \<Longrightarrow> keys af' = keys af \<union> set ps"
  by (simp add: adds_dirs_def keys_def image_Un image_image Un_assoc)

lemma adds_dirs_trans: "adds_dirs ps a b \<Longrightarrow> adds_dirs qs b c \<Longrightarrow> adds_dirs (ps @ qs) a c"
  using adds_dirs_keys [of ps a b] by (auto simp: adds_dirs_def)

lemma has_parents_mono: "has_parents af n \<Longrightarrow> keys af \<subseteq> keys af' \<Longrightarrow> has_parents af' n"
  unfolding has_parents_def Contains_keys by blast

lemma above_mono: "above p ns \<Longrightarrow> ns \<subseteq> ms \<Longrightarrow> above p ms"
  unfolding above_def by blast

lemma above_rel_clean: "above p ns \<Longrightarrow> (\<forall>n \<in> ns. rel_clean n) \<Longrightarrow> rel_clean p"
  unfolding above_def using ancestor_rel_clean(1) by blast

lemma ancestor_ancestor: "rel_clean n \<Longrightarrow> j \<le> k \<Longrightarrow> ancestor j (ancestor k n) = ancestor j n"
  using ancestor_rel_clean(2) [of n k] by (simp add: ancestor_def min_absorb1)

lemma above_above:
  assumes "above p (ns \<union> {q. above q ns})" "\<forall>n \<in> ns. rel_clean n"
  shows "above p ns"
proof -
  obtain m k where m: "m \<in> ns \<or> above m ns" "0 < k" "k < length (cleaned m)" "p = ancestor k m"
    using assms(1) unfolding above_def by blast
  show ?thesis
  proof (cases "m \<in> ns")
    case False
    then obtain n j where n: "n \<in> ns" "j < length (cleaned n)" "m = ancestor j n" using m(1) unfolding above_def by blast
    have "k < j" using m(3) n(2) ancestor_rel_clean(2) [of n j] assms(2) n(1,3) by simp
    then have "p = ancestor k n" using ancestor_ancestor [of n k j] assms(2) n(1,3) m(4) by simp
    then show ?thesis using n \<open>k < j\<close> m(2) unfolding above_def by (intro bexI [of _ n] exI [of _ k]) simp_all
  qed (use m in \<open>unfold above_def; blast\<close>)
qed

lemma addParents_ends:
  assumes "files_ok af" "\<forall>n \<in> set ns. rel_clean n"
  shows "\<exists>af' ps. addParents ns af = Some af' \<and> adds_dirs ps af af' \<and> (\<forall>p \<in> set ps. above p (set ns)) \<and>
    (\<forall>n \<in> set ns. has_parents af' n)"
  using assms
proof (induction ns arbitrary: af)
  case Nil
  then show ?case by (simp add: adds_dirs_def)
next
  case (Cons n ns)
  obtain a where a: "addParent n af = Some a" "adds n af a" using addParent_ends [OF Cons.prems(1)] Cons.prems(2) by auto
  obtain ps where ps0: "FRecords a = FRecords af @ map (\<lambda>p. (p, Directory p 493)) ps"
      "\<forall>p \<in> set ps. p \<notin> keys af \<and> (\<exists>k. 0 < k \<and> k < length (cleaned n) \<and> p = ancestor k n)"
    using a(2) unfolding adds_def by blast
  have ps: "adds_dirs ps af a" "\<forall>p \<in> set ps. above p {n}" "has_parents a n"
    using a(2) ps0 by (auto simp: adds_def adds_dirs_def has_parents_def above_def)
  have "files_ok a" using ps(1) by (simp add: adds_dirs_def)
  from Cons.IH [OF this] Cons.prems(2) obtain af' qs where
    r: "addParents ns a = Some af'" "adds_dirs qs a af'" "\<forall>p \<in> set qs. above p (set ns)" "\<forall>n \<in> set ns. has_parents af' n" by auto
  have "has_parents af' n" using has_parents_mono [OF ps(3)] adds_dirs_keys [OF r(2)] by blast
  moreover have "\<forall>p \<in> set (ps @ qs). above p (set (n # ns))" using ps(2) r(3) by (auto elim!: above_mono)
  ultimately show ?case using a(1) r(1,4) adds_dirs_trans [OF ps(1) r(2)]
    by (intro exI [of _ af'] exI [of _ "ps @ qs"]) simp
qed

text \<open>
  What Go promises of a loop over a map: it visits every entry there was at the start; of the entries added
  meanwhile it may visit any. Those are directories above names that were there.
\<close>

definition visits :: "(string list \<Rightarrow> string list) \<Rightarrow> bool" where
  "visits visit \<longleftrightarrow> (\<forall>ns. set ns \<subseteq> set (visit ns) \<and> (\<forall>v \<in> set (visit ns). v \<in> set ns \<or> above v (set ns)))"

lemma fillInParents_ends:
  assumes "files_ok af" "visits visit" "visits visit2"
  shows "\<exists>af' ps. fillInParents visit visit2 af = Some af' \<and> adds_dirs ps af af' \<and> (\<forall>p \<in> set ps. above p (keys af)) \<and>
    (\<forall>n \<in> keys af'. has_parents af' n)"
proof -
  have rc: "\<forall>n \<in> keys af. rel_clean n" using assms(1) by (simp add: files_ok_def)
  have vs: "\<forall>v \<in> set (v ns). v \<in> set ns \<or> above v (set ns)" "set ns \<subseteq> set (v ns)" if "visits v" for v ns
    using that unfolding visits_def by blast+
  let ?n1 = "map fst (FFiles af)"
  have k1: "set ?n1 \<subseteq> keys af" by (simp add: keys_def)
  have "\<forall>n \<in> set (visit ?n1). rel_clean n" using vs(1) [OF assms(2)] rc k1 above_rel_clean by (metis subsetD)
  from addParents_ends [OF assms(1) this] obtain a ps where a: "addParents (visit ?n1) af = Some a" "adds_dirs ps af a"
    "\<forall>p \<in> set ps. above p (set (visit ?n1))" "\<forall>n \<in> set (visit ?n1). has_parents a n" by blast
  have ps: "\<forall>p \<in> set ps. above p (keys af)"
  proof
    fix p assume "p \<in> set ps"
    then have "above p (set (visit ?n1))" using a(3) by blast
    then have "above p (keys af \<union> {q. above q (keys af)})"
      by (rule above_mono) (use vs(1) [OF assms(2), of ?n1] k1 above_mono in blast)
    then show "above p (keys af)" using above_above rc by blast
  qed
  let ?n2 = "map fst (FRecords a)"
  have ok: "files_ok a" using a(2) by (simp add: adds_dirs_def)
  have rca: "\<forall>n \<in> keys a. rel_clean n" using ok by (simp add: files_ok_def)
  have k2: "set ?n2 \<subseteq> keys a" by (simp add: keys_def)
  have "\<forall>n \<in> set (visit2 ?n2). rel_clean n" using vs(1) [OF assms(3)] rca k2 above_rel_clean by (metis subsetD)
  from addParents_ends [OF ok this] obtain af' qs where r: "addParents (visit2 ?n2) a = Some af'" "adds_dirs qs a af'"
    "\<forall>p \<in> set qs. above p (set (visit2 ?n2))" "\<forall>n \<in> set (visit2 ?n2). has_parents af' n" by blast
  have ka: "keys a = keys af \<union> set ps" using adds_dirs_keys [OF a(2)] .
  have qs: "\<forall>p \<in> set qs. above p (keys af)"
  proof
    fix p assume "p \<in> set qs"
    then have "above p (set (visit2 ?n2))" using r(3) by blast
    then have "above p (keys a \<union> {q. above q (keys a)})"
      by (rule above_mono) (use vs(1) [OF assms(3), of ?n2] k2 above_mono in blast)
    then have "above p (keys a)" using above_above rca by blast
    then have "above p (keys af \<union> {q. above q (keys af)})" by (rule above_mono) (use ka ps in auto)
    then show "above p (keys af)" using above_above rc by blast
  qed
  have k': "keys af' = keys af \<union> set (ps @ qs)" using adds_dirs_keys [OF adds_dirs_trans [OF a(2) r(2)]] .
  have old: "has_parents af' n" if "n \<in> keys af" for n
  proof (cases "n \<in> set ?n1")
    case True
    then have "has_parents a n" using vs(2) [OF assms(2)] a(4) by blast
    then show ?thesis by (rule has_parents_mono) (use adds_dirs_keys [OF r(2)] in blast)
  next
    case False
    then have "n \<in> set ?n2" using that a(2) by (auto simp: keys_def adds_dirs_def)
    then show ?thesis using vs(2) [OF assms(3)] r(4) by blast
  qed
  have new: "has_parents af' p" if ap: "above p (keys af)" for p
  proof -
    obtain n k where n: "n \<in> keys af" "k < length (cleaned n)" "p = ancestor k n" using ap unfolding above_def by blast
    have l: "length (cleaned p) = k" using ancestor_rel_clean(2) [of n k] rc n by simp
    have "Contains_file af' (ancestor j p)" if "0 < j" "j < k" for j
      using old [OF n(1)] that n ancestor_ancestor [of n j k] rc unfolding has_parents_def by simp
    then show ?thesis unfolding has_parents_def l by blast
  qed
  have "\<forall>n \<in> keys af'. has_parents af' n" using old new k' ps qs by auto
  moreover have "fillInParents visit visit2 af = Some af'" using a(1) r(1) by (simp add: fillInParents_def)
  ultimately show ?thesis using adds_dirs_trans [OF a(2) r(2)] ps qs by (intro exI [of _ af'] exI [of _ "ps @ qs"]) auto
qed

section \<open>The order of the archive\<close>

abbreviation name_of :: "Record \<Rightarrow> string" where
  "name_of r \<equiv> IName (RInfo r)"

lemma join_append: "xs \<noteq> [] \<Longrightarrow> ys \<noteq> [] \<Longrightarrow> join_with sep (xs @ ys) = join_with sep xs @ sep @ join_with sep ys"
proof (induction xs rule: induct_list012)
  case (2 x)
  then show ?case by (cases ys) simp_all
qed simp_all

lemma ancestor_less:
  assumes "rel_clean n" "0 < k" "k < length (cleaned n)"
  shows "ancestor k n < n"
proof -
  let ?t = "take k (cleaned n)" and ?d = "drop k (cleaned n)"
  have ne: "?t \<noteq> []" "?d \<noteq> []" using assms(2,3) by auto
  have "n = path_of False (?t @ ?d)" using rel_clean_path [OF assms(1)] by simp
  then have "n = ancestor k n @ slash # join_with [slash] ?d"
    using ne join_append [OF ne, of "[slash]"] by (auto simp: ancestor_def path_of_def)
  then show ?thesis unfolding list_less_def by (metis lexord_append_rightI)
qed

text \<open>A path is written once for a record and once for a file.\<close>

definition entries :: "Files \<Rightarrow> string \<Rightarrow> string list" where
  "entries af p = (if p \<in> fst ` set (FRecords af) then [p] else []) @ (if p \<in> fst ` set (FFiles af) then [p] else [])"

lemma WriteRecords_append:
  "WriteRecords wr (xs @ ys) w = (Ok (), w') \<longleftrightarrow> (\<exists>w1. WriteRecords wr xs w = (Ok (), w1) \<and> WriteRecords wr ys w1 = (Ok (), w'))"
proof (induction xs arbitrary: w)
  case (Cons x xs)
  obtain r v where w: "wr x w = (r, v)" by fastforce
  then show ?case using Cons.IH by (cases r) simp_all
qed simp

lemma write_path_log:
  assumes "files_ok af" "rel_clean p" "write_path h log_writer af p (cr, out) = (Ok (), cr', out')"
  shows "\<exists>rs. out' = out @ rs \<and> map name_of rs = entries af p \<and>
    (\<forall>(wr :: 'w record_writer) w w'. WriteRecords wr rs w = (Ok (), w') \<longrightarrow> write_path h wr af p (cr, w) = (Ok (), cr', w'))"
proof -
  have recs: "p \<in> fst ` set (FRecords af) \<longleftrightarrow> map_of (FRecords af) p \<noteq> None" "p \<in> fst ` set (FFiles af) \<longleftrightarrow> map_of (FFiles af) p \<noteq> None"
    by (simp_all add: map_of_eq_None_iff)
  have nm: "name_of r = p" if "map_of (FRecords af) p = Some r" for r
    using map_of_SomeD [OF that] assms(1) by (auto simp: files_ok_def)
  have p: "Normalize p = p" using assms(2) by (simp add: rel_clean_iff)
  define rs1 where "rs1 = (case map_of (FRecords af) p of Some r \<Rightarrow> [r] | None \<Rightarrow> [])"
  have n1: "map name_of rs1 = (if p \<in> fst ` set (FRecords af) then [p] else [])"
    using nm unfolding recs rs1_def by (cases "map_of (FRecords af) p") simp_all
  show ?thesis
  proof (cases "map_of (FFiles af) p")
    case None
    then have "out' = out @ rs1 \<and> cr' = cr" using assms(3)
      by (auto simp: write_path_def sbind_def log_writer_def rs1_def split: option.splits)
    moreover have "write_path h wr af p (cr, w) = (Ok (), cr, w')" if "WriteRecords wr rs1 w = (Ok (), w')" for wr :: "'w record_writer" and w w'
      using that None by (auto simp: write_path_def sbind_def rs1_def split: option.splits prod.splits res.splits)
    ultimately show ?thesis using n1 None unfolding entries_def recs by (intro exI [of _ rs1]) simp
  next
    case (Some src)
    then obtain q where g: "GetRecord (h_Lstat h) (h_Readlink h) (h_Lazy h) cr src = (Ok q, cr')"
      and o: "out' = (out @ rs1) @ [MakeReproducible (set_name p q)]" using assms(3)
      by (auto simp: write_path_def writeFile_def sbind_def log_writer_def rs1_def split: option.splits prod.splits res.splits)
    have "name_of (MakeReproducible (set_name p q)) = p" using p by (simp add: MakeReproducible_def set_name_def)
    moreover have "write_path h wr af p (cr, w) = (Ok (), cr', w')"
      if "WriteRecords wr (rs1 @ [MakeReproducible (set_name p q)]) w = (Ok (), w')" for wr :: "'w record_writer" and w w'
      using that Some g by (auto simp: write_path_def writeFile_def sbind_def rs1_def split: option.splits prod.splits res.splits)
    ultimately show ?thesis using n1 Some o unfolding entries_def recs
      by (intro exI [of _ "rs1 @ [MakeReproducible (set_name p q)]"]) simp
  qed
qed

lemma write_paths_log:
  assumes "files_ok af" "\<forall>p \<in> set ps. rel_clean p" "write_paths h log_writer af ps (cr, out) = (Ok (), cr', out')"
  shows "\<exists>rs. out' = out @ rs \<and> map name_of rs = concat (map (entries af) ps) \<and>
    (\<forall>(wr :: 'w record_writer) w w'. WriteRecords wr rs w = (Ok (), w') \<longrightarrow> write_paths h wr af ps (cr, w) = (Ok (), cr', w'))"
  using assms(2,3)
proof (induction ps arbitrary: cr out)
  case (Cons p ps)
  then obtain c1 o1 where s: "write_path h log_writer af p (cr, out) = (Ok (), c1, o1)" "write_paths h log_writer af ps (c1, o1) = (Ok (), cr', out')"
    by (auto simp: sbind_eq_Ok)
  from write_path_log [OF assms(1) _ s(1)] Cons.prems(1) obtain rs1 where r1: "o1 = out @ rs1" "map name_of rs1 = entries af p"
    "\<forall>(wr :: 'w record_writer) w w'. WriteRecords wr rs1 w = (Ok (), w') \<longrightarrow> write_path h wr af p (cr, w) = (Ok (), c1, w')" by auto
  from Cons.IH [OF _ s(2)] Cons.prems(1) obtain rs2 where r2: "out' = o1 @ rs2" "map name_of rs2 = concat (map (entries af) ps)"
    "\<forall>(wr :: 'w record_writer) w w'. WriteRecords wr rs2 w = (Ok (), w') \<longrightarrow> write_paths h wr af ps (c1, w) = (Ok (), cr', w')" by auto
  have "write_paths h wr af (p # ps) (cr, w) = (Ok (), cr', w')" if "WriteRecords wr (rs1 @ rs2) w = (Ok (), w')" for wr :: "'w record_writer" and w w'
    using that r1(3) r2(3) unfolding WriteRecords_append by (auto simp: sbind_eq_Ok)
  then show ?case using r1(1,2) r2(1,2) by (intro exI [of _ "rs1 @ rs2"]) simp
qed simp

text \<open>What is written, whatever the writer.\<close>

lemma WriteTo_log:
  assumes "files_ok af" "visits visit" "visits visit2" "WriteTo h visit visit2 log_writer af [] = Some (Ok (), rs)"
  shows "\<exists>af' ps. adds_dirs ps af af' \<and> (\<forall>p \<in> set ps. above p (keys af)) \<and> (\<forall>n \<in> keys af'. has_parents af' n) \<and>
    map name_of rs = concat (map (entries af') (sortedKeys af')) \<and>
    (\<forall>(wr :: 'w record_writer) w w'. WriteRecords wr rs w = (Ok (), w') \<longrightarrow> WriteTo h visit visit2 wr af w = Some (Ok (), w'))"
proof -
  obtain af' ps where f: "fillInParents visit visit2 af = Some af'" "adds_dirs ps af af'" "\<forall>p \<in> set ps. above p (keys af)"
    "\<forall>n \<in> keys af'. has_parents af' n" using fillInParents_ends [OF assms(1-3)] by blast
  obtain cr where w: "write_paths h log_writer af' (sortedKeys af') (NewRecorder, []) = (Ok (), cr, rs)"
    using assms(4) f(1) by (auto simp: WriteTo_def split: prod.splits)
  have ok: "files_ok af'" using f(2) by (simp add: adds_dirs_def)
  then have "\<forall>p \<in> set (sortedKeys af'). rel_clean p" by (auto simp: files_ok_def sortedKeys_def keys_def)
  from write_paths_log [OF ok this w] obtain rs' where r: "rs = rs'" "map name_of rs' = concat (map (entries af') (sortedKeys af'))"
    "\<forall>(wr :: 'w record_writer) w w'. WriteRecords wr rs' w = (Ok (), w') \<longrightarrow> write_paths h wr af' (sortedKeys af') (NewRecorder, w) = (Ok (), cr, w')" by auto
  have "WriteTo h visit visit2 wr af w = Some (Ok (), w')" if "WriteRecords wr rs w = (Ok (), w')" for wr :: "'w record_writer" and w w'
    using that r f(1) by (simp add: WriteTo_def)
  then show ?thesis using f(2-4) r(1,2) by blast
qed

lemma sorted_concat_entries: "sorted ps \<Longrightarrow> sorted (concat (map (entries af) ps))"
  by (induction ps) (auto simp: sorted_append entries_def)

section \<open>Properties\<close>

text \<open>C20: the names in the maps stay relative and clean and every record keeps the name it is stored under, whatever
  files, records and new names are added.\<close>

theorem Files_names:
  assumes "files_ok af"
  shows "(\<forall>h src dest x af'. AddFile h src dest af = Some (x, af') \<longrightarrow> files_ok af') \<and>
    (\<forall>h src dest x af'. AddFileNoFollow h src dest af = Some (x, af') \<longrightarrow> files_ok af') \<and>
    (\<forall>r. files_ok (snd (AddRecord r af))) \<and>
    (\<forall>name newname. Clean newname = newname \<and> \<not> IsAbs newname \<longrightarrow> files_ok (Rename_file name newname af)) \<and>
    (\<forall>visit visit2. visits visit \<and> visits visit2 \<longrightarrow> (\<exists>af'. fillInParents visit visit2 af = Some af' \<and> files_ok af'))"
proof (intro conjI allI impI)
  fix h src dest x af'
  show "files_ok af'" if "AddFile h src dest af = Some (x, af')"
    by (rule addFile_keeps [where I = files_ok, OF that [unfolded AddFile_def] assms]) (rule files_ok_update)
  show "files_ok af'" if "AddFileNoFollow h src dest af = Some (x, af')"
    by (rule addFile_keeps [where I = files_ok, OF that [unfolded AddFileNoFollow_def] assms]) (rule files_ok_update)
next
  show "files_ok (snd (AddRecord r af))" for r using AddRecord_keeps [OF assms] .
  show "files_ok (Rename_file name newname af)" if "Clean newname = newname \<and> \<not> IsAbs newname" for name newname
    using Rename_keeps [OF assms] that by (simp add: rel_clean_def)
  show "\<exists>af'. fillInParents visit visit2 af = Some af' \<and> files_ok af'" if "visits visit \<and> visits visit2" for visit visit2
    using fillInParents_ends [OF assms] that unfolding adds_dirs_def by blast
qed

text \<open>C18: in the archive the names are sorted, every name of the maps is there, the directory above an entry comes
  before it, and no name comes twice unless it is in both maps.\<close>

theorem WriteTo_parents_first:
  assumes "files_ok af" "visits visit" "visits visit2" "WriteTo h visit visit2 log_writer af [] = Some (Ok (), rs)"
  shows "sorted (map name_of rs) \<and> keys af \<subseteq> name_of ` set rs \<and>
    (\<forall>i < length rs. Dir (name_of (rs ! i)) = dot \<or> (\<exists>j < i. name_of (rs ! j) = Dir (name_of (rs ! i)))) \<and>
    (fst ` set (FFiles af) \<inter> fst ` set (FRecords af) = {} \<longrightarrow> distinct (map name_of rs))"
proof -
  obtain af' ps where f: "adds_dirs ps af af'" "\<forall>p \<in> set ps. above p (keys af)" "\<forall>n \<in> keys af'. has_parents af' n"
    and n: "map name_of rs = concat (map (entries af') (sortedKeys af'))"
    using WriteTo_log [OF assms] by blast
  have ok: "files_ok af'" using f(1) by (simp add: adds_dirs_def)
  have sk: "set (sortedKeys af') = keys af'" by (auto simp: sortedKeys_def keys_def)
  have names: "name_of ` set rs = keys af'"
    unfolding set_map [symmetric] n using sk by (auto simp: entries_def keys_def)
  have sorted: "sorted (map name_of rs)"
    unfolding n by (rule sorted_concat_entries) (simp add: sortedKeys_def)
  have before: "Dir (name_of (rs ! i)) = dot \<or> (\<exists>j < i. name_of (rs ! j) = Dir (name_of (rs ! i)))" if i: "i < length rs" for i
  proof -
    let ?n = "name_of (rs ! i)" and ?k = "length (cleaned (name_of (rs ! i))) - 1"
    have k: "?n \<in> keys af'" using i names by (metis image_eqI nth_mem)
    then have rc: "rel_clean ?n" using ok by (simp add: files_ok_def)
    show ?thesis
    proof (cases "0 < ?k")
      case False
      then show ?thesis using Dir_ancestor [OF rc] by (simp add: ancestor_def path_of_def)
    next
      case True
      then have "Contains_file af' (Dir ?n)" using f(3) k Dir_ancestor [OF rc] by (auto simp: has_parents_def)
      then have "Dir ?n \<in> name_of ` set rs" using names by (simp add: Contains_keys)
      then obtain r where "r \<in> set rs" "name_of r = Dir ?n" by force
      then obtain j where j: "j < length rs" "name_of (rs ! j) = Dir ?n" unfolding in_set_conv_nth by blast
      have "Dir ?n < ?n" using ancestor_less [OF rc True] Dir_ancestor [OF rc] True by simp
      moreover have "?n \<le> name_of (rs ! j)" if "i \<le> j" using sorted_nth_mono [OF sorted that] i j(1) by simp
      ultimately have "j < i" using j(2) by (metis leD leI)
      with j show ?thesis by blast
    qed
  qed
  have dist: "distinct (map name_of rs)" if d: "fst ` set (FFiles af) \<inter> fst ` set (FRecords af) = {}"
  proof -
    have nd: "distinct (map fst (FFiles af'))" "distinct (map fst (FRecords af'))" using ok by (simp_all add: files_ok_def)
    have dj: "fst ` set (FFiles af') \<inter> fst ` set (FRecords af') = {}"
    proof -
      have "fst ` set (FRecords af') = fst ` set (FRecords af) \<union> set ps" "FFiles af' = FFiles af"
        using f(1) by (simp_all add: adds_dirs_def image_Un image_image)
      moreover have "set ps \<inter> fst ` set (FFiles af) = {}" using f(1) unfolding adds_dirs_def keys_def by blast
      ultimately show ?thesis using d by (simp add: Int_Un_distrib Int_commute)
    qed
    then have "map (entries af') (sortedKeys af') = map (\<lambda>p. [p]) (sortedKeys af')"
      using sk by (auto simp: entries_def keys_def)
    then have "map name_of rs = sortedKeys af'" unfolding n by (simp only: concat_map_singleton) simp
    moreover have "distinct (sortedKeys af')" using nd dj by (simp add: sortedKeys_def)
    ultimately show ?thesis by simp
  qed
  have "keys af \<subseteq> name_of ` set rs" using names adds_dirs_keys [OF f(1)] by blast
  with sorted before dist show ?thesis by blast
qed

definition ex_stat :: Stat_t where
  "ex_stat = \<lparr>st_dev = 1, st_ino = 7, st_nlink = 1, st_mode = 0x81a4, st_uid = 0, st_gid = 0, st_rdev = 0, st_size = 2, st_mtim_sec = 0\<rparr>"

text \<open>A host on which every path is the same regular file with two bytes.\<close>

definition ex_host :: host where
  "ex_host = \<lparr>h_EvalSymlinks = Ok, h_Lstat = \<lambda>_. Ok (ex_stat, 0x1a4), h_Readdirnames = \<lambda>_. Ok [], h_Readlink = \<lambda>p. Ok p,
     h_Lazy = \<lambda>_. mem_reader [104, 105]\<rparr>"

definition ex_files :: Files where
  "ex_files = \<lparr>FFiles = [(''bin/x'', ''/src/x'')], FRecords = [(''etc/a/b'', StaticFile ''etc/a/b'' ''hi'' 420)]\<rparr>"

lemmas path_eval = Clean_def IsAbs_def slash_def clean_comps_def clean_step_def dot_def dotdot_def path_of_def cleaned_def

lemma ex_files_ok: "files_ok ex_files"
  by (simp add: files_ok_def ex_files_def keys_def rel_clean_def StaticFile_def StaticRecord_def new_record_def empty_info_def)
    (simp add: path_eval)

lemma visits_id: "visits (\<lambda>ns. ns)"
  by (simp add: visits_def)

definition ex_records :: "Record list" where
  "ex_records = [Directory ''bin'' 493,
     MakeReproducible (set_name ''bin/x'' (new_record (Some (mem_reader [104, 105])) ((sysInfo ''/src/x'' ex_stat)\<lparr>Dev := 0, Ino := 2\<rparr>))),
     Directory ''etc'' 493, Directory ''etc/a'' 493, StaticFile ''etc/a/b'' ''hi'' 420]"

lemma ex_filled:
  "fillInParents (\<lambda>ns. ns) (\<lambda>ns. ns) ex_files =
     Some \<lparr>FFiles = [(''bin/x'', ''/src/x'')], FRecords = [(''etc/a/b'', StaticFile ''etc/a/b'' ''hi'' 420), (''bin'', Directory ''bin'' 493),
      (''etc/a'', Directory ''etc/a'' 493), (''etc'', Directory ''etc'' 493)]\<rparr>"
proof -
  have d: "Dir ''bin/x'' = ''bin''" "Dir ''bin'' = dot" "Dir ''etc/a/b'' = ''etc/a''" "Dir ''etc/a'' = ''etc''" "Dir ''etc'' = dot"
    by (simp_all add: Dir_def path_eval)
  have r: "rel_clean ''bin''" "rel_clean ''etc/a''" "rel_clean ''etc''" by (simp_all add: rel_clean_def) (simp_all add: path_eval)
  have n: "''bin'' \<noteq> dot" "''etc/a'' \<noteq> dot" "''etc'' \<noteq> dot" by (simp_all add: dot_def)
  have p: "addParent n af = Some af" if "Dir n = dot" for n af using that by (subst addParent.simps) simp
  have q: "addParent n af = addParent (Dir n) (if Contains_file af (Dir n) then af else snd (AddRecord (Directory (Dir n) 493) af))"
    if "Dir n \<noteq> dot" for n af using that by (subst addParent.simps) (simp add: Let_def)
  show ?thesis
    by (simp add: fillInParents_def ex_files_def q [of "''bin/x''"] q [of "''etc/a/b''"] q [of "''etc/a''"] p d n
        Contains_add_parent r) (simp add: Contains_file_def)
qed

lemma ex_sorted: "sort [''bin/x'', ''etc/a/b'', ''bin'', ''etc/a'', ''etc''] = [''bin'', ''bin/x'', ''etc'', ''etc/a'', ''etc/a/b'']"
  by (simp add: less_eq_char_def less_char_def)

lemma ex_WriteTo: "WriteTo ex_host (\<lambda>ns. ns) (\<lambda>ns. ns) log_writer ex_files [] = Some (Ok (), ex_records)"
proof -
  have g: "GetRecord (h_Lstat ex_host) (h_Readlink ex_host) (h_Lazy ex_host) NewRecorder ''/src/x'' =
      (Ok (new_record (Some (mem_reader [104, 105])) ((sysInfo ''/src/x'' ex_stat)\<lparr>Dev := 0, Ino := 2\<rparr>)),
       snd (inode NewRecorder (sysInfo ''/src/x'' ex_stat)))"
    by (simp add: GetRecord_def ex_host_def inode_def NewRecorder_def Let_def ModeType_def ModeDir_def ModeSymlink_def
        ModeNamedPipe_def ModeSocket_def ModeDevice_def ModeCharDevice_def ex_stat_def sysInfo_def)
  show ?thesis
    by (simp add: WriteTo_def ex_filled sortedKeys_def ex_sorted del: sort_key_simps sort_key_def)
      (simp add: write_path_def sbind_def log_writer_def writeFile_def g ex_records_def)
qed

theorem WriteTo_parents_first_witness:
  "WriteTo ex_host (\<lambda>ns. ns) (\<lambda>ns. ns) log_writer ex_files [] = Some (Ok (), ex_records) \<and> sorted (map name_of ex_records) \<and>
     distinct (map name_of ex_records) \<and> length ex_records = 5"
proof -
  have "fst ` set (FFiles ex_files) \<inter> fst ` set (FRecords ex_files) = {}" by (simp add: ex_files_def)
  with WriteTo_parents_first [OF ex_files_ok visits_id visits_id ex_WriteTo] ex_WriteTo
  show ?thesis by (simp add: ex_records_def)
qed

theorem Files_names_witness:
  "files_ok ex_files \<and> files_ok (Rename_file ''bin/x'' ''init'' ex_files) \<and> files_ok (snd (AddRecord (Directory ''/dev'' 493) ex_files))"
proof -
  have "Clean ''init'' = ''init''" "\<not> IsAbs ''init''" by (simp_all add: path_eval)
  with Files_names [OF ex_files_ok] ex_files_ok show ?thesis by blast
qed

section \<open>The archive read back\<close>

lemma ForEach_AddRecord_keeps:
  assumes "ForEachRecord rd (\<lambda>f s. (Ok (), snd (AddRecord (t f) s))) r s = Some (x, s')" "files_ok s"
  shows "files_ok s'"
proof -
  have "act = (\<lambda>f s. (Ok (), snd (AddRecord (t f) s))) \<longrightarrow> files_ok s \<longrightarrow> files_ok (snd (x, s'))"
    if "ForEachRecord rd act r s = Some (x, s')" for act
  proof (rule ForEachRecord.raw_induct [OF _ that,
        where P = "\<lambda>rd act r s y. act = (\<lambda>f s. (Ok (), snd (AddRecord (t f) s))) \<longrightarrow> files_ok s \<longrightarrow> files_ok (snd y)"], goal_cases)
    case (1 rec rd act r s y)
    show ?case
    proof (intro impI)
      assume f: "act = (\<lambda>f s. (Ok (), snd (AddRecord (t f) s)))" and s: "files_ok s"
      show "files_ok (snd y)"
        using 1(2) 1(1) s AddRecord_keeps unfolding f by (auto split: prod.splits res.splits if_splits)
    qed
  qed
  from this [OF assms(1)] assms(2) show ?thesis by simp
qed

lemma add_base_keeps:
  assumes "add_base rd opts = Some (Ok (), af)" "files_ok (OFiles opts)"
  shows "files_ok af"
proof -
  have "rel_clean inito_name" by (simp add: inito_name_def rel_clean_def) (simp add: path_eval)
  then have "files_ok (if b then Rename_file init_name inito_name (OFiles opts) else OFiles opts)" for b
    using assms(2) Rename_keeps by simp
  then show ?thesis
    using assms unfolding add_base_def Let_def by (cases "OBaseArchive opts") (auto dest: ForEach_AddRecord_keeps)
qed

lemma WriteTo_names:
  assumes "files_ok af" "visits visit" "visits visit2" "WriteTo h visit visit2 log_writer af [] = Some (Ok (), rs)" "r \<in> set rs"
  shows "rel_clean (name_of r)"
proof -
  obtain af' ps where f: "adds_dirs ps af af'" and n: "map name_of rs = concat (map (entries af') (sortedKeys af'))"
    using WriteTo_log [OF assms(1-4)] by blast
  have "name_of r \<in> set (concat (map (entries af') (sortedKeys af')))" using assms(5) unfolding n [symmetric] by simp
  then have "name_of r \<in> keys af'" by (auto simp: entries_def keys_def split: if_splits)
  then show ?thesis using f by (simp add: adds_dirs_def files_ok_def)
qed

text \<open>C19: the initramfs written to a cpio archive, with or without a base archive, is read back completely: exactly
  the records written, in order, and the reader stops at the trailer.\<close>

theorem initramfs_round_trip:
  assumes "files_ok (OFiles opts)" "visits visit" "visits visit2" "add_base rd opts = Some (Ok (), af)"
    and "WriteTo h visit visit2 log_writer af [] = Some (Ok (), rs)"
    and "distinct (map name_of rs)" "\<forall>r \<in> set rs. rec_ok r \<and> name_of r \<noteq> Trailer"
  shows "\<exists>w recs. Write_initramfs h visit visit2 rd (newc_WriteRecord buffer_Write) (cpio_Finish (newc_WriteRecord buffer_Write))
      opts (newc_Writer []) = Some (Ok (), w) \<and>
    ReadAllRecords newc_reader \<lparr>cr_src = cw_w (dw_rw w), cr_pos = 0\<rparr> = Some (Ok (), recs) \<and> map view recs = map stored rs"
proof -
  have ok: "files_ok af" using add_base_keeps [OF assms(4,1)] .
  have n: "norm r = r" "rname r = name_of r" if "r \<in> set rs" for r
    using WriteTo_names [OF ok assms(2,3,5) that] by (simp_all add: rel_clean_iff norm_def rname_def set_name_def)
  have a: "rec_ok (norm r) \<and> rname r \<noteq> Trailer" if "r \<in> set rs" for r using n [OF that] assms(7) that by simp
  have "map rname rs = map name_of rs" using n by simp
  then have d: "distinct (map rname rs)" using assms(6) by (simp only:)
  obtain w w' recs where w: "WriteRecords (newc_WriteRecord buffer_Write) rs (newc_Writer []) = (Ok (), w)"
    "WriteTrailer (newc_WriteRecord buffer_Write) w = (Ok (), w')"
    "ReadAllRecords newc_reader \<lparr>cr_src = cw_w (dw_rw w'), cr_pos = 0\<rparr> = Some (Ok (), recs)"
    "map view recs = map (\<lambda>r. stored (norm r)) rs" using archive_written [OF a d] by blast
  have "WriteTo h visit visit2 (newc_WriteRecord buffer_Write) af (newc_Writer []) = Some (Ok (), w)"
    using WriteTo_log [where 'w = "byte list cwriter DedupWriter", OF ok assms(2,3,5)] w(1) by blast
  then have "Write_initramfs h visit visit2 rd (newc_WriteRecord buffer_Write) (cpio_Finish (newc_WriteRecord buffer_Write)) opts (newc_Writer []) =
      Some (Ok (), w')" using assms(4) w(2) by (simp add: Write_initramfs_def cpio_Finish_def)
  moreover have "map view recs = map stored rs" using w(4) n(1) by simp
  ultimately show ?thesis using w(3) by blast
qed

theorem initramfs_round_trip_witness:
  "\<exists>w recs. Write_initramfs ex_host (\<lambda>ns. ns) (\<lambda>ns. ns) newc_reader (newc_WriteRecord buffer_Write)
      (cpio_Finish (newc_WriteRecord buffer_Write)) \<lparr>OFiles = ex_files, OBaseArchive = None, OUseExistingInit = False\<rparr> (newc_Writer []) = Some (Ok (), w) \<and>
    ReadAllRecords newc_reader \<lparr>cr_src = cw_w (dw_rw w), cr_pos = 0\<rparr> = Some (Ok (), recs) \<and> length recs = 5"
proof -
  let ?o = "\<lparr>OFiles = ex_files, OBaseArchive = None, OUseExistingInit = False\<rparr> :: byte list creader Opts"
  have f: "files_ok (OFiles ?o)" using ex_files_ok by simp
  have b: "add_base newc_reader ?o = Some (Ok (), ex_files)" by (simp add: add_base_def)
  have n: "Normalize ''bin/x'' = ''bin/x''" by (simp add: Normalize_eq) (simp add: path_eval)
  have d: "distinct (map name_of ex_records)"
    by (simp add: ex_records_def Directory_def StaticFile_def StaticRecord_def new_record_def empty_info_def MakeReproducible_def set_name_def n)
  have r: "\<forall>r \<in> set ex_records. rec_ok r \<and> name_of r \<noteq> Trailer"
    by (simp add: ex_records_def rec_ok_def info_ok_def Directory_def StaticFile_def StaticRecord_def new_record_def empty_info_def
        MakeReproducible_def set_name_def n Trailer_def mem_reader_def sysInfo_def ex_stat_def S_IFDIR_def S_IFMT_def S_IFREG_def)
  obtain w recs where w: "Write_initramfs ex_host (\<lambda>ns. ns) (\<lambda>ns. ns) newc_reader (newc_WriteRecord buffer_Write)
      (cpio_Finish (newc_WriteRecord buffer_Write)) ?o (newc_Writer []) = Some (Ok (), w)"
    "ReadAllRecords newc_reader \<lparr>cr_src = cw_w (dw_rw w), cr_pos = 0\<rparr> = Some (Ok (), recs)" "map view recs = map stored ex_records"
    using initramfs_round_trip [OF f visits_id visits_id b ex_WriteTo d r] by blast
  have "length recs = length ex_records" using arg_cong [OF w(3), of length] by (simp only: length_map)
  then show ?thesis using w(1,2) by (auto simp: ex_records_def)
qed

section \<open>Adding files ends unless directories lead back to themselves\<close>

definition resolved :: "host \<Rightarrow> bool \<Rightarrow> string \<Rightarrow> (errno, string) res" where
  "resolved h follow src = (if follow then h_EvalSymlinks h (Clean src) else Ok (Clean src))"

definition ranked :: "host \<Rightarrow> bool \<Rightarrow> (string \<Rightarrow> nat) \<Rightarrow> bool" where
  "ranked h follow rank \<longleftrightarrow> (\<forall>src names nm src'. h_Readdirnames h src = Ok names \<longrightarrow> nm \<in> set names \<longrightarrow>
     resolved h follow (Join src nm) = Ok src' \<longrightarrow> rank src' < rank src)"

text \<open>C21: when no directory leads back to itself, not even through symbolic links, adding a file or a directory ends.\<close>

theorem addFile_ends:
  assumes "ranked h follow rank"
  shows "\<exists>y. addFile h follow src dest af = Some y"
proof (cases "resolved h follow src")
  case (Ok s)
  then show ?thesis
  proof (induction "rank s" arbitrary: src s dest af rule: less_induct)
    case less
    have "\<exists>y. children h s (\<lambda>nm. addFile h follow (Join s nm) (Join (Normalize dest) nm)) af = Some y"
    proof (cases "h_Readdirnames h s")
      case (Ok names)
      have "\<exists>y. addFile h follow (Join s nm) d a = Some y" if nm: "nm \<in> set names" for nm d a
      proof (cases "resolved h follow (Join s nm)")
        case 2: (Ok s')
        have "rank s' < rank s" using assms Ok nm 2 unfolding ranked_def by blast
        from less.hyps [OF this 2] show ?thesis .
      qed (subst addFile.simps, simp add: adjust_dest_eq resolved_def)+
      then have "\<exists>y. for_loop IsNotExist (\<lambda>nm. addFile h follow (Join s nm) (Join (Normalize dest) nm)) names af = Some y"
        by (rule for_loop_ends)
      then show ?thesis by (simp add: children_def Ok)
    qed (simp_all add: children_def)
    then obtain x t where c: "children h s (\<lambda>nm. addFile h follow (Join s nm) (Join (Normalize dest) nm)) af = Some (x, t)" by auto
    show ?case
      using less.prems c by (subst addFile.simps, cases x)
        (auto simp: adjust_dest_eq resolved_def split: res.splits prod.splits option.splits)
  qed
qed (subst addFile.simps, simp add: adjust_dest_eq resolved_def)+


text \<open>A directory tree with a file in a directory, on which the theorem applies.\<close>

definition ex_tree :: host where
  "ex_tree = ex_host\<lparr>h_Lstat := \<lambda>p. Ok (ex_stat, if p = ''/d'' then ModeDir else 0),
     h_Readdirnames := \<lambda>p. Ok (if p = ''/d'' then [''f''] else [])\<rparr>"

theorem addFile_ends_witness:
  "\<exists>y. addFile ex_tree True ''/d'' ''d'' NewFiles = Some y"
proof -
  have "Clean (Join ''/d'' ''f'') = ''/d/f''" by (simp add: Join_def) (simp add: path_eval)
  then have "ranked ex_tree True (\<lambda>p. if p = ''/d'' then 1 else 0)"
    by (simp add: ranked_def ex_tree_def ex_host_def resolved_def)
  then show ?thesis by (rule addFile_ends)
qed

text \<open>A directory with a symbolic link to itself: following it never ends.\<close>

definition loop_host :: host where
  "loop_host = ex_host\<lparr>h_EvalSymlinks := \<lambda>_. Ok ''/d'', h_Lstat := \<lambda>_. Ok (ex_stat, ModeDir), h_Readdirnames := \<lambda>_. Ok [''l'']\<rparr>"

theorem symlink_loop_diverges: "AddFile loop_host src dest af = None"
proof -
  have "\<not> (h = loop_host \<and> follow)" if "addFile h follow src dest af = Some y" for h follow y
  proof (rule addFile.raw_induct [OF _ that, where P = "\<lambda>h follow src dest af y. \<not> (h = loop_host \<and> follow)"], goal_cases)
    case (1 rec h follow src dest af y)
    show ?case
    proof
      assume l: "h = loop_host \<and> follow"
      have "rec h True s d a = None" for s d a using 1(1) [of h True s d a] l by (cases "rec h True s d a") auto
      then show False
        using 1(2) l by (simp add: adjust_dest_eq loop_host_def children_def ModeDir_def)
    qed
  qed
  then show ?thesis unfolding AddFile_def by (metis option.exhaust)
qed

section \<open>What is lost and what comes twice\<close>

text \<open>
  Two names of one file: the recorder gives the second no contents and relies on the inode number, which
  \<open>MakeReproducible\<close> then clears. The second file of the archive is empty.
\<close>

theorem hardlink_lost:
  assumes "h_Lstat h p = Ok (s, fm)" "h_Lstat h q = Ok (s, fm)" "fm AND ModeType = 0" "p \<noteq> q"
  shows "\<exists>cr1 cr2 r1 r2. writeFile h log_writer p dp (NewRecorder, out) = (Ok (), cr1, out @ [r1]) \<and>
    writeFile h log_writer q dq (cr1, out @ [r1]) = (Ok (), cr2, out @ [r1, r2]) \<and>
    Contents r1 = Some (h_Lazy h p) \<and> Contents r2 = None \<and> Ino (RInfo r1) = 0 \<and> Ino (RInfo r2) = 0 \<and> NLink (RInfo r2) = 0"
  using assms
  by (simp add: writeFile_def GetRecord_def inode_def NewRecorder_def sysInfo_def Let_def log_writer_def MakeReproducible_def
      set_name_def new_record_def)

text \<open>A directory given as a file does not look for a record of that name: the name is then written four times.\<close>

theorem name_in_both_maps:
  "AddFile ex_tree ''/d'' ''d'' \<lparr>FFiles = [], FRecords = [(''d'', Directory ''d'' 493)]\<rparr> =
     Some (Ok (), \<lparr>FFiles = [(''d/f'', ''/d/f''), (''d'', ''/d'')], FRecords = [(''d'', Directory ''d'' 493)]\<rparr>)"
proof -
  have j: "Join ''/d'' ''f'' = ''/d/f''" "Join ''d'' ''f'' = ''d/f''" by (simp_all add: Join_def) (simp_all add: path_eval)
  have c: "Clean ''/d'' = ''/d''" "Clean ''/d/f'' = ''/d/f''" by (simp_all add: path_eval)
  have n: "Normalize ''d'' = ''d''" "Normalize ''d/f'' = ''d/f''" by (simp_all add: Normalize_eq) (simp_all add: path_eval)
  have f: "addFile ex_tree True ''/d/f'' ''d/f'' \<lparr>FFiles = [], FRecords = [(''d'', Directory ''d'' 493)]\<rparr> =
      Some (Ok (), \<lparr>FFiles = [(''d/f'', ''/d/f'')], FRecords = [(''d'', Directory ''d'' 493)]\<rparr>)"
    by (subst addFile.simps) (simp add: adjust_dest_eq n c ex_tree_def ex_host_def)
  have "children ex_tree ''/d'' (\<lambda>name. addFile ex_tree True (Join ''/d'' name) (Join ''d'' name)) \<lparr>FFiles = [], FRecords = [(''d'', Directory ''d'' 493)]\<rparr> =
      Some (Ok (), \<lparr>FFiles = [(''d/f'', ''/d/f'')], FRecords = [(''d'', Directory ''d'' 493)]\<rparr>)"
    using f by (simp add: children_def j ex_tree_def)
  then show ?thesis
    unfolding AddFile_def by (subst addFile.simps) (simp add: adjust_dest_eq n c ex_tree_def ex_host_def ModeDir_def)
qed

lemma written_four_times:
  "FFiles af = [(n, s)] \<Longrightarrow> FRecords af = [(n, r)] \<Longrightarrow> concat (map (entries af) (sortedKeys af)) = [n, n, n, n]"
  by (simp add: entries_def sortedKeys_def)

text \<open>\<open>os.IsExist\<close> is asked about the error of \<open>Stat\<close>, which is no error when the path exists.\<close>

lemma existing_dir_not_noticed:
  assumes "w t (OsStat path) = None" "path \<noteq> []" "w (t @ [OsStat path]) (OsMkdirAll path 493) = None"
  shows "fst (dir_OpenWriter w temp path t) = Ok path"
  using assms by (simp add: dir_OpenWriter_def sys_def sbind_def sreturn_def)

end
