(* ===== verification/GoText.thy ===== *)
theory GoText imports GoStrings Strconv Filepath begin

text \<open>
  What the parsers of configuration files use of \<open>bufio\<close>, \<open>strings\<close> and \<open>strconv\<close>: \<open>bufio.Scanner\<close> over the lines of a
  text, \<open>Atoi\<close>, \<open>ToLower\<close>, suffixes, and \<open>filepath.Join\<close> of several elements.
\<close>

definition lf :: char where "lf = CHR 0x0A"
definition cr :: char where "cr = CHR 0x0D"

section \<open>Lines (\<open>bufio.Scanner\<close>)\<close>

definition drop_cr :: "string \<Rightarrow> string" where
  "drop_cr l = (if l \<noteq> [] \<and> last l = cr then butlast l else l)"

text \<open>The lines up to the first that does not fit the buffer of the scanner, and whether there is one.\<close>

definition maxLine :: nat where "maxLine = 65536"

fun scan_from :: "string list \<Rightarrow> string list \<times> bool" where
  "scan_from [] = ([], False)"
| "scan_from (l # ls) = (if maxLine \<le> length l then ([], True) else (case scan_from ls of (r, e) \<Rightarrow> (drop_cr l # r, e)))"

definition text_lines :: "string \<Rightarrow> string list" where
  "text_lines s = (let ls = split_on lf s in if last ls = [] then butlast ls else ls)"

definition Scan_lines :: "string \<Rightarrow> string list \<times> bool" where
  "Scan_lines s = scan_from (text_lines s)"

definition line_ok :: "string \<Rightarrow> bool" where
  "line_ok l \<longleftrightarrow> lf \<notin> set l \<and> (l \<noteq> [] \<longrightarrow> last l \<noteq> cr) \<and> length l < maxLine"

lemma drop_cr_ok [simp]: "line_ok l \<Longrightarrow> drop_cr l = l"
  by (auto simp: line_ok_def drop_cr_def)

lemma split_on_unlines:
  "\<forall>l \<in> set ls. lf \<notin> set l \<Longrightarrow> split_on lf (concat (map (\<lambda>l. l @ [lf]) ls) @ r) = ls @ split_on lf r"
  by (induction ls) (auto simp: split_on_append_sep split_on_no_sep)

lemma text_lines_unlines:
  assumes "\<forall>l \<in> set ls. lf \<notin> set l" "lf \<notin> set r"
  shows "text_lines (concat (map (\<lambda>l. l @ [lf]) ls) @ r) = (if r = [] then ls else ls @ [r])"
  using split_on_unlines [OF assms(1), of r] split_on_no_sep [OF assms(2)] by (simp add: text_lines_def)

lemma scan_from_ok: "\<forall>l \<in> set ls. line_ok l \<Longrightarrow> scan_from ls = (ls, False)"
  by (induction ls) (auto simp: line_ok_def [of "_ :: string"])

text \<open>Lines that are written one after the other are read back.\<close>

lemma Scan_lines_unlines:
  assumes "\<forall>l \<in> set ls. line_ok l" "line_ok r"
  shows "Scan_lines (concat (map (\<lambda>l. l @ [lf]) ls) @ r) = (if r = [] then ls else ls @ [r], False)"
proof -
  have "\<forall>l \<in> set ls. lf \<notin> set l" "lf \<notin> set r" using assms by (auto simp: line_ok_def)
  from text_lines_unlines [OF this] show ?thesis
    using assms scan_from_ok [of ls] scan_from_ok [of "ls @ [r]"] by (simp add: Scan_lines_def)
qed

section \<open>Other functions\<close>

definition Atoi :: "string \<Rightarrow> (num_error, int) res" where
  "Atoi s = ParseInt s 10"

text \<open>
  \<open>strings.ToLower\<close> as far as comparing the result with ASCII words can tell: the Kelvin sign and the dotted capital I
  are the only code points outside ASCII with a lower case letter in ASCII.
\<close>

definition lower_ascii :: "char \<Rightarrow> char" where
  "lower_ascii c = (if 65 \<le> (of_char c :: nat) \<and> (of_char c :: nat) \<le> 90 then char_of ((of_char c :: nat) + 32) else c)"

definition ToLower :: "string \<Rightarrow> string" where
  "ToLower s = concat (map (\<lambda>(r, b). if r = 0x212A then ''k'' else if r = 0x130 then ''i'' else map lower_ascii b) (runes s))"

definition has_suffix :: "string \<Rightarrow> string \<Rightarrow> bool" where
  "has_suffix s suf \<longleftrightarrow> length suf \<le> length s \<and> drop (length s - length suf) s = suf"

text \<open>\<open>filepath.Join\<close> of several elements.\<close>

definition JoinN :: "string list \<Rightarrow> string" where
  "JoinN es = (case dropWhile (\<lambda>e. e = []) es of [] \<Rightarrow> [] | e # r \<Rightarrow> Clean (join_with [slash] (e # r)))"

lemma Atoi_FormatInt:
  assumes "- (2 ^ 63) \<le> i" "i < 2 ^ 63"
  shows "Atoi (FormatInt i) = Ok i"
proof (cases "i < 0")
  case True
  then have "nat (- i) < 2 ^ 64" "nat (- i) \<le> 2 ^ 63" using assms by simp_all
  with True ParseUint_FormatNat(2) [of "nat (- i)"] show ?thesis by (simp add: Atoi_def FormatInt_def ParseInt_def Let_def)
next
  case False
  then have n: "nat i < 2 ^ 64" "nat i < 2 ^ 63" using assms by simp_all
  obtain c r where c: "FormatNat (nat i) = c # r" by (cases "FormatNat (nat i)") auto
  have "c \<noteq> CHR ''-''" "c \<noteq> CHR ''+''" using FormatNat_plain(2,3) [of "nat i"] c by auto
  with False n ParseUint_FormatNat(2) [OF n(1)] c show ?thesis by (simp add: Atoi_def FormatInt_def ParseInt_def Let_def)
qed

text \<open>Text that \<open>TrimSpace\<close> leaves alone, and blanks around it.\<close>

definition trimmed :: "string \<Rightarrow> bool" where
  "trimmed s \<longleftrightarrow> ascii s \<and> (s = [] \<or> (\<not> IsSpace (of_char (hd s)) \<and> \<not> IsSpace (of_char (last s))))"

lemma TrimSpace_trimmed [simp]: "trimmed s \<Longrightarrow> TrimSpace s = s"
  by (simp add: trimmed_def TrimSpace_id)

lemma TrimSpace_blank:
  assumes "set a \<subseteq> {CHR '' ''}"
  shows "TrimSpace a = []"
proof -
  have "ascii a" using assms by (auto simp: ascii_def)
  then have "\<forall>x \<in> set (runes a). IsSpace (fst x)" using assms by (auto simp: runes_ascii IsSpace_def)
  then have "dropWhile (\<lambda>(r, _). IsSpace r) (runes a) = []" by (simp add: case_prod_beta)
  then have "trim_runes (runes a) = []" "trim_runes [] = []" by (simp_all add: trim_runes_def)
  then show ?thesis by (simp add: TrimSpace_def)
qed

lemma TrimSpace_blanks:
  assumes "trimmed s" "s \<noteq> []" "set a \<subseteq> {CHR '' ''}" "set b \<subseteq> {CHR '' ''}"
  shows "TrimSpace (a @ s @ b) = s"
proof -
  have asc: "ascii a" "ascii s" "ascii b" using assms by (auto simp: ascii_def trimmed_def)
  moreover have "ascii (a @ s @ b)" using asc by (auto simp: ascii_def)
  ultimately have r: "runes (a @ s @ b) = runes a @ runes s @ runes b" by (simp add: runes_ascii)
  have sp: "\<forall>x \<in> set (runes a). IsSpace (fst x)" "\<forall>x \<in> set (rev (runes b)). IsSpace (fst x)"
    using assms(3,4) asc by (auto simp: runes_ascii IsSpace_def)
  have hl: "runes s \<noteq> []" "\<not> IsSpace (fst (hd (runes s)))" "\<not> IsSpace (fst (last (runes s)))"
    using assms(1,2) asc by (auto simp: runes_ascii trimmed_def hd_map last_map)
  have d: "dropWhile P (x @ y) = y" if "\<forall>z \<in> set x. P z" "y \<noteq> []" "\<not> P (hd y)" for P and x y :: "(nat \<times> string) list"
    using that by (simp add: dropWhile_append2) (cases y; simp)
  have "trim_runes (runes a @ runes s @ runes b) = runes s @ runes b"
    unfolding trim_runes_def using sp(1) hl(1,2) by (intro d) (auto simp: hd_append case_prod_beta)
  moreover have "trim_runes (rev (runes s @ runes b)) = rev (runes s)"
    unfolding trim_runes_def rev_append using sp(2) hl(1,3) by (intro d) (auto simp: hd_rev case_prod_beta)
  ultimately show ?thesis by (simp add: TrimSpace_def r concat_runes)
qed

section \<open>Filling up to a block\<close>

lemma block_pad:
  assumes "0 < (m :: nat)"
  shows "m dvd n + (m - n mod m)"
proof -
  have "m = n mod m + (m - n mod m)" using mod_less_divisor [OF assms, of n] by simp
  then have "n + (m - n mod m) = m * (n div m) + m" by (metis add.assoc mult_div_mod_eq)
  then show ?thesis by simp
qed

end
