(* ===== verification/KModule.thy ===== *)
theory KModule imports Filepath Cpio "HOL-Library.AList" GoText begin

text \<open>
  \<open>pkg/kmodule/kmodule_linux.go\<close>: loading a kernel module after the modules it depends on. The kernel, the files and
  the decompressors are parameters; the state of a run is the dependency map and the list of calls made.
\<close>

section \<open>The kernel\<close>

datatype kmod_call =
    KOpen string
  | KFinitModule string string int
  | KInitModule "byte list" string
  | KDeleteModule string int
  | KDryRun string

datatype kmod_error =
    KmOS errno
  | KmRelease errno
  | KmOpenDeps errno
  | KmOpenBuiltin errno
  | KmScan errno
  | KmNoPath string
  | KmNoDependency string
  | KmCircular string

text \<open>
  \<open>kw_call\<close> answers a call after those made before; \<open>kw_image\<close>, \<open>kw_xz\<close> and \<open>kw_gz\<close> give the bytes of a file, as they
  are and decompressed; \<open>kw_lines\<close> the lines of a text file and the error that ends the scan.
\<close>

record kmod_world =
  kw_call :: "kmod_call list \<Rightarrow> kmod_call \<Rightarrow> errno option"
  kw_image :: "string \<Rightarrow> (errno, byte list) res"
  kw_xz :: "string \<Rightarrow> (errno, byte list) res"
  kw_gz :: "string \<Rightarrow> (errno, byte list) res"
  kw_release :: "(errno, string) res"
  kw_exists :: "string \<Rightarrow> bool"
  kw_lines :: "string \<Rightarrow> (errno, string list \<times> errno option) res"

definition ENOSYS :: errno where "ENOSYS = Errno ''ENOSYS''"
definition EEXIST :: errno where "EEXIST = Errno ''EEXIST''"

type_synonym kmod_prog = "kmod_call list \<Rightarrow> (kmod_error, unit) res \<times> kmod_call list"

definition kcall :: "kmod_world \<Rightarrow> kmod_call \<Rightarrow> kmod_prog" where
  "kcall w c t = (case kw_call w t c of None \<Rightarrow> Ok () | Some e \<Rightarrow> Err (KmOS e), t @ [c])"

definition Init_module :: "kmod_world \<Rightarrow> byte list \<Rightarrow> string \<Rightarrow> kmod_prog" where
  "Init_module w img opts = kcall w (KInitModule img opts)"

definition init_image :: "kmod_world \<Rightarrow> (errno, byte list) res \<Rightarrow> string \<Rightarrow> kmod_prog" where
  "init_image w img opts t =
     (case img of Ok b \<Rightarrow> Init_module w b opts t | Err e \<Rightarrow> (Err (KmOS e), t) | Panic \<Rightarrow> (Panic, t))"

definition FileInit :: "kmod_world \<Rightarrow> string \<Rightarrow> string \<Rightarrow> int \<Rightarrow> kmod_prog" where
  "FileInit w path opts fl t =
     (if has_suffix path ''.xz'' then init_image w (kw_xz w path) opts t
      else if has_suffix path ''.gz'' then init_image w (kw_gz w path) opts t
      else
        (case kcall w (KFinitModule path opts fl) t of
           (Err (KmOS e), t') \<Rightarrow>
             if e = ENOSYS then (if fl \<noteq> 0 then (Err (KmOS e), t') else init_image w (kw_image w path) opts t')
             else (Err (KmOS e), t')
         | x \<Rightarrow> x))"

definition Delete_module :: "kmod_world \<Rightarrow> string \<Rightarrow> int \<Rightarrow> kmod_prog" where
  "Delete_module w name fl = kcall w (KDeleteModule name fl)"

section \<open>Dependencies\<close>

datatype modState = Unloaded | Loading | Loaded | Builtin

record dependency =
  DState :: modState
  DDeps :: "string list"

type_synonym depMap = "(string \<times> dependency) list"

record ProbeOpts =
  DryRun :: bool
  RootDir :: string
  KVer :: string
  IgnoreProcMods :: bool

definition new_dependency :: dependency where
  "new_dependency = \<lparr>DState = Unloaded, DDeps = []\<rparr>"

definition set_state :: "string \<Rightarrow> modState \<Rightarrow> depMap \<Rightarrow> depMap" where
  "set_state p s m = map (\<lambda>(k, d). (k, if k = p then d\<lparr>DState := s\<rparr> else d)) m"

text \<open>A missing entry is created first.\<close>

definition mark_state :: "string \<Rightarrow> modState \<Rightarrow> depMap \<Rightarrow> depMap" where
  "mark_state p s m = set_state p s (if map_of m p = None then AList.update p new_dependency m else m)"

definition loadModule_file :: "kmod_world \<Rightarrow> ProbeOpts \<Rightarrow> string \<Rightarrow> string \<Rightarrow> kmod_prog" where
  "loadModule_file w opts path modParams t =
     (if DryRun opts then (Ok (), t @ [KDryRun path])
      else
        (case kcall w (KOpen path) t of
           (Ok u, t') \<Rightarrow>
             (case FileInit w path modParams 0 t' of
                (Err e, t'') \<Rightarrow> (if e = KmOS EEXIST then Ok () else Err e, t'')
              | x \<Rightarrow> x)
         | x \<Rightarrow> x))"

partial_function (option) loadDeps ::
    "kmod_world \<Rightarrow> ProbeOpts \<Rightarrow> string \<Rightarrow> depMap \<times> kmod_call list \<Rightarrow> (kmod_error, depMap \<times> kmod_call list) loop_result" where
  "loadDeps w opts path s =
     (case map_of (fst s) path of
        None \<Rightarrow> Some (Err (KmNoDependency path), s)
      | Some d \<Rightarrow>
          if DState d = Loading then Some (Err (KmCircular path), s)
          else if DState d = Loaded \<or> DState d = Builtin then Some (Ok (), s)
          else
            Option.bind (for_loop (\<lambda>_. False) (loadDeps w opts) (DDeps d) (set_state path Loading (fst s), snd s)) (\<lambda>r.
              case r of
                (Ok u, m1, t1) \<Rightarrow>
                  (case loadModule_file w opts path [] t1 of
                     (Ok u, t2) \<Rightarrow> Some (Ok (), set_state path Loaded m1, t2)
                   | (x, t2) \<Rightarrow> Some (x, m1, t2))
              | x \<Rightarrow> Some x))"

definition module_names :: "string \<Rightarrow> string list" where
  "module_names name =
     (let nameH = map (\<lambda>c. if c = CHR ''_'' then CHR ''-'' else c) name;
          nameU = map (\<lambda>c. if c = CHR ''-'' then CHR ''_'' else c) name
      in [nameH @ ''.ko'', nameH @ ''.ko.gz'', nameH @ ''.ko.xz'', nameU @ ''.ko'', nameU @ ''.ko.gz'', nameU @ ''.ko.xz''])"

text \<open>\<open>visit\<close> is the order in which Go happens to visit the keys of the map.\<close>

definition findModPath :: "(string list \<Rightarrow> string list) \<Rightarrow> string \<Rightarrow> depMap \<Rightarrow> (kmod_error, string) res" where
  "findModPath visit name m =
     (case List.find (\<lambda>mp. Base mp \<in> set (module_names name)) (visit (map fst m)) of
        Some mp \<Rightarrow> Ok mp
      | None \<Rightarrow> Err (KmNoPath name))"

text \<open>One line of \<open>modules.dep\<close>; without a colon \<open>nameDeps[1]\<close> panics.\<close>

definition dep_line :: "string \<Rightarrow> string \<Rightarrow> depMap \<Rightarrow> (kmod_error, depMap) res" where
  "dep_line moduleDir txt m =
     (case split_on (CHR '':'') txt of
        n # ds # _ \<Rightarrow>
          Ok (AList.update (Join moduleDir (TrimSpace n))
            \<lparr>DState = Unloaded, DDeps = (if ds = [] then [] else map (Join moduleDir) (split_on (CHR '' '') (TrimSpace ds)))\<rparr> m)
      | _ \<Rightarrow> Panic)"

fun dep_lines :: "string \<Rightarrow> string list \<Rightarrow> depMap \<Rightarrow> (kmod_error, depMap) res" where
  "dep_lines moduleDir [] m = Ok m"
| "dep_lines moduleDir (l # ls) m = rbind (dep_line moduleDir l m) (dep_lines moduleDir ls)"

definition checkBuiltin :: "kmod_world \<Rightarrow> string \<Rightarrow> depMap \<Rightarrow> (kmod_error, depMap) res" where
  "checkBuiltin w moduleDir deps =
     (case kw_lines w (Join moduleDir ''modules.builtin'') of
        Err e \<Rightarrow> if e = ENOENT then Ok deps else Err (KmOpenBuiltin e)
      | Panic \<Rightarrow> Panic
      | Ok (ls, e) \<Rightarrow>
          (let m = fold (\<lambda>l. mark_state (Join moduleDir (TrimSpace l)) Builtin) ls deps in
           case e of None \<Rightarrow> Ok m | Some e \<Rightarrow> Err (KmScan e)))"

text \<open>\<open>genDeps\<close> does not look at the error: an unknown module ends the loop.\<close>

fun genLoadedMods :: "(string list \<Rightarrow> string list) \<Rightarrow> string list \<Rightarrow> depMap \<Rightarrow> depMap" where
  "genLoadedMods visit [] deps = deps"
| "genLoadedMods visit (l # ls) deps =
     (case findModPath visit (hd (split_on (CHR '' '') l)) deps of
        Ok mp \<Rightarrow> genLoadedMods visit ls (mark_state mp Loaded deps)
      | _ \<Rightarrow> deps)"

text \<open>The last directory is taken when neither exists.\<close>

definition module_dir :: "kmod_world \<Rightarrow> string \<Rightarrow> string \<Rightarrow> string" where
  "module_dir w root rel =
     (let d1 = JoinN [root, ''/lib/modules'', TrimSpace rel]; d2 = JoinN [root, ''/usr/lib/modules'', TrimSpace rel]
      in if kw_exists w d1 then d1 else d2)"

definition genDeps :: "kmod_world \<Rightarrow> (string list \<Rightarrow> string list) \<Rightarrow> ProbeOpts \<Rightarrow> (kmod_error, depMap) res" where
  "genDeps w visit opts =
     rbind (if KVer opts = [] then (case kw_release w of Ok r \<Rightarrow> Ok r | Err e \<Rightarrow> Err (KmRelease e) | Panic \<Rightarrow> Panic)
            else Ok (KVer opts)) (\<lambda>rel.
     let moduleDir = module_dir w (RootDir opts) rel in
     case kw_lines w (Join moduleDir ''modules.dep'') of
       Err e \<Rightarrow> Err (KmOpenDeps e)
     | Panic \<Rightarrow> Panic
     | Ok (ls, e) \<Rightarrow>
         rbind (dep_lines moduleDir ls []) (\<lambda>deps.
         case e of
           Some e \<Rightarrow> Err (KmScan e)
         | None \<Rightarrow>
             rbind (checkBuiltin w moduleDir deps) (\<lambda>deps1.
               if IgnoreProcMods opts then Ok deps1
               else (case kw_lines w ''/proc/modules'' of
                       Ok (pl, _) \<Rightarrow> Ok (genLoadedMods visit pl deps1)
                     | _ \<Rightarrow> Ok deps1))))"

text \<open>\<open>deps\<close> is the map \<open>genDeps\<close> gives; the calls are those of this probe.\<close>

definition probe_deps ::
    "kmod_world \<Rightarrow> (string list \<Rightarrow> string list) \<Rightarrow> string \<Rightarrow> string \<Rightarrow> ProbeOpts \<Rightarrow> depMap \<Rightarrow> kmod_call list
     \<Rightarrow> (kmod_error, depMap \<times> kmod_call list) loop_result" where
  "probe_deps w visit name modParams opts deps t =
     (case findModPath visit name deps of
        Err e \<Rightarrow> Some (Err (KmNoPath name), deps, t)
      | Panic \<Rightarrow> Some (Panic, deps, t)
      | Ok modPath \<Rightarrow>
          (case map_of deps modPath of
             None \<Rightarrow> Some (Panic, deps, t)
           | Some dep \<Rightarrow>
               if DState dep = Builtin \<or> DState dep = Loaded then Some (Ok (), deps, t)
               else
                 (case for_loop (\<lambda>_. False) (loadDeps w opts) (DDeps dep) (set_state modPath Loading deps, t) of
                    Some (Ok u, m1, t1) \<Rightarrow>
                      (case loadModule_file w opts modPath modParams t1 of (x, t2) \<Rightarrow> Some (x, m1, t2))
                  | x \<Rightarrow> x)))"

definition ProbeOptions ::
    "kmod_world \<Rightarrow> (string list \<Rightarrow> string list) \<Rightarrow> string \<Rightarrow> string \<Rightarrow> ProbeOpts
     \<Rightarrow> (kmod_error, depMap \<times> kmod_call list) loop_result" where
  "ProbeOptions w visit name modParams opts =
     (case genDeps w visit opts of
        Err e \<Rightarrow> Some (Err e, [], [])
      | Panic \<Rightarrow> Some (Panic, [], [])
      | Ok deps \<Rightarrow> probe_deps w visit name modParams opts deps [])"

definition Probe_module :: "kmod_world \<Rightarrow> (string list \<Rightarrow> string list) \<Rightarrow> string \<Rightarrow> string \<Rightarrow> (kmod_error, depMap \<times> kmod_call list) loop_result" where
  "Probe_module w visit name modParams =
     ProbeOptions w visit name modParams \<lparr>DryRun = False, RootDir = [], KVer = [], IgnoreProcMods = False\<rparr>"

end
