(* ===== verification/KModuleProof.thy ===== *)
theory KModuleProof imports KModule begin

text \<open>
  Loading a kernel module: every module is loaded once and after all it depends on, the search always ends, and on a
  dependency map without cycles and gaps it succeeds.
\<close>

section \<open>States\<close>

definition st :: "depMap \<Rightarrow> string \<Rightarrow> modState option" where
  "st m p = map_option DState (map_of m p)"

definition deps_of :: "depMap \<Rightarrow> string \<Rightarrow> string list" where
  "deps_of m p = (case map_of m p of Some d \<Rightarrow> DDeps d | None \<Rightarrow> [])"

definition ready :: "depMap \<Rightarrow> string \<Rightarrow> bool" where
  "ready m p \<longleftrightarrow> st m p = Some Loaded \<or> st m p = Some Builtin"

lemma map_of_set_state: "map_of (set_state p s m) q = (if q = p then map_option (\<lambda>d. d\<lparr>DState := s\<rparr>) (map_of m q) else map_of m q)"
  by (induction m) (auto simp: set_state_def)

lemma st_set_state: "st (set_state p s m) q = (if q = p \<and> st m p \<noteq> None then Some s else st m q)"
  by (auto simp: st_def map_of_set_state split: option.splits)

lemma deps_of_set_state [simp]: "deps_of (set_state p s m) q = deps_of m q"
  by (auto simp: deps_of_def map_of_set_state split: option.splits)

text \<open>The modules whose loading was tried, in order.\<close>

fun attempt :: "kmod_call \<Rightarrow> string option" where
  "attempt (KOpen p) = Some p"
| "attempt (KDryRun p) = Some p"
| "attempt _ = None"

definition attempts :: "kmod_call list \<Rightarrow> string list" where
  "attempts t = List.map_filter attempt t"

lemma attempts_append [simp]: "attempts (a @ b) = attempts a @ attempts b"
  by (simp add: attempts_def List.map_filter_def)

lemma attempts_kcall: "attempt c = None \<Longrightarrow> kcall w c t = (x, t') \<Longrightarrow> attempts t' = attempts t"
  by (auto simp: kcall_def attempts_def List.map_filter_def)

lemma attempts_init: "init_image w img opts t = (x, t') \<Longrightarrow> attempts t' = attempts t"
  by (auto simp: init_image_def Init_module_def split: res.splits dest: attempts_kcall [rotated])

lemma attempts_FileInit:
  assumes "FileInit w p opts fl t = (x, t')"
  shows "attempts t' = attempts t"
proof -
  obtain y t1 where k: "kcall w (KFinitModule p opts fl) t = (y, t1)" by fastforce
  then have "attempts t1 = attempts t" by (intro attempts_kcall) simp_all
  then show ?thesis
    using assms k by (cases y) (auto simp: FileInit_def attempts_init split: if_splits kmod_error.splits dest!: attempts_init)
qed

lemma attempts_load:
  assumes "loadModule_file w opts p ps t = (x, t')"
  shows "attempts t' = attempts t @ [p]"
proof (cases "DryRun opts")
  case False
  obtain y t1 where k: "kcall w (KOpen p) t = (y, t1)" by fastforce
  then have "attempts t1 = attempts t @ [p]" by (auto simp: kcall_def attempts_def List.map_filter_def)
  then show ?thesis
    using assms k False by (cases y) (auto simp: loadModule_file_def split: res.splits prod.splits dest!: attempts_FileInit)
qed (use assms in \<open>auto simp: loadModule_file_def attempts_def List.map_filter_def\<close>)

section \<open>What a successful run does\<close>

text \<open>The modules \<open>ls\<close> were loaded, each once, and each after what it depends on.\<close>

definition loads_all :: "depMap \<times> kmod_call list \<Rightarrow> depMap \<times> kmod_call list \<Rightarrow> string list \<Rightarrow> bool" where
  "loads_all s s' ls \<longleftrightarrow> attempts (snd s') = attempts (snd s) @ ls \<and> distinct ls \<and>
     (\<forall>q. deps_of (fst s') q = deps_of (fst s) q) \<and> (\<forall>q \<in> set ls. st (fst s) q = Some Unloaded) \<and>
     (\<forall>q. st (fst s') q = (if q \<in> set ls then Some Loaded else st (fst s) q)) \<and>
     (\<forall>i < length ls. \<forall>d \<in> set (deps_of (fst s) (ls ! i)). ready (fst s) d \<or> d \<in> set (take i ls))"

lemma loads_all_refl: "loads_all s s []"
  by (simp add: loads_all_def)

lemma loads_all_ready: "loads_all s s' ls \<Longrightarrow> ready (fst s) d \<Longrightarrow> ready (fst s') d"
  by (auto simp: loads_all_def ready_def)

lemma loads_all_ready_rev: "loads_all s s' ls \<Longrightarrow> ready (fst s') d \<Longrightarrow> ready (fst s) d \<or> d \<in> set ls"
  by (auto simp: loads_all_def ready_def)

lemma loads_all_trans:
  assumes "loads_all a b l1" "loads_all b c l2"
  shows "loads_all a c (l1 @ l2)"
proof -
  have dis: "set l1 \<inter> set l2 = {}" using assms unfolding loads_all_def by fastforce
  have order: "ready (fst a) d \<or> d \<in> set (take i (l1 @ l2))"
    if i: "i < length (l1 @ l2)" and d: "d \<in> set (deps_of (fst a) ((l1 @ l2) ! i))" for i d
  proof (cases "i < length l1")
    case True
    then have "d \<in> set (deps_of (fst a) (l1 ! i))" using d by (simp add: nth_append)
    then show ?thesis using assms(1) True unfolding loads_all_def by auto
  next
    case False
    then have "d \<in> set (deps_of (fst b) (l2 ! (i - length l1)))" "i - length l1 < length l2"
      using d i assms(1) by (simp_all add: nth_append loads_all_def)
    then have "ready (fst b) d \<or> d \<in> set (take (i - length l1) l2)" using assms(2) unfolding loads_all_def by blast
    then show ?thesis using loads_all_ready_rev [OF assms(1)] False by auto
  qed
  have "\<forall>q. st (fst c) q = (if q \<in> set (l1 @ l2) then Some Loaded else st (fst a) q)"
    using assms unfolding loads_all_def by simp
  moreover have "\<forall>q \<in> set (l1 @ l2). st (fst a) q = Some Unloaded"
    using assms dis unfolding loads_all_def by auto (metis disjoint_iff)
  ultimately show ?thesis using assms dis order unfolding loads_all_def by simp
qed

lemma for_loop_loads:
  assumes "for_loop (\<lambda>_. False) fn ds s = Some (Ok (), s')"
    and "\<And>d s s'. fn d s = Some (Ok (), s') \<Longrightarrow> \<exists>ls. loads_all s s' ls \<and> ready (fst s') d"
  shows "\<exists>ls. loads_all s s' ls \<and> (\<forall>d \<in> set ds. ready (fst s') d)"
  using assms(1)
proof (induction ds arbitrary: s)
  case Nil
  then show ?case using loads_all_refl [of s'] by auto
next
  case (Cons d ds)
  then obtain s1 where f: "fn d s = Some (Ok (), s1)" "for_loop (\<lambda>_. False) fn ds s1 = Some (Ok (), s')"
    by (auto split: option.splits res.splits)
  obtain l1 where l1: "loads_all s s1 l1" "ready (fst s1) d" using assms(2) [OF f(1)] by blast
  obtain l2 where l2: "loads_all s1 s' l2" "\<forall>d \<in> set ds. ready (fst s') d" using Cons.IH [OF f(2)] by blast
  show ?case using loads_all_trans [OF l1(1) l2(1)] loads_all_ready [OF l2(1) l1(2)] l2(2) by auto
qed

text \<open>The module itself, after what it depends on.\<close>

lemma loads_self:
  assumes "map_of m p = Some d" "DState d = Unloaded" "loads_all (set_state p Loading m, t) (m1, t1) l1"
    and "\<forall>q \<in> set (DDeps d). ready m1 q" "attempts t2 = attempts t1 @ [p]"
  shows "loads_all (m, t) (set_state p Loaded m1, t2) (l1 @ [p])" "ready (set_state p Loaded m1) p"
proof -
  let ?m0 = "set_state p Loading m"
  have p0: "st m p = Some Unloaded" "st ?m0 p = Some Loading" "deps_of m p = DDeps d"
    using assms(1,2) by (simp_all add: st_def st_set_state deps_of_def map_of_set_state)
  have l: "attempts t1 = attempts t @ l1" "distinct l1" "\<forall>q. deps_of m1 q = deps_of m q" "\<forall>q \<in> set l1. st ?m0 q = Some Unloaded"
    "\<forall>q. st m1 q = (if q \<in> set l1 then Some Loaded else st ?m0 q)"
    "\<forall>i < length l1. \<forall>d \<in> set (deps_of m (l1 ! i)). ready ?m0 d \<or> d \<in> set (take i l1)"
    using assms(3) by (simp_all add: loads_all_def)
  have np: "p \<notin> set l1" using l(4) p0(2) by fastforce
  have r0: "ready m q" if "ready ?m0 q" for q using that p0 by (auto simp: ready_def st_set_state split: if_splits)
  have un: "\<forall>q \<in> set (l1 @ [p]). st m q = Some Unloaded" using l(4) p0 by (auto simp: st_set_state split: if_splits)
  have m1p: "st m1 p = Some Loading" using l(5) np p0(2) by simp
  have sts: "\<forall>q. st (set_state p Loaded m1) q = (if q \<in> set (l1 @ [p]) then Some Loaded else st m q)"
    using l(5) m1p by (auto simp: st_set_state)
  have "ready m q \<or> q \<in> set l1" if "q \<in> set (DDeps d)" for q
    using loads_all_ready_rev [OF assms(3), of q] assms(4) that r0 by auto
  then have "\<forall>i < length (l1 @ [p]). \<forall>d \<in> set (deps_of m ((l1 @ [p]) ! i)). ready m d \<or> d \<in> set (take i (l1 @ [p]))"
    using l(6) r0 p0(3) by (auto simp: nth_append less_Suc_eq)
  then show "loads_all (m, t) (set_state p Loaded m1, t2) (l1 @ [p])"
    using l(1-3) np un sts assms(5) by (simp add: loads_all_def)
  show "ready (set_state p Loaded m1) p" using sts by (simp add: ready_def)
qed

lemma loadDeps_loads:
  assumes "loadDeps w opts p s = Some (Ok (), s')"
  shows "\<exists>ls. loads_all s s' ls \<and> ready (fst s') p"
proof -
  have "\<forall>s''. (Ok () :: (kmod_error, unit) res, s') = (Ok (), s'') \<longrightarrow> (\<exists>ls. loads_all s s'' ls \<and> ready (fst s'') p)"
  proof (rule loadDeps.raw_induct [OF _ assms,
        where P = "\<lambda>w opts p s y. \<forall>s''. y = (Ok (), s'') \<longrightarrow> (\<exists>ls. loads_all s s'' ls \<and> ready (fst s'') p)"], goal_cases)
    case (1 rec w opts p s y)
    show ?case
    proof (intro allI impI)
      fix s' assume y: "y = (Ok (), s')"
      obtain m t where s: "s = (m, t)" by fastforce
      obtain d where d: "map_of m p = Some d" using 1(2) y by (auto simp: s split: option.splits)
      show "\<exists>ls. loads_all s s' ls \<and> ready (fst s') p"
      proof (cases "DState d = Unloaded")
        case False
        then have "s' = s" "ready m p" using 1(2) y d by (auto simp: s ready_def st_def split: if_splits; cases "DState d"; simp)+
        then show ?thesis using loads_all_refl by (auto simp: s)
      next
        case True
        then obtain m1 t1 t2 where l: "for_loop (\<lambda>_. False) (rec w opts) (DDeps d) (set_state p Loading m, t) = Some (Ok (), m1, t1)"
            "loadModule_file w opts p [] t1 = (Ok (), t2)" "s' = (set_state p Loaded m1, t2)"
          using 1(2) y d by (auto simp: s split: bind_splits res.splits prod.splits)
        from for_loop_loads [OF l(1)] 1(1) obtain l1 where "loads_all (set_state p Loading m, t) (m1, t1) l1" "\<forall>q \<in> set (DDeps d). ready m1 q"
          by fastforce
        from loads_self [OF d True this attempts_load [OF l(2)]] show ?thesis by (auto simp: s l(3))
      qed
    qed
  qed
  then show ?thesis by blast
qed

section \<open>Loading ends\<close>

lemma for_loop_ends_inv:
  assumes "\<And>x s. x \<in> set xs \<Longrightarrow> I s \<Longrightarrow> \<exists>r s'. fn x s = Some (r, s') \<and> I s'" "I s"
  shows "\<exists>y. for_loop skip fn xs s = Some y"
  using assms
proof (induction xs arbitrary: s)
  case (Cons x xs)
  obtain r s' where f: "fn x s = Some (r, s')" "I s'" using Cons.prems by fastforce
  have "\<exists>y. for_loop skip fn xs s' = Some y" by (rule Cons.IH) (use Cons.prems(1) f(2) in auto)
  then show ?case using f(1) by (cases r) auto
qed simp

lemma for_loop_Ok_inv:
  assumes "\<And>x s. x \<in> set xs \<Longrightarrow> I s \<Longrightarrow> \<exists>s'. fn x s = Some (Ok (), s') \<and> I s'" "I s"
  shows "\<exists>s'. for_loop skip fn xs s = Some (Ok (), s') \<and> I s'"
  using assms
proof (induction xs arbitrary: s)
  case (Cons x xs)
  obtain s' where f: "fn x s = Some (Ok (), s')" "I s'" using Cons.prems by fastforce
  have "\<exists>t. for_loop skip fn xs s' = Some (Ok (), t) \<and> I t" by (rule Cons.IH) (use Cons.prems(1) f(2) in auto)
  then show ?case using f(1) by simp
qed simp

definition unloaded :: "depMap \<Rightarrow> string set" where
  "unloaded m = {p. st m p = Some Unloaded}"

lemma finite_unloaded: "finite (unloaded m)"
proof (rule finite_subset)
  show "unloaded m \<subseteq> fst ` set m" by (force simp: unloaded_def st_def dest: map_of_SomeD split: option.splits)
qed simp

lemma unloaded_set: "s \<noteq> Unloaded \<Longrightarrow> unloaded (set_state p s m) \<subseteq> unloaded m - {p}"
  by (auto simp: unloaded_def st_set_state split: if_splits)

lemma loadDeps_unloaded:
  assumes "loadDeps w opts p s = Some y"
  shows "unloaded (fst (snd y)) \<subseteq> unloaded (fst s)"
proof (rule loadDeps.raw_induct [OF _ assms, where P = "\<lambda>w opts p s y. unloaded (fst (snd y)) \<subseteq> unloaded (fst s)"], goal_cases)
  case (1 rec w opts p s y)
  let ?M = "unloaded (fst s)"
  have "unloaded (fst s') \<subseteq> ?M"
    if "for_loop (\<lambda>_. False) (rec w opts) ds (set_state p Loading (fst s), snd s) = Some (x, s')" for ds x s'
    by (rule for_loop_keeps [OF that, where I = "\<lambda>s. unloaded (fst s) \<subseteq> ?M"])
      (use unloaded_set [of Loading p "fst s"] 1(1) in fastforce)+
  note l = this
  show ?case
  proof (cases "map_of (fst s) p")
    case (Some d)
    show ?thesis
    proof (cases "DState d = Unloaded")
      case True
      then obtain x m1 t1 where f: "for_loop (\<lambda>_. False) (rec w opts) (DDeps d) (set_state p Loading (fst s), snd s) = Some (x, m1, t1)"
        using 1(2) Some by (auto simp: Option.bind_eq_Some_conv)
      have m1: "unloaded m1 \<subseteq> ?M" using l [OF f] by simp
      moreover have "unloaded (set_state p Loaded m1) \<subseteq> ?M" using m1 unloaded_set [of Loaded p m1] by auto
      ultimately show ?thesis using 1(2) Some True f by (cases x) (auto split: prod.splits res.splits)
    qed (use 1(2) Some in \<open>cases "DState d"; auto\<close>)
  qed (use 1(2) in auto)
qed

text \<open>loading a module and its dependencies always ends, cycles or not: a module is entered only while it is unloaded.\<close>

theorem loadDeps_ends: "\<exists>y. loadDeps w opts p s = Some y"
proof (induction "card (unloaded (fst s))" arbitrary: p s rule: less_induct)
  case less
  show ?case
  proof (cases "map_of (fst s) p")
    case (Some d)
    show ?thesis
    proof (cases "DState d = Unloaded")
      case True
      let ?s1 = "(set_state p Loading (fst s), snd s)"
      have "p \<in> unloaded (fst s)" using Some True by (simp add: unloaded_def st_def)
      then have lt: "card A < card (unloaded (fst s))" if "A \<subseteq> unloaded (fst ?s1)" for A
        using that unloaded_set [of Loading p "fst s"] finite_unloaded by (intro psubset_card_mono) auto
      have "\<exists>y. for_loop (\<lambda>_. False) (loadDeps w opts) (DDeps d) ?s1 = Some y"
      proof (rule for_loop_ends_inv [where I = "\<lambda>t. unloaded (fst t) \<subseteq> unloaded (fst ?s1)"])
        fix x and t :: "depMap \<times> kmod_call list" assume t: "unloaded (fst t) \<subseteq> unloaded (fst ?s1)"
        obtain r t' where y: "loadDeps w opts x t = Some (r, t')" using less.hyps [OF lt [OF t]] by (metis surj_pair)
        then show "\<exists>r t'. loadDeps w opts x t = Some (r, t') \<and> unloaded (fst t') \<subseteq> unloaded (fst ?s1)"
          using loadDeps_unloaded [OF y] t by auto
      qed simp
      then obtain x m1 t1 where "for_loop (\<lambda>_. False) (loadDeps w opts) (DDeps d) ?s1 = Some (x, m1, t1)" by auto
      then show ?thesis using Some True by (subst loadDeps.simps, cases x) (auto split: prod.splits res.splits)
    qed (use Some in \<open>subst loadDeps.simps, cases "DState d"; simp\<close>)
  qed (subst loadDeps.simps, simp)
qed

section \<open>Probing\<close>

lemma dep_lines_not_loading:
  assumes "dep_lines dir ls m = Ok m'" "\<forall>p. st m p \<noteq> Some Loading"
  shows "\<forall>p. st m' p \<noteq> Some Loading"
  using assms
proof (induction ls arbitrary: m)
  case (Cons l ls)
  then obtain m1 where m1: "dep_line dir l m = Ok m1" "dep_lines dir ls m1 = Ok m'" by auto
  have "\<forall>p. st m1 p \<noteq> Some Loading"
    using m1(1) Cons.prems(2) by (auto simp: dep_line_def st_def update_conv' split: list.splits if_splits)
  with Cons.IH [OF m1(2)] show ?case .
qed simp

lemma mark_not_loading: "\<forall>p. st m p \<noteq> Some Loading \<Longrightarrow> s \<noteq> Loading \<Longrightarrow> \<forall>p. st (mark_state q s m) p \<noteq> Some Loading"
  by (auto simp: mark_state_def st_set_state) (auto simp: st_def update_conv' new_dependency_def split: if_splits)

lemma genDeps_not_loading:
  assumes "genDeps w visit opts = Ok deps"
  shows "st deps p \<noteq> Some Loading"
proof -
  have b: "\<forall>p. st (fold (\<lambda>l. mark_state (f l) Builtin) ls m) p \<noteq> Some Loading" if "\<forall>p. st m p \<noteq> Some Loading" for f ls m
    using that by (induction ls arbitrary: m) (simp_all add: mark_not_loading)
  have g: "\<forall>p. st (genLoadedMods visit ls m) p \<noteq> Some Loading" if "\<forall>p. st m p \<noteq> Some Loading" for ls m
    using that by (induction ls arbitrary: m) (simp_all add: mark_not_loading split: res.split)
  have "\<forall>p. st [] p \<noteq> Some Loading" by (simp add: st_def)
  note d = dep_lines_not_loading [OF _ this]
  have c: "\<forall>p. st m' p \<noteq> Some Loading" if "checkBuiltin w dir m = Ok m'" "\<forall>p. st m p \<noteq> Some Loading" for dir m m'
    using that b [OF that(2), of "\<lambda>l. Join dir (TrimSpace l)"] by (auto simp: checkBuiltin_def Let_def split: res.splits option.splits if_splits)
  obtain rel where r: "(let moduleDir = module_dir w (RootDir opts) rel in
     case kw_lines w (Join moduleDir ''modules.dep'') of
       Err e \<Rightarrow> Err (KmOpenDeps e) | Panic \<Rightarrow> Panic
     | Ok (ls, e) \<Rightarrow> rbind (dep_lines moduleDir ls []) (\<lambda>deps.
         case e of Some e \<Rightarrow> Err (KmScan e)
         | None \<Rightarrow> rbind (checkBuiltin w moduleDir deps) (\<lambda>deps1.
               if IgnoreProcMods opts then Ok deps1
               else (case kw_lines w ''/proc/modules'' of Ok (pl, _) \<Rightarrow> Ok (genLoadedMods visit pl deps1) | _ \<Rightarrow> Ok deps1)))) = Ok deps"
    using assms unfolding genDeps_def rbind_eq_Ok by blast
  let ?dir = "module_dir w (RootDir opts) rel"
  obtain ls e where l: "kw_lines w (Join ?dir ''modules.dep'') = Ok (ls, e)"
    using r by (cases "kw_lines w (Join ?dir ''modules.dep'')") auto
  obtain m1 m2 where m: "dep_lines ?dir ls [] = Ok m1" "checkBuiltin w ?dir m1 = Ok m2"
    "(if IgnoreProcMods opts then Ok m2
      else (case kw_lines w ''/proc/modules'' of Ok (pl, _) \<Rightarrow> Ok (genLoadedMods visit pl m2) | _ \<Rightarrow> Ok m2)) = (Ok deps :: (kmod_error, depMap) res)"
    using r l unfolding Let_def by (cases e) auto
  have "deps = m2 \<or> (\<exists>pl. deps = genLoadedMods visit pl m2)"
    using m(3) by (cases "IgnoreProcMods opts"; cases "kw_lines w ''/proc/modules''") auto
  moreover have "\<forall>p. st m2 p \<noteq> Some Loading" using c [OF m(2) d [OF m(1)]] .
  ultimately show ?thesis using g by blast
qed

text \<open>C22: a probe that succeeds loads the module last and each of the modules it depends on once before it: whatever a
  loaded module depends on was already there or was loaded earlier in the run.\<close>

theorem Probe_order:
  assumes "genDeps w visit opts = Ok deps" "ProbeOptions w visit name modParams opts = Some (Ok (), deps', t)"
  shows "\<exists>p. findModPath visit name deps = Ok p \<and> (ready deps p \<and> t = [] \<or>
    (\<exists>ls. attempts t = ls @ [p] \<and> distinct (ls @ [p]) \<and> (\<forall>q \<in> set (ls @ [p]). st deps q = Some Unloaded) \<and>
      (\<forall>i < length (ls @ [p]). \<forall>d \<in> set (deps_of deps ((ls @ [p]) ! i)). ready deps d \<or> d \<in> set (take i (ls @ [p])))))"
proof -
  have pr: "probe_deps w visit name modParams opts deps [] = Some (Ok (), deps', t)" using assms by (simp add: ProbeOptions_def)
  then obtain p where p: "findModPath visit name deps = Ok p" by (auto simp: probe_deps_def split: res.splits)
  obtain d where d: "map_of deps p = Some d" using pr p by (auto simp: probe_deps_def split: option.splits)
  show ?thesis
  proof (cases "DState d = Unloaded")
    case False
    moreover have "DState d \<noteq> Loading" using genDeps_not_loading [OF assms(1), of p] d by (auto simp: st_def)
    ultimately have "ready deps p \<and> t = []" using pr p d by (cases "DState d") (auto simp: probe_deps_def ready_def st_def)
    with p show ?thesis by blast
  next
    case True
    then obtain m1 t1 where f: "for_loop (\<lambda>_. False) (loadDeps w opts) (DDeps d) (set_state p Loading deps, []) = Some (Ok (), m1, t1)"
        "loadModule_file w opts p modParams t1 = (Ok (), t)"
      using pr p d by (auto simp: probe_deps_def split: option.splits res.splits prod.splits)
    from for_loop_loads [OF f(1) loadDeps_loads [of w opts]] obtain l1 where
      "loads_all (set_state p Loading deps, []) (m1, t1) l1" "\<forall>q \<in> set (DDeps d). ready m1 q" by auto
    from loads_self(1) [OF d True this attempts_load [OF f(2)]]
    have "loads_all (deps, []) (set_state p Loaded m1, t) (l1 @ [p])" .
    then have "attempts t = l1 @ [p]" "distinct (l1 @ [p])" "\<forall>q \<in> set (l1 @ [p]). st deps q = Some Unloaded"
      "\<forall>i < length (l1 @ [p]). \<forall>d \<in> set (deps_of deps ((l1 @ [p]) ! i)). ready deps d \<or> d \<in> set (take i (l1 @ [p]))"
      unfolding loads_all_def by (simp_all add: attempts_def List.map_filter_def)
    with p show ?thesis by blast
  qed
qed

text \<open>What holds of the state while the dependencies of a module are loaded.\<close>

definition under :: "depMap \<Rightarrow> (string \<Rightarrow> nat) \<Rightarrow> nat \<Rightarrow> depMap \<Rightarrow> bool" where
  "under deps rank n m \<longleftrightarrow> (\<forall>q. deps_of m q = deps_of deps q \<and> (st m q = None \<longleftrightarrow> st deps q = None) \<and>
     (st m q = Some Loading \<longrightarrow> n \<le> rank q))"

lemma under_loads: "under deps rank n (fst s) \<Longrightarrow> loads_all s s' ls \<Longrightarrow> under deps rank n (fst s')"
  unfolding under_def loads_all_def by (metis modState.distinct(7) option.distinct(1) option.inject)

lemma loadDeps_live:
  fixes rank :: "string \<Rightarrow> nat"
  assumes closed: "\<And>p d. d \<in> set (deps_of deps p) \<Longrightarrow> st deps d \<noteq> None \<and> rank d < rank p"
    and acc: "\<And>p ps t. \<exists>t'. loadModule_file w opts p ps t = (Ok (), t')"
  shows "st deps p \<noteq> None \<Longrightarrow> under deps rank (Suc (rank p)) (fst s) \<Longrightarrow> \<exists>s'. loadDeps w opts p s = Some (Ok (), s')"
proof (induction "rank p" arbitrary: p s rule: less_induct)
  case less
  have "st (fst s) p \<noteq> None" using less.prems(1) less.prems(2) [unfolded under_def, rule_format, of p] by simp
  then obtain d where d: "map_of (fst s) p = Some d" by (auto simp: st_def)
  have nl: "DState d \<noteq> Loading" using less.prems(2) d unfolding under_def st_def by (metis Suc_n_not_le_n option.simps(9))
  show ?case
  proof (cases "DState d = Unloaded")
    case True
    let ?s1 = "(set_state p Loading (fst s), snd s)"
    have dd: "DDeps d = deps_of deps p" using less.prems(2) d unfolding under_def deps_of_def by (metis option.simps(5))
    have "under deps rank (rank p) (fst ?s1)" using less.prems(2) by (auto simp: under_def st_set_state Suc_le_eq)
    moreover have "\<exists>t'. loadDeps w opts x t = Some (Ok (), t') \<and> under deps rank (rank p) (fst t')"
      if x: "x \<in> set (DDeps d)" and t: "under deps rank (rank p) (fst t)" for x and t :: "depMap \<times> kmod_call list"
    proof -
      have c: "st deps x \<noteq> None" "rank x < rank p" using closed x dd by auto
      then have "under deps rank (Suc (rank x)) (fst t)" using t by (auto simp: under_def)
      from less.hyps [OF c(2,1) this] obtain t' where t': "loadDeps w opts x t = Some (Ok (), t')" by blast
      with under_loads [OF t] loadDeps_loads [OF t'] show ?thesis by blast
    qed
    ultimately obtain s2 where "for_loop (\<lambda>_. False) (loadDeps w opts) (DDeps d) ?s1 = Some (Ok (), s2)"
      using for_loop_Ok_inv [where I = "\<lambda>t. under deps rank (rank p) (fst t)" and fn = "loadDeps w opts" and xs = "DDeps d" and s = ?s1]
      by fastforce
    moreover obtain t2 where "loadModule_file w opts p [] (snd s2) = (Ok (), t2)" using acc by blast
    ultimately show ?thesis using d True by (subst loadDeps.simps) (auto split: prod.splits)
  qed (use d nl in \<open>subst loadDeps.simps, cases "DState d"; simp\<close>)
qed

lemma probe_live:
  fixes rank :: "string \<Rightarrow> nat"
  assumes "genDeps w visit opts = Ok deps" "findModPath visit name deps = Ok p" "st deps p \<noteq> None"
    and closed: "\<And>q d. d \<in> set (deps_of deps q) \<Longrightarrow> st deps d \<noteq> None \<and> rank d < rank q"
    and acc: "\<And>q ps t. \<exists>t'. loadModule_file w opts q ps t = (Ok (), t')"
  shows "\<exists>m' t. ProbeOptions w visit name modParams opts = Some (Ok (), m', t) \<and>
    (ready deps p \<or> (\<exists>ls. attempts t = ls @ [p]) \<and> (\<forall>d \<in> set (deps_of deps p). ready m' d))"
proof -
  obtain d where d: "map_of deps p = Some d" using assms(3) by (auto simp: st_def)
  show ?thesis
  proof (cases "DState d = Unloaded")
    case False
    moreover have "DState d \<noteq> Loading" using genDeps_not_loading [OF assms(1), of p] d by (auto simp: st_def)
    ultimately show ?thesis using assms(1,2) d
      by (cases "DState d") (auto simp: ProbeOptions_def probe_deps_def ready_def st_def)
  next
    case True
    let ?s1 = "(set_state p Loading deps, [] :: kmod_call list)"
    have dd: "DDeps d = deps_of deps p" using d by (simp add: deps_of_def)
    have u: "under deps rank (rank p) (fst ?s1)"
      using genDeps_not_loading [OF assms(1)] by (auto simp: under_def st_set_state)
    have "\<exists>t'. loadDeps w opts x t = Some (Ok (), t') \<and> under deps rank (rank p) (fst t')"
      if x: "x \<in> set (DDeps d)" and t: "under deps rank (rank p) (fst t)" for x and t :: "depMap \<times> kmod_call list"
    proof -
      have c: "st deps x \<noteq> None" "rank x < rank p" using closed x dd by auto
      then have "under deps rank (Suc (rank x)) (fst t)" using t by (auto simp: under_def)
      from loadDeps_live [OF closed acc c(1) this] obtain t' where t': "loadDeps w opts x t = Some (Ok (), t')" by blast
      with under_loads [OF t] loadDeps_loads [OF t'] show ?thesis by blast
    qed
    with u obtain m1 t1 where f: "for_loop (\<lambda>_. False) (loadDeps w opts) (DDeps d) ?s1 = Some (Ok (), m1, t1)"
      using for_loop_Ok_inv [where I = "\<lambda>t. under deps rank (rank p) (fst t)" and fn = "loadDeps w opts" and xs = "DDeps d" and s = ?s1]
      by fastforce
    obtain t2 where l: "loadModule_file w opts p modParams t1 = (Ok (), t2)" using acc by blast
    obtain l1 where l1: "loads_all ?s1 (m1, t1) l1" "\<forall>q \<in> set (DDeps d). ready m1 q"
      using for_loop_loads [OF f loadDeps_loads [of w opts]] by auto
    have "attempts t2 = l1 @ [p]" using l1(1) attempts_load [OF l] by (simp add: loads_all_def attempts_def List.map_filter_def)
    then show ?thesis using assms(1,2) d True f l l1(2) dd by (auto simp: ProbeOptions_def probe_deps_def)
  qed
qed

text \<open>C23: on a dependency map without cycles and without gaps, and a kernel that takes every module, a probe of a module
  in the map succeeds; afterwards the module is loaded and all it depends on is there.\<close>

theorem Probe_succeeds:
  fixes rank :: "string \<Rightarrow> nat"
  assumes "genDeps w visit opts = Ok deps" "findModPath visit name deps = Ok p" "st deps p \<noteq> None"
    and closed: "\<And>q d. d \<in> set (deps_of deps q) \<Longrightarrow> st deps d \<noteq> None \<and> rank d < rank q"
    and acc: "\<And>q ps t. \<exists>t'. loadModule_file w opts q ps t = (Ok (), t')"
  shows "\<exists>m' t. ProbeOptions w visit name modParams opts = Some (Ok (), m', t) \<and>
    (ready deps p \<or> (\<exists>ls. attempts t = ls @ [p]) \<and> (\<forall>d \<in> set (deps_of deps p). ready m' d))"
  by (rule probe_live [OF assms])

section \<open>A concrete run\<close>

text \<open>A module that depends on two others, one of which depends on the other, which is loaded already.\<close>

definition ex_world :: kmod_world where
  "ex_world = \<lparr>kw_call = \<lambda>_ _. None, kw_image = \<lambda>_. Ok [], kw_xz = \<lambda>_. Ok [], kw_gz = \<lambda>_. Ok [], kw_release = Ok ''5'',
     kw_exists = \<lambda>_. True, kw_lines = \<lambda>p. if p = ''/lib/modules/5/modules.dep'' then Ok ([''a.ko: b.ko c.ko'', ''b.ko: c.ko'', ''c.ko:''], None)
       else Err ENOENT\<rparr>"

definition ex_opts :: ProbeOpts where
  "ex_opts = \<lparr>DryRun = False, RootDir = [], KVer = [], IgnoreProcMods = True\<rparr>"

definition ex_deps :: depMap where
  "ex_deps =
     [(''/lib/modules/5/a.ko'', \<lparr>DState = Unloaded, DDeps = [''/lib/modules/5/b.ko'', ''/lib/modules/5/c.ko'']\<rparr>),
      (''/lib/modules/5/b.ko'', \<lparr>DState = Unloaded, DDeps = [''/lib/modules/5/c.ko'']\<rparr>),
      (''/lib/modules/5/c.ko'', \<lparr>DState = Unloaded, DDeps = []\<rparr>)]"

lemma ex_space: "TrimSpace ''5'' = ''5''" "TrimSpace ''a.ko'' = ''a.ko''" "TrimSpace ''b.ko'' = ''b.ko''" "TrimSpace ''c.ko'' = ''c.ko''"
  "TrimSpace '' b.ko c.ko'' = ''b.ko c.ko''" "TrimSpace '' c.ko'' = ''c.ko''"
  by (simp_all add: TrimSpace_def trim_runes_def runes_ascii ascii_def IsSpace_def)

lemma ex_join: "JoinN [[], ''/lib/modules'', ''5''] = ''/lib/modules/5''" "Join ''/lib/modules/5'' ''modules.dep'' = ''/lib/modules/5/modules.dep''"
  "Join ''/lib/modules/5'' ''modules.builtin'' = ''/lib/modules/5/modules.builtin''"
  "Join ''/lib/modules/5'' ''a.ko'' = ''/lib/modules/5/a.ko''" "Join ''/lib/modules/5'' ''b.ko'' = ''/lib/modules/5/b.ko''"
  "Join ''/lib/modules/5'' ''c.ko'' = ''/lib/modules/5/c.ko''"
  by (simp_all add: JoinN_def Join_def Clean_def IsAbs_def slash_def clean_comps_def clean_step_def dot_def dotdot_def path_of_def)

lemma ex_genDeps: "genDeps ex_world (\<lambda>ks. ks) ex_opts = Ok ex_deps"
  by (simp add: genDeps_def ex_world_def ex_opts_def module_dir_def Let_def ex_space ex_join dep_line_def checkBuiltin_def ex_deps_def)

lemma ex_find_mod: "findModPath (\<lambda>ks. ks) ''a'' ex_deps = Ok ''/lib/modules/5/a.ko''"
  by (simp add: findModPath_def ex_deps_def Base_def TrimRight_def slash_def module_names_def Let_def)

lemma ex_closed:
  "d \<in> set (deps_of ex_deps q) \<Longrightarrow> st ex_deps d \<noteq> None \<and>
     (if d = ''/lib/modules/5/a.ko'' then 2 else if d = ''/lib/modules/5/b.ko'' then 1 else 0 :: nat) <
     (if q = ''/lib/modules/5/a.ko'' then 2 else if q = ''/lib/modules/5/b.ko'' then 1 else 0)"
  by (auto simp: deps_of_def ex_deps_def st_def split: if_splits)

lemma ex_accepts: "\<exists>t'. loadModule_file ex_world opts q ps t = (Ok (), t')"
  by (auto simp: loadModule_file_def FileInit_def init_image_def Init_module_def kcall_def ex_world_def)

lemma ex_in_map: "st ex_deps ''/lib/modules/5/a.ko'' \<noteq> None" "\<not> ready ex_deps ''/lib/modules/5/a.ko''"
  by (simp_all add: st_def ex_deps_def ready_def)

theorem Probe_succeeds_witness:
  "\<exists>m' t ls. ProbeOptions ex_world (\<lambda>ks. ks) ''a'' [] ex_opts = Some (Ok (), m', t) \<and> attempts t = ls @ [''/lib/modules/5/a.ko'']"
  using Probe_succeeds [OF ex_genDeps ex_find_mod ex_in_map(1) ex_closed ex_accepts, of "[]"] ex_in_map(2) by blast

theorem Probe_order_witness:
  "\<exists>m' t ls. ProbeOptions ex_world (\<lambda>ks. ks) ''a'' [] ex_opts = Some (Ok (), m', t) \<and> attempts t = ls @ [''/lib/modules/5/a.ko''] \<and>
     ''/lib/modules/5/b.ko'' \<in> set ls"
proof -
  obtain m' t where r: "ProbeOptions ex_world (\<lambda>ks. ks) ''a'' [] ex_opts = Some (Ok (), m', t)"
    using probe_live [OF ex_genDeps ex_find_mod ex_in_map(1) ex_closed ex_accepts, of "[]"] by blast
  let ?p = "''/lib/modules/5/a.ko''"
  obtain ls where ls: "attempts t = ls @ [?p]"
    "\<forall>i < length (ls @ [?p]). \<forall>d \<in> set (deps_of ex_deps ((ls @ [?p]) ! i)). ready ex_deps d \<or> d \<in> set (take i (ls @ [?p]))"
    using Probe_order [OF ex_genDeps r] ex_find_mod ex_in_map(2) by auto
  have "''/lib/modules/5/b.ko'' \<in> set (deps_of ex_deps ?p)" "\<not> ready ex_deps ''/lib/modules/5/b.ko''"
    by (simp_all add: deps_of_def ex_deps_def ready_def st_def)
  then have "''/lib/modules/5/b.ko'' \<in> set ls"
    using ls(2) [rule_format, of "length ls" "''/lib/modules/5/b.ko''"] by simp
  with r ls(1) show ?thesis by blast
qed

section \<open>What goes wrong\<close>

text \<open>A line of \<open>modules.dep\<close> without a colon panics.\<close>

lemma dep_line_panics: "CHR '':'' \<notin> set l \<Longrightarrow> dep_line dir l m = Panic"
  by (simp add: dep_line_def split_on_no_sep)

text \<open>A loaded module that the map does not know ends the search for loaded modules; the rest counts as unloaded.\<close>

lemma unknown_module_stops: "findModPath visit (hd (split_on (CHR '' '') l)) deps = Err e \<Longrightarrow> genLoadedMods visit (l # ls) deps = deps"
  by simp

end
