(* ===== verification/Seeker.thy ===== *)
theory Seeker imports BinStruct begin

text \<open>
  An \<open>io.ReadSeeker\<close> over bytes in memory or a regular file (\<open>io.Seeker\<close>, \<open>encoding/binary\<close>): its content and its
  position. Seeking to a negative position fails and leaves the position; behind the end it is allowed.
  \<open>binary.Read\<close> of a flat structure reads it in full: at the end it reports \<open>EOF\<close>, inside a structure
  \<open>UnexpectedEOF\<close>, and the position is then at the end.
\<close>

record seeker =
  SkData :: "byte list"
  SkPos :: nat

datatype whence = SeekStart | SeekCurrent

definition Seek :: "int \<Rightarrow> whence \<Rightarrow> seeker \<Rightarrow> (io_error, int) res \<times> seeker" where
  "Seek off wh f =
     (let p = (case wh of SeekStart \<Rightarrow> off | SeekCurrent \<Rightarrow> int (SkPos f) + off) in
      if p < 0 then (Err (IoError ''negative position''), f) else (Ok p, f\<lparr>SkPos := nat p\<rparr>))"

definition sk_ReadFull :: "nat \<Rightarrow> seeker \<Rightarrow> (io_error, byte list) res \<times> seeker" where
  "sk_ReadFull n f =
     (case ReadFull (drop (SkPos f) (SkData f)) n of
        Ok (bs, _) \<Rightarrow> (Ok bs, f\<lparr>SkPos := SkPos f + n\<rparr>)
      | Err e \<Rightarrow> (Err e, f\<lparr>SkPos := max (SkPos f) (length (SkData f))\<rparr>)
      | Panic \<Rightarrow> (Panic, f))"

text \<open>\<open>binary.Read\<close> in little endian of a structure with fields of the given widths.\<close>

definition binary_Read :: "nat list \<Rightarrow> seeker \<Rightarrow> (io_error, nat list) res \<times> seeker" where
  "binary_Read ws = sbind (sk_ReadFull (sum_list ws)) (\<lambda>bs. sreturn (unpack ws bs))"

text \<open>\<open>Write\<close> at the position; the file grows when it has to.\<close>

definition sk_Write :: "byte list \<Rightarrow> seeker \<Rightarrow> (io_error, unit) res \<times> seeker" where
  "sk_Write bs f = (Ok (), f\<lparr>SkData := overwrite (SkData f) (SkPos f) bs, SkPos := SkPos f + length bs\<rparr>)"

lemma Seek_Start [simp]: "0 \<le> off \<Longrightarrow> Seek off SeekStart f = (Ok off, f\<lparr>SkPos := nat off\<rparr>)"
  by (simp add: Seek_def)

lemma Seek_Current [simp]: "Seek (int n) SeekCurrent f = (Ok (int (SkPos f + n)), f\<lparr>SkPos := SkPos f + n\<rparr>)"
  by (simp add: Seek_def Let_def nat_int_add)

lemma sk_ReadFull_Ok:
  "sk_ReadFull n f = (Ok bs, f') \<longleftrightarrow>
     n \<le> length (drop (SkPos f) (SkData f)) \<and> bs = take n (drop (SkPos f) (SkData f)) \<and> f' = f\<lparr>SkPos := SkPos f + n\<rparr>"
  by (auto simp: sk_ReadFull_def ReadFull_def)

lemma sk_ReadFull_data: "sk_ReadFull n f = (r, f') \<Longrightarrow> SkData f' = SkData f"
  by (auto simp: sk_ReadFull_def split: res.splits)

lemma binary_Read_Ok:
  "binary_Read ws f = (Ok vs, f') \<longleftrightarrow>
     sum_list ws \<le> length (drop (SkPos f) (SkData f)) \<and>
     vs = unpack ws (drop (SkPos f) (SkData f)) \<and> f' = f\<lparr>SkPos := SkPos f + sum_list ws\<rparr>"
  by (auto simp: binary_Read_def sbind_eq_Ok sk_ReadFull_Ok sreturn_def unpack_take)

lemma binary_Read_here:
  "drop (SkPos f) (SkData f) = pack ws vs @ rest \<Longrightarrow> fits ws vs \<Longrightarrow>
   binary_Read ws f = (Ok vs, f\<lparr>SkPos := SkPos f + sum_list ws\<rparr>)"
  by (simp only: binary_Read_Ok) (simp add: length_pack unpack_pack)

lemma binary_Read_EOF:
  "length (SkData f) \<le> SkPos f \<Longrightarrow> 0 < sum_list ws \<Longrightarrow> binary_Read ws f = (Err EOF, f)"
  by (cases "sum_list ws") (auto simp: binary_Read_def sbind_def sk_ReadFull_def ReadFull_def max_def simp del: sum_list_eq_0_iff)

lemma binary_Read_short:
  "SkPos f < length (SkData f) \<Longrightarrow> length (SkData f) < SkPos f + sum_list ws \<Longrightarrow>
   \<exists>f'. binary_Read ws f = (Err UnexpectedEOF, f')"
  by (auto simp: binary_Read_def sbind_def sk_ReadFull_def ReadFull_def)

lemma binary_Read_data: "binary_Read ws f = (r, f') \<Longrightarrow> SkData f' = SkData f"
  by (auto simp: binary_Read_def sbind_def sreturn_def split: prod.splits res.splits dest: sk_ReadFull_data)

end
