(* ===== verification/Zbi.thy ===== *)
theory Zbi imports Seeker Align begin

text \<open>
  \<open>pkg/boot/zbi/zbi.go\<close>: the parser of Zircon boot images. An image is a container header followed by items, each a
  header and a payload padded to eight bytes. The file is an \<open>io.ReadSeeker\<close>.
\<close>

section \<open>Constants and headers\<close>

definition ContainerMagic :: u32 where "ContainerMagic = 0x868cf7e6"
definition ItemMagic :: u32 where "ItemMagic = 0xb5781729"
definition VersionFlag :: u32 where "VersionFlag = 0x00010000"
definition CRC32Flag :: u32 where "CRC32Flag = 0x00020000"
definition NoCRC32Flag :: u32 where "NoCRC32Flag = 0x4a87e8d6"
definition ZBITypeKernelPrefix :: u32 where "ZBITypeKernelPrefix = 0x004e524b"
definition ZBITypeKernelMask :: u32 where "ZBITypeKernelMask = 0x00FFFFFF"

type_synonym ZBIType = u32

definition ZBITypeContainer :: ZBIType where "ZBITypeContainer = 0x544f4f42"
definition ZBITypeKernelX64 :: ZBIType where "ZBITypeKernelX64 = 0x4c4e524b"
definition ZBITypeKernelArm64 :: ZBIType where "ZBITypeKernelArm64 = 0x384e524b"

record ZBITypeMetadata =
  MtName :: string
  MtExtention :: string

text \<open>The table from types to their metadata.\<close>

definition ZBITypes :: "(ZBIType \<times> ZBITypeMetadata) list" where
  "ZBITypes = map (\<lambda>(t, n, e). (t, \<lparr>MtName = n, MtExtention = e\<rparr>))
    [(ZBITypeContainer, ''CONTAINER'', ''.bin''), (ZBITypeKernelX64, ''KERNEL_X64'', ''.bin''),
     (ZBITypeKernelArm64, ''KERNEL_ARM64'', ''.bin''), (0x50494b53, ''DISCARD'', ''.bin''),
     (0x5254534b, ''KERNEL'', ''.bin''), (0x4b534452, ''RAMDISK'', ''.bin''), (0x42534642, ''BOOTFS'', ''.bin''),
     (0x46534642, ''BOOTFS_FACTORY'', ''.bin''), (0x4c444d43, ''CMDLINE'', ''.txt''),
     (0x4d4f4f42, ''CRASHLOG'', ''.bin''), (0x4c4c564e, ''NVRAM'', ''.bin''), (0x44494c50, ''PLATFORM_ID'', ''.bin''),
     (0x43555043, ''CPU_CONFIG'', ''.bin''), (0x544f504f, ''CPU_TOPOLOGY'', ''.bin''),
     (0x434d454d, ''MEM_CONFIG'', ''.bin''), (0x5652444b, ''KERNEL_DRIVER'', ''.bin''),
     (0x50445352, ''ACPI_RSDP'', ''.bin''), (0x49424d53, ''SMBIOS'', ''.bin''),
     (0x53494645, ''EFI_SYSTEM_TABLE'', ''.bin''), (0x42465753, ''FRAMEBUFFER'', ''.bin''),
     (0x47524149, ''IMAGE_ARGS'', ''.txt''), (0x53525642, ''BOOT_VERSION'', ''.bin''),
     (0x4953426d, ''DRV_BOARD_INFO'', ''.bin''), (0x43414d6d, ''DRV_MAC_ADDRESS'', ''.bin''),
     (0x5452506d, ''DRV_PARTITION_MAP'', ''''), (0x524f426d, ''DRV_BOARD_PRIVATE'', ''''),
     (0x42525748, ''HW_REBOOT_REASON'', ''.bin''), (0x4e4c5253, ''SERIAL_NUMBER'', ''.txt''),
     (0x4c465442, ''BOOTLOADER_FILE'', ''.bin''), (0xd00dfeed, ''DEVICETREE'', ''.dtb''),
     (0x444e4152, ''ENTROPY'', ''.bin'')]"

definition IsKernel :: "ZBIType \<Rightarrow> bool" where
  "IsKernel it \<longleftrightarrow> it AND ZBITypeKernelMask = ZBITypeKernelPrefix"

definition IsDriverMetadata :: "ZBIType \<Rightarrow> bool" where
  "IsDriverMetadata it \<longleftrightarrow> it AND 0xFF = 0x6D"

datatype zbi_error = ZbiNoMetadata ZBIType | ZbiIo io_error | ZbiHeaderType ZBIType | ZbiItemMagic u32 | ZbiContainerMagic u32 | ZbiOpen

definition ZBIType_ToString :: "ZBIType \<Rightarrow> (zbi_error, string) res" where
  "ZBIType_ToString it = (case map_of ZBITypes it of Some md \<Rightarrow> Ok (MtName md) | None \<Rightarrow> Err (ZbiNoMetadata it))"

text \<open>The names need no escapes between the quotes.\<close>

definition ZBIType_MarshalJSON :: "ZBIType \<Rightarrow> (zbi_error, byte list) res" where
  "ZBIType_MarshalJSON it = rbind (ZBIType_ToString it) (\<lambda>name. Ok (str_bytes ([CHR 34] @ name @ [CHR 34])))"

record zbi_header =
  ZType :: ZBIType
  ZLength :: u32
  ZExtra :: u32
  ZFlags :: u32
  ZReserved0 :: u32
  ZReserved1 :: u32
  ZMagic :: u32
  ZCRC32 :: u32

record BootItem =
  BiHeader :: zbi_header
  PayloadAddress :: u64

record ZImage =
  ZiHeader :: zbi_header
  BootItems :: "BootItem list"
  Bootable :: bool

definition NewContainerHeader :: "u32 \<Rightarrow> zbi_header" where
  "NewContainerHeader len =
     \<lparr>ZType = ZBITypeContainer, ZLength = len, ZExtra = ContainerMagic, ZFlags = VersionFlag, ZReserved0 = 0,
      ZReserved1 = 0, ZMagic = ItemMagic, ZCRC32 = NoCRC32Flag\<rparr>"

text \<open>The header in the order of its fields, for \<open>encoding/binary\<close>.\<close>

definition zbi_widths :: "nat list" where
  "zbi_widths = [4, 4, 4, 4, 4, 4, 4, 4]"

definition zbi_vals :: "zbi_header \<Rightarrow> nat list" where
  "zbi_vals h = map unat [ZType h, ZLength h, ZExtra h, ZFlags h, ZReserved0 h, ZReserved1 h, ZMagic h, ZCRC32 h]"

definition zbi_header_of :: "nat list \<Rightarrow> zbi_header" where
  "zbi_header_of v =
     \<lparr>ZType = word_of_nat (v ! 0), ZLength = word_of_nat (v ! 1), ZExtra = word_of_nat (v ! 2), ZFlags = word_of_nat (v ! 3),
      ZReserved0 = word_of_nat (v ! 4), ZReserved1 = word_of_nat (v ! 5), ZMagic = word_of_nat (v ! 6), ZCRC32 = word_of_nat (v ! 7)\<rparr>"

section \<open>Reading\<close>

definition zbi_readHeader :: "seeker \<Rightarrow> (io_error, zbi_header) res \<times> seeker" where
  "zbi_readHeader = sbind (binary_Read zbi_widths) (\<lambda>v. sreturn (zbi_header_of v))"

definition isBootable :: "BootItem list \<Rightarrow> bool" where
  "isBootable items = (case items of [] \<Rightarrow> False | i # _ \<Rightarrow> IsKernel (ZType (BiHeader i)))"

definition readContainerHeader :: "seeker \<Rightarrow> (zbi_error, zbi_header) res \<times> seeker" where
  "readContainerHeader f =
     (case sbind (Seek 0 SeekStart) (\<lambda>_. zbi_readHeader) f of
        (Err e, f') \<Rightarrow> (Err (ZbiIo e), f')
      | (Panic, f') \<Rightarrow> (Panic, f')
      | (Ok h, f') \<Rightarrow>
          (if ZType h \<noteq> ZBITypeContainer then Err (ZbiHeaderType (ZType h))
           else if ZMagic h \<noteq> ItemMagic then Err (ZbiItemMagic (ZMagic h))
           else if ZExtra h \<noteq> ContainerMagic then Err (ZbiContainerMagic (ZExtra h))
           else Ok h, f'))"

lemma zbi_readHeader_Ok:
  "zbi_readHeader f = (Ok h, f') \<Longrightarrow> SkData f' = SkData f \<and> SkPos f' = SkPos f + 32 \<and> SkPos f < length (SkData f)"
  by (auto simp: zbi_readHeader_def sbind_eq_Ok binary_Read_Ok sreturn_def zbi_widths_def)

text \<open>
  The loop over the items: the position grows by at least a header each time. The error of the second \<open>Seek\<close> is not
  looked at.
\<close>

function readBootItems :: "BootItem list \<Rightarrow> seeker \<Rightarrow> (zbi_error, BootItem list) res \<times> seeker" where
  "readBootItems items f =
     (case zbi_readHeader f of
        (Err e, f1) \<Rightarrow> (if e = EOF then Ok items else Err (ZbiIo e), f1)
      | (Panic, f1) \<Rightarrow> (Panic, f1)
      | (Ok h, f1) \<Rightarrow>
          (case Seek 0 SeekCurrent f1 of
             (Ok position, f2) \<Rightarrow>
               readBootItems (items @ [\<lparr>BiHeader = h, PayloadAddress = word_of_int position\<rparr>])
                 (snd (Seek (uint (Up (ucast (ZLength h)) 8)) SeekCurrent f2))
           | (Err e, f2) \<Rightarrow> (Err (ZbiIo e), f2)
           | (Panic, f2) \<Rightarrow> (Panic, f2)))"
  by pat_completeness auto

termination
proof (relation "measure (\<lambda>(items, f). length (SkData f) - SkPos f)", goal_cases)
  case (2 items f p f1 h q f2 pos)
  then have "SkData f1 = SkData f \<and> SkPos f1 = SkPos f + 32 \<and> SkPos f < length (SkData f)"
    by (auto dest!: zbi_readHeader_Ok [OF sym])
  moreover have "f2 = f1" using 2 by (auto simp: Seek_def)
  moreover have "uint (Up (ucast (ZLength h)) 8) = int (unat (Up (ucast (ZLength h)) 8))" by (rule uint_nat)
  ultimately show ?case by (simp only: Seek_Current) auto
qed simp

declare readBootItems.simps [simp del]

definition zbi_Read :: "seeker \<Rightarrow> (zbi_error, ZImage) res \<times> seeker" where
  "zbi_Read = sbind readContainerHeader (\<lambda>h. sbind (readBootItems []) (\<lambda>items.
     sreturn \<lparr>ZiHeader = h, BootItems = items, Bootable = isBootable items\<rparr>))"

definition zbi_Load :: "(string \<Rightarrow> byte list option) \<Rightarrow> string \<Rightarrow> (zbi_error, ZImage) res" where
  "zbi_Load open path = (case open path of None \<Rightarrow> Err ZbiOpen | Some bs \<Rightarrow> fst (zbi_Read \<lparr>SkData = bs, SkPos = 0\<rparr>))"


section \<open>Images read back\<close>

definition zbi_pad :: "nat \<Rightarrow> nat" where
  "zbi_pad n = (n + 7) div 8 * 8"

definition zbi_item :: "zbi_header \<times> byte list \<Rightarrow> byte list" where
  "zbi_item i = pack zbi_widths (zbi_vals (fst i)) @ snd i @ replicate (zbi_pad (length (snd i)) - length (snd i)) 0"

definition zbi_image :: "zbi_header \<Rightarrow> (zbi_header \<times> byte list) list \<Rightarrow> byte list" where
  "zbi_image c items = pack zbi_widths (zbi_vals c) @ concat (map zbi_item items)"

fun items_at :: "nat \<Rightarrow> (zbi_header \<times> byte list) list \<Rightarrow> BootItem list" where
  "items_at n [] = []"
| "items_at n (i # is) = \<lparr>BiHeader = fst i, PayloadAddress = word_of_nat (n + 32)\<rparr> # items_at (n + length (zbi_item i)) is"

lemma zbi_pad_ge: "n \<le> zbi_pad n"
  unfolding zbi_pad_def by presburger

lemma fits_zbi: "fits zbi_widths (zbi_vals h)"
  by (simp add: zbi_widths_def zbi_vals_def)

lemma length_zbi_header [simp]: "length (pack zbi_widths (zbi_vals h)) = 32"
  by (simp add: length_pack [OF fits_zbi]) (simp add: zbi_widths_def)

lemma zbi_sum: "0 < sum_list zbi_widths"
  by (simp add: zbi_widths_def)

lemma length_zbi_item [simp]: "length (zbi_item i) = 32 + zbi_pad (length (snd i))"
  using zbi_pad_ge [of "length (snd i)"] by (simp add: zbi_item_def)

lemma zbi_header_of_vals [simp]: "zbi_header_of (zbi_vals h) = h"
  by (simp add: zbi_header_of_def zbi_vals_def)

lemma zbi_readHeader_here:
  "drop (SkPos f) (SkData f) = pack zbi_widths (zbi_vals h) @ rest \<Longrightarrow>
   zbi_readHeader f = (Ok h, f\<lparr>SkPos := SkPos f + 32\<rparr>)"
  by (simp add: zbi_readHeader_def sbind_Ok [OF binary_Read_here [OF _ fits_zbi]] sreturn_def)
     (simp add: zbi_widths_def)

lemma Up8_length: "uint (Up (ucast (w :: u32)) 8) = int (zbi_pad (unat w))"
proof -
  have "unat (ucast w :: u64) = unat w"
    using less_trans [OF unat_u32_lt [of w], of "2 ^ 64"] by (simp add: unsigned_ucast_eq take_bit_eq_mod mod_less)
  with unat_Up [of 3 "ucast w"] unat_u32_lt [of w] have "unat (Up (ucast w) 8) = zbi_pad (unat w)"
    by (simp add: zbi_pad_def)
  then show ?thesis by (metis uint_nat)
qed

lemma readBootItems_written:
  assumes "drop (SkPos f) (SkData f) = concat (map zbi_item items)" "SkPos f \<le> length (SkData f)"
    and "\<forall>(h, p) \<in> set items. unat (ZLength h) = length p"
  shows "\<exists>f'. readBootItems acc f = (Ok (acc @ items_at (SkPos f) items), f')"
  using assms
proof (induction items arbitrary: acc f)
  case Nil
  then have "zbi_readHeader f = (Err EOF, f)"
    by (simp add: zbi_readHeader_def sbind_def binary_Read_EOF zbi_widths_def)
  then show ?case by (subst readBootItems.simps) simp
next
  case (Cons i items)
  obtain h p where i: "i = (h, p)" by fastforce
  have r: "zbi_readHeader f = (Ok h, f\<lparr>SkPos := SkPos f + 32\<rparr>)"
    using Cons.prems(1) by (intro zbi_readHeader_here) (simp add: i zbi_item_def)
  have l: "unat (ZLength h) = length p" using Cons.prems(3) by (simp add: i)
  let ?f = "f\<lparr>SkPos := SkPos f + length (zbi_item i)\<rparr>"
  have d: "drop (SkPos ?f) (SkData ?f) = concat (map zbi_item items)"
    using arg_cong [OF Cons.prems(1), of "drop (length (zbi_item i))"] by (simp add: add.commute)
  have "SkPos ?f \<le> length (SkData ?f)"
    using arg_cong [OF Cons.prems(1), of length] Cons.prems(2) by simp
  from Cons.IH [OF d this, of "acc @ [\<lparr>BiHeader = h, PayloadAddress = word_of_nat (SkPos f + 32)\<rparr>]"] Cons.prems(3)
  obtain f' where "readBootItems (acc @ [\<lparr>BiHeader = h, PayloadAddress = word_of_nat (SkPos f + 32)\<rparr>]) ?f =
      (Ok ((acc @ [\<lparr>BiHeader = h, PayloadAddress = word_of_nat (SkPos f + 32)\<rparr>]) @ items_at (SkPos ?f) items), f')"
    by auto
  moreover have "snd (Seek (uint (Up (ucast (ZLength h)) 8)) SeekCurrent (f\<lparr>SkPos := SkPos f + 32\<rparr>)) = ?f"
    using l by (simp add: Up8_length i)
  moreover have "Seek 0 SeekCurrent (f\<lparr>SkPos := SkPos f + 32\<rparr>) = (Ok (int (SkPos f + 32)), f\<lparr>SkPos := SkPos f + 32\<rparr>)"
    using Seek_Current [of 0] by simp
  ultimately show ?case by (subst readBootItems.simps) (simp add: r i)
qed

lemma items_at_payload:
  assumes "i < length items" "n + length (concat (map zbi_item items)) < 2 ^ 64"
    and "drop n bs = concat (map zbi_item items)"
  shows "BiHeader (items_at n items ! i) = fst (items ! i) \<and>
    take (length (snd (items ! i))) (drop (unat (PayloadAddress (items_at n items ! i))) bs) = snd (items ! i)"
  using assms
proof (induction items arbitrary: n i)
  case (Cons x items)
  show ?case
  proof (cases i)
    case 0
    have "drop (n + 32) bs = drop 32 (drop n bs)" by (simp add: add.commute)
    also have "\<dots> = snd x @ replicate (zbi_pad (length (snd x)) - length (snd x)) 0 @ concat (map zbi_item items)"
      using Cons.prems(3) by (simp add: zbi_item_def [of x])
    finally have "drop (n + 32) bs = \<dots>" .
    moreover have "unat (word_of_nat (n + 32) :: u64) = n + 32"
      using Cons.prems(2) by (intro unat_of_nat64) simp
    ultimately show ?thesis by (simp add: 0 del: of_nat_add)
  next
    case (Suc j)
    have "drop (n + length (zbi_item x)) bs = concat (map zbi_item items)"
      using arg_cong [OF Cons.prems(3), of "drop (length (zbi_item x))"] by (simp add: add.commute)
    then show ?thesis using Cons.IH [of j "n + length (zbi_item x)"] Cons.prems by (simp add: Suc add_ac)
  qed
qed simp

lemma length_items_at [simp]: "length (items_at n items) = length items"
  by (induction items arbitrary: n) auto

text \<open>C27: an image written from a container header and items is read back: the headers, for every item the address of
  its payload, and whether the first item is a kernel.\<close>

theorem zbi_read_written:
  assumes "ZType c = ZBITypeContainer" "ZMagic c = ItemMagic" "ZExtra c = ContainerMagic"
    and "\<forall>(h, p) \<in> set items. unat (ZLength h) = length p" "length (zbi_image c items) < 2 ^ 64"
  shows "\<exists>bis f'. zbi_Read \<lparr>SkData = zbi_image c items, SkPos = n\<rparr> =
      (Ok \<lparr>ZiHeader = c, BootItems = bis, Bootable = (items \<noteq> [] \<and> IsKernel (ZType (fst (hd items))))\<rparr>, f') \<and>
    map BiHeader bis = map fst items \<and>
    (\<forall>i < length items. take (length (snd (items ! i))) (drop (unat (PayloadAddress (bis ! i))) (zbi_image c items)) = snd (items ! i))"
proof -
  let ?d = "zbi_image c items" and ?c = "concat (map zbi_item items)"
  have "zbi_readHeader \<lparr>SkData = ?d, SkPos = 0\<rparr> = (Ok c, \<lparr>SkData = ?d, SkPos = 32\<rparr>)"
    using zbi_readHeader_here [of "\<lparr>SkData = ?d, SkPos = 0\<rparr>" c ?c] by (simp add: zbi_image_def)
  then have c: "readContainerHeader \<lparr>SkData = ?d, SkPos = n\<rparr> = (Ok c, \<lparr>SkData = ?d, SkPos = 32\<rparr>)"
    using assms(1-3) by (simp add: readContainerHeader_def sbind_def)
  have dr: "drop 32 ?d = ?c" by (simp add: zbi_image_def)
  have "length (pack zbi_widths (zbi_vals c)) + length ?c < 2 ^ 64" using assms(5) by (simp only: zbi_image_def length_append)
  then have l: "32 + length ?c < 2 ^ 64" by simp
  obtain f' where r: "readBootItems [] \<lparr>SkData = ?d, SkPos = 32\<rparr> = (Ok (items_at 32 items), f')"
    using readBootItems_written [of "\<lparr>SkData = ?d, SkPos = 32\<rparr>" items "[]"] assms(4) dr by (auto simp: zbi_image_def)
  have b: "isBootable (items_at 32 items) \<longleftrightarrow> items \<noteq> [] \<and> IsKernel (ZType (fst (hd items)))"
    by (cases items) (auto simp: isBootable_def)
  have m: "map BiHeader (items_at 32 items) = map fst items"
    using items_at_payload [OF _ l dr] by (intro nth_equalityI) auto
  show ?thesis
    using items_at_payload [OF _ l dr] m by (simp add: zbi_Read_def sbind_def c r sreturn_def b)
qed

text \<open>Neither the length in the container header nor the end of the file bounds the payload of an item: an image
  that was cut off inside a payload is read without an error.\<close>

lemma truncated_image_accepted:
  "\<exists>f'. zbi_Read \<lparr>SkData = pack zbi_widths (zbi_vals (NewContainerHeader 0)) @
      pack zbi_widths (zbi_vals (NewContainerHeader 1000)) @ [1], SkPos = 0\<rparr> =
    (Ok \<lparr>ZiHeader = NewContainerHeader 0, BootItems = [\<lparr>BiHeader = NewContainerHeader 1000, PayloadAddress = 64\<rparr>], Bootable = False\<rparr>, f')"
proof -
  let ?d = "pack zbi_widths (zbi_vals (NewContainerHeader 0)) @ pack zbi_widths (zbi_vals (NewContainerHeader 1000)) @ [1]"
  have "zbi_readHeader \<lparr>SkData = ?d, SkPos = 0\<rparr> = (Ok (NewContainerHeader 0), \<lparr>SkData = ?d, SkPos = 32\<rparr>)"
    using zbi_readHeader_here [of "\<lparr>SkData = ?d, SkPos = 0\<rparr>" "NewContainerHeader 0"] by simp
  then have c: "readContainerHeader \<lparr>SkData = ?d, SkPos = 0\<rparr> = (Ok (NewContainerHeader 0), \<lparr>SkData = ?d, SkPos = 32\<rparr>)"
    by (simp add: readContainerHeader_def sbind_def) (simp add: NewContainerHeader_def)
  have r: "zbi_readHeader \<lparr>SkData = ?d, SkPos = 32\<rparr> = (Ok (NewContainerHeader 1000), \<lparr>SkData = ?d, SkPos = 64\<rparr>)"
    using zbi_readHeader_here [of "\<lparr>SkData = ?d, SkPos = 32\<rparr>" "NewContainerHeader 1000"] by simp
  have "unat (1000 :: u32) = 1000" by simp
  then have z: "uint (Up (ucast (ZLength (NewContainerHeader 1000))) 8) = int 1000"
    unfolding Up8_length by (simp add: NewContainerHeader_def zbi_pad_def)
  have s: "Seek 0 SeekCurrent \<lparr>SkData = ?d, SkPos = 64\<rparr> = (Ok 64, \<lparr>SkData = ?d, SkPos = 64\<rparr>)"
    using Seek_Current [of 0] by simp
  have s2: "snd (Seek 1000 SeekCurrent \<lparr>SkData = ?d, SkPos = 64\<rparr>) = \<lparr>SkData = ?d, SkPos = 1064\<rparr>"
    using Seek_Current [of 1000] by simp
  have k: "\<not> IsKernel (ZType (NewContainerHeader 1000))"
    by (simp add: IsKernel_def NewContainerHeader_def ZBITypeContainer_def ZBITypeKernelMask_def ZBITypeKernelPrefix_def)
  have e: "zbi_readHeader \<lparr>SkData = ?d, SkPos = 1064\<rparr> = (Err EOF, \<lparr>SkData = ?d, SkPos = 1064\<rparr>)"
    by (simp add: zbi_readHeader_def sbind_def binary_Read_EOF [of _ zbi_widths] zbi_sum)
  show ?thesis
    by (simp add: zbi_Read_def sbind_def c readBootItems.simps [of "[]"] readBootItems.simps [of "[_]"] r s s2 z [simplified] e
        isBootable_def k sreturn_def)
qed

definition ex_zbi :: "(zbi_header \<times> byte list) list" where
  "ex_zbi = [((NewContainerHeader 3)\<lparr>ZType := ZBITypeKernelArm64\<rparr>, [1, 2, 3]), ((NewContainerHeader 9)\<lparr>ZType := 0x4c444d43\<rparr>, [1, 2, 3, 4, 5, 6, 7, 8, 9])]"

theorem zbi_read_written_witness:
  "\<exists>bis f'. zbi_Read \<lparr>SkData = zbi_image (NewContainerHeader 88) ex_zbi, SkPos = 0\<rparr> =
     (Ok \<lparr>ZiHeader = NewContainerHeader 88, BootItems = bis, Bootable = True\<rparr>, f') \<and> length bis = 2"
proof -
  have l: "length (zbi_image (NewContainerHeader 88) ex_zbi) < 2 ^ 64"
    by (simp add: zbi_image_def ex_zbi_def zbi_pad_def)
  have k: "ex_zbi \<noteq> [] \<and> IsKernel (ZType (fst (hd ex_zbi)))"
    by (simp add: ex_zbi_def IsKernel_def ZBITypeKernelArm64_def ZBITypeKernelMask_def ZBITypeKernelPrefix_def)
  have "\<forall>(h, p) \<in> set ex_zbi. unat (ZLength h) = length p" by (simp add: ex_zbi_def NewContainerHeader_def)
  from zbi_read_written [OF _ _ _ this l, of 0] obtain bis f' where
    r: "zbi_Read \<lparr>SkData = zbi_image (NewContainerHeader 88) ex_zbi, SkPos = 0\<rparr> =
      (Ok \<lparr>ZiHeader = NewContainerHeader 88, BootItems = bis, Bootable = (ex_zbi \<noteq> [] \<and> IsKernel (ZType (fst (hd ex_zbi))))\<rparr>, f')"
      "map BiHeader bis = map fst ex_zbi" by (auto simp: NewContainerHeader_def)
  from arg_cong [OF r(2), of length] have "length bis = 2" by (simp add: ex_zbi_def)
  then show ?thesis using r(1) k by auto
qed

end
