(* ===== verification/ZImageArm.thy ===== *)
theory ZImageArm imports Seeker begin

text \<open>
  \<open>pkg/boot/zimage/zimage.go\<close>: the parser of Linux images for 32-bit arm, a header at \<open>0x24\<close> and a table with one
  entry. A \<open>make\<close> of too many words would stop the program; memory is unbounded here.
\<close>

definition zi_Magic :: u32 where "zi_Magic = 0x016f2818"
definition zi_Endianess :: u32 where "zi_Endianess = 0x04030201"
definition zi_TableMagic :: u32 where "zi_TableMagic = 0x45454545"

type_synonym zi_tag = u32

definition TagKernelSize :: zi_tag where "TagKernelSize = 0x5a534c4b"

record zi_header =
  ZhMagic :: u32
  ZhStart :: u32
  ZhEnd :: u32
  ZhEndianess :: u32
  ZhTableMagic :: u32
  ZhTableAddr :: u32

record TableEntry =
  TeTag :: zi_tag
  TeData :: "u32 list"

record zimage =
  ZiHdr :: zi_header
  ZiTable :: "TableEntry list"

datatype zi_error = ZiIo io_error | ZiMagic | ZiEndianess | ZiOrder | ZiNoTag zi_tag | ZiSize nat

text \<open>\<open>binary.Read\<close> of words of 32 bits.\<close>

definition read_u32s :: "nat \<Rightarrow> seeker \<Rightarrow> (zi_error, u32 list) res \<times> seeker" where
  "read_u32s n f =
     (case binary_Read (replicate n 4) f of
        (Ok v, f') \<Rightarrow> (Ok (map word_of_nat v), f') | (Err e, f') \<Rightarrow> (Err (ZiIo e), f') | (Panic, f') \<Rightarrow> (Panic, f'))"

definition zi_seek :: "nat \<Rightarrow> seeker \<Rightarrow> (zi_error, int) res \<times> seeker" where
  "zi_seek n f =
     (case Seek (int n) SeekStart f of
        (Ok p, f') \<Rightarrow> (Ok p, f') | (Err e, f') \<Rightarrow> (Err (ZiIo e), f') | (Panic, f') \<Rightarrow> (Panic, f'))"

definition zi_header_of :: "u32 list \<Rightarrow> zi_header" where
  "zi_header_of v =
     \<lparr>ZhMagic = v ! 0, ZhStart = v ! 1, ZhEnd = v ! 2, ZhEndianess = v ! 3, ZhTableMagic = v ! 4, ZhTableAddr = v ! 5\<rparr>"

text \<open>The loop over the table runs once unless the table is at address 0.\<close>

definition zi_table :: "u32 \<Rightarrow> seeker \<Rightarrow> (zi_error, TableEntry list) res \<times> seeker" where
  "zi_table addr =
     (if addr = 0 then sreturn []
      else sbind (zi_seek (unat addr)) (\<lambda>_. sbind (read_u32s 1) (\<lambda>size. sbind (read_u32s 1) (\<lambda>tag.
        sbind (read_u32s (unat (hd size))) (\<lambda>data. sreturn [\<lparr>TeTag = hd tag, TeData = data\<rparr>])))))"

text \<open>What \<open>Parse\<close> does with the header.\<close>

definition zi_rest :: "zi_header \<Rightarrow> seeker \<Rightarrow> (zi_error, zimage) res \<times> seeker" where
  "zi_rest h =
     (if ZhMagic h \<noteq> zi_Magic then (\<lambda>f. (Err ZiMagic, f))
      else if ZhEndianess h \<noteq> zi_Endianess then (\<lambda>f. (Err ZiEndianess, f))
      else if ZhEnd h < ZhStart h then (\<lambda>f. (Err ZiOrder, f))
      else if ZhTableMagic h \<noteq> zi_TableMagic then sreturn \<lparr>ZiHdr = h, ZiTable = []\<rparr>
      else sbind (zi_table (ZhTableAddr h)) (\<lambda>t. sreturn \<lparr>ZiHdr = h, ZiTable = t\<rparr>))"

definition zimage_Parse :: "seeker \<Rightarrow> (zi_error, zimage) res \<times> seeker" where
  "zimage_Parse = sbind (zi_seek 0x24) (\<lambda>_. sbind (read_u32s 6) (\<lambda>v. zi_rest (zi_header_of v)))"

definition GetEntry :: "zimage \<Rightarrow> zi_tag \<Rightarrow> (zi_error, TableEntry) res" where
  "GetEntry z t = (case List.find (\<lambda>e. TeTag e = t) (ZiTable z) of Some e \<Rightarrow> Ok e | None \<Rightarrow> Err (ZiNoTag t))"

definition GetKernelSizes :: "zimage \<Rightarrow> (zi_error, u32 \<times> u32) res" where
  "GetKernelSizes z =
     rbind (GetEntry z TagKernelSize) (\<lambda>e.
       if length (TeData e) \<noteq> 2 then Err (ZiSize (length (TeData e))) else Ok (TeData e ! 0, TeData e ! 1))"

section \<open>What the parser finds in a file\<close>

text \<open>The words at an offset of a file.\<close>

definition words_at :: "byte list \<Rightarrow> nat \<Rightarrow> nat \<Rightarrow> u32 list" where
  "words_at bs off n = map word_of_nat (unpack (replicate n 4) (drop off bs))"

lemma read_u32s_Ok:
  "read_u32s n f = (Ok v, f') \<longleftrightarrow>
     4 * n \<le> length (SkData f) - SkPos f \<and> v = words_at (SkData f) (SkPos f) n \<and> f' = f\<lparr>SkPos := SkPos f + 4 * n\<rparr>"
proof -
  have b: "binary_Read (replicate n 4) f = (Ok vs, g) \<longleftrightarrow> 4 * n \<le> length (SkData f) - SkPos f \<and>
      vs = unpack (replicate n 4) (drop (SkPos f) (SkData f)) \<and> g = f\<lparr>SkPos := SkPos f + 4 * n\<rparr>" for vs g
    by (simp add: binary_Read_Ok sum_list_replicate mult.commute)
  obtain r g where r: "binary_Read (replicate n 4) f = (r, g)" by fastforce
  show ?thesis
  proof (cases r)
    case (Ok x)
    then show ?thesis using b [of x g] r by (auto simp: read_u32s_def words_at_def)
  qed (use b r in \<open>auto simp: read_u32s_def words_at_def\<close>)
qed

lemma zi_seek_eq [simp]: "zi_seek n f = (Ok (int n), f\<lparr>SkPos := n\<rparr>)"
  by (simp add: zi_seek_def)

lemma length_words_at [simp]: "length (words_at bs off n) = n"
  by (simp add: words_at_def)

lemma words_at_Suc: "words_at bs off (Suc n) = word_of_nat (un_le (take 4 (drop off bs))) # words_at bs (off + 4) n"
  by (simp add: words_at_def add.commute)

lemma words_at_0 [simp]: "words_at bs off 0 = []"
  by (simp add: words_at_def)

lemma words_at_numeral: "words_at bs off (numeral k) =
    word_of_nat (un_le (take 4 (drop off bs))) # words_at bs (off + 4) (pred_numeral k)"
  by (simp add: numeral_eq_Suc words_at_Suc)

lemma zi_table_Ok:
  assumes "addr \<noteq> 0"
  shows "zi_table addr f = (Ok t, f') \<longleftrightarrow>
     (let size = hd (words_at (SkData f) (unat addr) 1) in
       unat addr + 8 + 4 * unat size \<le> length (SkData f) \<and>
       t = [\<lparr>TeTag = hd (words_at (SkData f) (unat addr + 4) 1), TeData = words_at (SkData f) (unat addr + 8) (unat size)\<rparr>] \<and>
       f' = f\<lparr>SkPos := unat addr + 8 + 4 * unat size\<rparr>)"
  using assms by (auto simp: zi_table_def sbind_eq_Ok read_u32s_Ok sreturn_def Let_def add.commute [of "8 :: nat"])

lemma zi_rest_Ok:
  "zi_rest h f = (Ok z, f') \<longleftrightarrow>
     ZhMagic h = zi_Magic \<and> ZhEndianess h = zi_Endianess \<and> ZhStart h \<le> ZhEnd h \<and> ZiHdr z = h \<and>
     (if ZhTableMagic h = zi_TableMagic then zi_table (ZhTableAddr h) f = (Ok (ZiTable z), f')
      else ZiTable z = [] \<and> f' = f)"
  by (cases z) (auto simp: zi_rest_def sbind_eq_Ok sreturn_def)

lemma zimage_Parse_Ok:
  "zimage_Parse \<lparr>SkData = bs, SkPos = n\<rparr> = (Ok z, f') \<longleftrightarrow>
     60 \<le> length bs \<and> zi_rest (zi_header_of (words_at bs 0x24 6)) \<lparr>SkData = bs, SkPos = 60\<rparr> = (Ok z, f')"
  by (auto simp: zimage_Parse_def sbind_eq_Ok read_u32s_Ok)

lemma list6: "length xs = 6 \<Longrightarrow> \<exists>a b c d e f. xs = [a, b, c, d, e, f]"
  by (auto simp: length_Suc_conv numeral_eq_Suc)

lemma words_at_4: "words_at bs off 4 = words_at bs off 1 @ words_at bs (off + 4) 1 @ words_at bs (off + 8) 2"
  by (simp add: words_at_numeral words_at_Suc ac_simps)

lemma words_at_1: "words_at bs off 1 = [hd (words_at bs off 1)]"
  by (simp add: words_at_Suc)

text \<open>C28: the parser succeeds and gives two kernel sizes exactly on the files with a valid header at \<open>0x24\<close> whose table
  address points to an entry of two words with the tag of the kernel sizes inside the file; the sizes are these words.\<close>

theorem zimage_kernel_sizes:
  "(\<exists>z f'. zimage_Parse \<lparr>SkData = bs, SkPos = n\<rparr> = (Ok z, f') \<and> GetKernelSizes z = Ok (a, b)) \<longleftrightarrow>
   (\<exists>s e t. 60 \<le> length bs \<and> words_at bs 0x24 6 = [zi_Magic, s, e, zi_Endianess, zi_TableMagic, t] \<and> s \<le> e \<and> t \<noteq> 0 \<and>
     unat t + 16 \<le> length bs \<and> words_at bs (unat t) 4 = [2, TagKernelSize, a, b])"
  (is "?l \<longleftrightarrow> ?r")
proof
  assume ?l
  then obtain z f' where z: "zimage_Parse \<lparr>SkData = bs, SkPos = n\<rparr> = (Ok z, f')" "GetKernelSizes z = Ok (a, b)" by blast
  obtain m s e d tm t where h: "words_at bs 0x24 6 = [m, s, e, d, tm, t]" using list6 [OF length_words_at] by blast
  have ne: "ZiTable z \<noteq> []" using z(2) by (auto simp: GetKernelSizes_def GetEntry_def)
  with z(1) have hd: "60 \<le> length bs" "m = zi_Magic" "d = zi_Endianess" "s \<le> e" "tm = zi_TableMagic"
      "zi_table t \<lparr>SkData = bs, SkPos = 60\<rparr> = (Ok (ZiTable z), f')"
    by (auto simp: zimage_Parse_Ok zi_rest_Ok h zi_header_of_def split: if_splits)
  have nz: "t \<noteq> 0" using hd(6) ne by (auto simp: zi_table_def sreturn_def)
  define sz where "sz = hd (words_at bs (unat t) 1)"
  define tg where "tg = hd (words_at bs (unat t + 4) 1)"
  have tb: "unat t + 8 + 4 * unat sz \<le> length bs"
      "ZiTable z = [\<lparr>TeTag = tg, TeData = words_at bs (unat t + 8) (unat sz)\<rparr>]"
    using hd(6) by (simp_all add: zi_table_Ok [OF nz] Let_def sz_def tg_def)
  have g: "tg = TagKernelSize" "unat sz = 2"
    using z(2) by (auto simp: tb(2) GetKernelSizes_def GetEntry_def split: if_splits)
  obtain x y where xy: "words_at bs (unat t + 8) 2 = [x, y]" by (simp add: words_at_numeral words_at_Suc)
  with z(2) have "words_at bs (unat t + 8) 2 = [a, b]" by (simp add: tb(2) g GetKernelSizes_def GetEntry_def)
  moreover have "sz = 2" using g(2) by (simp add: word_unat_eq_iff)
  ultimately have "words_at bs (unat t) 4 = [2, TagKernelSize, a, b]"
    using g(1) words_at_1 [of bs "unat t"] words_at_1 [of bs "unat t + 4"]
    unfolding words_at_4 sz_def tg_def by simp
  then show ?r using hd nz h tb(1) g(2) by auto
next
  assume ?r
  then obtain s e t where h: "60 \<le> length bs" "words_at bs 0x24 6 = [zi_Magic, s, e, zi_Endianess, zi_TableMagic, t]" "s \<le> e" "t \<noteq> 0"
    "unat t + 16 \<le> length bs" "words_at bs (unat t) 4 = [2, TagKernelSize, a, b]" by blast
  let ?z = "\<lparr>ZiHdr = zi_header_of (words_at bs 0x24 6), ZiTable = [\<lparr>TeTag = TagKernelSize, TeData = [a, b]\<rparr>]\<rparr>"
  have w: "words_at bs (unat t) 1 = [2]" "words_at bs (unat t + 4) 1 = [TagKernelSize]" "words_at bs (unat t + 8) 2 = [a, b]"
  proof -
    obtain p q where "words_at bs (unat t) 1 = [p]" "words_at bs (unat t + 4) 1 = [q]" by (simp add: words_at_Suc)
    then show "words_at bs (unat t) 1 = [2]" "words_at bs (unat t + 4) 1 = [TagKernelSize]" "words_at bs (unat t + 8) 2 = [a, b]"
      using h(6) unfolding words_at_4 by simp_all
  qed
  have "zimage_Parse \<lparr>SkData = bs, SkPos = n\<rparr> = (Ok ?z, \<lparr>SkData = bs, SkPos = unat t + 16\<rparr>)"
    unfolding zimage_Parse_Ok zi_rest_Ok h(2) zi_header_of_def using h(1,3,5) by (simp add: zi_table_Ok [OF h(4)] w [simplified] Let_def)
  moreover have "GetKernelSizes ?z = Ok (a, b)" by (simp add: GetKernelSizes_def GetEntry_def)
  ultimately show ?l by blast
qed

end
