(* ===== verification/Ebda.thy ===== *)
theory Ebda imports Seeker begin

text \<open>
  \<open>pkg/boot/ebda/ebda.go\<close>: the Extended BIOS Data Area in the memory that \<open>/dev/mem\<close> shows. Physical memory is an
  \<open>io.ReadWriteSeeker\<close>; \<open>int64\<close> fields are unbounded integers.
\<close>

definition EBDAAddressOffset :: int where
  "EBDAAddressOffset = 0x40E"

record EBDA =
  BaseOffset :: int
  EbLength :: int
  EbData :: "byte list"

datatype ebda_error =
  EbSeek io_error | EbRead io_error | EbNoPointer | EbNotKiB int | EbLengths int nat | EbTooLong int

definition eb_seek :: "int \<Rightarrow> seeker \<Rightarrow> (ebda_error, int) res \<times> seeker" where
  "eb_seek off f =
     (case Seek off SeekStart f of
        (Ok p, f') \<Rightarrow> (Ok p, f') | (Err e, f') \<Rightarrow> (Err (EbSeek e), f') | (Panic, f') \<Rightarrow> (Panic, f'))"

definition eb_read :: "nat \<Rightarrow> seeker \<Rightarrow> (ebda_error, byte list) res \<times> seeker" where
  "eb_read n f =
     (case sk_ReadFull n f of
        (Ok bs, f') \<Rightarrow> (Ok bs, f') | (Err e, f') \<Rightarrow> (Err (EbRead e), f') | (Panic, f') \<Rightarrow> (Panic, f'))"

definition findEBDAOffset :: "seeker \<Rightarrow> (ebda_error, int) res \<times> seeker" where
  "findEBDAOffset = sbind (eb_seek EBDAAddressOffset) (\<lambda>_. sbind (eb_read 2) (\<lambda>bs.
     let ep = un_le bs in if ep = 0 then (\<lambda>f. (Err EbNoPointer, f)) else sreturn (int ep * 16)))"

definition ReadEBDA :: "seeker \<Rightarrow> (ebda_error, EBDA) res \<times> seeker" where
  "ReadEBDA = sbind findEBDAOffset (\<lambda>base. sbind (eb_seek base) (\<lambda>_. sbind (eb_read 1) (\<lambda>bs.
     let n = int (un_le bs) * 1024;
         len = (if n = 0 then 0x10000 - base mod 0x10000 else n)
     in sbind (eb_seek base) (\<lambda>_. sbind (eb_read (nat len)) (\<lambda>d.
          sreturn \<lparr>BaseOffset = base, EbLength = len, EbData = d\<rparr>)))))"

text \<open>
  \<open>WriteEBDA\<close> also changes the structure it is given: the base when it was 0 and the first byte of the data. Setting
  the first byte of an empty area panics.
\<close>

definition WriteEBDA :: "EBDA \<Rightarrow> seeker \<Rightarrow> (ebda_error, EBDA) res \<times> seeker" where
  "WriteEBDA e = sbind (if BaseOffset e = 0 then findEBDAOffset else sreturn (BaseOffset e)) (\<lambda>base f.
     if EbLength e mod 1024 \<noteq> 0 then (Err (EbNotKiB (EbLength e)), f)
     else if EbLength e \<noteq> int (length (EbData e)) then (Err (EbLengths (EbLength e) (length (EbData e))), f)
     else if EbLength e div 1024 > 0xff then (Err (EbTooLong (EbLength e div 1024)), f)
     else case EbData e of
         [] \<Rightarrow> (Panic, f)
       | _ # d \<Rightarrow>
           let e' = e\<lparr>BaseOffset := base, EbData := word_of_int (EbLength e div 1024) # d\<rparr> in
           sbind (eb_seek base) (\<lambda>_ f1. case sk_Write (EbData e') f1 of (_, f2) \<Rightarrow> (Ok e', f2)) f)"

section \<open>Round trip\<close>

lemma eb_seek_eq [simp]: "0 \<le> off \<Longrightarrow> eb_seek off f = (Ok off, f\<lparr>SkPos := nat off\<rparr>)"
  by (simp add: eb_seek_def)

lemma eb_read_eq:
  "SkPos f + n \<le> length (SkData f) \<Longrightarrow> eb_read n f = (Ok (take n (drop (SkPos f) (SkData f))), f\<lparr>SkPos := SkPos f + n\<rparr>)"
  by (simp add: eb_read_def sk_ReadFull_def ReadFull_def)

text \<open>The pointer to the area, in units of sixteen bytes.\<close>

definition ebda_pointer :: "byte list \<Rightarrow> nat" where
  "ebda_pointer m = un_le (take 2 (drop 0x40E m))"

lemma findEBDAOffset_eq:
  "0x410 \<le> length (SkData f) \<Longrightarrow> ebda_pointer (SkData f) \<noteq> 0 \<Longrightarrow>
   findEBDAOffset f = (Ok (int (ebda_pointer (SkData f)) * 16), f\<lparr>SkPos := 0x410\<rparr>)"
  by (simp add: findEBDAOffset_def sbind_Ok EBDAAddressOffset_def eb_read_eq ebda_pointer_def Let_def sreturn_def)

text \<open>C29: an area of 1 to 255 KiB that is written to memory at the place the pointer says, above the pointer and inside
  the memory, is read back with its length in the first byte; the rest of the memory keeps its contents.\<close>

theorem ebda_write_read:
  assumes "length (EbData e) = 1024 * k" "0 < k" "k < 256" "EbLength e = int (1024 * k)"
    and "ebda_pointer m = p" "0x410 \<le> p * 16" "p * 16 + 1024 * k \<le> length m"
    and "BaseOffset e = 0 \<or> BaseOffset e = int (p * 16)"
  shows "\<exists>m' n n'. let e' = e\<lparr>BaseOffset := int (p * 16), EbData := word_of_nat k # tl (EbData e)\<rparr> in
    WriteEBDA e \<lparr>SkData = m, SkPos = i\<rparr> = (Ok e', \<lparr>SkData = m', SkPos = n\<rparr>) \<and>
    ReadEBDA \<lparr>SkData = m', SkPos = j\<rparr> = (Ok e', \<lparr>SkData = m', SkPos = n'\<rparr>) \<and>
    take (p * 16) m' = take (p * 16) m \<and> drop (p * 16 + 1024 * k) m' = drop (p * 16 + 1024 * k) m"
proof -
  obtain b d where d: "EbData e = b # d" using assms(1,2) by (cases "EbData e") auto
  define D where "D = (word_of_nat k :: byte) # d"
  have lD: "length D = 1024 * k" using assms(1) by (simp add: D_def d)
  define m' where "m' = overwrite m (p * 16) D"
  define e' where "e' = e\<lparr>BaseOffset := int (p * 16), EbData := D\<rparr>"
  have fit: "p * 16 + length D \<le> length m" using assms(7) by (simp add: lD)
  have m': "length m' = length m" "take (1024 * k) (drop (p * 16) m') = D"
    using length_overwrite [OF fit] overwrite_same [OF fit] by (simp_all add: m'_def lD)
  have ptr: "ebda_pointer m' = p"
    using overwrite_other [OF fit, of "0x40E" 2] assms(5,6) by (simp add: ebda_pointer_def m'_def)
  have p0: "p \<noteq> 0" using assms(6) by auto
  have "(if BaseOffset e = 0 then findEBDAOffset else sreturn (BaseOffset e)) \<lparr>SkData = m, SkPos = i\<rparr> =
      (Ok (int (p * 16)), \<lparr>SkData = m, SkPos = if BaseOffset e = 0 then 0x410 else i\<rparr>)"
    using assms(5-8) findEBDAOffset_eq [of "\<lparr>SkData = m, SkPos = i\<rparr>"] p0 by (auto simp: sreturn_def)
  then have w: "WriteEBDA e \<lparr>SkData = m, SkPos = i\<rparr> = (Ok e', \<lparr>SkData = m', SkPos = p * 16 + 1024 * k\<rparr>)"
    unfolding WriteEBDA_def by (rule sbind_Ok [THEN trans])
      (use assms(1,3,4) lD in \<open>simp add: d sbind_Ok sk_Write_def m'_def e'_def D_def nat_mult_distrib\<close>)
  have f: "findEBDAOffset \<lparr>SkData = m', SkPos = j\<rparr> = (Ok (int (p * 16)), \<lparr>SkData = m', SkPos = 0x410\<rparr>)"
    using findEBDAOffset_eq [of "\<lparr>SkData = m', SkPos = j\<rparr>"] ptr p0 assms(6,7) by (simp add: m')
  have one: "take (Suc 0) (drop (p * 16) m') = [word_of_nat k]"
    using arg_cong [OF m'(2), of "take 1"] assms(2) by (simp add: D_def min_def)
  have k: "un_le [word_of_nat k :: byte] = k"
    using assms(3) by (simp add: un_le_def un_be_def unat_of_nat_small)
  have "ReadEBDA \<lparr>SkData = m', SkPos = j\<rparr> = (Ok e', \<lparr>SkData = m', SkPos = p * 16 + 1024 * k\<rparr>)"
    unfolding ReadEBDA_def sbind_Ok [where f = findEBDAOffset, OF f]
    using assms(2,4,7) m' by (simp add: sbind_Ok eb_read_eq one k Let_def sreturn_def e'_def nat_mult_distrib mult.commute)
  moreover have "take (p * 16) m' = take (p * 16) m" "drop (p * 16 + 1024 * k) m' = drop (p * 16 + 1024 * k) m"
    using fit lD by (simp_all add: m'_def overwrite_def)
  ultimately show ?thesis using w by (auto simp: Let_def e'_def D_def d)
qed

theorem ebda_write_read_witness:
  "\<exists>m' n n'. ReadEBDA \<lparr>SkData = m', SkPos = n\<rparr> =
    (Ok \<lparr>BaseOffset = 0x410, EbLength = 1024, EbData = 1 # replicate 1023 7\<rparr>, \<lparr>SkData = m', SkPos = n'\<rparr>)"
proof -
  let ?m = "replicate 0x40E 0 @ [0x41, 0] @ replicate 1024 0"
  let ?e = "\<lparr>BaseOffset = 0, EbLength = 1024, EbData = replicate 1024 7\<rparr>"
  have p: "ebda_pointer ?m = 0x41" by (simp add: ebda_pointer_def un_le_def un_be_def)
  from ebda_write_read [where e = ?e and k = 1 and m = ?m and p = "0x41", OF _ _ _ _ p] show ?thesis
    unfolding Let_def by (simp, blast)
qed

text \<open>An area without data cannot be written: the first byte is set before anything is checked to be there.\<close>

lemma WriteEBDA_empty_panics:
  "fst (WriteEBDA \<lparr>BaseOffset = 0x9fc00, EbLength = 0, EbData = []\<rparr> f) = Panic"
  by (simp add: WriteEBDA_def sbind_def sreturn_def)

text \<open>An area without a length in its first byte is taken to reach to the end of its segment; what was read can then not
  be written unless that is a multiple of 1 KiB.\<close>

lemma ReadEBDA_not_writable:
  assumes "fst (ReadEBDA f) = Ok e" "EbLength e mod 1024 \<noteq> 0" "BaseOffset e \<noteq> 0"
  shows "fst (WriteEBDA e g) = Err (EbNotKiB (EbLength e))"
  using assms(2,3) by (simp add: WriteEBDA_def sbind_def sreturn_def)

end
