(* ===== verification/GrubEnv.thy ===== *)
theory GrubEnv imports GoText "HOL-Library.AList" "HOL-Library.List_Lexorder" "HOL-Library.Char_ord" begin

text \<open>
  \<open>pkg/boot/grub/entry.go\<close>: the environment block of GRUB, a file of 1024-byte blocks with one \<open>key=value\<close> per line. A
  map is an association list with distinct keys; the file is the string of its bytes.
\<close>

definition grub_blockSize :: nat where
  "grub_blockSize = 1024"

record EnvFile =
  Vars :: "(string \<times> string) list"

definition NewEnvFile :: EnvFile where
  "NewEnvFile = \<lparr>Vars = []\<rparr>"

datatype env_error = EnvSyntax string | EnvTooLong

definition env_header :: string where
  "env_header = ''# GRUB Environment Block''"

text \<open>The bytes \<open>WriteTo\<close> writes: the keys in order, those with an empty value left out, and the padding.\<close>

definition env_line :: "string \<times> string \<Rightarrow> string" where
  "env_line kv = fst kv @ ''='' @ snd kv"

definition env_body :: "EnvFile \<Rightarrow> string" where
  "env_body env =
     env_header @ [lf] @
     concat (map (\<lambda>k. case map_of (Vars env) k of
                        Some v \<Rightarrow> if length v > 0 then env_line (k, v) @ [lf] else []
                      | None \<Rightarrow> [])
                 (sort (map fst (Vars env))))"

definition env_WriteTo :: "EnvFile \<Rightarrow> string" where
  "env_WriteTo env =
     (let b = env_body env in b @ replicate (grub_blockSize - length b mod grub_blockSize) (CHR ''#''))"

fun env_parse :: "string list \<Rightarrow> (string \<times> string) list \<Rightarrow> (env_error, (string \<times> string) list) res" where
  "env_parse [] vars = Ok vars"
| "env_parse (l # ls) vars =
     (if l = [] \<or> hd l = CHR ''#'' then env_parse ls vars
      else case SplitN2 (CHR ''='') l of
          [key, val] \<Rightarrow> env_parse ls (AList.update key val vars)
        | _ \<Rightarrow> Err (EnvSyntax l))"

definition ParseEnvFile :: "string \<Rightarrow> (env_error, EnvFile) res" where
  "ParseEnvFile s =
     (case Scan_lines s of (ls, tooLong) \<Rightarrow>
        rbind (env_parse ls []) (\<lambda>vars. if tooLong then Err EnvTooLong else Ok \<lparr>Vars = vars\<rparr>))"

section \<open>Round trip\<close>

definition env_ok :: "EnvFile \<Rightarrow> bool" where
  "env_ok env \<longleftrightarrow> distinct (map fst (Vars env)) \<and>
     (\<forall>(k, v) \<in> set (Vars env). CHR ''='' \<notin> set k \<and> (k \<noteq> [] \<longrightarrow> hd k \<noteq> CHR ''#'') \<and> line_ok (env_line (k, v)))"

definition stored_keys :: "EnvFile \<Rightarrow> string list" where
  "stored_keys env = filter (\<lambda>k. map_of (Vars env) k \<noteq> Some []) (sort (map fst (Vars env)))"

definition stored_vars :: "EnvFile \<Rightarrow> (string \<times> string) list" where
  "stored_vars env = map (\<lambda>k. (k, the (map_of (Vars env) k))) (stored_keys env)"

lemma env_body_lines: "env_body env = concat (map (\<lambda>l. l @ [lf]) (env_header # map env_line (stored_vars env)))"
proof -
  have "concat (map (\<lambda>k. case map_of (Vars env) k of Some v \<Rightarrow> if length v > 0 then env_line (k, v) @ [lf] else [] | None \<Rightarrow> []) ks) =
      concat (map (\<lambda>l. l @ [lf]) (map env_line (map (\<lambda>k. (k, the (map_of (Vars env) k))) (filter (\<lambda>k. map_of (Vars env) k \<noteq> Some []) ks))))"
    if "set ks \<subseteq> fst ` set (Vars env)" for ks
    using that
  proof (induction ks)
    case (Cons k ks)
    then obtain v where "map_of (Vars env) k = Some v" by (metis insert_subset list.simps(15) map_of_eq_None_iff option.exhaust)
    then show ?case using Cons by simp
  qed simp
  from this [of "sort (map fst (Vars env))"] show ?thesis
    by (simp add: env_body_def stored_vars_def stored_keys_def)
qed

lemma update_new_key: "k \<notin> fst ` set kvs \<Longrightarrow> AList.update k v kvs = kvs @ [(k, v)]"
  by (induction kvs) auto

lemma env_parse_lines:
  assumes "\<forall>(k, v) \<in> set kvs. CHR ''='' \<notin> set k \<and> (k \<noteq> [] \<longrightarrow> hd k \<noteq> CHR ''#'')" "distinct (map fst (vars @ kvs))"
  shows "env_parse (map env_line kvs @ ls) vars = env_parse ls (vars @ kvs)"
  using assms
proof (induction kvs arbitrary: vars)
  case (Cons kv kvs)
  obtain k v where kv: "kv = (k, v)" by fastforce
  have "AList.update k v vars = vars @ [(k, v)]"
    using Cons.prems(2) by (intro update_new_key) (simp add: kv)
  moreover have "hd (env_line kv) \<noteq> CHR ''#''" using Cons.prems(1) by (cases k) (auto simp: env_line_def kv)
  moreover have "SplitN2 (CHR ''='') (env_line kv) = [k, v]"
    using Cons.prems(1) SplitN2_append [of "CHR ''=''" k v] by (simp add: env_line_def kv)
  moreover have "env_line kv \<noteq> []" by (simp add: env_line_def)
  ultimately show ?case using Cons by (simp add: kv)
qed simp

lemma length_env_WriteTo: "grub_blockSize dvd length (env_WriteTo env)"
  using block_pad [of grub_blockSize "length (env_body env)"] by (simp add: env_WriteTo_def grub_blockSize_def Let_def)

text \<open>C30: an environment block whose keys and values fit on lines is read back as the same map without the keys
  of empty values, and its size is a multiple of the block size.\<close>

theorem env_round_trip:
  assumes "env_ok env"
  shows "\<exists>vs. ParseEnvFile (env_WriteTo env) = Ok \<lparr>Vars = vs\<rparr> \<and> sorted (map fst vs) \<and>
    (\<forall>k. map_of vs k = (if map_of (Vars env) k = Some [] then None else map_of (Vars env) k)) \<and>
    grub_blockSize dvd length (env_WriteTo env)"
proof (intro exI conjI allI)
  let ?r = "replicate (grub_blockSize - length (env_body env) mod grub_blockSize) (CHR ''#'')"
  have key: "\<exists>v. map_of (Vars env) k = Some v \<and> (k, v) \<in> set (Vars env)" if "k \<in> set (stored_keys env)" for k
    using that weak_map_of_SomeI [of k _ "Vars env"] by (auto simp: stored_keys_def) (metis map_of_SomeD)
  have mem: "(k, v) \<in> set (Vars env)" if "(k, v) \<in> set (stored_vars env)" for k v
    using that key by (fastforce simp: stored_vars_def)
  have r: "line_ok ?r" "?r \<noteq> []" "hd ?r = CHR ''#''"
    by (auto simp: line_ok_def grub_blockSize_def maxLine_def lf_def cr_def last_replicate)
  have "line_ok l" if "l \<in> set (env_header # map env_line (stored_vars env))" for l
  proof -
    have "line_ok env_header" by (simp add: line_ok_def env_header_def lf_def cr_def maxLine_def)
    moreover have "line_ok (env_line kv)" if "kv \<in> set (stored_vars env)" for kv
      using mem [of "fst kv" "snd kv"] that assms by (auto simp: env_ok_def)
    ultimately show ?thesis using that by auto
  qed
  with Scan_lines_unlines [of "env_header # map env_line (stored_vars env)" ?r] r(1,2)
  have s: "Scan_lines (env_WriteTo env) = ((env_header # map env_line (stored_vars env)) @ [?r], False)"
    by (simp add: env_WriteTo_def Let_def env_body_lines [symmetric] del: replicate_empty)
       (simp add: env_body_lines)
  have d: "distinct (map fst (stored_vars env))"
    using assms by (simp add: stored_vars_def stored_keys_def comp_def env_ok_def)
  have "env_parse (map env_line (stored_vars env) @ [?r]) [] = env_parse [?r] (stored_vars env)"
    using env_parse_lines [of "stored_vars env" "[]" "[?r]"] d assms mem by (fastforce simp: env_ok_def)
  then show "ParseEnvFile (env_WriteTo env) = Ok \<lparr>Vars = stored_vars env\<rparr>"
    using r by (simp add: ParseEnvFile_def s env_header_def)
  show "sorted (map fst (stored_vars env))"
    by (simp add: stored_vars_def stored_keys_def comp_def sorted_filter [where f = "\<lambda>x. x", simplified])
  show "map_of (stored_vars env) k = (if map_of (Vars env) k = Some [] then None else map_of (Vars env) k)" for k
  proof -
    have "map_of (stored_vars env) k = (if k \<in> set (stored_keys env) then Some (the (map_of (Vars env) k)) else None)"
      by (simp add: stored_vars_def map_of_map_restrict restrict_map_def)
    then show ?thesis
      by (auto simp: stored_keys_def map_of_eq_None_iff) (metis map_of_eq_None_iff option.collapse)+
  qed
  show "grub_blockSize dvd length (env_WriteTo env)" by (rule length_env_WriteTo)
qed

theorem env_round_trip_witness:
  "\<exists>vs. ParseEnvFile (env_WriteTo \<lparr>Vars = [(''saved_entry'', ''1''), (''next_entry'', []), (''kernelopts'', ''root=/dev/sda1 ro'')]\<rparr>) =
     Ok \<lparr>Vars = vs\<rparr> \<and> map_of vs ''kernelopts'' = Some ''root=/dev/sda1 ro'' \<and> map_of vs ''next_entry'' = None"
proof -
  let ?e = "\<lparr>Vars = [(''saved_entry'', ''1''), (''next_entry'', []), (''kernelopts'', ''root=/dev/sda1 ro'')]\<rparr>"
  have "env_ok ?e" by (simp add: env_ok_def env_line_def line_ok_def lf_def cr_def maxLine_def)
  from env_round_trip [OF this] show ?thesis by auto
qed

text \<open>A body that fills its blocks gets one more block of padding.\<close>

lemma full_block_padded:
  "length (env_body env) mod grub_blockSize = 0 \<Longrightarrow> length (env_WriteTo env) = length (env_body env) + grub_blockSize"
  by (simp add: env_WriteTo_def Let_def)

end
