(* ===== verification/BootImage.thy ===== *)
theory BootImage imports GoText begin

text \<open>
  \<open>pkg/boot/linux.go\<close> and \<open>pkg/boot/multiboot.go\<close>, the images that the parsers of configuration files produce. A file or
  a lazily fetched URL is its name, which is also what \<open>stringer\<close> prints; the kexec options and the iBFT are left at
  their defaults by the parsers. The initrd is the list of the files \<open>CatInitrds\<close> puts one after the other, empty for none.
\<close>

record LinuxImage =
  LiName :: string
  LiKernel :: "string option"
  LiInitrd :: "string list"
  LiCmdline :: string
  LiBootRank :: int
  LiDeviceTree :: "string option"

record mb_cfg_module =
  CmModule :: string
  CmCmdline :: string

record MultibootImage =
  MiName :: string
  MiKernel :: "string option"
  MiCmdline :: string
  MiModules :: "mb_cfg_module list"
  MiBootRank :: int

datatype OSImage = OSLinux LinuxImage | OSMultiboot MultibootImage

definition empty_linux :: LinuxImage where
  "empty_linux = \<lparr>LiName = [], LiKernel = None, LiInitrd = [], LiCmdline = [], LiBootRank = 0, LiDeviceTree = None\<rparr>"

definition empty_multiboot :: MultibootImage where
  "empty_multiboot = \<lparr>MiName = [], MiKernel = None, MiCmdline = [], MiModules = [], MiBootRank = 0\<rparr>"

text \<open>\<open>stringer\<close> of no file prints the type of nil.\<close>

definition stringer :: "string option \<Rightarrow> string" where
  "stringer f = (case f of Some n \<Rightarrow> n | None \<Rightarrow> ''<nil>'')"

definition LinuxImage_Label :: "LinuxImage \<Rightarrow> string" where
  "LinuxImage_Label li =
     (if length (LiName li) > 0 then LiName li
      else ''Linux('' @
        JoinWith '' ''
          ([''kernel='' @ stringer (LiKernel li)] @
           (if LiInitrd li \<noteq> [] then [''initrd='' @ JoinWith '','' (LiInitrd li)] else []) @
           (if LiDeviceTree li \<noteq> None then [''dtb='' @ stringer (LiDeviceTree li)] else [])) @ '')'')"

definition LinuxImage_Rank :: "LinuxImage \<Rightarrow> int" where
  "LinuxImage_Rank li = LiBootRank li"

definition MultibootImage_Rank :: "MultibootImage \<Rightarrow> int" where
  "MultibootImage_Rank mi = MiBootRank mi"

text \<open>\<open>strings.Split\<close> at three dashes.\<close>

fun split_dashes :: "string \<Rightarrow> string \<Rightarrow> string list" where
  "split_dashes acc [] = [acc]"
| "split_dashes acc (c # s) =
     (if take 3 (c # s) = ''---'' then acc # split_dashes [] (drop 2 s) else split_dashes (acc @ [c]) s)"

section \<open>Several initrds (\<open>pkg/boot/initrd.go\<close>)\<close>

text \<open>Every initrd but the last is filled up to 512 bytes.\<close>

fun CatInitrds :: "byte list list \<Rightarrow> byte list" where
  "CatInitrds [] = []"
| "CatInitrds [r] = r"
| "CatInitrds (r # rs) =
     r @ (if length r mod 512 \<noteq> 0 then replicate (512 - length r mod 512) 0 else []) @ CatInitrds rs"

text \<open>every initrd is in the result at an offset that is a multiple of 512, in the order given.\<close>

theorem CatInitrds_aligned:
  "\<exists>offs. length offs = length rs \<and> sorted offs \<and>
    (\<forall>i < length rs. 512 dvd offs ! i \<and> take (length (rs ! i)) (drop (offs ! i) (CatInitrds rs)) = rs ! i \<and>
       offs ! i + length (rs ! i) \<le> length (CatInitrds rs))"
proof (induction rs rule: CatInitrds.induct)
  case (3 r r' rs)
  then obtain offs where o: "length offs = length (r' # rs)" "sorted offs"
    "\<And>i. i < length (r' # rs) \<Longrightarrow> 512 dvd offs ! i \<and>
       take (length ((r' # rs) ! i)) (drop (offs ! i) (CatInitrds (r' # rs))) = (r' # rs) ! i \<and>
       offs ! i + length ((r' # rs) ! i) \<le> length (CatInitrds (r' # rs))" by blast
  define p where "p = (if length r mod 512 \<noteq> 0 then replicate (512 - length r mod 512) (0 :: byte) else [])"
  have d: "512 dvd length (r @ p)" using block_pad [of 512 "length r"] by (auto simp: p_def)
  define q where "q = r @ p"
  have c: "CatInitrds (r # r' # rs) = q @ CatInitrds (r' # rs)" by (simp add: q_def p_def)
  show ?case
  proof (intro exI conjI allI impI)
    let ?o = "0 # map (\<lambda>x. length q + x) offs"
    show "length ?o = length (r # r' # rs)" using o(1) by simp
    show "sorted ?o" using o(2) by (simp add: sorted_map)
    fix i
    assume i: "i < length (r # r' # rs)"
    then show "512 dvd ?o ! i" using o(1,3) d by (cases i) (auto simp: q_def [symmetric])
    from i show "take (length ((r # r' # rs) ! i)) (drop (?o ! i) (CatInitrds (r # r' # rs))) = (r # r' # rs) ! i"
      unfolding c using o(1,3) by (cases i) (auto simp: q_def)
    from i show "?o ! i + length ((r # r' # rs) ! i) \<le> length (CatInitrds (r # r' # rs))"
      unfolding c using o(1,3) by (cases i) (auto simp: q_def)
  qed
qed (auto intro: exI [of _ "[0]"])

end
