(* ===== verification/Bls.thy ===== *)
theory Bls imports BootImage "HOL-Library.AList" "HOL-Library.List_Lexorder" "HOL-Library.Char_ord" begin

text \<open>
  \<open>pkg/boot/bls/bls.go\<close>: boot entries of the Boot Loader Specification. Reading files, \<open>filepath.Glob\<close>,
  \<open>filepath.Match\<close>, the environment and the order in which Go runs over a map are parameters. \<open>Match\<close> gives
  whether the name matches, and an error.
\<close>

definition blsEntriesDir :: string where "blsEntriesDir = ''loader/entries''"
definition blsEntriesDir2 :: string where "blsEntriesDir2 = ''boot/loader/entries''"
definition blsDefaultRank :: int where "blsDefaultRank = 1"

datatype bls_error =
  BlsNoEntries | BlsRead string | BlsOpen string | BlsDevicetree | BlsNilVariables | BlsNoKernelopts | BlsNoLinux
| BlsNoKeyword | BlsMultiboot | BlsEFI

type_synonym conf = "(string \<times> string) list"

record bls_world =
  bw_read :: "string \<Rightarrow> string option"
  bw_opens :: "string \<Rightarrow> bool"
  bw_glob :: "string \<Rightarrow> string list"
  bw_match :: "string \<Rightarrow> string \<Rightarrow> bool \<times> string option"
  bw_rank :: "string option"
  bw_visit :: "string list \<Rightarrow> string list"

text \<open>Slicing with a negative bound panics.\<close>

definition cutConf :: "string \<Rightarrow> (bls_error, string) res" where
  "cutConf s =
     (if has_suffix s ''.conf'' then if length s < 6 then Panic else Ok (take (length s - 6) s) else Ok s)"

definition parse_conf_line :: "string \<Rightarrow> conf \<Rightarrow> conf" where
  "parse_conf_line line vals =
     (if has_prefix line ''#'' then vals
      else case SplitN2 (CHR '' '') (TrimSpace line) of
          [k, v] \<Rightarrow> AList.update k (TrimSpace v) vals
        | _ \<Rightarrow> vals)"

definition parseConf :: "bls_world \<Rightarrow> string \<Rightarrow> (bls_error, conf) res" where
  "parseConf w path =
     (case bw_read w path of
        None \<Rightarrow> Err (BlsRead path)
      | Some s \<Rightarrow> Ok (fold parse_conf_line (fst (Scan_lines s)) []))"

definition filePath :: "string \<Rightarrow> string \<Rightarrow> string" where
  "filePath fsRoot v = (if \<not> IsAbs v then JoinN [fsRoot, ''loader'', v] else JoinN [fsRoot, v])"

definition getGrubvalue :: "conf option \<Rightarrow> string \<Rightarrow> (bls_error, string) res" where
  "getGrubvalue variables key =
     (case variables of
        None \<Rightarrow> Err BlsNilVariables
      | Some m \<Rightarrow> Ok (case map_of m key of Some v \<Rightarrow> v | None \<Rightarrow> []))"

text \<open>One word of the options; the words with a dollar sign stand for variables of GRUB.\<close>

definition option_word :: "conf option \<Rightarrow> string \<Rightarrow> (bls_error, string) res" where
  "option_word variables w =
     (if w = ''$kernelopts'' then
        rbind (getGrubvalue variables ''kernelopts'') (\<lambda>v.
          if v = [] then
            rbind (getGrubvalue variables ''default_kernelopts'') (\<lambda>d. if d = [] then Err BlsNoKernelopts else Ok d)
          else Ok v)
      else if w = ''$tuned_params'' then getGrubvalue variables ''tuned_params''
      else Ok w)"

fun option_words :: "conf option \<Rightarrow> string list \<Rightarrow> (bls_error, string list) res" where
  "option_words variables [] = Ok []"
| "option_words variables (w # ws) =
     rbind (option_word variables w) (\<lambda>v. rbind (option_words variables ws) (\<lambda>vs. Ok (v # vs)))"

definition bls_open :: "bls_world \<Rightarrow> string \<Rightarrow> (bls_error, string) res" where
  "bls_open w p = (if bw_opens w p then Ok p else Err (BlsOpen p))"

text \<open>One key of the entry: the image and the words of the command line so far.\<close>

definition bls_key ::
    "bls_world \<Rightarrow> string \<Rightarrow> conf option \<Rightarrow> string \<times> string \<Rightarrow> LinuxImage \<times> string list \<Rightarrow> (bls_error, LinuxImage \<times> string list) res" where
  "bls_key w fsRoot variables kv acc =
     (case (kv, acc) of ((key, val), (li, cmdlines)) \<Rightarrow>
        if key = ''linux'' then rbind (bls_open w (filePath fsRoot val)) (\<lambda>f. Ok (li\<lparr>LiKernel := Some f\<rparr>, cmdlines))
        else if key = ''initrd'' then
          rbind (bls_open w (filePath fsRoot (hd (split_on (CHR '' '') val)))) (\<lambda>f. Ok (li\<lparr>LiInitrd := [f]\<rparr>, cmdlines))
        else if key = ''devicetree'' then Err BlsDevicetree
        else if key = ''options'' then
          rbind (option_words variables (split_on (CHR '' '') val)) (\<lambda>ws. Ok (li, cmdlines @ ws))
        else Ok acc)"

fun bls_keys ::
    "bls_world \<Rightarrow> string \<Rightarrow> conf option \<Rightarrow> (string \<times> string) list \<Rightarrow> LinuxImage \<times> string list \<Rightarrow> (bls_error, LinuxImage \<times> string list) res" where
  "bls_keys w fsRoot variables [] acc = Ok acc"
| "bls_keys w fsRoot variables (kv # kvs) acc = rbind (bls_key w fsRoot variables kv acc) (bls_keys w fsRoot variables kvs)"

definition bls_name :: "conf \<Rightarrow> string" where
  "bls_name vals =
     JoinWith '' '' (concat (map (\<lambda>k. case map_of vals k of Some v \<Rightarrow> if length v > 0 then [v] else [] | None \<Rightarrow> [])
       [''title'', ''version'']))"

definition boot_rank :: "string option \<Rightarrow> int" where
  "boot_rank env =
     (case env of None \<Rightarrow> blsDefaultRank | Some s \<Rightarrow> (case Atoi s of Ok r \<Rightarrow> r | _ \<Rightarrow> blsDefaultRank))"

definition parseLinuxImage :: "bls_world \<Rightarrow> conf \<Rightarrow> string \<Rightarrow> conf option \<Rightarrow> (bls_error, LinuxImage) res" where
  "parseLinuxImage w vals fsRoot variables =
     rbind (bls_keys w fsRoot variables (map (\<lambda>k. (k, the (map_of vals k))) (bw_visit w (map fst vals))) (empty_linux, []))
       (\<lambda>(li, cmdlines).
          if LiKernel li = None then Err BlsNoLinux
          else Ok (li\<lparr>LiName := bls_name vals, LiCmdline := JoinWith '' '' cmdlines, LiBootRank := boot_rank (bw_rank w)\<rparr>))"

definition parseBLSEntry :: "bls_world \<Rightarrow> string \<Rightarrow> string \<Rightarrow> conf option \<Rightarrow> (bls_error, LinuxImage) res" where
  "parseBLSEntry w entryPath fsRoot variables =
     rbind (parseConf w entryPath) (\<lambda>vals.
       if map_of vals ''linux'' \<noteq> None then parseLinuxImage w vals fsRoot variables
       else if map_of vals ''multiboot'' \<noteq> None then Err BlsMultiboot
       else if map_of vals ''efi'' \<noteq> None then Err BlsEFI
       else Err BlsNoKeyword)"

text \<open>The condition of the code: an entry is a default one if matching it gives an error and a match.\<close>

definition is_default :: "bls_world \<Rightarrow> string \<Rightarrow> string \<Rightarrow> bool" where
  "is_default w pat ident = (case bw_match w pat ident of (ok, err) \<Rightarrow> err \<noteq> None \<and> ok)"

definition sortImages :: "bls_world \<Rightarrow> conf \<Rightarrow> (string \<times> LinuxImage) list \<Rightarrow> LinuxImage list" where
  "sortImages w loaderConf imgs =
     (let pat = (case map_of loaderConf ''default'' of Some p \<Rightarrow> p | None \<Rightarrow> ''*'');
          idents = bw_visit w (map fst imgs);
          defaultIdents = rev (sort (filter (is_default w pat) idents));
          otherIdents = rev (sort (filter (\<lambda>i. \<not> is_default w pat i) idents))
      in map (\<lambda>i. the (map_of imgs i)) (defaultIdents @ otherIdents))"

fun scan_entries ::
    "bls_world \<Rightarrow> string \<Rightarrow> conf option \<Rightarrow> string list \<Rightarrow> (string \<times> LinuxImage) list \<Rightarrow> (bls_error, (string \<times> LinuxImage) list) res" where
  "scan_entries w fsRoot variables [] imgs = Ok imgs"
| "scan_entries w fsRoot variables (f # fs) imgs =
     rbind (cutConf (Base f)) (\<lambda>identifier.
       case parseBLSEntry w f fsRoot variables of
         Ok img \<Rightarrow> scan_entries w fsRoot variables fs (AList.update identifier img imgs)
       | Err e \<Rightarrow> scan_entries w fsRoot variables fs imgs
       | Panic \<Rightarrow> Panic)"

definition bls_files :: "bls_world \<Rightarrow> string \<Rightarrow> string list" where
  "bls_files w fsRoot =
     (let files = bw_glob w (Join (Join fsRoot blsEntriesDir) ''*.conf'') in
      if files = [] then bw_glob w (Join (Join fsRoot blsEntriesDir2) ''*.conf'') else files)"

definition ScanBLSEntries :: "bls_world \<Rightarrow> string \<Rightarrow> conf option \<Rightarrow> (bls_error, LinuxImage list) res" where
  "ScanBLSEntries w fsRoot variables =
     (let files = bls_files w fsRoot in
      if files = [] then Err BlsNoEntries
      else
        let loaderConf = (case parseConf w (JoinN [fsRoot, ''loader'', ''loader.conf'']) of Ok c \<Rightarrow> c | _ \<Rightarrow> []) in
        rbind (scan_entries w fsRoot variables files []) (\<lambda>imgs. Ok (sortImages w loaderConf imgs)))"

section \<open>The order of the keys does not matter\<close>

text \<open>What a run over the keys has done, said without an order.\<close>

definition key_ok :: "bls_world \<Rightarrow> string \<Rightarrow> conf option \<Rightarrow> string \<times> string \<Rightarrow> bool" where
  "key_ok w fsRoot variables kv \<longleftrightarrow> (\<exists>r. bls_key w fsRoot variables kv (empty_linux, []) = Ok r)"

definition key_words :: "conf option \<Rightarrow> string \<times> string \<Rightarrow> string list" where
  "key_words variables kv =
     (if fst kv = ''options'' then case option_words variables (split_on (CHR '' '') (snd kv)) of Ok ws \<Rightarrow> ws | _ \<Rightarrow> [] else [])"

lemma bls_key_Ok:
  "bls_key w fsRoot variables kv (li, ws) = Ok r \<longleftrightarrow> key_ok w fsRoot variables kv \<and>
     r = (li\<lparr>LiKernel := if fst kv = ''linux'' then Some (filePath fsRoot (snd kv)) else LiKernel li,
             LiInitrd := if fst kv = ''initrd'' then [filePath fsRoot (hd (split_on (CHR '' '') (snd kv)))] else LiInitrd li\<rparr>,
          ws @ key_words variables kv)"
  by (cases kv) (auto simp: key_ok_def bls_key_def bls_open_def key_words_def)

lemma bls_keys_Ok:
  assumes "distinct (map fst kvs)"
  shows "bls_keys w fsRoot variables kvs (li, ws) = Ok r \<longleftrightarrow> (\<forall>kv \<in> set kvs. key_ok w fsRoot variables kv) \<and>
     r = (li\<lparr>LiKernel := (case map_of kvs ''linux'' of Some v \<Rightarrow> Some (filePath fsRoot v) | None \<Rightarrow> LiKernel li),
             LiInitrd := (case map_of kvs ''initrd'' of
                Some v \<Rightarrow> [filePath fsRoot (hd (split_on (CHR '' '') v))] | None \<Rightarrow> LiInitrd li)\<rparr>,
          ws @ (case map_of kvs ''options'' of Some v \<Rightarrow> key_words variables (''options'', v) | None \<Rightarrow> []))"
  using assms
proof (induction kvs arbitrary: li ws)
  case (Cons kv kvs)
  obtain k v where kv: "kv = (k, v)" by fastforce
  have n: "map_of kvs k = None" using Cons.prems by (simp add: kv map_of_eq_None_iff)
  have d: "distinct (map fst kvs)" using Cons.prems by simp
  show ?case
    using n by (auto simp: bls_key_Ok Cons.IH [OF d] kv key_words_def split: option.splits)
qed auto

lemma map_of_keys: "map_of (map (\<lambda>k. (k, f k)) ks) k = (if k \<in> set ks then Some (f k) else None)"
  by (induction ks) auto

lemma bls_open_visit [simp]: "bls_open (w\<lparr>bw_visit := v\<rparr>) = bls_open w"
  by (intro ext) (simp add: bls_open_def)

lemma map_of_visited:
  assumes "distinct (map fst vals)" "mset ks = mset (map fst vals)"
  shows "map_of (map (\<lambda>k. (k, the (map_of vals k))) ks) = map_of vals"
proof
  fix k
  have "set ks = fst ` set vals" using assms(2) by (metis mset_eq_setD set_map)
  then have "k \<in> set ks \<longleftrightarrow> map_of vals k \<noteq> None" by (simp add: map_of_eq_None_iff)
  then show "map_of (map (\<lambda>k. (k, the (map_of vals k))) ks) k = map_of vals k" by (auto simp: map_of_keys)
qed

text \<open>C31: two runs over the keys of an entry in different orders give the same image, or both fail.\<close>

theorem parseLinuxImage_order:
  assumes "distinct (map fst vals)" "mset (v1 (map fst vals)) = mset (map fst vals)" "mset (v2 (map fst vals)) = mset (map fst vals)"
  shows "parseLinuxImage (w\<lparr>bw_visit := v1\<rparr>) vals fsRoot variables = Ok li \<longleftrightarrow>
    parseLinuxImage (w\<lparr>bw_visit := v2\<rparr>) vals fsRoot variables = Ok li"
proof -
  let ?kv = "\<lambda>v. map (\<lambda>k. (k, the (map_of vals k))) (v (map fst vals))"
  have o: "key_ok (w\<lparr>bw_visit := v\<rparr>) = key_ok w" for v
    by (intro ext) (simp add: key_ok_def bls_key_def split: prod.splits)
  have d: "distinct (map fst (?kv v))" if "mset (v (map fst vals)) = mset (map fst vals)" for v
    using that assms(1) mset_eq_imp_distinct_iff [of "v (map fst vals)" "map fst vals"] by (simp add: comp_def)
  have "set (?kv v1) = set (?kv v2)" using assms(2,3) by (metis (no_types) mset_eq_setD set_map)
  then show ?thesis
    unfolding parseLinuxImage_def
    using d [of v1, OF assms(2)] d [of v2, OF assms(3)]
    by (simp add: bls_keys_Ok o map_of_visited [OF assms(1,2)] map_of_visited [OF assms(1,3)])
qed

section \<open>The order of the images\<close>

text \<open>the images are offered in descending order of their identifiers, whatever entry \<open>loader.conf\<close> names as the
  default.\<close>

theorem sortImages_ignores_default:
  assumes "\<And>p s. snd (bw_match w p s) \<noteq> None \<Longrightarrow> \<not> fst (bw_match w p s)"
    and "distinct (map fst imgs)" "mset (bw_visit w (map fst imgs)) = mset (map fst imgs)"
  shows "sortImages w loaderConf imgs = map (\<lambda>i. the (map_of imgs i)) (rev (sort (map fst imgs)))"
proof -
  have "is_default w p i = False" for p i using assms(1) [of p i] by (auto simp: is_default_def split: prod.splits)
  moreover have "sort (bw_visit w (map fst imgs)) = sort (map fst imgs)"
    using assms(3) by (metis properties_for_sort sorted_sort mset_sort)
  ultimately show ?thesis by (simp add: sortImages_def Let_def)
qed

definition ex_bls :: bls_world where
  "ex_bls = \<lparr>bw_read = (\<lambda>p. map_of
       [(''r/loader/entries/a1.conf'', ''linux /v1''), (''r/loader/entries/a2.conf'', ''linux /v2''),
        (''r/loader/entries/bb.conf'', ''title B'' @ [lf] @ ''options quiet x'' @ [lf] @ ''linux v''),
        (''r/loader/loader.conf'', ''default a'')] p),
     bw_opens = (\<lambda>_. True),
     bw_glob = (\<lambda>_. [''r/loader/entries/a1.conf'', ''r/loader/entries/a2.conf'', ''r/loader/entries/bb.conf'']),
     bw_match = (\<lambda>p s. (p = s \<or> p = ''*'', None)), bw_rank = None, bw_visit = (\<lambda>ks. ks)\<rparr>"

lemmas text_eval = Scan_lines_def text_lines_def has_prefix_def TrimSpace_def runes_ascii ascii_def trim_runes_def IsSpace_def
  SplitN2_def lf_def cr_def drop_cr_def maxLine_def

lemma ex_confs:
  "parseConf ex_bls ''r/loader/entries/a1.conf'' = Ok [(''linux'', ''/v1'')]"
  "parseConf ex_bls ''r/loader/entries/a2.conf'' = Ok [(''linux'', ''/v2'')]"
  "parseConf ex_bls ''r/loader/entries/bb.conf'' = Ok [(''title'', ''B''), (''options'', ''quiet x''), (''linux'', ''v'')]"
  "parseConf ex_bls ''r/loader/loader.conf'' = Ok [(''default'', ''a'')]"
  by (simp_all add: parseConf_def ex_bls_def text_eval parse_conf_line_def)

definition ex_image :: "string \<Rightarrow> string \<Rightarrow> string \<Rightarrow> LinuxImage" where
  "ex_image n k c = \<lparr>LiName = n, LiKernel = Some k, LiInitrd = [], LiCmdline = c, LiBootRank = 1, LiDeviceTree = None\<rparr>"

lemma ex_bls_fields:
  "bw_opens ex_bls p" "bw_rank ex_bls = None" "bw_visit ex_bls = (\<lambda>ks. ks)" "bw_match ex_bls = (\<lambda>p s. (p = s \<or> p = ''*'', None))"
  by (simp_all add: ex_bls_def)

lemma ex_path: "filePath ''r'' ''v'' = ''r/loader/v''"
  by code_simp

lemmas image_eval = parseLinuxImage_def bls_key_def bls_open_def bls_name_def boot_rank_def blsDefaultRank_def empty_linux_def
  option_word_def ex_image_def sortImages_def is_default_def ex_bls_fields Let_def

text \<open>Of two entries whose names differ in the last character only one is offered: the identifier loses that character.
  The default that \<open>loader.conf\<close> names comes last.\<close>

lemma bls_entry_lost:
  "ScanBLSEntries ex_bls ''r'' None = Ok [ex_image ''B'' ''r/loader/v'' ''quiet x'', ex_image [] ''r/v2'' []]"
proof -
  have f: "bls_files ex_bls ''r'' = [''r/loader/entries/a1.conf'', ''r/loader/entries/a2.conf'', ''r/loader/entries/bb.conf'']"
    by (simp add: bls_files_def ex_bls_def)
  have i: "cutConf (Base ''r/loader/entries/a1.conf'') = Ok ''a''" "cutConf (Base ''r/loader/entries/a2.conf'') = Ok ''a''"
    "cutConf (Base ''r/loader/entries/bb.conf'') = Ok ''b''" by code_simp+
  have p: "filePath ''r'' ''/v1'' = ''r/v1''" "filePath ''r'' ''/v2'' = ''r/v2''" "filePath ''r'' ''v'' = ''r/loader/v''"
    "JoinN [''r'', ''loader'', ''loader.conf''] = ''r/loader/loader.conf''" by code_simp+
  show ?thesis
    unfolding ScanBLSEntries_def f
    by (simp add: i p ex_confs parseBLSEntry_def image_eval)
qed

lemma cutConf_panics: "cutConf ''.conf'' = Panic"
  by (simp add: cutConf_def has_suffix_def)

theorem parseLinuxImage_order_witness:
  "parseLinuxImage (ex_bls\<lparr>bw_visit := rev\<rparr>) [(''title'', ''B''), (''linux'', ''v''), (''options'', ''quiet x'')] ''r'' None =
   Ok (ex_image ''B'' ''r/loader/v'' ''quiet x'')"
proof -
  let ?v = "[(''title'', ''B''), (''linux'', ''v''), (''options'', ''quiet x'')]"
  have "parseLinuxImage (ex_bls\<lparr>bw_visit := \<lambda>ks. ks\<rparr>) ?v ''r'' None = Ok (ex_image ''B'' ''r/loader/v'' ''quiet x'')"
    by (simp add: ex_path image_eval)
  moreover have "rev = (\<lambda>ks. rev ks)" by simp
  ultimately show ?thesis
    using parseLinuxImage_order [where ?v1.0 = "\<lambda>ks. ks" and ?v2.0 = "rev" and vals = ?v and w = ex_bls and fsRoot = "''r''" and variables = None] by simp
qed

theorem sortImages_ignores_default_witness:
  "sortImages ex_bls [(''default'', ''a'')] [(''a'', ex_image [] ''1'' []), (''b'', ex_image [] ''2'' [])] =
   [ex_image [] ''2'' [], ex_image [] ''1'' []]"
  using sortImages_ignores_default [of ex_bls "[(''a'', ex_image [] ''1'' []), (''b'', ex_image [] ''2'' [])]" "[(''default'', ''a'')]"]
  by (simp add: ex_bls_def)

end
