(* ===== verification/Curl.thy ===== *)
theory Curl imports GoText begin

text \<open>
  \<open>pkg/curl/schemes.go\<close>: fetching files by URL. \<open>url.Parse\<close> and \<open>URL.String\<close> of the standard library and the clients
  of the schemes are parameters; a reader that fetches on first use is the string of its URL.
\<close>

record url =
  UScheme :: string
  UHost :: string
  UPath :: string
  URest :: string

datatype fetch_error = FetchFailed | ReadFailed

text \<open>A \<open>URLError\<close>, or any other error.\<close>

datatype url_error = URLError url | UrlSyntax string | UrlRead url

definition IsURLError :: "url_error \<Rightarrow> bool" where
  "IsURLError e = (case e of URLError u \<Rightarrow> True | _ \<Rightarrow> False)"

record url_world =
  uw_parse :: "string \<Rightarrow> url option"
  uw_string :: "url \<Rightarrow> string"
  uw_schemes :: "string \<Rightarrow> bool"
  uw_fetch :: "url \<Rightarrow> (fetch_error, string) res"

text \<open>\<open>Schemes.LazyFetch\<close>: only the scheme is looked at now.\<close>

definition LazyFetch :: "url_world \<Rightarrow> url \<Rightarrow> (url_error, string) res" where
  "LazyFetch w u = (if uw_schemes w (UScheme u) then Ok (uw_string w u) else Err (URLError u))"

text \<open>\<open>Schemes.Fetch\<close> and reading all of the file.\<close>

definition FetchAll :: "url_world \<Rightarrow> url \<Rightarrow> (url_error, string) res" where
  "FetchAll w u =
     (if \<not> uw_schemes w (UScheme u) then Err (URLError u)
      else case uw_fetch w u of
          Ok s \<Rightarrow> Ok s
        | Err FetchFailed \<Rightarrow> Err (URLError u)
        | Err ReadFailed \<Rightarrow> Err (UrlRead u)
        | Panic \<Rightarrow> Panic)"

end
