(* ===== verification/Syslinux.thy ===== *)
theory Syslinux imports BootImage Curl "HOL-Library.AList" begin

text \<open>
  \<open>pkg/boot/syslinux/syslinux.go\<close>: the parser of syslinux, isolinux and extlinux configurations. Maps are association
  lists; the images behind the pointers of a map are its values, as no two keys share one. A configuration that includes
  itself makes the parser run forever, so it is a partial function.
\<close>

section \<open>Where the configuration is\<close>

definition probeIsolinuxFiles :: "string list" where
  "probeIsolinuxFiles =
     concat (map (\<lambda>dir. map (\<lambda>conf. if dir = [] then conf else Join dir conf)
                           [''isolinux.cfg'', ''extlinux.conf'', ''syslinux.cfg''])
       [''boot/isolinux'', ''isolinux'', ''boot/syslinux'', ''syslinux'', ''boot/extlinux'', ''extlinux'', []])"

text \<open>\<open>filepath.Split\<close>: the directory with its slash, and the name.\<close>

definition path_Split :: "string \<Rightarrow> string \<times> string" where
  "path_Split p = (case LastIndexByte p slash of Some i \<Rightarrow> (take (Suc i) p, drop (Suc i) p) | None \<Rightarrow> ([], p))"

definition sl_parseURL :: "url_world \<Rightarrow> string \<Rightarrow> url option \<Rightarrow> string \<Rightarrow> (url_error, url) res" where
  "sl_parseURL w name rootdir wd =
     (case uw_parse w name of
        None \<Rightarrow> Err (UrlSyntax name)
      | Some u \<Rightarrow>
          (case rootdir of
             Some r \<Rightarrow>
               if UScheme u = [] then
                 let u1 = u\<lparr>UScheme := UScheme r\<rparr> in
                 if UHost u = [] then
                   Ok (u1\<lparr>UHost := UHost r,
                     UPath := if IsAbs name then Join (UPath r) (Clean (UPath u)) else JoinN [UPath r, wd, Clean (UPath u)]\<rparr>)
                 else Ok u1
               else Ok u
           | None \<Rightarrow> Ok u))"

section \<open>The parser\<close>

datatype sl_scope = scopeGlobal | scopeEntry

record sl_parser =
  linuxEntries :: "(string \<times> LinuxImage) list"
  mbEntries :: "(string \<times> MultibootImage) list"
  labelOrder :: "string list"
  menuLabel :: "(string \<times> string) list"
  defaultEntry :: string
  nerfDefaultEntry :: string
  globalAppend :: string
  slScope :: sl_scope
  curEntry :: string
  slWd :: string
  slRootdir :: "url option"

definition sl_newParser :: "url option \<Rightarrow> string \<Rightarrow> sl_parser" where
  "sl_newParser rootdir wd =
     \<lparr>linuxEntries = [], mbEntries = [], labelOrder = [], menuLabel = [], defaultEntry = [], nerfDefaultEntry = [],
      globalAppend = [], slScope = scopeGlobal, curEntry = [], slWd = wd, slRootdir = rootdir\<rparr>"

definition sl_getFile :: "url_world \<Rightarrow> sl_parser \<Rightarrow> string \<Rightarrow> (url_error, string) res" where
  "sl_getFile w p url = rbind (sl_parseURL w url (slRootdir p) (slWd p)) (LazyFetch w)"

fun sl_getFiles :: "url_world \<Rightarrow> sl_parser \<Rightarrow> string list \<Rightarrow> (url_error, string list) res" where
  "sl_getFiles w p [] = Ok []"
| "sl_getFiles w p (f # fs) = rbind (sl_getFile w p f) (\<lambda>r. rbind (sl_getFiles w p fs) (\<lambda>rs. Ok (r # rs)))"

text \<open>The text of a configuration file.\<close>

definition sl_fetch :: "url_world \<Rightarrow> sl_parser \<Rightarrow> string \<Rightarrow> (url_error, string) res" where
  "sl_fetch w p url = rbind (sl_parseURL w url (slRootdir p) (slWd p)) (FetchAll w)"

type_synonym sl_result = "(url_error, unit) res \<times> sl_parser"

text \<open>Change the image of the current label, if it has one, with a result that may be an error.\<close>

definition on_linux :: "(LinuxImage \<Rightarrow> (url_error, LinuxImage) res) \<Rightarrow> sl_parser \<Rightarrow> sl_result" where
  "on_linux f p =
     (case map_of (linuxEntries p) (curEntry p) of
        None \<Rightarrow> (Ok (), p)
      | Some e \<Rightarrow>
          (case f e of
             Ok e' \<Rightarrow> (Ok (), p\<lparr>linuxEntries := AList.update (curEntry p) e' (linuxEntries p)\<rparr>)
           | Err x \<Rightarrow> (Err x, p)
           | Panic \<Rightarrow> (Panic, p)))"

definition set_kernel :: "url_world \<Rightarrow> string \<Rightarrow> sl_parser \<Rightarrow> sl_result" where
  "set_kernel w arg p = on_linux (\<lambda>e. rbind (sl_getFile w p arg) (\<lambda>k. Ok (e\<lparr>LiKernel := Some k\<rparr>))) p"

text \<open>The modules of a multiboot entry: the first is the kernel; taking the first word of nothing panics.\<close>

fun mb_add_modules :: "url_world \<Rightarrow> sl_parser \<Rightarrow> string list \<Rightarrow> MultibootImage \<Rightarrow> (url_error, unit) res \<times> MultibootImage" where
  "mb_add_modules w p [] e = (Ok (), e)"
| "mb_add_modules w p (m # ms) e =
     (case Fields m of
        [] \<Rightarrow> mb_add_modules w p ms e
      | f # _ \<Rightarrow>
          (case sl_getFile w p f of
             Ok file \<Rightarrow> mb_add_modules w p ms (e\<lparr>MiModules := MiModules e @ [\<lparr>CmModule = file, CmCmdline = TrimSpace m\<rparr>]\<rparr>)
           | Err x \<Rightarrow> (Err x, e)
           | Panic \<Rightarrow> (Panic, e)))"

definition mb_append :: "url_world \<Rightarrow> sl_parser \<Rightarrow> string \<Rightarrow> MultibootImage \<Rightarrow> (url_error, unit) res \<times> MultibootImage" where
  "mb_append w p arg e =
     (let modules = split_dashes [] arg in
      case Fields (hd modules) of
        [] \<Rightarrow> (Panic, e)
      | k # args \<Rightarrow>
          (case sl_getFile w p k of
             Ok kf \<Rightarrow>
               mb_add_modules w p (tl modules)
                 (let e1 = e\<lparr>MiKernel := Some kf\<rparr> in if args \<noteq> [] then e1\<lparr>MiCmdline := JoinWith '' '' args\<rparr> else e1)
           | Err x \<Rightarrow> (Err x, e)
           | Panic \<Rightarrow> (Panic, e)))"

definition sl_append_args :: "url_world \<Rightarrow> string \<Rightarrow> sl_parser \<Rightarrow> sl_result" where
  "sl_append_args w arg p =
     (case slScope p of
        scopeGlobal \<Rightarrow> (Ok (), p\<lparr>globalAppend := arg\<rparr>)
      | scopeEntry \<Rightarrow>
          sbind (\<lambda>p. case map_of (mbEntries p) (curEntry p) of
                   None \<Rightarrow> (Ok (), p)
                 | Some e \<Rightarrow> (case mb_append w p arg e of (r, e') \<Rightarrow> (r, p\<lparr>mbEntries := AList.update (curEntry p) e' (mbEntries p)\<rparr>)))
            (\<lambda>_. on_linux (\<lambda>e. Ok (e\<lparr>LiCmdline := if arg = ''-'' then [] else arg\<rparr>))) p)"

definition sl_menu :: "string \<Rightarrow> sl_parser \<Rightarrow> sl_parser" where
  "sl_menu arg p =
     (case Fields arg of
        [] \<Rightarrow> p
      | o1 # os \<Rightarrow>
          if ToLower o1 = ''label'' then p\<lparr>menuLabel := AList.update (curEntry p) (JoinWith '' '' os) (menuLabel p)\<rparr>
          else if ToLower o1 = ''default'' then (if slScope p = scopeEntry then p\<lparr>defaultEntry := curEntry p\<rparr> else p)
          else p)"

definition sl_label :: "string \<Rightarrow> sl_parser \<Rightarrow> sl_parser" where
  "sl_label arg p =
     p\<lparr>slScope := scopeEntry, curEntry := arg,
       linuxEntries := AList.update arg (empty_linux\<lparr>LiCmdline := globalAppend p, LiName := arg\<rparr>) (linuxEntries p),
       labelOrder := labelOrder p @ [arg]\<rparr>"

definition sl_kernel :: "url_world \<Rightarrow> string \<Rightarrow> sl_parser \<Rightarrow> sl_result" where
  "sl_kernel w arg p =
     set_kernel w arg
       (if arg = ''mboot.c32'' then
          p\<lparr>linuxEntries := AList.delete (curEntry p) (linuxEntries p),
            mbEntries := AList.update (curEntry p) (empty_multiboot\<lparr>MiName := curEntry p\<rparr>) (mbEntries p)\<rparr>
        else p)"

text \<open>All directives but \<open>include\<close>.\<close>

definition sl_directive :: "url_world \<Rightarrow> string \<Rightarrow> string \<Rightarrow> sl_parser \<Rightarrow> sl_result" where
  "sl_directive w directive arg p =
     (if directive = ''default'' then (Ok (), p\<lparr>defaultEntry := arg\<rparr>)
      else if directive = ''nerfdefault'' then (Ok (), p\<lparr>nerfDefaultEntry := arg\<rparr>)
      else if directive = ''menu'' then (Ok (), sl_menu arg p)
      else if directive = ''label'' then (Ok (), sl_label arg p)
      else if directive = ''kernel'' then sl_kernel w arg p
      else if directive = ''linux'' then set_kernel w arg p
      else if directive = ''initrd'' then
        on_linux (\<lambda>e. rbind (sl_getFiles w p (split_on (CHR '','') arg)) (\<lambda>fs. Ok (e\<lparr>LiInitrd := fs\<rparr>))) p
      else if directive = ''fdt'' then
        on_linux (\<lambda>e. rbind (sl_getFile w p arg) (\<lambda>f. Ok (e\<lparr>LiDeviceTree := Some f\<rparr>))) p
      else if directive = ''append'' then sl_append_args w arg p
      else (Ok (), p))"

text \<open>The words of a line: the directive and its argument; lines of fewer than two words are skipped.\<close>

definition sl_line :: "string \<Rightarrow> (string \<times> string) option" where
  "sl_line line =
     (case Fields line of d # a # as \<Rightarrow> Some (ToLower d, JoinWith '' '' (a # as)) | _ \<Rightarrow> None)"

text \<open>
  The initrd from the options of the command line: the last one counts; an option without a value panics. Go visits the
  entries in some order; after an error those it has visited keep their initrds.
\<close>

fun cmdline_initrd :: "url_world \<Rightarrow> sl_parser \<Rightarrow> string list \<Rightarrow> LinuxImage \<Rightarrow> (url_error, unit) res \<times> LinuxImage" where
  "cmdline_initrd w p [] e = (Ok (), e)"
| "cmdline_initrd w p (opt # opts) e =
     (let kv = split_on (CHR ''='') opt in
      if hd kv \<noteq> ''initrd'' then cmdline_initrd w p opts e
      else if length kv < 2 then (Panic, e)
      else
        (case sl_getFile w p (kv ! 1) of
           Ok i \<Rightarrow> cmdline_initrd w p opts (e\<lparr>LiInitrd := [i]\<rparr>)
         | Err x \<Rightarrow> (Err x, e)
         | Panic \<Rightarrow> (Panic, e)))"

fun fill_initrds ::
    "url_world \<Rightarrow> sl_parser \<Rightarrow> (string \<times> LinuxImage) list \<Rightarrow> (url_error, unit) res \<times> (string \<times> LinuxImage) list" where
  "fill_initrds w p [] = (Ok (), [])"
| "fill_initrds w p ((l, e) # es) =
     (case if LiInitrd e \<noteq> [] then (Ok (), e) else cmdline_initrd w p (Fields (LiCmdline e)) e of
        (Ok u, e') \<Rightarrow> (case fill_initrds w p es of (r, es') \<Rightarrow> (r, (l, e') # es'))
      | (r, e') \<Rightarrow> (r, (l, e') # es))"

definition sl_finish :: "url_world \<Rightarrow> sl_parser \<Rightarrow> sl_result" where
  "sl_finish w p = (case fill_initrds w p (linuxEntries p) of (r, es) \<Rightarrow> (r, p\<lparr>linuxEntries := es\<rparr>))"

text \<open>An included file that cannot be fetched is left out.\<close>

definition skip_url :: "(url_error, unit) res \<Rightarrow> (url_error, unit) res" where
  "skip_url r = (case r of Err e \<Rightarrow> if IsURLError e then Ok () else Err e | _ \<Rightarrow> r)"

partial_function (option) sl_append :: "url_world \<Rightarrow> string \<Rightarrow> sl_parser \<Rightarrow> (url_error, sl_parser) loop_result" where
  "sl_append w config p =
     Option.bind
       (for_loop (\<lambda>_. False)
          (\<lambda>line p.
             case sl_line line of
               None \<Rightarrow> Some (Ok (), p)
             | Some (d, arg) \<Rightarrow>
                 if d = ''include'' then
                   (case sl_fetch w p arg of
                      Err e \<Rightarrow> Some (skip_url (Err e), p)
                    | Panic \<Rightarrow> Some (Panic, p)
                    | Ok inc \<Rightarrow>
                        Option.bind (sl_append w inc p) (\<lambda>(r, p').
                          Some (skip_url r, p')))
                 else Some (sl_directive w d arg p))
          (split_on lf config) p)
       (\<lambda>(r, p'). Some (case r of Ok u \<Rightarrow> sl_finish w p' | _ \<Rightarrow> (r, p')))"

definition sl_appendFile :: "url_world \<Rightarrow> string \<Rightarrow> sl_parser \<Rightarrow> (url_error, sl_parser) loop_result" where
  "sl_appendFile w url p =
     (case sl_fetch w p url of Ok c \<Rightarrow> sl_append w c p | Err e \<Rightarrow> Some (Err e, p) | Panic \<Rightarrow> Some (Panic, p))"

section \<open>The images\<close>

fun dedup :: "string list \<Rightarrow> string list \<Rightarrow> string list" where
  "dedup seen [] = []"
| "dedup seen (s # ss) = (if s \<in> set seen then dedup seen ss else s # dedup (s # seen) ss)"

definition dedupStrings :: "string list \<Rightarrow> string list" where
  "dedupStrings xs = dedup [] xs"

definition with_menu_labels :: "sl_parser \<Rightarrow> sl_parser" where
  "with_menu_labels p =
     p\<lparr>linuxEntries := map (\<lambda>(l, e). (l, case map_of (menuLabel p) l of Some n \<Rightarrow> e\<lparr>LiName := n\<rparr> | None \<Rightarrow> e)) (linuxEntries p),
       mbEntries := map (\<lambda>(l, e). (l, case map_of (menuLabel p) l of Some n \<Rightarrow> e\<lparr>MiName := n\<rparr> | None \<Rightarrow> e)) (mbEntries p)\<rparr>"

definition label_images :: "sl_parser \<Rightarrow> string \<Rightarrow> OSImage list" where
  "label_images p l =
     (case map_of (linuxEntries p) l of Some e \<Rightarrow> if LiKernel e \<noteq> None then [OSLinux e] else [] | None \<Rightarrow> []) @
     (case map_of (mbEntries p) l of Some e \<Rightarrow> if MiKernel e \<noteq> None then [OSMultiboot e] else [] | None \<Rightarrow> [])"

definition sl_order :: "sl_parser \<Rightarrow> string list" where
  "sl_order p =
     (let o1 = labelOrder p;
          o2 = (if length (defaultEntry p) > 0 then defaultEntry p # o1 else o1);
          o3 = (if length (nerfDefaultEntry p) > 0 then nerfDefaultEntry p # o2 else o2)
      in dedupStrings o3)"

definition sl_images :: "sl_parser \<Rightarrow> OSImage list" where
  "sl_images p =
     (let p' = with_menu_labels p in
      if labelOrder p = [] then [] else concat (map (label_images p') (sl_order p)))"

definition sl_ParseConfigFile :: "url_world \<Rightarrow> string \<Rightarrow> url option \<Rightarrow> string \<Rightarrow> (url_error, OSImage list) res option" where
  "sl_ParseConfigFile w configFile rootdir wd =
     (case sl_appendFile w configFile (sl_newParser rootdir wd) of
        None \<Rightarrow> None
      | Some (Ok u, p) \<Rightarrow> Some (Ok (sl_images p))
      | Some (Err e, p) \<Rightarrow> Some (Err e)
      | Some (Panic, p) \<Rightarrow> Some Panic)"

datatype sl_local_error = SlNoConfig string | SlParse url_error

fun sl_probe :: "url_world \<Rightarrow> url \<Rightarrow> string list \<Rightarrow> (sl_local_error, OSImage list) res option" where
  "sl_probe w rootdir [] = Some (Err (SlNoConfig (UPath rootdir)))"
| "sl_probe w rootdir (relname # rs) =
     (case path_Split relname of (dir, name) \<Rightarrow>
        (case sl_ParseConfigFile w name (Some rootdir) dir of
           None \<Rightarrow> None
         | Some (Ok imgs) \<Rightarrow> Some (Ok imgs)
         | Some (Err e) \<Rightarrow> if IsURLError e then sl_probe w rootdir rs else Some (Err (SlParse e))
         | Some Panic \<Rightarrow> Some Panic))"

definition sl_ParseLocalConfig :: "url_world \<Rightarrow> string \<Rightarrow> (sl_local_error, OSImage list) res option" where
  "sl_ParseLocalConfig w diskDir =
     sl_probe w \<lparr>UScheme = ''file'', UHost = [], UPath = diskDir, URest = []\<rparr> probeIsolinuxFiles"

section \<open>Every entry is offered once\<close>

definition known :: "string list \<Rightarrow> (string \<times> 'a) list \<Rightarrow> bool" where
  "known ls kvs \<longleftrightarrow> fst ` set kvs \<subseteq> set ls"

text \<open>No entry outside the order of labels has a kernel.\<close>

definition sl_inv :: "sl_parser \<Rightarrow> bool" where
  "sl_inv p \<longleftrightarrow>
     (slScope p = scopeEntry \<longrightarrow> curEntry p \<in> set (labelOrder p)) \<and>
     known (labelOrder p) (linuxEntries p) \<and>
     (\<forall>l e. (l, e) \<in> set (mbEntries p) \<longrightarrow> MiKernel e \<noteq> None \<longrightarrow> l \<in> set (labelOrder p))"

lemma fst_update: "fst ` set (AList.update k v kvs) = insert k (fst ` set kvs)"
  by (induction kvs) auto

lemma known_simps [simp]:
  "known ls []" "known ls (AList.update k v kvs) \<longleftrightarrow> k \<in> set ls \<and> known ls kvs"
  by (auto simp: known_def fst_update)

lemma known_more [simp]: "known ls kvs \<Longrightarrow> known (ls @ [a]) kvs" "known ls kvs \<Longrightarrow> known ls (AList.delete k kvs)"
  by (auto simp: known_def AList.delete_eq)

lemma knownD: "known ls kvs \<Longrightarrow> map_of kvs k = Some v \<Longrightarrow> k \<in> set ls"
  by (force simp: known_def dest: map_of_SomeD)

lemma sl_inv_new: "sl_inv (sl_newParser rootdir wd)"
  by (simp add: sl_inv_def sl_newParser_def)

lemma update_elem: "(l, e) \<in> set (AList.update k v kvs) \<Longrightarrow> (l, e) = (k, v) \<or> (l, e) \<in> set kvs"
  by (induction kvs) (auto split: if_splits)

lemma on_linux_inv:
  assumes "on_linux f p = (r, p')" "sl_inv p"
  shows "sl_inv p'"
proof (cases "map_of (linuxEntries p) (curEntry p)")
  case (Some e)
  then have "curEntry p \<in> set (labelOrder p)" using assms(2) knownD by (fastforce simp: sl_inv_def)
  then show ?thesis using assms Some by (cases "f e") (auto simp: on_linux_def sl_inv_def)
qed (use assms in \<open>simp add: on_linux_def\<close>)

lemma set_kernel_inv: "set_kernel w arg p = (r, p') \<Longrightarrow> sl_inv p \<Longrightarrow> sl_inv p'"
  unfolding set_kernel_def by (rule on_linux_inv)

lemma mboot_inv:
  assumes "sl_inv p"
  shows "sl_inv (p\<lparr>linuxEntries := AList.delete (curEntry p) (linuxEntries p),
    mbEntries := AList.update (curEntry p) (empty_multiboot\<lparr>MiName := n\<rparr>) (mbEntries p)\<rparr>)"
  using assms
  by (auto simp: sl_inv_def empty_multiboot_def dest!: update_elem)

lemma sl_kernel_inv: "sl_kernel w arg p = (r, p') \<Longrightarrow> sl_inv p \<Longrightarrow> sl_inv p'"
  unfolding sl_kernel_def using mboot_inv [of p] by (auto dest: set_kernel_inv split: if_splits)

lemma mb_update_inv: "sl_inv p \<Longrightarrow> curEntry p \<in> set (labelOrder p) \<Longrightarrow> sl_inv (p\<lparr>mbEntries := AList.update (curEntry p) e (mbEntries p)\<rparr>)"
  by (auto simp: sl_inv_def dest!: update_elem)

lemma sl_append_args_inv:
  assumes "sl_append_args w arg p = (r, p')" "sl_inv p"
  shows "sl_inv p'"
proof (cases "slScope p")
  case scopeGlobal
  then show ?thesis using assms by (auto simp: sl_append_args_def sl_inv_def)
next
  case scopeEntry
  then have c: "curEntry p \<in> set (labelOrder p)" using assms(2) by (simp add: sl_inv_def)
  show ?thesis
  proof (cases "map_of (mbEntries p) (curEntry p)")
    case None
    then show ?thesis using assms scopeEntry by (auto simp: sl_append_args_def sbind_def dest: on_linux_inv)
  next
    case (Some e)
    obtain r1 e' where m: "mb_append w p arg e = (r1, e')" by fastforce
    from mb_update_inv [OF assms(2) c, of e'] show ?thesis
      using assms(1) scopeEntry Some m by (cases r1) (auto simp: sl_append_args_def sbind_def dest: on_linux_inv)
  qed
qed

lemma sl_label_inv: "sl_inv p \<Longrightarrow> sl_inv (sl_label arg p)"
  by (auto simp: sl_inv_def sl_label_def)

lemma sl_menu_inv: "sl_inv p \<Longrightarrow> sl_inv (sl_menu arg p)"
  by (auto simp: sl_inv_def sl_menu_def split: list.splits)

lemma sl_directive_inv:
  assumes "sl_directive w d arg p = (r, p')" "sl_inv p"
  shows "sl_inv p'"
proof -
  have "sl_inv (p\<lparr>defaultEntry := arg\<rparr>)" "sl_inv (p\<lparr>nerfDefaultEntry := arg\<rparr>)" using assms(2) by (simp_all add: sl_inv_def)
  then show ?thesis
    using assms sl_label_inv [OF assms(2)] sl_menu_inv [OF assms(2)]
    by (auto simp: sl_directive_def dest: sl_kernel_inv set_kernel_inv on_linux_inv sl_append_args_inv split: if_splits)
qed

lemma fill_initrds_keys: "fill_initrds w p es = (r, es') \<Longrightarrow> map fst es' = map fst es"
proof (induction es arbitrary: r es')
  case (Cons x es)
  obtain l e where x: "x = (l, e)" by fastforce
  show ?case
    using Cons.prems Cons.IH by (auto simp: x split: prod.splits res.splits if_splits)
qed simp

lemma sl_finish_inv: "sl_finish w p = (r, p') \<Longrightarrow> sl_inv p \<Longrightarrow> sl_inv p'"
  using fill_initrds_keys [of w p "linuxEntries p"]
  by (auto simp: sl_finish_def sl_inv_def known_def split: prod.splits simp flip: set_map)

lemma sl_append_inv:
  assumes "sl_append w config p = Some (r, p')" "sl_inv p"
  shows "sl_inv p'"
proof -
  have "\<forall>r p'. y = (r, p') \<longrightarrow> sl_inv p \<longrightarrow> sl_inv p'" if "sl_append w config p = Some y" for y :: "(url_error, unit) res \<times> sl_parser"
  proof (rule sl_append.raw_induct [OF _ that, where P = "\<lambda>w config p y. \<forall>r p'. y = (r, p') \<longrightarrow> sl_inv p \<longrightarrow> sl_inv p'"], goal_cases)
    case (1 f w config p y)
    define body where "body = (\<lambda>line p.
             case sl_line line of
               None \<Rightarrow> Some (Ok (), p)
             | Some (d, arg) \<Rightarrow>
                 if d = ''include'' then
                   (case sl_fetch w p arg of
                      Err e \<Rightarrow> Some (skip_url (Err e), p)
                    | Panic \<Rightarrow> Some (Panic, p)
                    | Ok inc \<Rightarrow>
                        Option.bind (f w inc p) (\<lambda>(r, p').
                          Some (skip_url r, p')))
                 else Some (sl_directive w d arg p))"
    have keeps: "sl_inv q'" if "body line q = Some (r, q')" "sl_inv q" for line q r q'
      using that 1(1) by (auto simp: body_def bind_eq_Some_conv dest: sl_directive_inv
        split: option.splits if_splits res.splits prod.splits)
    obtain r1 p1 where l: "for_loop (\<lambda>_. False) body (split_on lf config) p = Some (r1, p1)"
      and y: "y = (case r1 of Ok u \<Rightarrow> sl_finish w p1 | _ \<Rightarrow> (r1, p1))"
      using 1(2) by (auto simp: body_def bind_eq_Some_conv)
    show ?case
    proof (intro allI impI)
      fix r p' assume "y = (r, p')" "sl_inv p"
      then have "sl_inv p1" using for_loop_keeps [where I = sl_inv, OF l] keeps by blast
      then show "sl_inv p'" using y \<open>y = (r, p')\<close> by (cases r1) (auto dest: sl_finish_inv [OF sym])
    qed
  qed
  with assms show ?thesis by blast
qed

lemma dedup_spec: "distinct (dedup seen xs) \<and> set (dedup seen xs) = set xs - set seen"
  by (induction seen xs rule: dedup.induct) auto

lemma map_of_key: "map_of (map (\<lambda>(l, e). (l, g l e)) kvs) k = map_option (g k) (map_of kvs k)"
  by (induction kvs) auto

lemma dedup_hd: "x \<notin> set seen \<Longrightarrow> dedup seen (x # xs) = x # dedup (x # seen) xs"
  by simp

text \<open>a configuration that is read offers every entry with a kernel, and each label once; the default entries come
  first, then the labels in the order of the file.\<close>

theorem syslinux_offers_all:
  assumes "sl_ParseConfigFile w f rootdir wd = Some (Ok imgs)"
  shows "\<exists>p ls. sl_appendFile w f (sl_newParser rootdir wd) = Some (Ok (), p) \<and>
    imgs = concat (map (label_images (with_menu_labels p)) ls) \<and> distinct ls \<and>
    (\<forall>l. label_images (with_menu_labels p) l \<noteq> [] \<longrightarrow> l \<in> set ls) \<and>
    (ls \<noteq> [] \<longrightarrow> hd ls = hd (filter (\<lambda>l. l \<noteq> []) [nerfDefaultEntry p, defaultEntry p] @ labelOrder p))"
proof -
  obtain p where p: "sl_appendFile w f (sl_newParser rootdir wd) = Some (Ok (), p)" "imgs = sl_images p"
    using assms by (auto simp: sl_ParseConfigFile_def split: option.splits prod.splits res.splits)
  have inv: "sl_inv p"
    using p(1) sl_append_inv sl_inv_new by (auto simp: sl_appendFile_def split: res.splits)
  have mem: "l \<in> set (labelOrder p)" if "label_images (with_menu_labels p) l \<noteq> []" for l
  proof -
    let ?mi = "\<lambda>e. case map_of (menuLabel p) l of Some n \<Rightarrow> e\<lparr>MiName := n\<rparr> | None \<Rightarrow> e"
    have m: "map_of (linuxEntries (with_menu_labels p)) l =
        map_option (\<lambda>e. case map_of (menuLabel p) l of Some n \<Rightarrow> e\<lparr>LiName := n\<rparr> | None \<Rightarrow> e) (map_of (linuxEntries p) l)"
      "map_of (mbEntries (with_menu_labels p)) l = map_option ?mi (map_of (mbEntries p) l)"
      by (simp_all add: with_menu_labels_def map_of_key)
    have k: "MiKernel (?mi e) = MiKernel e" for e by (simp split: option.splits)
    show ?thesis
      using that inv knownD [of "labelOrder p" "linuxEntries p" l]
      by (auto simp: label_images_def m k sl_inv_def dest: map_of_SomeD split: option.splits if_splits)
  qed
  have o: "distinct (sl_order p)" "set (labelOrder p) \<subseteq> set (sl_order p)"
    using dedup_spec by (auto simp: sl_order_def dedupStrings_def Let_def)
  show ?thesis
  proof (cases "labelOrder p = []")
    case True
    then show ?thesis using p mem by (intro exI [of _ p] exI [of _ "[]"]) (auto simp: sl_images_def)
  next
    case False
    then have "hd (sl_order p) = hd (filter (\<lambda>l. l \<noteq> []) [nerfDefaultEntry p, defaultEntry p] @ labelOrder p)"
      by (cases "labelOrder p") (auto simp: sl_order_def dedupStrings_def Let_def)
    then show ?thesis using p mem o False by (intro exI [of _ p] exI [of _ "sl_order p"]) (auto simp: sl_images_def Let_def)
  qed
qed

section \<open>A menu is offered as it is written\<close>

text \<open>
  An entry of a configuration: the words of its label, its kernel, the words of \<open>MENU LABEL\<close> (none: no such line), the
  files of \<open>INITRD\<close> and the words of \<open>APPEND\<close> (\<open>None\<close>: no such line).
\<close>

record sl_item =
  SiLabel :: "string list"
  SiKernel :: string
  SiMenu :: "string list"
  SiInitrds :: "string list"
  SiAppend :: "string list option"

definition si_words :: "sl_item \<Rightarrow> string list list" where
  "si_words e =
     [''LABEL'' # SiLabel e, [''KERNEL'', SiKernel e]] @
     (if SiMenu e = [] then [] else [''MENU'' # ''LABEL'' # SiMenu e]) @
     (if SiInitrds e = [] then [] else [[''INITRD'', JoinWith '','' (SiInitrds e)]]) @
     (case SiAppend e of None \<Rightarrow> [] | Some ws \<Rightarrow> [''APPEND'' # ws])"

text \<open>The text: a global \<open>APPEND\<close> and a \<open>DEFAULT\<close>, where given, and the entries, a line each.\<close>

definition sl_words :: "string list \<Rightarrow> string list \<Rightarrow> sl_item list \<Rightarrow> string list list" where
  "sl_words glob dflt es =
     (if glob = [] then [] else [''APPEND'' # glob]) @ (if dflt = [] then [] else [''DEFAULT'' # dflt]) @ concat (map si_words es)"

definition sl_text :: "string list \<Rightarrow> string list \<Rightarrow> sl_item list \<Rightarrow> string" where
  "sl_text glob dflt es = concat (map (\<lambda>ws. JoinWith '' '' ws @ [lf]) (sl_words glob dflt es))"

definition si_label :: "sl_item \<Rightarrow> string" where
  "si_label e = JoinWith '' '' (SiLabel e)"

text \<open>The words of the command line: those of the entry, none for a dash, or the global ones.\<close>

definition si_args :: "string list \<Rightarrow> sl_item \<Rightarrow> string list" where
  "si_args glob e = (case SiAppend e of None \<Rightarrow> glob | Some ws \<Rightarrow> if ws = [''-''] then [] else ws)"

definition initrd_options :: "string list \<Rightarrow> string list" where
  "initrd_options ws = map (drop 7) (filter (\<lambda>w. take 7 w = ''initrd='') ws)"

definition si_files :: "string list \<Rightarrow> sl_item \<Rightarrow> string list" where
  "si_files glob e = SiKernel e # (if SiInitrds e = [] then initrd_options (si_args glob e) else SiInitrds e)"

definition si_image :: "(string \<Rightarrow> string) \<Rightarrow> string list \<Rightarrow> sl_item \<Rightarrow> LinuxImage" where
  "si_image loc glob e =
     \<lparr>LiName = (if SiMenu e = [] then si_label e else JoinWith '' '' (SiMenu e)), LiKernel = Some (loc (SiKernel e)),
      LiInitrd = (if SiInitrds e \<noteq> [] then map loc (SiInitrds e)
                  else case initrd_options (si_args glob e) of [] \<Rightarrow> [] | fs \<Rightarrow> [loc (last fs)]),
      LiCmdline = JoinWith '' '' (si_args glob e), LiBootRank = 0, LiDeviceTree = None\<rparr>"

text \<open>Words without blanks, labels that differ; an option \<open>initrd\<close> has one value.\<close>

definition sl_items_ok :: "string list \<Rightarrow> string list \<Rightarrow> sl_item list \<Rightarrow> bool" where
  "sl_items_ok glob dflt es \<longleftrightarrow>
     distinct (map si_label es) \<and> (\<forall>ws \<in> set (sl_words glob dflt es). \<forall>x \<in> set ws. token x) \<and>
     (\<forall>e \<in> set es. SiLabel e \<noteq> [] \<and> SiAppend e \<noteq> Some [] \<and> SiKernel e \<noteq> ''mboot.c32'' \<and>
        (\<forall>f \<in> set (SiInitrds e). CHR '','' \<notin> set f) \<and>
        (SiInitrds e = [] \<longrightarrow> (\<forall>x \<in> set (si_args glob e). x \<noteq> ''initrd'' \<and> (take 7 x = ''initrd='' \<longrightarrow> CHR ''='' \<notin> set (drop 7 x)))))"

lemma sl_getFile_at: "slRootdir p = slRootdir q \<Longrightarrow> slWd p = slWd q \<Longrightarrow> sl_getFile w p f = sl_getFile w q f"
  by (simp add: sl_getFile_def)

lemma sl_line_words:
  "\<forall>x \<in> set (d # a # as). token x \<Longrightarrow> sl_line (JoinWith '' '' (d # a # as)) = Some (ToLower d, JoinWith '' '' (a # as))"
  using Fields_join [of "d # a # as"] by (simp add: sl_line_def del: JoinWith.simps)

definition sl_body :: "url_world \<Rightarrow> (string \<Rightarrow> sl_parser \<Rightarrow> (url_error, sl_parser) loop_result) \<Rightarrow> string \<Rightarrow> sl_parser \<Rightarrow> (url_error, sl_parser) loop_result" where
  "sl_body w rec line p =
     (case sl_line line of
        None \<Rightarrow> Some (Ok (), p)
      | Some (d, arg) \<Rightarrow>
          if d = ''include'' then
            (case sl_fetch w p arg of
               Err e \<Rightarrow> Some (skip_url (Err e), p)
             | Panic \<Rightarrow> Some (Panic, p)
             | Ok inc \<Rightarrow> Option.bind (rec inc p) (\<lambda>(r, p'). Some (skip_url r, p')))
          else Some (sl_directive w d arg p))"

lemma sl_append_body:
  "sl_append w config p = Option.bind (for_loop (\<lambda>_. False) (sl_body w (sl_append w)) (split_on lf config) p)
     (\<lambda>(r, p'). Some (case r of Ok u \<Rightarrow> sl_finish w p' | _ \<Rightarrow> (r, p')))"
  by (subst sl_append.simps) (simp add: sl_body_def [abs_def])

lemma lower_directives: "ToLower ''LABEL'' = ''label''" "ToLower ''KERNEL'' = ''kernel''" "ToLower ''MENU'' = ''menu''"
  "ToLower ''INITRD'' = ''initrd''" "ToLower ''APPEND'' = ''append''" "ToLower ''DEFAULT'' = ''default''"
  by (simp_all add: ToLower_def runes_ascii ascii_def lower_ascii_def) code_simp+

lemma body_words:
  assumes "\<forall>x \<in> set (d # a # as). token x" "ToLower d \<noteq> ''include''"
  shows "sl_body w rec (JoinWith '' '' (d # a # as)) p = Some (sl_directive w (ToLower d) (JoinWith '' '' (a # as)) p)"
  using sl_line_words [OF assms(1)] assms(2) by (simp add: sl_body_def del: JoinWith.simps)

text \<open>The parser after some entries; \<open>si_read\<close> is the image before its initrd is looked up in the command line.\<close>

definition si_read :: "(string \<Rightarrow> string) \<Rightarrow> string list \<Rightarrow> sl_item \<Rightarrow> LinuxImage" where
  "si_read loc glob e = \<lparr>LiName = si_label e, LiKernel = Some (loc (SiKernel e)), LiInitrd = map loc (SiInitrds e),
     LiCmdline = JoinWith '' '' (si_args glob e), LiBootRank = 0, LiDeviceTree = None\<rparr>"

definition menu_names :: "sl_item list \<Rightarrow> (string \<times> string) list" where
  "menu_names es = map (\<lambda>e. (si_label e, JoinWith '' '' (SiMenu e))) (filter (\<lambda>e. SiMenu e \<noteq> []) es)"

definition sl_menu_read :: "(string \<Rightarrow> string) \<Rightarrow> string list \<Rightarrow> sl_parser \<Rightarrow> sl_item list \<Rightarrow> sl_parser \<Rightarrow> bool" where
  "sl_menu_read loc glob p0 es p \<longleftrightarrow>
     linuxEntries p = map (\<lambda>e. (si_label e, si_read loc glob e)) es \<and> mbEntries p = [] \<and> labelOrder p = map si_label es \<and>
     map_of (menuLabel p) = map_of (menu_names es) \<and> defaultEntry p = defaultEntry p0 \<and> nerfDefaultEntry p = [] \<and>
     globalAppend p = JoinWith '' '' glob \<and> slRootdir p = slRootdir p0 \<and> slWd p = slWd p0"

lemma update_fresh: "k \<notin> fst ` set kvs \<Longrightarrow> AList.update k v kvs = kvs @ [(k, v)]"
  by (induction kvs) auto

lemma update_at_end: "k \<notin> fst ` set kvs \<Longrightarrow> AList.update k v (kvs @ [(k, u)]) = kvs @ [(k, v)]"
  by (induction kvs) auto

lemma map_of_at_end: "k \<notin> fst ` set kvs \<Longrightarrow> map_of (kvs @ [(k, u)]) k = Some u"
  by (induction kvs) auto

lemma getFiles_all: "\<forall>f \<in> set fs. sl_getFile w p f = Ok (loc f) \<Longrightarrow> sl_getFiles w p fs = Ok (map loc fs)"
  by (induction fs) simp_all

lemma JoinWith_join: "JoinWith sep ss = join_with sep ss"
  by (induction sep ss rule: JoinWith.induct) simp_all

lemma split_commas: "fs \<noteq> [] \<Longrightarrow> \<forall>f \<in> set fs. c \<notin> set f \<Longrightarrow> split_on c (JoinWith [c] fs) = fs"
  unfolding JoinWith_join by (rule split_join) auto

lemma menu_names_snoc:
  assumes "si_label e \<notin> si_label ` set es"
  shows "map_of (menu_names (es @ [e])) =
    (if SiMenu e = [] then map_of (menu_names es) else (map_of (menu_names es))(si_label e \<mapsto> JoinWith '' '' (SiMenu e)))"
proof -
  have "si_label e \<notin> fst ` set (menu_names es)" using assms by (auto simp: menu_names_def)
  then have "map_of (menu_names es @ [(si_label e, v)]) = (map_of (menu_names es))(si_label e \<mapsto> v)" for v
    by (auto simp: fun_eq_iff map_add_def dom_map_of_conv_image_fst split: option.splits)
       (metis domI dom_map_of_conv_image_fst)
  then show ?thesis by (simp add: menu_names_def)
qed

lemma for_loop_lines:
  "sl_body w rec l p = Some (Ok (), p') \<Longrightarrow> for_loop (\<lambda>_. False) (sl_body w rec) (l # ls) p = for_loop (\<lambda>_. False) (sl_body w rec) ls p'"
  by simp

lemma item_step:
  assumes inv: "sl_menu_read loc glob p0 es p" and fresh: "si_label e \<notin> si_label ` set es"
    and words: "\<forall>ws \<in> set (si_words e). \<forall>x \<in> set ws. token x"
    and ok: "SiLabel e \<noteq> []" "SiAppend e \<noteq> Some []" "SiKernel e \<noteq> ''mboot.c32''" "\<forall>f \<in> set (SiInitrds e). CHR '','' \<notin> set f"
    and files: "\<forall>f \<in> set (SiKernel e # SiInitrds e). sl_getFile w p0 f = Ok (loc f)"
  shows "\<exists>p'. sl_menu_read loc glob p0 (es @ [e]) p' \<and>
    for_loop (\<lambda>_. False) (sl_body w rec) (map (JoinWith '' '') (si_words e) @ rest) p = for_loop (\<lambda>_. False) (sl_body w rec) rest p'"
proof -
  let ?l = "si_label e" and ?loop = "for_loop (\<lambda>_. False) (sl_body w rec)"
  have i: "linuxEntries p = map (\<lambda>e. (si_label e, si_read loc glob e)) es" "mbEntries p = []" "labelOrder p = map si_label es"
    "map_of (menuLabel p) = map_of (menu_names es)" "globalAppend p = JoinWith '' '' glob" "slRootdir p = slRootdir p0" "slWd p = slWd p0"
    using inv by (simp_all add: sl_menu_read_def)
  have nk: "?l \<notin> fst ` set (linuxEntries p)" using fresh by (auto simp: i(1))
  have getf: "sl_getFile w q f = Ok (loc f)" if "slRootdir q = slRootdir p" "slWd q = slWd p" "f \<in> set (SiKernel e # SiInitrds e)" for q f
    using files sl_getFile_at [of q p0 w f] that i(6,7) by auto
  define im0 im1 im2 im3 where "im0 = empty_linux\<lparr>LiCmdline := JoinWith '' '' glob, LiName := ?l\<rparr>"
    and "im1 = im0\<lparr>LiKernel := Some (loc (SiKernel e))\<rparr>" and "im2 = im1\<lparr>LiInitrd := map loc (SiInitrds e)\<rparr>"
    and "im3 = im2\<lparr>LiCmdline := JoinWith '' '' (si_args glob e)\<rparr>"
  define q where "q = (\<lambda>im menu. p\<lparr>slScope := scopeEntry, curEntry := ?l, linuxEntries := linuxEntries p @ [(?l, im)],
    labelOrder := labelOrder p @ [?l], menuLabel := menu\<rparr>)"
  have on: "on_linux f (q im menu) = (case f im of Ok im' \<Rightarrow> (Ok (), q im' menu) | Err x \<Rightarrow> (Err x, q im menu) | Panic \<Rightarrow> (Panic, q im menu))"
    for f im menu
    using nk by (simp add: on_linux_def q_def map_of_at_end update_at_end del: map_of_append split: res.splits)
  have qf: "slRootdir (q im menu) = slRootdir p" "slWd (q im menu) = slWd p" for im menu by (simp_all add: q_def)
  obtain lw lws where lab: "SiLabel e = lw # lws" using ok(1) by (cases "SiLabel e") auto
  have l1: "?loop (map (JoinWith '' '') (si_words e) @ rest) p = ?loop (map (JoinWith '' '') (tl (si_words e)) @ rest) (q im0 (menuLabel p))"
  proof -
    have "sl_label ?l p = q im0 (menuLabel p)" using nk by (simp add: sl_label_def q_def im0_def i(5) update_fresh)
    then have "sl_body w rec (JoinWith '' '' (''LABEL'' # SiLabel e)) p = Some (Ok (), q im0 (menuLabel p))"
      using body_words [of "''LABEL''" lw lws w rec p] words
      by (simp add: lab lower_directives sl_directive_def si_words_def si_label_def del: JoinWith.simps)
    then show ?thesis by (simp add: si_words_def del: JoinWith.simps)
  qed
  have l2: "?loop (JoinWith '' '' [''KERNEL'', SiKernel e] # ls) (q im0 menu) = ?loop ls (q im1 menu)" for ls menu
  proof -
    have "sl_body w rec (JoinWith '' '' [''KERNEL'', SiKernel e]) (q im0 menu) = Some (Ok (), q im1 menu)"
      using body_words [of "''KERNEL''" "SiKernel e" "[]" w rec "q im0 menu"] words ok(3) getf [OF qf, of "SiKernel e"]
      by (simp add: si_words_def lower_directives sl_directive_def sl_kernel_def set_kernel_def on im1_def)
    then show ?thesis by (rule for_loop_lines)
  qed
  define mn where "mn = (if SiMenu e = [] then menuLabel p else AList.update ?l (JoinWith '' '' (SiMenu e)) (menuLabel p))"
  have l3: "?loop (map (JoinWith '' '') (if SiMenu e = [] then [] else [''MENU'' # ''LABEL'' # SiMenu e]) @ ls) (q im1 (menuLabel p)) =
      ?loop ls (q im1 mn)" for ls
  proof (cases "SiMenu e = []")
    case False
    then have tk: "\<forall>x \<in> set (''MENU'' # ''LABEL'' # SiMenu e). token x" using words by (auto simp: si_words_def)
    have "sl_menu (JoinWith '' '' (''LABEL'' # SiMenu e)) (q im1 (menuLabel p)) = q im1 mn"
      using Fields_join [of "''LABEL'' # SiMenu e"] tk False by (simp add: sl_menu_def lower_directives q_def mn_def del: JoinWith.simps)
    then have "sl_body w rec (JoinWith '' '' (''MENU'' # ''LABEL'' # SiMenu e)) (q im1 (menuLabel p)) = Some (Ok (), q im1 mn)"
      using body_words [OF tk, of w rec] by (simp add: lower_directives sl_directive_def del: JoinWith.simps)
    then show ?thesis using False for_loop_lines by (simp del: JoinWith.simps)
  qed (simp add: mn_def)
  have l4: "?loop (map (JoinWith '' '') (if SiInitrds e = [] then [] else [[''INITRD'', JoinWith '','' (SiInitrds e)]]) @ ls) (q im1 mn) =
      ?loop ls (q im2 mn)" for ls
  proof (cases "SiInitrds e = []")
    case False
    then have tk: "\<forall>x \<in> set [''INITRD'', JoinWith '','' (SiInitrds e)]. token x" using words by (auto simp: si_words_def)
    have "sl_getFiles w (q im1 mn) (SiInitrds e) = Ok (map loc (SiInitrds e))" using getf [OF qf] by (intro getFiles_all) simp
    then have "sl_body w rec (JoinWith '' '' [''INITRD'', JoinWith '','' (SiInitrds e)]) (q im1 mn) = Some (Ok (), q im2 mn)"
      using body_words [OF tk, of w rec "q im1 mn"] split_commas [OF False ok(4)]
      by (simp add: lower_directives sl_directive_def on im2_def)
    then show ?thesis using False for_loop_lines by (simp del: JoinWith.simps)
  next
    case True
    then have "im2 = im1" by (simp add: im2_def im1_def im0_def empty_linux_def)
    then show ?thesis using True by simp
  qed
  have l5: "?loop (map (JoinWith '' '') (case SiAppend e of None \<Rightarrow> [] | Some ws \<Rightarrow> [''APPEND'' # ws]) @ ls) (q im2 mn) =
      ?loop ls (q im3 mn)" for ls
  proof (cases "SiAppend e")
    case None
    then have "im3 = im2" by (simp add: im3_def im2_def im1_def im0_def si_args_def)
    then show ?thesis using None by simp
  next
    case (Some ws)
    then obtain x xs where ws: "ws = x # xs" using ok(2) by (cases ws) auto
    have tk: "\<forall>x \<in> set (''APPEND'' # x # xs). token x" using words Some ws by (auto simp: si_words_def)
    have dash: "JoinWith '' '' ws = ''-'' \<longleftrightarrow> ws = [''-'']"
    proof
      assume "JoinWith '' '' ws = ''-''"
      then have "Fields (JoinWith '' '' ws) = Fields (JoinWith '' '' [''-''])" by simp
      moreover have "token ''-''" by (simp add: token_def ascii_def IsSpace_def)
      ultimately show "ws = [''-'']" using Fields_join [of ws] Fields_join [of "[''-'']"] tk ws by simp
    qed simp
    have "sl_append_args w (JoinWith '' '' ws) (q im2 mn) = (Ok (), q im3 mn)"
    proof -
      have "sl_append_args w (JoinWith '' '' ws) (q im2 mn) =
          on_linux (\<lambda>e. Ok (e\<lparr>LiCmdline := if JoinWith '' '' ws = ''-'' then [] else JoinWith '' '' ws\<rparr>)) (q im2 mn)"
        by (simp add: sl_append_args_def sbind_def q_def i(2))
      then show ?thesis using dash by (simp add: on im3_def si_args_def Some)
    qed
    then have "sl_body w rec (JoinWith '' '' (''APPEND'' # ws)) (q im2 mn) = Some (Ok (), q im3 mn)"
      using body_words [OF tk, of w rec "q im2 mn"] by (simp add: ws lower_directives sl_directive_def del: JoinWith.simps)
    then show ?thesis using Some for_loop_lines by (simp del: JoinWith.simps)
  qed
  have "map_of mn = map_of (menu_names (es @ [e]))"
    using menu_names_snoc [OF fresh] i(4) by (simp add: mn_def update_conv')
  moreover have "im3 = si_read loc glob e"
    by (simp add: im3_def im2_def im1_def im0_def si_read_def empty_linux_def)
  ultimately have "sl_menu_read loc glob p0 (es @ [e]) (q im3 mn)"
    using inv by (simp add: sl_menu_read_def q_def)
  moreover have "?loop (map (JoinWith '' '') (si_words e) @ rest) p = ?loop rest (q im3 mn)"
    unfolding l1 using l2 l3 l4 l5 by (simp add: si_words_def del: JoinWith.simps for_loop.simps)
  ultimately show ?thesis by blast
qed

lemma items_run:
  assumes "sl_menu_read loc glob p0 xs p" "distinct (map si_label (xs @ es))"
    and "\<forall>e \<in> set es. (\<forall>ws \<in> set (si_words e). \<forall>x \<in> set ws. token x) \<and> SiLabel e \<noteq> [] \<and> SiAppend e \<noteq> Some [] \<and>
      SiKernel e \<noteq> ''mboot.c32'' \<and> (\<forall>f \<in> set (SiInitrds e). CHR '','' \<notin> set f) \<and>
      (\<forall>f \<in> set (SiKernel e # SiInitrds e). sl_getFile w p0 f = Ok (loc f))"
  shows "\<exists>p'. sl_menu_read loc glob p0 (xs @ es) p' \<and>
    for_loop (\<lambda>_. False) (sl_body w rec) (map (JoinWith '' '') (concat (map si_words es)) @ rest) p =
    for_loop (\<lambda>_. False) (sl_body w rec) rest p'"
  using assms
proof (induction es arbitrary: xs p)
  case (Cons e es)
  have f: "si_label e \<notin> si_label ` set xs" using Cons.prems(2) by auto
  obtain p1 where p1: "sl_menu_read loc glob p0 (xs @ [e]) p1"
    "for_loop (\<lambda>_. False) (sl_body w rec) (map (JoinWith '' '') (si_words e) @ map (JoinWith '' '') (concat (map si_words es)) @ rest) p =
     for_loop (\<lambda>_. False) (sl_body w rec) (map (JoinWith '' '') (concat (map si_words es)) @ rest) p1"
    using item_step [OF Cons.prems(1) f, of w rec] Cons.prems(3) by (metis list.set_intros(1))
  from Cons.IH [OF p1(1)] Cons.prems(2,3) obtain p' where "sl_menu_read loc glob p0 ((xs @ [e]) @ es) p'"
    "for_loop (\<lambda>_. False) (sl_body w rec) (map (JoinWith '' '') (concat (map si_words es)) @ rest) p1 =
     for_loop (\<lambda>_. False) (sl_body w rec) rest p'" by auto
  with p1(2) show ?case by auto
qed auto

text \<open>The initrd of the options.\<close>

lemma hd_split_on: "hd (split_on c s) = takeWhile (\<lambda>x. x \<noteq> c) s"
proof (induction s)
  case (Cons x s)
  then show ?case by (cases "split_on c s") auto
qed simp

definition initrd_word :: "string \<Rightarrow> bool" where
  "initrd_word x \<longleftrightarrow> x \<noteq> ''initrd'' \<and> (take 7 x = ''initrd='' \<longrightarrow> CHR ''='' \<notin> set (drop 7 x))"

lemma split_option:
  assumes "initrd_word x"
  shows "hd (split_on (CHR ''='') x) = ''initrd'' \<longleftrightarrow> take 7 x = ''initrd=''"
    "take 7 x = ''initrd='' \<Longrightarrow> split_on (CHR ''='') x = [''initrd'', drop 7 x]"
proof -
  show s: "split_on (CHR ''='') x = [''initrd'', drop 7 x]" if "take 7 x = ''initrd=''"
  proof -
    have "x = ''initrd'' @ CHR ''='' # drop 7 x" using that append_take_drop_id [of 7 x] by simp
    moreover have "CHR ''='' \<notin> set (drop 7 x)" using assms that by (simp add: initrd_word_def)
    ultimately show ?thesis using split_on_append_sep [of "CHR ''=''" "''initrd''" "drop 7 x"] by (simp add: split_on_no_sep)
  qed
  have "take 7 x = ''initrd=''" if h: "takeWhile (\<lambda>c. c \<noteq> CHR ''='') x = ''initrd''"
  proof -
    have x: "x = ''initrd'' @ dropWhile (\<lambda>c. c \<noteq> CHR ''='') x" using h takeWhile_dropWhile_id by metis
    then have ne: "dropWhile (\<lambda>c. c \<noteq> CHR ''='') x \<noteq> []" using assms unfolding initrd_word_def by (metis append_Nil2)
    then obtain r where "dropWhile (\<lambda>c. c \<noteq> CHR ''='') x = CHR ''='' # r"
      using hd_dropWhile [OF ne] by (cases "dropWhile (\<lambda>c. c \<noteq> CHR ''='') x") auto
    then show ?thesis by (subst x) simp
  qed
  then show "hd (split_on (CHR ''='') x) = ''initrd'' \<longleftrightarrow> take 7 x = ''initrd=''" using s hd_split_on [of "CHR ''=''" x] by auto
qed

lemma cmdline_initrd_last:
  assumes "\<forall>x \<in> set ws. initrd_word x" "\<forall>f \<in> set (initrd_options ws). sl_getFile w p f = Ok (loc f)"
  shows "cmdline_initrd w p ws e = (Ok (), e\<lparr>LiInitrd := (case initrd_options ws of [] \<Rightarrow> LiInitrd e | fs \<Rightarrow> [loc (last fs)])\<rparr>)"
  using assms
proof (induction ws arbitrary: e)
  case (Cons x ws)
  have x: "initrd_word x" using Cons.prems(1) by simp
  show ?case
  proof (cases "take 7 x = ''initrd=''")
    case True
    have o: "initrd_options (x # ws) = drop 7 x # initrd_options ws" using True by (simp add: initrd_options_def)
    have "cmdline_initrd w p (x # ws) e = cmdline_initrd w p ws (e\<lparr>LiInitrd := [loc (drop 7 x)]\<rparr>)"
      using split_option(2) [OF x True] Cons.prems(2) by (simp add: o)
    also have "\<dots> = (Ok (), e\<lparr>LiInitrd := (case initrd_options ws of [] \<Rightarrow> [loc (drop 7 x)] | fs \<Rightarrow> [loc (last fs)])\<rparr>)"
      using Cons.IH [of "e\<lparr>LiInitrd := [loc (drop 7 x)]\<rparr>"] Cons.prems by (simp add: o split: list.splits)
    finally show ?thesis by (simp add: o split: list.splits)
  next
    case False
    then have o: "initrd_options (x # ws) = initrd_options ws" by (simp add: initrd_options_def)
    then show ?thesis using Cons split_option(1) [OF x] False by simp
  qed
qed (simp add: initrd_options_def)

definition si_final :: "(string \<Rightarrow> string) \<Rightarrow> string list \<Rightarrow> sl_item \<Rightarrow> LinuxImage" where
  "si_final loc glob e = (si_image loc glob e)\<lparr>LiName := si_label e\<rparr>"

lemma fill_items:
  assumes "\<forall>e \<in> set es. (\<forall>x \<in> set (si_args glob e). token x) \<and> (SiInitrds e = [] \<longrightarrow> (\<forall>x \<in> set (si_args glob e). initrd_word x)) \<and>
      (\<forall>f \<in> set (si_files glob e). sl_getFile w p f = Ok (loc f))"
  shows "fill_initrds w p (map (\<lambda>e. (si_label e, si_read loc glob e)) es) = (Ok (), map (\<lambda>e. (si_label e, si_final loc glob e)) es)"
  using assms
proof (induction es)
  case (Cons e es)
  have e: "\<forall>x \<in> set (si_args glob e). token x" "SiInitrds e = [] \<longrightarrow> (\<forall>x \<in> set (si_args glob e). initrd_word x)"
    "\<forall>f \<in> set (si_files glob e). sl_getFile w p f = Ok (loc f)" using Cons.prems by simp_all
  have "(if LiInitrd (si_read loc glob e) \<noteq> [] then (Ok (), si_read loc glob e)
      else cmdline_initrd w p (Fields (LiCmdline (si_read loc glob e))) (si_read loc glob e)) = (Ok (), si_final loc glob e)"
  proof (cases "SiInitrds e = []")
    case True
    then show ?thesis
      using e cmdline_initrd_last [of "si_args glob e" w p loc "si_read loc glob e"] Fields_join [OF e(1)]
      by (simp add: si_read_def si_final_def si_image_def si_files_def split: list.splits)
  next
    case False
    then show ?thesis by (simp add: si_read_def si_final_def si_image_def)
  qed
  then show ?case using Cons by simp
qed simp

lemma dedup_distinct: "distinct xs \<Longrightarrow> dedup seen xs = filter (\<lambda>x. x \<notin> set seen) xs"
proof (induction xs arbitrary: seen)
  case (Cons x xs)
  then have "filter (\<lambda>y. y \<noteq> x \<and> y \<notin> set seen) xs = filter (\<lambda>y. y \<notin> set seen) xs" by (intro filter_cong) auto
  with Cons show ?case by simp
qed simp

lemma label_images_item:
  assumes "linuxEntries p = map (\<lambda>e. (si_label e, si_final loc glob e)) es" "mbEntries p = []" "map_of (menuLabel p) = map_of (menu_names es)"
    and "distinct (map si_label es)"
  shows "label_images (with_menu_labels p) l = map (OSLinux \<circ> si_image loc glob) (filter (\<lambda>e. si_label e = l) es)"
proof (cases "l \<in> si_label ` set es")
  case False
  then have "map_of (linuxEntries p) l = None" by (auto simp: assms(1) map_of_eq_None_iff)
  moreover have "filter (\<lambda>e. si_label e = l) es = []" using False by (auto simp: filter_empty_conv)
  ultimately show ?thesis by (simp add: label_images_def with_menu_labels_def map_of_key assms(2))
next
  case True
  then obtain e where e: "e \<in> set es" "l = si_label e" by blast
  have d: "distinct (map fst (map (\<lambda>e. (si_label e, f e)) xs))" if "distinct (map si_label xs)" for f :: "sl_item \<Rightarrow> 'x" and xs
    using that by (simp add: comp_def)
  have m: "map_of (linuxEntries p) l = Some (si_final loc glob e)"
    unfolding assms(1) e(2) by (rule map_of_is_SomeI [OF d [OF assms(4)]]) (use e(1) in auto)
  have n: "map_of (menu_names es) l = (if SiMenu e = [] then None else Some (JoinWith '' '' (SiMenu e)))"
  proof -
    have inj: "e' = e" if "e' \<in> set es" "si_label e' = l" for e'
      using assms(4) e that by (auto simp: distinct_map dest: inj_onD)
    show ?thesis
    proof (cases "SiMenu e = []")
      case True
      then show ?thesis using inj by (auto simp: menu_names_def map_of_eq_None_iff)
    next
      case False
      have "distinct (map si_label (filter (\<lambda>e. SiMenu e \<noteq> []) es))" using assms(4) by (simp add: distinct_map inj_on_def)
      from map_of_is_SomeI [OF d [OF this, of "\<lambda>e. JoinWith '' '' (SiMenu e)"], of l "JoinWith '' '' (SiMenu e)"] False e show ?thesis
        by (simp add: menu_names_def)
    qed
  qed
  have "filter (\<lambda>e. si_label e = l) es = [e]"
  proof -
    obtain a b where ab: "es = a @ e # b" using split_list [OF e(1)] by blast
    then have "si_label e \<notin> si_label ` set a" "si_label e \<notin> si_label ` set b" using assms(4) by auto
    then have "filter (\<lambda>x. si_label x = si_label e) a = []" "filter (\<lambda>x. si_label x = si_label e) b = []"
      by (auto simp: filter_empty_conv image_iff)
    then show ?thesis unfolding ab e(2) by simp
  qed
  then show ?thesis
    by (simp add: label_images_def with_menu_labels_def map_of_key assms(2,3) m n si_final_def si_image_def)
qed

lemma images_in_order:
  assumes "\<And>l. img l = map g (filter (\<lambda>e. lab e = l) es)" "distinct (map lab es)"
  shows "concat (map img (filter P (map lab es))) = map g (filter (\<lambda>e. P (lab e)) es)"
proof -
  have s: "filter (\<lambda>x. lab x = lab e) es = [e]" if e: "e \<in> set es" for e
  proof -
    obtain a b where ab: "es = a @ e # b" using split_list [OF e] by blast
    then have "lab e \<notin> lab ` set a" "lab e \<notin> lab ` set b" using assms(2) by auto
    then have "filter (\<lambda>x. lab x = lab e) a = []" "filter (\<lambda>x. lab x = lab e) b = []" by (auto simp: filter_empty_conv image_iff)
    then show ?thesis unfolding ab by simp
  qed
  have "concat (map img (filter P (map lab xs))) = map g (filter (\<lambda>e. P (lab e)) xs)" if "set xs \<subseteq> set es" for xs
    using that by (induction xs) (auto simp: assms(1) s)
  then show ?thesis by simp
qed

lemma sl_text_lines:
  assumes "\<forall>ws \<in> set (sl_words glob dflt es). \<forall>x \<in> set ws. token x"
  shows "split_on lf (sl_text glob dflt es) = map (JoinWith '' '') (sl_words glob dflt es) @ [[]]"
proof -
  have "lf \<notin> set (JoinWith '' '' ws)" if "ws \<in> set (sl_words glob dflt es)" for ws
  proof -
    have "IsSpace (of_char lf)" by (simp add: lf_def IsSpace_def)
    then have "\<forall>x \<in> set ws. lf \<notin> set x" using assms that by (auto simp: token_def)
    moreover have "set (JoinWith '' '' ws) \<subseteq> {CHR '' ''} \<union> \<Union> (set ` set ws)" by (induction "'' ''" ws rule: JoinWith.induct) auto
    ultimately show ?thesis by (auto simp: lf_def)
  qed
  then show ?thesis
    using split_on_unlines [of "map (JoinWith '' '') (sl_words glob dflt es)" "[]"] by (simp add: sl_text_def split_on_no_sep comp_def)
qed

text \<open>The global lines in front of the entries.\<close>

lemma global_lines:
  assumes "\<forall>ws \<in> set (sl_words glob dflt es). \<forall>x \<in> set ws. token x" "p0 = sl_newParser rootdir wd"
  shows "for_loop (\<lambda>_. False) (sl_body w rec)
      (map (JoinWith '' '') ((if glob = [] then [] else [''APPEND'' # glob]) @ (if dflt = [] then [] else [''DEFAULT'' # dflt])) @ ls) p0 =
    for_loop (\<lambda>_. False) (sl_body w rec) ls (p0\<lparr>globalAppend := JoinWith '' '' glob, defaultEntry := JoinWith '' '' dflt\<rparr>)"
proof -
  let ?loop = "for_loop (\<lambda>_. False) (sl_body w rec)"
  define p1 where "p1 = p0\<lparr>globalAppend := JoinWith '' '' glob\<rparr>"
  have g1: "?loop (map (JoinWith '' '') (if glob = [] then [] else [''APPEND'' # glob]) @ l1) p0 = ?loop l1 p1" for l1
  proof (cases glob)
    case (Cons x xs)
    then have "\<forall>x \<in> set (''APPEND'' # x # xs). token x" using assms(1) by (auto simp: sl_words_def)
    from body_words [OF this, of w rec p0] show ?thesis
      using Cons assms(2) by (simp add: lower_directives sl_directive_def sl_append_args_def p1_def sl_newParser_def del: JoinWith.simps)
  qed (simp add: p1_def assms(2) sl_newParser_def)
  have g2: "?loop (map (JoinWith '' '') (if dflt = [] then [] else [''DEFAULT'' # dflt]) @ ls) p1 =
      ?loop ls (p1\<lparr>defaultEntry := JoinWith '' '' dflt\<rparr>)"
  proof (cases dflt)
    case (Cons x xs)
    then have "\<forall>x \<in> set (''DEFAULT'' # x # xs). token x" using assms(1) by (auto simp: sl_words_def)
    from body_words [OF this, of w rec p1] show ?thesis
      using Cons by (simp add: lower_directives sl_directive_def del: JoinWith.simps)
  qed (simp add: p1_def assms(2) sl_newParser_def)
  show ?thesis using g1 g2 by (simp add: p1_def del: JoinWith.simps split del: if_split)
qed

text \<open>The default label in front, whether or not it is a label.\<close>

lemma default_first:
  assumes "\<And>l. img l = map g (filter (\<lambda>e. lab e = l) es)" "distinct (map lab es)" "d = [] \<Longrightarrow> [] \<notin> lab ` set es"
    and "order = (if d = [] then map lab es else d # filter (\<lambda>l. l \<noteq> d) (map lab es))"
  shows "concat (map img order) = map g (filter (\<lambda>e. lab e = d) es @ filter (\<lambda>e. lab e \<noteq> d) es)"
proof (cases "d = []")
  case True
  then have "lab e \<noteq> d" if "e \<in> set es" for e using assms(3) that by (metis imageI)
  then have "filter (\<lambda>e. lab e = d) es = []" "filter (\<lambda>e. lab e \<noteq> d) es = es"
    by (auto simp: filter_empty_conv filter_id_conv)
  then show ?thesis using images_in_order [OF assms(1,2), of "\<lambda>_. True"] assms(4) True by simp
next
  case False
  then show ?thesis using images_in_order [OF assms(1,2), of "\<lambda>l. l \<noteq> d"] assms(1) [of d] assms(4) by simp
qed

text \<open>C32: a configuration written as a global command line, a default and a list of Linux entries with distinct labels is offered
  entry by entry: each once, the default first, the others in their order; each with its kernel, with the name of its \<open>MENU LABEL\<close> or its
  label, with its own command line or the global one (none for a dash), and with the files of its \<open>INITRD\<close> or of the last
  option \<open>initrd=\<close> of its command line. Words have no blanks in them, an option \<open>initrd\<close> has one value
  (\<open>initrd_without_value_panics\<close>); of two entries with one label the first is lost (\<open>same_label_reset\<close>). Includes and multiboot
  entries are not part of such a text.\<close>

theorem syslinux_menu_offered:
  assumes "sl_items_ok glob dflt es" "sl_fetch w (sl_newParser rootdir wd) file = Ok (sl_text glob dflt es)"
    and "\<forall>e \<in> set es. \<forall>f \<in> set (si_files glob e @ SiInitrds e). sl_getFile w (sl_newParser rootdir wd) f = Ok (loc f)"
  shows "sl_ParseConfigFile w file rootdir wd = Some (Ok (map (OSLinux \<circ> si_image loc glob)
    (filter (\<lambda>e. SiLabel e = dflt) es @ filter (\<lambda>e. SiLabel e \<noteq> dflt) es)))"
proof -
  let ?p0 = "sl_newParser rootdir wd" and ?loop = "for_loop (\<lambda>_. False) (sl_body w (sl_append w))"
  let ?d = "JoinWith '' '' dflt"
  note ok = assms(1) [unfolded sl_items_ok_def]
  have tokens: "\<forall>ws \<in> set (sl_words glob dflt es). \<forall>x \<in> set ws. token x" using ok by blast
  define p2 where "p2 = ?p0\<lparr>globalAppend := JoinWith '' '' glob, defaultEntry := ?d\<rparr>"
  have inv: "sl_menu_read loc glob p2 [] p2" by (simp add: sl_menu_read_def p2_def sl_newParser_def menu_names_def)
  have at: "sl_getFile w q f = sl_getFile w ?p0 f" if "slRootdir q = slRootdir p2" "slWd q = slWd p2" for q f
    using that by (intro sl_getFile_at) (simp_all add: p2_def)
  have items: "\<forall>e \<in> set es. (\<forall>ws \<in> set (si_words e). \<forall>x \<in> set ws. token x) \<and> SiLabel e \<noteq> [] \<and> SiAppend e \<noteq> Some [] \<and>
      SiKernel e \<noteq> ''mboot.c32'' \<and> (\<forall>f \<in> set (SiInitrds e). CHR '','' \<notin> set f) \<and>
      (\<forall>f \<in> set (SiKernel e # SiInitrds e). sl_getFile w p2 f = Ok (loc f))"
    using ok tokens assms(3) at [of p2] by (auto simp: sl_words_def si_files_def)
  obtain p where p: "sl_menu_read loc glob p2 es p"
    "?loop (map (JoinWith '' '') (concat (map si_words es)) @ [[]]) p2 = ?loop [[]] p"
    using items_run [OF inv _ items, of "sl_append w" "[[]]"] ok by auto
  have "sl_line [] = None" by (simp add: sl_line_def Fields_def)
  then have run: "?loop (split_on lf (sl_text glob dflt es)) ?p0 = Some (Ok (), p)"
    using global_lines [OF tokens refl, of w "sl_append w" "map (JoinWith '' '') (concat (map si_words es)) @ [[]]" rootdir wd] p(2)
      sl_text_lines [OF tokens]
    by (simp add: sl_words_def p2_def [symmetric] del: JoinWith.simps split del: if_split) (simp add: sl_body_def)
  have q: "linuxEntries p = map (\<lambda>e. (si_label e, si_read loc glob e)) es" "mbEntries p = []" "labelOrder p = map si_label es"
    "map_of (menuLabel p) = map_of (menu_names es)" "defaultEntry p = ?d" "nerfDefaultEntry p = []"
    "slRootdir p = slRootdir p2" "slWd p = slWd p2"
    using p(1) by (simp_all add: sl_menu_read_def p2_def)
  have args: "\<forall>x \<in> set (si_args glob e). token x" if "e \<in> set es" for e
  proof -
    have "ws \<in> set (si_words e) \<Longrightarrow> ws \<in> set (sl_words glob dflt es)" for ws using that by (auto simp: sl_words_def)
    then show ?thesis using tokens that
      by (cases "SiAppend e"; cases "glob = []") (auto simp: si_args_def si_words_def sl_words_def split: if_splits)
  qed
  have fill: "fill_initrds w p (linuxEntries p) = (Ok (), map (\<lambda>e. (si_label e, si_final loc glob e)) es)"
    unfolding q(1) by (rule fill_items) (use args ok assms(3) at [OF q(7,8)] in \<open>auto simp: initrd_word_def\<close>)
  define pf where "pf = p\<lparr>linuxEntries := map (\<lambda>e. (si_label e, si_final loc glob e)) es\<rparr>"
  have app: "sl_appendFile w file ?p0 = Some (Ok (), pf)"
    by (simp add: sl_appendFile_def assms(2) sl_append_body run sl_finish_def fill pf_def)
  have lab: "si_label e = ?d \<longleftrightarrow> SiLabel e = dflt" if "e \<in> set es" for e
  proof
    assume "si_label e = ?d"
    then have "Fields (JoinWith '' '' (SiLabel e)) = Fields (JoinWith '' '' dflt)" by (simp add: si_label_def)
    moreover have "\<forall>x \<in> set (SiLabel e). token x" using items that by (auto simp: si_words_def)
    moreover have "\<forall>x \<in> set dflt. token x" using tokens by (cases "dflt = []") (auto simp: sl_words_def)
    ultimately show "SiLabel e = dflt" by (simp add: Fields_join)
  qed (simp add: si_label_def)
  have img: "label_images (with_menu_labels pf) l = map (OSLinux \<circ> si_image loc glob) (filter (\<lambda>e. si_label e = l) es)" for l
    by (rule label_images_item) (use q ok in \<open>simp_all add: pf_def\<close>)
  have dst: "distinct (map si_label es)" using ok by blast
  have "sl_order pf = (if ?d = [] then map si_label es else ?d # filter (\<lambda>l. l \<noteq> ?d) (map si_label es))"
    using dedup_distinct [OF dst, of "[]"] dedup_distinct [OF dst, of "[?d]"] q(3,5,6)
    by (simp add: sl_order_def dedupStrings_def pf_def Let_def)
  moreover have "[] \<notin> si_label ` set es"
  proof
    assume "[] \<in> si_label ` set es"
    then obtain e where e: "e \<in> set es" "si_label e = []" by auto
    then obtain x xs where "SiLabel e = x # xs" "token x" using items by (cases "SiLabel e") (auto simp: si_words_def)
    with e(2) show False by (cases xs) (auto simp: si_label_def token_def)
  qed
  ultimately have "concat (map (label_images (with_menu_labels pf)) (sl_order pf)) =
      map (OSLinux \<circ> si_image loc glob) (filter (\<lambda>e. si_label e = ?d) es @ filter (\<lambda>e. si_label e \<noteq> ?d) es)"
    using default_first [OF img dst, of ?d "sl_order pf"] by blast
  moreover have "filter (\<lambda>e. si_label e = ?d) es = filter (\<lambda>e. SiLabel e = dflt) es"
    "filter (\<lambda>e. si_label e \<noteq> ?d) es = filter (\<lambda>e. SiLabel e \<noteq> dflt) es"
    using lab by (auto cong: filter_cong)
  ultimately have "sl_images pf = map (OSLinux \<circ> si_image loc glob) (filter (\<lambda>e. SiLabel e = dflt) es @ filter (\<lambda>e. SiLabel e \<noteq> dflt) es)"
    using q(3) by (cases es) (auto simp: sl_images_def pf_def Let_def)
  then show ?thesis by (simp add: sl_ParseConfigFile_def app)
qed

section \<open>What goes wrong\<close>

text \<open>A configuration whose first line includes the configuration itself is read forever.\<close>

lemma include_cycle_diverges:
  assumes "split_on lf config = l # ls" "sl_line l = Some (''include'', x)" "\<And>q. sl_fetch w q x = Ok config"
  shows "sl_append w config p = None"
proof (rule ccontr)
  assume "sl_append w config p \<noteq> None"
  then obtain y where y: "sl_append w config p = Some y" by blast
  have "\<not> (w = w \<and> config = config)"
  proof (rule sl_append.raw_induct [OF _ y, where P = "\<lambda>w' c' q y. \<not> (w' = w \<and> c' = config)"], goal_cases)
    case (1 f w' c' q y)
    show ?case
    proof
      assume e: "w' = w \<and> c' = config"
      then have "f w config q = None" using 1(1) [of w config q] by (cases "f w config q") auto
      with 1(2) e assms show False by (simp add: bind_eq_Some_conv)
    qed
  qed
  then show False by simp
qed

text \<open>A multiboot entry without a kernel before the first dashes, and an option \<open>initrd\<close> without a value, panic.\<close>

lemma dashes_first_panics: "mb_append w p ''--- a'' e = (Panic, e)"
  by (simp add: mb_append_def Fields_def)

lemma initrd_without_value_panics: "cmdline_initrd w p [''initrd''] e = (Panic, e)"
  by simp

text \<open>A second entry of the same label starts anew: the kernel of the first is gone.\<close>

lemma same_label_reset:
  "map_of (linuxEntries (sl_label l p)) l = Some (empty_linux\<lparr>LiCmdline := globalAppend p, LiName := l\<rparr>)"
  by (simp add: sl_label_def update_conv')

section \<open>A configuration\<close>

definition ex_config :: string where
  "ex_config = ''LABEL a'' @ [lf] @ ''KERNEL /k'' @ [lf] @ ''APPEND quiet initrd=i'' @ [lf] @ ''LABEL b'' @ [lf] @ ''LINUX v'' @ [lf] @
     ''INITRD x,y'' @ [lf] @ ''MENU LABEL B'' @ [lf] @ ''DEFAULT b'' @ [lf] @ ''INCLUDE none''"

definition ex_url :: url_world where
  "ex_url = \<lparr>uw_parse = (\<lambda>n. Some \<lparr>UScheme = [], UHost = [], UPath = n, URest = []\<rparr>), uw_string = UPath,
     uw_schemes = (\<lambda>s. s = ''file''),
     uw_fetch = (\<lambda>u. if UPath u = ''/d/isolinux/isolinux.cfg'' then Ok ex_config else Err FetchFailed)\<rparr>"

definition ex_root :: url where
  "ex_root = \<lparr>UScheme = ''file'', UHost = [], UPath = ''/d'', URest = []\<rparr>"

lemma ex_split:
  "split_on lf ex_config = [''LABEL a'', ''KERNEL /k'', ''APPEND quiet initrd=i'', ''LABEL b'', ''LINUX v'', ''INITRD x,y'', ''MENU LABEL B'',
     ''DEFAULT b'', ''INCLUDE none'']"
  by (simp add: ex_config_def lf_def)

lemma ex_lines:
  "sl_line ''LABEL a'' = Some (''label'', ''a'')" "sl_line ''KERNEL /k'' = Some (''kernel'', ''/k'')"
  "sl_line ''APPEND quiet initrd=i'' = Some (''append'', ''quiet initrd=i'')" "sl_line ''LABEL b'' = Some (''label'', ''b'')"
  "sl_line ''LINUX v'' = Some (''linux'', ''v'')" "sl_line ''INITRD x,y'' = Some (''initrd'', ''x,y'')"
  "sl_line ''MENU LABEL B'' = Some (''menu'', ''LABEL B'')" "sl_line ''DEFAULT b'' = Some (''default'', ''b'')"
  "sl_line ''INCLUDE none'' = Some (''include'', ''none'')"
  by (simp_all add: sl_line_def Fields_def runes_ascii ascii_def IsSpace_def ToLower_def lower_ascii_def) code_simp+

lemma ex_menu: "Fields ''LABEL B'' = [''LABEL'', ''B'']" "ToLower ''LABEL'' = ''label''"
  "Fields ''quiet initrd=i'' = [''quiet'', ''initrd=i'']"
  by (simp_all add: Fields_def runes_ascii ascii_def IsSpace_def ToLower_def lower_ascii_def) code_simp+

lemma ex_file:
  "slRootdir p = Some ex_root \<Longrightarrow> slWd p = ''isolinux/'' \<Longrightarrow>
   sl_getFile ex_url p f = Ok (if IsAbs f then Join ''/d'' (Clean f) else JoinN [''/d'', ''isolinux/'', Clean f])"
  by (simp add: sl_getFile_def sl_parseURL_def ex_url_def ex_root_def LazyFetch_def Let_def)

lemma ex_names:
  "IsAbs ''/k''" "\<not> IsAbs ''v''" "\<not> IsAbs ''i''" "\<not> IsAbs ''x''" "\<not> IsAbs ''y''"
  "Join ''/d'' (Clean ''/k'') = ''/d/k''" "JoinN [''/d'', ''isolinux/'', Clean ''v''] = ''/d/isolinux/v''"
  "JoinN [''/d'', ''isolinux/'', Clean ''i''] = ''/d/isolinux/i''" "JoinN [''/d'', ''isolinux/'', Clean ''x''] = ''/d/isolinux/x''"
  "JoinN [''/d'', ''isolinux/'', Clean ''y''] = ''/d/isolinux/y''"
  by code_simp+

lemma ex_fetch:
  assumes "slRootdir p = Some ex_root" "slWd p = ''isolinux/''"
  shows "sl_fetch ex_url p ''isolinux.cfg'' = Ok ex_config" "\<exists>u. sl_fetch ex_url p ''none'' = Err (URLError u)"
proof -
  have "JoinN [''/d'', ''isolinux/'', Clean ''isolinux.cfg''] = ''/d/isolinux/isolinux.cfg''" "\<not> IsAbs ''isolinux.cfg''"
    "JoinN [''/d'', ''isolinux/'', Clean ''none''] = ''/d/isolinux/none''" "\<not> IsAbs ''none''" by code_simp+
  then show "sl_fetch ex_url p ''isolinux.cfg'' = Ok ex_config" "\<exists>u. sl_fetch ex_url p ''none'' = Err (URLError u)"
    using assms by (simp_all add: sl_fetch_def sl_parseURL_def FetchAll_def ex_url_def ex_root_def Let_def)
qed

definition ex_image_a :: LinuxImage where
  "ex_image_a = \<lparr>LiName = ''a'', LiKernel = Some ''/d/k'', LiInitrd = [''/d/isolinux/i''], LiCmdline = ''quiet initrd=i'', LiBootRank = 0, LiDeviceTree = None\<rparr>"

definition ex_image_b :: LinuxImage where
  "ex_image_b = \<lparr>LiName = ''B'', LiKernel = Some ''/d/isolinux/v'', LiInitrd = [''/d/isolinux/x'', ''/d/isolinux/y''], LiCmdline = [], LiBootRank = 0, LiDeviceTree = None\<rparr>"

lemmas ex_run = for_loop.simps sl_directive_def sl_label_def sl_kernel_def set_kernel_def on_linux_def sl_append_args_def sbind_def sl_menu_def
  empty_linux_def

lemma ex_parse:
  "sl_ParseConfigFile ex_url ''isolinux.cfg'' (Some ex_root) ''isolinux/'' = Some (Ok [OSLinux ex_image_b, OSLinux ex_image_a])"
proof -
  let ?p = "sl_newParser (Some ex_root) ''isolinux/''"
  have f: "sl_fetch ex_url ?p ''isolinux.cfg'' = Ok ex_config" by (rule ex_fetch) (simp_all add: sl_newParser_def)
  obtain u where u: "sl_fetch ex_url q ''none'' = Err (URLError (u q))" if "slRootdir q = Some ex_root" "slWd q = ''isolinux/''" for q
    using ex_fetch(2) by metis
  show ?thesis
    unfolding sl_ParseConfigFile_def sl_appendFile_def f
    by (simp add: sl_append.simps [of ex_url ex_config] ex_split ex_lines ex_run ex_file ex_names ex_menu u skip_url_def IsURLError_def sl_newParser_def
      sl_finish_def sl_images_def Let_def sl_order_def dedupStrings_def label_images_def with_menu_labels_def ex_image_a_def ex_image_b_def)
qed

theorem syslinux_offers_all_witness:
  "\<exists>p ls. [OSLinux ex_image_b, OSLinux ex_image_a] = concat (map (label_images (with_menu_labels p)) ls) \<and> distinct ls"
  using syslinux_offers_all [OF ex_parse] by blast

definition ex_items :: "sl_item list" where
  "ex_items =
     [\<lparr>SiLabel = [''a''], SiKernel = ''/k'', SiMenu = [], SiInitrds = [], SiAppend = Some [''quiet'', ''initrd=i'']\<rparr>,
      \<lparr>SiLabel = [''b''], SiKernel = ''v'', SiMenu = [''The'', ''B''], SiInitrds = [''x'', ''y''], SiAppend = None\<rparr>]"

definition ex_menu_url :: url_world where
  "ex_menu_url = ex_url\<lparr>uw_fetch := (\<lambda>u. if UPath u = ''/d/isolinux/isolinux.cfg'' then Ok (sl_text [''ro''] [''b''] ex_items) else Err FetchFailed)\<rparr>"

theorem syslinux_menu_offered_witness:
  "sl_ParseConfigFile ex_menu_url ''isolinux.cfg'' (Some ex_root) ''isolinux/'' = Some (Ok
     [OSLinux \<lparr>LiName = ''The B'', LiKernel = Some ''/d/isolinux/v'', LiInitrd = [''/d/isolinux/x'', ''/d/isolinux/y''], LiCmdline = ''ro'', LiBootRank = 0, LiDeviceTree = None\<rparr>,
      OSLinux \<lparr>LiName = ''a'', LiKernel = Some ''/d/k'', LiInitrd = [''/d/isolinux/i''], LiCmdline = ''quiet initrd=i'', LiBootRank = 0, LiDeviceTree = None\<rparr>])"
proof -
  let ?p = "sl_newParser (Some ex_root) ''isolinux/''"
  let ?loc = "\<lambda>f. if IsAbs f then Join ''/d'' (Clean f) else JoinN [''/d'', ''isolinux/'', Clean f]"
  have tk: "token x" if "x \<in> {''APPEND'', ''ro'', ''DEFAULT'', ''b'', ''LABEL'', ''a'', ''KERNEL'', ''/k'', ''quiet'', ''initrd=i'', ''v'', ''MENU'', ''The'', ''B'',
      ''INITRD'', ''x,y''}" for x
    using that by (elim insertE emptyE; simp add: token_def ascii_def IsSpace_def)
  have ok: "sl_items_ok [''ro''] [''b''] ex_items"
    using tk by (simp add: sl_items_ok_def sl_words_def si_words_def ex_items_def si_label_def si_args_def)
  have "JoinN [''/d'', ''isolinux/'', Clean ''isolinux.cfg''] = ''/d/isolinux/isolinux.cfg''" "\<not> IsAbs ''isolinux.cfg''" by code_simp+
  then have f: "sl_fetch ex_menu_url ?p ''isolinux.cfg'' = Ok (sl_text [''ro''] [''b''] ex_items)"
    by (simp add: sl_fetch_def sl_parseURL_def FetchAll_def ex_menu_url_def ex_url_def ex_root_def sl_newParser_def Let_def)
  have g: "sl_getFile ex_menu_url ?p x = Ok (?loc x)" for x
    by (simp add: sl_getFile_def sl_parseURL_def ex_menu_url_def ex_url_def ex_root_def LazyFetch_def sl_newParser_def Let_def)
  from syslinux_menu_offered [OF ok f, of ?loc] g show ?thesis
    by (simp add: ex_items_def si_image_def si_args_def initrd_options_def si_label_def ex_names)
qed

end
