(* ===== verification/Esxi.thy ===== *)
theory Esxi imports BootImage Cpio begin

text \<open>
  \<open>pkg/boot/esxi/esxi.go\<close>: the boot configuration of ESXi and the choice between its two boot banks. The files, the
  block devices and their block size are parameters; mounting and unmounting them is not modelled.
\<close>

datatype bootstate = bootValid | bootUpgrading | bootDirty | bootInvalid

record esxi_options =
  EsTitle :: string
  EsKernel :: string
  EsArgs :: string
  EsModules :: "mb_cfg_module list"
  EsUpdated :: int
  EsBootstate :: bootstate

datatype esxi_error =
  EsOpen string | EsBadLine string | EsNumber num_error | EsTooLong | EsState bootstate | EsBlockSize | EsNoPartition string
| EsReadUUID | EsMagic "byte list" | EsNoConfigs

record esxi_world =
  ew_read :: "string \<Rightarrow> string option"
  ew_exists :: "string \<Rightarrow> bool"
  ew_block :: "string \<Rightarrow> nat option"
  ew_disk :: "string \<Rightarrow> byte list"

section \<open>The configuration file\<close>

definition esxi_default :: esxi_options where
  "esxi_default = \<lparr>EsTitle = ''VMware ESXi'', EsKernel = [], EsArgs = [], EsModules = [], EsUpdated = 0, EsBootstate = bootInvalid\<rparr>"

definition bootstate_of :: "int \<Rightarrow> bootstate" where
  "bootstate_of n =
     (if n = 0 then bootValid else if n = 1 then bootUpgrading else if n = 2 then bootDirty else bootInvalid)"

definition esxi_modules :: "string \<Rightarrow> string \<Rightarrow> mb_cfg_module list" where
  "esxi_modules dir val =
     concat (map (\<lambda>tok. let t = TrimSpace tok in
                    if length t > 0 then [\<lparr>CmModule = Join dir (hd (Fields t)), CmCmdline = t\<rparr>] else [])
                 (split_dashes [] val))"

definition esxi_key :: "string \<Rightarrow> string \<Rightarrow> string \<Rightarrow> esxi_options \<Rightarrow> (esxi_error, esxi_options) res" where
  "esxi_key dir key val opt =
     (if key = ''title'' then Ok (opt\<lparr>EsTitle := val\<rparr>)
      else if key = ''kernel'' then Ok (opt\<lparr>EsKernel := Join dir val, EsArgs := val @ '' '' @ EsArgs opt\<rparr>)
      else if key = ''kernelopt'' then Ok (opt\<lparr>EsArgs := EsArgs opt @ val\<rparr>)
      else if key = ''updated'' then
        (if length val = 0 then Ok (opt\<lparr>EsUpdated := 0\<rparr>)
         else case Atoi val of Ok n \<Rightarrow> Ok (opt\<lparr>EsUpdated := n\<rparr>) | Err e \<Rightarrow> Err (EsNumber e) | Panic \<Rightarrow> Panic)
      else if key = ''bootstate'' then
        (if length val = 0 then Ok (opt\<lparr>EsBootstate := bootValid\<rparr>)
         else case Atoi val of Ok n \<Rightarrow> Ok (opt\<lparr>EsBootstate := bootstate_of n\<rparr>) | Err e \<Rightarrow> Err (EsNumber e) | Panic \<Rightarrow> Panic)
      else if key = ''modules'' then Ok (opt\<lparr>EsModules := EsModules opt @ esxi_modules dir val\<rparr>)
      else Ok opt)"

definition esxi_line :: "string \<Rightarrow> string \<Rightarrow> esxi_options \<Rightarrow> (esxi_error, esxi_options) res" where
  "esxi_line dir raw opt =
     (let line = TrimSpace raw in
      if line = [] \<or> hd line = CHR ''#'' then Ok opt
      else case SplitN2 (CHR ''='') line of
          [k, v] \<Rightarrow> esxi_key dir (TrimSpace k) (TrimSpace v) opt
        | _ \<Rightarrow> Err (EsBadLine line))"

fun esxi_lines :: "string \<Rightarrow> string list \<Rightarrow> esxi_options \<Rightarrow> (esxi_error, esxi_options) res" where
  "esxi_lines dir [] opt = Ok opt"
| "esxi_lines dir (l # ls) opt = rbind (esxi_line dir l opt) (esxi_lines dir ls)"

definition esxi_parse :: "esxi_world \<Rightarrow> string \<Rightarrow> (esxi_error, esxi_options) res" where
  "esxi_parse w configFile =
     (case ew_read w configFile of
        None \<Rightarrow> Err (EsOpen configFile)
      | Some s \<Rightarrow>
          (case Scan_lines s of (ls, tooLong) \<Rightarrow>
             rbind (esxi_lines (Dir configFile) ls esxi_default) (\<lambda>opt. if tooLong then Err EsTooLong else Ok opt)))"

section \<open>The boot UUID\<close>

definition uuidMagic :: string where "uuidMagic = ''VMWARE FAT16    ''"
definition uuidSize :: nat where "uuidSize = 32"

definition partNo :: "esxi_world \<Rightarrow> string \<Rightarrow> nat \<Rightarrow> (esxi_error, string) res" where
  "partNo w device number =
     (if device = [] then Panic
      else
        let c = (of_char (last device) :: nat);
            name = device @ (if 48 \<le> c \<and> c \<le> 57 then ''p'' else []) @ FormatNat number
        in if ew_exists w name then Ok name else Err (EsNoPartition name))"

definition getUUID :: "esxi_world \<Rightarrow> string \<Rightarrow> nat \<Rightarrow> (esxi_error, string) res" where
  "getUUID w dev0 part =
     (let device = TrimRight ''/'' dev0 in
      case ew_block w device of
        None \<Rightarrow> Err EsBlockSize
      | Some blockSize \<Rightarrow>
          rbind (partNo w device part) (\<lambda>dev.
            let data = take uuidSize (drop blockSize (ew_disk w dev)) in
            if length data < uuidSize then Err EsReadUUID
            else if take (length uuidMagic) data \<noteq> str_bytes uuidMagic then Err (EsMagic (take (length uuidMagic) data))
            else Ok (''bootUUID='' @ bytes_str (hex_encode (drop (length uuidMagic) data)))))"

definition addUUID :: "esxi_world \<Rightarrow> string \<Rightarrow> nat \<Rightarrow> esxi_options \<Rightarrow> (esxi_error, esxi_options) res" where
  "addUUID w device part o1 =
     rbind (getUUID w device part) (\<lambda>uuid. Ok (o1\<lparr>EsArgs := EsArgs o1 @ '' '' @ uuid\<rparr>))"

section \<open>Images\<close>

definition getBootImage :: "esxi_world \<Rightarrow> esxi_options \<Rightarrow> string \<Rightarrow> nat \<Rightarrow> string \<Rightarrow> (esxi_error, MultibootImage) res" where
  "getBootImage w opts device part name =
     (if EsBootstate opts \<noteq> bootValid \<and> EsBootstate opts \<noteq> bootUpgrading then Err (EsState (EsBootstate opts))
      else rbind (if length device > 0 then addUUID w device part opts else Ok opts) (\<lambda>o1.
        Ok \<lparr>MiName = EsTitle o1 @ '' from '' @ name, MiKernel = Some (EsKernel o1), MiCmdline = EsArgs o1,
            MiModules = EsModules o1, MiBootRank = 0\<rparr>))"

text \<open>The image of one bank, \<open>None\<close> if there is none; the name of a missing partition is empty.\<close>

definition bank_image :: "esxi_world \<Rightarrow> string \<Rightarrow> nat \<Rightarrow> esxi_options option \<Rightarrow> (esxi_error, MultibootImage option) res" where
  "bank_image w device n opts =
     (case opts of
        None \<Rightarrow> Ok None
      | Some op \<Rightarrow>
          (case partNo w device n of
             Panic \<Rightarrow> Panic
           | p \<Rightarrow>
               (case getBootImage w op device n (case p of Ok nm \<Rightarrow> nm | _ \<Rightarrow> []) of
                  Ok img \<Rightarrow> Ok (Some img) | Err e \<Rightarrow> Ok None | Panic \<Rightarrow> Panic)))"

definition getImages :: "esxi_world \<Rightarrow> string \<Rightarrow> esxi_options option \<Rightarrow> esxi_options option \<Rightarrow> (esxi_error, MultibootImage list) res" where
  "getImages w device opts5 opts6 =
     rbind (bank_image w device 5 opts5) (\<lambda>img5.
     rbind (bank_image w device 6 opts6) (\<lambda>img6.
       case (img5, img6) of
         (None, None) \<Rightarrow> Err EsNoConfigs
       | (Some i5, Some i6) \<Rightarrow>
           if EsUpdated (the opts6) > EsUpdated (the opts5) then Ok [i6, i5] else Ok [i5, i6]
       | (Some i5, None) \<Rightarrow> Ok [i5]
       | (None, Some i6) \<Rightarrow> Ok [i6]))"

definition esxi_LoadConfig :: "esxi_world \<Rightarrow> string \<Rightarrow> (esxi_error, MultibootImage) res" where
  "esxi_LoadConfig w configFile =
     rbind (esxi_parse w configFile) (\<lambda>opts. getBootImage w opts [] 0 (''config file '' @ configFile))"

section \<open>Reading back what was written\<close>

text \<open>A \<open>boot.cfg\<close> as the installer writes it.\<close>

record boot_cfg =
  BcTitle :: string
  BcKernel :: string
  BcOpt :: string
  BcModules :: "string list"
  BcUpdated :: int
  BcState :: int

definition cfg_lines :: "boot_cfg \<Rightarrow> string list" where
  "cfg_lines c =
     [''bootstate='' @ FormatInt (BcState c), ''title='' @ BcTitle c, ''kernel='' @ BcKernel c, ''kernelopt='' @ BcOpt c,
      ''modules='' @ JoinWith '' --- '' (BcModules c), ''updated='' @ FormatInt (BcUpdated c)]"

definition cfg_text :: "boot_cfg \<Rightarrow> string" where
  "cfg_text c = concat (map (\<lambda>l. l @ [lf]) (cfg_lines c))"

fun no_dashes :: "string \<Rightarrow> bool" where
  "no_dashes [] = True"
| "no_dashes (c # s) = (take 3 (c # s) \<noteq> ''---'' \<and> no_dashes s)"

definition cfg_ok :: "boot_cfg \<Rightarrow> bool" where
  "cfg_ok c \<longleftrightarrow> trimmed (BcTitle c) \<and> trimmed (BcKernel c) \<and> trimmed (BcOpt c) \<and>
     (\<forall>m \<in> set (BcModules c). m \<noteq> [] \<and> trimmed m \<and> no_dashes m) \<and>
     - (2 ^ 63) \<le> BcUpdated c \<and> BcUpdated c < 2 ^ 63 \<and> - (2 ^ 63) \<le> BcState c \<and> BcState c < 2 ^ 63 \<and>
     (\<forall>l \<in> set (cfg_lines c). line_ok l)"

lemma split_dashes_sep: "no_dashes m \<Longrightarrow> split_dashes acc (m @ '' --- '' @ r) = (acc @ m @ '' '') # split_dashes [] ('' '' @ r)"
proof (induction m arbitrary: acc)
  case (Cons c m)
  have "take 3 (c # m @ '' --- '' @ r) \<noteq> ''---''"
    using Cons.prems by (cases m; cases "tl m") (auto split: list.splits simp: numeral_eq_Suc)
  then show ?case using Cons by simp
qed simp

lemma split_dashes_end: "no_dashes m \<Longrightarrow> split_dashes acc m = [acc @ m]"
  by (induction m arbitrary: acc) auto

lemma split_dashes_blank: "split_dashes [] ('' '' @ r) = split_dashes '' '' r"
  by simp

lemma modules_read:
  assumes "\<forall>m \<in> set ms. m \<noteq> [] \<and> trimmed m \<and> no_dashes m" "set a \<subseteq> {CHR '' ''}"
  shows "concat (map (\<lambda>tok. let t = TrimSpace tok in
       if length t > 0 then [\<lparr>CmModule = Join dir (hd (Fields t)), CmCmdline = t\<rparr>] else [])
       (split_dashes a (JoinWith '' --- '' ms))) =
     map (\<lambda>m. \<lparr>CmModule = Join dir (hd (Fields m)), CmCmdline = m\<rparr>) ms"
  using assms
proof (induction ms arbitrary: a)
  case Nil
  from TrimSpace_blank [OF Nil.prems(2)] show ?case by simp
next
  case (Cons m ms)
  have m: "trimmed m" "m \<noteq> []" "no_dashes m" using Cons.prems by auto
  show ?case
  proof (cases ms)
    case Nil
    then show ?thesis using m TrimSpace_blanks [OF m(1,2) Cons.prems(2), of "[]"] by (simp add: split_dashes_end)
  next
    case (Cons m' ms')
    then have "split_dashes a (JoinWith '' --- '' (m # ms)) = (a @ m @ '' '') # split_dashes '' '' (JoinWith '' --- '' ms)"
      using split_dashes_sep [OF m(3), of a "JoinWith '' --- '' ms"] by simp
    then show ?thesis
      using Cons.IH [of "'' ''"] Cons.prems(1) m TrimSpace_blanks [OF m(1,2) Cons.prems(2), of "'' ''"] by simp
  qed
qed

lemma esxi_line_kv:
  assumes "CHR ''='' \<notin> set k" "trimmed k" "k \<noteq> []" "hd k \<noteq> CHR ''#''" "trimmed v"
  shows "esxi_line dir (k @ ''='' @ v) opt = esxi_key dir k v opt"
proof -
  have eq: "(of_char (CHR ''='') :: nat) = 61" by simp
  have "trimmed (k @ ''='' @ v)"
    using assms(2,3,5) unfolding trimmed_def ascii_def by (cases "v = []") (auto simp: eq IsSpace_def [of 61])
  then have "TrimSpace (k @ CHR ''='' # v) = k @ CHR ''='' # v" by simp
  then show ?thesis using assms by (simp add: esxi_line_def Let_def SplitN2_append)
qed

lemma trimmed_digits: "trimmed (FormatInt n)"
proof -
  have d: "(of_char c :: nat) < 128 \<and> \<not> IsSpace (of_char c)" if "c \<in> set (FormatInt n)" for c
    using that FormatNat_digits [of c "nat n"] FormatNat_digits [of c "nat (- n)"]
    by (auto simp: FormatInt_def of_char_digit IsSpace_def split: if_splits)
  have "FormatInt n \<noteq> []" by (simp add: FormatInt_def)
  then show ?thesis using d by (auto simp: trimmed_def ascii_def)
qed

lemma trimmed_modules:
  assumes "\<forall>m \<in> set ms. m \<noteq> [] \<and> trimmed m"
  shows "trimmed (JoinWith '' --- '' ms)"
  using assms
proof (induction ms)
  case (Cons m ms)
  show ?case
  proof (cases ms)
    case (Cons m' ms')
    have "JoinWith '' --- '' ms \<noteq> []" using Cons.prems Cons by (cases ms') auto
    then show ?thesis using Cons.IH Cons.prems Cons by (auto simp: trimmed_def ascii_def)
  qed (use Cons in simp)
qed (simp add: trimmed_def ascii_def)

text \<open>The settings and the image that a configuration stands for.\<close>

definition cfg_image :: "string \<Rightarrow> boot_cfg \<Rightarrow> MultibootImage" where
  "cfg_image file c =
     \<lparr>MiName = BcTitle c @ '' from config file '' @ file, MiKernel = Some (Join (Dir file) (BcKernel c)),
      MiCmdline = BcKernel c @ '' '' @ BcOpt c,
      MiModules = map (\<lambda>m. \<lparr>CmModule = Join (Dir file) (hd (Fields m)), CmCmdline = m\<rparr>) (BcModules c), MiBootRank = 0\<rparr>"

lemma esxi_parse_written:
  assumes "cfg_ok c" "ew_read w file = Some (cfg_text c)"
  shows "esxi_parse w file =
    Ok \<lparr>EsTitle = BcTitle c, EsKernel = Join (Dir file) (BcKernel c), EsArgs = BcKernel c @ '' '' @ BcOpt c,
        EsModules = map (\<lambda>m. \<lparr>CmModule = Join (Dir file) (hd (Fields m)), CmCmdline = m\<rparr>) (BcModules c),
        EsUpdated = BcUpdated c, EsBootstate = bootstate_of (BcState c)\<rparr>"
proof -
  let ?dir = "Dir file"
  have ls: "Scan_lines (cfg_text c) = (cfg_lines c, False)"
    using assms(1) Scan_lines_unlines [of "cfg_lines c" "[]"] by (simp add: cfg_ok_def cfg_text_def line_ok_def maxLine_def)
  have a: "Atoi (FormatInt (BcState c)) = Ok (BcState c)" "Atoi (FormatInt (BcUpdated c)) = Ok (BcUpdated c)"
    using assms(1) by (simp_all add: cfg_ok_def Atoi_FormatInt)
  have ne: "FormatInt n \<noteq> []" for n by (simp add: FormatInt_def)
  have mods: "esxi_modules ?dir (JoinWith '' --- '' (BcModules c)) =
      map (\<lambda>m. \<lparr>CmModule = Join ?dir (hd (Fields m)), CmCmdline = m\<rparr>) (BcModules c)"
    unfolding esxi_modules_def by (rule modules_read) (use assms(1) in \<open>auto simp: cfg_ok_def\<close>)
  have kv: "esxi_line dir (k @ ''='' @ v) opt = esxi_key dir k v opt"
    if "k \<in> {''bootstate'', ''title'', ''kernel'', ''kernelopt'', ''modules'', ''updated''}" "trimmed v" for dir k v opt
  proof (rule esxi_line_kv)
    from that(1) show "trimmed k" unfolding trimmed_def ascii_def by (elim insertE emptyE) (simp_all add: IsSpace_def)
    show "CHR ''='' \<notin> set k" "k \<noteq> []" "hd k \<noteq> CHR ''#''" using that(1) by (elim insertE emptyE; simp)+
  qed (rule that(2))
  have tr: "trimmed (BcTitle c)" "trimmed (BcKernel c)" "trimmed (BcOpt c)" "trimmed (JoinWith '' --- '' (BcModules c))"
    using assms(1) trimmed_modules [of "BcModules c"] by (simp_all add: cfg_ok_def)
  have l: "esxi_line ?dir (''bootstate='' @ FormatInt (BcState c)) opt = esxi_key ?dir ''bootstate'' (FormatInt (BcState c)) opt"
    "esxi_line ?dir (''title='' @ BcTitle c) opt = esxi_key ?dir ''title'' (BcTitle c) opt"
    "esxi_line ?dir (''kernel='' @ BcKernel c) opt = esxi_key ?dir ''kernel'' (BcKernel c) opt"
    "esxi_line ?dir (''kernelopt='' @ BcOpt c) opt = esxi_key ?dir ''kernelopt'' (BcOpt c) opt"
    "esxi_line ?dir (''modules='' @ JoinWith '' --- '' (BcModules c)) opt = esxi_key ?dir ''modules'' (JoinWith '' --- '' (BcModules c)) opt"
    "esxi_line ?dir (''updated='' @ FormatInt (BcUpdated c)) opt = esxi_key ?dir ''updated'' (FormatInt (BcUpdated c)) opt" for opt
    using kv [of "''bootstate''" "FormatInt (BcState c)" ?dir opt]
      kv [of "''title''" "BcTitle c" ?dir opt]
      kv [of "''kernel''" "BcKernel c" ?dir opt]
      kv [of "''kernelopt''" "BcOpt c" ?dir opt]
      kv [of "''modules''" "JoinWith '' --- '' (BcModules c)" ?dir opt]
      kv [of "''updated''" "FormatInt (BcUpdated c)" ?dir opt] tr trimmed_digits
    by simp_all
  have keys: "esxi_lines ?dir (cfg_lines c) esxi_default =
    rbind (esxi_key ?dir ''bootstate'' (FormatInt (BcState c)) esxi_default) (\<lambda>o1.
    rbind (esxi_key ?dir ''title'' (BcTitle c) o1) (\<lambda>o2.
    rbind (esxi_key ?dir ''kernel'' (BcKernel c) o2) (\<lambda>o3.
    rbind (esxi_key ?dir ''kernelopt'' (BcOpt c) o3) (\<lambda>o4.
    rbind (esxi_key ?dir ''modules'' (JoinWith '' --- '' (BcModules c)) o4) (\<lambda>o5.
    rbind (esxi_key ?dir ''updated'' (FormatInt (BcUpdated c)) o5) Ok)))))"
    unfolding cfg_lines_def esxi_lines.simps
    by (simp only: l)
  have "esxi_lines ?dir (cfg_lines c) esxi_default =
    Ok \<lparr>EsTitle = BcTitle c, EsKernel = Join ?dir (BcKernel c), EsArgs = BcKernel c @ '' '' @ BcOpt c,
        EsModules = map (\<lambda>m. \<lparr>CmModule = Join ?dir (hd (Fields m)), CmCmdline = m\<rparr>) (BcModules c),
        EsUpdated = BcUpdated c, EsBootstate = bootstate_of (BcState c)\<rparr>"
    unfolding keys by (simp add: esxi_key_def a ne mods esxi_default_def)
  then show ?thesis by (simp add: esxi_parse_def assms(2) ls)
qed



section \<open>What goes wrong\<close>

text \<open>A dirty bank is not booted, although the description of the package promises it.\<close>

lemma dirty_not_booted:
  "EsBootstate opts = bootDirty \<Longrightarrow> getBootImage w opts dev n name = Err (EsState bootDirty)"
  by (simp add: getBootImage_def)

end
