(* ===== verification/Mount.thy ===== *)
theory Mount imports GoText begin

text \<open>
  \<open>pkg/mount\<close>: mounting file systems (\<open>mount_linux.go\<close>), the pool of mount points, the supported file systems (\<open>fs_linux.go\<close>) and
  recognising a file system by its magic number (\<open>magic.go\<close>). The kernel is a state \<open>'k\<close> with its system calls as parameters.
\<close>

text \<open>Every call gives whether it succeeded; \<open>sys_read\<close> is the content of a file or device.\<close>

record 'k mount_sys =
  sys_mount :: "string \<Rightarrow> string \<Rightarrow> string \<Rightarrow> u64 \<Rightarrow> string \<Rightarrow> 'k \<Rightarrow> bool \<times> 'k"
  sys_unmount :: "string \<Rightarrow> u64 \<Rightarrow> 'k \<Rightarrow> bool \<times> 'k"
  sys_MkdirTemp :: "string \<Rightarrow> 'k \<Rightarrow> string option \<times> 'k"
  sys_MkdirAll :: "string \<Rightarrow> 'k \<Rightarrow> bool \<times> 'k"
  sys_Rmdir :: "string \<Rightarrow> 'k \<Rightarrow> bool \<times> 'k"
  sys_read :: "'k \<Rightarrow> string \<Rightarrow> byte list option"

datatype mount_error =
  MnOpt | MnMount string string | MnUnmount string | MnEmptyPath | MnForceLazy | MnOpen string | MnShort string
| MnNoMagic string | MnNoFS string | MnTmp | MnMany "mount_error list" | MnRmdir string

record MountPoint =
  MpPath :: string
  MpDevice :: string
  MpFSType :: string
  MpFlags :: u64
  MpData :: string

definition MS_RDONLY :: u64 where "MS_RDONLY = 1"
definition MS_NOATIME :: u64 where "MS_NOATIME = 0x400"
definition MNT_FORCE :: u64 where "MNT_FORCE = 1"
definition MNT_DETACH :: u64 where "MNT_DETACH = 2"
definition UMOUNT_NOFOLLOW :: u64 where "UMOUNT_NOFOLLOW = 8"
definition MountReadOnly :: u64 where "MountReadOnly = MS_RDONLY OR MS_NOATIME"

section \<open>System calls\<close>

fun run_opts :: "('k \<Rightarrow> bool \<times> 'k) list \<Rightarrow> 'k \<Rightarrow> bool \<times> 'k" where
  "run_opts [] k = (True, k)"
| "run_opts (f # fs) k = (case f k of (True, k') \<Rightarrow> run_opts fs k' | (False, k') \<Rightarrow> (False, k'))"

definition sys_Mount ::
    "'k mount_sys \<Rightarrow> string \<Rightarrow> string \<Rightarrow> string \<Rightarrow> string \<Rightarrow> u64 \<Rightarrow> ('k \<Rightarrow> bool \<times> 'k) list \<Rightarrow> 'k \<Rightarrow> (mount_error, MountPoint) res \<times> 'k" where
  "sys_Mount s dev path fsType data flags opts k =
     (case run_opts opts k of
        (False, k1) \<Rightarrow> (Err MnOpt, k1)
      | (True, k1) \<Rightarrow>
          (case sys_mount s dev path fsType flags data k1 of
             (False, k2) \<Rightarrow> (Err (MnMount dev path), k2)
           | (True, k2) \<Rightarrow>
               (Ok \<lparr>MpPath = path, MpDevice = dev, MpFSType = fsType, MpFlags = flags, MpData = data\<rparr>, k2)))"

definition MountPoint_Unmount :: "'k mount_sys \<Rightarrow> MountPoint \<Rightarrow> u64 \<Rightarrow> 'k \<Rightarrow> (mount_error, unit) res \<times> 'k" where
  "MountPoint_Unmount s mp flags k =
     (case sys_unmount s (MpPath mp) flags k of
        (True, k') \<Rightarrow> (Ok (), k') | (False, k') \<Rightarrow> (Err (MnUnmount (MpPath mp)), k'))"

definition Unmount :: "'k mount_sys \<Rightarrow> string \<Rightarrow> bool \<Rightarrow> bool \<Rightarrow> 'k \<Rightarrow> (mount_error, unit) res \<times> 'k" where
  "Unmount s path force lazy k =
     (if length path = 0 then (Err MnEmptyPath, k)
      else if force \<and> lazy then (Err MnForceLazy, k)
      else case sys_unmount s path
          (UMOUNT_NOFOLLOW OR (if force then MNT_FORCE else 0) OR (if lazy then MNT_DETACH else 0)) k of
          (True, k') \<Rightarrow> (Ok (), k') | (False, k') \<Rightarrow> (Err (MnUnmount path), k'))"

section \<open>File systems\<close>

definition internalFindFileSystem :: "string \<Rightarrow> string \<Rightarrow> bool" where
  "internalFindFileSystem content fstype =
     list_ex (\<lambda>l. case Fields l of
         [] \<Rightarrow> False
       | [f] \<Rightarrow> f \<noteq> ''nodev'' \<and> f = fstype
       | f # g # _ \<Rightarrow> (f = ''nodev'' \<and> g = fstype) \<or> (f \<noteq> ''nodev'' \<and> f = fstype)) (split_on lf content)"

definition FindFileSystem :: "'k mount_sys \<Rightarrow> 'k \<Rightarrow> string \<Rightarrow> bool" where
  "FindFileSystem s k fstype =
     (case sys_read s k ''/proc/filesystems'' of None \<Rightarrow> False | Some b \<Rightarrow> internalFindFileSystem (bytes_str b) fstype)"

definition internalGetFilesystems :: "'k mount_sys \<Rightarrow> 'k \<Rightarrow> string \<Rightarrow> (mount_error, string list) res" where
  "internalGetFilesystems s k file =
     (case sys_read s k file of
        None \<Rightarrow> Err (MnOpen file)
      | Some b \<Rightarrow> Ok (concat (map (\<lambda>l. case Fields l of [f] \<Rightarrow> [f] | _ \<Rightarrow> []) (split_on lf (bytes_str b)))))"

definition GetBlockFilesystems :: "'k mount_sys \<Rightarrow> 'k \<Rightarrow> (mount_error, string list) res" where
  "GetBlockFilesystems s k = internalGetFilesystems s k ''/proc/filesystems''"

section \<open>Magic numbers\<close>

record magic =
  MgMagic :: "byte list"
  MgOff :: nat
  MgName :: string
  MgFlags :: u64

definition blocksize :: nat where "blocksize = 0x80000"

definition EXT2 :: "byte list" where "EXT2 = [0x53, 0xef]"
definition EXT3 :: "byte list" where "EXT3 = [0x53, 0xef]"
definition EXT4 :: "byte list" where "EXT4 = [0x53, 0xef]"
definition ISOFS :: "byte list" where "ISOFS = 1 # str_bytes ''CD001''"
definition SQUASHFS :: "byte list" where "SQUASHFS = str_bytes ''hsqs''"
definition XFS :: "byte list" where "XFS = str_bytes ''XFSB''"
definition MSDOS :: "byte list" where "MSDOS = [0xeb, 0x3c]"
definition VFAT :: "byte list" where "VFAT = [0xeb, 0x58]"
definition VVFAT :: "byte list" where "VVFAT = [0xeb, 0x3e]"
definition BTRFS :: "byte list" where "BTRFS = str_bytes ''_BHRfS_M''"

definition fs_magics :: "magic list" where
  "fs_magics =
    [\<lparr>MgMagic = EXT4, MgOff = 0x438, MgName = ''ext4'', MgFlags = 0\<rparr>,
     \<lparr>MgMagic = EXT3, MgOff = 0x438, MgName = ''ext3'', MgFlags = 0\<rparr>,
     \<lparr>MgMagic = EXT2, MgOff = 0x438, MgName = ''ext2'', MgFlags = 0\<rparr>,
     \<lparr>MgMagic = MSDOS, MgOff = 0, MgName = ''vfat'', MgFlags = 0\<rparr>,
     \<lparr>MgMagic = SQUASHFS, MgOff = 0, MgName = ''squashfs'', MgFlags = MS_RDONLY\<rparr>,
     \<lparr>MgMagic = ISOFS, MgOff = 32768, MgName = ''iso9660'', MgFlags = MS_RDONLY\<rparr>,
     \<lparr>MgMagic = VFAT, MgOff = 0, MgName = ''vfat'', MgFlags = 0\<rparr>,
     \<lparr>MgMagic = VVFAT, MgOff = 0, MgName = ''vfat'', MgFlags = 0\<rparr>,
     \<lparr>MgMagic = XFS, MgOff = 0, MgName = ''xfs'', MgFlags = 0\<rparr>,
     \<lparr>MgMagic = BTRFS, MgOff = 0x10040, MgName = ''btrfs'', MgFlags = 0\<rparr>]"

definition FindMagics :: "byte list \<Rightarrow> magic list" where
  "FindMagics blk =
     filter (\<lambda>v. MgOff v + length (MgMagic v) \<le> length blk \<and> take (length (MgMagic v)) (drop (MgOff v) blk) = MgMagic v) fs_magics"

definition FSFromBlock :: "'k mount_sys \<Rightarrow> 'k \<Rightarrow> string \<Rightarrow> (mount_error, string \<times> u64) res" where
  "FSFromBlock s k n =
     (case sys_read s k n of
        None \<Rightarrow> Err (MnOpen n)
      | Some f \<Rightarrow>
          if length f < blocksize then Err (MnShort n)
          else let ms = FindMagics (take blocksize f) in
            if ms = [] then Err (MnNoMagic n)
            else case filter (\<lambda>m. FindFileSystem s k (MgName m)) ms of
                m # _ \<Rightarrow> Ok (MgName m, MgFlags m)
              | [] \<Rightarrow> Err (MnNoFS n))"

definition TryMount ::
    "'k mount_sys \<Rightarrow> string \<Rightarrow> string \<Rightarrow> string \<Rightarrow> u64 \<Rightarrow> ('k \<Rightarrow> bool \<times> 'k) list \<Rightarrow> 'k \<Rightarrow> (mount_error, MountPoint) res \<times> 'k" where
  "TryMount s device path data flags opts k =
     (case FSFromBlock s k device of
        Ok (fstype, extraflags) \<Rightarrow> sys_Mount s device path fstype data (flags OR extraflags) opts k
      | Err e \<Rightarrow> (Err e, k)
      | Panic \<Rightarrow> (Panic, k))"

section \<open>The pool\<close>

record 'k Mounter =
  DevName :: string
  MountAt :: "string \<Rightarrow> u64 \<Rightarrow> 'k \<Rightarrow> (mount_error, MountPoint) res \<times> 'k"

record Pool =
  MountPoints :: "MountPoint list"
  PoolTmp :: string

definition dev_path :: "string \<Rightarrow> string" where
  "dev_path name = Join ''/dev'' name"

text \<open>The first mount point of a device.\<close>

definition pool_find :: "Pool \<Rightarrow> string \<Rightarrow> MountPoint option" where
  "pool_find p name = find (\<lambda>m. MpDevice m = dev_path name) (MountPoints p)"

definition pool_tmp :: "'k mount_sys \<Rightarrow> Pool \<times> 'k \<Rightarrow> (mount_error, unit) res \<times> Pool \<times> 'k" where
  "pool_tmp s st =
     (case st of (p, k) \<Rightarrow>
        if PoolTmp p = [] then
          (case sys_MkdirTemp s ''u-root-mounts'' k of
             (None, k1) \<Rightarrow> (Err MnTmp, p, k1)
           | (Some t, k1) \<Rightarrow> (Ok (), p\<lparr>PoolTmp := t\<rparr>, k1))
        else (Ok (), p, k))"

definition Pool_Mount :: "'k mount_sys \<Rightarrow> 'k Mounter \<Rightarrow> u64 \<Rightarrow> Pool \<times> 'k \<Rightarrow> (mount_error, MountPoint) res \<times> Pool \<times> 'k" where
  "Pool_Mount s mounter flags st =
     (case pool_find (fst st) (DevName mounter) of
        Some m \<Rightarrow> (Ok m, st)
      | None \<Rightarrow>
          sbind (pool_tmp s) (\<lambda>_ (p, k).
            let path = Join (PoolTmp p) (DevName mounter); (_, k1) = sys_MkdirAll s path k in
            case MountAt mounter path flags k1 of
              (Ok m, k2) \<Rightarrow> (Ok m, p\<lparr>MountPoints := MountPoints p @ [m]\<rparr>, k2)
            | (Err e, k2) \<Rightarrow> (Err e, p, snd (sys_Rmdir s path k2))
            | (Panic, k2) \<Rightarrow> (Panic, p, k2)) st)"

definition Pool_Add :: "MountPoint list \<Rightarrow> Pool \<Rightarrow> Pool" where
  "Pool_Add ms p = p\<lparr>MountPoints := MountPoints p @ ms\<rparr>"

fun unmount_each :: "'k mount_sys \<Rightarrow> u64 \<Rightarrow> MountPoint list \<Rightarrow> 'k \<Rightarrow> mount_error list \<times> 'k" where
  "unmount_each s flags [] k = ([], k)"
| "unmount_each s flags (m # ms) k =
     (case MountPoint_Unmount s m flags k of (r, k1) \<Rightarrow>
        (case unmount_each s flags ms (snd (sys_Rmdir s (MpPath m) k1)) of (es, k2) \<Rightarrow>
           ((case r of Err e \<Rightarrow> [e] | _ \<Rightarrow> []) @ es, k2)))"

definition UnmountAll :: "'k mount_sys \<Rightarrow> u64 \<Rightarrow> Pool \<times> 'k \<Rightarrow> (mount_error, unit) res \<times> Pool \<times> 'k" where
  "UnmountAll s flags st =
     (case st of (p, k) \<Rightarrow>
        (case unmount_each s flags (MountPoints p) k of
           (e # es, k1) \<Rightarrow> (Err (MnMany (e # es)), p, k1)
         | ([], k1) \<Rightarrow>
             if PoolTmp p = [] then (Ok (), p, k1)
             else
               (case sys_Rmdir s (PoolTmp p) k1 of (ok, k2) \<Rightarrow>
                  (if ok then Ok () else Err (MnMany [MnRmdir (PoolTmp p)]), p\<lparr>PoolTmp := []\<rparr>, k2))))"

section \<open>A device is mounted once\<close>

text \<open>A mounter that names its device, as block devices do.\<close>

definition named :: "'k Mounter \<Rightarrow> bool" where
  "named mt \<longleftrightarrow> (\<forall>path flags k m k'. MountAt mt path flags k = (Ok m, k') \<longrightarrow> MpDevice m = dev_path (DevName mt))"

text \<open>Any number of mounts, one after another; an error does not stop the caller.\<close>

fun mount_all :: "'k mount_sys \<Rightarrow> ('k Mounter \<times> u64) list \<Rightarrow> Pool \<times> 'k \<Rightarrow> Pool \<times> 'k" where
  "mount_all s [] st = st"
| "mount_all s ((mt, fl) # mts) st = mount_all s mts (snd (Pool_Mount s mt fl st))"

lemma pool_tmp_points: "pool_tmp s st = (r, st') \<Longrightarrow> MountPoints (fst st') = MountPoints (fst st)"
  by (auto simp: pool_tmp_def split: prod.splits if_splits option.splits)

lemma Pool_Mount_new:
  assumes "Pool_Mount s mt fl st = (r, st')" "pool_find (fst st) (DevName mt) = None"
  shows "MountPoints (fst st') = MountPoints (fst st) \<and> (\<forall>m. r \<noteq> Ok m) \<or>
    (\<exists>m path k1 k2. r = Ok m \<and> MountPoints (fst st') = MountPoints (fst st) @ [m] \<and> MountAt mt path fl k1 = (Ok m, k2))"
  using assms pool_tmp_points [of s st]
  by (auto simp: Pool_Mount_def sbind_def Let_def split: prod.splits res.splits)

lemma pool_find_Some: "pool_find p name = Some m \<Longrightarrow> m \<in> set (MountPoints p) \<and> MpDevice m = dev_path name"
  by (auto simp: pool_find_def find_Some_iff)

lemma pool_find_None: "pool_find p name = None \<longleftrightarrow> dev_path name \<notin> MpDevice ` set (MountPoints p)"
  by (simp add: pool_find_def find_None_iff image_iff) metis

lemma find_snoc: "\<forall>x \<in> set xs. f x \<noteq> a \<Longrightarrow> f y = a \<Longrightarrow> find (\<lambda>x. f x = a) (xs @ [y]) = Some y"
  by (induction xs) auto

lemma Pool_Mount_inv:
  assumes "Pool_Mount s mt fl st = (r, st')" "named mt" "distinct (map MpDevice (MountPoints (fst st)))"
  shows "distinct (map MpDevice (MountPoints (fst st')))"
    and "\<exists>ms. MountPoints (fst st') = MountPoints (fst st) @ ms"
    and "r = Ok m \<Longrightarrow> pool_find (fst st') (DevName mt) = Some m"
proof -
  have "distinct (map MpDevice (MountPoints (fst st'))) \<and> (\<exists>ms. MountPoints (fst st') = MountPoints (fst st) @ ms) \<and>
      (r = Ok m \<longrightarrow> pool_find (fst st') (DevName mt) = Some m)"
  proof (cases "pool_find (fst st) (DevName mt)")
    case None
    then have n: "\<forall>x \<in> set (MountPoints (fst st)). MpDevice x \<noteq> dev_path (DevName mt)" by (force simp: pool_find_None)
    from Pool_Mount_new [OF assms(1) None] show ?thesis
    proof (elim disjE exE conjE)
      fix m' path k1 k2
      assume a: "r = Ok m'" "MountPoints (fst st') = MountPoints (fst st) @ [m']" "MountAt mt path fl k1 = (Ok m', k2)"
      then have d: "MpDevice m' = dev_path (DevName mt)" using assms(2) unfolding named_def by blast
      have "find (\<lambda>m. MpDevice m = dev_path (DevName mt)) (MountPoints (fst st) @ [m']) = Some m'"
        using n d by (rule find_snoc)
      then show ?thesis using a n d assms(3) by (auto simp: pool_find_def)
    qed (use assms(3) in auto)
  next
    case (Some m')
    then show ?thesis using assms by (auto simp: Pool_Mount_def)
  qed
  then show "distinct (map MpDevice (MountPoints (fst st')))" "\<exists>ms. MountPoints (fst st') = MountPoints (fst st) @ ms"
    "r = Ok m \<Longrightarrow> pool_find (fst st') (DevName mt) = Some m" by auto
qed

lemma pool_find_append: "pool_find p name = Some m \<Longrightarrow> MountPoints p' = MountPoints p @ ms \<Longrightarrow> pool_find p' name = Some m"
  by (auto simp: pool_find_def find_Some_iff nth_append)

lemma mount_all_inv:
  assumes "\<forall>(mt, fl) \<in> set mts. named mt" "distinct (map MpDevice (MountPoints (fst st)))"
  shows "distinct (map MpDevice (MountPoints (fst (mount_all s mts st)))) \<and>
    (\<exists>ms. MountPoints (fst (mount_all s mts st)) = MountPoints (fst st) @ ms)"
  using assms
proof (induction mts arbitrary: st)
  case (Cons x mts)
  obtain mt fl where x: "x = (mt, fl)" by fastforce
  obtain r st' where st': "Pool_Mount s mt fl st = (r, st')" by (cases "Pool_Mount s mt fl st")
  have "named mt" using Cons.prems(1) by (simp add: x)
  note i = Pool_Mount_inv [OF st' this Cons.prems(2)]
  from Cons.IH [of st'] Cons.prems(1) i(1,2) show ?case by (fastforce simp: x st')
qed simp

text \<open>C35: a device that was mounted is never mounted again: whatever is mounted after it, mounting it once more gives
  the same mount point without a system call, and the pool holds no device twice.\<close>

theorem pool_mounts_once:
  assumes "distinct (map MpDevice (MountPoints (fst st)))" "named mt" "\<forall>(mt', fl') \<in> set mts. named mt'"
    and "Pool_Mount s mt fl st = (Ok m, st1)"
  shows "Pool_Mount s mt fl' (mount_all s mts st1) = (Ok m, mount_all s mts st1) \<and>
    distinct (map MpDevice (MountPoints (fst (mount_all s mts st1))))"
proof -
  note i = Pool_Mount_inv [OF assms(4,2,1)]
  from mount_all_inv [OF assms(3) i(1), of s] pool_find_append [OF i(3)]
  have "pool_find (fst (mount_all s mts st1)) (DevName mt) = Some m"
    "distinct (map MpDevice (MountPoints (fst (mount_all s mts st1))))" by auto
  then show ?thesis by (simp add: Pool_Mount_def)
qed

text \<open>A disk of two partitions on a kernel that counts its mounts.\<close>

definition ex_sys :: "nat mount_sys" where
  "ex_sys = \<lparr>sys_mount = (\<lambda>dev path fs fl d k. (True, Suc k)), sys_unmount = (\<lambda>p fl k. (True, k - 1)),
     sys_MkdirTemp = (\<lambda>n k. (Some ''/tmp/m'', k)), sys_MkdirAll = (\<lambda>p k. (True, k)), sys_Rmdir = (\<lambda>p k. (True, k)),
     sys_read = (\<lambda>k p. None)\<rparr>"

definition ex_mounter :: "string \<Rightarrow> nat Mounter" where
  "ex_mounter n = \<lparr>DevName = n, MountAt = (\<lambda>path fl. sys_Mount ex_sys (dev_path n) path ''ext4'' [] fl [])\<rparr>"

theorem pool_mounts_once_witness:
  "\<exists>m st1. Pool_Mount ex_sys (ex_mounter ''sda1'') 1 (\<lparr>MountPoints = [], PoolTmp = []\<rparr>, 0) = (Ok m, st1) \<and> snd st1 = 1 \<and>
     Pool_Mount ex_sys (ex_mounter ''sda1'') 1 (mount_all ex_sys [(ex_mounter ''sda2'', 1)] st1) =
       (Ok m, mount_all ex_sys [(ex_mounter ''sda2'', 1)] st1)"
proof -
  have n: "named (ex_mounter d)" for d
    by (auto simp: named_def ex_mounter_def sys_Mount_def ex_sys_def)
  obtain m st1 where p: "Pool_Mount ex_sys (ex_mounter ''sda1'') 1 (\<lparr>MountPoints = [], PoolTmp = []\<rparr>, 0) = (Ok m, st1)" "snd st1 = 1"
    by (simp add: Pool_Mount_def pool_find_def sbind_def pool_tmp_def ex_sys_def ex_mounter_def sys_Mount_def Let_def)
  from pool_mounts_once [OF _ n _ p(1), of "[(ex_mounter ''sda2'', 1)]" 1] p n show ?thesis by auto
qed

section \<open>What goes wrong\<close>

text \<open>\<open>UnmountAll\<close> does not empty the pool: the next mount of a device returns the mount point that is gone.\<close>

lemma stale_after_UnmountAll:
  assumes "UnmountAll s flags st = (Ok (), st')" "pool_find (fst st) (DevName mt) = Some m"
  shows "Pool_Mount s mt fl st' = (Ok m, st')"
proof -
  have "MountPoints (fst st') = MountPoints (fst st)"
    using assms(1) by (auto simp: UnmountAll_def split: prod.splits list.splits if_splits)
  with assms(2) show ?thesis by (simp add: Pool_Mount_def pool_find_def)
qed

text \<open>A device of less than 512 KiB is never recognised.\<close>

lemma small_device_not_recognised: "sys_read s k n = Some f \<Longrightarrow> length f < 0x80000 \<Longrightarrow> FSFromBlock s k n = Err (MnShort n)"
  by (simp add: FSFromBlock_def blocksize_def)

end
