(* ===== verification/Menu.thy ===== *)
theory Menu imports BootImage Mount Esxi begin

text \<open>
  \<open>pkg/boot/menu/menu.go\<close> and \<open>pkg/boot/bootcmd/bootcmd.go\<close>: the boot menu, from what the user types to the entry that is
  loaded and executed. What is read from a terminal is a list of lines, \<open>None\<close> for an error; when it is used up, reading
  times out. The menu is shown again after a choice that does not load, on a new terminal. Entries are named by their
  position, as the code changes them in place. Loading and executing are parameters; what is printed is left out.
\<close>

type_synonym terminal = "string option list"

definition ReadLine :: "terminal \<Rightarrow> string option \<times> terminal" where
  "ReadLine t = (case t of [] \<Rightarrow> (None, []) | l # ls \<Rightarrow> (l, ls))"

datatype Entry = OSImageAction OSImage | StartShell | Reboot

datatype menu_error = MnuNumber string

definition OSImages :: "OSImage list \<Rightarrow> Entry list" where
  "OSImages imgs = map OSImageAction imgs"

fun IsDefault :: "Entry \<Rightarrow> bool" where
  "IsDefault (OSImageAction i) = True"
| "IsDefault StartShell = False"
| "IsDefault Reboot = False"

section \<open>Loading an entry\<close>

text \<open>
  \<open>copyToFileIfNotRegular\<close> and the loaders: each gives its result and the next state of the system. A file is
  named as its image names it, and the list of files stands for the reader that \<open>CatInitrds\<close> makes of them.
\<close>

record 'k image_loader =
  il_copy :: "string list \<Rightarrow> 'k \<Rightarrow> string option \<times> 'k"
  il_FileLoad :: "string \<Rightarrow> string option \<Rightarrow> string \<Rightarrow> 'k \<Rightarrow> bool \<times> 'k"
  il_KexecLoad :: "string \<Rightarrow> string option \<Rightarrow> string \<Rightarrow> 'k \<Rightarrow> bool \<times> 'k"
  il_multiboot :: "MultibootImage \<Rightarrow> 'k \<Rightarrow> bool \<times> 'k"

text \<open>\<open>LoadSyscall\<close> is a field that the parsers of configuration files leave at false. The device tree is joined to the
  initrd of the image itself.\<close>

definition with_dtb :: "LinuxImage \<Rightarrow> LinuxImage" where
  "with_dtb li = (case LiDeviceTree li of Some d \<Rightarrow> li\<lparr>LiInitrd := LiInitrd li @ [d]\<rparr> | None \<Rightarrow> li)"

definition LinuxImage_Load :: "'k image_loader \<Rightarrow> bool \<Rightarrow> LinuxImage \<Rightarrow> 'k \<Rightarrow> bool \<times> LinuxImage \<times> 'k" where
  "LinuxImage_Load ld LoadSyscall li k =
     (case LiKernel li of
        None \<Rightarrow> (False, li, k)
      | Some name \<Rightarrow>
          (case il_copy ld [name] k of
             (None, k1) \<Rightarrow> (False, li, k1)
           | (Some kf, k1) \<Rightarrow>
               let li' = with_dtb li;
                   load = (\<lambda>i k2. case (if LoadSyscall then il_KexecLoad else il_FileLoad) ld kf i (LiCmdline li') k2 of
                             (ok, k3) \<Rightarrow> (ok, li', k3))
               in if LiInitrd li' = [] then load None k1
                  else (case il_copy ld (LiInitrd li') k1 of
                      (None, k2) \<Rightarrow> (False, li', k2)
                    | (Some i, k2) \<Rightarrow> load (Some i) k2)))"

fun Entry_Load :: "'k image_loader \<Rightarrow> Entry \<Rightarrow> 'k \<Rightarrow> bool \<times> Entry \<times> 'k" where
  "Entry_Load ld (OSImageAction (OSLinux li)) k =
     (case LinuxImage_Load ld False li k of (ok, li', k') \<Rightarrow> (ok, OSImageAction (OSLinux li'), k'))"
| "Entry_Load ld (OSImageAction (OSMultiboot mi)) k =
     (case il_multiboot ld mi k of (ok, k') \<Rightarrow> (ok, OSImageAction (OSMultiboot mi), k'))"
| "Entry_Load ld StartShell k = (True, StartShell, k)"
| "Entry_Load ld Reboot k = (True, Reboot, k)"

section \<open>Editing a command line\<close>

text \<open>\<open>LinuxImage.Edit\<close>, \<open>MultibootImage.Edit\<close> and the entries that have nothing to edit; the function reads from the terminal.\<close>

definition LinuxImage_Edit :: "(string \<Rightarrow> 't \<Rightarrow> string \<times> 't) \<Rightarrow> LinuxImage \<Rightarrow> 't \<Rightarrow> LinuxImage \<times> 't" where
  "LinuxImage_Edit f li t = (case f (LiCmdline li) t of (c, t') \<Rightarrow> (li\<lparr>LiCmdline := c\<rparr>, t'))"

definition MultibootImage_Edit :: "(string \<Rightarrow> 't \<Rightarrow> string \<times> 't) \<Rightarrow> MultibootImage \<Rightarrow> 't \<Rightarrow> MultibootImage \<times> 't" where
  "MultibootImage_Edit f mi t = (case f (MiCmdline mi) t of (c, t') \<Rightarrow> (mi\<lparr>MiCmdline := c\<rparr>, t'))"

fun Entry_Edit :: "(string \<Rightarrow> 't \<Rightarrow> string \<times> 't) \<Rightarrow> Entry \<Rightarrow> 't \<Rightarrow> Entry \<times> 't" where
  "Entry_Edit f (OSImageAction (OSLinux li)) t = (case LinuxImage_Edit f li t of (li', t') \<Rightarrow> (OSImageAction (OSLinux li'), t'))"
| "Entry_Edit f (OSImageAction (OSMultiboot mi)) t =
     (case MultibootImage_Edit f mi t of (mi', t') \<Rightarrow> (OSImageAction (OSMultiboot mi'), t'))"
| "Entry_Edit f StartShell t = (StartShell, t)"
| "Entry_Edit f Reboot t = (Reboot, t)"

definition edit_cmdline :: "string \<Rightarrow> terminal \<Rightarrow> string \<times> terminal" where
  "edit_cmdline cmdline t =
     (case ReadLine t of
        (None, t1) \<Rightarrow> (cmdline, t1)
      | (Some choice, t1) \<Rightarrow>
          if choice = ''a'' then
            (case ReadLine t1 of
               (None, t2) \<Rightarrow> (cmdline, t2)
             | (Some app, t2) \<Rightarrow> (if app \<noteq> [] then cmdline @ '' '' @ app else cmdline, t2))
          else if choice = ''o'' then
            (case ReadLine t1 of (None, t2) \<Rightarrow> (cmdline, t2) | (Some new, t2) \<Rightarrow> (new, t2))
          else (cmdline, t1))"

section \<open>Choosing\<close>

definition parseBootNum :: "string \<Rightarrow> 'a list \<Rightarrow> (menu_error, nat) res" where
  "parseBootNum choice entries =
     (case Atoi (TrimSpace choice) of
        Ok num \<Rightarrow> if num < 1 \<or> num > int (length entries) then Err (MnuNumber choice) else Ok (nat num)
      | _ \<Rightarrow> Err (MnuNumber choice))"

text \<open>One round of editing: the number of the entry is read first.\<close>

definition edit_round :: "Entry list \<Rightarrow> terminal \<Rightarrow> Entry list \<times> terminal" where
  "edit_round entries t =
     (case ReadLine t of
        (None, t1) \<Rightarrow> (entries, t1)
      | (Some choice, t1) \<Rightarrow>
          (case parseBootNum choice entries of
             Ok num \<Rightarrow>
               (case Entry_Edit edit_cmdline (entries ! (num - 1)) t1 of (e, t2) \<Rightarrow> (entries[num - 1 := e], t2))
           | _ \<Rightarrow> (entries, t1)))"

lemma ReadLine_shorter: "ReadLine t = (r, t') \<Longrightarrow> length t' \<le> length t"
  by (auto simp: ReadLine_def split: list.splits)

lemma edit_cmdline_shorter: "edit_cmdline c t = (c', t') \<Longrightarrow> length t' \<le> length t"
  by (auto simp: edit_cmdline_def split: prod.splits option.splits if_splits dest!: ReadLine_shorter)

lemma Entry_Edit_shorter: "Entry_Edit edit_cmdline e t = (e', t') \<Longrightarrow> length t' \<le> length t"
  by (cases "(edit_cmdline, e, t)" rule: Entry_Edit.cases)
    (auto simp: LinuxImage_Edit_def MultibootImage_Edit_def split: prod.splits dest!: edit_cmdline_shorter)

lemma edit_round_shorter: "edit_round es t = (es', t') \<Longrightarrow> length t' \<le> length t"
  by (auto simp: edit_round_def split: prod.splits option.splits res.splits dest!: ReadLine_shorter Entry_Edit_shorter)

text \<open>The position of the entry chosen, if one was, and the entries as they were edited.\<close>

function Choose :: "bool \<Rightarrow> Entry list \<Rightarrow> terminal \<Rightarrow> nat option \<times> Entry list" where
  "Choose allowEdit entries [] = (None, entries)"
| "Choose allowEdit entries (None # t) = (None, entries)"
| "Choose allowEdit entries (Some choice # t) =
     (if allowEdit \<and> choice = ''e'' then
        (case edit_round entries t of (entries', t') \<Rightarrow> Choose allowEdit entries' t')
      else if choice = [] then (None, entries)
      else case parseBootNum choice entries of
          Ok num \<Rightarrow> (Some (num - 1), entries) | _ \<Rightarrow> Choose allowEdit entries t)"
  by pat_completeness auto

termination
  by (relation "measure (\<lambda>(_, _, t). length t)") (auto simp: less_Suc_eq_le split: prod.splits dest: edit_round_shorter)

section \<open>Loading what was chosen, or the default\<close>

text \<open>The first entry that runs by default and loads.\<close>

fun load_default :: "'k image_loader \<Rightarrow> Entry list \<Rightarrow> 'k \<Rightarrow> nat option \<times> Entry list \<times> 'k" where
  "load_default ld [] k = (None, [], k)"
| "load_default ld (e # es) k =
     (if IsDefault e then
        (case Entry_Load ld e k of
           (True, e', k') \<Rightarrow> (Some 0, e' # es, k')
         | (False, e', k') \<Rightarrow> (case load_default ld es k' of (r, es', k'') \<Rightarrow> (map_option Suc r, e' # es', k'')))
      else (case load_default ld es k of (r, es', k') \<Rightarrow> (map_option Suc r, e # es', k')))"

fun showMenuAndLoadFromFile :: "'k image_loader \<Rightarrow> bool \<Rightarrow> terminal list \<Rightarrow> Entry list \<Rightarrow> 'k \<Rightarrow> nat option \<times> Entry list \<times> 'k" where
  "showMenuAndLoadFromFile ld allowEdit [] entries k = load_default ld entries k"
| "showMenuAndLoadFromFile ld allowEdit (t # ts) entries k =
     (case Choose allowEdit entries t of
        (None, es) \<Rightarrow> load_default ld es k
      | (Some i, es) \<Rightarrow>
          (case Entry_Load ld (es ! i) k of
             (True, e, k') \<Rightarrow> (Some i, es[i := e], k')
           | (False, e, k') \<Rightarrow> showMenuAndLoadFromFile ld allowEdit ts (es[i := e]) k'))"

text \<open>Without a terminal nothing is loaded, not even by default.\<close>

definition ShowMenuAndLoad :: "'k image_loader \<Rightarrow> bool \<Rightarrow> terminal list option \<Rightarrow> Entry list \<Rightarrow> 'k \<Rightarrow> nat option \<times> Entry list \<times> 'k" where
  "ShowMenuAndLoad ld allowEdit tty entries k =
     (case tty of None \<Rightarrow> (None, entries, k) | Some ts \<Rightarrow> showMenuAndLoadFromFile ld allowEdit ts entries k)"

text \<open>How the command ends: \<open>BootExec\<close> is given the entry that takes over.\<close>

datatype boot_end = BootListed | BootNothing | BootChosen nat | BootExec nat

definition ShowMenuAndBoot ::
  "'k image_loader \<Rightarrow> 'k mount_sys \<Rightarrow> terminal list option \<Rightarrow> Entry list \<Rightarrow> Pool option \<Rightarrow> bool \<Rightarrow> bool \<Rightarrow> 'k \<Rightarrow>
   boot_end \<times> Entry list \<times> Pool option \<times> 'k" where
  "ShowMenuAndBoot ld s tty entries pool noLoad noExec k =
     (if noLoad then (BootListed, entries, pool, k)
      else
        (case ShowMenuAndLoad ld True tty entries k of
           (loaded, es, k1) \<Rightarrow>
             (case (case pool of
                      None \<Rightarrow> (None, k1)
                    | Some p \<Rightarrow> (case UnmountAll s MNT_DETACH (p, k1) of (_, p', k2) \<Rightarrow> (Some p', k2))) of
                (pool', k2) \<Rightarrow>
                  (case loaded of
                     None \<Rightarrow> (BootNothing, es, pool', k2)
                   | Some i \<Rightarrow> (if noExec then BootChosen i else BootExec i, es, pool', k2)))))"

section \<open>What is booted\<close>

text \<open>An entry without what editing and loading change: the command line and the initrd.\<close>

fun core :: "Entry \<Rightarrow> Entry" where
  "core (OSImageAction (OSLinux li)) = OSImageAction (OSLinux (li\<lparr>LiCmdline := [], LiInitrd := []\<rparr>))"
| "core (OSImageAction (OSMultiboot mi)) = OSImageAction (OSMultiboot (mi\<lparr>MiCmdline := []\<rparr>))"
| "core StartShell = StartShell"
| "core Reboot = Reboot"

lemma core_IsDefault: "core a = core b \<Longrightarrow> IsDefault a = IsDefault b"
  by (cases a rule: core.cases; cases b rule: core.cases) auto

lemma core_Load: "Entry_Load ld e k = (ok, e', k') \<Longrightarrow> core e' = core e"
  by (cases "(ld, e, k)" rule: Entry_Load.cases)
    (auto simp: LinuxImage_Load_def with_dtb_def Let_def split: prod.splits option.splits if_splits)

lemma core_Edit: "Entry_Edit f e t = (e', t') \<Longrightarrow> core e' = core e"
  by (cases "(f, e, t)" rule: Entry_Edit.cases) (auto simp: LinuxImage_Edit_def MultibootImage_Edit_def split: prod.splits)

lemma map_core_update: "core e = core (es ! i) \<Longrightarrow> map core (es[i := e]) = map core es"
  by (metis list_update_id map_update)

lemma parseBootNum_cong: "length es = length es' \<Longrightarrow> parseBootNum c es = parseBootNum c es'"
  by (simp add: parseBootNum_def split: res.split)

lemma parseBootNum_range: "parseBootNum c es = Ok n \<Longrightarrow> 0 < n \<and> n \<le> length es"
  by (auto simp: parseBootNum_def split: res.splits if_splits)

lemma parseBootNum_FormatNat:
  assumes "1 \<le> n" "n \<le> length entries" "length entries < 2 ^ 63" "set a \<subseteq> {CHR '' ''}" "set b \<subseteq> {CHR '' ''}"
  shows "parseBootNum (a @ FormatNat n @ b) entries = Ok n"
proof -
  have "FormatInt (int n) = FormatNat n" by (simp add: FormatInt_def)
  then have "trimmed (FormatNat n)" "Atoi (FormatNat n) = Ok (int n)"
    using trimmed_digits [of "int n"] Atoi_FormatInt [of "int n"] assms(2,3) by auto
  then show ?thesis using TrimSpace_blanks [of "FormatNat n" a b] assms by (simp add: parseBootNum_def)
qed

lemma edit_round_core: "edit_round es t = (es', t') \<Longrightarrow> map core es' = map core es"
  by (auto simp: edit_round_def split: prod.splits option.splits res.splits intro!: map_core_update dest!: core_Edit)

lemma edit_round_lines: "edit_round es t = (es', t') \<Longrightarrow> set t' \<subseteq> set t"
proof -
  have r: "set t' \<subseteq> set t" if "ReadLine t = (r, t')" for r and t t' :: terminal
    using that by (auto simp: ReadLine_def split: list.splits)
  have c: "set t' \<subseteq> set t" if "edit_cmdline c t = (c', t')" for c c' t t'
    using that by (auto simp: edit_cmdline_def split: prod.splits option.splits if_splits dest!: r)
  have e: "set t' \<subseteq> set t" if "Entry_Edit edit_cmdline e t = (e', t')" for e e' t t'
    using that by (cases "(edit_cmdline, e, t)" rule: Entry_Edit.cases)
      (auto simp: LinuxImage_Edit_def MultibootImage_Edit_def split: prod.splits dest!: c)
  show "edit_round es t = (es', t') \<Longrightarrow> set t' \<subseteq> set t"
    by (auto simp: edit_round_def split: prod.splits option.splits res.splits dest!: r e)
qed

text \<open>A line on some terminal is the number of an entry.\<close>

definition asked :: "terminal list \<Rightarrow> nat \<Rightarrow> nat \<Rightarrow> bool" where
  "asked ts n i \<longleftrightarrow> (\<exists>t \<in> set ts. \<exists>l. Some l \<in> set t \<and> parseBootNum l (replicate n ()) = Ok (Suc i))"

lemma asked_Cons [simp]: "asked ts n i \<Longrightarrow> asked (t # ts) n i"
  by (auto simp: asked_def)

lemma Choose_core:
  "Choose ae es t = (r, es') \<Longrightarrow> map core es' = map core es \<and> (\<forall>i. r = Some i \<longrightarrow> i < length es \<and> asked [t] (length es) i)"
proof (induction ae es t arbitrary: r es' rule: Choose.induct)
  case (3 ae es c t)
  have more: "asked [t'] n i \<Longrightarrow> set t' \<subseteq> set t \<Longrightarrow> asked [Some c # t] n i" for t' n i by (auto simp: asked_def)
  have len: "parseBootNum c (replicate (length es) ()) = parseBootNum c es" by (rule parseBootNum_cong) simp
  show ?case
  proof (cases "ae \<and> c = ''e''")
    case True
    obtain es1 t1 where e: "edit_round es t = (es1, t1)" by fastforce
    with True "3.prems" have "Choose ae es1 t1 = (r, es')" by simp
    from "3.IH"(1) [OF True e [symmetric] this] show ?thesis
      using edit_round_core [OF e] edit_round_lines [OF e] map_eq_imp_length_eq [OF edit_round_core [OF e]] more by auto
  next
    case nedit: False
    show ?thesis
    proof (cases "c = []")
      case True
      with nedit "3.prems" show ?thesis by simp
    next
      case False
      show ?thesis
      proof (cases "parseBootNum c es")
        case (Ok n)
        then have "r = Some (n - 1)" "es' = es" using nedit False "3.prems" by auto
        then show ?thesis using parseBootNum_range [OF Ok] Ok len by (auto simp: asked_def)
      next
        case (Err e)
        then have "Choose ae es t = (r, es')" using nedit False "3.prems" by (auto split: if_splits)
        from "3.IH"(2) [OF nedit False Err this] show ?thesis using more by auto
      next
        case Panic
        then have "Choose ae es t = (r, es')" using nedit False "3.prems" by (auto split: if_splits)
        from "3.IH"(3) [OF nedit False Panic this] show ?thesis using more by auto
      qed
    qed
  qed
qed auto

definition just_loaded :: "'k image_loader \<Rightarrow> Entry list \<Rightarrow> nat \<Rightarrow> 'k \<Rightarrow> bool" where
  "just_loaded ld es i k' \<longleftrightarrow> i < length es \<and> (\<exists>e k. core e = core (es ! i) \<and> Entry_Load ld e k = (True, es ! i, k'))"

lemma load_default_core:
  "load_default ld es k = (r, es', k') \<Longrightarrow> map core es' = map core es \<and> (\<forall>i. r = Some i \<longrightarrow> IsDefault (es' ! i) \<and> just_loaded ld es' i k')"
proof (induction es arbitrary: k r es' k')
  case (Cons e es)
  obtain r1 es1 k1 where d: "load_default ld es k = (r1, es1, k1)" by (metis prod_cases3)
  have step: "just_loaded ld (x # es1) (Suc i) k2" if "just_loaded ld es1 i k2" for x es1 i k2 using that by (simp add: just_loaded_def)
  show ?case
  proof (cases "IsDefault e")
    case True
    obtain ok e1 k2 where l: "Entry_Load ld e k = (ok, e1, k2)" by (metis prod_cases3)
    obtain r2 es2 k3 where d2: "load_default ld es k2 = (r2, es2, k3)" by (metis prod_cases3)
    have "just_loaded ld (e1 # es) 0 k2" if ok using l that core_Load [OF l] by (auto simp: just_loaded_def)
    then show ?thesis
      using True l d2 Cons.prems Cons.IH [OF d2] core_Load [OF l] core_IsDefault [OF core_Load [OF l]] step
      by (cases ok) auto
  next
    case False
    with d Cons.prems Cons.IH [OF d] step show ?thesis by auto
  qed
qed simp

lemma just_loadedI: "i < length es \<Longrightarrow> Entry_Load ld (es ! i) k = (True, e, k') \<Longrightarrow> just_loaded ld (es[i := e]) i k'"
  using core_Load by (fastforce simp: just_loaded_def)

lemma menu_never_unasked_run:
  "showMenuAndLoadFromFile ld ae ts es k = (r, es', k') \<Longrightarrow>
     map core es' = map core es \<and>
     (\<forall>i. r = Some i \<longrightarrow> just_loaded ld es' i k' \<and> (IsDefault (es' ! i) \<or> asked ts (length es) i))"
proof (induction ts arbitrary: es k)
  case Nil
  then show ?case using load_default_core by fastforce
next
  case (Cons t ts)
  obtain c es1 where c: "Choose ae es t = (c, es1)" by fastforce
  note cc = Choose_core [OF c] map_eq_imp_length_eq [OF conjunct1 [OF Choose_core [OF c]]]
  show ?case
  proof (cases c)
    case None
    with c Cons.prems have "load_default ld es1 k = (r, es', k')" by simp
    from load_default_core [OF this] cc show ?thesis by auto
  next
    case (Some i)
    then have i: "i < length es1" "asked [t] (length es) i" using cc by auto
    obtain ok e k1 where l: "Entry_Load ld (es1 ! i) k = (ok, e, k1)" by (metis prod_cases3)
    have m: "map core (es1[i := e]) = map core es" using map_core_update [OF core_Load [OF l]] cc by simp
    show ?thesis
    proof (cases ok)
      case True
      with c Some l Cons.prems have "r = Some i" "es' = es1[i := e]" "k' = k1" by auto
      then show ?thesis using just_loadedI [OF i(1)] l True i(2) m by (auto simp: asked_def)
    next
      case False
      with c Some l Cons.prems have "showMenuAndLoadFromFile ld ae ts (es1[i := e]) k1 = (r, es', k')" by simp
      from Cons.IH [OF this] m show ?thesis using cc by auto
    qed
  qed
qed

text \<open>C38: the menu returns an entry only right after it was loaded; it is one that runs by default, or one whose
  number somebody typed, so a shell or a reboot never happens unasked; and of the images nothing but command line and initrd has
  changed.\<close>

theorem menu_never_unasked:
  "showMenuAndLoadFromFile ld ae ts es k = (r, es', k') \<Longrightarrow>
     map core es' = map core es \<and>
     (\<forall>i. r = Some i \<longrightarrow> just_loaded ld es' i k' \<and> (IsDefault (es' ! i) \<or> asked ts (length es) i))"
  by (rule menu_never_unasked_run)

text \<open>An image that can be loaded in every state of the system, whatever its command line and initrd.\<close>

definition loadable :: "'k image_loader \<Rightarrow> Entry \<Rightarrow> bool" where
  "loadable ld e \<longleftrightarrow> IsDefault e \<and> (\<forall>e' k. core e' = core e \<longrightarrow> fst (Entry_Load ld e' k))"

lemma load_default_loads: "load_default ld es k = (r, es', k') \<Longrightarrow> \<exists>e \<in> set es. loadable ld e \<Longrightarrow> r \<noteq> None"
proof (induction es arbitrary: k r es' k')
  case (Cons e es)
  obtain ok e1 k1 where l: "Entry_Load ld e k = (ok, e1, k1)" by (metis prod_cases3)
  obtain r2 es2 k2 where d2: "load_default ld es k1 = (r2, es2, k2)" by (metis prod_cases3)
  obtain r1 es1 k3 where d: "load_default ld es k = (r1, es1, k3)" by (metis prod_cases3)
  have e: "loadable ld e \<Longrightarrow> IsDefault e \<and> ok" using l by (metis fst_conv loadable_def)
  show ?case
  proof (cases "IsDefault e \<and> ok")
    case True
    with l Cons.prems(1) show ?thesis by auto
  next
    case False
    then have "\<exists>e \<in> set es. loadable ld e" using e Cons.prems(2) by auto
    from Cons.IH [OF d this] Cons.IH [OF d2 this] False l d d2 Cons.prems(1) show ?thesis
      by (cases "IsDefault e") auto
  qed
qed simp

lemma loadable_core: "core e' = core e \<Longrightarrow> loadable ld e' = loadable ld e"
  by (simp add: loadable_def core_IsDefault [of e' e])

lemma loadable_map: "map core es' = map core es \<Longrightarrow> \<exists>e \<in> set es. loadable ld e \<Longrightarrow> \<exists>e \<in> set es'. loadable ld e"
proof -
  assume m: "map core es' = map core es" and "\<exists>e \<in> set es. loadable ld e"
  then obtain i where i: "i < length es" "loadable ld (es ! i)" by (auto simp: in_set_conv_nth)
  with m have "i < length es'" "core (es' ! i) = core (es ! i)" by (metis length_map, metis length_map nth_map)
  then show ?thesis using i(2) loadable_core nth_mem by blast
qed

text \<open>C39: as long as one image can be loaded the menu does not give up: whatever is typed, and whatever fails to load before, an
  entry is loaded in the end.\<close>

theorem menu_boots_something:
  assumes "\<exists>e \<in> set es. loadable ld e"
  shows "fst (showMenuAndLoadFromFile ld ae ts es k) \<noteq> None"
  using assms
proof (induction ts arbitrary: es k)
  case Nil
  then show ?case by (metis load_default_loads prod_cases3 fst_conv showMenuAndLoadFromFile.simps(1))
next
  case (Cons t ts)
  obtain c es1 where c: "Choose ae es t = (c, es1)" by fastforce
  have ex: "\<exists>e \<in> set es1. loadable ld e" using loadable_map [OF conjunct1 [OF Choose_core [OF c]] Cons.prems] .
  show ?case
  proof (cases c)
    case None
    with c ex show ?thesis by (cases "load_default ld es1 k") (auto dest: load_default_loads)
  next
    case (Some i)
    obtain ok e k1 where l: "Entry_Load ld (es1 ! i) k = (ok, e, k1)" by (metis prod_cases3)
    have "\<exists>e \<in> set (es1[i := e]). loadable ld e" using loadable_map [OF map_core_update [OF core_Load [OF l]] ex] .
    from Cons.IH [OF this] c Some l show ?thesis by (cases ok) auto
  qed
qed

definition ex_loader :: "nat image_loader" where
  "ex_loader =
     \<lparr>il_copy = \<lambda>f k. (Some ''/tmp/kexec-image'', k + 1), il_FileLoad = \<lambda>f i c k. (c \<noteq> ''bad'', k),
      il_KexecLoad = \<lambda>f i c k. (True, k), il_multiboot = \<lambda>m k. (True, k)\<rparr>"

definition ex_linux :: LinuxImage where
  "ex_linux = empty_linux\<lparr>LiName := ''Linux'', LiKernel := Some ''file:///vmlinuz'', LiCmdline := ''bad'', LiDeviceTree := Some ''file:///dtb''\<rparr>"

lemma ex_number:
  assumes "entries \<noteq> []" "length entries < 9"
  shows "parseBootNum '' 1'' entries = Ok 1" "parseBootNum ''1'' entries = Ok 1"
proof -
  have "FormatNat 1 = ''1''" by code_simp
  then show "parseBootNum '' 1'' entries = Ok 1" "parseBootNum ''1'' entries = Ok 1"
    using parseBootNum_FormatNat [of 1 entries "'' ''" "[]"] parseBootNum_FormatNat [of 1 entries "[]" "[]"] assms
    by (simp_all add: Suc_le_eq)
qed

text \<open>The image is edited by \<open>e\<close>, entry 1, \<open>o\<close> and a new command line, and then chosen.\<close>

theorem menu_never_unasked_witness:
  "\<exists>es' k'. showMenuAndLoadFromFile ex_loader True [[Some ''e'', Some ''1'', Some ''o'', Some ''good'', Some '' 1'']]
       (OSImages [OSLinux ex_linux] @ [Reboot, StartShell]) 0 = (Some 0, es', k') \<and> just_loaded ex_loader es' 0 k'"
proof -
  let ?es = "OSImages [OSLinux ex_linux] @ [Reboot, StartShell]"
  let ?ts = "[[Some ''e'', Some ''1'', Some ''o'', Some ''good'', Some '' 1'']]"
  have "fst (showMenuAndLoadFromFile ex_loader True ?ts ?es 0) = Some 0"
    by (simp add: OSImages_def ex_number edit_round_def ReadLine_def edit_cmdline_def LinuxImage_Edit_def ex_loader_def
        LinuxImage_Load_def with_dtb_def ex_linux_def empty_linux_def)
  then obtain es' k' where r: "showMenuAndLoadFromFile ex_loader True ?ts ?es 0 = (Some 0, es', k')"
    by (cases "showMenuAndLoadFromFile ex_loader True ?ts ?es 0") simp
  with menu_never_unasked [OF r] show ?thesis by auto
qed

text \<open>The first choice fails to load, and nothing else is typed.\<close>

theorem menu_boots_something_witness:
  "fst (showMenuAndLoadFromFile ex_loader True [[Some ''1'']] (OSImages [OSLinux ex_linux] @ [OSImageAction (OSMultiboot empty_multiboot)]) 0) \<noteq> None"
proof (rule menu_boots_something)
  show "\<exists>e \<in> set (OSImages [OSLinux ex_linux] @ [OSImageAction (OSMultiboot empty_multiboot)]). loadable ex_loader e"
    by (auto simp: loadable_def ex_loader_def OSImages_def elim!: core.elims)
qed

text \<open>The device tree is joined to the initrd of the image each time it is loaded: after a first try that failed the next
  kernel is given it twice.\<close>

lemma device_tree_joined_again:
  assumes "Entry_Load ld (OSImageAction (OSLinux li)) k = (ok, e, k')" "LiDeviceTree li = Some d" "LiKernel li = Some f"
    "fst (il_copy ld [f] k) \<noteq> None"
  shows "\<exists>li'. e = OSImageAction (OSLinux li') \<and> LiInitrd (with_dtb li') = LiInitrd li @ [d, d]"
  using assms by (auto simp: LinuxImage_Load_def with_dtb_def Let_def split: prod.splits option.splits if_splits)

end
