(* ===== verification/Pci.thy ===== *)
theory Pci imports GoText "HOL-Library.AList" "HOL-Library.List_Lexorder" "HOL-Library.Char_ord" BinStruct begin

text \<open>
  \<open>pkg/pci\<close>: PCI devices as sysfs shows them (\<open>pci_linux.go\<close>, \<open>pci.go\<close>, \<open>devices.go\<close>), the names of vendors and devices
  (\<open>parse.go\<close>, \<open>lookup.go\<close>), classes (\<open>class.go\<close>) and the printed form of registers (\<open>bits.go\<close>). The files of sysfs are a map from
  paths to contents, \<open>filepath.Glob\<close> is a parameter; the text of \<open>pci.ids\<close> is a parameter of the parser.
\<close>

type_synonym files = "string \<Rightarrow> byte list option"

datatype pci_error = PciRead string | PciNum num_error | PciFields string | PciWidth int | PciIo io_error | PciGlob

definition pciPath :: string where "pciPath = ''/sys/bus/pci/devices''"

record BAR =
  BarIndex :: nat
  BarBase :: u64
  BarLim :: u64
  BarAttr :: u64

record PCI =
  PAddr :: string
  PVendor :: u16
  PDevice :: u16
  PClass :: u32
  VendorName :: string
  DeviceName :: string
  ClassName :: string
  Latency :: byte
  PIRQPin :: byte
  PIRQLine :: u64
  Bridge :: bool
  FullPath :: string
  ExtraInfo :: "string list"
  Config :: "byte list"
  PControl :: u16
  PStatus :: u16
  PResource :: string
  BARS :: "BAR list"
  PPrimary :: string
  PSecondary :: string
  PSubordinate :: string
  SecLatency :: string
  PIO :: BAR
  PMem :: BAR
  PPrefMem :: BAR

section \<open>Names of vendors and devices\<close>

record Vendor =
  VName :: string
  VDevices :: "(u16 \<times> string) list"

type_synonym idMap = "(u16 \<times> Vendor) list"

definition isHex :: "char \<Rightarrow> bool" where
  "isHex c = (let b = (of_char c :: nat) in (97 \<le> b \<and> b \<le> 102) \<or> (65 \<le> b \<and> b \<le> 70) \<or> (48 \<le> b \<and> b \<le> 57))"

text \<open>\<open>line[i]\<close> and the conjunction of tests that may panic.\<close>

definition str_at :: "string \<Rightarrow> nat \<Rightarrow> (unit, char) res" where
  "str_at s i = (if i < length s then Ok (s ! i) else Panic)"

definition and_then :: "bool \<Rightarrow> (unit, bool) res \<Rightarrow> (unit, bool) res" where
  "and_then b r = (if b then r else Ok False)"

definition hex_at :: "string \<Rightarrow> nat \<Rightarrow> (unit, bool) res" where
  "hex_at s i = rbind (str_at s i) (\<lambda>c. Ok (isHex c))"

definition tab :: char where "tab = CHR 0x09"

definition pci_line :: "string \<Rightarrow> u16 \<times> idMap \<Rightarrow> (unit, u16 \<times> idMap) res" where
  "pci_line line st =
     (case st of (cur, ids) \<Rightarrow>
        rbind (rbind (hex_at line 0) (\<lambda>h. and_then h (hex_at line 1))) (\<lambda>vendor.
          if vendor then
            (if length line < 4 then Panic
             else case ParseUintN (take 4 line) 16 16 of
                 Ok v \<Rightarrow>
                   (if length line < 6 then Panic
                    else Ok (word_of_nat v, AList.update (word_of_nat v) \<lparr>VName = drop 6 line, VDevices = []\<rparr> ids))
               | _ \<Rightarrow> Ok (cur, ids))
          else
            rbind (and_then (cur \<noteq> 0 \<and> line ! 0 = tab) (rbind (hex_at line 1) (\<lambda>h. and_then h (hex_at line 3)))) (\<lambda>device.
              if \<not> device then Ok (cur, ids)
              else if length line < 5 then Panic
              else case ParseUintN (take 4 (drop 1 line)) 16 16 of
                  Ok v \<Rightarrow>
                    (if length line < 7 then Panic
                     else Ok (cur, AList.map_entry cur (\<lambda>vd. vd\<lparr>VDevices := AList.update (word_of_nat v) (drop 7 line) (VDevices vd)\<rparr>) ids))
                | _ \<Rightarrow> Ok (cur, ids))))"

fun pci_scan :: "string list \<Rightarrow> u16 \<times> idMap \<Rightarrow> (unit, u16 \<times> idMap) res" where
  "pci_scan [] st = Ok st"
| "pci_scan (l # ls) st = rbind (pci_line l st) (pci_scan ls)"

definition pci_parse :: "string \<Rightarrow> (unit, idMap) res" where
  "pci_parse input = rbind (pci_scan (fst (Scan_lines input)) (0, [])) (\<lambda>st. Ok (snd st))"

definition venDevFmt :: "u16 \<Rightarrow> string" where
  "venDevFmt v = FormatHexPad 4 (unat v)"

definition Lookup :: "idMap \<Rightarrow> u16 \<Rightarrow> u16 \<Rightarrow> string \<times> string" where
  "Lookup ids vendor device =
     (case map_of ids vendor of
        Some v \<Rightarrow> (VName v, case map_of (VDevices v) device of Some d \<Rightarrow> d | None \<Rightarrow> venDevFmt device)
      | None \<Rightarrow> (venDevFmt vendor, venDevFmt device))"

definition SetVendorDeviceName :: "idMap \<Rightarrow> PCI \<Rightarrow> PCI" where
  "SetVendorDeviceName ids p =
     (case Lookup ids (PVendor p) (PDevice p) of (v, d) \<Rightarrow> p\<lparr>VendorName := v, DeviceName := d\<rparr>)"

section \<open>A device from its files\<close>

definition ClassNames :: "(u32 \<times> string) list" where
  "ClassNames =
    [(0x000000, ''NotDefined''), (0x000100, ''NotDefinedVGA''), (0x01, ''Storage''), (0x010000, ''StorageSCSI''),
     (0x010100, ''StorageIDE''), (0x010200, ''StorageFLOPPY''), (0x010300, ''StorageIPI''), (0x010400, ''StorageRAID''),
     (0x010500, ''StorageATA''), (0x010600, ''StorageSATA''), (0x010700, ''StorageSAS''), (0x018000, ''StorageOther''),
     (0x02, ''Network''), (0x020000, ''NetworkEthernet''), (0x028000, ''NetworkOther''), (0x03, ''Display''),
     (0x030000, ''DisplayVGA''), (0x030100, ''DisplayXGA''), (0x030200, ''Display3D''), (0x038000, ''DisplayOther''),
     (0x04, ''Multimedia''), (0x040000, ''MultimediaVideo''), (0x040100, ''MultimediaAudio''),
     (0x040200, ''MultimediaPhone''), (0x040300, ''MultimediaAudioDev''), (0x048000, ''MultimediaOther''), (0x05, ''Memory''),
     (0x050000, ''MemoryRAM''), (0x050100, ''MemoryFLASH''), (0x058000, ''MemoryOther''), (0x06, ''Bridge''),
     (0x060000, ''BridgeHost''), (0x060100, ''BridgeISA''), (0x060200, ''BridgeEISA''), (0x060300, ''BridgeMC''),
     (0x060400, ''BridgePCI''), (0x060500, ''BridgePCMCIA''), (0x060600, ''BridgeNUBUS''), (0x060700, ''BridgeCARDBUS''),
     (0x060800, ''BridgeRACEWAY''), (0x060900, ''BridgePCISemi''), (0x060a00, ''BridgeIBToPCI''), (0x068000, ''BridgeOther''),
     (0x07, ''Communication''), (0x070000, ''CommunicationSerial''), (0x070100, ''CommunicationParallel''),
     (0x070200, ''CommunicationMSerial''), (0x070300, ''CommunicationModem''), (0x078000, ''CommunicationOther''),
     (0x08, ''System''), (0x080000, ''SystemPIC''), (0x080100, ''SystemDMA''), (0x080200, ''SystemTimer''),
     (0x080300, ''SystemRTC''), (0x080400, ''SystemPCIHotplug''), (0x088000, ''SystemOther''), (0x09, ''Input''),
     (0x090000, ''InputKeyboard''), (0x090100, ''InputPen''), (0x090200, ''InputMouse''), (0x090300, ''InputScanner''),
     (0x090400, ''InputGameport''), (0x098000, ''InputOther''), (0x0a, ''Docking''), (0x0a0000, ''DockingGeneric''),
     (0x0a8000, ''DockingOther''), (0x0b, ''Processor''), (0x0b0000, ''Processor386''), (0x0b0100, ''Processor486''),
     (0x0b0200, ''ProcessorPentium''), (0x0b1000, ''ProcessorALPHA''), (0x0b2000, ''ProcessorPOWERPC''),
     (0x0b3000, ''ProcessorMIPS''), (0x0b4000, ''ProcessorCO''), (0x0c, ''Serial''), (0x0c0000, ''SerialFirewire''),
     (0x0c0100, ''SerialAccess''), (0x0c0200, ''SerialSSA''), (0x0c0300, ''SerialUSB''), (0x0c0400, ''SerialFIBER''),
     (0x0c0500, ''SerialSMBUS''), (0x0c0600, ''SerialINFINIBAND''), (0x0d, ''Wireless''), (0x0d0000, ''WirelessIRDA''),
     (0x0d0100, ''WirelessCONSUMERIR''), (0x0d1000, ''WirelessRF''), (0x0d8000, ''WirelessOther''), (0x0f, ''Satellite''),
     (0x0f0000, ''SatelliteTV''), (0x0f0100, ''SatelliteAudio''), (0x0f0300, ''SatelliteVoice''),
     (0x0f0400, ''SatelliteData''), (0x10, ''Crypt''), (0x100000, ''CryptNetwork''), (0x101000, ''CryptEntertainment''),
     (0x108000, ''CryptOther''), (0x11, ''Signal''), (0x110000, ''SignalDPIO''), (0x110100, ''SignalPERFCTR''),
     (0x111000, ''SignalSynchronizer''), (0x118000, ''SignalOther''), (0xff, ''Others'')]"

definition TrimSuffix :: "string \<Rightarrow> string \<Rightarrow> string" where
  "TrimSuffix s suf = (if has_suffix s suf then take (length s - length suf) s else s)"

definition pci_readString :: "files \<Rightarrow> string \<Rightarrow> string \<Rightarrow> (pci_error, string) res" where
  "pci_readString fs dir file =
     (case fs (Join dir file) of
        None \<Rightarrow> Err (PciRead (Join dir file))
      | Some bs \<Rightarrow> Ok (TrimSuffix (bytes_str bs) [lf]))"

definition lift_num :: "(num_error, 'a) res \<Rightarrow> (pci_error, 'a) res" where
  "lift_num r = (case r of Ok x \<Rightarrow> Ok x | Err e \<Rightarrow> Err (PciNum e) | Panic \<Rightarrow> Panic)"

text \<open>Base 0 comes with no limit on the bits.\<close>

definition readUint :: "files \<Rightarrow> string \<Rightarrow> string \<Rightarrow> nat \<Rightarrow> nat \<Rightarrow> (pci_error, nat) res" where
  "readUint fs dir file base bits =
     rbind (pci_readString fs dir file) (\<lambda>s0.
       let s = TrimPrefix s0 ''0x'' in
       lift_num (if base = 0 then ParseUint s 0 else ParseUintN s base bits))"

fun parse_words :: "string list \<Rightarrow> (pci_error, u64 list) res" where
  "parse_words [] = Ok []"
| "parse_words (s # ss) = rbind (lift_num (ParseUint s 0)) (\<lambda>n. rbind (parse_words ss) (\<lambda>ns. Ok (word_of_nat n # ns)))"

definition BaseLimType :: "string \<Rightarrow> (pci_error, u64 \<times> u64 \<times> u64) res" where
  "BaseLimType bar =
     (let f = Fields bar in
      if length f \<noteq> 3 then Err (PciFields bar)
      else rbind (parse_words f) (\<lambda>v. Ok (v ! 0, v ! 1, v ! 2)))"

definition zero_bar :: BAR where
  "zero_bar = \<lparr>BarIndex = 0, BarBase = 0, BarLim = 0, BarAttr = 0\<rparr>"

definition add_bar :: "nat \<Rightarrow> u64 \<times> u64 \<times> u64 \<Rightarrow> PCI \<Rightarrow> PCI" where
  "add_bar i bla p =
     (case bla of (b, l, a) \<Rightarrow>
        let nb = \<lparr>BarIndex = i, BarBase = b, BarLim = l, BarAttr = a\<rparr> in
        if b = 0 then p
        else if i = 13 then p\<lparr>PIO := nb\<rparr>
        else if i = 14 then p\<lparr>PMem := nb\<rparr>
        else if i = 15 then p\<lparr>PPrefMem := nb\<rparr>
        else p\<lparr>BARS := BARS p @ [nb]\<rparr>)"

fun add_bars :: "nat \<Rightarrow> string list \<Rightarrow> PCI \<Rightarrow> (pci_error, PCI) res" where
  "add_bars i [] p = Ok p"
| "add_bars i (r # rs) p = rbind (BaseLimType r) (\<lambda>bla. add_bars (Suc i) rs (add_bar i bla p))"

definition new_pci :: "string \<Rightarrow> PCI" where
  "new_pci dir =
     \<lparr>PAddr = Base dir, PVendor = 0, PDevice = 0, PClass = 0, VendorName = [], DeviceName = [], ClassName = [], Latency = 0,
      PIRQPin = 0, PIRQLine = 0, Bridge = False, FullPath = dir, ExtraInfo = [], Config = [], PControl = 0, PStatus = 0,
      PResource = [], BARS = [], PPrimary = [], PSecondary = [], PSubordinate = [], SecLatency = [], PIO = zero_bar,
      PMem = zero_bar, PPrefMem = zero_bar\<rparr>"

definition OnePCI :: "files \<Rightarrow> string \<Rightarrow> (pci_error, PCI) res" where
  "OnePCI fs dir =
     rbind (readUint fs dir ''vendor'' 16 16) (\<lambda>v.
     rbind (readUint fs dir ''device'' 16 16) (\<lambda>d.
     rbind (readUint fs dir ''class'' 16 24) (\<lambda>c.
     rbind (readUint fs dir ''irq'' 0 0) (\<lambda>q.
     rbind (pci_readString fs dir ''resource'') (\<lambda>r.
       let vendor = word_of_nat v; device = word_of_nat d; cls = word_of_nat c in
       add_bars 0 (split_on lf r)
         ((new_pci dir)\<lparr>PVendor := vendor, PDevice := device, PClass := cls, PIRQLine := word_of_nat q, PResource := r,
            VendorName := venDevFmt vendor, DeviceName := venDevFmt device,
            ClassName := (case map_of ClassNames cls of Some nm \<Rightarrow> nm | None \<Rightarrow> ''ClassUnknown'')\<rparr>))))))"

text \<open>The devices of all globs, each once, in the order of their names.\<close>

fun glob_all :: "(string \<Rightarrow> string list option) \<Rightarrow> string list \<Rightarrow> (pci_error, string list) res" where
  "glob_all glob [] = Ok []"
| "glob_all glob (g # gs) =
     (case glob (Join pciPath g) of
        None \<Rightarrow> Err PciGlob
      | Some gg \<Rightarrow> rbind (glob_all glob gs) (\<lambda>r. Ok (gg @ r)))"

definition NewBusReader :: "(string \<Rightarrow> string list option) \<Rightarrow> string list \<Rightarrow> (pci_error, string list) res" where
  "NewBusReader glob globs =
     rbind (glob_all glob (if globs = [] then [''*''] else globs)) (\<lambda>exp. Ok (sort (remdups exp)))"

section \<open>The configuration space\<close>

definition LatencyTimer :: nat where "LatencyTimer = 0xd"
definition HeaderType :: nat where "HeaderType = 0xe"
definition HeaderTypeMask :: byte where "HeaderTypeMask = 0x7f"
definition HeaderTypeBridge :: byte where "HeaderTypeBridge = 1"
definition IRQPin :: nat where "IRQPin = 0x3d"
definition Primary :: nat where "Primary = 0x18"
definition Secondary :: nat where "Secondary = 0x19"
definition Subordinate :: nat where "Subordinate = 0x1a"
definition SecondaryLatency :: nat where "SecondaryLatency = 0x1b"

definition config_path :: "PCI \<Rightarrow> string" where
  "config_path p = Join (FullPath p) ''config''"

text \<open>\<open>os.ReadFile\<close> returns a slice of at least 512 bytes of capacity, zero behind the content, and slicing goes up to the
  capacity.\<close>

definition PCI_ReadConfig :: "files \<Rightarrow> PCI \<Rightarrow> (pci_error, PCI) res" where
  "PCI_ReadConfig fs p =
     (case fs (config_path p) of
        None \<Rightarrow> Err (PciRead (config_path p))
      | Some c \<Rightarrow>
          let c' = c @ replicate (512 - length c) 0 in
          Ok (p\<lparr>Config := c, PControl := word_of_nat (un_le (take 2 (drop 4 c'))), PStatus := word_of_nat (un_le (take 2 (drop 6 c')))\<rparr>))"

definition barreg_ReadAt :: "byte list \<Rightarrow> int \<Rightarrow> nat \<Rightarrow> (pci_error, nat) res" where
  "barreg_ReadAt c off n =
     (if off < 0 then Err (PciIo (IoError ''negative offset''))
      else case ReadFull (drop (nat off) c) n of
          Ok (bs, _) \<Rightarrow> Ok (un_le bs) | Err e \<Rightarrow> Err (PciIo e) | Panic \<Rightarrow> Panic)"

definition ReadConfigRegister :: "files \<Rightarrow> PCI \<Rightarrow> int \<Rightarrow> int \<Rightarrow> (pci_error, u64) res" where
  "ReadConfigRegister fs p off wd =
     (case fs (config_path p) of
        None \<Rightarrow> Err (PciRead (config_path p))
      | Some c \<Rightarrow>
          if wd \<notin> {8, 16, 32, 64} then Err (PciWidth wd)
          else rbind (barreg_ReadAt c off (nat wd div 8)) (\<lambda>n. Ok (word_of_nat n)))"

definition WriteConfigRegister :: "PCI \<Rightarrow> int \<Rightarrow> int \<Rightarrow> u64 \<Rightarrow> files \<Rightarrow> (pci_error, unit) res \<times> files" where
  "WriteConfigRegister p off wd val fs =
     (case fs (config_path p) of
        None \<Rightarrow> (Err (PciRead (config_path p)), fs)
      | Some c \<Rightarrow>
          if wd \<notin> {8, 16, 32, 64} then (Err (PciWidth wd), fs)
          else if off < 0 then (Err (PciIo (IoError ''negative offset'')), fs)
          else (Ok (), fs(config_path p \<mapsto> overwrite c (nat off) (le_nat (nat wd div 8) (unat val)))))"

definition config_byte :: "byte list \<Rightarrow> nat \<Rightarrow> (pci_error, byte) res" where
  "config_byte c i = (if i < length c then Ok (c ! i) else Panic)"

definition hex2 :: "byte \<Rightarrow> string" where
  "hex2 b = FormatHexPad 2 (unat b)"

definition fill_config :: "PCI \<Rightarrow> (pci_error, PCI) res" where
  "fill_config p =
     (let c = Config p in
      rbind (config_byte c LatencyTimer) (\<lambda>lat. rbind (config_byte c HeaderType) (\<lambda>ht. rbind (config_byte c IRQPin) (\<lambda>pin.
      rbind (config_byte c Primary) (\<lambda>p1. rbind (config_byte c Secondary) (\<lambda>p2. rbind (config_byte c Subordinate) (\<lambda>p3.
      rbind (config_byte c SecondaryLatency) (\<lambda>p4.
        Ok (p\<lparr>Latency := lat, Bridge := (if ht AND HeaderTypeMask = HeaderTypeBridge then True else Bridge p), PIRQPin := pin,
              PPrimary := hex2 p1, PSecondary := hex2 p2, PSubordinate := hex2 p3, SecLatency := hex2 p4\<rparr>)))))))))"

fun bus_Read :: "files \<Rightarrow> idMap \<Rightarrow> (PCI \<Rightarrow> bool) list \<Rightarrow> string list \<Rightarrow> (pci_error, PCI list) res" where
  "bus_Read fs ids filters [] = Ok []"
| "bus_Read fs ids filters (d # ds) =
     rbind (OnePCI fs d) (\<lambda>p.
       if \<not> list_all (\<lambda>f. f p) filters then bus_Read fs ids filters ds
       else rbind (PCI_ReadConfig fs p) (\<lambda>p1. rbind (fill_config (SetVendorDeviceName ids p1)) (\<lambda>p2.
         rbind (bus_Read fs ids filters ds) (\<lambda>ps. Ok (p2 # ps)))))"

section \<open>Several devices\<close>

definition Devices_SetVendorDeviceName :: "idMap \<Rightarrow> PCI list \<Rightarrow> PCI list" where
  "Devices_SetVendorDeviceName ids d = map (SetVendorDeviceName ids) d"

text \<open>The devices before an error keep what was read.\<close>

fun Devices_ReadConfig :: "files \<Rightarrow> PCI list \<Rightarrow> (pci_error, unit) res \<times> PCI list" where
  "Devices_ReadConfig fs [] = (Ok (), [])"
| "Devices_ReadConfig fs (p # ps) =
     (case PCI_ReadConfig fs p of
        Ok p' \<Rightarrow> (case Devices_ReadConfig fs ps of (r, ps') \<Rightarrow> (r, p' # ps'))
      | Err e \<Rightarrow> (Err e, p # ps)
      | Panic \<Rightarrow> (Panic, p # ps))"

fun Devices_ReadConfigRegister :: "files \<Rightarrow> PCI list \<Rightarrow> int \<Rightarrow> int \<Rightarrow> (pci_error, u64 list) res" where
  "Devices_ReadConfigRegister fs [] off wd = Ok []"
| "Devices_ReadConfigRegister fs (p # ps) off wd =
     rbind (ReadConfigRegister fs p off wd) (\<lambda>v. rbind (Devices_ReadConfigRegister fs ps off wd) (\<lambda>vs. Ok (v # vs)))"

fun Devices_WriteConfigRegister :: "PCI list \<Rightarrow> int \<Rightarrow> int \<Rightarrow> u64 \<Rightarrow> files \<Rightarrow> (pci_error, unit) res \<times> files" where
  "Devices_WriteConfigRegister [] off wd val fs = (Ok (), fs)"
| "Devices_WriteConfigRegister (p # ps) off wd val fs =
     sbind (WriteConfigRegister p off wd val) (\<lambda>_. Devices_WriteConfigRegister ps off wd val) fs"

section \<open>Printed registers\<close>

definition crBits :: "string list" where
  "crBits = [''I/O'', ''Memory'', ''DMA'', ''Special'', ''MemWINV'', ''VGASnoop'', ''ParErr'', ''Stepping'', ''SERR'', ''FastB2B'', ''DisInt'']"

definition flag_word :: "u16 \<Rightarrow> nat \<times> string \<Rightarrow> string" where
  "flag_word c x = snd x @ (if bit c (fst x) then ''+'' else ''-'')"

definition Control_String :: "u16 \<Rightarrow> string" where
  "Control_String c = JoinWith '' '' (map (flag_word c) (enumerate 0 crBits))"

definition stBits :: "string list" where
  "stBits = [''Reserved'', ''Reserved'', ''INTx'', ''Cap'', ''66MHz'', ''UDF'', ''FastB2b'', ''ParErr'', ''DEVSEL'', ''>Tabort'', ''<Tabort'',
     ''<MABORT'', ''>SERR'', ''<PERR'']"

definition Status_String :: "u16 \<Rightarrow> string" where
  "Status_String c =
     JoinWith '' '' (concat (map (\<lambda>x.
       if fst x = 9 then [''DEVSEL='' @ [''fast'', ''medium'', ''slow'', ''reserved''] ! unat (drop_bit 9 (c AND 0x600))]
       else if fst x \<in> {0, 1, 10} then []
       else [flag_word c x]) (enumerate 0 stBits)))"

definition hex0x :: "u64 \<Rightarrow> string" where
  "hex0x n = ''0x'' @ FormatHex (unat n)"

definition BAR_String :: "BAR \<Rightarrow> string" where
  "BAR_String bar =
     (let region = (\<lambda>pre width base post sz. ''Region '' @ FormatNat (BarIndex bar) @ '': '' @ pre @ FormatHexPad width (unat base) @ post @ sz @ '']'');
          wd = (\<lambda>base. BarLim bar - base + 1);
          mem = (\<lambda>post. region ''Memory at '' 8 (BarBase bar) (post @ '' [size='') (hex0x (wd (BarBase bar))));
          t = BarAttr bar AND 0xf
      in if BarBase bar = 0 then []
         else if t = 0 then mem '' (32-bit, non-prefetchable)''
         else if t = 1 then region ''I/O ports at '' 4 (BarBase bar) '' [size='' (FormatNat (unat (wd (BarBase bar))))
         else if t = 2 then
           (if BarBase bar < 0x100000 \<and> BarBase bar \<ge> 0xc0000 then
              (if BarBase bar AND 1 = 0 then
                 region ''(Disabled)Expansion ROM at '' 8 (BarBase bar) '' (low 1Mbyte) [size='' (hex0x (wd (BarBase bar)))
               else
                 region ''Expansion ROM at '' 8 (BarBase bar - 1) '' (low 1Mbyte) [size='' (hex0x (wd (BarBase bar - 1))))
            else mem '' (32-bit, low 1Mbyte, non-prefetchable)'')
         else if t = 4 then mem '' (64-bit, non-prefetchable)''
         else if t = 8 then mem '' (32-bit, prefetchable)''
         else if t = 0xc then mem '' (64-bit, prefetchable)''
         else ''Can'' @ [CHR 0x27] @ ''t get type from '' @ hex0x (BarAttr bar))"

definition PCI_String :: "PCI \<Rightarrow> string" where
  "PCI_String p = JoinWith [lf] ((PAddr p @ '': '' @ ClassName p @ '': '' @ VendorName p @ '' '' @ DeviceName p) # ExtraInfo p)"

section \<open>The table of names is read back\<close>

type_synonym id_table = "(nat \<times> string \<times> (nat \<times> string) list) list"

definition dev_line :: "nat \<times> string \<Rightarrow> string" where
  "dev_line d = tab # FormatHexPad 4 (fst d) @ ''  '' @ snd d"

definition vendor_lines :: "nat \<times> string \<times> (nat \<times> string) list \<Rightarrow> string list" where
  "vendor_lines v = (FormatHexPad 4 (fst v) @ ''  '' @ fst (snd v)) # map dev_line (snd (snd v))"

definition ids_text :: "id_table \<Rightarrow> string" where
  "ids_text t = concat (map (\<lambda>l. l @ [lf]) (concat (map vendor_lines t)))"

definition ids_ok :: "id_table \<Rightarrow> bool" where
  "ids_ok t \<longleftrightarrow> distinct (map fst t) \<and> (\<forall>l \<in> set (concat (map vendor_lines t)). line_ok l) \<and>
     (\<forall>(v, n, ds) \<in> set t. v < 65536 \<and> (ds \<noteq> [] \<longrightarrow> 0 < v) \<and> distinct (map fst ds) \<and> (\<forall>(d, dn) \<in> set ds. d < 65536))"

definition dev_map :: "(nat \<times> string) list \<Rightarrow> (u16 \<times> string) list" where
  "dev_map ds = map (\<lambda>(d, dn). (word_of_nat d, dn)) ds"

definition ids_map :: "id_table \<Rightarrow> idMap" where
  "ids_map t = map (\<lambda>(v, x). (word_of_nat v, \<lparr>VName = fst x, VDevices = dev_map (snd x)\<rparr>)) t"

lemma isHex_digit: "c \<in> set ''0123456789abcdef'' \<Longrightarrow> isHex c"
  by (auto simp: isHex_def)

lemma pad4:
  assumes "v < 65536"
  obtains a b c d where "FormatHexPad 4 v = [a, b, c, d]" "isHex a" "isHex b" "isHex c" "isHex d"
proof -
  have "length (FormatHexPad 4 v) = 4" using assms by (intro length_FormatHexPad) simp_all
  then obtain a b c d where f: "FormatHexPad 4 v = [a, b, c, d]" by (auto simp: numeral_eq_Suc length_Suc_conv)
  then have "isHex a" "isHex b" "isHex c" "isHex d" using FormatHexPad_digits [of _ 4 v] isHex_digit by auto
  with f show thesis by (rule that)
qed

lemmas line_defs = pci_line_def hex_at_def str_at_def and_then_def

lemma pci_line_vendor:
  assumes "v < 65536"
  shows "pci_line (FormatHexPad 4 v @ ''  '' @ n) (cur, ids) =
    Ok (word_of_nat v, AList.update (word_of_nat v) \<lparr>VName = n, VDevices = []\<rparr> ids)"
proof (rule pad4 [OF assms])
  fix a b c d
  assume f: "FormatHexPad 4 v = [a, b, c, d]" "isHex a" "isHex b" "isHex c" "isHex d"
  moreover have "ParseUintN [a, b, c, d] 16 16 = Ok v" using ParseUintN_FormatHexPad [of v 16 4] assms f(1) by simp
  ultimately show ?thesis by (simp add: line_defs)
qed

lemma pci_line_device:
  assumes "d < 65536" "cur \<noteq> 0"
  shows "pci_line (dev_line (d, dn)) (cur, ids) =
    Ok (cur, AList.map_entry cur (\<lambda>vd. vd\<lparr>VDevices := AList.update (word_of_nat d) dn (VDevices vd)\<rparr>) ids)"
proof (rule pad4 [OF assms(1)])
  fix a b c e
  assume f: "FormatHexPad 4 d = [a, b, c, e]" "isHex a" "isHex b" "isHex c" "isHex e"
  moreover have "ParseUintN [a, b, c, e] 16 16 = Ok d" using ParseUintN_FormatHexPad [of d 16 4] assms f(1) by simp
  moreover have "\<not> isHex tab" by (simp add: isHex_def tab_def)
  ultimately show ?thesis using assms(2) by (simp add: line_defs dev_line_def)
qed

lemma update_new_entry: "k \<notin> fst ` set kvs \<Longrightarrow> AList.update k v kvs = kvs @ [(k, v)]"
  by (induction kvs) auto

lemma map_entry_last: "k \<notin> fst ` set kvs \<Longrightarrow> AList.map_entry k f (kvs @ [(k, v)]) = kvs @ [(k, f v)]"
  by (induction kvs) auto

lemma word_new:
  assumes "d < 65536" "\<forall>k \<in> set ks. k < 65536" "d \<notin> set ks"
  shows "(word_of_nat d :: u16) \<notin> word_of_nat ` set ks"
  using assms unat_of_nat_small(2) by (metis imageE)

lemma fst_dev_map: "fst ` set (dev_map ds) = word_of_nat ` set (map fst ds)"
  by (force simp: dev_map_def)

lemma scan_devices:
  assumes "cur \<noteq> 0" "cur \<notin> fst ` set acc" "distinct (map fst (pre @ ds))" "\<forall>d \<in> set (map fst (pre @ ds)). d < 65536"
  shows "pci_scan (map dev_line ds @ ls) (cur, acc @ [(cur, \<lparr>VName = n, VDevices = dev_map pre\<rparr>)]) =
    pci_scan ls (cur, acc @ [(cur, \<lparr>VName = n, VDevices = dev_map (pre @ ds)\<rparr>)])"
  using assms(3,4)
proof (induction ds arbitrary: pre)
  case (Cons x ds)
  obtain d dn where x: "x = (d, dn)" by fastforce
  have "(word_of_nat d :: u16) \<notin> word_of_nat ` set (map fst pre)" using Cons.prems by (intro word_new) (auto simp: x)
  then have u: "AList.update (word_of_nat d) dn (dev_map pre) = dev_map (pre @ [x])"
    by (subst update_new_entry) (simp_all add: fst_dev_map, simp add: dev_map_def x)
  have "d < 65536" using Cons.prems by (simp add: x)
  then show ?case
    using Cons.IH [of "pre @ [x]"] Cons.prems pci_line_device [OF _ assms(1), of d dn] assms(2)
    by (simp add: x [symmetric] map_entry_last u)
qed simp

lemma scan_vendors:
  assumes "distinct (map fst (pre @ t))" "\<forall>v \<in> set (map fst (pre @ t)). v < 65536"
    "\<forall>(v, n, ds) \<in> set t. (ds \<noteq> [] \<longrightarrow> 0 < v) \<and> distinct (map fst ds) \<and> (\<forall>(d, dn) \<in> set ds. d < 65536)"
  shows "\<exists>c. pci_scan (concat (map vendor_lines t)) (cur, ids_map pre) = Ok (c, ids_map (pre @ t))"
  using assms
proof (induction t arbitrary: pre cur)
  case (Cons x t)
  obtain v n ds where x: "x = (v, n, ds)" by (cases x) auto
  have v: "v < 65536" using Cons.prems by (simp add: x)
  let ?v = "word_of_nat v :: u16"
  have k: "fst ` set (ids_map pre) = word_of_nat ` set (map fst pre)" by (force simp: ids_map_def)
  have new: "?v \<notin> fst ` set (ids_map pre)" unfolding k using Cons.prems by (intro word_new) (auto simp: x)
  have ds: "pci_scan (map dev_line ds @ ls) (?v, ids_map pre @ [(?v, \<lparr>VName = n, VDevices = []\<rparr>)]) =
      pci_scan ls (?v, ids_map (pre @ [x]))" for ls
  proof (cases "ds = []")
    case False
    then have "0 < v" using Cons.prems(3) by (simp add: x)
    then have "?v \<noteq> 0" using v unat_of_nat_small(2) [of v] by (metis less_numeral_extra(3) unat_0)
    moreover have "distinct (map fst ([] @ ds))" "\<forall>d \<in> set (map fst ([] @ ds)). d < 65536" using Cons.prems(3) by (auto simp: x)
    ultimately show ?thesis using scan_devices [of ?v "ids_map pre" "[]" ds ls n] new
      by (simp add: dev_map_def ids_map_def x)
  qed (simp add: ids_map_def x dev_map_def)
  have vl: "concat (map vendor_lines (x # t)) =
      (FormatHexPad 4 v @ ''  '' @ n) # map dev_line ds @ concat (map vendor_lines t)"
    by (simp add: x) (simp add: vendor_lines_def)
  have "\<exists>c. pci_scan (concat (map vendor_lines t)) (?v, ids_map (pre @ [x])) = Ok (c, ids_map ((pre @ [x]) @ t))"
    using Cons.prems by (intro Cons.IH) auto
  then show ?case
    unfolding vl using pci_line_vendor [OF v, of n cur "ids_map pre"] ds new by (simp add: update_new_entry)
qed (simp add: ids_map_def)

lemma map_of_words:
  assumes "\<forall>k \<in> set (map fst kvs). k < 65536" "k < 65536"
  shows "map_of (map (\<lambda>(a, b). (word_of_nat a :: u16, f b)) kvs) (word_of_nat k) = map_option f (map_of kvs k)"
  using assms
proof (induction kvs)
  case (Cons x kvs)
  obtain a b where x: "x = (a, b)" by fastforce
  have "(word_of_nat a :: u16) = word_of_nat k \<longleftrightarrow> a = k"
    using Cons.prems unat_of_nat_small(2) by (metis fst_conv list.set_intros(1) list.simps(9) x)
  then show ?case using Cons by (auto simp: x)
qed simp

text \<open>C34: a table of vendors and devices in the format of \<open>pci.ids\<close> is read back: looking up a vendor of the table gives its
  name, and the name of the device or its number.\<close>

theorem pci_ids_lookup:
  assumes "ids_ok t" "(v, n, ds) \<in> set t" "d < 65536"
  shows "\<exists>m. pci_parse (ids_text t) = Ok m \<and>
    Lookup m (word_of_nat v) (word_of_nat d) = (n, case map_of ds d of Some dn \<Rightarrow> dn | None \<Rightarrow> FormatHexPad 4 d)"
proof (intro exI conjI)
  have t: "distinct (map fst t)" "\<forall>v \<in> set (map fst t). v < 65536"
    "\<forall>(v, n, ds) \<in> set t. (ds \<noteq> [] \<longrightarrow> 0 < v) \<and> distinct (map fst ds) \<and> (\<forall>(d, dn) \<in> set ds. d < 65536)"
    using assms(1) by (auto simp: ids_ok_def)
  have "fst (Scan_lines (ids_text t)) = concat (map vendor_lines t)"
    using assms(1) Scan_lines_unlines [of "concat (map vendor_lines t)" "[]"] by (simp add: ids_text_def ids_ok_def line_ok_def maxLine_def)
  moreover obtain c where "pci_scan (concat (map vendor_lines t)) (0, ids_map []) = Ok (c, ids_map t)"
    using scan_vendors [of "[]" t 0] t by auto
  ultimately show "pci_parse (ids_text t) = Ok (ids_map t)" by (simp add: pci_parse_def ids_map_def)
  have v: "v < 65536" "map_of t v = Some (n, ds)" using t(1,2) assms(2) by (force, simp)
  have "map_of (ids_map t) (word_of_nat v) = Some \<lparr>VName = n, VDevices = dev_map ds\<rparr>"
    using map_of_words [of t v "\<lambda>x. \<lparr>VName = fst x, VDevices = dev_map (snd x)\<rparr>"] t(2) v by (simp add: ids_map_def)
  moreover have "\<forall>k \<in> set (map fst ds). k < 65536" using t(3) assms(2) by fastforce
  then have "map_of (dev_map ds) (word_of_nat d) = map_of ds d"
    using map_of_words [of ds d "\<lambda>x. x"] assms(3) by (simp add: dev_map_def option.map_ident)
  ultimately show "Lookup (ids_map t) (word_of_nat v) (word_of_nat d) =
      (n, case map_of ds d of Some dn \<Rightarrow> dn | None \<Rightarrow> FormatHexPad 4 d)"
    using assms(3) by (simp add: Lookup_def venDevFmt_def unat_of_nat_small split: option.split)
qed

theorem pci_ids_lookup_witness:
  "\<exists>m. pci_parse (ids_text [(0x1b36, ''Red Hat, Inc.'', [(0x0002, ''QEMU bridge''), (0x0010, ''NVMe'')]), (0x8086, ''Intel'', [])]) = Ok m \<and>
     Lookup m 0x1b36 0x10 = (''Red Hat, Inc.'', ''NVMe'')"
proof -
  let ?t = "[(0x1b36, ''Red Hat, Inc.'', [(0x0002, ''QEMU bridge''), (0x0010, ''NVMe'')]), (0x8086, ''Intel'', [])]"
  have f: "FormatHexPad 4 0x1b36 = ''1b36''" "FormatHexPad 4 2 = ''0002''" "FormatHexPad 4 0x10 = ''0010''" "FormatHexPad 4 0x8086 = ''8086''"
    by (simp_all add: FormatHexPad_def FormatHex.simps hex_char_def) (simp_all add: numeral_eq_Suc)
  have "ids_ok ?t" by (simp add: ids_ok_def vendor_lines_def dev_line_def f tab_def line_ok_def lf_def cr_def maxLine_def)
  from pci_ids_lookup [OF this, of "0x1b36" "''Red Hat, Inc.''" "[(0x0002, ''QEMU bridge''), (0x0010, ''NVMe'')]" "0x10"]
  show ?thesis by simp
qed

section \<open>Registers of the configuration space\<close>

lemma un_le_le_nat_mod: "un_le (le_nat n k) = k mod 256 ^ n"
  by (simp add: un_le_def le_nat_def un_be_be_nat)

lemma overwrite_nth: "i < off \<or> off + length bs \<le> i \<Longrightarrow> off + length bs \<le> length c \<Longrightarrow> overwrite c off bs ! i = c ! i"
  by (auto simp: overwrite_def nth_append)

text \<open>a register of the configuration space that was written is read back with the bits of its width, and no other byte
  of any file has changed.\<close>

theorem config_register_write_read:
  assumes "fs (config_path p) = Some c" "0 \<le> off" "wd \<in> {8, 16, 32, 64}" "nat off + nat wd div 8 \<le> length c"
  shows "\<exists>fs' c'. WriteConfigRegister p off wd val fs = (Ok (), fs') \<and> fs' (config_path p) = Some c' \<and>
    ReadConfigRegister fs' p off wd = Ok (take_bit (nat wd) val) \<and> length c' = length c \<and>
    (\<forall>i. i < nat off \<or> nat off + nat wd div 8 \<le> i \<longrightarrow> c' ! i = c ! i) \<and> (\<forall>q. q \<noteq> config_path p \<longrightarrow> fs' q = fs q)"
proof -
  let ?n = "nat wd div 8" and ?bs = "le_nat (nat wd div 8) (unat val)"
  let ?c = "overwrite c (nat off) ?bs"
  have w: "WriteConfigRegister p off wd val fs = (Ok (), fs(config_path p \<mapsto> ?c))"
    using assms by (simp add: WriteConfigRegister_def)
  have "take ?n (drop (nat off) ?c) = ?bs" "?n \<le> length (drop (nat off) ?c)" "length ?c = length c"
    using assms(4) by (simp_all add: overwrite_def)
  moreover have "(word_of_nat (unat val mod 256 ^ ?n) :: u64) = take_bit (nat wd) val"
  proof -
    have "(256 :: nat) ^ ?n = 2 ^ nat wd" using assms(3) by auto
    moreover have "unat val mod 2 ^ nat wd = unat (take_bit (nat wd) val)"
      by (simp only: unsigned_take_bit_eq take_bit_eq_mod [of _ "unat val"])
    ultimately show ?thesis by simp
  qed
  ultimately have "ReadConfigRegister (fs(config_path p \<mapsto> ?c)) p off wd = Ok (take_bit (nat wd) val)"
    using assms(2,3) by (simp add: ReadConfigRegister_def barreg_ReadAt_def ReadFull_def un_le_le_nat_mod)
  then show ?thesis using w assms(4) \<open>length ?c = length c\<close> overwrite_nth [of _ "nat off" ?bs c]
    by (intro exI [of _ "fs(config_path p \<mapsto> ?c)"] exI [of _ ?c]) auto
qed

text \<open>The names of the status bits are off by one against the bits: a device that signalled a system error (bit 14) or
  found a parity error (bit 15) is shown without any error.\<close>

lemma status_errors_not_shown: "Status_String 0xc000 = Status_String 0"
  by code_simp

end
