(* ===== verification/Block.thy ===== *)
theory Block imports Pci Mount begin

text \<open>
  \<open>pkg/mount/block/blockdev_linux.go\<close>: block devices, the UUID of their file systems, and the filters that pick devices by name,
  UUID, partition or PCI device. Files, ioctls, symbolic links, the order in which a directory is walked, \<open>strings.EqualFold\<close> and
  the third-party reader of partition tables are parameters.
\<close>

record BlockDev =
  BdName :: string
  BdFSType :: string
  BdUUID :: string

record partition_entry =
  PtEmpty :: bool
  PtId :: string
  PtType :: string
  PtName :: string

text \<open>\<open>bk_stat\<close> gives whether a path is a directory; \<open>bk_walk\<close> are the calls of the walker, \<open>None\<close> for an error.\<close>

record blk_world =
  bk_stat :: "string \<Rightarrow> bool option"
  bk_read :: files
  bk_opens :: "string \<Rightarrow> bool"
  bk_ioctl :: "string \<Rightarrow> nat \<Rightarrow> nat option"
  bk_gpt :: "string \<Rightarrow> nat \<Rightarrow> partition_entry list option"
  bk_eval :: "string \<Rightarrow> string option"
  bk_fold :: "string \<Rightarrow> string \<Rightarrow> bool"
  bk_walk :: "string option list"

datatype block_error =
  BkStat string | BkOpen string | BkIoctl string | BkGpt string | BkIo io_error | BkMagic | BkNoUUID | BkWalk | BkRel
| BkEval string | BkNoPCI string | BkPci pci_error | BkFormat string | BkHex num_error | BkNoMount

definition LinuxMountsPath :: string where "LinuxMountsPath = ''/proc/mounts''"

section \<open>The UUID of a file system\<close>

definition hex_bytes :: "byte list \<Rightarrow> string" where
  "hex_bytes bs = concat (map hex2 bs)"

definition read_at :: "byte list \<Rightarrow> nat \<Rightarrow> nat \<Rightarrow> (block_error, byte list) res" where
  "read_at f n off =
     (let bs = take n (drop off f) in if length bs < n then Err (BkIo EOF) else Ok bs)"

definition uuid_groups :: "byte list \<Rightarrow> string" where
  "uuid_groups b =
     JoinWith ''-'' [hex_bytes (take 4 b), hex_bytes (take 2 (drop 4 b)), hex_bytes (take 2 (drop 6 b)),
       hex_bytes (take 2 (drop 8 b)), hex_bytes (drop 10 b)]"

definition short_uuid :: "byte list \<Rightarrow> string" where
  "short_uuid b = hex2 (b ! 3) @ hex2 (b ! 2) @ ''-'' @ hex2 (b ! 1) @ hex2 (b ! 0)"

definition ext2SprblkOff :: nat where "ext2SprblkOff = 1024"
definition ext2SprblkMagicOff :: nat where "ext2SprblkMagicOff = 56"
definition ext2SprblkMagicSize :: nat where "ext2SprblkMagicSize = 2"
definition ext2SprblkMagic :: nat where "ext2SprblkMagic = 0xEF53"
definition ext2SprblkUUIDOff :: nat where "ext2SprblkUUIDOff = 104"
definition ext2SprblkUUIDSize :: nat where "ext2SprblkUUIDSize = 16"

definition tryEXT4 :: "byte list \<Rightarrow> (block_error, string) res" where
  "tryEXT4 f =
     rbind (read_at f ext2SprblkMagicSize (ext2SprblkOff + ext2SprblkMagicOff)) (\<lambda>m.
       if un_le m \<noteq> ext2SprblkMagic then Err BkMagic
       else rbind (read_at f ext2SprblkUUIDSize (ext2SprblkOff + ext2SprblkUUIDOff)) (\<lambda>b. Ok (uuid_groups b)))"

definition fat12Magic :: string where "fat12Magic = ''FAT12   ''"
definition fat16Magic :: string where "fat16Magic = ''FAT16   ''"
definition fat16MagicOff :: nat where "fat16MagicOff = 0x36"
definition fat16MagicSize :: nat where "fat16MagicSize = 8"
definition fat16IDOff :: nat where "fat16IDOff = 0x27"
definition fat16IDSize :: nat where "fat16IDSize = 4"

definition tryFAT16 :: "byte list \<Rightarrow> (block_error, string) res" where
  "tryFAT16 f =
     rbind (read_at f fat16MagicSize fat16MagicOff) (\<lambda>m.
       if bytes_str m \<noteq> fat16Magic \<and> bytes_str m \<noteq> fat12Magic then Err BkMagic
       else rbind (read_at f fat16IDSize fat16IDOff) (\<lambda>b. Ok (short_uuid b)))"

definition fat32Magic :: string where "fat32Magic = ''FAT32   ''"
definition fat32MagicOff :: nat where "fat32MagicOff = 0x52"
definition fat32MagicSize :: nat where "fat32MagicSize = 8"
definition fat32IDOff :: nat where "fat32IDOff = 67"
definition fat32IDSize :: nat where "fat32IDSize = 4"

definition tryFAT32 :: "byte list \<Rightarrow> (block_error, string) res" where
  "tryFAT32 f =
     rbind (read_at f fat32MagicSize fat32MagicOff) (\<lambda>m.
       if bytes_str m \<noteq> fat32Magic then Err BkMagic
       else rbind (read_at f fat32IDSize fat32IDOff) (\<lambda>b. Ok (short_uuid b)))"

definition xfsMagic :: string where "xfsMagic = ''XFSB''"
definition xfsMagicSize :: nat where "xfsMagicSize = 4"
definition xfsUUIDOff :: nat where "xfsUUIDOff = 32"
definition xfsUUIDSize :: nat where "xfsUUIDSize = 16"

definition tryXFS :: "byte list \<Rightarrow> (block_error, string) res" where
  "tryXFS f =
     rbind (read_at f xfsMagicSize 0) (\<lambda>m.
       if bytes_str m \<noteq> xfsMagic then Err BkMagic
       else rbind (read_at f xfsUUIDSize xfsUUIDOff) (\<lambda>b. Ok (uuid_groups b)))"

fun first_ok :: "(block_error, string) res list \<Rightarrow> (block_error, string) res" where
  "first_ok [] = Err BkNoUUID"
| "first_ok (r # rs) = (case r of Ok x \<Rightarrow> Ok x | _ \<Rightarrow> first_ok rs)"

definition getFSUUID :: "blk_world \<Rightarrow> string \<Rightarrow> (block_error, string) res" where
  "getFSUUID w devpath =
     (case bk_read w devpath of
        None \<Rightarrow> Err (BkOpen devpath)
      | Some f \<Rightarrow> first_ok [tryFAT32 f, tryFAT16 f, tryEXT4 f, tryXFS f])"

section \<open>Devices\<close>

definition sysClassBlock :: string where "sysClassBlock = ''/sys/class/block''"

definition Device :: "blk_world \<Rightarrow> string \<Rightarrow> (block_error, BlockDev) res" where
  "Device w maybeDevpath =
     (let devname = Base maybeDevpath; p = Join sysClassBlock devname in
      if bk_stat w p = None then Err (BkStat p)
      else Ok \<lparr>BdName = devname, BdFSType = [],
                BdUUID = (case getFSUUID w (Join ''/dev/'' devname) of Ok u \<Rightarrow> u | _ \<Rightarrow> [])\<rparr>)"

definition BlockDev_String :: "BlockDev \<Rightarrow> string" where
  "BlockDev_String b =
     ''BlockDevice(name='' @ BdName b @ (if length (BdFSType b) > 0 then '', fs_type='' @ BdFSType b else []) @
     '', fs_uuid='' @ BdUUID b @ '')''"

definition DevicePath :: "BlockDev \<Rightarrow> string" where
  "DevicePath b = Join ''/dev/'' (BdName b)"

definition bd_Mounter :: "'k mount_sys \<Rightarrow> BlockDev \<Rightarrow> 'k Mounter" where
  "bd_Mounter s b =
     \<lparr>DevName = BdName b,
      MountAt = (\<lambda>path flags k.
        if length (BdFSType b) > 0 then sys_Mount s (Join ''/dev'' (BdName b)) path (BdFSType b) [] flags [] k
        else TryMount s (Join ''/dev'' (BdName b)) path [] flags [] k)\<rparr>"

definition dev_ioctl :: "blk_world \<Rightarrow> BlockDev \<Rightarrow> nat \<Rightarrow> (block_error, nat) res" where
  "dev_ioctl w b req =
     (if \<not> bk_opens w (DevicePath b) then Err (BkOpen (DevicePath b))
      else case bk_ioctl w (DevicePath b) req of None \<Rightarrow> Err (BkIoctl (DevicePath b)) | Some n \<Rightarrow> Ok n)"

definition BLKSSZGET :: nat where "BLKSSZGET = 0x1268"
definition BLKPBSZGET :: nat where "BLKPBSZGET = 0x127b"
definition BLKBSZGET :: nat where "BLKBSZGET = 0x80081270"
definition BLKGETSIZE64 :: nat where "BLKGETSIZE64 = 0x80081272"

definition bd_BlockSize :: "blk_world \<Rightarrow> BlockDev \<Rightarrow> (block_error, nat) res" where
  "bd_BlockSize w b = dev_ioctl w b BLKSSZGET"

definition PhysicalBlockSize :: "blk_world \<Rightarrow> BlockDev \<Rightarrow> (block_error, nat) res" where
  "PhysicalBlockSize w b = dev_ioctl w b BLKPBSZGET"

definition KernelBlockSize :: "blk_world \<Rightarrow> BlockDev \<Rightarrow> (block_error, nat) res" where
  "KernelBlockSize w b = dev_ioctl w b BLKBSZGET"

definition BlockDev_Size :: "blk_world \<Rightarrow> BlockDev \<Rightarrow> (block_error, nat) res" where
  "BlockDev_Size w b = dev_ioctl w b BLKGETSIZE64"

definition GPTTable :: "blk_world \<Rightarrow> BlockDev \<Rightarrow> (block_error, partition_entry list) res" where
  "GPTTable w b =
     (if \<not> bk_opens w (DevicePath b) then Err (BkOpen (DevicePath b))
      else case bk_gpt w (DevicePath b) (case bd_BlockSize w b of Ok n \<Rightarrow> n | _ \<Rightarrow> 512) of
          None \<Rightarrow> Err (BkGpt (DevicePath b)) | Some t \<Rightarrow> Ok t)"

text \<open>The walk up to the PCI device of a block device; it has no end above \<open>/sys/devices\<close>.\<close>

definition is_file :: "blk_world \<Rightarrow> string \<Rightarrow> bool" where
  "is_file w p \<longleftrightarrow> bk_stat w p = Some False"

definition has_ids :: "blk_world \<Rightarrow> string \<Rightarrow> bool" where
  "has_ids w p \<longleftrightarrow> is_file w (Join p ''device'') \<and> is_file w (Join p ''vendor'')"

partial_function (option) pci_walk :: "blk_world \<Rightarrow> string \<Rightarrow> string option option" where
  "pci_walk w p =
     (if p = ''/sys/devices'' then Some None
      else if has_ids w p then Some (Some p)
      else pci_walk w (Dir p))"

definition PCIInfo :: "blk_world \<Rightarrow> BlockDev \<Rightarrow> (block_error, PCI) res option" where
  "PCIInfo w b =
     (case bk_eval w (Join sysClassBlock (BdName b)) of
        None \<Rightarrow> Some (Err (BkEval (BdName b)))
      | Some p \<Rightarrow>
          map_option (\<lambda>r. case r of
              None \<Rightarrow> Err (BkNoPCI (BdName b))
            | Some q \<Rightarrow> (case OnePCI (bk_read w) q of Ok x \<Rightarrow> Ok x | Err e \<Rightarrow> Err (BkPci e) | Panic \<Rightarrow> Panic))
            (pci_walk w p))"

fun walk_devices :: "blk_world \<Rightarrow> string option list \<Rightarrow> (block_error, BlockDev list) res" where
  "walk_devices w [] = Ok []"
| "walk_devices w (None # vs) = Err BkWalk"
| "walk_devices w (Some path # vs) =
     (case Rel sysClassBlock path of
        None \<Rightarrow> Err BkRel
      | Some rel \<Rightarrow>
          if rel = ''.'' then walk_devices w vs
          else rbind (Device w rel) (\<lambda>d. rbind (walk_devices w vs) (\<lambda>ds. Ok (d # ds))))"

definition GetBlockDevices :: "blk_world \<Rightarrow> (block_error, BlockDev list) res" where
  "GetBlockDevices w = walk_devices w (bk_walk w)"

section \<open>Filters\<close>

definition composePartName :: "string \<Rightarrow> nat \<Rightarrow> (block_error, string) res" where
  "composePartName devName partNo =
     (if devName = [] then Panic
      else
        let c = (of_char (last devName) :: nat) in
        Ok (devName @ (if 48 \<le> c \<and> c \<le> 57 then ''p'' else []) @ FormatNat partNo))"

definition FilterName :: "string \<Rightarrow> BlockDev list \<Rightarrow> BlockDev list" where
  "FilterName name b = filter (\<lambda>d. BdName d = name) b"

definition FilterNames :: "string list \<Rightarrow> BlockDev list \<Rightarrow> BlockDev list" where
  "FilterNames names b = filter (\<lambda>d. BdName d \<in> Base ` set names) b"

definition FilterFSUUID :: "string \<Rightarrow> BlockDev list \<Rightarrow> BlockDev list" where
  "FilterFSUUID fsuuid b = filter (\<lambda>d. BdUUID d = fsuuid) b"

definition FilterZeroSize :: "blk_world \<Rightarrow> BlockDev list \<Rightarrow> BlockDev list" where
  "FilterZeroSize w b = filter (\<lambda>d. case BlockDev_Size w d of Ok n \<Rightarrow> n \<noteq> 0 | _ \<Rightarrow> False) b"

fun has_parts :: "blk_world \<Rightarrow> string \<Rightarrow> nat list \<Rightarrow> (block_error, bool) res" where
  "has_parts w name [] = Ok True"
| "has_parts w name (p # ps) =
     rbind (composePartName name p) (\<lambda>n. if bk_stat w (Join sysClassBlock n) = None then Ok False else has_parts w name ps)"

fun FilterHavingPartitions :: "blk_world \<Rightarrow> nat list \<Rightarrow> BlockDev list \<Rightarrow> (block_error, BlockDev list) res" where
  "FilterHavingPartitions w parts [] = Ok []"
| "FilterHavingPartitions w parts (d # ds) =
     rbind (has_parts w (BdName d) parts) (\<lambda>h.
     rbind (FilterHavingPartitions w parts ds) (\<lambda>r. Ok (if h then d # r else r)))"

text \<open>The names of the partitions of a device that satisfy a condition, counted from 1.\<close>

fun part_names :: "(partition_entry \<Rightarrow> bool) \<Rightarrow> string \<Rightarrow> nat \<Rightarrow> partition_entry list \<Rightarrow> (block_error, string list) res" where
  "part_names f name i [] = Ok []"
| "part_names f name i (pt # pts) =
     (if \<not> PtEmpty pt \<and> f pt
      then rbind (composePartName name (i + 1)) (\<lambda>n. rbind (part_names f name (Suc i) pts) (\<lambda>r. Ok (n # r)))
      else part_names f name (Suc i) pts)"

fun all_part_names :: "blk_world \<Rightarrow> (partition_entry \<Rightarrow> bool) \<Rightarrow> BlockDev list \<Rightarrow> (block_error, string list) res" where
  "all_part_names w f [] = Ok []"
| "all_part_names w f (d # ds) =
     (case GPTTable w d of
        Ok t \<Rightarrow> rbind (part_names f (BdName d) 0 t) (\<lambda>ns. rbind (all_part_names w f ds) (\<lambda>r. Ok (ns @ r)))
      | _ \<Rightarrow> all_part_names w f ds)"

definition FilterPartID :: "blk_world \<Rightarrow> string \<Rightarrow> BlockDev list \<Rightarrow> (block_error, BlockDev list) res" where
  "FilterPartID w guid b = rbind (all_part_names w (\<lambda>pt. bk_fold w (PtId pt) guid) b) (\<lambda>ns. Ok (FilterNames ns b))"

definition FilterPartType :: "blk_world \<Rightarrow> string \<Rightarrow> BlockDev list \<Rightarrow> (block_error, BlockDev list) res" where
  "FilterPartType w guid b = rbind (all_part_names w (\<lambda>pt. bk_fold w (PtType pt) guid) b) (\<lambda>ns. Ok (FilterNames ns b))"

definition FilterPartLabel :: "blk_world \<Rightarrow> string \<Rightarrow> BlockDev list \<Rightarrow> (block_error, BlockDev list) res" where
  "FilterPartLabel w label b = rbind (all_part_names w (\<lambda>pt. bk_fold w (PtName pt) label) b) (\<lambda>ns. Ok (FilterNames ns b))"

definition parse_pci_id :: "string \<Rightarrow> (block_error, u16) res" where
  "parse_pci_id s =
     (case ParseUintN (TrimPrefix s ''0x'') 16 16 of Ok n \<Rightarrow> Ok (word_of_nat n) | Err e \<Rightarrow> Err (BkHex e) | Panic \<Rightarrow> Panic)"

fun parse_pci_list :: "string list \<Rightarrow> (block_error, (u16 \<times> u16) list) res" where
  "parse_pci_list [] = Ok []"
| "parse_pci_list (b # bs) =
     (case split_on (CHR '':'') b of
        [p0, p1] \<Rightarrow> rbind (parse_pci_id p0) (\<lambda>v. rbind (parse_pci_id p1) (\<lambda>d. rbind (parse_pci_list bs) (\<lambda>r. Ok ((v, d) # r))))
      | _ \<Rightarrow> Err (BkFormat b))"

definition parsePCIBlockList :: "string \<Rightarrow> (block_error, (u16 \<times> u16) list) res" where
  "parsePCIBlockList blockList = parse_pci_list (split_on (CHR '','') blockList)"

text \<open>A device whose PCI device is not found is kept.\<close>

fun FilterBlockPCI :: "blk_world \<Rightarrow> (u16 \<times> u16) list \<Rightarrow> BlockDev list \<Rightarrow> (block_error, BlockDev list) res option" where
  "FilterBlockPCI w blocklist [] = Some (Ok [])"
| "FilterBlockPCI w blocklist (d # ds) =
     (case PCIInfo w d of
        None \<Rightarrow> None
      | Some Panic \<Rightarrow> Some Panic
      | Some r \<Rightarrow>
          (let keep = (case r of Ok p \<Rightarrow> (PVendor p, PDevice p) \<notin> set blocklist | _ \<Rightarrow> True) in
           map_option (\<lambda>rest. rbind rest (\<lambda>ps. Ok (if keep then d # ps else ps))) (FilterBlockPCI w blocklist ds)))"

definition FilterBlockPCIString :: "blk_world \<Rightarrow> string \<Rightarrow> BlockDev list \<Rightarrow> (block_error, BlockDev list) res option" where
  "FilterBlockPCIString w blocklist b =
     (case parsePCIBlockList blocklist of
        Ok l \<Rightarrow> FilterBlockPCI w l b | Err e \<Rightarrow> Some (Err e) | Panic \<Rightarrow> Some Panic)"

text \<open>A line of fewer words than it needs panics.\<close>

fun find_mount :: "string \<Rightarrow> string list \<Rightarrow> (block_error, string) res" where
  "find_mount devicePath [] = Err BkNoMount"
| "find_mount devicePath (l # ls) =
     (case Fields l of
        [] \<Rightarrow> Panic
      | d # r \<Rightarrow> if d = devicePath then (case r of m # _ \<Rightarrow> Ok m | [] \<Rightarrow> Panic) else find_mount devicePath ls)"

definition GetMountpointByDevice :: "blk_world \<Rightarrow> string \<Rightarrow> (block_error, string) res" where
  "GetMountpointByDevice w devicePath =
     (case bk_read w LinuxMountsPath of
        None \<Rightarrow> Err (BkOpen LinuxMountsPath)
      | Some f \<Rightarrow> find_mount devicePath (fst (Scan_lines (bytes_str f))))"

lemma named_bd_Mounter: "named (bd_Mounter s b)"
  by (auto simp: named_def bd_Mounter_def TryMount_def sys_Mount_def dev_path_def split: if_splits prod.splits bool.splits res.splits)

section \<open>A partition belongs to one device\<close>

definition digit :: "char \<Rightarrow> bool" where
  "digit c \<longleftrightarrow> 48 \<le> (of_char c :: nat) \<and> (of_char c :: nat) \<le> 57"

lemma FormatNat_all_digits: "c \<in> set (FormatNat n) \<Longrightarrow> digit c"
  using FormatNat_digits [of c n] of_char_digit by (fastforce simp: digit_def)

definition dec_val :: "string \<Rightarrow> nat" where
  "dec_val s = foldl (\<lambda>a c. a * 10 + (of_char c - 48)) 0 s"

lemma dec_val_FormatNat: "dec_val (FormatNat n) = n"
proof (induction n rule: FormatNat.induct)
  case (1 n)
  then show ?case by (subst FormatNat.simps) (simp add: dec_val_def of_char_digit)
qed

lemma FormatNat_inj: "FormatNat i = FormatNat j \<Longrightarrow> i = j"
  by (metis dec_val_FormatNat)

text \<open>The digits at the end of a string, and what is before.\<close>

lemma digits_at_end:
  assumes "a @ n = b @ m" "\<forall>c \<in> set n. digit c" "\<forall>c \<in> set m. digit c" "a \<noteq> []" "b \<noteq> []" "\<not> digit (last a)" "\<not> digit (last b)"
  shows "a = b \<and> n = m"
proof -
  have s: "takeWhile digit (rev (x @ k)) = rev k \<and> dropWhile digit (rev (x @ k)) = rev x"
    if "\<forall>c \<in> set k. digit c" "x \<noteq> []" "\<not> digit (last x)" for x k
  proof -
    have "rev x = last x # tl (rev x)" using that(2) by (metis hd_rev list.collapse rev_is_Nil_conv)
    then have "takeWhile digit (rev x) = []" "dropWhile digit (rev x) = rev x" using that(3) by (metis takeWhile.simps(2), metis dropWhile.simps(2))
    then show ?thesis using that(1) by (simp add: takeWhile_append dropWhile_append)
  qed
  from s [OF assms(2,4,6)] s [OF assms(3,5,7)] assms(1) show ?thesis by (metis rev_rev_ident)
qed

text \<open>A name without a slash that does not end in a digit and a \<open>p\<close>.\<close>

definition clear_name :: "string \<Rightarrow> bool" where
  "clear_name d \<longleftrightarrow> d \<noteq> [] \<and> slash \<notin> set d \<and> \<not> (2 \<le> length d \<and> last d = CHR ''p'' \<and> digit (last (butlast d)))"

lemma composePartName_Ok:
  "composePartName d i = Ok n \<longleftrightarrow> d \<noteq> [] \<and> n = (d @ (if digit (last d) then ''p'' else [])) @ FormatNat i"
  by (auto simp: composePartName_def digit_def Let_def)

lemma composePartName_inj:
  assumes "composePartName d i = Ok n" "composePartName e j = Ok n" "clear_name d" "clear_name e"
  shows "d = e \<and> i = j"
proof -
  have np: "\<not> digit (CHR ''p'')" by (simp add: digit_def)
  let ?d = "d @ (if digit (last d) then ''p'' else [])" and ?e = "e @ (if digit (last e) then ''p'' else [])"
  have ne: "d \<noteq> []" "e \<noteq> []" using assms(3,4) by (auto simp: clear_name_def)
  have "?d = ?e \<and> FormatNat i = FormatNat j"
    using assms(1,2) ne np FormatNat_all_digits
    by (intro digits_at_end) (auto simp: composePartName_Ok split: if_splits)
  moreover have "\<not> clear_name (a @ ''p'')" if "a \<noteq> []" "digit (last a)" for a
    using that by (cases a) (auto simp: clear_name_def)
  ultimately show ?thesis using FormatNat_inj [of i j] assms(3,4) ne by (auto split: if_splits)
qed

lemma Base_plain: "slash \<notin> set n \<Longrightarrow> n \<noteq> [] \<Longrightarrow> Base n = n"
proof -
  assume a: "slash \<notin> set n" "n \<noteq> []"
  then have "TrimRight [slash] n = n" by (cases n rule: rev_cases) (auto simp: TrimRight_def)
  moreover have "LastIndexByte n slash = None" using a by (simp add: LastIndexByte_None)
  ultimately show ?thesis using a by (simp add: Base_def Let_def)
qed

lemma Base_part:
  assumes "composePartName d i = Ok n" "clear_name d"
  shows "Base n = n"
proof -
  have "\<not> digit slash" by (simp add: digit_def slash_def)
  then have "slash \<notin> set (FormatNat i)" using FormatNat_all_digits by blast
  then show ?thesis using assms by (intro Base_plain) (auto simp: composePartName_Ok clear_name_def slash_def split: if_splits)
qed

lemma part_names_Ok:
  "part_names f name i pts = Ok ns \<Longrightarrow>
   n \<in> set ns \<longleftrightarrow> (\<exists>k < length pts. \<not> PtEmpty (pts ! k) \<and> f (pts ! k) \<and> composePartName name (i + k + 1) = Ok n)"
proof (induction pts arbitrary: i ns)
  case (Cons pt pts)
  from Cons show ?case by (auto simp: Ex_less_Suc2 split: if_splits)
qed simp

lemma all_part_names_Ok:
  "all_part_names w f ds = Ok ns \<Longrightarrow>
   n \<in> set ns \<longleftrightarrow> (\<exists>d \<in> set ds. \<exists>t k. GPTTable w d = Ok t \<and> k < length t \<and> \<not> PtEmpty (t ! k) \<and> f (t ! k) \<and>
     composePartName (BdName d) (k + 1) = Ok n)"
proof (induction ds arbitrary: ns)
  case (Cons d ds)
  show ?case
  proof (cases "GPTTable w d")
    case (Ok t)
    with Cons.prems obtain a b where ab: "part_names f (BdName d) 0 t = Ok a" "all_part_names w f ds = Ok b" "ns = a @ b" by auto
    show ?thesis using Cons.IH [OF ab(2)] part_names_Ok [OF ab(1), of n] by (auto simp: ab(3) Ok)
  qed (use Cons in auto)
qed simp

text \<open>C36: the filter for a partition label picks exactly the devices that are a partition with that label of a device in the
  list, and each of them is a partition of one device only.\<close>

theorem FilterPartLabel_owner:
  assumes "FilterPartLabel w label devs = Ok r" "\<forall>d \<in> set devs. clear_name (BdName d)"
  shows "x \<in> set r \<longleftrightarrow> x \<in> set devs \<and>
      (\<exists>d \<in> set devs. \<exists>t k. GPTTable w d = Ok t \<and> k < length t \<and> \<not> PtEmpty (t ! k) \<and> bk_fold w (PtName (t ! k)) label \<and>
        composePartName (BdName d) (k + 1) = Ok (BdName x) \<and>
        (\<forall>e \<in> set devs. \<forall>j. composePartName (BdName e) j = Ok (BdName x) \<longrightarrow> BdName e = BdName d \<and> j = k + 1))"
proof -
  from assms(1) obtain ns where ns: "all_part_names w (\<lambda>pt. bk_fold w (PtName pt) label) devs = Ok ns" "r = FilterNames ns devs"
    by (auto simp: FilterPartLabel_def)
  note a = all_part_names_Ok [OF ns(1)]
  have "Base n = n" if "n \<in> set ns" for n using that assms(2) Base_part by (auto simp: a)
  then have "Base ` set ns = set ns" by force
  then have "x \<in> set r \<longleftrightarrow> x \<in> set devs \<and> BdName x \<in> set ns" by (auto simp: ns(2) FilterNames_def)
  moreover have "BdName e = BdName d \<and> j = i"
    if "d \<in> set devs" "e \<in> set devs" "composePartName (BdName d) i = Ok (BdName x)" "composePartName (BdName e) j = Ok (BdName x)" for d e i j
    using composePartName_inj [OF that(4,3)] assms(2) that(1,2) by auto
  ultimately show ?thesis unfolding a by blast
qed

definition ex_disk :: blk_world where
  "ex_disk = \<lparr>bk_stat = (\<lambda>p. None), bk_read = (\<lambda>p. None), bk_opens = (\<lambda>p. True), bk_ioctl = (\<lambda>p r. Some 512),
     bk_gpt = (\<lambda>p n. if p = ''/dev/sda''
       then Some [\<lparr>PtEmpty = False, PtId = ''A'', PtType = ''T'', PtName = ''boot''\<rparr>, \<lparr>PtEmpty = False, PtId = ''B'', PtType = ''T'', PtName = ''root''\<rparr>]
       else None),
     bk_eval = (\<lambda>p. None), bk_fold = (\<lambda>a b. a = b), bk_walk = []\<rparr>"

definition ex_devs :: "BlockDev list" where
  "ex_devs = map (\<lambda>n. \<lparr>BdName = n, BdFSType = [], BdUUID = []\<rparr>) [''sda'', ''sda1'', ''sda2'', ''nvme0n1'']"

theorem FilterPartLabel_owner_witness:
  "\<exists>r. FilterPartLabel ex_disk ''root'' ex_devs = Ok r \<and> \<lparr>BdName = ''sda2'', BdFSType = [], BdUUID = []\<rparr> \<in> set r"
proof -
  let ?x = "\<lparr>BdName = ''sda2'', BdFSType = [], BdUUID = []\<rparr>"
  have p: "DevicePath \<lparr>BdName = n, BdFSType = [], BdUUID = []\<rparr> = ''/dev/'' @ n" if "n \<in> {''sda'', ''sda1'', ''sda2'', ''nvme0n1''}" for n
    using that by (elim insertE emptyE; simp add: DevicePath_def; code_simp)
  have f: "FormatNat (Suc 0) = ''1''" "FormatNat (Suc (Suc 0)) = ''2''" by (code_simp, code_simp)
  have "all_part_names ex_disk (\<lambda>pt. bk_fold ex_disk (PtName pt) ''root'') ex_devs = Ok [''sda2'']"
    by (simp add: ex_devs_def GPTTable_def p ex_disk_def composePartName_def f)
  then have r: "FilterPartLabel ex_disk ''root'' ex_devs = Ok (FilterNames [''sda2''] ex_devs)" by (simp add: FilterPartLabel_def)
  have c: "\<forall>d \<in> set ex_devs. clear_name (BdName d)" by (simp add: ex_devs_def clear_name_def slash_def digit_def)
  have "?x \<in> set (FilterNames [''sda2''] ex_devs)"
  proof (subst FilterPartLabel_owner [OF r c], intro conjI bexI exI)
    show "\<lparr>BdName = ''sda'', BdFSType = [], BdUUID = []\<rparr> \<in> set ex_devs" "?x \<in> set ex_devs" by (simp_all add: ex_devs_def)
    show "GPTTable ex_disk \<lparr>BdName = ''sda'', BdFSType = [], BdUUID = []\<rparr> =
        Ok [\<lparr>PtEmpty = False, PtId = ''A'', PtType = ''T'', PtName = ''boot''\<rparr>, \<lparr>PtEmpty = False, PtId = ''B'', PtType = ''T'', PtName = ''root''\<rparr>]"
      by (simp add: GPTTable_def p ex_disk_def)
    have n: "composePartName ''sda'' (Suc (Suc 0)) = Ok ''sda2''" by (simp add: composePartName_def f)
    then show "composePartName (BdName \<lparr>BdName = ''sda'', BdFSType = [], BdUUID = []\<rparr>) (1 + 1) = Ok (BdName ?x)" by simp
    show "\<forall>e \<in> set ex_devs. \<forall>j. composePartName (BdName e) j = Ok (BdName ?x) \<longrightarrow>
        BdName e = BdName \<lparr>BdName = ''sda'', BdFSType = [], BdUUID = []\<rparr> \<and> j = 1 + 1"
    proof (intro ballI allI impI)
      fix e j
      assume "e \<in> set ex_devs" "composePartName (BdName e) j = Ok (BdName ?x)"
      moreover from this c have "clear_name (BdName e)" by blast
      moreover have "clear_name ''sda''" by (simp add: clear_name_def slash_def digit_def)
      ultimately show "BdName e = BdName \<lparr>BdName = ''sda'', BdFSType = [], BdUUID = []\<rparr> \<and> j = 1 + 1"
        using composePartName_inj [OF _ n, of "BdName e" j] by simp
    qed
  qed (simp_all add: ex_disk_def)
  with r show ?thesis by blast
qed

section \<open>The walk up to the PCI device\<close>

lemma Clean_root: "Clean [slash] = [slash]"
  by code_simp

lemma Dir_rooted:
  assumes "normal True (cs @ [c])"
  shows "Dir (path_of True (cs @ [c])) = path_of True cs"
proof -
  have c: "slash \<notin> set c" using assms by (simp add: normal_def plain_def)
  show ?thesis
  proof (cases "cs = []")
    case True
    have "LastIndexByte (slash # c) slash = Some 0" using LastIndexByte_name [OF c, of "[]"] by simp
    then show ?thesis using True by (simp add: Dir_def path_of_def Clean_root)
  next
    case False
    have "normal True cs" using normal_butlast [OF assms] rooted_no_dotdot [OF assms] by auto
    then have "Clean (path_of True cs) = path_of True cs" by (rule Clean_path_normal)
    moreover have "path_of True (cs @ [c]) = path_of True cs @ slash # c" using False by (simp add: path_of_def join_snoc)
    moreover have "path_of True cs \<noteq> []" by (simp add: path_of_def)
    ultimately show ?thesis using Dir_name [OF _ _ c] by simp
  qed
qed

lemma pci_walk_root:
  assumes "\<not> has_ids w [slash]"
  shows "pci_walk w [slash] = None"
proof (rule ccontr)
  assume "pci_walk w [slash] \<noteq> None"
  then obtain y where y: "pci_walk w [slash] = Some y" by blast
  have d: "Dir [slash] = [slash]" by code_simp
  have "\<not> (w = w \<and> [slash] = [slash])"
  proof (rule pci_walk.raw_induct [OF _ y, where P = "\<lambda>w' p y. \<not> (w' = w \<and> p = [slash])"], goal_cases)
    case (1 f w' p y)
    show ?case
    proof
      assume e: "w' = w \<and> p = [slash]"
      with 1(2) assms have "f w (Dir [slash]) = Some y" by (simp add: slash_def split: if_splits)
      then show False using 1(1) [of w "[slash]" y] by (simp add: d)
    qed
  qed
  then show False by simp
qed

lemma path_of_sys: "path_of True [''sys'', ''devices''] = ''/sys/devices''"
  by (simp add: path_of_def slash_def)

text \<open>the search for the PCI device of a block device ends exactly if the path passes through \<open>/sys/devices\<close> or a directory
  with the files of a PCI device.\<close>

theorem pci_walk_ends:
  assumes "normal True cs"
  shows "(\<exists>r. pci_walk w (path_of True cs) = Some r) \<longleftrightarrow>
    (\<exists>k \<le> length cs. take k cs = [''sys'', ''devices''] \<or> has_ids w (path_of True (take k cs)))"
  using assms
proof (induction cs rule: rev_induct)
  case Nil
  have "path_of True [] = [slash]" by (simp add: path_of_def)
  then show ?case using pci_walk_root [of w] pci_walk.simps [of w "[slash]"] by (auto simp: slash_def)
next
  case (snoc c cs)
  let ?p = "path_of True (cs @ [c])"
  have "normal True [''sys'', ''devices'']" by (auto simp: normal_def plain_def slash_def dot_def dotdot_def intro: exI [of _ 0])
  note inj = Clean_path_normal(2) [OF this, unfolded path_of_sys] Clean_path_normal(2) [OF snoc.prems]
  have s: "?p = ''/sys/devices'' \<longleftrightarrow> cs @ [c] = [''sys'', ''devices'']"
  proof
    assume "?p = ''/sys/devices''"
    then show "cs @ [c] = [''sys'', ''devices'']" using inj by simp
  qed (simp only: path_of_sys)
  have n: "normal True cs" using normal_butlast [OF snoc.prems] rooted_no_dotdot [OF snoc.prems] by auto
  have ex: "(\<exists>k \<le> length (cs @ [c]). P (take k (cs @ [c]))) \<longleftrightarrow> P (cs @ [c]) \<or> (\<exists>k \<le> length cs. P (take k cs))" for P
    by (auto simp: le_Suc_eq)
  show ?case
    unfolding ex [of "\<lambda>x. x = [''sys'', ''devices''] \<or> has_ids w (path_of True x)"] using snoc.IH [OF n] by (subst pci_walk.simps) (auto simp: s Dir_rooted [OF snoc.prems])
qed

theorem pci_walk_ends_witness:
  "\<exists>r. pci_walk ex_disk ''/sys/devices/pci0000:00'' = Some r"
proof -
  let ?cs = "[''sys'', ''devices'', ''pci0000:00'']"
  have "normal True ?cs" by (auto simp: normal_def plain_def slash_def dot_def dotdot_def intro: exI [of _ 0])
  from pci_walk_ends [OF this, of ex_disk] have "\<exists>r. pci_walk ex_disk (path_of True ?cs) = Some r"
    by (auto intro: exI [of _ 2])
  then show ?thesis by (simp add: path_of_def slash_def)
qed

section \<open>What goes wrong\<close>

text \<open>A blank line among the mounts panics.\<close>

lemma blank_mount_line: "find_mount dev ([] # ls) = Panic"
  by (simp add: Fields_def)

end
