(* ===== verification/GrubCfg.thy ===== *)
theory GrubCfg imports Shlex Block Bls Curl begin

text \<open>
  \<open>pkg/boot/grub/grub.go\<close>: the parser of GRUB configurations. Labels and numbers of entries share images, so the maps hold
  positions in a list of images, the pointers of the code. The flags of \<open>search\<close> are parsed by a third-party package; URLs, files,
  devices, mounts and the kernel are parameters. The writer that tests use is nil.
\<close>

definition probeGrubFiles :: "string list" where
  "probeGrubFiles = [''boot/grub/grub.cfg'', ''grub/grub.cfg'', ''grub2/grub.cfg'', ''boot/grub2/grub.cfg'']"

text \<open>The values of the flags of \<open>search\<close> after parsing, and the other arguments.\<close>

record search_flags =
  SfUUID :: bool
  SfLabel :: bool
  SfFile :: bool
  SfSet :: string
  SfArgs :: "string list"

record 'k grub_world =
  gw_url :: url_world
  gw_sys :: "'k mount_sys"
  gw_blk :: blk_world
  gw_devices :: "BlockDev list"
  gw_cwd :: "string option"
  gw_exists :: "'k \<Rightarrow> string \<Rightarrow> bool"
  gw_flags :: "string list \<Rightarrow> search_flags option"
  gw_bls :: "'k \<Rightarrow> bls_world"
  gw_glob :: "string \<Rightarrow> string list"

record grub_parser =
  gpLinux :: "(string \<times> nat) list"
  gpMb :: "(string \<times> nat) list"
  gpLinuxImages :: "LinuxImage list"
  gpMbImages :: "MultibootImage list"
  gpLabelOrder :: "string list"
  gpNumEntry :: nat
  gpVariables :: "(string \<times> string) list"
  gpCurEntry :: string
  gpCurLabel :: string
  gpPool :: Pool
  gpBlscfg :: bool

definition mountFlags :: u64 where "mountFlags = MountReadOnly"

definition grub_newParser :: "'k grub_world \<Rightarrow> url \<Rightarrow> Pool \<Rightarrow> grub_parser" where
  "grub_newParser w root pool =
     \<lparr>gpLinux = [], gpMb = [], gpLinuxImages = [], gpMbImages = [], gpLabelOrder = [], gpNumEntry = 0,
      gpVariables = [(''root'', uw_string (gw_url w) root)], gpCurEntry = [], gpCurLabel = [], gpPool = pool, gpBlscfg = False\<rparr>"

section \<open>URLs and quoting\<close>

definition filepath_Abs :: "string option \<Rightarrow> string \<Rightarrow> string option" where
  "filepath_Abs cwd p = (if IsAbs p then Some (Clean p) else map_option (\<lambda>d. Join d p) cwd)"

definition absFileScheme :: "string option \<Rightarrow> string \<Rightarrow> url option" where
  "absFileScheme cwd p = map_option (\<lambda>a. \<lparr>UScheme = ''file'', UHost = [], UPath = a, URest = []\<rparr>) (filepath_Abs cwd p)"

definition grub_parseURL :: "url_world \<Rightarrow> string \<Rightarrow> string \<Rightarrow> (url_error, url) res" where
  "grub_parseURL w surl root =
     (case uw_parse w surl of
        None \<Rightarrow> Err (UrlSyntax surl)
      | Some u \<Rightarrow>
          (case uw_parse w root of
             None \<Rightarrow> Err (UrlSyntax root)
           | Some ru \<Rightarrow>
               if UScheme u = [] then
                 Ok (if UHost u = [] then u\<lparr>UScheme := UScheme ru, UHost := UHost ru, UPath := Join (UPath ru) (Clean (UPath u))\<rparr>
                     else u\<lparr>UScheme := UScheme ru\<rparr>)
               else Ok u))"

definition grub_root :: "grub_parser \<Rightarrow> string" where
  "grub_root p = (case map_of (gpVariables p) ''root'' of Some r \<Rightarrow> r | None \<Rightarrow> [])"

definition grub_getFile :: "'k grub_world \<Rightarrow> grub_parser \<Rightarrow> string \<Rightarrow> (url_error, string) res" where
  "grub_getFile w p url = rbind (grub_parseURL (gw_url w) url (grub_root p)) (LazyFetch (gw_url w))"

definition grub_fetch :: "'k grub_world \<Rightarrow> grub_parser \<Rightarrow> string \<Rightarrow> (url_error, string) res" where
  "grub_fetch w p url = rbind (grub_parseURL (gw_url w) url (grub_root p)) (FetchAll (gw_url w))"

text \<open>\<open>hexEscape\<close>: a backslash, an \<open>x\<close> and two hexadecimal digits.\<close>

definition at_hexEscape :: "string \<Rightarrow> bool" where
  "at_hexEscape s \<longleftrightarrow> (case s of a # b # c # d # r \<Rightarrow> a = bsl \<and> b = CHR ''x'' \<and> isHex c \<and> isHex d | _ \<Rightarrow> False)"

fun has_hexEscape :: "string \<Rightarrow> bool" where
  "has_hexEscape [] = False"
| "has_hexEscape (c # s) = (at_hexEscape (c # s) \<or> has_hexEscape s)"

text \<open>Every match gets two more backslashes in front.\<close>

fun hex_double :: "string \<Rightarrow> string" where
  "hex_double [] = []"
| "hex_double (c # s) =
     (if at_hexEscape (c # s) then [bsl, bsl] @ take 4 (c # s) @ hex_double (drop 3 s) else c # hex_double s)"

text \<open>\<open>anyEscape\<close>: a backslash and up to three code points that are no newline.\<close>

definition double_backslashes :: "string \<Rightarrow> string" where
  "double_backslashes s = concat (map (\<lambda>c. if c = bsl then [bsl, bsl] else [c]) s)"

function escape_runes :: "(nat \<times> string) list \<Rightarrow> string" where
  "escape_runes [] = []"
| "escape_runes ((r, b) # rs) =
     (if r = 0x5C then
        let m = take 3 (takeWhile (\<lambda>(x, _). x \<noteq> 10) rs); s = b @ concat (map snd m) in
        (if has_hexEscape s then s else double_backslashes s) @ escape_runes (drop (length m) rs)
      else b @ escape_runes rs)"
  by pat_completeness auto

termination by (relation "measure length") (auto simp: Let_def)

definition escape_char :: "char \<Rightarrow> string \<Rightarrow> string" where
  "escape_char q s = concat (map (\<lambda>c. if c = q then [bsl, q] else [c]) s)"

definition quote_arg :: "string \<Rightarrow> string" where
  "quote_arg s =
     (let s1 = escape_char dquote (escape_char squote (escape_runes (runes s))) in
      if space \<in> set s1 then [dquote] @ s1 @ [dquote] else s1)"

definition cmdlineQuote :: "string list \<Rightarrow> string" where
  "cmdlineQuote args = JoinWith '' '' (map quote_arg args)"

section \<open>The directive search\<close>

type_synonym 'k grub_state = "grub_parser \<times> 'k"

definition set_var :: "string \<Rightarrow> string \<Rightarrow> grub_parser \<Rightarrow> grub_parser" where
  "set_var v x p = p\<lparr>gpVariables := AList.update v x (gpVariables p)\<rparr>"

definition pool_mount :: "'k grub_world \<Rightarrow> BlockDev \<Rightarrow> 'k grub_state \<Rightarrow> (mount_error, MountPoint) res \<times> 'k grub_state" where
  "pool_mount w d st =
     (case st of (p, k) \<Rightarrow>
        (case Pool_Mount (gw_sys w) (bd_Mounter (gw_sys w) d) mountFlags (gpPool p, k) of
           (r, pool, k') \<Rightarrow> (r, p\<lparr>gpPool := pool\<rparr>, k')))"

text \<open>Mount a device and set the variable to its URL; a device that cannot be mounted is skipped.\<close>

definition search_mount :: "'k grub_world \<Rightarrow> string \<Rightarrow> BlockDev list \<Rightarrow> 'k grub_state \<Rightarrow> 'k grub_state" where
  "search_mount w v ds st =
     (case ds of
        [d] \<Rightarrow>
          (case pool_mount w d st of
             (Ok mp, p, k) \<Rightarrow>
               (case absFileScheme (gw_cwd w) (MpPath mp) of
                  None \<Rightarrow> (p, k) | Some u \<Rightarrow> (set_var v (uw_string (gw_url w) u) p, k))
           | (_, st') \<Rightarrow> st')
      | _ \<Rightarrow> st)"

fun search_file :: "'k grub_world \<Rightarrow> string \<Rightarrow> string \<Rightarrow> BlockDev list \<Rightarrow> 'k grub_state \<Rightarrow> 'k grub_state" where
  "search_file w v cleanPath [] st = st"
| "search_file w v cleanPath (d # ds) st =
     (case pool_mount w d st of
        (Ok mp, p, k) \<Rightarrow>
          if gw_exists w k (Join (MpPath mp) cleanPath) then
            (case absFileScheme (gw_cwd w) (MpPath mp) of
               None \<Rightarrow> search_file w v cleanPath ds (p, k)
             | Some u \<Rightarrow> (set_var v (uw_string (gw_url w) u) p, k))
          else search_file w v cleanPath ds (p, k)
      | (_, st') \<Rightarrow> search_file w v cleanPath ds st')"

definition grub_search :: "'k grub_world \<Rightarrow> string list \<Rightarrow> 'k grub_state \<Rightarrow> (url_error, unit) res \<times> 'k grub_state" where
  "grub_search w args st =
     (case gw_flags w args of
        None \<Rightarrow> (Ok (), st)
      | Some f \<Rightarrow>
          (case SfArgs f of
             [name] \<Rightarrow>
               if SfUUID f \<and> SfLabel f \<or> SfUUID f \<and> SfFile f \<or> SfLabel f \<and> SfFile f then (Ok (), st)
               else if SfUUID f \<or> \<not> SfLabel f \<and> \<not> SfFile f then
                 (Ok (), search_mount w (SfSet f) (FilterFSUUID name (gw_devices w)) st)
               else if SfLabel f then
                 (case FilterPartLabel (gw_blk w) name (gw_devices w) of
                    Ok ds \<Rightarrow> (Ok (), search_mount w (SfSet f) ds st)
                  | _ \<Rightarrow> (Panic, st))
               else
                 (case Rel ''/'' (Clean (Join ''/'' name)) of
                    None \<Rightarrow> (Ok (), st)
                  | Some cleanPath \<Rightarrow> (Ok (), search_file w (SfSet f) cleanPath (gw_devices w) st))
           | _ \<Rightarrow> (Ok (), st)))"

section \<open>The other directives\<close>

definition grub_set :: "string \<Rightarrow> grub_parser \<Rightarrow> grub_parser" where
  "grub_set arg p =
     (case SplitN2 (CHR ''='') arg of
        [v, x] \<Rightarrow> if v = ''root'' then p else set_var v x p
      | _ \<Rightarrow> p)"

definition grub_menuentry :: "string \<Rightarrow> grub_parser \<Rightarrow> grub_parser" where
  "grub_menuentry arg p =
     (let n = FormatNat (gpNumEntry p) in
      p\<lparr>gpCurEntry := n, gpCurLabel := arg, gpNumEntry := gpNumEntry p + 1, gpLabelOrder := gpLabelOrder p @ [n, arg]\<rparr>)"

text \<open>A new image that the number and the label of the entry point to.\<close>

definition grub_linux :: "'k grub_world \<Rightarrow> string \<Rightarrow> string list \<Rightarrow> grub_parser \<Rightarrow> (url_error, unit) res \<times> grub_parser" where
  "grub_linux w arg rest p =
     (case grub_getFile w p arg of
        Ok k \<Rightarrow>
          (let ptr = length (gpLinuxImages p) in
           (Ok (), p\<lparr>gpLinuxImages := gpLinuxImages p @ [empty_linux\<lparr>LiName := gpCurLabel p, LiKernel := Some k, LiCmdline := cmdlineQuote rest\<rparr>],
              gpLinux := AList.update (gpCurLabel p) ptr (AList.update (gpCurEntry p) ptr (gpLinux p))\<rparr>))
      | Err e \<Rightarrow> (Err e, p)
      | Panic \<Rightarrow> (Panic, p))"

definition grub_initrd :: "'k grub_world \<Rightarrow> string \<Rightarrow> grub_parser \<Rightarrow> (url_error, unit) res \<times> grub_parser" where
  "grub_initrd w arg p =
     (case map_of (gpLinux p) (gpCurEntry p) of
        None \<Rightarrow> (Ok (), p)
      | Some ptr \<Rightarrow>
          (case grub_getFile w p arg of
             Ok i \<Rightarrow> (Ok (), p\<lparr>gpLinuxImages := (gpLinuxImages p)[ptr := (gpLinuxImages p ! ptr)\<lparr>LiInitrd := [i]\<rparr>]\<rparr>)
           | Err e \<Rightarrow> (Err e, p)
           | Panic \<Rightarrow> (Panic, p)))"

definition grub_multiboot :: "'k grub_world \<Rightarrow> string \<Rightarrow> string list \<Rightarrow> grub_parser \<Rightarrow> (url_error, unit) res \<times> grub_parser" where
  "grub_multiboot w arg rest p =
     (case grub_getFile w p arg of
        Ok k \<Rightarrow>
          (let ptr = length (gpMbImages p) in
           (Ok (), p\<lparr>gpMbImages := gpMbImages p @ [empty_multiboot\<lparr>MiName := gpCurLabel p, MiKernel := Some k, MiCmdline := cmdlineQuote rest\<rparr>],
              gpMb := AList.update (gpCurLabel p) ptr (AList.update (gpCurEntry p) ptr (gpMb p))\<rparr>))
      | Err e \<Rightarrow> (Err e, p)
      | Panic \<Rightarrow> (Panic, p))"

text \<open>\<open>--nounzip\<close> without a file panics.\<close>

definition grub_module :: "'k grub_world \<Rightarrow> string list \<Rightarrow> grub_parser \<Rightarrow> (url_error, unit) res \<times> grub_parser" where
  "grub_module w args p =
     (case map_of (gpMb p) (gpCurEntry p) of
        None \<Rightarrow> (Ok (), p)
      | Some ptr \<Rightarrow>
          let cmdline = (if hd args = ''--nounzip'' then tl args else args) in
          (case cmdline of
             [] \<Rightarrow> (Panic, p)
           | file # _ \<Rightarrow>
               (case grub_getFile w p file of
                  Ok m \<Rightarrow>
                    (Ok (), p\<lparr>gpMbImages := (gpMbImages p)[ptr := (gpMbImages p ! ptr)\<lparr>MiModules :=
                       MiModules (gpMbImages p ! ptr) @ [\<lparr>CmModule = m, CmCmdline = cmdlineQuote cmdline\<rparr>]\<rparr>]\<rparr>)
                | Err e \<Rightarrow> (Err e, p)
                | Panic \<Rightarrow> (Panic, p))))"

definition on_parser ::
    "(grub_parser \<Rightarrow> (url_error, unit) res \<times> grub_parser) \<Rightarrow> 'k grub_state \<Rightarrow> (url_error, unit) res \<times> 'k grub_state" where
  "on_parser f st = (case f (fst st) of (r, p) \<Rightarrow> (r, p, snd st))"

text \<open>All directives but \<open>configfile\<close>; \<open>args\<close> is not empty.\<close>

definition grub_directive ::
    "'k grub_world \<Rightarrow> string \<Rightarrow> string list \<Rightarrow> 'k grub_state \<Rightarrow> (url_error, unit) res \<times> 'k grub_state" where
  "grub_directive w directive args =
     (if directive = ''search.file'' then grub_search w (''--file'' # args)
      else if directive = ''search.fs_label'' then grub_search w (''--fs-label'' # args)
      else if directive = ''search.fs_uuid'' then grub_search w (''--fs-uuid'' # args)
      else if directive = ''search'' then grub_search w args
      else if directive = ''set'' then on_parser (\<lambda>p. (Ok (), grub_set (hd args) p))
      else if directive = ''menuentry'' then on_parser (\<lambda>p. (Ok (), grub_menuentry (hd args) p))
      else if directive \<in> {''linux'', ''linux16'', ''linuxefi'', ''$linux'', ''$linux16'', ''$linuxefi''}
        then on_parser (grub_linux w (hd args) (tl args))
      else if directive \<in> {''initrd'', ''initrd16'', ''initrdefi'', ''$initrd'', ''$initrd16'', ''$initrdefi''}
        then on_parser (grub_initrd w (hd args))
      else if directive \<in> {''multiboot'', ''$multiboot''} then on_parser (grub_multiboot w (hd args) (tl args))
      else if directive \<in> {''module'', ''$module''} then on_parser (grub_module w args)
      else (\<lambda>st. (Ok (), st)))"

text \<open>The words of a line: the directive, and its arguments.\<close>

definition grub_line :: "string \<Rightarrow> (string \<times> string list) option" where
  "grub_line line = (case Argv (hex_double line) of [] \<Rightarrow> None | d # args \<Rightarrow> Some (ToLower d, args))"

definition note_blscfg :: "string \<Rightarrow> 'k grub_state \<Rightarrow> 'k grub_state" where
  "note_blscfg d st = (if d = ''blscfg'' then ((fst st)\<lparr>gpBlscfg := True\<rparr>, snd st) else st)"

partial_function (option) grub_append :: "'k grub_world \<Rightarrow> string \<Rightarrow> 'k grub_state \<Rightarrow> (url_error, 'k grub_state) loop_result" where
  "grub_append w config st =
     for_loop (\<lambda>_. False)
       (\<lambda>line st.
          case grub_line line of
            None \<Rightarrow> Some (Ok (), st)
          | Some (d, args) \<Rightarrow>
              (let st1 = note_blscfg d st in
               if args = [] then Some (Ok (), st1)
               else if d = ''configfile'' then
                 (case grub_fetch w (fst st1) (hd args) of
                    Err e \<Rightarrow> Some (Err e, st1)
                  | Panic \<Rightarrow> Some (Panic, st1)
                  | Ok inc \<Rightarrow> grub_append w inc st1)
               else Some (grub_directive w d args st1)))
       (split_on lf config) st"

definition grub_appendFile :: "'k grub_world \<Rightarrow> string \<Rightarrow> 'k grub_state \<Rightarrow> (url_error, 'k grub_state) loop_result" where
  "grub_appendFile w url st =
     (case grub_fetch w (fst st) url of Ok c \<Rightarrow> grub_append w c st | Err e \<Rightarrow> Some (Err e, st) | Panic \<Rightarrow> Some (Panic, st))"

section \<open>The images\<close>

fun bls_of_mounts :: "bls_world \<Rightarrow> (string \<times> string) list \<Rightarrow> MountPoint list \<Rightarrow> (url_error, LinuxImage list) res" where
  "bls_of_mounts w vars [] = Ok []"
| "bls_of_mounts w vars (m # ms) =
     (case ScanBLSEntries w (MpPath m) (Some vars) of
        Panic \<Rightarrow> Panic
      | Ok imgs \<Rightarrow> rbind (bls_of_mounts w vars ms) (\<lambda>r. Ok (imgs @ r))
      | Err e \<Rightarrow> bls_of_mounts w vars ms)"

text \<open>No entry is an error, which the caller ignores: the list is then empty.\<close>

definition grubScanBLSEntries :: "bls_world \<Rightarrow> MountPoint list \<Rightarrow> (string \<times> string) list \<Rightarrow> (url_error, LinuxImage list) res" where
  "grubScanBLSEntries w ms vars = bls_of_mounts w vars ms"

text \<open>The pointers that are behind the labels, each where it is met first.\<close>

fun new_pointers :: "nat list \<Rightarrow> nat list \<Rightarrow> (string \<times> nat) list \<Rightarrow> (string \<times> nat) list \<Rightarrow> string list \<Rightarrow> (nat + nat) list" where
  "new_pointers seenLinux seenMb ls ms [] = []"
| "new_pointers seenLinux seenMb ls ms (l # rest) =
     (let a = (case map_of ls l of Some i \<Rightarrow> if i \<in> set seenLinux then [] else [i] | None \<Rightarrow> []);
          b = (case map_of ms l of Some i \<Rightarrow> if i \<in> set seenMb then [] else [i] | None \<Rightarrow> [])
      in map Inl a @ map Inr b @ new_pointers (a @ seenLinux) (b @ seenMb) ls ms rest)"

definition grub_labels :: "grub_parser \<Rightarrow> string list" where
  "grub_labels p = (case map_of (gpVariables p) ''default'' of Some d \<Rightarrow> d # gpLabelOrder p | None \<Rightarrow> gpLabelOrder p)"

definition deref :: "grub_parser \<Rightarrow> nat + nat \<Rightarrow> OSImage" where
  "deref p x = (case x of Inl i \<Rightarrow> OSLinux (gpLinuxImages p ! i) | Inr i \<Rightarrow> OSMultiboot (gpMbImages p ! i))"

definition label_list :: "grub_parser \<Rightarrow> OSImage list" where
  "label_list p = map (deref p) (new_pointers [] [] (gpLinux p) (gpMb p) (grub_labels p))"

definition grub_images :: "'k grub_world \<Rightarrow> 'k grub_state \<Rightarrow> (url_error, OSImage list) res" where
  "grub_images w st =
     (case st of (p, k) \<Rightarrow>
        rbind (if gpBlscfg p then grubScanBLSEntries (gw_bls w k) (MountPoints (gpPool p)) (gpVariables p) else Ok [])
          (\<lambda>bls. Ok (map OSLinux bls @ label_list p)))"

definition grub_ParseConfigFile ::
    "'k grub_world \<Rightarrow> string \<Rightarrow> url \<Rightarrow> Pool \<times> 'k \<Rightarrow> ((url_error, OSImage list) res \<times> Pool \<times> 'k) option" where
  "grub_ParseConfigFile w configFile root st =
     (case grub_appendFile w configFile (grub_newParser w root (fst st), snd st) of
        None \<Rightarrow> None
      | Some (r, p, k) \<Rightarrow>
          Some (case r of Ok u \<Rightarrow> grub_images w (p, k) | Err e \<Rightarrow> Err e | Panic \<Rightarrow> Panic, gpPool p, k))"

datatype grub_error = GrAbs | GrNoConfig | GrUrl url_error

fun grub_probe :: "'k grub_world \<Rightarrow> url \<Rightarrow> string list \<Rightarrow> Pool \<times> 'k \<Rightarrow> ((grub_error, OSImage list) res \<times> Pool \<times> 'k) option" where
  "grub_probe w root [] st = Some (Err GrNoConfig, st)"
| "grub_probe w root (relname # rs) st =
     (case grub_ParseConfigFile w relname root st of
        None \<Rightarrow> None
      | Some (Ok imgs, st') \<Rightarrow> Some (Ok imgs, st')
      | Some (Err e, st') \<Rightarrow> if IsURLError e then grub_probe w root rs st' else Some (Err (GrUrl e), st')
      | Some (Panic, st') \<Rightarrow> Some (Panic, st'))"

definition grub_ParseLocalConfig ::
    "'k grub_world \<Rightarrow> string \<Rightarrow> Pool \<times> 'k \<Rightarrow> ((grub_error, OSImage list) res \<times> Pool \<times> 'k) option" where
  "grub_ParseLocalConfig w diskDir st =
     (case absFileScheme (gw_cwd w) diskDir of
        None \<Rightarrow> Some (Err GrAbs, st)
      | Some root \<Rightarrow>
          grub_probe w root
            (concat (map (\<lambda>f. case Rel diskDir f of Some b \<Rightarrow> [b] | None \<Rightarrow> [])
               (gw_glob w (JoinN [diskDir, ''EFI'', ''*'', ''grub.cfg'']))) @ probeGrubFiles) st)"

section \<open>A menu is offered as it is written\<close>

text \<open>
  An entry as it is written: each word with the way it is quoted, the label in single quotes.
\<close>

record menu_entry =
  MeLabel :: string
  MeKernel :: "style \<times> string"
  MeArgs :: "(style \<times> string) list"
  MeInitrd :: "(style \<times> string) option"

definition me_words :: "menu_entry \<Rightarrow> (style \<times> string) list list" where
  "me_words e =
     [[(Plain, ''menuentry''), (Single, MeLabel e), (Plain, ''{'')],
      (Plain, ''linux'') # MeKernel e # MeArgs e] @
     (case MeInitrd e of Some i \<Rightarrow> [[(Plain, ''initrd''), i]] | None \<Rightarrow> []) @
     [[(Plain, ''}'')]]"

definition me_line :: "(style \<times> string) list \<Rightarrow> string" where
  "me_line ws = JoinWith [space] (map quoted ws)"

definition menu_text :: "menu_entry list \<Rightarrow> string" where
  "menu_text es = concat (map (\<lambda>l. l @ [lf]) (concat (map (\<lambda>e. map me_line (me_words e)) es)))"

definition menu_files :: "menu_entry \<Rightarrow> string list" where
  "menu_files e = snd (MeKernel e) # (case MeInitrd e of Some i \<Rightarrow> [snd i] | None \<Rightarrow> [])"

text \<open>No backslash is followed by an \<open>x\<close>: such text could be an escape, which the parser treats apart.\<close>

fun no_hex :: "string \<Rightarrow> bool" where
  "no_hex (a # b # s) = (\<not> (a = bsl \<and> b = CHR ''x'') \<and> no_hex (b # s))"
| "no_hex s = True"

definition word_ok :: "style \<times> string \<Rightarrow> bool" where
  "word_ok x \<longleftrightarrow> quotable x \<and> fst x \<noteq> Slashes \<and> (fst x = Double \<longrightarrow> set (snd x) \<inter> {dollar, dquote, bsl} = {}) \<and>
     ascii (snd x) \<and> lf \<notin> set (snd x) \<and> no_hex (snd x)"

definition menu_ok :: "menu_entry list \<Rightarrow> bool" where
  "menu_ok es \<longleftrightarrow> distinct (map MeLabel es) \<and>
     (\<forall>e \<in> set es. word_ok (Single, MeLabel e) \<and> (\<exists>c \<in> set (MeLabel e). \<not> digit c) \<and>
        (\<forall>x \<in> set ([MeKernel e] @ MeArgs e @ (case MeInitrd e of Some i \<Rightarrow> [i] | None \<Rightarrow> [])). word_ok x))"

text \<open>A word of the command line as GRUB gives it to the kernel: quotes and backslashes with a backslash in front, the whole in
  double quotes if it has a blank.\<close>

definition kernel_arg :: "string \<Rightarrow> string" where
  "kernel_arg w = (let e = concat (map (\<lambda>c. if c \<in> {bsl, squote, dquote} then [bsl, c] else [c]) w) in
     if space \<in> set w then [dquote] @ e @ [dquote] else e)"

definition menu_image :: "(string \<Rightarrow> string) \<Rightarrow> menu_entry \<Rightarrow> LinuxImage" where
  "menu_image url e =
     empty_linux\<lparr>LiName := MeLabel e, LiKernel := Some (url (snd (MeKernel e))),
       LiCmdline := JoinWith '' '' (map (\<lambda>x. kernel_arg (snd x)) (MeArgs e)),
       LiInitrd := (case MeInitrd e of Some i \<Rightarrow> [url (snd i)] | None \<Rightarrow> [])\<rparr>"

lemma no_hex_Cons: "no_hex (c # s) \<longleftrightarrow> \<not> (c = bsl \<and> s \<noteq> [] \<and> hd s = CHR ''x'') \<and> no_hex s"
  by (cases s) auto

lemma no_hex_append:
  "no_hex (a @ b) \<longleftrightarrow> no_hex a \<and> no_hex b \<and> \<not> (a \<noteq> [] \<and> last a = bsl \<and> b \<noteq> [] \<and> hd b = CHR ''x'')"
proof (induction a)
  case (Cons c a)
  then show ?case by (cases a) (auto simp: no_hex_Cons)
qed simp

lemma no_hex_plain: "bsl \<notin> set s \<Longrightarrow> no_hex s"
  by (induction s rule: no_hex.induct) auto

lemma no_hexEscape: "no_hex s \<Longrightarrow> \<not> has_hexEscape s"
proof (induction s)
  case (Cons c s)
  have "\<not> at_hexEscape (c # s)"
  proof (cases s)
    case s: (Cons d r)
    have "\<not> (c = bsl \<and> d = CHR ''x'')" using Cons.prems by (simp add: s)
    then show ?thesis by (auto simp: at_hexEscape_def s split: list.split)
  qed (simp add: at_hexEscape_def)
  then show ?case using Cons by (simp add: no_hex_Cons)
qed simp

lemma hex_double_plain: "no_hex s \<Longrightarrow> hex_double s = s"
proof (induction s rule: hex_double.induct)
  case (2 c s)
  have "\<not> at_hexEscape (c # s)" using no_hexEscape [OF 2(3)] by simp
  then show ?case using 2 by (simp add: no_hex_Cons)
qed simp

lemma no_hex_take: "no_hex s \<Longrightarrow> no_hex (take n s) \<and> no_hex (drop n s)"
  using no_hex_append [of "take n s" "drop n s"] by simp

lemma double_backslashes_append: "double_backslashes (a @ b) = double_backslashes a @ double_backslashes b"
  by (simp add: double_backslashes_def)

lemma of_char_bsl: "(of_char c :: nat) = 0x5C \<longleftrightarrow> c = bsl"
proof -
  have "(of_char bsl :: nat) = 0x5C" by (simp add: bsl_def)
  then show ?thesis by (metis of_char_eq_iff)
qed

lemma escape_runes_doubled:
  assumes "no_hex s" "lf \<notin> set s"
  shows "escape_runes (map (\<lambda>c. (of_char c, [c])) s) = double_backslashes s"
  using assms
proof (induction s rule: length_induct)
  case (1 s)
  show ?case
  proof (cases s)
    case (Cons c r)
    let ?f = "\<lambda>c. (of_char c :: nat, [c])"
    have nl: "(of_char x :: nat) \<noteq> 10" if "x \<in> set r" for x
    proof
      assume "(of_char x :: nat) = 10"
      then have "(of_char x :: nat) = of_char lf" by (simp add: lf_def)
      then show False using that 1(3) Cons by simp
    qed
    have tw: "takeWhile (\<lambda>(x, _). x \<noteq> 10) (map ?f r) = map ?f r" using nl by (intro takeWhile_eq_all_conv [THEN iffD2]) auto
    have cs: "concat (map snd (map ?f x)) = x" for x by (induction x) simp_all
    show ?thesis
    proof (cases "c = bsl")
      case True
      let ?m = "take 3 r"
      have m: "?m @ drop (length ?m) r = r" by (cases "length r \<le> 3") simp_all
      have nh: "no_hex (c # ?m)" using no_hex_take [OF 1(2), of 4] Cons by simp
      have IH: "escape_runes (map ?f (drop (length ?m) r)) = double_backslashes (drop (length ?m) r)"
        by (rule 1(1) [rule_format]) (use 1(2,3) Cons no_hex_take [of r "length ?m"] in \<open>auto simp: no_hex_Cons dest: in_set_dropD\<close>)
      have "escape_runes (map ?f s) = double_backslashes (c # ?m) @ escape_runes (drop (length ?m) (map ?f r))"
        using no_hexEscape [OF nh] cs [of ?m] by (simp add: Cons True of_char_bsl [THEN iffD2] Let_def tw take_map)
      also have "\<dots> = double_backslashes (c # ?m) @ double_backslashes (drop (length ?m) r)" by (simp only: drop_map IH)
      also have "\<dots> = double_backslashes s"
        using double_backslashes_append [of "c # ?m" "drop (length ?m) r"] by (simp only: append_Cons m Cons)
      finally show ?thesis .
    next
      case False
      then show ?thesis using 1 Cons by (simp add: of_char_bsl no_hex_Cons double_backslashes_def)
    qed
  qed (simp add: double_backslashes_def)
qed

text \<open>The quoting of the code is that of GRUB.\<close>

lemma quote_arg_shown:
  assumes "ascii s" "no_hex s" "lf \<notin> set s"
  shows "quote_arg s = kernel_arg s"
proof -
  let ?e = "concat (map (\<lambda>c. if c \<in> {bsl, squote, dquote} then [bsl, c] else [c]) s)"
  have "escape_char dquote (escape_char squote (double_backslashes s)) = ?e"
    unfolding escape_char_def double_backslashes_def by (induction s) simp_all
  moreover have "space \<in> set ?e \<longleftrightarrow> space \<in> set s" by (auto split: if_splits)
  ultimately show ?thesis
    using escape_runes_doubled [OF assms(2,3)] assms(1) by (simp only: quote_arg_def kernel_arg_def Let_def runes_ascii)
qed

lemma cmdlineQuote_shown:
  "\<forall>x \<in> set xs. word_ok x \<Longrightarrow> cmdlineQuote (map snd xs) = JoinWith '' '' (map (\<lambda>x. kernel_arg (snd x)) xs)"
  using quote_arg_shown by (simp add: cmdlineQuote_def word_ok_def comp_def cong: map_cong)

lemma set_JoinWith: "set (JoinWith sep ws) \<subseteq> set sep \<union> \<Union> (set ` set ws)"
  by (induction ws rule: JoinWith.induct) auto

text \<open>The words of the lines are read back.\<close>

lemma word_ok_text:
  assumes "word_ok x"
  shows "quoted x \<noteq> []" "lf \<notin> set (quoted x)" "last (quoted x) \<noteq> bsl" "no_hex (quoted x)"
proof -
  obtain s w where x: "x = (s, w)" by fastforce
  have ok: "quotable (s, w)" "w \<noteq> []" "s \<noteq> Slashes" "lf \<notin> set w" "no_hex w" using assms by (auto simp: word_ok_def x)
  have lf: "lf \<noteq> squote" "lf \<noteq> dquote" by (simp_all add: lf_def squote_def dquote_def)
  have xq: "squote \<noteq> CHR ''x''" "dquote \<noteq> CHR ''x''" by (simp_all add: squote_def dquote_def)
  have dq: "concat (map dq_char w) = w" if "s = Double"
  proof -
    have "\<forall>c \<in> set w. dq_char c = [c]" using assms that by (auto simp: word_ok_def x dq_char_def)
    then show ?thesis by (induction w) simp_all
  qed
  have pl: "bsl \<notin> set w" if "s = Plain" using ok(1) that by auto
  consider "bsl \<notin> set w" "quoted x = w" | q where "q \<in> {squote, dquote}" "quoted x = q # w @ [q]"
    using ok(3) dq pl by (cases s) (simp_all add: x)
  then have "quoted x \<noteq> [] \<and> lf \<notin> set (quoted x) \<and> last (quoted x) \<noteq> bsl \<and> no_hex (quoted x)"
  proof cases
    case 1
    then have "last w \<noteq> bsl" using last_in_set [OF ok(2)] by metis
    with 1 ok show ?thesis by simp
  next
    case (2 q)
    then have "q \<noteq> lf" "q \<noteq> bsl" "q \<noteq> CHR ''x''" using lf xq by (auto simp: bsl_def squote_def dquote_def)
    with 2 ok show ?thesis by (simp add: no_hex_append no_hex_Cons)
  qed
  then show "quoted x \<noteq> []" "lf \<notin> set (quoted x)" "last (quoted x) \<noteq> bsl" "no_hex (quoted x)" by simp_all
qed

lemma no_hex_join: "\<forall>s \<in> set ss. no_hex s \<and> s \<noteq> [] \<and> last s \<noteq> bsl \<Longrightarrow> no_hex (JoinWith [space] ss)"
proof (induction "[space]" ss rule: JoinWith.induct)
  case (3 s s' ss)
  then show ?case by (simp add: no_hex_append no_hex_Cons)
qed simp_all

lemma me_words_ok:
  assumes "menu_ok es" "e \<in> set es" "ws \<in> set (me_words e)"
  shows "\<forall>x \<in> set ws. quotable x" "no_hex (me_line ws)" "lf \<notin> set (me_line ws)"
proof -
  have k: "word_ok (Plain, ''menuentry'')" "word_ok (Plain, ''linux'')" "word_ok (Plain, ''initrd'')" "word_ok (Plain, ''{'')" "word_ok (Plain, ''}'')"
    unfolding word_ok_def ascii_def by (intro conjI; code_simp)+
  have ok: "word_ok x" if "x \<in> set ws" for x
    using assms that k by (auto simp: menu_ok_def me_words_def split: option.splits)
  then show "\<forall>x \<in> set ws. quotable x" by (simp add: word_ok_def)
  have "no_hex s \<and> s \<noteq> [] \<and> last s \<noteq> bsl \<and> lf \<notin> set s" if "s \<in> set (map quoted ws)" for s
    using that word_ok_text ok by auto
  then show "no_hex (me_line ws)" "lf \<notin> set (me_line ws)"
    using no_hex_join [of "map quoted ws"] set_JoinWith [of "[space]" "map quoted ws"]
    by (auto simp: me_line_def space_def lf_def)
qed

lemma grub_line_me:
  assumes "menu_ok es" "e \<in> set es" "ws \<in> set (me_words e)"
  shows "grub_line (me_line ws) = (case map snd ws of [] \<Rightarrow> None | d # args \<Rightarrow> Some (ToLower d, args))"
  using Argv_words [OF me_words_ok(1) [OF assms], folded me_line_def]
  by (simp add: grub_line_def hex_double_plain [OF me_words_ok(2) [OF assms]])

lemma lower_words: "ToLower ''menuentry'' = ''menuentry''" "ToLower ''linux'' = ''linux''" "ToLower ''initrd'' = ''initrd''" "ToLower ''}'' = ''}''"
  by (simp_all add: ToLower_def runes_ascii ascii_def lower_ascii_def)

lemma getFile_vars: "gpVariables p = gpVariables q \<Longrightarrow> grub_getFile w p f = grub_getFile w q f"
  by (simp add: grub_getFile_def grub_root_def)

text \<open>The parser after the first \<open>j\<close> entries of a menu.\<close>

definition menu_inv :: "(string \<Rightarrow> string) \<Rightarrow> grub_parser \<Rightarrow> menu_entry list \<Rightarrow> nat \<Rightarrow> grub_parser \<Rightarrow> bool" where
  "menu_inv url p0 es j p \<longleftrightarrow>
     gpNumEntry p = j \<and> gpLabelOrder p = concat (map (\<lambda>i. [FormatNat i, MeLabel (es ! i)]) [0..<j]) \<and>
     gpLinuxImages p = map (menu_image url) (take j es) \<and>
     (\<forall>i < j. map_of (gpLinux p) (FormatNat i) = Some i \<and> map_of (gpLinux p) (MeLabel (es ! i)) = Some i) \<and>
     gpMb p = [] \<and> gpVariables p = gpVariables p0 \<and> gpPool p = gpPool p0 \<and> \<not> gpBlscfg p"

definition grub_body ::
    "'k grub_world \<Rightarrow> (string \<Rightarrow> 'k grub_state \<Rightarrow> (url_error, 'k grub_state) loop_result) \<Rightarrow> string \<Rightarrow> 'k grub_state \<Rightarrow>
     (url_error, 'k grub_state) loop_result" where
  "grub_body w rec line st =
     (case grub_line line of
        None \<Rightarrow> Some (Ok (), st)
      | Some (d, args) \<Rightarrow>
          (let st1 = note_blscfg d st in
           if args = [] then Some (Ok (), st1)
           else if d = ''configfile'' then
             (case grub_fetch w (fst st1) (hd args) of
                Err e \<Rightarrow> Some (Err e, st1)
              | Panic \<Rightarrow> Some (Panic, st1)
              | Ok inc \<Rightarrow> rec inc st1)
           else Some (grub_directive w d args st1)))"

lemma grub_append_body: "grub_append w config st = for_loop (\<lambda>_. False) (grub_body w (grub_append w)) (split_on lf config) st"
  by (subst grub_append.simps) (simp add: grub_body_def [abs_def])

lemma menu_step:
  assumes m: "menu_ok es" and j: "j < length es" and inv: "menu_inv url p0 es j p"
    and files: "\<forall>e \<in> set es. \<forall>f \<in> set (menu_files e). grub_getFile w p0 f = Ok (url f)"
  shows "\<exists>p'. menu_inv url p0 es (Suc j) p' \<and>
    for_loop (\<lambda>_. False) (grub_body w rec) (map me_line (me_words (es ! j)) @ rest) (p, k) =
    for_loop (\<lambda>_. False) (grub_body w rec) rest (p', k)"
proof -
  let ?e = "es ! j" and ?n = "FormatNat j"
  have e: "?e \<in> set es" using j by simp
  note line = grub_line_me [OF m e]
  have vars: "grub_getFile w q f = Ok (url f)" if "gpVariables q = gpVariables p" "f \<in> set (menu_files ?e)" for q f
    using files e that inv getFile_vars [of q p0 w f] by (auto simp: menu_inv_def)
  have w: "\<forall>x \<in> set (MeArgs ?e). word_ok x" using m e by (auto simp: menu_ok_def)
  have lab: "MeLabel ?e \<noteq> FormatNat i" for i
    using m e FormatNat_all_digits by (fastforce simp: menu_ok_def)
  let ?p1 = "grub_menuentry (MeLabel ?e) p"
  have b1: "grub_body w rec (me_line [(Plain, ''menuentry''), (Single, MeLabel ?e), (Plain, ''{'')]) (p, k) = Some (Ok (), ?p1, k)"
    by (subst grub_body_def, subst line)
       (simp_all add: me_words_def lower_words note_blscfg_def grub_directive_def on_parser_def)
  let ?img = "empty_linux\<lparr>LiName := MeLabel ?e, LiKernel := Some (url (snd (MeKernel ?e))),
      LiCmdline := JoinWith '' '' (map (\<lambda>x. kernel_arg (snd x)) (MeArgs ?e))\<rparr>"
  let ?L = "AList.update (MeLabel ?e) j (AList.update ?n j (gpLinux p))"
  let ?p2 = "?p1\<lparr>gpLinuxImages := gpLinuxImages p @ [?img], gpLinux := ?L\<rparr>"
  have mn: "min (length es) j = j" using j by simp
  have len: "length (gpLinuxImages p) = j" using inv j by (simp add: menu_inv_def)
  have k1: "grub_getFile w ?p1 (snd (MeKernel ?e)) = Ok (url (snd (MeKernel ?e)))"
    by (rule vars) (simp_all add: grub_menuentry_def Let_def menu_files_def)
  have b2: "grub_body w rec (me_line ((Plain, ''linux'') # MeKernel ?e # MeArgs ?e)) (?p1, k) = Some (Ok (), ?p2, k)"
    by (subst grub_body_def, subst line)
       (simp_all add: me_words_def lower_words note_blscfg_def grub_directive_def on_parser_def grub_linux_def k1 comp_def
         cmdlineQuote_shown [OF w] Let_def len, simp add: grub_menuentry_def Let_def len mn inv [unfolded menu_inv_def])
  let ?p3 = "?p2\<lparr>gpLinuxImages := gpLinuxImages p @ [menu_image url ?e]\<rparr>"
  have b4: "grub_body w rec (me_line [(Plain, ''}'')]) (q, k) = Some (Ok (), q, k)" for q
    by (subst grub_body_def, subst line) (simp_all add: me_words_def lower_words note_blscfg_def)
  have b: "for_loop (\<lambda>_. False) (grub_body w rec) (map me_line (me_words ?e) @ rest) (p, k) =
      for_loop (\<lambda>_. False) (grub_body w rec) rest (?p3, k)"
  proof (cases "MeInitrd ?e")
    case None
    then have "?p3 = ?p2" by (simp add: menu_image_def empty_linux_def)
    then show ?thesis using None b1 b2 b4 by (simp add: me_words_def)
  next
    case (Some i)
    have k2: "grub_getFile w ?p2 (snd i) = Ok (url (snd i))"
      by (rule vars) (simp_all add: grub_menuentry_def Let_def menu_files_def Some)
    have "grub_body w rec (me_line [(Plain, ''initrd''), i]) (?p2, k) = Some (Ok (), ?p3, k)"
      by (subst grub_body_def, subst line)
         (simp_all add: me_words_def Some lower_words note_blscfg_def grub_directive_def on_parser_def grub_initrd_def k2 Let_def
           update_conv, simp add: grub_menuentry_def Let_def mn inv [unfolded menu_inv_def] menu_image_def Some lab [THEN not_sym]
           list_update_append nth_append)
    then show ?thesis using Some b1 b2 b4 by (simp add: me_words_def)
  qed
  have "menu_inv url p0 es (Suc j) ?p3"
  proof -
    have "map_of ?L (FormatNat i) = Some i \<and> map_of ?L (MeLabel (es ! i)) = Some i" if "i < Suc j" for i
    proof (cases "i = j")
      case False
      then have i: "i < j" "i < length es" using that j by simp_all
      have "MeLabel (es ! i) \<noteq> MeLabel ?e"
        using m i(2) j False nth_eq_iff_index_eq [of "map MeLabel es" i j] by (simp add: menu_ok_def)
      moreover have "MeLabel (es ! i) \<noteq> ?n"
        using m i(2) FormatNat_all_digits by (fastforce simp: menu_ok_def dest: nth_mem)
      moreover have "FormatNat i \<noteq> ?n" using False FormatNat_inj by blast
      ultimately show ?thesis using inv i(1) lab [of i] by (auto simp: menu_inv_def update_conv)
    qed (simp add: update_conv)
    then show ?thesis using inv j by (simp add: menu_inv_def grub_menuentry_def Let_def take_Suc_conv_app_nth)
  qed
  with b show ?thesis by blast
qed

lemma menu_run:
  assumes m: "menu_ok es" and inv: "menu_inv url p0 es j p" and j: "j \<le> length es"
    and files: "\<forall>e \<in> set es. \<forall>f \<in> set (menu_files e). grub_getFile w p0 f = Ok (url f)"
  shows "\<exists>p'. menu_inv url p0 es (length es) p' \<and>
    for_loop (\<lambda>_. False) (grub_body w rec) (concat (map (\<lambda>e. map me_line (me_words e)) (drop j es)) @ rest) (p, k) =
    for_loop (\<lambda>_. False) (grub_body w rec) rest (p', k)"
  using inv j
proof (induction "length es - j" arbitrary: j p)
  case (Suc n)
  then have l: "j < length es" by simp
  obtain p1 where p1: "menu_inv url p0 es (Suc j) p1"
    "for_loop (\<lambda>_. False) (grub_body w rec)
       (map me_line (me_words (es ! j)) @ concat (map (\<lambda>e. map me_line (me_words e)) (drop (Suc j) es)) @ rest) (p, k) =
     for_loop (\<lambda>_. False) (grub_body w rec) (concat (map (\<lambda>e. map me_line (me_words e)) (drop (Suc j) es)) @ rest) (p1, k)"
    using menu_step [OF m l Suc.prems(1) files] by blast
  have "drop j es = es ! j # drop (Suc j) es" using l by (simp add: Cons_nth_drop_Suc)
  then show ?case using p1 Suc.hyps(1) [of "Suc j" p1] Suc.hyps(2) l by simp
qed auto

lemma new_pointers_menu:
  assumes "\<forall>i \<in> set is. map_of ls (FormatNat i) = Some i \<and> map_of ls (lab i) = Some i" "distinct is" "set seen \<inter> set is = {}"
  shows "new_pointers seen [] ls [] (concat (map (\<lambda>i. [FormatNat i, lab i]) is)) = map Inl is"
  using assms
proof (induction "is" arbitrary: seen)
  case (Cons i "is")
  then show ?case using Cons.IH [of "i # seen"] by simp
qed simp

text \<open>C37: a menu of Linux entries in GRUB's syntax, the labels in single quotes and the other words plain or in single or double quotes, is offered
  entry by entry in its order, each with its label, kernel, initrd and command line, and each once; in the command line every
  word is quoted again as GRUB does it: a backslash before quotes and backslashes, double quotes around a word with a
  blank. The labels are distinct and no numbers (\<open>numeric_label_reorders\<close>), the words are ASCII of one line, no
  backslash has an \<open>x\<close> behind it (\<open>hex_escape_in_quotes\<close>), and a word in double quotes has no dollar, double quote or
  backslash. The URL of every kernel and initrd is taken as the files parameter gives it.\<close>

theorem grub_menu_offered:
  assumes "menu_ok es" "grub_fetch w (grub_newParser w root pool) file = Ok (menu_text es)"
    and "\<forall>e \<in> set es. \<forall>f \<in> set (menu_files e). grub_getFile w (grub_newParser w root pool) f = Ok (url f)"
  shows "grub_ParseConfigFile w file root (pool, k) = Some (Ok (map (OSLinux \<circ> menu_image url) es), pool, k)"
proof -
  let ?p0 = "grub_newParser w root pool" and ?ls = "concat (map (\<lambda>e. map me_line (me_words e)) es)"
  have "lf \<notin> set l" if "l \<in> set ?ls" for l using that me_words_ok(3) [OF assms(1)] by auto
  then have sp: "split_on lf (menu_text es) = ?ls @ [[]]"
    using split_on_unlines [of ?ls "[]"] by (simp add: menu_text_def split_on_no_sep)
  have i0: "menu_inv url ?p0 es 0 ?p0" by (simp add: menu_inv_def grub_newParser_def)
  obtain p where p: "menu_inv url ?p0 es (length es) p"
    "for_loop (\<lambda>_. False) (grub_body w (grub_append w)) (?ls @ [[]]) (?p0, k) =
     for_loop (\<lambda>_. False) (grub_body w (grub_append w)) [[]] (p, k)"
    using menu_run [OF assms(1) i0 _ assms(3), of "grub_append w" "[[]]" k] by auto
  have "grub_line [] = None" by (simp add: grub_line_def Argv_def argv_start_def)
  then have a: "grub_appendFile w file (?p0, k) = Some (Ok (), p, k)"
    using p(2) by (simp add: grub_appendFile_def assms(2) grub_append_body sp) (simp add: grub_body_def)
  have q: "gpLabelOrder p = concat (map (\<lambda>i. [FormatNat i, MeLabel (es ! i)]) [0..<length es])" "gpMb p = []"
    "gpLinuxImages p = map (menu_image url) es" "gpPool p = pool" "\<not> gpBlscfg p" "gpVariables p = gpVariables ?p0"
    "\<forall>i \<in> set [0..<length es]. map_of (gpLinux p) (FormatNat i) = Some i \<and> map_of (gpLinux p) (MeLabel (es ! i)) = Some i"
    using p(1) by (simp_all add: menu_inv_def) (simp add: grub_newParser_def)
  have "grub_labels p = gpLabelOrder p" using q(6) by (simp add: grub_labels_def grub_newParser_def)
  then have "label_list p = map (OSLinux \<circ> menu_image url) es"
    using new_pointers_menu [OF q(7), of "[]"] q(1-3)
    by (simp add: label_list_def deref_def comp_def) (rule nth_equalityI; simp)
  then show ?thesis using q(4,5) by (simp add: grub_ParseConfigFile_def a grub_images_def)
qed

text \<open>A menu of two entries below \<open>/mnt\<close>.\<close>

definition ex_menu :: "menu_entry list" where
  "ex_menu =
     [\<lparr>MeLabel = ''Debian, old'', MeKernel = (Plain, ''/vmlinuz''), MeArgs = [(Plain, ''ro''), (Double, ''a b''), (Single, [dquote, bsl])],
       MeInitrd = Some (Double, ''/initrd'')\<rparr>,
      \<lparr>MeLabel = ''Test'', MeKernel = (Single, ''/test''), MeArgs = [], MeInitrd = None\<rparr>]"

definition ex_grub :: "nat grub_world" where
  "ex_grub =
     \<lparr>gw_url = \<lparr>uw_parse = (\<lambda>s. Some (if take 7 s = ''file://'' then \<lparr>UScheme = ''file'', UHost = [], UPath = drop 7 s, URest = []\<rparr>
                                        else \<lparr>UScheme = [], UHost = [], UPath = s, URest = []\<rparr>)),
                uw_string = (\<lambda>u. UScheme u @ ''://'' @ UHost u @ UPath u), uw_schemes = (\<lambda>s. s = ''file''),
                uw_fetch = (\<lambda>u. Ok (menu_text ex_menu))\<rparr>,
      gw_sys = ex_sys, gw_blk = ex_disk, gw_devices = [], gw_cwd = None, gw_exists = (\<lambda>k p. False), gw_flags = (\<lambda>a. None),
      gw_bls = (\<lambda>k. ex_bls), gw_glob = (\<lambda>g. [])\<rparr>"

definition ex_grub_root :: url where
  "ex_grub_root = \<lparr>UScheme = ''file'', UHost = [], UPath = ''/mnt'', URest = []\<rparr>"

lemma ex_grub_file:
  "f \<in> {''/vmlinuz'', ''/initrd'', ''/test'', ''grub.cfg''} \<Longrightarrow> Join ''/mnt'' (Clean f) = ''/mnt/'' @ (if f = ''grub.cfg'' then f else tl f)"
  by (elim insertE emptyE; simp; code_simp)

theorem grub_menu_offered_witness:
  "\<exists>imgs. grub_ParseConfigFile ex_grub ''grub.cfg'' ex_grub_root (\<lparr>MountPoints = [], PoolTmp = []\<rparr>, 0) =
     Some (Ok imgs, \<lparr>MountPoints = [], PoolTmp = []\<rparr>, 0) \<and> length imgs = 2 \<and>
     hd imgs = OSLinux (empty_linux\<lparr>LiName := ''Debian, old'', LiKernel := Some ''file:///mnt/vmlinuz'', 
       LiCmdline := ''ro '' @ [dquote] @ ''a b'' @ [dquote] @ '' '' @ [bsl, dquote, bsl, bsl], LiInitrd := [''file:///mnt/initrd'']\<rparr>)"
proof -
  let ?pool = "\<lparr>MountPoints = [], PoolTmp = []\<rparr>"
  let ?p0 = "grub_newParser ex_grub ex_grub_root ?pool"
  have root: "grub_root ?p0 = ''file:///mnt''" by (simp add: grub_root_def grub_newParser_def ex_grub_def ex_grub_root_def)
  have w: "word_ok x" if "x \<in> {(Plain, ''/vmlinuz''), (Double, ''/initrd''), (Single, ''/test''), (Plain, ''ro''), (Double, ''a b''),
      (Single, [dquote, bsl]), (Single, ''Debian, old''), (Single, ''Test'')}" for x
    unfolding word_ok_def ascii_def using that by (elim insertE emptyE; simp only:; intro conjI; code_simp)
  then have ok: "menu_ok ex_menu" by (simp add: menu_ok_def ex_menu_def digit_def)
  have fetch: "grub_fetch ex_grub ?p0 ''grub.cfg'' = Ok (menu_text ex_menu)"
    using ex_grub_file [of "''grub.cfg''"] by (simp add: grub_fetch_def root) (simp add: grub_parseURL_def ex_grub_def FetchAll_def)
  have args: "kernel_arg ''ro'' = ''ro''" "kernel_arg ''a b'' = [dquote] @ ''a b'' @ [dquote]"
    "kernel_arg [dquote, bsl] = [bsl, dquote, bsl, bsl]"
    by code_simp+
  have "\<forall>e \<in> set ex_menu. \<forall>f \<in> set (menu_files e). grub_getFile ex_grub ?p0 f = Ok (''file:///mnt'' @ f)"
  proof (intro ballI)
    fix e f
    assume "e \<in> set ex_menu" "f \<in> set (menu_files e)"
    then have f: "f \<in> {''/vmlinuz'', ''/initrd'', ''/test''}" by (auto simp: ex_menu_def menu_files_def)
    then show "grub_getFile ex_grub ?p0 f = Ok (''file:///mnt'' @ f)"
      using ex_grub_file [of f] by (simp add: grub_getFile_def root) (auto simp: grub_parseURL_def ex_grub_def LazyFetch_def)
  qed
  from grub_menu_offered [OF ok fetch this, of 0] show ?thesis
    by (simp add: ex_menu_def menu_image_def args)
qed

section \<open>What goes wrong\<close>

text \<open>An escape \<open>\x41\<close> between quotes keeps the backslashes that were added for it.\<close>

lemma hex_escape_in_quotes:
  "grub_line (''linux k '' @ [squote, bsl] @ ''x41'' @ [squote]) = Some (''linux'', [''k'', [bsl, bsl, bsl] @ ''x41''])"
  "grub_line (''linux k '' @ [dquote, bsl] @ ''x41'' @ [dquote]) = Some (''linux'', [''k'', [bsl, bsl] @ ''x41''])"
  "grub_line (''linux k '' @ [bsl] @ ''x41'') = Some (''linux'', [''k'', [bsl] @ ''x41''])"
  by (code_simp, code_simp, code_simp)

lemma nounzip_alone_panics:
  "map_of (gpMb p) (gpCurEntry p) = Some i \<Longrightarrow> grub_module w [''--nounzip''] p = (Panic, p)"
  by (simp add: grub_module_def)

text \<open>A configuration that reads itself with \<open>configfile\<close> is read forever.\<close>

lemma configfile_cycle_diverges:
  assumes "split_on lf config = l # ls" "grub_line l = Some (''configfile'', [x])" "\<And>q. grub_fetch w q x = Ok config"
  shows "grub_append w config st = None"
proof (rule ccontr)
  assume "grub_append w config st \<noteq> None"
  then obtain y where y: "grub_append w config st = Some y" by blast
  have "\<not> (w = w \<and> config = config)"
  proof (rule grub_append.raw_induct [OF _ y, where P = "\<lambda>w' c' q y. \<not> (w' = w \<and> c' = config)"], goal_cases)
    case (1 f w' c' q y)
    show ?case
    proof
      assume e: "w' = w \<and> c' = config"
      then have "f w config (note_blscfg ''configfile'' q) = None"
        using 1(1) [of w config "note_blscfg ''configfile'' q"] by (cases "f w config (note_blscfg ''configfile'' q)") auto
      with 1(2) e assms show False by (simp add: Let_def)
    qed
  qed
  then show False by simp
qed

text \<open>An entry whose label is the number of an earlier one is offered in its place.\<close>

lemma numeric_label_reorders:
  "new_pointers [] [] (AList.update ''0'' 1 (AList.update ''1'' 1 [(''0'', 0), (''a'', 0)])) [] [''0'', ''a'', ''1'', ''0''] = [Inl 1, Inl 0]"
  by simp

end
