(* ===== verification/LocalBoot.thy ===== *)
theory LocalBoot imports Menu GrubCfg Syslinux Cmdline "HOL-Library.Multiset" begin

text \<open>
  \<open>pkg/boot/localboot/localboot.go\<close>, the part of \<open>pkg/boot/esxi/esxi.go\<close> that mounts partitions, and the command
  \<open>cmds/boot/boot\<close>: block devices are searched for configurations of boot loaders, the images are sorted by rank, their command
  lines are filtered, and the menu is shown. Mounting, files and the parsers' parameters depend on the state of the system; logs are left
  out. \<open>None\<close> stands for a parser that does not return.
\<close>

record 'k local_world =
  lw_sys :: "'k mount_sys"
  lw_RemoveAll :: "string \<Rightarrow> 'k \<Rightarrow> 'k"
  lw_esxi :: "'k \<Rightarrow> esxi_world"
  lw_bls :: "'k \<Rightarrow> bls_world"
  lw_grub :: "'k \<Rightarrow> 'k grub_world"
  lw_url :: "'k \<Rightarrow> url_world"
  lw_blk :: blk_world

section \<open>ESXi: mounting the banks and the CD\<close>

datatype local_error = LcPartition esxi_error | LcTmp | LcMount mount_error | LcConfig string esxi_error | LcImages esxi_error

text \<open>What \<open>mountPartition\<close> and \<open>LoadCDROM\<close> do when a configuration cannot be used.\<close>

definition undo_mount :: "'k local_world \<Rightarrow> MountPoint \<Rightarrow> string \<Rightarrow> 'k \<Rightarrow> 'k" where
  "undo_mount w mp mountPoint k = lw_RemoveAll w mountPoint (snd (MountPoint_Unmount (lw_sys w) mp MNT_DETACH k))"

text \<open>The steps the two functions share: a temporary directory, the mount and the parser.\<close>

definition mount_config ::
    "'k local_world \<Rightarrow> string \<Rightarrow> string \<Rightarrow> string \<Rightarrow> 'k \<Rightarrow> (local_error, esxi_options \<times> string \<times> MountPoint) res \<times> 'k" where
  "mount_config w dev prefix fsType k =
     (case sys_MkdirTemp (lw_sys w) prefix k of
        (None, k1) \<Rightarrow> (Err LcTmp, k1)
      | (Some mountPoint, k1) \<Rightarrow>
          (case sys_Mount (lw_sys w) dev mountPoint fsType [] (MS_RDONLY OR MS_NOATIME) [] k1 of
             (Err e, k2) \<Rightarrow> (Err (LcMount e), lw_RemoveAll w mountPoint k2)
           | (Panic, k2) \<Rightarrow> (Panic, k2)
           | (Ok mp, k2) \<Rightarrow>
               (let configFile = Join mountPoint ''boot.cfg'' in
                case esxi_parse (lw_esxi w k2) configFile of
                  Ok opts \<Rightarrow> (Ok (opts, mountPoint, mp), k2)
                | Err e \<Rightarrow> (Err (LcConfig configFile e), undo_mount w mp mountPoint k2)
                | Panic \<Rightarrow> (Panic, k2))))"

definition mountPartition :: "'k local_world \<Rightarrow> string \<Rightarrow> nat \<Rightarrow> 'k \<Rightarrow> (local_error, esxi_options \<times> MountPoint) res \<times> 'k" where
  "mountPartition w parentdev part k =
     (case partNo (lw_esxi w k) parentdev part of
        Err e \<Rightarrow> (Err (LcPartition e), k)
      | Panic \<Rightarrow> (Panic, k)
      | Ok dev \<Rightarrow>
          (case mount_config w dev (Base dev @ ''-'') ''vfat'' k of
             (Ok (opts, dir, mp), k') \<Rightarrow> (Ok (opts, mp), k') | (Err e, k') \<Rightarrow> (Err e, k') | (Panic, k') \<Rightarrow> (Panic, k')))"

fun unmount_quietly :: "'k local_world \<Rightarrow> MountPoint list \<Rightarrow> 'k \<Rightarrow> 'k" where
  "unmount_quietly w [] k = k"
| "unmount_quietly w (mp # mps) k = unmount_quietly w mps (snd (MountPoint_Unmount (lw_sys w) mp MNT_DETACH k))"

definition ok_of :: "('e, 'a) res \<Rightarrow> 'a option" where
  "ok_of r = (case r of Ok x \<Rightarrow> Some x | _ \<Rightarrow> None)"

definition LoadDisk :: "'k local_world \<Rightarrow> string \<Rightarrow> 'k \<Rightarrow> (local_error, MultibootImage list \<times> MountPoint list) res \<times> 'k" where
  "LoadDisk w device k =
     (case mountPartition w device 5 k of (r5, k1) \<Rightarrow>
      if r5 = Panic then (Panic, k1)
      else case mountPartition w device 6 k1 of (r6, k2) \<Rightarrow>
        (case (r5, r6) of
           (_, Panic) \<Rightarrow> (Panic, k2)
         | (Err e, Err e') \<Rightarrow> (Err e, k2)
         | _ \<Rightarrow>
             (let mps = (case r5 of Ok (_, mp) \<Rightarrow> [mp] | _ \<Rightarrow> []) @ (case r6 of Ok (_, mp) \<Rightarrow> [mp] | _ \<Rightarrow> []) in
              case getImages (lw_esxi w k2) device (map_option fst (ok_of r5)) (map_option fst (ok_of r6)) of
                Ok imgs \<Rightarrow> (Ok (imgs, mps), k2)
              | Err e \<Rightarrow> (Err (LcImages e), unmount_quietly w mps k2)
              | Panic \<Rightarrow> (Panic, k2))))"

definition LoadCDROM :: "'k local_world \<Rightarrow> string \<Rightarrow> 'k \<Rightarrow> (local_error, MultibootImage \<times> MountPoint) res \<times> 'k" where
  "LoadCDROM w device k =
     (case mount_config w device ''esxi-mount-'' ''iso9660'' k of
        (Ok (opts, dir, mp), k1) \<Rightarrow>
          (case getBootImage (lw_esxi w k1) opts [] 0 device of
             Ok img \<Rightarrow> (Ok (img, mp), k1)
           | Err e \<Rightarrow> (Err (LcImages e), undo_mount w mp dir k1)
           | Panic \<Rightarrow> (Panic, k1))
      | (Err e, k1) \<Rightarrow> (Err e, k1)
      | (Panic, k1) \<Rightarrow> (Panic, k1))"

section \<open>Searching the block devices\<close>

definition OSImage_Rank :: "OSImage \<Rightarrow> int" where
  "OSImage_Rank i = (case i of OSLinux li \<Rightarrow> LinuxImage_Rank li | OSMultiboot mi \<Rightarrow> MultibootImage_Rank mi)"

definition byRank :: "OSImage \<Rightarrow> OSImage \<Rightarrow> bool" where
  "byRank a b \<longleftrightarrow> OSImage_Rank a > OSImage_Rank b"

text \<open>A parser that fails has no images.\<close>

definition images_of :: "('e, 'a list) res \<Rightarrow> (local_error, 'a list) res" where
  "images_of r = (case r of Ok imgs \<Rightarrow> Ok imgs | Err e \<Rightarrow> Ok [] | Panic \<Rightarrow> Panic)"

definition local_parse ::
    "'k local_world \<Rightarrow> BlockDev list \<Rightarrow> string \<Rightarrow> Pool \<times> 'k \<Rightarrow> ((local_error, OSImage list) res \<times> Pool \<times> 'k) option" where
  "local_parse w devices mountDir st =
     (case images_of (ScanBLSEntries (lw_bls w (snd st)) mountDir None) of
        Ok bls \<Rightarrow>
          (case grub_ParseLocalConfig ((lw_grub w (snd st))\<lparr>gw_sys := lw_sys w, gw_devices := devices\<rparr>) mountDir st of
             None \<Rightarrow> None
           | Some (g, st1) \<Rightarrow>
               if g = Panic then Some (Panic, st1)
               else (case sl_ParseLocalConfig (lw_url w (snd st1)) mountDir of
                   None \<Rightarrow> None
                 | Some s \<Rightarrow>
                     Some (rbind (images_of g) (\<lambda>gi. rbind (images_of s) (\<lambda>si. Ok (map OSLinux bls @ gi @ si))), st1)))
      | Err e \<Rightarrow> Some (Err e, st)
      | Panic \<Rightarrow> Some (Panic, st))"

definition parseUnmounted :: "'k local_world \<Rightarrow> BlockDev \<Rightarrow> Pool \<times> 'k \<Rightarrow> (local_error, OSImage list) res \<times> Pool \<times> 'k" where
  "parseUnmounted w device st =
     (case st of (p, k) \<Rightarrow>
        (case LoadDisk w (DevicePath device) k of
           (Panic, k1) \<Rightarrow> (Panic, p, k1)
         | (r, k1) \<Rightarrow>
             (let p1 = (case r of Ok (_, mps) \<Rightarrow> Pool_Add mps p | _ \<Rightarrow> p) in
              case LoadCDROM w (DevicePath device) k1 of
                (Panic, k2) \<Rightarrow> (Panic, p1, k2)
              | (c, k2) \<Rightarrow>
                  (Ok (map OSMultiboot ((case r of Ok (imgs, _) \<Rightarrow> imgs | _ \<Rightarrow> []) @ (case c of Ok (img, _) \<Rightarrow> [img] | _ \<Rightarrow> []))),
                   (case c of Ok (_, mp) \<Rightarrow> Pool_Add [mp] p1 | _ \<Rightarrow> p1), k2))))"

fun local_devices ::
    "'k local_world \<Rightarrow> BlockDev list \<Rightarrow> BlockDev list \<Rightarrow> OSImage list \<Rightarrow> Pool \<times> 'k \<Rightarrow> ((local_error, OSImage list) res \<times> Pool \<times> 'k) option" where
  "local_devices w blockDevs [] images st = Some (Ok images, st)"
| "local_devices w blockDevs (device # ds) images st =
     (case parseUnmounted w device st of
        (Ok imgs, st1) \<Rightarrow>
          if length imgs > 0 then local_devices w blockDevs ds (images @ imgs) st1
          else
            (case Pool_Mount (lw_sys w) (bd_Mounter (lw_sys w) device) MountReadOnly st1 of
               (Ok m, st2) \<Rightarrow>
                 (case local_parse w blockDevs (MpPath m) st2 of
                    None \<Rightarrow> None
                  | Some (Ok imgs', st3) \<Rightarrow> local_devices w blockDevs ds (images @ imgs') st3
                  | Some (r, st3) \<Rightarrow> Some (r, st3))
             | (Err e, st2) \<Rightarrow> local_devices w blockDevs ds images st2
             | (Panic, st2) \<Rightarrow> Some (Panic, st2))
      | (Err e, st1) \<Rightarrow> Some (Err e, st1)
      | (Panic, st1) \<Rightarrow> Some (Panic, st1))"

definition Localboot :: "'k local_world \<Rightarrow> BlockDev list \<Rightarrow> Pool \<times> 'k \<Rightarrow> ((local_error, OSImage list) res \<times> Pool \<times> 'k) option" where
  "Localboot w blockDevs st =
     map_option (\<lambda>(r, st'). (rbind r (\<lambda>imgs. Ok (sort_slice byRank imgs)), st')) (local_devices w blockDevs blockDevs [] st)"

section \<open>The command boot\<close>

record boot_flags =
  bfNoLoad :: bool
  bfNoExec :: bool
  bfRemove :: string
  bfReuse :: string
  bfAppend :: string
  bfBlock :: string

definition updateBootCmdline :: "boot_flags \<Rightarrow> CmdLine \<Rightarrow> string \<Rightarrow> string" where
  "updateBootCmdline fl c cl =
     fst (Update c (NewUpdateFilter (bfAppend fl) (split_on (CHR '','') (bfRemove fl)) (split_on (CHR '','') (bfReuse fl))) cl)"

definition update_image :: "boot_flags \<Rightarrow> CmdLine \<Rightarrow> OSImage \<Rightarrow> OSImage" where
  "update_image fl c i = (case i of OSLinux li \<Rightarrow> OSLinux (li\<lparr>LiCmdline := updateBootCmdline fl c (LiCmdline li)\<rparr>) | OSMultiboot mi \<Rightarrow> i)"

datatype boot_error = BtNoDevices | BtBlockList block_error | BtLocal local_error

definition boot_devices :: "'k local_world \<Rightarrow> boot_flags \<Rightarrow> (boot_error, BlockDev list) res option" where
  "boot_devices w fl =
     (case GetBlockDevices (lw_blk w) of
        Err e \<Rightarrow> Some (Err BtNoDevices)
      | Panic \<Rightarrow> Some Panic
      | Ok devs \<Rightarrow>
          (let ds = FilterZeroSize (lw_blk w) devs in
           if bfBlock fl = [] then Some (Ok ds)
           else map_option (\<lambda>r. case r of Ok b \<Rightarrow> Ok b | Err e \<Rightarrow> Err (BtBlockList e) | Panic \<Rightarrow> Panic)
             (FilterBlockPCIString (lw_blk w) (bfBlock fl) ds)))"

definition boot_main ::
    "'k local_world \<Rightarrow> 'k image_loader \<Rightarrow> CmdLine \<Rightarrow> boot_flags \<Rightarrow> terminal list option \<Rightarrow> 'k \<Rightarrow>
     ((boot_error, boot_end \<times> Entry list) res \<times> 'k) option" where
  "boot_main w ld c fl tty k =
     (case boot_devices w fl of
        None \<Rightarrow> None
      | Some (Err e) \<Rightarrow> Some (Err e, k)
      | Some Panic \<Rightarrow> Some (Panic, k)
      | Some (Ok devs) \<Rightarrow>
          (case Localboot w devs (\<lparr>MountPoints = [], PoolTmp = []\<rparr>, k) of
             None \<Rightarrow> None
           | Some (Err e, _, k1) \<Rightarrow> Some (Err (BtLocal e), k1)
           | Some (Panic, _, k1) \<Rightarrow> Some (Panic, k1)
           | Some (Ok imgs, pool, k1) \<Rightarrow>
               (case ShowMenuAndBoot ld (lw_sys w) tty (OSImages (map (update_image fl c) imgs) @ [Reboot, StartShell])
                       (Some pool) (bfNoLoad fl) (bfNoExec fl) k1 of
                  (e, es, pool', k2) \<Rightarrow> Some (Ok (e, es), k2))))"

section \<open>Everything that is mounted is in the pool\<close>

text \<open>
  What the kernel documents of these calls, said of the multiset of paths where something is mounted: \<open>mount\<close> adds its path when
  it succeeds, \<open>umount\<close> takes it away, detaching succeeds where something is mounted, and directories have no influence.
\<close>

definition tracks :: "'k local_world \<Rightarrow> ('k \<Rightarrow> string multiset) \<Rightarrow> bool" where
  "tracks w m \<longleftrightarrow>
     (\<forall>dev path fs fl d k ok k'. sys_mount (lw_sys w) dev path fs fl d k = (ok, k') \<longrightarrow> m k' = (if ok then add_mset path (m k) else m k)) \<and>
     (\<forall>path fl k ok k'. sys_unmount (lw_sys w) path fl k = (ok, k') \<longrightarrow> m k' = (if ok then m k - {#path#} else m k)) \<and>
     (\<forall>path k. path \<in># m k \<longrightarrow> fst (sys_unmount (lw_sys w) path MNT_DETACH k)) \<and>
     (\<forall>p k. m (snd (sys_MkdirTemp (lw_sys w) p k)) = m k \<and> m (snd (sys_MkdirAll (lw_sys w) p k)) = m k \<and>
        m (snd (sys_Rmdir (lw_sys w) p k)) = m k \<and> m (lw_RemoveAll w p k) = m k)"

lemma tracks_mount: "tracks w m \<Longrightarrow> sys_mount (lw_sys w) dev path fs fl d k = (ok, k') \<Longrightarrow> m k' = (if ok then add_mset path (m k) else m k)"
  by (simp add: tracks_def)

lemma tracks_dirs: 
  assumes "tracks w m"
  shows "sys_MkdirTemp (lw_sys w) p k = (r, k') \<Longrightarrow> m k' = m k" "sys_MkdirAll (lw_sys w) p k = (b, k') \<Longrightarrow> m k' = m k"
    "sys_Rmdir (lw_sys w) p k = (b, k') \<Longrightarrow> m k' = m k" "m (snd (sys_Rmdir (lw_sys w) p k)) = m k" "m (lw_RemoveAll w p k) = m k"
  using assms by (simp_all add: tracks_def) (metis snd_conv)+

lemma tracks_Mount:
  "tracks w m \<Longrightarrow> sys_Mount (lw_sys w) dev path fs d fl [] k = (r, k') \<Longrightarrow>
     (case r of Ok mp \<Rightarrow> MpPath mp = path \<and> m k' = add_mset path (m k) | _ \<Rightarrow> m k' = m k)"
  by (auto simp: sys_Mount_def split: prod.splits bool.splits dest: tracks_mount)

lemma tracks_detach:
  assumes "tracks w m" "MpPath mp \<in># m k"
  shows "m (snd (MountPoint_Unmount (lw_sys w) mp MNT_DETACH k)) = m k - {#MpPath mp#}"
proof -
  obtain ok k' where u: "sys_unmount (lw_sys w) (MpPath mp) MNT_DETACH k = (ok, k')" by fastforce
  then have ok: ok using assms unfolding tracks_def by (metis fst_conv)
  moreover have "m k' = (if ok then m k - {#MpPath mp#} else m k)" using assms(1) u unfolding tracks_def by blast
  ultimately show ?thesis using u by (simp add: MountPoint_Unmount_def)
qed

text \<open>What was mounted between two states is what the pool has more.\<close>

definition pooled :: "('k \<Rightarrow> string multiset) \<Rightarrow> Pool \<times> 'k \<Rightarrow> Pool \<times> 'k \<Rightarrow> bool" where
  "pooled m st st' \<longleftrightarrow> (\<exists>new. MountPoints (fst st') = MountPoints (fst st) @ new \<and>
     m (snd st') = m (snd st) + mset (map MpPath new))"

lemma pooled_refl [simp]: "pooled m st st"
  by (simp add: pooled_def)

lemma pooled_trans [trans]: "pooled m a b \<Longrightarrow> pooled m b c \<Longrightarrow> pooled m a c"
  by (fastforce simp: pooled_def)

lemma pooled_one: "MountPoints p' = MountPoints p @ [x] \<Longrightarrow> m k' = add_mset (MpPath x) (m k) \<Longrightarrow> pooled m (p, k) (p', k')"
  by (auto simp: pooled_def)

lemma pooled_none: "MountPoints p' = MountPoints p \<Longrightarrow> m k' = m k \<Longrightarrow> pooled m (p, k) (p', k')"
  by (auto simp: pooled_def)

lemma bd_Mounter_tracks:
  assumes "tracks w m" "MountAt (bd_Mounter (lw_sys w) d) path fl k = (r, k')"
  shows "case r of Ok mp \<Rightarrow> MpPath mp = path \<and> m k' = add_mset path (m k) | _ \<Rightarrow> m k' = m k"
  using assms(2) by (auto simp: bd_Mounter_def TryMount_def split: if_splits res.splits prod.splits dest!: tracks_Mount [OF assms(1)])

lemma Pool_Mount_pooled:
  assumes "tracks w m" "Pool_Mount (lw_sys w) (bd_Mounter (lw_sys w) d) fl st = (r, st')"
  shows "pooled m st st'"
proof (cases "pool_find (fst st) (DevName (bd_Mounter (lw_sys w) d))")
  case (Some x)
  with assms(2) show ?thesis by (simp add: Pool_Mount_def)
next
  case None
  obtain p k where st: "st = (p, k)" by fastforce
  obtain r1 p1 k1 where t: "pool_tmp (lw_sys w) (p, k) = (r1, p1, k1)" by (metis prod_cases3)
  have p1: "MountPoints p1 = MountPoints p" using pool_tmp_points [OF t] by simp
  have m1: "m k1 = m k" using t tracks_dirs(1) [OF assms(1)] by (auto simp: pool_tmp_def split: if_splits prod.splits option.splits)
  let ?path = "Join (PoolTmp p1) (DevName (bd_Mounter (lw_sys w) d))"
  obtain b k2 where md: "sys_MkdirAll (lw_sys w) ?path k1 = (b, k2)" by fastforce
  obtain r3 k3 where ma: "MountAt (bd_Mounter (lw_sys w) d) ?path fl k2 = (r3, k3)" by fastforce
  have m2: "m k2 = m k" using tracks_dirs(2) [OF assms(1) md] m1 by simp
  note m3 = bd_Mounter_tracks [OF assms(1) ma]
  show ?thesis
  proof (cases r1)
    case (Ok u)
    show ?thesis
    proof (cases r3)
      case (Ok x)
      with \<open>r1 = Ok u\<close> assms(2) None st t md ma have "st' = (p1\<lparr>MountPoints := MountPoints p1 @ [x]\<rparr>, k3)"
        by (simp add: Pool_Mount_def sbind_def)
      then show ?thesis using st Ok m2 m3 p1 by (auto intro: pooled_one)
    qed (use \<open>r1 = Ok u\<close> assms(2) None st t md ma m2 m3 p1 tracks_dirs(4) [OF assms(1)] in
        \<open>auto simp: Pool_Mount_def sbind_def intro!: pooled_none\<close>)
  qed (use assms(2) None st t p1 m1 in \<open>auto simp: Pool_Mount_def sbind_def intro!: pooled_none\<close>)
qed

section \<open>The parsers keep the pool\<close>

lemma pool_mount_pooled:
  assumes "tracks w m" "gw_sys g = lw_sys w" "pool_mount g d st = (r, st')"
  shows "pooled m (gpPool (fst st), snd st) (gpPool (fst st'), snd st')"
  using assms(2,3) Pool_Mount_pooled [OF assms(1), of d mountFlags "(gpPool (fst st), snd st)"]
  by (auto simp: pool_mount_def split: prod.splits)

abbreviation pooled_grub :: "('k \<Rightarrow> string multiset) \<Rightarrow> 'k grub_state \<Rightarrow> 'k grub_state \<Rightarrow> bool" where
  "pooled_grub m st st' \<equiv> pooled m (gpPool (fst st), snd st) (gpPool (fst st'), snd st')"

lemma search_mount_pooled:
  assumes "tracks w m" "gw_sys g = lw_sys w"
  shows "pooled_grub m st (search_mount g v ds st)"
  by (auto simp: search_mount_def set_var_def split: list.split prod.split res.split option.split dest!: pool_mount_pooled [OF assms])

lemma search_file_pooled:
  assumes "tracks w m" "gw_sys g = lw_sys w"
  shows "pooled_grub m st (search_file g v path ds st)"
proof (induction ds arbitrary: st)
  case (Cons d ds)
  obtain r p k where pm: "pool_mount g d st = (r, p, k)" by (metis prod_cases3)
  note pp = pool_mount_pooled [OF assms pm] and ih = Cons.IH [of "(p, k)"]
  show ?case
  proof (cases r)
    case (Ok mp)
    with pm pp pooled_trans [OF pp ih] show ?thesis by (auto simp: set_var_def split: option.split)
  qed (use pm pooled_trans [OF pp ih] in simp_all)
qed simp

lemma grub_search_pooled:
  assumes "tracks w m" "gw_sys g = lw_sys w"
  shows "pooled_grub m st (snd (grub_search g args st))"
  using search_mount_pooled [OF assms] search_file_pooled [OF assms]
  by (auto simp: grub_search_def split: option.split list.split res.split)

lemma on_parser_pooled:
  assumes "\<And>p. gpPool (snd (f p)) = gpPool p"
  shows "pooled_grub m st (snd (on_parser f st))"
  using assms [of "fst st"] by (auto simp: on_parser_def split: prod.splits intro!: pooled_none)

lemma keeps_pool:
  "gpPool (grub_set a p) = gpPool p" "gpPool (grub_menuentry a p) = gpPool p"
  "gpPool (snd (grub_linux g a r p)) = gpPool p" "gpPool (snd (grub_initrd g a p)) = gpPool p"
  "gpPool (snd (grub_multiboot g a r p)) = gpPool p" "gpPool (snd (grub_module g r p)) = gpPool p"
  by (auto simp: grub_set_def set_var_def grub_menuentry_def grub_linux_def grub_initrd_def grub_multiboot_def
      grub_module_def Let_def split: list.split option.split res.split prod.split)

lemma grub_directive_pooled:
  assumes "tracks w m" "gw_sys g = lw_sys w"
  shows "pooled_grub m st (snd (grub_directive g d args st))"
  by (simp add: grub_directive_def grub_search_pooled [OF assms] on_parser_pooled keeps_pool)

lemma note_blscfg_pooled [simp]: "pooled_grub m st (note_blscfg d st)"
  by (simp add: note_blscfg_def pooled_none)

lemma grub_append_pooled:
  assumes t: "tracks w m" and "gw_sys g = lw_sys w" "grub_append g config st = Some (r, st')"
  shows "pooled_grub m st st'"
proof -
  have "gw_sys g = lw_sys w \<longrightarrow> pooled_grub m st (snd y)" if "grub_append g config st = Some y" for y :: "(url_error, unit) res \<times> 'a grub_state"
  proof (rule grub_append.raw_induct [OF _ that, where P = "\<lambda>g config st y. gw_sys g = lw_sys w \<longrightarrow> pooled_grub m st (snd y)"], goal_cases)
    case (1 f g config st y)
    show ?case
    proof
      assume g: "gw_sys g = lw_sys w"
      obtain r st' where y: "y = (r, st')" by (cases y)
      have keeps: "pooled_grub m st q'" if q: "grub_body g (f g) line q = Some (r, q')" "pooled_grub m st q" for line q r q'
      proof (cases "grub_line line")
        case None
        with q show ?thesis by (simp add: grub_body_def)
      next
        case (Some da)
        obtain d args where da: "grub_line line = Some (d, args)" using Some by (cases da) simp
        note n = pooled_trans [OF q(2) note_blscfg_pooled [of m q d]]
        consider "q' = note_blscfg d q" | inc where "f g inc (note_blscfg d q) = Some (r, q')"
          | "grub_directive g d args (note_blscfg d q) = (r, q')"
          using q(1) da by (auto simp: grub_body_def Let_def split: if_splits res.splits)
        then show ?thesis
        proof cases
          case (2 inc)
          from pooled_trans [OF n] 1(1) [OF 2] g show ?thesis by simp
        next
          case 3
          from pooled_trans [OF n grub_directive_pooled [OF t g, of "note_blscfg d q" d args]] 3 show ?thesis by simp
        qed (use n in simp)
      qed
      show "pooled_grub m st (snd y)"
        using for_loop_keeps [where I = "pooled_grub m st", OF 1(2) [unfolded y grub_body_def [symmetric]] _ keeps] y by simp
    qed
  qed
  with assms show ?thesis by fastforce
qed

lemma grub_ParseConfigFile_pooled:
  assumes "tracks w m" "gw_sys g = lw_sys w" "grub_ParseConfigFile g f root st = Some (r, st')"
  shows "pooled m st st'"
proof -
  let ?p = "grub_newParser g root (fst st)"
  obtain r1 p k where a: "grub_appendFile g f (?p, snd st) = Some (r1, p, k)" and st': "st' = (gpPool p, k)"
    using assms(3) by (auto simp: grub_ParseConfigFile_def split: option.splits prod.splits)
  have "pooled_grub m (?p, snd st) (p, k)"
    using a grub_append_pooled [OF assms(1,2)] by (auto simp: grub_appendFile_def split: res.splits)
  then show ?thesis using st' by (simp add: grub_newParser_def)
qed

lemma grub_probe_pooled:
  assumes "tracks w m" "gw_sys g = lw_sys w"
  shows "grub_probe g root rs st = Some (r, st') \<Longrightarrow> pooled m st st'"
proof (induction rs arbitrary: st)
  case (Cons f rs)
  then obtain r1 st1 where c: "grub_ParseConfigFile g f root st = Some (r1, st1)" by (auto split: option.splits)
  note p = grub_ParseConfigFile_pooled [OF assms c]
  show ?case using Cons.prems c p pooled_trans [OF p Cons.IH] by (cases r1) (auto split: if_splits)
qed simp

lemma grub_ParseLocalConfig_pooled:
  assumes "tracks w m" "gw_sys g = lw_sys w" "grub_ParseLocalConfig g dir st = Some (r, st')"
  shows "pooled m st st'"
  using assms(3) grub_probe_pooled [OF assms(1,2)] by (auto simp: grub_ParseLocalConfig_def split: option.splits)

lemma mount_config_tracks:
  assumes "tracks w m" "mount_config w dev prefix fs k = (r, k')" "r \<noteq> Panic"
  shows "m k' = (case r of Ok (opts, dir, mp) \<Rightarrow> add_mset (MpPath mp) (m k) | _ \<Rightarrow> m k)"
proof (cases "sys_MkdirTemp (lw_sys w) prefix k")
  case (Pair t k1)
  note k1 = tracks_dirs(1) [OF assms(1) Pair]
  show ?thesis
  proof (cases t)
    case None
    with assms(2) Pair k1 show ?thesis by (auto simp: mount_config_def)
  next
    case (Some dir)
    obtain r2 k2 where m2: "sys_Mount (lw_sys w) dev dir fs [] (MS_RDONLY OR MS_NOATIME) [] k1 = (r2, k2)" by fastforce
    note mm = tracks_Mount [OF assms(1) m2]
    show ?thesis
    proof (cases r2)
      case (Ok mp)
      have u: "m (undo_mount w mp dir k2) = m k2 - {#dir#}"
        using tracks_detach [OF assms(1), of mp k2] mm Ok by (simp add: undo_mount_def tracks_dirs(5) [OF assms(1)])
      from assms(2,3) Pair Some m2 Ok mm u k1 show ?thesis
        by (cases "esxi_parse (lw_esxi w k2) (Join dir ''boot.cfg'')") (auto simp: mount_config_def Let_def)
    qed (use assms(2,3) Pair Some m2 mm k1 tracks_dirs(5) [OF assms(1)] in \<open>auto simp: mount_config_def\<close>)
  qed
qed

lemma mountPartition_tracks:
  assumes "tracks w m" "mountPartition w dev part k = (r, k')" "r \<noteq> Panic"
  shows "m k' = (case r of Ok (opts, mp) \<Rightarrow> add_mset (MpPath mp) (m k) | _ \<Rightarrow> m k)"
  using assms(2,3) by (auto simp: mountPartition_def split: res.splits prod.splits dest!: mount_config_tracks [OF assms(1)])

lemma unmount_quietly_tracks:
  assumes "tracks w m"
  shows "mset (map MpPath mps) \<subseteq># m k \<Longrightarrow> m (unmount_quietly w mps k) = m k - mset (map MpPath mps)"
proof (induction mps arbitrary: k)
  case (Cons mp mps)
  then have "MpPath mp \<in># m k" "mset (map MpPath mps) \<subseteq># m k - {#MpPath mp#}"
    by (auto dest: insert_subset_eq_iff [THEN iffD1])
  with Cons.IH tracks_detach [OF assms] show ?case by simp
qed simp

lemma LoadDisk_tracks:
  assumes "tracks w m" "LoadDisk w dev k = (r, k')" "r \<noteq> Panic"
  shows "m k' = m k + (case r of Ok (imgs, mps) \<Rightarrow> mset (map MpPath mps) | _ \<Rightarrow> {#})"
proof -
  obtain r5 k1 where r5: "mountPartition w dev 5 k = (r5, k1)" by fastforce
  obtain r6 k2 where r6: "mountPartition w dev 6 k1 = (r6, k2)" by fastforce
  have p: "r5 \<noteq> Panic" "r6 \<noteq> Panic" using assms(2,3) r5 r6 by (auto simp: LoadDisk_def split: res.splits)
  note m5 = mountPartition_tracks [OF assms(1) r5 p(1)] and m6 = mountPartition_tracks [OF assms(1) r6 p(2)]
  let ?mps = "(case r5 of Ok (_, mp) \<Rightarrow> [mp] | _ \<Rightarrow> []) @ (case r6 of Ok (_, mp) \<Rightarrow> [mp] | _ \<Rightarrow> [])"
  have mp: "m k2 = m k + mset (map MpPath ?mps)"
    using m5 m6 p by (cases r5; cases r6) (auto split: prod.splits)
  then have u: "m (unmount_quietly w ?mps k2) = m k" using unmount_quietly_tracks [OF assms(1), of ?mps k2] by simp
  show ?thesis
    using assms(2,3) r5 r6 p mp u
    by (cases r5; cases r6; cases "getImages (lw_esxi w k2) dev (map_option fst (ok_of r5)) (map_option fst (ok_of r6))")
      (auto simp: LoadDisk_def Let_def)
qed

lemma LoadCDROM_tracks:
  assumes "tracks w m" "LoadCDROM w dev k = (r, k')" "r \<noteq> Panic"
  shows "m k' = m k + (case r of Ok (img, mp) \<Rightarrow> {#MpPath mp#} | _ \<Rightarrow> {#})"
proof (cases "mount_config w dev ''esxi-mount-'' ''iso9660'' k")
  case (Pair r1 k1)
  have p: "r1 \<noteq> Panic" using assms(2,3) Pair by (auto simp: LoadCDROM_def)
  note m1 = mount_config_tracks [OF assms(1) Pair p]
  show ?thesis
  proof (cases r1)
    case (Ok x)
    obtain opts dir mp where x: "x = (opts, dir, mp)" by (cases x)
    have u: "m (undo_mount w mp dir k1) = m k"
      using tracks_detach [OF assms(1), of mp k1] m1 Ok x by (simp add: undo_mount_def tracks_dirs(5) [OF assms(1)])
    from assms(2,3) Pair Ok x m1 u show ?thesis
      by (cases "getBootImage (lw_esxi w k1) opts [] 0 dev") (auto simp: LoadCDROM_def)
  qed (use assms(2) Pair m1 p in \<open>auto simp: LoadCDROM_def\<close>)
qed

lemma parseUnmounted_pooled:
  assumes "tracks w m" "parseUnmounted w d st = (r, st')" "r \<noteq> Panic"
  shows "pooled m st st'"
proof -
  obtain p k where st: "st = (p, k)" by fastforce
  obtain r1 k1 where d: "LoadDisk w (DevicePath d) k = (r1, k1)" by fastforce
  obtain r2 k2 where c: "LoadCDROM w (DevicePath d) k1 = (r2, k2)" by fastforce
  have p: "r1 \<noteq> Panic" "r2 \<noteq> Panic" using assms(2,3) st d c by (auto simp: parseUnmounted_def Let_def split: res.splits)
  note m1 = LoadDisk_tracks [OF assms(1) d p(1)] and m2 = LoadCDROM_tracks [OF assms(1) c p(2)]
  let ?mps = "(case r1 of Ok (_, mps) \<Rightarrow> mps | _ \<Rightarrow> []) @ (case r2 of Ok (_, mp) \<Rightarrow> [mp] | _ \<Rightarrow> [])"
  have "MountPoints (fst st') = MountPoints p @ ?mps \<and> snd st' = k2"
    using assms(2) st d c p by (cases r1; cases r2) (auto simp: parseUnmounted_def Let_def Pool_Add_def split: prod.splits)
  moreover have "m k2 = m k + mset (map MpPath ?mps)"
    using m1 m2 p by (cases r1; cases r2) (auto split: prod.splits)
  ultimately show ?thesis using st by (auto simp: pooled_def)
qed

lemma local_parse_pooled:
  assumes "tracks w m" "local_parse w devs dir st = Some (r, st')"
  shows "pooled m st st'"
proof (cases "images_of (ScanBLSEntries (lw_bls w (snd st)) dir None)")
  case (Ok bls)
  let ?g = "(lw_grub w (snd st))\<lparr>gw_sys := lw_sys w, gw_devices := devs\<rparr>"
  obtain g st1 where g: "grub_ParseLocalConfig ?g dir st = Some (g, st1)" "st' = st1"
    using assms(2) Ok by (auto simp: local_parse_def split: option.splits if_splits)
  with grub_ParseLocalConfig_pooled [OF assms(1) _ g(1)] show ?thesis by simp
qed (use assms(2) in \<open>auto simp: local_parse_def\<close>)

lemma local_devices_pooled:
  assumes "tracks w m"
  shows "local_devices w all ds images st = Some (Ok imgs, st') \<Longrightarrow> pooled m st st'"
proof (induction ds arbitrary: images st)
  case (Cons d ds)
  obtain r1 st1 where u: "parseUnmounted w d st = (r1, st1)" by (cases "parseUnmounted w d st")
  with Cons.prems obtain imgs1 where r1: "r1 = Ok imgs1" by (cases r1) auto
  note p1 = parseUnmounted_pooled [OF assms u, unfolded r1, simplified]
  show ?case
  proof (cases "length imgs1 > 0")
    case True
    with Cons.prems u r1 have "local_devices w all ds (images @ imgs1) st1 = Some (Ok imgs, st')" by simp
    from pooled_trans [OF p1 Cons.IH [OF this]] show ?thesis .
  next
    case False
    obtain r2 st2 where pm: "Pool_Mount (lw_sys w) (bd_Mounter (lw_sys w) d) MountReadOnly st1 = (r2, st2)"
      by (cases "Pool_Mount (lw_sys w) (bd_Mounter (lw_sys w) d) MountReadOnly st1")
    note p2 = pooled_trans [OF p1 Pool_Mount_pooled [OF assms pm]]
    show ?thesis
    proof (cases r2)
      case (Ok mp)
      obtain r3 st3 where lp: "local_parse w all (MpPath mp) st2 = Some (r3, st3)"
        using Cons.prems u r1 False pm Ok by (auto split: option.splits)
      note p3 = pooled_trans [OF p2 local_parse_pooled [OF assms lp]]
      obtain imgs3 where "r3 = Ok imgs3" using Cons.prems u r1 False pm Ok lp by (cases r3) auto
      with Cons.prems u r1 False pm Ok lp have "local_devices w all ds (images @ imgs3) st3 = Some (Ok imgs, st')" by simp
      from pooled_trans [OF p3 Cons.IH [OF this]] show ?thesis .
    next
      case (Err e)
      with Cons.prems u r1 False pm have "local_devices w all ds images st2 = Some (Ok imgs, st')" by simp
      from pooled_trans [OF p2 Cons.IH [OF this]] show ?thesis .
    qed (use Cons.prems u r1 False pm in simp)
  qed
qed simp

interpretation rank_sort: slice_sort byRank "sort_slice byRank"
  by (rule sort_slice_contract) (auto simp: weak_order_def byRank_def)

lemma Localboot_pooled:
  assumes "tracks w m" "Localboot w devs st = Some (Ok imgs, st')"
  shows "pooled m st st' \<and> sorted_wrt (\<lambda>a b. OSImage_Rank a \<ge> OSImage_Rank b) imgs"
proof -
  obtain imgs0 where l: "local_devices w devs devs [] st = Some (Ok imgs0, st')" "imgs = sort_slice byRank imgs0"
    using assms(2) by (auto simp: Localboot_def rbind_eq_Ok)
  from rank_sort.srt_sorted [of imgs0] l(2)
  have "sorted_wrt (\<lambda>a b. OSImage_Rank a \<ge> OSImage_Rank b) imgs" by (simp add: byRank_def not_less)
  with local_devices_pooled [OF assms(1) l(1)] show ?thesis by simp
qed

lemma unmount_each_tracks:
  assumes "tracks w m"
  shows "mset (map MpPath ms) \<subseteq># m k \<Longrightarrow> unmount_each (lw_sys w) MNT_DETACH ms k = (es, k') \<Longrightarrow> m k' = m k - mset (map MpPath ms)"
proof (induction ms arbitrary: k es k')
  case (Cons mp ms)
  let ?k1 = "snd (MountPoint_Unmount (lw_sys w) mp MNT_DETACH k)"
  have k1: "MpPath mp \<in># m k" "mset (map MpPath ms) \<subseteq># m k - {#MpPath mp#}"
    using Cons.prems(1) by (auto dest: insert_subset_eq_iff [THEN iffD1])
  obtain es1 where "unmount_each (lw_sys w) MNT_DETACH ms (snd (sys_Rmdir (lw_sys w) (MpPath mp) ?k1)) = (es1, k')"
    using Cons.prems(2) by (auto split: prod.splits)
  from Cons.IH [OF _ this] k1 show ?case
    using tracks_detach [OF assms k1(1)] tracks_dirs(4) [OF assms] by simp
qed simp

lemma UnmountAll_tracks:
  assumes "tracks w m" "m k = base + mset (map MpPath (MountPoints p))" "UnmountAll (lw_sys w) MNT_DETACH (p, k) = (r, p', k')"
  shows "m k' = base"
proof -
  obtain es k1 where u: "unmount_each (lw_sys w) MNT_DETACH (MountPoints p) k = (es, k1)" by fastforce
  have "m k1 = base" using unmount_each_tracks [OF assms(1) _ u] assms(2) by simp
  then show ?thesis using assms(3) u tracks_dirs(3) [OF assms(1)]
    by (auto simp: UnmountAll_def split: list.splits if_splits prod.splits)
qed

section \<open>From the disks to the kernel\<close>

text \<open>Loading an image mounts nothing.\<close>

definition mounts_nothing :: "'k image_loader \<Rightarrow> ('k \<Rightarrow> string multiset) \<Rightarrow> bool" where
  "mounts_nothing ld m \<longleftrightarrow>
     (\<forall>f k. m (snd (il_copy ld f k)) = m k) \<and> (\<forall>f i c k. m (snd (il_FileLoad ld f i c k)) = m k) \<and>
     (\<forall>f i c k. m (snd (il_KexecLoad ld f i c k)) = m k) \<and> (\<forall>mi k. m (snd (il_multiboot ld mi k)) = m k)"

lemma mounts_nothing_calls:
  assumes "mounts_nothing ld m"
  shows "il_copy ld f k = (r, k') \<Longrightarrow> m k' = m k" "il_FileLoad ld g i c k = (b, k') \<Longrightarrow> m k' = m k"
    "il_KexecLoad ld g i c k = (b, k') \<Longrightarrow> m k' = m k" "il_multiboot ld mi k = (b, k') \<Longrightarrow> m k' = m k"
  using assms unfolding mounts_nothing_def by (metis snd_conv)+

lemma Entry_Load_mounts:
  assumes "mounts_nothing ld m"
  shows "Entry_Load ld e k = (ok, e', k') \<Longrightarrow> m k' = m k"
  using mounts_nothing_calls [OF assms]
  by (cases "(ld, e, k)" rule: Entry_Load.cases)
    (fastforce simp: LinuxImage_Load_def Let_def split: prod.splits option.splits if_splits)+

lemma load_default_mounts:
  assumes "mounts_nothing ld m"
  shows "load_default ld es k = (r, es', k') \<Longrightarrow> m k' = m k"
proof (induction es arbitrary: k r es' k')
  case (Cons e es)
  obtain ok e1 k1 where l: "Entry_Load ld e k = (ok, e1, k1)" by (metis prod_cases3)
  obtain r1 es1 k2 where d1: "load_default ld es k1 = (r1, es1, k2)" by (metis prod_cases3)
  obtain r2 es2 k3 where d2: "load_default ld es k = (r2, es2, k3)" by (metis prod_cases3)
  from Cons.prems l d1 d2 Cons.IH [OF d1] Cons.IH [OF d2] Entry_Load_mounts [OF assms l] show ?case
    by (cases "IsDefault e"; cases ok) auto
qed simp

lemma menu_mounts:
  assumes "mounts_nothing ld m"
  shows "showMenuAndLoadFromFile ld ae ts es k = (r, es', k') \<Longrightarrow> m k' = m k"
proof (induction ts arbitrary: es k)
  case Nil
  then show ?case using load_default_mounts [OF assms] by simp
next
  case (Cons t ts)
  obtain c es1 where c: "Choose ae es t = (c, es1)" by fastforce
  show ?case
  proof (cases c)
    case None
    with Cons.prems c show ?thesis using load_default_mounts [OF assms] by simp
  next
    case (Some i)
    obtain ok e k1 where l: "Entry_Load ld (es1 ! i) k = (ok, e, k1)" by (metis prod_cases3)
    from Cons.prems c Some l Cons.IH Entry_Load_mounts [OF assms l] show ?thesis by (cases ok) fastforce+
  qed
qed

lemma update_image_Rank [simp]: "OSImage_Rank (update_image fl c i) = OSImage_Rank i"
  by (simp add: OSImage_Rank_def update_image_def LinuxImage_Rank_def split: OSImage.split)

lemma core_update [simp]: "core (OSImageAction (update_image fl c i)) = core (OSImageAction i)"
  by (cases i) (simp_all add: update_image_def)

text \<open>The entry that takes over or is named as chosen.\<close>

definition booted :: "boot_end \<Rightarrow> nat option" where
  "booted e = (case e of BootExec i \<Rightarrow> Some i | BootChosen i \<Rightarrow> Some i | _ \<Rightarrow> None)"

lemma ShowMenuAndBoot_ok:
  assumes "tracks w m" "mounts_nothing ld m" "m k = base + mset (map MpPath (MountPoints p))"
    and "ShowMenuAndBoot ld (lw_sys w) tty es (Some p) False noExec k = (e, es', p', k')"
  shows "m k' = base" "map core es' = map core es"
    "booted e = Some i \<Longrightarrow> (\<exists>k1. just_loaded ld es' i k1) \<and> (IsDefault (es' ! i) \<or> (\<exists>ts. tty = Some ts \<and> asked ts (length es) i))"
proof -
  obtain r es1 k1 where s: "ShowMenuAndLoad ld True tty es k = (r, es1, k1)" by (metis prod_cases3)
  obtain u p2 k2 where un: "UnmountAll (lw_sys w) MNT_DETACH (p, k1) = (u, p2, k2)" by (metis prod_cases3)
  have e: "es' = es1" "k' = k2" "\<And>i. booted e = Some i \<Longrightarrow> r = Some i"
    using assms(4) s un by (auto simp: ShowMenuAndBoot_def booted_def split: option.splits if_splits)
  have m: "m k1 = m k" using s menu_mounts [OF assms(2)] by (auto simp: ShowMenuAndLoad_def split: option.splits)
  with UnmountAll_tracks [OF assms(1) _ un] assms(3) e show "m k' = base" by simp
  have r: "map core es1 = map core es \<and> (\<forall>i. r = Some i \<longrightarrow>
      just_loaded ld es1 i k1 \<and> (IsDefault (es1 ! i) \<or> (\<exists>ts. tty = Some ts \<and> asked ts (length es) i)))"
  proof (cases tty)
    case None
    with s show ?thesis by (simp add: ShowMenuAndLoad_def)
  next
    case (Some ts)
    with s have "showMenuAndLoadFromFile ld True ts es k = (r, es1, k1)" by (simp add: ShowMenuAndLoad_def)
    from menu_never_unasked_run [OF this] Some show ?thesis by auto
  qed
  then show "map core es' = map core es" using e(1) by simp
  show "booted e = Some i \<Longrightarrow> (\<exists>k1. just_loaded ld es' i k1) \<and> (IsDefault (es' ! i) \<or> (\<exists>ts. tty = Some ts \<and> asked ts (length es) i))"
    using r e by blast
qed

text \<open>C40: when the command \<open>boot\<close> starts the next kernel, or gives up, nothing it mounted while it was searching the disks is
  mounted any more; the menu had all the images found, the higher rank first, with nothing changed but their command lines and initrds,
  before reboot and shell; and what is started was loaded, and is an image unless a number was typed.\<close>

theorem boot_command:
  assumes "tracks w m" "mounts_nothing ld m" "\<not> bfNoLoad fl" "boot_main w ld c fl tty k = Some (Ok (e, es), k')"
  shows "m k' = m k \<and>
    (\<exists>devs imgs st. boot_devices w fl = Some (Ok devs) \<and> Localboot w devs (\<lparr>MountPoints = [], PoolTmp = []\<rparr>, k) = Some (Ok imgs, st) \<and>
       map core es = map core (OSImages imgs @ [Reboot, StartShell]) \<and> sorted_wrt (\<lambda>a b. OSImage_Rank a \<ge> OSImage_Rank b) imgs) \<and>
    (\<forall>i. booted e = Some i \<longrightarrow> (\<exists>k1. just_loaded ld es i k1) \<and> (IsDefault (es ! i) \<or> (\<exists>ts. tty = Some ts \<and> asked ts (length es) i)))"
proof -
  obtain devs where dv: "boot_devices w fl = Some (Ok devs)"
    using assms(4) by (auto simp: boot_main_def split: option.splits res.splits)
  obtain imgs pool k1 where l: "Localboot w devs (\<lparr>MountPoints = [], PoolTmp = []\<rparr>, k) = Some (Ok imgs, pool, k1)"
    using assms(4) dv by (auto simp: boot_main_def split: option.splits res.splits)
  let ?imgs = "map (update_image fl c) imgs" let ?es = "OSImages ?imgs @ [Reboot, StartShell]"
  obtain e1 es1 p' k2 where s: "ShowMenuAndBoot ld (lw_sys w) tty ?es (Some pool) False (bfNoExec fl) k1 = (e1, es1, p', k2)"
    by (metis prod_cases4)
  have e: "e1 = e" "es1 = es" "k2 = k'" using assms(3,4) dv l s by (simp_all add: boot_main_def)
  note lp = Localboot_pooled [OF assms(1) l]
  have "m k1 = m k + mset (map MpPath (MountPoints pool))" using lp by (auto simp: pooled_def)
  note b = ShowMenuAndBoot_ok [OF assms(1,2) this s, unfolded e]
  have "map core es = map core (OSImages imgs @ [Reboot, StartShell])" using b(2) by (simp add: OSImages_def core_update)
  with b(1) b(3) lp dv l map_eq_imp_length_eq [OF b(2)] show ?thesis
    by (intro conjI exI [of _ devs] exI [of _ imgs] exI [of _ "(pool, k1)"]) auto
qed

text \<open>A machine with one disk, an installation CD: the kernel keeps the list of mounted paths.\<close>

definition ex_cd :: boot_cfg where
  "ex_cd = \<lparr>BcTitle = ''ESXi'', BcKernel = ''k.b00'', BcOpt = ''runweasel'', BcModules = [''b.b00''], BcUpdated = 0, BcState = 0\<rparr>"

definition ex_block :: blk_world where
  "ex_block =
     \<lparr>bk_stat = \<lambda>_. Some False, bk_read = \<lambda>_. None, bk_opens = \<lambda>_. True, bk_ioctl = \<lambda>_ _. Some 1, bk_gpt = \<lambda>_ _. None,
      bk_eval = \<lambda>_. None, bk_fold = (=), bk_walk = [Some ''/sys/class/block'', Some ''/sys/class/block/sr0'']\<rparr>"

definition ex_mounts :: "string list mount_sys" where
  "ex_mounts =
     \<lparr>sys_mount = \<lambda>dev path fs fl d k. if fs = ''iso9660'' then (True, path # k) else (False, k),
      sys_unmount = \<lambda>path fl k. (path \<in> set k, remove1 path k), sys_MkdirTemp = \<lambda>p k. (Some (''/tmp/'' @ p), k),
      sys_MkdirAll = \<lambda>_ k. (True, k), sys_Rmdir = \<lambda>_ k. (True, k), sys_read = \<lambda>_ _. None\<rparr>"

definition ex_local :: "(string list \<Rightarrow> bls_world) \<Rightarrow> (string list \<Rightarrow> string list grub_world) \<Rightarrow> (string list \<Rightarrow> url_world) \<Rightarrow> string list local_world" where
  "ex_local b g u =
     \<lparr>lw_sys = ex_mounts, lw_RemoveAll = \<lambda>_ k. k,
      lw_esxi = \<lambda>k. \<lparr>ew_read = \<lambda>_. Some (cfg_text ex_cd), ew_exists = \<lambda>_. False, ew_block = \<lambda>_. None, ew_disk = \<lambda>_. []\<rparr>,
      lw_bls = b, lw_grub = g, lw_url = u, lw_blk = ex_block\<rparr>"

definition ex_il :: "string list image_loader" where
  "ex_il = \<lparr>il_copy = \<lambda>f k. (None, k), il_FileLoad = \<lambda>f i c k. (False, k), il_KexecLoad = \<lambda>f i c k. (False, k), il_multiboot = \<lambda>m k. (True, k)\<rparr>"

lemma ex_devices:
  "boot_devices (ex_local b g u) (f\<lparr>bfBlock := []\<rparr>) = Some (Ok [\<lparr>BdName = ''sr0'', BdFSType = [], BdUUID = []\<rparr>])"
proof -
  have r: "Rel ''/sys/class/block'' ''/sys/class/block'' = Some ''.''" "Rel ''/sys/class/block'' ''/sys/class/block/sr0'' = Some ''sr0''"
    "Base ''sr0'' = ''sr0''" by code_simp+
  show ?thesis
    by (simp add: boot_devices_def ex_local_def GetBlockDevices_def ex_block_def sysClassBlock_def r Device_def getFSUUID_def
        FilterZeroSize_def BlockDev_Size_def dev_ioctl_def)
qed

lemma ex_cd_ok: "cfg_ok ex_cd"
proof -
  have "FormatInt 0 = ''0''" by code_simp
  then show ?thesis
    by (simp add: ex_cd_def cfg_ok_def cfg_lines_def trimmed_def ascii_def IsSpace_def line_ok_def lf_def cr_def maxLine_def)
qed

definition ex_flags :: boot_flags where
  "ex_flags = \<lparr>bfNoLoad = False, bfNoExec = False, bfRemove = [], bfReuse = [], bfAppend = [], bfBlock = []\<rparr>"

lemma ex_boot:
  "\<exists>es. boot_main (ex_local b g u) ex_il c ex_flags (Some []) [''/tmp/u-root''] = Some (Ok (BootExec 0, es), [''/tmp/u-root''])"
proof -
  let ?w = "ex_local b g u" and ?d = "\<lparr>BdName = ''sr0'', BdFSType = [], BdUUID = []\<rparr>" and ?k = "[''/tmp/u-root'']"
  let ?mp = "\<lparr>MpPath = ''/tmp/esxi-mount-'', MpDevice = ''/dev/sr0'', MpFSType = ''iso9660'', MpFlags = MS_RDONLY OR MS_NOATIME, MpData = []\<rparr>"
  have d: "DevicePath ?d = ''/dev/sr0''" by code_simp
  have part: "mountPartition ?w ''/dev/sr0'' n k = (Err (LcPartition (EsNoPartition (''/dev/sr0p'' @ FormatNat n))), k)" for n k
    by (simp add: mountPartition_def partNo_def ex_local_def)
  have disk: "LoadDisk ?w ''/dev/sr0'' k = (Err (LcPartition (EsNoPartition (''/dev/sr0p'' @ FormatNat 5))), k)" for k
    by (simp add: LoadDisk_def part)
  obtain opts where o: "esxi_parse (lw_esxi ?w k) f = Ok (opts f)" "EsBootstate (opts f) = bootValid" for k f
  proof
    fix k f
    let ?f = "\<lambda>f. \<lparr>EsTitle = BcTitle ex_cd, EsKernel = Join (Dir f) (BcKernel ex_cd), EsArgs = BcKernel ex_cd @ '' '' @ BcOpt ex_cd,
        EsModules = map (\<lambda>m. \<lparr>CmModule = Join (Dir f) (hd (Fields m)), CmCmdline = m\<rparr>) (BcModules ex_cd),
        EsUpdated = BcUpdated ex_cd, EsBootstate = bootstate_of (BcState ex_cd)\<rparr>"
    show "esxi_parse (lw_esxi ?w k) f = Ok (?f f)" by (rule esxi_parse_written [OF ex_cd_ok]) (simp add: ex_local_def)
    show "EsBootstate (?f f) = bootValid" by (simp add: ex_cd_def bootstate_of_def)
  qed
  obtain img where img: "\<And>k. LoadCDROM ?w ''/dev/sr0'' k = (Ok (img, ?mp), ''/tmp/esxi-mount-'' # k)"
  proof
    fix k
    have "sys_Mount (lw_sys ?w) ''/dev/sr0'' ''/tmp/esxi-mount-'' ''iso9660'' [] (MS_RDONLY OR MS_NOATIME) [] k = (Ok ?mp, ''/tmp/esxi-mount-'' # k)"
      by (simp add: sys_Mount_def ex_local_def ex_mounts_def)
    moreover have "sys_MkdirTemp (lw_sys ?w) ''esxi-mount-'' k = (Some ''/tmp/esxi-mount-'', k)" by (simp add: ex_local_def ex_mounts_def)
    ultimately show "LoadCDROM ?w ''/dev/sr0'' k = (Ok (the (ok_of (getBootImage (lw_esxi ?w []) (opts (Join ''/tmp/esxi-mount-'' ''boot.cfg'')) [] 0 ''/dev/sr0'')), ?mp),
        ''/tmp/esxi-mount-'' # k)"
      by (simp add: LoadCDROM_def mount_config_def o Let_def getBootImage_def ok_of_def)
  qed
  have un: "parseUnmounted ?w ?d (\<lparr>MountPoints = [], PoolTmp = []\<rparr>, ?k) =
      (Ok [OSMultiboot img], \<lparr>MountPoints = [?mp], PoolTmp = []\<rparr>, ''/tmp/esxi-mount-'' # ?k)"
    by (simp add: parseUnmounted_def d disk img Pool_Add_def)
  have lb: "Localboot ?w [?d] (\<lparr>MountPoints = [], PoolTmp = []\<rparr>, ?k) =
      Some (Ok [OSMultiboot img], \<lparr>MountPoints = [?mp], PoolTmp = []\<rparr>, ''/tmp/esxi-mount-'' # ?k)"
    by (simp add: Localboot_def un)
  have "bfBlock ex_flags = []" "bfNoLoad ex_flags = False" "bfNoExec ex_flags = False" by (simp_all add: ex_flags_def)
  moreover have "boot_devices ?w ex_flags = Some (Ok [?d])" using ex_devices [of b g u ex_flags] by (simp add: ex_flags_def)
  moreover have "UnmountAll (lw_sys ?w) MNT_DETACH (\<lparr>MountPoints = [?mp], PoolTmp = []\<rparr>, ''/tmp/esxi-mount-'' # ?k) =
      (Ok (), \<lparr>MountPoints = [?mp], PoolTmp = []\<rparr>, ?k)"
    by (simp add: UnmountAll_def MountPoint_Unmount_def ex_local_def ex_mounts_def)
  ultimately show ?thesis
    by (simp add: boot_main_def lb ShowMenuAndBoot_def ShowMenuAndLoad_def OSImages_def update_image_def ex_il_def)
qed

theorem boot_command_witness:
  "\<forall>b g u c. \<exists>es. boot_main (ex_local b g u) ex_il c ex_flags (Some []) [''/tmp/u-root''] = Some (Ok (BootExec 0, es), [''/tmp/u-root'']) \<and>
     IsDefault (es ! 0)"
proof (intro allI)
  fix b g u c
  obtain es where b: "boot_main (ex_local b g u) ex_il c ex_flags (Some []) [''/tmp/u-root''] = Some (Ok (BootExec 0, es), [''/tmp/u-root''])"
    using ex_boot by blast
  have t: "tracks (ex_local b g u) mset"
    by (auto simp: tracks_def ex_local_def ex_mounts_def split: if_splits)
  have q: "mounts_nothing ex_il mset" by (simp add: mounts_nothing_def ex_il_def)
  have "\<not> bfNoLoad ex_flags" by (simp add: ex_flags_def)
  from boot_command [OF t q this b] show
    "\<exists>es. boot_main (ex_local b g u) ex_il c ex_flags (Some []) [''/tmp/u-root''] = Some (Ok (BootExec 0, es), [''/tmp/u-root'']) \<and> IsDefault (es ! 0)"
    using b by (auto simp: booted_def asked_def)
qed

end
