(* ===== verification/Spec2Isabelle.thy ===== *)
theory Spec2Isabelle imports UioLexer Uio Cmdline GptRoundtrip KInfo Forth MultibootHandoff InitramfsProof KModuleProof Zbi ZImageArm Ebda GrubEnv Bls Syslinux Esxi LocalBoot begin

text \<open>
  The boot loader of the board is LinuxBoot: \<open>src/u-root\<close> is a Go program that runs as the first process of a small
  Linux kernel, finds the operating system to start, prepares its image in memory and hands it over with the system
  call \<open>kexec_load\<close>. This development models the part of it that computes: what is placed where, what is read from
  and written to binary formats, and what is parsed from text.

  Parts of the program and how they interact:
    \<^item> a loader (\<open>boot/linux\<close>, \<open>boot/multiboot\<close>) asks \<open>boot/kexec\<close> for the memory map, which comes from sysfs or from a
      device tree (\<open>dt\<close>), places kernel, initramfs, device tree, purgatory and trampoline in it as segments, and calls
      \<open>Load\<close>, which aligns and merges them (\<open>align\<close>) before the system call;
    \<^item> what it loads is taken apart and put together by \<open>boot/bzimage\<close>, \<open>boot/image\<close>, \<open>boot/zbi\<close>, \<open>boot/zimage\<close>, \<open>cpio\<close> and
      \<open>dt\<close>, over the encoders and wrapping readers of \<open>uio\<close>; the tables for the next kernel come from \<open>boot/ibft\<close>,
      \<open>boot/ebda\<close> and the multiboot information;
    \<^item> the command line of the kernel is split by \<open>shlex\<close> and \<open>cmdline\<close>, paths of archives are joined by \<open>upath\<close>, disks are
      read by \<open>mount/gpt\<close>, drivers are loaded by \<open>kmodule\<close>, small calculations are done by \<open>forth\<close>, and the initramfs itself is
      built by \<open>uroot/initramfs\<close> with \<open>cpio\<close>.

  Conventions. A Go function that returns a value and an error and may panic returns \<open>res\<close>: \<open>Ok\<close>, \<open>Err\<close> or \<open>Panic\<close>
  (theory \<open>Prelude\<close>); one that also changes a state takes and returns it (\<open>sbind\<close>). Structs are records, constants keep
  their names, methods keep theirs with a prefix when two types share one. Unsigned integers have their width as words; \<open>int\<close> and
  \<open>int64\<close> are unbounded integers where the code only counts bytes. A byte slice whose memory is shared is a slice header
  over an explicit heap (\<open>UserMem\<close>); other slices are lists. Maps are association lists, and the order in which Go runs
  over a map is a parameter. A loop that may run forever is a partial function with \<open>None\<close> for not returning; that one returns is then a
  theorem of its own. All other loops are total functions with their termination proofs; no fuel is used.

  Theories, the code they model, and what their lemmas show:
    \<^item> \<open>Prelude\<close>, \<open>GoStd\<close>, \<open>GoStrings\<close>, \<open>GoText\<close>, \<open>Strconv\<close>, \<open>Filepath\<close> (first part), \<open>BinStruct\<close>, \<open>Seeker\<close>: words, results, and what
      the program uses of the standard library: \<open>bytes\<close>, \<open>strings\<close> with its code points, \<open>strconv\<close>, \<open>bufio.Scanner\<close>, \<open>path/filepath\<close>,
      \<open>encoding/binary\<close>, \<open>io\<close>, \<open>sort\<close>. Lemmas: printing and parsing are inverse, lines are read back, encodings are read
      back, the contracts of readers, writers and sorting;
    \<^item> \<open>Align\<close> (\<open>pkg/align\<close>): rounding by masks is rounding of numbers, with its overflow;
    \<^item> \<open>UserMem\<close>, \<open>Ranges\<close>, \<open>Segments\<close>, \<open>MemoryMap\<close>, \<open>KexecMemory\<close>, \<open>AlignMerge\<close>, \<open>KexecLoad\<close> (\<open>pkg/boot/kexec/memory_linux.go\<close>,
      \<open>kexec_load_linux.go\<close>): ranges as sets of addresses, segments over the memory of the process, the memory map as a function from
      addresses to types, the placement of segments as a step relation whose every reachable state keeps segments disjoint and in
      free memory, merging that keeps the byte at every address, and what the system call is given;
    \<^item> \<open>FirmwareMap\<close> (the same file, and \<open>pkg/dt\<close>): the memory map from sysfs and from a device tree;
    \<^item> \<open>UioLexer\<close>, \<open>Uio\<close> (\<open>pkg/uio\<close>): buffers and lexers with a codec for every width, caching, lazy, aligning and line
      readers and writers, each equal to the plain object it wraps;
    \<^item> \<open>DtNode\<close>, \<open>Fdt\<close>, \<open>FdtRoundtrip\<close> (\<open>pkg/dt\<close>): nodes, properties, walking, and the flattened format, which is read back;
    \<^item> \<open>Filepath\<close> (second part, \<open>pkg/upath/safejoin.go\<close>), \<open>Cpio\<close>, \<open>CpioFs\<close>, \<open>CpioRoundtrip\<close> (\<open>pkg/cpio\<close>): archives are read back,
      extraction stays inside its directory and sets modes safely; file systems are traces of calls;
    \<^item> \<open>Initramfs\<close>, \<open>InitramfsProof\<close> (\<open>pkg/uroot/initramfs\<close>): the maps of files stay well-formed, parents come first in the
      archive, adding ends, and the archive is read back;
    \<^item> \<open>Shlex\<close> (\<open>pkg/shlex\<close>), \<open>Cmdline\<close> (\<open>pkg/cmdline\<close>): splitting undoes quoting, filters act on flags as on text;
    \<^item> \<open>Gpt\<close>, \<open>GptRoundtrip\<close> (\<open>pkg/mount/gpt\<close>): what it means that a disk holds a table, and that writing and reading agree;
    \<^item> \<open>BzImage\<close>, \<open>BzKernel\<close>, \<open>KInfo\<close> (\<open>pkg/boot/bzimage\<close>): headers, the compressed kernel, version strings; a kernel is taken apart and put
      together with every other byte in its place;
    \<^item> \<open>LinuxLoad\<close>, \<open>LinuxProof\<close> (\<open>pkg/boot/image\<close>, \<open>pkg/boot/purgatory\<close>, \<open>pkg/boot/linux\<close>): loading a kernel on arm64 and amd64, and what
      lies where when the kernel takes over;
    \<^item> \<open>Multiboot\<close>, \<open>MultibootProof\<close>, \<open>MultibootHandoff\<close>, \<open>Ibft\<close> (\<open>pkg/boot/multiboot\<close>, \<open>pkg/boot/ibft\<close>): the same for multiboot kernels, whose
      information structures name the addresses of what they describe, and the table of iSCSI disks;
    \<^item> \<open>Zbi\<close>, \<open>ZImageArm\<close>, \<open>Ebda\<close> (\<open>pkg/boot/zbi\<close>, \<open>zimage\<close>, \<open>ebda\<close>): images of Zircon and of 32-bit arm, tables in low memory;
    \<^item> \<open>BootImage\<close>, \<open>Curl\<close>, \<open>GrubEnv\<close>, \<open>Bls\<close>, \<open>Syslinux\<close>, \<open>Esxi\<close> (\<open>pkg/boot/linux.go\<close>, \<open>multiboot.go\<close>, \<open>initrd.go\<close>, \<open>pkg/curl/schemes.go\<close>,
      \<open>pkg/boot/grub/entry.go\<close>, \<open>bls\<close>, \<open>syslinux\<close>, \<open>esxi\<close>): configuration files of other boot loaders and the images they name: they are
      read back, do not depend on the order of maps, and every entry is offered once;
    \<^item> \<open>Pci\<close>, \<open>Mount\<close>, \<open>Block\<close>, \<open>GrubCfg\<close> (\<open>pkg/pci\<close>, \<open>pkg/mount\<close>, \<open>pkg/mount/block\<close>, \<open>pkg/boot/grub/grub.go\<close>): the table of PCI names is read
      back, a pool mounts a device once, partitions are found by their label, and a menu of GRUB gives its entries, each with its files;
    \<^item> \<open>Menu\<close>, \<open>LocalBoot\<close> (\<open>pkg/boot/menu\<close>, \<open>pkg/boot/bootcmd\<close>, \<open>pkg/boot/localboot\<close>, \<open>cmds/boot/boot\<close>): what is typed decides what is loaded,
      nothing but an image is booted unasked, the menu does not give up while an image can be loaded, and the whole command leaves
      nothing mounted that it mounted;
    \<^item> \<open>KModule\<close>, \<open>KModuleProof\<close> (\<open>pkg/kmodule\<close>): modules are loaded once and after what they depend on;
    \<^item> \<open>Forth\<close> (\<open>pkg/forth\<close>): the stack machine evaluates postfix arithmetic.

  Parameters stand for what is not in the repository or not computed: the kernel and its system calls, file systems,
  disks, readers and writers under a wrapper, decompressors, the ELF parser, \<open>time.Parse\<close>, regular expressions, the order of map
  iteration. Their contracts are locales (\<open>source\<close>, \<open>sink\<close>, \<open>slice_sort\<close> and others), interpreted on the model's own
  buffers, files and sorting function.

  Not modelled, as the manifest lists it component by component: terminals, networks, devices and their ioctls, process
  control and tracing; the tables of names (PCI vendors, flash chips, system calls); machine code kept as bytes (the
  purgatories); JSON, logs and printing; code over third-party libraries (DHCP, TPM, OpenPGP); the main functions of the commands
  except the ones named above; the tools that run the Go compiler. buildroot, busybox and the scripts of the board are not Go.
\<close>

end
